(* ===== verification/Prelude.thy ===== *)
theory Prelude
  imports Main "HOL-Library.Word"
begin

text \<open>
  The vocabulary shared by every component: the integer types of \<^verbatim>\<open>include/types.h\<close>, its
  alignment and range macros, the status codes of \<^verbatim>\<open>include/vmerr.h\<close>, the byte swaps of
  \<^verbatim>\<open>include/insn.h\<close>, and the generic facts on words and lists that the component theories
  use. A source identifier that starts with two underscores is written with the prefix
  \<^verbatim>\<open>uu_\<close>, one that starts with a single underscore with the prefix \<^verbatim>\<open>u_\<close>, because an
  Isabelle name starts with a letter.
\<close>

unbundle bit_operations_syntax

named_theorems vmerr_defs \<open>the status codes of vmerr.h as numerals\<close>
named_theorems const_defs \<open>numeric constants of the headers\<close>

section \<open>Integer types\<close>

type_synonym u8 = "8 word"
type_synonym u16 = "16 word"
type_synonym u32 = "32 word"
type_synonym u64 = "64 word"

text \<open>\<^verbatim>\<open>size_t\<close>, \<^verbatim>\<open>offset_t\<close> and \<^verbatim>\<open>ulong_t\<close> are \<^verbatim>\<open>unsigned long\<close>, 64 bits in the vmm.\<close>

type_synonym size_t = u64
type_synonym offset_t = u64
type_synonym bytes = "u8 list"

definition u8_of_char :: "char \<Rightarrow> u8" where
  "u8_of_char c = of_nat (of_char c)"

definition bytes_of_string :: "string \<Rightarrow> bytes" where
  "bytes_of_string s = map u8_of_char s"

section \<open>Alignment and range macros\<close>

definition uu_aligned :: "'a::len word \<Rightarrow> 'a word \<Rightarrow> bool" where
  "uu_aligned addr val = (addr AND (val - 1) = 0)"

definition uu_align :: "'a::len word \<Rightarrow> 'a word \<Rightarrow> 'a word" where
  "uu_align addr val = addr AND NOT (val - 1)"

definition uu_align_next :: "'a::len word \<Rightarrow> 'a word \<Rightarrow> 'a word" where
  "uu_align_next addr val = uu_align (addr + val) val"

definition uu_range_inc :: "'a::len word \<Rightarrow> 'a word \<Rightarrow> 'a word \<Rightarrow> bool" where
  "uu_range_inc v s e = (v \<ge> s \<and> v \<le> e)"

definition uu_range_exc :: "'a::len word \<Rightarrow> 'a word \<Rightarrow> 'a word \<Rightarrow> bool" where
  "uu_range_exc v s e = (v \<ge> s \<and> v < e)"

section \<open>Page constants\<close>

definition PAGE_SHIFT :: nat where
  "PAGE_SHIFT = 12"

definition PAGE_SIZE :: u64 where
  "PAGE_SIZE = 4096"

definition page_nr :: "offset_t \<Rightarrow> u64" where
  "page_nr addr = drop_bit PAGE_SHIFT addr"

definition page_addr :: "u64 \<Rightarrow> offset_t" where
  "page_addr bits = push_bit PAGE_SHIFT bits"

lemmas page_defs = PAGE_SHIFT_def PAGE_SIZE_def page_nr_def page_addr_def

section \<open>Status codes\<close>

text \<open>The handlers return one of these bits; callers test them with masks.\<close>

type_synonym vmerr = u32

definition VM_FAIL :: vmerr where
  [vmerr_defs]: "VM_FAIL = 1"

definition VM_FAULT :: vmerr where
  [vmerr_defs]: "VM_FAULT = 2"

definition VM_DONE :: vmerr where
  [vmerr_defs]: "VM_DONE = 4"

definition VM_DONE_LET_RIP :: vmerr where
  [vmerr_defs]: "VM_DONE_LET_RIP = 8"

definition VM_NATIVE :: vmerr where
  [vmerr_defs]: "VM_NATIVE = 16"

definition VM_IGNORE :: vmerr where
  [vmerr_defs]: "VM_IGNORE = 32"

definition VM_INTERN :: vmerr where
  [vmerr_defs]: "VM_INTERN = 64"

definition VM_PARTIAL :: vmerr where
  [vmerr_defs]: "VM_PARTIAL = 128"

section \<open>Byte swaps and little-endian decomposition\<close>

definition swap16 :: "u16 \<Rightarrow> u16" where
  "swap16 x = push_bit 8 x OR drop_bit 8 x"

definition le_bytes :: "nat \<Rightarrow> 'a::len word \<Rightarrow> bytes" where
  "le_bytes n x = map (\<lambda>i. ucast (drop_bit (8 * i) x)) [0..<n]"

fun of_le_bytes :: "bytes \<Rightarrow> 'a::len word" where
  "of_le_bytes [] = 0"
| "of_le_bytes (b # bs) = ucast b OR push_bit 8 (of_le_bytes bs)"

definition swap32 :: "u32 \<Rightarrow> u32" where
  "swap32 x = of_le_bytes (rev (le_bytes 4 x))"

definition swap64 :: "u64 \<Rightarrow> u64" where
  "swap64 x = of_le_bytes (rev (le_bytes 8 x))"

section \<open>Bit fields and loops\<close>

text \<open>Reading and assigning a bit field of \<open>w\<close> bits at bit \<open>sh\<close> of a packed structure.\<close>

definition get_field :: "nat \<Rightarrow> nat \<Rightarrow> 'a::len word \<Rightarrow> 'a word" where
  "get_field sh w x = take_bit w (drop_bit sh x)"

definition set_field :: "nat \<Rightarrow> nat \<Rightarrow> 'a::len word \<Rightarrow> 'a word \<Rightarrow> 'a word" where
  "set_field sh w v x = (x AND NOT (push_bit sh (mask w))) OR push_bit sh (take_bit w v)"

text \<open>A \<^verbatim>\<open>for\<close> loop whose body may fail.\<close>

primrec for_opt :: "('i \<Rightarrow> 's \<Rightarrow> 's option) \<Rightarrow> 'i list \<Rightarrow> 's \<Rightarrow> 's option" where
  "for_opt f [] s = Some s"
| "for_opt f (i # is) s = Option.bind (f i s) (for_opt f is)"

lemma for_opt_append:
  "for_opt f (xs @ ys) s = Option.bind (for_opt f xs s) (for_opt f ys)"
  by (induction xs arbitrary: s) (auto split: Option.bind_split)

lemma bit_get_field: "bit (get_field sh w x) n \<longleftrightarrow> n < w \<and> bit x (sh + n)" for x :: "'a::len word"
  by (auto simp: get_field_def bit_simps add.commute)

lemma bit_set_field:
  "bit (set_field sh w v x) n \<longleftrightarrow>
     n < LENGTH('a) \<and> (if sh \<le> n \<and> n < sh + w then bit v (n - sh) else bit x n)"
  for x :: "'a::len word"
  by (auto simp: set_field_def bit_simps dest: bit_imp_le_length)

lemma get_set_field:
  "sh + w \<le> LENGTH('a) \<Longrightarrow> get_field sh w (set_field sh w v x) = take_bit w v"
  for x :: "'a::len word"
  by (rule bit_eqI) (auto simp: bit_get_field bit_set_field bit_take_bit_iff)

section \<open>Facts on words\<close>

lemma unat_take_bit_mod: "unat (take_bit n a) = unat a mod 2 ^ n"
  for a :: "'a::len word"
  by (simp only: unsigned_take_bit_eq) (simp add: take_bit_eq_mod)

lemma unat_drop_bit_div: "unat (drop_bit n a) = unat a div 2 ^ n"
  for a :: "'a::len word"
  by (simp only: unat_drop_bit_eq) (simp add: drop_bit_eq_div)

lemma unat_u64_less: "unat (x :: u64) < 2 ^ 64"
  using unsigned_less [of x] by simp

lemma and_pow2_minus_1: "a AND (2 ^ n - 1) = take_bit n a"
  for a :: "'a::len word"
  by (simp add: take_bit_eq_mask flip: mask_eq_decr_exp)

lemma uu_align_pow2: "uu_align a (2 ^ n) = push_bit n (drop_bit n a)"
  by (simp add: uu_align_def bit_eq_iff bit_simps flip: mask_eq_decr_exp) auto

lemma uu_aligned_pow2: "uu_aligned a (2 ^ n) \<longleftrightarrow> take_bit n a = 0"
  by (simp add: uu_aligned_def and_pow2_minus_1)

lemma unat_push_drop: "unat (push_bit n (drop_bit n a)) = unat a div 2 ^ n * 2 ^ n"
  for a :: "'a::len word"
proof -
  have "unat a div 2 ^ n * 2 ^ n \<le> unat a" by simp
  also have "\<dots> < 2 ^ LENGTH('a)" by (rule unsigned_less)
  finally show ?thesis
    by (simp only: unsigned_push_bit_eq unat_drop_bit_div)
      (simp add: push_bit_eq_mult take_bit_eq_mod)
qed

lemma unat_uu_align: "unat (uu_align a (2 ^ n)) = unat a div 2 ^ n * 2 ^ n"
  by (simp add: uu_align_pow2 unat_push_drop)

lemma page_addr_aligned: "uu_aligned (page_addr x) PAGE_SIZE"
proof -
  have "take_bit 12 (page_addr x) = 0"
    by (rule bit_eqI) (auto simp: page_addr_def PAGE_SHIFT_def bit_simps)
  then show ?thesis using uu_aligned_pow2 [of "page_addr x" 12] by (simp add: PAGE_SIZE_def)
qed

lemma uu_aligned_unat: "uu_aligned a (2 ^ n) \<longleftrightarrow> 2 ^ n dvd unat a"
proof -
  have "uu_aligned a (2 ^ n) \<longleftrightarrow> unat (take_bit n a) = 0"
    by (simp add: uu_aligned_pow2 unat_eq_0)
  also have "\<dots> \<longleftrightarrow> 2 ^ n dvd unat a"
    by (simp add: unat_take_bit_mod dvd_eq_mod_eq_0)
  finally show ?thesis .
qed

lemma and_lit:
  "x AND 1 = take_bit 1 x" "x AND 7 = take_bit 3 x" "x AND 15 = take_bit 4 x"
  "x AND 0x7f = take_bit 7 x" "x AND 0xff = take_bit 8 x" "x AND 0x1ff = take_bit 9 x"
  "x AND 0x3ff = take_bit 10 x" "x AND 0xfff = take_bit 12 x" "x AND 0xffff = take_bit 16 x"
  for x :: "'a::len word"
  using and_pow2_minus_1 [of x 1] and_pow2_minus_1 [of x 3] and_pow2_minus_1 [of x 4]
    and_pow2_minus_1 [of x 7] and_pow2_minus_1 [of x 8] and_pow2_minus_1 [of x 9]
    and_pow2_minus_1 [of x 10] and_pow2_minus_1 [of x 12] and_pow2_minus_1 [of x 16]
  by simp_all

lemma word_neq_0_bit: "x \<noteq> 0 \<longleftrightarrow> (\<exists>n. bit x n)" for x :: "'a::len word"
  by (metis bit_0_eq bit_eqI bot_apply bot_bool_def)

lemma take_bit_0_bit: "take_bit k x = 0 \<Longrightarrow> n < k \<Longrightarrow> \<not> bit x n" for x :: "'a::len word"
  by (metis bit_0_eq bit_take_bit_iff bot_apply bot_bool_def)

lemma take_bit_small: "unat x < 2 ^ k \<Longrightarrow> take_bit k x = x" for x :: "'a::len word"
  by (metis mod_less unat_take_bit_mod unsigned_word_eqI)

lemma le_bytes_of_le_bytes: "length bs = n \<Longrightarrow> 8 * n \<le> LENGTH('a) \<Longrightarrow> le_bytes n (of_le_bytes bs :: 'a::len word) = bs"
proof (induction bs arbitrary: n)
  case (Cons b bs)
  then obtain k where n: "n = Suc k" "length bs = k" by auto
  let ?r = "of_le_bytes bs :: 'a word"
  have "ucast (ucast b OR push_bit 8 ?r :: 'a word) = b"
    using Cons.prems n by (intro bit_eqI) (auto simp: bit_simps dest: bit_imp_le_length)
  moreover have "ucast (drop_bit (8 * Suc i) (ucast b OR push_bit 8 ?r :: 'a word)) = (ucast (drop_bit (8 * i) ?r) :: u8)" if "i < k" for i
    using Cons.prems n that by (intro bit_eqI) (auto simp: bit_simps algebra_simps dest: bit_imp_le_length)
  then have "map (\<lambda>i. ucast (drop_bit (8 * Suc i) (ucast b OR push_bit 8 ?r :: 'a word))) [0..<k] = le_bytes k ?r"
    by (simp add: le_bytes_def)
  moreover have "le_bytes k ?r = bs" using Cons.IH [of k] Cons.prems n by simp
  ultimately show ?case
    by (simp only: n le_bytes_def upt_conv_Cons [OF zero_less_Suc] map_Suc_upt [symmetric] list.map map_map)
      (simp add: le_bytes_def o_def)
qed (simp add: le_bytes_def)

lemma le_bytes_Suc: "le_bytes (Suc n) x = ucast x # le_bytes n (drop_bit 8 x)"
  by (simp add: le_bytes_def upt_conv_Cons [OF zero_less_Suc] map_Suc_upt [symmetric] o_def drop_bit_drop_bit add.commute
      del: upt_Suc)

lemma of_le_bytes_le_bytes: "of_le_bytes (le_bytes n x) = take_bit (8 * n) x" for x :: "'a::len word"
proof (induction n arbitrary: x)
  case (Suc n)
  have "ucast (ucast x :: u8) OR push_bit 8 (take_bit (8 * n) (drop_bit 8 x)) = take_bit (8 * Suc n) x"
    by (rule bit_eqI) (auto simp: bit_simps dest: bit_imp_le_length)
  then show ?case by (simp add: le_bytes_Suc Suc)
qed (simp add: le_bytes_def)

lemma bit_of_le_bytes:
  "bit (of_le_bytes bs :: 'a::len word) n \<longleftrightarrow> n < LENGTH('a) \<and> n < 8 * length bs \<and> bit (bs ! (n div 8)) (n mod 8)"
proof (induction bs arbitrary: n)
  case (Cons b bs)
  show ?case
  proof (cases "n < 8")
    case True
    then show ?thesis by (auto simp: bit_simps)
  next
    case False
    then have "n div 8 = Suc ((n - 8) div 8)" "n mod 8 = (n - 8) mod 8" by (simp_all add: le_div_geq le_mod_geq)
    with False Cons.IH [of "n - 8"] show ?thesis by (auto simp: bit_simps dest: bit_imp_le_length)
  qed
qed simp

end
