(* ===== verification/Strings.thy ===== *)
theory Strings
  imports Prelude "HOL-Library.Signed_Division"
begin

text \<open>
  The libc of the hypervisor: \<^verbatim>\<open>common/libc/string.c\<close>, the inline functions of
  \<^verbatim>\<open>include/string.h\<close> and the formatted output of \<^verbatim>\<open>common/libc/print.c\<close>.

  A buffer \<^verbatim>\<open>buffer_t\<close> is the list of the bytes written so far, its field \<^verbatim>\<open>sz\<close> is the
  length of that list. A pair \<^verbatim>\<open>(data, len)\<close> of a pointer and a length is the list of the
  \<^verbatim>\<open>len\<close> bytes it designates. A function that reports success through its return value and
  a result through a pointer returns an option.
\<close>

section \<open>Hexadecimal and decimal conversions (string.c)\<close>

definition uu_hextable :: bytes where
  "uu_hextable = [48, 49, 50, 51, 52, 53, 54, 55, 56, 57, 97, 98, 99, 100, 101, 102]"

definition uu_uint8_to_hex :: "u8 \<Rightarrow> bytes" where
  "uu_uint8_to_hex value =
     [uu_hextable ! unat (drop_bit 4 value AND 0xf), uu_hextable ! unat (value AND 0xf)]"

definition uu_buf_add :: "bytes \<Rightarrow> nat \<Rightarrow> u8 \<Rightarrow> bytes" where
  "uu_buf_add buf len c = (if length buf < len then buf @ [c] else buf)"

fun buf_add_all :: "bytes \<Rightarrow> nat \<Rightarrow> bytes \<Rightarrow> bytes" where
  "buf_add_all buf len [] = buf"
| "buf_add_all buf len (c # cs) = buf_add_all (uu_buf_add buf len c) len cs"

text \<open>The first loop of \<^verbatim>\<open>uint64_to_hex\<close> fills \<^verbatim>\<open>rep\<close> with the nibbles, lowest first.\<close>

function uint64_to_hex_rep :: "u64 \<Rightarrow> u64 \<Rightarrow> bytes \<Rightarrow> bytes" where
  "uint64_to_hex_rep value precision rep =
     (if precision \<noteq> 0 \<and> \<not> (precision > 16 \<and> value = 0 \<and> rep \<noteq> [])
      then uint64_to_hex_rep (drop_bit 4 value) (precision - 1)
             (rep @ [uu_hextable ! unat (value AND 0xf)])
      else rep)"
  by pat_completeness auto
termination
  by (relation "measure (\<lambda>(value, precision, rep). unat precision)")
    (auto simp: unat_minus_one unat_gt_0)

declare uint64_to_hex_rep.simps [simp del]

text \<open>The second loop emits \<^verbatim>\<open>rep\<close> backwards; the result is the new buffer and the number
  of nibbles produced, whether or not the buffer could hold them.\<close>

definition uint64_to_hex :: "bytes \<Rightarrow> nat \<Rightarrow> u64 \<Rightarrow> u64 \<Rightarrow> bytes \<times> nat" where
  "uint64_to_hex buf len value precision =
     (let precision' = (if precision = 0 \<or> precision > 16 then - 1 else precision);
          rep = uint64_to_hex_rep value precision' []
      in (buf_add_all buf len (rev rep), length rep))"

definition BAD_NIBBLE :: u8 where
  "BAD_NIBBLE = 255"

definition uu_to_nibble :: "u8 \<Rightarrow> u8" where
  "uu_to_nibble nibble =
     (if nibble \<ge> 97 \<and> nibble \<le> 102 then nibble - 97 + 10
      else if nibble \<ge> 65 \<and> nibble \<le> 70 then nibble - 65 + 10
      else if nibble \<ge> 48 \<and> nibble \<le> 57 then nibble - 48
      else BAD_NIBBLE)"

definition uu_hex_to_uint8 :: "u8 \<Rightarrow> u8 \<Rightarrow> u8 option" where
  "uu_hex_to_uint8 data0 data1 =
     (let n1 = uu_to_nibble data1; n2 = uu_to_nibble data0
      in if n1 = BAD_NIBBLE \<or> n2 = BAD_NIBBLE then None
         else Some (push_bit 4 n2 OR n1))"

fun hex_to_uint64_loop :: "bytes \<Rightarrow> nat \<Rightarrow> u64 \<Rightarrow> nat \<Rightarrow> u64 option" where
  "hex_to_uint64_loop data 0 v shift = Some v"
| "hex_to_uint64_loop data (Suc len) v shift =
     (let nibble = uu_to_nibble (data ! len)
      in if nibble = BAD_NIBBLE then None
         else hex_to_uint64_loop data len (v OR push_bit shift (ucast nibble)) (shift + 4))"

definition hex_to_uint64 :: "bytes \<Rightarrow> u64 option" where
  "hex_to_uint64 data =
     (if length data = 0 then None
      else hex_to_uint64_loop data (min (length data) 16) 0 0)"

fun dec_to_uint64_loop :: "bytes \<Rightarrow> nat \<Rightarrow> u64 \<Rightarrow> u64 \<Rightarrow> u64 option" where
  "dec_to_uint64_loop data 0 v f = Some v"
| "dec_to_uint64_loop data (Suc len) v f =
     (let x = data ! len
      in if x < 48 \<or> x > 57 then None
         else dec_to_uint64_loop data len (v + ucast (x - 48) * f) (f * 10))"

definition dec_to_uint64 :: "bytes \<Rightarrow> u64 option" where
  "dec_to_uint64 data =
     (if length data = 0 then None
      else dec_to_uint64_loop data (min (length data) 20) 0 1)"

section \<open>Scanning (string.h)\<close>

text \<open>
  \<^verbatim>\<open>repnz scasb\<close> with \<^verbatim>\<open>rcx = len\<close>: one step per byte, stopping after the byte that
  matches; the result is the number of bytes stepped over and what is left in \<^verbatim>\<open>rcx\<close>.
\<close>

fun uu_memchr8 :: "bytes \<Rightarrow> u8 \<Rightarrow> nat \<times> nat" where
  "uu_memchr8 [] c = (0, 0)"
| "uu_memchr8 (b # bs) c =
     (if b = c then (1, length bs)
      else (let (d, l) = uu_memchr8 bs c in (Suc d, l)))"

text \<open>The index of the byte found, \<^verbatim>\<open>None\<close> for the null pointer.\<close>

definition strchr :: "bytes \<Rightarrow> u8 \<Rightarrow> nat option" where
  "strchr str c =
     (let (d, l) = uu_memchr8 str c in if l = 0 then None else Some (d - 1))"

section \<open>Formatted output (print.c)\<close>

datatype va_arg = VStr bytes | VInt u64

definition uu_format_add_bin :: "bytes \<Rightarrow> nat \<Rightarrow> u64 \<Rightarrow> nat \<Rightarrow> bytes" where
  "uu_format_add_bin buf len value n =
     buf_add_all buf len
       (map (\<lambda>i. if drop_bit (n - i - 1) value AND 1 \<noteq> 0 then 49 else 48) [0..<n])"

text \<open>The digits of a \<^verbatim>\<open>sint64_t\<close>, lowest first; \<^verbatim>\<open>%\<close> and \<^verbatim>\<open>/\<close> truncate towards zero.\<close>

function format_dec_rep :: "int \<Rightarrow> bytes" where
  "format_dec_rep value =
     (if value = 0 then []
      else (of_int (value smod 10) + 48) # format_dec_rep (value sdiv 10))"
  by pat_completeness auto
termination
proof (relation "measure (\<lambda>v. nat \<bar>v\<bar>)")
  fix v :: int
  assume nz: "v \<noteq> 0"
  have "\<bar>v sdiv 10\<bar> = \<bar>v\<bar> div 10"
    using nz by (simp add: signed_divide_int_def abs_mult abs_sgn_eq)
  also have "\<dots> < \<bar>v\<bar>" using nz by simp
  finally show "(v sdiv 10, v) \<in> measure (\<lambda>v. nat \<bar>v\<bar>)" by simp
qed simp

declare format_dec_rep.simps [simp del]

definition uu_format_add_dec :: "bytes \<Rightarrow> nat \<Rightarrow> u64 \<Rightarrow> bytes" where
  "uu_format_add_dec buf len value =
     (if value = 0 then uu_buf_add buf len 48
      else if sint value < 0
      then buf_add_all (uu_buf_add buf len 45) len (rev (format_dec_rep (sint (- value))))
      else buf_add_all buf len (rev (format_dec_rep (sint value))))"

definition uu_format_add_hex :: "bytes \<Rightarrow> nat \<Rightarrow> u64 \<Rightarrow> u64 \<Rightarrow> bytes" where
  "uu_format_add_hex buf len value precision = fst (uint64_to_hex buf len value precision)"

text \<open>
  One conversion: \<^verbatim>\<open>va_arg\<close> takes the next argument; an argument that is missing or of
  another kind is undefined behaviour in C and \<^verbatim>\<open>None\<close> here. The \<^verbatim>\<open>uint32_t\<close> conversions
  keep the low 32 bits, \<^verbatim>\<open>%d\<close> sign-extends them.
\<close>

fun format_conv :: "bytes \<Rightarrow> nat \<Rightarrow> u8 \<Rightarrow> va_arg list \<Rightarrow> (bytes \<times> va_arg list) option" where
  "format_conv buf len c params =
     (if c = 115 then
        (case params of VStr s # ps \<Rightarrow> Some (buf_add_all buf len s, ps) | _ \<Rightarrow> None)
      else if c = 99 then
        (case params of VInt v # ps \<Rightarrow> Some (uu_buf_add buf len (ucast v), ps) | _ \<Rightarrow> None)
      else if c = 98 then
        (case params of VInt v # ps \<Rightarrow> Some (uu_format_add_bin buf len (take_bit 32 v) 32, ps)
         | _ \<Rightarrow> None)
      else if c = 66 then
        (case params of VInt v # ps \<Rightarrow> Some (uu_format_add_bin buf len v 64, ps) | _ \<Rightarrow> None)
      else if c = 100 then
        (case params of VInt v # ps \<Rightarrow>
           Some (uu_format_add_dec buf len (scast (ucast v :: u32)), ps)
         | _ \<Rightarrow> None)
      else if c = 68 then
        (case params of VInt v # ps \<Rightarrow> Some (uu_format_add_dec buf len v, ps) | _ \<Rightarrow> None)
      else if c = 120 then
        (case params of VInt v # ps \<Rightarrow> Some (uu_format_add_hex buf len (take_bit 32 v) 0, ps)
         | _ \<Rightarrow> None)
      else if c = 88 then
        (case params of VInt v # ps \<Rightarrow> Some (uu_format_add_hex buf len v 0, ps) | _ \<Rightarrow> None)
      else Some (uu_buf_add buf len c, params))"

declare format_conv.simps [simp del]

fun vsnprintf_loop :: "bytes \<Rightarrow> nat \<Rightarrow> bool \<Rightarrow> bytes \<Rightarrow> va_arg list \<Rightarrow> bytes option" where
  "vsnprintf_loop buf len interp [] params = Some buf"
| "vsnprintf_loop buf len interp (c # format) params =
     (if interp then
        (case format_conv buf len c params of
           None \<Rightarrow> None
         | Some (buf', params') \<Rightarrow> vsnprintf_loop buf' len False format params')
      else if c = 37 then vsnprintf_loop buf len True format params
      else vsnprintf_loop (uu_buf_add buf len c) len False format params)"

text \<open>What is written to the destination, terminator included; \<^verbatim>\<open>retval\<close> is its length.\<close>

definition uu_vsnprintf :: "nat \<Rightarrow> bytes \<Rightarrow> va_arg list \<Rightarrow> bytes option" where
  "uu_vsnprintf len format params =
     map_option (\<lambda>buf. buf @ [0])
       (vsnprintf_loop [] (if len \<noteq> 0 then len - 1 else len) False format params)"


section \<open>Facts on the conversions\<close>

text \<open>The reference value of a string of hexadecimal digits, as a 64-bit word.\<close>

definition hexval :: "bytes \<Rightarrow> u64" where
  "hexval bs = foldl (\<lambda>a b. push_bit 4 a OR ucast (uu_to_nibble b)) 0 bs"

definition is_hex :: "u8 \<Rightarrow> bool" where
  "is_hex b = (uu_to_nibble b \<noteq> BAD_NIBBLE)"

text \<open>The reference value of a string of decimal digits.\<close>

definition decval :: "bytes \<Rightarrow> nat" where
  "decval bs = foldl (\<lambda>a b. 10 * a + unat (b - 48)) 0 bs"

definition is_dec :: "u8 \<Rightarrow> bool" where
  "is_dec b = (b \<ge> 48 \<and> b \<le> 57)"

lemma length_uu_hextable [simp]: "length uu_hextable = 16"
  by (simp add: uu_hextable_def)

lemma nibble_lt: "unat (x AND 15) < 16" for x :: "'a::len word"
proof -
  have "unat (x AND 15) = unat (take_bit 4 x)"
    using and_pow2_minus_1 [of x 4] by simp
  also have "\<dots> < 16" by (simp add: unat_take_bit_mod)
  finally show ?thesis .
qed

lemma nibble_hextable_all:
  "list_all (\<lambda>k. uu_to_nibble (uu_hextable ! k) = of_nat k) [0..<16]"
  by code_simp

lemma nibble_hextable: "k < 16 \<Longrightarrow> uu_to_nibble (uu_hextable ! k) = of_nat k"
  using nibble_hextable_all by (simp add: list_all_iff)

lemma is_hex_hextable: "k < 16 \<Longrightarrow> is_hex (uu_hextable ! k)"
proof -
  assume k: "k < 16"
  then have "unat (of_nat k :: u8) = k" by (simp add: unat_of_nat)
  with k show ?thesis
    by (auto simp: is_hex_def nibble_hextable BAD_NIBBLE_def dest: arg_cong [where f = unat])
qed

lemma buf_add_all_eq: "buf_add_all buf len cs = buf @ take (len - length buf) cs"
  by (induction buf len cs rule: buf_add_all.induct)
    (auto simp: uu_buf_add_def Suc_diff_le take_Cons' not_less)

lemma hexval_snoc: "hexval (bs @ [b]) = push_bit 4 (hexval bs) OR ucast (uu_to_nibble b)"
  by (simp add: hexval_def)

lemma hex_to_uint64_loop_eq:
  "len \<le> length data \<Longrightarrow>
   hex_to_uint64_loop data len v shift =
     (if \<forall>b \<in> set (take len data). is_hex b
      then Some (v OR push_bit shift (hexval (take len data))) else None)"
proof (induction data len v shift rule: hex_to_uint64_loop.induct)
  case (1 data v shift)
  then show ?case by (simp add: hexval_def)
next
  case (2 data len v shift)
  then have "take (Suc len) data = take len data @ [data ! len]"
    by (simp add: take_Suc_conv_app_nth)
  with 2 show ?case
    by (auto simp: Let_def is_hex_def hexval_snoc push_bit_or or.assoc or.commute
        or.left_commute add.commute)
qed

text \<open>What \<^verbatim>\<open>hex_to_uint64\<close> computes: the value of the first sixteen digits.\<close>

lemma hex_to_uint64_eq:
  "hex_to_uint64 data =
     (if data \<noteq> [] \<and> (\<forall>b \<in> set (take 16 data). is_hex b)
      then Some (hexval (take 16 data)) else None)"
  by (auto simp: hex_to_uint64_def hex_to_uint64_loop_eq min_def)


lemma push_drop_nibble: "push_bit 4 (drop_bit 4 v) OR (v AND 15) = v" for v :: u64
  using uu_align_pow2 [of v 4] by (simp add: uu_align_def) (simp add: bit_eq_iff bit_simps, blast)

lemma ucast_nibble: "ucast (ucast (take_bit 4 v) :: u8) = take_bit 4 v" for v :: u64
  by (rule bit_eqI) (auto simp: bit_simps)

lemma hexval_rev_Cons:
  "length bs \<le> 15 \<Longrightarrow> hexval (c # bs) = push_bit (4 * length bs) (ucast (uu_to_nibble c)) OR hexval bs"
  by (induction bs rule: rev_induct)
    (simp_all add: hexval_snoc hexval_def push_bit_or or.assoc add.commute)


lemma and_15: "v AND 15 = take_bit 4 v" for v :: "'a::len word"
  using and_pow2_minus_1 [of v 4] by simp

text \<open>The \<open>m\<close> lowest nibbles of \<open>v\<close> as digits, lowest first.\<close>

definition nibs :: "u64 \<Rightarrow> nat \<Rightarrow> bytes" where
  "nibs v m = map (\<lambda>i. uu_hextable ! unat (drop_bit (4 * i) v AND 15)) [0..<m]"

lemma length_nibs [simp]: "length (nibs v m) = m"
  by (simp add: nibs_def)

lemma nibs_Suc: "nibs v (Suc m) = (uu_hextable ! unat (v AND 15)) # nibs (drop_bit 4 v) m"
proof -
  have "[0..<Suc m] = 0 # map Suc [0..<m]" by (simp add: upt_conv_Cons map_Suc_upt)
  then show ?thesis by (simp add: nibs_def add.commute del: upt_Suc)
qed

lemma is_hex_nibs: "b \<in> set (nibs v m) \<Longrightarrow> is_hex b"
  by (auto simp: nibs_def intro!: is_hex_hextable nibble_lt)

lemma hexval_rev_nibs: "m \<le> 16 \<Longrightarrow> hexval (rev (nibs v m)) = take_bit (4 * m) v"
proof (induction m)
  case 0
  then show ?case by (simp add: nibs_def hexval_def)
next
  case (Suc m)
  let ?d = "drop_bit (4 * m) v"
  have "hexval (rev (nibs v (Suc m))) =
      push_bit (4 * m) (ucast (uu_to_nibble (uu_hextable ! unat (?d AND 15)))) OR take_bit (4 * m) v"
    using Suc by (simp add: nibs_def hexval_rev_Cons)
  also have "ucast (uu_to_nibble (uu_hextable ! unat (?d AND 15))) = take_bit 4 ?d"
    by (simp add: nibble_hextable nibble_lt) (simp add: and_15 ucast_nibble)
  also have "push_bit (4 * m) (take_bit 4 ?d) OR take_bit (4 * m) v = take_bit (4 * Suc m) v"
    by (rule bit_eqI) (auto simp: bit_simps)
  finally show ?case .
qed

lemma uint64_to_hex_rep_fixed:
  "p \<le> 16 \<Longrightarrow> uint64_to_hex_rep v (of_nat p) rep = rep @ nibs v p"
proof (induction p arbitrary: v rep)
  case 0
  then show ?case by (simp add: uint64_to_hex_rep.simps nibs_def)
next
  case (Suc p)
  have "of_nat (Suc p) \<noteq> (0 :: u64)" and "\<not> of_nat (Suc p) > (16 :: u64)"
    using Suc.prems by (simp_all add: word_less_nat_alt unat_of_nat unat_eq_0 [symmetric] del: of_nat_Suc)
  then show ?case
    using Suc by (subst uint64_to_hex_rep.simps) (simp add: nibs_Suc)
qed

lemma uint64_to_hex_rep_step:
  "precision \<noteq> 0 \<Longrightarrow> \<not> (precision > 16 \<and> v = 0 \<and> rep \<noteq> []) \<Longrightarrow>
   uint64_to_hex_rep v precision rep =
     uint64_to_hex_rep (drop_bit 4 v) (precision - 1) (rep @ [uu_hextable ! unat (v AND 15)])"
  by (subst uint64_to_hex_rep.simps) simp

lemma uint64_to_hex_rep_free:
  assumes "drop_bit (4 * k) v = 0" and "16 + k < unat precision" and "rep \<noteq> []"
  shows "\<exists>m \<le> k. uint64_to_hex_rep v precision rep = rep @ nibs v m \<and> drop_bit (4 * m) v = 0"
  using assms
proof (induction k arbitrary: v precision rep)
  case 0
  then have "v = 0" and "precision > 16" by (auto simp: word_less_nat_alt)
  with 0 show ?case by (subst uint64_to_hex_rep.simps) (simp add: nibs_def)
next
  case (Suc k)
  then have big: "precision > 16" "precision \<noteq> 0"
    by (auto simp: word_less_nat_alt)
  show ?case
  proof (cases "v = 0")
    case True
    with Suc.prems big show ?thesis
      by (subst uint64_to_hex_rep.simps) (auto simp: nibs_def)
  next
    case False
    let ?rep = "rep @ [uu_hextable ! unat (v AND 15)]"
    have "drop_bit (4 * k) (drop_bit 4 v) = 0" using Suc.prems(1) by (simp add: add.commute)
    moreover have "16 + k < unat (precision - 1)"
      using Suc.prems(2) big by (simp add: unat_minus_one)
    ultimately obtain m where m: "m \<le> k" "drop_bit (4 * m) (drop_bit 4 v) = 0"
      and eq: "uint64_to_hex_rep (drop_bit 4 v) (precision - 1) ?rep = ?rep @ nibs (drop_bit 4 v) m"
      using Suc.IH [of "drop_bit 4 v" "precision - 1" ?rep] by auto
    have "uint64_to_hex_rep v precision rep = rep @ nibs v (Suc m)"
      using False big eq by (simp add: uint64_to_hex_rep_step nibs_Suc)
    with m show ?thesis by (auto simp: add.commute intro!: exI [of _ "Suc m"])
  qed
qed

text \<open>Without a precision the loop stops after at most sixteen digits, at least one.\<close>

lemma uint64_to_hex_rep_auto:
  "\<exists>m. 1 \<le> m \<and> m \<le> 16 \<and> uint64_to_hex_rep v (- 1) [] = nibs v m \<and> drop_bit (4 * m) v = 0"
proof -
  let ?c = "[uu_hextable ! unat (v AND 15)]"
  have "drop_bit (4 * 15) (drop_bit 4 v) = 0"
    by (rule bit_eqI) (auto simp: bit_simps dest: bit_imp_le_length)
  moreover have "16 + 15 < unat (- 2 :: u64)" by simp
  ultimately obtain m where m: "m \<le> 15" "drop_bit (4 * m) (drop_bit 4 v) = 0"
    and eq: "uint64_to_hex_rep (drop_bit 4 v) (- 2) ?c = ?c @ nibs (drop_bit 4 v) m"
    using uint64_to_hex_rep_free [of 15 "drop_bit 4 v" "- 2" ?c] by auto
  have "uint64_to_hex_rep v (- 1) [] = nibs v (Suc m)"
    using eq by (simp add: uint64_to_hex_rep_step nibs_Suc)
  with m show ?thesis by (auto simp: add.commute intro!: exI [of _ "Suc m"])
qed

lemma take_bit_drop_bit_0: "drop_bit n v = 0 \<Longrightarrow> take_bit n v = v" for v :: "'a::len word"
  by (metis bits_ident push_bit_of_0 add_0)

text \<open>The number of digits: the array \<^verbatim>\<open>rep[16]\<close> of the code never overflows.\<close>

lemma uint64_to_hex_cases:
  obtains m where "1 \<le> m" "m \<le> 16"
    "uint64_to_hex buf len v precision = (buf @ take (len - length buf) (rev (nibs v m)), m)"
    "take_bit (4 * m) v = (if precision = 0 \<or> precision > 16 then v
       else take_bit (4 * unat precision) v)"
proof (cases "precision = 0 \<or> precision > 16")
  case True
  obtain m where m: "1 \<le> m" "m \<le> 16" "uint64_to_hex_rep v (- 1) [] = nibs v m"
    and z: "drop_bit (4 * m) v = 0"
    using uint64_to_hex_rep_auto by blast
  from z have "take_bit (4 * m) v = v" by (rule take_bit_drop_bit_0)
  with True m show ?thesis
    by (intro that [of m]) (auto simp: uint64_to_hex_def buf_add_all_eq)
next
  case False
  then have "1 \<le> unat precision" "unat precision \<le> 16"
    by (auto simp: word_less_nat_alt not_less unat_gt_0 Suc_le_eq)
  moreover have "uint64_to_hex_rep v precision [] = nibs v (unat precision)"
    using calculation uint64_to_hex_rep_fixed [of "unat precision" v "[]"] by simp
  ultimately show ?thesis
    using False by (intro that [of "unat precision"]) (auto simp: uint64_to_hex_def buf_add_all_eq)
qed


section \<open>Properties\<close>

text \<open>What \<^verbatim>\<open>uint64_to_hex\<close> prints, \<^verbatim>\<open>hex_to_uint64\<close> reads back: the whole
  value when no usable precision is given, its lowest \<open>precision\<close> digits otherwise; and never
  more than sixteen digits are produced, so that the array \<^verbatim>\<open>rep\<close> of the code is not
  overrun.\<close>

theorem uint64_hex_round_trip:
  assumes "16 \<le> len"
  shows "hex_to_uint64 (fst (uint64_to_hex [] len v precision)) =
           Some (if precision = 0 \<or> precision > 16 then v else take_bit (4 * unat precision) v)
       \<and> snd (uint64_to_hex [] len v precision) \<in> {1..16}"
proof -
  obtain m where m: "1 \<le> m" "m \<le> 16"
    and eq: "uint64_to_hex [] len v precision = ([] @ take (len - length ([] :: bytes)) (rev (nibs v m)), m)"
    and val: "take_bit (4 * m) v =
      (if precision = 0 \<or> precision > 16 then v else take_bit (4 * unat precision) v)"
    by (rule uint64_to_hex_cases)
  have "fst (uint64_to_hex [] len v precision) = rev (nibs v m)"
    using m assms by (simp add: eq)
  moreover have "rev (nibs v m) \<noteq> []" using m by (metis length_rev length_nibs list.size(3) not_one_le_zero)
  ultimately have "hex_to_uint64 (fst (uint64_to_hex [] len v precision)) = Some (take_bit (4 * m) v)"
    using m is_hex_nibs [of _ v m] by (simp add: hex_to_uint64_eq hexval_rev_nibs)
  with m show ?thesis by (simp only: val eq) simp
qed

theorem uint64_hex_round_trip_witness:
  "hex_to_uint64 (fst (uint64_to_hex [] 20 0xdead 0)) = Some 0xdead"
  using uint64_hex_round_trip [of 20 "0xdead" 0] by simp

lemma decval_snoc: "decval (bs @ [b]) = 10 * decval bs + unat (b - 48)"
  by (simp add: decval_def)

lemma dec_to_uint64_loop_eq:
  "len \<le> length data \<Longrightarrow>
   dec_to_uint64_loop data len v f =
     (if \<forall>b \<in> set (take len data). is_dec b
      then Some (v + f * of_nat (decval (take len data))) else None)"
proof (induction data len v f rule: dec_to_uint64_loop.induct)
  case (1 data v f)
  then show ?case by (simp add: decval_def)
next
  case (2 data len v f)
  then have "take (Suc len) data = take len data @ [data ! len]"
    by (simp add: take_Suc_conv_app_nth)
  moreover have "is_dec x \<longleftrightarrow> \<not> (x < 48 \<or> x > 57)" for x
    by (auto simp: is_dec_def not_less)
  ultimately show ?case
    using 2 by (auto simp: Let_def decval_snoc algebra_simps)
qed

text \<open>Reading a decimal string gives the value of its first twenty digits modulo
  \<open>2 ^ 64\<close>, and an error exactly when the string is empty or one of these is not a digit.\<close>

theorem dec_to_uint64_spec:
  "dec_to_uint64 data =
     (if data \<noteq> [] \<and> list_all is_dec (take 20 data)
      then Some (of_nat (decval (take 20 data))) else None)"
  by (auto simp: dec_to_uint64_def dec_to_uint64_loop_eq min_def list_all_iff)

lemma length_uu_buf_add: "length buf \<le> len \<Longrightarrow> length (uu_buf_add buf len c) \<le> len"
  by (simp add: uu_buf_add_def)

lemma length_buf_add_all: "length buf \<le> len \<Longrightarrow> length (buf_add_all buf len cs) \<le> len"
  by (simp add: buf_add_all_eq)

lemma length_uint64_to_hex:
  "length buf \<le> len \<Longrightarrow> length (fst (uint64_to_hex buf len v p)) \<le> len"
  by (simp add: uint64_to_hex_def Let_def length_buf_add_all)

lemmas length_format = length_uu_buf_add length_buf_add_all length_uint64_to_hex

lemma length_format_conv:
  "format_conv buf len c ps = Some (buf', ps') \<Longrightarrow> length buf \<le> len \<Longrightarrow> length buf' \<le> len"
  by (auto simp: format_conv.simps uu_format_add_bin_def uu_format_add_dec_def
      uu_format_add_hex_def length_format split: if_splits list.splits va_arg.splits)

lemma length_vsnprintf_loop:
  "vsnprintf_loop buf len interp fmt ps = Some buf' \<Longrightarrow> length buf \<le> len \<Longrightarrow> length buf' \<le> len"
  by (induction buf len interp fmt ps rule: vsnprintf_loop.induct)
    (auto simp: length_format dest: length_format_conv split: if_splits option.splits)

text \<open>Formatted output never writes more bytes than the buffer holds (one byte is written
  even when the caller says the buffer has none), and what it writes is terminated.\<close>

theorem uu_vsnprintf_bounded:
  assumes "uu_vsnprintf len format params = Some out"
  shows "out \<noteq> [] \<and> last out = 0 \<and> length out \<le> max len 1"
  using assms length_vsnprintf_loop [of "[]" "if len \<noteq> 0 then len - 1 else len" False format params]
  by (auto simp: uu_vsnprintf_def split: if_splits)

theorem uu_vsnprintf_bounded_witness:
  "length (the (uu_vsnprintf 6 [97, 61, 37, 100, 10] [VInt 1234])) \<le> 6 \<and>
   uu_vsnprintf 6 [97, 61, 37, 100, 10] [VInt 1234] = Some [97, 61, 49, 50, 51, 0]"
proof -
  have out: "uu_vsnprintf 6 [97, 61, 37, 100, 10] [VInt 1234] = Some [97, 61, 49, 50, 51, 0]"
    by code_simp
  from uu_vsnprintf_bounded [OF out] show ?thesis by (simp add: out)
qed

lemma uu_memchr8_found:
  "c \<notin> set xs \<Longrightarrow> uu_memchr8 (xs @ c # ys) c = (Suc (length xs), length ys)"
  by (induction xs) auto

lemma uu_memchr8_absent: "c \<notin> set xs \<Longrightarrow> uu_memchr8 xs c = (length xs, 0)"
  by (induction xs) auto

text \<open>\<^verbatim>\<open>strchr\<close> returns the first position of the character, but only when that
  position is not the last of the string: it takes the count left by the scan for the
  outcome of the search, and the count is also zero when the last byte matches.\<close>

theorem strchr_spec:
  "strchr str c = (if c \<in> set (butlast str) then Some (length (takeWhile (\<lambda>b. b \<noteq> c) str)) else None)"
proof (cases "c \<in> set str")
  case True
  then obtain xs ys where s: "str = xs @ c # ys" "c \<notin> set xs" by (metis split_list_first)
  then have "takeWhile (\<lambda>b. b \<noteq> c) str = xs" by (induction xs arbitrary: str) auto
  with s show ?thesis
    by (cases "ys = []") (simp_all add: strchr_def uu_memchr8_found butlast_append)
next
  case False
  then show ?thesis by (auto simp: strchr_def uu_memchr8_absent dest: in_set_butlastD)
qed

end
