(* ===== verification/Cdll.thy ===== *)
theory Cdll
  imports Prelude
begin

text \<open>
  The circular doubly linked lists of \<^verbatim>\<open>include/cdll.h\<close>, as the code has them: cells of a
  type \<open>'c\<close> whose \<^verbatim>\<open>next\<close> and \<^verbatim>\<open>prev\<close> fields live in a heap, and a list pointer that is
  null (\<^verbatim>\<open>None\<close>) or the address of the first cell. Each macro becomes a function on the heap
  and the list pointer, with the same assignments in the same order. The predicate \<open>cdll\<close> says
  that a heap and a pointer represent a list of cells; the lemmas show that the macros are
  the operations on that list one expects of them, and that they touch no other cell.
\<close>

section \<open>The macros\<close>

record 'c cdll_heap =
  nxt :: "'c \<Rightarrow> 'c"
  prv :: "'c \<Rightarrow> 'c"

definition set_next :: "'c \<Rightarrow> 'c \<Rightarrow> 'c cdll_heap \<Rightarrow> 'c cdll_heap" where
  "set_next c v h = h\<lparr>nxt := (nxt h)(c := v)\<rparr>"

definition set_prev :: "'c \<Rightarrow> 'c \<Rightarrow> 'c cdll_heap \<Rightarrow> 'c cdll_heap" where
  "set_prev c v h = h\<lparr>prv := (prv h)(c := v)\<rparr>"

fun uu_cdll_add :: "'c option \<Rightarrow> 'c \<Rightarrow> 'c cdll_heap \<Rightarrow> 'c cdll_heap" where
  "uu_cdll_add (Some lst) new h =
     (let h1 = set_next new lst h;
          h2 = set_prev new (prv h1 lst) h1;
          h3 = set_next (prv h2 lst) new h2
      in set_prev lst new h3)"
| "uu_cdll_add None new h = set_next new new (set_prev new new h)"

definition cdll_fill :: "'c option \<Rightarrow> 'c \<Rightarrow> 'c cdll_heap \<Rightarrow> 'c option \<times> 'c cdll_heap" where
  "cdll_fill lst new h =
     (let h' = uu_cdll_add lst new h
      in (if lst = None then Some new else lst, h'))"

definition cdll_push :: "'c option \<Rightarrow> 'c \<Rightarrow> 'c cdll_heap \<Rightarrow> 'c option \<times> 'c cdll_heap" where
  "cdll_push lst new h = (Some new, uu_cdll_add lst new h)"

text \<open>The value of the statement expression first, then the list pointer and the heap.\<close>

fun cdll_pop :: "'c option \<Rightarrow> 'c cdll_heap \<Rightarrow> 'c option \<times> 'c option \<times> 'c cdll_heap" where
  "cdll_pop None h = (None, None, h)"
| "cdll_pop (Some lst) h =
     (if lst = nxt h lst then (Some lst, None, h)
      else (let h1 = set_prev (nxt h lst) (prv h lst) h;
                h2 = set_next (prv h1 lst) (nxt h1 lst) h1
            in (Some lst, Some (nxt h2 lst), h2)))"

fun cdll_del :: "'c option \<Rightarrow> 'c \<Rightarrow> 'c cdll_heap \<Rightarrow> 'c option \<times> 'c cdll_heap" where
  "cdll_del None cel h = (None, h)"
| "cdll_del (Some lst) cel h =
     (if lst = nxt h lst \<and> lst = cel then (None, h)
      else (let h1 = set_prev (nxt h cel) (prv h cel) h;
                h2 = set_next (prv h1 cel) (nxt h1 cel) h1
            in (if cel = lst then Some (nxt h2 lst) else Some lst, h2)))"

fun cdll_insert_before ::
    "'c option \<Rightarrow> 'c \<Rightarrow> 'c \<Rightarrow> 'c cdll_heap \<Rightarrow> 'c option \<times> 'c cdll_heap" where
  "cdll_insert_before None cel ref h = (None, h)"
| "cdll_insert_before (Some lst) cel ref h =
     (let h1 = set_prev cel (prv h ref) h;
          h2 = set_next (prv h1 ref) cel h1;
          h3 = set_next cel ref h2;
          h4 = set_prev ref cel h3
      in (if ref = lst then Some cel else Some lst, h4))"

text \<open>The loop of \<^verbatim>\<open>cdll_search\<close>. On a heap that is not a circular list it may not end:
  \<^verbatim>\<open>None\<close> is a run that does not return.\<close>

partial_function (option) cdll_search_loop ::
    "('c \<Rightarrow> 'c) \<Rightarrow> 'c \<Rightarrow> 'c \<Rightarrow> 'c \<Rightarrow> 'c option" where
  "cdll_search_loop next lst cel tmp =
     (if tmp \<noteq> cel \<and> next tmp \<noteq> lst then cdll_search_loop next lst cel (next tmp)
      else Some tmp)"

fun cdll_search :: "'c option \<Rightarrow> 'c \<Rightarrow> 'c cdll_heap \<Rightarrow> bool option" where
  "cdll_search None cel h = Some False"
| "cdll_search (Some lst) cel h =
     map_option (\<lambda>tmp. tmp = cel) (cdll_search_loop (nxt h) lst cel lst)"

section \<open>Representation of a list of cells\<close>

lemma set_next_sel [simp]:
  "nxt (set_next c v h) = (nxt h)(c := v)" "prv (set_next c v h) = prv h"
  by (simp_all add: set_next_def)

lemma set_prev_sel [simp]:
  "prv (set_prev c v h) = (prv h)(c := v)" "nxt (set_prev c v h) = nxt h"
  by (simp_all add: set_prev_def)

text \<open>From the cell \<open>a\<close> through the cells \<open>xs\<close> to the cell \<open>b\<close>, linked both ways.\<close>

fun links :: "'c cdll_heap \<Rightarrow> 'c \<Rightarrow> 'c list \<Rightarrow> 'c \<Rightarrow> bool" where
  "links h a [] b = (nxt h a = b \<and> prv h b = a)"
| "links h a (x # xs) b = (nxt h a = x \<and> prv h x = a \<and> links h x xs b)"

fun cdll :: "'c cdll_heap \<Rightarrow> 'c option \<Rightarrow> 'c list \<Rightarrow> bool" where
  "cdll h p [] = (p = None)"
| "cdll h p (a # xs) = (p = Some a \<and> distinct (a # xs) \<and> links h a xs a)"

lemma links_append [simp]:
  "links h a (xs @ y # ys) b \<longleftrightarrow> links h a xs y \<and> links h y ys b"
  by (induction xs arbitrary: a) auto

lemma links_cong:
  assumes "\<And>c. c \<in> set (a # xs) \<Longrightarrow> nxt h' c = nxt h c"
    and "\<And>c. c \<in> set (b # xs) \<Longrightarrow> prv h' c = prv h c"
  shows "links h' a xs b = links h a xs b"
  using assms by (induction xs arbitrary: a) auto

lemma links_last: "links h a xs b \<Longrightarrow> prv h b = last (a # xs)"
  by (induction xs arbitrary: a) auto

text \<open>A list is unaffected by changes to cells that are not in it.\<close>

lemma cdll_frame:
  assumes "\<And>c. c \<in> set xs \<Longrightarrow> nxt h' c = nxt h c \<and> prv h' c = prv h c"
  shows "cdll h' p xs = cdll h p xs"
proof (cases xs)
  case (Cons a ys)
  with assms have "links h' a ys a = links h a ys a" by (intro links_cong) auto
  with Cons show ?thesis by simp
qed simp

lemma cdll_distinct: "cdll h p xs \<Longrightarrow> distinct xs"
  by (cases xs) auto

lemma cdll_ptr: "cdll h p xs \<Longrightarrow> p = (if xs = [] then None else Some (hd xs))"
  by (cases xs) auto

lemma cdll_rotate:
  "cdll h p (a # xs) \<Longrightarrow> xs \<noteq> [] \<Longrightarrow> cdll h (Some (hd xs)) (xs @ [a])"
  by (cases xs) auto

text \<open>A ring can be entered at any of its cells.\<close>

lemma cdll_rotate_append:
  assumes "cdll h p (xs @ a # ys)"
  shows "cdll h (Some a) (a # ys @ xs)"
proof (cases xs)
  case Nil
  with assms show ?thesis by simp
next
  case (Cons x xs')
  with assms show ?thesis by auto
qed

lemma cdll_tail_neq:
  assumes "cdll h p (a # xs)" and "xs \<noteq> []"
  shows "nxt h a \<noteq> a" "prv h a \<noteq> a" "nxt h a = hd xs"
proof -
  obtain y ys where xs: "xs = y # ys" using assms by (cases xs) auto
  with assms show "nxt h a \<noteq> a" and "nxt h a = hd xs" by auto
  have "prv h a = last xs" using assms xs links_last [of h a xs a] by simp
  moreover have "last xs \<in> set xs" using assms(2) by simp
  ultimately show "prv h a \<noteq> a" using assms(1) by auto
qed

section \<open>The operations on the list\<close>

declare uu_cdll_add.simps [simp del]

text \<open>Linking a new cell between the last and the first: the cell joins at the end.\<close>

lemma uu_cdll_add_links:
  assumes "cdll h p xs" and "new \<notin> set xs"
  shows "cdll (uu_cdll_add p new h) (Some (hd (xs @ [new]))) (xs @ [new])"
proof (cases xs)
  case Nil
  with assms show ?thesis by (simp add: uu_cdll_add.simps)
next
  case (Cons a ys)
  show ?thesis
  proof (cases ys rule: rev_cases)
    case Nil
    with assms \<open>xs = a # ys\<close> show ?thesis by (auto simp: Let_def uu_cdll_add.simps)
  next
    case (snoc zs l)
    let ?h = "uu_cdll_add p new h"
    have p: "p = Some a" and l: "links h a zs l" "nxt h l = a" "prv h a = l"
      using assms Cons snoc by auto
    have "links ?h a zs l = links h a zs l"
      using assms Cons snoc by (intro links_cong) (auto simp: Let_def uu_cdll_add.simps)
    with assms Cons snoc p l show ?thesis by (auto simp: Let_def uu_cdll_add.simps)
  qed
qed

lemma cdll_fill_append:
  assumes "cdll h p xs" and "new \<notin> set xs" and "cdll_fill p new h = (p', h')"
  shows "cdll h' p' (xs @ [new])"
  using uu_cdll_add_links [OF assms(1,2)] assms(1,3)
  by (cases xs) (auto simp: cdll_fill_def Let_def)

lemma cdll_push_Cons:
  assumes "cdll h p xs" and "new \<notin> set xs" and "cdll_push p new h = (p', h')"
  shows "cdll h' p' (new # xs)"
proof -
  have "p' = Some new" "h' = uu_cdll_add p new h" using assms(3) by (auto simp: cdll_push_def)
  then show ?thesis
    using cdll_rotate_append [OF uu_cdll_add_links [OF assms(1,2)]] by simp
qed

text \<open>Unlinking a cell, the part \<^verbatim>\<open>cdll_pop\<close> and \<^verbatim>\<open>cdll_del\<close> share.\<close>

definition unlink :: "'c \<Rightarrow> 'c cdll_heap \<Rightarrow> 'c cdll_heap" where
  "unlink cel h =
     set_next (prv h cel) (nxt h cel) (set_prev (nxt h cel) (prv h cel) h)"

lemma cdll_pop_unlink:
  "nxt h a \<noteq> a \<Longrightarrow> prv h a \<noteq> a \<Longrightarrow> cdll_pop (Some a) h = (Some a, Some (nxt h a), unlink a h)"
  by (simp add: unlink_def Let_def)

lemma cdll_del_unlink:
  "nxt h cel \<noteq> cel \<Longrightarrow> prv h cel \<noteq> cel \<Longrightarrow>
   cdll_del (Some a) cel h = (Some (if cel = a then nxt h a else a), unlink cel h)"
  by (auto simp add: unlink_def Let_def)

lemma unlink_hd:
  assumes "cdll h p (a # xs)" and "xs \<noteq> []"
  shows "cdll (unlink a h) (Some (hd xs)) xs"
proof -
  obtain y ys where xs: "xs = y # ys" using assms by (cases xs) auto
  show ?thesis
  proof (cases ys rule: rev_cases)
    case Nil
    with assms xs show ?thesis by (auto simp: unlink_def)
  next
    case (snoc zs l)
    have "links (unlink a h) y zs l = links h y zs l"
      using assms xs snoc by (intro links_cong) (auto simp: unlink_def)
    with assms xs snoc show ?thesis by (auto simp: unlink_def)
  qed
qed

lemma unlink_mid:
  assumes "cdll h p (f # xs @ a # ys)"
  shows "cdll (unlink a h) (Some f) (f # xs @ ys)"
proof -
  have "cdll h (Some a) (a # ys @ f # xs)"
    using cdll_rotate_append [of h p "f # xs" a ys] assms by simp
  then have "cdll (unlink a h) (Some (hd (ys @ f # xs))) (ys @ f # xs)"
    by (rule unlink_hd) simp
  from cdll_rotate_append [OF this] show ?thesis by simp
qed

declare cdll_pop.simps(2) [simp del] cdll_del.simps(2) [simp del]

lemma cdll_pop_Cons:
  assumes "cdll h p (a # xs)"
  shows "\<exists>p' h'. cdll_pop p h = (Some a, p', h') \<and> cdll h' p' xs"
proof (cases "xs = []")
  case True
  with assms show ?thesis by (auto simp: cdll_pop.simps)
next
  case False
  note neq = cdll_tail_neq [OF assms False]
  have "p = Some a" using assms by simp
  with neq unlink_hd [OF assms False] show ?thesis by (simp add: cdll_pop_unlink)
qed

lemma cdll_del_remove1:
  assumes "cdll h p xs" and "cel \<in> set xs" and "cdll_del p cel h = (p', h')"
  shows "cdll h' p' (remove1 cel xs)"
proof -
  obtain a ys where xs: "xs = a # ys" and p: "p = Some a"
    using assms(1,2) by (cases xs) auto
  consider "cel = a" "ys = []" | "cel = a" "ys \<noteq> []"
    | us vs where "cel \<noteq> a" "ys = us @ cel # vs" "cel \<notin> set us"
    using assms(2) xs by (metis set_ConsD split_list_first)
  then show ?thesis
  proof cases
    case 1
    with assms xs p show ?thesis by (auto simp: cdll_del.simps)
  next
    case 2
    have c: "cdll h p (a # ys)" using assms xs by simp
    note neq = cdll_tail_neq [OF c 2(2)]
    with unlink_hd [OF c 2(2)] assms(3) 2 xs p show ?thesis by (auto simp: cdll_del_unlink)
  next
    case 3
    have c: "cdll h p (a # us @ cel # vs)" using assms xs 3 by simp
    then have "cdll h (Some cel) (cel # vs @ a # us)"
      using cdll_rotate_append [of h p "a # us" cel vs] by simp
    note neq = cdll_tail_neq [OF this]
    with unlink_mid [OF c] assms(3) 3 xs p show ?thesis
      by (auto simp: cdll_del_unlink remove1_append)
  qed
qed

lemma cdll_insert_before_front:
  assumes "cdll h (Some ref) (ref # xs)" and "cel \<notin> set (ref # xs)"
  shows "snd (cdll_insert_before (Some lst) cel ref h) = snd (cdll_push (Some ref) cel h)"
  using assms links_last [of h ref xs ref]
  by (auto simp: cdll_push_def uu_cdll_add.simps Let_def set_next_def set_prev_def fun_eq_iff
      intro!: cdll_heap.equality)

lemma cdll_insert_before_inserts:
  assumes "cdll h p (us @ ref # vs)" and "cel \<notin> set (us @ ref # vs)"
    and "cdll_insert_before p cel ref h = (p', h')"
  shows "cdll h' p' (us @ cel # ref # vs)"
proof -
  obtain lst where p: "p = Some lst" "lst = hd (us @ [ref])"
    using assms(1) by (cases us) auto
  have r: "cdll h (Some ref) (ref # vs @ us)" by (rule cdll_rotate_append [OF assms(1)])
  have new: "cel \<notin> set (ref # vs @ us)" using assms(2) by auto
  have "cdll h' (Some cel) (cel # ref # vs @ us)"
    using cdll_push_Cons [OF r new] cdll_insert_before_front [OF r new, of lst] assms(3) p
    by (auto simp: cdll_push_def)
  from this have ring: "cdll h' (Some (hd (us @ [cel]))) (us @ cel # ref # vs)"
    using cdll_rotate_append [of h' "Some cel" "cel # ref # vs"] by (cases us) auto
  have "p' = Some (hd (us @ [cel]))"
    using assms p by (cases us) (auto simp: Let_def)
  with ring show ?thesis by simp
qed

section \<open>Search\<close>

lemma cdll_search_loop_eq:
  assumes "links h a xs lst" and "lst \<notin> set xs"
  shows "cdll_search_loop (nxt h) lst cel a = Some (if cel \<in> set (a # xs) then cel else last (a # xs))"
  using assms
proof (induction xs arbitrary: a)
  case Nil
  then show ?case by (subst cdll_search_loop.simps) auto
next
  case (Cons x xs)
  then show ?case by (subst cdll_search_loop.simps) auto
qed

lemma cdll_search_iff:
  assumes "cdll h p xs"
  shows "cdll_search p cel h = Some (cel \<in> set xs)"
proof (cases xs)
  case Nil
  with assms show ?thesis by simp
next
  case (Cons a ys)
  with assms have "cdll_search_loop (nxt h) a cel a = Some (if cel \<in> set xs then cel else last xs)"
    using cdll_search_loop_eq [of h a ys a cel] by auto
  moreover have "last xs \<in> set xs" using Cons by simp
  ultimately show ?thesis using assms Cons by auto
qed

section \<open>Frames\<close>

lemma ring_closed:
  assumes "cdll h p xs" and "c \<in> set xs"
  shows "nxt h c \<in> set xs" "prv h c \<in> set xs"
proof -
  obtain us vs where xs: "xs = us @ c # vs" using assms(2) by (metis split_list)
  then have r: "cdll h (Some c) (c # vs @ us)" using assms(1) cdll_rotate_append by metis
  have eq: "set xs = set (c # vs @ us)" using xs by auto
  from r show "nxt h c \<in> set xs" unfolding eq by (cases "vs @ us") auto
  have "prv h c = last (c # vs @ us)" using r links_last [of h c "vs @ us" c] by simp
  then show "prv h c \<in> set xs" unfolding eq by (metis last_in_set list.distinct(1))
qed

lemma cdll_ptr_in: "cdll h (Some a) xs \<Longrightarrow> a \<in> set xs"
  by (cases xs) auto

lemma cdll_push_frame:
  assumes "cdll h p xs" and "cdll_push p new h = (p', h')" and "c \<notin> insert new (set xs)"
  shows "nxt h' c = nxt h c" "prv h' c = prv h c"
proof -
  have "\<And>lst. p = Some lst \<Longrightarrow> lst \<in> set xs \<and> prv h lst \<in> set xs"
    using assms(1) cdll_ptr_in ring_closed by metis
  with assms(2,3) show "nxt h' c = nxt h c" "prv h' c = prv h c"
    by (cases p; auto simp: cdll_push_def uu_cdll_add.simps Let_def)+
qed

lemma cdll_del_frame:
  assumes "cdll h p xs" and "cel \<in> set xs" and "cdll_del p cel h = (p', h')" and "c \<notin> set xs"
  shows "nxt h' c = nxt h c" "prv h' c = prv h c"
  using ring_closed [OF assms(1,2)] assms(3,4)
  by (cases p; auto simp: cdll_del.simps Let_def split: if_splits)+

lemma cdll_pop_frame:
  assumes "cdll h p xs" and "cdll_pop p h = (r, p', h')" and "c \<notin> set xs"
  shows "nxt h' c = nxt h c" "prv h' c = prv h c"
proof -
  have "\<And>a. p = Some a \<Longrightarrow> a \<in> set xs \<and> nxt h a \<in> set xs \<and> prv h a \<in> set xs"
    using assms(1) cdll_ptr_in ring_closed by metis
  with assms(2,3) show "nxt h' c = nxt h c" "prv h' c = prv h c"
    by (cases p; auto simp: cdll_pop.simps Let_def split: if_splits)+
qed

text \<open>A second list on the same heap survives the operations on the first.\<close>

lemma cdll_push_other:
  assumes "cdll h p xs" and "cdll_push p new h = (p', h')" and "cdll h q ys"
    and "insert new (set xs) \<inter> set ys = {}"
  shows "cdll h' q ys"
proof -
  have "nxt h' c = nxt h c \<and> prv h' c = prv h c" if "c \<in> set ys" for c
    using cdll_push_frame [OF assms(1,2), of c] assms(4) that by blast
  with assms(3) show ?thesis by (subst cdll_frame) auto
qed

lemma cdll_del_other:
  assumes "cdll h p xs" and "cel \<in> set xs" and "cdll_del p cel h = (p', h')" and "cdll h q ys"
    and "set xs \<inter> set ys = {}"
  shows "cdll h' q ys"
proof -
  have "nxt h' c = nxt h c \<and> prv h' c = prv h c" if "c \<in> set ys" for c
    using cdll_del_frame [OF assms(1,2,3), of c] assms(5) that by blast
  with assms(4) show ?thesis by (subst cdll_frame) auto
qed

lemma cdll_pop_other:
  assumes "cdll h p xs" and "cdll_pop p h = (r, p', h')" and "cdll h q ys"
    and "set xs \<inter> set ys = {}"
  shows "cdll h' q ys"
proof -
  have "nxt h' c = nxt h c \<and> prv h' c = prv h c" if "c \<in> set ys" for c
    using cdll_pop_frame [OF assms(1,2), of c] assms(4) that by blast
  with assms(3) show ?thesis by (subst cdll_frame) auto
qed

section \<open>Properties\<close>

text \<open>C7: on a heap that represents the list of cells \<open>xs\<close>, the macros are the list
  operations: \<^verbatim>\<open>cdll_push\<close> adds in front, \<^verbatim>\<open>cdll_fill\<close> at the end, \<^verbatim>\<open>cdll_pop\<close> takes the
  first cell (null for the empty list), \<^verbatim>\<open>cdll_del\<close> removes a given cell,
  \<^verbatim>\<open>cdll_insert_before\<close> inserts in front of a given cell, and \<^verbatim>\<open>cdll_search\<close> returns
  and tells membership.\<close>

theorem cdll_refines_list:
  assumes "cdll h p xs" and "new \<notin> set xs"
  shows "(case cdll_push p new h of (p', h') \<Rightarrow> cdll h' p' (new # xs))
    \<and> (case cdll_fill p new h of (p', h') \<Rightarrow> cdll h' p' (xs @ [new]))
    \<and> (case cdll_pop p h of (r, p', h') \<Rightarrow>
         cdll h' p' (tl xs) \<and> r = (if xs = [] then None else Some (hd xs)))
    \<and> (\<forall>cel \<in> set xs. case cdll_del p cel h of (p', h') \<Rightarrow> cdll h' p' (remove1 cel xs))
    \<and> (\<forall>us ref vs. xs = us @ ref # vs \<longrightarrow>
         (case cdll_insert_before p new ref h of (p', h') \<Rightarrow> cdll h' p' (us @ new # ref # vs)))
    \<and> (\<forall>cel. cdll_search p cel h = Some (cel \<in> set xs))"
proof (intro conjI ballI allI impI)
  show "case cdll_push p new h of (p', h') \<Rightarrow> cdll h' p' (new # xs)"
    using cdll_push_Cons [OF assms] by (cases "cdll_push p new h") (simp del: cdll.simps)
next
  show "case cdll_pop p h of (r, p', h') \<Rightarrow>
      cdll h' p' (tl xs) \<and> r = (if xs = [] then None else Some (hd xs))"
    using assms(1) cdll_pop_Cons [of h p] by (cases xs) fastforce+
next
  fix us ref vs
  assume "xs = us @ ref # vs"
  with assms show "case cdll_insert_before p new ref h of (p', h') \<Rightarrow> cdll h' p' (us @ new # ref # vs)"
    using cdll_insert_before_inserts by fastforce
qed (use assms in \<open>auto intro: cdll_fill_append cdll_del_remove1 simp: cdll_search_iff\<close>)

theorem cdll_refines_list_witness:
  "let h = set_next 1 1 (set_prev 1 (1 :: nat) \<lparr>nxt = id, prv = id\<rparr>)
   in case cdll_push (Some 1) 2 h of (p', h') \<Rightarrow> cdll h' p' [2, 1]"
  using cdll_refines_list [of "set_next 1 1 (set_prev 1 (1 :: nat) \<lparr>nxt = id, prv = id\<rparr>)" "Some 1" "[1]" 2]
  by simp

end
