(* ===== verification/Pool.thy ===== *)
theory Pool
  imports Cdll
begin

text \<open>
  The page pool of \<^verbatim>\<open>common/libc/pool.c\<close>: an array of page descriptors, each on one of two
  circular lists, the free and the used pages. A descriptor is designated by its index in
  \<^verbatim>\<open>info->vmm.pool.all\<close>; the page address and the flags of a descriptor share the word
  \<^verbatim>\<open>page.raw\<close>, as in the union of \<^verbatim>\<open>include/pool.h\<close>. The locale \<open>page_pool\<close> is what the
  users of the pool rely on (the slab allocator, the nested paging structures, the network
  rings), and the model of the code is an interpretation of it.
\<close>

section \<open>State and operations\<close>

definition POOL_PG_INUSE :: u16 where
  "POOL_PG_INUSE = 1"

record vmm_pool =
  pool_addr :: offset_t
  pool_sz :: size_t
  pool_raw :: "nat \<Rightarrow> u64"
  pool_heap :: "nat cdll_heap"
  pool_used :: "nat option"
  pool_free :: "nat option"

text \<open>The bit field \<^verbatim>\<open>flags:12\<close> overlays the low bits of \<^verbatim>\<open>raw\<close>.\<close>

definition page_flags :: "u64 \<Rightarrow> u16" where
  "page_flags r = ucast (r AND 0xfff)"

definition set_page_flags :: "u64 \<Rightarrow> u16 \<Rightarrow> u64" where
  "set_page_flags r f = (r AND NOT 0xfff) OR (ucast f AND 0xfff)"

fun pool_init_loop :: "nat \<Rightarrow> nat \<Rightarrow> vmm_pool \<Rightarrow> vmm_pool" where
  "pool_init_loop i 0 s = s"
| "pool_init_loop i (Suc n) s =
     (let s1 = s\<lparr>pool_raw := (pool_raw s)(i := pool_addr s + of_nat i * PAGE_SIZE)\<rparr>;
          (p, h) = cdll_push (pool_free s1) i (pool_heap s1)
      in pool_init_loop (Suc i) n (s1\<lparr>pool_free := p, pool_heap := h\<rparr>))"

definition pool_init :: "vmm_pool \<Rightarrow> vmm_pool" where
  "pool_init s = pool_init_loop 0 (unat (pool_sz s div PAGE_SIZE)) s"

definition pool_get_desc :: "offset_t \<Rightarrow> vmm_pool \<Rightarrow> nat option" where
  "pool_get_desc pg s =
     (let nr = page_nr pg; mn = page_nr (pool_addr s); mx = page_nr (pool_addr s + pool_sz s)
      in if nr < mn \<or> nr \<ge> mx then None else Some (unat (nr - mn)))"

definition pool_push_page :: "offset_t \<Rightarrow> vmm_pool \<Rightarrow> vmm_pool" where
  "pool_push_page pg s =
     (case pool_get_desc pg s of
        None \<Rightarrow> s
      | Some desc \<Rightarrow>
          if page_flags (pool_raw s desc) AND POOL_PG_INUSE = 0 then s
          else (let (u, h) = cdll_del (pool_used s) desc (pool_heap s);
                    r = set_page_flags (pool_raw s desc) (page_flags (pool_raw s desc) AND NOT POOL_PG_INUSE);
                    (f, h') = cdll_push (pool_free s) desc h
                in s\<lparr>pool_used := u, pool_free := f, pool_heap := h', pool_raw := (pool_raw s)(desc := r)\<rparr>))"

definition pool_pop_page :: "vmm_pool \<Rightarrow> offset_t \<times> vmm_pool" where
  "pool_pop_page s =
     (let (r, f, h) = cdll_pop (pool_free s) (pool_heap s)
      in case r of
           None \<Rightarrow> (0, s\<lparr>pool_free := f, pool_heap := h\<rparr>)
         | Some desc \<Rightarrow>
             (let raw' = set_page_flags (pool_raw s desc) (page_flags (pool_raw s desc) OR POOL_PG_INUSE);
                  (u, h') = cdll_push (pool_used s) desc h
              in (raw' AND NOT (PAGE_SIZE - 1),
                  s\<lparr>pool_free := f, pool_used := u, pool_heap := h', pool_raw := (pool_raw s)(desc := raw')\<rparr>)))"

section \<open>The contract of a page pool\<close>

text \<open>
  A pool hands out pages that are page aligned, not null, and that no earlier caller still
  holds; a page is available again once it is given back; giving back anything else has no
  effect.
\<close>

locale page_pool =
  fixes pop :: "'s \<Rightarrow> offset_t \<times> 's"
    and push :: "offset_t \<Rightarrow> 's \<Rightarrow> 's"
    and inv :: "'s \<Rightarrow> bool"
    and avail :: "'s \<Rightarrow> offset_t set"
    and held :: "'s \<Rightarrow> offset_t set"
  assumes avail_held: "inv s \<Longrightarrow> avail s \<inter> held s = {}"
    and finite_avail: "inv s \<Longrightarrow> finite (avail s)"
    and page_ok: "inv s \<Longrightarrow> p \<in> avail s \<union> held s \<Longrightarrow> p \<noteq> 0 \<and> uu_aligned p PAGE_SIZE"
    and pop_none: "inv s \<Longrightarrow> avail s = {} \<Longrightarrow> pop s = (0, s)"
    and pop_some: "inv s \<Longrightarrow> avail s \<noteq> {} \<Longrightarrow> pop s = (p, s') \<Longrightarrow>
          p \<in> avail s \<and> inv s' \<and> avail s' = avail s - {p} \<and> held s' = insert p (held s)"
    and push_held: "inv s \<Longrightarrow> p \<in> held s \<Longrightarrow>
          inv (push p s) \<and> avail (push p s) = insert p (avail s) \<and> held (push p s) = held s - {p}"
    and push_other: "inv s \<Longrightarrow> uu_aligned p PAGE_SIZE \<Longrightarrow> p \<notin> held s \<Longrightarrow> push p s = s"
begin

text \<open>A client that asks for \<open>n\<close> pages.\<close>

fun pops :: "nat \<Rightarrow> 's \<Rightarrow> offset_t list \<times> 's" where
  "pops 0 s = ([], s)"
| "pops (Suc n) s = (let (p, s') = pop s; (ps, s'') = pops n s' in (p # ps, s''))"

lemma pop_inv: "inv s \<Longrightarrow> pop s = (p, s') \<Longrightarrow> inv s'"
  by (metis pop_none pop_some prod.inject)

lemma pop_zero_iff: "inv s \<Longrightarrow> fst (pop s) = 0 \<longleftrightarrow> avail s = {}"
  by (metis Un_iff fst_conv page_ok pop_none pop_some surj_pair)

lemma pops_distinct:
  assumes "inv s" and "pops n s = (ps, s')" and "n \<le> card (avail s)"
  shows "distinct ps \<and> set ps \<subseteq> avail s \<and> inv s' \<and> avail s' = avail s - set ps
    \<and> held s' = set ps \<union> held s \<and> length ps = n"
  using assms
proof (induction n arbitrary: s ps)
  case 0
  then show ?case by simp
next
  case (Suc n)
  obtain p s1 qs where 1: "pop s = (p, s1)" "pops n s1 = (qs, s')" "ps = p # qs"
    using Suc.prems(2) by (auto split: prod.splits)
  from Suc.prems have "avail s \<noteq> {}" by auto
  from pop_some [OF Suc.prems(1) this 1(1)]
  have p: "p \<in> avail s" "inv s1" "avail s1 = avail s - {p}" "held s1 = insert p (held s)" by auto
  have "n \<le> card (avail s1)"
    using p Suc.prems finite_avail by (simp add: card_Diff_singleton)
  from Suc.IH [OF p(2) 1(2) this] p 1(3) show ?case by auto
qed

lemma pop_push_restores:
  assumes "inv s" and "avail s \<noteq> {}" and "pop s = (p, s')"
  shows "inv (push p s') \<and> avail (push p s') = avail s \<and> held (push p s') = held s"
proof -
  from pop_some [OF assms] avail_held [OF assms(1)]
  have p: "p \<in> avail s" "inv s'" "avail s' = avail s - {p}" "held s' = insert p (held s)"
    "p \<notin> held s" by auto
  with push_held [of s' p] show ?thesis by auto
qed

end

section \<open>The invariant of the model\<close>

definition pool_nr :: "vmm_pool \<Rightarrow> nat" where
  "pool_nr s = unat (pool_sz s) div 4096"

definition pool_page :: "vmm_pool \<Rightarrow> nat \<Rightarrow> offset_t" where
  "pool_page s i = pool_addr s + of_nat i * 4096"

text \<open>The area the pool manages: aligned, not at address zero, and inside the address space.\<close>

definition pool_area_ok :: "vmm_pool \<Rightarrow> bool" where
  "pool_area_ok s = (uu_aligned (pool_addr s) PAGE_SIZE \<and> pool_addr s \<noteq> 0
     \<and> unat (pool_addr s) + unat (pool_sz s) < 2 ^ 64)"

definition pool_rep :: "vmm_pool \<Rightarrow> nat list \<Rightarrow> nat list \<Rightarrow> bool" where
  "pool_rep s us fs =
     (cdll (pool_heap s) (pool_used s) us \<and> cdll (pool_heap s) (pool_free s) fs
      \<and> set us \<inter> set fs = {} \<and> set us \<union> set fs = {..<pool_nr s}
      \<and> (\<forall>i < pool_nr s. pool_raw s i = pool_page s i + (if i \<in> set us then 1 else 0)))"

definition pool_inv :: "vmm_pool \<Rightarrow> bool" where
  "pool_inv s = (pool_area_ok s \<and> (\<exists>us fs. pool_rep s us fs))"

definition pool_inuse :: "vmm_pool \<Rightarrow> nat \<Rightarrow> bool" where
  "pool_inuse s i = (page_flags (pool_raw s i) AND POOL_PG_INUSE \<noteq> 0)"

definition pool_avail :: "vmm_pool \<Rightarrow> offset_t set" where
  "pool_avail s = pool_page s ` {i \<in> {..<pool_nr s}. \<not> pool_inuse s i}"

definition pool_held :: "vmm_pool \<Rightarrow> offset_t set" where
  "pool_held s = pool_page s ` {i \<in> {..<pool_nr s}. pool_inuse s i}"

section \<open>Descriptor words\<close>

lemma unat_pool_page:
  assumes "pool_area_ok s" and "i \<le> pool_nr s"
  shows "unat (pool_page s i) = unat (pool_addr s) + i * 4096"
proof -
  have "i * 4096 \<le> unat (pool_sz s)" using assms(2) by (simp add: pool_nr_def)
  with assms(1) have lt: "unat (pool_addr s) + i * 4096 < 2 ^ 64" by (simp add: pool_area_ok_def)
  have "pool_page s i = of_nat (unat (pool_addr s) + i * 4096)" by (simp add: pool_page_def)
  with lt show ?thesis by (simp only: unat_of_nat) simp
qed

lemma mask_12: "(0xfff :: u64) = mask 12"
  by (simp add: mask_eq_decr_exp)

lemma aligned_bits:
  assumes "4096 dvd unat (a :: u64)"
  shows "n < 12 \<Longrightarrow> \<not> bit a n"
proof -
  have "take_bit 12 a = 0"
    using assms unat_take_bit_mod [of 12 a] by (simp add: dvd_eq_mod_eq_0 unat_eq_0 [symmetric])
  moreover assume "n < 12"
  ultimately show ?thesis by (metis bit_0_eq bit_take_bit_iff bot_apply bot_bool_def)
qed

lemma bit_page_flags: "bit (page_flags r) n \<longleftrightarrow> n < 12 \<and> bit r n"
  by (simp only: page_flags_def mask_12) (auto simp: bit_simps)

lemma bit_set_page_flags: "bit (set_page_flags r f) n \<longleftrightarrow> (if n < 12 then bit f n else bit r n)"
  by (simp only: set_page_flags_def mask_12)
    (auto simp: bit_simps dest: bit_imp_le_length)

lemma set_inuse_word:
  assumes "4096 dvd unat (a :: u64)" and "r \<in> {a, a + 1}"
  shows "page_flags r AND 1 \<noteq> 0 \<longleftrightarrow> r \<noteq> a"
    and "set_page_flags r (page_flags r AND NOT 1) = a"
    and "set_page_flags r (page_flags r OR 1) = a + 1"
    and "(a + 1) AND NOT 0xfff = a"
proof -
  note low = aligned_bits [OF assms(1)]
  have plus: "a + 1 = a OR 1"
    by (rule disjunctive_add) (metis low bit_1_iff zero_less_numeral)
  have b1: "bit (a + 1) n \<longleftrightarrow> bit a n \<or> n = 0" for n
    by (auto simp: plus bit_simps)
  have br: "bit r n \<longleftrightarrow> bit a n \<or> n = 0 \<and> r \<noteq> a" for n
    using assms(2) b1 low [of 0] by auto
  have "page_flags r AND 1 \<noteq> 0 \<longleftrightarrow> bit (page_flags r) 0"
    by (simp add: and_one_eq bit_0 odd_iff_mod_2_eq_one)
  with br [of 0] low [of 0] show "page_flags r AND 1 \<noteq> 0 \<longleftrightarrow> r \<noteq> a"
    by (simp add: bit_page_flags)
  show "set_page_flags r (page_flags r AND NOT 1) = a"
    by (rule bit_eqI) (auto simp: bit_set_page_flags bit_page_flags br bit_and_iff bit_not_iff
        bit_1_iff low)
  show "set_page_flags r (page_flags r OR 1) = a + 1"
    by (rule bit_eqI) (auto simp: bit_set_page_flags bit_page_flags br b1 bit_or_iff bit_1_iff low)
  show "(a + 1) AND NOT 0xfff = a" unfolding mask_12
    by (rule bit_eqI) (auto simp: b1 bit_and_iff bit_not_iff bit_mask_iff low)
qed

section \<open>The operations keep the invariant\<close>

lemma pool_inuse_iff:
  assumes "pool_area_ok s" and "pool_rep s us fs" and "i < pool_nr s"
  shows "pool_inuse s i \<longleftrightarrow> i \<in> set us"
proof -
  let ?a = "pool_page s i"
  have al: "4096 dvd unat ?a"
    using assms(1,3) unat_pool_page [OF assms(1), of i] uu_aligned_unat [of "pool_addr s" 12]
    by (simp add: pool_area_ok_def PAGE_SIZE_def)
  have "pool_raw s i = ?a + (if i \<in> set us then 1 else 0)"
    using assms(2,3) by (simp add: pool_rep_def)
  with set_inuse_word(1) [OF al, of "pool_raw s i"] show ?thesis
    by (auto simp: pool_inuse_def POOL_PG_INUSE_def)
qed

lemma pool_sets:
  assumes "pool_area_ok s" and "pool_rep s us fs"
  shows "pool_avail s = pool_page s ` set fs" "pool_held s = pool_page s ` set us"
proof -
  have d: "set us \<inter> set fs = {}" "set us \<union> set fs = {..<pool_nr s}"
    using assms(2) by (auto simp: pool_rep_def)
  have "{i \<in> {..<pool_nr s}. pool_inuse s i} = set us"
    "{i \<in> {..<pool_nr s}. \<not> pool_inuse s i} = set fs"
    using d pool_inuse_iff [OF assms] by auto
  then show "pool_avail s = pool_page s ` set fs" "pool_held s = pool_page s ` set us"
    by (simp_all add: pool_avail_def pool_held_def)
qed

lemma inj_pool_page:
  assumes "pool_area_ok s"
  shows "inj_on (pool_page s) {..<pool_nr s}"
  by (rule inj_onI) (metis add_left_cancel lessThan_iff less_imp_le mult_cancel2 numeral_neq_zero
      unat_pool_page [OF assms])

lemma pool_page_aligned:
  assumes "pool_area_ok s" and "i < pool_nr s"
  shows "4096 dvd unat (pool_page s i)" "uu_aligned (pool_page s i) PAGE_SIZE" "pool_page s i \<noteq> 0"
proof -
  have u: "unat (pool_page s i) = unat (pool_addr s) + i * 4096"
    using assms by (intro unat_pool_page) auto
  moreover have "4096 dvd unat (pool_addr s)"
    using assms(1) uu_aligned_unat [of "pool_addr s" 12] by (simp add: pool_area_ok_def PAGE_SIZE_def)
  ultimately show "4096 dvd unat (pool_page s i)" by simp
  then show "uu_aligned (pool_page s i) PAGE_SIZE"
    using uu_aligned_unat [of "pool_page s i" 12] by (simp add: PAGE_SIZE_def)
  have "unat (pool_addr s) \<noteq> 0" using assms(1) by (simp add: pool_area_ok_def unat_eq_0)
  with u show "pool_page s i \<noteq> 0" by (metis add_is_0 unat_0)
qed

lemma pool_get_desc_iff:
  assumes ok: "pool_area_ok s" and al: "uu_aligned pg PAGE_SIZE"
  shows "pool_get_desc pg s = Some i \<longleftrightarrow> i < pool_nr s \<and> pg = pool_page s i"
proof -
  let ?a = "unat (pool_addr s)"
  have a: "4096 dvd ?a" and p: "4096 dvd unat pg"
    using ok al uu_aligned_unat [of "pool_addr s" 12] uu_aligned_unat [of pg 12]
    by (simp_all add: pool_area_ok_def PAGE_SIZE_def)
  have nr: "unat (page_nr x) = unat x div 4096" for x
    by (simp only: page_nr_def PAGE_SHIFT_def unat_drop_bit_div) simp
  have sum: "unat (pool_addr s + pool_sz s) = ?a + unat (pool_sz s)"
    using ok by (simp add: pool_area_ok_def unat_word_ariths)
  have mx: "unat (page_nr (pool_addr s + pool_sz s)) = ?a div 4096 + pool_nr s"
    using a by (simp add: nr sum pool_nr_def div_plus_div_distrib_dvd_left)
  have "pool_get_desc pg s = Some i \<longleftrightarrow> \<not> page_nr pg < page_nr (pool_addr s)
      \<and> page_nr pg < page_nr (pool_addr s + pool_sz s) \<and> unat (page_nr pg - page_nr (pool_addr s)) = i"
    by (auto simp: pool_get_desc_def Let_def not_less)
  also have "\<dots> \<longleftrightarrow> ?a div 4096 \<le> unat pg div 4096 \<and> unat pg div 4096 < ?a div 4096 + pool_nr s
      \<and> unat pg div 4096 - ?a div 4096 = i"
    unfolding word_less_nat_alt mx by (auto simp: word_le_nat_alt nr not_less unat_sub)
  also have "\<dots> \<longleftrightarrow> i < pool_nr s \<and> unat pg = ?a + i * 4096"
    using a p by (auto elim!: dvdE)
  also have "\<dots> \<longleftrightarrow> i < pool_nr s \<and> unat pg = unat (pool_page s i)"
    using unat_pool_page [OF ok, of i] by auto
  also have "\<dots> \<longleftrightarrow> i < pool_nr s \<and> pg = pool_page s i"
    by (metis unsigned_word_eqI)
  finally show ?thesis .
qed

lemma pool_pop_step:
  assumes ok: "pool_area_ok s" and rep: "pool_rep s us (i # fs)" and pop: "pool_pop_page s = (p, s')"
  shows "p = pool_page s i \<and> pool_area_ok s' \<and> pool_rep s' (i # us) fs \<and> pool_page s' = pool_page s"
proof -
  have c: "cdll (pool_heap s) (pool_used s) us" "cdll (pool_heap s) (pool_free s) (i # fs)"
    and d: "set us \<inter> set (i # fs) = {}" "set us \<union> set (i # fs) = {..<pool_nr s}"
    and r: "\<And>j. j < pool_nr s \<Longrightarrow> pool_raw s j = pool_page s j + (if j \<in> set us then 1 else 0)"
    using rep by (auto simp only: pool_rep_def)
  have i: "i < pool_nr s" "i \<notin> set us" "i \<notin> set fs" using d cdll_distinct [OF c(2)] by auto
  obtain f h where pf: "cdll_pop (pool_free s) (pool_heap s) = (Some i, f, h)" "cdll h f fs"
    using cdll_pop_Cons [OF c(2)] by blast
  have cu: "cdll h (pool_used s) us"
    using cdll_pop_other [OF c(2) pf(1) c(1)] d by blast
  obtain u h' where pu: "cdll_push (pool_used s) i h = (u, h')" by fastforce
  have cu': "cdll h' u (i # us)" using cdll_push_Cons [OF cu i(2) pu] .
  have cf': "cdll h' f fs"
    using cdll_push_other [OF cu pu pf(2)] i d by auto
  note w = set_inuse_word [OF pool_page_aligned(1) [OF ok i(1)]]
  have new: "set_page_flags (pool_raw s i) (page_flags (pool_raw s i) OR POOL_PG_INUSE) = pool_page s i + 1"
    using r [OF i(1)] i w(3) by (simp add: POOL_PG_INUSE_def)
  have s': "s' = s\<lparr>pool_free := f, pool_used := u, pool_heap := h',
      pool_raw := (pool_raw s)(i := pool_page s i + 1)\<rparr>" and p: "p = pool_page s i"
    using pop new w(4) [of "pool_page s i"] by (auto simp: pool_pop_page_def pf pu Let_def PAGE_SIZE_def)
  have pp: "pool_page s' = pool_page s" "pool_nr s' = pool_nr s"
    by (auto simp: s' pool_page_def pool_nr_def fun_eq_iff)
  have "pool_rep s' (i # us) fs"
    unfolding pool_rep_def pp using cu' cf' d r i by (auto simp add: s' simp del: cdll.simps)
  with ok p pp show ?thesis by (simp add: s' pool_area_ok_def)
qed

lemma pool_push_step:
  assumes ok: "pool_area_ok s" and rep: "pool_rep s us fs" and i: "i \<in> set us"
  defines "s' \<equiv> pool_push_page (pool_page s i) s"
  shows "pool_area_ok s' \<and> pool_rep s' (remove1 i us) (i # fs) \<and> pool_page s' = pool_page s"
proof -
  have c: "cdll (pool_heap s) (pool_used s) us" "cdll (pool_heap s) (pool_free s) fs"
    and d: "set us \<inter> set fs = {}" "set us \<union> set fs = {..<pool_nr s}"
    and r: "\<And>j. j < pool_nr s \<Longrightarrow> pool_raw s j = pool_page s j + (if j \<in> set us then 1 else 0)"
    using rep by (auto simp only: pool_rep_def)
  have n: "i < pool_nr s" "i \<notin> set fs" using d i by auto
  note pg = pool_page_aligned [OF ok n(1)]
  have desc: "pool_get_desc (pool_page s i) s = Some i"
    using pool_get_desc_iff [OF ok pg(2)] n by blast
  have inuse: "pool_inuse s i" using pool_inuse_iff [OF ok rep n(1)] i by blast
  obtain u h where pu: "cdll_del (pool_used s) i (pool_heap s) = (u, h)" by fastforce
  obtain f h' where pf: "cdll_push (pool_free s) i h = (f, h')" by fastforce
  have cu: "cdll h u (remove1 i us)" using cdll_del_remove1 [OF c(1) i pu] .
  have cf: "cdll h (pool_free s) fs"
    using cdll_del_other [OF c(1) i pu c(2)] d by blast
  have cf': "cdll h' f (i # fs)" using cdll_push_Cons [OF cf n(2) pf] .
  have su: "set (remove1 i us) = set us - {i}" using cdll_distinct [OF c(1)] by simp
  have cu': "cdll h' u (remove1 i us)"
    using cdll_push_other [OF cf pf cu] d su by auto
  have new: "set_page_flags (pool_raw s i) (page_flags (pool_raw s i) AND NOT POOL_PG_INUSE) = pool_page s i"
    using r [OF n(1)] i set_inuse_word(2) [OF pg(1), of "pool_raw s i"] by (simp add: POOL_PG_INUSE_def)
  have s': "s' = s\<lparr>pool_used := u, pool_free := f, pool_heap := h',
      pool_raw := (pool_raw s)(i := pool_page s i)\<rparr>"
    using inuse new by (simp add: s'_def pool_push_page_def desc pu pf pool_inuse_def Let_def)
  have pp: "pool_page s' = pool_page s" "pool_nr s' = pool_nr s"
    by (auto simp: s' pool_page_def pool_nr_def fun_eq_iff)
  have "pool_rep s' (remove1 i us) (i # fs)"
    unfolding pool_rep_def pp using cu' cf' d r i n su by (auto simp add: s' simp del: cdll.simps)
  with ok pp show ?thesis by (simp add: s' pool_area_ok_def)
qed

section \<open>The model is a page pool\<close>

lemma pool_push_other:
  assumes "pool_inv s" and "uu_aligned p PAGE_SIZE" and "p \<notin> pool_held s"
  shows "pool_push_page p s = s"
proof (cases "pool_get_desc p s")
  case None
  then show ?thesis by (simp add: pool_push_page_def)
next
  case (Some i)
  with assms have "i < pool_nr s" "p = pool_page s i"
    using pool_get_desc_iff by (auto simp: pool_inv_def)
  with assms(3) have "\<not> pool_inuse s i" by (auto simp: pool_held_def)
  with Some show ?thesis by (simp add: pool_push_page_def pool_inuse_def)
qed

interpretation vmm_pool: page_pool pool_pop_page pool_push_page pool_inv pool_avail pool_held
proof
  fix s p s'
  assume inv: "pool_inv s"
  then obtain us fs where ok: "pool_area_ok s" and rep: "pool_rep s us fs"
    by (auto simp: pool_inv_def)
  note sets = pool_sets [OF ok rep]
  have d: "set us \<inter> set fs = {}" "set us \<union> set fs = {..<pool_nr s}"
    using rep by (auto simp: pool_rep_def)
  show "pool_avail s \<inter> pool_held s = {}"
  proof -
    have "pool_page s ` (set fs \<inter> set us) = pool_page s ` set fs \<inter> pool_page s ` set us"
      using d by (intro inj_on_image_Int [OF inj_pool_page [OF ok]]) auto
    with d show ?thesis unfolding sets by (simp add: Int_commute)
  qed
  show "finite (pool_avail s)" by (simp add: sets)
  show "p \<noteq> 0 \<and> uu_aligned p PAGE_SIZE" if "p \<in> pool_avail s \<union> pool_held s"
    using that pool_page_aligned(2,3) [OF ok] by (auto simp: pool_avail_def pool_held_def)
  show "pool_pop_page s = (0, s)" if "pool_avail s = {}"
    using that rep by (auto simp: sets pool_rep_def pool_pop_page_def)
  show "p \<in> pool_avail s \<and> pool_inv s' \<and> pool_avail s' = pool_avail s - {p}
      \<and> pool_held s' = insert p (pool_held s)"
    if ne: "pool_avail s \<noteq> {}" and pop: "pool_pop_page s = (p, s')"
  proof -
    obtain i fs' where fs: "fs = i # fs'" using ne sets by (cases fs) auto
    note st = pool_pop_step [OF ok rep [unfolded fs] pop]
    then have "pool_avail s' = pool_page s ` set fs'" "pool_held s' = pool_page s ` set (i # us)"
      using pool_sets by metis+
    moreover have "i \<notin> set fs'" using rep fs by (auto simp: pool_rep_def dest: cdll_distinct)
    moreover have "inj_on (pool_page s) (set (i # fs'))"
      by (rule inj_on_subset [OF inj_pool_page [OF ok]]) (use d fs in auto)
    ultimately show ?thesis using st fs sets by (auto simp: pool_inv_def dest: inj_onD)
  qed
  show "pool_inv (pool_push_page p s) \<and> pool_avail (pool_push_page p s) = insert p (pool_avail s)
      \<and> pool_held (pool_push_page p s) = pool_held s - {p}" if ph: "p \<in> pool_held s"
  proof -
    obtain i where i: "i \<in> set us" "p = pool_page s i" using ph sets by auto
    note st = pool_push_step [OF ok rep i(1)]
    then have "pool_avail (pool_push_page p s) = pool_page s ` set (i # fs)"
      "pool_held (pool_push_page p s) = pool_page s ` set (remove1 i us)"
      using pool_sets i(2) by metis+
    moreover have "distinct us" using rep by (auto simp: pool_rep_def dest: cdll_distinct)
    moreover have "inj_on (pool_page s) (set us)"
      by (rule inj_on_subset [OF inj_pool_page [OF ok]]) (use d in auto)
    ultimately show ?thesis using st i sets by (auto simp: pool_inv_def dest: inj_onD)
  qed
  show "pool_push_page p s = s" if "uu_aligned p PAGE_SIZE" "p \<notin> pool_held s"
    using pool_push_other [OF inv that] .
qed

section \<open>Initialisation\<close>

lemma pool_init_loop_rep:
  assumes "cdll (pool_heap s) (pool_free s) (rev [0..<i])" and "pool_used s = None"
    and "\<forall>j < i. pool_raw s j = pool_page s j" and "i + n = pool_nr s"
  shows "pool_rep (pool_init_loop i n s) [] (rev [0..<i + n])
    \<and> pool_addr (pool_init_loop i n s) = pool_addr s \<and> pool_sz (pool_init_loop i n s) = pool_sz s"
  using assms
proof (induction i n s rule: pool_init_loop.induct)
  case (1 i s)
  then show ?case by (auto simp: pool_rep_def)
next
  case (2 i n s)
  define s1 where "s1 = s\<lparr>pool_raw := (pool_raw s)(i := pool_addr s + of_nat i * PAGE_SIZE)\<rparr>"
  obtain p h where ph: "cdll_push (pool_free s1) i (pool_heap s1) = (p, h)" by fastforce
  let ?s2 = "s1\<lparr>pool_free := p, pool_heap := h\<rparr>"
  have "cdll h p (rev [0..<Suc i])"
    using cdll_push_Cons [OF _ _ ph, of "rev [0..<i]"] 2(2) by (simp add: s1_def del: cdll.simps)
  moreover have "\<forall>j < Suc i. pool_raw ?s2 j = pool_page ?s2 j"
    using 2(4) by (auto simp: s1_def pool_page_def PAGE_SIZE_def less_Suc_eq)
  ultimately have "pool_rep (pool_init_loop (Suc i) n ?s2) [] (rev [0..<Suc i + n])
    \<and> pool_addr (pool_init_loop (Suc i) n ?s2) = pool_addr ?s2
    \<and> pool_sz (pool_init_loop (Suc i) n ?s2) = pool_sz ?s2"
    using 2(1) [OF s1_def ph [symmetric] refl] 2(3,5)
    by (simp add: s1_def pool_nr_def del: cdll.simps upt_Suc)
  moreover have "pool_init_loop i (Suc n) s = pool_init_loop (Suc i) n ?s2"
    by (simp add: s1_def [symmetric] ph Let_def)
  ultimately show ?case by (simp add: s1_def)
qed

lemma pool_init_rep:
  assumes "pool_area_ok s" and "pool_used s = None" and "pool_free s = None"
  shows "pool_area_ok (pool_init s) \<and> pool_rep (pool_init s) [] (rev [0..<pool_nr s])
    \<and> pool_nr (pool_init s) = pool_nr s \<and> pool_page (pool_init s) = pool_page s"
proof -
  have "unat (pool_sz s div PAGE_SIZE) = pool_nr s"
    by (simp add: pool_nr_def PAGE_SIZE_def unat_div)
  with pool_init_loop_rep [of s 0 "pool_nr s"] assms show ?thesis
    by (auto simp: pool_init_def pool_area_ok_def pool_nr_def pool_page_def fun_eq_iff)
qed

section \<open>Properties\<close>

text \<open>Initialisation makes every page of the pool area available, none held: the
  available pages are exactly the page addresses of the area.\<close>

theorem pool_init_all_available:
  assumes "pool_area_ok s" and "pool_used s = None" and "pool_free s = None"
  shows "pool_inv (pool_init s) \<and> pool_held (pool_init s) = {}
    \<and> pool_avail (pool_init s) = {pool_addr s + of_nat i * PAGE_SIZE | i. i < unat (pool_sz s) div 4096}"
proof -
  note i = pool_init_rep [OF assms]
  then have "pool_held (pool_init s) = {}" "pool_avail (pool_init s) = pool_page s ` set (rev [0..<pool_nr s])"
    using pool_sets [of "pool_init s"] by fastforce+
  with i show ?thesis
    by (auto simp: pool_inv_def pool_page_def PAGE_SIZE_def pool_nr_def image_iff)
qed

definition pool_ex :: vmm_pool where
  "pool_ex = \<lparr>pool_addr = 0x100000, pool_sz = 0x4000, pool_raw = (\<lambda>i. 0),
     pool_heap = \<lparr>nxt = id, prv = id\<rparr>, pool_used = None, pool_free = None\<rparr>"

lemma pool_ex_ok: "pool_area_ok pool_ex" "pool_used pool_ex = None" "pool_free pool_ex = None"
  by (simp_all add: pool_ex_def pool_area_ok_def uu_aligned_def PAGE_SIZE_def)

theorem pool_init_all_available_witness:
  "pool_inv (pool_init pool_ex) \<and> pool_held (pool_init pool_ex) = {}"
  using pool_init_all_available [OF pool_ex_ok] by blast

text \<open>C6: asking the pool for as many pages as it has available yields that many pages, all
  different, page aligned, not null, and none of them held by an earlier caller.\<close>

theorem pool_pages_fresh:
  assumes "pool_inv s" and "n \<le> card (pool_avail s)" and "vmm_pool.pops n s = (ps, s')"
  shows "length ps = n \<and> distinct ps \<and> set ps \<inter> pool_held s = {}
    \<and> (\<forall>p \<in> set ps. p \<noteq> 0 \<and> uu_aligned p PAGE_SIZE)
    \<and> pool_inv s' \<and> pool_held s' = set ps \<union> pool_held s \<and> pool_avail s' = pool_avail s - set ps"
  using vmm_pool.pops_distinct [OF assms(1,3,2)] vmm_pool.avail_held [OF assms(1)]
    vmm_pool.page_ok [OF assms(1)] by blast

lemma pool_ex_avail_set:
  "pool_avail (pool_init pool_ex) = {0x100000, 0x101000, 0x102000, 0x103000}"
proof -
  have nr: "pool_nr pool_ex = 4" by (simp add: pool_ex_def pool_nr_def)
  note i = pool_init_rep [OF pool_ex_ok]
  have "pool_avail (pool_init pool_ex) = pool_page pool_ex ` set (rev [0..<4])"
    using i pool_sets [of "pool_init pool_ex"] nr by fastforce
  also have "\<dots> = {0x100000, 0x101000, 0x102000, 0x103000}"
    by (auto simp: pool_page_def pool_ex_def numeral_eq_Suc less_Suc_eq)
  finally show ?thesis .
qed

lemma pool_ex_avail: "pool_inv (pool_init pool_ex) \<and> card (pool_avail (pool_init pool_ex)) = 4"
  using pool_init_rep [OF pool_ex_ok] by (auto simp: pool_ex_avail_set pool_inv_def)

theorem pool_pages_fresh_witness:
  "\<exists>ps s'. vmm_pool.pops 2 (pool_init pool_ex) = (ps, s') \<and> distinct ps \<and> length ps = 2 \<and> 0 \<notin> set ps"
proof -
  obtain ps s' where "vmm_pool.pops 2 (pool_init pool_ex) = (ps, s')" by fastforce
  with pool_pages_fresh [of "pool_init pool_ex" 2 ps s'] pool_ex_avail show ?thesis by auto
qed

text \<open>Giving back a page a caller holds makes it available again and keeps the
  invariant; giving back an aligned address that is not a held page of the pool (a double
  free, an address outside the area) changes nothing.\<close>

theorem pool_push_page_spec:
  assumes "pool_inv s" and "uu_aligned p PAGE_SIZE"
  shows "if p \<in> pool_held s
         then pool_inv (pool_push_page p s) \<and> pool_avail (pool_push_page p s) = insert p (pool_avail s)
            \<and> pool_held (pool_push_page p s) = pool_held s - {p}
         else pool_push_page p s = s"
  using vmm_pool.push_held [OF assms(1)] vmm_pool.push_other [OF assms] by simp

theorem pool_push_page_spec_witness:
  "pool_push_page 0x5000 (pool_init pool_ex) = pool_init pool_ex"
proof -
  have "0x5000 \<notin> pool_held (pool_init pool_ex)"
    using pool_sets(2) [of "pool_init pool_ex"] pool_init_rep [OF pool_ex_ok] by fastforce
  then show ?thesis
    using pool_push_page_spec [of "pool_init pool_ex" "0x5000"] pool_ex_avail
    by (simp add: uu_aligned_def PAGE_SIZE_def)
qed

end
