(* ===== verification/Npg.thy ===== *)
theory Npg
  imports Pool "HOL-Library.Monad_Syntax"
begin

text \<open>
  Nested paging: the EPT entry macros of \<^verbatim>\<open>include/vmx_ept.h\<close> (which \<^verbatim>\<open>include/vmx_vm.h\<close>
  renames to \<^verbatim>\<open>npg_*\<close>), the mapping services of \<^verbatim>\<open>common/libc/npt_map.c\<close> and the walk of
  \<^verbatim>\<open>vmm/src/core/npt_walk.c\<close>.

  A pointer to a paging entry is the pair of the address of its table and its index in it; the
  memory that holds the tables maps such pointers to the raw 64-bit entries. The state has
  that memory, the page pool the tables come from, the address of the active pml4, and the
  cpu features the code tests. \<^verbatim>\<open>panic\<close> is \<^verbatim>\<open>None\<close>. The null pointer some services return
  is \<^verbatim>\<open>None\<close> of the option of an entry pointer.
\<close>

section \<open>Entries\<close>

definition ept_pg_get_attr :: "u64 \<Rightarrow> u64" where
  "ept_pg_get_attr e = e AND 0x7f"

definition npg_present :: "u64 \<Rightarrow> bool" where
  "npg_present e = (ept_pg_get_attr e AND 7 \<noteq> 0)"

definition npg_readable :: "u64 \<Rightarrow> u64" where
  "npg_readable e = ept_pg_get_attr e AND 1"

definition npg_writable :: "u64 \<Rightarrow> u64" where
  "npg_writable e = ept_pg_get_attr e AND 2"

definition npg_executable :: "u64 \<Rightarrow> u64" where
  "npg_executable e = ept_pg_get_attr e AND 4"

definition npg_large :: "u64 \<Rightarrow> bool" where
  "npg_large e = bit e 7"

text \<open>The field \<^verbatim>\<open>addr:40\<close>, and the \<^verbatim>\<open>page.addr\<close> of the two large formats.\<close>

definition npg_addr :: "u64 \<Rightarrow> u64" where
  "npg_addr e = get_field 12 40 e"

definition npg_addr_1G :: "u64 \<Rightarrow> u64" where
  "npg_addr_1G e = get_field 30 22 e"

definition npg_addr_2M :: "u64 \<Rightarrow> u64" where
  "npg_addr_2M e = get_field 21 31 e"

definition npg_dft_pvl :: u64 where
  "npg_dft_pvl = 7"

definition ept_has_mtrr :: u64 where
  "ept_has_mtrr = push_bit 52 1"

definition VMX_EPT_KEEP_MTRR_TYPE :: u64 where
  "VMX_EPT_KEEP_MTRR_TYPE = ept_has_mtrr OR push_bit 3 7"

definition PG_PS :: u64 where
  "PG_PS = push_bit 7 1"

definition uu_ept_mtrr_resolve :: "u64 \<Rightarrow> u64 \<Rightarrow> u64 option" where
  "uu_ept_mtrr_resolve old new =
     (let o_type = drop_bit 3 old AND 7;
          n_type = drop_bit 3 new AND 7;
          c_type = o_type AND n_type
      in if o_type = n_type then Some new
         else if c_type \<noteq> 0 \<and> c_type \<noteq> 4 then None
         else Some ((new AND NOT (push_bit 3 7)) OR push_bit 3 c_type))"

definition ept_pg_set_attr :: "u64 \<Rightarrow> u64 \<Rightarrow> u64 option" where
  "ept_pg_set_attr e attr =
     (if attr AND ept_has_mtrr \<noteq> 0 \<and> e AND ept_has_mtrr \<noteq> 0
      then uu_ept_mtrr_resolve e attr else Some attr)"

definition ept_zero :: "u64 \<Rightarrow> u64" where
  "ept_zero e = (if e AND ept_has_mtrr \<noteq> 0 then e AND VMX_EPT_KEEP_MTRR_TYPE else 0)"

definition ept_pg_set_entry :: "u64 \<Rightarrow> u64 \<Rightarrow> u64" where
  "ept_pg_set_entry attr pfn = set_field 12 40 pfn (attr AND NOT (push_bit 3 0xf))"

definition ept_pg_set_page_entry :: "u64 \<Rightarrow> u64 \<Rightarrow> u64 \<Rightarrow> u64 option" where
  "ept_pg_set_page_entry e attr pfn = map_option (set_field 12 40 pfn) (ept_pg_set_attr e attr)"

definition ept_pg_set_large_page_entry_1G :: "u64 \<Rightarrow> u64 \<Rightarrow> u64 \<Rightarrow> u64 option" where
  "ept_pg_set_large_page_entry_1G e attr pfn =
     map_option (set_field 30 22 pfn) (ept_pg_set_attr e (attr OR PG_PS))"

definition ept_pg_set_large_page_entry_2M :: "u64 \<Rightarrow> u64 \<Rightarrow> u64 \<Rightarrow> u64 option" where
  "ept_pg_set_large_page_entry_2M e attr pfn =
     map_option (set_field 21 31 pfn) (ept_pg_set_attr e (attr OR PG_PS))"

section \<open>State\<close>

type_synonym entp = "offset_t \<times> nat"

record npg_state =
  npg_mem :: "entp \<Rightarrow> u64"
  npg_pool :: vmm_pool
  npg_pml4 :: offset_t
  skillz_pg_1G :: bool
  skillz_pg_2M :: bool
  max_paddr :: offset_t

definition rd_ent :: "entp \<Rightarrow> npg_state \<Rightarrow> u64" where
  "rd_ent p s = npg_mem s p"

definition wr_ent :: "entp \<Rightarrow> u64 \<Rightarrow> npg_state \<Rightarrow> npg_state" where
  "wr_ent p v s = s\<lparr>npg_mem := (npg_mem s)(p := v)\<rparr>"

definition npg_zero :: "entp \<Rightarrow> npg_state \<Rightarrow> npg_state" where
  "npg_zero p s = wr_ent p (ept_zero (rd_ent p s)) s"

definition npg_set_entry :: "entp \<Rightarrow> u64 \<Rightarrow> u64 \<Rightarrow> npg_state \<Rightarrow> npg_state" where
  "npg_set_entry p attr pfn s = wr_ent p (ept_pg_set_entry attr pfn) s"

definition npg_set_page_entry :: "entp \<Rightarrow> u64 \<Rightarrow> u64 \<Rightarrow> npg_state \<Rightarrow> npg_state option" where
  "npg_set_page_entry p attr pfn s =
     map_option (\<lambda>v. wr_ent p v s) (ept_pg_set_page_entry (rd_ent p s) attr pfn)"

text \<open>Indexes in the tables (\<^verbatim>\<open>include/pagemem.h\<close>).\<close>

definition pml4_idx :: "offset_t \<Rightarrow> nat" where
  "pml4_idx addr = unat (drop_bit 39 addr AND 0x1ff)"

definition pdp_idx :: "offset_t \<Rightarrow> nat" where
  "pdp_idx addr = unat (drop_bit 30 addr AND 0x1ff)"

definition pd64_idx :: "offset_t \<Rightarrow> nat" where
  "pd64_idx addr = unat (drop_bit 21 addr AND 0x1ff)"

definition pt64_idx :: "offset_t \<Rightarrow> nat" where
  "pt64_idx addr = unat (drop_bit 12 addr AND 0x1ff)"

definition PG_4K_SIZE :: u64 where
  "PG_4K_SIZE = push_bit 12 1"

definition PG_2M_SIZE :: u64 where
  "PG_2M_SIZE = push_bit 21 1"

definition PG_1G_SIZE :: u64 where
  "PG_1G_SIZE = push_bit 30 1"

definition PG_512G_SIZE :: u64 where
  "PG_512G_SIZE = push_bit 39 1"

section \<open>Allocation and entry retrieval\<close>

definition uu_npg_new_pg :: "npg_state \<Rightarrow> (offset_t \<times> npg_state) option" where
  "uu_npg_new_pg s =
     (let (pg, pool) = pool_pop_page (npg_pool s)
      in if pg = 0 then None
         else Some (pg, s\<lparr>npg_pool := pool,
           npg_mem := (\<lambda>(b, i). if b = pg \<and> i < 512 then 0 else npg_mem s (b, i))\<rparr>))"

definition uu_npg_get_pdpe_nocheck :: "u64 \<Rightarrow> offset_t \<Rightarrow> entp" where
  "uu_npg_get_pdpe_nocheck pml4e addr = (page_addr (npg_addr pml4e), pdp_idx addr)"

definition uu_npg_get_pde_nocheck :: "u64 \<Rightarrow> offset_t \<Rightarrow> entp" where
  "uu_npg_get_pde_nocheck pdpe addr = (page_addr (npg_addr pdpe), pd64_idx addr)"

definition uu_npg_get_pte_nocheck :: "u64 \<Rightarrow> offset_t \<Rightarrow> entp" where
  "uu_npg_get_pte_nocheck pde addr = (page_addr (npg_addr pde), pt64_idx addr)"

definition uu_npg_get_pdpe :: "offset_t \<Rightarrow> npg_state \<Rightarrow> entp option" where
  "uu_npg_get_pdpe addr s =
     (let pml4e = rd_ent (npg_pml4 s, pml4_idx addr) s
      in if \<not> npg_present pml4e then None else Some (uu_npg_get_pdpe_nocheck pml4e addr))"

definition uu_npg_get_pde :: "entp \<Rightarrow> offset_t \<Rightarrow> npg_state \<Rightarrow> entp option" where
  "uu_npg_get_pde pdpe addr s =
     (if \<not> npg_present (rd_ent pdpe s) \<or> npg_large (rd_ent pdpe s) then None
      else Some (uu_npg_get_pde_nocheck (rd_ent pdpe s) addr))"

definition uu_npg_get_pte :: "entp \<Rightarrow> offset_t \<Rightarrow> npg_state \<Rightarrow> entp option" where
  "uu_npg_get_pte pde addr s =
     (if \<not> npg_present (rd_ent pde s) \<or> npg_large (rd_ent pde s) then None
      else Some (uu_npg_get_pte_nocheck (rd_ent pde s) addr))"

definition u_npg_get_pte :: "offset_t \<Rightarrow> npg_state \<Rightarrow> entp option" where
  "u_npg_get_pte addr s =
     (case uu_npg_get_pdpe addr s of
        None \<Rightarrow> None
      | Some pdpe \<Rightarrow>
          if \<not> npg_present (rd_ent pdpe s) \<or> npg_large (rd_ent pdpe s) then None
          else (case uu_npg_get_pde pdpe addr s of
                  None \<Rightarrow> None
                | Some pde \<Rightarrow>
                    if \<not> npg_present (rd_ent pde s) \<or> npg_large (rd_ent pde s) then None
                    else uu_npg_get_pte pde addr s))"

definition uu_npg_resolve_pdpe :: "offset_t \<Rightarrow> u64 \<Rightarrow> npg_state \<Rightarrow> (entp \<times> npg_state) option" where
  "uu_npg_resolve_pdpe addr attr s =
     (let pml4e = (npg_pml4 s, pml4_idx addr)
      in if \<not> npg_present (rd_ent pml4e s) then
           do { (pdp, s1) \<leftarrow> uu_npg_new_pg s;
                let s2 = npg_set_entry pml4e (attr OR npg_dft_pvl) (page_nr pdp) s1;
                Some ((pdp, pdp_idx addr), s2) }
         else Some ((page_addr (npg_addr (rd_ent pml4e s)), pdp_idx addr), s))"

text \<open>The null pointer for a large page is \<^verbatim>\<open>None\<close> in the first component.\<close>

definition uu_npg_resolve_pde ::
    "entp \<Rightarrow> offset_t \<Rightarrow> u64 \<Rightarrow> npg_state \<Rightarrow> (entp option \<times> npg_state) option" where
  "uu_npg_resolve_pde pdpe addr attr s =
     (if \<not> npg_present (rd_ent pdpe s) then
        do { (pd, s1) \<leftarrow> uu_npg_new_pg s;
             let s2 = npg_set_entry pdpe (attr OR npg_dft_pvl) (page_nr pd) s1;
             Some (Some (pd, pd64_idx addr), s2) }
      else if npg_large (rd_ent pdpe s) then Some (None, s)
      else Some (Some (page_addr (npg_addr (rd_ent pdpe s)), pd64_idx addr), s))"

definition uu_npg_resolve_pte ::
    "entp \<Rightarrow> offset_t \<Rightarrow> u64 \<Rightarrow> npg_state \<Rightarrow> (entp option \<times> npg_state) option" where
  "uu_npg_resolve_pte pde addr attr s =
     (if \<not> npg_present (rd_ent pde s) then
        do { (pt, s1) \<leftarrow> uu_npg_new_pg s;
             let s2 = npg_set_entry pde (attr OR npg_dft_pvl) (page_nr pt) s1;
             Some (Some (pt, pt64_idx addr), s2) }
      else if npg_large (rd_ent pde s) then Some (None, s)
      else Some (Some (page_addr (npg_addr (rd_ent pde s)), pt64_idx addr), s))"

section \<open>Low level services\<close>

definition uu_npg_unmap_2M :: "entp \<Rightarrow> npg_state \<Rightarrow> npg_state" where
  "uu_npg_unmap_2M pde s =
     (let s1 = (if \<not> npg_large (rd_ent pde s) then
                  (let pt = page_addr (npg_addr (rd_ent pde s));
                       s' = fold (\<lambda>i s. if npg_present (rd_ent (pt, i) s) then npg_zero (pt, i) s else s)
                              [0..<512] s
                   in s'\<lparr>npg_pool := pool_push_page pt (npg_pool s')\<rparr>)
                else s)
      in npg_zero pde s1)"

definition uu_npg_map_2M_nolarge :: "entp \<Rightarrow> offset_t \<Rightarrow> u64 \<Rightarrow> npg_state \<Rightarrow> npg_state option" where
  "uu_npg_map_2M_nolarge pde addr attr s =
     do { (pt, s1) \<leftarrow> uu_npg_new_pg s;
          s2 \<leftarrow> for_opt (\<lambda>i. npg_set_page_entry (pt, i) attr (drop_bit 12 addr + of_nat i)) [0..<512] s1;
          Some (npg_set_entry pde (attr OR npg_dft_pvl) (page_nr pt) s2) }"

definition uu_npg_map_2M :: "entp \<Rightarrow> offset_t \<Rightarrow> u64 \<Rightarrow> npg_state \<Rightarrow> npg_state option" where
  "uu_npg_map_2M pde addr attr s =
     (let s1 = (if npg_present (rd_ent pde s) then uu_npg_unmap_2M pde s else s)
      in if skillz_pg_2M s1 then
           map_option (\<lambda>v. wr_ent pde v s1)
             (ept_pg_set_large_page_entry_2M (rd_ent pde s1) attr (drop_bit 21 addr))
         else uu_npg_map_2M_nolarge pde addr attr s1)"

definition uu_npg_remap_2M_finest :: "entp \<Rightarrow> offset_t \<Rightarrow> npg_state \<Rightarrow> npg_state option" where
  "uu_npg_remap_2M_finest pde addr s =
     (let attr = ept_pg_get_attr (rd_ent pde s);
          addr' = (if \<not> uu_aligned addr PG_2M_SIZE then uu_align addr PG_2M_SIZE else addr)
      in uu_npg_map_2M_nolarge pde addr' attr (uu_npg_unmap_2M pde s))"

definition uu_npg_unmap_1G :: "entp \<Rightarrow> npg_state \<Rightarrow> npg_state" where
  "uu_npg_unmap_1G pdpe s =
     (let s1 = (if \<not> npg_large (rd_ent pdpe s) then
                  (let pd = page_addr (npg_addr (rd_ent pdpe s));
                       s' = fold (\<lambda>i s. if npg_present (rd_ent (pd, i) s) then uu_npg_unmap_2M (pd, i) s else s)
                              [0..<512] s
                   in s'\<lparr>npg_pool := pool_push_page pd (npg_pool s')\<rparr>)
                else s)
      in npg_zero pdpe s1)"

definition uu_npg_map_1G_nolarge :: "entp \<Rightarrow> offset_t \<Rightarrow> u64 \<Rightarrow> npg_state \<Rightarrow> npg_state option" where
  "uu_npg_map_1G_nolarge pdpe addr attr s =
     do { (pd, s1) \<leftarrow> uu_npg_new_pg s;
          s2 \<leftarrow> for_opt (\<lambda>i. uu_npg_map_2M (pd, i) (addr + of_nat i * PG_2M_SIZE) attr) [0..<512] s1;
          Some (npg_set_entry pdpe (attr OR npg_dft_pvl) (page_nr pd) s2) }"

definition uu_npg_map_1G :: "entp \<Rightarrow> offset_t \<Rightarrow> u64 \<Rightarrow> npg_state \<Rightarrow> npg_state option" where
  "uu_npg_map_1G pdpe addr attr s =
     (let s1 = (if npg_present (rd_ent pdpe s) then uu_npg_unmap_1G pdpe s else s)
      in if skillz_pg_1G s1 then
           map_option (\<lambda>v. wr_ent pdpe v s1)
             (ept_pg_set_large_page_entry_1G (rd_ent pdpe s1) attr (drop_bit 30 addr))
         else uu_npg_map_1G_nolarge pdpe addr attr s1)"

definition uu_npg_remap_1G_finest :: "entp \<Rightarrow> offset_t \<Rightarrow> npg_state \<Rightarrow> npg_state option" where
  "uu_npg_remap_1G_finest pdpe addr s =
     (let attr = ept_pg_get_attr (rd_ent pdpe s);
          addr' = (if \<not> uu_aligned addr PG_1G_SIZE then uu_align addr PG_1G_SIZE else addr)
      in uu_npg_map_1G_nolarge pdpe addr' attr (uu_npg_unmap_1G pdpe s))"

section \<open>Services on aligned addresses\<close>

text \<open>
  A null pointer that the code would dereference (\<^verbatim>\<open>_npg_unmap_2M\<close> of a page directory
  entry that is not there) is \<^verbatim>\<open>None\<close> as well.
\<close>

definition u_npg_map_512G :: "offset_t \<Rightarrow> u64 \<Rightarrow> npg_state \<Rightarrow> npg_state option" where
  "u_npg_map_512G addr attr s =
     do { ((pdp, k), s1) \<leftarrow> uu_npg_resolve_pdpe (uu_align addr PG_512G_SIZE) attr s;
          for_opt (\<lambda>i. uu_npg_map_1G (pdp, k + i) (addr + of_nat i * PG_1G_SIZE) attr) [0..<512] s1 }"

definition u_npg_map_1G :: "offset_t \<Rightarrow> u64 \<Rightarrow> npg_state \<Rightarrow> npg_state option" where
  "u_npg_map_1G addr attr s =
     do { (pdpe, s1) \<leftarrow> uu_npg_resolve_pdpe addr attr s;
          uu_npg_map_1G pdpe addr attr s1 }"

definition u_npg_map_2M :: "offset_t \<Rightarrow> u64 \<Rightarrow> npg_state \<Rightarrow> npg_state option" where
  "u_npg_map_2M addr attr s =
     do { (pdpe, s1) \<leftarrow> uu_npg_resolve_pdpe addr attr s;
          if npg_large (rd_ent pdpe s1) then Some s1
          else do { (pde, s2) \<leftarrow> uu_npg_resolve_pde pdpe addr attr s1;
                    pde' \<leftarrow> pde;
                    uu_npg_map_2M pde' addr attr s2 } }"

definition u_npg_map_4K :: "offset_t \<Rightarrow> u64 \<Rightarrow> npg_state \<Rightarrow> npg_state option" where
  "u_npg_map_4K addr attr s =
     do { (pdpe, s1) \<leftarrow> uu_npg_resolve_pdpe addr attr s;
          (pde, s2) \<leftarrow> uu_npg_resolve_pde pdpe addr attr s1;
          if npg_large (rd_ent pdpe s2) then Some s2
          else do { pde' \<leftarrow> pde;
                    if npg_large (rd_ent pde' s2) then Some s2
                    else do { (pte, s3) \<leftarrow> uu_npg_resolve_pte pde' addr attr s2;
                              pte' \<leftarrow> pte;
                              npg_set_page_entry pte' attr (drop_bit 12 addr) s3 } } }"

definition u_npg_unmap_512G :: "offset_t \<Rightarrow> u64 \<Rightarrow> npg_state \<Rightarrow> npg_state option" where
  "u_npg_unmap_512G addr attr s =
     (case uu_npg_get_pdpe addr s of
        None \<Rightarrow> Some s
      | Some (pdp, k) \<Rightarrow>
          Some (fold (\<lambda>i s. if npg_present (rd_ent (pdp, k + i) s) then uu_npg_unmap_1G (pdp, k + i) s else s)
                  [0..<512] s))"

definition u_npg_unmap_1G :: "offset_t \<Rightarrow> u64 \<Rightarrow> npg_state \<Rightarrow> npg_state option" where
  "u_npg_unmap_1G addr attr s =
     (case uu_npg_get_pdpe addr s of
        None \<Rightarrow> Some s
      | Some pdpe \<Rightarrow> if npg_present (rd_ent pdpe s) then Some (uu_npg_unmap_1G pdpe s) else Some s)"

definition u_npg_unmap_2M :: "offset_t \<Rightarrow> u64 \<Rightarrow> npg_state \<Rightarrow> npg_state option" where
  "u_npg_unmap_2M addr attr s =
     (case uu_npg_get_pdpe addr s of
        None \<Rightarrow> Some s
      | Some pdpe \<Rightarrow>
          if \<not> npg_present (rd_ent pdpe s) then Some s
          else do { s1 \<leftarrow> (if npg_large (rd_ent pdpe s) then uu_npg_remap_1G_finest pdpe addr s else Some s);
                    pde \<leftarrow> uu_npg_get_pde pdpe addr s1;
                    Some (uu_npg_unmap_2M pde s1) })"

definition u_npg_remap_finest_4K :: "offset_t \<Rightarrow> npg_state \<Rightarrow> (entp option \<times> npg_state) option" where
  "u_npg_remap_finest_4K addr s =
     (case uu_npg_get_pdpe addr s of
        None \<Rightarrow> Some (None, s)
      | Some pdpe \<Rightarrow>
          if \<not> npg_present (rd_ent pdpe s) then Some (None, s)
          else do { s1 \<leftarrow> (if npg_large (rd_ent pdpe s) then uu_npg_remap_1G_finest pdpe addr s else Some s);
                    (case uu_npg_get_pde pdpe addr s1 of
                       None \<Rightarrow> Some (None, s1)
                     | Some pde \<Rightarrow>
                         if \<not> npg_present (rd_ent pde s1) then Some (None, s1)
                         else do { s2 \<leftarrow> (if npg_large (rd_ent pde s1)
                                          then uu_npg_remap_2M_finest pde addr s1 else Some s1);
                                   Some (uu_npg_get_pte pde addr s2, s2) }) })"

definition u_npg_unmap_4K :: "offset_t \<Rightarrow> u64 \<Rightarrow> npg_state \<Rightarrow> npg_state option" where
  "u_npg_unmap_4K addr attr s =
     do { (pte, s1) \<leftarrow> u_npg_remap_finest_4K addr s;
          Some (case pte of None \<Rightarrow> s1 | Some p \<Rightarrow> npg_zero p s1) }"

text \<open>A state with an empty pml4 at 2M and a pool of four pages.\<close>

definition npg_ex :: npg_state where
  "npg_ex = \<lparr>npg_mem = (\<lambda>p. 0), npg_pool = pool_init pool_ex, npg_pml4 = 0x200000,
     skillz_pg_1G = True, skillz_pg_2M = True, max_paddr = 0xfffffffff\<rparr>"

end
