(* ===== verification/Npg_Range.thy ===== *)
theory Npg_Range
  imports Npg
begin

text \<open>
  The generic range services of \<^verbatim>\<open>common/libc/npt_map.c\<close>: a range is decomposed into
  512G, 1G, 2M and 4K operations, first backward to the coarsest boundary that fits, then
  forward to the end. The operators are the code's \<^verbatim>\<open>npg_op_t\<close> chain, here a list, so that
  the field \<^verbatim>\<open>nxt\<close> is the tail of the list. The decomposition is compared with a reference
  list of calls, and that list is shown to tile the range.
\<close>

section \<open>Operators\<close>

datatype npg_op_type = NPG_OP_MAP | NPG_OP_UNMAP | NPG_OP_REMAP

record 's npg_op =
  op_sz :: u64
  op_shf :: nat
  op_fnc :: "npg_op_type \<Rightarrow> offset_t \<Rightarrow> u64 \<Rightarrow> 's \<Rightarrow> 's option"

text \<open>The \<^verbatim>\<open>remap\<close> entries of the tables only panic.\<close>

definition u_npg_remap :: "offset_t \<Rightarrow> u64 \<Rightarrow> npg_state \<Rightarrow> npg_state option" where
  "u_npg_remap addr attr s = None"

definition npg_4K_op :: "npg_state npg_op" where
  "npg_4K_op = \<lparr>op_sz = PG_4K_SIZE, op_shf = 12, op_fnc = (\<lambda>act. case act of
     NPG_OP_MAP \<Rightarrow> u_npg_map_4K | NPG_OP_UNMAP \<Rightarrow> u_npg_unmap_4K | NPG_OP_REMAP \<Rightarrow> u_npg_remap)\<rparr>"

definition npg_2M_op :: "npg_state npg_op" where
  "npg_2M_op = \<lparr>op_sz = PG_2M_SIZE, op_shf = 21, op_fnc = (\<lambda>act. case act of
     NPG_OP_MAP \<Rightarrow> u_npg_map_2M | NPG_OP_UNMAP \<Rightarrow> u_npg_unmap_2M | NPG_OP_REMAP \<Rightarrow> u_npg_remap)\<rparr>"

definition npg_1G_op :: "npg_state npg_op" where
  "npg_1G_op = \<lparr>op_sz = PG_1G_SIZE, op_shf = 30, op_fnc = (\<lambda>act. case act of
     NPG_OP_MAP \<Rightarrow> u_npg_map_1G | NPG_OP_UNMAP \<Rightarrow> u_npg_unmap_1G | NPG_OP_REMAP \<Rightarrow> u_npg_remap)\<rparr>"

definition npg_512G_op :: "npg_state npg_op" where
  "npg_512G_op = \<lparr>op_sz = PG_512G_SIZE, op_shf = 39, op_fnc = (\<lambda>act. case act of
     NPG_OP_MAP \<Rightarrow> u_npg_map_512G | NPG_OP_UNMAP \<Rightarrow> u_npg_unmap_512G | NPG_OP_REMAP \<Rightarrow> u_npg_remap)\<rparr>"

definition npg_ops :: "npg_state npg_op list" where
  "npg_ops = [npg_512G_op, npg_1G_op, npg_2M_op, npg_4K_op]"

text \<open>The \<^verbatim>\<open>while\<close> loops of both directions; a run that does not return is \<^verbatim>\<open>None\<close>.\<close>

partial_function (option) npg_op_loop ::
    "(offset_t \<Rightarrow> 's \<Rightarrow> 's option) \<Rightarrow> u64 \<Rightarrow> offset_t \<Rightarrow> offset_t \<Rightarrow> 's \<Rightarrow> (offset_t \<times> 's) option" where
  "npg_op_loop f sz lim addr s =
     (if addr < lim then Option.bind (f addr s) (\<lambda>s'. npg_op_loop f sz lim (addr + sz) s')
      else Some (addr, s))"

fun uu_npg_bk_op ::
    "offset_t \<Rightarrow> offset_t \<Rightarrow> offset_t \<Rightarrow> u64 \<Rightarrow> 's npg_op list \<Rightarrow> npg_op_type \<Rightarrow> 's
     \<Rightarrow> (offset_t \<times> 's) option" where
  "uu_npg_bk_op start end upper attr [] act s = None"
| "uu_npg_bk_op start end upper attr (op # nxts) act s =
     Option.bind
       (if nxts \<noteq> [] then
          (let start_up = uu_align_next start (op_sz op);
               diff_tbl = (drop_bit (op_shf op) start \<noteq> drop_bit (op_shf op) end)
           in if uu_aligned start (op_sz op) \<and> diff_tbl
              then map_option (Pair start_up) (op_fnc op act start attr s)
              else uu_npg_bk_op start end start_up attr nxts act s)
        else Some (uu_align start (op_sz op), s))
       (\<lambda>(addr, s1).
          npg_op_loop (\<lambda>a. op_fnc op act a attr) (op_sz op)
            (min (uu_align end (op_sz op)) upper) addr s1)"

fun uu_npg_fw_op ::
    "offset_t \<Rightarrow> offset_t \<Rightarrow> u64 \<Rightarrow> 's npg_op list \<Rightarrow> npg_op_type \<Rightarrow> 's \<Rightarrow> 's option" where
  "uu_npg_fw_op start end attr [] act s = Some s"
| "uu_npg_fw_op start end attr (op # nxts) act s =
     Option.bind
       (npg_op_loop (\<lambda>a. op_fnc op act a attr) (op_sz op) (uu_align end (op_sz op)) start s)
       (\<lambda>(addr, s1).
          if nxts \<noteq> [] \<and> \<not> uu_aligned end (op_sz op)
          then uu_npg_fw_op addr end attr nxts act s1 else Some s1)"

definition u_npg_bk_op ::
    "offset_t \<Rightarrow> offset_t \<Rightarrow> u64 \<Rightarrow> npg_op_type \<Rightarrow> npg_state \<Rightarrow> (offset_t \<times> npg_state) option" where
  "u_npg_bk_op start end attr act s = uu_npg_bk_op start end (max_paddr s) attr npg_ops act s"

definition u_npg_fw_op ::
    "offset_t \<Rightarrow> offset_t \<Rightarrow> u64 \<Rightarrow> npg_op_type \<Rightarrow> npg_state \<Rightarrow> npg_state option" where
  "u_npg_fw_op start end attr act s = uu_npg_fw_op start end attr npg_ops act s"

definition npg_map :: "offset_t \<Rightarrow> offset_t \<Rightarrow> u64 \<Rightarrow> npg_state \<Rightarrow> npg_state option" where
  "npg_map start end attr s =
     Option.bind (u_npg_bk_op start end attr NPG_OP_MAP s)
       (\<lambda>(addr, s1). u_npg_fw_op addr end attr NPG_OP_MAP s1)"

definition npg_unmap :: "offset_t \<Rightarrow> offset_t \<Rightarrow> npg_state \<Rightarrow> npg_state option" where
  "npg_unmap start end s =
     Option.bind (u_npg_bk_op start end 0 NPG_OP_UNMAP s)
       (\<lambda>(addr, s1). u_npg_fw_op addr end 0 NPG_OP_UNMAP s1)"

section \<open>Reference decomposition\<close>

text \<open>Blocks of \<open>2 ^ k\<close> bytes from \<open>a\<close> until \<open>lim\<close> is reached.\<close>

definition steps :: "nat \<Rightarrow> nat \<Rightarrow> nat \<Rightarrow> nat" where
  "steps k lim a = (lim - a + 2 ^ k - 1) div 2 ^ k"

definition block_calls :: "nat \<Rightarrow> nat \<Rightarrow> nat \<Rightarrow> (nat \<times> nat) list" where
  "block_calls k lim a = map (\<lambda>i. (k, a + i * 2 ^ k)) [0..<steps k lim a]"

definition block_end :: "nat \<Rightarrow> nat \<Rightarrow> nat \<Rightarrow> nat" where
  "block_end k lim a = a + steps k lim a * 2 ^ k"

definition down :: "nat \<Rightarrow> nat \<Rightarrow> nat" where
  "down k a = a div 2 ^ k * 2 ^ k"

fun bk_calls :: "nat list \<Rightarrow> nat \<Rightarrow> nat \<Rightarrow> nat \<Rightarrow> nat \<times> (nat \<times> nat) list" where
  "bk_calls [] a e upper = (a, [])"
| "bk_calls (k # ks) a e upper =
     (let (r, cs) = (if ks \<noteq> [] then
                       (if 2 ^ k dvd a \<and> a div 2 ^ k \<noteq> e div 2 ^ k then (down k a + 2 ^ k, [(k, a)])
                        else bk_calls ks a e (down k a + 2 ^ k))
                     else (down k a, []));
          lim = min (down k e) upper
      in (block_end k lim r, cs @ block_calls k lim r))"

fun fw_calls :: "nat list \<Rightarrow> nat \<Rightarrow> nat \<Rightarrow> (nat \<times> nat) list" where
  "fw_calls [] a e = []"
| "fw_calls (k # ks) a e =
     block_calls k (down k e) a @
       (if ks \<noteq> [] \<and> \<not> 2 ^ k dvd e then fw_calls ks (block_end k (down k e) a) e else [])"

definition range_calls :: "nat list \<Rightarrow> nat \<Rightarrow> nat \<Rightarrow> nat \<Rightarrow> (nat \<times> nat) list" where
  "range_calls ks a e upper = (let (r, cs) = bk_calls ks a e upper in cs @ fw_calls ks r e)"

section \<open>The decomposition tiles the range\<close>

text \<open>A list of calls that covers \<open>[a, b)\<close> from left to right, each call on a block aligned to
  its own size.\<close>

fun tiles :: "nat \<Rightarrow> (nat \<times> nat) list \<Rightarrow> nat \<Rightarrow> bool" where
  "tiles a [] b = (a = b)"
| "tiles a ((k, x) # cs) b = (x = a \<and> 2 ^ k dvd a \<and> tiles (a + 2 ^ k) cs b)"

lemma tiles_append: "tiles a cs m \<Longrightarrow> tiles m ds b \<Longrightarrow> tiles a (cs @ ds) b"
  by (induction a cs m rule: tiles.induct) auto

lemma tiles_append_iff: "tiles a (xs @ ys) b \<longleftrightarrow> (\<exists>m. tiles a xs m \<and> tiles m ys b)"
  by (induction xs arbitrary: a) auto

text \<open>The bytes a list of calls covers.\<close>

definition calls_size :: "(nat \<times> nat) list \<Rightarrow> nat" where
  "calls_size cs = sum_list (map (\<lambda>(k, x). 2 ^ k) cs)"

lemma tiles_size: "tiles a cs b \<Longrightarrow> b = a + calls_size cs"
  by (induction a cs b rule: tiles.induct) (auto simp: calls_size_def)

lemma tiles_blocks:
  "2 ^ k dvd a \<Longrightarrow> tiles a (map (\<lambda>i. (k, a + i * 2 ^ k)) [0..<n]) (a + n * 2 ^ k)"
proof (induction n)
  case (Suc n)
  then have "tiles (a + n * 2 ^ k) [(k, a + n * 2 ^ k)] (a + Suc n * 2 ^ k)" by simp
  with Suc show ?case by (auto intro: tiles_append)
qed simp

lemma tiles_block_calls: "2 ^ k dvd a \<Longrightarrow> tiles a (block_calls k lim a) (block_end k lim a)"
  by (simp add: block_calls_def block_end_def tiles_blocks)

lemma block_none: "lim \<le> a \<Longrightarrow> block_calls k lim a = [] \<and> block_end k lim a = a"
  by (simp add: block_calls_def block_end_def steps_def)

lemma down_le: "down k a \<le> a"
  by (simp add: down_def)

lemma down_dvd: "2 ^ k dvd down k a"
  by (simp add: down_def)

lemma down_less: "a < down k a + 2 ^ k"
  by (simp add: down_def add.commute dividend_less_div_times)

lemma dvd_le_down: "2 ^ k dvd b \<Longrightarrow> b \<le> a \<Longrightarrow> b \<le> down k a"
  by (metis div_le_mono down_def dvd_div_mult_self mult_le_mono1)

lemma down_id: "2 ^ k dvd a \<Longrightarrow> down k a = a"
  by (simp add: down_def)

lemma pow_dvd_down: "j \<le> k \<Longrightarrow> (2::nat) ^ j dvd down k a"
  by (meson down_dvd dvd_trans le_imp_power_dvd)

lemma down_mono_exp: "j \<le> k \<Longrightarrow> down k a \<le> down j a"
  by (rule dvd_le_down [OF pow_dvd_down down_le])

lemma div_round: "0 < m \<Longrightarrow> (n * m + (m - 1)) div m = n" for m :: nat
  by (rule div_nat_eqI) (cases m; simp add: algebra_simps)+

text \<open>From an aligned start the blocks stop at an aligned limit, or at most one block further.\<close>

lemma block_end_exact:
  assumes "2 ^ k dvd a" and "2 ^ k dvd lim" and "a \<le> lim"
  shows "block_end k lim a = lim"
proof -
  from assms obtain m n where "a = 2 ^ k * m" "lim = 2 ^ k * n" by (auto elim!: dvdE)
  with assms(3) have d: "lim - a = (n - m) * 2 ^ k" by (simp add: algebra_simps flip: diff_mult_distrib2)
  have "steps k lim a = n - m" using div_round [of "2 ^ k" "n - m"] by (simp add: steps_def d)
  with d assms(3) show ?thesis by (simp add: block_end_def)
qed

lemma block_end_bound:
  assumes "2 ^ k dvd a" and "2 ^ k dvd e" and "a \<le> e" and "lim \<le> e"
  shows "2 ^ k dvd block_end k lim a \<and> a \<le> block_end k lim a \<and> block_end k lim a \<le> e"
proof (cases "lim \<le> a")
  case True
  with assms show ?thesis by (simp add: block_none)
next
  case False
  from assms obtain m n where mn: "a = m * 2 ^ k" "e = n * 2 ^ k" by (auto elim!: dvdE simp: mult.commute)
  have "lim - a \<le> (n - m) * 2 ^ k" using mn assms(4) by (simp add: diff_mult_distrib)
  then have "steps k lim a \<le> ((n - m) * 2 ^ k + (2 ^ k - 1)) div 2 ^ k"
    by (simp add: steps_def div_le_mono)
  also have "\<dots> = n - m" by (rule div_round) simp
  finally have "a + steps k lim a * 2 ^ k \<le> a + (n - m) * 2 ^ k" by simp
  also have "\<dots> \<le> e" using mn assms(3) by (simp flip: add_mult_distrib)
  finally show ?thesis using assms(1) by (simp add: block_end_def)
qed

text \<open>The levels of the operators: coarser first, 4K last.\<close>

definition levels :: "nat list \<Rightarrow> bool" where
  "levels ks = (ks \<noteq> [] \<and> sorted_wrt (>) ks \<and> last ks = 12)"

lemma levels_Cons:
  "levels (k # ks) \<longleftrightarrow> (if ks = [] then k = 12 else k > hd ks \<and> levels ks)"
  by (cases ks) (auto simp: levels_def)

lemma levels_hd: "levels ks \<Longrightarrow> hd ks \<in> set ks"
  by (simp add: levels_def)

lemma levels_ge: "levels ks \<Longrightarrow> k \<in> set ks \<Longrightarrow> 12 \<le> k"
proof (induction ks arbitrary: k)
  case (Cons j ks)
  show ?case
  proof (cases "ks = []")
    case False
    with Cons.prems(1) have "levels ks" "hd ks < j" by (auto simp: levels_Cons)
    with Cons.IH levels_hd [of ks] Cons.prems(2) show ?thesis by force
  qed (use Cons.prems in \<open>auto simp: levels_Cons\<close>)
qed simp

lemma down_12_id: "12 \<le> k \<Longrightarrow> 2 ^ k dvd a \<Longrightarrow> down 12 a = a"
  by (rule down_id) (metis dvd_trans le_imp_power_dvd)

lemma fw_aligned:
  "levels ks \<Longrightarrow> 2 ^ hd ks dvd r \<Longrightarrow> r \<le> down (hd ks) e \<Longrightarrow> tiles r (fw_calls ks r e) (down 12 e)"
proof (induction ks arbitrary: r)
  case (Cons k ks)
  have r: "2 ^ k dvd r" "r \<le> down k e" using Cons.prems by auto
  have loop: "tiles r (block_calls k (down k e) r) (down k e)" and fin: "block_end k (down k e) r = down k e"
    using tiles_block_calls [OF r(1), of "down k e"] block_end_exact [OF r(1) down_dvd r(2)] by auto
  have k: "12 \<le> k" using levels_ge [OF Cons.prems(1)] by simp
  show ?case
  proof (cases "ks \<noteq> [] \<and> \<not> 2 ^ k dvd e")
    case True
    with Cons.prems(1) have l: "levels ks" "hd ks < k" by (auto simp: levels_Cons)
    then have "tiles (down k e) (fw_calls ks (down k e) e) (down 12 e)"
      by (intro Cons.IH) (auto intro: pow_dvd_down down_mono_exp)
    with True loop fin show ?thesis by (auto intro: tiles_append)
  next
    case False
    then have "down k e = down 12 e"
      using Cons.prems(1) down_12_id [OF k, of e] by (auto simp: levels_Cons down_id)
    with False loop show ?thesis by auto
  qed
qed (simp add: levels_def)

lemma div_neq_iff: "a \<le> e \<Longrightarrow> a div 2 ^ k \<noteq> e div 2 ^ k \<longleftrightarrow> down k a + 2 ^ k \<le> down k e" for a :: nat
proof -
  assume "a \<le> e"
  then have "a div 2 ^ k \<le> e div 2 ^ k" by (rule div_le_mono)
  then have "a div 2 ^ k \<noteq> e div 2 ^ k \<longleftrightarrow> Suc (a div 2 ^ k) \<le> e div 2 ^ k" by auto
  also have "\<dots> \<longleftrightarrow> Suc (a div 2 ^ k) * 2 ^ k \<le> e div 2 ^ k * 2 ^ k" by (simp del: mult_Suc)
  finally show ?thesis by (simp add: down_def add.commute)
qed

text \<open>Inside one block of a coarser level, the backward pass stops at the end of the block.\<close>

lemma bk_full:
  assumes "levels ks" and "hd ks < m" and "down m a + 2 ^ m \<le> e"
  shows "\<exists>cs. bk_calls ks a e (down m a + 2 ^ m) = (down m a + 2 ^ m, cs)
    \<and> tiles (down 12 a) cs (down m a + 2 ^ m)"
  using assms
proof (induction ks arbitrary: m)
  case (Cons k ks)
  let ?u = "down m a + 2 ^ m" and ?v = "down k a + 2 ^ k"
  have km: "k < m" using Cons.prems by simp
  have ku: "2 ^ k dvd ?u" using km pow_dvd_down [of k m a] by (simp add: le_imp_power_dvd)
  have lim: "min (down k e) ?u = ?u" using dvd_le_down [OF ku] Cons.prems(3) by simp
  have vu: "?v \<le> ?u"
  proof -
    have "a < ?u" by (rule down_less)
    then have "a div 2 ^ k < ?u div 2 ^ k" using ku by (intro less_mult_imp_div_less) simp
    then have "Suc (a div 2 ^ k) * 2 ^ k \<le> ?u div 2 ^ k * 2 ^ k" by (simp del: mult_Suc)
    then show ?thesis using ku by (simp add: down_def add.commute)
  qed
  have fin: "tiles r (block_calls k ?u r) ?u \<and> block_end k ?u r = ?u" if "2 ^ k dvd r" "r \<le> ?u" for r
    using that block_end_exact [OF that(1) ku that(2)] tiles_block_calls [OF that(1), of ?u] by simp
  have kv: "2 ^ k dvd ?v" by (simp add: down_dvd)
  show ?case
  proof (cases "ks = []")
    case True
    then have k: "12 = k" using Cons.prems(1) by (simp add: levels_Cons)
    show ?thesis using True lim fin [OF down_dvd, of a] vu unfolding k by (auto simp: Let_def)
  next
    case False
    then have l: "levels ks" "hd ks < k" using Cons.prems(1) by (auto simp: levels_Cons)
    have ve: "?v \<le> e" using vu Cons.prems(3) by simp
    have "\<exists>cs. (if 2 ^ k dvd a \<and> a div 2 ^ k \<noteq> e div 2 ^ k then (?v, [(k, a)]) else bk_calls ks a e ?v)
        = (?v, cs) \<and> tiles (down 12 a) cs ?v"
    proof (cases "2 ^ k dvd a \<and> a div 2 ^ k \<noteq> e div 2 ^ k")
      case True
      then have "down 12 a = a" "down k a = a"
        using levels_ge [OF Cons.prems(1)] down_12_id [of k a] by (auto simp: down_id)
      with True show ?thesis by simp
    next
      case False
      with Cons.IH [OF l ve] show ?thesis by auto
    qed
    then obtain cs where "(if 2 ^ k dvd a \<and> a div 2 ^ k \<noteq> e div 2 ^ k then (?v, [(k, a)]) else bk_calls ks a e ?v)
        = (?v, cs)" "tiles (down 12 a) cs ?v" by blast
    with False lim fin [OF kv vu] show ?thesis
      by (auto simp: Let_def intro: tiles_append)
  qed
qed (simp add: levels_def)

lemma bk_fw:
  assumes "levels ks" and "a \<le> e" and "bk_calls ks a e upper = (r, cs)"
  shows "tiles (down 12 a) cs r \<and> down 12 a \<le> r \<and> r \<le> down 12 e
    \<and> tiles r (fw_calls ks r e) (down 12 e)"
  using assms
proof (induction ks arbitrary: upper r cs)
  case (Cons k ks)
  let ?v = "down k a + 2 ^ k" and ?lim = "min (down k e) upper"
  have k12: "12 \<le> k" using levels_ge [OF Cons.prems(1)] by simp
  have aligned: "tiles r' (block_calls k ?lim r') (block_end k ?lim r')
      \<and> block_end k ?lim r' \<le> down 12 e \<and> r' \<le> block_end k ?lim r'
      \<and> tiles (block_end k ?lim r') (fw_calls (k # ks) (block_end k ?lim r') e) (down 12 e)"
    if "2 ^ k dvd r'" "r' \<le> down k e" for r'
    using that tiles_block_calls [OF that(1)] block_end_bound [OF that(1) down_dvd that(2), of ?lim]
      fw_aligned [OF Cons.prems(1)] down_mono_exp [OF k12, of e] by auto
  show ?case
  proof (cases "ks = []")
    case True
    then have k: "12 = k" using Cons.prems(1) by (simp add: levels_Cons)
    have "down k a \<le> down k e" using Cons.prems(2) by (simp add: down_def div_le_mono)
    with True Cons.prems(3) aligned [OF down_dvd, of a] show ?thesis
      unfolding k by (auto simp: Let_def)
  next
    case ne: False
    then have l: "levels ks" "hd ks < k" using Cons.prems(1) by (auto simp: levels_Cons)
    show ?thesis
    proof (cases "a div 2 ^ k \<noteq> e div 2 ^ k")
      case True
      then have ve: "?v \<le> down k e" using div_neq_iff [OF Cons.prems(2)] by blast
      have "\<exists>cs'. (if 2 ^ k dvd a then (?v, [(k, a)]) else bk_calls ks a e ?v) = (?v, cs')
          \<and> tiles (down 12 a) cs' ?v"
        using bk_full [OF l, of a e] ve down_le [of k e] k12
        by (auto simp: down_id down_12_id)
      moreover have "down 12 a \<le> ?v" using down_le [of 12 a] down_less [of a k] by linarith
      ultimately show ?thesis
        using True ne Cons.prems(3) aligned [OF _ ve] by (auto simp: down_dvd Let_def intro: tiles_append)
    next
      case False
      obtain r' cs' where rc: "bk_calls ks a e ?v = (r', cs')" by fastforce
      note IH = Cons.IH [OF l(1) Cons.prems(2) rc]
      have "down k e = down k a" using False by (simp add: down_def)
      then have le: "down k e \<le> r'" using IH down_mono_exp [OF k12, of a] by linarith
      then have r: "r = r'" "cs = cs'"
        using Cons.prems(3) ne False rc block_none [of ?lim r' k] by (auto simp: Let_def)
      have "2 ^ k dvd e \<Longrightarrow> r' = down 12 e"
        using le IH down_id [of k e] down_le [of 12 e] by simp
      with IH r le ne show ?thesis using block_none [OF le, of k] by (cases "2 ^ k dvd e") auto
    qed
  qed
qed (simp add: levels_def)

section \<open>The code performs the reference calls\<close>

definition exec_calls ::
    "(nat \<Rightarrow> offset_t \<Rightarrow> 's \<Rightarrow> 's option) \<Rightarrow> (nat \<times> nat) list \<Rightarrow> 's \<Rightarrow> 's option" where
  "exec_calls f cs s = for_opt (\<lambda>(k, a). f k (of_nat a)) cs s"

lemma exec_calls_simps [simp]:
  "exec_calls f [] s = Some s"
  "exec_calls f ((k, a) # cs) s = Option.bind (f k (of_nat a) s) (exec_calls f cs)"
  by (simp_all add: exec_calls_def [abs_def])

lemma exec_calls_Nil [simp]: "exec_calls f [] = Some"
  by (simp add: fun_eq_iff)

lemma exec_calls_append:
  "exec_calls f (xs @ ys) s = Option.bind (exec_calls f xs s) (exec_calls f ys)"
  by (simp add: exec_calls_def [abs_def] for_opt_append)

lemma pow_div_add: "(x + 2 ^ k) div 2 ^ k = Suc (x div 2 ^ k)" for x :: nat
  using div_add_self2 [of "2 ^ k" x] by simp

lemma steps_Suc:
  assumes "a < lim"
  shows "steps k lim a = Suc (steps k lim (a + 2 ^ k))"
proof (cases "lim \<le> a + 2 ^ k")
  case True
  then have "(lim - a + 2 ^ k - 1) div 2 ^ k = 1"
    using assms by (intro div_nat_eqI) (auto simp: algebra_simps)
  moreover have "steps k lim (a + 2 ^ k) = 0" using True by (simp add: steps_def)
  ultimately show ?thesis by (simp add: steps_def)
next
  case False
  then have "lim - a + 2 ^ k - 1 = (lim - (a + 2 ^ k) + 2 ^ k - 1) + 2 ^ k" by auto
  then show ?thesis unfolding steps_def by (simp only: pow_div_add)
qed

lemma block_calls_step:
  "a < lim \<Longrightarrow> block_calls k lim a = (k, a) # block_calls k lim (a + 2 ^ k)"
  "a < lim \<Longrightarrow> block_end k lim a = block_end k lim (a + 2 ^ k)"
proof -
  assume lt: "a < lim"
  have "[0..<Suc n] = 0 # map Suc [0..<n]" for n by (simp add: upt_conv_Cons map_Suc_upt)
  then show "block_calls k lim a = (k, a) # block_calls k lim (a + 2 ^ k)"
    by (simp add: block_calls_def steps_Suc [OF lt] algebra_simps del: upt_Suc)
  show "block_end k lim a = block_end k lim (a + 2 ^ k)"
    by (simp add: block_end_def steps_Suc [OF lt])
qed

text \<open>The loop stops: its counter cannot wrap below an aligned bound.\<close>

lemma npg_op_loop_eq:
  assumes "unat lim + 2 ^ k \<le> 2 ^ 64"
  shows "npg_op_loop (f k) (2 ^ k) lim addr s =
    map_option (Pair (of_nat (block_end k (unat lim) (unat addr))))
      (exec_calls f (block_calls k (unat lim) (unat addr)) s)"
proof (induction "steps k (unat lim) (unat addr)" arbitrary: addr s)
  case 0
  have "\<not> unat addr < unat lim" using steps_Suc [of "unat addr" "unat lim" k] 0 by auto
  then show ?case
    by (subst npg_op_loop.simps) (simp add: block_none word_less_nat_alt)
next
  case (Suc n)
  have lt: "unat addr < unat lim"
    using Suc(2) by (rule_tac ccontr) (simp add: steps_def)
  have "unat addr + 2 ^ k < 2 ^ 64" using lt assms by linarith
  moreover have "addr + 2 ^ k = of_nat (unat addr + 2 ^ k)" by simp
  ultimately have un: "unat (addr + 2 ^ k) = unat addr + 2 ^ k" by (simp only: unat_of_nat) simp
  have "n = steps k (unat lim) (unat (addr + 2 ^ k))"
    using Suc(2) steps_Suc [OF lt] by (simp add: un)
  note IH = Suc(1) [OF this]
  show ?case
    using lt by (subst npg_op_loop.simps, cases "f k addr s")
      (simp_all add: IH un block_calls_step [OF lt] word_less_nat_alt)
qed

lemma align_bound: "k < 64 \<Longrightarrow> unat (uu_align e (2 ^ k) :: u64) + 2 ^ k \<le> 2 ^ 64"
proof -
  assume k: "k < 64"
  have "(2 :: nat) ^ 64 = 2 ^ (64 - k) * 2 ^ k" using k by (simp flip: power_add)
  moreover have "unat e < 2 ^ 64" using unat_u64_less [of e] by linarith
  ultimately have "unat e div 2 ^ k < 2 ^ (64 - k)"
    by (metis less_mult_imp_div_less)
  then have "(unat e div 2 ^ k + 1) * 2 ^ k \<le> 2 ^ (64 - k) * 2 ^ k" by (simp del: mult_Suc)
  then show ?thesis using k by (simp add: unat_uu_align add.commute flip: power_add)
qed

lemma unat_align_down: "unat (uu_align (e :: u64) (2 ^ k)) = down k (unat e)"
  by (simp add: unat_uu_align down_def)

lemma unat_align_next:
  assumes "unat (a :: u64) + 2 ^ k < 2 ^ 64"
  shows "unat (uu_align_next a (2 ^ k)) = down k (unat a) + 2 ^ k"
proof -
  have "a + 2 ^ k = of_nat (unat a + 2 ^ k)" by simp
  with assms have "unat (a + 2 ^ k) = unat a + 2 ^ k" by (simp only: unat_of_nat) simp
  then show ?thesis by (simp add: uu_align_next_def unat_align_down down_def pow_div_add)
qed

lemma drop_bit_neq: "drop_bit k (a :: u64) \<noteq> drop_bit k e \<longleftrightarrow> unat a div 2 ^ k \<noteq> unat e div 2 ^ k"
  by (metis unat_drop_bit_div unsigned_word_eqI)

text \<open>The operators of the code as a family of calls by level.\<close>

definition ops_ok ::
    "'s npg_op list \<Rightarrow> nat list \<Rightarrow> (nat \<Rightarrow> offset_t \<Rightarrow> 's \<Rightarrow> 's option) \<Rightarrow> npg_op_type \<Rightarrow> u64 \<Rightarrow> bool" where
  "ops_ok ops ks f act attr =
     list_all2 (\<lambda>op k. op_sz op = 2 ^ k \<and> op_shf op = k \<and> k < 64 \<and> (\<lambda>a. op_fnc op act a attr) = f k) ops ks"

lemma unat_min: "unat (min a b) = min (unat a) (unat b)" for a :: "'a::len word"
  by (simp add: min_def word_le_nat_alt)

lemma uu_npg_bk_op_eq:
  assumes "ops_ok ops ks f act attr" and "levels ks" and "unat a + 2 ^ Max (set ks) < 2 ^ 64" and "a \<le> e"
  shows "uu_npg_bk_op a e upper attr ops act s =
    (case bk_calls ks (unat a) (unat e) (unat upper) of
       (r, cs) \<Rightarrow> map_option (Pair (of_nat r)) (exec_calls f cs s))"
  using assms
proof (induction ops arbitrary: ks upper s)
  case Nil
  then show ?case by (simp add: ops_ok_def levels_def)
next
  case (Cons op ops)
  then obtain k ks' where ks: "ks = k # ks'" by (cases ks) (auto simp: ops_ok_def)
  with Cons.prems have op: "op_sz op = 2 ^ k" "op_shf op = k" "k < 64" "(\<lambda>a. op_fnc op act a attr) = f k"
    and ok: "ops_ok ops ks' f act attr" by (auto simp: ops_ok_def)
  have "2 ^ k \<le> (2 :: nat) ^ Max (set ks)" using ks by (simp add: power_increasing)
  with Cons.prems(3) have small: "unat a + 2 ^ k < 2 ^ 64" by linarith
  let ?lim = "min (uu_align e (2 ^ k)) upper"
  have lim: "unat ?lim + 2 ^ k \<le> 2 ^ 64"
    using align_bound [OF op(3), of e] by (simp add: unat_min)
  have ulim: "unat ?lim = min (down k (unat e)) (unat upper)" by (simp add: unat_min unat_align_down)
  have loop: "npg_op_loop (f k) (2 ^ k) ?lim (of_nat r) s' = map_option (Pair (of_nat (block_end k (unat ?lim) r)))
      (exec_calls f (block_calls k (unat ?lim) r) s')" if "r < 2 ^ 64" for r s'
    using npg_op_loop_eq [OF lim, of f "of_nat r" s'] that by (simp add: unat_of_nat)
  have nil: "ops = [] \<longleftrightarrow> ks' = []" using ok by (auto simp: ops_ok_def)
  have finish: ?case
    if pre: "(if ops \<noteq> [] then
          (let start_up = uu_align_next a (op_sz op);
               diff_tbl = (drop_bit (op_shf op) a \<noteq> drop_bit (op_shf op) e)
           in if uu_aligned a (op_sz op) \<and> diff_tbl
              then map_option (Pair start_up) (op_fnc op act a attr s)
              else uu_npg_bk_op a e start_up attr ops act s)
        else Some (uu_align a (op_sz op), s)) = map_option (Pair (of_nat r)) (exec_calls f cs s)"
      and ref: "(if ks' \<noteq> [] then
          (if 2 ^ k dvd unat a \<and> unat a div 2 ^ k \<noteq> unat e div 2 ^ k
           then (down k (unat a) + 2 ^ k, [(k, unat a)])
           else bk_calls ks' (unat a) (unat e) (down k (unat a) + 2 ^ k))
        else (down k (unat a), [])) = (r, cs)" and "r < 2 ^ 64" for r cs
    using that(3) loop unfolding uu_npg_bk_op.simps pre ks bk_calls.simps ref
    by (cases "exec_calls f cs s") (simp_all add: op ulim exec_calls_append Let_def)
  show ?case
  proof (cases "ks' = []")
    case True
    have "down k (unat a) < 2 ^ 64" using down_le [of k "unat a"] small by linarith
    moreover have "of_nat (down k (unat a)) = uu_align a (2 ^ k)"
      by (simp add: unat_align_down [symmetric])
    ultimately show ?thesis using True nil by (intro finish [of "down k (unat a)" "[]"]) (simp_all add: op)
  next
    case ne: False
    then have l: "levels ks'" using Cons.prems(2) ks by (auto simp: levels_Cons)
    have "Max (set ks') \<le> Max (set ks)" using ks ne by (intro Max_mono) auto
    then have "2 ^ Max (set ks') \<le> (2 :: nat) ^ Max (set ks)" by (simp add: power_increasing)
    with Cons.prems(3) have "unat a + 2 ^ Max (set ks') < 2 ^ 64" by linarith
    note IH = Cons.IH [OF ok l this Cons.prems(4)]
    have up: "unat (uu_align_next a (2 ^ k)) = down k (unat a) + 2 ^ k" by (rule unat_align_next [OF small])
    then have up': "of_nat (down k (unat a) + 2 ^ k) = uu_align_next a (2 ^ k)"
      by (simp only: up [symmetric]) simp
    show ?thesis
    proof (cases "2 ^ k dvd unat a \<and> unat a div 2 ^ k \<noteq> unat e div 2 ^ k")
      case True
      have "down k (unat a) + 2 ^ k < 2 ^ 64" using small True by (simp add: down_id)
      moreover have "op_fnc op act a attr s = f k a s" using op(4) by metis
      ultimately show ?thesis
        using True ne nil up'
        by (intro finish [of "down k (unat a) + 2 ^ k" "[(k, unat a)]"])
          (simp_all add: op drop_bit_neq uu_aligned_unat Let_def)
    next
      case False
      obtain r cs where rc: "bk_calls ks' (unat a) (unat e) (down k (unat a) + 2 ^ k) = (r, cs)"
        by fastforce
      have "r \<le> down 12 (unat e)"
        using bk_fw [OF l _ rc] Cons.prems(4) by (simp add: word_le_nat_alt)
      then have "r < 2 ^ 64" using down_le [of 12 "unat e"] unat_u64_less [of e] by linarith
      with False ne nil rc show ?thesis
        by (intro finish [of r cs]) (auto simp: op drop_bit_neq uu_aligned_unat Let_def IH up)
    qed
  qed
qed

lemma block_end_size: "block_end k lim a = a + calls_size (block_calls k lim a)"
proof -
  have "calls_size (map (\<lambda>i. (k, a + i * 2 ^ k)) [0..<n]) = n * 2 ^ k" for n
    by (induction n) (simp_all add: calls_size_def)
  then show ?thesis by (simp add: block_end_def block_calls_def)
qed

lemma uu_npg_fw_op_eq:
  assumes "ops_ok ops ks f act attr" and "tiles (unat a) (fw_calls ks (unat a) (unat e)) b" and "b < 2 ^ 64"
  shows "uu_npg_fw_op a e attr ops act s = exec_calls f (fw_calls ks (unat a) (unat e)) s"
  using assms
proof (induction ops arbitrary: ks a s)
  case Nil
  then show ?case by (simp add: ops_ok_def)
next
  case (Cons op ops)
  then obtain k ks' where ks: "ks = k # ks'" by (cases ks) (auto simp: ops_ok_def)
  with Cons.prems have op: "op_sz op = 2 ^ k" "op_shf op = k" "k < 64" "(\<lambda>a. op_fnc op act a attr) = f k"
    and ok: "ops_ok ops ks' f act attr" by (auto simp: ops_ok_def)
  have nil: "ops = [] \<longleftrightarrow> ks' = []" using ok by (auto simp: ops_ok_def)
  let ?r = "block_end k (down k (unat e)) (unat a)"
  let ?rest = "if ks' \<noteq> [] \<and> \<not> 2 ^ k dvd unat e then fw_calls ks' ?r (unat e) else []"
  obtain m where m: "tiles (unat a) (block_calls k (down k (unat e)) (unat a)) m" "tiles m ?rest b"
    using Cons.prems(2) ks by (auto simp: tiles_append_iff)
  have mr: "m = ?r" using tiles_size [OF m(1)] by (simp add: block_end_size)
  have "?r \<le> b" using tiles_size [OF m(2)] mr by simp
  then have "?r < 2 ^ 64" using Cons.prems(3) by linarith
  then have u: "unat (of_nat ?r :: u64) = ?r" by (simp add: unat_of_nat)
  have loop: "npg_op_loop (f k) (2 ^ k) (uu_align e (2 ^ k)) a s =
      map_option (Pair (of_nat ?r)) (exec_calls f (block_calls k (down k (unat e)) (unat a)) s)"
    using npg_op_loop_eq [OF align_bound [OF op(3), of e], of f a s] by (simp add: unat_align_down)
  have rest: "(if ops \<noteq> [] \<and> \<not> uu_aligned e (2 ^ k) then uu_npg_fw_op (of_nat ?r) e attr ops act s1 else Some s1)
      = exec_calls f ?rest s1" for s1
    using Cons.IH [OF ok _ Cons.prems(3), of "of_nat ?r" s1] m(2) mr u nil
    by (auto simp: uu_aligned_unat)
  show ?case
    unfolding uu_npg_fw_op.simps ks fw_calls.simps op loop exec_calls_append
    by (cases "exec_calls f (block_calls k (down k (unat e)) (unat a)) s") (simp_all add: rest)
qed

section \<open>Properties\<close>

lemma range_exec:
  assumes "ops_ok ops ks f act attr" and "levels ks" and "unat a + 2 ^ Max (set ks) < 2 ^ 64" and "a \<le> e"
  shows "Option.bind (uu_npg_bk_op a e upper attr ops act s)
      (\<lambda>(addr, s1). uu_npg_fw_op addr e attr ops act s1)
    = exec_calls f (range_calls ks (unat a) (unat e) (unat upper)) s"
proof -
  obtain r cs where rc: "bk_calls ks (unat a) (unat e) (unat upper) = (r, cs)" by fastforce
  from assms(4) have le: "unat a \<le> unat e" by (simp add: word_le_nat_alt)
  note t = bk_fw [OF assms(2) le rc]
  have b: "down 12 (unat e) < 2 ^ 64" using down_le [of 12 "unat e"] unat_u64_less [of e] by linarith
  then have "unat (of_nat r :: u64) = r" using t by (simp add: unat_of_nat)
  with uu_npg_fw_op_eq [OF assms(1) _ b, of "of_nat r" e] t
  have fw: "uu_npg_fw_op (of_nat r) e attr ops act s1 = exec_calls f (fw_calls ks r (unat e)) s1" for s1
    by simp
  show ?thesis
    by (cases "exec_calls f cs s")
      (simp_all add: uu_npg_bk_op_eq [OF assms] rc fw range_calls_def exec_calls_append)
qed

text \<open>The calls of the code by level, for mapping and unmapping.\<close>

fun map_fnc :: "u64 \<Rightarrow> nat \<Rightarrow> offset_t \<Rightarrow> npg_state \<Rightarrow> npg_state option" where
  "map_fnc attr k a =
     (if k = 39 then u_npg_map_512G a attr else if k = 30 then u_npg_map_1G a attr
      else if k = 21 then u_npg_map_2M a attr else u_npg_map_4K a attr)"

fun unmap_fnc :: "nat \<Rightarrow> offset_t \<Rightarrow> npg_state \<Rightarrow> npg_state option" where
  "unmap_fnc k a =
     (if k = 39 then u_npg_unmap_512G a 0 else if k = 30 then u_npg_unmap_1G a 0
      else if k = 21 then u_npg_unmap_2M a 0 else u_npg_unmap_4K a 0)"

lemmas npg_op_defs = npg_512G_op_def npg_1G_op_def npg_2M_op_def npg_4K_op_def
  PG_512G_SIZE_def PG_1G_SIZE_def PG_2M_SIZE_def PG_4K_SIZE_def

lemma ops_ok_map: "ops_ok npg_ops [39, 30, 21, 12] (map_fnc attr) NPG_OP_MAP attr"
  by (simp add: ops_ok_def npg_ops_def npg_op_defs fun_eq_iff)

lemma ops_ok_unmap: "ops_ok npg_ops [39, 30, 21, 12] unmap_fnc NPG_OP_UNMAP 0"
  by (simp add: ops_ok_def npg_ops_def npg_op_defs fun_eq_iff)

lemma levels_npg: "levels [39, 30, 21, 12]"
  by (simp add: levels_def)

definition npg_calls :: "offset_t \<Rightarrow> offset_t \<Rightarrow> npg_state \<Rightarrow> (nat \<times> nat) list" where
  "npg_calls start end s =
     range_calls [39, 30, 21, 12] (unat start) (unat end) (unat (max_paddr s))"

lemma npg_map_exec:
  assumes "start \<le> end" and "unat start + 2 ^ 39 < 2 ^ 64"
  shows "npg_map start end attr s = exec_calls (map_fnc attr) (npg_calls start end s) s"
    and "npg_unmap start end s = exec_calls unmap_fnc (npg_calls start end s) s"
proof -
  have small: "unat start + 2 ^ Max (set [39, 30, 21, 12]) < 2 ^ 64" using assms(2) by simp
  show "npg_map start end attr s = exec_calls (map_fnc attr) (npg_calls start end s) s"
    and "npg_unmap start end s = exec_calls unmap_fnc (npg_calls start end s) s"
    using range_exec [OF ops_ok_map [of attr] levels_npg small assms(1), of "max_paddr s" s]
      range_exec [OF ops_ok_unmap levels_npg small assms(1), of "max_paddr s" s]
    by (simp_all add: npg_map_def npg_unmap_def u_npg_bk_op_def u_npg_fw_op_def npg_calls_def)
qed

lemma npg_calls_tiles:
  assumes "start \<le> end"
  shows "tiles (down 12 (unat start)) (npg_calls start end s) (down 12 (unat end))"
proof -
  obtain r cs where rc: "bk_calls [39, 30, 21, 12] (unat start) (unat end) (unat (max_paddr s)) = (r, cs)"
    by fastforce
  from assms have "unat start \<le> unat end" by (simp add: word_le_nat_alt)
  from bk_fw [OF levels_npg this rc]
  have t: "tiles (down 12 (unat start)) cs r" "tiles r (fw_calls [39, 30, 21, 12] r (unat end)) (down 12 (unat end))"
    by blast+
  have eq: "npg_calls start end s = cs @ fw_calls [39, 30, 21, 12] r (unat end)"
    unfolding npg_calls_def range_calls_def rc by (simp only: Let_def prod.case)
  show ?thesis unfolding eq by (rule tiles_append [OF t])
qed

text \<open>C3: mapping or unmapping a range runs, in order, the calls of the reference
  decomposition, and stops with the panic of a call only; in particular both loops end.\<close>

theorem npg_range_refines:
  assumes "start \<le> end" and "unat start + 2 ^ 39 < 2 ^ 64"
  shows "npg_map start end attr s = exec_calls (map_fnc attr) (npg_calls start end s) s
    \<and> npg_unmap start end s = exec_calls unmap_fnc (npg_calls start end s) s"
  using npg_map_exec [OF assms] by blast

text \<open>To observe the two passes of the code, they are run on operators of the same sizes whose
  function only records the page size and the address it is called with.\<close>

definition log_op :: "'s npg_op \<Rightarrow> (nat \<times> nat) list npg_op" where
  "log_op op = \<lparr>op_sz = op_sz op, op_shf = op_shf op,
     op_fnc = (\<lambda>act addr attr log. Some (log @ [(op_shf op, unat addr)]))\<rparr>"

lemma ops_ok_log:
  "ops_ok (map log_op npg_ops) [39, 30, 21, 12] (\<lambda>k a log. Some (log @ [(k, unat a)])) act attr"
  by (simp add: ops_ok_def log_op_def npg_ops_def npg_op_defs)

lemma exec_log:
  "tiles a cs b \<Longrightarrow> b < 2 ^ 64 \<Longrightarrow> exec_calls (\<lambda>k a log. Some (log @ [(k, unat (a :: u64))])) cs log = Some (log @ cs)"
proof (induction a cs b arbitrary: log rule: tiles.induct)
  case (2 a k x cs b)
  then have "a < 2 ^ 64" using tiles_size [of "a + 2 ^ k" cs b] by simp
  with 2 show ?case by (simp add: unat_of_nat)
qed simp

text \<open>C2: the backward and the forward pass of the code, observed through operators that
  record their calls, end, and the calls tile the range: from left to right, each on a block
  aligned to its size, they cover exactly the addresses from the page of \<open>start\<close> to the page
  boundary at or below \<open>end\<close>, none twice, whatever bound \<^verbatim>\<open>max_paddr\<close> gives to the backward
  pass. Mapping and unmapping the range are the calls of this same list on the real operators,
  up to the first that panics. The range must start more than 512G below the top of the
  64-bit addresses.\<close>

theorem npg_passes_tile:
  assumes "start \<le> end" and "unat start + 2 ^ 39 < 2 ^ 64"
  shows "\<exists>cs. Option.bind (uu_npg_bk_op start end (max_paddr s) attr (map log_op npg_ops) act [])
        (\<lambda>(addr, log). uu_npg_fw_op addr end attr (map log_op npg_ops) act log) = Some cs
    \<and> tiles (unat start div 4096 * 4096) cs (unat end div 4096 * 4096)
    \<and> npg_map start end attr s = exec_calls (map_fnc attr) cs s
    \<and> npg_unmap start end s = exec_calls unmap_fnc cs s"
proof -
  have small: "unat start + 2 ^ Max (set [39, 30, 21, 12]) < 2 ^ 64" using assms(2) by simp
  have t: "tiles (down 12 (unat start)) (npg_calls start end s) (down 12 (unat end))"
    by (rule npg_calls_tiles [OF assms(1)])
  have b: "down 12 (unat end) < 2 ^ 64" using down_le [of 12 "unat end"] unat_u64_less [of "end"] by linarith
  have "Option.bind (uu_npg_bk_op start end (max_paddr s) attr (map log_op npg_ops) act [])
        (\<lambda>(addr, log). uu_npg_fw_op addr end attr (map log_op npg_ops) act log) = Some (npg_calls start end s)"
    unfolding range_exec [OF ops_ok_log levels_npg small assms(1)] npg_calls_def [symmetric] exec_log [OF t b]
    by simp
  with t npg_map_exec [OF assms] show ?thesis by (auto simp: down_def)
qed

theorem npg_range_refines_witness:
  "npg_map 0x1ff000 0x401000 7 npg_ex =
     exec_calls (map_fnc 7) [(12, 0x1ff000), (21, 0x200000), (12, 0x400000)] npg_ex"
proof -
  have calls: "npg_calls 0x1ff000 0x401000 npg_ex = [(12, 0x1ff000), (21, 0x200000), (12, 0x400000)]"
  proof -
    have mp: "max_paddr npg_ex = 0xfffffffff" by (simp add: npg_ex_def)
    show ?thesis unfolding npg_calls_def mp
      by (simp add: range_calls_def down_def block_calls_def block_end_def steps_def)
  qed
  have pre: "(0x1ff000 :: u64) \<le> 0x401000" "unat (0x1ff000 :: u64) + 2 ^ 39 < 2 ^ 64" by simp_all
  show ?thesis using npg_range_refines [OF pre, of 7 npg_ex] unfolding calls by (rule conjunct1)
qed

theorem npg_passes_tile_witness:
  "\<exists>cs. Option.bind (uu_npg_bk_op 0x1ff800 0x401800 (max_paddr npg_ex) 7 (map log_op npg_ops) NPG_OP_MAP [])
        (\<lambda>(addr, log). uu_npg_fw_op addr 0x401800 7 (map log_op npg_ops) NPG_OP_MAP log) = Some cs
    \<and> tiles 0x1ff000 cs 0x401000"
  using npg_passes_tile [of "0x1ff800" "0x401800" npg_ex 7 NPG_OP_MAP] by auto

end
