(* ===== verification/Npg_Walk.thy ===== *)
theory Npg_Walk
  imports Npg
begin

text \<open>
  The nested page walk of \<^verbatim>\<open>vmm/src/core/npt_walk.c\<close>, and what mapping a page means for it:
  after \<^verbatim>\<open>_npg_map_4K\<close> the walk of an address of the page succeeds and translates it to
  itself. The fields \<^verbatim>\<open>u\<close>, \<^verbatim>\<open>r\<close>, \<^verbatim>\<open>w\<close> and \<^verbatim>\<open>x\<close> of \<^verbatim>\<open>pg_wlk_t\<close> (\<^verbatim>\<open>include/npg.h\<close>) are one
  bit wide: an assignment keeps the lowest bit of the value.
\<close>

section \<open>The walk\<close>

datatype pg_walk_type = PG_WALK_TYPE_PML4E | PG_WALK_TYPE_PDPE | PG_WALK_TYPE_PDPE_PAE
  | PG_WALK_TYPE_PDE64 | PG_WALK_TYPE_PDE32 | PG_WALK_TYPE_PTE64 | PG_WALK_TYPE_PTE32

record 'p pg_wlk =
  wlk_entry :: 'p
  wlk_addr :: offset_t
  wlk_size :: size_t
  wlk_u :: u64
  wlk_r :: u64
  wlk_w :: u64
  wlk_x :: u64
  wlk_type :: pg_walk_type

definition bf1 :: "u64 \<Rightarrow> u64" where
  "bf1 v = take_bit 1 v"

definition wlk_fault :: "pg_walk_type \<Rightarrow> 'p \<Rightarrow> 'p pg_wlk \<Rightarrow> vmerr \<times> 'p pg_wlk" where
  "wlk_fault t e wlk = (VM_FAULT, wlk\<lparr>wlk_type := t, wlk_entry := e\<rparr>)"

definition wlk_done :: "pg_walk_type \<Rightarrow> 'p \<Rightarrow> offset_t \<Rightarrow> size_t \<Rightarrow> 'p pg_wlk \<Rightarrow> vmerr \<times> 'p pg_wlk" where
  "wlk_done t e a n wlk = (VM_DONE, wlk\<lparr>wlk_addr := a, wlk_type := t, wlk_size := n, wlk_entry := e\<rparr>)"

definition npg_wlk_and :: "u64 \<Rightarrow> 'p pg_wlk \<Rightarrow> 'p pg_wlk" where
  "npg_wlk_and e wlk =
     wlk\<lparr>wlk_r := bf1 (wlk_r wlk AND npg_readable e), wlk_w := bf1 (wlk_w wlk AND npg_writable e),
         wlk_x := bf1 (wlk_x wlk AND npg_executable e)\<rparr>"

definition uu_npg_walk :: "npg_state \<Rightarrow> offset_t \<Rightarrow> entp pg_wlk \<Rightarrow> vmerr \<times> entp pg_wlk" where
  "uu_npg_walk s vaddr wlk0 =
     (let wlk = wlk0\<lparr>wlk_u := 1, wlk_r := 0, wlk_w := 0, wlk_x := 0, wlk_type := PG_WALK_TYPE_PML4E\<rparr>;
          pml4e = (npg_pml4 s, pml4_idx vaddr); e4 = rd_ent pml4e s
      in if \<not> npg_present e4 then wlk_fault PG_WALK_TYPE_PML4E pml4e wlk
         else
      let wlk = wlk\<lparr>wlk_r := bf1 (npg_readable e4), wlk_w := bf1 (npg_writable e4),
                    wlk_x := bf1 (npg_executable e4)\<rparr>;
          pdpe = (page_addr (npg_addr e4), pdp_idx vaddr); e3 = rd_ent pdpe s
      in if \<not> npg_present e3 then wlk_fault PG_WALK_TYPE_PDPE pdpe wlk
         else
      let wlk = npg_wlk_and e3 wlk
      in if skillz_pg_1G s \<and> npg_large e3 then
           wlk_done PG_WALK_TYPE_PDPE pdpe
             (push_bit 30 (npg_addr_1G e3) + (vaddr AND (PG_1G_SIZE - 1))) PG_1G_SIZE wlk
         else
      let pde = (page_addr (npg_addr e3), pd64_idx vaddr); e2 = rd_ent pde s
      in if \<not> npg_present e2 then wlk_fault PG_WALK_TYPE_PDE64 pde wlk
         else
      let wlk = npg_wlk_and e2 wlk
      in if skillz_pg_2M s \<and> npg_large e2 then
           wlk_done PG_WALK_TYPE_PDE64 pde
             (push_bit 21 (npg_addr_2M e2) + (vaddr AND (PG_2M_SIZE - 1))) PG_2M_SIZE wlk
         else
      let pte = (page_addr (npg_addr e2), pt64_idx vaddr); e1 = rd_ent pte s
      in if \<not> npg_present e1 then wlk_fault PG_WALK_TYPE_PTE64 pte wlk
         else wlk_done PG_WALK_TYPE_PTE64 pte
                (push_bit 12 (npg_addr e1) + (vaddr AND (PG_4K_SIZE - 1))) PG_4K_SIZE
                (npg_wlk_and e1 wlk))"

section \<open>Entries as bits\<close>

lemma npg_present_bits: "npg_present e \<longleftrightarrow> (\<exists>n < 3. bit e n)"
  by (simp only: npg_present_def ept_pg_get_attr_def and_lit word_neq_0_bit bit_take_bit_iff)
    auto

lemma npg_dft_pvl_mask: "npg_dft_pvl = mask 3"
  by (simp add: npg_dft_pvl_def mask_eq_decr_exp)

lemma npg_present_0 [simp]: "\<not> npg_present 0"
  by (simp add: npg_present_bits)

lemma bit_set_entry:
  "bit (ept_pg_set_entry attr pfn) n \<longleftrightarrow>
     n < 64 \<and> (if 12 \<le> n \<and> n < 52 then bit pfn (n - 12) else bit attr n \<and> \<not> (3 \<le> n \<and> n < 7))"
proof -
  have "(0xf :: u64) = mask 4" by (simp add: mask_eq_decr_exp)
  then show ?thesis
    unfolding ept_pg_set_entry_def bit_set_field bit_and_iff bit_not_iff bit_push_bit_iff
    by (simp only: bit_mask_iff) (auto dest: bit_imp_le_length)
qed

lemma set_entry_present: "npg_present (ept_pg_set_entry (attr OR npg_dft_pvl) pfn)"
  unfolding npg_present_bits bit_set_entry npg_dft_pvl_mask bit_or_iff bit_mask_iff
  by (auto intro!: exI [of _ 0])

lemma set_entry_large: "npg_large (ept_pg_set_entry (attr OR npg_dft_pvl) pfn) \<longleftrightarrow> bit attr 7"
  unfolding npg_large_def bit_set_entry npg_dft_pvl_mask bit_or_iff bit_mask_iff by auto

lemma npg_addr_set_entry: "npg_addr (ept_pg_set_entry attr pfn) = take_bit 40 pfn"
  by (simp add: npg_addr_def ept_pg_set_entry_def get_set_field)

text \<open>The table an entry points to, once a page of the pool is linked there.\<close>

lemma page_addr_nr:
  assumes "uu_aligned pg PAGE_SIZE" and "pg < 2 ^ 52"
  shows "page_addr (take_bit 40 (page_nr pg)) = pg"
proof -
  have al: "take_bit 12 pg = 0" using assms(1) uu_aligned_pow2 [of pg 12] by (simp add: PAGE_SIZE_def)
  note lo = take_bit_0_bit [OF al]
  have "take_bit 52 pg = pg" using assms(2) by (intro take_bit_small) (simp add: word_less_nat_alt)
  then have hi: "\<not> bit pg n" if "52 \<le> n" for n
    using that by (metis bit_take_bit_iff linorder_not_le)
  show ?thesis
  proof (rule bit_eqI)
    fix n
    show "bit (page_addr (take_bit 40 (page_nr pg))) n = bit pg n"
      unfolding page_addr_def page_nr_def PAGE_SHIFT_def bit_push_bit_iff bit_take_bit_iff bit_drop_bit_eq
      using lo [of n] hi [of n] bit_imp_le_length [of pg n]
      by (cases "n < 12"; cases "52 \<le> n") (auto simp: comp_def)
  qed
qed

section \<open>Linking tables\<close>

abbreviation avail :: "npg_state \<Rightarrow> offset_t set" where
  "avail s \<equiv> pool_avail (npg_pool s)"

text \<open>The part the three resolve services share.\<close>

definition resolve_tbl :: "entp \<Rightarrow> u64 \<Rightarrow> npg_state \<Rightarrow> (offset_t \<times> npg_state) option" where
  "resolve_tbl e attr s =
     (if \<not> npg_present (rd_ent e s) then
        map_option (\<lambda>(pg, s1). (pg, npg_set_entry e (attr OR npg_dft_pvl) (page_nr pg) s1)) (uu_npg_new_pg s)
      else Some (page_addr (npg_addr (rd_ent e s)), s))"

lemma resolve_pdpe_tbl:
  "uu_npg_resolve_pdpe addr attr s =
     map_option (\<lambda>(t, s'). ((t, pdp_idx addr), s')) (resolve_tbl (npg_pml4 s, pml4_idx addr) attr s)"
  by (cases "uu_npg_new_pg s") (auto simp: uu_npg_resolve_pdpe_def resolve_tbl_def Let_def)

lemma resolve_pde_tbl:
  "(npg_present (rd_ent e s) \<Longrightarrow> \<not> npg_large (rd_ent e s)) \<Longrightarrow>
   uu_npg_resolve_pde e addr attr s =
     map_option (\<lambda>(t, s'). (Some (t, pd64_idx addr), s')) (resolve_tbl e attr s)"
  by (cases "uu_npg_new_pg s") (auto simp: uu_npg_resolve_pde_def resolve_tbl_def Let_def)

lemma resolve_pte_tbl:
  "(npg_present (rd_ent e s) \<Longrightarrow> \<not> npg_large (rd_ent e s)) \<Longrightarrow>
   uu_npg_resolve_pte e addr attr s =
     map_option (\<lambda>(t, s'). (Some (t, pt64_idx addr), s')) (resolve_tbl e attr s)"
  by (cases "uu_npg_new_pg s") (auto simp: uu_npg_resolve_pte_def resolve_tbl_def Let_def)

text \<open>What a resolve step establishes: the entry \<open>e\<close> designates the table \<open>t\<close>, which is no
  longer available; every other entry of a table that was not available is unchanged; a fresh
  table is empty.\<close>

definition linked :: "entp \<Rightarrow> offset_t \<Rightarrow> npg_state \<Rightarrow> npg_state \<Rightarrow> bool" where
  "linked e t s s' =
     (npg_present (rd_ent e s') \<and> page_addr (npg_addr (rd_ent e s')) = t
      \<and> pool_inv (npg_pool s') \<and> avail s' \<subseteq> avail s \<and> card (avail s) \<le> Suc (card (avail s')) \<and> t \<notin> avail s'
      \<and> (\<forall>p. fst p \<notin> avail s \<longrightarrow> p \<noteq> e \<longrightarrow> rd_ent p s' = rd_ent p s)
      \<and> npg_pml4 s' = npg_pml4 s
      \<and> (if t \<in> avail s then \<not> npg_large (rd_ent e s') \<and> (\<forall>i < 512. rd_ent (t, i) s' = 0) else s' = s))"

lemma uu_npg_new_pg_avail:
  assumes "pool_inv (npg_pool s)" and "avail s \<noteq> {}"
  shows "\<exists>pg pool. uu_npg_new_pg s = Some (pg, s\<lparr>npg_pool := pool,
      npg_mem := (\<lambda>(b, i). if b = pg \<and> i < 512 then 0 else npg_mem s (b, i))\<rparr>)
    \<and> pg \<in> avail s \<and> pool_inv pool \<and> pool_avail pool = avail s - {pg} \<and> uu_aligned pg PAGE_SIZE"
proof -
  obtain pg pool where pop: "pool_pop_page (npg_pool s) = (pg, pool)" by fastforce
  from vmm_pool.pop_some [OF assms pop] vmm_pool.page_ok [OF assms(1), of pg]
  show ?thesis by (auto simp: uu_npg_new_pg_def pop)
qed

lemma resolve_tbl_linked:
  assumes inv: "pool_inv (npg_pool s)" "avail s \<noteq> {}" and low: "\<forall>p \<in> avail s. p < 2 ^ 52"
    and e: "fst e \<notin> avail s" and attr: "\<not> bit attr 7"
    and old: "npg_present (rd_ent e s) \<Longrightarrow> page_addr (npg_addr (rd_ent e s)) \<notin> avail s"
  shows "\<exists>t s'. resolve_tbl e attr s = Some (t, s') \<and> linked e t s s'"
proof (cases "npg_present (rd_ent e s)")
  case True
  with old inv show ?thesis by (simp add: resolve_tbl_def linked_def)
next
  case False
  obtain pg pool where new: "uu_npg_new_pg s = Some (pg, s\<lparr>npg_pool := pool,
      npg_mem := (\<lambda>(b, i). if b = pg \<and> i < 512 then 0 else npg_mem s (b, i))\<rparr>)"
    and pg: "pg \<in> avail s" "uu_aligned pg PAGE_SIZE" and pool: "pool_inv pool" "pool_avail pool = avail s - {pg}"
    using uu_npg_new_pg_avail [OF inv] by blast
  have tbl: "page_addr (take_bit 40 (page_nr pg)) = pg" using page_addr_nr [OF pg(2)] low pg(1) by blast
  have card: "card (avail s) \<le> Suc (card (avail s - {pg}))"
    using vmm_pool.finite_avail [OF inv(1)] by (simp add: card_Diff_singleton_if) arith
  let ?v = "ept_pg_set_entry (attr OR npg_dft_pvl) (page_nr pg)"
  let ?m = "\<lambda>(b, i). if b = pg \<and> i < 512 then 0 else npg_mem s (b, i)"
  let ?s' = "s\<lparr>npg_pool := pool, npg_mem := ?m(e := ?v)\<rparr>"
  have r: "resolve_tbl e attr s = Some (pg, ?s')"
    using False by (simp add: resolve_tbl_def new npg_set_entry_def wr_ent_def)
  have "pg \<noteq> fst e" using pg(1) e by auto
  then have z: "rd_ent (pg, i) ?s' = 0" if "i < 512" for i using that by (auto simp: rd_ent_def)
  have o: "rd_ent p ?s' = rd_ent p s" if "fst p \<notin> avail s" "p \<noteq> e" for p
    using that pg(1) by (cases p) (auto simp: rd_ent_def)
  have re: "rd_ent e ?s' = ?v" by (simp add: rd_ent_def)
  have "linked e pg s ?s'"
    unfolding linked_def re
    using z o pg pool tbl card attr set_entry_present set_entry_large [of attr] npg_addr_set_entry
    by (simp add: set_entry_large)
  with r show ?thesis by blast
qed

section \<open>Mapping a page\<close>

text \<open>The tables the walk of \<open>addr\<close> goes through are different pages, none of them available in
  the pool, and no large page is on the way.\<close>

definition path2 :: "npg_state \<Rightarrow> offset_t \<Rightarrow> offset_t \<Rightarrow> offset_t \<Rightarrow> offset_t \<Rightarrow> bool" where
  "path2 s p4 p3 p2 addr =
     (let e = rd_ent (p2, pd64_idx addr) s; p1 = page_addr (npg_addr e)
      in \<not> npg_large e \<and> (npg_present e \<longrightarrow> p1 \<notin> avail s \<and> p1 \<noteq> p4 \<and> p1 \<noteq> p3 \<and> p1 \<noteq> p2))"

definition path3 :: "npg_state \<Rightarrow> offset_t \<Rightarrow> offset_t \<Rightarrow> offset_t \<Rightarrow> bool" where
  "path3 s p4 p3 addr =
     (let e = rd_ent (p3, pdp_idx addr) s; p2 = page_addr (npg_addr e)
      in npg_present e \<longrightarrow> \<not> npg_large e \<and> p2 \<notin> avail s \<and> p2 \<noteq> p4 \<and> p2 \<noteq> p3 \<and> path2 s p4 p3 p2 addr)"

definition path_ok :: "npg_state \<Rightarrow> offset_t \<Rightarrow> bool" where
  "path_ok s addr =
     (let p4 = npg_pml4 s; e = rd_ent (p4, pml4_idx addr) s; p3 = page_addr (npg_addr e)
      in pool_inv (npg_pool s) \<and> (\<forall>p \<in> avail s. p < 2 ^ 52) \<and> p4 \<notin> avail s
         \<and> (npg_present e \<longrightarrow> p3 \<notin> avail s \<and> p3 \<noteq> p4 \<and> path3 s p4 p3 addr))"

lemma idx_less: "pml4_idx a < 512" "pdp_idx a < 512" "pd64_idx a < 512" "pt64_idx a < 512"
  by (simp_all only: pml4_idx_def pdp_idx_def pd64_idx_def pt64_idx_def and_lit unat_take_bit_mod) simp_all

lemma linked_frame: "linked e t s s' \<Longrightarrow> fst p \<notin> avail s \<Longrightarrow> p \<noteq> e \<Longrightarrow> rd_ent p s' = rd_ent p s"
  unfolding linked_def by blast

lemma linkedD:
  assumes "linked e t s s'"
  shows "npg_present (rd_ent e s')" "page_addr (npg_addr (rd_ent e s')) = t" "pool_inv (npg_pool s')"
    "avail s' \<subseteq> avail s" "card (avail s) \<le> Suc (card (avail s'))" "t \<notin> avail s'" "npg_pml4 s' = npg_pml4 s"
    "t \<notin> avail s \<Longrightarrow> s' = s" "t \<in> avail s \<Longrightarrow> \<not> npg_large (rd_ent e s')"
    "t \<in> avail s \<Longrightarrow> i < 512 \<Longrightarrow> rd_ent (t, i) s' = 0"
  using assms by (auto simp: linked_def)

lemma set_page_entry_plain:
  "attr AND ept_has_mtrr = 0 \<Longrightarrow> npg_set_page_entry p attr pfn s = Some (wr_ent p (set_field 12 40 pfn attr) s)"
  by (simp add: npg_set_page_entry_def ept_pg_set_page_entry_def ept_pg_set_attr_def)

text \<open>The state after a 4K mapping: four tables, linked from the pml4 down to the entry.\<close>

lemma u_npg_map_4K_links:
  assumes ok: "path_ok s addr" and mem: "3 \<le> card (avail s)"
    and attr: "\<not> bit attr 7" "attr AND ept_has_mtrr = 0"
  shows "\<exists>s' p3 p2 p1. u_npg_map_4K addr attr s = Some s'
    \<and> (let e4 = rd_ent (npg_pml4 s', pml4_idx addr) s'; e3 = rd_ent (p3, pdp_idx addr) s';
           e2 = rd_ent (p2, pd64_idx addr) s'
       in npg_present e4 \<and> page_addr (npg_addr e4) = p3
        \<and> npg_present e3 \<and> \<not> npg_large e3 \<and> page_addr (npg_addr e3) = p2
        \<and> npg_present e2 \<and> \<not> npg_large e2 \<and> page_addr (npg_addr e2) = p1
        \<and> rd_ent (p1, pt64_idx addr) s' = set_field 12 40 (drop_bit 12 addr) attr)"
proof -
  let ?p4 = "npg_pml4 s"
  let ?e4 = "(?p4, pml4_idx addr)"
  have ne: "avail s' \<noteq> {}" if "1 \<le> card (avail s')" for s' using that by auto
  have p4: "?p4 \<notin> avail s" and inv: "pool_inv (npg_pool s)" and low: "\<forall>p \<in> avail s. p < 2 ^ 52"
    using ok by (auto simp: path_ok_def Let_def)
  obtain p3 s1 where r3: "resolve_tbl ?e4 attr s = Some (p3, s1)" and l3: "linked ?e4 p3 s s1"
    using resolve_tbl_linked [OF inv ne low _ attr(1), of ?e4] mem ok by (auto simp: path_ok_def Let_def)
  note d3 = linkedD [OF l3]
  let ?e3 = "(p3, pdp_idx addr)"
  have n3: "p3 \<noteq> ?p4" and path3: "path3 s1 ?p4 p3 addr"
    using ok d3 p4 idx_less by (cases "p3 \<in> avail s"; auto simp: path_ok_def path3_def Let_def)+
  have low1: "\<forall>p \<in> avail s1. p < 2 ^ 52" and c1: "2 \<le> card (avail s1)" using low d3(4,5) mem by auto
  obtain p2 s2 where r2: "resolve_tbl ?e3 attr s1 = Some (p2, s2)" and l2: "linked ?e3 p2 s1 s2"
    using resolve_tbl_linked [OF d3(3) ne low1 _ attr(1), of ?e3] c1 d3(6) path3
    by (auto simp: path3_def Let_def)
  note d2 = linkedD [OF l2]
  let ?e2 = "(p2, pd64_idx addr)"
  have p41: "?p4 \<notin> avail s1" using p4 d3(4) by blast
  have "p2 \<noteq> ?p4 \<and> p2 \<noteq> p3 \<and> path2 s2 ?p4 p3 p2 addr \<and> \<not> npg_large (rd_ent ?e3 s2)"
  proof (cases "p2 \<in> avail s1")
    case True
    then have "rd_ent ?e2 s2 = 0" using d2(10) idx_less by blast
    with True d2(9) p41 d3(6) show ?thesis by (auto simp: path2_def npg_large_def)
  next
    case False
    then have "s2 = s1" by (rule d2(8))
    with d2(1,2) path3 show ?thesis by (auto simp: path3_def Let_def)
  qed
  then have n2: "p2 \<noteq> ?p4" "p2 \<noteq> p3" and path2: "path2 s2 ?p4 p3 p2 addr" and nl3: "\<not> npg_large (rd_ent ?e3 s2)"
    by blast+
  have low2: "\<forall>p \<in> avail s2. p < 2 ^ 52" and c2: "1 \<le> card (avail s2)" using low1 d2(4,5) c1 by auto
  obtain p1 s3 where r1: "resolve_tbl ?e2 attr s2 = Some (p1, s3)" and l1: "linked ?e2 p1 s2 s3"
    using resolve_tbl_linked [OF d2(3) ne low2 _ attr(1), of ?e2] c2 d2(6) path2
    by (auto simp: path2_def Let_def)
  note d1 = linkedD [OF l1]
  have out: "?p4 \<notin> avail s2" "p3 \<notin> avail s2" using p41 d3(6) d2(4) by blast+
  have n1: "p1 \<noteq> ?p4" "p1 \<noteq> p3" "p1 \<noteq> p2" and nl2: "\<not> npg_large (rd_ent ?e2 s3)"
    using path2 d1 out d2(6) by (cases "p1 \<in> avail s2"; auto simp: path2_def Let_def)+
  have large2: "\<not> npg_large (rd_ent ?e2 s2)" using path2 by (auto simp: path2_def Let_def)
  have pres3: "\<not> npg_large (rd_ent ?e3 s1)" if "npg_present (rd_ent ?e3 s1)"
    using path3 that by (auto simp: path3_def Let_def)
  have e4: "rd_ent ?e4 s3 = rd_ent ?e4 s1" and e3: "rd_ent ?e3 s3 = rd_ent ?e3 s2"
    using linked_frame [OF l2, of ?e4] linked_frame [OF l1, of ?e4] linked_frame [OF l1, of ?e3]
      p41 out n3 n2 by auto
  let ?s' = "wr_ent (p1, pt64_idx addr) (set_field 12 40 (drop_bit 12 addr) attr) s3"
  have map: "u_npg_map_4K addr attr s = Some ?s'"
    using nl3 large2 pres3
    by (simp add: u_npg_map_4K_def resolve_pdpe_tbl r3 resolve_pde_tbl r2 resolve_pte_tbl r1
        set_page_entry_plain [OF attr(2)])
  have w: "rd_ent (q, j) ?s' = rd_ent (q, j) s3" if "q \<noteq> p1" for q j
    using that by (simp add: wr_ent_def rd_ent_def)
  have p1: "rd_ent (p1, pt64_idx addr) ?s' = set_field 12 40 (drop_bit 12 addr) attr"
    and m: "npg_pml4 ?s' = ?p4"
    using d1(7) d2(7) d3(7) by (simp_all add: wr_ent_def rd_ent_def)
  show ?thesis
    using map d1(1,2) d2(1,2) d3(1,2) nl3 nl2 n1 e4 e3
    by (intro exI [of _ ?s'] exI [of _ p3] exI [of _ p2] exI [of _ p1])
      (simp only: Let_def w p1 m simp_thms)
qed

section \<open>Properties\<close>

lemma idx_page:
  assumes "drop_bit 12 a = drop_bit 12 b"
  shows "pml4_idx a = pml4_idx b" "pdp_idx a = pdp_idx b" "pd64_idx a = pd64_idx b" "pt64_idx a = pt64_idx b"
proof -
  have "drop_bit (n + 12) a = drop_bit (n + 12) b" for n
    by (metis assms drop_bit_drop_bit)
  from this [of 27] this [of 18] this [of 9] assms
  show "pml4_idx a = pml4_idx b" "pdp_idx a = pdp_idx b" "pd64_idx a = pd64_idx b" "pt64_idx a = pt64_idx b"
    by (simp_all add: pml4_idx_def pdp_idx_def pd64_idx_def pt64_idx_def)
qed

lemma set_page_entry_present:
  assumes "attr AND 7 \<noteq> 0"
  shows "npg_present (set_field 12 40 pfn attr)"
proof -
  obtain n where "n < 3" "bit attr n"
    using assms by (auto simp only: and_lit word_neq_0_bit bit_take_bit_iff)
  then show ?thesis by (auto simp: npg_present_bits bit_set_field intro!: exI [of _ n])
qed

lemma page_identity:
  assumes "vaddr < 2 ^ 52"
  shows "push_bit 12 (take_bit 40 (drop_bit 12 vaddr)) + (vaddr AND (PG_4K_SIZE - 1)) = vaddr"
proof -
  have "take_bit 52 vaddr = vaddr" using assms by (intro take_bit_small) (simp add: word_less_nat_alt)
  then have "push_bit 12 (take_bit 40 (drop_bit 12 vaddr)) = push_bit 12 (drop_bit 12 vaddr)"
    using drop_bit_take_bit [of 12 52 vaddr] by simp
  moreover have "vaddr AND (PG_4K_SIZE - 1) = take_bit 12 vaddr"
    using and_lit(8) [of vaddr] by (simp add: PG_4K_SIZE_def)
  ultimately show ?thesis by (metis bits_ident)
qed

text \<open>Once a page is mapped with an attribute that grants an access, the nested walk of
  any address of that page succeeds, ends at the 4K entry, and translates the address to itself
  (provided the tables on the way are sound, as they are when built by these services from
  the pool, and the pool has the pages three missing tables need).\<close>

theorem map_4K_then_walk:
  assumes ok: "path_ok s addr" and mem: "3 \<le> card (pool_avail (npg_pool s))"
    and attr: "attr AND 7 \<noteq> 0" "\<not> bit attr 7" "attr AND ept_has_mtrr = 0"
    and page: "drop_bit 12 vaddr = drop_bit 12 addr" and "vaddr < 2 ^ 52"
  shows "\<exists>s' wlk'. u_npg_map_4K addr attr s = Some s' \<and> uu_npg_walk s' vaddr wlk = (VM_DONE, wlk')
    \<and> wlk_addr wlk' = vaddr \<and> wlk_size wlk' = PG_4K_SIZE \<and> wlk_type wlk' = PG_WALK_TYPE_PTE64"
proof -
  obtain s' p3 p2 p1 where s': "u_npg_map_4K addr attr s = Some s'"
    and e4: "npg_present (rd_ent (npg_pml4 s', pml4_idx vaddr) s')"
      "page_addr (npg_addr (rd_ent (npg_pml4 s', pml4_idx vaddr) s')) = p3"
    and e3: "npg_present (rd_ent (p3, pdp_idx vaddr) s')" "\<not> npg_large (rd_ent (p3, pdp_idx vaddr) s')"
      "page_addr (npg_addr (rd_ent (p3, pdp_idx vaddr) s')) = p2"
    and e2: "npg_present (rd_ent (p2, pd64_idx vaddr) s')" "\<not> npg_large (rd_ent (p2, pd64_idx vaddr) s')"
      "page_addr (npg_addr (rd_ent (p2, pd64_idx vaddr) s')) = p1"
    and e1: "rd_ent (p1, pt64_idx vaddr) s' = set_field 12 40 (drop_bit 12 addr) attr"
    using u_npg_map_4K_links [OF ok mem attr(2,3)] unfolding idx_page [OF page] Let_def by blast
  have "npg_addr (set_field 12 40 (drop_bit 12 addr) attr) = take_bit 40 (drop_bit 12 vaddr)"
    by (simp add: npg_addr_def get_set_field page)
  with s' e4 e3 e2 e1 set_page_entry_present [OF attr(1)] page_identity [OF assms(7)]
  show ?thesis
    by (simp add: uu_npg_walk_def Let_def wlk_done_def npg_wlk_and_def)
qed

lemma npg_ex_path: "path_ok npg_ex addr"
  using pool_ex_avail by (simp add: path_ok_def npg_ex_def rd_ent_def pool_ex_avail_set)

theorem map_4K_then_walk_witness:
  "\<exists>s' wlk'. u_npg_map_4K 0x7000 7 npg_ex = Some s' \<and> uu_npg_walk s' 0x7abc (undefined :: entp pg_wlk) = (VM_DONE, wlk')
    \<and> wlk_addr wlk' = 0x7abc"
proof -
  have c: "3 \<le> card (pool_avail (npg_pool npg_ex))"
    using pool_ex_avail by (simp add: npg_ex_def)
  have "(7 :: u64) AND 7 \<noteq> 0" "\<not> bit (7 :: u64) 7" "(7 :: u64) AND ept_has_mtrr = 0"
    "drop_bit 12 (0x7abc :: u64) = drop_bit 12 0x7000" "(0x7abc :: u64) < 2 ^ 52"
    by (simp_all add: ept_has_mtrr_def)
  from map_4K_then_walk [OF npg_ex_path c this] show ?thesis by blast
qed

lemma bf1_0: "bf1 0 = 0"
  by (simp add: bf1_def)

lemma bf1_and:
  "bf1 (npg_writable e) = 0" "bf1 (npg_executable e) = 0"
  "bf1 (v AND npg_writable e) = 0" "bf1 (v AND npg_executable e) = 0"
proof -
  have "\<not> bit (2 :: u64) 0" "\<not> bit (4 :: u64) 0" by simp_all
  then have b: "\<not> bit (npg_writable e) 0" "\<not> bit (npg_executable e) 0" for e
    by (simp_all only: npg_writable_def npg_executable_def bit_and_iff) simp_all
  have "bf1 x = 0" if "\<not> bit x 0" for x
    unfolding bf1_def by (rule bit_eqI) (use that in \<open>auto simp only: bit_take_bit_iff bit_0_eq bot_apply bot_bool_def\<close>)
  with b show "bf1 (npg_writable e) = 0" "bf1 (npg_executable e) = 0"
    "bf1 (v AND npg_writable e) = 0" "bf1 (v AND npg_executable e) = 0"
    by (simp_all add: bit_and_iff)
qed

text \<open>The nested walk never reports a page as writable or executable: the macros
  \<^verbatim>\<open>npg_writable\<close> and \<^verbatim>\<open>npg_executable\<close> give the values 2 and 4, and the fields \<^verbatim>\<open>w\<close> and
  \<^verbatim>\<open>x\<close> they are stored in keep the lowest bit only.\<close>

theorem npg_walk_no_w_x:
  "wlk_w (snd (uu_npg_walk s vaddr wlk)) = 0 \<and> wlk_x (snd (uu_npg_walk s vaddr wlk)) = 0"
  by (simp add: uu_npg_walk_def Let_def wlk_done_def wlk_fault_def npg_wlk_and_def bf1_and bf1_0)

end
