(* ===== verification/Mmu_Walk.thy ===== *)
theory Mmu_Walk
  imports Npg_Walk
begin

text \<open>
  The protected area of the hypervisor (\<^verbatim>\<open>include/info_data.h\<close>) and the walk of the page
  tables of the guest, \<^verbatim>\<open>vmm/src/core/mmu_walk.c\<close>. Guest physical memory is identity mapped,
  so the tables are read at their guest physical addresses; each table is checked against the
  protected area before it is read.
\<close>

section \<open>The guest as the walk sees it\<close>

record vm_state =
  vm_mem :: "offset_t \<Rightarrow> u8"
  area_start :: offset_t
  area_end :: offset_t
  efer_lma :: bool
  efer_nxe :: bool
  cr0_pg :: bool
  cr4_pae :: bool
  cr4_pse :: bool
  vmm_pg_1G :: bool
  vm_cpl :: u8
  vm_cr3 :: u64

definition vmm_area :: "'a vm_state_scheme \<Rightarrow> offset_t \<Rightarrow> bool" where
  "vmm_area s a = uu_range_exc a (area_start s) (area_end s)"

definition vmm_area_range :: "'a vm_state_scheme \<Rightarrow> offset_t \<Rightarrow> size_t \<Rightarrow> bool" where
  "vmm_area_range s a n =
     (if n < 2 then vmm_area s a
      else (let last = a + n - 1
            in if a < last then vmm_area s a \<and> vmm_area s last else True))"

definition rd_u64 :: "'a vm_state_scheme \<Rightarrow> offset_t \<Rightarrow> u64" where
  "rd_u64 s a = of_le_bytes (map (\<lambda>i. vm_mem s (a + of_nat i)) [0..<8])"

definition rd_u32 :: "'a vm_state_scheme \<Rightarrow> offset_t \<Rightarrow> u32" where
  "rd_u32 s a = of_le_bytes (map (\<lambda>i. vm_mem s (a + of_nat i)) [0..<4])"

section \<open>Entries of the legacy tables (pagemem.h)\<close>

definition pg_present :: "'w::len word \<Rightarrow> bool" where
  "pg_present e = bit e 0"

definition pg_rw :: "'w::len word \<Rightarrow> u64" where
  "pg_rw e = of_bool (bit e 1)"

definition pg_lvl :: "'w::len word \<Rightarrow> u64" where
  "pg_lvl e = of_bool (bit e 2)"

definition pg_large :: "'w::len word \<Rightarrow> bool" where
  "pg_large e = bit e 7"

definition pg64_executable :: "'a vm_state_scheme \<Rightarrow> u64 \<Rightarrow> u64" where
  "pg64_executable s e = (if efer_nxe s then of_bool (\<not> bit e 63) else 1)"

definition pd32_idx :: "u32 \<Rightarrow> u64" where
  "pd32_idx a = ucast (drop_bit 22 a AND 0x3ff)"

definition pt32_idx :: "u32 \<Rightarrow> u64" where
  "pt32_idx a = ucast (drop_bit 12 a AND 0x3ff)"

definition pdp_pae_idx :: "u32 \<Rightarrow> u64" where
  "pdp_pae_idx a = ucast (drop_bit 30 a AND 3)"

definition pg_wlk_and :: "'a vm_state_scheme \<Rightarrow> u64 \<Rightarrow> 'p pg_wlk \<Rightarrow> 'p pg_wlk" where
  "pg_wlk_and s e wlk =
     wlk\<lparr>wlk_u := wlk_u wlk AND pg_lvl e, wlk_w := wlk_w wlk AND pg_rw e,
         wlk_x := wlk_x wlk AND pg64_executable s e\<rparr>"

definition wlk_clear :: "'p pg_wlk \<Rightarrow> 'p pg_wlk" where
  "wlk_clear wlk =
     wlk\<lparr>wlk_u := 0, wlk_r := 0, wlk_w := 0, wlk_x := 0, wlk_type := PG_WALK_TYPE_PML4E\<rparr>"

text \<open>A walk record before a walk; the walk overwrites it.\<close>

definition wlk_any :: "offset_t pg_wlk" where
  "wlk_any = \<lparr>wlk_entry = 0, wlk_addr = 0, wlk_size = 0, wlk_u = 0, wlk_r = 0, wlk_w = 0, wlk_x = 0,
     wlk_type = PG_WALK_TYPE_PML4E\<rparr>"

section \<open>The three walks\<close>

definition uu_pg_walk_lmode ::
    "'a vm_state_scheme \<Rightarrow> u64 \<Rightarrow> offset_t \<Rightarrow> offset_t pg_wlk \<Rightarrow> vmerr \<times> offset_t pg_wlk" where
  "uu_pg_walk_lmode s cr3 vaddr wlk0 =
     (let wlk = wlk_clear wlk0;
          pml4 = page_addr (get_field 12 40 cr3)
      in if vmm_area_range s pml4 PG_4K_SIZE then (VM_FAIL, wlk)
         else
      let pml4e = pml4 + 8 * of_nat (pml4_idx vaddr); e4 = rd_u64 s pml4e
      in if \<not> pg_present e4 then wlk_fault PG_WALK_TYPE_PML4E pml4e wlk
         else
      let wlk = wlk\<lparr>wlk_u := pg_lvl e4, wlk_r := 1, wlk_w := pg_rw e4, wlk_x := pg64_executable s e4\<rparr>;
          pdp = page_addr (get_field 12 40 e4)
      in if vmm_area_range s pdp PG_4K_SIZE then (VM_FAIL, wlk)
         else
      let pdpe = pdp + 8 * of_nat (pdp_idx vaddr); e3 = rd_u64 s pdpe
      in if \<not> pg_present e3 then wlk_fault PG_WALK_TYPE_PDPE pdpe wlk
         else
      let wlk = pg_wlk_and s e3 wlk
      in if vmm_pg_1G s \<and> pg_large e3 then
           wlk_done PG_WALK_TYPE_PDPE pdpe
             (push_bit 30 (get_field 30 22 e3) + (vaddr AND (PG_1G_SIZE - 1))) PG_1G_SIZE wlk
         else
      let pd = page_addr (get_field 12 40 e3)
      in if vmm_area_range s pd PG_4K_SIZE then (VM_FAIL, wlk)
         else
      let pde = pd + 8 * of_nat (pd64_idx vaddr); e2 = rd_u64 s pde
      in if \<not> pg_present e2 then wlk_fault PG_WALK_TYPE_PDE64 pde wlk
         else
      let wlk = pg_wlk_and s e2 wlk
      in if pg_large e2 then
           wlk_done PG_WALK_TYPE_PDE64 pde
             (push_bit 21 (get_field 21 31 e2) + (vaddr AND (PG_2M_SIZE - 1))) PG_2M_SIZE wlk
         else
      let pt = page_addr (get_field 12 40 e2)
      in if vmm_area_range s pt PG_4K_SIZE then (VM_FAIL, wlk)
         else
      let pte = pt + 8 * of_nat (pt64_idx vaddr); e1 = rd_u64 s pte
      in if \<not> pg_present e1 then wlk_fault PG_WALK_TYPE_PTE64 pte wlk
         else wlk_done PG_WALK_TYPE_PTE64 pte
                (push_bit 12 (get_field 12 40 e1) + (vaddr AND (PG_4K_SIZE - 1))) PG_4K_SIZE
                (pg_wlk_and s e1 wlk))"

definition uu_pg_walk_pmode_pae ::
    "'a vm_state_scheme \<Rightarrow> u64 \<Rightarrow> offset_t \<Rightarrow> offset_t pg_wlk \<Rightarrow> vmerr \<times> offset_t pg_wlk" where
  "uu_pg_walk_pmode_pae s cr3 u_vaddr wlk0 =
     (let vaddr = ucast (u_vaddr AND 0xffffffff) :: u32;
          vaddr64 = ucast vaddr :: u64;
          wlk = wlk_clear wlk0;
          pdp = push_bit 5 (get_field 5 27 cr3)
      in if vmm_area_range s pdp PG_4K_SIZE then (VM_FAIL, wlk)
         else
      let pdpe = pdp + 8 * pdp_pae_idx vaddr; e3 = rd_u64 s pdpe
      in if \<not> pg_present e3 then wlk_fault PG_WALK_TYPE_PDPE_PAE pdpe wlk
         else
      let pd = page_addr (get_field 12 40 e3)
      in if vmm_area_range s pd PG_4K_SIZE then (VM_FAIL, wlk)
         else
      let pde = pd + 8 * of_nat (pd64_idx vaddr64); e2 = rd_u64 s pde
      in if \<not> pg_present e2 then wlk_fault PG_WALK_TYPE_PDE64 pde wlk
         else
      let wlk = wlk\<lparr>wlk_u := pg_lvl e2, wlk_r := 1, wlk_w := pg_rw e2, wlk_x := pg64_executable s e2\<rparr>
      in if cr4_pse s \<and> pg_large e2 then
           wlk_done PG_WALK_TYPE_PDE64 pde
             (push_bit 21 (get_field 21 31 e2) + (vaddr64 AND (PG_2M_SIZE - 1))) PG_2M_SIZE wlk
         else
      let pt = page_addr (get_field 12 40 e2)
      in if vmm_area_range s pt PG_4K_SIZE then (VM_FAIL, wlk)
         else
      let pte = pt + 8 * of_nat (pt64_idx vaddr64); e1 = rd_u64 s pte
      in if \<not> pg_present e1 then wlk_fault PG_WALK_TYPE_PTE64 pte wlk
         else wlk_done PG_WALK_TYPE_PTE64 pte
                (push_bit 12 (get_field 12 40 e1) + (vaddr64 AND (PG_4K_SIZE - 1))) PG_4K_SIZE
                (pg_wlk_and s e1 wlk))"

definition uu_pg_walk_pmode ::
    "'a vm_state_scheme \<Rightarrow> u64 \<Rightarrow> offset_t \<Rightarrow> offset_t pg_wlk \<Rightarrow> vmerr \<times> offset_t pg_wlk" where
  "uu_pg_walk_pmode s cr3 u_vaddr wlk0 =
     (let vaddr = ucast (u_vaddr AND 0xffffffff) :: u32;
          vaddr64 = ucast vaddr :: u64;
          wlk = wlk_clear wlk0;
          pd = page_addr (get_field 12 20 cr3)
      in if vmm_area_range s pd PG_4K_SIZE then (VM_FAIL, wlk)
         else
      let pde = pd + 4 * pd32_idx vaddr; e2 = rd_u32 s pde
      in if \<not> pg_present e2 then wlk_fault PG_WALK_TYPE_PDE32 pde wlk
         else
      let wlk = wlk\<lparr>wlk_u := pg_lvl e2, wlk_r := 1, wlk_w := pg_rw e2, wlk_x := 1\<rparr>
      in if cr4_pse s \<and> pg_large e2 then
           wlk_done PG_WALK_TYPE_PDE32 pde
             (ucast (push_bit 22 (get_field 22 10 e2)) + (vaddr64 AND (push_bit 22 1 - 1))) (push_bit 22 1) wlk
         else
      let pt = page_addr (ucast (get_field 12 20 e2))
      in if vmm_area_range s pt PG_4K_SIZE then (VM_FAIL, wlk)
         else
      let pte = pt + 4 * pt32_idx vaddr; e1 = rd_u32 s pte
      in if \<not> pg_present e1 then wlk_fault PG_WALK_TYPE_PTE32 pte wlk
         else wlk_done PG_WALK_TYPE_PTE32 pte
                (ucast (push_bit 12 (get_field 12 20 e1)) + (vaddr64 AND (PG_4K_SIZE - 1))) PG_4K_SIZE
                (wlk\<lparr>wlk_u := wlk_u wlk AND pg_lvl e1, wlk_w := wlk_w wlk AND pg_rw e1\<rparr>))"

definition uu_pg_walk ::
    "'a vm_state_scheme \<Rightarrow> u64 \<Rightarrow> offset_t \<Rightarrow> offset_t pg_wlk \<Rightarrow> vmerr \<times> offset_t pg_wlk" where
  "uu_pg_walk s cr3 vaddr wlk =
     (if efer_lma s then uu_pg_walk_lmode s cr3 vaddr wlk
      else if cr4_pae s then uu_pg_walk_pmode_pae s cr3 vaddr wlk
      else uu_pg_walk_pmode s cr3 vaddr wlk)"

section \<open>Offsets within a page\<close>

lemma word_unat_eqI: "unat x = unat y \<Longrightarrow> x = y" for x y :: "'a::len word"
  by (rule unsigned_word_eqI)

lemma len_u64: "LENGTH(64) = 64"
  by simp

lemma unat_pow2:
  assumes "k < 64" shows "unat (2 ^ k :: u64) = 2 ^ k"
proof -
  have "(2 :: nat) ^ k < 2 ^ 64" using assms by (intro power_strict_increasing) auto
  moreover have "(2 ^ k :: u64) = of_nat (2 ^ k)" by simp
  ultimately show ?thesis by (simp only: unat_of_nat) simp
qed

text \<open>Adding an offset that stays within a page.\<close>

lemma add_in_page:
  fixes v :: u64
  assumes k: "k \<le> 30" and i: "i < 2 ^ k - unat v mod 2 ^ k"
  shows "unat (v + of_nat i) = unat v + i"
    and "uu_align (v + of_nat i) (2 ^ k) = uu_align v (2 ^ k)"
    and "(v + of_nat i) AND (2 ^ k - 1) = (v AND (2 ^ k - 1)) + of_nat i"
proof -
  have ri: "unat v mod 2 ^ k + i < 2 ^ k" using i by simp
  have div: "(unat v + i) div 2 ^ k = unat v div 2 ^ k" and mod: "(unat v + i) mod 2 ^ k = unat v mod 2 ^ k + i"
  proof -
    have "unat v + i = unat v div 2 ^ k * 2 ^ k + (unat v mod 2 ^ k + i)" by (metis add.assoc div_mult_mod_eq)
    then show "(unat v + i) div 2 ^ k = unat v div 2 ^ k" "(unat v + i) mod 2 ^ k = unat v mod 2 ^ k + i"
      using ri by (metis div_mult_self3 div_less add.right_neutral power_not_zero zero_neq_numeral add.commute,
          metis mod_mult_self3 mod_less)
  qed
  have pk: "(2 :: nat) ^ 64 = 2 ^ (64 - k) * 2 ^ k" using k by (simp flip: power_add)
  have "unat v + i < 2 ^ 64"
  proof -
    have "unat v div 2 ^ k < 2 ^ (64 - k)" using unat_u64_less [of v] by (simp only: pk less_mult_imp_div_less)
    then have "(unat v + i) div 2 ^ k < 2 ^ (64 - k)" by (simp only: div)
    then show ?thesis unfolding pk by (simp add: div_less_iff_less_mult)
  qed
  moreover have "v + of_nat i = of_nat (unat v + i)" by simp
  ultimately show u: "unat (v + of_nat i) = unat v + i" by (simp only: unat_of_nat) simp
  show "uu_align (v + of_nat i) (2 ^ k) = uu_align v (2 ^ k)"
    by (rule word_unat_eqI) (simp only: unat_uu_align u div)
  have "(2 :: nat) ^ k < 2 ^ 64" using k by (intro power_strict_increasing) auto
  with ri have "unat v mod 2 ^ k + i < 2 ^ 64" by simp
  moreover have "take_bit k v + of_nat i = of_nat (unat (take_bit k v) + i)" by simp
  ultimately have "unat (take_bit k v + of_nat i) = unat v mod 2 ^ k + i"
    by (simp only: unat_take_bit_mod unat_of_nat) simp
  then show "(v + of_nat i) AND (2 ^ k - 1) = (v AND (2 ^ k - 1)) + of_nat i"
    unfolding and_pow2_minus_1 by (intro word_unat_eqI) (simp only: unat_take_bit_mod u mod)
qed

section \<open>The protected area\<close>

definition area_aligned :: "'a vm_state_scheme \<Rightarrow> bool" where
  "area_aligned s = (uu_aligned (area_start s) PAGE_SIZE \<and> uu_aligned (area_end s) PAGE_SIZE)"

lemma vmm_area_mem [simp]:
  "vmm_area (s\<lparr>vm_mem := m\<rparr>) = vmm_area s" "vmm_area_range (s\<lparr>vm_mem := m\<rparr>) = vmm_area_range s"
  "pg64_executable (s\<lparr>vm_mem := m\<rparr>) = pg64_executable s" "pg_wlk_and (s\<lparr>vm_mem := m\<rparr>) = pg_wlk_and s"
  by (simp_all add: fun_eq_iff vmm_area_def vmm_area_range_def pg64_executable_def pg_wlk_and_def)

lemma dvd_between: "(4096 :: nat) dvd a \<Longrightarrow> 4096 dvd b \<Longrightarrow> i < 4096 \<Longrightarrow> a < b \<Longrightarrow> a + i < b"
proof (elim dvdE)
  fix k l
  assume "i < 4096" "a < b" "a = 4096 * k" "b = 4096 * l"
  moreover from this have "k + 1 \<le> l" by simp
  then have "4096 * (k + 1) \<le> 4096 * l" by (rule mult_le_mono2)
  ultimately show "a + i < b" by simp
qed

text \<open>With an area of whole pages, a page is inside or outside it, and its first byte tells.\<close>

lemma vmm_area_page:
  assumes "area_aligned s" and "uu_aligned p PAGE_SIZE" and "i < 4096"
  shows "vmm_area s (p + of_nat i) \<longleftrightarrow> vmm_area s p"
proof -
  have d: "4096 dvd unat p" "4096 dvd unat (area_start s)" "4096 dvd unat (area_end s)"
    using assms(1,2) uu_aligned_unat [of _ 12] by (auto simp: area_aligned_def PAGE_SIZE_def)
  have "unat p + i < 2 ^ 64" using dvd_between [OF d(1) _ assms(3), of "2 ^ 64"] unat_u64_less [of p] by simp
  moreover have "p + of_nat i = of_nat (unat p + i)" by simp
  ultimately have u: "unat (p + of_nat i) = unat p + i" by (simp only: unat_of_nat) simp
  show ?thesis
    unfolding vmm_area_def uu_range_exc_def word_le_nat_alt word_less_nat_alt u
    using dvd_between [OF d(1,2) assms(3)] dvd_between [OF d(1,3) assms(3)] by linarith
qed

lemma vmm_area_range_page:
  assumes "area_aligned s" and "uu_aligned p PAGE_SIZE"
  shows "vmm_area_range s p PG_4K_SIZE \<longleftrightarrow> vmm_area s p"
proof -
  have d: "4096 dvd unat p" using assms(2) uu_aligned_unat [of p 12] by (simp add: PAGE_SIZE_def)
  have "unat p + 4095 < 2 ^ 64" using dvd_between [OF d, of "2 ^ 64" 4095] unat_u64_less [of p] by simp
  moreover have "p + 4095 = of_nat (unat p + 4095)" by simp
  ultimately have u: "unat (p + 4095) = unat p + 4095" by (simp only: unat_of_nat) simp
  then have "p < p + 4095" by (simp add: word_less_nat_alt)
  moreover have "vmm_area s (p + 4095) = vmm_area s p" using vmm_area_page [OF assms, of 4095] by simp
  moreover have "p + PG_4K_SIZE - 1 = p + 4095" by (simp add: PG_4K_SIZE_def)
  ultimately show ?thesis
    by (simp add: vmm_area_range_def Let_def) (simp add: PG_4K_SIZE_def add.commute)
qed

text \<open>A range inside one page is reported exactly when it meets the area; a range that starts
  outside of the area and does not wrap is not reported, wherever it ends.\<close>

lemma vmm_area_in_page:
  assumes "area_aligned s" and "unat p mod 4096 + i < 4096"
  shows "vmm_area s (p + of_nat i) \<longleftrightarrow> vmm_area s p"
proof -
  define b where "b = uu_align p (2 ^ 12)"
  have ub: "unat b = unat p div 4096 * 4096" by (simp only: b_def unat_uu_align) simp
  have b: "uu_aligned b PAGE_SIZE"
    using uu_aligned_unat [of b 12] ub by (simp add: PAGE_SIZE_def)
  have "p = b + of_nat (unat p mod 4096)"
  proof (rule unsigned_word_eqI)
    have "unat b + unat p mod 4096 = unat p" using ub by (simp add: div_mult_mod_eq)
    moreover from this have "unat (of_nat (unat b + unat p mod 4096) :: u64) = unat p" by simp
    moreover have "b + of_nat (unat p mod 4096) = of_nat (unat b + unat p mod 4096)" by simp
    ultimately show "unat p = unat (b + of_nat (unat p mod 4096))" by (simp only:)
  qed
  moreover from this have "p + of_nat i = b + of_nat (unat p mod 4096 + i)" by simp
  ultimately show ?thesis using vmm_area_page [OF assms(1) b] assms(2) by (metis add_lessD1)
qed

lemma vmm_area_range_miss:
  assumes "\<not> vmm_area s p" and "0 < n" and "n < 2 ^ 64" and "unat (p + of_nat (n - 1)) = unat p + (n - 1)"
  shows "\<not> vmm_area_range s p (of_nat n)"
proof (cases "n < 2")
  case True
  then show ?thesis using assms by (cases n) (auto simp: vmm_area_range_def)
next
  case False
  have u: "unat (of_nat n :: u64) = n" using assms(3) by (simp add: unat_of_nat take_bit_eq_mod)
  have "\<not> (of_nat n :: u64) < 2" using False u by (simp add: word_less_nat_alt)
  moreover have l: "p + of_nat n - 1 = p + of_nat (n - 1)" using assms(2) by (simp add: of_nat_diff)
  moreover have "p < p + of_nat (n - 1)" using assms(4) False by (simp add: word_less_nat_alt)
  ultimately show ?thesis using assms(1) unfolding vmm_area_range_def Let_def l by simp
qed

lemma vmm_area_range_in_page:
  assumes "area_aligned s" and "0 < n" and "unat p mod 4096 + n \<le> 4096"
  shows "vmm_area_range s p (of_nat n) \<longleftrightarrow> vmm_area s p"
proof (cases "n < 2")
  case True
  then show ?thesis using assms(2) by (cases n) (auto simp: vmm_area_range_def)
next
  case False
  have n: "n \<le> 4096" using assms(3) by simp
  then have u: "unat (of_nat n :: u64) = n" by (simp add: unat_of_nat take_bit_eq_mod)
  have "\<not> (of_nat n :: u64) < 2" using False u by (simp add: word_less_nat_alt)
  moreover have l: "p + of_nat n - 1 = p + of_nat (n - 1)" using assms(2) by (simp add: of_nat_diff)
  moreover have "unat (p + of_nat (n - 1)) = unat p + (n - 1)"
    using add_in_page(1) [where k = 12 and v = p and i = "n - 1"] assms(2,3) by simp
  then have "p < p + of_nat (n - 1)" using False by (simp add: word_less_nat_alt)
  moreover have "vmm_area s (p + of_nat (n - 1)) = vmm_area s p"
    using vmm_area_in_page [OF assms(1), of p "n - 1"] assms(2,3) by simp
  ultimately show ?thesis unfolding vmm_area_range_def Let_def l by simp
qed

section \<open>The walk does not depend on the protected area\<close>

definition outside :: "'a vm_state_scheme \<Rightarrow> (offset_t \<Rightarrow> u8) \<Rightarrow> bool" where
  "outside s m = (\<forall>a. \<not> vmm_area s a \<longrightarrow> m a = vm_mem s a)"

lemma rd_table:
  assumes "area_aligned s" and "outside s m" and "\<not> vmm_area_range s (page_addr x) PG_4K_SIZE"
  shows "k < 512 \<Longrightarrow> rd_u64 (s\<lparr>vm_mem := m\<rparr>) (page_addr x + 8 * of_nat k) = rd_u64 s (page_addr x + 8 * of_nat k)"
    and "k < 1024 \<Longrightarrow> rd_u32 (s\<lparr>vm_mem := m\<rparr>) (page_addr x + 4 * of_nat k) = rd_u32 s (page_addr x + 4 * of_nat k)"
proof -
  let ?p = "page_addr x"
  have "\<not> vmm_area s ?p" using assms vmm_area_range_page [OF assms(1) page_addr_aligned] by blast
  then have out: "m (?p + of_nat i) = vm_mem s (?p + of_nat i)" if "i < 4096" for i
    using vmm_area_page [OF assms(1) page_addr_aligned that] assms(2) by (auto simp: outside_def)
  have sel: "vm_mem (s\<lparr>vm_mem := m\<rparr>) = m" by simp
  have bytes: "map (\<lambda>i. m (?p + of_nat j + of_nat i)) [0..<n] = map (\<lambda>i. vm_mem s (?p + of_nat j + of_nat i)) [0..<n]"
    if "j + n \<le> 4096" for j n
    using that out by (auto simp: add.assoc simp flip: of_nat_add)
  show "rd_u64 (s\<lparr>vm_mem := m\<rparr>) (?p + 8 * of_nat k) = rd_u64 s (?p + 8 * of_nat k)" if "k < 512"
  proof -
    have "8 * k + 8 \<le> 4096" using that by simp
    from bytes [OF this] show ?thesis by (simp only: rd_u64_def sel of_nat_mult of_nat_numeral)
  qed
  show "rd_u32 (s\<lparr>vm_mem := m\<rparr>) (?p + 4 * of_nat k) = rd_u32 s (?p + 4 * of_nat k)" if "k < 1024"
  proof -
    have "4 * k + 4 \<le> 4096" using that by simp
    from bytes [OF this] show ?thesis by (simp only: rd_u32_def sel of_nat_mult of_nat_numeral)
  qed
qed

lemma idx32:
  "\<exists>k. pd32_idx v = of_nat k \<and> k < 1024" "\<exists>k. pt32_idx v = of_nat k \<and> k < 1024"
proof -
  have "\<exists>k. (ucast (x AND 0x3ff) :: u64) = of_nat k \<and> k < 1024" for x :: u32
  proof -
    have "unat (x AND 0x3ff) < 1024" by (simp only: and_lit unat_take_bit_mod) simp
    moreover have "(ucast (x AND 0x3ff) :: u64) = of_nat (unat (x AND 0x3ff))" by simp
    ultimately show ?thesis by blast
  qed
  then show "\<exists>k. pd32_idx v = of_nat k \<and> k < 1024" "\<exists>k. pt32_idx v = of_nat k \<and> k < 1024"
    by (simp_all add: pd32_idx_def pt32_idx_def)
qed

section \<open>Translations within one page\<close>

lemma bit_trunc32: "bit (ucast (v AND 0xffffffff) :: u32) i \<longleftrightarrow> i < 32 \<and> bit v i" for v :: u64
proof -
  have m: "v AND 0xffffffff = take_bit 32 v" using and_pow2_minus_1 [of v 32] by simp
  show ?thesis unfolding m by (simp only: bit_unsigned_iff bit_take_bit_iff) (auto simp: possible_bit_def)
qed

lemma bit_trunc64: "bit (ucast (ucast (v AND 0xffffffff) :: u32) :: u64) i \<longleftrightarrow> i < 32 \<and> bit v i" for v :: u64
  by (subst bit_unsigned_iff) (simp only: bit_trunc32, auto simp: possible_bit_def)

lemma trunc_drop:
  fixes v v' :: u64
  assumes "drop_bit k v = drop_bit k v'" and "k \<le> n"
  shows "drop_bit n (ucast (v AND 0xffffffff) :: u32) = drop_bit n (ucast (v' AND 0xffffffff) :: u32)"
    and "drop_bit n (ucast (ucast (v AND 0xffffffff) :: u32) :: u64)
       = drop_bit n (ucast (ucast (v' AND 0xffffffff) :: u32) :: u64)"
proof -
  have b: "bit v (n + i) = bit v' (n + i)" for i
  proof -
    have "bit (drop_bit k v) (n - k + i) = bit (drop_bit k v') (n - k + i)" by (simp only: assms(1))
    then show ?thesis using assms(2) by (simp only: bit_drop_bit_eq comp_apply) simp
  qed
  show "drop_bit n (ucast (v AND 0xffffffff) :: u32) = drop_bit n (ucast (v' AND 0xffffffff) :: u32)"
    by (rule bit_eqI) (simp only: bit_drop_bit_eq comp_apply bit_trunc32 b)
  show "drop_bit n (ucast (ucast (v AND 0xffffffff) :: u32) :: u64)
       = drop_bit n (ucast (ucast (v' AND 0xffffffff) :: u32) :: u64)"
    by (rule bit_eqI) (simp only: bit_drop_bit_eq comp_apply bit_trunc64 b)
qed

lemma trunc_low:
  fixes v :: u64
  assumes "k \<le> 32"
  shows "(ucast (ucast (v AND 0xffffffff) :: u32) :: u64) AND (2 ^ k - 1) = v AND (2 ^ k - 1)"
  unfolding and_pow2_minus_1
  by (rule bit_eqI) (use assms in \<open>auto simp only: bit_take_bit_iff bit_trunc64\<close>)
lemma drop_bit_mono_eq: "drop_bit k a = drop_bit k b \<Longrightarrow> k \<le> n \<Longrightarrow> drop_bit n a = drop_bit n b"
  for a b :: "'a::len word"
  by (metis drop_bit_drop_bit le_add_diff_inverse2)

lemma idx_same:
  "drop_bit 39 a = drop_bit 39 b \<Longrightarrow> pml4_idx a = pml4_idx b"
  "drop_bit 30 a = drop_bit 30 b \<Longrightarrow> pdp_idx a = pdp_idx b"
  "drop_bit 21 a = drop_bit 21 b \<Longrightarrow> pd64_idx a = pd64_idx b"
  "drop_bit 12 a = drop_bit 12 b \<Longrightarrow> pt64_idx a = pt64_idx b"
  by (simp_all add: pml4_idx_def pdp_idx_def pd64_idx_def pt64_idx_def)

lemma vmerr_neq [simp]:
  "VM_FAIL \<noteq> VM_DONE" "VM_FAULT \<noteq> VM_DONE" "VM_DONE \<noteq> VM_FAIL" "VM_DONE \<noteq> VM_FAULT"
  by (simp_all add: vmerr_defs)

lemma drop_push_drop: "drop_bit k (push_bit k (drop_bit k x)) = drop_bit k x" for x :: u64
  by (rule bit_eqI) (auto simp: bit_drop_bit_eq bit_push_bit_iff dest: bit_imp_le_length)

lemma align_same: "uu_align x (2 ^ k) = uu_align y (2 ^ k) \<longleftrightarrow> drop_bit k x = drop_bit k y" for x y :: u64
  unfolding uu_align_pow2 by (metis drop_push_drop)

definition wlk_base :: "offset_t \<Rightarrow> 'p pg_wlk \<Rightarrow> u64" where
  "wlk_base v w = wlk_addr w - (v AND (wlk_size w - 1))"


text \<open>When a walk answers \<^verbatim>\<open>VM_DONE\<close>, every check on the way passed.\<close>

lemma wlk_steps:
  "((if c then (VM_FAIL, x) else y) = (VM_DONE, w)) \<longleftrightarrow> \<not> c \<and> y = (VM_DONE, w)"
  "((if \<not> c then wlk_fault t e x else y) = (VM_DONE, w)) \<longleftrightarrow> c \<and> y = (VM_DONE, w)"
  "((if c then wlk_done t e a sz x else y) = (VM_DONE, w))
   \<longleftrightarrow> (if c then wlk_done t e a sz x = (VM_DONE, w) else y = (VM_DONE, w))"
  by (auto simp: wlk_fault_def)

lemma wlk_done_iff:
  "wlk_done t e a sz x = (VM_DONE, w)
   \<longleftrightarrow> w = x\<lparr>wlk_addr := a, wlk_type := t, wlk_size := sz, wlk_entry := e\<rparr>"
  by (auto simp: wlk_done_def)

definition wlk_same_page :: "offset_t \<Rightarrow> offset_t \<Rightarrow> offset_t pg_wlk \<Rightarrow> offset_t pg_wlk \<Rightarrow> bool" where
  "wlk_same_page v v' w w' =
     (wlk_size w' = wlk_size w \<and> wlk_addr w' = wlk_base v w + (v' AND (wlk_size w - 1))
      \<and> wlk_u w' = wlk_u w \<and> wlk_w w' = wlk_w w)"

lemma wlk_same_pageI:
  assumes "w = x\<lparr>wlk_addr := a + (v AND (sz - 1)), wlk_type := t, wlk_size := sz, wlk_entry := e\<rparr>"
  shows "wlk_same_page v v' w (x\<lparr>wlk_addr := a + (v' AND (sz - 1)), wlk_type := t, wlk_size := sz, wlk_entry := e\<rparr>)"
  using assms by (simp add: wlk_same_page_def wlk_base_def)

lemma wlk_size_done: "w = x\<lparr>wlk_addr := a, wlk_type := t, wlk_size := sz, wlk_entry := e\<rparr> \<Longrightarrow> wlk_size w = sz"
  by simp

lemma pg_sizes: "PG_1G_SIZE = 2 ^ 30" "PG_2M_SIZE = 2 ^ 21" "PG_4K_SIZE = 2 ^ 12"
  by (simp_all add: PG_1G_SIZE_def PG_2M_SIZE_def PG_4K_SIZE_def)

lemma lmode_page:
  assumes w: "uu_pg_walk_lmode s cr3 v wlk = (VM_DONE, w)"
    and v': "uu_align v' (wlk_size w) = uu_align v (wlk_size w)"
  shows "\<exists>w'. uu_pg_walk_lmode s cr3 v' wlk = (VM_DONE, w') \<and> wlk_same_page v v' w w'"
proof -
  define b where "b = page_addr (get_field 12 40 cr3)"
  define e4 where "e4 = rd_u64 s (b + 8 * of_nat (pml4_idx v))"
  define e3 where "e3 = rd_u64 s (page_addr (get_field 12 40 e4) + 8 * of_nat (pdp_idx v))"
  define e2 where "e2 = rd_u64 s (page_addr (get_field 12 40 e3) + 8 * of_nat (pd64_idx v))"
  define e1 where "e1 = rd_u64 s (page_addr (get_field 12 40 e2) + 8 * of_nat (pt64_idx v))"
  note es = b_def [symmetric] e4_def [symmetric] e3_def [symmetric] e2_def [symmetric] e1_def [symmetric]
  note wt = w [unfolded uu_pg_walk_lmode_def Let_def wlk_steps wlk_done_iff es]
  consider (g) "vmm_pg_1G s \<and> pg_large e3" | (m) "\<not> (vmm_pg_1G s \<and> pg_large e3)" "pg_large e2"
    | (k) "\<not> (vmm_pg_1G s \<and> pg_large e3)" "\<not> pg_large e2" by blast
  then show ?thesis
  proof cases
    case g
    note wg = wt [unfolded if_P [OF g]]
    have "wlk_size w = PG_1G_SIZE" using wg by (elim conjE) (rule wlk_size_done)
    then have d: "drop_bit 30 v' = drop_bit 30 v" using v' by (simp only: pg_sizes align_same)
    have i: "pml4_idx v' = pml4_idx v" "pdp_idx v' = pdp_idx v"
      by (rule idx_same, rule drop_bit_mono_eq [OF d], simp)+
    show ?thesis
      unfolding uu_pg_walk_lmode_def Let_def wlk_steps wlk_done_iff i es if_P [OF g]
      by (insert wg, elim conjE, intro exI conjI, assumption+, rule refl, rule wlk_same_pageI, assumption)
  next
    case m
    note wg = wt [unfolded if_not_P [OF m(1)] if_P [OF m(2)]]
    have "wlk_size w = PG_2M_SIZE" using wg by (elim conjE) (rule wlk_size_done)
    then have d: "drop_bit 21 v' = drop_bit 21 v" using v' by (simp only: pg_sizes align_same)
    have i: "pml4_idx v' = pml4_idx v" "pdp_idx v' = pdp_idx v" "pd64_idx v' = pd64_idx v"
      by (rule idx_same, rule drop_bit_mono_eq [OF d], simp)+
    show ?thesis
      unfolding uu_pg_walk_lmode_def Let_def wlk_steps wlk_done_iff i es if_not_P [OF m(1)] if_P [OF m(2)]
      by (insert wg, elim conjE, intro exI conjI, assumption+, rule refl, rule wlk_same_pageI, assumption)
  next
    case k
    note wg = wt [unfolded if_not_P [OF k(1)] if_not_P [OF k(2)]]
    have "wlk_size w = PG_4K_SIZE" using wg by (elim conjE) (rule wlk_size_done)
    then have d: "drop_bit 12 v' = drop_bit 12 v" using v' by (simp only: pg_sizes align_same)
    have i: "pml4_idx v' = pml4_idx v" "pdp_idx v' = pdp_idx v" "pd64_idx v' = pd64_idx v" "pt64_idx v' = pt64_idx v"
      by (rule idx_same, rule drop_bit_mono_eq [OF d], simp)+
    show ?thesis
      unfolding uu_pg_walk_lmode_def Let_def wlk_steps wlk_done_iff i es if_not_P [OF k(1)] if_not_P [OF k(2)]
      by (insert wg, elim conjE, intro exI conjI, assumption+, rule refl, rule wlk_same_pageI, assumption)
  qed
qed

lemma pae_page:
  assumes w: "uu_pg_walk_pmode_pae s cr3 v wlk = (VM_DONE, w)"
    and v': "uu_align v' (wlk_size w) = uu_align v (wlk_size w)"
  shows "\<exists>w'. uu_pg_walk_pmode_pae s cr3 v' wlk = (VM_DONE, w') \<and> wlk_same_page v v' w w'"
proof -
  define t t' where t: "t = (ucast (v AND 0xffffffff) :: u32)" and t': "t' = (ucast (v' AND 0xffffffff) :: u32)"
  define e3 where "e3 = rd_u64 s (push_bit 5 (get_field 5 27 cr3) + 8 * pdp_pae_idx t)"
  define e2 where "e2 = rd_u64 s (page_addr (get_field 12 40 e3) + 8 * of_nat (pd64_idx (ucast t)))"
  note es = e3_def [symmetric] e2_def [symmetric]
  have low: "ucast t AND (PG_2M_SIZE - 1) = v AND (PG_2M_SIZE - 1)" "ucast t AND (PG_4K_SIZE - 1) = v AND (PG_4K_SIZE - 1)"
    "ucast t' AND (PG_2M_SIZE - 1) = v' AND (PG_2M_SIZE - 1)" "ucast t' AND (PG_4K_SIZE - 1) = v' AND (PG_4K_SIZE - 1)"
    unfolding pg_sizes t t' by (rule trunc_low, simp)+
  note wt = w [unfolded uu_pg_walk_pmode_pae_def Let_def wlk_steps wlk_done_iff, folded t, unfolded low es]
  show ?thesis
  proof (cases "cr4_pse s \<and> pg_large e2")
    case True
    note wg = wt [unfolded if_P [OF True]]
    have "wlk_size w = PG_2M_SIZE" using wg by (elim conjE) (rule wlk_size_done)
    then have d: "drop_bit 21 v' = drop_bit 21 v" using v' by (simp only: pg_sizes align_same)
    have i: "pdp_pae_idx t' = pdp_pae_idx t" "pd64_idx (ucast t') = pd64_idx (ucast t)"
      unfolding pdp_pae_idx_def t t'
      by (subst trunc_drop(1) [OF d], simp, rule refl, rule idx_same, rule trunc_drop [OF d], simp)
    show ?thesis
      unfolding uu_pg_walk_pmode_pae_def Let_def wlk_steps wlk_done_iff t' [symmetric] low i es if_P [OF True]
      by (insert wg, elim conjE, intro exI conjI, assumption+, rule refl, rule wlk_same_pageI, assumption)
  next
    case False
    note wg = wt [unfolded if_not_P [OF False]]
    have "wlk_size w = PG_4K_SIZE" using wg by (elim conjE) (rule wlk_size_done)
    then have d: "drop_bit 12 v' = drop_bit 12 v" using v' by (simp only: pg_sizes align_same)
    have i: "pdp_pae_idx t' = pdp_pae_idx t" "pd64_idx (ucast t') = pd64_idx (ucast t)" "pt64_idx (ucast t') = pt64_idx (ucast t)"
      unfolding pdp_pae_idx_def t t'
      by (subst trunc_drop(1) [OF d], simp, rule refl, (rule idx_same, rule trunc_drop [OF d], simp)+)
    show ?thesis
      unfolding uu_pg_walk_pmode_pae_def Let_def wlk_steps wlk_done_iff t' [symmetric] low i es if_not_P [OF False]
      by (insert wg, elim conjE, intro exI conjI, assumption+, rule refl, rule wlk_same_pageI, assumption)
  qed
qed

lemma pmode_page:
  assumes w: "uu_pg_walk_pmode s cr3 v wlk = (VM_DONE, w)"
    and v': "uu_align v' (wlk_size w) = uu_align v (wlk_size w)"
  shows "\<exists>w'. uu_pg_walk_pmode s cr3 v' wlk = (VM_DONE, w') \<and> wlk_same_page v v' w w'"
proof -
  define t t' where t: "t = (ucast (v AND 0xffffffff) :: u32)" and t': "t' = (ucast (v' AND 0xffffffff) :: u32)"
  define M where M: "M = (push_bit 22 1 :: u64)"
  define e2 where "e2 = rd_u32 s (page_addr (get_field 12 20 cr3) + 4 * pd32_idx t)"
  note es = e2_def [symmetric]
  have sz: "M = 2 ^ 22" by (simp add: M)
  have low: "ucast t AND (M - 1) = v AND (M - 1)" "ucast t AND (PG_4K_SIZE - 1) = v AND (PG_4K_SIZE - 1)"
    "ucast t' AND (M - 1) = v' AND (M - 1)" "ucast t' AND (PG_4K_SIZE - 1) = v' AND (PG_4K_SIZE - 1)"
    unfolding sz pg_sizes t t' by (rule trunc_low, simp)+
  note wt = w [unfolded uu_pg_walk_pmode_def Let_def wlk_steps wlk_done_iff, folded t M, unfolded low es]
  show ?thesis
  proof (cases "cr4_pse s \<and> pg_large e2")
    case True
    note wg = wt [unfolded if_P [OF True]]
    have "wlk_size w = M" using wg by (elim conjE) (rule wlk_size_done)
    then have d: "drop_bit 22 v' = drop_bit 22 v" using v' by (simp only: sz align_same)
    have i: "pd32_idx t' = pd32_idx t"
      unfolding pd32_idx_def t t' by (subst trunc_drop(1) [OF d], simp, rule refl)
    show ?thesis
      unfolding uu_pg_walk_pmode_def Let_def wlk_steps wlk_done_iff t' [symmetric] M [symmetric] low i es if_P [OF True]
      by (insert wg, elim conjE, intro exI conjI, assumption+, rule refl, rule wlk_same_pageI, assumption)
  next
    case False
    note wg = wt [unfolded if_not_P [OF False]]
    have "wlk_size w = PG_4K_SIZE" using wg by (elim conjE) (rule wlk_size_done)
    then have d: "drop_bit 12 v' = drop_bit 12 v" using v' by (simp only: pg_sizes align_same)
    have i: "pd32_idx t' = pd32_idx t" "pt32_idx t' = pt32_idx t"
      unfolding pd32_idx_def pt32_idx_def t t' by (subst trunc_drop(1) [OF d], simp, rule refl)+
    show ?thesis
      unfolding uu_pg_walk_pmode_def Let_def wlk_steps wlk_done_iff t' [symmetric] M [symmetric] low i es if_not_P [OF False]
      by (insert wg, elim conjE, intro exI conjI, assumption+, rule refl, rule wlk_same_pageI, assumption)
  qed
qed

lemma pg_walk_page:
  assumes "uu_pg_walk s cr3 v wlk = (VM_DONE, w)" and "uu_align v' (wlk_size w) = uu_align v (wlk_size w)"
  shows "\<exists>w'. uu_pg_walk s cr3 v' wlk = (VM_DONE, w') \<and> wlk_same_page v v' w w'"
proof (cases "efer_lma s")
  case True then show ?thesis using lmode_page [OF _ assms(2)] assms(1) unfolding uu_pg_walk_def by simp
next
  case False
  then show ?thesis using pae_page [OF _ assms(2)] pmode_page [OF _ assms(2)] assms(1) unfolding uu_pg_walk_def
    by (cases "cr4_pae s") simp_all
qed

lemma walk_size:
  "uu_pg_walk_lmode s cr3 v wlk = (VM_DONE, w) \<Longrightarrow> wlk_size w \<in> {PG_1G_SIZE, PG_2M_SIZE, PG_4K_SIZE}"
  "uu_pg_walk_pmode_pae s cr3 v wlk = (VM_DONE, w) \<Longrightarrow> wlk_size w \<in> {PG_2M_SIZE, PG_4K_SIZE}"
  "uu_pg_walk_pmode s cr3 v wlk = (VM_DONE, w) \<Longrightarrow> wlk_size w \<in> {push_bit 22 1, PG_4K_SIZE}"
  unfolding uu_pg_walk_lmode_def uu_pg_walk_pmode_pae_def uu_pg_walk_pmode_def Let_def wlk_steps wlk_done_iff
  by (elim conjE, simp split: if_splits)+

lemma pg_walk_size:
  assumes "uu_pg_walk s cr3 v wlk = (VM_DONE, w)"
  shows "\<exists>k. 12 \<le> k \<and> k \<le> 30 \<and> wlk_size w = 2 ^ k"
proof -
  have "wlk_size w \<in> {PG_1G_SIZE, PG_2M_SIZE, PG_4K_SIZE, push_bit 22 1}"
    using assms walk_size [of s cr3 v wlk w]
    unfolding uu_pg_walk_def by (cases "efer_lma s"; cases "cr4_pae s") auto
  moreover have "\<exists>k. 12 \<le> k \<and> k \<le> 30 \<and> x = (2 ^ k :: u64)" if "x = 2 ^ 12 \<or> x = 2 ^ 21 \<or> x = 2 ^ 22 \<or> x = 2 ^ 30" for x
  proof -
    have "\<exists>k \<in> {12, 21, 22, 30}. x = (2 ^ k :: u64)" using that by blast
    then obtain k where "k \<in> {12, 21, 22, 30}" "x = 2 ^ k" by (rule bexE)
    then show ?thesis by (intro exI [of _ k]) auto
  qed
  ultimately show ?thesis by (auto simp: pg_sizes)
qed

lemma page_low: "take_bit k b = 0 \<Longrightarrow> (b + (v AND (2 ^ k - 1))) AND (2 ^ k - 1) = v AND (2 ^ k - 1)" for b v :: u64
proof -
  assume "take_bit k b = 0"
  then have "unat b mod 2 ^ k = 0" by (metis unat_take_bit_mod unsigned_0)
  then have m: "(unat b + y) mod 2 ^ k = y mod 2 ^ k" for y by (metis add_0 mod_add_left_eq)
  show ?thesis
  proof (cases "k \<le> 64")
    case True
    then have d: "(2 :: nat) ^ k dvd 2 ^ 64" by (rule le_imp_power_dvd)
    show ?thesis unfolding and_pow2_minus_1
      by (rule word_unat_eqI)
        (simp only: unat_take_bit_mod unat_word_ariths len_u64 mod_mod_cancel [OF d] m mod_mod_trivial)
  next
    case False
    then have "take_bit k x = x" for x :: u64 by (intro bit_eqI) (auto simp: bit_take_bit_iff dest: bit_imp_le_length)
    with \<open>take_bit k b = 0\<close> show ?thesis unfolding and_pow2_minus_1 by simp
  qed
qed

lemma push_low: "take_bit k (push_bit k x) = 0" for x :: u64
  by (rule bit_eqI) (simp only: bit_take_bit_iff bit_push_bit_iff, simp)

lemma push_low32: "take_bit k (ucast (push_bit k x) :: u64) = 0" for x :: u32
  by (rule bit_eqI) (simp only: bit_take_bit_iff bit_push_bit_iff bit_unsigned_iff, simp)

definition wlk_offset_ok :: "offset_t \<Rightarrow> offset_t pg_wlk \<Rightarrow> bool" where
  "wlk_offset_ok v w = (wlk_addr w AND (wlk_size w - 1) = v AND (wlk_size w - 1))"

lemma wlk_offset_okI:
  "w = x\<lparr>wlk_addr := push_bit k b + (v AND (sz - 1)), wlk_type := t, wlk_size := sz, wlk_entry := e\<rparr> \<Longrightarrow> sz = 2 ^ k \<Longrightarrow> wlk_offset_ok v w"
  "w = x\<lparr>wlk_addr := ucast (push_bit k b') + (v AND (sz - 1)), wlk_type := t, wlk_size := sz, wlk_entry := e\<rparr> \<Longrightarrow> sz = 2 ^ k \<Longrightarrow> wlk_offset_ok v w"
  for b' :: u32
  using page_low [OF push_low] page_low [OF push_low32] by (simp_all add: wlk_offset_ok_def)

lemma if_elim: "(if c then P else Q) \<Longrightarrow> (P \<Longrightarrow> R) \<Longrightarrow> (Q \<Longrightarrow> R) \<Longrightarrow> R"
  by (cases c) simp_all

lemma walk_offset:
  "uu_pg_walk_lmode s cr3 v wlk = (VM_DONE, w) \<Longrightarrow> wlk_offset_ok v w"
  unfolding uu_pg_walk_lmode_def Let_def wlk_steps wlk_done_iff
  by (elim conjE if_elim; (rule wlk_offset_okI, assumption, rule pg_sizes))

lemma pae_offset:
  assumes "uu_pg_walk_pmode_pae s cr3 v wlk = (VM_DONE, w)"
  shows "wlk_offset_ok v w"
proof -
  define t where t: "t = (ucast (v AND 0xffffffff) :: u32)"
  have low: "ucast t AND (PG_2M_SIZE - 1) = v AND (PG_2M_SIZE - 1)" "ucast t AND (PG_4K_SIZE - 1) = v AND (PG_4K_SIZE - 1)"
    unfolding pg_sizes t by (rule trunc_low, simp)+
  note wt = assms [unfolded uu_pg_walk_pmode_pae_def Let_def wlk_steps wlk_done_iff, folded t, unfolded low]
  show ?thesis by (insert wt, elim conjE if_elim; (rule wlk_offset_okI, assumption, rule pg_sizes))
qed

lemma pmode_offset:
  assumes "uu_pg_walk_pmode s cr3 v wlk = (VM_DONE, w)"
  shows "wlk_offset_ok v w"
proof -
  define t where t: "t = (ucast (v AND 0xffffffff) :: u32)"
  define M where M: "M = (push_bit 22 1 :: u64)"
  have sz: "M = 2 ^ 22" by (simp add: M)
  have low: "ucast t AND (M - 1) = v AND (M - 1)" "ucast t AND (PG_4K_SIZE - 1) = v AND (PG_4K_SIZE - 1)"
    unfolding pg_sizes sz t by (rule trunc_low, simp)+
  note wt = assms [unfolded uu_pg_walk_pmode_def Let_def wlk_steps wlk_done_iff, folded t M, unfolded low]
  show ?thesis by (insert wt, elim conjE if_elim; (rule wlk_offset_okI, assumption, rule pg_sizes sz))
qed

lemma pg_walk_offset: "uu_pg_walk s cr3 v wlk = (VM_DONE, w) \<Longrightarrow> wlk_offset_ok v w"
  unfolding uu_pg_walk_def using walk_offset pae_offset pmode_offset
  by (cases "efer_lma s"; cases "cr4_pae s") fastforce+

text \<open>What a client of the walk relies on: pages are powers of two, a translation keeps the
  offset in the page, and all addresses of a page are translated alike.\<close>

locale page_walk =
  fixes walk :: "offset_t \<Rightarrow> vmerr \<times> offset_t pg_wlk"
  assumes size: "walk v = (VM_DONE, w) \<Longrightarrow> \<exists>k. 12 \<le> k \<and> k \<le> 30 \<and> wlk_size w = 2 ^ k"
    and offset: "walk v = (VM_DONE, w) \<Longrightarrow> wlk_offset_ok v w"
    and page: "walk v = (VM_DONE, w) \<Longrightarrow> uu_align v' (wlk_size w) = uu_align v (wlk_size w) \<Longrightarrow>
      \<exists>w'. walk v' = (VM_DONE, w') \<and> wlk_same_page v v' w w'"
begin

lemma room:
  assumes "walk v = (VM_DONE, w)"
  obtains k where "wlk_size w = 2 ^ k" and "k \<le> 30"
    and "unat (uu_align_next v (wlk_size w) - v) = 2 ^ k - unat v mod 2 ^ k"
proof -
  obtain k where k: "wlk_size w = 2 ^ k" "k \<le> 30" using size [OF assms] by blast
  have d: "(2 :: nat) ^ 64 = 2 ^ k * 2 ^ (64 - k)" using k by (simp flip: power_add)
  have r: "unat v mod 2 ^ k < 2 ^ k" by simp
  have u: "unat (v + 2 ^ k) = (unat v + 2 ^ k) mod 2 ^ 64" using k by (simp add: unat_word_ariths unat_pow2)
  have "unat (uu_align_next v (2 ^ k)) = (unat v + 2 ^ k) mod 2 ^ 64 div 2 ^ k * 2 ^ k"
    unfolding uu_align_next_def unat_uu_align u ..
  also have "\<dots> = ((unat v + 2 ^ k) div 2 ^ k * 2 ^ k) mod 2 ^ 64"
    unfolding d by (simp add: mod_mult2_eq mult.commute)
  also have "(unat v + 2 ^ k) div 2 ^ k * 2 ^ k = unat v + (2 ^ k - unat v mod 2 ^ k)"
  proof -
    have "unat v = unat v div 2 ^ k * 2 ^ k + unat v mod 2 ^ k" by (rule div_mult_mod_eq [symmetric])
    moreover have "(unat v + 2 ^ k) div 2 ^ k = unat v div 2 ^ k + 1" by (simp add: div_add_self2)
    ultimately show ?thesis using r by (simp only: add_mult_distrib)
  qed
  finally have "uu_align_next v (2 ^ k) = of_nat (unat v + (2 ^ k - unat v mod 2 ^ k))"
    by (intro word_unat_eqI) (simp only: unat_of_nat take_bit_eq_mod len_u64)
  then have "uu_align_next v (2 ^ k) - v = of_nat (2 ^ k - unat v mod 2 ^ k)"
    by (simp only: of_nat_add of_nat_unat ucast_id) (simp only: add_diff_cancel_left')
  moreover have "2 ^ k - unat v mod 2 ^ k < (2 :: nat) ^ 64"
  proof -
    have "(2 :: nat) ^ k \<le> 2 ^ 30" using k by (intro power_increasing) auto
    then show ?thesis by simp
  qed
  ultimately have "unat (uu_align_next v (2 ^ k) - v) = 2 ^ k - unat v mod 2 ^ k"
    by (simp only: unat_of_nat take_bit_eq_mod len_u64 mod_less)
  then show ?thesis using that [of k] k by simp
qed

lemma chunk:
  assumes w: "walk v = (VM_DONE, w)" and i: "i < unat (uu_align_next v (wlk_size w) - v)"
  shows "\<exists>w'. walk (v + of_nat i) = (VM_DONE, w') \<and> wlk_addr w' = wlk_addr w + of_nat i
    \<and> wlk_size w' = wlk_size w \<and> wlk_u w' = wlk_u w \<and> wlk_w w' = wlk_w w"
proof -
  obtain k where k: "wlk_size w = 2 ^ k" "k \<le> 30"
    "unat (uu_align_next v (wlk_size w) - v) = 2 ^ k - unat v mod 2 ^ k"
    using room [OF w] .
  have al: "uu_align (v + of_nat i) (wlk_size w) = uu_align v (wlk_size w)"
    and low: "(v + of_nat i) AND (wlk_size w - 1) = (v AND (wlk_size w - 1)) + of_nat i"
    unfolding k(1) using add_in_page [where k = k and v = v and i = i] i k(2,3) by simp_all
  from page [OF w al] low show ?thesis by (auto simp: wlk_same_page_def wlk_base_def)
qed

lemma chunk_no_wrap:
  assumes w: "walk v = (VM_DONE, w)" and i: "i < unat (uu_align_next v (wlk_size w) - v)"
  shows "unat (wlk_addr w + of_nat i) = unat (wlk_addr w) + i"
proof -
  obtain k where k: "wlk_size w = 2 ^ k" "k \<le> 30"
    "unat (uu_align_next v (wlk_size w) - v) = 2 ^ k - unat v mod 2 ^ k"
    using room [OF w] .
  have "unat (wlk_addr w) mod 2 ^ k = unat v mod 2 ^ k"
    using offset [OF w] unfolding wlk_offset_ok_def k and_pow2_minus_1 by (metis unat_take_bit_mod)
  then show ?thesis using add_in_page(1) [where k = k and v = "wlk_addr w" and i = i] i k by simp
qed

lemma small_offset:
  assumes w: "walk v = (VM_DONE, w)"
  shows "unat (wlk_addr w) mod 4096 = unat v mod 4096"
proof -
  obtain k where k: "wlk_size w = 2 ^ k" "12 \<le> k" using size [OF w] by blast
  have "unat (wlk_addr w) mod 2 ^ k mod 4096 = unat v mod 2 ^ k mod 4096"
    using offset [OF w] unfolding wlk_offset_ok_def k and_pow2_minus_1 by (metis unat_take_bit_mod)
  moreover have "(4096 :: nat) dvd 2 ^ k" using le_imp_power_dvd [OF k(2), of "2 :: nat"] by simp
  ultimately show ?thesis by (simp add: mod_mod_cancel)
qed

end

interpretation guest_walk: page_walk "\<lambda>v. uu_pg_walk s cr3 v wlk" for s cr3 wlk
  by unfold_locales (rule pg_walk_size, assumption, rule pg_walk_offset, assumption, rule pg_walk_page)

section \<open>Properties\<close>

text \<open>With a protected area of whole pages, the walk of 64-bit and of 32-bit page tables
  reads nothing inside it: changing the contents of the area changes neither the outcome of
  a walk nor the translation.\<close>

theorem pg_walk_ignores_area:
  assumes "area_aligned s" and "outside s m" and "efer_lma s \<or> \<not> cr4_pae s"
  shows "uu_pg_walk (s\<lparr>vm_mem := m\<rparr>) cr3 vaddr wlk = uu_pg_walk s cr3 vaddr wlk"
proof -
  note tbl = rd_table [OF assms(1,2)]
  have l: "uu_pg_walk_lmode (s\<lparr>vm_mem := m\<rparr>) cr3 vaddr wlk = uu_pg_walk_lmode s cr3 vaddr wlk"
    by (simp add: uu_pg_walk_lmode_def Let_def tbl idx_less cong: if_cong)
  obtain k1 k2 where k: "pd32_idx (ucast (vaddr AND 0xffffffff)) = of_nat k1" "k1 < 1024"
    "pt32_idx (ucast (vaddr AND 0xffffffff)) = of_nat k2" "k2 < 1024"
    using idx32 by metis
  have p: "uu_pg_walk_pmode (s\<lparr>vm_mem := m\<rparr>) cr3 vaddr wlk = uu_pg_walk_pmode s cr3 vaddr wlk"
    unfolding uu_pg_walk_pmode_def Let_def k by (simp add: tbl k cong: if_cong)
  from l p assms(3) show ?thesis by (auto simp: uu_pg_walk_def)
qed

text \<open>Four tables at 4K to 16K that map the linear pages 1 and 2 to the frames 5 and 9, the second
  one read only and for the supervisor, and the hypervisor at 64K.\<close>

definition ex_mem :: "offset_t \<Rightarrow> u8" where
  "ex_mem a = (if a \<in> {0x1000, 0x2000, 0x3000, 0x4008} then 7 else if a = 0x4010 then 1
     else if a = 0x1001 then 0x20 else if a = 0x2001 then 0x30 else if a = 0x3001 then 0x40
     else if a = 0x4009 then 0x50 else if a = 0x4011 then 0x90
     else if a = 0x5fff then 0xaa else if a = 0x9000 then 0xbb else 0)"

definition walk_ex :: vm_state where
  "walk_ex = \<lparr>vm_mem = ex_mem, area_start = 0x10000, area_end = 0x20000, efer_lma = True, efer_nxe = False,
     cr0_pg = True, cr4_pae = True, cr4_pse = True, vmm_pg_1G = False, vm_cpl = 0, vm_cr3 = 0x1000\<rparr>"

theorem pg_walk_ignores_area_witness:
  "uu_pg_walk (walk_ex\<lparr>vm_mem := ex_mem(0x10000 := 0xff)\<rparr>) 0x1000 0x1234 wlk_any
     = uu_pg_walk walk_ex 0x1000 0x1234 wlk_any
   \<and> vm_mem walk_ex 0x10000 \<noteq> 0xff"
proof -
  have "area_aligned walk_ex" by (simp add: area_aligned_def walk_ex_def uu_aligned_def PAGE_SIZE_def)
  moreover have "outside walk_ex (ex_mem(0x10000 := 0xff))"
    by (auto simp: outside_def walk_ex_def vmm_area_def uu_range_exc_def)
  moreover have "efer_lma walk_ex \<or> \<not> cr4_pae walk_ex" by (simp add: walk_ex_def)
  ultimately show ?thesis using pg_walk_ignores_area [of walk_ex "ex_mem(0x10000 := 0xff)"]
    by (simp add: walk_ex_def ex_mem_def)
qed

end
