(* ===== verification/Vm_Access.thy ===== *)
theory Vm_Access
  imports Mmu_Walk
begin

text \<open>
  The accesses of the hypervisor to the memory of the guest, \<^verbatim>\<open>vmm/src/core/vm.c\<close>, with the
  processor modes of \<^verbatim>\<open>include/cpu_modes.h\<close> and the injection of an exception,
  \<^verbatim>\<open>vmm/src/vmx/vmx_exit_excp.c\<close>. An access carries its own buffer: a read fills it from the
  index \<^verbatim>\<open>done\<close> on, a write takes it from there. A remote access exchanges the bytes with the
  remote client instead; the bytes received come in the chunks that \<^verbatim>\<open>ctrl_io_read\<close> returns,
  and a receive whose source dries up never returns, \<^verbatim>\<open>None\<close> here. The hook
  \<^verbatim>\<open>ctrl_evt_sysmem\<close> answers \<^verbatim>\<open>VM_IGNORE\<close> in every configuration, so it has no effect.
\<close>

section \<open>State\<close>

record vm_evt =
  evt_v :: bool
  evt_type :: u8
  evt_vector :: u8
  evt_dec :: bool

record vm_cpu = vm_state +
  cr0_pe :: bool
  rflags_vm :: bool
  cs_l :: bool
  cs_d :: bool
  cs_base :: u64
  ss_base :: u64
  vm_rsp :: u64
  vm_rip :: u64
  vm_evt :: vm_evt
  vm_err_code :: u32
  vm_cr2 :: u64
  io_in :: "bytes list"
  io_out :: bytes

definition u_xx_pmode32 :: "'a vm_cpu_scheme \<Rightarrow> bool" where
  "u_xx_pmode32 s = (cr0_pe s \<and> \<not> rflags_vm s \<and> cs_d s)"

definition uu_rmode :: "'a vm_cpu_scheme \<Rightarrow> bool" where
  "uu_rmode s = (\<not> efer_lma s \<and> \<not> cr0_pe s)"

definition cpu_addr_sz :: "'a vm_cpu_scheme \<Rightarrow> nat" where
  "cpu_addr_sz s =
     (if efer_lma s then (if cs_l s then 64 else if cs_d s then 32 else 16)
      else if u_xx_pmode32 s then 32
      else 16)"

definition uu_paged64 :: "'a vm_cpu_scheme \<Rightarrow> bool" where
  "uu_paged64 s = (cr0_pg s \<and> cr4_pae s \<and> efer_lma s)"

definition canonical_linear :: "'a vm_cpu_scheme \<Rightarrow> offset_t \<Rightarrow> bool" where
  "canonical_linear s addr =
     (let lmt = push_bit 47 1 - 1 in \<not> uu_paged64 s \<or> addr \<le> lmt \<or> addr \<ge> NOT lmt)"

section \<open>Instruction and stack addresses\<close>

definition uu_vm_resolve_seg_offset ::
    "offset_t \<Rightarrow> offset_t \<Rightarrow> offset_t \<Rightarrow> 'a vm_cpu_scheme \<Rightarrow> offset_t \<times> nat" where
  "uu_vm_resolve_seg_offset base offset addend s =
     (let mode = cpu_addr_sz s
      in if mode = 64 then (offset + addend, mode)
         else if mode = 32
           then ((base AND 0xffffffff) + ((offset AND 0xffffffff) + (addend AND 0xffffffff)), mode)
           else ((base AND 0xffffffff) + ((offset AND 0xffff) + (addend AND 0xffff)), mode))"

definition vm_get_code_addr :: "offset_t \<Rightarrow> 'a vm_cpu_scheme \<Rightarrow> offset_t \<times> nat" where
  "vm_get_code_addr addend s = uu_vm_resolve_seg_offset (cs_base s) (vm_rip s) addend s"

definition vm_get_stack_addr :: "offset_t \<Rightarrow> 'a vm_cpu_scheme \<Rightarrow> offset_t \<times> nat" where
  "vm_get_stack_addr addend s = uu_vm_resolve_seg_offset (ss_base s) (vm_rsp s) addend s"

text \<open>The fields \<^verbatim>\<open>low\<close> and \<^verbatim>\<open>wlow\<close> of \<^verbatim>\<open>raw64_t\<close> are the low 32 and 16 bits.\<close>

definition vm_update_rip :: "offset_t \<Rightarrow> 'a vm_cpu_scheme \<Rightarrow> 'a vm_cpu_scheme" where
  "vm_update_rip offset s =
     (let mode = cpu_addr_sz s; rip = vm_rip s
      in if mode = 64 then s\<lparr>vm_rip := rip + offset\<rparr>
         else if mode = 32 then s\<lparr>vm_rip := set_field 0 32 (ucast (ucast rip + ucast offset :: u32)) rip\<rparr>
         else s\<lparr>vm_rip := set_field 0 16 (ucast (ucast rip + ucast offset :: u16)) rip\<rparr>)"

definition vm_rewind_rip :: "offset_t \<Rightarrow> 'a vm_cpu_scheme \<Rightarrow> 'a vm_cpu_scheme" where
  "vm_rewind_rip offset s =
     (let mode = cpu_addr_sz s; rip = vm_rip s
      in if mode = 64 then s\<lparr>vm_rip := rip - offset\<rparr>
         else if mode = 32 then s\<lparr>vm_rip := set_field 0 32 (ucast (ucast rip - ucast offset :: u32)) rip\<rparr>
         else s\<lparr>vm_rip := set_field 0 16 (ucast (ucast rip - ucast offset :: u16)) rip\<rparr>)"

section \<open>Injecting an exception\<close>

definition VMCS_EVT_INFO_TYPE_HW_EXCP :: u8 where
  "VMCS_EVT_INFO_TYPE_HW_EXCP = 3"

definition UD_EXCP :: u32 where "UD_EXCP = 6"
definition DF_EXCP :: u32 where "DF_EXCP = 8"
definition TS_EXCP :: u32 where "TS_EXCP = 10"
definition NP_EXCP :: u32 where "NP_EXCP = 11"
definition SS_EXCP :: u32 where "SS_EXCP = 12"
definition GP_EXCP :: u32 where "GP_EXCP = 13"
definition PF_EXCP :: u32 where "PF_EXCP = 14"
definition AC_EXCP :: u32 where "AC_EXCP = 17"

lemmas excp_defs = UD_EXCP_def DF_EXCP_def TS_EXCP_def NP_EXCP_def SS_EXCP_def GP_EXCP_def
  PF_EXCP_def AC_EXCP_def

definition uu_vmx_prepare_event_injection :: "u8 \<Rightarrow> u8 \<Rightarrow> vm_evt" where
  "uu_vmx_prepare_event_injection type vector =
     \<lparr>evt_v = True, evt_type = type, evt_vector = vector, evt_dec = False\<rparr>"

definition uu_vmx_vmexit_inject_exception ::
    "u32 \<Rightarrow> u32 \<Rightarrow> u64 \<Rightarrow> 'a vm_cpu_scheme \<Rightarrow> 'a vm_cpu_scheme" where
  "uu_vmx_vmexit_inject_exception vector error cr2 s =
     (let ev = uu_vmx_prepare_event_injection VMCS_EVT_INFO_TYPE_HW_EXCP (ucast vector);
          s1 = s\<lparr>vm_evt := ev\<rparr>;
          s2 = (if vector = PF_EXCP then s1\<lparr>vm_cr2 := cr2\<rparr> else s1)
      in if vector \<in> {PF_EXCP, DF_EXCP, TS_EXCP, NP_EXCP, SS_EXCP, GP_EXCP, AC_EXCP}
         then s2\<lparr>vm_evt := ev\<lparr>evt_dec := True\<rparr>, vm_err_code := error\<rparr>
         else s2)"

section \<open>Accesses\<close>

datatype vm_acc_rq = VM_ACC_REQ_VMM | VM_ACC_REQ_VM

record vm_access =
  acc_cr3 :: u64
  acc_addr :: offset_t
  acc_data :: bytes
  acc_len :: size_t
  acc_done :: nat
  acc_wr :: bool
  acc_rq :: vm_acc_rq
  acc_remote :: bool

definition mem_read :: "(offset_t \<Rightarrow> u8) \<Rightarrow> offset_t \<Rightarrow> nat \<Rightarrow> bytes" where
  "mem_read m a n = map (\<lambda>i. m (a + of_nat i)) [0..<n]"

definition mem_write :: "(offset_t \<Rightarrow> u8) \<Rightarrow> offset_t \<Rightarrow> bytes \<Rightarrow> offset_t \<Rightarrow> u8" where
  "mem_write m a bs = (\<lambda>x. if unat (x - a) < length bs then bs ! unat (x - a) else m x)"

definition uu_vm_access_local_operator ::
    "vm_access \<Rightarrow> 'a vm_cpu_scheme \<Rightarrow> vmerr \<times> vm_access \<times> 'a vm_cpu_scheme" where
  "uu_vm_access_local_operator access s =
     (let n = unat (acc_len access); k = acc_done access; data = acc_data access
      in if acc_wr access
         then (VM_DONE, access\<lparr>acc_done := k + n\<rparr>,
               s\<lparr>vm_mem := mem_write (vm_mem s) (acc_addr access) (take n (drop k data))\<rparr>)
         else (VM_DONE, access\<lparr>acc_data := take k data @ mem_read (vm_mem s) (acc_addr access) n @ drop (k + n) data,
                               acc_done := k + n\<rparr>, s))"

text \<open>The receive loop: the bytes received and the chunks left.\<close>

fun vm_recv_loop :: "nat \<Rightarrow> bytes list \<Rightarrow> (bytes \<times> bytes list) option" where
  "vm_recv_loop n cs =
     (if n = 0 then Some ([], cs)
      else case cs of
        [] \<Rightarrow> None
      | c # cs' \<Rightarrow>
          (if length c \<le> n
           then map_option (\<lambda>(bs, r). (c @ bs, r)) (vm_recv_loop (n - length c) cs')
           else Some (take n c, drop n c # cs')))"

declare vm_recv_loop.simps [simp del]

definition uu_vm_access_remote_operator ::
    "vm_access \<Rightarrow> 'a vm_cpu_scheme \<Rightarrow> (vmerr \<times> vm_access \<times> 'a vm_cpu_scheme) option" where
  "uu_vm_access_remote_operator access s =
     (let n = unat (acc_len access); a = acc_addr access; access' = access\<lparr>acc_done := acc_done access + n\<rparr>
      in if \<not> acc_wr access
         then Some (VM_DONE, access', s\<lparr>io_out := io_out s @ mem_read (vm_mem s) a n\<rparr>)
         else map_option (\<lambda>(bs, cs). (VM_DONE, access', s\<lparr>vm_mem := mem_write (vm_mem s) a bs, io_in := cs\<rparr>))
                (vm_recv_loop n (io_in s)))"

definition uu_vm_access_system_identity ::
    "vm_access \<Rightarrow> 'a vm_cpu_scheme \<Rightarrow> (vmerr \<times> vm_access \<times> 'a vm_cpu_scheme) option" where
  "uu_vm_access_system_identity access s =
     (if vmm_area_range s (acc_addr access) (acc_len access) then Some (VM_FAIL, access, s)
      else if acc_remote access then uu_vm_access_remote_operator access s
      else Some (uu_vm_access_local_operator access s))"

definition uu_vm_access_physical ::
    "vm_access \<Rightarrow> 'a vm_cpu_scheme \<Rightarrow> (vmerr \<times> vm_access \<times> 'a vm_cpu_scheme) option" where
  "uu_vm_access_physical access s =
     (if acc_len access = 0 then Some (VM_DONE, access, s) else uu_vm_access_system_identity access s)"

text \<open>The error code of a page fault has the write bit and the user bit.\<close>

definition pf_err :: "bool \<Rightarrow> bool \<Rightarrow> u32" where
  "pf_err wr us = push_bit 1 (of_bool wr) OR push_bit 2 (of_bool us)"

definition vm_access_pf :: "vm_access \<Rightarrow> offset_t \<Rightarrow> 'a vm_cpu_scheme \<Rightarrow> 'a vm_cpu_scheme" where
  "vm_access_pf access vaddr s =
     uu_vmx_vmexit_inject_exception PF_EXCP (pf_err (acc_wr access) (vm_cpl s = 3)) vaddr s"

definition uu_vm_access_validate ::
    "vm_access \<Rightarrow> offset_t \<Rightarrow> offset_t pg_wlk \<Rightarrow> 'a vm_cpu_scheme \<Rightarrow> vmerr \<times> offset_t pg_wlk \<times> 'a vm_cpu_scheme" where
  "uu_vm_access_validate access vaddr wlk0 s =
     (let (rc, wlk) = uu_pg_walk s (acc_cr3 access) vaddr wlk0
      in if rc = VM_FAIL then (rc, wlk, s)
         else if rc = VM_FAULT
           then (if acc_rq access = VM_ACC_REQ_VMM then (VM_PARTIAL, wlk, s)
                 else (VM_FAULT, wlk, vm_access_pf access vaddr s))
         else if acc_rq access = VM_ACC_REQ_VMM then (rc, wlk, s)
         else if acc_wr access \<and> wlk_w wlk = 0 then (VM_FAULT, wlk, vm_access_pf access vaddr s)
         else if vm_cpl s = 3 \<and> wlk_u wlk = 0 then (VM_FAULT, wlk, vm_access_pf access vaddr s)
         else (VM_DONE, wlk, s))"

text \<open>A validated address has a translation, and the walk reports a page of at least 4K, so
  every turn of the loop moves forward.\<close>

lemma wlk_rcI:
  "fst y \<in> {VM_FAIL, VM_FAULT, VM_DONE} \<Longrightarrow> fst (if c then (VM_FAIL, x) else y) \<in> {VM_FAIL, VM_FAULT, VM_DONE}"
  "fst y \<in> {VM_FAIL, VM_FAULT, VM_DONE} \<Longrightarrow> fst (if c then wlk_fault t e x else y) \<in> {VM_FAIL, VM_FAULT, VM_DONE}"
  "fst y \<in> {VM_FAIL, VM_FAULT, VM_DONE} \<Longrightarrow> fst (if c then wlk_done t e a n x else y) \<in> {VM_FAIL, VM_FAULT, VM_DONE}"
  "fst (wlk_done t e a n x) \<in> {VM_FAIL, VM_FAULT, VM_DONE}"
  by (auto simp: wlk_fault_def wlk_done_def)

lemma pg_walk_rc: "fst (uu_pg_walk s cr3 v wlk) \<in> {VM_FAIL, VM_FAULT, VM_DONE}"
proof -
  have "fst (uu_pg_walk_lmode s cr3 v wlk) \<in> {VM_FAIL, VM_FAULT, VM_DONE}"
    unfolding uu_pg_walk_lmode_def Let_def by (intro wlk_rcI)
  moreover have "fst (uu_pg_walk_pmode_pae s cr3 v wlk) \<in> {VM_FAIL, VM_FAULT, VM_DONE}"
    unfolding uu_pg_walk_pmode_pae_def Let_def by (intro wlk_rcI)
  moreover have "fst (uu_pg_walk_pmode s cr3 v wlk) \<in> {VM_FAIL, VM_FAULT, VM_DONE}"
    unfolding uu_pg_walk_pmode_def Let_def by (intro wlk_rcI)
  ultimately show ?thesis unfolding uu_pg_walk_def by (cases "efer_lma s"; cases "cr4_pae s") simp_all
qed

lemma validate_done:
  assumes "uu_vm_access_validate access v wlk0 s = (VM_DONE, wlk, s')"
  shows "s' = s \<and> uu_pg_walk s (acc_cr3 access) v wlk0 = (VM_DONE, wlk)"
proof -
  obtain rc w where p: "uu_pg_walk s (acc_cr3 access) v wlk0 = (rc, w)" by (cases "uu_pg_walk s (acc_cr3 access) v wlk0")
  then have "rc \<in> {VM_FAIL, VM_FAULT, VM_DONE}" using pg_walk_rc [of s "acc_cr3 access" v wlk0] by simp
  then show ?thesis using assms p
    by (auto simp: uu_vm_access_validate_def Let_def vmerr_defs split: if_splits)
qed

lemma min_progress:
  fixes len d :: u64
  assumes "len \<noteq> 0" and "d \<noteq> 0"
  shows "unat (len - min len d) < unat len"
proof -
  have "unat (len - min len d) = unat len - unat (min len d)" by (intro unat_sub) simp
  moreover have "0 < unat (min len d)" using assms by (simp add: min_def unat_gt_0)
  moreover have "0 < unat len" using assms by (simp add: unat_gt_0)
  ultimately show ?thesis by simp
qed

lemma walk_progress:
  assumes "uu_pg_walk s cr3 v wlk0 = (VM_DONE, wlk)" and "len \<noteq> 0"
  shows "unat (len - min len (uu_align_next v (wlk_size wlk) - v)) < unat len"
proof -
  obtain k where "unat (uu_align_next v (wlk_size wlk) - v) = 2 ^ k - unat v mod 2 ^ k"
    using guest_walk.room [OF assms(1)] .
  then have "unat (uu_align_next v (wlk_size wlk) - v) \<noteq> 0" by (simp add: not_le)
  then have "uu_align_next v (wlk_size wlk) - v \<noteq> 0" by (metis unsigned_0)
  then show ?thesis by (rule min_progress [OF assms(2)])
qed

function vm_access_loop ::
    "vm_access \<Rightarrow> offset_t \<Rightarrow> size_t \<Rightarrow> offset_t pg_wlk \<Rightarrow> 'a vm_cpu_scheme
     \<Rightarrow> (vmerr \<times> vm_access \<times> 'a vm_cpu_scheme) option" where
  "vm_access_loop access vaddr len wlk0 s =
     (if len = 0 then Some (VM_DONE, access, s)
      else case uu_vm_access_validate access vaddr wlk0 s of
        (rc, wlk, s1) \<Rightarrow>
          (if rc \<noteq> VM_DONE then Some (rc, access, s1)
           else let nxt = uu_align_next vaddr (wlk_size wlk);
                    n = min len (nxt - vaddr)
                in case uu_vm_access_physical (access\<lparr>acc_addr := wlk_addr wlk, acc_len := n\<rparr>) s1 of
                     None \<Rightarrow> None
                   | Some (rc2, access2, s2) \<Rightarrow>
                       (if rc2 \<noteq> VM_DONE then Some (rc2, access2, s2)
                        else vm_access_loop access2 nxt (len - n) wlk s2)))"
  by pat_completeness auto
termination
proof (relation "measure (\<lambda>(access, vaddr, len, wlk0, s). unat len)", goal_cases)
  case 1
  show ?case by simp
next
  case (2 access vaddr len wlk0 s rc y wlk s1)
  from 2(2-4) have "uu_vm_access_validate access vaddr wlk0 s = (VM_DONE, wlk, s1)" by simp
  then have "uu_pg_walk s (acc_cr3 access) vaddr wlk0 = (VM_DONE, wlk)" by (simp add: validate_done)
  from walk_progress [OF this 2(1)] show ?case unfolding 2 by simp
qed

declare vm_access_loop.simps [simp del]

definition uu_vm_access_virtual ::
    "vm_access \<Rightarrow> 'a vm_cpu_scheme \<Rightarrow> (vmerr \<times> vm_access \<times> 'a vm_cpu_scheme) option" where
  "uu_vm_access_virtual access s =
     (if \<not> cr0_pg s then uu_vm_access_physical access s
      else vm_access_loop access (acc_addr access) (acc_len access) wlk_any s)"

definition uu_vm_access_linear ::
    "vm_access \<Rightarrow> 'a vm_cpu_scheme \<Rightarrow> (vmerr \<times> vm_access \<times> 'a vm_cpu_scheme) option" where
  "uu_vm_access_linear = uu_vm_access_virtual"

definition uu_vm_access_setup ::
    "u64 \<Rightarrow> offset_t \<Rightarrow> bytes \<Rightarrow> size_t \<Rightarrow> bool \<Rightarrow> vm_acc_rq \<Rightarrow> bool \<Rightarrow> vm_access" where
  "uu_vm_access_setup cr3 addr data len wr rq rm =
     \<lparr>acc_cr3 = cr3, acc_addr = addr, acc_data = data, acc_len = len, acc_done = 0,
      acc_wr = wr, acc_rq = rq, acc_remote = rm\<rparr>"

text \<open>The services. A read returns the buffer; physical accesses carry no \<^verbatim>\<open>cr3\<close>.\<close>

definition acc_state :: "(vmerr \<times> vm_access \<times> 's) option \<Rightarrow> (vmerr \<times> 's) option" where
  "acc_state = map_option (\<lambda>(rc, access, s). (rc, s))"

definition acc_bytes :: "(vmerr \<times> vm_access \<times> 's) option \<Rightarrow> (vmerr \<times> bytes \<times> 's) option" where
  "acc_bytes = map_option (\<lambda>(rc, access, s). (rc, acc_data access, s))"

definition uu_vm_send_pmem :: "offset_t \<Rightarrow> size_t \<Rightarrow> 'a vm_cpu_scheme \<Rightarrow> (vmerr \<times> 'a vm_cpu_scheme) option" where
  "uu_vm_send_pmem paddr len s =
     acc_state (uu_vm_access_physical (uu_vm_access_setup 0 paddr [] len False VM_ACC_REQ_VMM True) s)"

definition uu_vm_recv_pmem :: "offset_t \<Rightarrow> size_t \<Rightarrow> 'a vm_cpu_scheme \<Rightarrow> (vmerr \<times> 'a vm_cpu_scheme) option" where
  "uu_vm_recv_pmem paddr len s =
     acc_state (uu_vm_access_physical (uu_vm_access_setup 0 paddr [] len True VM_ACC_REQ_VMM True) s)"

definition uu_vm_read_pmem ::
    "offset_t \<Rightarrow> bytes \<Rightarrow> size_t \<Rightarrow> 'a vm_cpu_scheme \<Rightarrow> (vmerr \<times> bytes \<times> 'a vm_cpu_scheme) option" where
  "uu_vm_read_pmem paddr data len s =
     acc_bytes (uu_vm_access_physical (uu_vm_access_setup 0 paddr data len False VM_ACC_REQ_VMM False) s)"

definition uu_vm_write_pmem ::
    "offset_t \<Rightarrow> bytes \<Rightarrow> size_t \<Rightarrow> 'a vm_cpu_scheme \<Rightarrow> (vmerr \<times> 'a vm_cpu_scheme) option" where
  "uu_vm_write_pmem paddr data len s =
     acc_state (uu_vm_access_physical (uu_vm_access_setup 0 paddr data len True VM_ACC_REQ_VMM False) s)"

definition uu_vm_send_vmem ::
    "u64 \<Rightarrow> offset_t \<Rightarrow> size_t \<Rightarrow> 'a vm_cpu_scheme \<Rightarrow> (vmerr \<times> 'a vm_cpu_scheme) option" where
  "uu_vm_send_vmem cr3 vaddr len s =
     acc_state (uu_vm_access_virtual (uu_vm_access_setup cr3 vaddr [] len False VM_ACC_REQ_VMM True) s)"

definition uu_vm_recv_vmem ::
    "u64 \<Rightarrow> offset_t \<Rightarrow> size_t \<Rightarrow> 'a vm_cpu_scheme \<Rightarrow> (vmerr \<times> 'a vm_cpu_scheme) option" where
  "uu_vm_recv_vmem cr3 vaddr len s =
     acc_state (uu_vm_access_virtual (uu_vm_access_setup cr3 vaddr [] len True VM_ACC_REQ_VMM True) s)"

definition uu_vm_read_vmem ::
    "u64 \<Rightarrow> offset_t \<Rightarrow> bytes \<Rightarrow> size_t \<Rightarrow> 'a vm_cpu_scheme \<Rightarrow> (vmerr \<times> bytes \<times> 'a vm_cpu_scheme) option" where
  "uu_vm_read_vmem cr3 vaddr data len s =
     acc_bytes (uu_vm_access_virtual (uu_vm_access_setup cr3 vaddr data len False VM_ACC_REQ_VMM False) s)"

definition uu_vm_write_vmem ::
    "u64 \<Rightarrow> offset_t \<Rightarrow> bytes \<Rightarrow> size_t \<Rightarrow> 'a vm_cpu_scheme \<Rightarrow> (vmerr \<times> 'a vm_cpu_scheme) option" where
  "uu_vm_write_vmem cr3 vaddr data len s =
     acc_state (uu_vm_access_virtual (uu_vm_access_setup cr3 vaddr data len True VM_ACC_REQ_VMM False) s)"

definition uu_vm_read_mem ::
    "u64 \<Rightarrow> offset_t \<Rightarrow> bytes \<Rightarrow> size_t \<Rightarrow> 'a vm_cpu_scheme \<Rightarrow> (vmerr \<times> bytes \<times> 'a vm_cpu_scheme) option" where
  "uu_vm_read_mem cr3 vaddr data len s =
     acc_bytes (uu_vm_access_linear (uu_vm_access_setup cr3 vaddr data len False VM_ACC_REQ_VMM False) s)"

definition uu_vm_write_mem ::
    "u64 \<Rightarrow> offset_t \<Rightarrow> bytes \<Rightarrow> size_t \<Rightarrow> 'a vm_cpu_scheme \<Rightarrow> (vmerr \<times> 'a vm_cpu_scheme) option" where
  "uu_vm_write_mem cr3 vaddr data len s =
     acc_state (uu_vm_access_linear (uu_vm_access_setup cr3 vaddr data len True VM_ACC_REQ_VMM False) s)"

definition vm_read_mem_sz ::
    "offset_t \<Rightarrow> bytes \<Rightarrow> size_t \<Rightarrow> 'a vm_cpu_scheme \<Rightarrow> (vmerr \<times> bytes \<times> nat \<times> 'a vm_cpu_scheme) option" where
  "vm_read_mem_sz vaddr data len s =
     map_option (\<lambda>(rc, access, s'). (rc, acc_data access, acc_done access, s'))
       (uu_vm_access_linear (uu_vm_access_setup (vm_cr3 s) vaddr data len False VM_ACC_REQ_VM False) s)"

definition vm_write_mem_sz ::
    "offset_t \<Rightarrow> bytes \<Rightarrow> size_t \<Rightarrow> 'a vm_cpu_scheme \<Rightarrow> (vmerr \<times> nat \<times> 'a vm_cpu_scheme) option" where
  "vm_write_mem_sz vaddr data len s =
     map_option (\<lambda>(rc, access, s'). (rc, acc_done access, s'))
       (uu_vm_access_linear (uu_vm_access_setup (vm_cr3 s) vaddr data len True VM_ACC_REQ_VM False) s)"

definition vm_read_mem ::
    "offset_t \<Rightarrow> bytes \<Rightarrow> size_t \<Rightarrow> 'a vm_cpu_scheme \<Rightarrow> (vmerr \<times> bytes \<times> 'a vm_cpu_scheme) option" where
  "vm_read_mem vaddr data len s =
     acc_bytes (uu_vm_access_linear (uu_vm_access_setup (vm_cr3 s) vaddr data len False VM_ACC_REQ_VM False) s)"

definition vm_write_mem ::
    "offset_t \<Rightarrow> bytes \<Rightarrow> size_t \<Rightarrow> 'a vm_cpu_scheme \<Rightarrow> (vmerr \<times> 'a vm_cpu_scheme) option" where
  "vm_write_mem vaddr data len s =
     acc_state (uu_vm_access_linear (uu_vm_access_setup (vm_cr3 s) vaddr data len True VM_ACC_REQ_VM False) s)"

text \<open>\<^verbatim>\<open>pg_walk\<close> is the walk from the guest's own \<^verbatim>\<open>cr3\<close>.\<close>

definition vm_pg_walk :: "offset_t \<Rightarrow> offset_t pg_wlk \<Rightarrow> 'a vm_cpu_scheme \<Rightarrow> vmerr \<times> offset_t pg_wlk" where
  "vm_pg_walk vaddr wlk s = (if \<not> cr0_pg s then (VM_FAIL, wlk) else uu_pg_walk s (vm_cr3 s) vaddr wlk)"

section \<open>Reads\<close>

definition translate :: "'a vm_state_scheme \<Rightarrow> u64 \<Rightarrow> offset_t \<Rightarrow> offset_t option" where
  "translate s cr3 v = (case uu_pg_walk s cr3 v wlk_any of
     (rc, w) \<Rightarrow> if rc = VM_DONE then Some (wlk_addr w) else None)"

lemma lmode_any: "uu_pg_walk_lmode s cr3 v wlk = (VM_DONE, w) \<longleftrightarrow> uu_pg_walk_lmode s cr3 v wlk' = (VM_DONE, w)"
  unfolding uu_pg_walk_lmode_def Let_def wlk_steps wlk_done_iff
  by (cases wlk; cases wlk') (simp only: pg_wlk_and_def wlk_clear_def pg_wlk.simps)

lemma pae_any: "uu_pg_walk_pmode_pae s cr3 v wlk = (VM_DONE, w) \<longleftrightarrow> uu_pg_walk_pmode_pae s cr3 v wlk' = (VM_DONE, w)"
  unfolding uu_pg_walk_pmode_pae_def Let_def wlk_steps wlk_done_iff
  by (cases wlk; cases wlk') (simp only: pg_wlk_and_def wlk_clear_def pg_wlk.simps)

lemma pmode_any: "uu_pg_walk_pmode s cr3 v wlk = (VM_DONE, w) \<longleftrightarrow> uu_pg_walk_pmode s cr3 v wlk' = (VM_DONE, w)"
  unfolding uu_pg_walk_pmode_def Let_def wlk_steps wlk_done_iff
  by (cases wlk; cases wlk') (simp only: wlk_clear_def pg_wlk.simps)

lemma pg_walk_any: "uu_pg_walk s cr3 v wlk = (VM_DONE, w) \<longleftrightarrow> uu_pg_walk s cr3 v wlk' = (VM_DONE, w)"
  unfolding uu_pg_walk_def using lmode_any pae_any pmode_any by (cases "efer_lma s"; cases "cr4_pae s") simp_all

lemma translate_walk: "uu_pg_walk s cr3 v wlk = (VM_DONE, w) \<Longrightarrow> translate s cr3 v = Some (wlk_addr w)"
  by (simp add: translate_def pg_walk_any [of s cr3 v wlk w wlk_any])

lemma translate_None: "uu_pg_walk s cr3 v wlk = (rc, w) \<Longrightarrow> rc \<noteq> VM_DONE \<Longrightarrow> translate s cr3 v = None"
  using pg_walk_any [of s cr3 v wlk_any _ wlk] by (auto simp: translate_def split: prod.split)

text \<open>What a read that starts with \<open>k\<close> bytes done has done at the end: \<open>n\<close> more bytes, each the
  byte at the translation of its own address; the \<open>n\<close>-th address is the one that faulted.\<close>

definition read_upto ::
    "'a vm_cpu_scheme \<Rightarrow> u64 \<Rightarrow> offset_t \<Rightarrow> nat \<Rightarrow> nat \<Rightarrow> bytes \<Rightarrow> bytes \<Rightarrow> bool" where
  "read_upto s cr3 v k n data data' =
     (length data' = length data \<and> take k data' = take k data
      \<and> (\<forall>i<n. \<exists>p. translate s cr3 (v + of_nat i) = Some p \<and> data' ! (k + i) = vm_mem s p))"

lemma read_upto_step:
  assumes w: "uu_pg_walk s cr3 v wlk0 = (VM_DONE, w)" and n1: "n1 \<le> unat (uu_align_next v (wlk_size w) - v)"
    and len: "k + n1 \<le> length data"
  shows "read_upto s cr3 v k n1 data (take k data @ mem_read (vm_mem s) (wlk_addr w) n1 @ drop (k + n1) data)"
proof -
  have "\<exists>p. translate s cr3 (v + of_nat i) = Some p \<and>
     (take k data @ mem_read (vm_mem s) (wlk_addr w) n1 @ drop (k + n1) data) ! (k + i) = vm_mem s p" if i: "i < n1" for i
  proof -
    obtain w' where "uu_pg_walk s cr3 (v + of_nat i) wlk0 = (VM_DONE, w')" "wlk_addr w' = wlk_addr w + of_nat i"
      using guest_walk.chunk [OF w less_le_trans [OF i n1]] by blast
    then have "translate s cr3 (v + of_nat i) = Some (wlk_addr w + of_nat i)" using translate_walk by fastforce
    then show ?thesis using i len by (auto simp: nth_append mem_read_def min_def)
  qed
  then show ?thesis using len by (auto simp: read_upto_def mem_read_def min_def)
qed

lemma read_upto_append:
  assumes "read_upto s cr3 v k n1 data data1" and "read_upto s cr3 (v + of_nat n1) (k + n1) n2 data1 data2"
  shows "read_upto s cr3 v k (n1 + n2) data data2"
proof -
  have t: "take (k + n1) data2 = take (k + n1) data1" using assms(2) by (simp add: read_upto_def)
  have old: "data2 ! (k + i) = data1 ! (k + i)" if "i < n1" for i
    using t that by (metis add_less_cancel_left nth_take)
  have "\<exists>p. translate s cr3 (v + of_nat i) = Some p \<and> data2 ! (k + i) = vm_mem s p" if i: "i < n1 + n2" for i
  proof (cases "i < n1")
    case True
    then show ?thesis using assms(1) old by (auto simp: read_upto_def)
  next
    case False
    then obtain j where j: "i = n1 + j" "j < n2" using i by (metis add_less_cancel_left le_Suc_ex not_le)
    then show ?thesis using assms(2) by (auto simp: read_upto_def ac_simps)
  qed
  moreover have "take k data2 = take k data"
  proof -
    have "take k data2 = take k (take (k + n1) data2)" by simp
    also have "\<dots> = take k data1" unfolding t by simp
    also have "\<dots> = take k data" using assms(1) by (simp add: read_upto_def)
    finally show ?thesis .
  qed
  ultimately show ?thesis using assms by (simp add: read_upto_def)
qed

lemma validate_rc:
  assumes "uu_vm_access_validate a v wlk s = (rc, w, s1)" and "rc \<noteq> VM_DONE"
  shows "rc = VM_FAULT \<and> s1 = vm_access_pf a v s \<or> rc \<noteq> VM_FAULT \<and> s1 = s"
  using assms by (auto simp: uu_vm_access_validate_def Let_def vmerr_defs split: prod.splits if_splits)

lemma local_read_physical:
  assumes "\<not> acc_wr a" and "\<not> acc_remote a" and "acc_len a \<noteq> 0"
    and "uu_vm_access_physical a s = Some (rc, a', s')"
  shows "s' = s \<and> (rc = VM_FAIL \<and> a' = a \<or> rc = VM_DONE \<and> a' = a\<lparr>
     acc_data := take (acc_done a) (acc_data a) @ mem_read (vm_mem s) (acc_addr a) (unat (acc_len a))
                   @ drop (acc_done a + unat (acc_len a)) (acc_data a),
     acc_done := acc_done a + unat (acc_len a)\<rparr>)"
  using assms by (auto simp: uu_vm_access_physical_def uu_vm_access_system_identity_def
      uu_vm_access_local_operator_def Let_def split: if_splits)

lemma loop_cases:
  assumes loop: "vm_access_loop a v len wlk s = Some r" and len: "len \<noteq> 0"
  obtains (stop) rc w s1 where "uu_vm_access_validate a v wlk s = (rc, w, s1)" "rc \<noteq> VM_DONE" "r = (rc, a, s1)"
  | (step) w n rc a2 s2 where "uu_pg_walk s (acc_cr3 a) v wlk = (VM_DONE, w)" "0 < n" "n \<le> unat len"
      "n \<le> unat (uu_align_next v (wlk_size w) - v)"
      "uu_vm_access_physical (a\<lparr>acc_addr := wlk_addr w, acc_len := of_nat n\<rparr>) s = Some (rc, a2, s2)"
      "unat (of_nat n :: u64) = n" "unat (len - of_nat n) = unat len - n"
      "if rc = VM_DONE then vm_access_loop a2 (v + of_nat n) (len - of_nat n) w s2 = Some r else r = (rc, a2, s2)"
proof -
  obtain rc1 w s1 where val: "uu_vm_access_validate a v wlk s = (rc1, w, s1)" by (metis prod_cases3)
  show thesis
  proof (cases "rc1 = VM_DONE")
    case False
    then show thesis using that(1) [OF val False] loop len val by (simp add: vm_access_loop.simps [of a v len])
  next
    case True
    then have s1: "s1 = s" and w: "uu_pg_walk s (acc_cr3 a) v wlk = (VM_DONE, w)"
      using validate_done val by blast+
    define nxt where "nxt = uu_align_next v (wlk_size w)"
    define n where "n = min len (nxt - v)"
    have n0: "0 < unat n" using walk_progress [OF w len] by (auto simp: n_def nxt_def unat_gt_0)
    have nle: "unat n \<le> unat len" "unat n \<le> unat (uu_align_next v (wlk_size w) - v)"
      by (simp_all add: n_def nxt_def flip: word_le_nat_alt)
    have ln: "unat (len - n) = unat len - unat n" using nle by (simp add: unat_sub word_le_nat_alt)
    obtain rc a2 s2 where ph: "uu_vm_access_physical (a\<lparr>acc_addr := wlk_addr w, acc_len := n\<rparr>) s = Some (rc, a2, s2)"
      using loop len val True s1
      by (auto simp: vm_access_loop.simps [of a v len] Let_def n_def nxt_def split: option.splits)
    have "if rc = VM_DONE then vm_access_loop a2 nxt (len - n) w s2 = Some r else r = (rc, a2, s2)"
      using loop len val True s1 ph
      by (auto simp: vm_access_loop.simps [of a v len] Let_def n_def nxt_def)
    moreover have "vm_access_loop a2 nxt (len - n) w s2 = vm_access_loop a2 (v + n) (len - n) w s2"
    proof (cases "n = len")
      case True
      then show ?thesis by (simp add: vm_access_loop.simps)
    next
      case False
      then have "v + n = nxt" by (auto simp: n_def min_def split: if_splits)
      then show ?thesis by simp
    qed
    ultimately have "if rc = VM_DONE then vm_access_loop a2 (v + n) (len - n) w s2 = Some r else r = (rc, a2, s2)"
      by (cases "rc = VM_DONE") simp_all
    moreover have "(of_nat (unat n) :: u64) = n" by simp
    ultimately show thesis using that(2) [OF w n0 nle, unfolded \<open>of_nat (unat n) = n\<close>, OF ph refl ln] by blast
  qed
qed

lemma read_loop:
  assumes "vm_access_loop a v len wlk s = Some (rc, a', s')"
    and "\<not> acc_wr a" and "\<not> acc_remote a" and "length (acc_data a) = acc_done a + unat len"
  shows "\<exists>n \<le> unat len. acc_done a' = acc_done a + n \<and> (rc = VM_DONE \<longleftrightarrow> n = unat len)
    \<and> read_upto s (acc_cr3 a) v (acc_done a) n (acc_data a) (acc_data a')
    \<and> s' = (if rc = VM_FAULT then vm_access_pf a (v + of_nat n) s else s)"
  using assms
proof (induction "unat len" arbitrary: a v len wlk rule: less_induct)
  case less
  show ?case
  proof (cases "len = 0")
    case True
    then show ?thesis using less.prems by (simp add: vm_access_loop.simps read_upto_def vmerr_defs)
  next
    case len: False
    from less.prems(1) len show ?thesis
    proof (cases rule: loop_cases)
      case (stop rc1 w s1)
      then show ?thesis using validate_rc [OF stop(1,2)] len
        by (intro exI [of _ 0]) (auto simp: read_upto_def unat_eq_0)
    next
      case (step w n rc2 a2 s2)
      note pr = local_read_physical [OF _ _ _ step(5)]
      have n0: "of_nat n \<noteq> (0 :: u64)" using step(2,6) by (metis less_irrefl unsigned_0)
      show ?thesis
      proof (cases "rc2 = VM_DONE")
        case False
        then show ?thesis using pr n0 less.prems(2,3) step(8) len
          by (intro exI [of _ 0]) (auto simp: read_upto_def unat_eq_0 vmerr_defs)
      next
        case True
        then have a2: "s2 = s" "a2 = a\<lparr>acc_addr := wlk_addr w, acc_len := of_nat n,
            acc_data := take (acc_done a) (acc_data a) @ mem_read (vm_mem s) (wlk_addr w) n
                          @ drop (acc_done a + n) (acc_data a), acc_done := acc_done a + n\<rparr>"
          using pr n0 less.prems(2,3) step(6) by (auto simp: vmerr_defs)
        have r1: "read_upto s (acc_cr3 a) v (acc_done a) n (acc_data a) (acc_data a2)"
          using read_upto_step [OF step(1,4)] less.prems(4) step(3) by (simp add: a2)
        have "\<exists>n2 \<le> unat (len - of_nat n). acc_done a' = acc_done a2 + n2 \<and> (rc = VM_DONE \<longleftrightarrow> n2 = unat (len - of_nat n))
            \<and> read_upto s (acc_cr3 a2) (v + of_nat n) (acc_done a2) n2 (acc_data a2) (acc_data a')
            \<and> s' = (if rc = VM_FAULT then vm_access_pf a2 (v + of_nat n + of_nat n2) s else s)"
          using less.prems step True a2 r1 by (intro less.hyps [where wlk = w]) (auto simp: read_upto_def)
        then obtain n2 where "n2 \<le> unat len - n" "acc_done a' = acc_done a + n + n2" "rc = VM_DONE \<longleftrightarrow> n2 = unat len - n"
            "read_upto s (acc_cr3 a) (v + of_nat n) (acc_done a + n) n2 (acc_data a2) (acc_data a')"
            "s' = (if rc = VM_FAULT then vm_access_pf a2 (v + of_nat n + of_nat n2) s else s)"
          using step(7) by (auto simp: a2)
        moreover have "vm_access_pf a2 x s = vm_access_pf a x s" for x by (simp add: a2 vm_access_pf_def)
        ultimately show ?thesis using read_upto_append [OF r1] step(3)
          by (intro exI [of _ "n + n2"]) (auto simp: ac_simps)
      qed
    qed
  qed
qed

section \<open>Every access of local memory returns\<close>

lemma local_physical: "\<not> acc_remote a \<Longrightarrow> \<exists>rc a' s'. uu_vm_access_physical a s = Some (rc, a', s') \<and> \<not> acc_remote a'"
  by (auto simp: uu_vm_access_physical_def uu_vm_access_system_identity_def uu_vm_access_local_operator_def Let_def)

lemma local_loop: "\<not> acc_remote a \<Longrightarrow> vm_access_loop a v len wlk s \<noteq> None"
proof (induction a v len wlk s rule: vm_access_loop.induct)
  case (1 a v len wlk s)
  obtain rc w s1 where val: "uu_vm_access_validate a v wlk s = (rc, w, s1)" by (metis prod_cases3)
  define nxt n where "nxt = uu_align_next v (wlk_size w)" and "n = min len (nxt - v)"
  obtain rc2 a2 s2 where ph: "uu_vm_access_physical (a\<lparr>acc_addr := wlk_addr w, acc_len := n\<rparr>) s1 = Some (rc2, a2, s2)"
    and r: "\<not> acc_remote a2"
    using local_physical [of "a\<lparr>acc_addr := wlk_addr w, acc_len := n\<rparr>" s1] 1(2) by auto
  show ?case
  proof (cases "len = 0 \<or> rc \<noteq> VM_DONE \<or> rc2 \<noteq> VM_DONE")
    case True
    then show ?thesis using val ph by (auto simp: vm_access_loop.simps [of a v len wlk s] Let_def nxt_def n_def)
  next
    case False
    then have "vm_access_loop a2 nxt (len - n) w s2 \<noteq> None"
      using "1.IH" [OF _ val [symmetric] refl _ nxt_def n_def ph refl refl _ r] by blast
    then show ?thesis using False val ph by (simp add: vm_access_loop.simps [of a v len wlk s] Let_def nxt_def n_def)
  qed
qed

section \<open>Writes and the protected area\<close>

lemma recv_length: "vm_recv_loop n cs = Some (bs, r) \<Longrightarrow> length bs = n"
proof (induction cs arbitrary: n bs)
  case Nil
  then show ?case by (auto simp: vm_recv_loop.simps split: if_splits)
next
  case (Cons c cs)
  then show ?case by (auto simp: vm_recv_loop.simps [of n "c # cs"] split: if_splits)
qed

lemma mem_write_outside:
  assumes "\<forall>i < length bs. p + of_nat i \<noteq> x"
  shows "mem_write m p bs x = m x"
proof -
  have "x = p + of_nat (unat (x - p))" by simp
  then show ?thesis using assms by (metis mem_write_def)
qed

definition same_area :: "'a vm_state_scheme \<Rightarrow> 'a vm_state_scheme \<Rightarrow> bool" where
  "same_area s s' = (area_start s' = area_start s \<and> area_end s' = area_end s \<and> (\<forall>x. vmm_area s x \<longrightarrow> vm_mem s' x = vm_mem s x))"

lemma same_area_trans: "same_area s s1 \<Longrightarrow> same_area s1 s2 \<Longrightarrow> same_area s s2"
  by (simp add: same_area_def vmm_area_def)

lemma write_in_page:
  assumes "area_aligned s" and "unat p mod 4096 + length bs \<le> 4096" and "\<not> vmm_area s p"
  shows "vmm_area s x \<Longrightarrow> mem_write (vm_mem s) p bs x = vm_mem s x"
  using assms vmm_area_in_page [OF assms(1), of p] by (intro mem_write_outside) fastforce

lemma physical_same_area:
  assumes al: "area_aligned s" and pg: "unat (acc_addr a) mod 4096 + unat (acc_len a) \<le> 4096"
    and ph: "uu_vm_access_physical a s = Some (rc, a', s')"
  shows "same_area s s'"
proof (cases "acc_len a = 0 \<or> vmm_area_range s (acc_addr a) (acc_len a)")
  case True
  then show ?thesis using ph
    by (auto simp: uu_vm_access_physical_def uu_vm_access_system_identity_def same_area_def split: if_splits)
next
  case False
  then have "\<not> vmm_area s (acc_addr a)"
    using vmm_area_range_in_page [OF al, of "unat (acc_len a)"] pg by (simp add: unat_gt_0)
  then have "mem_write (vm_mem s) (acc_addr a) bs x = vm_mem s x" if "length bs \<le> unat (acc_len a)" "vmm_area s x" for bs x
    using write_in_page [OF al, of "acc_addr a" bs x] pg that by simp
  then show ?thesis using ph False recv_length [of "unat (acc_len a)" "io_in s"]
    by (auto simp: uu_vm_access_physical_def uu_vm_access_system_identity_def uu_vm_access_local_operator_def
        uu_vm_access_remote_operator_def same_area_def Let_def split: if_splits)
qed

lemma validate_same_area: "uu_vm_access_validate a v wlk s = (rc, w, s1) \<Longrightarrow> same_area s s1"
  by (auto simp: uu_vm_access_validate_def Let_def vm_access_pf_def uu_vmx_vmexit_inject_exception_def same_area_def
      split: prod.splits if_splits)

lemma mod_add_le: "a mod m + n < m \<Longrightarrow> (a + n) mod m = a mod m + n" for a n m :: nat
  by (metis mod_add_left_eq mod_less)

lemma loop_same_area:
  assumes "vm_access_loop a v len wlk s = Some (rc, a', s')"
    and "area_aligned s" and "unat v mod 4096 + unat len \<le> 4096"
  shows "same_area s s'"
  using assms
proof (induction "unat len" arbitrary: a v len wlk s rule: less_induct)
  case less
  show ?case
  proof (cases "len = 0")
    case True
    then show ?thesis using less.prems by (simp add: vm_access_loop.simps same_area_def)
  next
    case False
    from less.prems(1) False show ?thesis
    proof (cases rule: loop_cases)
      case (stop rc1 w s1)
      then show ?thesis using validate_same_area by blast
    next
      case (step w n rc2 a2 s2)
      have s2: "same_area s s2"
        using step guest_walk.small_offset [OF step(1)] less.prems by (intro physical_same_area [OF _ _ step(5)]) simp_all
      then have al: "area_aligned s2" using less.prems(2) by (simp add: area_aligned_def same_area_def)
      show ?thesis
      proof (cases "rc2 = VM_DONE \<and> n < unat len")
        case True
        then have "unat (v + of_nat n) mod 4096 = unat v mod 4096 + n"
          using add_in_page(1) [where k = 12 and v = v and i = n] less.prems(3) mod_add_le [of "unat v" 4096 n] by simp
        then have "same_area s2 s'"
          using step True less.prems(3) al by (intro less.hyps [of "len - of_nat n" a2 "v + of_nat n" w s2]) auto
        then show ?thesis using s2 same_area_trans by blast
      next
        case False
        then have "s' = s2" using step by (auto simp: vm_access_loop.simps unat_eq_0 split: if_splits)
        then show ?thesis using s2 by simp
      qed
    qed
  qed
qed

section \<open>Reads that succeed\<close>

lemma translate_SomeD: "translate s cr3 v = Some p \<Longrightarrow> \<exists>w. uu_pg_walk s cr3 v wlk = (VM_DONE, w) \<and> wlk_addr w = p"
  using pg_walk_any [of s cr3 v wlk_any _ wlk] by (auto simp: translate_def split: prod.splits if_splits)

lemma validate_vmm:
  "uu_pg_walk s (acc_cr3 a) v wlk = (VM_DONE, w) \<Longrightarrow> acc_rq a = VM_ACC_REQ_VMM \<Longrightarrow>
   uu_vm_access_validate a v wlk s = (VM_DONE, w, s)"
  by (simp add: uu_vm_access_validate_def vmerr_defs)

lemma read_loop_done:
  assumes "vm_access_loop a v len wlk s = Some (rc, a', s')"
    and "\<not> acc_wr a" and "\<not> acc_remote a" and "acc_rq a = VM_ACC_REQ_VMM"
    and "\<forall>i < unat len. \<exists>p. translate s (acc_cr3 a) (v + of_nat i) = Some p \<and> \<not> vmm_area s p"
  shows "rc = VM_DONE"
  using assms
proof (induction "unat len" arbitrary: a v len wlk rule: less_induct)
  case less
  show ?case
  proof (cases "len = 0")
    case True
    then show ?thesis using less.prems by (simp add: vm_access_loop.simps)
  next
    case False
    then have "0 < unat len" by (simp add: unat_gt_0)
    then obtain p0 where "translate s (acc_cr3 a) v = Some p0" "\<not> vmm_area s p0"
      using less.prems(5) by fastforce
    then obtain w0 where w0: "uu_pg_walk s (acc_cr3 a) v wlk = (VM_DONE, w0)" "\<not> vmm_area s (wlk_addr w0)"
      using translate_SomeD by blast
    from less.prems(1) False show ?thesis
    proof (cases rule: loop_cases)
      case (stop rc1 w s1)
      then show ?thesis using validate_vmm [OF w0(1) less.prems(4)] by simp
    next
      case (step w n rc2 a2 s2)
      have w: "w = w0" using step(1) w0 by simp
      have "unat (wlk_addr w + of_nat (n - 1)) = unat (wlk_addr w) + (n - 1)"
        using guest_walk.chunk_no_wrap [OF step(1), of "n - 1"] step(2,4) by simp
      then have "\<not> vmm_area_range s (wlk_addr w) (of_nat n)"
        using vmm_area_range_miss [of s "wlk_addr w" n] w0(2) w step(2,3) unat_u64_less [of len] by simp
      moreover have "of_nat n \<noteq> (0 :: u64)" using step(2,6) by (metis less_irrefl unsigned_0)
      ultimately have "rc2 = VM_DONE \<and> s2 = s \<and> \<not> acc_wr a2 \<and> \<not> acc_remote a2 \<and> acc_rq a2 = acc_rq a \<and> acc_cr3 a2 = acc_cr3 a"
        using step(5) less.prems(2,3)
        by (auto simp: uu_vm_access_physical_def uu_vm_access_system_identity_def uu_vm_access_local_operator_def Let_def)
      moreover have "\<exists>p. translate s (acc_cr3 a) (v + of_nat n + of_nat i) = Some p \<and> \<not> vmm_area s p" if "i < unat (len - of_nat n)" for i
        using less.prems(5) that step(3,7) by (metis add.assoc of_nat_add add_less_cancel_left le_add_diff_inverse)
      ultimately show ?thesis
        using step less.prems by (intro less.hyps [of "len - of_nat n" a2 "v + of_nat n" w]) auto
    qed
  qed
qed

section \<open>The instruction pointer\<close>

lemma low_field:
  fixes r z y :: u64 and l :: "'b::len word"
  assumes "LENGTH('b) \<le> 64"
  shows "ucast (set_field 0 LENGTH('b) (ucast l) r) = l"
    and "set_field 0 n z (set_field 0 n y r) = set_field 0 n z r"
    and "set_field 0 LENGTH('b) (ucast (ucast r :: 'b word)) r = r"
    and "drop_bit n (set_field 0 n y r) = drop_bit n r"
proof -
  show "ucast (set_field 0 LENGTH('b) (ucast l) r) = l"
    by (rule bit_eqI) (use assms in \<open>auto simp: bit_unsigned_iff bit_set_field possible_bit_def\<close>)
  show "set_field 0 n z (set_field 0 n y r) = set_field 0 n z r"
    by (rule bit_eqI) (auto simp: bit_set_field)
  show "set_field 0 LENGTH('b) (ucast (ucast r :: 'b word)) r = r"
    by (rule bit_eqI) (use assms in \<open>auto simp: bit_unsigned_iff bit_set_field possible_bit_def dest: bit_imp_le_length\<close>)
  show "drop_bit n (set_field 0 n y r) = drop_bit n r"
    by (rule bit_eqI) (auto simp: bit_drop_bit_eq bit_set_field dest: bit_imp_le_length)
qed

lemma addr_sz_rip [simp]: "cpu_addr_sz (s\<lparr>vm_rip := x\<rparr>) = cpu_addr_sz s"
  by (simp add: cpu_addr_sz_def u_xx_pmode32_def)

lemma low_field32: 
   "ucast (set_field 0 32 (ucast l) r) = l" "set_field 0 32 (ucast (ucast r :: u32)) r = r"
  for l :: u32 and r :: u64
  using low_field(1) [where 'b = 32 and l = l and r = r] low_field(3) [where 'b = 32 and r = r]
  by simp_all

lemma low_field16: 
   "ucast (set_field 0 16 (ucast l) r) = l" "set_field 0 16 (ucast (ucast r :: u16)) r = r"
  for l :: u16 and r :: u64
  using low_field(1) [where 'b = 16 and l = l and r = r] low_field(3) [where 'b = 16 and r = r]
  by simp_all

lemma drop_bit_len: "drop_bit 64 x = 0" for x :: u64
  by (rule bit_eqI) (auto simp: bit_drop_bit_eq dest: bit_imp_le_length)

lemmas low_field_same = low_field(2,4) [where 'b = 16, simplified]

section \<open>An example guest\<close>

text \<open>A guest in 64-bit mode, with one table of each level at 4K to 16K, the linear pages 1 and 2
  mapped to the frames 5 and 9, the second one read only and for the supervisor, and the
  hypervisor at 64K.\<close>

definition vm_ex :: vm_cpu where
  "vm_ex = \<lparr>vm_mem = ex_mem, area_start = 0x10000, area_end = 0x20000, efer_lma = True, efer_nxe = False,
     cr0_pg = True, cr4_pae = True, cr4_pse = True, vmm_pg_1G = False, vm_cpl = 0, vm_cr3 = 0x1000,
     cr0_pe = True, rflags_vm = False, cs_l = True, cs_d = False, cs_base = 0, ss_base = 0, vm_rsp = 0, vm_rip = 0,
     vm_evt = \<lparr>evt_v = False, evt_type = 0, evt_vector = 0, evt_dec = False\<rparr>, vm_err_code = 0, vm_cr2 = 0,
     io_in = [], io_out = []\<rparr>"

lemma vm_ex_area [simp]: "area_aligned vm_ex"
  by (simp add: area_aligned_def vm_ex_def uu_aligned_def PAGE_SIZE_def)

section \<open>Properties\<close>

text \<open>C8: a read of linear memory on behalf of the guest reports in \<^verbatim>\<open>done\<close> how many bytes it
  read: each of them is the byte found at the translation of its own address, although the
  code translates once per page; all of them were read exactly when the answer is
  \<^verbatim>\<open>VM_DONE\<close>; on \<^verbatim>\<open>VM_FAULT\<close> a page fault for the first address that was not read is
  injected, and guest memory is never changed.\<close>

theorem vm_read_mem_sz_spec:
  assumes "cr0_pg s" and "length data = unat len"
    and "vm_read_mem_sz v data len s = Some (rc, data', n, s')"
  shows "length data' = unat len \<and> n \<le> unat len \<and> (rc = VM_DONE \<longleftrightarrow> n = unat len)
    \<and> (\<forall>i < n. \<exists>p. translate s (vm_cr3 s) (v + of_nat i) = Some p \<and> data' ! i = vm_mem s p)
    \<and> s' = (if rc = VM_FAULT
            then uu_vmx_vmexit_inject_exception PF_EXCP (pf_err False (vm_cpl s = 3)) (v + of_nat n) s
            else s)"
proof -
  define a where "a = uu_vm_access_setup (vm_cr3 s) v data len False VM_ACC_REQ_VM False"
  have a: "\<not> acc_wr a" "\<not> acc_remote a" "length (acc_data a) = acc_done a + unat len" "acc_done a = 0"
    "acc_cr3 a = vm_cr3 s" "acc_data a = data" "acc_addr a = v" "acc_len a = len"
    using assms(2) by (simp_all add: a_def uu_vm_access_setup_def)
  obtain a' where l: "vm_access_loop a v len wlk_any s = Some (rc, a', s')" "data' = acc_data a'" "n = acc_done a'"
    using assms(1,3) a(7,8)
    by (auto simp: vm_read_mem_sz_def uu_vm_access_linear_def uu_vm_access_virtual_def a_def [symmetric])
  have "vm_access_pf a x s = uu_vmx_vmexit_inject_exception PF_EXCP (pf_err False (vm_cpl s = 3)) x s" for x
    using a(1) by (simp add: vm_access_pf_def)
  then show ?thesis using read_loop [OF l(1) a(1-3)] l(2,3) a(4-6) assms(2) by (auto simp: read_upto_def)
qed

theorem vm_read_mem_sz_spec_witness:
  "cr0_pg vm_ex \<and> vm_read_mem_sz 0x1fff [0, 0] 2 vm_ex = Some (VM_DONE, [0xaa, 0xbb], 2, vm_ex)
   \<and> (\<exists>p. translate vm_ex (vm_cr3 vm_ex) 0x1fff = Some p \<and> vm_mem vm_ex p = 0xaa)
   \<and> (\<exists>p. translate vm_ex (vm_cr3 vm_ex) 0x2000 = Some p \<and> vm_mem vm_ex p = 0xbb)"
proof -
  have p: "cr0_pg vm_ex" by (simp add: vm_ex_def)
  have r: "vm_read_mem_sz 0x1fff [0, 0] 2 vm_ex = Some (VM_DONE, [0xaa, 0xbb], 2, vm_ex)" by code_simp
  have "\<forall>i < 2. \<exists>p. translate vm_ex (vm_cr3 vm_ex) (0x1fff + of_nat i) = Some p \<and> [0xaa, 0xbb] ! i = vm_mem vm_ex p"
    using vm_read_mem_sz_spec [OF p _ r] by simp
  from spec [OF this, of 0] spec [OF this, of 1] show ?thesis using p r by auto
qed

text \<open>C9: an access, local or remote, of linear, virtual or physical memory (the three
  functions that every service of the file goes through), whose range does not cross a 4K
  boundary leaves every byte of a page-aligned protected area as it was, with paging on or
  off, whatever page tables the guest has built and whatever the outcome of the access.\<close>

theorem vm_access_protects_area:
  assumes "area_aligned s" and "unat (acc_addr access) mod 4096 + unat (acc_len access) \<le> 4096"
    and "Some (rc, access', s') \<in> {uu_vm_access_linear access s, uu_vm_access_virtual access s,
      uu_vm_access_physical access s}" and "vmm_area s a"
  shows "vm_mem s' a = vm_mem s a"
proof -
  consider "uu_vm_access_virtual access s = Some (rc, access', s')"
    | "uu_vm_access_physical access s = Some (rc, access', s')"
    using assms(3) by (auto simp: uu_vm_access_linear_def)
  then have "same_area s s'"
    using physical_same_area [OF assms(1,2)] loop_same_area [OF _ assms(1,2)]
    by cases (auto simp: uu_vm_access_virtual_def split: if_splits)
  then show ?thesis using assms(4) by (simp add: same_area_def)
qed

theorem vm_access_protects_area_witness:
  "\<exists>a s1 s2. uu_vm_access_linear (uu_vm_access_setup 0x1000 0x1ff0 [1, 2] 2 True VM_ACC_REQ_VM False) vm_ex = Some a
   \<and> uu_vm_access_physical (uu_vm_access_setup 0 0x6000 [1, 2] 2 True VM_ACC_REQ_VMM False) vm_ex = Some s1
   \<and> s2 = snd (snd s1) \<and> vmm_area vm_ex 0x10000 \<and> vm_mem s2 0x6000 = 1
   \<and> vm_mem (snd (snd a)) 0x10000 = vm_mem vm_ex 0x10000 \<and> vm_mem s2 0x10000 = vm_mem vm_ex 0x10000"
proof -
  let ?a = "uu_vm_access_setup 0x1000 0x1ff0 [1, 2] 2 True VM_ACC_REQ_VM False"
  let ?b = "uu_vm_access_setup 0 0x6000 [1, 2] 2 True VM_ACC_REQ_VMM False"
  have n: "uu_vm_access_linear ?a vm_ex \<noteq> None"
    unfolding uu_vm_access_linear_def uu_vm_access_virtual_def
    by (auto simp: local_loop uu_vm_access_setup_def vm_ex_def)
  then obtain rc a' s' where r: "uu_vm_access_linear ?a vm_ex = Some (rc, a', s')" by (metis option.exhaust prod_cases3)
  have a: "vmm_area vm_ex 0x10000" by (simp add: vmm_area_def uu_range_exc_def vm_ex_def)
  obtain rc2 a2 s2 where p: "uu_vm_access_physical ?b vm_ex = Some (rc2, a2, s2)" "vm_mem s2 0x6000 = 1"
    by (simp add: uu_vm_access_physical_def uu_vm_access_setup_def uu_vm_access_system_identity_def
        uu_vm_access_local_operator_def vmm_area_range_def vmm_area_def uu_range_exc_def vm_ex_def mem_write_def Let_def)
  have "vm_mem s' 0x10000 = vm_mem vm_ex 0x10000"
    using vm_access_protects_area [OF vm_ex_area _ _ a, of ?a rc a' s'] r by (simp add: uu_vm_access_setup_def)
  moreover have "vm_mem s2 0x10000 = vm_mem vm_ex 0x10000"
    using vm_access_protects_area [OF vm_ex_area _ _ a, of ?b rc2 a2 s2] p by (simp add: uu_vm_access_setup_def)
  ultimately show ?thesis using r p a by auto
qed

text \<open>C10: the guard on physical accesses does not see a range that starts below the protected
  area and ends in it: the write of two bytes that ends on the first byte of the area
  succeeds and replaces that byte.\<close>

theorem vm_write_pmem_reaches_area:
  assumes "area_start s \<noteq> 0" and "area_start s < area_end s"
  shows "\<exists>s'. uu_vm_write_pmem (area_start s - 1) [x, y] 2 s = Some (VM_DONE, s')
    \<and> vmm_area s (area_start s) \<and> vm_mem s' (area_start s) = y"
proof -
  have l: "area_start s - 1 < area_start s" using assms(1) by (simp add: word_less_nat_alt unat_minus_one unat_gt_0)
  then have "\<not> vmm_area s (area_start s - 1)" by (simp add: vmm_area_def uu_range_exc_def not_le)
  moreover have "area_start s - 1 + 2 - 1 = area_start s" by simp
  ultimately have "\<not> vmm_area_range s (area_start s - 1) 2" using l by (simp add: vmm_area_range_def Let_def)
  moreover have "vmm_area s (area_start s)" using assms(2) by (simp add: vmm_area_def uu_range_exc_def)
  ultimately show ?thesis
    by (simp add: uu_vm_write_pmem_def acc_state_def uu_vm_access_setup_def uu_vm_access_physical_def
        uu_vm_access_system_identity_def uu_vm_access_local_operator_def mem_write_def Let_def)
qed

theorem vm_write_pmem_reaches_area_witness:
  "\<exists>s'. uu_vm_write_pmem 0xffff [0x11, 0x22] 2 vm_ex = Some (VM_DONE, s') \<and> vm_mem s' 0x10000 = 0x22"
proof -
  have "area_start vm_ex = 0x10000" "area_end vm_ex = 0x20000" by (simp_all add: vm_ex_def)
  then show ?thesis using vm_write_pmem_reaches_area [of vm_ex "0x11" "0x22"] by auto
qed

text \<open>A read by the hypervisor of linear memory that is mapped to frames outside of the
  protected area returns, with \<^verbatim>\<open>VM_DONE\<close>.\<close>

theorem vm_read_vmem_succeeds:
  assumes "cr0_pg s"
    and "\<forall>i < unat len. \<exists>p. translate s cr3 (v + of_nat i) = Some p \<and> \<not> vmm_area s p"
  shows "\<exists>data' s'. uu_vm_read_vmem cr3 v data len s = Some (VM_DONE, data', s')"
proof -
  define a where "a = uu_vm_access_setup cr3 v data len False VM_ACC_REQ_VMM False"
  have a: "\<not> acc_wr a" "\<not> acc_remote a" "acc_rq a = VM_ACC_REQ_VMM" "acc_cr3 a = cr3" "acc_addr a = v" "acc_len a = len"
    by (simp_all add: a_def uu_vm_access_setup_def)
  obtain rc a' s' where l: "vm_access_loop a v len wlk_any s = Some (rc, a', s')"
    using local_loop [OF a(2)] by (metis option.exhaust prod_cases3)
  moreover have "rc = VM_DONE" using read_loop_done [OF l a(1-3)] a(4) assms(2) by simp
  ultimately show ?thesis
    using assms(1) a(5,6) by (simp add: uu_vm_read_vmem_def acc_bytes_def uu_vm_access_virtual_def a_def [symmetric])
qed

theorem vm_read_vmem_succeeds_witness:
  "\<exists>data' s'. uu_vm_read_vmem 0x1000 0x1ffe [0, 0, 0] 3 vm_ex = Some (VM_DONE, data', s')"
proof -
  have t: "translate vm_ex 0x1000 0x1ffe = Some 0x5ffe" "translate vm_ex 0x1000 0x1fff = Some 0x5fff"
    "translate vm_ex 0x1000 0x2000 = Some 0x9000" by code_simp+
  have "\<forall>i < unat (3 :: u64). \<exists>p. translate vm_ex 0x1000 (0x1ffe + of_nat i) = Some p \<and> \<not> vmm_area vm_ex p"
  proof (intro allI impI)
    fix i assume "i < unat (3 :: u64)"
    then have "i = 0 \<or> i = 1 \<or> i = 2" by simp linarith
    moreover have "\<not> vmm_area vm_ex p" if "p \<in> {0x5ffe, 0x5fff, 0x9000}" for p
      using that by (auto simp: vmm_area_def uu_range_exc_def vm_ex_def)
    ultimately show "\<exists>p. translate vm_ex 0x1000 (0x1ffe + of_nat i) = Some p \<and> \<not> vmm_area vm_ex p"
      using t by auto
  qed
  moreover have "cr0_pg vm_ex" by (simp add: vm_ex_def)
  ultimately show ?thesis by (intro vm_read_vmem_succeeds)
qed

text \<open>Advancing the instruction pointer and then rewinding it by the same offset gives
  back the same state in 64, 32 and 16-bit mode, and the bits above the width of the mode are
  never touched.\<close>

theorem vm_rewind_update_rip:
  "vm_rewind_rip offset (vm_update_rip offset s) = s
   \<and> drop_bit (cpu_addr_sz s) (vm_rip (vm_update_rip offset s)) = drop_bit (cpu_addr_sz s) (vm_rip s)"
proof -
  have "cpu_addr_sz s \<in> {64, 32, 16}" by (simp add: cpu_addr_sz_def)
  then consider "cpu_addr_sz s = 64" | "cpu_addr_sz s = 32" | "cpu_addr_sz s = 16" by blast
  then show ?thesis
    by cases (simp_all only: vm_update_rip_def vm_rewind_rip_def Let_def addr_sz_rip, simp_all add: drop_bit_len low_field32 low_field16 low_field_same)
qed
end
