(* ===== verification/Dbg_Soft.thy ===== *)
theory Dbg_Soft
  imports Vm_Access
begin

text \<open>
  The debugger of the controller: its state, and the software breakpoints of
  \<^verbatim>\<open>vmm/src/control/dbg_soft.c\<close>. A breakpoint is a slot of a table of 1024; it is set by
  saving the byte at its address, armed by writing the breakpoint instruction over it and
  disarmed by writing the byte back, all through the accesses to linear memory of
  \<^verbatim>\<open>vm.c\<close>. A pointer to a slot is its index. Handlers are function pointers, numbers here.
  The fields of the record up to \<open>excp_bitmap\<close> are those of \<^verbatim>\<open>vmm_ctrl_t\<close> and of its parts, the
  others belong to the hardware breakpoints and to the debug registers of the guest, whose
  low halves are all that the code uses of the control and status registers.
\<close>

section \<open>State\<close>

record soft_bp =
  bp_on :: bool
  bp_st :: bool
  bp_addr :: offset_t
  bp_hdlr :: u64
  bp_byte :: u8
  bp_cr3 :: u64

text \<open>The union of the last debug event: a pointer to a slot or the index of a hardware
  breakpoint.\<close>

datatype dbg_evt_src = EvtSoft nat | EvtHard u8

record dbg_vm = vm_cpu +
  soft_on :: bool
  soft_rs :: bool
  soft_dis :: bool
  soft_cnt :: size_t
  soft_list :: "soft_bp list"
  dbg_excp :: u32
  evt_kind :: u8
  evt_addr :: offset_t
  evt_src :: dbg_evt_src
  ctrl_cr3_on :: bool
  ctrl_cr3_keep :: bool
  ctrl_traps_on :: bool
  ctrl_traps_upd :: bool
  stored_cr3 :: u64
  dflt_excp :: u32
  usr_excp :: u32
  excp_bitmap :: u32
  hbrk_insn :: bool
  hbrk_on :: bool
  hbrk_dis :: bool
  hbrk_rf :: bool
  hbrk_dr7 :: u32
  hbrk_hdlr :: "u64 list"
  hstp_on :: bool
  hstp_tf :: bool
  hstp_rq :: u8
  hstp_sysenter_cs :: u64
  hard_dr6_dirty :: bool
  vm_dr :: "u64 list"
  vm_dr6 :: u32
  vm_dr7 :: u32
  dr_shadow :: "u64 list"
  dr_exit :: bool
  rflags_tf :: bool
  rflags_rf :: bool
  sysenter_cs :: u64
  vm_gpr :: "u64 list"
  cr4_de :: bool

definition DBG_SOFT_NR :: nat where
  "DBG_SOFT_NR = 1024"

definition BREAKPOINT_INSN :: u8 where
  "BREAKPOINT_INSN = 0xcc"

definition BP_EXCP :: nat where "BP_EXCP = 3"
definition DB_EXCP :: nat where "DB_EXCP = 1"

definition DBG_EVT_TYPE_SOFT_BRK :: u8 where
  "DBG_EVT_TYPE_SOFT_BRK = 0xff"

text \<open>\<^verbatim>\<open>active_cr3\<close> points at the register of the guest or at the recorded one.\<close>

definition active_cr3 :: "'a dbg_vm_scheme \<Rightarrow> u64" where
  "active_cr3 s = (if ctrl_cr3_on s then stored_cr3 s else vm_cr3 s)"

text \<open>One byte of linear memory. An access of local memory always returns, so the last case
  of each does not arise (\<^verbatim>\<open>local_loop\<close>).\<close>

definition ctrl_vmem_read_with :: "u64 \<Rightarrow> offset_t \<Rightarrow> u8 \<Rightarrow> 'a vm_cpu_scheme \<Rightarrow> vmerr \<times> u8 \<times> 'a vm_cpu_scheme" where
  "ctrl_vmem_read_with cr3 addr byte s =
     (case uu_vm_read_vmem cr3 addr [byte] 1 s of
        Some (rc, data, s') \<Rightarrow> (rc, data ! 0, s')
      | None \<Rightarrow> (VM_FAIL, byte, s))"

definition ctrl_vmem_write_with :: "u64 \<Rightarrow> offset_t \<Rightarrow> u8 \<Rightarrow> 'a vm_cpu_scheme \<Rightarrow> vmerr \<times> 'a vm_cpu_scheme" where
  "ctrl_vmem_write_with cr3 addr byte s =
     (case uu_vm_write_vmem cr3 addr [byte] 1 s of
        Some r \<Rightarrow> r
      | None \<Rightarrow> (VM_FAIL, s))"

definition set_slot :: "nat \<Rightarrow> (soft_bp \<Rightarrow> soft_bp) \<Rightarrow> 'a dbg_vm_scheme \<Rightarrow> 'a dbg_vm_scheme" where
  "set_slot i f s = s\<lparr>soft_list := (soft_list s)[i := f (soft_list s ! i)]\<rparr>"

section \<open>One slot\<close>

definition uu_dbg_soft_restore_insn :: "nat \<Rightarrow> 'a dbg_vm_scheme \<Rightarrow> vmerr \<times> 'a dbg_vm_scheme" where
  "uu_dbg_soft_restore_insn i s =
     (let bp = soft_list s ! i;
          (rc, s1) = ctrl_vmem_write_with (bp_cr3 bp) (bp_addr bp) (bp_byte bp) s
      in if rc \<noteq> VM_DONE then (rc, s1) else (VM_DONE, set_slot i (bp_st_update (\<lambda>_. False)) s1))"

definition uu_dbg_soft_restore_bp :: "nat \<Rightarrow> 'a dbg_vm_scheme \<Rightarrow> vmerr \<times> 'a dbg_vm_scheme" where
  "uu_dbg_soft_restore_bp i s =
     (let bp = soft_list s ! i;
          (rc, s1) = ctrl_vmem_write_with (bp_cr3 bp) (bp_addr bp) BREAKPOINT_INSN s
      in if rc \<noteq> VM_DONE then (rc, s1) else (VM_DONE, set_slot i (bp_st_update (\<lambda>_. True)) s1))"

definition dbg_soft_restore_insn :: "nat \<Rightarrow> 'a dbg_vm_scheme \<Rightarrow> vmerr \<times> 'a dbg_vm_scheme" where
  "dbg_soft_restore_insn i s =
     (let bp = soft_list s ! i
      in if \<not> bp_on bp \<or> \<not> bp_st bp then (VM_IGNORE, s) else uu_dbg_soft_restore_insn i s)"

definition dbg_soft_restore_bp :: "nat \<Rightarrow> 'a dbg_vm_scheme \<Rightarrow> vmerr \<times> 'a dbg_vm_scheme" where
  "dbg_soft_restore_bp i s =
     (let bp = soft_list s ! i
      in if \<not> bp_on bp \<or> bp_st bp then (VM_IGNORE, s)
         else if soft_rs s \<and> bp_addr bp = evt_addr s then (VM_IGNORE, s)
         else uu_dbg_soft_restore_bp i s)"

definition uu_dbg_soft_del_bp :: "nat \<Rightarrow> 'a dbg_vm_scheme \<Rightarrow> vmerr \<times> 'a dbg_vm_scheme" where
  "uu_dbg_soft_del_bp i s =
     (let bp = soft_list s ! i
      in if \<not> bp_on bp then (VM_IGNORE, s)
         else let (rc, s1) = uu_dbg_soft_restore_insn i (set_slot i (bp_on_update (\<lambda>_. False)) s)
              in if rc = 0 then (VM_FAIL, s1) else (VM_DONE, s1))"

definition dbg_soft_set_bp :: "offset_t \<Rightarrow> nat \<Rightarrow> 'a dbg_vm_scheme \<Rightarrow> vmerr \<times> 'a dbg_vm_scheme" where
  "dbg_soft_set_bp addr i s =
     (let bp = soft_list s ! i
      in if bp_on bp \<and> bp_addr bp \<noteq> addr then (VM_IGNORE, s)
         else if \<not> bp_on bp then
           (let s1 = set_slot i (\<lambda>bp. bp\<lparr>bp_addr := addr, bp_on := True, bp_cr3 := active_cr3 s\<rparr>) s;
                (rc, byte, s2) = ctrl_vmem_read_with (active_cr3 s) addr (bp_byte bp) s1;
                s3 = set_slot i (bp_byte_update (\<lambda>_. byte)) s2
            in if rc \<noteq> VM_DONE then (rc, s3) else (VM_DONE, s3))
         else (VM_DONE, s))"

definition dbg_soft_del_bp :: "offset_t \<Rightarrow> nat \<Rightarrow> 'a dbg_vm_scheme \<Rightarrow> vmerr \<times> 'a dbg_vm_scheme" where
  "dbg_soft_del_bp addr i s =
     (if bp_addr (soft_list s ! i) \<noteq> addr then (VM_IGNORE, s) else uu_dbg_soft_del_bp i s)"

definition dbg_soft_check_bp :: "offset_t \<Rightarrow> nat \<Rightarrow> 'a dbg_vm_scheme \<Rightarrow> vmerr \<times> 'a dbg_vm_scheme" where
  "dbg_soft_check_bp addr i s =
     (let bp = soft_list s ! i
      in if bp_on bp \<and> bp_addr bp = addr then (VM_DONE, s) else (VM_IGNORE, s))"

section \<open>All slots\<close>

text \<open>The loop over the table, from slot \<open>i\<close> with \<open>n + 1\<close> slots to go: the last status and the slot
  it comes from, which is what the handlers that find a slot report through their argument.\<close>

fun dbg_soft_loop ::
    "(nat \<Rightarrow> 'a dbg_vm_scheme \<Rightarrow> vmerr \<times> 'a dbg_vm_scheme) \<Rightarrow> vmerr \<Rightarrow> nat \<Rightarrow> nat \<Rightarrow> 'a dbg_vm_scheme
     \<Rightarrow> vmerr \<times> nat \<times> 'a dbg_vm_scheme" where
  "dbg_soft_loop hdl stop 0 i s = (let (rc, s') = hdl i s in (rc, i, s'))"
| "dbg_soft_loop hdl stop (Suc n) i s =
     (let (rc, s') = hdl i s
      in if rc AND stop \<noteq> 0 then (rc, i, s') else dbg_soft_loop hdl stop n (Suc i) s')"

definition dbg_soft_for_each ::
    "(nat \<Rightarrow> 'a dbg_vm_scheme \<Rightarrow> vmerr \<times> 'a dbg_vm_scheme) \<Rightarrow> vmerr \<Rightarrow> 'a dbg_vm_scheme
     \<Rightarrow> vmerr \<times> nat \<times> 'a dbg_vm_scheme" where
  "dbg_soft_for_each hdl stop s = dbg_soft_loop hdl stop (DBG_SOFT_NR - 1) 0 s"

definition dbg_soft_del_all :: "'a dbg_vm_scheme \<Rightarrow> bool \<times> 'a dbg_vm_scheme" where
  "dbg_soft_del_all s =
     (let (rc, i, s1) = dbg_soft_for_each uu_dbg_soft_del_bp VM_FAIL s
      in if rc = VM_FAIL then (False, s1) else (True, s1\<lparr>soft_cnt := 0\<rparr>))"

definition dbg_soft_protect :: "'a dbg_vm_scheme \<Rightarrow> 'a dbg_vm_scheme" where
  "dbg_soft_protect s =
     (if \<not> soft_on s then s
      else s\<lparr>dbg_excp := dbg_excp s OR push_bit BP_EXCP 1, ctrl_traps_upd := True\<rparr>)"

definition dbg_soft_release :: "'a dbg_vm_scheme \<Rightarrow> 'a dbg_vm_scheme" where
  "dbg_soft_release s =
     (if soft_on s then s
      else s\<lparr>dbg_excp := dbg_excp s AND NOT (push_bit BP_EXCP 1), ctrl_traps_upd := True\<rparr>)"

definition dbg_soft_enable :: "'a dbg_vm_scheme \<Rightarrow> 'a dbg_vm_scheme" where
  "dbg_soft_enable s = dbg_soft_protect (s\<lparr>soft_on := True\<rparr>)"

definition dbg_soft_disable :: "'a dbg_vm_scheme \<Rightarrow> 'a dbg_vm_scheme" where
  "dbg_soft_disable s = dbg_soft_release (s\<lparr>soft_on := False\<rparr>)"

definition dbg_soft_reset :: "'a dbg_vm_scheme \<Rightarrow> 'a dbg_vm_scheme" where
  "dbg_soft_reset s =
     (dbg_soft_disable (snd (dbg_soft_del_all s)))\<lparr>soft_on := False, soft_rs := False, soft_dis := False\<rparr>"

section \<open>Services\<close>

definition dbg_soft_set :: "offset_t \<Rightarrow> u64 \<Rightarrow> 'a dbg_vm_scheme \<Rightarrow> vmerr \<times> 'a dbg_vm_scheme" where
  "dbg_soft_set addr hdlr s =
     (if soft_cnt s = of_nat DBG_SOFT_NR then (VM_FAIL, s)
      else let (rc, i, s1) = dbg_soft_for_each (dbg_soft_set_bp addr) (VM_DONE OR VM_FAIL) s
           in if rc = VM_DONE
              then (VM_DONE, dbg_soft_enable
                     ((set_slot i (bp_hdlr_update (\<lambda>_. hdlr)) s1)\<lparr>soft_cnt := soft_cnt s1 + 1\<rparr>))
              else (VM_FAIL, s1))"

definition dbg_soft_del :: "offset_t \<Rightarrow> 'a dbg_vm_scheme \<Rightarrow> vmerr \<times> 'a dbg_vm_scheme" where
  "dbg_soft_del addr s =
     (if soft_cnt s = 0 then (VM_FAIL, s)
      else let (rc, i, s1) = dbg_soft_for_each (dbg_soft_del_bp addr) (VM_DONE OR VM_FAIL) s
           in if rc = VM_DONE
              then (let s2 = s1\<lparr>soft_cnt := soft_cnt s1 - 1\<rparr>
                    in (VM_DONE, if soft_cnt s2 = 0 then dbg_soft_disable s2 else s2))
              else (VM_FAIL, s1))"

text \<open>A resume reads the slot of the last event only when that was a software breakpoint. The
  work after the single step does not check it again; \<^verbatim>\<open>None\<close> is a pointer that is not one.\<close>

definition dbg_soft_resume :: "'a dbg_vm_scheme \<Rightarrow> (vmerr \<times> 'a dbg_vm_scheme) option" where
  "dbg_soft_resume s =
     (if evt_kind s \<noteq> DBG_EVT_TYPE_SOFT_BRK then Some (VM_IGNORE, s)
      else case evt_src s of
        EvtHard n \<Rightarrow> None
      | EvtSoft i \<Rightarrow>
          (let bp = soft_list s ! i
           in if \<not> bp_on bp \<or> bp_addr bp \<noteq> evt_addr s then Some (VM_IGNORE, s)
              else let (rc, s1) = uu_dbg_soft_restore_insn i s
                   in Some (rc, if rc = VM_DONE then s1\<lparr>soft_rs := True\<rparr> else s1)))"

definition dbg_soft_resume_post :: "'a dbg_vm_scheme \<Rightarrow> (vmerr \<times> 'a dbg_vm_scheme) option" where
  "dbg_soft_resume_post s =
     (case evt_src s of
        EvtHard n \<Rightarrow> None
      | EvtSoft i \<Rightarrow>
          (let (rc, s1) = uu_dbg_soft_restore_bp i s
           in Some (rc, if rc = VM_DONE then s1\<lparr>soft_rs := False\<rparr> else s1)))"

definition dbg_soft_disarm :: "'a dbg_vm_scheme \<Rightarrow> vmerr \<times> 'a dbg_vm_scheme" where
  "dbg_soft_disarm s =
     (let (rc, i, s1) = dbg_soft_for_each dbg_soft_restore_insn VM_FAIL s
      in if rc = VM_FAIL then (VM_FAIL, s1) else (VM_DONE, s1\<lparr>soft_dis := True\<rparr>))"

definition dbg_soft_rearm :: "'a dbg_vm_scheme \<Rightarrow> vmerr \<times> 'a dbg_vm_scheme" where
  "dbg_soft_rearm s =
     (let (rc, i, s1) = dbg_soft_for_each dbg_soft_restore_bp VM_FAIL s
      in if rc = VM_FAIL then (VM_FAIL, s1) else (VM_DONE, s1\<lparr>soft_dis := False\<rparr>))"

text \<open>The event also hands out the handler of the breakpoint.\<close>

definition dbg_soft_event :: "'a dbg_vm_scheme \<Rightarrow> vmerr \<times> u64 \<times> 'a dbg_vm_scheme" where
  "dbg_soft_event s =
     (if \<not> soft_on s then (VM_IGNORE, 0, s)
      else let (addr, mode) = vm_get_code_addr 0 s;
               (rc, i, s1) = dbg_soft_for_each (dbg_soft_check_bp addr) (VM_DONE OR VM_FAIL) s
           in if rc = VM_DONE
              then (let bp = soft_list s1 ! i
                    in (VM_DONE, bp_hdlr bp,
                        s1\<lparr>evt_kind := DBG_EVT_TYPE_SOFT_BRK, evt_src := EvtSoft i, evt_addr := bp_addr bp\<rparr>))
              else (VM_IGNORE, 0, s1))"

section \<open>One byte of linear memory\<close>

definition vtrans :: "'a vm_state_scheme \<Rightarrow> u64 \<Rightarrow> offset_t \<Rightarrow> offset_t option" where
  "vtrans s cr3 a = (if cr0_pg s then translate s cr3 a else Some a)"

lemma mem_write_1 [simp]: "mem_write m p [b] = m(p := b)"
proof
  fix x
  have "unat (x - p) < 1 \<longleftrightarrow> x = p" by (simp add: unat_eq_0)
  then show "mem_write m p [b] x = (m(p := b)) x" by (auto simp: mem_write_def)
qed

lemma area_range_1: "vmm_area_range s p 1 = vmm_area s p"
  by (simp add: vmm_area_range_def)

lemma physical_1:
  "acc_len a = 1 \<Longrightarrow> \<not> acc_remote a \<Longrightarrow> uu_vm_access_physical a s =
   Some (if vmm_area s (acc_addr a) then (VM_FAIL, a, s) else uu_vm_access_local_operator a s)"
  by (simp add: uu_vm_access_physical_def uu_vm_access_system_identity_def area_range_1)

lemma min_1: "d \<noteq> 0 \<Longrightarrow> min 1 d = 1" for d :: u64
  using unat_gt_0 [of d] by (simp add: min_def word_le_nat_alt Suc_le_eq)

lemma loop_1:
  assumes "\<not> acc_remote a" and "acc_rq a = VM_ACC_REQ_VMM"
  shows "vm_access_loop a v 1 wlk s = Some
     (case translate s (acc_cr3 a) v of
        None \<Rightarrow> (if fst (uu_pg_walk s (acc_cr3 a) v wlk) = VM_FAIL then VM_FAIL else VM_PARTIAL, a, s)
      | Some p \<Rightarrow> (if vmm_area s p then (VM_FAIL, a\<lparr>acc_addr := p, acc_len := 1\<rparr>, s)
                  else uu_vm_access_local_operator (a\<lparr>acc_addr := p, acc_len := 1\<rparr>) s))"
proof (cases "translate s (acc_cr3 a) v")
  case None
  obtain rc w where w: "uu_pg_walk s (acc_cr3 a) v wlk = (rc, w)" by (cases "uu_pg_walk s (acc_cr3 a) v wlk")
  have "rc \<noteq> VM_DONE" using None translate_walk w by fastforce
  then have "rc = VM_FAIL \<or> rc = VM_FAULT" using pg_walk_rc [of s "acc_cr3 a" v wlk] w by auto
  then show ?thesis using None w assms
    by (auto simp: vm_access_loop.simps [of a v 1] uu_vm_access_validate_def vmerr_defs)
next
  case (Some p)
  then obtain w where w: "uu_pg_walk s (acc_cr3 a) v wlk = (VM_DONE, w)" "wlk_addr w = p" using translate_SomeD by blast
  have "uu_align_next v (wlk_size w) - v \<noteq> 0"
    using walk_progress [OF w(1), of 1] by (auto simp: min_def split: if_splits)
  then have "min 1 (uu_align_next v (wlk_size w) - v) = 1" by (rule min_1)
  then show ?thesis using Some w validate_vmm [OF w(1) assms(2)] assms
    by (auto simp: vm_access_loop.simps [of a v 1] physical_1 vm_access_loop.simps [of _ _ 0]
        uu_vm_access_local_operator_def Let_def vmerr_defs)
qed

lemma write_byte:
  assumes "vtrans s cr3 a = Some p" and "\<not> vmm_area s p"
  shows "ctrl_vmem_write_with cr3 a b s = (VM_DONE, s\<lparr>vm_mem := (vm_mem s)(p := b)\<rparr>)"
proof (cases "cr0_pg s")
  case True
  then show ?thesis using assms
    by (simp add: ctrl_vmem_write_with_def uu_vm_write_vmem_def acc_state_def uu_vm_access_virtual_def
        uu_vm_access_setup_def loop_1 vtrans_def uu_vm_access_local_operator_def)
next
  case False
  then show ?thesis using assms
    by (simp add: ctrl_vmem_write_with_def uu_vm_write_vmem_def acc_state_def uu_vm_access_virtual_def
        uu_vm_access_setup_def physical_1 vtrans_def uu_vm_access_local_operator_def)
qed

lemma write_byte_fails:
  assumes "\<nexists>p. vtrans s cr3 a = Some p \<and> \<not> vmm_area s p"
  shows "\<exists>rc. rc \<in> {VM_FAIL, VM_PARTIAL} \<and> ctrl_vmem_write_with cr3 a b s = (rc, s)"
  using assms
  by (cases "cr0_pg s"; cases "vtrans s cr3 a")
    (auto simp: ctrl_vmem_write_with_def uu_vm_write_vmem_def acc_state_def uu_vm_access_virtual_def
        uu_vm_access_setup_def loop_1 physical_1 vtrans_def)

lemma read_byte:
  assumes "vtrans s cr3 a = Some p" and "\<not> vmm_area s p"
  shows "ctrl_vmem_read_with cr3 a b s = (VM_DONE, vm_mem s p, s)"
  using assms
  by (cases "cr0_pg s")
    (simp_all add: ctrl_vmem_read_with_def uu_vm_read_vmem_def acc_bytes_def uu_vm_access_virtual_def
        uu_vm_access_setup_def loop_1 physical_1 vtrans_def uu_vm_access_local_operator_def mem_read_def)

lemma read_byte_fails:
  assumes "\<nexists>p. vtrans s cr3 a = Some p \<and> \<not> vmm_area s p"
  shows "\<exists>rc. rc \<in> {VM_FAIL, VM_PARTIAL} \<and> ctrl_vmem_read_with cr3 a b s = (rc, b, s)"
  using assms
  by (cases "cr0_pg s"; cases "vtrans s cr3 a")
    (auto simp: ctrl_vmem_read_with_def uu_vm_read_vmem_def acc_bytes_def uu_vm_access_virtual_def
        uu_vm_access_setup_def loop_1 physical_1 vtrans_def)

section \<open>Arming and disarming\<close>

lemma walk_trunc:
  fixes s :: "'a vm_state_scheme"
  shows "uu_pg_walk (vm_state.truncate s) cr3 v wlk = uu_pg_walk s cr3 v wlk"
proof -
  have a: "vmm_area (vm_state.truncate s) = vmm_area s" by (simp add: fun_eq_iff vmm_area_def vm_state.truncate_def)
  have b: "vmm_area_range (vm_state.truncate s) = vmm_area_range s" by (simp add: fun_eq_iff vmm_area_range_def a)
  have c: "rd_u64 (vm_state.truncate s) = rd_u64 s" "rd_u32 (vm_state.truncate s) = rd_u32 s"
    by (simp_all add: fun_eq_iff rd_u64_def rd_u32_def vm_state.truncate_def)
  have d: "pg64_executable (vm_state.truncate s) = pg64_executable s"
    by (simp add: fun_eq_iff pg64_executable_def vm_state.truncate_def)
  have e: "pg_wlk_and (vm_state.truncate s) = pg_wlk_and s" by (simp add: fun_eq_iff pg_wlk_and_def d)
  have f: "efer_lma (vm_state.truncate s) = efer_lma s" "cr4_pae (vm_state.truncate s) = cr4_pae s"
    "cr4_pse (vm_state.truncate s) = cr4_pse s" "vmm_pg_1G (vm_state.truncate s) = vmm_pg_1G s"
    by (simp_all add: vm_state.truncate_def)
  show ?thesis
    unfolding uu_pg_walk_def uu_pg_walk_lmode_def uu_pg_walk_pmode_pae_def uu_pg_walk_pmode_def b c d e f ..
qed

lemma vtrans_trunc: "vm_state.truncate s = vm_state.truncate t \<Longrightarrow> vtrans s cr3 a = vtrans t cr3 a"
proof -
  assume e: "vm_state.truncate s = vm_state.truncate t"
  then have "translate s cr3 a = translate t cr3 a" unfolding translate_def using walk_trunc [of s] walk_trunc [of t] by simp
  moreover have "cr0_pg s = cr0_pg t" using arg_cong [OF e, of cr0_pg] by (simp add: vm_state.truncate_def)
  ultimately show ?thesis by (simp add: vtrans_def)
qed

lemma vtrans_list [simp]:
  "vtrans (s\<lparr>soft_list := l\<rparr>) cr3 a = vtrans s cr3 a"
  "vtrans (s\<lparr>vm_mem := m, soft_list := l\<rparr>) cr3 a = vtrans (s\<lparr>vm_mem := m\<rparr>) cr3 a"
  by (rule vtrans_trunc, simp add: vm_state.truncate_def)+

lemma soft_loop_inv:
  assumes "P i s" and "\<And>j t. i \<le> j \<Longrightarrow> j \<le> i + n \<Longrightarrow> P j t \<Longrightarrow>
     \<exists>rc t'. hdl j t = (rc, t') \<and> rc AND stop = 0 \<and> P (Suc j) t'"
  shows "\<exists>rc t. dbg_soft_loop hdl stop n i s = (rc, i + n, t) \<and> rc AND stop = 0 \<and> P (Suc (i + n)) t"
  using assms
proof (induction n arbitrary: i s)
  case 0
  then show ?case by force
next
  case (Suc n)
  obtain rc t' where h: "hdl i s = (rc, t')" "rc AND stop = 0" "P (Suc i) t'" using Suc.prems(2) [of i s] Suc.prems(1) by auto
  have "\<exists>rc t. dbg_soft_loop hdl stop n (Suc i) t' = (rc, Suc i + n, t) \<and> rc AND stop = 0 \<and> P (Suc (Suc i + n)) t"
    using Suc.prems(2) h(3) by (intro Suc.IH) auto
  then show ?case using h by simp
qed

definition on_set :: "soft_bp list \<Rightarrow> nat set" where
  "on_set l = {i. i < length l \<and> bp_on (l ! i)}"

text \<open>A table whose active breakpoints are set and not armed: \<open>fr i\<close> is where breakpoint \<open>i\<close> is in
  physical memory, outside of the protected area, its saved byte is the one there, and none
  of these places takes part in the translations.\<close>

definition bp_ready :: "'a dbg_vm_scheme \<Rightarrow> (nat \<Rightarrow> offset_t) \<Rightarrow> bool" where
  "bp_ready s fr =
     (length (soft_list s) = DBG_SOFT_NR \<and>
      (\<forall>i \<in> on_set (soft_list s). let bp = soft_list s ! i in
         \<not> bp_st bp \<and> \<not> vmm_area s (fr i) \<and> vm_mem s (fr i) = bp_byte bp \<and>
         (\<forall>m. (\<forall>x. x \<notin> fr ` on_set (soft_list s) \<longrightarrow> m x = vm_mem s x) \<longrightarrow>
              vtrans (s\<lparr>vm_mem := m\<rparr>) (bp_cr3 bp) (bp_addr bp) = Some (fr i))))"

text \<open>The first \<open>j\<close> slots armed.\<close>

definition arm_list :: "nat set \<Rightarrow> soft_bp list \<Rightarrow> soft_bp list" where
  "arm_list A l = map (\<lambda>i. if i \<in> A then (l ! i)\<lparr>bp_st := True\<rparr> else l ! i) [0..<length l]"

definition arm_mem :: "(nat \<Rightarrow> offset_t) \<Rightarrow> nat set \<Rightarrow> (offset_t \<Rightarrow> u8) \<Rightarrow> offset_t \<Rightarrow> u8" where
  "arm_mem fr A m = (\<lambda>x. if x \<in> fr ` A then BREAKPOINT_INSN else m x)"

lemma arm_list_nth [simp]: "i < length l \<Longrightarrow> arm_list A l ! i = (if i \<in> A then (l ! i)\<lparr>bp_st := True\<rparr> else l ! i)"
  by (simp add: arm_list_def)

lemma length_arm_list [simp]: "length (arm_list A l) = length l"
  by (simp add: arm_list_def)

lemma arm_list_insert: "i < length l \<Longrightarrow> (arm_list A l)[i := (arm_list A l ! i)\<lparr>bp_st := True\<rparr>] = arm_list (insert i A) l"
  by (rule nth_equalityI) (auto simp: nth_list_update)

lemma arm_list_remove:
  "i < length l \<Longrightarrow> \<not> bp_st (l ! i) \<Longrightarrow> (arm_list A l)[i := (arm_list A l ! i)\<lparr>bp_st := False\<rparr>] = arm_list (A - {i}) l"
  by (rule nth_equalityI) (auto simp: nth_list_update)

lemma arm_mem_insert: "(arm_mem fr A m)(fr i := BREAKPOINT_INSN) = arm_mem fr (insert i A) m"
  by (auto simp: arm_mem_def fun_eq_iff)

lemma arm_list_empty [simp]: "arm_list {} l = l"
  by (rule nth_equalityI) auto

lemma arm_mem_empty [simp]: "arm_mem fr {} m = m"
  by (simp add: arm_mem_def)

lemma bp_readyD:
  assumes "bp_ready s fr" and i: "i \<in> on_set (soft_list s)"
  shows "\<forall>x. x \<notin> fr ` on_set (soft_list s) \<longrightarrow> m x = vm_mem s x \<Longrightarrow>
      vtrans (s\<lparr>vm_mem := m\<rparr>) (bp_cr3 (soft_list s ! i)) (bp_addr (soft_list s ! i)) = Some (fr i)"
    and "\<not> vmm_area s (fr i)" and "vm_mem s (fr i) = bp_byte (soft_list s ! i)" and "\<not> bp_st (soft_list s ! i)"
  using assms unfolding bp_ready_def Let_def by blast+

definition arm_state :: "(offset_t \<Rightarrow> u8) \<Rightarrow> nat set \<Rightarrow> 'a dbg_vm_scheme \<Rightarrow> 'a dbg_vm_scheme" where
  "arm_state m A s = s\<lparr>vm_mem := m, soft_list := arm_list A (soft_list s)\<rparr>"

lemma arm_state_sel [simp]:
  "soft_list (arm_state m A s) = arm_list A (soft_list s)" "vm_mem (arm_state m A s) = m"
  "soft_rs (arm_state m A s) = soft_rs s" "vmm_area (arm_state m A s) = vmm_area s"
  by (simp_all add: arm_state_def vmm_area_def fun_eq_iff)

lemma arm_state_write [simp]:
  "arm_state m A s\<lparr>vm_mem := m', soft_list := arm_list B (soft_list s)\<rparr> = arm_state m' B s"
  by (simp add: arm_state_def)

lemma vtrans_arm_state [simp]: "vtrans (arm_state m A s) cr3 a = vtrans (s\<lparr>vm_mem := m\<rparr>) cr3 a"
  by (simp add: arm_state_def)

lemma rearm_slot:
  assumes rdy: "bp_ready s fr" and "\<not> soft_rs s" and A: "A \<subseteq> on_set (soft_list s)" "i \<notin> A" "i < DBG_SOFT_NR"
  shows "\<exists>rc. dbg_soft_restore_bp i (arm_state (arm_mem fr A (vm_mem s)) A s)
     = (rc, let A' = A \<union> ({i} \<inter> on_set (soft_list s)) in arm_state (arm_mem fr A' (vm_mem s)) A' s) \<and> rc AND VM_FAIL = 0"
proof (cases "i \<in> on_set (soft_list s)")
  case True
  have len: "i < length (soft_list s)" using rdy A(3) by (simp add: bp_ready_def)
  have v: "vtrans (s\<lparr>vm_mem := arm_mem fr A (vm_mem s)\<rparr>) (bp_cr3 (soft_list s ! i)) (bp_addr (soft_list s ! i)) = Some (fr i)"
    by (rule bp_readyD(1) [OF rdy True]) (use A(1) in \<open>auto simp: arm_mem_def\<close>)
  let ?t = "arm_state (arm_mem fr A (vm_mem s)) A s"
  have w: "ctrl_vmem_write_with (bp_cr3 (soft_list s ! i)) (bp_addr (soft_list s ! i)) BREAKPOINT_INSN ?t
     = (VM_DONE, ?t\<lparr>vm_mem := arm_mem fr (insert i A) (vm_mem s)\<rparr>)"
    using write_byte [of ?t "bp_cr3 (soft_list s ! i)" "bp_addr (soft_list s ! i)" "fr i" BREAKPOINT_INSN] v bp_readyD(2) [OF rdy True]
    by (simp add: arm_mem_insert)
  have "bp_on (soft_list s ! i)" using True by (simp add: on_set_def)
  then show ?thesis using bp_readyD(4) [OF rdy True] assms(2) A True len w
    by (auto simp: dbg_soft_restore_bp_def uu_dbg_soft_restore_bp_def Let_def set_slot_def arm_list_insert [symmetric]
        arm_state_def vmerr_defs)
next
  case False
  then have "\<not> bp_on (soft_list s ! i)" "i < length (soft_list s)" using rdy A(3) by (auto simp: on_set_def bp_ready_def)
  then show ?thesis using False A by (auto simp: dbg_soft_restore_bp_def Let_def vmerr_defs)
qed


lemma rearm_spec:
  assumes rdy: "bp_ready s fr" and rs: "\<not> soft_rs s"
  shows "dbg_soft_rearm s =
    (VM_DONE, (arm_state (arm_mem fr (on_set (soft_list s)) (vm_mem s)) (on_set (soft_list s)) s)\<lparr>soft_dis := False\<rparr>)"
proof -
  define A where "A j = on_set (soft_list s) \<inter> {..<j}" for j
  define P where "P j t = (t = arm_state (arm_mem fr (A j) (vm_mem s)) (A j) s)" for j t
  have A: "A j \<union> ({j} \<inter> on_set (soft_list s)) = A (Suc j)" for j by (auto simp: A_def)
  have full: "A (Suc (DBG_SOFT_NR - 1)) = on_set (soft_list s)"
    using rdy by (auto simp: A_def on_set_def bp_ready_def DBG_SOFT_NR_def)
  have "\<exists>rc t. dbg_soft_loop dbg_soft_restore_bp VM_FAIL (DBG_SOFT_NR - 1) 0 s = (rc, 0 + (DBG_SOFT_NR - 1), t)
      \<and> rc AND VM_FAIL = 0 \<and> P (Suc (0 + (DBG_SOFT_NR - 1))) t"
  proof (rule soft_loop_inv)
    show "P 0 s" by (simp add: P_def A_def arm_state_def)
    fix j t assume j: "j \<le> 0 + (DBG_SOFT_NR - 1)" and t: "P j t"
    from j have "j < DBG_SOFT_NR" by (simp add: DBG_SOFT_NR_def)
    from rearm_slot [OF rdy rs _ _ this, of "A j"] A t
    show "\<exists>rc t'. dbg_soft_restore_bp j t = (rc, t') \<and> rc AND VM_FAIL = 0 \<and> P (Suc j) t'"
      by (simp add: P_def A_def Let_def)
  qed
  then show ?thesis using full by (auto simp: dbg_soft_rearm_def dbg_soft_for_each_def P_def vmerr_defs)
qed

text \<open>The state while disarming: slots below \<open>j\<close> are restored.\<close>

definition disarming :: "'a dbg_vm_scheme \<Rightarrow> (nat \<Rightarrow> offset_t) \<Rightarrow> nat \<Rightarrow> 'a dbg_vm_scheme \<Rightarrow> bool" where
  "disarming s fr j t =
     (\<exists>m. t = arm_state m (on_set (soft_list s) \<inter> {j..}) s
        \<and> (\<forall>x. x \<notin> fr ` (on_set (soft_list s)) \<longrightarrow> m x = vm_mem s x)
        \<and> (\<forall>i \<in> on_set (soft_list s). i < j \<longrightarrow> m (fr i) = vm_mem s (fr i)))"

lemma disarm_slot:
  assumes rdy: "bp_ready s fr" and t: "disarming s fr j t" and j: "j < DBG_SOFT_NR"
  shows "\<exists>rc t'. dbg_soft_restore_insn j t = (rc, t') \<and> rc AND VM_FAIL = 0 \<and> disarming s fr (Suc j) t'"
proof -
  obtain m where m: "t = arm_state m (on_set (soft_list s) \<inter> {j..}) s"
      "\<forall>x. x \<notin> fr ` (on_set (soft_list s)) \<longrightarrow> m x = vm_mem s x"
      "\<forall>i \<in> on_set (soft_list s). i < j \<longrightarrow> m (fr i) = vm_mem s (fr i)"
    using t by (auto simp: disarming_def)
  have len: "j < length (soft_list s)" using rdy j by (simp add: bp_ready_def)
  show ?thesis
  proof (cases "j \<in> on_set (soft_list s)")
    case True
    let ?bp = "soft_list s ! j"
    have w: "ctrl_vmem_write_with (bp_cr3 ?bp) (bp_addr ?bp) (bp_byte ?bp) t = (VM_DONE, t\<lparr>vm_mem := m(fr j := vm_mem s (fr j))\<rparr>)"
      using write_byte [of t "bp_cr3 ?bp" "bp_addr ?bp" "fr j" "bp_byte ?bp"] bp_readyD [OF rdy True] m by simp
    have st: "\<not> bp_st ?bp" by (rule bp_readyD(4) [OF rdy True])
    have "(on_set (soft_list s) \<inter> {j..}) - {j} = on_set (soft_list s) \<inter> {Suc j..}" by auto
    then have l: "(arm_list (on_set (soft_list s) \<inter> {j..}) (soft_list s))[j := (arm_list (on_set (soft_list s) \<inter> {j..}) (soft_list s) ! j)\<lparr>bp_st := False\<rparr>]
        = arm_list (on_set (soft_list s) \<inter> {Suc j..}) (soft_list s)"
      using arm_list_remove [OF len st] by simp
    have "dbg_soft_restore_insn j t = (VM_DONE, arm_state (m(fr j := vm_mem s (fr j))) (on_set (soft_list s) \<inter> {Suc j..}) s)"
      using True w len l [symmetric] m(1)
      by (simp add: dbg_soft_restore_insn_def uu_dbg_soft_restore_insn_def Let_def set_slot_def on_set_def arm_state_def)
    moreover have "disarming s fr (Suc j) (arm_state (m(fr j := vm_mem s (fr j))) (on_set (soft_list s) \<inter> {Suc j..}) s)"
      unfolding disarming_def using m(2,3) by (intro exI [of _ "m(fr j := vm_mem s (fr j))"]) (auto simp: less_Suc_eq)
    ultimately show ?thesis by (simp add: vmerr_defs)
  next
    case False
    then have "on_set (soft_list s) \<inter> {j..} = on_set (soft_list s) \<inter> {Suc j..}" by (auto simp: Suc_le_eq order_le_less)
    then have "disarming s fr (Suc j) t" using m False unfolding disarming_def by (intro exI [of _ m]) (auto simp: less_Suc_eq)
    moreover have "dbg_soft_restore_insn j t = (VM_IGNORE, t)"
      using False len m(1) by (simp add: dbg_soft_restore_insn_def on_set_def)
    ultimately show ?thesis by (simp add: vmerr_defs)
  qed
qed

lemma disarm_spec:
  assumes rdy: "bp_ready s fr" and t: "disarming s fr 0 t"
  shows "dbg_soft_disarm t = (VM_DONE, s\<lparr>soft_dis := True\<rparr>)"
proof -
  have "\<exists>rc t'. dbg_soft_loop dbg_soft_restore_insn VM_FAIL (DBG_SOFT_NR - 1) 0 t = (rc, 0 + (DBG_SOFT_NR - 1), t')
      \<and> rc AND VM_FAIL = 0 \<and> disarming s fr (Suc (0 + (DBG_SOFT_NR - 1))) t'"
    by (rule soft_loop_inv [where P = "disarming s fr", OF t]) (rule disarm_slot [OF rdy], auto simp: DBG_SOFT_NR_def)
  then obtain rc t' where l: "dbg_soft_loop dbg_soft_restore_insn VM_FAIL (DBG_SOFT_NR - 1) 0 t = (rc, DBG_SOFT_NR - 1, t')"
      "rc AND VM_FAIL = 0" "disarming s fr DBG_SOFT_NR t'" by (auto simp: DBG_SOFT_NR_def)
  then obtain m where m: "t' = arm_state m (on_set (soft_list s) \<inter> {DBG_SOFT_NR..}) s"
      "\<forall>x. x \<notin> fr ` (on_set (soft_list s)) \<longrightarrow> m x = vm_mem s x"
      "\<forall>i \<in> on_set (soft_list s). i < DBG_SOFT_NR \<longrightarrow> m (fr i) = vm_mem s (fr i)"
    by (auto simp: disarming_def)
  have len: "i < DBG_SOFT_NR" if "i \<in> on_set (soft_list s)" for i using rdy that by (simp add: on_set_def bp_ready_def)
  then have "on_set (soft_list s) \<inter> {DBG_SOFT_NR..} = {}" by (auto simp: not_le [symmetric])
  moreover have "m = vm_mem s"
  proof
    fix x show "m x = vm_mem s x" using m(2,3) len by (cases "x \<in> fr ` on_set (soft_list s)") auto
  qed
  ultimately have "t' = s" using m(1) by (simp add: arm_state_def)
  then show ?thesis using l by (auto simp: dbg_soft_disarm_def dbg_soft_for_each_def vmerr_defs)
qed

section \<open>Finding a slot\<close>

lemma soft_loop_stop:
  assumes "\<And>j. i \<le> j \<Longrightarrow> j < k \<Longrightarrow> \<exists>rc. hdl j s = (rc, s) \<and> rc AND stop = 0"
    and "hdl k s = (rc, s')" and "rc AND stop \<noteq> 0" and "i \<le> k" and "k \<le> i + n"
  shows "dbg_soft_loop hdl stop n i s = (rc, k, s')"
  using assms
proof (induction n arbitrary: i)
  case 0
  then show ?case by simp
next
  case (Suc n)
  show ?case
  proof (cases "i = k")
    case True
    then show ?thesis using Suc.prems by simp
  next
    case False
    then obtain rc0 where "hdl i s = (rc0, s)" "rc0 AND stop = 0" using Suc.prems(1) [of i] Suc.prems(4) by force
    then show ?thesis using Suc.IH [of "Suc i"] Suc.prems False by simp
  qed
qed

lemma set_slot_sel [simp]:
  "vm_mem (set_slot i f s) = vm_mem s" "soft_cnt (set_slot i f s) = soft_cnt s"
  "soft_list (set_slot i f s) = (soft_list s)[i := f (soft_list s ! i)]"
  "vmm_area (set_slot i f s) = vmm_area s" "vtrans (set_slot i f s) cr3 a = vtrans s cr3 a"
  "active_cr3 (set_slot i f s) = active_cr3 s"
  by (simp_all add: set_slot_def vmm_area_def fun_eq_iff active_cr3_def)

lemma enable_sel [simp]:
  "vm_mem (dbg_soft_enable s) = vm_mem s" "soft_cnt (dbg_soft_enable s) = soft_cnt s"
  "soft_list (dbg_soft_enable s) = soft_list s" "vmm_area (dbg_soft_enable s) = vmm_area s"
  "vtrans (dbg_soft_enable s) cr3 a = vtrans s cr3 a" "soft_on (dbg_soft_enable s)"
  "bit (dbg_excp (dbg_soft_enable s)) BP_EXCP"
proof -
  show "vtrans (dbg_soft_enable s) cr3 a = vtrans s cr3 a"
    by (rule vtrans_trunc) (simp add: vm_state.truncate_def dbg_soft_enable_def dbg_soft_protect_def)
qed (simp_all add: dbg_soft_enable_def dbg_soft_protect_def vmm_area_def fun_eq_iff bit_or_iff bit_push_bit_iff BP_EXCP_def)

definition new_bp :: "offset_t \<Rightarrow> u64 \<Rightarrow> offset_t \<Rightarrow> 'a dbg_vm_scheme \<Rightarrow> soft_bp \<Rightarrow> soft_bp" where
  "new_bp addr hdlr p s bp =
     bp\<lparr>bp_addr := addr, bp_on := True, bp_cr3 := active_cr3 s, bp_byte := vm_mem s p, bp_hdlr := hdlr\<rparr>"

text \<open>Slot \<open>i\<close> is the one a breakpoint at \<open>addr\<close> goes to, and the byte there is readable.\<close>

definition free_slot :: "offset_t \<Rightarrow> nat \<Rightarrow> offset_t \<Rightarrow> 'a dbg_vm_scheme \<Rightarrow> bool" where
  "free_slot addr i p s =
     (length (soft_list s) = DBG_SOFT_NR \<and> i < DBG_SOFT_NR \<and> \<not> bp_on (soft_list s ! i)
      \<and> (\<forall>j < i. bp_on (soft_list s ! j) \<and> bp_addr (soft_list s ! j) \<noteq> addr)
      \<and> vtrans s (active_cr3 s) addr = Some p \<and> \<not> vmm_area s p)"

lemma dbg_soft_set_free:
  assumes "free_slot addr i p s" and "soft_cnt s \<noteq> of_nat DBG_SOFT_NR"
  shows "dbg_soft_set addr hdlr s =
    (VM_DONE, dbg_soft_enable (set_slot i (new_bp addr hdlr p s) s\<lparr>soft_cnt := soft_cnt s + 1\<rparr>))"
proof -
  define s1 where "s1 = set_slot i (\<lambda>bp. bp\<lparr>bp_addr := addr, bp_on := True, bp_cr3 := active_cr3 s\<rparr>) s"
  have i: "i < length (soft_list s)" using assms(1) by (simp add: free_slot_def)
  have "ctrl_vmem_read_with (active_cr3 s) addr (bp_byte (soft_list s ! i)) s1 = (VM_DONE, vm_mem s p, s1)"
    using read_byte [of s1 "active_cr3 s" addr p] assms(1) by (simp add: s1_def free_slot_def)
  then have h: "dbg_soft_set_bp addr i s = (VM_DONE, set_slot i (bp_byte_update (\<lambda>_. vm_mem s p)) s1)"
    using assms(1) by (simp add: dbg_soft_set_bp_def Let_def s1_def free_slot_def)
  have "dbg_soft_loop (dbg_soft_set_bp addr) (VM_DONE OR VM_FAIL) (DBG_SOFT_NR - 1) 0 s
      = (VM_DONE, i, set_slot i (bp_byte_update (\<lambda>_. vm_mem s p)) s1)"
    using assms(1) by (intro soft_loop_stop [where hdl = "dbg_soft_set_bp addr" and k = i, OF _ h])
      (auto simp: dbg_soft_set_bp_def free_slot_def vmerr_defs)
  then show ?thesis using assms(2) i
    by (simp add: dbg_soft_set_def dbg_soft_for_each_def s1_def set_slot_def new_bp_def)
qed

lemma disable_sel [simp]:
  "vm_mem (dbg_soft_disable s) = vm_mem s" "soft_cnt (dbg_soft_disable s) = soft_cnt s"
  "soft_list (dbg_soft_disable s) = soft_list s"
  by (simp_all add: dbg_soft_disable_def dbg_soft_release_def)

lemma dbg_soft_del_found:
  assumes "length (soft_list s) = DBG_SOFT_NR" and "i < DBG_SOFT_NR" and "soft_cnt s \<noteq> 0"
    and "bp_on (soft_list s ! i)" and "bp_addr (soft_list s ! i) = addr"
    and "\<And>j. j < i \<Longrightarrow> bp_addr (soft_list s ! j) \<noteq> addr \<or> \<not> bp_on (soft_list s ! j)"
    and "vtrans s (bp_cr3 (soft_list s ! i)) addr = Some p" and "\<not> vmm_area s p"
  shows "\<exists>s'. dbg_soft_del addr s = (VM_DONE, s') \<and> vm_mem s' = (vm_mem s)(p := bp_byte (soft_list s ! i))
    \<and> soft_list s' = (soft_list s)[i := (soft_list s ! i)\<lparr>bp_on := False, bp_st := False\<rparr>] \<and> soft_cnt s' = soft_cnt s - 1"
proof -
  define s1 where "s1 = set_slot i (bp_on_update (\<lambda>_. False)) s"
  have "ctrl_vmem_write_with (bp_cr3 (soft_list s ! i)) addr (bp_byte (soft_list s ! i)) s1
      = (VM_DONE, s1\<lparr>vm_mem := (vm_mem s)(p := bp_byte (soft_list s ! i))\<rparr>)"
    using write_byte [of s1 "bp_cr3 (soft_list s ! i)" addr p] assms(7,8) by (simp add: s1_def)
  then have h: "dbg_soft_del_bp addr i s
      = (VM_DONE, set_slot i (bp_st_update (\<lambda>_. False)) (s1\<lparr>vm_mem := (vm_mem s)(p := bp_byte (soft_list s ! i))\<rparr>))"
    using assms(1,2,4,5)
    by (simp add: dbg_soft_del_bp_def uu_dbg_soft_del_bp_def uu_dbg_soft_restore_insn_def Let_def s1_def vmerr_defs)
  have "dbg_soft_loop (dbg_soft_del_bp addr) (VM_DONE OR VM_FAIL) (DBG_SOFT_NR - 1) 0 s
      = (VM_DONE, i, set_slot i (bp_st_update (\<lambda>_. False)) (s1\<lparr>vm_mem := (vm_mem s)(p := bp_byte (soft_list s ! i))\<rparr>))"
    using assms(2) by (intro soft_loop_stop [where hdl = "dbg_soft_del_bp addr" and k = i, OF _ h])
      (use assms(6) in \<open>auto simp: dbg_soft_del_bp_def uu_dbg_soft_del_bp_def vmerr_defs\<close>)
  then show ?thesis using assms(1-3)
    by (simp add: dbg_soft_del_def dbg_soft_for_each_def Let_def s1_def set_slot_def)
qed

section \<open>A breakpoint at an address that is not mapped\<close>

text \<open>The walk faults for \<open>addr\<close>, and no breakpoint is there yet.\<close>

definition unmapped :: "offset_t \<Rightarrow> 'a dbg_vm_scheme \<Rightarrow> bool" where
  "unmapped addr s =
     (cr0_pg s \<and> fst (uu_pg_walk s (active_cr3 s) addr wlk_any) = VM_FAULT
      \<and> length (soft_list s) = DBG_SOFT_NR \<and> (\<forall>bp \<in> set (soft_list s). bp_on bp \<longrightarrow> bp_addr bp \<noteq> addr))"

lemma read_unmapped:
  assumes "cr0_pg s" and "fst (uu_pg_walk s cr3 addr wlk_any) = VM_FAULT"
  shows "ctrl_vmem_read_with cr3 addr b (s\<lparr>soft_list := l\<rparr>) = (VM_PARTIAL, b, s\<lparr>soft_list := l\<rparr>)"
proof -
  have t: "vm_state.truncate (s\<lparr>soft_list := l\<rparr>) = vm_state.truncate s" by (simp add: vm_state.truncate_def)
  then have w: "uu_pg_walk (s\<lparr>soft_list := l\<rparr>) cr3 addr wlk = uu_pg_walk s cr3 addr wlk" for wlk
    by (metis walk_trunc)
  have "translate (s\<lparr>soft_list := l\<rparr>) cr3 addr = None"
    using assms(2) by (auto simp: translate_def w vmerr_defs split: prod.split)
  then show ?thesis using assms
    by (simp add: ctrl_vmem_read_with_def uu_vm_read_vmem_def acc_bytes_def uu_vm_access_virtual_def
        uu_vm_access_setup_def loop_1 w) (simp add: vmerr_defs)
qed

lemma set_unmapped_loop:
  assumes "unmapped addr s"
  shows "\<exists>rc l. dbg_soft_for_each (dbg_soft_set_bp addr) (VM_DONE OR VM_FAIL) s = (rc, DBG_SOFT_NR - 1, s\<lparr>soft_list := l\<rparr>)
    \<and> rc \<noteq> VM_DONE \<and> length l = DBG_SOFT_NR \<and> (\<forall>i < DBG_SOFT_NR. bp_on (l ! i) \<and> (bp_addr (l ! i) = addr \<or> l ! i = soft_list s ! i))"
proof -
  define P where "P j t = (\<exists>l. t = s\<lparr>soft_list := l\<rparr> \<and> length l = DBG_SOFT_NR \<and> (\<forall>i. j \<le> i \<longrightarrow> l ! i = soft_list s ! i)
     \<and> (\<forall>i < j. bp_on (l ! i) \<and> (bp_addr (l ! i) = addr \<or> l ! i = soft_list s ! i)))" for j t
  have "\<exists>rc t. dbg_soft_loop (dbg_soft_set_bp addr) (VM_DONE OR VM_FAIL) (DBG_SOFT_NR - 1) 0 s = (rc, 0 + (DBG_SOFT_NR - 1), t)
      \<and> rc AND (VM_DONE OR VM_FAIL) = 0 \<and> P (Suc (0 + (DBG_SOFT_NR - 1))) t"
  proof (rule soft_loop_inv)
    show "P 0 s" using assms unfolding P_def by (intro exI [of _ "soft_list s"]) (simp add: unmapped_def)
    fix j t assume j: "j \<le> 0 + (DBG_SOFT_NR - 1)" and "P j t"
    then obtain l where l: "t = s\<lparr>soft_list := l\<rparr>" "length l = DBG_SOFT_NR" "\<forall>i. j \<le> i \<longrightarrow> l ! i = soft_list s ! i"
      "\<forall>i < j. bp_on (l ! i) \<and> (bp_addr (l ! i) = addr \<or> l ! i = soft_list s ! i)" by (auto simp: P_def)
    from j have jn: "j < DBG_SOFT_NR" by (simp add: DBG_SOFT_NR_def)
    have no: "bp_on (soft_list s ! j) \<Longrightarrow> bp_addr (soft_list s ! j) \<noteq> addr"
      using assms jn by (auto simp: unmapped_def)
    show "\<exists>rc t'. dbg_soft_set_bp addr j t = (rc, t') \<and> rc AND (VM_DONE OR VM_FAIL) = 0 \<and> P (Suc j) t'"
    proof (cases "bp_on (soft_list s ! j)")
      case True
      have "P (Suc j) t" unfolding P_def using l True by (intro exI [of _ l]) (auto simp: less_Suc_eq)
      then show ?thesis using True no l by (simp add: dbg_soft_set_bp_def vmerr_defs)
    next
      case False
      let ?l = "l[j := (l ! j)\<lparr>bp_addr := addr, bp_on := True, bp_cr3 := active_cr3 s\<rparr>]"
      have "active_cr3 t = active_cr3 s" using l(1) by (simp add: active_cr3_def)
      then have "dbg_soft_set_bp addr j t = (VM_PARTIAL, s\<lparr>soft_list := ?l\<rparr>)"
        using False l(1-3) jn assms read_unmapped [of s "active_cr3 s" addr _ ?l]
        by (simp add: dbg_soft_set_bp_def Let_def set_slot_def unmapped_def vmerr_defs)
      moreover have "P (Suc j) (s\<lparr>soft_list := ?l\<rparr>)"
        unfolding P_def using l jn by (intro exI [of _ ?l]) (auto simp: less_Suc_eq nth_list_update)
      ultimately show ?thesis by (simp add: vmerr_defs)
    qed
  qed
  then obtain rc l where l: "dbg_soft_for_each (dbg_soft_set_bp addr) (VM_DONE OR VM_FAIL) s = (rc, DBG_SOFT_NR - 1, s\<lparr>soft_list := l\<rparr>)"
      "rc AND (VM_DONE OR VM_FAIL) = 0" "length l = DBG_SOFT_NR"
      "\<forall>i < Suc (DBG_SOFT_NR - 1). bp_on (l ! i) \<and> (bp_addr (l ! i) = addr \<or> l ! i = soft_list s ! i)"
    by (auto simp: dbg_soft_for_each_def P_def)
  moreover have "rc \<noteq> VM_DONE" using l(2) by (auto simp: vmerr_defs)
  moreover have "Suc (DBG_SOFT_NR - 1) = DBG_SOFT_NR" by (simp add: DBG_SOFT_NR_def)
  ultimately show ?thesis by (intro exI [of _ rc] exI [of _ l]) simp
qed

section \<open>An example\<close>

definition bp_off :: soft_bp where
  "bp_off = \<lparr>bp_on = False, bp_st = False, bp_addr = 0, bp_hdlr = 0, bp_byte = 0, bp_cr3 = 0\<rparr>"

definition dbg_ex :: dbg_vm where
  "dbg_ex = vm_cpu.extend vm_ex (dbg_vm.fields False False False 0 (replicate DBG_SOFT_NR bp_off)
     0 0 0 (EvtSoft 0) False False False False 0 0 0 0 False False False False 0x400 [0, 0, 0, 0]
     False False 0 0 False [0, 0, 0, 0] 0xff0 0x400 [0, 0, 0, 0, 0xff0, 0x400] False False False 0 (replicate 16 0) False)"

lemma dbg_ex_sel [simp]:
  "soft_list dbg_ex = replicate DBG_SOFT_NR bp_off" "soft_cnt dbg_ex = 0" "soft_rs dbg_ex = False"
  "cr0_pg dbg_ex = True" "vm_mem dbg_ex = ex_mem" "vm_cr3 dbg_ex = 0x1000" "ctrl_cr3_on dbg_ex = False"
  "area_start dbg_ex = 0x10000" "area_end dbg_ex = 0x20000"
  by (simp_all add: dbg_ex_def vm_cpu.extend_def dbg_vm.fields_def vm_ex_def)

section \<open>Properties\<close>

text \<open>When the places of the breakpoints are mapped, outside of the protected area and not
  part of the page tables, arming succeeds and writes the breakpoint instruction at the place
  of every active breakpoint and nowhere else, and disarming afterwards succeeds and gives
  back the memory and the table as they were.\<close>

theorem dbg_soft_arm_disarm:
  assumes "bp_ready s fr" and "\<not> soft_rs s"
  shows "\<exists>s1. dbg_soft_rearm s = (VM_DONE, s1)
    \<and> (\<forall>x. vm_mem s1 x = (if x \<in> fr ` on_set (soft_list s) then BREAKPOINT_INSN else vm_mem s x))
    \<and> dbg_soft_disarm s1 = (VM_DONE, s\<lparr>soft_dis := True\<rparr>)"
proof -
  define s1 where "s1 = arm_state (arm_mem fr (on_set (soft_list s)) (vm_mem s)) (on_set (soft_list s)) s"
  have rdy: "bp_ready (s\<lparr>soft_dis := False\<rparr>) fr"
  proof -
    have "vtrans (s\<lparr>soft_dis := False, vm_mem := m\<rparr>) cr3 a = vtrans (s\<lparr>vm_mem := m\<rparr>) cr3 a" for m cr3 a
      by (rule vtrans_trunc) (simp add: vm_state.truncate_def)
    moreover have "vmm_area (s\<lparr>soft_dis := False\<rparr>) = vmm_area s" by (simp add: fun_eq_iff vmm_area_def)
    ultimately show ?thesis using assms(1) unfolding bp_ready_def by simp
  qed
  have "disarming (s\<lparr>soft_dis := False\<rparr>) fr 0 (s1\<lparr>soft_dis := False\<rparr>)"
    unfolding disarming_def s1_def
    by (intro exI [of _ "arm_mem fr (on_set (soft_list s)) (vm_mem s)"]) (auto simp: arm_state_def arm_mem_def)
  from disarm_spec [OF rdy this] have "dbg_soft_disarm (s1\<lparr>soft_dis := False\<rparr>) = (VM_DONE, s\<lparr>soft_dis := True\<rparr>)" by simp
  moreover have "dbg_soft_rearm s = (VM_DONE, s1\<lparr>soft_dis := False\<rparr>)" using rearm_spec [OF assms] by (simp add: s1_def)
  ultimately show ?thesis by (auto simp: s1_def arm_mem_def)
qed

definition bp_one :: "soft_bp list" where
  "bp_one = (replicate DBG_SOFT_NR bp_off)[0 := bp_off\<lparr>bp_on := True, bp_addr := 0x7000\<rparr>]"

theorem dbg_soft_arm_disarm_witness:
  "\<exists>s1. dbg_soft_rearm (dbg_ex\<lparr>cr0_pg := False, soft_list := bp_one\<rparr>) = (VM_DONE, s1) \<and> vm_mem s1 0x7000 = 0xcc
      \<and> fst (dbg_soft_disarm s1) = VM_DONE \<and> vm_mem (snd (dbg_soft_disarm s1)) 0x7000 = 0"
proof -
  let ?s = "dbg_ex\<lparr>cr0_pg := False, soft_list := bp_one\<rparr>"
  have on: "on_set bp_one = {0}"
    by (auto simp: bp_one_def on_set_def nth_list_update bp_off_def DBG_SOFT_NR_def split: if_splits)
  have z: "length bp_one = DBG_SOFT_NR" "\<not> bp_st (bp_one ! 0)" "bp_byte (bp_one ! 0) = 0" "bp_addr (bp_one ! 0) = 0x7000"
    by (simp_all add: DBG_SOFT_NR_def bp_one_def bp_off_def)
  have m: "ex_mem 0x7000 = 0" by (simp add: ex_mem_def)
  then have "bp_ready ?s (\<lambda>_. 0x7000)" by (simp add: bp_ready_def on z vtrans_def vmm_area_def uu_range_exc_def)
  from dbg_soft_arm_disarm [OF this] show ?thesis by (auto simp: on m BREAKPOINT_INSN_def)
qed

text \<open>A breakpoint at a mapped address where none is set goes to the first free slot with
  the byte there saved; deleting it afterwards succeeds and leaves the guest memory, the
  occupation of the table and the count as they were before.\<close>

theorem dbg_soft_set_then_del:
  assumes "free_slot addr i p s" and "soft_cnt s < of_nat DBG_SOFT_NR"
  shows "\<exists>s1 s2. dbg_soft_set addr hdlr s = (VM_DONE, s1)
    \<and> soft_list s1 = (soft_list s)[i := new_bp addr hdlr p s (soft_list s ! i)]
    \<and> vm_mem s1 = vm_mem s \<and> soft_on s1 \<and> bit (dbg_excp s1) BP_EXCP
    \<and> dbg_soft_del addr s1 = (VM_DONE, s2) \<and> vm_mem s2 = vm_mem s \<and> soft_cnt s2 = soft_cnt s
    \<and> map bp_on (soft_list s2) = map bp_on (soft_list s)"
proof -
  define s1 where "s1 = dbg_soft_enable (set_slot i (new_bp addr hdlr p s) s\<lparr>soft_cnt := soft_cnt s + 1\<rparr>)"
  have set: "dbg_soft_set addr hdlr s = (VM_DONE, s1)" using dbg_soft_set_free [OF assms(1)] assms(2) by (auto simp: s1_def)
  have i: "i < length (soft_list s)" "length (soft_list s) = DBG_SOFT_NR" "i < DBG_SOFT_NR" using assms(1) by (auto simp: free_slot_def)
  have cnt: "soft_cnt s + 1 \<noteq> 0" 
  proof
    assume "soft_cnt s + 1 = 0"
    then have "soft_cnt s = - 1" by (simp add: eq_neg_iff_add_eq_0)
    then show False using assms(2) by (simp add: DBG_SOFT_NR_def)
  qed
  have vt: "vtrans (s\<lparr>soft_cnt := c\<rparr>) cr3 a = vtrans s cr3 a" for c cr3 a
    by (rule vtrans_trunc) (simp add: vm_state.truncate_def)
  have vt1: "vtrans s1 cr3 a = vtrans s cr3 a" "vmm_area s1 = vmm_area s" for cr3 a
    by (simp_all add: s1_def set_slot_def) (rule vtrans_trunc, simp add: vm_state.truncate_def, simp add: fun_eq_iff vmm_area_def)
  have l1: "soft_list s1 = (soft_list s)[i := new_bp addr hdlr p s (soft_list s ! i)]" by (simp add: s1_def)
  have "\<exists>s2. dbg_soft_del addr s1 = (VM_DONE, s2) \<and> vm_mem s2 = (vm_mem s1)(p := bp_byte (soft_list s1 ! i))
      \<and> soft_list s2 = (soft_list s1)[i := (soft_list s1 ! i)\<lparr>bp_on := False, bp_st := False\<rparr>] \<and> soft_cnt s2 = soft_cnt s1 - 1"
    by (rule dbg_soft_del_found)
      (use assms(1) i cnt vt1 in \<open>auto simp: l1 new_bp_def free_slot_def s1_def\<close>)
  then obtain s2 where s2: "dbg_soft_del addr s1 = (VM_DONE, s2)" "vm_mem s2 = (vm_mem s1)(p := bp_byte (soft_list s1 ! i))"
      "soft_list s2 = (soft_list s1)[i := (soft_list s1 ! i)\<lparr>bp_on := False, bp_st := False\<rparr>]" "soft_cnt s2 = soft_cnt s1 - 1" by blast
  have "map bp_on (soft_list s2) = map bp_on (soft_list s)"
    using assms(1) i by (intro nth_equalityI) (auto simp: s2 l1 free_slot_def nth_list_update)
  moreover have "vm_mem s2 = vm_mem s" using i by (simp add: s2 l1 new_bp_def) (simp add: s1_def fun_upd_idem)
  moreover have "soft_cnt s2 = soft_cnt s" "vm_mem s1 = vm_mem s" "soft_on s1" "bit (dbg_excp s1) BP_EXCP" by (simp_all add: s2 s1_def)
  ultimately show ?thesis using set l1 s2(1) by blast
qed

theorem dbg_soft_set_then_del_witness:
  "\<exists>s1 s2. dbg_soft_set 0x1fff 7 dbg_ex = (VM_DONE, s1)
     \<and> bp_byte (soft_list s1 ! 0) = 0xaa \<and> bp_hdlr (soft_list s1 ! 0) = 7
     \<and> dbg_soft_del 0x1fff s1 = (VM_DONE, s2) \<and> vm_mem s2 = ex_mem"
proof -
  have "translate vm_ex 0x1000 0x1fff = Some 0x5fff" by code_simp
  moreover have "translate dbg_ex 0x1000 0x1fff = translate vm_ex 0x1000 0x1fff"
  proof -
    have "vm_state.truncate dbg_ex = vm_state.truncate vm_ex"
      by (simp add: vm_state.truncate_def dbg_ex_def vm_cpu.extend_def)
    then show ?thesis unfolding translate_def by (metis walk_trunc)
  qed
  ultimately have "free_slot 0x1fff 0 0x5fff dbg_ex"
    by (simp add: free_slot_def vtrans_def active_cr3_def vmm_area_def uu_range_exc_def bp_off_def DBG_SOFT_NR_def)
  from dbg_soft_set_then_del [OF this, of 7] show ?thesis
    by (force simp: DBG_SOFT_NR_def new_bp_def ex_mem_def)
qed

text \<open>C13: setting a breakpoint at a linear address that is not mapped fails, but it leaves
  every slot of the table occupied: after it no breakpoint at another address can be set any
  more, although the count of breakpoints has not moved.\<close>

theorem dbg_soft_set_unmapped_exhausts:
  assumes "unmapped addr s" and "soft_cnt s \<noteq> of_nat DBG_SOFT_NR"
    and "addr' \<noteq> addr" and "\<forall>bp \<in> set (soft_list s). bp_addr bp \<noteq> addr'"
  shows "\<exists>s1. dbg_soft_set addr hdlr s = (VM_FAIL, s1) \<and> soft_cnt s1 = soft_cnt s
    \<and> list_all bp_on (soft_list s1) \<and> dbg_soft_set addr' hdlr' s1 = (VM_FAIL, s1)"
proof -
  obtain rc l where l: "dbg_soft_for_each (dbg_soft_set_bp addr) (VM_DONE OR VM_FAIL) s = (rc, DBG_SOFT_NR - 1, s\<lparr>soft_list := l\<rparr>)"
    "rc \<noteq> VM_DONE" "length l = DBG_SOFT_NR" "\<forall>i < DBG_SOFT_NR. bp_on (l ! i) \<and> (bp_addr (l ! i) = addr \<or> l ! i = soft_list s ! i)"
    using set_unmapped_loop [OF assms(1)] by blast
  let ?s1 = "s\<lparr>soft_list := l\<rparr>"
  have s1: "dbg_soft_set addr hdlr s = (VM_FAIL, ?s1)" using assms(2) l by (simp add: dbg_soft_set_def)
  have on: "bp_on (l ! i) \<and> bp_addr (l ! i) \<noteq> addr'" if "i < DBG_SOFT_NR" for i
    using l(4) assms(1,3,4) that by (metis nth_mem unmapped_def)
  have "\<exists>rc t. dbg_soft_loop (dbg_soft_set_bp addr') (VM_DONE OR VM_FAIL) (DBG_SOFT_NR - 1) 0 ?s1 = (rc, 0 + (DBG_SOFT_NR - 1), t)
      \<and> rc AND (VM_DONE OR VM_FAIL) = 0 \<and> t = ?s1"
    by (rule soft_loop_inv [where P = "\<lambda>j t. t = ?s1"])
      (use on in \<open>auto simp: dbg_soft_set_bp_def vmerr_defs DBG_SOFT_NR_def\<close>)
  then obtain rc2 where "dbg_soft_for_each (dbg_soft_set_bp addr') (VM_DONE OR VM_FAIL) ?s1 = (rc2, DBG_SOFT_NR - 1, ?s1)"
    "rc2 AND (VM_DONE OR VM_FAIL) = 0" by (auto simp: dbg_soft_for_each_def)
  moreover from this have "rc2 \<noteq> VM_DONE" by (auto simp: vmerr_defs)
  ultimately have "dbg_soft_set addr' hdlr' ?s1 = (VM_FAIL, ?s1)" using assms(2) by (simp add: dbg_soft_set_def)
  moreover have "list_all bp_on l" using l(3,4) by (simp add: list_all_length)
  ultimately show ?thesis using s1 by simp
qed

theorem dbg_soft_set_unmapped_exhausts_witness:
  "\<exists>s1. dbg_soft_set 0x3000 0 dbg_ex = (VM_FAIL, s1) \<and> list_all bp_on (soft_list s1)
     \<and> dbg_soft_set 0x1fff 0 s1 = (VM_FAIL, s1)"
proof -
  have "fst (uu_pg_walk vm_ex 0x1000 0x3000 wlk_any) = VM_FAULT" by code_simp
  moreover have "uu_pg_walk dbg_ex 0x1000 0x3000 wlk_any = uu_pg_walk vm_ex 0x1000 0x3000 wlk_any"
  proof -
    have "vm_state.truncate dbg_ex = vm_state.truncate vm_ex"
      by (simp add: vm_state.truncate_def dbg_ex_def vm_cpu.extend_def)
    then show ?thesis by (metis walk_trunc)
  qed
  ultimately have "unmapped 0x3000 dbg_ex" by (simp add: unmapped_def active_cr3_def bp_off_def)
  from dbg_soft_set_unmapped_exhausts [OF this, of "0x1fff" 0 0] show ?thesis
    by (auto simp: bp_off_def DBG_SOFT_NR_def)
qed

end
