(* ===== verification/Dbg_Hard.thy ===== *)
theory Dbg_Hard
  imports Dbg_Soft
begin

text \<open>
  The hardware side of the debugger: hardware breakpoints
  (\<^verbatim>\<open>vmm/src/control/dbg_hard_brk.c\<close>), single step (\<^verbatim>\<open>dbg_hard_stp.c\<close>), what they share
  (\<^verbatim>\<open>dbg_hard.c\<close>), and the shadow debug registers the guest sees (\<^verbatim>\<open>vmm/src/core/dr.c\<close>).
  The event for the fast system call instructions needs the disassembler and is not modelled.
\<close>

section \<open>Debug registers\<close>

definition DBG_HARD_BRK_NR :: nat where "DBG_HARD_BRK_NR = 4"

definition DR7_COND_X :: u8 where "DR7_COND_X = 0"
definition DR7_COND_RW :: u8 where "DR7_COND_RW = 3"

definition DBG_EVT_TYPE_HARD_BRK_X :: u8 where "DBG_EVT_TYPE_HARD_BRK_X = DR7_COND_X"
definition DBG_EVT_TYPE_HARD_SSTEP :: u8 where "DBG_EVT_TYPE_HARD_SSTEP = DR7_COND_RW + 1"

definition DBG_REQ_USR :: u8 where "DBG_REQ_USR = 0"
definition DBG_REQ_VMM :: u8 where "DBG_REQ_VMM = 1"

definition get_dr :: "nat \<Rightarrow> 'a dbg_vm_scheme \<Rightarrow> offset_t" where
  "get_dr n s = vm_dr s ! (if n > 3 then n mod 4 else n)"

definition set_dr :: "nat \<Rightarrow> offset_t \<Rightarrow> 'a dbg_vm_scheme \<Rightarrow> 'a dbg_vm_scheme" where
  "set_dr n addr s = s\<lparr>vm_dr := (vm_dr s)[(if n > 3 then n mod 4 else n) := addr]\<rparr>"

section \<open>Fields of the breakpoint control register\<close>

definition uuu_hbrk_enbl_idx :: "nat \<Rightarrow> nat" where
  "uuu_hbrk_enbl_idx n = n * 2 + 1"

definition uuu_hbrk_conf_idx :: "nat \<Rightarrow> nat" where
  "uuu_hbrk_conf_idx n = 16 + n * 4"

definition uu_hbrk_set_enbl :: "nat \<Rightarrow> u32" where
  "uu_hbrk_set_enbl n = push_bit (uuu_hbrk_enbl_idx n) 1"

definition uu_hbrk_set_conf :: "nat \<Rightarrow> u32 \<Rightarrow> u32" where
  "uu_hbrk_set_conf n c = push_bit (uuu_hbrk_conf_idx n) c"

definition uu_hbrk_mke_conf :: "u8 \<Rightarrow> u8 \<Rightarrow> u32" where
  "uu_hbrk_mke_conf t l = (push_bit 2 (ucast l AND 3) OR (ucast t AND 3)) AND 0xf"

definition uu_hbrk_setup_bp :: "nat \<Rightarrow> u8 \<Rightarrow> u8 \<Rightarrow> 'a dbg_vm_scheme \<Rightarrow> 'a dbg_vm_scheme" where
  "uu_hbrk_setup_bp n t l s =
     s\<lparr>hbrk_dr7 := hbrk_dr7 s OR (uu_hbrk_set_conf n (uu_hbrk_mke_conf t l) OR uu_hbrk_set_enbl n)\<rparr>"

definition uu_hbrk_delete_bp :: "nat \<Rightarrow> 'a dbg_vm_scheme \<Rightarrow> 'a dbg_vm_scheme" where
  "uu_hbrk_delete_bp n s =
     s\<lparr>hbrk_dr7 := hbrk_dr7 s AND NOT (uu_hbrk_set_conf n 0xf OR push_bit (uuu_hbrk_enbl_idx n) 3)\<rparr>"

definition uu_hbrk_get_config :: "nat \<Rightarrow> 'a dbg_vm_scheme \<Rightarrow> u32" where
  "uu_hbrk_get_config n s = drop_bit (uuu_hbrk_conf_idx n) (hbrk_dr7 s) AND 0xf"

definition uu_hbrk_get_type :: "nat \<Rightarrow> 'a dbg_vm_scheme \<Rightarrow> u32" where
  "uu_hbrk_get_type n s = drop_bit (uuu_hbrk_conf_idx n) (hbrk_dr7 s) AND 3"

definition uu_hbrk_type_of :: "u32 \<Rightarrow> u32" where
  "uu_hbrk_type_of c = c AND 3"

text \<open>The enable bits are those of the low byte, the status bits those of the low byte too.\<close>

definition uu_hbrk_enabled :: "nat \<Rightarrow> 'a dbg_vm_scheme \<Rightarrow> bool" where
  "uu_hbrk_enabled n s = ((hbrk_dr7 s AND 0xff) AND uu_hbrk_set_enbl n \<noteq> 0)"

definition uu_hbrk_raised :: "nat \<Rightarrow> 'a dbg_vm_scheme \<Rightarrow> bool" where
  "uu_hbrk_raised n s = ((vm_dr6 s AND 0xff) AND push_bit n 1 \<noteq> 0)"

definition dbg_hard_brk_dr7_clean :: "'a dbg_vm_scheme \<Rightarrow> 'a dbg_vm_scheme" where
  "dbg_hard_brk_dr7_clean s = s\<lparr>hbrk_dr7 := hbrk_dr7 s AND 0x100, vm_dr7 := vm_dr7 s AND 0x100\<rparr>"

definition dbg_hard_dr6_clean :: "'a dbg_vm_scheme \<Rightarrow> 'a dbg_vm_scheme" where
  "dbg_hard_dr6_clean s = s\<lparr>hard_dr6_dirty := False, vm_dr6 := set_field 0 16 0x0ff0 (vm_dr6 s)\<rparr>"

section \<open>What both kinds share\<close>

definition dbg_hard_protect_dr :: "'a dbg_vm_scheme \<Rightarrow> 'a dbg_vm_scheme" where
  "dbg_hard_protect_dr s =
     (let s1 = s\<lparr>dr_exit := True,
                 dr_shadow := [get_dr 0 s, get_dr 1 s, get_dr 2 s, get_dr 3 s,
                               set_field 0 32 (ucast (vm_dr6 s)) (dr_shadow s ! 4),
                               set_field 0 32 (ucast (vm_dr7 s)) (dr_shadow s ! 5)]\<rparr>
      in dbg_hard_brk_dr7_clean (dbg_hard_dr6_clean s1))"

definition dbg_hard_release_dr :: "'a dbg_vm_scheme \<Rightarrow> 'a dbg_vm_scheme" where
  "dbg_hard_release_dr s =
     (let s1 = set_dr 3 (dr_shadow s ! 3) (set_dr 2 (dr_shadow s ! 2)
                 (set_dr 1 (dr_shadow s ! 1) (set_dr 0 (dr_shadow s ! 0) s)))
      in s1\<lparr>vm_dr6 := ucast (dr_shadow s ! 4), vm_dr7 := ucast (dr_shadow s ! 5),
            hard_dr6_dirty := False, dr_exit := False\<rparr>)"

definition dbg_hard_protect :: "'a dbg_vm_scheme \<Rightarrow> 'a dbg_vm_scheme" where
  "dbg_hard_protect s =
     (if \<not> hbrk_on s \<and> \<not> hstp_on s then s
      else if bit (dbg_excp s) DB_EXCP then s
      else s\<lparr>dbg_excp := dbg_excp s OR push_bit DB_EXCP 1, ctrl_traps_upd := True\<rparr>)"

definition dbg_hard_release :: "'a dbg_vm_scheme \<Rightarrow> 'a dbg_vm_scheme" where
  "dbg_hard_release s =
     (if hbrk_on s \<or> hstp_on s then s
      else if \<not> bit (dbg_excp s) DB_EXCP then s
      else s\<lparr>dbg_excp := dbg_excp s AND NOT (push_bit DB_EXCP 1), ctrl_traps_upd := True\<rparr>)"

definition dbg_hard_setup :: "'a dbg_vm_scheme \<Rightarrow> 'a dbg_vm_scheme" where
  "dbg_hard_setup = dbg_hard_protect_dr"

section \<open>Hardware breakpoints\<close>

definition dbg_hard_brk_insn_protect :: "'a dbg_vm_scheme \<Rightarrow> 'a dbg_vm_scheme" where
  "dbg_hard_brk_insn_protect s =
     (if \<not> hbrk_insn s then s else s\<lparr>hbrk_rf := rflags_rf s, rflags_rf := False\<rparr>)"

definition dbg_hard_brk_insn_release :: "'a dbg_vm_scheme \<Rightarrow> 'a dbg_vm_scheme" where
  "dbg_hard_brk_insn_release s = (if hbrk_insn s then s else s\<lparr>rflags_rf := hbrk_rf s\<rparr>)"

definition dbg_hard_brk_insn_enable :: "'a dbg_vm_scheme \<Rightarrow> 'a dbg_vm_scheme" where
  "dbg_hard_brk_insn_enable s = dbg_hard_brk_insn_protect (s\<lparr>hbrk_insn := True\<rparr>)"

definition dbg_hard_brk_insn_disable :: "'a dbg_vm_scheme \<Rightarrow> 'a dbg_vm_scheme" where
  "dbg_hard_brk_insn_disable s = dbg_hard_brk_insn_release (s\<lparr>hbrk_insn := False\<rparr>)"

definition dbg_hard_brk_enable :: "'a dbg_vm_scheme \<Rightarrow> 'a dbg_vm_scheme" where
  "dbg_hard_brk_enable s = dbg_hard_protect (s\<lparr>hbrk_on := True\<rparr>)"

definition dbg_hard_brk_disable :: "'a dbg_vm_scheme \<Rightarrow> 'a dbg_vm_scheme" where
  "dbg_hard_brk_disable s = dbg_hard_release (s\<lparr>hbrk_on := False\<rparr>)"

definition dbg_hard_brk_reset :: "'a dbg_vm_scheme \<Rightarrow> 'a dbg_vm_scheme" where
  "dbg_hard_brk_reset s =
     (dbg_hard_brk_disable s)\<lparr>hbrk_insn := False, hbrk_on := False, hbrk_dis := False, hbrk_rf := False\<rparr>"

text \<open>The loop over the four registers, from register \<open>n\<close> on.\<close>

fun hard_brk_set_loop :: "nat list \<Rightarrow> offset_t \<Rightarrow> u8 \<Rightarrow> u8 \<Rightarrow> u64 \<Rightarrow> 'a dbg_vm_scheme \<Rightarrow> vmerr \<times> 'a dbg_vm_scheme" where
  "hard_brk_set_loop [] addr type len hdlr s = (VM_IGNORE, s)"
| "hard_brk_set_loop (n # ns) addr type len hdlr s =
     (if \<not> uu_hbrk_enabled n s
      then (let s1 = uu_hbrk_setup_bp n type len s;
                s2 = s1\<lparr>hbrk_hdlr := (hbrk_hdlr s1)[n := hdlr]\<rparr>;
                s3 = set_dr n addr s2;
                s4 = (if type = DR7_COND_X \<and> \<not> hbrk_insn s3 then dbg_hard_brk_insn_enable s3 else s3)
            in (VM_DONE, dbg_hard_brk_enable s4))
      else hard_brk_set_loop ns addr type len hdlr s)"

definition dbg_hard_brk_set :: "offset_t \<Rightarrow> u8 \<Rightarrow> u8 \<Rightarrow> u64 \<Rightarrow> 'a dbg_vm_scheme \<Rightarrow> vmerr \<times> 'a dbg_vm_scheme" where
  "dbg_hard_brk_set addr type len hdlr s = hard_brk_set_loop [0..<DBG_HARD_BRK_NR] addr type len hdlr s"

text \<open>The loop of the deletion carries the flags \<^verbatim>\<open>more\<close> and \<^verbatim>\<open>more_x\<close> and the status.\<close>

fun hard_brk_del_loop ::
    "nat list \<Rightarrow> offset_t \<Rightarrow> u32 \<Rightarrow> bool \<times> bool \<times> vmerr \<Rightarrow> 'a dbg_vm_scheme \<Rightarrow> (bool \<times> bool \<times> vmerr) \<times> 'a dbg_vm_scheme" where
  "hard_brk_del_loop [] addr check st s = (st, s)"
| "hard_brk_del_loop (n # ns) addr check (mre, more_x, rc) s =
     (if uu_hbrk_enabled n s
      then (let conf = uu_hbrk_get_config n s
            in if conf = check \<and> addr = get_dr n s
               then hard_brk_del_loop ns addr check (mre, more_x, VM_DONE) (uu_hbrk_delete_bp n s)
               else if \<not> more_x \<or> \<not> mre
               then hard_brk_del_loop ns addr check
                      (True, more_x \<or> uu_hbrk_type_of conf = ucast DR7_COND_X, rc) s
               else hard_brk_del_loop ns addr check (mre, more_x, rc) s)
      else hard_brk_del_loop ns addr check (mre, more_x, rc) s)"

definition dbg_hard_brk_del :: "offset_t \<Rightarrow> u8 \<Rightarrow> u8 \<Rightarrow> 'a dbg_vm_scheme \<Rightarrow> vmerr \<times> 'a dbg_vm_scheme" where
  "dbg_hard_brk_del addr type len s =
     (let ((mre, more_x, rc), s1) =
            hard_brk_del_loop [0..<DBG_HARD_BRK_NR] addr (uu_hbrk_mke_conf type len) (False, False, VM_IGNORE) s
      in (rc, if \<not> more_x
              then (let s2 = dbg_hard_brk_insn_disable s1 in if \<not> mre then dbg_hard_brk_disable s2 else s2)
              else s1))"

definition dbg_hard_brk_resume :: "'a dbg_vm_scheme \<Rightarrow> 'a dbg_vm_scheme" where
  "dbg_hard_brk_resume s =
     (if evt_kind s \<noteq> DBG_EVT_TYPE_HARD_BRK_X then s
      else case evt_src s of
        EvtSoft i \<Rightarrow> s
      | EvtHard n \<Rightarrow> if \<not> uu_hbrk_enabled (unat n) s then s else s\<lparr>rflags_rf := True\<rparr>)"

definition dbg_hard_brk_disarm :: "'a dbg_vm_scheme \<Rightarrow> 'a dbg_vm_scheme" where
  "dbg_hard_brk_disarm s = s\<lparr>hbrk_dis := True, vm_dr7 := vm_dr7 s AND 0x100\<rparr>"

definition dbg_hard_brk_rearm :: "'a dbg_vm_scheme \<Rightarrow> 'a dbg_vm_scheme" where
  "dbg_hard_brk_rearm s = s\<lparr>hbrk_dis := False, vm_dr7 := hbrk_dr7 s\<rparr>"

fun hard_brk_event_loop :: "nat list \<Rightarrow> 'a dbg_vm_scheme \<Rightarrow> vmerr \<times> u64 \<times> 'a dbg_vm_scheme" where
  "hard_brk_event_loop [] s = (VM_IGNORE, 0, s)"
| "hard_brk_event_loop (n # ns) s =
     (if uu_hbrk_raised n s \<and> uu_hbrk_enabled n s
      then (VM_DONE, hbrk_hdlr s ! n,
            s\<lparr>evt_kind := ucast (uu_hbrk_get_type n s), evt_src := EvtHard (of_nat n), evt_addr := get_dr n s,
              hard_dr6_dirty := True\<rparr>)
      else hard_brk_event_loop ns s)"

definition dbg_hard_brk_event :: "'a dbg_vm_scheme \<Rightarrow> vmerr \<times> u64 \<times> 'a dbg_vm_scheme" where
  "dbg_hard_brk_event s =
     (if \<not> hbrk_on s then (VM_IGNORE, 0, s) else hard_brk_event_loop [0..<DBG_HARD_BRK_NR] s)"

section \<open>Single step\<close>

definition GP_BIT :: nat where "GP_BIT = 13"

definition dbg_hard_stp_save_context :: "'a dbg_vm_scheme \<Rightarrow> 'a dbg_vm_scheme" where
  "dbg_hard_stp_save_context s = s\<lparr>hstp_sysenter_cs := sysenter_cs s\<rparr>"

definition dbg_hard_stp_setup_context :: "'a dbg_vm_scheme \<Rightarrow> 'a dbg_vm_scheme" where
  "dbg_hard_stp_setup_context s = s\<lparr>sysenter_cs := 0\<rparr>"

definition dbg_hard_stp_restore_context :: "'a dbg_vm_scheme \<Rightarrow> 'a dbg_vm_scheme" where
  "dbg_hard_stp_restore_context s = s\<lparr>sysenter_cs := hstp_sysenter_cs s\<rparr>"

definition dbg_hard_stp_protect :: "'a dbg_vm_scheme \<Rightarrow> 'a dbg_vm_scheme" where
  "dbg_hard_stp_protect s =
     (if \<not> hstp_on s then s
      else let s1 = dbg_hard_stp_save_context s
           in dbg_hard_protect (s1\<lparr>hstp_tf := rflags_tf s1, rflags_tf := True,
                                   dbg_excp := dbg_excp s1 OR push_bit GP_BIT 1, ctrl_traps_upd := True\<rparr>))"

definition dbg_hard_stp_release :: "'a dbg_vm_scheme \<Rightarrow> 'a dbg_vm_scheme" where
  "dbg_hard_stp_release s =
     (if hstp_on s then s
      else let s1 = dbg_hard_stp_restore_context s
           in dbg_hard_release (s1\<lparr>rflags_tf := hstp_tf s1,
                                   dbg_excp := dbg_excp s1 AND NOT (push_bit GP_BIT 1), ctrl_traps_upd := True\<rparr>))"

definition dbg_hard_stp_enable :: "u8 \<Rightarrow> 'a dbg_vm_scheme \<Rightarrow> 'a dbg_vm_scheme" where
  "dbg_hard_stp_enable req s =
     (if hstp_on s then s else dbg_hard_stp_protect (s\<lparr>hstp_on := True, hstp_rq := take_bit 1 req\<rparr>))"

definition dbg_hard_stp_disable :: "'a dbg_vm_scheme \<Rightarrow> 'a dbg_vm_scheme" where
  "dbg_hard_stp_disable s = (if \<not> hstp_on s then s else dbg_hard_stp_release (s\<lparr>hstp_on := False\<rparr>))"

definition dbg_hard_stp_reset :: "'a dbg_vm_scheme \<Rightarrow> 'a dbg_vm_scheme" where
  "dbg_hard_stp_reset s = (dbg_hard_stp_disable s)\<lparr>hstp_on := False, hstp_tf := False, hstp_rq := 0\<rparr>"

definition dbg_hard_stp_event :: "'a dbg_vm_scheme \<Rightarrow> (vmerr \<times> 'a dbg_vm_scheme) option" where
  "dbg_hard_stp_event s =
     (if \<not> hstp_on s then Some (VM_IGNORE, s)
      else case (if soft_rs s then dbg_soft_resume_post s else Some (VM_DONE, s)) of
        None \<Rightarrow> None
      | Some (rc, s1) \<Rightarrow>
          (if rc \<noteq> VM_DONE then Some (rc, s1)
           else let s2 = dbg_hard_stp_disable s1
                in if hstp_rq s2 = DBG_REQ_VMM then Some (VM_INTERN, dbg_hard_dr6_clean s2)
                   else Some (VM_DONE, s2\<lparr>hard_dr6_dirty := True, evt_kind := DBG_EVT_TYPE_HARD_SSTEP,
                                           evt_addr := fst (vm_get_code_addr 0 s2)\<rparr>)))"

definition dbg_hard_reset :: "'a dbg_vm_scheme \<Rightarrow> 'a dbg_vm_scheme" where
  "dbg_hard_reset s = dbg_hard_release_dr (dbg_hard_stp_reset (dbg_hard_brk_reset s))"

section \<open>The shadow registers of the guest\<close>

definition GPR64_RAX :: nat where "GPR64_RAX = 15"
definition GPR64_RSP :: nat where "GPR64_RSP = 11"
definition DR7_GD :: u64 where "DR7_GD = push_bit 13 1"
definition DR6_BD :: u64 where "DR6_BD = push_bit 13 1"

text \<open>The stack pointer is one of the registers of the frame.\<close>

definition get_gpr :: "nat \<Rightarrow> 'a dbg_vm_scheme \<Rightarrow> u64" where
  "get_gpr i s = (if i = GPR64_RSP then vm_rsp s else vm_gpr s ! i)"

definition set_gpr :: "nat \<Rightarrow> u64 \<Rightarrow> 'a dbg_vm_scheme \<Rightarrow> 'a dbg_vm_scheme" where
  "set_gpr i v s = (if i = GPR64_RSP then s\<lparr>vm_rsp := v\<rparr> else s\<lparr>vm_gpr := (vm_gpr s)[i := v]\<rparr>)"

definition set_shadow :: "nat \<Rightarrow> u64 \<Rightarrow> 'a dbg_vm_scheme \<Rightarrow> 'a dbg_vm_scheme" where
  "set_shadow dr v s = s\<lparr>dr_shadow := (dr_shadow s)[dr := set_field 0 32 v (dr_shadow s ! dr)]\<rparr>"

definition uu_resolve_dr_rd :: "nat \<Rightarrow> nat \<Rightarrow> 'a dbg_vm_scheme \<Rightarrow> vmerr \<times> 'a dbg_vm_scheme" where
  "uu_resolve_dr_rd dr gpr s = (VM_DONE, set_gpr gpr (set_field 0 32 (dr_shadow s ! dr) (get_gpr gpr s)) s)"

definition uu_resolve_dr_wr :: "nat \<Rightarrow> nat \<Rightarrow> 'a dbg_vm_scheme \<Rightarrow> vmerr \<times> 'a dbg_vm_scheme" where
  "uu_resolve_dr_wr dr gpr s =
     (let s1 = set_shadow dr (get_gpr gpr s) s; v = dr_shadow s1 ! dr
      in (VM_DONE, if dr = 4 then set_shadow dr ((v AND 0xfffffeff) OR 0xffff0ff0) s1
                   else if dr = 5 then set_shadow dr ((v AND 0xffff23ff) OR 0x400) s1
                   else s1))"

definition uu_resolve_dr :: "bool \<Rightarrow> nat \<Rightarrow> nat \<Rightarrow> 'a dbg_vm_scheme \<Rightarrow> vmerr \<times> 'a dbg_vm_scheme" where
  "uu_resolve_dr wr dr0 gpr s =
     (if \<not> (uu_rmode s \<or> vm_cpl s = 0) then (VM_FAULT, uu_vmx_vmexit_inject_exception GP_EXCP 0 0 s)
      else if \<not> (gpr \<le> GPR64_RAX \<and> dr0 \<le> 7) then (VM_FAIL, s)
      else if cr4_de s \<and> (dr0 = 4 \<or> dr0 = 5) then (VM_FAULT, uu_vmx_vmexit_inject_exception UD_EXCP 0 0 s)
      else let dr = (if dr0 > 5 then dr0 - 2 else dr0)
           in if dr = 5 \<and> (dr_shadow s ! dr) AND DR7_GD \<noteq> 0
              then (VM_FAULT, uu_vmx_vmexit_inject_exception (of_nat DB_EXCP) 0 0
                      (set_shadow 5 ((dr_shadow s ! 5) AND NOT DR7_GD) (set_shadow 4 ((dr_shadow s ! 4) OR DR6_BD) s)))
              else if wr then uu_resolve_dr_wr dr gpr s
              else uu_resolve_dr_rd dr gpr s)"

section \<open>Bits of the control register\<close>

lemma and_ff: "x AND 0xff = take_bit 8 x" "x AND 0xf = take_bit 4 x" "x AND 3 = take_bit 2 x" for x :: u32
  using and_pow2_minus_1 [of x 8] and_pow2_minus_1 [of x 4] and_pow2_minus_1 [of x 2] by simp_all

lemma bit_pb1: "bit (push_bit k (1 :: u32)) n \<longleftrightarrow> k = n \<and> n < 32"
  by (auto simp only: bit_push_bit_iff bit_1_iff) (simp_all add: possible_bit_def)

lemma bit_low: "bit (0xf :: u32) i \<longleftrightarrow> i < 4" "bit (3 :: u32) i \<longleftrightarrow> i < 2"
  using bit_mask_iff [of 4 i, where 'a = u32] bit_mask_iff [of 2 i, where 'a = u32]
  by (auto simp: mask_eq_exp_minus_1 dest: bit_imp_le_length)

lemma enabled_iff: "n < 4 \<Longrightarrow> uu_hbrk_enabled n s \<longleftrightarrow> bit (hbrk_dr7 s) (2 * n + 1)"
proof -
  assume n: "n < 4"
  have e: "take_bit 8 x AND push_bit k 1 \<noteq> 0 \<longleftrightarrow> bit x k" if "k < 8" for x :: u32 and k
    unfolding word_neq_0_bit bit_and_iff bit_take_bit_iff bit_pb1 using that by auto
  have "n * 2 + 1 < 8" using n by simp
  from e [OF this] show ?thesis
    unfolding uu_hbrk_enabled_def and_ff uu_hbrk_set_enbl_def uuu_hbrk_enbl_idx_def by (simp only: mult.commute)
qed

lemma bit_config: "bit (uu_hbrk_get_config n s) i \<longleftrightarrow> i < 4 \<and> bit (hbrk_dr7 s) (16 + 4 * n + i)"
  by (auto simp: uu_hbrk_get_config_def and_ff bit_take_bit_iff bit_drop_bit_eq uuu_hbrk_conf_idx_def mult.commute)

lemma mke_conf_small: "bit (uu_hbrk_mke_conf t l) i \<Longrightarrow> i < 4"
  unfolding uu_hbrk_mke_conf_def and_ff bit_take_bit_iff by blast

lemma bit_setup:
  assumes "n < 4"
  shows "bit (hbrk_dr7 (uu_hbrk_setup_bp n t l s)) k \<longleftrightarrow>
     bit (hbrk_dr7 s) k \<or> k = 2 * n + 1 \<or> 16 + 4 * n \<le> k \<and> k < 32 \<and> bit (uu_hbrk_mke_conf t l) (k - (16 + 4 * n))"
proof -
  have "hbrk_dr7 (uu_hbrk_setup_bp n t l s) = hbrk_dr7 s OR (push_bit (16 + n * 4) (uu_hbrk_mke_conf t l) OR push_bit (n * 2 + 1) 1)"
    by (simp add: uu_hbrk_setup_bp_def uu_hbrk_set_conf_def uu_hbrk_set_enbl_def uuu_hbrk_enbl_idx_def uuu_hbrk_conf_idx_def)
  then show ?thesis using assms
    by (simp only: bit_or_iff bit_push_bit_iff [of _ "uu_hbrk_mke_conf t l"] bit_pb1)
      (auto simp: possible_bit_def mult.commute)
qed

lemma bit_delete:
  assumes "n < 4"
  shows "bit (hbrk_dr7 (uu_hbrk_delete_bp n s)) k \<longleftrightarrow>
     bit (hbrk_dr7 s) k \<and> \<not> (16 + 4 * n \<le> k \<and> k < 20 + 4 * n) \<and> k \<noteq> 2 * n + 1 \<and> k \<noteq> 2 * n + 2"
proof -
  have "hbrk_dr7 (uu_hbrk_delete_bp n s) = hbrk_dr7 s AND NOT (push_bit (16 + n * 4) 0xf OR push_bit (n * 2 + 1) 3)"
    by (simp add: uu_hbrk_delete_bp_def uu_hbrk_set_conf_def uuu_hbrk_enbl_idx_def uuu_hbrk_conf_idx_def)
  then show ?thesis using assms
    by (simp only: bit_and_iff bit_not_iff bit_or_iff bit_push_bit_iff bit_low)
      (auto simp: possible_bit_def mult.commute dest: bit_imp_le_length)
qed


section \<open>Setting a breakpoint\<close>

text \<open>A register that is not in use has no configuration.\<close>

definition hbrk_clean :: "'a dbg_vm_scheme \<Rightarrow> bool" where
  "hbrk_clean s = (length (vm_dr s) = 4 \<and> length (hbrk_hdlr s) = 4
     \<and> (\<forall>n < 4. \<not> uu_hbrk_enabled n s \<longrightarrow> uu_hbrk_get_config n s = 0))"

lemma hbrk_dr7_cong:
  "hbrk_dr7 s = hbrk_dr7 t \<Longrightarrow> uu_hbrk_enabled n s = uu_hbrk_enabled n t"
  "hbrk_dr7 s = hbrk_dr7 t \<Longrightarrow> uu_hbrk_get_config n s = uu_hbrk_get_config n t"
  by (simp_all add: uu_hbrk_enabled_def uu_hbrk_get_config_def)

lemma config_0: "uu_hbrk_get_config n s = 0 \<longleftrightarrow> (\<forall>i < 4. \<not> bit (hbrk_dr7 s) (16 + 4 * n + i))"
  using word_neq_0_bit [of "uu_hbrk_get_config n s"] by (auto simp: bit_config)

lemma setup_own:
  assumes "n < 4" and "uu_hbrk_get_config n s = 0"
  shows "uu_hbrk_enabled n (uu_hbrk_setup_bp n t l s)"
    and "uu_hbrk_get_config n (uu_hbrk_setup_bp n t l s) = uu_hbrk_mke_conf t l"
proof -
  show "uu_hbrk_enabled n (uu_hbrk_setup_bp n t l s)" using assms by (simp add: enabled_iff bit_setup)
  show "uu_hbrk_get_config n (uu_hbrk_setup_bp n t l s) = uu_hbrk_mke_conf t l"
    by (rule bit_eqI) (use assms in \<open>auto simp: bit_config bit_setup config_0 dest: mke_conf_small\<close>)
qed

lemma setup_other:
  assumes "n < 4" and "m < 4" and "m \<noteq> n"
  shows "uu_hbrk_enabled m (uu_hbrk_setup_bp n t l s) = uu_hbrk_enabled m s"
    and "uu_hbrk_get_config m (uu_hbrk_setup_bp n t l s) = uu_hbrk_get_config m s"
proof -
  show "uu_hbrk_enabled m (uu_hbrk_setup_bp n t l s) = uu_hbrk_enabled m s"
    using assms by (auto simp: enabled_iff bit_setup)
  show "uu_hbrk_get_config m (uu_hbrk_setup_bp n t l s) = uu_hbrk_get_config m s"
    by (rule bit_eqI) (use assms in \<open>auto simp: bit_config bit_setup dest!: mke_conf_small\<close>)
qed

lemma delete_own: "n < 4 \<Longrightarrow> \<not> uu_hbrk_enabled n (uu_hbrk_delete_bp n s)"
  "n < 4 \<Longrightarrow> uu_hbrk_get_config n (uu_hbrk_delete_bp n s) = 0"
  by (simp add: enabled_iff bit_delete) (simp add: config_0 bit_delete)

lemma delete_other:
  assumes "n < 4" and "m < 4" and "m \<noteq> n"
  shows "uu_hbrk_enabled m (uu_hbrk_delete_bp n s) = uu_hbrk_enabled m s"
    and "uu_hbrk_get_config m (uu_hbrk_delete_bp n s) = uu_hbrk_get_config m s"
proof -
  have "2 * m + 1 \<noteq> 2 * n + 2" by presburger
  then show "uu_hbrk_enabled m (uu_hbrk_delete_bp n s) = uu_hbrk_enabled m s"
    using assms by (auto simp: enabled_iff bit_delete)
  show "uu_hbrk_get_config m (uu_hbrk_delete_bp n s) = uu_hbrk_get_config m s"
    by (rule bit_eqI) (use assms in \<open>auto simp: bit_config bit_delete\<close>)
qed

lemma delete_clean:
  assumes "hbrk_clean s" and n: "n < 4"
  shows "hbrk_clean (uu_hbrk_delete_bp n s)"
proof -
  have "uu_hbrk_get_config m (uu_hbrk_delete_bp n s) = 0" if "m < 4" "\<not> uu_hbrk_enabled m (uu_hbrk_delete_bp n s)" for m
    using that assms delete_own [OF n, of s] delete_other [OF n that(1), of s] by (cases "m = n") (simp_all add: hbrk_clean_def)
  then show ?thesis using assms(1) by (simp add: hbrk_clean_def) (simp add: uu_hbrk_delete_bp_def)
qed

text \<open>The fields of the breakpoints that the switches leave alone.\<close>

lemma brk_enable_sel [simp]:
  "hbrk_dr7 (dbg_hard_brk_enable s) = hbrk_dr7 s" "vm_dr (dbg_hard_brk_enable s) = vm_dr s"
  "hbrk_hdlr (dbg_hard_brk_enable s) = hbrk_hdlr s" "hbrk_on (dbg_hard_brk_enable s)"
  "vm_dr6 (dbg_hard_brk_enable s) = vm_dr6 s" "dr_shadow (dbg_hard_brk_enable s) = dr_shadow s"
  "vm_dr7 (dbg_hard_brk_enable s) = vm_dr7 s"
  "bit (dbg_excp (dbg_hard_brk_enable s)) DB_EXCP"
  by (simp_all add: dbg_hard_brk_enable_def dbg_hard_protect_def bit_or_iff DB_EXCP_def bit_pb1 [of 1, simplified])

lemma brk_insn_sel [simp]:
  "hbrk_dr7 (dbg_hard_brk_insn_enable s) = hbrk_dr7 s" "vm_dr (dbg_hard_brk_insn_enable s) = vm_dr s"
  "hbrk_hdlr (dbg_hard_brk_insn_enable s) = hbrk_hdlr s" "dr_shadow (dbg_hard_brk_insn_enable s) = dr_shadow s"
  "hbrk_dr7 (dbg_hard_brk_insn_disable s) = hbrk_dr7 s" "vm_dr (dbg_hard_brk_insn_disable s) = vm_dr s"
  "hbrk_hdlr (dbg_hard_brk_insn_disable s) = hbrk_hdlr s" "dr_shadow (dbg_hard_brk_insn_disable s) = dr_shadow s"
  "hbrk_dr7 (dbg_hard_brk_disable s) = hbrk_dr7 s" "vm_dr (dbg_hard_brk_disable s) = vm_dr s"
  "hbrk_hdlr (dbg_hard_brk_disable s) = hbrk_hdlr s" "dr_shadow (dbg_hard_brk_disable s) = dr_shadow s"
  by (simp_all add: dbg_hard_brk_insn_enable_def dbg_hard_brk_insn_protect_def dbg_hard_brk_insn_disable_def
      dbg_hard_brk_insn_release_def dbg_hard_brk_disable_def dbg_hard_release_def)

lemma setup_sel [simp]:
  "vm_dr (uu_hbrk_setup_bp n t l s) = vm_dr s" "hbrk_hdlr (uu_hbrk_setup_bp n t l s) = hbrk_hdlr s"
  "dr_shadow (uu_hbrk_setup_bp n t l s) = dr_shadow s" "hbrk_dr7 (set_dr n a s) = hbrk_dr7 s"
  "hbrk_hdlr (set_dr n a s) = hbrk_hdlr s" "dr_shadow (set_dr n a s) = dr_shadow s"
  "vm_dr (set_dr n a s) = (vm_dr s)[(if n > 3 then n mod 4 else n) := a]"
  by (simp_all add: uu_hbrk_setup_bp_def set_dr_def)

lemma set_loop_free:
  assumes "n \<in> set ns" and "\<not> uu_hbrk_enabled n s" and "\<forall>m \<in> set ns. m < n \<longrightarrow> uu_hbrk_enabled m s" and "sorted ns"
  shows "\<exists>s'. hard_brk_set_loop ns addr t l h s = (VM_DONE, s') \<and> hbrk_dr7 s' = hbrk_dr7 (uu_hbrk_setup_bp n t l s)
    \<and> hbrk_hdlr s' = (hbrk_hdlr s)[n := h] \<and> vm_dr s' = (vm_dr s)[(if n > 3 then n mod 4 else n) := addr]
    \<and> hbrk_on s' \<and> bit (dbg_excp s') DB_EXCP \<and> dr_shadow s' = dr_shadow s"
  using assms
proof (induction ns)
  case Nil
  then show ?case by simp
next
  case (Cons k ns)
  show ?case
  proof (cases "uu_hbrk_enabled k s")
    case True
    then have "k \<noteq> n" using Cons.prems(2) by auto
    then show ?thesis using Cons True by simp
  next
    case False
    have "\<forall>m \<in> set ns. k \<le> m" using Cons.prems(4) by simp
    then have "k = n" using Cons.prems(1,3) False by force
    then show ?thesis using False by (simp add: Let_def)
  qed
qed

lemma del_loop_clean:
  assumes "hbrk_clean s" and "\<forall>n \<in> set ns. n < 4" and "hard_brk_del_loop ns addr c st s = (st', s')"
  shows "hbrk_clean s' \<and> dr_shadow s' = dr_shadow s"
  using assms
proof (induction ns addr c st s rule: hard_brk_del_loop.induct)
  case (2 n ns addr c mre more_x rc s)
  have "dr_shadow (uu_hbrk_delete_bp n s) = dr_shadow s" by (simp add: uu_hbrk_delete_bp_def)
  then show ?case using 2 delete_clean [of s n] by (auto simp: Let_def split: if_splits)
qed auto

lemma clean_cong:
  "hbrk_dr7 s' = hbrk_dr7 s \<Longrightarrow> length (vm_dr s') = length (vm_dr s) \<Longrightarrow> length (hbrk_hdlr s') = length (hbrk_hdlr s) \<Longrightarrow>
   hbrk_clean s' = hbrk_clean s"
  using hbrk_dr7_cong [of s' s] by (simp add: hbrk_clean_def)

lemma setup_clean:
  assumes "hbrk_clean s" and n: "n < 4" and "\<not> uu_hbrk_enabled n s"
  shows "hbrk_clean (uu_hbrk_setup_bp n t l s)"
proof -
  have "uu_hbrk_get_config m (uu_hbrk_setup_bp n t l s) = 0" if "m < 4" "\<not> uu_hbrk_enabled m (uu_hbrk_setup_bp n t l s)" for m
    using that assms setup_own [OF n, of s t l] setup_other [OF n that(1), of t l s] by (cases "m = n") (simp_all add: hbrk_clean_def)
  then show ?thesis using assms(1) by (simp add: hbrk_clean_def)
qed

lemma set_loop_full: "\<forall>m \<in> set ns. uu_hbrk_enabled m s \<Longrightarrow> hard_brk_set_loop ns addr t l h s = (VM_IGNORE, s)"
  by (induction ns) auto

lemma brk_set_result:
  assumes "hbrk_clean s"
  obtains (full) "\<forall>m < 4. uu_hbrk_enabled m s" "dbg_hard_brk_set addr t l h s = (VM_IGNORE, s)"
  | (free) n s' where "n < 4" "\<not> uu_hbrk_enabled n s" "\<forall>m < n. uu_hbrk_enabled m s"
      "dbg_hard_brk_set addr t l h s = (VM_DONE, s')" "hbrk_dr7 s' = hbrk_dr7 (uu_hbrk_setup_bp n t l s)"
      "hbrk_hdlr s' = (hbrk_hdlr s)[n := h]" "vm_dr s' = (vm_dr s)[n := addr]" "hbrk_on s'" "bit (dbg_excp s') DB_EXCP"
      "dr_shadow s' = dr_shadow s"
proof (cases "\<forall>m < 4. uu_hbrk_enabled m s")
  case True
  then show thesis using full set_loop_full [of "[0..<4]" s] by (simp add: dbg_hard_brk_set_def DBG_HARD_BRK_NR_def)
next
  case False
  define n where "n = (LEAST m. \<not> uu_hbrk_enabled m s)"
  obtain m where m: "m < 4" "\<not> uu_hbrk_enabled m s" using False by blast
  have n: "\<not> uu_hbrk_enabled n s" "n \<le> m" unfolding n_def by (rule LeastI [of _ m], rule m) (rule Least_le, rule m)
  have lt: "\<forall>k < n. uu_hbrk_enabled k s" unfolding n_def using not_less_Least by blast
  have n4: "n < 4" using m n by simp
  from set_loop_free [of n "[0..<4]" s addr t l h] n n4 lt
  show thesis by (auto simp: dbg_hard_brk_set_def DBG_HARD_BRK_NR_def intro: free [OF n4 n(1) lt])
qed

lemma brk_ops_clean:
  assumes "hbrk_clean s"
  shows "hbrk_clean (snd (dbg_hard_brk_set addr t l h s))" and "hbrk_clean (snd (dbg_hard_brk_del addr t l s))"
    and "dr_shadow (snd (dbg_hard_brk_set addr t l h s)) = dr_shadow s"
    and "dr_shadow (snd (dbg_hard_brk_del addr t l s)) = dr_shadow s"
proof -
  from assms show "hbrk_clean (snd (dbg_hard_brk_set addr t l h s))"
  proof (cases rule: brk_set_result [where addr = addr and t = t and l = l and h = h])
    case full
    then show ?thesis using assms by simp
  next
    case (free n s')
    then show ?thesis using setup_clean [OF assms free(1,2), of t l] clean_cong [of s' "uu_hbrk_setup_bp n t l s"] by simp
  qed
  from assms show "dr_shadow (snd (dbg_hard_brk_set addr t l h s)) = dr_shadow s"
    by (cases rule: brk_set_result [where addr = addr and t = t and l = l and h = h]) simp_all
  obtain st s' where l: "hard_brk_del_loop [0..<DBG_HARD_BRK_NR] addr (uu_hbrk_mke_conf t l) (False, False, VM_IGNORE) s = (st, s')"
    by fastforce
  have c: "hbrk_clean s'" "dr_shadow s' = dr_shadow s" using del_loop_clean [OF assms _ l] by (auto simp: DBG_HARD_BRK_NR_def)
  have i: "hbrk_clean (dbg_hard_brk_insn_disable s')" using clean_cong [of "dbg_hard_brk_insn_disable s'" s'] c by simp
  then have "hbrk_clean (dbg_hard_brk_disable (dbg_hard_brk_insn_disable s'))"
    using clean_cong [of "dbg_hard_brk_disable (dbg_hard_brk_insn_disable s')" s'] c by simp
  then show "hbrk_clean (snd (dbg_hard_brk_del addr t l s))" using l c i
    by (cases st) (auto simp: dbg_hard_brk_del_def Let_def)
  show "dr_shadow (snd (dbg_hard_brk_del addr t l s)) = dr_shadow s" using l c
    by (cases st) (auto simp: dbg_hard_brk_del_def Let_def)
qed

section \<open>A debugging session\<close>

datatype hard_op =
    OpBrkSet offset_t u8 u8 u64
  | OpBrkDel offset_t u8 u8
  | OpRearm
  | OpDisarm
  | OpStep u8
  | OpStepEnd
  | OpBrkResume
  | OpEvent

fun exec_hard_op :: "hard_op \<Rightarrow> 'a dbg_vm_scheme \<Rightarrow> 'a dbg_vm_scheme" where
  "exec_hard_op (OpBrkSet addr t l h) s = snd (dbg_hard_brk_set addr t l h s)"
| "exec_hard_op (OpBrkDel addr t l) s = snd (dbg_hard_brk_del addr t l s)"
| "exec_hard_op OpRearm s = dbg_hard_brk_rearm s"
| "exec_hard_op OpDisarm s = dbg_hard_brk_disarm s"
| "exec_hard_op (OpStep req) s = dbg_hard_stp_enable req s"
| "exec_hard_op OpStepEnd s = dbg_hard_stp_disable s"
| "exec_hard_op OpBrkResume s = dbg_hard_brk_resume s"
| "exec_hard_op OpEvent s = snd (snd (dbg_hard_brk_event s))"

lemma protect_sel [simp]:
  "dr_shadow (dbg_hard_protect s) = dr_shadow s" "vm_dr (dbg_hard_protect s) = vm_dr s"
  "hbrk_dr7 (dbg_hard_protect s) = hbrk_dr7 s" "hbrk_hdlr (dbg_hard_protect s) = hbrk_hdlr s"
  "dr_shadow (dbg_hard_release s) = dr_shadow s" "vm_dr (dbg_hard_release s) = vm_dr s"
  "hbrk_dr7 (dbg_hard_release s) = hbrk_dr7 s" "hbrk_hdlr (dbg_hard_release s) = hbrk_hdlr s"
  by (simp_all add: dbg_hard_protect_def dbg_hard_release_def)

lemma stp_sel [simp]:
  "dr_shadow (dbg_hard_stp_enable r s) = dr_shadow s" "vm_dr (dbg_hard_stp_enable r s) = vm_dr s"
  "hbrk_dr7 (dbg_hard_stp_enable r s) = hbrk_dr7 s" "hbrk_hdlr (dbg_hard_stp_enable r s) = hbrk_hdlr s"
  "dr_shadow (dbg_hard_stp_disable s) = dr_shadow s" "vm_dr (dbg_hard_stp_disable s) = vm_dr s"
  "hbrk_dr7 (dbg_hard_stp_disable s) = hbrk_dr7 s" "hbrk_hdlr (dbg_hard_stp_disable s) = hbrk_hdlr s"
  by (simp_all add: dbg_hard_stp_enable_def dbg_hard_stp_protect_def dbg_hard_stp_save_context_def
      dbg_hard_stp_disable_def dbg_hard_stp_release_def dbg_hard_stp_restore_context_def Let_def)

lemma event_loop_sel:
  "dr_shadow (snd (snd (hard_brk_event_loop ns s))) = dr_shadow s \<and> vm_dr (snd (snd (hard_brk_event_loop ns s))) = vm_dr s
   \<and> hbrk_dr7 (snd (snd (hard_brk_event_loop ns s))) = hbrk_dr7 s \<and> hbrk_hdlr (snd (snd (hard_brk_event_loop ns s))) = hbrk_hdlr s"
  by (induction ns) auto

lemma exec_hard_op_keeps:
  assumes "hbrk_clean s"
  shows "hbrk_clean (exec_hard_op op s) \<and> dr_shadow (exec_hard_op op s) = dr_shadow s"
proof (cases op)
  case (OpBrkSet a t l h)
  then show ?thesis using brk_ops_clean [OF assms] by simp
next
  case (OpBrkDel a t l)
  then show ?thesis using brk_ops_clean [OF assms] by simp
next
  case OpEvent
  then show ?thesis using assms event_loop_sel [of "[0..<DBG_HARD_BRK_NR]" s] clean_cong [of "exec_hard_op op s" s]
    by (auto simp: dbg_hard_brk_event_def)
qed (use assms clean_cong [of "exec_hard_op op s" s] in
  \<open>auto simp: dbg_hard_brk_rearm_def dbg_hard_brk_disarm_def dbg_hard_brk_resume_def split: dbg_evt_src.splits\<close>)

lemma session_keeps:
  "hbrk_clean s \<Longrightarrow> hbrk_clean (fold exec_hard_op ops s) \<and> dr_shadow (fold exec_hard_op ops s) = dr_shadow s"
  by (induction ops arbitrary: s) (use exec_hard_op_keeps in fastforce)+

lemma ucast_low [simp]: "ucast (set_field 0 32 (ucast l) r) = l" for l :: u32 and r :: u64
  by (rule low_field32(1))

section \<open>Properties\<close>

text \<open>A hardware breakpoint goes to the first of the four registers that is not in use. Its
  enable bit, its condition and length, its address and its handler are then those asked
  for, the other three registers are as they were, the debug exception is intercepted, and
  unused registers still have no configuration.\<close>

theorem dbg_hard_brk_set_spec:
  assumes "hbrk_clean s" and "n < 4" and "\<not> uu_hbrk_enabled n s" and "\<forall>m < n. uu_hbrk_enabled m s"
  shows "\<exists>s'. dbg_hard_brk_set addr t l h s = (VM_DONE, s')
    \<and> uu_hbrk_enabled n s' \<and> uu_hbrk_get_config n s' = uu_hbrk_mke_conf t l \<and> get_dr n s' = addr \<and> hbrk_hdlr s' ! n = h
    \<and> (\<forall>m < 4. m \<noteq> n \<longrightarrow> uu_hbrk_enabled m s' = uu_hbrk_enabled m s
         \<and> uu_hbrk_get_config m s' = uu_hbrk_get_config m s \<and> get_dr m s' = get_dr m s \<and> hbrk_hdlr s' ! m = hbrk_hdlr s ! m)
    \<and> bit (dbg_excp s') DB_EXCP \<and> hbrk_clean s'"
  using assms(1)
proof (cases rule: brk_set_result [where addr = addr and t = t and l = l and h = h])
  case full
  then show ?thesis using assms(2,3) by blast
next
  case (free k s')
  have k: "k = n" using free(2,3) assms(3,4) by (metis nat_neq_iff)
  have len: "length (vm_dr s) = 4" "length (hbrk_hdlr s) = 4" "uu_hbrk_get_config n s = 0" using assms by (auto simp: hbrk_clean_def)
  have own: "uu_hbrk_enabled n s'" "uu_hbrk_get_config n s' = uu_hbrk_mke_conf t l"
    using setup_own [OF assms(2) len(3), of t l] hbrk_dr7_cong [OF free(5)] k by simp_all
  have other: "uu_hbrk_enabled m s' = uu_hbrk_enabled m s \<and> uu_hbrk_get_config m s' = uu_hbrk_get_config m s
      \<and> get_dr m s' = get_dr m s \<and> hbrk_hdlr s' ! m = hbrk_hdlr s ! m" if "m < 4" "m \<noteq> n" for m
    using setup_other [OF assms(2) that, of t l s] hbrk_dr7_cong [OF free(5)] k that free(6,7) by (simp add: get_dr_def)
  have "hbrk_clean s'" using brk_ops_clean(1) [OF assms(1), of addr t l h] free(4) by simp
  then show ?thesis using free own other k len by (auto simp: get_dr_def)
qed

theorem dbg_hard_brk_set_spec_witness:
  "\<exists>s'. dbg_hard_brk_set 0x7000 1 3 9 dbg_ex = (VM_DONE, s') \<and> uu_hbrk_enabled 0 s' \<and> get_dr 0 s' = 0x7000
     \<and> uu_hbrk_get_config 0 s' = 0xd \<and> \<not> uu_hbrk_enabled 1 s'"
proof -
  have s: "vm_dr dbg_ex = [0, 0, 0, 0]" "hbrk_hdlr dbg_ex = [0, 0, 0, 0]" "hbrk_dr7 dbg_ex = 0x400"
    by (simp_all add: dbg_ex_def vm_cpu.extend_def dbg_vm.fields_def)
  have e: "\<not> uu_hbrk_enabled n dbg_ex" if "n < 4" for n
  proof -
    have "n = 0 \<or> n = 1 \<or> n = 2 \<or> n = 3" using that by linarith
    then show ?thesis by (elim disjE) (simp_all add: uu_hbrk_enabled_def s uu_hbrk_set_enbl_def uuu_hbrk_enbl_idx_def)
  qed
  have "uu_hbrk_get_config n dbg_ex = 0" if "n < 4" for n
  proof -
    have "n = 0 \<or> n = 1 \<or> n = 2 \<or> n = 3" using that by linarith
    then show ?thesis by (elim disjE) (simp_all add: uu_hbrk_get_config_def s uuu_hbrk_conf_idx_def)
  qed
  then have "hbrk_clean dbg_ex" by (simp add: hbrk_clean_def s)
  from dbg_hard_brk_set_spec [OF this, of 0 "0x7000" 1 3 9] e [of 0] e [of 1]
  show ?thesis by (force simp: uu_hbrk_mke_conf_def)
qed

text \<open>When the debugger is set up, used for any sequence of hardware breakpoints, events and
  single steps, and reset, the debug registers of the guest hold what they held before and the
  guest accesses them directly again.\<close>

theorem dbg_hard_session_restores:
  assumes "length (vm_dr s) = 4" and "hbrk_clean (dbg_hard_setup s)"
  shows "let s' = dbg_hard_reset (fold exec_hard_op ops (dbg_hard_setup s))
         in vm_dr s' = vm_dr s \<and> vm_dr6 s' = vm_dr6 s \<and> vm_dr7 s' = vm_dr7 s \<and> \<not> dr_exit s'"
proof -
  define t where "t = fold exec_hard_op ops (dbg_hard_setup s)"
  have c: "hbrk_clean t" "dr_shadow t = dr_shadow (dbg_hard_setup s)" using session_keeps [OF assms(2)] by (simp_all add: t_def)
  have len: "length (vm_dr t) = 4" using c(1) by (simp add: hbrk_clean_def)
  define u where "u = dbg_hard_stp_reset (dbg_hard_brk_reset t)"
  have u: "dr_shadow u = dr_shadow t" "length (vm_dr u) = 4"
    by (simp_all add: u_def dbg_hard_stp_reset_def dbg_hard_brk_reset_def len)
  have sh: "dr_shadow (dbg_hard_setup s) = [get_dr 0 s, get_dr 1 s, get_dr 2 s, get_dr 3 s,
      set_field 0 32 (ucast (vm_dr6 s)) (dr_shadow s ! 4), set_field 0 32 (ucast (vm_dr7 s)) (dr_shadow s ! 5)]"
    by (simp add: dbg_hard_setup_def dbg_hard_protect_dr_def Let_def dbg_hard_brk_dr7_clean_def dbg_hard_dr6_clean_def)
  have four: "xs[0 := a, 1 := b, 2 := c, 3 := d] = [a, b, c, d]" if "length xs = 4" for xs :: "u64 list" and a b c d
    using that by (intro nth_equalityI) (auto simp: nth_list_update less_Suc_eq numeral_eq_Suc)
  have "vm_dr s = [get_dr 0 s, get_dr 1 s, get_dr 2 s, get_dr 3 s]"
    using assms(1) by (intro nth_equalityI) (auto simp: get_dr_def less_Suc_eq numeral_eq_Suc)
  then show ?thesis unfolding t_def [symmetric] dbg_hard_reset_def u_def [symmetric]
    using four [OF u(2)] by (simp add: dbg_hard_release_dr_def Let_def u c sh)
qed

theorem dbg_hard_session_restores_witness:
  "vm_dr (dbg_hard_reset (fold exec_hard_op [OpBrkSet 0x7000 1 3 9, OpRearm, OpStep 0, OpDisarm] (dbg_hard_setup dbg_ex)))
     = vm_dr dbg_ex"
proof -
  have s: "vm_dr (dbg_hard_setup dbg_ex) = [0, 0, 0, 0]" "hbrk_hdlr (dbg_hard_setup dbg_ex) = [0, 0, 0, 0]"
    "hbrk_dr7 (dbg_hard_setup dbg_ex) = 0"
    by (simp_all add: dbg_ex_def vm_cpu.extend_def dbg_vm.fields_def dbg_hard_setup_def dbg_hard_protect_dr_def
        dbg_hard_brk_dr7_clean_def dbg_hard_dr6_clean_def)
  have "hbrk_clean (dbg_hard_setup dbg_ex)" by (simp add: hbrk_clean_def s uu_hbrk_get_config_def)
  moreover have "length (vm_dr dbg_ex) = 4" by (simp add: dbg_ex_def vm_cpu.extend_def dbg_vm.fields_def)
  ultimately show ?thesis
    using dbg_hard_session_restores [of dbg_ex "[OpBrkSet 0x7000 1 3 9, OpRearm, OpStep 0, OpDisarm]"] by (simp add: Let_def)
qed

text \<open>An access of the guest to a debug register, while they are protected, works on the shadow: what
  privileged code writes to an address register it reads back, in the low 32 bits of any
  general register, without touching the physical registers; code that is not privileged gets
  a general protection fault and a register number out of range is refused.\<close>

theorem resolve_dr_read_back:
  assumes "dr \<le> 3" and "gpr \<le> 15" and "gpr' \<le> 15" and "length (dr_shadow s) = 6" and "length (vm_gpr s) = 16"
  shows "(if uu_rmode s \<or> vm_cpl s = 0
     then \<exists>s1 s2. uu_resolve_dr True dr gpr s = (VM_DONE, s1) \<and> uu_resolve_dr False dr gpr' s1 = (VM_DONE, s2)
        \<and> (ucast (get_gpr gpr' s2) :: u32) = ucast (get_gpr gpr s) \<and> vm_dr s2 = vm_dr s
     else uu_resolve_dr w dr gpr s = (VM_FAULT, uu_vmx_vmexit_inject_exception GP_EXCP 0 0 s))"
proof (cases "uu_rmode s \<or> vm_cpl s = 0")
  case True
  let ?s1 = "set_shadow dr (get_gpr gpr s) s"
  have p: "uu_rmode ?s1 \<or> vm_cpl ?s1 = 0" using True by (auto simp: uu_rmode_def set_shadow_def)
  have 1: "uu_resolve_dr True dr gpr s = (VM_DONE, ?s1)"
    using True assms(1,2) by (simp add: uu_resolve_dr_def uu_resolve_dr_wr_def Let_def GPR64_RAX_def)
  have 2: "uu_resolve_dr False dr gpr' ?s1 = (VM_DONE, set_gpr gpr' (set_field 0 32 (dr_shadow ?s1 ! dr) (get_gpr gpr' ?s1)) ?s1)"
    using p assms(1,3) by (simp add: uu_resolve_dr_def uu_resolve_dr_rd_def Let_def GPR64_RAX_def)
  have f: "(ucast (set_field 0 32 v r) :: u32) = ucast v" for v r :: u64
    by (rule bit_eqI) (auto simp: bit_unsigned_iff bit_set_field possible_bit_def)
  have g: "get_gpr gpr' (set_gpr gpr' v t) = v" if "length (vm_gpr t) = 16" for v and t :: "'a dbg_vm_scheme"
    using that assms(3) by (simp add: get_gpr_def set_gpr_def)
  have "length (vm_gpr ?s1) = 16" "dr_shadow ?s1 ! dr = set_field 0 32 (get_gpr gpr s) (dr_shadow s ! dr)"
    using assms(1,4,5) by (simp_all add: set_shadow_def)
  moreover have "vm_dr (set_gpr gpr' v ?s1) = vm_dr s" for v by (simp add: set_gpr_def set_shadow_def)
  ultimately show ?thesis using True 1 2 f g by simp
qed (simp add: uu_resolve_dr_def)

theorem resolve_dr_read_back_witness:
  "\<exists>s1 s2. uu_resolve_dr True 2 15 (dbg_ex\<lparr>vm_gpr := (replicate 16 0)[15 := 0x1234]\<rparr>) = (VM_DONE, s1)
     \<and> uu_resolve_dr False 2 12 s1 = (VM_DONE, s2) \<and> (ucast (get_gpr 12 s2) :: u32) = 0x1234"
proof -
  let ?s = "dbg_ex\<lparr>vm_gpr := (replicate 16 0)[15 := 0x1234]\<rparr>"
  have "length (dr_shadow ?s) = 6" "length (vm_gpr ?s) = 16" "vm_cpl ?s = 0" "get_gpr 15 ?s = 0x1234"
    by (simp_all add: dbg_ex_def vm_cpu.extend_def dbg_vm.fields_def vm_ex_def get_gpr_def GPR64_RSP_def)
  then show ?thesis using resolve_dr_read_back [of 2 15 12 ?s] by auto
qed

end
