(* ===== verification/Ctrl_Evt.thy ===== *)
theory Ctrl_Evt
  imports Dbg_Hard
begin

text \<open>
  The events of the controller: \<^verbatim>\<open>vmm/src/control/ctrl_evt.c\<close> decides for every exit whether
  the virtual machine monitor, the debugger or the user asked for it and records the
  event with its handler; \<^verbatim>\<open>dbg.c\<close> and \<^verbatim>\<open>dbg_evt.c\<close> join the two halves of the debugger,
  \<^verbatim>\<open>vmm/src/core/excp.c\<close> resolves an exception of the guest, \<^verbatim>\<open>emulate.c\<close> ends an emulated
  instruction, and \<^verbatim>\<open>ctrl.c\<close> arms and disarms the traps. The handlers of the monitor
  (\<^verbatim>\<open>vmm_evt.c\<close>) all ignore their event. A handler of the user is an index into the table
  \<^verbatim>\<open>ctrl_evt_usr_hdl\<close>, or a function pointer that a breakpoint was given. The disassembler and
  the instruction emulator are arguments of the definitions that call them.
\<close>

section \<open>State\<close>

text \<open>The argument of an event: a byte, a word, the debug event or nothing.\<close>

datatype ctrl_arg = ArgNone | ArgByte u8 | ArgLow u32 | ArgDbgEvt

datatype evt_hdl = NoHdl | UsrHdl nat | OwnHdl u64

record ctrl_vm = dbg_vm +
  cev_type :: nat
  cev_arg :: ctrl_arg
  cev_hdl :: evt_hdl
  usr_cr_rd :: u32
  usr_cr_wr :: u32
  usr_filter :: u64
  usr_cpuid :: u32
  vmexit_cnt :: u64
  fault_err :: u32
  emu_sts :: nat
  exit_vector :: u32
  exit_err :: u32
  exit_qual :: u64
  int_sti :: bool
  int_mss :: bool
  dbgctl_lbr :: bool
  dbgctl_frz :: bool
  cr0_mask :: u64
  cr4_mask :: u64
  cr0_dft_mask :: u64
  cr4_dft_mask :: u64
  proc_cr3s :: bool

definition CTRL_EVT_USR_TYPE_CR_RD :: nat where "CTRL_EVT_USR_TYPE_CR_RD = 0"
definition CTRL_EVT_USR_TYPE_CR_WR :: nat where "CTRL_EVT_USR_TYPE_CR_WR = 1"
definition CTRL_EVT_USR_TYPE_EXCP :: nat where "CTRL_EVT_USR_TYPE_EXCP = 2"
definition CTRL_EVT_USR_TYPE_BRK :: nat where "CTRL_EVT_USR_TYPE_BRK = 3"
definition CTRL_EVT_USR_TYPE_SSTEP :: nat where "CTRL_EVT_USR_TYPE_SSTEP = 4"
definition CTRL_EVT_USR_TYPE_NPF :: nat where "CTRL_EVT_USR_TYPE_NPF = 5"
definition CTRL_EVT_USR_TYPE_HYP :: nat where "CTRL_EVT_USR_TYPE_HYP = 6"
definition CTRL_EVT_USR_TYPE_CPUID :: nat where "CTRL_EVT_USR_TYPE_CPUID = 7"
definition CTRL_EVT_USR_TYPE_S3 :: nat where "CTRL_EVT_USR_TYPE_S3 = 8"

definition CTRL_FILTER_NPF :: u64 where "CTRL_FILTER_NPF = push_bit 0 1"
definition CTRL_FILTER_HYP :: u64 where "CTRL_FILTER_HYP = push_bit 1 1"
definition CTRL_FILTER_CPUID :: u64 where "CTRL_FILTER_CPUID = push_bit 2 1"
definition CTRL_FILTER_S3 :: u64 where "CTRL_FILTER_S3 = push_bit 3 1"
definition CTRL_CPUID_ALL :: u32 where "CTRL_CPUID_ALL = - 1"

definition EMU_STS_AVL :: nat where "EMU_STS_AVL = 0"
definition EMU_STS_NATIVE :: nat where "EMU_STS_NATIVE = 1"
definition EMU_STS_DONE :: nat where "EMU_STS_DONE = 2"

text \<open>The disassembler and the emulator. A disassembled instruction is its mnemonic, as far
  as the code distinguishes it, and its length.\<close>

datatype ud_mnemonic = UD_Isysenter | UD_Isysexit | UD_Iint | UD_Imov | UD_Iiretw | UD_Iiretd | UD_Iiretq
  | UD_Iclts | UD_Iint1 | UD_Iint3 | UD_Iinto | UD_Ibound | UD_Iother

record 'a insn_ops =
  disassemble :: "'a ctrl_vm_scheme \<Rightarrow> vmerr \<times> ud_mnemonic \<times> u64 \<times> 'a ctrl_vm_scheme"
  emulate_insn :: "'a ctrl_vm_scheme \<Rightarrow> vmerr \<times> 'a ctrl_vm_scheme"

section \<open>Recording an event\<close>

definition ctrl_evt_setup :: "nat \<Rightarrow> u64 \<Rightarrow> ctrl_arg \<Rightarrow> 'a ctrl_vm_scheme \<Rightarrow> 'a ctrl_vm_scheme" where
  "ctrl_evt_setup type hdl arg s =
     s\<lparr>cev_type := type, cev_arg := arg, cev_hdl := (if hdl \<noteq> 0 then OwnHdl hdl else UsrHdl type)\<rparr>"

section \<open>Emulated instructions\<close>

definition emulate_done :: "vmerr \<Rightarrow> u64 \<Rightarrow> 'a ctrl_vm_scheme \<Rightarrow> vmerr \<times> 'a ctrl_vm_scheme" where
  "emulate_done rc sz s =
     (rc, if rc = VM_DONE then (vm_update_rip sz s)\<lparr>emu_sts := EMU_STS_DONE, int_sti := False, int_mss := False\<rparr>
          else if rc = VM_DONE_LET_RIP then s\<lparr>emu_sts := EMU_STS_DONE, int_sti := False, int_mss := False\<rparr>
          else s)"

definition emulate :: "'a insn_ops \<Rightarrow> 'a ctrl_vm_scheme \<Rightarrow> vmerr \<times> 'a ctrl_vm_scheme" where
  "emulate ops s =
     (let (rc, mn, sz, s1) = disassemble ops s
      in if rc \<noteq> VM_DONE then (rc, s1)
         else let (rc, s2) = emulate_insn ops s1 in emulate_done rc sz s2)"

section \<open>Fast system calls under single step\<close>

definition dbg_hard_stp_event_fast_syscall ::
    "'a insn_ops \<Rightarrow> bool \<Rightarrow> u64 \<Rightarrow> 'a ctrl_vm_scheme \<Rightarrow> vmerr \<times> 'a ctrl_vm_scheme" where
  "dbg_hard_stp_event_fast_syscall ops tf sz s =
     (let (rc0, s1) = emulate_insn ops (dbg_hard_stp_restore_context s);
          (rc, s2) = emulate_done rc0 sz s1;
          s3 = dbg_hard_stp_setup_context (s2\<lparr>emu_sts := EMU_STS_AVL\<rparr>)
      in (rc, if rc = VM_DONE_LET_RIP then s3\<lparr>rflags_tf := tf\<rparr> else s3))"

definition dbg_hard_stp_event_gp :: "'a insn_ops \<Rightarrow> 'a ctrl_vm_scheme \<Rightarrow> vmerr \<times> 'a ctrl_vm_scheme" where
  "dbg_hard_stp_event_gp ops s =
     (if \<not> hstp_on s then (VM_IGNORE, s)
      else let (rc, mn, sz, s1) = disassemble ops s
           in if rc \<noteq> VM_DONE then (rc, s1)
              else case mn of
                UD_Isysenter \<Rightarrow> dbg_hard_stp_event_fast_syscall ops False sz s1
              | UD_Isysexit \<Rightarrow> dbg_hard_stp_event_fast_syscall ops True sz s1
              | _ \<Rightarrow> (VM_IGNORE, s1))"

section \<open>Debug events\<close>

definition dbg_evt_soft :: "'a ctrl_vm_scheme \<Rightarrow> vmerr \<times> 'a ctrl_vm_scheme" where
  "dbg_evt_soft s =
     (let (rc, hdlr, s1) = dbg_soft_event s
      in (rc, if rc = VM_DONE then ctrl_evt_setup CTRL_EVT_USR_TYPE_BRK hdlr ArgDbgEvt s1 else s1))"

definition dr6_bs :: "'a dbg_vm_scheme \<Rightarrow> bool" where
  "dr6_bs s = bit (vm_dr6 s) 14"

definition dbg_evt_hard :: "'a ctrl_vm_scheme \<Rightarrow> (vmerr \<times> 'a ctrl_vm_scheme) option" where
  "dbg_evt_hard s =
     (if dr6_bs s then
        (case dbg_hard_stp_event s of
           None \<Rightarrow> None
         | Some (rc, s1) \<Rightarrow>
             Some (rc, if rc = VM_DONE then ctrl_evt_setup CTRL_EVT_USR_TYPE_SSTEP 0 ArgDbgEvt s1 else s1))
      else (let (rc, hdlr, s1) = dbg_hard_brk_event s
            in Some (rc, if rc = VM_DONE then ctrl_evt_setup CTRL_EVT_USR_TYPE_BRK hdlr ArgDbgEvt s1 else s1)))"

definition dbg_evt_gp :: "'a insn_ops \<Rightarrow> 'a ctrl_vm_scheme \<Rightarrow> vmerr \<times> 'a ctrl_vm_scheme" where
  "dbg_evt_gp ops s = dbg_hard_stp_event_gp ops s"

definition dbg_resume :: "bool \<Rightarrow> 'a dbg_vm_scheme \<Rightarrow> (vmerr \<times> 'a dbg_vm_scheme) option" where
  "dbg_resume stp s =
     (case dbg_soft_resume (dbg_hard_brk_resume s) of
        None \<Rightarrow> None
      | Some (rc, s1) \<Rightarrow>
          if rc AND (VM_DONE OR VM_IGNORE) = 0 then Some (rc, s1)
          else if stp then Some (VM_DONE, dbg_hard_stp_enable DBG_REQ_USR s1)
          else if rc = VM_DONE then Some (VM_DONE, dbg_hard_stp_enable DBG_REQ_VMM s1)
          else Some (VM_DONE, s1))"

definition dbg_enable :: "'a dbg_vm_scheme \<Rightarrow> 'a dbg_vm_scheme" where
  "dbg_enable s = dbg_hard_setup s"

definition dbg_disable :: "'a dbg_vm_scheme \<Rightarrow> 'a dbg_vm_scheme" where
  "dbg_disable s = dbg_hard_reset (dbg_soft_reset s)"

section \<open>Who wants the event\<close>

text \<open>Every entry of \<^verbatim>\<open>ctrl_evt_vmm_hdl\<close> leaves the state alone and ignores the event.\<close>

definition ctrl_evt_vmm_hdl :: "ctrl_arg \<Rightarrow> vmerr" where
  "ctrl_evt_vmm_hdl arg = VM_IGNORE"

definition uu_ctrl_evt_excp_vmm :: "nat \<Rightarrow> 'a ctrl_vm_scheme \<Rightarrow> vmerr" where
  "uu_ctrl_evt_excp_vmm vector s =
     (if bit (dflt_excp s) vector then ctrl_evt_vmm_hdl (ArgLow (of_nat vector)) else VM_IGNORE)"

definition uu_ctrl_evt_excp_dbg ::
    "'a insn_ops \<Rightarrow> nat \<Rightarrow> 'a ctrl_vm_scheme \<Rightarrow> (vmerr \<times> 'a ctrl_vm_scheme) option" where
  "uu_ctrl_evt_excp_dbg ops vector s =
     (if bit (dbg_excp s) vector
      then (if vector = DB_EXCP then dbg_evt_hard s
            else if vector = BP_EXCP then Some (dbg_evt_soft s)
            else if vector = GP_BIT then Some (dbg_evt_gp ops s)
            else Some (VM_IGNORE, s))
      else Some (VM_IGNORE, s))"

definition uu_ctrl_evt_excp_usr :: "nat \<Rightarrow> 'a ctrl_vm_scheme \<Rightarrow> vmerr \<times> 'a ctrl_vm_scheme" where
  "uu_ctrl_evt_excp_usr vector s =
     (VM_IGNORE,
      if bit (usr_excp s) vector
      then ctrl_evt_setup CTRL_EVT_USR_TYPE_EXCP 0 (ArgLow (of_nat vector)) s else s)"

definition ctrl_evt_excp :: "'a insn_ops \<Rightarrow> nat \<Rightarrow> 'a ctrl_vm_scheme \<Rightarrow> (vmerr \<times> 'a ctrl_vm_scheme) option" where
  "ctrl_evt_excp ops vector s =
     (if uu_ctrl_evt_excp_vmm vector s = VM_IGNORE then
        (case uu_ctrl_evt_excp_dbg ops vector s of
           None \<Rightarrow> None
         | Some (rc, s1) \<Rightarrow> if rc = VM_IGNORE then Some (uu_ctrl_evt_excp_usr vector s1) else Some (rc, s1))
      else Some (uu_ctrl_evt_excp_vmm vector s, s))"

definition uu_ctrl_evt_cr_wr_usr :: "nat \<Rightarrow> 'a ctrl_vm_scheme \<Rightarrow> vmerr \<times> 'a ctrl_vm_scheme" where
  "uu_ctrl_evt_cr_wr_usr n s =
     (if \<not> bit (usr_cr_wr s) n then (VM_IGNORE, s)
      else (VM_DONE, ctrl_evt_setup CTRL_EVT_USR_TYPE_CR_WR 0 (ArgByte (of_nat n)) s))"

definition ctrl_evt_cr_rd :: "nat \<Rightarrow> 'a ctrl_vm_scheme \<Rightarrow> vmerr \<times> 'a ctrl_vm_scheme" where
  "ctrl_evt_cr_rd n s =
     (if bit (usr_cr_rd s) n
      then (VM_DONE, ctrl_evt_setup CTRL_EVT_USR_TYPE_CR_RD 0 (ArgByte (of_nat n)) s)
      else (VM_IGNORE, s))"

definition ctrl_evt_cr_wr :: "nat \<Rightarrow> 'a ctrl_vm_scheme \<Rightarrow> vmerr \<times> 'a ctrl_vm_scheme" where
  "ctrl_evt_cr_wr n s =
     (let rc = ctrl_evt_vmm_hdl (ArgByte (of_nat n))
      in if rc = VM_IGNORE then uu_ctrl_evt_cr_wr_usr n s else (rc, s))"

text \<open>The three filters of the user have one shape.\<close>

definition ctrl_evt_filter :: "u64 \<Rightarrow> nat \<Rightarrow> 'a ctrl_vm_scheme \<Rightarrow> vmerr \<times> 'a ctrl_vm_scheme" where
  "ctrl_evt_filter flt type s =
     (if usr_filter s AND flt = 0 then (VM_IGNORE, s)
      else (VM_DONE, ctrl_evt_setup type 0 ArgNone s))"

definition uu_ctrl_evt_npf_usr :: "'a ctrl_vm_scheme \<Rightarrow> vmerr \<times> 'a ctrl_vm_scheme" where
  "uu_ctrl_evt_npf_usr = ctrl_evt_filter CTRL_FILTER_NPF CTRL_EVT_USR_TYPE_NPF"

definition uu_ctrl_evt_suspend_usr :: "'a ctrl_vm_scheme \<Rightarrow> vmerr \<times> 'a ctrl_vm_scheme" where
  "uu_ctrl_evt_suspend_usr = ctrl_evt_filter CTRL_FILTER_S3 CTRL_EVT_USR_TYPE_S3"

definition uu_ctrl_evt_hyp_usr :: "'a ctrl_vm_scheme \<Rightarrow> vmerr \<times> 'a ctrl_vm_scheme" where
  "uu_ctrl_evt_hyp_usr = ctrl_evt_filter CTRL_FILTER_HYP CTRL_EVT_USR_TYPE_HYP"

definition ctrl_evt_npf :: "'a ctrl_vm_scheme \<Rightarrow> vmerr \<times> 'a ctrl_vm_scheme" where
  "ctrl_evt_npf s =
     (let rc = ctrl_evt_vmm_hdl ArgNone
      in if rc = VM_IGNORE then uu_ctrl_evt_npf_usr s else (rc, s))"

definition ctrl_evt_suspend :: "'a ctrl_vm_scheme \<Rightarrow> vmerr \<times> 'a ctrl_vm_scheme" where
  "ctrl_evt_suspend s =
     (let rc = ctrl_evt_vmm_hdl ArgNone
      in if rc = VM_IGNORE then uu_ctrl_evt_suspend_usr s else (rc, s))"

definition ctrl_evt_hypercall :: "'a ctrl_vm_scheme \<Rightarrow> vmerr \<times> 'a ctrl_vm_scheme" where
  "ctrl_evt_hypercall s =
     (let rc = ctrl_evt_vmm_hdl ArgNone
      in if rc = VM_IGNORE then uu_ctrl_evt_hyp_usr s else (rc, s))"

definition ctrl_evt_cpuid :: "u32 \<Rightarrow> 'a ctrl_vm_scheme \<Rightarrow> vmerr \<times> 'a ctrl_vm_scheme" where
  "ctrl_evt_cpuid index s =
     (if usr_filter s AND CTRL_FILTER_CPUID = 0 then (VM_IGNORE, s)
      else if usr_cpuid s \<noteq> index \<and> usr_cpuid s \<noteq> CTRL_CPUID_ALL then (VM_IGNORE, s)
      else (VM_DONE, ctrl_evt_setup CTRL_EVT_USR_TYPE_CPUID 0 ArgNone s))"

section \<open>Exceptions of the guest\<close>

definition uu_resolve_exception ::
    "'a insn_ops \<Rightarrow> nat \<Rightarrow> u32 \<Rightarrow> u64 \<Rightarrow> 'a ctrl_vm_scheme \<Rightarrow> (vmerr \<times> 'a ctrl_vm_scheme) option" where
  "uu_resolve_exception ops vector error fault s =
     (case ctrl_evt_excp ops vector (s\<lparr>fault_err := error\<rparr>) of
        None \<Rightarrow> None
      | Some (rc, s1) \<Rightarrow>
          Some (rc, if rc = VM_IGNORE then uu_vmx_vmexit_inject_exception (of_nat vector) error fault s1 else s1))"

definition resolve_exception :: "'a insn_ops \<Rightarrow> 'a ctrl_vm_scheme \<Rightarrow> (vmerr \<times> 'a ctrl_vm_scheme) option" where
  "resolve_exception ops s =
     (let fault = exit_qual s AND 0xffffffff;
          s1 = (if exit_vector s = PF_EXCP then s\<lparr>vm_cr2 := fault\<rparr> else s)
      in uu_resolve_exception ops (unat (exit_vector s)) (exit_err s) fault s1)"

section \<open>Traps\<close>

definition uu_update_exception_mask :: "'a dbg_vm_scheme \<Rightarrow> 'a dbg_vm_scheme" where
  "uu_update_exception_mask s = s\<lparr>excp_bitmap := dflt_excp s OR usr_excp s OR dbg_excp s\<rparr>"

definition ctrl_traps_enable :: "'a dbg_vm_scheme \<Rightarrow> 'a dbg_vm_scheme" where
  "ctrl_traps_enable s =
     (let s1 = (if hstp_on s then dbg_hard_stp_setup_context s else s);
          s2 = dbg_hard_brk_rearm (snd (dbg_soft_rearm s1))
      in (uu_update_exception_mask s2)\<lparr>ctrl_traps_on := True, ctrl_traps_upd := False\<rparr>)"

definition ctrl_traps_disable :: "'a dbg_vm_scheme \<Rightarrow> 'a dbg_vm_scheme" where
  "ctrl_traps_disable s =
     (let s1 = (if hstp_on s then dbg_hard_stp_restore_context s else s);
          s2 = (if \<not> soft_dis s1 then snd (dbg_soft_disarm s1) else s1);
          s3 = dbg_hard_brk_disarm s2
      in s3\<lparr>excp_bitmap := dflt_excp s3, ctrl_traps_on := False, ctrl_traps_upd := False\<rparr>)"

text \<open>The register is compared by the address field of the mode: bits 12 and up of the first
  level in long mode, bits 5 to 31 with physical address extension, else bits 12 to 31.\<close>

definition uu_ctrl_active_cr3_check :: "nat \<Rightarrow> 'a dbg_vm_scheme \<Rightarrow> bool" where
  "uu_ctrl_active_cr3_check rpl s =
     (if \<not> ctrl_cr3_on s then True
      else if unat (vm_cpl s) < rpl then False
      else if efer_lma s then get_field 12 40 (vm_cr3 s) = get_field 12 40 (stored_cr3 s)
      else if cr4_pae s then get_field 5 27 (vm_cr3 s) = get_field 5 27 (stored_cr3 s)
      else get_field 12 20 (vm_cr3 s) = get_field 12 20 (stored_cr3 s))"

definition ctrl_traps :: "'a dbg_vm_scheme \<Rightarrow> 'a dbg_vm_scheme" where
  "ctrl_traps s =
     (if uu_ctrl_active_cr3_check 0 s
      then (if \<not> ctrl_traps_on s \<or> ctrl_traps_upd s then ctrl_traps_enable s else s)
      else if ctrl_traps_on s \<or> ctrl_traps_upd s then ctrl_traps_disable s
      else s)"

definition ctrl_active_cr3_disable :: "'a dbg_vm_scheme \<Rightarrow> 'a dbg_vm_scheme" where
  "ctrl_active_cr3_disable s =
     (dbg_soft_reset s)\<lparr>ctrl_traps_upd := True, ctrl_cr3_keep := False, ctrl_cr3_on := False\<rparr>"

definition ctrl_active_cr3_enable :: "u64 \<Rightarrow> 'a dbg_vm_scheme \<Rightarrow> 'a dbg_vm_scheme" where
  "ctrl_active_cr3_enable cr3 s =
     (let s1 = (if ctrl_cr3_on s then ctrl_active_cr3_disable s else s)
      in s1\<lparr>stored_cr3 := cr3, ctrl_traps_upd := True, ctrl_cr3_on := True\<rparr>)"

definition ctrl_active_cr3_reset :: "'a dbg_vm_scheme \<Rightarrow> 'a dbg_vm_scheme" where
  "ctrl_active_cr3_reset s = (if \<not> ctrl_cr3_keep s then ctrl_active_cr3_disable s else s)"

section \<open>Filters of the user\<close>

definition uu_vmx_vmexit_cr_update_mask :: "'a ctrl_vm_scheme \<Rightarrow> 'a ctrl_vm_scheme" where
  "uu_vmx_vmexit_cr_update_mask s =
     s\<lparr>cr0_mask := (if bit (usr_cr_rd s) 0 \<or> bit (usr_cr_wr s) 0 then - 1 else cr0_dft_mask s),
       proc_cr3s := bit (usr_cr_rd s) 3,
       cr4_mask := (if bit (usr_cr_rd s) 4 \<or> bit (usr_cr_wr s) 4 then - 1 else cr4_dft_mask s)\<rparr>"

definition ctrl_usr_set_cr_rd :: "u32 \<Rightarrow> 'a ctrl_vm_scheme \<Rightarrow> 'a ctrl_vm_scheme" where
  "ctrl_usr_set_cr_rd m s = uu_vmx_vmexit_cr_update_mask (s\<lparr>usr_cr_rd := m AND 0x1ff\<rparr>)"

definition ctrl_usr_set_cr_wr :: "u32 \<Rightarrow> 'a ctrl_vm_scheme \<Rightarrow> 'a ctrl_vm_scheme" where
  "ctrl_usr_set_cr_wr m s = uu_vmx_vmexit_cr_update_mask (s\<lparr>usr_cr_wr := m AND 0x1ff\<rparr>)"

definition uu_enable_lbr :: "'a ctrl_vm_scheme \<Rightarrow> 'a ctrl_vm_scheme" where
  "uu_enable_lbr s = s\<lparr>dbgctl_lbr := True, dbgctl_frz := True\<rparr>"

definition uu_disable_lbr :: "'a ctrl_vm_scheme \<Rightarrow> 'a ctrl_vm_scheme" where
  "uu_disable_lbr s = s\<lparr>dbgctl_lbr := False, dbgctl_frz := False\<rparr>"

definition ctrl_usr_reset :: "'a ctrl_vm_scheme \<Rightarrow> 'a ctrl_vm_scheme" where
  "ctrl_usr_reset s =
     uu_disable_lbr (ctrl_usr_set_cr_wr 0 (ctrl_usr_set_cr_rd 0 (uu_update_exception_mask (s\<lparr>usr_excp := 0\<rparr>))))"


section \<open>Stepping over a breakpoint\<close>

text \<open>The slot of the last event: an active breakpoint that is mapped outside of the protected
  area at \<open>p\<close>.\<close>

definition bp_hit :: "nat \<Rightarrow> offset_t \<Rightarrow> 'a dbg_vm_scheme \<Rightarrow> bool" where
  "bp_hit i p s =
     (let bp = soft_list s ! i
      in evt_kind s = DBG_EVT_TYPE_SOFT_BRK \<and> evt_src s = EvtSoft i \<and> i < length (soft_list s)
         \<and> bp_on bp \<and> bp_addr bp = evt_addr s
         \<and> vtrans s (bp_cr3 bp) (bp_addr bp) = Some p \<and> \<not> vmm_area s p)"

lemma brk_resume_soft: "evt_kind s = DBG_EVT_TYPE_SOFT_BRK \<Longrightarrow> dbg_hard_brk_resume s = s"
  by (simp add: dbg_hard_brk_resume_def DBG_EVT_TYPE_SOFT_BRK_def DBG_EVT_TYPE_HARD_BRK_X_def DR7_COND_X_def)

lemma soft_resume_hit:
  assumes "bp_hit i p s"
  shows "dbg_soft_resume s = Some (VM_DONE,
    s\<lparr>vm_mem := (vm_mem s)(p := bp_byte (soft_list s ! i)),
      soft_list := (soft_list s)[i := (soft_list s ! i)\<lparr>bp_st := False\<rparr>], soft_rs := True\<rparr>)"
proof -
  have h: "vtrans s (bp_cr3 (soft_list s ! i)) (bp_addr (soft_list s ! i)) = Some p" "\<not> vmm_area s p"
    using assms unfolding bp_hit_def Let_def by blast+
  show ?thesis using assms write_byte [OF h, of "bp_byte (soft_list s ! i)"]
    by (simp add: dbg_soft_resume_def uu_dbg_soft_restore_insn_def bp_hit_def Let_def set_slot_def)
qed

lemma resume_hit:
  assumes "bp_hit i p s"
  shows "dbg_resume False s = Some (VM_DONE, dbg_hard_stp_enable DBG_REQ_VMM
    (s\<lparr>vm_mem := (vm_mem s)(p := bp_byte (soft_list s ! i)),
      soft_list := (soft_list s)[i := (soft_list s ! i)\<lparr>bp_st := False\<rparr>], soft_rs := True\<rparr>))"
  using soft_resume_hit [OF assms] assms by (simp add: dbg_resume_def brk_resume_soft bp_hit_def Let_def vmerr_defs)

lemma resume_post_hit:
  assumes "evt_src s = EvtSoft i" and "i < length (soft_list s)"
    and "vtrans s (bp_cr3 (soft_list s ! i)) (bp_addr (soft_list s ! i)) = Some p" and "\<not> vmm_area s p"
  shows "dbg_soft_resume_post s = Some (VM_DONE,
    s\<lparr>vm_mem := (vm_mem s)(p := BREAKPOINT_INSN),
      soft_list := (soft_list s)[i := (soft_list s ! i)\<lparr>bp_st := True\<rparr>], soft_rs := False\<rparr>)"
  using assms(1,2) write_byte [OF assms(3,4), of BREAKPOINT_INSN]
  by (simp add: dbg_soft_resume_post_def uu_dbg_soft_restore_bp_def Let_def set_slot_def)

text \<open>Turning the single step on and off.\<close>

lemma stp_enable_sel:
  assumes "\<not> hstp_on s"
  shows "hstp_on (dbg_hard_stp_enable r s)" "rflags_tf (dbg_hard_stp_enable r s)"
    "hstp_tf (dbg_hard_stp_enable r s) = rflags_tf s" "hstp_rq (dbg_hard_stp_enable r s) = take_bit 1 r"
    "hstp_sysenter_cs (dbg_hard_stp_enable r s) = sysenter_cs s"
    "bit (dbg_excp (dbg_hard_stp_enable r s)) DB_EXCP"
    "ctrl_traps_upd (dbg_hard_stp_enable r s)"
    "soft_list (dbg_hard_stp_enable r s) = soft_list s" "soft_rs (dbg_hard_stp_enable r s) = soft_rs s"
    "evt_src (dbg_hard_stp_enable r s) = evt_src s" "hbrk_on (dbg_hard_stp_enable r s) = hbrk_on s"
    "vm_state.truncate (dbg_hard_stp_enable r s) = vm_state.truncate s" "vm_mem (dbg_hard_stp_enable r s) = vm_mem s"
  using assms
  by (simp_all add: dbg_hard_stp_enable_def dbg_hard_stp_protect_def dbg_hard_protect_def
      dbg_hard_stp_save_context_def Let_def bit_or_iff DB_EXCP_def bit_pb1 [of 1, simplified] vm_state.truncate_def)

lemma stp_disable_sel:
  assumes "hstp_on s"
  shows "\<not> hstp_on (dbg_hard_stp_disable s)" "rflags_tf (dbg_hard_stp_disable s) = hstp_tf s"
    "hstp_rq (dbg_hard_stp_disable s) = hstp_rq s" "sysenter_cs (dbg_hard_stp_disable s) = hstp_sysenter_cs s"
    "vm_mem (dbg_hard_stp_disable s) = vm_mem s" "soft_rs (dbg_hard_stp_disable s) = soft_rs s"
    "soft_list (dbg_hard_stp_disable s) = soft_list s"
    "\<not> hbrk_on s \<Longrightarrow> \<not> bit (dbg_excp (dbg_hard_stp_disable s)) DB_EXCP"
  using assms
  by (simp_all add: dbg_hard_stp_disable_def dbg_hard_stp_release_def dbg_hard_release_def
      dbg_hard_stp_restore_context_def Let_def bit_and_iff bit_not_iff DB_EXCP_def bit_pb1 [of 1, simplified])

lemma dr6_clean_sel [simp]:
  "hstp_on (dbg_hard_dr6_clean s) = hstp_on s" "rflags_tf (dbg_hard_dr6_clean s) = rflags_tf s"
  "sysenter_cs (dbg_hard_dr6_clean s) = sysenter_cs s" "vm_mem (dbg_hard_dr6_clean s) = vm_mem s"
  "soft_rs (dbg_hard_dr6_clean s) = soft_rs s" "soft_list (dbg_hard_dr6_clean s) = soft_list s"
  "dbg_excp (dbg_hard_dr6_clean s) = dbg_excp s"
  by (simp_all add: dbg_hard_dr6_clean_def)

text \<open>The memory and the table are those of the state that took the step, the breakpoint is
  armed again and the requestor of the step was the monitor.\<close>

lemma stp_event_hit:
  assumes "hstp_on s" and "soft_rs s" and "hstp_rq s = DBG_REQ_VMM"
    and "evt_src s = EvtSoft i" and "i < length (soft_list s)"
    and "vtrans s (bp_cr3 (soft_list s ! i)) (bp_addr (soft_list s ! i)) = Some p" and "\<not> vmm_area s p"
  shows "dbg_hard_stp_event s = Some (VM_INTERN, dbg_hard_dr6_clean (dbg_hard_stp_disable
    (s\<lparr>vm_mem := (vm_mem s)(p := BREAKPOINT_INSN),
      soft_list := (soft_list s)[i := (soft_list s ! i)\<lparr>bp_st := True\<rparr>], soft_rs := False\<rparr>)))"
proof -
  let ?t = "s\<lparr>vm_mem := (vm_mem s)(p := BREAKPOINT_INSN),
      soft_list := (soft_list s)[i := (soft_list s ! i)\<lparr>bp_st := True\<rparr>], soft_rs := False\<rparr>"
  have "hstp_on ?t" using assms(1) by simp
  then have "hstp_rq (dbg_hard_stp_disable ?t) = DBG_REQ_VMM" using assms(3) stp_disable_sel(3) [of ?t] by simp
  then show ?thesis using assms(1,2) resume_post_hit [OF assms(4-7)] by (simp add: dbg_hard_stp_event_def)
qed

section \<open>Traps of one address space\<close>

lemma vtrans_cr3 [simp]: "vtrans (s\<lparr>vm_cr3 := c\<rparr>) cr3 a = vtrans s cr3 a"
proof -
  let ?t = "s\<lparr>vm_cr3 := c\<rparr>"
  have a: "vmm_area ?t = vmm_area s" by (simp add: fun_eq_iff vmm_area_def)
  have b: "vmm_area_range ?t = vmm_area_range s" by (simp add: fun_eq_iff vmm_area_range_def a)
  have c: "rd_u64 ?t = rd_u64 s" "rd_u32 ?t = rd_u32 s" by (simp_all add: fun_eq_iff rd_u64_def rd_u32_def)
  have d: "pg64_executable ?t = pg64_executable s" by (simp add: fun_eq_iff pg64_executable_def)
  have e: "pg_wlk_and ?t = pg_wlk_and s" by (simp add: fun_eq_iff pg_wlk_and_def d)
  have f: "efer_lma ?t = efer_lma s" "cr4_pae ?t = cr4_pae s" "cr4_pse ?t = cr4_pse s" "vmm_pg_1G ?t = vmm_pg_1G s" by simp_all
  have "uu_pg_walk ?t cr3 v wlk = uu_pg_walk s cr3 v wlk" for v wlk
    unfolding uu_pg_walk_def uu_pg_walk_lmode_def uu_pg_walk_pmode_pae_def uu_pg_walk_pmode_def b c d e f ..
  then show ?thesis by (simp add: vtrans_def translate_def)
qed

lemma bp_ready_cong:
  assumes "\<And>m cr3 a. vtrans (t\<lparr>vm_mem := m\<rparr>) cr3 a = vtrans (s\<lparr>vm_mem := m\<rparr>) cr3 a"
    and "soft_list t = soft_list s" and "vm_mem t = vm_mem s" and "vmm_area t = vmm_area s"
  shows "bp_ready t fr = bp_ready s fr"
  by (simp add: bp_ready_def assms)

lemma disarm_armed:
  assumes "bp_ready s fr"
  shows "dbg_soft_disarm (arm_state (arm_mem fr (on_set (soft_list s)) (vm_mem s)) (on_set (soft_list s)) s) =
    (VM_DONE, s\<lparr>soft_dis := True\<rparr>)"
  by (rule disarm_spec [OF assms]) (auto simp: disarming_def arm_mem_def)

section \<open>Exceptions that are the guest's own\<close>

lemma soft_event_miss:
  assumes "length (soft_list s) = DBG_SOFT_NR"
    and "\<forall>bp \<in> set (soft_list s). bp_on bp \<longrightarrow> bp_addr bp \<noteq> fst (vm_get_code_addr 0 s)"
  shows "dbg_soft_event s = (VM_IGNORE, 0, s)"
proof -
  let ?a = "fst (vm_get_code_addr 0 s)"
  have "\<exists>rc t. dbg_soft_loop (dbg_soft_check_bp ?a) (VM_DONE OR VM_FAIL) (DBG_SOFT_NR - 1) 0 s = (rc, 0 + (DBG_SOFT_NR - 1), t)
      \<and> rc AND (VM_DONE OR VM_FAIL) = 0 \<and> t = s"
  proof (rule soft_loop_inv [where P = "\<lambda>j t. t = s"])
    fix j t assume "j \<le> 0 + (DBG_SOFT_NR - 1)" and t: "t = s"
    then have "j < length (soft_list s)" using assms(1) by (simp add: DBG_SOFT_NR_def)
    then show "\<exists>rc t'. dbg_soft_check_bp ?a j t = (rc, t') \<and> rc AND (VM_DONE OR VM_FAIL) = 0 \<and> t' = s"
      using assms(2) t by (auto simp: dbg_soft_check_bp_def Let_def vmerr_defs)
  qed simp
  then obtain rc where l: "dbg_soft_for_each (dbg_soft_check_bp ?a) (VM_DONE OR VM_FAIL) s = (rc, DBG_SOFT_NR - 1, s)"
      "rc AND (VM_DONE OR VM_FAIL) = 0" by (auto simp: dbg_soft_for_each_def)
  then have "rc \<noteq> VM_DONE" by (auto simp: vmerr_defs)
  with l show ?thesis by (simp add: dbg_soft_event_def split_def)
qed

section \<open>Properties\<close>



definition bp_hit_ex :: dbg_vm where
  "bp_hit_ex = dbg_ex\<lparr>cr0_pg := False, evt_kind := 0xff, evt_src := EvtSoft 0, evt_addr := 0x7000,
     soft_list := (replicate DBG_SOFT_NR bp_off)[0 := bp_off\<lparr>bp_on := True, bp_st := True, bp_addr := 0x7000, bp_byte := 0x90\<rparr>]\<rparr>"





text \<open>C16: an exception that the debugger did not cause goes back to the guest with its vector
  and error code: one the debugger does not intercept, or a breakpoint exception at an address
  where no breakpoint is set. The user is told about it when it is filtered, and nothing
  else of the guest changes but the fault address register. For a page fault that register
  receives the low 32 bits of the address only.\<close>

theorem resolve_exception_reflects:
  assumes "exit_vector s = of_nat v" and "v < 32" and "length (soft_list s) = DBG_SOFT_NR"
    and "bit (dbg_excp s) v \<longrightarrow>
      v = BP_EXCP \<and> (\<forall>bp \<in> set (soft_list s). bp_on bp \<longrightarrow> bp_addr bp \<noteq> fst (vm_get_code_addr 0 s))"
  shows "\<exists>s1 s2. resolve_exception ops s = Some (VM_IGNORE, s2)
    \<and> s2 = uu_vmx_vmexit_inject_exception (exit_vector s) (exit_err s) (exit_qual s AND 0xffffffff) s1
    \<and> s1 = s\<lparr>vm_cr2 := vm_cr2 s1, fault_err := exit_err s, cev_type := cev_type s1, cev_arg := cev_arg s1, cev_hdl := cev_hdl s1\<rparr>
    \<and> cev_hdl s1 = (if bit (usr_excp s) v then UsrHdl CTRL_EVT_USR_TYPE_EXCP else cev_hdl s)
    \<and> (exit_vector s = PF_EXCP \<longrightarrow> vm_cr2 s2 = take_bit 32 (exit_qual s))"
proof -
  define t where "t = (if exit_vector s = PF_EXCP then s\<lparr>vm_cr2 := exit_qual s AND 0xffffffff\<rparr> else s)\<lparr>fault_err := exit_err s\<rparr>"
  have t: "soft_list t = soft_list s" "dbg_excp t = dbg_excp s" "vm_get_code_addr 0 t = vm_get_code_addr 0 s" "usr_excp t = usr_excp s"
    by (simp_all add: t_def vm_get_code_addr_def uu_vm_resolve_seg_offset_def cpu_addr_sz_def u_xx_pmode32_def)
  have uv: "unat (exit_vector s) = v" using assms(1,2) by (simp add: unat_of_nat)
  have dbg: "uu_ctrl_evt_excp_dbg ops v t = Some (VM_IGNORE, t)"
    using assms(3,4) soft_event_miss [of t]
    by (auto simp: uu_ctrl_evt_excp_dbg_def t dbg_evt_soft_def BP_EXCP_def DB_EXCP_def vmerr_defs)
  define s1 where "s1 = snd (uu_ctrl_evt_excp_usr v t)"
  have "resolve_exception ops s = Some (VM_IGNORE, uu_vmx_vmexit_inject_exception (exit_vector s) (exit_err s) (exit_qual s AND 0xffffffff) s1)"
    unfolding resolve_exception_def uu_resolve_exception_def ctrl_evt_excp_def Let_def uv t_def [symmetric]
    using assms(1) by (simp add: dbg uu_ctrl_evt_excp_vmm_def ctrl_evt_vmm_hdl_def uu_ctrl_evt_excp_usr_def s1_def split_def)
  moreover have "s1 = s\<lparr>vm_cr2 := vm_cr2 s1, fault_err := exit_err s, cev_type := cev_type s1, cev_arg := cev_arg s1, cev_hdl := cev_hdl s1\<rparr>"
    by (simp add: s1_def uu_ctrl_evt_excp_usr_def ctrl_evt_setup_def t_def)
  moreover have "cev_hdl s1 = (if bit (usr_excp s) v then UsrHdl CTRL_EVT_USR_TYPE_EXCP else cev_hdl s)"
    by (simp add: s1_def uu_ctrl_evt_excp_usr_def ctrl_evt_setup_def t) (simp add: t_def)
  moreover have "exit_qual s AND 0xffffffff = take_bit 32 (exit_qual s)"
    using and_pow2_minus_1 [of "exit_qual s" 32] by simp
  then have "exit_vector s = PF_EXCP \<longrightarrow>
      vm_cr2 (uu_vmx_vmexit_inject_exception (exit_vector s) (exit_err s) (exit_qual s AND 0xffffffff) s1) = take_bit 32 (exit_qual s)"
    by (simp add: uu_vmx_vmexit_inject_exception_def)
  ultimately show ?thesis by blast
qed

definition ctrl_ex :: ctrl_vm where
  "ctrl_ex = dbg_vm.extend dbg_ex (ctrl_vm.fields 0 ArgNone NoHdl 0 0 0 0 0 0 EMU_STS_AVL 0 0 0
     False False False False 0 0 0 0 False)"

definition ops_ex :: "'a insn_ops" where
  "ops_ex = \<lparr>disassemble = (\<lambda>s. (VM_FAIL, UD_Iother, 0, s)), emulate_insn = (\<lambda>s. (VM_FAIL, s))\<rparr>"

theorem resolve_exception_reflects_witness:
  "\<exists>s2. resolve_exception ops_ex (ctrl_ex\<lparr>exit_vector := 14, exit_err := 2, exit_qual := 0x123456789, usr_excp := 0x4000\<rparr>)
      = Some (VM_IGNORE, s2) \<and> vm_cr2 s2 = 0x23456789 \<and> cev_hdl s2 = UsrHdl CTRL_EVT_USR_TYPE_EXCP \<and> vm_err_code s2 = 2"
proof -
  let ?s = "ctrl_ex\<lparr>exit_vector := 14, exit_err := 2, exit_qual := 0x123456789, usr_excp := 0x4000\<rparr>"
  have e: "dbg_excp ctrl_ex = 0" "length (soft_list ctrl_ex) = DBG_SOFT_NR"
    by (simp_all add: ctrl_ex_def dbg_ex_def dbg_vm.defs ctrl_vm.defs vm_cpu.defs)
  have b: "bit (0x4000 :: u32) 14" by code_simp
  from resolve_exception_reflects [of ?s 14 ops_ex] e b show ?thesis
    by (fastforce simp: PF_EXCP_def uu_vmx_vmexit_inject_exception_def)
qed

end
