(* ===== verification/Gdb_Pkt.thy ===== *)
theory Gdb_Pkt
  imports Strings Ctrl_Evt "HOL-Library.Monad_Syntax"
begin

text \<open>
  The packet layer of the gdb stub, \<^verbatim>\<open>vmm/src/control/gdbstub_pkt.c\<close>. The stub works on the
  state of the controller: the remote channel is the one of the remote memory accesses, and
  the registers a stop reason shows are those of the guest. The stub adds the status bits of
  \<^verbatim>\<open>gdbstub_t\<close>, the last stop reason, its rate, the answer under construction
  (\<^verbatim>\<open>gdb_buffer\<close>, whose field \<^verbatim>\<open>sz\<close> is the length of the list), the cache of a debug register
  and those registers of the guest that only the stub reads or writes. The services of other
  files that the packet layer calls, \<^verbatim>\<open>gdb_process_packet\<close> and \<^verbatim>\<open>gdb_enable\<close>, are arguments
  here; the command layer supplies them. A panic of a command is \<^verbatim>\<open>None\<close>.
\<close>

section \<open>State\<close>

datatype vm_seg = CS | SS | DS | ES | FS | GS | LDTR | TR | GDTR | IDTR

text \<open>The registers of the guest, and the parts of registers, that no other component uses.\<close>

datatype vm_reg = R_CR0 | R_CR4 | R_EFER | R_RFLAGS | R_DBGCTL | R_DR6 | R_DR7
  | R_SEL vm_seg | R_BASE vm_seg | R_LIMIT vm_seg | R_ATTR vm_seg

record gdb_state = ctrl_vm +
  gs_on :: bool
  gs_lock :: bool
  gs_ack :: bool
  gs_reason :: u8
  gs_rate :: u64
  gs_buf :: bytes
  gs_cache :: u64
  gs_reg :: "vm_reg \<Rightarrow> u64"

definition GDB_PKT_SZ :: nat where
  "GDB_PKT_SZ = 4"

definition GDB_ACKPKT_SZ :: nat where
  "GDB_ACKPKT_SZ = 5"

definition GDB_INPUT_SZ :: nat where
  "GDB_INPUT_SZ = 1024"

definition GDB_ANSWER_SZ :: nat where
  "GDB_ANSWER_SZ = 1024"

definition GDB_BUF_SZ :: nat where
  "GDB_BUF_SZ = GDB_ANSWER_SZ - GDB_ACKPKT_SZ"

definition GDB_PKT_BYTE :: u8 where
  "GDB_PKT_BYTE = 36"

definition GDB_END_BYTE :: u8 where
  "GDB_END_BYTE = 35"

definition GDB_ACK_BYTE :: u8 where
  "GDB_ACK_BYTE = 43"

definition GDB_NAK_BYTE :: u8 where
  "GDB_NAK_BYTE = 45"

definition GDB_INT_BYTE :: u8 where
  "GDB_INT_BYTE = 3"

definition GPR64_RBP :: nat where
  "GPR64_RBP = 10"

definition GDB_EXIT_INT :: u8 where
  "GDB_EXIT_INT = 2"

lemmas gdb_byte_defs = GDB_PKT_BYTE_def GDB_END_BYTE_def GDB_ACK_BYTE_def GDB_NAK_BYTE_def
  GDB_INT_BYTE_def
lemmas gdb_size_defs = GDB_PKT_SZ_def GDB_ACKPKT_SZ_def GDB_INPUT_SZ_def GDB_ANSWER_SZ_def GDB_BUF_SZ_def

section \<open>Output\<close>

definition gdb_io_write :: "bytes \<Rightarrow> 'a gdb_state_scheme \<Rightarrow> 'a gdb_state_scheme" where
  "gdb_io_write data s = s\<lparr>io_out := io_out s @ data\<rparr>"

definition gdb_ok :: "'a gdb_state_scheme \<Rightarrow> 'a gdb_state_scheme" where
  "gdb_ok = gdb_io_write (bytes_of_string ''+$OK#9a'')"

definition gdb_unsupported :: "'a gdb_state_scheme \<Rightarrow> 'a gdb_state_scheme" where
  "gdb_unsupported = gdb_io_write (bytes_of_string ''+$#00'')"

definition gdb_err :: "'a gdb_state_scheme \<Rightarrow> 'a gdb_state_scheme" where
  "gdb_err = gdb_io_write (bytes_of_string ''+$E00#a5'')"

definition gdb_err_mem :: "'a gdb_state_scheme \<Rightarrow> 'a gdb_state_scheme" where
  "gdb_err_mem = gdb_io_write (bytes_of_string ''+$E0e#da'')"

definition gdb_ack :: "'a gdb_state_scheme \<Rightarrow> 'a gdb_state_scheme" where
  "gdb_ack s = (gdb_io_write [GDB_ACK_BYTE] s)\<lparr>gs_ack := True\<rparr>"

definition gdb_nak :: "'a gdb_state_scheme \<Rightarrow> 'a gdb_state_scheme" where
  "gdb_nak = gdb_io_write [GDB_NAK_BYTE]"

definition uu_gdb_reset_buffer :: "'a gdb_state_scheme \<Rightarrow> 'a gdb_state_scheme" where
  "uu_gdb_reset_buffer s = s\<lparr>gs_buf := []\<rparr>"

definition gdb_add_str :: "bytes \<Rightarrow> 'a gdb_state_scheme \<Rightarrow> 'a gdb_state_scheme" where
  "gdb_add_str str s =
     (if (of_nat (length (gs_buf s)) :: u64) < of_nat GDB_BUF_SZ - of_nat (length str)
      then s\<lparr>gs_buf := gs_buf s @ str\<rparr> else s)"

definition gdb_add_byte :: "u8 \<Rightarrow> 'a gdb_state_scheme \<Rightarrow> 'a gdb_state_scheme" where
  "gdb_add_byte value s =
     (if length (gs_buf s) < GDB_BUF_SZ - 2
      then s\<lparr>gs_buf := gs_buf s @ uu_uint8_to_hex value\<rparr> else s)"

text \<open>\<^verbatim>\<open>__gdb_fix_endian\<close> views the digits as an array of \<^verbatim>\<open>uint16_t\<close>, one per byte of the
  number, and reverses it in place; an odd last digit is left alone.\<close>

fun halves :: "bytes \<Rightarrow> (u8 \<times> u8) list" where
  "halves (a # b # bs) = (a, b) # halves bs"
| "halves _ = []"

fun unhalves :: "(u8 \<times> u8) list \<Rightarrow> bytes" where
  "unhalves [] = []"
| "unhalves ((a, b) # ps) = a # b # unhalves ps"

fun gdb_fix_loop :: "nat \<Rightarrow> nat \<Rightarrow> nat \<Rightarrow> 'b list \<Rightarrow> 'b list" where
  "gdb_fix_loop 0 i o' fix = fix"
| "gdb_fix_loop (Suc tm) i o' fix =
     (let i' = i - 1 in gdb_fix_loop tm i' (Suc o') (fix[o' := fix ! i', i' := fix ! o']))"

definition uu_gdb_fix_endian :: "bytes \<Rightarrow> bytes" where
  "uu_gdb_fix_endian data =
     unhalves (gdb_fix_loop (length data div 4) (length data div 2) 0 (halves data))
       @ drop (2 * (length data div 2)) data"

definition gdb_add_number :: "u64 \<Rightarrow> u64 \<Rightarrow> bool \<Rightarrow> 'a gdb_state_scheme \<Rightarrow> 'a gdb_state_scheme" where
  "gdb_add_number value precision endian s =
     (let (buf, nb) = uint64_to_hex (gs_buf s) GDB_BUF_SZ value precision;
          k = length buf - nb
      in s\<lparr>gs_buf := (if endian then take k buf @ uu_gdb_fix_endian (drop k buf) else buf)\<rparr>)"

definition uu_gdb_checksum :: "bytes \<Rightarrow> u8" where
  "uu_gdb_checksum data = foldl (+) 0 data"

definition gdb_checksum :: "bytes \<Rightarrow> bytes" where
  "gdb_checksum data = uu_uint8_to_hex (uu_gdb_checksum data)"

text \<open>The answer array is the acknowledge byte, the packet byte and the buffer.\<close>

definition gdb_send_packet :: "'a gdb_state_scheme \<Rightarrow> 'a gdb_state_scheme" where
  "gdb_send_packet s =
     (let pre = (if \<not> gs_ack s then [GDB_ACK_BYTE, GDB_PKT_BYTE] else [GDB_PKT_BYTE]);
          s1 = (if \<not> gs_ack s then s else s\<lparr>gs_ack := False\<rparr>)
      in if length (gs_buf s) > GDB_ANSWER_SZ - GDB_ACKPKT_SZ then gdb_unsupported s1
         else gdb_io_write (pre @ gs_buf s @ [GDB_END_BYTE] @ gdb_checksum (gs_buf s)) s1)"

definition gdb_send_stop_reason :: "u8 \<Rightarrow> 'a gdb_state_scheme \<Rightarrow> 'a gdb_state_scheme" where
  "gdb_send_stop_reason reason s =
     (let mode = cpu_addr_sz s;
          (s_rip, rlen) = (if mode = 64 then (bytes_of_string '';16:'', 16) else (bytes_of_string '';08:'', 8));
          s = gdb_add_str (bytes_of_string ''T'') s;
          s = gdb_add_byte reason s;
          s = gdb_add_str (bytes_of_string ''md:'') s;
          s = gdb_add_number (of_nat mode) 2 False s;
          s = gdb_add_str (bytes_of_string '';04:'') s;
          s = gdb_add_number (get_gpr GPR64_RSP s) rlen True s;
          s = gdb_add_str (bytes_of_string '';05:'') s;
          s = gdb_add_number (get_gpr GPR64_RBP s) rlen True s;
          s = gdb_add_str s_rip s;
          s = gdb_add_number (vm_rip s) rlen True s;
          s = gdb_add_str (bytes_of_string '';'') s
      in gdb_send_packet s)"

definition uu_gdb_preempt :: "u8 \<Rightarrow> 'a gdb_state_scheme \<Rightarrow> 'a gdb_state_scheme" where
  "uu_gdb_preempt reason s = (gdb_send_stop_reason reason s)\<lparr>gs_reason := reason, gs_lock := True\<rparr>"

definition gdb_interrupt_sequence :: "'a gdb_state_scheme \<Rightarrow> 'a gdb_state_scheme" where
  "gdb_interrupt_sequence s = uu_gdb_preempt GDB_EXIT_INT ((uu_gdb_reset_buffer s)\<lparr>gs_ack := True\<rparr>)"

section \<open>Input\<close>

definition gdb_checksum_verify :: "bytes \<Rightarrow> u8 \<Rightarrow> u8 \<Rightarrow> bool" where
  "gdb_checksum_verify data chk0 chk1 =
     (case uu_hex_to_uint8 chk0 chk1 of
        None \<Rightarrow> False
      | Some chkv \<Rightarrow> uu_gdb_checksum data = chkv)"

text \<open>The scan for the end byte: the bytes passed, and how many are left at the end byte.\<close>

fun gdb_scan_end :: "bytes \<Rightarrow> bytes \<times> nat" where
  "gdb_scan_end [] = ([], 0)"
| "gdb_scan_end (b # bs) =
     (if b = GDB_END_BYTE then ([], Suc (length bs))
      else (let (p, n) = gdb_scan_end bs in (b # p, n)))"

text \<open>The bytes consumed, zero for a packet that is not complete.\<close>

definition gdb_parse_packet ::
    "(bytes \<Rightarrow> 'a gdb_state_scheme \<Rightarrow> 'a gdb_state_scheme option) \<Rightarrow> bytes
     \<Rightarrow> 'a gdb_state_scheme \<Rightarrow> (nat \<times> 'a gdb_state_scheme) option" where
  "gdb_parse_packet process data s =
     (if length data < GDB_PKT_SZ then Some (0, s)
      else (let (pkt, dlen) = gdb_scan_end (tl data)
            in if dlen < GDB_PKT_SZ - 1 then Some (0, s)
               else if pkt \<noteq> [] then
                 (let ptr = drop (Suc (length pkt)) (tl data)
                  in if gdb_checksum_verify pkt (ptr ! 0) (ptr ! 1)
                     then map_option (Pair (length pkt + GDB_PKT_SZ)) (process pkt (uu_gdb_reset_buffer s))
                     else Some (length pkt + GDB_PKT_SZ, gdb_nak s))
               else Some (length pkt + GDB_PKT_SZ, s)))"

text \<open>One turn of the loop of \<^verbatim>\<open>gdb_consume_packet\<close>: zero means leave the loop.\<close>

definition gdb_consume_step ::
    "('a gdb_state_scheme \<Rightarrow> 'a gdb_state_scheme) \<Rightarrow> (bytes \<Rightarrow> 'a gdb_state_scheme \<Rightarrow> 'a gdb_state_scheme option)
     \<Rightarrow> bytes \<Rightarrow> 'a gdb_state_scheme \<Rightarrow> (nat \<times> 'a gdb_state_scheme) option" where
  "gdb_consume_step enable process data s =
     (let b = hd data
      in if b = GDB_ACK_BYTE then Some (1, if \<not> gs_on s then enable s else s)
         else if b = GDB_PKT_BYTE then gdb_parse_packet process data s
         else if b = GDB_INT_BYTE then Some (1, gdb_interrupt_sequence s)
         else if b = GDB_NAK_BYTE then Some (1, gdb_ack s)
         else Some (1, gdb_unsupported s))"

function gdb_consume_packet ::
    "('a gdb_state_scheme \<Rightarrow> 'a gdb_state_scheme) \<Rightarrow> (bytes \<Rightarrow> 'a gdb_state_scheme \<Rightarrow> 'a gdb_state_scheme option)
     \<Rightarrow> bytes \<Rightarrow> 'a gdb_state_scheme \<Rightarrow> (bytes \<times> 'a gdb_state_scheme) option" where
  "gdb_consume_packet enable process data s =
     (if data = [] then Some ([], s)
      else (case gdb_consume_step enable process data s of
              None \<Rightarrow> None
            | Some (n, s') \<Rightarrow>
                if n = 0 then Some (data, s')
                else gdb_consume_packet enable process (drop n data) s'))"
  by pat_completeness auto
termination
  by (relation "measure (\<lambda>(enable, process, data, s). length data)") auto

declare gdb_consume_packet.simps [simp del]

text \<open>The receive loop. The source of bytes is a list of chunks, one per call of
  \<^verbatim>\<open>gdb_io_read\<close>, which is given the room left in the input array; a chunk that does not fit
  is split, and an exhausted source reads nothing. The loop runs while bytes remain or the
  stub is locked: \<^verbatim>\<open>None\<close> is also a run that does not return.\<close>

fun gdb_io_read :: "nat \<Rightarrow> bytes list \<Rightarrow> bytes \<times> bytes list" where
  "gdb_io_read room [] = ([], [])"
| "gdb_io_read room (c # cs) =
     (take room c, if length c \<le> room then cs else drop room c # cs)"

partial_function (option) gdb_recv_packet ::
    "('a gdb_state_scheme \<Rightarrow> 'a gdb_state_scheme) \<Rightarrow> (bytes \<Rightarrow> 'a gdb_state_scheme \<Rightarrow> 'a gdb_state_scheme option)
     \<Rightarrow> bytes \<Rightarrow> 'a gdb_state_scheme \<Rightarrow> 'a gdb_state_scheme option" where
  "gdb_recv_packet enable process left s =
     (let (c, src) = gdb_io_read (GDB_INPUT_SZ - length left) (io_in s);
          data = left @ c; s1 = s\<lparr>io_in := src\<rparr>
      in Option.bind (if data \<noteq> [] then gdb_consume_packet enable process data s1 else Some ([], s1))
           (\<lambda>(remain, s'). if remain \<noteq> [] \<or> gs_lock s'
              then gdb_recv_packet enable process remain s'
              else Some s'))"

section \<open>Arguments of commands\<close>

definition gdb_get_byte :: "bytes \<Rightarrow> u8 option" where
  "gdb_get_byte data = (if length data < 2 then None else uu_hex_to_uint8 (data ! 0) (data ! 1))"

definition gdb_get_number :: "bytes \<Rightarrow> bool \<Rightarrow> u64 option" where
  "gdb_get_number data endian =
     hex_to_uint64 (if endian then uu_gdb_fix_endian data else data)"

text \<open>\<^verbatim>\<open>addr,size\<close> for a read, \<^verbatim>\<open>addr,size:bytes\<close> for a write. The answer is nothing when
  the arguments do not parse; the caller then has sent the negative acknowledge.\<close>

definition uu_gdb_setup_mem_op :: "bytes \<Rightarrow> bool \<Rightarrow> (u64 \<times> u64 \<times> bytes) option" where
  "uu_gdb_setup_mem_op data with_bytes =
     do { l_addr \<leftarrow> strchr data 44;
          let s_size = drop (Suc l_addr) data;
          (l_size, bs) \<leftarrow> (if with_bytes
                          then map_option (\<lambda>k. (k, drop (Suc k) s_size)) (strchr s_size 58)
                          else Some (length data - (l_addr + 1), []));
          addr \<leftarrow> gdb_get_number (take l_addr data) False;
          size \<leftarrow> gdb_get_number (take l_size s_size) False;
          Some (addr, size, bs) }"

definition uu_gdb_setup_brk_op :: "bytes \<Rightarrow> (u64 \<times> u64 \<times> u64) option" where
  "uu_gdb_setup_brk_op data =
     do { l_type \<leftarrow> strchr data 44;
          let s_addr = drop (Suc l_type) data;
          l_addr \<leftarrow> strchr s_addr 44;
          let s_kind = drop (Suc l_addr) s_addr;
          type \<leftarrow> gdb_get_number (take l_type data) False;
          addr \<leftarrow> gdb_get_number (take l_addr s_addr) False;
          kind \<leftarrow> gdb_get_number s_kind False;
          Some (type, kind, addr) }"

text \<open>\<^verbatim>\<open>idx\<close> or \<^verbatim>\<open>idx=value\<close>; the register itself is looked up by the caller.\<close>

definition uu_gdb_setup_reg_op :: "bytes \<Rightarrow> bool \<Rightarrow> (u64 \<times> u64) option" where
  "uu_gdb_setup_reg_op data wr =
     (if wr then
        do { l_idx \<leftarrow> strchr data 61;
             value \<leftarrow> gdb_get_number (drop (Suc l_idx) data) True;
             idx \<leftarrow> gdb_get_number (take l_idx data) False;
             Some (idx, value) }
      else map_option (\<lambda>idx. (idx, 0)) (gdb_get_number data False))"

section \<open>Digits and their order\<close>

lemma gdb_fix_loop_rev:
  "tm = length ms div 2 \<Longrightarrow> length us = o' \<Longrightarrow> i = length us + length ms \<Longrightarrow>
   gdb_fix_loop tm i o' (us @ ms @ vs) = us @ rev ms @ vs"
proof (induction tm arbitrary: i o' us ms vs)
  case 0
  then have "length ms \<le> 1" by linarith
  then show ?case by (cases ms) auto
next
  case (Suc tm)
  then have "2 \<le> length ms" by linarith
  then obtain a ms1 where 1: "ms = a # ms1" "ms1 \<noteq> []" by (cases ms) (auto simp: Suc_le_length_iff)
  then obtain ms' b where 2: "ms1 = ms' @ [b]" by (cases ms1 rule: rev_cases) auto
  have len: "tm = length ms' div 2" "i - 1 = length us + Suc (length ms')"
    using Suc.prems 1 2 by auto
  have "(us @ ms @ vs)[o' := (us @ ms @ vs) ! (i - 1), i - 1 := (us @ ms @ vs) ! o']
      = (us @ [b]) @ ms' @ (a # vs)"
    using Suc.prems(2) 1 2 len by (simp add: list_update_append nth_append)
  then show ?case
    using Suc.IH [OF len(1), of "us @ [b]" "Suc o'" "i - 1" "a # vs"] Suc.prems(2) len 1 2
    by (simp add: Let_def)
qed

lemma length_halves: "length (halves data) = length data div 2"
  by (induction data rule: halves.induct) auto

lemma halves_unhalves: "halves (unhalves ps @ r) = ps @ halves r"
  by (induction ps rule: unhalves.induct) auto

lemma unhalves_halves: "unhalves (halves data) @ drop (2 * (length data div 2)) data = data"
  by (induction data rule: halves.induct) auto

lemma length_unhalves: "length (unhalves ps) = 2 * length ps"
  by (induction ps rule: unhalves.induct) auto

lemma uu_gdb_fix_endian_eq:
  "uu_gdb_fix_endian data = unhalves (rev (halves data)) @ drop (2 * (length data div 2)) data"
proof -
  have d: "length data div 4 = length (halves data) div 2"
    by (simp add: length_halves div_mult2_eq [symmetric])
  have "gdb_fix_loop (length data div 4) (length data div 2) 0 ([] @ halves data @ []) = [] @ rev (halves data) @ []"
    by (rule gdb_fix_loop_rev [OF d]) (simp_all add: length_halves)
  then show ?thesis by (simp add: uu_gdb_fix_endian_def)
qed

lemma uu_gdb_fix_endian_length [simp]: "length (uu_gdb_fix_endian data) = length data"
  by (simp add: uu_gdb_fix_endian_eq length_unhalves length_halves)

lemma uu_gdb_fix_endian_involution: "uu_gdb_fix_endian (uu_gdb_fix_endian data) = data"
proof -
  let ?r = "drop (2 * (length data div 2)) data"
  have "length ?r \<le> 1" by simp
  then have r: "halves ?r = []" by (cases ?r) auto
  note e = uu_gdb_fix_endian_eq [of data]
  have "halves (uu_gdb_fix_endian data) = rev (halves data)" by (simp only: e halves_unhalves r append_Nil2)
  moreover have "drop (2 * (length data div 2)) (uu_gdb_fix_endian data) = ?r"
    by (simp only: e) (simp add: length_unhalves length_halves)
  ultimately show ?thesis
    using unhalves_halves [of data] uu_gdb_fix_endian_eq [of "uu_gdb_fix_endian data"] by simp
qed

section \<open>Bounds of the answer\<close>

definition buf_ok :: "'a gdb_state_scheme \<Rightarrow> bool" where
  "buf_ok s = (length (gs_buf s) \<le> GDB_BUF_SZ)"

lemma of_nat_less_u64: "m < 2 ^ 64 \<Longrightarrow> n < 2 ^ 64 \<Longrightarrow> (of_nat m :: u64) < of_nat n \<longleftrightarrow> m < n"
  by (simp add: word_less_nat_alt unat_of_nat)

lemma buf_ok_add_str:
  assumes "length str \<le> GDB_BUF_SZ" and "buf_ok s"
  shows "buf_ok (gdb_add_str str s)"
proof (cases "(of_nat (length (gs_buf s)) :: u64) < of_nat GDB_BUF_SZ - of_nat (length str)")
  case True
  have "of_nat GDB_BUF_SZ - of_nat (length str) = (of_nat (GDB_BUF_SZ - length str) :: u64)"
    using assms(1) by (simp add: of_nat_diff)
  with True have "(of_nat (length (gs_buf s)) :: u64) < of_nat (GDB_BUF_SZ - length str)" by simp
  moreover have "length (gs_buf s) < 2 ^ 64" "GDB_BUF_SZ - length str < 2 ^ 64"
    using assms(2) by (simp_all add: gdb_size_defs buf_ok_def)
  ultimately have "length (gs_buf s) < GDB_BUF_SZ - length str"
    by (simp only: of_nat_less_u64)
  then show ?thesis using True by (simp add: gdb_add_str_def buf_ok_def)
qed (use assms in \<open>simp add: gdb_add_str_def buf_ok_def\<close>)

lemma buf_ok_add_byte: "buf_ok s \<Longrightarrow> buf_ok (gdb_add_byte v s)"
  by (simp add: gdb_add_byte_def buf_ok_def uu_uint8_to_hex_def gdb_size_defs)

lemma buf_ok_add_number: "buf_ok s \<Longrightarrow> buf_ok (gdb_add_number v p e s)"
  using length_uint64_to_hex [of "gs_buf s" GDB_BUF_SZ v p]
  by (auto simp: gdb_add_number_def buf_ok_def Let_def split: prod.splits)

lemma uint8_hex_round_trip:
  "uu_hex_to_uint8 (uu_uint8_to_hex v ! 0) (uu_uint8_to_hex v ! 1) = Some v"
proof -
  let ?h = "drop_bit 4 v AND 0xf" and ?l = "v AND 0xf"
  have n: "uu_to_nibble (uu_hextable ! unat x) = x" if "unat x < 16" for x :: u8
    using nibble_hextable [OF that] by simp
  have h: "unat ?h < 16" "unat ?l < 16" by (simp_all add: nibble_lt)
  then have "?h \<noteq> BAD_NIBBLE" "?l \<noteq> BAD_NIBBLE" by (auto simp: BAD_NIBBLE_def)
  moreover have "push_bit 4 ?h OR ?l = v"
    by (simp only: and_lit) (rule bit_eqI, auto simp: bit_simps)
  ultimately show ?thesis
    by (simp add: uu_hex_to_uint8_def uu_uint8_to_hex_def n [OF h(1)] n [OF h(2)] Let_def)
qed

section \<open>Frames\<close>

definition gdb_frame :: "bytes \<Rightarrow> bytes" where
  "gdb_frame d = GDB_PKT_BYTE # d @ GDB_END_BYTE # gdb_checksum d"

lemma length_gdb_checksum [simp]: "length (gdb_checksum d) = 2"
  by (simp add: gdb_checksum_def uu_uint8_to_hex_def)

lemma gdb_scan_end_frame:
  "GDB_END_BYTE \<notin> set d \<Longrightarrow> gdb_scan_end (d @ GDB_END_BYTE # r) = (d, Suc (length r))"
  by (induction d) auto

lemma gdb_scan_end_absent: "GDB_END_BYTE \<notin> set d \<Longrightarrow> gdb_scan_end d = (d, 0)"
  by (induction d) auto

lemma gdb_scan_end_cases:
  obtains "GDB_END_BYTE \<notin> set d" "gdb_scan_end d = (d, 0)"
  | p r where "d = p @ GDB_END_BYTE # r" "GDB_END_BYTE \<notin> set p" "gdb_scan_end d = (p, Suc (length r))"
proof (cases "GDB_END_BYTE \<in> set d")
  case True
  then obtain p r where "d = p @ GDB_END_BYTE # r" "GDB_END_BYTE \<notin> set p"
    by (metis split_list_first)
  with that(2) gdb_scan_end_frame show ?thesis by blast
qed (use that(1) gdb_scan_end_absent in blast)

lemma gdb_parse_bounded:
  "gdb_parse_packet process data s = Some (n, s') \<Longrightarrow> n \<le> length data"
  by (rule gdb_scan_end_cases [of "tl data"])
    (auto simp: gdb_parse_packet_def gdb_size_defs Let_def split: if_splits dest!: arg_cong [where f = length])

lemma gdb_parse_eq:
  assumes "4 \<le> length data" and "tl data = p @ GDB_END_BYTE # r" and "GDB_END_BYTE \<notin> set p"
  shows "gdb_parse_packet process data s =
    (if length r < 2 then Some (0, s)
     else if p = [] then Some (4, s)
     else if gdb_checksum_verify p (r ! 0) (r ! 1)
     then map_option (Pair (length p + 4)) (process p (uu_gdb_reset_buffer s))
     else Some (length p + 4, gdb_nak s))"
  using assms by (simp add: gdb_parse_packet_def gdb_scan_end_frame gdb_size_defs Let_def)

lemma gdb_parse_frame:
  assumes "d \<noteq> []" and "GDB_END_BYTE \<notin> set d"
  shows "gdb_parse_packet process (gdb_frame d @ rest) s =
    map_option (Pair (length (gdb_frame d))) (process d (uu_gdb_reset_buffer s))"
proof -
  obtain a b where ab: "gdb_checksum d = [a, b]" by (simp add: gdb_checksum_def uu_uint8_to_hex_def)
  have "gdb_checksum_verify d a b"
    using uint8_hex_round_trip [of "uu_gdb_checksum d"] ab
    by (simp add: gdb_checksum_verify_def gdb_checksum_def)
  moreover have "4 \<le> length (gdb_frame d @ rest)" "length (gdb_frame d) = length d + 4"
    "tl (gdb_frame d @ rest) = d @ GDB_END_BYTE # (a # b # rest)"
    by (simp_all add: gdb_frame_def ab)
  ultimately show ?thesis using assms gdb_parse_eq [of "gdb_frame d @ rest" d "a # b # rest"] by simp
qed

text \<open>A packet that is complete is parsed in the same way when more bytes follow.\<close>

lemma gdb_parse_more:
  assumes "gdb_parse_packet process data s = r0" and "\<And>s'. r0 \<noteq> Some (0, s')"
  shows "gdb_parse_packet process (data @ ext) s = r0"
proof -
  have len: "4 \<le> length data"
    using assms by (auto simp: gdb_parse_packet_def gdb_size_defs split: if_splits)
  then have tl: "tl (data @ ext) = tl data @ ext" by (cases data) auto
  show ?thesis
  proof (rule gdb_scan_end_cases [of "tl data"])
    assume "gdb_scan_end (tl data) = (tl data, 0)"
    with assms show ?thesis by (auto simp: gdb_parse_packet_def gdb_size_defs split: if_splits)
  next
    fix p r
    assume d: "tl data = p @ GDB_END_BYTE # r" "GDB_END_BYTE \<notin> set p"
    note e = gdb_parse_eq [OF len d, of process s]
    have len': "4 \<le> length (data @ ext)" using len by simp
    have tl': "tl (data @ ext) = p @ GDB_END_BYTE # (r @ ext)" using tl d(1) by simp
    note e' = gdb_parse_eq [OF len' tl' d(2), of process s]
    have "2 \<le> length r" using assms e by (metis not_less)
    then obtain a b r' where "r = a # b # r'" by (metis Suc_le_length_iff numeral_2_eq_2)
    with e e' assms(1) show ?thesis by simp
  qed
qed

lemma gdb_parse_zero_same:
  "gdb_parse_packet process data s = Some (0, s') \<Longrightarrow> s' = s"
  by (auto simp: gdb_parse_packet_def gdb_size_defs Let_def split: if_splits prod.splits)

section \<open>Consuming a stream\<close>

lemma gdb_consume_step_props:
  assumes "data \<noteq> []"
  shows "gdb_consume_step enable process data s = Some (n, s') \<Longrightarrow> n \<le> length data"
    and "gdb_consume_step enable process data s = Some (0, s') \<Longrightarrow> s' = s"
    and "gdb_consume_step enable process data s = Some (n, s') \<Longrightarrow> n \<noteq> 0 \<Longrightarrow>
         gdb_consume_step enable process (data @ ext) s = Some (n, s')"
    and "gdb_consume_step enable process data s = None \<Longrightarrow>
         gdb_consume_step enable process (data @ ext) s = None"
  using assms gdb_parse_bounded gdb_parse_zero_same gdb_parse_more [OF _ _, of process data s _ ext]
  by (auto simp: gdb_consume_step_def Let_def Suc_le_eq split: if_splits)

lemma gdb_consume_length:
  "gdb_consume_packet enable process data s = Some (remain, s') \<Longrightarrow>
   \<exists>k. k \<le> length data \<and> remain = drop k data"
proof (induction enable process data s rule: gdb_consume_packet.induct)
  case (1 enable process data s)
  show ?case
  proof (cases "data = []")
    case True
    with 1 show ?thesis by (simp add: gdb_consume_packet.simps)
  next
    case False
    with 1(2) obtain n s1 where n: "gdb_consume_step enable process data s = Some (n, s1)"
      by (auto simp: gdb_consume_packet.simps [of _ _ data] split: option.splits)
    show ?thesis
    proof (cases "n = 0")
      case True
      with n False 1(2) show ?thesis
        by (auto simp: gdb_consume_packet.simps [of _ _ data] intro!: exI [of _ 0])
    next
      case nz: False
      with n False 1(2) have "gdb_consume_packet enable process (drop n data) s1 = Some (remain, s')"
        by (simp add: gdb_consume_packet.simps [of _ _ data])
      from 1(1) [OF False n refl nz this] obtain k where "k \<le> length (drop n data)" "remain = drop k (drop n data)"
        by blast
      with gdb_consume_step_props(1) [OF False n] show ?thesis by (intro exI [of _ "k + n"]) simp
    qed
  qed
qed

text \<open>How the bytes are cut into reads does not matter.\<close>

lemma gdb_consume_append:
  "gdb_consume_packet enable process (data @ ext) s =
     Option.bind (gdb_consume_packet enable process data s)
       (\<lambda>(remain, s'). gdb_consume_packet enable process (remain @ ext) s')"
proof (induction enable process data s rule: gdb_consume_packet.induct)
  case (1 enable process data s)
  show ?case
  proof (cases "data = []")
    case True
    then show ?thesis by (simp add: gdb_consume_packet.simps [of _ _ "[]"])
  next
    case False
    note st = gdb_consume_step_props [OF False, of enable process s]
    show ?thesis
    proof (cases "gdb_consume_step enable process data s")
      case None
      with False st(4) [OF None, of ext] show ?thesis
        by (simp add: gdb_consume_packet.simps [of _ _ data] gdb_consume_packet.simps [of _ _ "data @ ext"])
    next
      case (Some ns)
      obtain n s1 where n: "gdb_consume_step enable process data s = Some (n, s1)" using Some by (cases ns) auto
      show ?thesis
      proof (cases "n = 0")
        case True
        with n st(2) have "s1 = s" by simp
        with n True False show ?thesis by (simp add: gdb_consume_packet.simps [of _ _ data])
      next
        case nz: False
        have "drop n (data @ ext) = drop n data @ ext" using st(1) [OF n] by simp
        with n nz False st(3) [OF n nz, of ext] 1 [OF False n refl nz] show ?thesis
          by (simp add: gdb_consume_packet.simps [of _ _ data] gdb_consume_packet.simps [of _ _ "data @ ext"])
      qed
    qed
  qed
qed

section \<open>Properties\<close>

text \<open>C12: a packet the stub sends, once acknowledged, is one frame that its own parser accepts:
  the parser hands exactly the payload to the command handler, on an empty answer, and consumes
  the whole frame, whatever bytes follow it.\<close>

theorem gdb_send_then_parse:
  assumes "gs_ack s" and "gs_buf s \<noteq> []" and "GDB_END_BYTE \<notin> set (gs_buf s)" and "length (gs_buf s) \<le> GDB_BUF_SZ"
  shows "\<exists>frame. io_out (gdb_send_packet s) = io_out s @ frame \<and> \<not> gs_ack (gdb_send_packet s)
    \<and> gdb_parse_packet process (frame @ rest) t =
        map_option (Pair (length frame)) (process (gs_buf s) (uu_gdb_reset_buffer t))"
proof (intro exI conjI)
  show "io_out (gdb_send_packet s) = io_out s @ gdb_frame (gs_buf s)"
    using assms by (simp add: gdb_send_packet_def gdb_io_write_def gdb_frame_def GDB_BUF_SZ_def)
  show "\<not> gs_ack (gdb_send_packet s)"
    using assms by (simp add: gdb_send_packet_def gdb_io_write_def GDB_BUF_SZ_def)
  show "gdb_parse_packet process (gdb_frame (gs_buf s) @ rest) t =
      map_option (Pair (length (gdb_frame (gs_buf s)))) (process (gs_buf s) (uu_gdb_reset_buffer t))"
    by (rule gdb_parse_frame [OF assms(2,3)])
qed

definition gdb_ex :: gdb_state where
  "gdb_ex = ctrl_vm.extend ctrl_ex (gdb_state.fields True True True 2 10 [81, 67, 48] 0 (\<lambda>_. 0))"

lemma gdb_ex_sel [simp]:
  "gs_on gdb_ex" "gs_lock gdb_ex" "gs_ack gdb_ex" "gs_buf gdb_ex = [81, 67, 48]" "io_out gdb_ex = []"
  by (simp_all add: gdb_ex_def ctrl_ex_def dbg_ex_def vm_ex_def ctrl_vm.defs gdb_state.defs dbg_vm.defs vm_cpu.defs)

theorem gdb_send_then_parse_witness:
  "\<exists>frame. io_out (gdb_send_packet gdb_ex) = frame
    \<and> gdb_parse_packet (\<lambda>d s. Some (s\<lparr>io_out := d\<rparr>)) (frame @ [43]) gdb_ex =
        Some (length frame, gdb_ex\<lparr>gs_buf := [], io_out := [81, 67, 48]\<rparr>)"
proof -
  have pre: "gs_ack gdb_ex" "gs_buf gdb_ex \<noteq> []" "GDB_END_BYTE \<notin> set (gs_buf gdb_ex)"
    "length (gs_buf gdb_ex) \<le> GDB_BUF_SZ"
    by (simp_all add: gdb_byte_defs gdb_size_defs)
  have ex: "io_out gdb_ex = []" "gs_buf gdb_ex = [81, 67, 48]" by simp_all
  from gdb_send_then_parse [OF pre, of "\<lambda>d s. Some (s\<lparr>io_out := d\<rparr>)" "[43]" gdb_ex]
  show ?thesis unfolding ex uu_gdb_reset_buffer_def by simp
qed

text \<open>C11: the bytes of the host may arrive in any pieces: consuming the first piece, keeping
  what it leaves, and consuming that with the next piece has the same effect as consuming
  both at once, and what a piece leaves is a suffix of it.\<close>

theorem gdb_consume_chunks:
  "gdb_consume_packet enable process (data @ ext) s =
     Option.bind (gdb_consume_packet enable process data s)
       (\<lambda>(remain, s'). gdb_consume_packet enable process (remain @ ext) s')
   \<and> pred_option (\<lambda>(remain, s'). \<exists>k \<le> length data. remain = drop k data)
       (gdb_consume_packet enable process data s)"
proof -
  have "pred_option (\<lambda>(remain, s'). \<exists>k \<le> length data. remain = drop k data)
      (gdb_consume_packet enable process data s)"
    using gdb_consume_length [of enable process data s]
    by (cases "gdb_consume_packet enable process data s") auto
  with gdb_consume_append [of enable process data ext s] show ?thesis by (rule conjI)
qed

text \<open>A number the stub writes into an answer is read back by its own parser, in either
  byte order: the lowest \<open>precision\<close> digits of it, or all of it without a precision.\<close>

theorem gdb_number_round_trip:
  assumes "length (gs_buf s) + 16 \<le> GDB_BUF_SZ"
  shows "\<exists>digits. gs_buf (gdb_add_number v precision endian s) = gs_buf s @ digits
    \<and> gdb_get_number digits endian =
        Some (if precision = 0 \<or> precision > 16 then v else take_bit (4 * unat precision) v)"
proof -
  obtain m where m: "1 \<le> m" "m \<le> 16"
    and eq: "uint64_to_hex (gs_buf s) GDB_BUF_SZ v precision =
      (gs_buf s @ take (GDB_BUF_SZ - length (gs_buf s)) (rev (nibs v m)), m)"
    and val: "take_bit (4 * m) v =
      (if precision = 0 \<or> precision > 16 then v else take_bit (4 * unat precision) v)"
    by (rule uint64_to_hex_cases)
  let ?d = "rev (nibs v m)"
  have "gs_buf (gdb_add_number v precision endian s) =
      gs_buf s @ (if endian then uu_gdb_fix_endian ?d else ?d)"
    using assms m by (simp add: gdb_add_number_def eq)
  moreover have "?d \<noteq> []" using m by (metis length_rev length_nibs list.size(3) not_one_le_zero)
  then have "hex_to_uint64 ?d = Some (take_bit (4 * m) v)"
    using m is_hex_nibs [of _ v m] by (simp add: hex_to_uint64_eq hexval_rev_nibs)
  ultimately show ?thesis
    unfolding val [symmetric]
    by (intro exI [of _ "if endian then uu_gdb_fix_endian ?d else ?d"])
      (simp add: gdb_get_number_def uu_gdb_fix_endian_involution)
qed

theorem gdb_number_round_trip_witness:
  "\<exists>digits. gs_buf (gdb_add_number 0x1122334455667788 8 True gdb_ex) = [81, 67, 48] @ digits
    \<and> gdb_get_number digits True = Some 0x55667788"
  using gdb_number_round_trip [of gdb_ex "0x1122334455667788" 8 True]
  by (simp add: gdb_size_defs)

text \<open>The answer under construction never outgrows its array: the three services that
  extend it keep it within \<^verbatim>\<open>GDB_BUF_SZ\<close> bytes.\<close>

theorem gdb_buffer_bounded:
  assumes "length (gs_buf s) \<le> GDB_BUF_SZ" and "length str \<le> GDB_BUF_SZ"
  shows "length (gs_buf (gdb_add_str str s)) \<le> GDB_BUF_SZ
    \<and> length (gs_buf (gdb_add_byte b s)) \<le> GDB_BUF_SZ
    \<and> length (gs_buf (gdb_add_number v precision endian s)) \<le> GDB_BUF_SZ"
  using buf_ok_add_str [of str s] buf_ok_add_byte [of s b] buf_ok_add_number [of s v precision endian] assms
  by (simp add: buf_ok_def)

theorem gdb_buffer_bounded_witness:
  "length (gs_buf (gdb_add_byte 7 gdb_ex)) \<le> 1019"
  using gdb_buffer_bounded [of gdb_ex "[]" 7 0 0 False] by (simp add: gdb_size_defs)

end
