(* ===== verification/Gdb_Reg.thy ===== *)
theory Gdb_Reg
  imports Gdb_Pkt
begin

text \<open>
  The registers of the guest as the gdb stub sees them, \<^verbatim>\<open>vmm/src/control/gdbstub_reg.c\<close>: the two
  tables of accessors, each entry giving the location of a register and its size, and the
  lookup of an index. A register whose bits other components read one by one (the control
  registers, the flags, the code segment) is put together from them here.
\<close>

section \<open>Registers put together from their parts\<close>

definition put_flag :: "nat \<Rightarrow> bool \<Rightarrow> u64 \<Rightarrow> u64" where
  "put_flag k b x = (if b then set_bit k x else unset_bit k x)"

fun vm_reg_get :: "vm_reg \<Rightarrow> 'a gdb_state_scheme \<Rightarrow> u64" where
  "vm_reg_get R_CR0 s = put_flag 31 (cr0_pg s) (put_flag 0 (cr0_pe s) (gs_reg s R_CR0))"
| "vm_reg_get R_CR4 s = put_flag 5 (cr4_pae s) (put_flag 4 (cr4_pse s) (put_flag 3 (cr4_de s) (gs_reg s R_CR4)))"
| "vm_reg_get R_EFER s = put_flag 11 (efer_nxe s) (put_flag 10 (efer_lma s) (gs_reg s R_EFER))"
| "vm_reg_get R_RFLAGS s =
     put_flag 17 (rflags_vm s) (put_flag 16 (rflags_rf s) (put_flag 8 (rflags_tf s) (gs_reg s R_RFLAGS)))"
| "vm_reg_get R_DBGCTL s = put_flag 14 (dbgctl_frz s) (put_flag 0 (dbgctl_lbr s) (gs_reg s R_DBGCTL))"
| "vm_reg_get R_DR6 s = set_field 0 32 (ucast (vm_dr6 s)) (gs_reg s R_DR6)"
| "vm_reg_get R_DR7 s = set_field 0 32 (ucast (vm_dr7 s)) (gs_reg s R_DR7)"
| "vm_reg_get (R_SEL CS) s = set_field 0 2 (ucast (vm_cpl s)) (gs_reg s (R_SEL CS))"
| "vm_reg_get (R_BASE CS) s = cs_base s"
| "vm_reg_get (R_BASE SS) s = ss_base s"
| "vm_reg_get (R_ATTR CS) s = put_flag 14 (cs_d s) (put_flag 13 (cs_l s) (gs_reg s (R_ATTR CS)))"
| "vm_reg_get r s = gs_reg s r"

fun vm_reg_put :: "vm_reg \<Rightarrow> u64 \<Rightarrow> 'a gdb_state_scheme \<Rightarrow> 'a gdb_state_scheme" where
  "vm_reg_put R_CR0 v s = s\<lparr>cr0_pg := bit v 31, cr0_pe := bit v 0, gs_reg := (gs_reg s)(R_CR0 := v)\<rparr>"
| "vm_reg_put R_CR4 v s =
     s\<lparr>cr4_pae := bit v 5, cr4_pse := bit v 4, cr4_de := bit v 3, gs_reg := (gs_reg s)(R_CR4 := v)\<rparr>"
| "vm_reg_put R_EFER v s = s\<lparr>efer_nxe := bit v 11, efer_lma := bit v 10, gs_reg := (gs_reg s)(R_EFER := v)\<rparr>"
| "vm_reg_put R_RFLAGS v s =
     s\<lparr>rflags_vm := bit v 17, rflags_rf := bit v 16, rflags_tf := bit v 8, gs_reg := (gs_reg s)(R_RFLAGS := v)\<rparr>"
| "vm_reg_put R_DBGCTL v s = s\<lparr>dbgctl_frz := bit v 14, dbgctl_lbr := bit v 0, gs_reg := (gs_reg s)(R_DBGCTL := v)\<rparr>"
| "vm_reg_put R_DR6 v s = s\<lparr>vm_dr6 := ucast v, gs_reg := (gs_reg s)(R_DR6 := v)\<rparr>"
| "vm_reg_put R_DR7 v s = s\<lparr>vm_dr7 := ucast v, gs_reg := (gs_reg s)(R_DR7 := v)\<rparr>"
| "vm_reg_put (R_SEL CS) v s = s\<lparr>vm_cpl := take_bit 2 (ucast v), gs_reg := (gs_reg s)(R_SEL CS := v)\<rparr>"
| "vm_reg_put (R_BASE CS) v s = s\<lparr>cs_base := v\<rparr>"
| "vm_reg_put (R_BASE SS) v s = s\<lparr>ss_base := v\<rparr>"
| "vm_reg_put (R_ATTR CS) v s = s\<lparr>cs_d := bit v 14, cs_l := bit v 13, gs_reg := (gs_reg s)(R_ATTR CS := v)\<rparr>"
| "vm_reg_put r v s = s\<lparr>gs_reg := (gs_reg s)(r := v)\<rparr>"

section \<open>Locations\<close>

text \<open>Where the accessors point: a general register, the instruction pointer, the fault address,
  the page table base, the cached debug register or one of the registers above.\<close>

datatype reg_loc = L_GPR nat | L_RIP | L_CR2 | L_CR3 | L_CACHE | L_REG vm_reg

fun reg_get :: "reg_loc \<Rightarrow> 'a gdb_state_scheme \<Rightarrow> u64" where
  "reg_get (L_GPR i) s = get_gpr i s"
| "reg_get L_RIP s = vm_rip s"
| "reg_get L_CR2 s = vm_cr2 s"
| "reg_get L_CR3 s = vm_cr3 s"
| "reg_get L_CACHE s = gs_cache s"
| "reg_get (L_REG r) s = vm_reg_get r s"

fun reg_put :: "reg_loc \<Rightarrow> u64 \<Rightarrow> 'a gdb_state_scheme \<Rightarrow> 'a gdb_state_scheme" where
  "reg_put (L_GPR i) v s = set_gpr i v s"
| "reg_put L_RIP v s = s\<lparr>vm_rip := v\<rparr>"
| "reg_put L_CR2 v s = s\<lparr>vm_cr2 := v\<rparr>"
| "reg_put L_CR3 v s = s\<lparr>vm_cr3 := v\<rparr>"
| "reg_put L_CACHE v s = s\<lparr>gs_cache := v\<rparr>"
| "reg_put (L_REG r) v s = vm_reg_put r v s"

section \<open>Accessors\<close>

definition uu_gdb_reg_access_fix_sz :: "'a gdb_state_scheme \<Rightarrow> nat" where
  "uu_gdb_reg_access_fix_sz s = (if cpu_addr_sz s = 64 then 8 else 4)"

definition uu_gdb_reg_access_gpr :: "nat \<Rightarrow> 'a gdb_state_scheme \<Rightarrow> reg_loc \<times> nat \<times> 'a gdb_state_scheme" where
  "uu_gdb_reg_access_gpr idx s = (L_GPR (GPR64_RAX - idx), uu_gdb_reg_access_fix_sz s, s)"

text \<open>The shapes of accessor that the macros generate: of a fixed size, of the size of the mode,
  through the cache.\<close>

datatype reg_acc = AccGpr | AccFix reg_loc | Acc reg_loc nat | AccCache nat

fun reg_access :: "reg_acc \<Rightarrow> nat \<Rightarrow> 'a gdb_state_scheme \<Rightarrow> reg_loc \<times> nat \<times> 'a gdb_state_scheme" where
  "reg_access AccGpr idx s = uu_gdb_reg_access_gpr idx s"
| "reg_access (AccFix l) idx s = (l, uu_gdb_reg_access_fix_sz s, s)"
| "reg_access (Acc l n) idx s = (l, n, s)"
| "reg_access (AccCache n) idx s = (L_CACHE, 8, s\<lparr>gs_cache := get_dr n s\<rparr>)"

definition gdb_gpr_reg_acc :: "reg_acc list" where
  "gdb_gpr_reg_acc = replicate 16 AccGpr @ [AccFix L_RIP, AccFix (L_REG R_RFLAGS)]
     @ map (\<lambda>g. Acc (L_REG (R_SEL g)) 2) [CS, SS, DS, ES, FS, GS]"

definition gdb_sys_reg_acc :: "reg_acc list" where
  "gdb_sys_reg_acc =
     [Acc (L_REG R_CR0) 8, Acc L_CR2 8, Acc L_CR3 8, Acc (L_REG R_CR4) 8]
     @ map AccCache [0, 1, 2, 3]
     @ [Acc (L_REG R_DR6) 8, Acc (L_REG R_DR7) 8, Acc (L_REG R_DBGCTL) 8, Acc (L_REG R_EFER) 8]
     @ map (\<lambda>g. Acc (L_REG (R_BASE g)) 8) [CS, SS, DS, ES, FS, GS, GDTR, IDTR, LDTR, TR]
     @ map (\<lambda>g. Acc (L_REG (R_LIMIT g)) 4) [CS, SS, DS, ES, FS, GS, GDTR, IDTR, LDTR, TR]
     @ map (\<lambda>g. Acc (L_REG (R_ATTR g)) 2) [CS, SS, DS, ES, FS, GS, LDTR, TR]"

definition gdb_reg_accessor :: "bool \<Rightarrow> reg_acc list" where
  "gdb_reg_accessor sys = (if sys then gdb_sys_reg_acc else gdb_gpr_reg_acc)"

text \<open>\<^verbatim>\<open>Some None\<close> is the refusal of the lookup. The check lets the index one past the end of the
  table through: \<^verbatim>\<open>None\<close> is the call of whatever follows the table.\<close>

definition uu_gdb_setup_reg ::
    "u64 \<Rightarrow> bool \<Rightarrow> 'a gdb_state_scheme \<Rightarrow> (reg_loc \<times> nat \<times> 'a gdb_state_scheme) option option" where
  "uu_gdb_setup_reg idx0 sys s =
     (let idx = (if \<not> sys \<and> cpu_addr_sz s \<noteq> 64 \<and> idx0 > 7 then idx0 + 8 else idx0);
          acc = gdb_reg_accessor sys
      in if idx > of_nat (length acc) then Some None
         else if unat idx < length acc then Some (Some (reg_access (acc ! unat idx) (unat idx) s))
         else None)"

section \<open>Reading back what was written\<close>

lemma bit_put_flag: "bit (put_flag k b x) n \<longleftrightarrow> (if n = k then b \<and> k < 64 else bit x n)"
  by (auto simp: put_flag_def bit_set_bit_iff bit_unset_bit_iff possible_bit_def dest: bit_imp_le_length)

lemma put_flag_own [simp]: "k < 64 \<Longrightarrow> put_flag k (bit x k) x = x"
  by (rule bit_eqI) (simp add: bit_put_flag)

lemma set_field_own [simp]:
  "set_field 0 32 (ucast (ucast v :: u32)) v = v" "set_field 0 2 (ucast (take_bit 2 (ucast v :: u8))) v = v" for v :: u64
  by (rule bit_eqI, auto simp: bit_set_field bit_ucast_iff bit_take_bit_iff)+

lemma vm_reg_get_put: "vm_reg_get r (vm_reg_put r v s) = v"
proof (cases r)
  case (R_SEL g) then show ?thesis by (cases g) simp_all
next
  case (R_BASE g) then show ?thesis by (cases g) simp_all
next
  case (R_ATTR g) then show ?thesis by (cases g) simp_all
qed simp_all

text \<open>The locations whose value can be read back: a general register must be one of the frame.\<close>

fun loc_ok :: "reg_loc \<Rightarrow> 'a gdb_state_scheme \<Rightarrow> bool" where
  "loc_ok (L_GPR i) s = (i < length (vm_gpr s))"
| "loc_ok l s = True"

lemma reg_get_put: "loc_ok l s \<Longrightarrow> reg_get l (reg_put l v s) = v"
  by (cases l) (simp_all add: vm_reg_get_put get_gpr_def set_gpr_def)

lemma low_bytes:
  "w \<le> 64 \<Longrightarrow> take_bit w (set_field 0 w v x) = take_bit w v" "w \<le> 64 \<Longrightarrow> drop_bit w (set_field 0 w v x) = drop_bit w x"
  for v x :: u64
  by (rule bit_eqI, auto simp: bit_take_bit_iff bit_drop_bit_eq bit_set_field dest: bit_imp_le_length)+

text \<open>Writing one location does not change what another one holds.\<close>

lemma vm_reg_put_other: "r \<noteq> r' \<Longrightarrow> vm_reg_get r' (vm_reg_put r v s) = vm_reg_get r' s"
  by (cases "(r, v, s)" rule: vm_reg_put.cases; cases "(r', s)" rule: vm_reg_get.cases) simp_all

lemma vm_reg_put_sel [simp]:
  "get_gpr i (vm_reg_put r v s) = get_gpr i s" "vm_rip (vm_reg_put r v s) = vm_rip s" "vm_cr2 (vm_reg_put r v s) = vm_cr2 s"
  "vm_cr3 (vm_reg_put r v s) = vm_cr3 s" "gs_cache (vm_reg_put r v s) = gs_cache s"
  by (cases "(r, v, s)" rule: vm_reg_put.cases; simp add: get_gpr_def)+

lemma vm_reg_get_cong [simp]:
  "vm_reg_get r (set_gpr i v s) = vm_reg_get r s" "vm_reg_get r (s\<lparr>vm_rip := x\<rparr>) = vm_reg_get r s"
  "vm_reg_get r (s\<lparr>vm_cr2 := x\<rparr>) = vm_reg_get r s" "vm_reg_get r (s\<lparr>vm_cr3 := x\<rparr>) = vm_reg_get r s"
  "vm_reg_get r (s\<lparr>gs_cache := x\<rparr>) = vm_reg_get r s" "vm_reg_get r (s\<lparr>io_out := d\<rparr>) = vm_reg_get r s"
  by (cases "(r, s)" rule: vm_reg_get.cases; simp add: set_gpr_def)+

lemma reg_put_other: "l \<noteq> l' \<Longrightarrow> reg_get l' (reg_put l v s) = reg_get l' s"
  by (cases l; cases l') (auto simp: vm_reg_put_other, auto simp: get_gpr_def set_gpr_def)

section \<open>The table of the general registers\<close>

lemma addr_sz_64: "cpu_addr_sz s = 64 \<longleftrightarrow> efer_lma s \<and> cs_l s"
  by (simp add: cpu_addr_sz_def)

fun gpr_loc :: "reg_loc \<Rightarrow> bool" where
  "gpr_loc (L_GPR i) = (i \<le> GPR64_RAX)"
| "gpr_loc L_RIP = True"
| "gpr_loc (L_REG R_RFLAGS) = True"
| "gpr_loc (L_REG (R_SEL g)) = True"
| "gpr_loc l = False"

lemma gpr_access:
  fixes s t :: "'a gdb_state_scheme"
  assumes "a \<in> set gdb_gpr_reg_acc" and "reg_access a i s = (l, n, s')"
  shows "s' = s" and "gpr_loc l" and "n \<in> {2, 4, 8}"
    and "(cpu_addr_sz t = 64) = (cpu_addr_sz s = 64) \<Longrightarrow> reg_access a i t = (l, n, t)"
  using assms by (auto simp: gdb_gpr_reg_acc_def uu_gdb_reg_access_gpr_def uu_gdb_reg_access_fix_sz_def)

lemma setup_reg_gpr:
  fixes s t :: "'a gdb_state_scheme"
  assumes "uu_gdb_setup_reg idx False s = Some (Some (l, n, s'))"
  shows "s' = s" and "gpr_loc l" and "n \<in> {2, 4, 8}"
    and "(cpu_addr_sz t = 64) = (cpu_addr_sz s = 64) \<Longrightarrow> uu_gdb_setup_reg idx False t = Some (Some (l, n, t))"
proof -
  define ix where "ix t = (if cpu_addr_sz t \<noteq> 64 \<and> idx > 7 then idx + 8 else idx)" for t :: "'a gdb_state_scheme"
  have ix: "\<not> ix s > of_nat (length gdb_gpr_reg_acc)" "unat (ix s) < length gdb_gpr_reg_acc"
    "reg_access (gdb_gpr_reg_acc ! unat (ix s)) (unat (ix s)) s = (l, n, s')"
    using assms by (auto simp: uu_gdb_setup_reg_def Let_def gdb_reg_accessor_def ix_def split: if_splits)
  note g = gpr_access [OF nth_mem [OF ix(2)] ix(3)]
  show "s' = s" "gpr_loc l" "n \<in> {2, 4, 8}" using g by blast+
  assume c: "(cpu_addr_sz t = 64) = (cpu_addr_sz s = 64)"
  have "ix t = ix s" using c by (simp add: ix_def)
  then show "uu_gdb_setup_reg idx False t = Some (Some (l, n, t))"
    using g(4) [OF c] ix by (simp add: uu_gdb_setup_reg_def Let_def gdb_reg_accessor_def ix_def)
qed

lemma gpr_loc_mode: "gpr_loc l \<Longrightarrow> (cpu_addr_sz (reg_put l v s) = 64) = (cpu_addr_sz s = 64)"
proof (cases l)
  case (L_REG r)
  assume "gpr_loc l"
  with L_REG show ?thesis by (cases "(r, v, s)" rule: vm_reg_put.cases) (auto simp: addr_sz_64)
qed (auto simp: addr_sz_64 set_gpr_def)

lemma gpr_loc_ok: "gpr_loc l \<Longrightarrow> length (vm_gpr s) = 16 \<Longrightarrow> loc_ok l s"
  by (cases l) (auto simp: GPR64_RAX_def)

end
