(* ===== verification/Gdb_Cmd.thy ===== *)
theory Gdb_Cmd
  imports Gdb_Reg
begin

text \<open>
  The commands of the gdb stub, \<^verbatim>\<open>vmm/src/control/gdbstub_cmd.c\<close>, and the switches of
  \<^verbatim>\<open>gdbstub.c\<close>. Every command works on the whole state of the controller: it changes guest memory
  through the accesses of \<^verbatim>\<open>vm.c\<close> and breakpoints through \<^verbatim>\<open>dbg_soft.c\<close> and \<^verbatim>\<open>dbg_hard_brk.c\<close>.
  \<^verbatim>\<open>None\<close> is a command that does not return, panics, or reads outside of its arrays. What the
  C code takes from its stack before writing it, and the command of the monitor
  (\<^verbatim>\<open>gdb_cmd_vmm\<close>), are the fields of an environment.
\<close>

section \<open>Environment and command bytes\<close>

record 'a gdb_env =
  ini_store :: bytes
  ini_ack :: u8
  gdb_cmd_vmm :: "bytes \<Rightarrow> 'a gdb_state_scheme \<Rightarrow> 'a gdb_state_scheme option"

definition GDB_CMD_THREAD :: u8 where "GDB_CMD_THREAD = 72"
definition GDB_CMD_STOP_REASON :: u8 where "GDB_CMD_STOP_REASON = 63"
definition GDB_CMD_R_GPR :: u8 where "GDB_CMD_R_GPR = 103"
definition GDB_CMD_W_GPR :: u8 where "GDB_CMD_W_GPR = 71"
definition GDB_CMD_R_REG :: u8 where "GDB_CMD_R_REG = 112"
definition GDB_CMD_W_REG :: u8 where "GDB_CMD_W_REG = 80"
definition GDB_CMD_R_MEM :: u8 where "GDB_CMD_R_MEM = 109"
definition GDB_CMD_W_MEM :: u8 where "GDB_CMD_W_MEM = 77"
definition GDB_CMD_CONT :: u8 where "GDB_CMD_CONT = 99"
definition GDB_CMD_STEP :: u8 where "GDB_CMD_STEP = 115"
definition GDB_CMD_KILL :: u8 where "GDB_CMD_KILL = 107"
definition GDB_CMD_DETACH :: u8 where "GDB_CMD_DETACH = 68"
definition GDB_CMD_S_BRK :: u8 where "GDB_CMD_S_BRK = 90"
definition GDB_CMD_R_BRK :: u8 where "GDB_CMD_R_BRK = 122"
definition GDB_CMD_QUERY :: u8 where "GDB_CMD_QUERY = 113"
definition GDB_QUERY_THREAD :: u8 where "GDB_QUERY_THREAD = 67"
definition GDB_CMD_VMM :: u8 where "GDB_CMD_VMM = 5"

lemmas gdb_cmd_defs = GDB_CMD_THREAD_def GDB_CMD_STOP_REASON_def GDB_CMD_R_GPR_def GDB_CMD_W_GPR_def
  GDB_CMD_R_REG_def GDB_CMD_W_REG_def GDB_CMD_R_MEM_def GDB_CMD_W_MEM_def GDB_CMD_CONT_def GDB_CMD_STEP_def
  GDB_CMD_KILL_def GDB_CMD_DETACH_def GDB_CMD_S_BRK_def GDB_CMD_R_BRK_def GDB_CMD_QUERY_def GDB_CMD_VMM_def

definition GDB_BRK_TYPE_MEM :: u64 where "GDB_BRK_TYPE_MEM = 0"
definition GDB_BRK_TYPE_HRD_X :: u64 where "GDB_BRK_TYPE_HRD_X = 1"
definition GDB_BRK_TYPE_HRD_W :: u64 where "GDB_BRK_TYPE_HRD_W = 2"
definition GDB_BRK_TYPE_HRD_RW :: u64 where "GDB_BRK_TYPE_HRD_RW = 4"

section \<open>Switches of the stub\<close>

definition gdb_vmm_enable :: "'a gdb_state_scheme \<Rightarrow> 'a gdb_state_scheme" where
  "gdb_vmm_enable s = s"

definition gdb_vmm_disable :: "'a gdb_state_scheme \<Rightarrow> 'a gdb_state_scheme" where
  "gdb_vmm_disable s = ctrl_usr_reset (ctrl_active_cr3_reset s)"

definition gdb_disable :: "'a gdb_state_scheme \<Rightarrow> 'a gdb_state_scheme" where
  "gdb_disable s = (dbg_disable (gdb_vmm_disable s))\<lparr>gs_on := False, gs_lock := False\<rparr>"

definition gdb_enable :: "'a gdb_state_scheme \<Rightarrow> 'a gdb_state_scheme" where
  "gdb_enable s = gdb_vmm_enable (dbg_enable (s\<lparr>gs_reason := GDB_EXIT_INT, gs_on := True, gs_lock := True\<rparr>))"

definition gdb_reset :: "'a gdb_state_scheme \<Rightarrow> 'a gdb_state_scheme" where
  "gdb_reset s = gdb_disable s"

section \<open>Queries\<close>

text \<open>The byte after an empty argument is the end byte of the packet.\<close>

definition arg_byte :: "bytes \<Rightarrow> u8" where
  "arg_byte data = hd (data @ [GDB_END_BYTE])"

definition gdb_query_thread :: "'a gdb_state_scheme \<Rightarrow> 'a gdb_state_scheme" where
  "gdb_query_thread s = gdb_send_packet (gdb_add_str (bytes_of_string ''QC0'') s)"

definition gdb_cmd_query :: "bytes \<Rightarrow> 'a gdb_state_scheme \<Rightarrow> 'a gdb_state_scheme" where
  "gdb_cmd_query data s =
     (if arg_byte data = GDB_QUERY_THREAD then gdb_query_thread s else gdb_unsupported s)"

definition gdb_cmd_thread :: "bytes \<Rightarrow> 'a gdb_state_scheme \<Rightarrow> 'a gdb_state_scheme" where
  "gdb_cmd_thread data s = (if arg_byte data \<in> {103, 99} then gdb_ok s else gdb_unsupported s)"

definition gdb_cmd_stop_reason :: "'a gdb_state_scheme \<Rightarrow> 'a gdb_state_scheme" where
  "gdb_cmd_stop_reason s = gdb_send_stop_reason (gs_reason s) s"

section \<open>Registers\<close>

text \<open>The loop over the general registers, from \<open>i\<close> down while it is not below \<open>lo\<close>; the index is
  unsigned and an index outside of the frame is an access outside of it.\<close>

partial_function (option) gdb_rd_gpr_loop ::
    "u64 \<Rightarrow> u64 \<Rightarrow> u64 \<Rightarrow> 'a gdb_state_scheme \<Rightarrow> 'a gdb_state_scheme option" where
  "gdb_rd_gpr_loop lo vlen i s =
     (if i \<ge> lo
      then (if unat i > GPR64_RAX then None
            else gdb_rd_gpr_loop lo vlen (i - 1) (gdb_add_number (get_gpr (unat i) s) vlen True s))
      else Some s)"

definition gdb_cmd_rd_gpr :: "'a gdb_state_scheme \<Rightarrow> 'a gdb_state_scheme option" where
  "gdb_cmd_rd_gpr s =
     (let (ngpr, vlen) = (if cpu_addr_sz s = 64 then (16, 16) else (8, 8)); flen = 8
      in do { s1 \<leftarrow> gdb_rd_gpr_loop (of_nat (GPR64_RAX + 1) - ngpr) vlen (of_nat GPR64_RAX) s;
              let s2 = gdb_add_number (vm_rip s1) vlen True s1;
              let s3 = foldl (\<lambda>t r. gdb_add_number (vm_reg_get r t) flen True t) s2
                         (R_RFLAGS # map R_SEL [CS, SS, DS, ES, FS, GS]);
              Some (gdb_send_packet s3) })"

definition gdb_cmd_wr_gpr :: "'a gdb_state_scheme \<Rightarrow> 'a gdb_state_scheme" where
  "gdb_cmd_wr_gpr s = gdb_unsupported s"

text \<open>The common start of the register commands: parse, then look up. The answer is the
  state after an error was sent, or the register found.\<close>

definition gdb_reg_op ::
    "bytes \<Rightarrow> bool \<Rightarrow> bool \<Rightarrow> 'a gdb_state_scheme
     \<Rightarrow> ('a gdb_state_scheme + reg_loc \<times> nat \<times> u64 \<times> 'a gdb_state_scheme) option" where
  "gdb_reg_op data wr sys s =
     (case uu_gdb_setup_reg_op data wr of
        None \<Rightarrow> Some (Inl (gdb_nak s))
      | Some (idx, value) \<Rightarrow>
          (case uu_gdb_setup_reg idx sys s of
             None \<Rightarrow> None
           | Some None \<Rightarrow> Some (Inl (gdb_unsupported s))
           | Some (Some (l, sz, s1)) \<Rightarrow> Some (Inr (l, sz, value, s1))))"

definition gdb_cmd_rd_reg :: "bytes \<Rightarrow> 'a gdb_state_scheme \<Rightarrow> 'a gdb_state_scheme option" where
  "gdb_cmd_rd_reg data s =
     (case gdb_reg_op data False False s of
        None \<Rightarrow> None
      | Some (Inl s1) \<Rightarrow> Some s1
      | Some (Inr (l, sz, value, s1)) \<Rightarrow>
          Some (gdb_send_packet (gdb_add_number (reg_get l s1) (of_nat (sz * 2)) True s1)))"

definition gdb_cmd_wr_reg :: "bytes \<Rightarrow> 'a gdb_state_scheme \<Rightarrow> 'a gdb_state_scheme option" where
  "gdb_cmd_wr_reg data s =
     (case gdb_reg_op data True False s of
        None \<Rightarrow> None
      | Some (Inl s1) \<Rightarrow> Some s1
      | Some (Inr (l, sz, value, s1)) \<Rightarrow>
          Some (gdb_ok (if sz = 2 then reg_put l (set_field 0 16 value (reg_get l s1)) s1
                        else if sz = 4 then reg_put l (set_field 0 32 value (reg_get l s1)) s1
                        else if sz = 8 then reg_put l value s1
                        else s1)))"

section \<open>Memory\<close>

lemma min_128: "sz \<noteq> 0 \<Longrightarrow> unat (sz - min sz 128) < unat sz" for sz :: u64
proof -
  assume "sz \<noteq> 0"
  moreover have "min sz 128 \<le> sz" by simp
  moreover from \<open>sz \<noteq> 0\<close> have "0 < unat (min sz 128)" by (auto simp: min_def unat_gt_0)
  ultimately show ?thesis by (simp add: unat_sub unat_gt_0)
qed

function gdb_rd_mem_loop ::
    "offset_t \<Rightarrow> size_t \<Rightarrow> bytes \<Rightarrow> 'a gdb_state_scheme \<Rightarrow> 'a gdb_state_scheme option" where
  "gdb_rd_mem_loop addr sz store s =
     (if sz = 0 then Some (gdb_send_packet s)
      else (let need = min sz 128
            in case uu_vm_read_vmem (active_cr3 s) addr store need s of
                 None \<Rightarrow> None
               | Some (rc, store', s1) \<Rightarrow>
                   if rc \<noteq> VM_DONE then Some (gdb_err_mem s1)
                   else gdb_rd_mem_loop (addr + need) (sz - need) store'
                          (foldl (\<lambda>t b. gdb_add_byte b t) s1 (take (unat need) store'))))"
  by pat_completeness auto
termination
  by (relation "measure (\<lambda>(addr, sz, store, s). unat sz)") (use min_128 in auto)

declare gdb_rd_mem_loop.simps [simp del]

definition gdb_cmd_rd_mem :: "'a gdb_env \<Rightarrow> bytes \<Rightarrow> 'a gdb_state_scheme \<Rightarrow> 'a gdb_state_scheme option" where
  "gdb_cmd_rd_mem env data s =
     (case uu_gdb_setup_mem_op data False of
        None \<Rightarrow> Some (gdb_nak s)
      | Some (addr, sz, _) \<Rightarrow>
          gdb_rd_mem_loop addr sz (ini_store env)
            (if sz > of_nat ((GDB_ANSWER_SZ - GDB_ACKPKT_SZ) div 2) then gdb_unsupported s else s))"

text \<open>One array of bytes from their digits. A byte that does not parse leaves its place as it
  was; digits past the end of the packet are outside of it.\<close>

fun gdb_wr_store ::
    "nat \<Rightarrow> nat \<Rightarrow> bytes \<Rightarrow> bytes \<Rightarrow> 'a gdb_state_scheme \<Rightarrow> (bytes \<times> bytes \<times> 'a gdb_state_scheme) option" where
  "gdb_wr_store 0 i bs store s = Some (bs, store, s)"
| "gdb_wr_store (Suc n) i (a # b # bs) store s =
     (case uu_hex_to_uint8 a b of
        None \<Rightarrow> gdb_wr_store n (Suc i) bs store (gdb_unsupported s)
      | Some v \<Rightarrow> gdb_wr_store n (Suc i) bs (store[i := v]) s)"
| "gdb_wr_store (Suc n) i _ store s = None"

function gdb_wr_mem_loop ::
    "offset_t \<Rightarrow> size_t \<Rightarrow> bytes \<Rightarrow> bytes \<Rightarrow> 'a gdb_state_scheme \<Rightarrow> 'a gdb_state_scheme option" where
  "gdb_wr_mem_loop addr sz bs store s =
     (if sz = 0 then Some (gdb_ok s)
      else (let can = min sz 128
            in case gdb_wr_store (unat can) 0 bs store s of
                 None \<Rightarrow> None
               | Some (bs', store', s1) \<Rightarrow>
                   (case uu_vm_write_vmem (active_cr3 s1) addr store' can s1 of
                      None \<Rightarrow> None
                    | Some (rc, s2) \<Rightarrow>
                        if rc \<noteq> VM_DONE then Some (gdb_err_mem s2)
                        else gdb_wr_mem_loop (addr + can) (sz - can) bs' store' s2)))"
  by pat_completeness auto
termination
  by (relation "measure (\<lambda>(addr, sz, bs, store, s). unat sz)") (use min_128 in auto)

declare gdb_wr_mem_loop.simps [simp del]

definition gdb_cmd_wr_mem :: "'a gdb_env \<Rightarrow> bytes \<Rightarrow> 'a gdb_state_scheme \<Rightarrow> 'a gdb_state_scheme option" where
  "gdb_cmd_wr_mem env data s =
     (case uu_gdb_setup_mem_op data True of
        None \<Rightarrow> Some (gdb_nak s)
      | Some (addr, sz, bs) \<Rightarrow>
          gdb_wr_mem_loop addr sz bs (ini_store env)
            (if of_nat (length bs) div 2 \<noteq> sz then gdb_unsupported s else s))"

section \<open>Breakpoints\<close>

text \<open>The type says which service is called; the rest of both commands is the same.\<close>

definition gdb_brk_op ::
    "(offset_t \<Rightarrow> 'a gdb_state_scheme \<Rightarrow> vmerr \<times> 'a gdb_state_scheme)
     \<Rightarrow> (offset_t \<Rightarrow> u8 \<Rightarrow> u8 \<Rightarrow> 'a gdb_state_scheme \<Rightarrow> vmerr \<times> 'a gdb_state_scheme)
     \<Rightarrow> bytes \<Rightarrow> 'a gdb_state_scheme \<Rightarrow> 'a gdb_state_scheme" where
  "gdb_brk_op soft hard data s =
     (case uu_gdb_setup_brk_op data of
        None \<Rightarrow> gdb_nak s
      | Some (type, sz, addr) \<Rightarrow>
          if type = GDB_BRK_TYPE_MEM
          then (let (rc, s1) = soft addr s in if rc = VM_DONE then gdb_ok s1 else gdb_err_mem s1)
          else if type \<in> {GDB_BRK_TYPE_HRD_X, GDB_BRK_TYPE_HRD_W, GDB_BRK_TYPE_HRD_RW}
          then (let (rc, s1) = hard addr (ucast (type - 1)) (ucast (sz - 1)) s
                in if rc = VM_DONE then gdb_ok s1 else gdb_err_mem s1)
          else gdb_unsupported s)"

definition gdb_cmd_st_brk :: "bytes \<Rightarrow> 'a gdb_state_scheme \<Rightarrow> 'a gdb_state_scheme" where
  "gdb_cmd_st_brk = gdb_brk_op (\<lambda>addr. dbg_soft_set addr 0) (\<lambda>addr type len. dbg_hard_brk_set addr type len 0)"

definition gdb_cmd_rm_brk :: "bytes \<Rightarrow> 'a gdb_state_scheme \<Rightarrow> 'a gdb_state_scheme" where
  "gdb_cmd_rm_brk = gdb_brk_op dbg_soft_del dbg_hard_brk_del"

section \<open>Running the guest\<close>

definition uu_gdb_cmd_resume :: "bool \<Rightarrow> 'a gdb_state_scheme \<Rightarrow> 'a gdb_state_scheme option" where
  "uu_gdb_cmd_resume stp s =
     (case dbg_resume stp s of
        None \<Rightarrow> None
      | Some (rc, s1) \<Rightarrow> Some (if rc = VM_DONE then (gdb_ack s1)\<lparr>gs_lock := False\<rparr> else gdb_err s1))"

definition gdb_cmd_cont :: "bytes \<Rightarrow> 'a gdb_state_scheme \<Rightarrow> 'a gdb_state_scheme option" where
  "gdb_cmd_cont data s = (if data \<noteq> [] then None else uu_gdb_cmd_resume False s)"

definition gdb_cmd_step :: "bytes \<Rightarrow> 'a gdb_state_scheme \<Rightarrow> 'a gdb_state_scheme option" where
  "gdb_cmd_step data s = (if data \<noteq> [] then None else uu_gdb_cmd_resume True s)"

text \<open>The wait ends with the first byte read, whatever it is, or at once when the variable holds
  the acknowledge byte before anything was read.\<close>

fun gdb_wait_loop :: "u8 \<Rightarrow> bytes list \<Rightarrow> bytes list option" where
  "gdb_wait_loop x [] = (if x \<noteq> GDB_ACK_BYTE then None else Some [])"
| "gdb_wait_loop x (c # cs) =
     (case c of
        [] \<Rightarrow> if x \<noteq> GDB_ACK_BYTE then gdb_wait_loop x cs else Some cs
      | b # bs \<Rightarrow> Some (if bs = [] then cs else bs # cs))"

definition gdb_wait_ack :: "u8 \<Rightarrow> 'a gdb_state_scheme \<Rightarrow> 'a gdb_state_scheme option" where
  "gdb_wait_ack x s = map_option (\<lambda>cs. s\<lparr>io_in := cs\<rparr>) (gdb_wait_loop x (io_in s))"

definition gdb_cmd_detach :: "'a gdb_env \<Rightarrow> 'a gdb_state_scheme \<Rightarrow> 'a gdb_state_scheme option" where
  "gdb_cmd_detach env s = gdb_wait_ack (ini_ack env) (gdb_ok (gdb_reset s))"

definition gdb_cmd_kill :: "'a gdb_state_scheme \<Rightarrow> 'a gdb_state_scheme" where
  "gdb_cmd_kill s = gdb_ok (gdb_reset s)"

section \<open>Dispatch\<close>

definition gdb_process_packet ::
    "'a gdb_env \<Rightarrow> bytes \<Rightarrow> 'a gdb_state_scheme \<Rightarrow> 'a gdb_state_scheme option" where
  "gdb_process_packet env pkt s =
     (let cmd = hd pkt; data = tl pkt
      in if cmd = GDB_CMD_R_MEM then gdb_cmd_rd_mem env data s
         else if cmd = GDB_CMD_W_MEM then gdb_cmd_wr_mem env data s
         else if cmd = GDB_CMD_R_REG then gdb_cmd_rd_reg data s
         else if cmd = GDB_CMD_W_REG then gdb_cmd_wr_reg data s
         else if cmd = GDB_CMD_S_BRK then Some (gdb_cmd_st_brk data s)
         else if cmd = GDB_CMD_R_BRK then Some (gdb_cmd_rm_brk data s)
         else if cmd = GDB_CMD_R_GPR then gdb_cmd_rd_gpr s
         else if cmd = GDB_CMD_W_GPR then Some (gdb_cmd_wr_gpr s)
         else if cmd = GDB_CMD_CONT then gdb_cmd_cont data s
         else if cmd = GDB_CMD_STEP then gdb_cmd_step data s
         else if cmd = GDB_CMD_THREAD then Some (gdb_cmd_thread data s)
         else if cmd = GDB_CMD_STOP_REASON then Some (gdb_cmd_stop_reason s)
         else if cmd = GDB_CMD_VMM then gdb_cmd_vmm env data s
         else if cmd = GDB_CMD_QUERY then Some (gdb_cmd_query data s)
         else if cmd = GDB_CMD_KILL then Some (gdb_cmd_kill s)
         else if cmd = GDB_CMD_DETACH then gdb_cmd_detach env s
         else Some (gdb_unsupported s))"

section \<open>The register loop\<close>

lemma rd_gpr_loop_wraps: "unat i \<le> GPR64_RAX \<Longrightarrow> gdb_rd_gpr_loop 0 vlen i s = None"
proof (induction "unat i" arbitrary: i s)
  case 0
  then have "i = 0" by (simp add: unat_eq_0)
  then show ?case
    by (simp add: gdb_rd_gpr_loop.simps [of 0 _ 0] gdb_rd_gpr_loop.simps [of 0 _ "- 1"] GPR64_RAX_def unsigned_minus_1_eq_mask mask_eq_exp_minus_1)
next
  case (Suc n)
  then have "i \<noteq> 0" by auto
  then have "unat (i - 1) = n" using Suc.hyps(2) by (simp add: unat_minus_one)
  then show ?case using Suc by (simp add: gdb_rd_gpr_loop.simps [of 0 _ i])
qed

lemma rd_gpr_loop_ends:
  "lo \<noteq> 0 \<Longrightarrow> unat i \<le> GPR64_RAX \<Longrightarrow> \<exists>s'. gdb_rd_gpr_loop lo vlen i s = Some s'"
proof (induction "unat i" arbitrary: i s)
  case 0
  then have "i = 0" by (simp add: unat_eq_0)
  then show ?case using 0 by (simp add: gdb_rd_gpr_loop.simps [of lo _ 0])
next
  case (Suc n)
  then have "i \<noteq> 0" by auto
  then have "unat (i - 1) = n" using Suc.hyps(2) by (simp add: unat_minus_one)
  then show ?case using Suc by (auto simp: gdb_rd_gpr_loop.simps [of lo _ i] not_le)
qed

lemma recv_locked:
  assumes "gdb_recv_packet enable process left s = Some s'"
  shows "\<not> (gs_lock s \<and> io_in s = [] \<and> left = [])"
  by (rule gdb_recv_packet.raw_induct [where P = "\<lambda>e p l t y. \<not> (gs_lock t \<and> io_in t = [] \<and> l = [])", OF _ assms])
    (fastforce split: if_splits)

lemma recv_continue:
  assumes "io_in s = [gdb_frame [GDB_CMD_CONT]]"
    and "dbg_resume False (s\<lparr>io_in := [], gs_buf := []\<rparr>) = Some (VM_DONE, s1)" and "io_in s1 = []"
  shows "gdb_recv_packet gdb_enable (gdb_process_packet env) [] s = Some ((gdb_ack s1)\<lparr>gs_lock := False\<rparr>)"
proof -
  let ?p = "gdb_process_packet env"
  have "?p [GDB_CMD_CONT] (uu_gdb_reset_buffer (s\<lparr>io_in := []\<rparr>)) = Some ((gdb_ack s1)\<lparr>gs_lock := False\<rparr>)"
    using assms(2) by (simp add: gdb_process_packet_def gdb_cmd_defs gdb_cmd_cont_def uu_gdb_cmd_resume_def uu_gdb_reset_buffer_def)
  then have "gdb_parse_packet ?p (gdb_frame [GDB_CMD_CONT]) (s\<lparr>io_in := []\<rparr>) =
      Some (length (gdb_frame [GDB_CMD_CONT]), (gdb_ack s1)\<lparr>gs_lock := False\<rparr>)"
    using gdb_parse_frame [of "[GDB_CMD_CONT]" ?p "[]" "s\<lparr>io_in := []\<rparr>"] by (simp add: gdb_cmd_defs gdb_byte_defs)
  then have "gdb_consume_packet gdb_enable ?p (gdb_frame [GDB_CMD_CONT]) (s\<lparr>io_in := []\<rparr>) =
      Some ([], (gdb_ack s1)\<lparr>gs_lock := False\<rparr>)"
    by (simp add: gdb_consume_packet.simps [of _ _ "gdb_frame _"] gdb_consume_packet.simps [of _ _ "[]"] gdb_consume_step_def)
      (simp add: gdb_frame_def gdb_byte_defs gdb_consume_packet.simps [of _ _ "[]"])
  moreover have "length (gdb_frame [GDB_CMD_CONT]) \<le> GDB_INPUT_SZ" "gdb_frame [GDB_CMD_CONT] \<noteq> []"
    by (simp_all add: gdb_frame_def gdb_size_defs)
  ultimately show ?thesis using assms(1) by (simp add: gdb_recv_packet.simps)
qed

section \<open>What a command leaves alone\<close>

text \<open>The accesses to guest memory and the debugger only touch their own part of the state: the
  fields that the layers above add are never changed.\<close>

lemma physical_more: "uu_vm_access_physical a s = Some (rc, a', s') \<Longrightarrow> vm_cpu.more s' = vm_cpu.more s"
  by (auto simp: uu_vm_access_physical_def uu_vm_access_system_identity_def uu_vm_access_remote_operator_def
      uu_vm_access_local_operator_def Let_def split: if_splits)

lemma validate_more: "uu_vm_access_validate a v wlk s = (rc, w, s') \<Longrightarrow> vm_cpu.more s' = vm_cpu.more s"
  by (auto simp: uu_vm_access_validate_def Let_def vm_access_pf_def uu_vmx_vmexit_inject_exception_def
      split: prod.splits if_splits)

lemma loop_more: "vm_access_loop a v len wlk s = Some (rc, a', s') \<Longrightarrow> vm_cpu.more s' = vm_cpu.more s"
proof (induction "unat len" arbitrary: a v len wlk s rule: less_induct)
  case less
  show ?case
  proof (cases "len = 0")
    case True
    then show ?thesis using less.prems by (simp add: vm_access_loop.simps)
  next
    case False
    from less.prems False show ?thesis
    proof (cases rule: loop_cases)
      case (stop rc1 w s1)
      then show ?thesis using validate_more by blast
    next
      case (step w n rc2 a2 s2)
      then have "vm_cpu.more s2 = vm_cpu.more s" using physical_more by blast
      moreover have "rc2 = VM_DONE \<Longrightarrow> vm_cpu.more s' = vm_cpu.more s2"
        using step by (intro less.hyps [of "len - of_nat n" a2 "v + of_nat n" w s2]) auto
      ultimately show ?thesis using step(8) by (cases "rc2 = VM_DONE") auto
    qed
  qed
qed

lemma virtual_more: "uu_vm_access_virtual a s = Some (rc, a', s') \<Longrightarrow> vm_cpu.more s' = vm_cpu.more s"
  using physical_more loop_more by (auto simp: uu_vm_access_virtual_def split: if_splits)

lemma read_vmem_more: "uu_vm_read_vmem cr3 v data len s = Some (rc, data', s') \<Longrightarrow> vm_cpu.more s' = vm_cpu.more s"
  using virtual_more by (auto simp: uu_vm_read_vmem_def acc_bytes_def)

lemma write_vmem_more: "uu_vm_write_vmem cr3 v data len s = Some (rc, s') \<Longrightarrow> vm_cpu.more s' = vm_cpu.more s"
  using virtual_more by (auto simp: uu_vm_write_vmem_def acc_state_def)

lemma dbg_more: "vm_cpu.more s' = vm_cpu.more s \<Longrightarrow> dbg_vm.more s' = dbg_vm.more s"
  by (cases s; cases s') simp

lemma ctrl_write_more [simp]: "dbg_vm.more (snd (ctrl_vmem_write_with cr3 a b s)) = dbg_vm.more s"
  using write_vmem_more dbg_more by (fastforce simp: ctrl_vmem_write_with_def split: option.splits)

lemma ctrl_read_more [simp]: "dbg_vm.more (snd (snd (ctrl_vmem_read_with cr3 a b s))) = dbg_vm.more s"
  using read_vmem_more dbg_more by (fastforce simp: ctrl_vmem_read_with_def split: option.splits)

lemma set_slot_more [simp]: "dbg_vm.more (set_slot i f s) = dbg_vm.more s"
  by (simp add: set_slot_def)

lemma slot_more [simp]:
  "dbg_vm.more (snd (uu_dbg_soft_restore_insn i s)) = dbg_vm.more s"
  "dbg_vm.more (snd (uu_dbg_soft_restore_bp i s)) = dbg_vm.more s"
  "dbg_vm.more (snd (uu_dbg_soft_del_bp i s)) = dbg_vm.more s"
  "dbg_vm.more (snd (dbg_soft_set_bp addr i s)) = dbg_vm.more s"
  "dbg_vm.more (snd (dbg_soft_del_bp addr i s)) = dbg_vm.more s"
  by (simp_all add: uu_dbg_soft_restore_insn_def uu_dbg_soft_restore_bp_def uu_dbg_soft_del_bp_def dbg_soft_set_bp_def
      dbg_soft_del_bp_def Let_def split_def)

lemma soft_loop_more:
  "(\<And>i t. dbg_vm.more (snd (hdl i t)) = dbg_vm.more t) \<Longrightarrow>
   dbg_vm.more (snd (snd (dbg_soft_loop hdl stop n i s))) = dbg_vm.more s"
  by (induction n arbitrary: i s) (simp_all add: split_def Let_def)

lemma soft_more [simp]:
  "dbg_vm.more (snd (dbg_soft_set addr h s)) = dbg_vm.more s"
  "dbg_vm.more (snd (dbg_soft_del addr s)) = dbg_vm.more s"
  by (simp_all add: dbg_soft_set_def dbg_soft_del_def dbg_soft_for_each_def dbg_soft_enable_def dbg_soft_protect_def
      dbg_soft_disable_def dbg_soft_release_def soft_loop_more split_def Let_def)

lemma hard_brk_more [simp]:
  "dbg_vm.more (dbg_hard_brk_enable s) = dbg_vm.more s" "dbg_vm.more (dbg_hard_brk_disable s) = dbg_vm.more s"
  "dbg_vm.more (dbg_hard_brk_insn_enable s) = dbg_vm.more s" "dbg_vm.more (dbg_hard_brk_insn_disable s) = dbg_vm.more s"
  "dbg_vm.more (uu_hbrk_setup_bp n t l s) = dbg_vm.more s" "dbg_vm.more (uu_hbrk_delete_bp n s) = dbg_vm.more s"
  "dbg_vm.more (set_dr n a s) = dbg_vm.more s"
  by (simp_all add: dbg_hard_brk_enable_def dbg_hard_brk_disable_def dbg_hard_protect_def dbg_hard_release_def
      dbg_hard_brk_insn_enable_def dbg_hard_brk_insn_disable_def dbg_hard_brk_insn_protect_def
      dbg_hard_brk_insn_release_def uu_hbrk_setup_bp_def uu_hbrk_delete_bp_def set_dr_def)

lemma hard_brk_loop_more [simp]:
  "dbg_vm.more (snd (hard_brk_set_loop ns addr t l h s)) = dbg_vm.more s"
  "dbg_vm.more (snd (hard_brk_del_loop ns addr c st s)) = dbg_vm.more s"
  by (induction ns arbitrary: s st) (auto simp: Let_def split_paired_all)

lemma hard_more [simp]:
  "dbg_vm.more (snd (dbg_hard_brk_set addr t l h s)) = dbg_vm.more s"
  "dbg_vm.more (snd (dbg_hard_brk_del addr t l s)) = dbg_vm.more s"
  by (simp_all add: dbg_hard_brk_set_def dbg_hard_brk_del_def split_def Let_def)

lemma lock_more: "dbg_vm.more s' = dbg_vm.more s \<Longrightarrow> gs_lock s' = gs_lock s" for s :: "'a gdb_state_scheme"
  by (cases s; cases s') simp

lemma lock_out [simp]:
  "gs_lock (gdb_io_write d s) = gs_lock s" "gs_lock (gdb_ok s) = gs_lock s" "gs_lock (gdb_unsupported s) = gs_lock s"
  "gs_lock (gdb_err_mem s) = gs_lock s" "gs_lock (gdb_nak s) = gs_lock s" "gs_lock (gdb_add_str d s) = gs_lock s"
  "gs_lock (gdb_add_byte b s) = gs_lock s" "gs_lock (gdb_add_number v pr e s) = gs_lock s"
  by (simp_all add: gdb_io_write_def gdb_ok_def gdb_unsupported_def gdb_err_mem_def gdb_nak_def gdb_add_str_def
      gdb_add_byte_def gdb_add_number_def split_def Let_def)

lemma lock_packet [simp]: "gs_lock (gdb_send_packet s) = gs_lock s" "gs_lock (gdb_send_stop_reason r s) = gs_lock s"
  by (simp_all add: gdb_send_packet_def gdb_send_stop_reason_def Let_def split_def)

lemma lock_reg [simp]: "gs_lock (reg_put l v s) = gs_lock s"
proof (cases l)
  case (L_GPR i) then show ?thesis by (simp add: set_gpr_def)
next
  case (L_REG r) then show ?thesis by (cases "(r, v, s)" rule: vm_reg_put.cases) simp_all
qed simp_all

lemma lock_acc: "reg_access a i s = (l, n, s') \<Longrightarrow> gs_lock s' = gs_lock s"
  by (cases a) (auto simp: uu_gdb_reg_access_gpr_def)

lemma lock_reg_op:
  "gdb_reg_op data wr sys s = Some r \<Longrightarrow> (case r of Inl s' \<Rightarrow> gs_lock s' | Inr (l, n, v, s') \<Rightarrow> gs_lock s') = gs_lock s"
  using lock_acc
  by (fastforce simp: gdb_reg_op_def uu_gdb_setup_reg_def Let_def split: option.splits if_splits)

lemma lock_foldl: "(\<And>t b. gs_lock (f t b) = gs_lock t) \<Longrightarrow> gs_lock (foldl f s bs) = gs_lock s"
  by (induction bs arbitrary: s) simp_all

lemma lock_rd_mem: "gdb_rd_mem_loop addr sz store s = Some s' \<Longrightarrow> gs_lock s' = gs_lock s"
proof (induction addr sz store s rule: gdb_rd_mem_loop.induct)
  case (1 addr sz store s)
  show ?case
  proof (cases "sz = 0")
    case True
    then show ?thesis using 1(2) by (auto simp: gdb_rd_mem_loop.simps)
  next
    case False
    with 1(2) obtain rc st s1 where r: "uu_vm_read_vmem (active_cr3 s) addr store (min sz 128) s = Some (rc, st, s1)"
      by (auto simp: gdb_rd_mem_loop.simps [of addr sz] Let_def split: option.splits)
    then have l: "gs_lock s1 = gs_lock s" using lock_more dbg_more read_vmem_more by blast
    show ?thesis
    proof (cases "rc = VM_DONE")
      case True
      with 1(2) False r have "gdb_rd_mem_loop (addr + min sz 128) (sz - min sz 128) st
          (foldl (\<lambda>t b. gdb_add_byte b t) s1 (take (unat (min sz 128)) st)) = Some s'"
        by (simp add: gdb_rd_mem_loop.simps [of addr sz] Let_def)
      from 1(1) [OF False refl r refl refl _ this] True l show ?thesis by (simp add: lock_foldl)
    qed (use 1(2) False r l in \<open>auto simp: gdb_rd_mem_loop.simps [of addr sz] Let_def\<close>)
  qed
qed

lemma lock_wr_store: "gdb_wr_store n i bs store s = Some (bs', store', s') \<Longrightarrow> gs_lock s' = gs_lock s"
  by (induction n i bs store s rule: gdb_wr_store.induct) (auto split: option.splits)

lemma lock_wr_mem: "gdb_wr_mem_loop addr sz bs store s = Some s' \<Longrightarrow> gs_lock s' = gs_lock s"
proof (induction addr sz bs store s rule: gdb_wr_mem_loop.induct)
  case (1 addr sz bs store s)
  show ?case
  proof (cases "sz = 0")
    case True
    then show ?thesis using 1(2) by (auto simp: gdb_wr_mem_loop.simps)
  next
    case False
    with 1(2) obtain bs' st s1 rc s2 where w: "gdb_wr_store (unat (min sz 128)) 0 bs store s = Some (bs', st, s1)"
      and r: "uu_vm_write_vmem (active_cr3 s1) addr st (min sz 128) s1 = Some (rc, s2)"
      by (auto simp: gdb_wr_mem_loop.simps [of addr sz] Let_def split: option.splits)
    have l: "gs_lock s2 = gs_lock s" using lock_more dbg_more write_vmem_more [OF r] lock_wr_store [OF w] by metis
    show ?thesis
    proof (cases "rc = VM_DONE")
      case True
      with 1(2) False w r have "gdb_wr_mem_loop (addr + min sz 128) (sz - min sz 128) bs' st s2 = Some s'"
        by (simp add: gdb_wr_mem_loop.simps [of addr sz] Let_def)
      from 1(1) [OF False refl w refl refl r refl _ this] True l show ?thesis by simp
    qed (use 1(2) False w r l in \<open>auto simp: gdb_wr_mem_loop.simps [of addr sz] Let_def\<close>)
  qed
qed

lemma lock_rd_gpr_loop: "gdb_rd_gpr_loop lo vlen i s = Some s' \<Longrightarrow> gs_lock s' = gs_lock s"
  by (rule gdb_rd_gpr_loop.raw_induct [where P = "\<lambda>lo vl i t y. gs_lock y = gs_lock t"]) (auto split: if_splits)

lemma lock_brk_op:
  assumes "\<And>a s. dbg_vm.more (snd (soft a s)) = dbg_vm.more s" "\<And>a t l s. dbg_vm.more (snd (hard a t l s)) = dbg_vm.more s"
  shows "gs_lock (gdb_brk_op soft hard data s) = gs_lock s"
  using lock_more [OF assms(1)] lock_more [OF assms(2)]
  by (simp add: gdb_brk_op_def split_def Let_def split: option.splits)

lemma lock_cmd:
  "gdb_cmd_rd_mem env d s = Some t \<Longrightarrow> gs_lock t = gs_lock s"
  "gdb_cmd_wr_mem env d s = Some t \<Longrightarrow> gs_lock t = gs_lock s"
  "gdb_cmd_rd_reg d s = Some t \<Longrightarrow> gs_lock t = gs_lock s"
  "gdb_cmd_wr_reg d s = Some t \<Longrightarrow> gs_lock t = gs_lock s"
  "gdb_cmd_rd_gpr s = Some t \<Longrightarrow> gs_lock t = gs_lock s"
  "gs_lock (gdb_cmd_st_brk d s) = gs_lock s" "gs_lock (gdb_cmd_rm_brk d s) = gs_lock s"
  "gs_lock (gdb_cmd_thread d s) = gs_lock s" "gs_lock (gdb_cmd_stop_reason s) = gs_lock s"
  "gs_lock (gdb_cmd_query d s) = gs_lock s" "gs_lock (gdb_cmd_wr_gpr s) = gs_lock s"
proof -
  show "gdb_cmd_rd_mem env d s = Some t \<Longrightarrow> gs_lock t = gs_lock s"
    by (auto simp: gdb_cmd_rd_mem_def dest!: lock_rd_mem split: option.splits if_splits)
  show "gdb_cmd_wr_mem env d s = Some t \<Longrightarrow> gs_lock t = gs_lock s"
    by (auto simp: gdb_cmd_wr_mem_def dest!: lock_wr_mem split: option.splits if_splits)
  show "gdb_cmd_rd_reg d s = Some t \<Longrightarrow> gs_lock t = gs_lock s"
    by (auto simp: gdb_cmd_rd_reg_def dest!: lock_reg_op split: option.splits sum.splits)
  show "gdb_cmd_wr_reg d s = Some t \<Longrightarrow> gs_lock t = gs_lock s"
    by (auto simp: gdb_cmd_wr_reg_def dest!: lock_reg_op split: option.splits sum.splits if_splits)
  show "gdb_cmd_rd_gpr s = Some t \<Longrightarrow> gs_lock t = gs_lock s"
    by (auto simp: gdb_cmd_rd_gpr_def Let_def bind_eq_Some_conv dest!: lock_rd_gpr_loop split: if_splits)
qed (simp_all add: gdb_cmd_st_brk_def gdb_cmd_rm_brk_def lock_brk_op gdb_cmd_thread_def gdb_cmd_stop_reason_def
    gdb_cmd_query_def gdb_query_thread_def gdb_cmd_wr_gpr_def)

text \<open>No command but those that let the guest run, and those of the monitor, which are an argument
  here, changes the lock.\<close>

lemma lock_plain:
  assumes "gdb_process_packet env pkt s = Some s'"
    and "hd pkt \<notin> {GDB_CMD_CONT, GDB_CMD_STEP, GDB_CMD_KILL, GDB_CMD_DETACH, GDB_CMD_VMM}"
  shows "gs_lock s' = gs_lock s"
  using assms lock_cmd [where s = s]
  unfolding gdb_process_packet_def Let_def by (simp only: insert_iff empty_iff de_Morgan_disj split: if_splits) auto

section \<open>An example\<close>

definition env_ex :: "'a gdb_env" where
  "env_ex = \<lparr>ini_store = replicate 128 0, ini_ack = 0, gdb_cmd_vmm = (\<lambda>data s. Some (gdb_unsupported s))\<rparr>"

lemma gdb_ex_dbg [simp]:
  "io_in gdb_ex = []" "evt_kind gdb_ex = 0" "evt_src gdb_ex = EvtSoft 0" "length (vm_gpr gdb_ex) = 16"
  "efer_lma gdb_ex" "cs_l gdb_ex"
  by (simp_all add: gdb_ex_def ctrl_ex_def dbg_ex_def vm_ex_def ctrl_vm.defs gdb_state.defs dbg_vm.defs vm_cpu.defs)

section \<open>Properties\<close>

text \<open>C23: the command that reads all general registers ends exactly when the guest is not in
  64-bit mode: there the loop counts an unsigned index down to zero and beyond, so it leaves the
  register frame and the stub never answers.\<close>

theorem gdb_rd_gpr_ends_iff:
  "(\<exists>s'. gdb_cmd_rd_gpr s = Some s') \<longleftrightarrow> cpu_addr_sz s \<noteq> 64"
  using rd_gpr_loop_wraps [of "of_nat GPR64_RAX" 16 s] rd_gpr_loop_ends [of 8 "of_nat GPR64_RAX" 8 s]
  by (auto simp: gdb_cmd_rd_gpr_def GPR64_RAX_def Let_def)

text \<open>While the stub is locked and the host sends nothing, the stub keeps the guest
  stopped: the receive loop does not end.\<close>

theorem gdb_locked_waits:
  assumes "gs_lock s" and "io_in s = []"
  shows "gdb_recv_packet enable process [] s = None"
  using recv_locked [of enable process "[]" s] assms by (cases "gdb_recv_packet enable process [] s") auto

theorem gdb_locked_waits_witness:
  "gdb_recv_packet gdb_enable (gdb_process_packet env_ex) [] gdb_ex = None"
  by (rule gdb_locked_waits) simp_all

text \<open>C21: a continue command releases a stopped guest: when the resume succeeds, the receive
  loop ends, has read the whole command and left the stub unlocked.\<close>

theorem gdb_continue_releases:
  assumes "io_in s = [gdb_frame [GDB_CMD_CONT]]"
    and "dbg_resume False (s\<lparr>io_in := [], gs_buf := []\<rparr>) = Some (VM_DONE, s1)" and "io_in s1 = []"
  shows "gdb_recv_packet gdb_enable (gdb_process_packet env) [] s = Some ((gdb_ack s1)\<lparr>gs_lock := False\<rparr>)"
  using assms by (rule recv_continue)

theorem gdb_continue_releases_witness:
  "\<exists>s'. gdb_recv_packet gdb_enable (gdb_process_packet env_ex) [] (gdb_ex\<lparr>io_in := [gdb_frame [GDB_CMD_CONT]]\<rparr>) = Some s'
    \<and> \<not> gs_lock s' \<and> io_out s' = [GDB_ACK_BYTE]"
proof -
  let ?s = "gdb_ex\<lparr>io_in := [gdb_frame [GDB_CMD_CONT]]\<rparr>"
  have "dbg_resume False (?s\<lparr>io_in := [], gs_buf := []\<rparr>) = Some (VM_DONE, gdb_ex\<lparr>io_in := [], gs_buf := []\<rparr>)"
    by (simp add: dbg_resume_def dbg_hard_brk_resume_def dbg_soft_resume_def DBG_EVT_TYPE_SOFT_BRK_def vmerr_defs)
  from gdb_continue_releases [OF _ this, of env_ex] show ?thesis by (simp add: gdb_ack_def gdb_io_write_def)
qed

text \<open>C22: a register the host writes reads back as written: when the write and the read name
  the same register of the general set, the answer to the read carries the bytes that
  were written, the bytes of the register beyond its size are kept, and no other register has
  changed.\<close>

theorem gdb_reg_write_read:
  assumes "length (vm_gpr s) = 16" and "uu_gdb_setup_reg idx False s = Some (Some (l, n, s))"
    and "uu_gdb_setup_reg_op wr True = Some (idx, v)" and "uu_gdb_setup_reg_op rd False = Some (idx, 0)"
  shows "\<exists>s1 x. gdb_cmd_wr_reg wr s = Some s1
    \<and> gdb_cmd_rd_reg rd s1 = Some (gdb_send_packet (gdb_add_number x (of_nat (n * 2)) True s1))
    \<and> take_bit (8 * n) x = take_bit (8 * n) v \<and> drop_bit (8 * n) x = drop_bit (8 * n) (reg_get l s)
    \<and> (\<forall>l'. l' \<noteq> l \<longrightarrow> reg_get l' s1 = reg_get l' s)"
proof -
  define x where "x = (if n = 8 then v else set_field 0 (8 * n) v (reg_get l s))"
  define s1 where "s1 = gdb_ok (reg_put l x s)"
  note g = setup_reg_gpr [OF assms(2)]
  have n: "n = 2 \<or> n = 4 \<or> n = 8" using g(3) by simp
  have w: "gdb_cmd_wr_reg wr s = Some s1"
    using n by (auto simp: gdb_cmd_wr_reg_def gdb_reg_op_def assms s1_def x_def)
  have get: "reg_get l' s1 = reg_get l' (reg_put l x s)" for l'
    by (cases l') (simp_all add: s1_def gdb_ok_def gdb_io_write_def get_gpr_def)
  have "(cpu_addr_sz s1 = 64) = (cpu_addr_sz s = 64)"
    using gpr_loc_mode [OF g(2), of x s] by (simp add: addr_sz_64 s1_def gdb_ok_def gdb_io_write_def)
  from g(4) [OF this] have "gdb_cmd_rd_reg rd s1 = Some (gdb_send_packet (gdb_add_number (reg_get l s1) (of_nat (n * 2)) True s1))"
    by (simp add: gdb_cmd_rd_reg_def gdb_reg_op_def assms)
  moreover have "reg_get l s1 = x" using get reg_get_put [OF gpr_loc_ok [OF g(2) assms(1)]] by simp
  moreover have "take_bit (8 * n) x = take_bit (8 * n) v" "drop_bit (8 * n) x = drop_bit (8 * n) (reg_get l s)"
    using n by (auto simp: x_def low_bytes drop_bit_len)
  ultimately show ?thesis using w get reg_put_other [of l _ x s] by metis
qed

theorem gdb_reg_write_read_witness:
  "\<exists>s1 x. gdb_cmd_wr_reg (bytes_of_string ''0=8877665544332211'') gdb_ex = Some s1
    \<and> gdb_cmd_rd_reg (bytes_of_string ''0'') s1 = Some (gdb_send_packet (gdb_add_number x 16 True s1))
    \<and> x = 0x1122334455667788"
proof -
  have w: "uu_gdb_setup_reg_op (bytes_of_string ''0=8877665544332211'') True = Some (0, 0x1122334455667788)"
    and r: "uu_gdb_setup_reg_op (bytes_of_string ''0'') False = Some (0, 0)" by code_simp+
  have g: "uu_gdb_setup_reg 0 False gdb_ex = Some (Some (L_GPR 15, 8, gdb_ex))"
    by (simp add: uu_gdb_setup_reg_def gdb_reg_accessor_def gdb_gpr_reg_acc_def addr_sz_64 uu_gdb_reg_access_gpr_def
        uu_gdb_reg_access_fix_sz_def GPR64_RAX_def nth_append)
  have l: "length (vm_gpr gdb_ex) = 16" by simp
  have full: "x = v" if "take_bit (8 * 8) x = take_bit (8 * 8) v" for x v :: u64
    using that take_bit_length_eq [of x] take_bit_length_eq [of v] by simp
  obtain s1 x where "gdb_cmd_wr_reg (bytes_of_string ''0=8877665544332211'') gdb_ex = Some s1"
    "gdb_cmd_rd_reg (bytes_of_string ''0'') s1 = Some (gdb_send_packet (gdb_add_number x (of_nat (8 * 2)) True s1))"
    "take_bit (8 * 8) x = take_bit (8 * 8) 0x1122334455667788"
    using gdb_reg_write_read [OF l g w r] by blast
  with full [of x "0x1122334455667788"] show ?thesis by (intro exI [of _ s1] exI [of _ x]) simp
qed

end
