(* ===== verification/Ctrl.thy ===== *)
theory Ctrl
  imports Gdb_Cmd
begin

text \<open>
  The controller, \<^verbatim>\<open>vmm/src/control/ctrl.c\<close>: after every exit of the guest it runs the handler of
  the recorded event, lets the stub talk to the host and arms or disarms the traps. The
  handlers of the user are those of \<^verbatim>\<open>gdbstub_evt.c\<close>: each one stops the guest and tells the host
  the reason. A handler that a breakpoint was given is a function pointer, looked up in
  the argument \<open>own\<close>.
\<close>

section \<open>Handlers of the stub\<close>

definition GDB_EXIT_TRAP :: u8 where "GDB_EXIT_TRAP = 5"
definition GDB_EXIT_R_CR0 :: u8 where "GDB_EXIT_R_CR0 = 10"
definition GDB_EXIT_W_CR0 :: u8 where "GDB_EXIT_W_CR0 = 20"
definition GDB_EXIT_EXCP_DE :: u8 where "GDB_EXIT_EXCP_DE = 30"
definition GDB_EXIT_NPF :: u8 where "GDB_EXIT_NPF = 52"
definition GDB_EXIT_HYP :: u8 where "GDB_EXIT_HYP = 53"
definition GDB_EXIT_CPUID :: u8 where "GDB_EXIT_CPUID = 54"
definition GDB_EXIT_S3 :: u8 where "GDB_EXIT_S3 = 55"

definition gdb_preempt :: "u8 \<Rightarrow> 'a gdb_state_scheme \<Rightarrow> 'a gdb_state_scheme" where
  "gdb_preempt reason s = uu_gdb_preempt reason s"

text \<open>The fields of an argument that a handler reads.\<close>

fun arg_low :: "ctrl_arg \<Rightarrow> u8" where
  "arg_low (ArgByte b) = b"
| "arg_low (ArgLow w) = ucast w"
| "arg_low _ = 0"

definition gdbstub_evt_cr_rd :: "ctrl_arg \<Rightarrow> 'a gdb_state_scheme \<Rightarrow> vmerr \<times> 'a gdb_state_scheme" where
  "gdbstub_evt_cr_rd arg s = (VM_DONE, gdb_preempt (GDB_EXIT_R_CR0 + arg_low arg) s)"

definition gdbstub_evt_cr_wr :: "ctrl_arg \<Rightarrow> 'a gdb_state_scheme \<Rightarrow> vmerr \<times> 'a gdb_state_scheme" where
  "gdbstub_evt_cr_wr arg s = (VM_DONE, gdb_preempt (GDB_EXIT_W_CR0 + arg_low arg) s)"

definition gdbstub_evt_excp :: "ctrl_arg \<Rightarrow> 'a gdb_state_scheme \<Rightarrow> vmerr \<times> 'a gdb_state_scheme" where
  "gdbstub_evt_excp arg s = (VM_DONE, gdb_preempt (GDB_EXIT_EXCP_DE + arg_low arg) s)"

definition gdbstub_evt_trap :: "ctrl_arg \<Rightarrow> 'a gdb_state_scheme \<Rightarrow> vmerr \<times> 'a gdb_state_scheme" where
  "gdbstub_evt_trap arg s = (VM_DONE, gdb_preempt GDB_EXIT_TRAP s)"

definition gdbstub_evt_npf :: "ctrl_arg \<Rightarrow> 'a gdb_state_scheme \<Rightarrow> vmerr \<times> 'a gdb_state_scheme" where
  "gdbstub_evt_npf arg s = (VM_DONE, gdb_preempt GDB_EXIT_NPF s)"

definition gdbstub_evt_hyp :: "ctrl_arg \<Rightarrow> 'a gdb_state_scheme \<Rightarrow> vmerr \<times> 'a gdb_state_scheme" where
  "gdbstub_evt_hyp arg s = (VM_DONE, gdb_preempt GDB_EXIT_HYP s)"

definition gdbstub_evt_cpuid :: "ctrl_arg \<Rightarrow> 'a gdb_state_scheme \<Rightarrow> vmerr \<times> 'a gdb_state_scheme" where
  "gdbstub_evt_cpuid arg s = (VM_DONE, gdb_preempt GDB_EXIT_CPUID s)"

definition gdbstub_evt_suspend :: "ctrl_arg \<Rightarrow> 'a gdb_state_scheme \<Rightarrow> vmerr \<times> 'a gdb_state_scheme" where
  "gdbstub_evt_suspend arg s = (VM_DONE, gdb_preempt GDB_EXIT_S3 s)"

definition ctrl_evt_usr_hdl :: "(ctrl_arg \<Rightarrow> 'a gdb_state_scheme \<Rightarrow> vmerr \<times> 'a gdb_state_scheme) list" where
  "ctrl_evt_usr_hdl =
     [gdbstub_evt_cr_rd, gdbstub_evt_cr_wr, gdbstub_evt_excp, gdbstub_evt_trap, gdbstub_evt_trap,
      gdbstub_evt_npf, gdbstub_evt_hyp, gdbstub_evt_cpuid, gdbstub_evt_suspend]"

section \<open>The controller\<close>

type_synonym 'a own_hdl = "u64 \<Rightarrow> ctrl_arg \<Rightarrow> 'a gdb_state_scheme \<Rightarrow> vmerr \<times> 'a gdb_state_scheme"

definition ctrl_event :: "'a own_hdl \<Rightarrow> 'a gdb_state_scheme \<Rightarrow> vmerr \<times> 'a gdb_state_scheme" where
  "ctrl_event own s =
     (case cev_hdl s of
        NoHdl \<Rightarrow> (VM_DONE, s)
      | UsrHdl n \<Rightarrow> (let (rc, s1) = (ctrl_evt_usr_hdl ! n) (cev_arg s) s in (rc, s1\<lparr>cev_hdl := NoHdl\<rparr>))
      | OwnHdl h \<Rightarrow> (let (rc, s1) = own h (cev_arg s) s in (rc, s1\<lparr>cev_hdl := NoHdl\<rparr>)))"

text \<open>A rate of zero divides by zero.\<close>

definition gdbstub :: "'a gdb_env \<Rightarrow> 'a gdb_state_scheme \<Rightarrow> 'a gdb_state_scheme option" where
  "gdbstub env s =
     (if gs_on s then gdb_recv_packet gdb_enable (gdb_process_packet env) [] s
      else if gs_rate s = 0 then None
      else if vmexit_cnt s mod gs_rate s = 0 then gdb_recv_packet gdb_enable (gdb_process_packet env) [] s
      else Some s)"

definition controller :: "'a gdb_env \<Rightarrow> 'a own_hdl \<Rightarrow> 'a gdb_state_scheme \<Rightarrow> (vmerr \<times> 'a gdb_state_scheme) option" where
  "controller env own s =
     (let (rc, s1) = (if uu_ctrl_active_cr3_check 3 s then ctrl_event own s else (VM_IGNORE, s))
      in case gdbstub env s1 of
           None \<Rightarrow> None
         | Some s2 \<Rightarrow>
             if rc AND (VM_FAIL OR VM_FAULT) \<noteq> 0 then Some (rc, s2)
             else Some (rc, ctrl_traps (if hard_dr6_dirty s2 then dbg_hard_dr6_clean s2 else s2)))"

section \<open>A stop and a continue\<close>

text \<open>Stopping only changes the stub's own fields and what was sent.\<close>

lemma add_number_eq: "gdb_add_number v pr e s = s\<lparr>gs_buf := gs_buf (gdb_add_number v pr e s)\<rparr>"
  by (simp add: gdb_add_number_def split_def Let_def)

lemma add_str_eq: "gdb_add_str d s = s\<lparr>gs_buf := gs_buf (gdb_add_str d s)\<rparr>"
  by (simp add: gdb_add_str_def)

lemma add_byte_eq: "gdb_add_byte b s = s\<lparr>gs_buf := gs_buf (gdb_add_byte b s)\<rparr>"
  by (simp add: gdb_add_byte_def)

lemma send_packet_eq:
  "gdb_send_packet s = s\<lparr>gs_ack := gs_ack (gdb_send_packet s), io_out := io_out (gdb_send_packet s)\<rparr>"
  "\<exists>pkt. pkt \<noteq> [] \<and> io_out (gdb_send_packet s) = io_out s @ pkt"
  by (simp_all add: gdb_send_packet_def gdb_unsupported_def gdb_io_write_def Let_def bytes_of_string_def)

lemma preempt_eq:
  "\<exists>b a pkt. pkt \<noteq> [] \<and> uu_gdb_preempt r s = s\<lparr>gs_buf := b, gs_ack := a, io_out := io_out s @ pkt, gs_reason := r, gs_lock := True\<rparr>"
proof -
  define fin where "fin t = (\<exists>b. t = s\<lparr>gs_buf := b\<rparr>)" for t
  have f: "fin t \<Longrightarrow> fin (gdb_add_number v pr e t)" "fin t \<Longrightarrow> fin (gdb_add_str d t)" "fin t \<Longrightarrow> fin (gdb_add_byte b t)" for t v pr e d b
    using add_number_eq [of v pr e t] add_str_eq [of d t] add_byte_eq [of b t] by (auto simp: fin_def)
  have "fin s" by (auto simp: fin_def intro: exI [of _ "gs_buf s"])
  have "\<exists>t. gdb_send_stop_reason r s = gdb_send_packet t \<and> fin t"
    unfolding gdb_send_stop_reason_def Let_def split_def by (intro exI conjI, rule refl) (intro f \<open>fin s\<close>)
  then obtain b where b: "gdb_send_stop_reason r s = gdb_send_packet (s\<lparr>gs_buf := b\<rparr>)" by (auto simp: fin_def)
  obtain pkt where "pkt \<noteq> []" "io_out (gdb_send_packet (s\<lparr>gs_buf := b\<rparr>)) = io_out s @ pkt"
    using send_packet_eq(2) [of "s\<lparr>gs_buf := b\<rparr>"] by auto
  with send_packet_eq(1) [of "s\<lparr>gs_buf := b\<rparr>"]
  have "gdb_send_packet (s\<lparr>gs_buf := b\<rparr>) =
      s\<lparr>gs_buf := b, gs_ack := gs_ack (gdb_send_packet (s\<lparr>gs_buf := b\<rparr>)), io_out := io_out s @ pkt\<rparr>" by simp
  with b \<open>pkt \<noteq> []\<close> show ?thesis unfolding uu_gdb_preempt_def
    by (intro exI [of _ b] exI [of _ "gs_ack (gdb_send_packet (s\<lparr>gs_buf := b\<rparr>))"] exI [of _ pkt] conjI) simp_all
qed


lemma stp_enable_eq:
  assumes "\<not> hstp_on s"
  shows "\<exists>e. bit e DB_EXCP \<and> dbg_hard_stp_enable r s = s\<lparr>hstp_on := True, hstp_rq := take_bit 1 r,
    hstp_sysenter_cs := sysenter_cs s, hstp_tf := rflags_tf s, rflags_tf := True, dbg_excp := e, ctrl_traps_upd := True\<rparr>"
proof (intro exI conjI)
  show "bit (dbg_excp (dbg_hard_stp_enable r s)) DB_EXCP" by (rule stp_enable_sel [OF assms])
qed (use assms in \<open>simp add: dbg_hard_stp_enable_def dbg_hard_stp_protect_def dbg_hard_protect_def dbg_hard_stp_save_context_def Let_def\<close>)

lemma rearm_nothing:
  assumes "\<forall>j < DBG_SOFT_NR. let bp = soft_list s ! j in bp_on bp \<longrightarrow> bp_st bp \<or> soft_rs s \<and> bp_addr bp = evt_addr s"
  shows "dbg_soft_rearm s = (VM_DONE, s\<lparr>soft_dis := False\<rparr>)"
proof -
  have "\<exists>rc t. dbg_soft_loop dbg_soft_restore_bp VM_FAIL (DBG_SOFT_NR - 1) 0 s = (rc, 0 + (DBG_SOFT_NR - 1), t)
      \<and> rc AND VM_FAIL = 0 \<and> t = s"
  proof (rule soft_loop_inv [where P = "\<lambda>j t. t = s"])
    fix j t assume "j \<le> 0 + (DBG_SOFT_NR - 1)" and t: "t = s"
    then have "j < DBG_SOFT_NR" by (simp add: DBG_SOFT_NR_def)
    then show "\<exists>rc t'. dbg_soft_restore_bp j t = (rc, t') \<and> rc AND VM_FAIL = 0 \<and> t' = s"
      using assms t by (auto simp: dbg_soft_restore_bp_def Let_def vmerr_defs)
  qed simp
  then show ?thesis by (auto simp: dbg_soft_rearm_def dbg_soft_for_each_def vmerr_defs)
qed

lemma traps_enable_armed:
  assumes "uu_ctrl_active_cr3_check 0 s" and "ctrl_traps_upd s" and "hstp_on s"
    and "\<forall>j < DBG_SOFT_NR. let bp = soft_list s ! j in bp_on bp \<longrightarrow> bp_st bp \<or> soft_rs s \<and> bp_addr bp = evt_addr s"
  shows "ctrl_traps s = s\<lparr>sysenter_cs := 0, soft_dis := False, hbrk_dis := False, vm_dr7 := hbrk_dr7 s,
     excp_bitmap := dflt_excp s OR usr_excp s OR dbg_excp s, ctrl_traps_on := True, ctrl_traps_upd := False\<rparr>"
  using assms rearm_nothing [of "s\<lparr>sysenter_cs := 0\<rparr>"]
  by (simp add: ctrl_traps_def ctrl_traps_enable_def dbg_hard_stp_setup_context_def dbg_hard_brk_rearm_def uu_update_exception_mask_def)

section \<open>Properties\<close>

text \<open>C24: one visit to the controller on a software breakpoint, with a host that answers
  continue: the host is sent a stop packet, and after it the acknowledge of its command; the
  guest then goes on with the original instruction in place, alone under the trap
  flag with the debug exception intercepted, all other breakpoints armed, and no event is
  left over.\<close>

theorem controller_stop_continue:
  assumes "bp_hit i p s" and "cev_hdl s = UsrHdl CTRL_EVT_USR_TYPE_BRK" and "\<not> hstp_on s" and "gs_on s"
    and "uu_ctrl_active_cr3_check 3 s" and "io_in s = [gdb_frame [GDB_CMD_CONT]]" and "length (soft_list s) = DBG_SOFT_NR"
    and "\<forall>bp \<in> set (soft_list s). bp_on bp \<longrightarrow> bp_st bp"
  shows "\<exists>s' pkt. controller env own s = Some (VM_DONE, s') \<and> pkt \<noteq> [] \<and> io_out s' = io_out s @ pkt @ [GDB_ACK_BYTE]
    \<and> \<not> gs_lock s' \<and> gs_reason s' = GDB_EXIT_TRAP \<and> cev_hdl s' = NoHdl
    \<and> vm_mem s' = (vm_mem s)(p := bp_byte (soft_list s ! i)) \<and> rflags_tf s' \<and> hstp_on s' \<and> bit (excp_bitmap s') DB_EXCP
    \<and> (\<forall>j < DBG_SOFT_NR. j \<noteq> i \<longrightarrow> soft_list s' ! j = soft_list s ! j) \<and> \<not> bp_st (soft_list s' ! i)"
proof -
  obtain b a pkt where pre: "pkt \<noteq> []" "uu_gdb_preempt GDB_EXIT_TRAP s =
      s\<lparr>gs_buf := b, gs_ack := a, io_out := io_out s @ pkt, gs_reason := GDB_EXIT_TRAP, gs_lock := True\<rparr>"
    using preempt_eq by blast
  define s1 where "s1 = s\<lparr>gs_buf := b, gs_ack := a, io_out := io_out s @ pkt, gs_reason := GDB_EXIT_TRAP, gs_lock := True, cev_hdl := NoHdl\<rparr>"
  have ev: "ctrl_event own s = (VM_DONE, s1)"
    using assms(2) pre by (simp add: ctrl_event_def CTRL_EVT_USR_TYPE_BRK_def ctrl_evt_usr_hdl_def gdbstub_evt_trap_def gdb_preempt_def s1_def)
  let ?c = "s1\<lparr>io_in := [], gs_buf := []\<rparr>"
  have "vtrans ?c cr3 v = vtrans s cr3 v" "vmm_area ?c = vmm_area s" for cr3 v
    by (rule vtrans_trunc, simp add: vm_state.truncate_def s1_def) (simp add: fun_eq_iff vmm_area_def s1_def)
  then have hit: "bp_hit i p ?c" using assms(1) by (auto simp: bp_hit_def Let_def s1_def)
  define t where "t = ?c\<lparr>vm_mem := (vm_mem s)(p := bp_byte (soft_list s ! i)),
      soft_list := (soft_list s)[i := (soft_list s ! i)\<lparr>bp_st := False\<rparr>], soft_rs := True\<rparr>"
  have t: "\<not> hstp_on t" using assms(3) by (simp add: t_def s1_def)
  obtain e where e: "bit e DB_EXCP" "dbg_hard_stp_enable DBG_REQ_VMM t = t\<lparr>hstp_on := True, hstp_rq := take_bit 1 DBG_REQ_VMM,
      hstp_sysenter_cs := sysenter_cs t, hstp_tf := rflags_tf t, rflags_tf := True, dbg_excp := e, ctrl_traps_upd := True\<rparr>"
    using stp_enable_eq [OF t] by blast
  define s2 where "s2 = dbg_hard_stp_enable DBG_REQ_VMM t"
  note s2 = e(2) [folded s2_def]
  have r: "dbg_resume False ?c = Some (VM_DONE, s2)" using resume_hit [OF hit] by (simp add: s2_def t_def s1_def)
  have "io_in s1 = [gdb_frame [GDB_CMD_CONT]]" "io_in s2 = []" "gs_on s1"
    using assms(4,6) by (simp_all add: s1_def s2 t_def)
  with recv_continue [OF _ r, of env] have g: "gdbstub env s1 = Some ((gdb_ack s2)\<lparr>gs_lock := False\<rparr>)"
    by (simp add: gdbstub_def)
  define s3 where "s3 = (gdb_ack s2)\<lparr>gs_lock := False\<rparr>"
  define s4 where "s4 = (if hard_dr6_dirty s3 then dbg_hard_dr6_clean s3 else s3)"
  have c: "controller env own s = Some (VM_DONE, ctrl_traps s4)"
    using assms(5) ev g by (simp add: controller_def s3_def s4_def vmerr_defs)
  have sel: "soft_list s4 = (soft_list s)[i := (soft_list s ! i)\<lparr>bp_st := False\<rparr>]" "soft_rs s4" "evt_addr s4 = evt_addr s"
    "hstp_on s4" "ctrl_traps_upd s4" "io_out s4 = io_out s @ pkt @ [GDB_ACK_BYTE]" "\<not> gs_lock s4"
    "gs_reason s4 = GDB_EXIT_TRAP" "cev_hdl s4 = NoHdl" "vm_mem s4 = (vm_mem s)(p := bp_byte (soft_list s ! i))"
    "rflags_tf s4" "dbg_excp s4 = e"
    by (simp_all add: s4_def s3_def s2 t_def s1_def gdb_ack_def gdb_io_write_def dbg_hard_dr6_clean_def)
  have i: "i < length (soft_list s)" "bp_addr (soft_list s ! i) = evt_addr s" using assms(1) by (simp_all add: bp_hit_def Let_def)
  have arm: "\<forall>j < DBG_SOFT_NR. let bp = soft_list s4 ! j in bp_on bp \<longrightarrow> bp_st bp \<or> soft_rs s4 \<and> bp_addr bp = evt_addr s4"
    using assms(7,8) i by (auto simp: sel nth_list_update Let_def)
  have "uu_ctrl_active_cr3_check 0 s4 = uu_ctrl_active_cr3_check 0 s"
    by (simp add: uu_ctrl_active_cr3_check_def s4_def s3_def s2 t_def s1_def gdb_ack_def gdb_io_write_def dbg_hard_dr6_clean_def)
  moreover have "uu_ctrl_active_cr3_check 0 s" using assms(5) by (auto simp: uu_ctrl_active_cr3_check_def split: if_splits)
  ultimately have "ctrl_traps s4 = s4\<lparr>sysenter_cs := 0, soft_dis := False, hbrk_dis := False, vm_dr7 := hbrk_dr7 s4,
     excp_bitmap := dflt_excp s4 OR usr_excp s4 OR dbg_excp s4, ctrl_traps_on := True, ctrl_traps_upd := False\<rparr>"
    using traps_enable_armed [OF _ sel(5,4) arm] by simp
  then show ?thesis using c pre(1) sel e(1) i assms(7) by (intro exI [of _ "ctrl_traps s4"] exI [of _ pkt]) (simp add: bit_or_iff)
qed

definition stop_ex :: gdb_state where
  "stop_ex = gdb_ex\<lparr>cr0_pg := False, evt_kind := 0xff, evt_src := EvtSoft 0, evt_addr := 0x7000,
     soft_list := (replicate DBG_SOFT_NR bp_off)[0 := bp_off\<lparr>bp_on := True, bp_st := True, bp_addr := 0x7000, bp_byte := 0x90\<rparr>],
     cev_hdl := UsrHdl CTRL_EVT_USR_TYPE_BRK, io_in := [gdb_frame [GDB_CMD_CONT]]\<rparr>"

theorem controller_stop_continue_witness:
  "\<exists>s' pkt. controller env_ex (\<lambda>h arg s. (VM_DONE, s)) stop_ex = Some (VM_DONE, s') \<and> pkt \<noteq> []
    \<and> io_out s' = pkt @ [GDB_ACK_BYTE] \<and> \<not> gs_lock s' \<and> vm_mem s' 0x7000 = 0x90 \<and> rflags_tf s'"
proof -
  have ex: "area_start gdb_ex = 0x10000" "area_end gdb_ex = 0x20000" "\<not> hstp_on gdb_ex" "\<not> ctrl_cr3_on gdb_ex"
    by (simp_all add: gdb_ex_def ctrl_ex_def dbg_ex_def vm_ex_def ctrl_vm.defs gdb_state.defs dbg_vm.defs vm_cpu.defs)
  have h: "bp_hit 0 0x7000 stop_ex"
    by (simp add: bp_hit_def stop_ex_def DBG_EVT_TYPE_SOFT_BRK_def DBG_SOFT_NR_def bp_off_def vtrans_def vmm_area_def
        uu_range_exc_def ex)
  have l: "length (soft_list stop_ex) = DBG_SOFT_NR" "bp_byte (soft_list stop_ex ! 0) = 0x90" "io_out stop_ex = []"
    by (simp_all add: stop_ex_def DBG_SOFT_NR_def)
  have a: "\<forall>bp \<in> set (soft_list stop_ex). bp_on bp \<longrightarrow> bp_st bp"
    by (auto simp: stop_ex_def bp_off_def in_set_conv_nth nth_list_update split: if_splits)
  have o: "cev_hdl stop_ex = UsrHdl CTRL_EVT_USR_TYPE_BRK" "\<not> hstp_on stop_ex" "gs_on stop_ex"
    "uu_ctrl_active_cr3_check 3 stop_ex" "io_in stop_ex = [gdb_frame [GDB_CMD_CONT]]"
    by (simp_all add: stop_ex_def ex uu_ctrl_active_cr3_check_def)
  obtain s' pkt where "controller env_ex (\<lambda>h arg s. (VM_DONE, s)) stop_ex = Some (VM_DONE, s')" "pkt \<noteq> []"
    "io_out s' = io_out stop_ex @ pkt @ [GDB_ACK_BYTE]" "\<not> gs_lock s'"
    "vm_mem s' = (vm_mem stop_ex)(0x7000 := bp_byte (soft_list stop_ex ! 0))" "rflags_tf s'"
    using controller_stop_continue [OF h o l(1) a, of env_ex "\<lambda>h arg s. (VM_DONE, s)"] by blast
  then show ?thesis using l by (intro exI [of _ s'] exI [of _ pkt]) simp
qed

end
