(* ===== verification/Net_Pkt.thy ===== *)
theory Net_Pkt
  imports Strings Vm_Access
begin

text \<open>
  Packets of the network stack (\<^verbatim>\<open>common/net/\<close>): the checksum of RFC 1071, Ethernet, ARP, IP,
  UDP and ICMP headers written in place into a packet buffer. A pointer to a header is an
  address; the memory of the hypervisor is a function from addresses to bytes, and a
  generator returns the length it adds and the memory with the header. The fields lie at the
  offsets of the packed structures of \<^verbatim>\<open>ether.h\<close>, \<^verbatim>\<open>arp.h\<close>, \<^verbatim>\<open>ip.h\<close>, \<^verbatim>\<open>udp.h\<close> and \<^verbatim>\<open>icmp.h\<close>.
\<close>

type_synonym memory = "offset_t \<Rightarrow> u8"
type_synonym ip_addr = u32
type_synonym mac_addr = bytes

section \<open>Fields in memory\<close>

definition get16 :: "memory \<Rightarrow> offset_t \<Rightarrow> u16" where
  "get16 m a = of_le_bytes (mem_read m a 2)"

definition get32 :: "memory \<Rightarrow> offset_t \<Rightarrow> u32" where
  "get32 m a = of_le_bytes (mem_read m a 4)"

definition put16 :: "memory \<Rightarrow> offset_t \<Rightarrow> u16 \<Rightarrow> memory" where
  "put16 m a v = mem_write m a (le_bytes 2 v)"

definition put32 :: "memory \<Rightarrow> offset_t \<Rightarrow> u32 \<Rightarrow> memory" where
  "put32 m a v = mem_write m a (le_bytes 4 v)"

section \<open>Checksum (checksum.c)\<close>

text \<open>\<^verbatim>\<open>add\<close> followed by \<^verbatim>\<open>adc $0\<close> on 16 bits.\<close>

definition adc16 :: "u16 \<Rightarrow> u16 \<Rightarrow> u16" where
  "adc16 a b = (let v = a + b in if unat a + unat b \<ge> 2 ^ 16 then v + 1 else v)"

fun rfc1071_loop :: "memory \<Rightarrow> offset_t \<Rightarrow> nat \<Rightarrow> u32 \<Rightarrow> u32" where
  "rfc1071_loop m data 0 chk = chk"
| "rfc1071_loop m data (Suc len) chk =
     rfc1071_loop m (data + 2) len (chk + ucast (swap16 (get16 m data)))"

definition rfc1071_checksum :: "memory \<Rightarrow> offset_t \<Rightarrow> u64 \<Rightarrow> u16" where
  "rfc1071_checksum m data len =
     (let chk = rfc1071_loop m data (unat (len div 2)) 0
      in NOT (adc16 (ucast (drop_bit 16 chk)) (ucast chk)))"

section \<open>Ethernet (ether.c)\<close>

definition MAC_STR_SZ :: nat where
  [const_defs]: "MAC_STR_SZ = 18"

definition ETHER_TYPE_IP :: u16 where
  [const_defs]: "ETHER_TYPE_IP = 0x0800"

definition ETHER_TYPE_ARP :: u16 where
  [const_defs]: "ETHER_TYPE_ARP = 0x0806"

definition eth_hdr_sz :: u64 where
  [const_defs]: "eth_hdr_sz = 14"

definition mac_str :: "mac_addr \<Rightarrow> bytes option" where
  "mac_str mac = uu_vsnprintf MAC_STR_SZ (bytes_of_string ''%x:%x:%x:%x:%x:%x'')
     (map (\<lambda>i. VInt (ucast (mac ! i))) [0, 1, 2, 3, 4, 5])"

definition mac_cmp :: "mac_addr \<Rightarrow> mac_addr \<Rightarrow> bool" where
  "mac_cmp m1 m2 =
     (if (of_le_bytes (take 4 m1) :: u32) \<noteq> of_le_bytes (take 4 m2) then False
      else if (of_le_bytes (take 2 (drop 4 m1)) :: u16) \<noteq> of_le_bytes (take 2 (drop 4 m2)) then False
      else True)"

text \<open>The bytes that \<^verbatim>\<open>mac_copy\<close> moves: a double word and a word.\<close>

definition mac_copy :: "mac_addr \<Rightarrow> mac_addr" where
  "mac_copy src = take 4 src @ take 2 (drop 4 src)"

definition uu_rep_8_16 :: "u8 \<Rightarrow> u16" where
  "uu_rep_8_16 b = push_bit 8 (ucast b) OR ucast b"

definition uu_rep_8_32 :: "u8 \<Rightarrow> u32" where
  "uu_rep_8_32 b = push_bit 16 (ucast (uu_rep_8_16 b)) OR ucast (uu_rep_8_16 b)"

definition mac_rst :: "u8 \<Rightarrow> mac_addr" where
  "mac_rst b = le_bytes 4 (uu_rep_8_32 b) @ le_bytes 2 (uu_rep_8_16 b)"

definition mac_set :: "bytes \<Rightarrow> mac_addr" where
  "mac_set hex = mac_copy hex"

definition uu_eth_gen :: "memory \<Rightarrow> offset_t \<Rightarrow> mac_addr \<Rightarrow> mac_addr \<Rightarrow> u64 \<times> memory" where
  "uu_eth_gen m hdr src dst =
     (eth_hdr_sz, mem_write (mem_write m (hdr + 6) (mac_copy src)) hdr (mac_copy dst))"

definition eth_ip_pkt :: "memory \<Rightarrow> offset_t \<Rightarrow> mac_addr \<Rightarrow> mac_addr \<Rightarrow> u64 \<times> memory" where
  "eth_ip_pkt m hdr src dst = uu_eth_gen (put16 m (hdr + 12) (swap16 ETHER_TYPE_IP)) hdr src dst"

definition eth_arp_pkt :: "memory \<Rightarrow> offset_t \<Rightarrow> mac_addr \<Rightarrow> mac_addr \<Rightarrow> u64 \<times> memory" where
  "eth_arp_pkt m hdr src dst = uu_eth_gen (put16 m (hdr + 12) (swap16 ETHER_TYPE_ARP)) hdr src dst"

section \<open>ARP packets (arp.c)\<close>

definition ARP_TYPE_ETH :: u16 where
  [const_defs]: "ARP_TYPE_ETH = 1"

definition ARP_OP_REQUEST :: u16 where
  [const_defs]: "ARP_OP_REQUEST = 1"

definition ARP_OP_REPLY :: u16 where
  [const_defs]: "ARP_OP_REPLY = 2"

definition arp_hdr_sz :: u64 where
  [const_defs]: "arp_hdr_sz = 28"

definition uu_arp_op ::
    "memory \<Rightarrow> offset_t \<Rightarrow> u16 \<Rightarrow> mac_addr \<Rightarrow> mac_addr \<Rightarrow> ip_addr \<Rightarrow> ip_addr \<Rightarrow> u64 \<times> memory" where
  "uu_arp_op m hdr opc hwsrc hwdst src dst =
     (let m = put16 m hdr (swap16 ARP_TYPE_ETH);
          m = put16 m (hdr + 2) (swap16 ETHER_TYPE_IP);
          m = m(hdr + 4 := 6);
          m = m(hdr + 5 := 4);
          m = put16 m (hdr + 6) (swap16 opc);
          m = mem_write m (hdr + 8) (mac_copy hwsrc);
          m = mem_write m (hdr + 18) (mac_copy hwdst);
          m = put32 m (hdr + 14) (swap32 src);
          m = put32 m (hdr + 24) (swap32 dst)
      in (arp_hdr_sz, m))"

definition arp_who_has_pkt ::
    "memory \<Rightarrow> offset_t \<Rightarrow> mac_addr \<Rightarrow> mac_addr \<Rightarrow> ip_addr \<Rightarrow> ip_addr \<Rightarrow> u64 \<times> memory" where
  "arp_who_has_pkt m hdr hwsrc hwdst src dst = uu_arp_op m hdr ARP_OP_REQUEST hwsrc hwdst src dst"

definition arp_is_at_pkt ::
    "memory \<Rightarrow> offset_t \<Rightarrow> mac_addr \<Rightarrow> mac_addr \<Rightarrow> ip_addr \<Rightarrow> ip_addr \<Rightarrow> u64 \<times> memory" where
  "arp_is_at_pkt m hdr hwsrc hwdst src dst = uu_arp_op m hdr ARP_OP_REPLY hwsrc hwdst src dst"

section \<open>IP (ip.c)\<close>

definition IP_PROTO_ICMP :: u8 where
  [const_defs]: "IP_PROTO_ICMP = 0x01"

definition IP_PROTO_UDP :: u8 where
  [const_defs]: "IP_PROTO_UDP = 0x11"

definition IP_STR_SZ :: nat where
  [const_defs]: "IP_STR_SZ = 16"

definition ip_hdr_sz :: u64 where
  [const_defs]: "ip_hdr_sz = 20"

definition udp_hdr_sz :: u64 where
  [const_defs]: "udp_hdr_sz = 8"

definition udp_phdr_sz :: u64 where
  [const_defs]: "udp_phdr_sz = 12"

definition icmp_hdr_sz :: u64 where
  [const_defs]: "icmp_hdr_sz = 8"

definition ip_str :: "ip_addr \<Rightarrow> bytes option" where
  "ip_str ip = uu_vsnprintf IP_STR_SZ (bytes_of_string ''%d.%d.%d.%d'')
     [VInt (ucast (ucast (drop_bit 24 ip) :: u8)), VInt (ucast (ucast (drop_bit 16 ip) :: u8)),
      VInt (ucast (ucast (drop_bit 8 ip) :: u8)), VInt (ucast (ucast ip :: u8))]"

text \<open>\<^verbatim>\<open>while(i < max && str[i] != '.') i++\<close>\<close>

function ip_scan :: "bytes \<Rightarrow> nat \<Rightarrow> nat \<Rightarrow> nat" where
  "ip_scan str i mx = (if i < mx \<and> str ! i \<noteq> 46 then ip_scan str (Suc i) mx else i)"
  by pat_completeness auto
termination
  by (relation "measure (\<lambda>(str, i, mx). mx - i)") auto

declare ip_scan.simps [simp del]

text \<open>The argument is the string without its terminator, so \<^verbatim>\<open>strlen\<close> is its length.\<close>

fun ip_from_str_loop :: "bytes \<Rightarrow> nat \<Rightarrow> nat \<Rightarrow> nat \<Rightarrow> nat \<Rightarrow> ip_addr \<Rightarrow> ip_addr option" where
  "ip_from_str_loop str mx 0 i n ip =
     (if n = mx then None
      else case dec_to_uint64 (take (mx - n) (drop n str)) of
        None \<Rightarrow> None
      | Some x \<Rightarrow> if x > 255 then None else Some (ip OR ucast x))"
| "ip_from_str_loop str mx (Suc m) i n ip =
     (let i = ip_scan str i mx
      in if i = mx then None
         else case dec_to_uint64 (take (i - n) (drop n str)) of
           None \<Rightarrow> None
         | Some x \<Rightarrow> if x > 255 then None
             else ip_from_str_loop str mx m (Suc i) (Suc i) (ip OR ucast (push_bit (Suc m * 8) x)))"

definition ip_from_str :: "bytes \<Rightarrow> ip_addr option" where
  "ip_from_str str = ip_from_str_loop str (min (length str) 15) 3 0 0 0"

definition ip_checksum :: "memory \<Rightarrow> offset_t \<Rightarrow> memory" where
  "ip_checksum m hdr =
     (let m = put16 m (hdr + 10) 0
      in put16 m (hdr + 10) (swap16 (rfc1071_checksum m hdr ip_hdr_sz)))"

definition uu_ip_gen ::
    "memory \<Rightarrow> offset_t \<Rightarrow> ip_addr \<Rightarrow> ip_addr \<Rightarrow> u8 \<Rightarrow> u64 \<Rightarrow> u64 \<times> memory" where
  "uu_ip_gen m hdr src dst proto dlen =
     (let len = ip_hdr_sz + dlen;
          m = m(hdr := set_field 4 4 4 (m hdr));
          m = m(hdr := set_field 0 4 5 (m hdr));
          m = m(hdr + 1 := set_field 2 6 0 (m (hdr + 1)));
          m = m(hdr + 1 := set_field 0 2 0 (m (hdr + 1)));
          m = m(hdr + 8 := 0xff);
          m = m(hdr + 9 := proto);
          m = put16 m (hdr + 6) 0;
          m = put16 m (hdr + 4) (swap16 1);
          m = put16 m (hdr + 2) (swap16 (ucast len));
          m = put32 m (hdr + 12) (swap32 src);
          m = put32 m (hdr + 16) (swap32 dst);
          m = ip_checksum m hdr
      in (len, m))"

text \<open>The pseudo header is laid over the last twelve bytes of the place of the IP header.\<close>

definition ip_udp_pkt :: "memory \<Rightarrow> offset_t \<Rightarrow> ip_addr \<Rightarrow> ip_addr \<Rightarrow> u64 \<Rightarrow> u64 \<times> memory" where
  "ip_udp_pkt m hdr src dst dlen =
     (let udp = hdr + ip_hdr_sz;
          psd = udp - udp_phdr_sz;
          m = put32 m psd (swap32 src);
          m = put32 m (psd + 4) (swap32 dst);
          m = m(psd + 8 := 0);
          m = m(psd + 9 := IP_PROTO_UDP);
          m = put16 m (psd + 10) (swap16 (ucast dlen));
          len = udp_phdr_sz + dlen;
          (m, len) = (if len mod 2 \<noteq> 0 then (m(psd + len := 0), len + 1) else (m, len));
          m = put16 m (udp + 6) (swap16 (rfc1071_checksum m psd len));
          m = (if get16 m (udp + 6) = 0 then put16 m (udp + 6) (NOT (get16 m (udp + 6))) else m)
      in uu_ip_gen m hdr src dst IP_PROTO_UDP dlen)"

definition ip_icmp_pkt :: "memory \<Rightarrow> offset_t \<Rightarrow> ip_addr \<Rightarrow> ip_addr \<Rightarrow> u64 \<Rightarrow> u64 \<times> memory" where
  "ip_icmp_pkt m hdr src dst dlen = uu_ip_gen m hdr src dst IP_PROTO_ICMP dlen"

section \<open>UDP (udp.c) and ICMP (icmp.c)\<close>

definition udp_pkt :: "memory \<Rightarrow> offset_t \<Rightarrow> u16 \<Rightarrow> u16 \<Rightarrow> u64 \<Rightarrow> u64 \<times> memory" where
  "udp_pkt m hdr sport dport dlen =
     (let len = udp_hdr_sz + dlen;
          m = put16 m hdr (swap16 sport);
          m = put16 m (hdr + 2) (swap16 dport);
          m = put16 m (hdr + 4) (swap16 (ucast len));
          m = put16 m (hdr + 6) 0
      in (len, m))"

definition ICMP_TYPE_ECHO_REPLY :: u8 where
  [const_defs]: "ICMP_TYPE_ECHO_REPLY = 0"

definition ICMP_TYPE_ECHO_REQUEST :: u8 where
  [const_defs]: "ICMP_TYPE_ECHO_REQUEST = 8"

definition icmp_checksum :: "memory \<Rightarrow> offset_t \<Rightarrow> u64 \<Rightarrow> memory" where
  "icmp_checksum m hdr ln =
     (let m = put16 m (hdr + 2) 0
      in put16 m (hdr + 2) (swap16 (rfc1071_checksum m hdr ln)))"

definition uu_icmp_gen :: "memory \<Rightarrow> offset_t \<Rightarrow> u8 \<Rightarrow> u8 \<Rightarrow> u64 \<Rightarrow> u64 \<times> memory" where
  "uu_icmp_gen m hdr type code dlen =
     (let m = m(hdr := type);
          m = m(hdr + 1 := code);
          len = icmp_hdr_sz + dlen;
          m = icmp_checksum m hdr len
      in (len, m))"

definition uu_icmp_echo ::
    "memory \<Rightarrow> offset_t \<Rightarrow> u8 \<Rightarrow> u16 \<Rightarrow> u16 \<Rightarrow> bytes \<Rightarrow> u64 \<Rightarrow> u64 \<times> memory" where
  "uu_icmp_echo m hdr type ident sq data dlen =
     (let m = put16 m (hdr + 4) (swap16 ident);
          m = put16 m (hdr + 6) (swap16 sq);
          m = mem_write m (hdr + icmp_hdr_sz) (take (unat dlen) data)
      in uu_icmp_gen m hdr type 0 dlen)"

definition icmp_echo_request ::
    "memory \<Rightarrow> offset_t \<Rightarrow> u16 \<Rightarrow> u16 \<Rightarrow> bytes \<Rightarrow> u64 \<Rightarrow> u64 \<times> memory" where
  "icmp_echo_request m hdr ident sq data dlen = uu_icmp_echo m hdr ICMP_TYPE_ECHO_REQUEST ident sq data dlen"

definition icmp_echo_reply ::
    "memory \<Rightarrow> offset_t \<Rightarrow> u16 \<Rightarrow> u16 \<Rightarrow> bytes \<Rightarrow> u64 \<Rightarrow> u64 \<times> memory" where
  "icmp_echo_reply m hdr ident sq data dlen = uu_icmp_echo m hdr ICMP_TYPE_ECHO_REPLY ident sq data dlen"

section \<open>Blocks of memory\<close>

text \<open>Writes inside a block amount to one write of the edited block, so the memory that a
  generator leaves is one block written over the memory it was given.\<close>

definition patch :: "nat \<Rightarrow> 'b list \<Rightarrow> 'b list \<Rightarrow> 'b list" where
  "patch j ys xs = take j xs @ ys @ drop (j + length ys) xs"

lemma length_mem_read [simp]: "length (mem_read m a n) = n"
  by (simp add: mem_read_def)

lemma unat_offset_less:
  assumes "length xs < 2 ^ 64" and "j \<le> length xs" and "unat (x - (a + of_nat j)) < k" and "j + k \<le> length xs"
  shows "unat (x - a) = j + unat (x - (a + of_nat j :: u64))"
proof -
  have "x - a = of_nat j + (x - (a + of_nat j))" by simp
  also have "unat \<dots> = j + unat (x - (a + of_nat j))"
    using assms by (subst unat_word_ariths) (simp add: unat_of_nat take_bit_eq_mod)
  finally show ?thesis .
qed

lemma unat_offset_between:
  fixes x a :: u64
  assumes "length xs < 2 ^ 64" and "j \<le> unat (x - a)" and "unat (x - a) < length xs"
  shows "unat (x - (a + of_nat j)) = unat (x - a) - j"
proof -
  have e: "x - (a + of_nat j) = (x - a) - of_nat j" by simp
  have j: "unat (of_nat j :: u64) = j" using assms by (simp add: unat_of_nat take_bit_eq_mod)
  then have "of_nat j \<le> x - a" using assms by (simp add: word_le_nat_alt)
  from unat_sub [OF this] show ?thesis by (simp only: e j)
qed

lemma write_inside:
  assumes l: "length xs < 2 ^ 64" and j: "j + length ys \<le> length xs"
  shows "mem_write (mem_write m a xs) (a + of_nat j) ys = mem_write m a (patch j ys xs)"
proof
  fix x :: u64
  let ?d = "unat (x - a)" and ?e = "unat (x - (a + of_nat j))"
  show "mem_write (mem_write m a xs) (a + of_nat j) ys x = mem_write m a (patch j ys xs) x"
  proof (cases "?e < length ys")
    case True
    then have "?d = j + ?e" using unat_offset_less [OF l _ _ j] j by simp
    then show ?thesis using True j by (simp add: mem_write_def patch_def nth_append)
  next
    case False
    consider "?d < j" | "j \<le> ?d" "?d < length xs" | "length xs \<le> ?d" by linarith
    then show ?thesis
    proof cases
      case 1
      then show ?thesis using False j by (simp add: mem_write_def patch_def nth_append)
    next
      case 2
      then have "?e = ?d - j" using unat_offset_between [OF l] by simp
      then show ?thesis using 2 False j by (auto simp: mem_write_def patch_def nth_append)
    next
      case 3
      then show ?thesis using False j by (simp add: mem_write_def patch_def)
    qed
  qed
qed

lemma read_inside:
  assumes l: "length xs < 2 ^ 64" and j: "j + n \<le> length xs"
  shows "mem_read (mem_write m a xs) (a + of_nat j) n = take n (drop j xs)"
proof (rule nth_equalityI)
  show "length (mem_read (mem_write m a xs) (a + of_nat j) n) = length (take n (drop j xs))"
    using j by simp
  fix i assume "i < length (mem_read (mem_write m a xs) (a + of_nat j) n)"
  then have i: "i < n" by simp
  have "unat (of_nat j + of_nat i :: u64) = j + i"
    using l j i by (simp add: unat_of_nat take_bit_eq_mod flip: of_nat_add)
  then show "mem_read (mem_write m a xs) (a + of_nat j) n ! i = take n (drop j xs) ! i"
    using i j by (simp add: mem_read_def mem_write_def add.assoc)
qed

lemmas write_inside_0 = write_inside [where j = 0, simplified]
lemmas read_inside_0 = read_inside [where j = 0, simplified]

lemma write_back: "n < 2 ^ 64 \<Longrightarrow> mem_write m a (mem_read m a n) = m"
  by (rule ext) (simp add: mem_write_def mem_read_def)

lemma mem_read_append: "mem_read m a (n + k) = mem_read m a n @ mem_read m (a + of_nat n) k"
  by (rule nth_equalityI) (auto simp: mem_read_def nth_append add.assoc simp flip: of_nat_add)

section \<open>The checksum as arithmetic\<close>

fun ck_sum :: "bytes \<Rightarrow> nat" where
  "ck_sum (a # b # bs) = 256 * unat a + unat b + ck_sum bs"
| "ck_sum _ = 0"

definition fold16 :: "nat \<Rightarrow> nat" where
  "fold16 s = (if s = 0 then 0 else if s mod 65535 = 0 then 65535 else s mod 65535)"

definition ck_field :: "bytes \<Rightarrow> u16" where
  "ck_field bs = NOT (of_nat (fold16 (ck_sum bs)))"

lemma swap16_bytes: "swap16 (of_le_bytes [a, b]) = push_bit 8 (ucast a) OR ucast b"
  by (rule bit_eqI) (auto simp: swap16_def bit_simps dest: bit_imp_le_length)

lemma unat_be16: "unat (push_bit 8 (ucast a) OR ucast b :: u16) = 256 * unat a + unat b" for a b :: u8
proof -
  have "push_bit 8 (ucast a) AND ucast b = (0 :: u16)"
    by (rule bit_eqI) (auto simp: bit_simps dest: bit_imp_le_length)
  then have e: "push_bit 8 (ucast a) OR ucast b = (push_bit 8 (ucast a) + ucast b :: u16)"
    by (simp add: disjunctive_add_eq_or)
  have "unat a < 256" "unat b < 256" using unsigned_less [of a] unsigned_less [of b] by simp_all
  then show ?thesis unfolding e
    by (simp add: unat_word_ariths push_bit_eq_mult unsigned_ucast_eq take_bit_eq_mod)
qed

lemma unat_swap16: "unat (swap16 (of_le_bytes [a, b])) = 256 * unat a + unat b"
  by (simp only: swap16_bytes unat_be16)

lemma fold16_step: "fold16 (65536 * q + r) = (if q + r < 65536 then q + r else q + r - 65535)"
  if "q < 65536" "r < 65536" for q r
proof -
  have "65536 * q + r = q + r + 65535 * q" by simp
  then have "(65536 * q + r) mod 65535 = (q + r) mod 65535" by (metis mod_mult_self2)
  moreover have "(q + r) mod 65535 = (if q + r < 65535 then q + r else if q + r < 131070 then q + r - 65535 else 0)"
    using that by (auto simp: mod_if)
  ultimately show ?thesis using that by (auto simp: fold16_def)
qed

lemma adc16_nat:
  "unat (adc16 a b) = (if unat a + unat b < 65536 then unat a + unat b else unat a + unat b - 65535)"
proof -
  have ab: "unat a < 65536" "unat b < 65536" using unsigned_less [of a] unsigned_less [of b] by simp_all
  show ?thesis
  proof (cases "unat a + unat b < 65536")
    case True
    then have "unat (a + b) = unat a + unat b" by (subst unat_word_ariths) simp
    then show ?thesis using True by (simp add: adc16_def)
  next
    case False
    then have "(unat a + unat b) mod 65536 = unat a + unat b - 65536" using ab by (simp add: mod_if)
    then have v: "unat (a + b) = unat a + unat b - 65536" by (subst unat_word_ariths) simp
    then have "unat (a + b + 1) = unat (a + b) + 1"
      using ab by (subst unat_word_ariths(1)) simp
    then show ?thesis using False v by (simp add: adc16_def Let_def)
  qed
qed

lemma unat_adc16: "unat (adc16 (ucast (drop_bit 16 c)) (ucast c)) = fold16 (unat c)" for c :: u32
proof -
  have c: "unat c < 4294967296" using unsigned_less [of c] by simp
  have h: "unat (ucast (drop_bit 16 c) :: u16) = unat c div 65536"
    using c by (simp add: unsigned_ucast_eq take_bit_eq_mod unat_drop_bit_div)
  have l: "unat (ucast c :: u16) = unat c mod 65536" by (simp add: unsigned_ucast_eq take_bit_eq_mod)
  have "unat c div 65536 < 65536" "unat c mod 65536 < 65536" using c by auto
  from fold16_step [OF this] show ?thesis by (simp add: adc16_nat h l)
qed

lemma mem_read_Suc: "mem_read m a (Suc n) = m a # mem_read m (a + 1) n"
  using mem_read_append [of m a 1 n] by (simp add: mem_read_def)

lemma rfc1071_loop_sum:
  "unat c + ck_sum (mem_read m a (2 * k)) < 2 ^ 32 \<Longrightarrow>
   unat (rfc1071_loop m a k c) = unat c + ck_sum (mem_read m a (2 * k))"
proof (induction k arbitrary: a c)
  case (Suc k)
  let ?w = "swap16 (get16 m a)"
  have two: "mem_read m a (2 * Suc k) = m a # m (a + 1) # mem_read m (a + 2) (2 * k)"
    by (simp add: mem_read_Suc add.assoc)
  have "get16 m a = of_le_bytes [m a, m (a + 1)]"
    by (simp add: get16_def mem_read_Suc mem_read_def numeral_2_eq_2)
  then have w: "unat ?w = 256 * unat (m a) + unat (m (a + 1))" by (simp only: unat_swap16)
  have "unat (c + ucast ?w) = unat c + unat ?w"
    using Suc.prems two w by (subst unat_word_ariths) (simp add: unsigned_ucast_eq take_bit_eq_mod)
  then show ?case using Suc.IH [of "c + ucast ?w" "a + 2"] Suc.prems two w by simp
qed (simp add: mem_read_def)

lemma ck_sum_le: "ck_sum bs \<le> 65535 * (length bs div 2)"
proof (induction bs rule: ck_sum.induct)
  case (1 a b bs)
  have "unat a < 256" "unat b < 256" using unsigned_less [of a] unsigned_less [of b] by simp_all
  then show ?case using 1 by simp
qed simp_all

lemma rfc1071_block:
  assumes k: "k < 65536" and l: "unat len div 2 = k"
  shows "rfc1071_checksum m a len = ck_field (mem_read m a (2 * k))"
proof -
  let ?bs = "mem_read m a (2 * k)" and ?c = "rfc1071_loop m a k 0"
  have d: "unat (len div 2) = k" using l by (simp add: unat_div)
  have "ck_sum ?bs \<le> 65535 * k" using ck_sum_le [of ?bs] by simp
  then have "unat ?c = ck_sum ?bs" using rfc1071_loop_sum [of 0 m a k] k by simp
  then have "unat (adc16 (ucast (drop_bit 16 ?c)) (ucast ?c)) = fold16 (ck_sum ?bs)"
    by (simp add: unat_adc16)
  from arg_cong [OF this, of "of_nat :: nat \<Rightarrow> u16"]
  have "adc16 (ucast (drop_bit 16 ?c)) (ucast ?c) = of_nat (fold16 (ck_sum ?bs))" by simp
  then show ?thesis by (simp add: rfc1071_checksum_def ck_field_def d)
qed

lemma fold16_le: "fold16 s \<le> 65535"
  by (simp add: fold16_def less_imp_le)

lemma fold16_complement: "fold16 (s + (65535 - fold16 s)) = 65535"
proof -
  have "(s + (65535 - fold16 s)) mod 65535 = 0"
  proof (cases "s mod 65535 = 0")
    case False
    define q r where "q = s div 65535" and "r = s mod 65535"
    then have r: "r = s mod 65535" "r < 65535" "s = 65535 * q + r" by simp_all
    from r(2,3) have "s + (65535 - r) = 65535 * (q + 1)" by simp
    moreover have "fold16 s = r" using False r(1) by (auto simp: fold16_def)
    ultimately show ?thesis by (metis mod_mult_self1_is_0)
  qed (auto simp: fold16_def)
  moreover have "s + (65535 - fold16 s) > 0" by (auto simp: fold16_def)
  ultimately show ?thesis by (simp add: fold16_def)
qed

lemma unat_ck_field: "unat (ck_field bs) = 65535 - fold16 (ck_sum bs)"
proof -
  have "NOT x = - 1 - x" for x :: u16 by (simp add: not_eq_complement)
  moreover have "unat (of_nat (fold16 (ck_sum bs)) :: u16) = fold16 (ck_sum bs)"
    using fold16_le [of "ck_sum bs"] by (simp add: unat_of_nat take_bit_eq_mod)
  moreover have "unat (- 1 - x) = 65535 - unat x" for x :: u16
    using unat_sub [of x "- 1"] by (simp add: unsigned_minus_1_eq_mask mask_eq_exp_minus_1)
  ultimately show ?thesis by (simp only: ck_field_def)
qed

section \<open>Headers as byte strings\<close>

definition be16 :: "u16 \<Rightarrow> bytes" where
  "be16 x = [ucast (drop_bit 8 x), ucast x]"

definition be32 :: "u32 \<Rightarrow> bytes" where
  "be32 x = [ucast (drop_bit 24 x), ucast (drop_bit 16 x), ucast (drop_bit 8 x), ucast x]"

definition ip_bytes :: "ip_addr \<Rightarrow> ip_addr \<Rightarrow> u8 \<Rightarrow> u64 \<Rightarrow> u16 \<Rightarrow> bytes" where
  "ip_bytes src dst proto len chk =
     [0x45, 0] @ be16 (ucast len) @ [0, 1, 0, 0, 0xff, proto] @ be16 chk @ be32 src @ be32 dst"

definition udp_bytes :: "u16 \<Rightarrow> u16 \<Rightarrow> u64 \<Rightarrow> u16 \<Rightarrow> bytes" where
  "udp_bytes sport dport len chk = be16 sport @ be16 dport @ be16 (ucast len) @ be16 chk"

definition psd_bytes :: "ip_addr \<Rightarrow> ip_addr \<Rightarrow> u64 \<Rightarrow> bytes" where
  "psd_bytes src dst len = be32 src @ be32 dst @ [0, IP_PROTO_UDP] @ be16 (ucast len)"

lemmas hdr_bytes = ip_bytes_def udp_bytes_def psd_bytes_def be16_def be32_def

lemma length_hdr_bytes [simp]:
  "length (be16 x) = 2" "length (be32 y) = 4" "length (ip_bytes s d p l c) = 20"
  "length (udp_bytes sp dp l c) = 8" "length (psd_bytes s d l) = 12"
  by (simp_all add: hdr_bytes)

lemma swap16_swap16 [simp]: "swap16 (swap16 x) = x"
  by (rule bit_eqI) (auto simp: swap16_def bit_simps dest: bit_imp_le_length)

lemma bit_swap16: "bit (swap16 x) n = (if n < 8 then bit x (n + 8) else n < 16 \<and> bit x (n - 8))"
  by (auto simp: swap16_def bit_simps add.commute dest: bit_imp_le_length)

lemma le_swap16: "le_bytes 2 (swap16 x) = be16 x"
proof -
  have "ucast (swap16 x) = (ucast (drop_bit 8 x) :: u8)" "ucast (drop_bit 8 (swap16 x)) = (ucast x :: u8)"
    by (rule bit_eqI; auto simp: bit_swap16 bit_simps add.commute)+
  then show ?thesis by (simp add: le_bytes_def be16_def numeral_2_eq_2)
qed

lemma le_swap32: "le_bytes 4 (swap32 x) = be32 x"
proof -
  have "le_bytes 4 (swap32 x) = rev (le_bytes 4 x)" unfolding swap32_def by (rule le_bytes_of_le_bytes) (simp_all add: le_bytes_def)
  then show ?thesis by (simp add: le_bytes_def be32_def numeral_eq_Suc)
qed

section \<open>What the generators write\<close>

named_theorems block_simps \<open>writes and reads at literal offsets of a block\<close>

lemma write_at [block_simps]:
  assumes "length xs < 2 ^ 64"
  shows "length ys \<le> length xs \<Longrightarrow> mem_write (mem_write m a xs) a ys = mem_write m a (patch 0 ys xs)"
    "Suc 0 + length ys \<le> length xs \<Longrightarrow> mem_write (mem_write m a xs) (a + 1) ys = mem_write m a (patch (Suc 0) ys xs)"
    "numeral k + length ys \<le> length xs \<Longrightarrow>
       mem_write (mem_write m a xs) (a + numeral k) ys = mem_write m a (patch (numeral k) ys xs)"
  using write_inside [OF assms, of 0 ys m a] write_inside [OF assms, of "Suc 0" ys m a]
    write_inside [OF assms, of "numeral k" ys m a] by simp_all

lemma upd_write: "m(p := b) = mem_write m p [b]"
  by (rule ext) (auto simp: mem_write_def unat_eq_0)

lemma put_be [block_simps]:
  "put16 m a (swap16 v) = mem_write m a (be16 v)" "put32 m a (swap32 w) = mem_write m a (be32 w)"
  by (simp_all add: put16_def put32_def le_swap16 le_swap32)

lemma read_idx: "j < length xs \<Longrightarrow> length xs < 2 ^ 64 \<Longrightarrow> mem_write m a xs (a + of_nat j) = xs ! j"
  by (simp add: mem_write_def unat_of_nat take_bit_eq_mod)

lemma read_at [block_simps]:
  assumes "length xs < 2 ^ 64"
  shows "0 < length xs \<Longrightarrow> mem_write m a xs a = xs ! 0"
    "Suc 0 < length xs \<Longrightarrow> mem_write m a xs (a + 1) = xs ! 1"
    "numeral k < length xs \<Longrightarrow> mem_write m a xs (a + numeral k) = xs ! numeral k"
  using read_idx [OF _ assms, of 0 m a] read_idx [OF _ assms, of "Suc 0" m a]
    read_idx [OF _ assms, of "numeral k" m a, unfolded of_nat_numeral] by simp_all

lemma block_cases:
  assumes "n < 2 ^ 64"
  obtains m' xs where "m = mem_write m' a xs" "length xs = n"
  using write_back [OF assms, of m a] length_mem_read by metis

lemma patch_simps:
  "length ys = length xs \<Longrightarrow> patch 0 ys xs = ys"
  by (simp add: patch_def)

lemma length_patch: "j + length ys \<le> length xs \<Longrightarrow> length (patch j ys xs) = length xs"
  by (simp add: patch_def)

lemma set_field_bytes:
  "set_field 0 4 5 (set_field 4 4 4 x) = (0x45 :: u8)" "set_field 0 2 0 (set_field 2 6 0 x) = (0 :: u8)"
proof -
  show "set_field 0 4 5 (set_field 4 4 4 x) = (0x45 :: u8)"
  proof (rule bit_word_eqI)
    fix n assume "n < LENGTH(8)"
    then have "n \<in> {0, 1, 2, 3, 4, 5, 6, 7}" by auto
    then show "bit (set_field 0 4 5 (set_field 4 4 4 x)) n = bit (0x45 :: u8) n"
      by (elim insertE emptyE) (simp_all add: bit_set_field bit_numeral_rec)
  qed
  show "set_field 0 2 0 (set_field 2 6 0 x) = (0 :: u8)"
    by (rule bit_word_eqI) (auto simp: bit_set_field)
qed

lemma eth_pkt_block:
  assumes "length src = 6" "length dst = 6"
  shows "eth_ip_pkt m hdr src dst = (14, mem_write m hdr (dst @ src @ be16 ETHER_TYPE_IP))"
    "eth_arp_pkt m hdr src dst = (14, mem_write m hdr (dst @ src @ be16 ETHER_TYPE_ARP))"
proof -
  have mac: "mac_copy src = src" "mac_copy dst = dst" using assms by (simp_all add: mac_copy_def)
  obtain m' xs where m: "m = mem_write m' hdr xs" "length xs = 14" by (rule block_cases [of 14 m hdr]) auto
  show "eth_ip_pkt m hdr src dst = (14, mem_write m hdr (dst @ src @ be16 ETHER_TYPE_IP))"
    "eth_arp_pkt m hdr src dst = (14, mem_write m hdr (dst @ src @ be16 ETHER_TYPE_ARP))"
    using assms m(2) by (simp_all add: m(1) mac eth_ip_pkt_def eth_arp_pkt_def uu_eth_gen_def eth_hdr_sz_def block_simps patch_def)
qed

lemma put_zero: "put16 m a 0 = mem_write m a [0, 0]"
  by (simp add: put16_def le_bytes_def numeral_2_eq_2)

lemma ip_checksum_block:
  assumes "length bs = 20"
  shows "ip_checksum (mem_write m hdr bs) hdr =
    mem_write m hdr (patch 10 (be16 (ck_field (patch 10 [0, 0] bs))) bs)"
proof -
  let ?z = "patch 10 [0, 0] bs"
  have z: "length ?z = 20" using assms by (simp add: patch_def)
  have "put16 (mem_write m hdr bs) (hdr + 10) 0 = mem_write m hdr ?z"
    using assms by (simp add: put_zero block_simps)
  moreover have "rfc1071_checksum (mem_write m hdr ?z) hdr ip_hdr_sz = ck_field ?z"
    using rfc1071_block [of 10 20 "mem_write m hdr ?z" hdr] read_inside_0 [of ?z 20 m hdr] z
    by (simp add: ip_hdr_sz_def)
  moreover have "patch 10 (be16 c) ?z = patch 10 (be16 c) bs" for c
    using assms by (simp add: patch_def)
  ultimately show ?thesis using z by (simp add: ip_checksum_def block_simps)
qed

lemma uu_ip_gen_block:
  "uu_ip_gen m hdr src dst proto dlen = (20 + dlen, mem_write m hdr
     (ip_bytes src dst proto (20 + dlen) (ck_field (ip_bytes src dst proto (20 + dlen) 0))))"
proof -
  obtain m' xs where m: "m = mem_write m' hdr xs" "length xs = 20" by (rule block_cases [of 20 m hdr]) auto
  obtain x0 x1 x2 x3 x4 x5 x6 x7 x8 x9 y0 y1 y2 y3 y4 y5 y6 y7 y8 y9 where
    xs: "xs = [x0, x1, x2, x3, x4, x5, x6, x7, x8, x9, y0, y1, y2, y3, y4, y5, y6, y7, y8, y9]"
    using m(2) by (auto simp: length_Suc_conv numeral_eq_Suc)
  show ?thesis
    unfolding uu_ip_gen_def upd_write put_zero m(1) xs
    by (simp add: block_simps patch_def set_field_bytes ip_checksum_block ip_hdr_sz_def hdr_bytes Let_def)
qed

definition arp_bytes :: "u16 \<Rightarrow> mac_addr \<Rightarrow> mac_addr \<Rightarrow> ip_addr \<Rightarrow> ip_addr \<Rightarrow> bytes" where
  "arp_bytes opc hwsrc hwdst src dst = [0, 1, 8, 0, 6, 4] @ be16 opc @ hwsrc @ be32 src @ hwdst @ be32 dst"

lemma be16_consts: "be16 ARP_TYPE_ETH = [0, 1]" "be16 ETHER_TYPE_IP = [8, 0]" "be16 ETHER_TYPE_ARP = [8, 6]"
  by (simp_all add: be16_def const_defs)

lemma uu_arp_op_block:
  assumes "length hwsrc = 6" "length hwdst = 6"
  shows "uu_arp_op m hdr opc hwsrc hwdst src dst = (28, mem_write m hdr (arp_bytes opc hwsrc hwdst src dst))"
proof -
  obtain m' xs where m: "m = mem_write m' hdr xs" "length xs = 28" by (rule block_cases [of 28 m hdr]) auto
  have mac: "mac_copy hwsrc = hwsrc" "mac_copy hwdst = hwdst" using assms by (simp_all add: mac_copy_def)
  show ?thesis
    unfolding uu_arp_op_def upd_write m(1) mac arp_hdr_sz_def
    using assms m(2) by (simp add: block_simps patch_def be16_consts Let_def arp_bytes_def)
qed

lemma udp_pkt_block: "udp_pkt m hdr sp dp dlen = (8 + dlen, mem_write m hdr (udp_bytes sp dp (8 + dlen) 0))"
proof -
  obtain m' xs where m: "m = mem_write m' hdr xs" "length xs = 8" by (rule block_cases [of 8 m hdr]) auto
  have "be16 0 = [0, 0]" by (simp add: be16_def)
  then show ?thesis
    unfolding udp_pkt_def m(1) udp_hdr_sz_def
    using m(2) by (simp add: block_simps patch_def put_zero Let_def udp_bytes_def)
qed

text \<open>The checksum field of a datagram; zero is sent as all ones.\<close>

definition udp_ck :: "bytes \<Rightarrow> u16" where
  "udp_ck bs = (if ck_field bs = 0 then - 1 else ck_field bs)"

definition padded :: "bytes \<Rightarrow> bytes" where
  "padded bs = (if odd (length bs) then bs @ [0] else bs)"

definition udp_psd :: "ip_addr \<Rightarrow> ip_addr \<Rightarrow> u16 \<Rightarrow> u16 \<Rightarrow> u16 \<Rightarrow> bytes \<Rightarrow> bytes" where
  "udp_psd src dst sp dp chk payload =
     padded (psd_bytes src dst (8 + of_nat (length payload)) @ udp_bytes sp dp (8 + of_nat (length payload)) chk @ payload)"

lemma get_put16: "get16 (put16 m a v) a = v"
proof -
  have "mem_read (mem_write m a (le_bytes 2 v)) a 2 = le_bytes 2 v"
    using read_inside_0 [of "le_bytes 2 v" 2 m a] by (simp add: le_bytes_def)
  moreover have "of_le_bytes (le_bytes 2 v) = v" using of_le_bytes_le_bytes [of 2 v] by (simp add: take_bit_word_eq_self)
  ultimately show ?thesis by (simp add: get16_def put16_def)
qed

lemma swap16_0: "swap16 c = 0 \<longleftrightarrow> c = 0"
proof -
  have "swap16 0 = 0" by (simp add: swap16_def)
  then show ?thesis by (metis swap16_swap16)
qed

lemma udp_ck_block:
  assumes l: "length (xs @ udp_bytes sp dp len 0 @ ys) < 2 ^ 64" and x: "length xs = 20"
  shows "(let m' = put16 (mem_write m a (xs @ udp_bytes sp dp len 0 @ ys)) (a + 26) (swap16 (ck_field bs))
     in if get16 m' (a + 26) = 0 then put16 m' (a + 26) (NOT (get16 m' (a + 26))) else m')
    = mem_write m a (xs @ udp_bytes sp dp len (udp_ck bs) @ ys)"
proof -
  have p: "put16 (mem_write m a (xs @ udp_bytes sp dp len c @ ys)) (a + 26) (swap16 d) = mem_write m a (xs @ udp_bytes sp dp len d @ ys)" for c d
    using l x by (simp add: block_simps patch_def udp_bytes_def)
  have "get16 (mem_write m a (xs @ udp_bytes sp dp len d @ ys)) (a + 26) = swap16 d" for d
    using get_put16 p by metis
  moreover have "NOT (swap16 0) = swap16 (- 1)" by (rule bit_eqI) (auto simp: bit_swap16 bit_simps)
  ultimately show ?thesis unfolding Let_def p by (simp add: swap16_0 udp_ck_def p)
qed

lemma ip_udp_pkt_block:
  fixes sp dp :: u16 and src dst :: ip_addr
  assumes p: "length pre = 20" and n: "length payload < 65000"
  defines "dlen \<equiv> 8 + of_nat (length payload) :: u64"
  defines "chk \<equiv> udp_ck (udp_psd src dst sp dp 0 payload)"
  shows "ip_udp_pkt (mem_write m hdr (pre @ udp_bytes sp dp dlen 0 @ payload @ [q])) hdr src dst dlen =
    (20 + dlen, mem_write m hdr (ip_bytes src dst IP_PROTO_UDP (20 + dlen) (ck_field (ip_bytes src dst IP_PROTO_UDP (20 + dlen) 0))
       @ udp_bytes sp dp dlen chk @ payload @ [if odd (length payload) then 0 else q]))"
proof -
  let ?n = "length payload" and ?U = "udp_bytes sp dp dlen 0"
  let ?m = "mem_write m hdr (pre @ ?U @ payload @ [q])"
  define x where "x = take 8 pre"
  define M where "M q = mem_write m hdr (x @ psd_bytes src dst dlen @ ?U @ payload @ [q])" for q
  have x: "length x = 8" using p by (simp add: x_def)
  have psd: "put16 (mem_write (mem_write (put32 (put32 ?m (hdr + 8) (swap32 src)) (hdr + 12) (swap32 dst))
       (hdr + 16) [0]) (hdr + 17) [IP_PROTO_UDP]) (hdr + 18) (swap16 (ucast dlen)) = M q"
    using p n by (simp add: block_simps patch_def M_def x_def psd_bytes_def)
  have e: "12 + dlen = of_nat (20 + ?n)" by (simp add: dlen_def)
  then have len: "unat (12 + dlen) = 20 + ?n" using n by (simp only: unat_of_nat take_bit_eq_mod) simp
  then have "unat ((12 + dlen) mod 2) = ?n mod 2" by (simp add: unat_mod) presburger
  then have odd: "(12 + dlen) mod 2 \<noteq> 0 \<longleftrightarrow> odd ?n" by (metis odd_iff_mod_2_eq_one even_iff_mod_2_eq_zero unat_eq_0 zero_neq_one)
  have pad: "mem_write (M q) (hdr + 8 + (12 + dlen)) [0] = M 0"
    using write_inside [of "x @ psd_bytes src dst dlen @ ?U @ payload @ [q]" "28 + ?n" "[0]" m hdr] n x
    by (simp add: M_def patch_def dlen_def algebra_simps)
  have ck: "rfc1071_checksum (M (if odd ?n then 0 else q)) (hdr + 8) (if odd ?n then 12 + dlen + 1 else 12 + dlen)
      = ck_field (udp_psd src dst sp dp 0 payload)"
  proof -
    define q' where "q' = (if odd ?n then 0 else q)"
    define k where "k = (21 + ?n) div 2"
    have k: "k < 65536" "2 * k = (if odd ?n then 21 + ?n else 20 + ?n)" using n by (auto simp: k_def)
    have "12 + dlen + 1 = of_nat (21 + ?n)" by (simp add: dlen_def)
    then have "unat (12 + dlen + 1) = 21 + ?n" using n by (simp only: unat_of_nat take_bit_eq_mod) simp
    then have "unat (if odd ?n then 12 + dlen + 1 else 12 + dlen) div 2 = k" using len by (auto simp: k_def)
    from rfc1071_block [OF k(1) this] have "rfc1071_checksum (M q') (hdr + 8) (if odd ?n then 12 + dlen + 1 else 12 + dlen)
        = ck_field (mem_read (M q') (hdr + 8) (2 * k))" .
    also have "mem_read (M q') (hdr + 8) (2 * k) = udp_psd src dst sp dp 0 payload"
      using read_inside [of "x @ psd_bytes src dst dlen @ ?U @ payload @ [q']" 8 "2 * k" m hdr] n x k(2)
      by (simp add: M_def udp_psd_def padded_def q'_def flip: dlen_def)
    finally show ?thesis by (simp only: q'_def)
  qed
  have addr: "hdr + 20 - 12 = hdr + 8" "hdr + 8 + 4 = hdr + 12" "hdr + 8 + 8 = hdr + 16" "hdr + 8 + 9 = hdr + 17"
    "hdr + 8 + 10 = hdr + 18" "hdr + 20 + 6 = hdr + 26"
    by (simp_all add: add.assoc)
  have fin: "(let m' = put16 (M q') (hdr + 26) (swap16 (ck_field bs))
     in if get16 m' (hdr + 26) = 0 then put16 m' (hdr + 26) (NOT (get16 m' (hdr + 26))) else m')
    = mem_write m hdr ((x @ psd_bytes src dst dlen) @ udp_bytes sp dp dlen (udp_ck bs) @ payload @ [q'])" for q' bs
    unfolding M_def using udp_ck_block [of "x @ psd_bytes src dst dlen" sp dp dlen "payload @ [q']" m hdr bs] x n by simp
  have gen: "uu_ip_gen (mem_write m hdr ((x @ psd_bytes src dst dlen) @ ys)) hdr src dst IP_PROTO_UDP dlen
      = (20 + dlen, mem_write m hdr (ip_bytes src dst IP_PROTO_UDP (20 + dlen) (ck_field (ip_bytes src dst IP_PROTO_UDP (20 + dlen) 0)) @ ys))"
    if "length ys < 2 ^ 32" for ys
    using that x by (simp add: uu_ip_gen_block block_simps patch_def)
  have sz: "length (udp_bytes sp dp dlen c @ payload @ [r]) < 2 ^ 32" for c r using n by simp
  note eqs = ip_udp_pkt_def upd_write ip_hdr_sz_def udp_phdr_sz_def Let_def addr psd odd pad chk_def
  show ?thesis
  proof (cases "odd ?n")
    case True
    have "rfc1071_checksum (M 0) (hdr + 8) (12 + dlen + 1) = ck_field (udp_psd src dst sp dp 0 payload)"
      using ck True by (simp only: if_True simp_thms)
    then show ?thesis unfolding eqs
      by (simp only: True if_True simp_thms prod.case fin [unfolded Let_def] gen [OF sz])
  next
    case False
    have "rfc1071_checksum (M q) (hdr + 8) (12 + dlen) = ck_field (udp_psd src dst sp dp 0 payload)"
      using ck False by (simp only: if_False simp_thms)
    then show ?thesis unfolding eqs
      by (simp only: False if_False simp_thms prod.case fin [unfolded Let_def] gen [OF sz])
  qed
qed
lemma write_append:
  assumes "length (xs @ ys) < 2 ^ 64"
  shows "mem_write m a (xs @ ys) = mem_write (mem_write m a xs) (a + of_nat (length xs)) ys"
proof
  fix z :: u64
  let ?d = "unat (z - a)"
  show "mem_write m a (xs @ ys) z = mem_write (mem_write m a xs) (a + of_nat (length xs)) ys z"
  proof (cases "?d < length (xs @ ys) \<and> length xs \<le> ?d")
    case True
    then have "unat (z - (a + of_nat (length xs))) = ?d - length xs" using unat_offset_between [OF assms] by simp
    then show ?thesis using True by (auto simp: mem_write_def nth_append)
  next
    case False
    have "?d = length xs + unat (z - (a + of_nat (length xs)))" if "unat (z - (a + of_nat (length xs))) < length ys"
      using unat_offset_less [OF assms, of "length xs" z a "length ys"] that by simp
    then show ?thesis using False by (auto simp: mem_write_def nth_append)
  qed
qed

lemma get16_at: "Suc (Suc k) \<le> length xs \<Longrightarrow> length xs < 2 ^ 64 \<Longrightarrow>
    get16 (mem_write m a xs) (a + of_nat k) = of_le_bytes (take 2 (drop k xs))"
  by (simp add: get16_def read_inside)

lemma get32_at: "k + 4 \<le> length xs \<Longrightarrow> length xs < 2 ^ 64 \<Longrightarrow>
    get32 (mem_write m a xs) (a + of_nat k) = of_le_bytes (take 4 (drop k xs))"
  by (simp add: get32_def read_inside)

lemmas get_at [block_simps] =
  get16_at [where k = 0, simplified] get16_at [where k = "numeral k" for k, unfolded of_nat_numeral]
  get32_at [where k = "numeral k" for k, unfolded of_nat_numeral]

lemma swap_of_be [block_simps]: "swap16 (of_le_bytes (be16 x)) = x" "swap32 (of_le_bytes (be32 y)) = y"
proof -
  have "of_le_bytes (be16 x) = swap16 x"
    using of_le_bytes_le_bytes [of 2 "swap16 x"] by (simp add: le_swap16 take_bit_word_eq_self)
  then show "swap16 (of_le_bytes (be16 x)) = x" by simp
  have "swap32 (of_le_bytes (be32 y)) = of_le_bytes (rev (be32 y))"
    by (simp add: swap32_def le_bytes_of_le_bytes)
  also have "rev (be32 y) = le_bytes 4 y" by (simp add: be32_def le_bytes_def numeral_eq_Suc)
  also have "of_le_bytes (le_bytes 4 y) = y"
    using of_le_bytes_le_bytes [of 4 y] by (simp add: take_bit_word_eq_self)
  finally show "swap32 (of_le_bytes (be32 y)) = y" .
qed

lemma le_fields [block_simps]:
  "of_le_bytes (le_bytes 2 v) = v" "of_le_bytes (le_bytes 4 w) = w"
  "length (le_bytes 2 v) = 2" "length (le_bytes 4 w) = 4" for v :: u16 and w :: u32
  using of_le_bytes_le_bytes [of 2 v] of_le_bytes_le_bytes [of 4 w]
  by (simp_all add: take_bit_word_eq_self le_bytes_def)

section \<open>Checksums verify\<close>

lemma ck_sum_append: "even (length xs) \<Longrightarrow> ck_sum (xs @ ys) = ck_sum xs + ck_sum ys"
  by (induction xs rule: ck_sum.induct) auto

lemma ck_sum_be16: "ck_sum (be16 c @ ys) = unat c + ck_sum ys"
proof -
  have "unat c div 256 < 256" using unsigned_less [of c] by (intro less_mult_imp_div_less) simp
  then have "unat c = 256 * unat (ucast (drop_bit 8 c) :: u8) + unat (ucast c :: u8)"
    by (simp add: unsigned_ucast_eq take_bit_eq_mod unat_drop_bit_div)
  then show ?thesis by (simp add: be16_def)
qed

lemma ck_insert:
  assumes "even (length pre)"
  shows "ck_field (pre @ be16 (ck_field (pre @ be16 0 @ post)) @ post) = 0"
    "ck_field (pre @ be16 (udp_ck (pre @ be16 0 @ post)) @ post) = 0"
proof -
  let ?S = "ck_sum pre + ck_sum post"
  have s: "ck_sum (pre @ be16 c @ post) = ?S + unat c" for c
    using assms by (simp add: ck_sum_append ck_sum_be16)
  have z: "fold16 (ck_sum (pre @ be16 c @ post)) = 65535 \<Longrightarrow> ck_field (pre @ be16 c @ post) = 0" for c
    by (simp add: unat_ck_field flip: unat_eq_0)
  have f: "ck_sum (pre @ be16 (ck_field (pre @ be16 0 @ post)) @ post) = ?S + (65535 - fold16 ?S)"
    by (simp add: s unat_ck_field)
  then show "ck_field (pre @ be16 (ck_field (pre @ be16 0 @ post)) @ post) = 0"
    by (intro z) (simp add: fold16_complement)
  show "ck_field (pre @ be16 (udp_ck (pre @ be16 0 @ post)) @ post) = 0"
  proof (cases "ck_field (pre @ be16 0 @ post) = 0")
    case True
    then have "unat (ck_field (pre @ be16 0 @ post)) = 0" by simp
    then have "fold16 ?S = 65535" using fold16_le [of ?S] by (simp add: unat_ck_field s)
    then have "fold16 (?S + 65535) = 65535" by (auto simp: fold16_def split: if_splits)
    moreover have "unat (- 1 :: u16) = 65535" by (simp add: unsigned_minus_1_eq_mask mask_eq_exp_minus_1)
    ultimately show ?thesis using True by (intro z) (simp add: udp_ck_def s)
  next
    case False
    then show ?thesis using f by (intro z) (simp add: udp_ck_def fold16_complement)
  qed
qed

end
