(* ===== verification/Net.thy ===== *)
theory Net
  imports Net_Pkt
begin

text \<open>
  The network interface of the remote client: the ring driver of the e1000 card
  (\<^verbatim>\<open>common/drivers/e1000.c\<close>), the ARP cache (\<^verbatim>\<open>arp.c\<close>), the dissection of received frames and the
  read and write operations of \<^verbatim>\<open>net.c\<close>. The record \<open>net_info\<close> holds \<^verbatim>\<open>net_info_t\<close>, the registers of the
  card that the driver writes, both descriptor rings and the memory they point to.
  The card itself is the environment: it fills receive descriptors between two calls.
\<close>

section \<open>State\<close>

record arp_cache_t =
  ac_mac :: mac_addr
  ac_ip :: ip_addr

record e1k_tdesc_t =
  td_addr :: u64
  td_len :: u16
  td_cmd :: u8

record e1k_rdesc_t =
  rd_addr :: u64
  rd_len :: u16
  rd_sts :: u8

text \<open>The registers of one ring and the cached tail; \<open>q_base\<close> is the array of descriptors,
  \<open>q_dma\<close> the area of its packet buffers.\<close>

record e1k_ring =
  q_bal :: u32
  q_bah :: u32
  q_dl :: u32
  q_dh :: u32
  q_dt :: u32
  q_tail :: u32
  q_base :: offset_t
  q_dma :: offset_t

record net_info =
  nmem :: memory
  arp_tbl :: "arp_cache_t list"
  arp_tail :: nat
  net_mac :: mac_addr
  net_ip :: ip_addr
  net_mk :: ip_addr
  net_gw :: ip_addr
  net_port :: u16
  peer_ip :: ip_addr
  peer_port :: u16
  rdesc :: "e1k_rdesc_t list"
  tdesc :: "e1k_tdesc_t list"
  rx_ring :: e1k_ring
  tx_ring :: e1k_ring
  reg_rctl :: u32
  reg_tctl :: u32
  reg_tipg :: u32
  reg_ims :: u32
  reg_imc :: u32

section \<open>The rings of the card (e1000.c)\<close>

definition RX_DESC_NR :: nat where
  [const_defs]: "RX_DESC_NR = 16"

definition RX_BUFF_SZ :: u64 where
  [const_defs]: "RX_BUFF_SZ = 2048"

definition TX_DESC_NR :: nat where
  [const_defs]: "TX_DESC_NR = 16"

definition TX_BUFF_SZ :: u64 where
  [const_defs]: "TX_BUFF_SZ = 2048"

definition desc_sz :: u64 where
  [const_defs]: "desc_sz = 16"

definition e1k_mem_size :: u64 where
  "e1k_mem_size = of_nat RX_DESC_NR * desc_sz + of_nat RX_DESC_NR * RX_BUFF_SZ
     + of_nat TX_DESC_NR * desc_sz + of_nat TX_DESC_NR * TX_BUFF_SZ"

definition e1k_mem_init :: "offset_t \<Rightarrow> net_info \<Rightarrow> offset_t \<times> net_info" where
  "e1k_mem_init area n =
     (let rd = area; loc = area + of_nat RX_DESC_NR * desc_sz;
          rb = loc; loc = loc + of_nat RX_DESC_NR * RX_BUFF_SZ;
          td = loc; loc = loc + of_nat TX_DESC_NR * desc_sz;
          tb = loc; loc = loc + of_nat TX_DESC_NR * TX_BUFF_SZ
      in (loc, n\<lparr>rx_ring := (rx_ring n)\<lparr>q_base := rd, q_dma := rb\<rparr>,
                tx_ring := (tx_ring n)\<lparr>q_base := td, q_dma := tb\<rparr>\<rparr>))"

text \<open>The local \<^verbatim>\<open>ims\<close> is not initialised before its bits are set; \<open>ims0\<close> is what it holds. The read
  that clears the interrupt causes has no effect on the state kept here.\<close>

definition e1k_rx_init :: "u32 \<Rightarrow> net_info \<Rightarrow> net_info" where
  "e1k_rx_init ims0 n =
     (let q = rx_ring n;
          ims = foldl (\<lambda>r b. set_field b 1 1 r) ims0 [2, 6, 3, 4, 7];
          ds = map (\<lambda>i. (rdesc n ! i)\<lparr>rd_addr := q_dma q + of_nat i * RX_BUFF_SZ, rd_sts := 0\<rparr>) [0..<RX_DESC_NR];
          rctl = set_field 2 1 1 0;
          rctl = set_field 3 1 1 rctl;
          rctl = set_field 4 1 1 rctl;
          rctl = set_field 8 2 2 rctl;
          rctl = set_field 26 1 1 rctl;
          rctl = set_field 5 1 1 rctl;
          rctl = set_field 15 1 1 rctl;
          rctl = set_field 25 1 0 (set_field 16 2 0 rctl)
      in n\<lparr>reg_imc := - 1, reg_ims := ims, rdesc := ds,
           rx_ring := q\<lparr>q_bah := ucast (drop_bit 32 (q_base q)), q_bal := ucast (q_base q),
                        q_dl := of_nat RX_DESC_NR * ucast desc_sz, q_dh := 0,
                        q_tail := of_nat RX_DESC_NR - 1, q_dt := of_nat RX_DESC_NR - 1\<rparr>,
           reg_rctl := rctl\<rparr>)"

definition e1k_tx_init :: "net_info \<Rightarrow> net_info" where
  "e1k_tx_init n =
     (let q = tx_ring n;
          ds = map (\<lambda>i. (tdesc n ! i)\<lparr>td_addr := q_dma q + of_nat i * TX_BUFF_SZ\<rparr>) [0..<TX_DESC_NR];
          tctl = set_field 3 1 1 0;
          tctl = set_field 12 10 0x40 tctl;
          tctl = set_field 1 1 1 tctl;
          ipg = set_field 0 10 10 0;
          ipg = set_field 10 10 8 ipg;
          ipg = set_field 20 10 6 ipg
      in n\<lparr>tdesc := ds,
           tx_ring := q\<lparr>q_bah := ucast (drop_bit 32 (q_base q)), q_bal := ucast (q_base q),
                        q_dl := of_nat TX_DESC_NR * ucast desc_sz, q_dh := 0, q_tail := 0, q_dt := 0\<rparr>,
           reg_tctl := tctl, reg_tipg := ipg\<rparr>)"

definition e1k_rx_on :: "net_info \<Rightarrow> net_info" where
  "e1k_rx_on n = n\<lparr>reg_rctl := set_field 1 1 1 (reg_rctl n)\<rparr>"

definition e1k_tx_on :: "net_info \<Rightarrow> net_info" where
  "e1k_tx_on n = n\<lparr>reg_tctl := set_field 1 1 1 (reg_tctl n)\<rparr>"

definition e1k_tx_get_pktbuf :: "net_info \<Rightarrow> offset_t" where
  "e1k_tx_get_pktbuf n = td_addr (tdesc n ! unat (q_tail (tx_ring n)))"

definition e1k_send_pkt :: "offset_t \<Rightarrow> u64 \<Rightarrow> net_info \<Rightarrow> net_info" where
  "e1k_send_pkt pkt len n =
     (let t = q_tail (tx_ring n);
          d = (tdesc n ! unat t)\<lparr>td_addr := pkt, td_len := ucast len, td_cmd := set_field 3 1 1 (set_field 0 1 1 0)\<rparr>;
          t' = (t + 1) mod of_nat TX_DESC_NR
      in n\<lparr>tdesc := (tdesc n)[unat t := d], tx_ring := (tx_ring n)\<lparr>q_tail := t', q_dt := t'\<rparr>\<rparr>)"

text \<open>The length returned is that of the descriptor, also when fewer bytes were copied.\<close>

definition e1k_recv_pkt :: "offset_t \<Rightarrow> u64 \<Rightarrow> net_info \<Rightarrow> u64 \<times> net_info" where
  "e1k_recv_pkt data len n =
     (let t = (q_tail (rx_ring n) + 1) mod of_nat RX_DESC_NR;
          n = n\<lparr>rx_ring := (rx_ring n)\<lparr>q_tail := t\<rparr>\<rparr>;
          d = rdesc n ! unat t
      in if \<not> bit (rd_sts d) 0 then (0, n)
         else (ucast (rd_len d),
           n\<lparr>nmem := mem_write (nmem n) data (mem_read (nmem n) (rd_addr d) (min (unat (rd_len d)) (unat len))),
             rdesc := (rdesc n)[unat t := d\<lparr>rd_sts := 0\<rparr>],
             rx_ring := (rx_ring n)\<lparr>q_dt := t\<rparr>\<rparr>))"

section \<open>ARP cache (arp.c)\<close>

definition ARP_CACHE_SZ :: nat where
  [const_defs]: "ARP_CACHE_SZ = 256"

definition arp_init :: "net_info \<Rightarrow> net_info" where
  "arp_init n = n\<lparr>arp_tbl := replicate ARP_CACHE_SZ \<lparr>ac_mac = replicate 6 0, ac_ip = 0\<rparr>, arp_tail := 0\<rparr>"

definition arp_end :: "net_info \<Rightarrow> nat" where
  "arp_end n = (if ac_ip (arp_tbl n ! arp_tail n) = 0 then arp_tail n else ARP_CACHE_SZ)"

text \<open>The loop of both functions: the first entry below \<^verbatim>\<open>end\<close> that holds the address.\<close>

fun arp_find :: "arp_cache_t list \<Rightarrow> ip_addr \<Rightarrow> nat list \<Rightarrow> nat option" where
  "arp_find c ip [] = None"
| "arp_find c ip (i # is) = (if ac_ip (c ! i) = ip then Some i else arp_find c ip is)"

definition arp_cache_update :: "ip_addr \<Rightarrow> mac_addr \<Rightarrow> net_info \<Rightarrow> net_info" where
  "arp_cache_update ip mac n =
     (case arp_find (arp_tbl n) ip [0..<arp_end n] of
        Some i \<Rightarrow>
          if \<not> mac_cmp (ac_mac (arp_tbl n ! i)) mac
          then n\<lparr>arp_tbl := (arp_tbl n)[i := (arp_tbl n ! i)\<lparr>ac_mac := mac_copy mac\<rparr>]\<rparr>
          else n
      | None \<Rightarrow>
          n\<lparr>arp_tbl := (arp_tbl n)[arp_tail n := \<lparr>ac_mac = mac_copy mac, ac_ip = ip\<rparr>],
            arp_tail := (arp_tail n + 1) mod ARP_CACHE_SZ\<rparr>)"

definition arp_cache_lookup :: "ip_addr \<Rightarrow> net_info \<Rightarrow> mac_addr option" where
  "arp_cache_lookup ip n =
     (case arp_find (arp_tbl n) ip [0..<arp_end n] of
        Some i \<Rightarrow> Some (mac_copy (ac_mac (arp_tbl n ! i)))
      | None \<Rightarrow> None)"

section \<open>Packet generation (net.c)\<close>

type_synonym eth_gen = "memory \<Rightarrow> offset_t \<Rightarrow> mac_addr \<Rightarrow> mac_addr \<Rightarrow> u64 \<times> memory"
type_synonym arp_gen = "memory \<Rightarrow> offset_t \<Rightarrow> mac_addr \<Rightarrow> mac_addr \<Rightarrow> ip_addr \<Rightarrow> ip_addr \<Rightarrow> u64 \<times> memory"
type_synonym ip_gen = "memory \<Rightarrow> offset_t \<Rightarrow> ip_addr \<Rightarrow> ip_addr \<Rightarrow> u64 \<Rightarrow> u64 \<times> memory"
type_synonym icmp_gen = "memory \<Rightarrow> offset_t \<Rightarrow> u16 \<Rightarrow> u16 \<Rightarrow> bytes \<Rightarrow> u64 \<Rightarrow> u64 \<times> memory"

definition u_net_gen_eth_pkt :: "eth_gen \<Rightarrow> mac_addr \<Rightarrow> offset_t \<Rightarrow> net_info \<Rightarrow> u64 \<times> net_info" where
  "u_net_gen_eth_pkt builder mac pkt n =
     (let (len, m) = builder (nmem n) pkt (net_mac n) mac in (len, n\<lparr>nmem := m\<rparr>))"

definition net_gen_eth_ip_pkt :: "mac_addr \<Rightarrow> offset_t \<Rightarrow> net_info \<Rightarrow> u64 \<times> net_info" where
  "net_gen_eth_ip_pkt = u_net_gen_eth_pkt eth_ip_pkt"

definition net_gen_eth_arp_pkt :: "mac_addr \<Rightarrow> offset_t \<Rightarrow> net_info \<Rightarrow> u64 \<times> net_info" where
  "net_gen_eth_arp_pkt = u_net_gen_eth_pkt eth_arp_pkt"

definition u_net_gen_arp_pkt ::
    "arp_gen \<Rightarrow> mac_addr \<Rightarrow> offset_t \<Rightarrow> mac_addr \<Rightarrow> mac_addr \<Rightarrow> ip_addr \<Rightarrow> ip_addr \<Rightarrow> net_info \<Rightarrow> u64 \<times> net_info" where
  "u_net_gen_arp_pkt builder mac pkt hsrc hdst s d n =
     (let arp = pkt + eth_hdr_sz;
          (l1, n) = net_gen_eth_arp_pkt mac pkt n;
          (l2, m) = builder (nmem n) arp hsrc hdst s d
      in (l1 + l2, n\<lparr>nmem := m\<rparr>))"

definition net_gen_arp_who_has_pkt :: "ip_addr \<Rightarrow> offset_t \<Rightarrow> net_info \<Rightarrow> u64 \<times> net_info" where
  "net_gen_arp_who_has_pkt ip pkt n =
     u_net_gen_arp_pkt arp_who_has_pkt (mac_rst 0xff) pkt (net_mac n) (mac_rst 0) (net_ip n) ip n"

definition net_gen_arp_is_at_pkt :: "mac_addr \<Rightarrow> ip_addr \<Rightarrow> offset_t \<Rightarrow> net_info \<Rightarrow> u64 \<times> net_info" where
  "net_gen_arp_is_at_pkt mac ip pkt n =
     u_net_gen_arp_pkt arp_is_at_pkt mac pkt (net_mac n) mac (net_ip n) ip n"

definition u_net_gen_ip_pkt ::
    "ip_gen \<Rightarrow> ip_addr \<Rightarrow> ip_addr \<Rightarrow> offset_t \<Rightarrow> u64 \<Rightarrow> net_info \<Rightarrow> u64 \<times> net_info" where
  "u_net_gen_ip_pkt builder src dst pkt dlen n =
     (let ip = pkt + eth_hdr_sz
      in case arp_cache_lookup dst n of
           None \<Rightarrow> (0, n)
         | Some mac \<Rightarrow>
             let (l1, n) = net_gen_eth_ip_pkt mac pkt n;
                 (l2, m) = builder (nmem n) ip src dst dlen
             in (l1 + l2, n\<lparr>nmem := m\<rparr>))"

definition u_net_gen_icmp_pkt ::
    "icmp_gen \<Rightarrow> ip_addr \<Rightarrow> offset_t \<Rightarrow> u16 \<Rightarrow> u16 \<Rightarrow> bytes \<Rightarrow> u64 \<Rightarrow> net_info \<Rightarrow> u64 \<times> net_info" where
  "u_net_gen_icmp_pkt builder ip pkt ident sq data len n =
     (let icmp = pkt + eth_hdr_sz + ip_hdr_sz;
          (l, m) = builder (nmem n) icmp ident sq data len
      in u_net_gen_ip_pkt ip_icmp_pkt (net_ip n) ip pkt l (n\<lparr>nmem := m\<rparr>))"

definition net_gen_ping_pkt :: "ip_addr \<Rightarrow> offset_t \<Rightarrow> u16 \<Rightarrow> net_info \<Rightarrow> u64 \<times> net_info" where
  "net_gen_ping_pkt ip pkt sq n =
     u_net_gen_icmp_pkt icmp_echo_request ip pkt 0x1337 sq (bytes_of_string ''ram00flax!'') 10 n"

definition net_gen_pong_pkt ::
    "ip_addr \<Rightarrow> offset_t \<Rightarrow> u16 \<Rightarrow> u16 \<Rightarrow> bytes \<Rightarrow> u64 \<Rightarrow> net_info \<Rightarrow> u64 \<times> net_info" where
  "net_gen_pong_pkt ip pkt ident sq data len n =
     u_net_gen_icmp_pkt icmp_echo_reply ip pkt ident sq data len n"

definition net_gen_udp_pkt :: "ip_addr \<Rightarrow> u16 \<Rightarrow> offset_t \<Rightarrow> u64 \<Rightarrow> net_info \<Rightarrow> u64 \<times> net_info" where
  "net_gen_udp_pkt ip port pkt dlen n =
     (let udp = pkt + eth_hdr_sz + ip_hdr_sz;
          (l, m) = udp_pkt (nmem n) udp (net_port n) port dlen
      in u_net_gen_ip_pkt ip_udp_pkt (net_ip n) ip pkt l (n\<lparr>nmem := m\<rparr>))"

section \<open>Dissection (ether.c, arp.c, ip.c, udp.c, icmp.c)\<close>

definition NET_DISSECT_FAIL :: int where
  [const_defs]: "NET_DISSECT_FAIL = 0"

definition NET_DISSECT_OK :: int where
  [const_defs]: "NET_DISSECT_OK = 1"

definition NET_DISSECT_IGN :: int where
  [const_defs]: "NET_DISSECT_IGN = 2"

definition NET_DISSECT_UDP :: int where
  [const_defs]: "NET_DISSECT_UDP = 3"

text \<open>\<^verbatim>\<open>buffer_t\<close>: an address and a size.\<close>

record net_buffer =
  b_data :: offset_t
  b_sz :: u64

definition uu_arp_dissect_who_has :: "offset_t \<Rightarrow> net_info \<Rightarrow> int \<times> net_info" where
  "uu_arp_dissect_who_has hdr n =
     (let hwsrc = mem_read (nmem n) (hdr + 8) 6;
          psrc = get32 (nmem n) (hdr + 14);
          n = arp_cache_update psrc hwsrc n
      in if get32 (nmem n) (hdr + 24) \<noteq> net_ip n then (NET_DISSECT_IGN, n)
         else let pkt = e1k_tx_get_pktbuf n
           in if pkt = 0 then (NET_DISSECT_FAIL, n)
              else let (len, n) = net_gen_arp_is_at_pkt hwsrc psrc pkt n
                in (NET_DISSECT_OK, e1k_send_pkt pkt len n))"

definition uu_arp_dissect_is_at :: "offset_t \<Rightarrow> net_info \<Rightarrow> int \<times> net_info" where
  "uu_arp_dissect_is_at hdr n =
     (NET_DISSECT_OK, arp_cache_update (get32 (nmem n) (hdr + 14)) (mem_read (nmem n) (hdr + 8) 6) n)"

definition arp_dissect :: "offset_t \<Rightarrow> u64 \<Rightarrow> net_info \<Rightarrow> int \<times> net_info" where
  "arp_dissect hdr len n =
     (let m = put16 (nmem n) (hdr + 6) (swap16 (get16 (nmem n) (hdr + 6)));
          m = put16 m hdr (swap16 (get16 m hdr));
          m = put16 m (hdr + 2) (swap16 (get16 m (hdr + 2)))
      in if get16 m hdr \<noteq> ARP_TYPE_ETH \<or> get16 m (hdr + 2) \<noteq> ETHER_TYPE_IP
         then (NET_DISSECT_FAIL, n\<lparr>nmem := m\<rparr>)
         else
           let m = put32 m (hdr + 14) (swap32 (get32 m (hdr + 14)));
               m = put32 m (hdr + 24) (swap32 (get32 m (hdr + 24)));
               n = n\<lparr>nmem := m\<rparr>
           in if get16 m (hdr + 6) = ARP_OP_REQUEST then uu_arp_dissect_who_has hdr n
              else if get16 m (hdr + 6) = ARP_OP_REPLY then uu_arp_dissect_is_at hdr n
              else (NET_DISSECT_IGN, n))"

definition icmp_dissect :: "ip_addr \<Rightarrow> offset_t \<Rightarrow> u64 \<Rightarrow> net_info \<Rightarrow> int \<times> net_info" where
  "icmp_dissect ip hdr len n =
     (if nmem n hdr = ICMP_TYPE_ECHO_REQUEST
      then let rpkt = e1k_tx_get_pktbuf n
        in if rpkt = 0 then (NET_DISSECT_FAIL, n)
           else
             let m = put16 (nmem n) (hdr + 4) (swap16 (get16 (nmem n) (hdr + 4)));
                 m = put16 m (hdr + 6) (swap16 (get16 m (hdr + 6)));
                 n = n\<lparr>nmem := m\<rparr>;
                 dlen = len - icmp_hdr_sz;
                 (rlen, n) = net_gen_pong_pkt ip rpkt (get16 m (hdr + 4)) (get16 m (hdr + 6))
                   (mem_read m (hdr + icmp_hdr_sz) (unat dlen)) dlen n
             in if rlen = 0 then (NET_DISSECT_FAIL, n)
                else (NET_DISSECT_OK, e1k_send_pkt rpkt rlen n)
      else (NET_DISSECT_IGN, n))"

definition udp_dissect :: "offset_t \<Rightarrow> u64 \<Rightarrow> net_info \<Rightarrow> int \<times> net_buffer \<times> net_info" where
  "udp_dissect hdr len n =
     (let m = put16 (nmem n) hdr (swap16 (get16 (nmem n) hdr));
          m = put16 m (hdr + 2) (swap16 (get16 m (hdr + 2)));
          m = put16 m (hdr + 4) (swap16 (get16 m (hdr + 4)));
          n = n\<lparr>nmem := m\<rparr>;
          rcv = \<lparr>b_data = hdr + udp_hdr_sz, b_sz = min len (ucast (get16 m (hdr + 4))) - udp_hdr_sz\<rparr>
      in if get16 m (hdr + 2) \<noteq> net_port n then (NET_DISSECT_IGN, rcv, n)
         else (NET_DISSECT_UDP, rcv,
           if peer_port n \<noteq> get16 m hdr then n\<lparr>peer_port := get16 m hdr\<rparr> else n))"

text \<open>The argument \<open>rcv\<close> is the buffer of the caller, filled only for UDP.\<close>

definition ip_dissect :: "offset_t \<Rightarrow> u64 \<Rightarrow> net_buffer \<Rightarrow> net_info \<Rightarrow> int \<times> net_buffer \<times> net_info" where
  "ip_dissect hdr len rcv n =
     (if get_field 4 4 (nmem n hdr) \<noteq> 4 then (NET_DISSECT_FAIL, rcv, n)
      else
        let m = put16 (nmem n) (hdr + 6) (swap16 (get16 (nmem n) (hdr + 6)));
            m = put16 m (hdr + 4) (swap16 (get16 m (hdr + 4)));
            m = put16 m (hdr + 2) (swap16 (get16 m (hdr + 2)));
            m = put32 m (hdr + 12) (swap32 (get32 m (hdr + 12)));
            m = put32 m (hdr + 16) (swap32 (get32 m (hdr + 16)));
            n = n\<lparr>nmem := m\<rparr>;
            pkt = hdr + ip_hdr_sz
        in if m (hdr + 9) = IP_PROTO_ICMP
           then let (rc, n) = icmp_dissect (get32 m (hdr + 12)) pkt (len - ip_hdr_sz) n in (rc, rcv, n)
           else if m (hdr + 9) = IP_PROTO_UDP then udp_dissect pkt (len - ip_hdr_sz) n
           else (NET_DISSECT_IGN, rcv, n))"

definition eth_dissect :: "offset_t \<Rightarrow> u64 \<Rightarrow> net_buffer \<Rightarrow> net_info \<Rightarrow> int \<times> net_buffer \<times> net_info" where
  "eth_dissect hdr len rcv n =
     (let m = put16 (nmem n) (hdr + 12) (swap16 (get16 (nmem n) (hdr + 12)));
          n = n\<lparr>nmem := m\<rparr>;
          pkt = hdr + eth_hdr_sz
      in if get16 m (hdr + 12) = ETHER_TYPE_ARP
         then let (rc, n) = arp_dissect pkt (len - eth_hdr_sz) n in (rc, rcv, n)
         else if get16 m (hdr + 12) = ETHER_TYPE_IP then ip_dissect pkt (len - eth_hdr_sz) rcv n
         else (NET_DISSECT_IGN, rcv, n))"

section \<open>Read and write (net.c)\<close>

definition HDR_FRAME_SZ :: u64 where
  "HDR_FRAME_SZ = eth_hdr_sz + ip_hdr_sz + udp_hdr_sz"

definition ETHER_FRAME_SZ :: u64 where
  [const_defs]: "ETHER_FRAME_SZ = 1500"

definition DATA_FRAME_SZ :: u64 where
  "DATA_FRAME_SZ = ETHER_FRAME_SZ - HDR_FRAME_SZ"

definition uu_net_write :: "net_buffer \<Rightarrow> net_info \<Rightarrow> u64 \<times> net_info" where
  "uu_net_write buf n =
     (let pkt = e1k_tx_get_pktbuf n
      in if pkt = 0 then (0, n)
         else
           let data = pkt + HDR_FRAME_SZ;
               n = n\<lparr>nmem := mem_write (nmem n) data (mem_read (nmem n) (b_data buf) (unat (b_sz buf)))\<rparr>;
               (len, n) = net_gen_udp_pkt (peer_ip n) (peer_port n) pkt (b_sz buf) n
           in if len = 0 then (0, n) else (b_sz buf, e1k_send_pkt pkt len n))"

fun net_write_loop :: "nat \<Rightarrow> net_buffer \<Rightarrow> u64 \<Rightarrow> net_info \<Rightarrow> net_buffer \<times> u64 \<times> net_info" where
  "net_write_loop 0 buf cnt n = (buf, cnt, n)"
| "net_write_loop (Suc nb) buf cnt n =
     (let (sz, n) = uu_net_write buf n
      in net_write_loop nb (buf\<lparr>b_data := b_data buf + sz\<rparr>) (cnt + sz) n)"

definition net_write :: "offset_t \<Rightarrow> u64 \<Rightarrow> net_info \<Rightarrow> u64 \<times> net_info" where
  "net_write data len n =
     (let nb = len div DATA_FRAME_SZ; rm = len mod DATA_FRAME_SZ;
          (buf, cnt, n) = net_write_loop (unat nb) \<lparr>b_data = data, b_sz = DATA_FRAME_SZ\<rparr> 0 n
      in if rm \<noteq> 0
         then let (sz, n) = uu_net_write (buf\<lparr>b_sz := rm\<rparr>) n in (cnt + sz, n)
         else (cnt, n))"

text \<open>The static array \<^verbatim>\<open>frame\<close> lies at the address \<open>frame\<close>; \<open>rcv\<close> is the uninitialised local.\<close>

definition uu_net_read :: "offset_t \<Rightarrow> net_buffer \<Rightarrow> net_buffer \<Rightarrow> net_info \<Rightarrow> u64 \<times> net_info" where
  "uu_net_read frame rcv buf n =
     (let (len, n) = e1k_recv_pkt frame RX_BUFF_SZ n
      in if len = 0 then (0, n)
         else
           let (rc, rcv, n) = eth_dissect frame len rcv n
           in if rc \<noteq> NET_DISSECT_UDP then (0, n)
              else let len = min (b_sz buf) (b_sz rcv)
                in (len, if len \<noteq> 0 then n\<lparr>nmem := mem_write (nmem n) (b_data buf) (mem_read (nmem n) (b_data rcv) (unat len))\<rparr> else n))"

text \<open>\<^verbatim>\<open>None\<close> for the early return in the loop.\<close>

fun net_read_loop ::
    "offset_t \<Rightarrow> net_buffer \<Rightarrow> nat \<Rightarrow> net_buffer \<Rightarrow> u64 \<Rightarrow> net_info \<Rightarrow> net_buffer option \<times> u64 \<times> net_info" where
  "net_read_loop frame rcv 0 buf cnt n = (Some buf, cnt, n)"
| "net_read_loop frame rcv (Suc nb) buf cnt n =
     (let (sz, n) = uu_net_read frame rcv buf n
      in if sz < b_sz buf then (None, cnt, n)
         else net_read_loop frame rcv nb (buf\<lparr>b_data := b_data buf + sz\<rparr>) (cnt + sz) n)"

definition net_read :: "offset_t \<Rightarrow> net_buffer \<Rightarrow> offset_t \<Rightarrow> u64 \<Rightarrow> net_info \<Rightarrow> u64 \<times> net_info" where
  "net_read frame rcv data len n =
     (let nb = len div DATA_FRAME_SZ; rm = len mod DATA_FRAME_SZ;
          (r, cnt, n) = net_read_loop frame rcv (unat nb) \<lparr>b_data = data, b_sz = DATA_FRAME_SZ\<rparr> 0 n
      in case r of
           None \<Rightarrow> (cnt, n)
         | Some buf \<Rightarrow>
             if rm \<noteq> 0
             then let (sz, n) = uu_net_read frame rcv (buf\<lparr>b_sz := rm\<rparr>) n in (cnt + sz, n)
             else (cnt, n))"

section \<open>Start (net.c)\<close>

definition net_arp_gw :: "net_info \<Rightarrow> net_info" where
  "net_arp_gw n =
     (let pkt = e1k_tx_get_pktbuf n;
          (len, n) = net_gen_arp_who_has_pkt (net_gw n) pkt n
      in e1k_send_pkt pkt len n)"

definition net_mem_init :: "u32 \<Rightarrow> offset_t \<Rightarrow> net_info \<Rightarrow> offset_t \<times> net_info" where
  "net_mem_init ims0 area n =
     (let (off, n) = e1k_mem_init area n;
          n = e1k_tx_init (e1k_rx_init ims0 n);
          n = e1k_tx_on (e1k_rx_on n)
      in (off, net_arp_gw n))"

text \<open>A host with an address and a peer, before its card is set up.\<close>

definition net_ex :: net_info where
  "net_ex = \<lparr>nmem = (\<lambda>_. 0), arp_tbl = [], arp_tail = 0, net_mac = [2, 0, 0, 0, 0, 1], net_ip = 0x0a000001,
     net_mk = 0xffffff00, net_gw = 0x0a0000fe, net_port = 1337, peer_ip = 0x0a000002, peer_port = 4242,
     rdesc = [], tdesc = [], rx_ring = \<lparr>q_bal = 0, q_bah = 0, q_dl = 0, q_dh = 0, q_dt = 0, q_tail = 0, q_base = 0, q_dma = 0\<rparr>,
     tx_ring = \<lparr>q_bal = 0, q_bah = 0, q_dl = 0, q_dh = 0, q_dt = 0, q_tail = 0, q_base = 0, q_dma = 0\<rparr>,
     reg_rctl = 0, reg_tctl = 0, reg_tipg = 0, reg_ims = 0, reg_imc = 0\<rparr>"

text \<open>The descriptor that the next call of \<^verbatim>\<open>e1k_recv_pkt\<close> looks at.\<close>

definition rx_next :: "net_info \<Rightarrow> nat" where
  "rx_next n = unat ((q_tail (rx_ring n) + 1) mod of_nat RX_DESC_NR)"

lemma arp_lookup_nmem [simp]: "arp_cache_lookup ip (n\<lparr>nmem := m\<rparr>) = arp_cache_lookup ip n"
  by (simp add: arp_cache_lookup_def arp_end_def split: option.split)

end
