(* ===== verification/Net_Udp.thy ===== *)
theory Net_Udp
  imports Net
begin

text \<open>
  Datagrams through the network stack: the frame that \<^verbatim>\<open>net_gen_udp_pkt\<close> builds as one byte string, the
  frames that \<^verbatim>\<open>net_write\<close> leaves in the transmit ring, what the dissection of such a frame
  yields, and what \<^verbatim>\<open>net_read\<close> returns for it.
\<close>

section \<open>A datagram as a frame\<close>

definition udp_frame ::
    "mac_addr \<Rightarrow> mac_addr \<Rightarrow> ip_addr \<Rightarrow> ip_addr \<Rightarrow> u16 \<Rightarrow> u16 \<Rightarrow> bytes \<Rightarrow> bytes" where
  "udp_frame dmac smac src dst sp dp payload =
     (let dlen = 8 + of_nat (length payload); len = 20 + dlen
      in (dmac @ smac @ be16 ETHER_TYPE_IP)
         @ ip_bytes src dst IP_PROTO_UDP len (ck_field (ip_bytes src dst IP_PROTO_UDP len 0))
         @ udp_bytes sp dp dlen (udp_ck (udp_psd src dst sp dp 0 payload)) @ payload)"

lemma length_udp_frame:
  "length dmac = 6 \<Longrightarrow> length smac = 6 \<Longrightarrow> length (udp_frame dmac smac src dst sp dp payload) = 42 + length payload"
  by (simp add: udp_frame_def Let_def)

lemma net_gen_udp_block:
  assumes mac: "arp_cache_lookup ip n = Some mac" "length mac = 6" "length (net_mac n) = 6"
    and mem: "nmem n = mem_write m pkt (pre @ payload @ [q])" and pre: "length pre = 42"
    and l: "length payload < 65000"
  shows "net_gen_udp_pkt ip port pkt (of_nat (length payload)) n =
    (of_nat (42 + length payload), n\<lparr>nmem := mem_write m pkt
       (udp_frame mac (net_mac n) (net_ip n) ip (net_port n) port payload @ [if odd (length payload) then 0 else q])\<rparr>)"
proof -
  let ?d = "8 + of_nat (length payload) :: u64" and ?E = "mac @ net_mac n @ be16 ETHER_TYPE_IP"
  define ipre where "ipre = take 20 (drop 14 pre)"
  have ipre: "length ipre = 20" using pre by (simp add: ipre_def)
  let ?U = "udp_bytes (net_port n) port ?d 0"
  define n1 where "n1 = n\<lparr>nmem := mem_write m pkt (take 14 pre @ ipre @ ?U @ payload @ [q])\<rparr>"
  have "take 34 pre = take 14 pre @ ipre" using take_add [of 14 20 pre] by (simp add: ipre_def)
  then have udp: "udp_pkt (nmem n) (pkt + 34) (net_port n) port (of_nat (length payload)) = (?d, nmem n1)"
    using pre l by (simp add: udp_pkt_block mem n1_def block_simps patch_def)
  have "arp_cache_lookup ip n1 = Some mac" using mac by (simp add: n1_def)
  moreover have "net_gen_eth_ip_pkt mac pkt n1 = (14, n\<lparr>nmem := mem_write m pkt (?E @ ipre @ ?U @ payload @ [q])\<rparr>)"
    using mac pre ipre l
    by (simp add: net_gen_eth_ip_pkt_def u_net_gen_eth_pkt_def n1_def eth_pkt_block block_simps patch_def)
  moreover have "mem_write m pkt (?E @ ipre @ ?U @ payload @ [q]) = mem_write (mem_write m pkt ?E) (pkt + 14) (ipre @ ?U @ payload @ [q])"
    using write_append [of ?E "ipre @ ?U @ payload @ [q]" m pkt] mac ipre l by simp
  moreover have "mem_write m pkt (udp_frame mac (net_mac n) (net_ip n) ip (net_port n) port payload @ [r])
     = mem_write (mem_write m pkt ?E) (pkt + 14)
        (ip_bytes (net_ip n) ip IP_PROTO_UDP (20 + ?d) (ck_field (ip_bytes (net_ip n) ip IP_PROTO_UDP (20 + ?d) 0))
         @ udp_bytes (net_port n) port ?d (udp_ck (udp_psd (net_ip n) ip (net_port n) port 0 payload)) @ payload @ [r])" for r
    using write_append [of ?E "ip_bytes (net_ip n) ip IP_PROTO_UDP (20 + ?d) (ck_field (ip_bytes (net_ip n) ip IP_PROTO_UDP (20 + ?d) 0))
         @ udp_bytes (net_port n) port ?d (udp_ck (udp_psd (net_ip n) ip (net_port n) port 0 payload)) @ payload @ [r]" m pkt] mac l
    by (simp add: udp_frame_def Let_def)
  ultimately show ?thesis
    using ip_udp_pkt_block [OF ipre l, of "mem_write m pkt ?E" "pkt + 14" "net_port n" port q "net_ip n" ip] udp
    by (simp add: net_gen_udp_pkt_def u_net_gen_ip_pkt_def eth_hdr_sz_def ip_hdr_sz_def n1_def add.assoc)
qed

section \<open>Dissection of a datagram\<close>

lemma udp_dissect_block:
  assumes mem: "nmem n = mem_write m hdr (udp_bytes sp dp (8 + of_nat (length payload)) c @ payload @ rest)"
    and l: "length payload < 65000" and r: "length rest < 65000" and len: "8 + length payload \<le> unat len"
  obtains u where "length u = 8"
    "udp_dissect hdr len n = (if dp = net_port n then NET_DISSECT_UDP else NET_DISSECT_IGN,
       \<lparr>b_data = hdr + 8, b_sz = of_nat (length payload)\<rparr>,
       n\<lparr>nmem := mem_write m hdr (u @ payload @ rest), peer_port := if dp = net_port n then sp else peer_port n\<rparr>)"
proof -
  let ?L = "ucast (8 + of_nat (length payload) :: u64) :: u16"
  define u where "u = le_bytes 2 sp @ le_bytes 2 dp @ le_bytes 2 ?L @ be16 c"
  define M where "M = mem_write m hdr (u @ payload @ rest)"
  have u: "length u = 8" by (simp add: u_def block_simps)
  have m3: "swap16 (get16 (nmem n) hdr) = sp" "swap16 (get16 (put16 (nmem n) hdr sp) (hdr + 2)) = dp"
    "swap16 (get16 (put16 (put16 (nmem n) hdr sp) (hdr + 2) dp) (hdr + 4)) = ?L"
    "put16 (put16 (put16 (nmem n) hdr sp) (hdr + 2) dp) (hdr + 4) ?L = M"
    using l r by (simp_all add: mem put16_def block_simps patch_def u_def M_def udp_bytes_def)
  have g: "get16 M hdr = sp" "get16 M (hdr + 2) = dp" "get16 M (hdr + 4) = ?L"
    using l r by (simp_all add: M_def u_def block_simps)
  have "(8 + of_nat (length payload) :: u64) = of_nat (8 + length payload)" by simp
  then have d: "unat (8 + of_nat (length payload) :: u64) = 8 + length payload"
    using l by (simp only: unat_of_nat take_bit_eq_mod) simp
  have "ucast (ucast w :: u16) = take_bit 16 w" for w :: u64 by (rule bit_eqI) (auto simp: bit_simps)
  then have L: "ucast ?L = (8 + of_nat (length payload) :: u64)"
    using d l by (simp add: take_bit_small)
  have "8 + of_nat (length payload) \<le> len" using len d by (simp add: word_le_nat_alt)
  then have "min len (ucast ?L) - udp_hdr_sz = of_nat (length payload)" by (simp add: L udp_hdr_sz_def min_def)
  then have "udp_dissect hdr len n = (if dp = net_port n then NET_DISSECT_UDP else NET_DISSECT_IGN,
       \<lparr>b_data = hdr + 8, b_sz = of_nat (length payload)\<rparr>,
       n\<lparr>nmem := M, peer_port := if dp = net_port n then sp else peer_port n\<rparr>)"
    unfolding udp_dissect_def Let_def m3 net_info.simps g by (simp add: udp_hdr_sz_def)
  then show ?thesis using that u by (simp add: M_def)
qed

lemma ip_dissect_block:
  assumes mem: "nmem n = mem_write m hdr (ip_bytes src dst proto len c @ rest)" and r: "length rest < 2 ^ 32"
    and p: "proto = IP_PROTO_UDP"
  obtains h where "length h = 20" "ip_dissect hdr flen rcv n = udp_dissect (hdr + 20) (flen - 20) (n\<lparr>nmem := mem_write m hdr (h @ rest)\<rparr>)"
proof -
  define h where "h = [0x45, 0] @ le_bytes 2 (ucast len :: u16) @ le_bytes 2 (1 :: u16) @ le_bytes 2 (0 :: u16) @ [0xff, proto] @ be16 c
    @ le_bytes 4 src @ le_bytes 4 dst"
  have h: "length h = 20" by (simp add: h_def block_simps)
  define M where "M = mem_write m hdr (h @ rest)"
  have ver: "get_field 4 4 (0x45 :: u8) = 4" by (simp add: get_field_def)
  have b: "[0, 1, 0, 0, 0xff, proto] @ xs = be16 1 @ be16 0 @ [0xff, proto] @ xs" for xs by (simp add: be16_def)
  have m: "swap16 (get16 (nmem n) (hdr + 6)) = 0"
    "swap16 (get16 (put16 (nmem n) (hdr + 6) 0) (hdr + 4)) = 1"
    "swap16 (get16 (put16 (put16 (nmem n) (hdr + 6) 0) (hdr + 4) 1) (hdr + 2)) = ucast len"
    "swap32 (get32 (put16 (put16 (put16 (nmem n) (hdr + 6) 0) (hdr + 4) 1) (hdr + 2) (ucast len)) (hdr + 12)) = src"
    "swap32 (get32 (put32 (put16 (put16 (put16 (nmem n) (hdr + 6) 0) (hdr + 4) 1) (hdr + 2) (ucast len)) (hdr + 12) src) (hdr + 16)) = dst"
    "put32 (put32 (put16 (put16 (put16 (nmem n) (hdr + 6) 0) (hdr + 4) 1) (hdr + 2) (ucast len)) (hdr + 12) src) (hdr + 16) dst = M"
    using r by (simp_all add: mem put16_def put32_def ip_bytes_def b block_simps patch_def h_def M_def del: append_Cons)
  have "nmem n hdr = 0x45" "M (hdr + 9) = IP_PROTO_UDP"
    using r by (simp_all add: mem M_def block_simps ip_bytes_def h_def p nth_append)
  then have "ip_dissect hdr flen rcv n = udp_dissect (hdr + 20) (flen - 20) (n\<lparr>nmem := M\<rparr>)"
    unfolding ip_dissect_def Let_def m by (simp add: ver const_defs)
  then show ?thesis using that h by (simp add: M_def)
qed

lemma eth_dissect_block:
  assumes mem: "nmem n = mem_write m hdr ((dmac @ smac @ be16 ETHER_TYPE_IP) @ rest)" and r: "length rest < 2 ^ 32"
    and l: "length dmac = 6" "length smac = 6"
  obtains e where "length e = 14" "eth_dissect hdr flen rcv n = ip_dissect (hdr + 14) (flen - 14) rcv (n\<lparr>nmem := mem_write m hdr (e @ rest)\<rparr>)"
proof -
  define e where "e = dmac @ smac @ le_bytes 2 ETHER_TYPE_IP"
  have e: "length e = 14" by (simp add: e_def l block_simps)
  define M where "M = mem_write m hdr (e @ rest)"
  have m: "swap16 (get16 (nmem n) (hdr + 12)) = ETHER_TYPE_IP" "put16 (nmem n) (hdr + 12) ETHER_TYPE_IP = M"
    "get16 M (hdr + 12) = ETHER_TYPE_IP"
    using r l by (simp_all add: mem put16_def block_simps patch_def e_def M_def)
  have "eth_dissect hdr flen rcv n = ip_dissect (hdr + 14) (flen - 14) rcv (n\<lparr>nmem := M\<rparr>)"
    unfolding eth_dissect_def Let_def m by (simp add: eth_hdr_sz_def ETHER_TYPE_IP_def ETHER_TYPE_ARP_def)
  then show ?thesis using that e by (simp add: M_def)
qed

lemma dissect_udp_frame:
  assumes mem: "nmem n = mem_write m a (udp_frame dmac smac src dst sp dp payload @ rest)"
    and mac: "length dmac = 6" "length smac = 6"
    and l: "length payload < 65000" "length rest < 65000" and len: "42 + length payload \<le> unat len"
  obtains h where "length h = 42"
    "eth_dissect a len rcv n = (if dp = net_port n then NET_DISSECT_UDP else NET_DISSECT_IGN,
       \<lparr>b_data = a + 42, b_sz = of_nat (length payload)\<rparr>,
       n\<lparr>nmem := mem_write m a (h @ payload @ rest), peer_port := if dp = net_port n then sp else peer_port n\<rparr>)"
proof -
  let ?d = "8 + of_nat (length payload) :: u64"
  let ?U = "udp_bytes sp dp ?d (udp_ck (udp_psd src dst sp dp 0 payload)) @ payload @ rest"
  let ?I = "ip_bytes src dst IP_PROTO_UDP (20 + ?d) (ck_field (ip_bytes src dst IP_PROTO_UDP (20 + ?d) 0))"
  have mem': "nmem n = mem_write m a ((dmac @ smac @ be16 ETHER_TYPE_IP) @ ?I @ ?U)"
    by (simp add: mem udp_frame_def Let_def)
  obtain e where e: "length e = 14"
    "eth_dissect a len rcv n = ip_dissect (a + 14) (len - 14) rcv (n\<lparr>nmem := mem_write m a (e @ ?I @ ?U)\<rparr>)"
    by (rule eth_dissect_block [OF mem' _ mac]) (use l in auto)
  have w: "mem_write m a (e @ xs) = mem_write (mem_write m a e) (a + 14) xs" if "length xs < 2 ^ 32" for xs
    using write_append [of e xs m a] e that by simp
  obtain h where h: "length h = 20"
    "eth_dissect a len rcv n = udp_dissect (a + 14 + 20) (len - 14 - 20) (n\<lparr>nmem := mem_write (mem_write m a e) (a + 14) (h @ ?U)\<rparr>)"
    using ip_dissect_block [of "n\<lparr>nmem := mem_write m a (e @ ?I @ ?U)\<rparr>" "mem_write m a e" "a + 14" src dst IP_PROTO_UDP _ _ ?U "len - 14" rcv]
      e w l by auto
  have w2: "mem_write (mem_write m a e) (a + 14) (h @ xs) = mem_write (mem_write (mem_write m a e) (a + 14) h) (a + 34) xs"
    if "length xs < 2 ^ 32" for xs
    using write_append [of h xs "mem_write m a e" "a + 14"] h that by (simp add: add.assoc)
  let ?M = "mem_write (mem_write m a e) (a + 14) h"
  have "34 \<le> len" using len by (simp add: word_le_nat_alt)
  then have len': "8 + length payload \<le> unat (len - 34)" using len by (simp add: unat_sub)
  obtain u where u: "length u = 8" "udp_dissect (a + 34) (len - 34) (n\<lparr>nmem := mem_write ?M (a + 34) ?U\<rparr>) =
      (if dp = net_port n then NET_DISSECT_UDP else NET_DISSECT_IGN, \<lparr>b_data = a + 34 + 8, b_sz = of_nat (length payload)\<rparr>,
       n\<lparr>nmem := mem_write ?M (a + 34) (u @ payload @ rest), peer_port := if dp = net_port n then sp else peer_port n\<rparr>)"
    by (rule udp_dissect_block [of "n\<lparr>nmem := mem_write ?M (a + 34) ?U\<rparr>" ?M "a + 34" sp dp payload _ rest, OF _ l len'])
      (auto cong: if_cong)
  have "mem_write ?M (a + 34) (u @ payload @ rest) = mem_write m a ((e @ h @ u) @ payload @ rest)"
    using w w2 l h u by simp
  moreover have "eth_dissect a len rcv n = udp_dissect (a + 34) (len - 34) (n\<lparr>nmem := mem_write ?M (a + 34) ?U\<rparr>)"
    using h w2 l by (simp add: add.assoc diff_diff_add)
  ultimately show ?thesis using that [of "e @ h @ u"] e h u by (simp add: add.assoc)
qed

section \<open>Sending through the ring\<close>

lemma write_far:
  assumes "unat p + length bs \<le> 2 ^ 64" and "unat x < unat p \<or> unat p + length bs \<le> unat x"
  shows "mem_write m p bs x = m x"
proof (rule mem_write_outside, intro allI impI)
  fix i assume i: "i < length bs"
  have "unat (p + of_nat i) = unat p + i"
    using assms(1) i by (subst unat_word_ariths) (simp add: unat_of_nat take_bit_eq_mod)
  then show "p + of_nat i \<noteq> x" using assms(2) i by auto
qed

lemma unat_in: "unat a + k \<le> 2 ^ 64 \<Longrightarrow> i < k \<Longrightarrow> unat (a + of_nat i :: u64) = unat a + i"
  by (subst unat_word_ariths) (simp add: unat_of_nat take_bit_eq_mod)

definition apart :: "offset_t \<Rightarrow> nat \<Rightarrow> offset_t \<Rightarrow> nat \<Rightarrow> bool" where
  "apart a k b l \<longleftrightarrow> unat a + k \<le> 2 ^ 64 \<and> unat b + l \<le> 2 ^ 64 \<and> (unat a + k \<le> unat b \<or> unat b + l \<le> unat a)"

lemma read_far:
  assumes "apart a k b (length bs)"
  shows "mem_read (mem_write m b bs) a k = mem_read m a k"
proof (rule nth_equalityI)
  fix i assume "i < length (mem_read (mem_write m b bs) a k)"
  then have i: "i < k" by simp
  have "unat (a + of_nat i) = unat a + i" using assms i unat_in [of a k i] by (simp add: apart_def)
  then have "mem_write m b bs (a + of_nat i) = m (a + of_nat i)"
    using assms i by (intro write_far) (auto simp: apart_def)
  then show "mem_read (mem_write m b bs) a k ! i = mem_read m a k ! i" using i by (simp add: mem_read_def)
qed simp

text \<open>The transmit ring as \<^verbatim>\<open>e1k_tx_init\<close> leaves it, at any later time.\<close>

definition tx_ok :: "net_info \<Rightarrow> bool" where
  "tx_ok n \<longleftrightarrow> length (tdesc n) = TX_DESC_NR \<and> unat (q_tail (tx_ring n)) < TX_DESC_NR
     \<and> q_dma (tx_ring n) \<noteq> 0 \<and> unat (q_dma (tx_ring n)) + 32768 \<le> 2 ^ 64
     \<and> (\<forall>i < TX_DESC_NR. td_addr (tdesc n ! i) = q_dma (tx_ring n) + of_nat i * TX_BUFF_SZ)"

text \<open>The frame that the descriptor \<open>i\<close> hands to the card.\<close>

definition tx_frame :: "net_info \<Rightarrow> nat \<Rightarrow> bytes" where
  "tx_frame n i = mem_read (nmem n) (td_addr (tdesc n ! i)) (unat (td_len (tdesc n ! i)))"

lemma tx_slot:
  assumes "tx_ok n" and "i < 16"
  shows "unat (td_addr (tdesc n ! i)) = unat (q_dma (tx_ring n)) + i * 2048"
proof -
  have "unat (of_nat i * 2048 :: u64) = i * 2048"
    using assms(2) by (subst unat_word_ariths) (simp add: unat_of_nat take_bit_eq_mod)
  then show ?thesis using assms
    by (simp add: tx_ok_def const_defs) (subst unat_word_ariths, simp)
qed

definition tx_sent :: "net_info \<Rightarrow> memory \<Rightarrow> nat \<Rightarrow> net_info" where
  "tx_sent n m len = e1k_send_pkt (e1k_tx_get_pktbuf n) (of_nat len) (n\<lparr>nmem := m\<rparr>)"

lemma uu_net_write_ok:
  fixes d :: offset_t
  assumes ok: "tx_ok n" and mac: "arp_cache_lookup (peer_ip n) n = Some mac" "length mac = 6" "length (net_mac n) = 6"
    and k: "k < 1500"
  defines "f \<equiv> udp_frame mac (net_mac n) (net_ip n) (peer_ip n) (net_port n) (peer_port n) (mem_read (nmem n) d k)"
  obtains q where "uu_net_write \<lparr>b_data = d, b_sz = of_nat k\<rparr> n = (of_nat k, tx_sent n (mem_write (nmem n) (e1k_tx_get_pktbuf n) (f @ [q])) (42 + k))"
proof -
  let ?p = "e1k_tx_get_pktbuf n" and ?D = "mem_read (nmem n) d k"
  have p: "?p \<noteq> 0" using tx_slot [OF ok, of "unat (q_tail (tx_ring n))"] ok
    by (auto simp: e1k_tx_get_pktbuf_def tx_ok_def TX_DESC_NR_def unat_eq_0 simp flip: unat_eq_0)
  have un: "unat (of_nat k :: u64) = k" using k by (simp add: unat_of_nat take_bit_eq_mod)
  obtain m0 xs where m0: "nmem n = mem_write m0 ?p xs" "length xs = 43 + k"
    using block_cases [of "43 + k" "nmem n" ?p] k by auto
  have "length (drop (42 + k) xs) = Suc 0" using m0(2) by simp
  then obtain q where q: "drop (42 + k) xs = [q]" by (auto simp: length_Suc_conv simp del: length_drop)
  define n1 where "n1 = n\<lparr>nmem := mem_write m0 ?p (take 42 xs @ ?D @ [q])\<rparr>"
  have copy: "mem_write (nmem n) (?p + 42) ?D = nmem n1"
    using m0(2) k q by (simp add: m0(1) n1_def block_simps patch_def add.commute)
  have "net_gen_udp_pkt (peer_ip n) (peer_port n) ?p (of_nat (length ?D)) n1 =
     (of_nat (42 + length ?D), n1\<lparr>nmem := mem_write m0 ?p (udp_frame mac (net_mac n1) (net_ip n1) (peer_ip n) (net_port n1) (peer_port n) ?D
         @ [if odd (length ?D) then 0 else q])\<rparr>)"
    by (rule net_gen_udp_block [where pre = "take 42 xs"]) (use mac k m0(2) in \<open>simp_all add: n1_def\<close>)
  then have gen: "net_gen_udp_pkt (peer_ip n) (peer_port n) ?p (of_nat k) (n\<lparr>nmem := nmem n1\<rparr>) =
     (of_nat (42 + k), n\<lparr>nmem := mem_write (nmem n) ?p (f @ [if odd k then 0 else q])\<rparr>)"
    using m0(2) k mac
    by (simp add: n1_def f_def m0(1) write_at patch_simps length_udp_frame)
  have "unat (of_nat (42 + k) :: u64) = 42 + k" using k by (simp only: unat_of_nat take_bit_eq_mod) simp
  then have ne: "(of_nat (42 + k) :: u64) \<noteq> 0" by (metis unat_0 add_is_0 zero_neq_numeral)
  have "uu_net_write \<lparr>b_data = d, b_sz = of_nat k\<rparr> n = (of_nat k, tx_sent n (mem_write (nmem n) ?p (f @ [if odd k then 0 else q])) (42 + k))"
    unfolding uu_net_write_def Let_def
    using p un ne copy gen by (simp add: HDR_FRAME_SZ_def eth_hdr_sz_def ip_hdr_sz_def udp_hdr_sz_def tx_sent_def)
  then show ?thesis by (rule that)
qed

text \<open>What the ring carries after the payloads \<open>ps\<close> have been sent from the state \<open>n0\<close>.\<close>

definition same_ends :: "net_info \<Rightarrow> net_info \<Rightarrow> bool" where
  "same_ends n0 n \<longleftrightarrow> arp_tbl n = arp_tbl n0 \<and> arp_tail n = arp_tail n0 \<and> net_mac n = net_mac n0 \<and> net_ip n = net_ip n0
     \<and> net_port n = net_port n0 \<and> peer_ip n = peer_ip n0 \<and> peer_port n = peer_port n0
     \<and> q_dma (tx_ring n) = q_dma (tx_ring n0)"

definition tx_carries :: "mac_addr \<Rightarrow> net_info \<Rightarrow> net_info \<Rightarrow> bytes list \<Rightarrow> bool" where
  "tx_carries mac n0 n ps \<longleftrightarrow> tx_ok n \<and> same_ends n0 n
     \<and> unat (q_tail (tx_ring n)) = (unat (q_tail (tx_ring n0)) + length ps) mod TX_DESC_NR
     \<and> (\<forall>p \<in> set ps. length p < 1500)
     \<and> (\<forall>i < length ps. tx_frame n ((unat (q_tail (tx_ring n0)) + i) mod TX_DESC_NR)
          = udp_frame mac (net_mac n0) (net_ip n0) (peer_ip n0) (net_port n0) (peer_port n0) (ps ! i))
     \<and> (\<forall>x. unat x < unat (q_dma (tx_ring n0)) \<or> unat (q_dma (tx_ring n0)) + 32768 \<le> unat x \<longrightarrow> nmem n x = nmem n0 x)"

lemma ring_distinct: "i < k \<Longrightarrow> k < 16 \<Longrightarrow> (t + i) mod 16 \<noteq> (t + k) mod (16 :: nat)"
proof
  assume a: "i < k" "k < 16" "(t + i) mod 16 = (t + k) mod 16"
  then have "16 dvd (t + k) - (t + i)" by (metis mod_eq_dvd_iff_nat add_le_cancel_left less_imp_le)
  then show False using a by (auto dest: dvd_imp_le)
qed

lemma tx_sent_frames:
  fixes q :: u8
  assumes ok: "tx_ok n" and p: "p = e1k_tx_get_pktbuf n" and s: "s = unat (q_tail (tx_ring n))"
    and f: "length f = 42 + k" and k: "k < 1500"
  defines "n1 \<equiv> tx_sent n (mem_write (nmem n) p (f @ [q])) (42 + k)"
  shows "tx_ok n1" "tx_frame n1 s = f" "same_ends n n1" "unat (q_tail (tx_ring n1)) = (s + 1) mod 16"
    "j < 16 \<Longrightarrow> j \<noteq> s \<Longrightarrow> unat (td_len (tdesc n ! j)) \<le> 2048 \<Longrightarrow> tx_frame n1 j = tx_frame n j"
    "unat x < unat (q_dma (tx_ring n)) \<or> unat (q_dma (tx_ring n)) + 32768 \<le> unat x \<Longrightarrow> nmem n1 x = nmem n x"
proof -
  have s16: "s < 16" using ok s by (simp add: tx_ok_def TX_DESC_NR_def)
  have tl: "unat ((q_tail (tx_ring n) + 1) mod 16) = (s + 1) mod 16"
    using s16 s by (simp add: unat_mod unat_word_ariths)
  show "unat (q_tail (tx_ring n1)) = (s + 1) mod 16"
    using tl by (simp add: n1_def tx_sent_def e1k_send_pkt_def Let_def const_defs)
  show "same_ends n n1" by (simp add: n1_def tx_sent_def e1k_send_pkt_def Let_def same_ends_def)
  have slot: "unat p = unat (q_dma (tx_ring n)) + s * 2048" "p = td_addr (tdesc n ! s)"
    using tx_slot [OF ok s16] p s by (simp_all add: e1k_tx_get_pktbuf_def)
  have d: "tdesc n1 = (tdesc n)[s := (tdesc n ! s)\<lparr>td_addr := p, td_len := ucast (of_nat (42 + k) :: u64), td_cmd := set_field 3 1 1 (set_field 0 1 1 0)\<rparr>]"
    by (simp add: n1_def tx_sent_def e1k_send_pkt_def Let_def s p)
  show "tx_ok n1"
    using ok s16 slot(2) tl
    by (auto simp: tx_ok_def d nth_list_update) (auto simp: n1_def tx_sent_def e1k_send_pkt_def Let_def const_defs nth_list_update)
  have mem: "nmem n1 = mem_write (nmem n) p (f @ [q])" by (simp add: n1_def tx_sent_def e1k_send_pkt_def Let_def)
  have "unat (of_nat (42 + k) :: u64) = 42 + k" using k by (simp only: unat_of_nat take_bit_eq_mod) simp
  then have "unat (ucast (of_nat (42 + k) :: u64) :: u16) = 42 + k" using k by (simp add: unsigned_ucast_eq take_bit_eq_mod)
  then show "tx_frame n1 s = f"
    using s16 ok f k read_inside_0 [of "f @ [q]" "42 + k" "nmem n" p] by (simp add: tx_frame_def d mem tx_ok_def TX_DESC_NR_def)
  show "tx_frame n1 j = tx_frame n j" if "j < 16" "j \<noteq> s" "unat (td_len (tdesc n ! j)) \<le> 2048"
    unfolding tx_frame_def mem d
    using tx_slot [OF ok that(1)] slot(1) that s16 f k ok
    by (subst read_far) (auto simp: apart_def tx_ok_def TX_DESC_NR_def)
  show "nmem n1 x = nmem n x" if "unat x < unat (q_dma (tx_ring n)) \<or> unat (q_dma (tx_ring n)) + 32768 \<le> unat x"
    unfolding mem using that slot s16 f k ok by (intro write_far) (auto simp: tx_ok_def)
qed

lemma tx_carries_step:
  assumes c: "tx_carries mac n0 n ps" and room: "length ps < 16"
    and mac: "arp_cache_lookup (peer_ip n0) n0 = Some mac" "length mac = 6" "length (net_mac n0) = 6"
    and k: "k < 1500" and d: "apart d k (q_dma (tx_ring n0)) 32768"
  obtains n1 where "uu_net_write \<lparr>b_data = d, b_sz = of_nat k\<rparr> n = (of_nat k, n1)"
    "tx_carries mac n0 n1 (ps @ [mem_read (nmem n0) d k])"
proof -
  let ?t = "unat (q_tail (tx_ring n0))"
  have ok: "tx_ok n" and ends: "same_ends n0 n" and s: "unat (q_tail (tx_ring n)) = (?t + length ps) mod 16"
    and fr: "\<forall>i < length ps. tx_frame n ((?t + i) mod 16)
          = udp_frame mac (net_mac n0) (net_ip n0) (peer_ip n0) (net_port n0) (peer_port n0) (ps ! i)"
    and len: "\<forall>p \<in> set ps. length p < 1500"
    and out: "\<forall>x. unat x < unat (q_dma (tx_ring n0)) \<or> unat (q_dma (tx_ring n0)) + 32768 \<le> unat x \<longrightarrow> nmem n x = nmem n0 x"
    using c unfolding tx_carries_def TX_DESC_NR_def by blast+
  have dma: "q_dma (tx_ring n) = q_dma (tx_ring n0)" using ends by (simp add: same_ends_def)
  have "arp_cache_lookup (peer_ip n) n = arp_cache_lookup (peer_ip n0) n0"
    using ends by (auto simp: arp_cache_lookup_def arp_end_def same_ends_def split: option.split)
  then have lk: "arp_cache_lookup (peer_ip n) n = Some mac" using mac(1) by simp
  have "nmem n (d + of_nat i) = nmem n0 (d + of_nat i)" if "i < k" for i
    using out d unat_in [OF _ that, of d] that by (auto simp: apart_def)
  then have D: "mem_read (nmem n) d k = mem_read (nmem n0) d k" by (simp add: mem_read_def)
  define f where "f = udp_frame mac (net_mac n0) (net_ip n0) (peer_ip n0) (net_port n0) (peer_port n0) (mem_read (nmem n0) d k)"
  have lf: "length f = 42 + k" using mac by (simp add: f_def length_udp_frame)
  obtain q where w: "uu_net_write \<lparr>b_data = d, b_sz = of_nat k\<rparr> n = (of_nat k, tx_sent n (mem_write (nmem n) (e1k_tx_get_pktbuf n) (f @ [q])) (42 + k))"
    using uu_net_write_ok [OF ok lk mac(2) _ k, of d] ends D mac(3) unfolding f_def same_ends_def by auto
  define n1 where "n1 = tx_sent n (mem_write (nmem n) (e1k_tx_get_pktbuf n) (f @ [q])) (42 + k)"
  note st = tx_sent_frames [OF ok refl refl lf k, where q = q, folded n1_def]
  have "tx_carries mac n0 n1 (ps @ [mem_read (nmem n0) d k])"
    unfolding tx_carries_def TX_DESC_NR_def
  proof (intro conjI allI impI ballI)
    show "tx_ok n1" by (rule st)
    show "same_ends n0 n1" using st(3) ends by (simp add: same_ends_def)
    show "unat (q_tail (tx_ring n1)) = (?t + length (ps @ [mem_read (nmem n0) d k])) mod 16"
      using st(4) s by (simp add: mod_Suc_eq)
    show "length p < 1500" if "p \<in> set (ps @ [mem_read (nmem n0) d k])" for p using that len k by auto
    show "nmem n1 x = nmem n0 x"
      if "unat x < unat (q_dma (tx_ring n0)) \<or> unat (q_dma (tx_ring n0)) + 32768 \<le> unat x" for x
      using that st(6) out dma by simp
    fix i assume i: "i < length (ps @ [mem_read (nmem n0) d k])"
    show "tx_frame n1 ((?t + i) mod 16) = udp_frame mac (net_mac n0) (net_ip n0) (peer_ip n0) (net_port n0) (peer_port n0)
        ((ps @ [mem_read (nmem n0) d k]) ! i)"
    proof (cases "i < length ps")
      case True
      then have "unat (td_len (tdesc n ! ((?t + i) mod 16))) = length (tx_frame n ((?t + i) mod 16))" by (simp add: tx_frame_def)
      also have "\<dots> \<le> 2048" using fr len True mac nth_mem [OF True] by (fastforce simp: length_udp_frame)
      finally show ?thesis
        using st(5) [of "(?t + i) mod 16"] ring_distinct [OF True room, of ?t] s fr True by (simp add: nth_append)
    next
      case False
      then show ?thesis using i st(2) s by (simp add: nth_append f_def less_Suc_eq)
    qed
  qed
  then show ?thesis using that w by (simp add: n1_def)
qed

lemma apart_split:
  assumes "apart a (k + l) b r"
  shows "apart a k b r" "apart (a + of_nat k) l b r"
proof -
  show "apart a k b r" using assms by (auto simp: apart_def)
  show "apart (a + of_nat k) l b r"
  proof (cases "l = 0 \<and> unat a + k = 2 ^ 64")
    case True
    then have "unat (a + of_nat k) = 0" using assms
      by (subst unat_word_ariths) (simp add: unat_of_nat take_bit_eq_mod mod_simps)
    then show ?thesis using assms True by (auto simp: apart_def)
  next
    case False
    then have "unat (a + of_nat k) = unat a + k" using assms unat_in [of a "k + l" k] unat_in [of a "Suc k" k]
      by (auto simp: apart_def)
    then show ?thesis using assms by (auto simp: apart_def)
  qed
qed

lemma net_write_loop_carries:
  assumes mac: "arp_cache_lookup (peer_ip n0) n0 = Some mac" "length mac = 6" "length (net_mac n0) = 6"
    and "tx_carries mac n0 n ps" and "length ps + j \<le> 16" and "apart d (j * 1458) (q_dma (tx_ring n0)) 32768"
  shows "\<exists>n' qs. net_write_loop j \<lparr>b_data = d, b_sz = 1458\<rparr> cnt n =
      (\<lparr>b_data = d + of_nat (j * 1458), b_sz = 1458\<rparr>, cnt + of_nat (j * 1458), n')
    \<and> tx_carries mac n0 n' (ps @ qs) \<and> length qs = j \<and> concat qs = mem_read (nmem n0) d (j * 1458)"
  using assms(4-)
proof (induction j arbitrary: n ps d cnt)
  case 0
  then show ?case by (auto simp: mem_read_def)
next
  case (Suc j)
  let ?q = "mem_read (nmem n0) d 1458"
  have ap: "apart d (1458 + j * 1458) (q_dma (tx_ring n0)) 32768" using Suc.prems(3) by simp
  obtain n1 where n1: "uu_net_write \<lparr>b_data = d, b_sz = 1458\<rparr> n = (1458, n1)" "tx_carries mac n0 n1 (ps @ [?q])"
    using tx_carries_step [OF Suc.prems(1) _ mac _ apart_split(1) [OF ap]] Suc.prems(2) by auto
  obtain n' qs where IH: "net_write_loop j \<lparr>b_data = d + 1458, b_sz = 1458\<rparr> (cnt + 1458) n1 =
      (\<lparr>b_data = d + 1458 + of_nat (j * 1458), b_sz = 1458\<rparr>, cnt + 1458 + of_nat (j * 1458), n')"
    "tx_carries mac n0 n' ((ps @ [?q]) @ qs)" "length qs = j" "concat qs = mem_read (nmem n0) (d + 1458) (j * 1458)"
    using Suc.IH [OF n1(2), of "d + 1458" "cnt + 1458"] Suc.prems(2) apart_split(2) [OF ap] by auto
  show ?case
    by (rule exI [of _ n'], rule exI [of _ "?q # qs"])
      (use IH n1(1) mem_read_append [of "nmem n0" d 1458 "j * 1458"] in \<open>simp add: algebra_simps\<close>)
qed

lemma tx_init_ok:
  assumes "q_dma (tx_ring n) \<noteq> 0" and "unat (q_dma (tx_ring n)) + 32768 \<le> 2 ^ 64"
  shows "tx_ok (e1k_tx_init n)"
  using assms by (simp add: tx_ok_def e1k_tx_init_def Let_def const_defs)

text \<open>A host whose card is set up and that knows its peer; the data to send lies at \<^verbatim>\<open>0x2000\<close>.\<close>

definition tx_ex :: net_info where
  "tx_ex = arp_cache_update 0x0a000002 [2, 0, 0, 0, 0, 9] (arp_init (e1k_tx_init (snd (e1k_mem_init 0x100000
     (net_ex\<lparr>nmem := mem_write (\<lambda>_. 0) 0x2000 [1, 2, 3]\<rparr>)))))"

lemma tx_ex:
  "tx_ok tx_ex" "arp_cache_lookup (peer_ip tx_ex) tx_ex = Some [2, 0, 0, 0, 0, 9]" "length (net_mac tx_ex) = 6"
  "apart 0x2000 3 (q_dma (tx_ring tx_ex)) 32768" "mem_read (nmem tx_ex) 0x2000 3 = [1, 2, 3]"
  "peer_port tx_ex = 4242" "net_port tx_ex = 1337" "q_tail (tx_ring tx_ex) = 0"
proof -
  let ?n = "e1k_tx_init (snd (e1k_mem_init 0x100000 (net_ex\<lparr>nmem := mem_write (\<lambda>_. 0) 0x2000 [1, 2, 3]\<rparr>)))"
  have i: "arp_find (arp_tbl (arp_init n)) a [0..<arp_end (arp_init n)] = None" for a n
    by (simp add: arp_init_def arp_end_def ARP_CACHE_SZ_def)
  have ex: "tx_ex = (arp_init ?n)\<lparr>arp_tbl := (arp_tbl (arp_init ?n))[0 := \<lparr>ac_mac = [2, 0, 0, 0, 0, 9], ac_ip = 0x0a000002\<rparr>], arp_tail := 1\<rparr>"
    unfolding tx_ex_def arp_cache_update_def i by (simp add: arp_init_def mac_copy_def ARP_CACHE_SZ_def)
  have "tx_ok ?n" by (rule tx_init_ok) (simp_all add: e1k_mem_init_def Let_def const_defs)
  then show "tx_ok tx_ex" by (simp add: ex tx_ok_def arp_init_def)
  show "arp_cache_lookup (peer_ip tx_ex) tx_ex = Some [2, 0, 0, 0, 0, 9]"
    by (simp add: ex arp_cache_lookup_def arp_end_def arp_init_def e1k_tx_init_def e1k_mem_init_def net_ex_def Let_def
        ARP_CACHE_SZ_def mac_copy_def)
  show "length (net_mac tx_ex) = 6" "peer_port tx_ex = 4242" "net_port tx_ex = 1337" "q_tail (tx_ring tx_ex) = 0"
    "apart 0x2000 3 (q_dma (tx_ring tx_ex)) 32768" "mem_read (nmem tx_ex) 0x2000 3 = [1, 2, 3]"
    using read_inside_0 [of "[1, 2, 3]" 3 "\<lambda>_. 0" "0x2000"]
    by (simp_all add: ex arp_init_def e1k_tx_init_def e1k_mem_init_def net_ex_def Let_def apart_def const_defs)
qed

text \<open>Writing hands the card the bytes, in order. For up to sixteen frames of data, when the ARP
  cache knows the peer, \<^verbatim>\<open>net_write\<close> accepts all bytes, and the descriptors from the old tail of the
  ring on hold, one after the other, UDP frames from this host to the peer whose payloads
  make up exactly the bytes written.\<close>

theorem net_write_fills_ring:
  assumes "tx_ok n" and "arp_cache_lookup (peer_ip n) n = Some mac" and "length mac = 6" and "length (net_mac n) = 6"
    and "unat len \<le> 16 * 1458" and "apart data (unat len) (q_dma (tx_ring n)) 32768"
  shows "\<exists>n' ps. net_write data len n = (len, n') \<and> concat ps = mem_read (nmem n) data (unat len)
    \<and> unat (q_tail (tx_ring n')) = (unat (q_tail (tx_ring n)) + length ps) mod TX_DESC_NR
    \<and> (\<forall>i < length ps. tx_frame n' ((unat (q_tail (tx_ring n)) + i) mod TX_DESC_NR)
         = udp_frame mac (net_mac n) (net_ip n) (peer_ip n) (net_port n) (peer_port n) (ps ! i))"
proof -
  define j r where "j = unat len div 1458" and "r = unat len mod 1458"
  have len: "unat len = j * 1458 + r" "r < 1458" by (simp_all add: j_def r_def)
  have sz: "DATA_FRAME_SZ = 1458" by (simp add: DATA_FRAME_SZ_def HDR_FRAME_SZ_def const_defs)
  have m: "unat (len mod 1458) = r" by (simp add: unat_mod r_def)
  from arg_cong [OF m, of "of_nat :: nat \<Rightarrow> u64"] have m': "len mod 1458 = of_nat r" by simp
  have dv: "unat (len div 1458) = j" "len mod 1458 \<noteq> 0 \<longleftrightarrow> r \<noteq> 0"
    using m by (simp add: unat_div j_def, metis m unat_eq_0)
  from arg_cong [OF len(1), of "of_nat :: nat \<Rightarrow> u64"] have whole: "of_nat (j * 1458) + of_nat r = len" by simp
  note w = net_write_def sz Let_def dv m'
  have c0: "tx_carries mac n n []" using assms(1) by (simp add: tx_carries_def same_ends_def tx_ok_def)
  have ap: "apart data (j * 1458 + r) (q_dma (tx_ring n)) 32768" using assms(6) len by simp
  obtain n1 qs where l: "net_write_loop j \<lparr>b_data = data, b_sz = 1458\<rparr> 0 n =
      (\<lparr>b_data = data + of_nat (j * 1458), b_sz = 1458\<rparr>, of_nat (j * 1458), n1)"
    "tx_carries mac n n1 qs" "length qs = j" "concat qs = mem_read (nmem n) data (j * 1458)"
    using net_write_loop_carries [OF assms(2-4) c0 _ apart_split(1) [OF ap], of 0] assms(5) len by auto
  show ?thesis
  proof (cases "r = 0")
    case True
    then have "net_write data len n = (len, n1)" using l(1) whole by (simp add: w)
    then show ?thesis using l len True by (auto simp: tx_carries_def)
  next
    case False
    then have "length qs < 16" using l(3) assms(5) len by auto
    obtain n2 where n2: "uu_net_write \<lparr>b_data = data + of_nat (j * 1458), b_sz = of_nat r\<rparr> n1 = (of_nat r, n2)"
      "tx_carries mac n n2 (qs @ [mem_read (nmem n) (data + of_nat (j * 1458)) r])"
      using tx_carries_step [OF l(2) \<open>length qs < 16\<close> assms(2-4) _ apart_split(2) [OF ap]] len(2) by auto
    have "(of_nat r :: u64) \<noteq> 0" using False dv(2) m' by simp
    then have "net_write data len n = (len, n2)" using l(1) whole n2(1) by (simp add: w)
    moreover have "concat (qs @ [mem_read (nmem n) (data + of_nat (j * 1458)) r]) = mem_read (nmem n) data (unat len)"
      using l(4) mem_read_append [of "nmem n" data "j * 1458" r] by (simp add: len(1))
    ultimately show ?thesis using n2(2) unfolding tx_carries_def by blast
  qed
qed

theorem net_write_fills_ring_witness:
  "\<exists>n' ps. net_write 0x2000 3 tx_ex = (3, n') \<and> concat ps = [1, 2, 3 :: u8]"
  using net_write_fills_ring [OF tx_ex(1,2) _ tx_ex(3), of 3 "0x2000"] tx_ex(4,5) by auto

section \<open>Receiving\<close>

lemma uu_net_read_datagram:
  assumes dd: "bit (rd_sts (rdesc r ! rx_next r)) 0" and len: "unat (rd_len (rdesc r ! rx_next r)) \<le> 2048"
    and mem: "mem_read (nmem r) (rd_addr (rdesc r ! rx_next r)) (unat (rd_len (rdesc r ! rx_next r)))
        = udp_frame dmac smac src dst sp (net_port r) payload @ rest"
    and mac: "length dmac = 6" "length smac = 6"
  shows "\<exists>r'. uu_net_read frame rcv \<lparr>b_data = data, b_sz = rm\<rparr> r = (of_nat (min (unat rm) (length payload)), r')
    \<and> mem_read (nmem r') data (min (unat rm) (length payload)) = take (unat rm) payload \<and> peer_port r' = sp
    \<and> rdesc r' = (rdesc r)[rx_next r := (rdesc r ! rx_next r)\<lparr>rd_sts := 0\<rparr>] \<and> unat (q_tail (rx_ring r')) = rx_next r"
proof -
  let ?t = "(q_tail (rx_ring r) + 1) mod 16" and ?d = "rdesc r ! rx_next r" and ?f = "udp_frame dmac smac src dst sp (net_port r) payload"
  let ?L = "unat (rd_len ?d)"
  have L: "?L = 42 + length payload + length rest"
    using arg_cong [OF mem, of length] mac by (simp add: length_udp_frame)
  define r1 where "r1 = r\<lparr>rx_ring := (rx_ring r)\<lparr>q_tail := ?t, q_dt := ?t\<rparr>,
     rdesc := (rdesc r)[rx_next r := ?d\<lparr>rd_sts := 0\<rparr>], nmem := mem_write (nmem r) frame (?f @ rest)\<rparr>"
  have recv: "e1k_recv_pkt frame RX_BUFF_SZ r = (ucast (rd_len ?d), r1)"
    using dd len mem by (simp add: e1k_recv_pkt_def Let_def RX_BUFF_SZ_def r1_def rx_next_def RX_DESC_NR_def min_def)
  have uc: "unat (ucast (rd_len ?d) :: u64) = ?L"
    using len by (simp add: unsigned_ucast_eq take_bit_eq_mod)
  then have nz: "ucast (rd_len ?d) \<noteq> (0 :: u64)" using L by (metis unat_0 add_is_0 zero_neq_numeral)
  obtain h where h: "length h = 42" "eth_dissect frame (ucast (rd_len ?d)) rcv r1 =
      (NET_DISSECT_UDP, \<lparr>b_data = frame + 42, b_sz = of_nat (length payload)\<rparr>,
       r1\<lparr>nmem := mem_write (nmem r) frame (h @ payload @ rest), peer_port := sp\<rparr>)"
    by (rule dissect_udp_frame [of r1 "nmem r" frame dmac smac src dst sp "net_port r" payload rest "ucast (rd_len ?d)" rcv])
      (use mac L len uc in \<open>auto simp: r1_def\<close>)
  define k where "k = min (unat rm) (length payload)"
  have un: "unat (of_nat (length payload) :: u64) = length payload" "unat (of_nat k :: u64) = k" using L len
    by (simp_all add: unat_of_nat take_bit_eq_mod k_def min_def)
  have mn: "min rm (of_nat (length payload)) = of_nat k"
    by (simp add: k_def min_def word_le_nat_alt un)
  have rd: "mem_read (mem_write (nmem r) frame (h @ payload @ rest)) (frame + 42) k = take (unat rm) payload"
    using read_inside [of "h @ payload @ rest" 42 k "nmem r" frame] h(1) L len by (simp add: k_def min_def)
  define M where "M = (if k = 0 then mem_write (nmem r) frame (h @ payload @ rest)
     else mem_write (mem_write (nmem r) frame (h @ payload @ rest)) data (take (unat rm) payload))"
  have "uu_net_read frame rcv \<lparr>b_data = data, b_sz = rm\<rparr> r = (of_nat k, r1\<lparr>nmem := M, peer_port := sp\<rparr>)"
    unfolding uu_net_read_def recv Let_def prod.case h(2)
    using nz mn rd un(2) by (auto simp: M_def r1_def unat_eq_0 simp flip: unat_eq_0)
  moreover have "mem_read M data k = take (unat rm) payload"
    using read_inside_0 [of "take (unat rm) payload" k _ data] L len
    by (auto simp: M_def k_def mem_read_def min_def)
  ultimately show ?thesis by (auto simp: r1_def k_def rx_next_def RX_DESC_NR_def)
qed

lemma net_write_one:
  assumes "tx_ok n" and "arp_cache_lookup (peer_ip n) n = Some mac" and "length mac = 6" and "length (net_mac n) = 6"
    and "0 < unat len" "unat len < 1458" and "apart data (unat len) (q_dma (tx_ring n)) 32768"
  shows "\<exists>n'. net_write data len n = (len, n') \<and> tx_carries mac n n' [mem_read (nmem n) data (unat len)]"
proof -
  have c0: "tx_carries mac n n []" using assms(1) by (simp add: tx_carries_def same_ends_def tx_ok_def)
  have lt: "len < 1458" using assms(6) by (simp add: word_less_nat_alt)
  then have dv: "len div 1458 = 0" "len mod 1458 = len"
    by (simp_all add: word_arith_nat_div word_arith_nat_mod word_less_nat_alt)
  obtain n' where "uu_net_write \<lparr>b_data = data, b_sz = len\<rparr> n = (len, n')" "tx_carries mac n n' [mem_read (nmem n) data (unat len)]"
    using tx_carries_step [OF c0 _ assms(2-4) _ assms(7)] assms(6) by auto
  moreover have "len \<noteq> 0" using assms(5) by auto
  ultimately show ?thesis
    by (simp add: net_write_def Let_def DATA_FRAME_SZ_def HDR_FRAME_SZ_def const_defs dv)
qed

text \<open>C25: What one end of the connection writes, the other end reads. When fewer bytes than a frame holds
  are written to a peer that the ARP cache knows, and the frame that the ring then carries arrives
  in the next receive descriptor of the peer (with or without padding behind it), a read
  of that many bytes returns exactly the bytes written, and the peer answers to the port of the sender from then on.\<close>

theorem net_write_then_read:
  assumes "tx_ok n" and "arp_cache_lookup (peer_ip n) n = Some mac" and "length mac = 6" and "length (net_mac n) = 6"
    and "0 < unat len" and "unat len < 1458" and "apart data (unat len) (q_dma (tx_ring n)) 32768"
    and "net_port r = peer_port n" and "bit (rd_sts (rdesc r ! rx_next r)) 0" and "unat (rd_len (rdesc r ! rx_next r)) \<le> 2048"
    and "mem_read (nmem r) (rd_addr (rdesc r ! rx_next r)) (unat (rd_len (rdesc r ! rx_next r)))
        = tx_frame (snd (net_write data len n)) (unat (q_tail (tx_ring n))) @ rest"
  shows "fst (net_write data len n) = len
    \<and> (\<exists>r'. net_read frame rcv dst len r = (len, r')
         \<and> mem_read (nmem r') dst (unat len) = mem_read (nmem n) data (unat len) \<and> peer_port r' = net_port n)"
proof -
  let ?D = "mem_read (nmem n) data (unat len)"
  obtain n' where n': "net_write data len n = (len, n')" "tx_carries mac n n' [?D]"
    using net_write_one [OF assms(1-7)] by blast
  have "unat (q_tail (tx_ring n)) < 16" using assms(1) by (simp add: tx_ok_def TX_DESC_NR_def)
  then have "tx_frame n' (unat (q_tail (tx_ring n))) = udp_frame mac (net_mac n) (net_ip n) (peer_ip n) (net_port n) (net_port r) ?D"
    using n'(2) assms(8) by (simp add: tx_carries_def TX_DESC_NR_def)
  then have "mem_read (nmem r) (rd_addr (rdesc r ! rx_next r)) (unat (rd_len (rdesc r ! rx_next r)))
      = udp_frame mac (net_mac n) (net_ip n) (peer_ip n) (net_port n) (net_port r) ?D @ rest"
    using assms(11) n'(1) by simp
  from uu_net_read_datagram [OF assms(9,10) this assms(3,4), of frame rcv dst len]
  obtain r' where r': "uu_net_read frame rcv \<lparr>b_data = dst, b_sz = len\<rparr> r = (len, r')"
    "mem_read (nmem r') dst (unat len) = ?D" "peer_port r' = net_port n" by auto
  have "len < 1458" "len \<noteq> 0" using assms(5,6) by (auto simp: word_less_nat_alt)
  then have "net_read frame rcv dst len r = (len, r')"
    using r'(1) by (simp add: net_read_def Let_def DATA_FRAME_SZ_def HDR_FRAME_SZ_def const_defs
        word_arith_nat_div word_arith_nat_mod word_less_nat_alt)
  then show ?thesis using r' n'(1) by simp
qed

text \<open>The peer of \<open>tx_ex\<close>, with a frame in the receive buffer of each descriptor.\<close>

definition rx_ex :: "bytes \<Rightarrow> net_info" where
  "rx_ex f = net_ex\<lparr>net_port := 4242, nmem := mem_write (\<lambda>_. 0) 0x200000 f,
     rdesc := replicate 16 \<lparr>rd_addr = 0x200000, rd_len = of_nat (length f), rd_sts = 1\<rparr>\<rparr>"

theorem net_write_then_read_witness:
  "\<exists>r'. net_read 0x4000 \<lparr>b_data = 0, b_sz = 0\<rparr> 0x3000 3 (rx_ex (tx_frame (snd (net_write 0x2000 3 tx_ex)) 0)) = (3, r')
    \<and> mem_read (nmem r') 0x3000 3 = [1, 2, 3]"
proof -
  let ?f = "tx_frame (snd (net_write 0x2000 3 tx_ex)) 0" and ?r = "rx_ex (tx_frame (snd (net_write 0x2000 3 tx_ex)) 0)"
  have mac: "length [2, 0, 0, 0, 0, 9 :: u8] = 6" by simp
  have "\<exists>n'. net_write 0x2000 3 tx_ex = (3, n') \<and> tx_carries [2, 0, 0, 0, 0, 9] tx_ex n' [[1, 2, 3]]"
    using net_write_one [OF tx_ex(1,2) mac tx_ex(3), of 3 "0x2000"] tx_ex(4,5) by simp
  then have l: "length ?f = 45" using tx_ex(3,8) by (auto simp: tx_carries_def TX_DESC_NR_def length_udp_frame)
  have d: "rdesc ?r ! rx_next ?r = \<lparr>rd_addr = 0x200000, rd_len = 45, rd_sts = 1\<rparr>"
    by (simp add: rx_ex_def rx_next_def net_ex_def RX_DESC_NR_def l)
  have m: "mem_read (nmem ?r) 0x200000 45 = ?f"
    using read_inside_0 [of ?f 45 "\<lambda>_. 0" "0x200000"] l by (simp add: rx_ex_def)
  show ?thesis
    using net_write_then_read [OF tx_ex(1,2) mac tx_ex(3), of 3 "0x2000" ?r "[]" "0x4000" "\<lparr>b_data = 0, b_sz = 0\<rparr>" "0x3000"]
      tx_ex(4-8) d m by (auto simp: rx_ex_def net_ex_def)
qed

lemma ip_ck_valid: "ck_field (ip_bytes s d p l (ck_field (ip_bytes s d p l 0))) = 0"
proof -
  let ?pre = "[0x45, 0] @ be16 (ucast l) @ [0, 1, 0, 0, 0xff, p]"
  have "ip_bytes s d p l c = ?pre @ be16 c @ (be32 s @ be32 d)" for c by (simp add: ip_bytes_def)
  then show ?thesis using ck_insert(1) [of ?pre "be32 s @ be32 d"] by (simp only: length_append) (simp add: length_hdr_bytes)
qed

lemma udp_ck_valid: "ck_field (udp_psd s d sp dp (udp_ck (udp_psd s d sp dp 0 payload)) payload) = 0"
proof -
  let ?l = "8 + of_nat (length payload) :: u64"
  let ?pre = "psd_bytes s d ?l @ be16 sp @ be16 dp @ be16 (ucast ?l)"
  have "udp_psd s d sp dp c payload = ?pre @ be16 c @ padded payload" for c
    by (simp add: udp_psd_def udp_bytes_def padded_def)
  then show ?thesis using ck_insert(2) [of ?pre "padded payload"] by simp
qed

text \<open>The checksums of a sent datagram verify. In the frame that \<^verbatim>\<open>net_gen_udp_pkt\<close> builds, the checksum of
  RFC 1071 over the IP header is zero, and so is the one over the pseudo header followed by the
  datagram, padded to an even length.\<close>

theorem net_gen_udp_checksums:
  assumes "arp_cache_lookup ip n = Some mac" and "length mac = 6" and "length (net_mac n) = 6" and "k < 65000"
    and "net_gen_udp_pkt ip port pkt (of_nat k) n = (l, n')"
    and "mem_read m b (length bs) = bs"
    and "bs = padded (psd_bytes (net_ip n) ip (8 + of_nat k) @ mem_read (nmem n') (pkt + 34) (8 + k))"
  shows "rfc1071_checksum (nmem n') (pkt + 14) 20 = 0 \<and> rfc1071_checksum m b (of_nat (length bs)) = 0"
proof -
  let ?src = "net_ip n"
  obtain m0 xs where m0: "nmem n = mem_write m0 pkt xs" "length xs = 43 + k"
    using block_cases [of "43 + k" "nmem n" pkt] assms(4) by auto
  define P where "P = take k (drop 42 xs)"
  have P: "length P = k" using m0(2) by (simp add: P_def)
  have "length (drop (42 + k) xs) = Suc 0" using m0(2) by simp
  then obtain q where "drop (42 + k) xs = [q]" by (auto simp: length_Suc_conv simp del: length_drop)
  then have "xs = take 42 xs @ P @ [q]"
    using append_take_drop_id [of 42 xs] append_take_drop_id [of k "drop 42 xs"] by (simp add: P_def add.commute)
  then have mem: "nmem n = mem_write m0 pkt (take 42 xs @ P @ [q])" using m0(1) by simp
  define f where "f = udp_frame mac (net_mac n) ?src ip (net_port n) port P"
  obtain q' where n': "nmem n' = mem_write m0 pkt (f @ [q'])"
    using net_gen_udp_block [OF assms(1-3) mem, of port] assms(4,5) P m0(2) by (auto simp: f_def)
  have lf: "length f = 42 + k" using assms(2,3) P by (simp add: f_def length_udp_frame)
  let ?d = "8 + of_nat k :: u64"
  let ?ip = "\<lambda>c. ip_bytes ?src ip IP_PROTO_UDP (20 + ?d) c"
  let ?c = "udp_ck (udp_psd ?src ip (net_port n) port 0 P)"
  have "mem_read (nmem n') (pkt + 14) 20 = ?ip (ck_field (?ip 0))"
    using read_inside [of "f @ [q']" 14 20 m0 pkt] lf assms(2-4) P by (simp add: n' f_def udp_frame_def Let_def)
  then have "rfc1071_checksum (nmem n') (pkt + 14) 20 = ck_field (?ip (ck_field (?ip 0)))"
    using rfc1071_block [of 10 20 "nmem n'" "pkt + 14"] by simp
  then have "rfc1071_checksum (nmem n') (pkt + 14) 20 = 0" by (simp only: ip_ck_valid)
  moreover have "mem_read (nmem n') (pkt + 34) (8 + k) = udp_bytes (net_port n) port ?d ?c @ P"
    using read_inside [of "f @ [q']" 34 "8 + k" m0 pkt] lf assms(2-4) P by (simp add: n' f_def udp_frame_def Let_def)
  then have bs: "bs = udp_psd ?src ip (net_port n) port ?c P" using assms(7) P by (simp add: udp_psd_def)
  have lb: "length bs \<le> 20 + Suc k" "even (length bs)" using P by (auto simp: bs udp_psd_def padded_def)
  then have un: "unat (of_nat (length bs) :: u64) = length bs" using assms(4) by (simp add: unat_of_nat take_bit_eq_mod)
  have "rfc1071_checksum m b (of_nat (length bs)) = ck_field bs"
    using rfc1071_block [of "length bs div 2" "of_nat (length bs)" m b] lb un assms(4,6) by auto
  then have "rfc1071_checksum m b (of_nat (length bs)) = 0" by (simp only: bs udp_ck_valid)
  ultimately show ?thesis by blast
qed

theorem net_gen_udp_checksums_witness:
  "rfc1071_checksum (nmem (snd (net_gen_udp_pkt 0x0a000002 4242 0x100000 3 tx_ex))) 0x10000e 20 = 0"
proof -
  let ?N = "net_gen_udp_pkt 0x0a000002 4242 0x100000 3 tx_ex"
  let ?bs = "padded (psd_bytes (net_ip tx_ex) 0x0a000002 11 @ mem_read (nmem (snd ?N)) (0x100000 + 34) 11)"
  have "peer_ip tx_ex = 0x0a000002"
    using tx_ex(2) by (simp add: tx_ex_def arp_cache_update_def arp_init_def e1k_tx_init_def e1k_mem_init_def net_ex_def Let_def
        split: option.splits)
  then have lk: "arp_cache_lookup 0x0a000002 tx_ex = Some [2, 0, 0, 0, 0, 9]" using tx_ex(2) by simp
  have "length ?bs \<le> 24" by (simp add: padded_def)
  then have b: "mem_read (mem_write (\<lambda>_. 0) 0 ?bs) 0 (length ?bs) = ?bs" using read_inside_0 [of ?bs "length ?bs" _ 0] by simp
  show ?thesis
    using net_gen_udp_checksums [OF lk _ tx_ex(3), of 3 4242 "0x100000" "fst ?N" "snd ?N", OF _ _ _ b] by simp
qed

section \<open>Lengths that lie\<close>

text \<open>A datagram whose length field is smaller than its own header: the size handed to the reader wraps
  around, so a read returns as many bytes as it asked for from behind the frame.\<close>

lemma udp_short_length_wraps:
  assumes l: "l = swap16 (get16 (nmem n) (hdr + 4))" "unat l < 8" "8 \<le> unat len"
  shows "b_sz (fst (snd (udp_dissect hdr len n))) = ucast l - 8"
proof -
  obtain m xs where m: "nmem n = mem_write m hdr xs" "length xs = 8" using block_cases [of 8 "nmem n" hdr] by auto
  define M where "M = put16 (put16 (nmem n) hdr (swap16 (get16 (nmem n) hdr))) (hdr + 2)
     (swap16 (get16 (put16 (nmem n) hdr (swap16 (get16 (nmem n) hdr))) (hdr + 2)))"
  have g: "get16 M (hdr + 4) = get16 (nmem n) (hdr + 4)"
    using m(2) by (simp add: M_def m(1) put16_def block_simps patch_def)
  have "unat (ucast l :: u64) = unat l" using l(2) by (simp add: unsigned_ucast_eq take_bit_eq_mod)
  then have "(ucast l :: u64) \<le> len" using l by (simp add: word_le_nat_alt)
  then show ?thesis using g l(1)
    by (simp add: udp_dissect_def Let_def get_put16 min_def udp_hdr_sz_def flip: M_def)
qed

section \<open>Polling the receive ring\<close>

definition rx_poll :: "offset_t \<Rightarrow> u64 \<Rightarrow> net_info \<Rightarrow> net_info" where
  "rx_poll a l n = snd (e1k_recv_pkt a l n)"

definition rx_at :: "net_info \<Rightarrow> nat \<Rightarrow> net_info" where
  "rx_at n t = n\<lparr>rx_ring := (rx_ring n)\<lparr>q_tail := of_nat (t mod 16)\<rparr>\<rparr>"

lemma rx_next_at: "rx_next (rx_at n t) = (t + 1) mod 16"
proof -
  have "unat (of_nat (t mod 16) :: u32) = t mod 16" by (simp add: unat_of_nat take_bit_eq_mod)
  then have "unat (of_nat (t mod 16) + 1 :: u32) = t mod 16 + 1" by (subst unat_word_ariths) simp
  then show ?thesis by (simp add: rx_next_def rx_at_def RX_DESC_NR_def unat_mod mod_Suc_eq)
qed

lemma rx_poll_at:
  assumes "d = rdesc n ! ((t + 1) mod 16)"
  shows "\<not> bit (rd_sts d) 0 \<Longrightarrow> e1k_recv_pkt a l (rx_at n t) = (0, rx_at n (t + 1))"
    "bit (rd_sts d) 0 \<Longrightarrow> fst (e1k_recv_pkt a l (rx_at n t)) = ucast (rd_len d)"
proof -
  let ?t = "(q_tail (rx_ring (rx_at n t)) + 1) mod of_nat RX_DESC_NR"
  have u: "unat ?t = (t + 1) mod 16" using rx_next_at [of n t] by (simp add: rx_next_def)
  from arg_cong [OF this, of "of_nat :: nat \<Rightarrow> u32"] have t: "?t = of_nat ((t + 1) mod 16)" by simp
  have r: "rdesc (rx_at n t) = rdesc n" by (simp add: rx_at_def)
  show "e1k_recv_pkt a l (rx_at n t) = (0, rx_at n (t + 1))" if "\<not> bit (rd_sts d) 0"
    using that assms u r unfolding e1k_recv_pkt_def Let_def t by (simp add: rx_at_def)
  show "fst (e1k_recv_pkt a l (rx_at n t)) = ucast (rd_len d)" if "bit (rd_sts d) 0"
    using that assms u r unfolding e1k_recv_pkt_def Let_def t by simp
qed

lemma rx_empty_polls:
  assumes "\<forall>j < k. \<not> bit (rd_sts (rdesc n ! ((t + 1 + j) mod 16))) 0"
  shows "(rx_poll a l ^^ k) (rx_at n t) = rx_at n (t + k)"
  using assms
proof (induction k)
  case (Suc k)
  then have "(rx_poll a l ^^ k) (rx_at n t) = rx_at n (t + k)" by simp
  moreover have "\<not> bit (rd_sts (rdesc n ! ((t + k + 1) mod 16))) 0" using Suc.prems by (simp add: algebra_simps)
  then have "rx_poll a l (rx_at n (t + k)) = rx_at n (t + Suc k)"
    using rx_poll_at(1) [OF refl, of n "t + k" a l] by (simp add: rx_poll_def)
  ultimately show ?case by simp
qed simp

text \<open>A poll of an empty receive ring loses its place. When \<^verbatim>\<open>e1k_recv_pkt\<close> finds no frame it still moves the
  tail on, so the frame that the card then puts in the very descriptor just looked at is not returned by
  the next fifteen calls, only by the sixteenth.\<close>

theorem e1k_empty_poll_delays:
  assumes "\<forall>j < 16. \<not> bit (rd_sts (rdesc n ! j)) 0" and "length (rdesc n) = 16" and "unat (q_tail (rx_ring n)) < 16"
    and "bit (rd_sts d) 0" and "k < 15"
  shows "fst (e1k_recv_pkt a l n) = 0
    \<and> fst (e1k_recv_pkt a l ((rx_poll a l ^^ k) ((rx_poll a l n)\<lparr>rdesc := (rdesc n)[rx_next n := d]\<rparr>))) = 0
    \<and> fst (e1k_recv_pkt a l ((rx_poll a l ^^ 15) ((rx_poll a l n)\<lparr>rdesc := (rdesc n)[rx_next n := d]\<rparr>))) = ucast (rd_len d)"
proof -
  let ?t = "unat (q_tail (rx_ring n))"
  have n: "n = rx_at n ?t" using assms(3) by (simp add: rx_at_def)
  have i: "rx_next n = (?t + 1) mod 16" using n rx_next_at by metis
  have e: "e1k_recv_pkt a l n = (0, rx_at n (?t + 1))" using rx_poll_at(1) [OF refl, of n ?t a l] assms(1) n by simp
  define m where "m = n\<lparr>rdesc := (rdesc n)[rx_next n := d]\<rparr>"
  have m: "(rx_poll a l n)\<lparr>rdesc := (rdesc n)[rx_next n := d]\<rparr> = rx_at m (?t + 1)"
    by (simp add: rx_poll_def e m_def rx_at_def)
  have other: "\<not> bit (rd_sts (rdesc m ! ((?t + 1 + 1 + j) mod 16))) 0" if "j < 15" for j
  proof -
    have "(?t + 1 + 1 + j) mod 16 \<noteq> (?t + 1) mod 16" using ring_distinct [of 0 "Suc j" "?t + 1"] that by (simp add: algebra_simps)
    then show ?thesis using assms(1) i by (simp add: m_def)
  qed
  have p: "(rx_poll a l ^^ j) (rx_at m (?t + 1)) = rx_at m (?t + 1 + j)" if "j \<le> 15" for j
    using rx_empty_polls [of j m "?t + 1"] other that by simp
  have "fst (e1k_recv_pkt a l (rx_at m (?t + 1 + k))) = 0"
    using rx_poll_at(1) [OF refl, of m "?t + 1 + k"] other [of k] assms(5) by (simp add: algebra_simps)
  moreover have "(t + 1 + 15 + 1) mod 16 = (t + 1) mod 16" for t :: nat
    using mod_add_self2 [of "t + 1" 16] by (simp add: add.commute)
  then have "rdesc m ! ((?t + 1 + 15 + 1) mod 16) = d" using assms(2) i by (simp add: m_def)
  then have "fst (e1k_recv_pkt a l (rx_at m (?t + 1 + 15))) = ucast (rd_len d)"
    using rx_poll_at(2) [OF refl, of m "?t + 1 + 15" a l] assms(4) by simp
  ultimately show ?thesis using e m p assms(5) by simp
qed

theorem e1k_empty_poll_delays_witness:
  "fst (e1k_recv_pkt 0x4000 2048 (e1k_rx_init 0 net_ex)) = 0
   \<and> fst (e1k_recv_pkt 0x4000 2048 ((rx_poll 0x4000 2048 ^^ 14) ((rx_poll 0x4000 2048 (e1k_rx_init 0 net_ex))
        \<lparr>rdesc := (rdesc (e1k_rx_init 0 net_ex))[rx_next (e1k_rx_init 0 net_ex) := \<lparr>rd_addr = 0x200000, rd_len = 60, rd_sts = 1\<rparr>]\<rparr>))) = 0"
proof -
  have "\<forall>j < 16. \<not> bit (rd_sts (rdesc (e1k_rx_init 0 net_ex) ! j)) 0" "length (rdesc (e1k_rx_init 0 net_ex)) = 16"
    "unat (q_tail (rx_ring (e1k_rx_init 0 net_ex))) < 16"
    by (simp_all add: e1k_rx_init_def Let_def RX_DESC_NR_def)
  from e1k_empty_poll_delays [OF this, of "\<lparr>rd_addr = 0x200000, rd_len = 60, rd_sts = 1\<rparr>" 14 "0x4000" 2048]
  show ?thesis by simp
qed

end
