(* ===== verification/Net_Arp.thy ===== *)
theory Net_Arp
  imports Net
begin

text \<open>
  The ARP cache of \<^verbatim>\<open>arp.c\<close> as a finite map with replacement, and a case where it hides its entries.
\<close>

section \<open>The cache\<close>

definition arp_ok :: "net_info \<Rightarrow> bool" where
  "arp_ok n \<longleftrightarrow> length (arp_tbl n) = ARP_CACHE_SZ \<and> arp_tail n < ARP_CACHE_SZ
     \<and> (\<forall>e \<in> set (arp_tbl n). length (ac_mac e) = 6)
     \<and> (\<forall>i < arp_tail n. ac_ip (arp_tbl n ! i) \<noteq> 0)
     \<and> ((\<forall>i < ARP_CACHE_SZ. arp_tail n \<le> i \<longrightarrow> ac_ip (arp_tbl n ! i) = 0)
        \<or> (\<forall>i < ARP_CACHE_SZ. ac_ip (arp_tbl n ! i) \<noteq> 0))
     \<and> (\<forall>i < ARP_CACHE_SZ. \<forall>j < ARP_CACHE_SZ. ac_ip (arp_tbl n ! i) \<noteq> 0 \<longrightarrow>
          ac_ip (arp_tbl n ! i) = ac_ip (arp_tbl n ! j) \<longrightarrow> i = j)"

lemma arp_find_None: "arp_find c ip is = None \<longleftrightarrow> (\<forall>i \<in> set is. ac_ip (c ! i) \<noteq> ip)"
  by (induction "is") auto

lemma arp_find_Some: "arp_find c ip is = Some i \<Longrightarrow> i \<in> set is \<and> ac_ip (c ! i) = ip"
  by (induction "is") (auto split: if_splits)

lemma of_le_bytes_inj:
  assumes "length xs = k" "length ys = k" "8 * k \<le> LENGTH('a)"
  shows "(of_le_bytes xs :: 'a::len word) = of_le_bytes ys \<longleftrightarrow> xs = ys"
  using assms le_bytes_of_le_bytes by metis

lemma mac_cmp_eq:
  assumes l: "length m1 = 6" "length m2 = 6"
  shows "mac_cmp m1 m2 \<longleftrightarrow> m1 = m2"
proof -
  have "mac_cmp m1 m2 \<longleftrightarrow> take 4 m1 = take 4 m2 \<and> take 2 (drop 4 m1) = take 2 (drop 4 m2)"
    using l of_le_bytes_inj [of "take 4 m1" 4 "take 4 m2", where 'a = 32]
      of_le_bytes_inj [of "take 2 (drop 4 m1)" 2 "take 2 (drop 4 m2)", where 'a = 16]
    by (simp add: mac_cmp_def)
  moreover have "take 2 (drop 4 m1) = drop 4 m1" "take 2 (drop 4 m2) = drop 4 m2" using l by simp_all
  ultimately show ?thesis by (metis append_take_drop_id)
qed

lemma arp_visible:
  assumes "arp_ok n" and "ip \<noteq> 0" and "i < 256" and "ac_ip (arp_tbl n ! i) = ip"
  shows "i < arp_end n"
  using assms by (auto simp: arp_ok_def arp_end_def ARP_CACHE_SZ_def not_le [symmetric])

lemma arp_find_at:
  assumes "arp_ok n" and "ip \<noteq> 0" and "i < 256" and "ac_ip (arp_tbl n ! i) = ip"
  shows "arp_find (arp_tbl n) ip [0..<arp_end n] = Some i"
proof (cases "arp_find (arp_tbl n) ip [0..<arp_end n]")
  case None
  then show ?thesis using arp_visible [OF assms] assms(4) by (simp add: arp_find_None)
next
  case (Some j)
  then have "j < arp_end n" "ac_ip (arp_tbl n ! j) = ip" using arp_find_Some by fastforce+
  moreover have "arp_end n \<le> 256" using assms(1) by (simp add: arp_ok_def arp_end_def ARP_CACHE_SZ_def)
  ultimately have "j = i" using assms by (auto simp: arp_ok_def ARP_CACHE_SZ_def)
  then show ?thesis using Some by simp
qed

lemma mac_copy_id: "length mac = 6 \<Longrightarrow> mac_copy mac = mac"
  by (simp add: mac_copy_def)

lemma arp_lookup_iff:
  assumes "arp_ok n" and "ip \<noteq> 0"
  shows "arp_cache_lookup ip n = Some mac \<longleftrightarrow> (\<exists>i < 256. ac_ip (arp_tbl n ! i) = ip \<and> ac_mac (arp_tbl n ! i) = mac)"
proof -
  have len: "length (ac_mac (arp_tbl n ! i)) = 6" if "i < 256" for i
    using assms(1) that by (simp add: arp_ok_def ARP_CACHE_SZ_def)
  have e: "arp_end n \<le> 256" using assms(1) by (simp add: arp_ok_def arp_end_def ARP_CACHE_SZ_def)
  show ?thesis
  proof
    assume "arp_cache_lookup ip n = Some mac"
    then obtain i where "arp_find (arp_tbl n) ip [0..<arp_end n] = Some i" "mac = mac_copy (ac_mac (arp_tbl n ! i))"
      by (auto simp: arp_cache_lookup_def split: option.splits)
    then show "\<exists>i < 256. ac_ip (arp_tbl n ! i) = ip \<and> ac_mac (arp_tbl n ! i) = mac"
      using arp_find_Some [of "arp_tbl n" ip "[0..<arp_end n]" i] e len [of i] by (intro exI [of _ i]) (auto simp: mac_copy_id)
  next
    assume "\<exists>i < 256. ac_ip (arp_tbl n ! i) = ip \<and> ac_mac (arp_tbl n ! i) = mac"
    then obtain i where i: "i < 256" "ac_ip (arp_tbl n ! i) = ip" "ac_mac (arp_tbl n ! i) = mac" by blast
    then show "arp_cache_lookup ip n = Some mac"
      using arp_find_at [OF assms i(1,2)] len [of i] by (simp add: arp_cache_lookup_def mac_copy_id)
  qed
qed

lemma arp_update_known:
  assumes ok: "arp_ok n" and ip: "ip \<noteq> 0" and mac: "length mac = 6" and i: "i < 256" "ac_ip (arp_tbl n ! i) = ip"
  shows "arp_cache_update ip mac n = n\<lparr>arp_tbl := (arp_tbl n)[i := \<lparr>ac_mac = mac, ac_ip = ip\<rparr>]\<rparr>"
proof -
  have l: "length (arp_tbl n) = 256" "length (ac_mac (arp_tbl n ! i)) = 6"
    using ok i by (simp_all add: arp_ok_def ARP_CACHE_SZ_def)
  have e: "(arp_tbl n ! i)\<lparr>ac_mac := mac\<rparr> = \<lparr>ac_mac = mac, ac_ip = ip\<rparr>" using i(2) by simp
  show ?thesis
  proof (cases "ac_mac (arp_tbl n ! i) = mac")
    case True
    then have "arp_tbl n ! i = \<lparr>ac_mac = mac, ac_ip = ip\<rparr>" using i(2) by simp
    then have "(arp_tbl n)[i := \<lparr>ac_mac = mac, ac_ip = ip\<rparr>] = arp_tbl n" by (metis list_update_id)
    then show ?thesis using True arp_find_at [OF ok ip i] l mac by (simp add: arp_cache_update_def mac_cmp_eq)
  next
    case False
    then show ?thesis using arp_find_at [OF ok ip i] l mac e by (simp add: arp_cache_update_def mac_cmp_eq mac_copy_id)
  qed
qed

lemma arp_update_new:
  assumes ok: "arp_ok n" and ip: "ip \<noteq> 0" and mac: "length mac = 6" and new: "\<forall>i < 256. ac_ip (arp_tbl n ! i) \<noteq> ip"
  shows "arp_cache_update ip mac n = n\<lparr>arp_tbl := (arp_tbl n)[arp_tail n := \<lparr>ac_mac = mac, ac_ip = ip\<rparr>],
     arp_tail := (arp_tail n + 1) mod 256\<rparr>"
proof -
  have "arp_end n \<le> 256" using ok by (simp add: arp_ok_def arp_end_def ARP_CACHE_SZ_def)
  then have "arp_find (arp_tbl n) ip [0..<arp_end n] = None" using new by (auto simp: arp_find_None)
  then show ?thesis using mac by (simp add: arp_cache_update_def mac_copy_id ARP_CACHE_SZ_def)
qed

lemma arp_update_ok:
  assumes ok: "arp_ok n" and ip: "ip \<noteq> 0" and mac: "length mac = 6"
  shows "arp_ok (arp_cache_update ip mac n)"
proof (cases "\<exists>i < 256. ac_ip (arp_tbl n ! i) = ip")
  case True
  then obtain i where i: "i < 256" "ac_ip (arp_tbl n ! i) = ip" by blast
  have "ac_ip ((arp_tbl n)[i := \<lparr>ac_mac = mac, ac_ip = ip\<rparr>] ! j) = ac_ip (arp_tbl n ! j)" for j
    using i ok by (cases "j = i") (simp_all add: arp_ok_def ARP_CACHE_SZ_def)
  then show ?thesis unfolding arp_update_known [OF ok ip mac i] using ok mac
    by (auto simp: arp_ok_def dest!: set_update_subset_insert [THEN subsetD])
next
  case False
  then have new: "\<forall>i < 256. ac_ip (arp_tbl n ! i) \<noteq> ip" by blast
  let ?t = "arp_tail n" and ?c = "(arp_tbl n)[arp_tail n := \<lparr>ac_mac = mac, ac_ip = ip\<rparr>]"
  have t: "?t < 256" "length (arp_tbl n) = 256" using ok by (simp_all add: arp_ok_def ARP_CACHE_SZ_def)
  have c: "ac_ip (?c ! j) = (if j = ?t then ip else ac_ip (arp_tbl n ! j))" for j using t by (simp add: nth_list_update)
  have tl: "(?t + 1) mod 256 = (if ?t = 255 then 0 else ?t + 1)" using t by (simp add: mod_if)
  have "\<forall>e \<in> set ?c. length (ac_mac e) = 6"
    using ok mac by (auto simp: arp_ok_def dest!: set_update_subset_insert [THEN subsetD])
  moreover have "(\<forall>i < 256. ?t \<le> i \<longrightarrow> ac_ip (arp_tbl n ! i) = 0) \<or> (\<forall>i < 256. ac_ip (arp_tbl n ! i) \<noteq> 0)"
    "\<forall>i < ?t. ac_ip (arp_tbl n ! i) \<noteq> 0"
    "\<forall>i < 256. \<forall>j < 256. ac_ip (arp_tbl n ! i) \<noteq> 0 \<longrightarrow> ac_ip (arp_tbl n ! i) = ac_ip (arp_tbl n ! j) \<longrightarrow> i = j"
    using ok by (simp_all add: arp_ok_def ARP_CACHE_SZ_def)
  ultimately show ?thesis unfolding arp_update_new [OF ok ip mac new] tl
    using ip new t unfolding arp_ok_def ARP_CACHE_SZ_def
    by (auto simp: c less_Suc_eq)
qed

lemma arp_init_ok: "arp_ok (arp_init n)"
  by (auto simp: arp_ok_def arp_init_def ARP_CACHE_SZ_def)

lemma arp_lookup_update:
  assumes ok: "arp_ok n" and ip: "ip \<noteq> 0" and mac: "length mac = 6" and ip': "ip' \<noteq> 0"
  shows "arp_cache_lookup ip' (arp_cache_update ip mac n) = (if ip' = ip then Some mac
     else if arp_cache_lookup ip n = None \<and> ip' = ac_ip (arp_tbl n ! arp_tail n) then None else arp_cache_lookup ip' n)"
proof -
  let ?n = "arp_cache_update ip mac n" and ?t = "arp_tail n"
  have t: "?t < 256" "length (arp_tbl n) = 256" using ok by (simp_all add: arp_ok_def ARP_CACHE_SZ_def)
  have uniq: "i < 256 \<Longrightarrow> j < 256 \<Longrightarrow> ac_ip (arp_tbl n ! i) = ip' \<Longrightarrow> ac_ip (arp_tbl n ! j) = ip' \<Longrightarrow> i = j" for i j
    using ok ip' by (auto simp: arp_ok_def ARP_CACHE_SZ_def)
  note iff = arp_lookup_iff [OF arp_update_ok [OF ok ip mac] ip'] arp_lookup_iff [OF ok ip']
  have opt: "(\<And>m. a = Some m \<longleftrightarrow> b = Some m) \<Longrightarrow> a = b" for a b :: "mac_addr option"
    by (cases a; cases b) auto
  show ?thesis
  proof (cases "\<exists>i < 256. ac_ip (arp_tbl n ! i) = ip")
    case True
    then obtain i where i: "i < 256" "ac_ip (arp_tbl n ! i) = ip" by blast
    then have "arp_cache_lookup ip n \<noteq> None" using arp_lookup_iff [OF ok ip] by blast
    moreover have "arp_tbl ?n = (arp_tbl n)[i := \<lparr>ac_mac = mac, ac_ip = ip\<rparr>]"
      by (simp add: arp_update_known [OF ok ip mac i])
    then have "arp_cache_lookup ip' ?n = Some m \<longleftrightarrow> (if ip' = ip then m = mac else arp_cache_lookup ip' n = Some m)" for m
      unfolding iff using i t uniq by (auto simp: nth_list_update) metis+
    ultimately show ?thesis by (intro opt) auto
  next
    case False
    then have new: "\<forall>i < 256. ac_ip (arp_tbl n ! i) \<noteq> ip" by blast
    then have "arp_cache_lookup ip n = None" using arp_lookup_iff [OF ok ip] by (metis option.exhaust)
    moreover have "arp_tbl ?n = (arp_tbl n)[?t := \<lparr>ac_mac = mac, ac_ip = ip\<rparr>]"
      by (simp add: arp_update_new [OF ok ip mac new])
    then have "arp_cache_lookup ip' ?n = Some m \<longleftrightarrow>
        (if ip' = ip then m = mac else ip' \<noteq> ac_ip (arp_tbl n ! ?t) \<and> arp_cache_lookup ip' n = Some m)" for m
      unfolding iff using new t uniq by (auto simp: nth_list_update) metis+
    ultimately show ?thesis by (intro opt) auto
  qed
qed

text \<open>C26: The ARP cache is a map of at most 256 hosts with replacement in turn. Learning an address keeps the
  table well formed, the address is then found with the learnt hardware address, and every other
  address is found as before, except the one in the slot that a new host takes over. Both the address
  that is learnt and the one that is looked up are not zero: zero marks a free slot, and learning it
  from a probe breaks the table (\<open>arp_probe_hides_hosts\<close>).\<close>

theorem arp_cache_refines_map:
  assumes "arp_ok n" and "ip \<noteq> 0" and "length mac = 6"
  shows "arp_ok (arp_cache_update ip mac n)
    \<and> arp_cache_lookup ip (arp_cache_update ip mac n) = Some mac
    \<and> (\<forall>ip'. ip' \<noteq> 0 \<and> ip' \<noteq> ip \<longrightarrow> arp_cache_lookup ip' (arp_cache_update ip mac n) =
         (if arp_cache_lookup ip n = None \<and> ip' = ac_ip (arp_tbl n ! arp_tail n) then None else arp_cache_lookup ip' n))"
  using arp_update_ok [OF assms] arp_lookup_update [OF assms] assms(2) by auto

theorem arp_cache_refines_map_witness:
  "arp_cache_lookup 0x0a000002 (arp_cache_update 0x0a000002 [2, 0, 0, 0, 0, 9] (arp_init net_ex)) = Some [2, 0, 0, 0, 0, 9]"
  using arp_cache_refines_map [where n = "arp_init net_ex" and ip = "0x0a000002" and mac = "[2, 0, 0, 0, 0, 9]", OF arp_init_ok]
  by simp

section \<open>A probe in the cache\<close>

text \<open>A host that probes for its own address sends the sender address zero (RFC 5227); \<^verbatim>\<open>arp_cache_update\<close>
  stores it, while both loops take an entry with address zero at \<^verbatim>\<open>tail\<close> for the end of the table.\<close>

definition learn :: "(ip_addr \<Rightarrow> mac_addr) \<Rightarrow> ip_addr list \<Rightarrow> net_info \<Rightarrow> net_info" where
  "learn macs ips n = fold (\<lambda>ip. arp_cache_update ip (macs ip)) ips n"

lemma learn_after_probe:
  fixes macs :: "ip_addr \<Rightarrow> mac_addr" and n :: net_info
  assumes "distinct ips" and "0 \<notin> set ips" and "length ips \<le> 255"
  defines "n' \<equiv> learn macs (0 # ips) (arp_init n)"
  shows "length (arp_tbl n') = 256 \<and> arp_tail n' = (1 + length ips) mod 256
    \<and> (\<forall>i < 256. ac_ip (arp_tbl n' ! i) = (if i = 0 \<or> length ips < i then 0 else ips ! (i - 1)))"
  using assms(1-3) unfolding n'_def
proof (induction ips rule: rev_induct)
  case Nil
  have "arp_end (arp_init n) = 0" by (simp add: arp_end_def arp_init_def ARP_CACHE_SZ_def)
  then show ?case
    by (simp add: learn_def arp_cache_update_def) (auto simp: arp_init_def ARP_CACHE_SZ_def nth_list_update)
next
  case (snoc ip ips)
  let ?m = "learn macs (0 # ips) (arp_init n)"
  have IH: "length (arp_tbl ?m) = 256" "arp_tail ?m = 1 + length ips"
    "\<forall>i < 256. ac_ip (arp_tbl ?m ! i) = (if i = 0 \<or> length ips < i then 0 else ips ! (i - 1))"
    using snoc by auto
  then have e: "arp_end ?m = 1 + length ips" using snoc.prems(3) by (simp add: arp_end_def)
  have "ac_ip (arp_tbl ?m ! i) \<noteq> ip" if "i < 1 + length ips" for i
  proof (cases "i = 0")
    case False
    then have "ips ! (i - 1) \<in> set ips" using that by (intro nth_mem) simp
    then show ?thesis using IH(3) that False snoc.prems by auto
  qed (use IH(3) snoc.prems in auto)
  then have "arp_find (arp_tbl ?m) ip [0..<arp_end ?m] = None" by (simp add: arp_find_None e)
  then have "learn macs (0 # ips @ [ip]) (arp_init n) = ?m\<lparr>arp_tbl := (arp_tbl ?m)[1 + length ips := \<lparr>ac_mac = mac_copy (macs ip), ac_ip = ip\<rparr>],
      arp_tail := (1 + length ips + 1) mod 256\<rparr>"
    using IH(2) by (simp add: learn_def arp_cache_update_def ARP_CACHE_SZ_def)
  then show ?case using IH snoc.prems(3) by (auto simp: nth_list_update nth_append)
qed

text \<open>One ARP probe makes the cache forget. When the first packet that reaches a fresh cache is a probe and
  255 different hosts are learnt after it, the table is full and no host is found
  any more, until a further new host arrives: datagrams to the peer are dropped meanwhile.\<close>

theorem arp_probe_hides_hosts:
  assumes "distinct ips" and "0 \<notin> set ips" and "length ips = 255"
  shows "arp_cache_lookup ip (learn macs (0 # ips) (arp_init n)) = None
    \<and> fst (net_gen_udp_pkt ip port pkt dlen (learn macs (0 # ips) (arp_init n))) = 0"
proof -
  let ?n = "learn macs (0 # ips) (arp_init n)"
  have "arp_tail ?n = 0" "ac_ip (arp_tbl ?n ! 0) = 0"
    using learn_after_probe [OF assms(1,2), of macs n] assms(3) by simp_all
  then have "arp_end ?n = 0" by (simp add: arp_end_def)
  then have "arp_cache_lookup ip ?n = None" by (simp add: arp_cache_lookup_def)
  then show ?thesis by (simp add: net_gen_udp_pkt_def u_net_gen_ip_pkt_def udp_pkt_block)
qed

theorem arp_probe_hides_hosts_witness:
  "arp_cache_lookup 7 (learn (\<lambda>_. [2, 0, 0, 0, 0, 9]) (0 # map of_nat [1..<256]) (arp_init net_ex)) = None"
proof -
  have "unat (of_nat i :: u32) = i" if "i < 256" for i using that by (simp add: unat_of_nat take_bit_eq_mod)
  then have "inj_on (of_nat :: nat \<Rightarrow> u32) (set [1..<256])" by (intro inj_onI) (metis atLeastLessThan_iff set_upt)
  moreover have "(of_nat i :: u32) \<noteq> 0" if "1 \<le> i" "i < 256" for i
    using that \<open>\<And>i. i < 256 \<Longrightarrow> unat (of_nat i :: u32) = i\<close> [of i] by auto
  ultimately have "distinct (map (of_nat :: nat \<Rightarrow> u32) [1..<256])" "(0 :: u32) \<notin> set (map of_nat [1..<256])"
    by (auto simp: distinct_map)
  from arp_probe_hides_hosts [OF this, of 7 "\<lambda>_. [2, 0, 0, 0, 0, 9]" net_ex 0 0 0] show ?thesis by simp
qed

end
