(* ===== verification/Ip_Str.thy ===== *)
theory Ip_Str
  imports Net_Pkt
begin

text \<open>
  Dotted addresses: \<^verbatim>\<open>ip_from_str\<close> reads back what \<^verbatim>\<open>ip_str\<close> prints (\<^verbatim>\<open>common/net/ip.c\<close>).
\<close>

definition dec8 :: "u8 \<Rightarrow> bytes" where
  "dec8 b = (if b = 0 then [48] else rev (format_dec_rep (sint (ucast b :: u64))))"

definition dec8_ok :: "u8 \<Rightarrow> bool" where
  "dec8_ok b \<longleftrightarrow> (let d = dec8 b in d \<noteq> [] \<and> length d \<le> 3 \<and> 46 \<notin> set d \<and> dec_to_uint64 d = Some (ucast b))"

lemma dec8_ok_all: "list_all (\<lambda>n. dec8_ok (of_nat n)) [0..<256]"
  by code_simp

lemma dec8:
  "dec8 b \<noteq> []" "0 < length (dec8 b)" "length (dec8 b) \<le> 3" "46 \<notin> set (dec8 b)" "dec_to_uint64 (dec8 b) = Some (ucast b)"
proof -
  have "unat b < 256" using unsigned_less [of b] by simp
  then have "unat b \<in> set [0..<256]" by simp
  then have "dec8_ok (of_nat (unat b))" using dec8_ok_all unfolding list_all_iff by blast
  then show "dec8 b \<noteq> []" "0 < length (dec8 b)" "length (dec8 b) \<le> 3" "46 \<notin> set (dec8 b)" "dec_to_uint64 (dec8 b) = Some (ucast b)"
    by (auto simp: dec8_ok_def Let_def)
qed

lemma byte_u64: "\<not> (ucast b :: u64) > 255" "(ucast b :: u64) = 0 \<longleftrightarrow> b = 0" for b :: u8
proof -
  have b: "unat b < 256" using unsigned_less [of b] by simp
  then have u: "unat (ucast b :: u64) = unat b" by (simp add: unsigned_ucast_eq take_bit_eq_mod)
  then show "\<not> (ucast b :: u64) > 255" using b by (simp add: word_less_nat_alt)
  show "(ucast b :: u64) = 0 \<longleftrightarrow> b = 0" using u by (metis unat_eq_0)
qed

lemma format_dec8: "length buf + length (dec8 b) \<le> l \<Longrightarrow>
    uu_format_add_dec buf l (scast (ucast (ucast b :: u64) :: u32)) = buf @ dec8 b"
proof -
  have e: "scast (ucast (ucast b :: u64) :: u32) = (ucast b :: u64)"
    by (rule bit_eqI) (auto simp: bit_simps min_def dest: bit_imp_le_length split: if_splits)
  have "\<not> bit (ucast b :: u64) 63" by (auto simp: bit_simps dest: bit_imp_le_length)
  then have s: "0 \<le> sint (ucast b :: u64)" using bit_last_iff [of "ucast b :: u64"] by simp
  assume "length buf + length (dec8 b) \<le> l"
  then show ?thesis unfolding e using s
    by (cases "b = 0") (simp_all add: uu_format_add_dec_def dec8_def buf_add_all_eq uu_buf_add_def byte_u64(2))
qed

definition dotted :: "ip_addr \<Rightarrow> bytes" where
  "dotted ip = dec8 (ucast (drop_bit 24 ip)) @ [46] @ dec8 (ucast (drop_bit 16 ip)) @ [46]
     @ dec8 (ucast (drop_bit 8 ip)) @ [46] @ dec8 (ucast ip)"

lemma ip_str_dotted: "ip_str ip = Some (dotted ip @ [0])"
proof -
  let ?a = "ucast (drop_bit 24 ip) :: u8" and ?b = "ucast (drop_bit 16 ip) :: u8" and ?c = "ucast (drop_bit 8 ip) :: u8" and ?d = "ucast ip :: u8"
  note l = dec8(3) [of ?a] dec8(3) [of ?b] dec8(3) [of ?c] dec8(3) [of ?d]
  show ?thesis using l
    by (simp add: ip_str_def uu_vsnprintf_def IP_STR_SZ_def bytes_of_string_def u8_of_char_def dotted_def
        format_conv.simps format_dec8 uu_buf_add_def)
qed

lemma ip_scan_to:
  assumes "46 \<notin> set ds" and "str = pre @ ds @ 46 # rest" and "length pre + length ds < mx"
  shows "ip_scan str (length pre) mx = length pre + length ds"
  using assms
proof (induction ds arbitrary: pre)
  case Nil
  then show ?case by (simp add: ip_scan.simps)
next
  case (Cons d ds)
  have "ip_scan str (length (pre @ [d])) mx = length (pre @ [d]) + length ds"
    using Cons.IH [of "pre @ [d]"] Cons.prems by simp
  then show ?case using Cons.prems by (subst ip_scan.simps) (auto simp: nth_append)
qed

lemma ip_field:
  assumes "str = pre @ dec8 b @ 46 # rest" and "length pre + length (dec8 b) < mx"
  shows "ip_from_str_loop str mx (Suc m) (length pre) (length pre) ip =
    ip_from_str_loop str mx m (length pre + length (dec8 b) + 1) (length pre + length (dec8 b) + 1) (ip OR ucast (push_bit (Suc m * 8) (ucast b :: u64)))"
proof -
  have "ip_scan str (length pre) mx = length pre + length (dec8 b)" using assms dec8(4) by (intro ip_scan_to) auto
  then show ?thesis using assms dec8(5) [of b] byte_u64(1) [of b] by (simp add: Let_def)
qed

lemma ip_from_dotted: "ip_from_str (dotted ip) = Some ip"
proof -
  let ?a = "ucast (drop_bit 24 ip) :: u8" and ?b = "ucast (drop_bit 16 ip) :: u8" and ?c = "ucast (drop_bit 8 ip) :: u8" and ?d = "ucast ip :: u8"
  note l = dec8(2,3) [of ?a] dec8(2,3) [of ?b] dec8(2,3) [of ?c] dec8(2,3) [of ?d]
  let ?x = "dec8 ?a @ [46]" let ?y = "?x @ dec8 ?b @ [46]" let ?z = "?y @ dec8 ?c @ [46]" let ?n = "length (dotted ip)"
  have n: "min ?n 15 = ?n" "?n = length ?z + length (dec8 ?d)" using l by (simp_all add: dotted_def)
  have s1: "ip_from_str_loop (dotted ip) ?n 3 0 0 0 = ip_from_str_loop (dotted ip) ?n 2 (length ?x) (length ?x) (0 OR ucast (push_bit 24 (ucast ?a :: u64)))"
    using ip_field [of "dotted ip" "[]" ?a "dec8 ?b @ [46] @ dec8 ?c @ [46] @ dec8 ?d" ?n 2] l by (simp add: dotted_def numeral_3_eq_3)
  have s2: "ip_from_str_loop (dotted ip) ?n 2 (length ?x) (length ?x) v = ip_from_str_loop (dotted ip) ?n 1 (length ?y) (length ?y) (v OR ucast (push_bit 16 (ucast ?b :: u64)))" for v
    using ip_field [of "dotted ip" ?x ?b "dec8 ?c @ [46] @ dec8 ?d" ?n 1] l by (simp add: dotted_def numeral_2_eq_2)
  have s3: "ip_from_str_loop (dotted ip) ?n 1 (length ?y) (length ?y) v = ip_from_str_loop (dotted ip) ?n 0 (length ?z) (length ?z) (v OR ucast (push_bit 8 (ucast ?c :: u64)))" for v
    using ip_field [of "dotted ip" ?y ?c "dec8 ?d" ?n 0] l by (simp add: dotted_def)
  have "dotted ip = ?z @ dec8 ?d" by (simp add: dotted_def)
  then have "drop (length ?z) (dotted ip) = dec8 ?d" by (metis append_eq_conv_conj)
  then have s4: "ip_from_str_loop (dotted ip) ?n 0 (length ?z) (length ?z) v = Some (v OR ucast (ucast ?d :: u64))" for v
    using n(2) l(7,8) dec8(5) [of ?d] byte_u64(1) [of ?d] by simp
  have "ucast (push_bit 24 (ucast ?a :: u64)) OR ucast (push_bit 16 (ucast ?b :: u64)) OR ucast (push_bit 8 (ucast ?c :: u64)) OR ucast (ucast ?d :: u64) = ip"
    (is "?v = ip")
  proof (rule bit_word_eqI)
    fix n assume n: "n < LENGTH(32)"
    consider "n < 8" | "8 \<le> n" "n < 16" | "16 \<le> n" "n < 24" | "24 \<le> n" by linarith
    then show "bit ?v n = bit ip n" using n by cases (simp_all add: bit_simps, auto)
  qed
  then show ?thesis unfolding ip_from_str_def n(1) s1 s2 s3 s4 by (simp add: or.assoc)
qed

text \<open>A printed address reads back. For every IPv4 address, \<^verbatim>\<open>ip_str\<close> fits in its buffer of sixteen bytes with the
  terminator, and \<^verbatim>\<open>ip_from_str\<close> applied to the printed string gives the address.\<close>

theorem ip_str_round_trip:
  "\<exists>s. ip_str ip = Some (s @ [0]) \<and> length (s @ [0]) \<le> IP_STR_SZ \<and> ip_from_str s = Some ip"
proof (intro exI conjI)
  show "ip_str ip = Some (dotted ip @ [0])" by (rule ip_str_dotted)
  show "length (dotted ip @ [0 :: u8]) \<le> IP_STR_SZ"
    using dec8(3) [of "ucast (drop_bit 24 ip)"] dec8(3) [of "ucast (drop_bit 16 ip)"] dec8(3) [of "ucast (drop_bit 8 ip)"] dec8(3) [of "ucast ip"]
    by (simp add: dotted_def IP_STR_SZ_def)
  show "ip_from_str (dotted ip) = Some ip" by (rule ip_from_dotted)
qed

end
