(* ===== verification/Slab.thy ===== *)
theory Slab
  imports Pool
begin

text \<open>
  The object allocator of the vmm, \<^verbatim>\<open>vmm/src/core/slab.c\<close> and \<^verbatim>\<open>common/libc/malloc.c\<close>, with
  the page descriptors of \<^verbatim>\<open>common/libc/ppg.c\<close>. A slab (cache) is the address of its
  \<^verbatim>\<open>slab_t\<close>; its fields are maps on addresses, and the \<^verbatim>\<open>prev\<close> and \<^verbatim>\<open>next\<close> fields of the
  slabs and of the free objects are two heaps of circular lists, one per C type. A null
  pointer is \<^verbatim>\<open>None\<close>; an operation that walks a list returns \<^verbatim>\<open>None\<close> when the walk does
  not end. The theory shows that the allocator hands out objects that overlap no live
  object, and that a freed object is available again.
\<close>

section \<open>State and operations\<close>

record vmm_slab =
  slab_pool :: vmm_pool
  slab_count :: size_t
  slab_used :: "offset_t option"
  slab_avl :: "offset_t option"
  slab_heap :: "offset_t cdll_heap"
  slab_nr :: "offset_t \<Rightarrow> size_t"
  slab_sz :: "offset_t \<Rightarrow> size_t"
  slab_obj :: "offset_t \<Rightarrow> offset_t option"
  obj_heap :: "offset_t cdll_heap"
  ppg_nr :: u64
  ppg_slab :: "u64 \<Rightarrow> offset_t option"

definition SLAB_T_SIZE :: u64 where
  "SLAB_T_SIZE = 40"

definition SLAB_OBJ_T_SIZE :: u64 where
  "SLAB_OBJ_T_SIZE = 16"

text \<open>A page descriptor is designated by its index in \<^verbatim>\<open>info->hrd.mem.ppg.dsc\<close>.\<close>

definition ppg_get_desc :: "offset_t \<Rightarrow> vmm_slab \<Rightarrow> u64 option" where
  "ppg_get_desc addr s = (let n = page_nr addr in if n < ppg_nr s then Some n else None)"

definition slab_req_page :: "offset_t \<Rightarrow> vmm_slab \<Rightarrow> offset_t \<times> vmm_slab" where
  "slab_req_page slab s =
     (let (addr, p) = pool_pop_page (slab_pool s); s = s\<lparr>slab_pool := p\<rparr>
      in if addr \<noteq> 0
         then (case ppg_get_desc addr s of
                 None \<Rightarrow> (0, s)
               | Some n \<Rightarrow> (addr, s\<lparr>ppg_slab := (ppg_slab s)(n := Some slab)\<rparr>))
         else (addr, s))"

definition slab_setup :: "offset_t \<Rightarrow> size_t \<Rightarrow> vmm_slab \<Rightarrow> vmm_slab" where
  "slab_setup slab sz s =
     s\<lparr>slab_obj := (slab_obj s)(slab := None), slab_nr := (slab_nr s)(slab := 0),
       slab_sz := (slab_sz s)(slab := sz)\<rparr>"

text \<open>\<^verbatim>\<open>cdll_fill(info->vmm.slab.avl, slab)\<close> and \<^verbatim>\<open>cdll_fill(slab->obj, obj)\<close>.\<close>

definition slab_fill_avl :: "offset_t \<Rightarrow> vmm_slab \<Rightarrow> vmm_slab" where
  "slab_fill_avl slab s =
     (let (p, h) = cdll_fill (slab_avl s) slab (slab_heap s)
      in s\<lparr>slab_avl := p, slab_heap := h\<rparr>)"

definition slab_fill_obj :: "offset_t \<Rightarrow> offset_t \<Rightarrow> vmm_slab \<Rightarrow> vmm_slab" where
  "slab_fill_obj slab obj s =
     (let (p, h) = cdll_fill (slab_obj s slab) obj (obj_heap s)
      in s\<lparr>slab_obj := (slab_obj s)(slab := p), obj_heap := h\<rparr>)"

fun slab_list_grow_loop :: "nat \<Rightarrow> offset_t \<Rightarrow> vmm_slab \<Rightarrow> offset_t \<times> vmm_slab" where
  "slab_list_grow_loop 0 slab s = (slab, s)"
| "slab_list_grow_loop (Suc n) slab s =
     slab_list_grow_loop n (slab + SLAB_T_SIZE) (slab_fill_avl slab (slab_setup slab 0 s))"

definition slab_list_grow :: "vmm_slab \<Rightarrow> offset_t \<times> vmm_slab" where
  "slab_list_grow s =
     (let (slab, p) = pool_pop_page (slab_pool s); s = s\<lparr>slab_pool := p\<rparr>
      in if slab = 0 then (slab, s)
         else slab_list_grow_loop (unat (PAGE_SIZE div SLAB_T_SIZE)) slab s)"

definition slab_alloc :: "vmm_slab \<Rightarrow> offset_t option \<times> vmm_slab" where
  "slab_alloc s =
     (let (ok, s) = (if slab_avl s = None
                     then (let (r, s) = slab_list_grow s in (r \<noteq> 0, s)) else (True, s))
      in if \<not> ok then (None, s)
         else (let (r, p, h) = cdll_pop (slab_avl s) (slab_heap s)
               in (r, s\<lparr>slab_avl := p, slab_heap := h\<rparr>)))"

text \<open>The objects of one new page of a slab, and the pages of one request.\<close>

fun slab_fill_page :: "nat \<Rightarrow> offset_t \<Rightarrow> offset_t \<Rightarrow> vmm_slab \<Rightarrow> vmm_slab" where
  "slab_fill_page 0 slab addr s = s"
| "slab_fill_page (Suc n) slab addr s =
     slab_fill_page n slab (addr + slab_sz s slab) (slab_fill_obj slab addr s)"

fun slab_grow_loop ::
    "nat \<Rightarrow> offset_t \<Rightarrow> size_t \<Rightarrow> size_t \<Rightarrow> vmm_slab \<Rightarrow> size_t \<times> vmm_slab" where
  "slab_grow_loop 0 slab np nr s = (nr, s)"
| "slab_grow_loop (Suc pages) slab np nr s =
     (let (addr, s) = slab_req_page slab s
      in if addr = 0 then (nr, s)
         else (let s = slab_fill_page (unat np) slab addr s;
                   s = s\<lparr>slab_nr := (slab_nr s)(slab := slab_nr s slab + np)\<rparr>
               in slab_grow_loop pages slab np (nr + np) s))"

text \<open>\<^verbatim>\<open>None\<close> is the divide fault of an object size of zero.\<close>

definition slab_grow :: "offset_t option \<Rightarrow> size_t \<Rightarrow> vmm_slab \<Rightarrow> (size_t \<times> vmm_slab) option" where
  "slab_grow slab nr s =
     (case slab of
        None \<Rightarrow> Some (0, s)
      | Some slab \<Rightarrow>
          if nr = 0 then Some (0, s)
          else if slab_sz s slab = 0 then None
          else (let bytes = slab_sz s slab * nr;
                    pages = drop_bit PAGE_SHIFT bytes;
                    pages = (if bytes mod PAGE_SIZE \<noteq> 0 then pages + 1 else pages);
                    np = PAGE_SIZE div slab_sz s slab
                in Some (slab_grow_loop (unat pages) slab np 0 s)))"

definition slab_create :: "size_t \<Rightarrow> size_t \<Rightarrow> vmm_slab \<Rightarrow> (offset_t option \<times> vmm_slab) option" where
  "slab_create sz nr s =
     (let (r, s) = slab_alloc s
      in case r of
           None \<Rightarrow> Some (None, s)
         | Some slab \<Rightarrow>
             Option.bind (slab_grow (Some slab) nr (slab_setup slab sz s)) (\<lambda>(n, s).
               if n = 0 then Some (None, slab_fill_avl slab s) else Some (Some slab, s)))"

definition slab_insert ::
    "size_t \<Rightarrow> size_t \<Rightarrow> offset_t option \<Rightarrow> vmm_slab \<Rightarrow> (offset_t option \<times> vmm_slab) option" where
  "slab_insert sz nr nx s =
     Option.bind (slab_create sz nr s) (\<lambda>(r, s).
       case r of
         None \<Rightarrow> Some (None, s)
       | Some slab \<Rightarrow>
           (let (p, h) = (case nx of Some n \<Rightarrow> cdll_insert_before (slab_used s) slab n (slab_heap s)
                                   | None \<Rightarrow> cdll_fill (slab_used s) slab (slab_heap s))
            in Some (Some slab, s\<lparr>slab_used := p, slab_heap := h, slab_count := slab_count s + 1\<rparr>)))"

definition uu_slab_size_long :: "size_t \<Rightarrow> size_t" where
  "uu_slab_size_long asz = (if uu_aligned asz 8 then asz else uu_align_next asz 8)"

definition slab_size :: "size_t \<Rightarrow> size_t" where
  "slab_size asz = (if asz < SLAB_OBJ_T_SIZE then SLAB_OBJ_T_SIZE else uu_slab_size_long asz)"

definition slab_at :: "offset_t \<Rightarrow> vmm_slab \<Rightarrow> offset_t option" where
  "slab_at addr s = (case ppg_get_desc addr s of Some n \<Rightarrow> ppg_slab s n | None \<Rightarrow> None)"

definition slab_add :: "offset_t option \<Rightarrow> offset_t \<Rightarrow> vmm_slab \<Rightarrow> vmm_slab option" where
  "slab_add slab obj s =
     (case slab of
        None \<Rightarrow> Some s
      | Some slab \<Rightarrow>
          Option.bind (cdll_search (slab_obj s slab) obj (obj_heap s)) (\<lambda>found.
            if found then Some s
            else (let s = slab_fill_obj slab obj s
                  in Some (s\<lparr>slab_nr := (slab_nr s)(slab := slab_nr s slab + 1)\<rparr>))))"

text \<open>The walk \<^verbatim>\<open>slab_find\<close> and \<^verbatim>\<open>slab_new\<close> share: the first slab at least as large as
  \<open>sz\<close>, or the last one.\<close>

partial_function (option) slab_scan ::
    "(offset_t \<Rightarrow> offset_t) \<Rightarrow> (offset_t \<Rightarrow> size_t) \<Rightarrow> offset_t \<Rightarrow> size_t \<Rightarrow> offset_t \<Rightarrow> offset_t option" where
  "slab_scan next szs used sz slab =
     (if next slab \<noteq> used \<and> sz > szs slab then slab_scan next szs used sz (next slab) else Some slab)"

definition slab_find :: "size_t \<Rightarrow> vmm_slab \<Rightarrow> offset_t option option" where
  "slab_find asz s =
     (let sz = slab_size asz
      in case slab_used s of
           None \<Rightarrow> Some None
         | Some used \<Rightarrow>
             Option.bind (slab_scan (nxt (slab_heap s)) (slab_sz s) used sz used) (\<lambda>slab.
               if slab_sz s slab = sz then Some (Some slab) else Some None))"

definition slab_new :: "size_t \<Rightarrow> size_t \<Rightarrow> vmm_slab \<Rightarrow> (offset_t option \<times> vmm_slab) option" where
  "slab_new asz nr s =
     (if asz > PAGE_SIZE div 2 then Some (None, s)
      else (let sz = slab_size asz
            in case slab_used s of
                 None \<Rightarrow> slab_insert sz nr None s
               | Some used \<Rightarrow>
                   Option.bind (slab_scan (nxt (slab_heap s)) (slab_sz s) used sz used) (\<lambda>slab.
                     if sz < slab_sz s slab then slab_insert sz nr (Some slab) s
                     else if sz = slab_sz s slab
                     then Option.bind (slab_grow (Some slab) nr s) (\<lambda>(n, s).
                            if n = 0 then Some (None, s) else Some (Some slab, s))
                     else slab_insert sz nr None s)))"

definition malloc_pop :: "offset_t \<Rightarrow> vmm_slab \<Rightarrow> offset_t option \<times> vmm_slab" where
  "malloc_pop slab s =
     (let (r, p, h) = cdll_pop (slab_obj s slab) (obj_heap s)
      in (r, s\<lparr>slab_obj := (slab_obj s)(slab := p), obj_heap := h\<rparr>))"

definition malloc_take :: "offset_t \<Rightarrow> vmm_slab \<Rightarrow> (offset_t option \<times> vmm_slab) option" where
  "malloc_take slab s =
     (let dec = (\<lambda>s. s\<lparr>slab_nr := (slab_nr s)(slab := slab_nr s slab - 1)\<rparr>);
          (r, s) = malloc_pop slab s
      in case r of
           Some obj \<Rightarrow> Some (Some obj, dec s)
         | None \<Rightarrow>
             Option.bind (slab_grow (Some slab) 1 s) (\<lambda>(n, s).
               if n = 0 then Some (None, s)
               else (let (r, s) = malloc_pop slab s in Some (r, dec s))))"

definition malloc :: "size_t \<Rightarrow> vmm_slab \<Rightarrow> (offset_t option \<times> vmm_slab) option" where
  "malloc sz s =
     Option.bind (slab_find sz s) (\<lambda>found.
     Option.bind (case found of Some slab \<Rightarrow> Some (Some slab, s) | None \<Rightarrow> slab_new sz 1 s) (\<lambda>(r, s).
       case r of
         None \<Rightarrow> Some (None, s)
       | Some slab \<Rightarrow> malloc_take slab s))"

definition free :: "offset_t \<Rightarrow> vmm_slab \<Rightarrow> vmm_slab option" where
  "free addr s = slab_add (slab_at addr s) addr s"


section \<open>Pages, slots and live objects\<close>

text \<open>The addresses of the objects a slab was ever given, and the objects in the hands of
  the callers: those that are not on the list of their slab.\<close>

definition slab_slots :: "vmm_slab \<Rightarrow> offset_t \<Rightarrow> offset_t set" where
  "slab_slots s u = {page_addr n + of_nat k * slab_sz s u | n k.
     ppg_slab s n = Some u \<and> k < 4096 div unat (slab_sz s u)}"

definition slab_live :: "vmm_slab \<Rightarrow> offset_t set" where
  "slab_live s = {obj. \<exists>u. slab_at obj s = Some u \<and> obj \<in> slab_slots s u
     \<and> cdll_search (slab_obj s u) obj (obj_heap s) = Some False}"

text \<open>The number of bytes that belong to the object at an address.\<close>

definition slab_obj_size :: "vmm_slab \<Rightarrow> offset_t \<Rightarrow> nat" where
  "slab_obj_size s obj = (case slab_at obj s of Some u \<Rightarrow> unat (slab_sz s u) | None \<Rightarrow> 0)"

definition slab_size_ok :: "size_t \<Rightarrow> bool" where
  "slab_size_ok sz \<longleftrightarrow> 16 \<le> unat sz \<and> unat sz \<le> 2048 \<and> 8 dvd unat sz"

definition slab_page_ok :: "vmm_slab \<Rightarrow> u64 \<Rightarrow> bool" where
  "slab_page_ok s n \<longleftrightarrow> n < ppg_nr s \<and> page_nr (page_addr n) = n \<and> page_addr n \<in> pool_held (slab_pool s)"

definition slab_desc_ok :: "vmm_slab \<Rightarrow> offset_t \<Rightarrow> bool" where
  "slab_desc_ok s u \<longleftrightarrow> uu_align u PAGE_SIZE \<in> pool_held (slab_pool s) \<and> ppg_slab s (page_nr u) = None"

definition slab_cache_ok :: "vmm_slab \<Rightarrow> offset_t \<Rightarrow> offset_t list \<Rightarrow> bool" where
  "slab_cache_ok s u os \<longleftrightarrow> slab_size_ok (slab_sz s u) \<and> cdll (obj_heap s) (slab_obj s u) os
     \<and> set os \<subseteq> slab_slots s u"

text \<open>
  The slabs \<open>A\<close> own pages, among them the slabs \<open>us\<close> of the list of used slabs, sorted by
  object size; the descriptors \<open>av\<close> are unused; \<open>objs\<close> gives the free objects of a slab.
\<close>

definition slab_lists :: "vmm_slab \<Rightarrow> offset_t set \<Rightarrow> offset_t list \<Rightarrow> offset_t list \<Rightarrow> bool" where
  "slab_lists s A us av \<longleftrightarrow> cdll (slab_heap s) (slab_used s) us \<and> cdll (slab_heap s) (slab_avl s) av
     \<and> set us \<subseteq> A \<and> A \<inter> set av = {} \<and> sorted_wrt (\<lambda>u v. slab_sz s u < slab_sz s v) us"

definition slab_rep ::
    "vmm_slab \<Rightarrow> offset_t set \<Rightarrow> offset_t list \<Rightarrow> offset_t list \<Rightarrow> (offset_t \<Rightarrow> offset_t list) \<Rightarrow> bool" where
  "slab_rep s A us av objs \<longleftrightarrow>
     pool_inv (slab_pool s) \<and> (\<forall>p \<in> pool_avail (slab_pool s). page_nr p < ppg_nr s)
     \<and> slab_lists s A us av \<and> (\<forall>u \<in> A. slab_cache_ok s u (objs u))
     \<and> (\<forall>n u. ppg_slab s n = Some u \<longrightarrow> u \<in> A \<and> slab_page_ok s n)
     \<and> (\<forall>u \<in> A \<union> set av. slab_desc_ok s u)"

definition slab_cnt :: "vmm_slab \<Rightarrow> offset_t set \<Rightarrow> (offset_t \<Rightarrow> offset_t list) \<Rightarrow> bool" where
  "slab_cnt s A objs \<longleftrightarrow> (\<forall>u \<in> A. slab_nr s u = of_nat (length (objs u)))"

definition slab_inv :: "vmm_slab \<Rightarrow> bool" where
  "slab_inv s \<longleftrightarrow> (\<exists>us av objs. slab_rep s (set us) us av objs \<and> slab_cnt s (set us) objs
     \<and> slab_count s = of_nat (length us))"

lemma page_nr_unat: "unat (page_nr p) = unat p div 4096"
  by (simp add: page_nr_def PAGE_SHIFT_def unat_drop_bit_div)

lemma page_addr_align: "page_addr (page_nr p) = uu_align p PAGE_SIZE"
  using uu_align_pow2 [of p 12] by (simp add: page_defs)

lemma page_aligned_nr: "uu_aligned p PAGE_SIZE \<Longrightarrow> page_addr (page_nr p) = p \<and> page_nr (page_addr (page_nr p)) = page_nr p"
proof -
  assume a: "uu_aligned p PAGE_SIZE"
  then have d: "4096 dvd unat p" using uu_aligned_unat [of p 12] by (simp add: PAGE_SIZE_def)
  have "unat (uu_align p PAGE_SIZE) = unat p div 4096 * 4096"
    using unat_uu_align [of p 12] by (simp add: PAGE_SIZE_def)
  with d have "uu_align p PAGE_SIZE = p" by (simp add: unsigned_word_eqI)
  then show ?thesis by (simp add: page_addr_align)
qed

lemma page_addr_unat: "page_nr (page_addr n) = n \<Longrightarrow> unat (page_addr n) = 4096 * unat n"
proof -
  assume a: "page_nr (page_addr n) = n"
  have "unat n = unat (page_nr (page_addr n))" using a by simp
  also have "\<dots> = unat (page_addr n) div 4096" by (simp add: page_nr_unat)
  finally have 1: "unat n = unat (page_addr n) div 4096" .
  have "uu_align (page_addr n) PAGE_SIZE = page_addr n" using a page_addr_align [of "page_addr n"] by simp
  then have "unat (page_addr n) = unat (page_addr n) div 4096 * 4096"
    using unat_uu_align [of "page_addr n" 12] by (simp add: PAGE_SIZE_def)
  with 1 show ?thesis by simp
qed

lemma slot_bounds:
  assumes "page_nr (page_addr n) = n" and "slab_size_ok sz" and "k < 4096 div unat sz"
  shows "unat (page_addr n + of_nat k * sz) = 4096 * unat n + k * unat sz"
    and "k * unat sz + unat sz \<le> 4096"
    and "page_nr (page_addr n + of_nat k * sz) = n"
proof -
  have sz: "16 \<le> unat sz" "unat sz \<le> 2048" using assms(2) by (auto simp: slab_size_ok_def)
  have "Suc k * unat sz \<le> 4096 div unat sz * unat sz" using assms(3) by (intro mult_le_mono1) simp
  also have "\<dots> \<le> 4096" by simp
  finally show le: "k * unat sz + unat sz \<le> 4096" by simp
  have k: "k < 4096" using assms(3) by (meson div_le_dividend less_le_trans)
  have uk: "unat (of_nat k :: u64) = k" using k by (simp add: unat_of_nat take_bit_eq_mod)
  have ks: "unat (of_nat k * sz) = k * unat sz"
    using le sz uk by (subst unat_mult_lem [THEN iffD1]) simp_all
  have "4096 * unat n + 4096 \<le> 2 ^ 64"
    using page_addr_unat [OF assms(1)] unat_u64_less [of "page_addr n"] by simp
  with le sz ks show u: "unat (page_addr n + of_nat k * sz) = 4096 * unat n + k * unat sz"
    using page_addr_unat [OF assms(1)] by (subst unat_add_lem [THEN iffD1]) simp_all
  from u le sz have "unat (page_nr (page_addr n + of_nat k * sz)) = unat n"
    by (simp add: page_nr_unat)
  then show "page_nr (page_addr n + of_nat k * sz) = n" by (rule unsigned_word_eqI)
qed

lemma slab_repD:
  assumes "slab_rep s A us av objs"
  shows "pool_inv (slab_pool s)" "\<And>p. p \<in> pool_avail (slab_pool s) \<Longrightarrow> page_nr p < ppg_nr s"
    "slab_lists s A us av" "\<And>u. u \<in> A \<Longrightarrow> slab_cache_ok s u (objs u)"
    "\<And>n u. ppg_slab s n = Some u \<Longrightarrow> u \<in> A \<and> slab_page_ok s n"
    "\<And>u. u \<in> A \<union> set av \<Longrightarrow> slab_desc_ok s u"
  using assms unfolding slab_rep_def by blast+

lemma slot_page:
  assumes "slab_rep s A us av objs" and "obj \<in> slab_slots s u"
  shows "u \<in> A" "ppg_slab s (page_nr obj) = Some u" "slab_at obj s = Some u"
proof -
  obtain n k where n: "obj = page_addr n + of_nat k * slab_sz s u" "ppg_slab s n = Some u"
    "k < 4096 div unat (slab_sz s u)"
    using assms(2) by (auto simp: slab_slots_def)
  have p: "slab_page_ok s n" and u: "u \<in> A" using slab_repD(5) [OF assms(1) n(2)] by auto
  have c: "slab_size_ok (slab_sz s u)"
    using slab_repD(4) [OF assms(1) u] by (simp add: slab_cache_ok_def)
  show "u \<in> A" by fact
  show "ppg_slab s (page_nr obj) = Some u" "slab_at obj s = Some u"
    using n(2) p slot_bounds(3) [OF _ c n(3)]
    by (simp_all add: n(1) slab_page_ok_def slab_at_def ppg_get_desc_def Let_def)
qed

lemma slot_disjoint:
  assumes rep: "slab_rep s A us av objs" and a: "a \<in> slab_slots s u" and b: "b \<in> slab_slots s v"
    and ne: "a \<noteq> b"
  shows "unat a + unat (slab_sz s u) \<le> unat b \<or> unat b + unat (slab_sz s v) \<le> unat a"
proof -
  have sz: "slab_size_ok (slab_sz s u)" "slab_size_ok (slab_sz s v)"
    using slab_repD(4) [OF rep] slot_page(1) [OF rep a] slot_page(1) [OF rep b]
    by (simp_all add: slab_cache_ok_def)
  obtain m i where m: "a = page_addr m + of_nat i * slab_sz s u" "ppg_slab s m = Some u"
    "i < 4096 div unat (slab_sz s u)" using a by (auto simp: slab_slots_def)
  obtain n j where n: "b = page_addr n + of_nat j * slab_sz s v" "ppg_slab s n = Some v"
    "j < 4096 div unat (slab_sz s v)" using b by (auto simp: slab_slots_def)
  have pg: "page_nr (page_addr m) = m" "page_nr (page_addr n) = n"
    using slab_repD(5) [OF rep] m n by (auto simp: slab_page_ok_def)
  note ma = slot_bounds(1,2) [OF pg(1) sz(1) m(3), folded m(1)]
  note nb = slot_bounds(1,2) [OF pg(2) sz(2) n(3), folded n(1)]
  show ?thesis
  proof (cases "m = n")
    case True
    with m n have "u = v" by simp
    with m n True ne have "i \<noteq> j" by auto
    then have "Suc i \<le> j \<or> Suc j \<le> i" by arith
    then have "Suc i * unat (slab_sz s u) \<le> j * unat (slab_sz s u)
        \<or> Suc j * unat (slab_sz s u) \<le> i * unat (slab_sz s u)"
      using mult_le_mono1 by blast
    with ma(1) nb(1) True \<open>u = v\<close> show ?thesis by auto
  next
    case False
    then have "unat m \<noteq> unat n" using unsigned_word_eqI by blast
    with ma nb show ?thesis by arith
  qed
qed

lemma slots_disjoint:
  assumes "slab_rep s A us av objs" and "u \<noteq> v"
  shows "slab_slots s u \<inter> slab_slots s v = {}"
proof (rule ccontr)
  assume "\<not> ?thesis"
  then obtain obj where "obj \<in> slab_slots s u" "obj \<in> slab_slots s v" by blast
  with slot_page(2) [OF assms(1)] assms(2) show False by (metis option.inject)
qed

lemma slab_live_eq:
  assumes "slab_rep s A us av objs"
  shows "slab_live s = (\<Union>u \<in> A. slab_slots s u - set (objs u))"
proof -
  have c: "cdll_search (slab_obj s u) obj (obj_heap s) = Some (obj \<in> set (objs u))" if "u \<in> A" for u obj
    using slab_repD(4) [OF assms that] by (auto simp: slab_cache_ok_def intro!: cdll_search_iff)
  show ?thesis
  proof (intro equalityI subsetI)
    fix obj
    assume "obj \<in> slab_live s"
    then obtain u where u: "obj \<in> slab_slots s u" "cdll_search (slab_obj s u) obj (obj_heap s) = Some False"
      by (auto simp: slab_live_def)
    with slot_page(1) [OF assms u(1)] c show "obj \<in> (\<Union>u \<in> A. slab_slots s u - set (objs u))" by auto
  next
    fix obj
    assume "obj \<in> (\<Union>u \<in> A. slab_slots s u - set (objs u))"
    then obtain u where u: "u \<in> A" "obj \<in> slab_slots s u" "obj \<notin> set (objs u)" by blast
    have "cdll_search (slab_obj s u) obj (obj_heap s) = Some False" using c [OF u(1)] u(3) by simp
    with slot_page(3) [OF assms u(2)] u(2) show "obj \<in> slab_live s"
      unfolding slab_live_def by blast
  qed
qed

section \<open>List steps\<close>

lemma cdll_fill_other:
  assumes "cdll h p xs" and "cdll_fill p new h = (p', h')" and "cdll h q ys"
    and "insert new (set xs) \<inter> set ys = {}"
  shows "cdll h' q ys"
proof -
  have "cdll_push p new h = (Some new, h')"
    using assms(2) by (auto simp: cdll_fill_def cdll_push_def Let_def)
  from cdll_push_other [OF assms(1) this assms(3,4)] show ?thesis .
qed

text \<open>Operations on the objects of one slab keep the rest of the state.\<close>

lemma slab_rep_objs:
  assumes rep: "slab_rep s A us av objs" and u: "u \<in> A"
    and c: "cdll h p os" and os: "set os \<subseteq> slab_slots s u"
    and oth: "\<And>v. v \<in> A \<Longrightarrow> v \<noteq> u \<Longrightarrow> cdll h (slab_obj s v) (objs v)"
  defines "s' \<equiv> s\<lparr>slab_obj := (slab_obj s)(u := p), obj_heap := h\<rparr>"
  shows "slab_rep s' A us av (objs(u := os))" "slab_slots s' = slab_slots s"
proof -
  show sl: "slab_slots s' = slab_slots s" by (simp add: s'_def slab_slots_def fun_eq_iff)
  have "slab_cache_ok s' v ((objs(u := os)) v)" if "v \<in> A" for v
    using slab_repD(4) [OF rep that] c os oth [OF that] sl
    by (cases "v = u") (simp_all add: slab_cache_ok_def, simp_all add: s'_def)
  then show "slab_rep s' A us av (objs(u := os))"
    using rep by (simp add: slab_rep_def, simp add: s'_def slab_lists_def slab_page_ok_def slab_desc_ok_def)
qed

lemma slab_fill_obj_rep:
  assumes rep: "slab_rep s A us av objs" and u: "u \<in> A"
    and obj: "obj \<in> slab_slots s u" "obj \<notin> set (objs u)"
  shows "slab_rep (slab_fill_obj u obj s) A us av (objs(u := objs u @ [obj]))
    \<and> slab_slots (slab_fill_obj u obj s) = slab_slots s"
proof -
  obtain p h where f: "cdll_fill (slab_obj s u) obj (obj_heap s) = (p, h)" by fastforce
  have c: "cdll (obj_heap s) (slab_obj s v) (objs v)" "set (objs v) \<subseteq> slab_slots s v" if "v \<in> A" for v
    using slab_repD(4) [OF rep that] by (simp_all add: slab_cache_ok_def)
  have "cdll h (slab_obj s v) (objs v)" if "v \<in> A" "v \<noteq> u" for v
    using cdll_fill_other [OF c(1) [OF u] f c(1) [OF that(1)]] c(2) [OF u] c(2) [OF that(1)] obj
      slots_disjoint [OF rep that(2)] by blast
  with slab_rep_objs [OF rep u cdll_fill_append [OF c(1) [OF u] obj(2) f]] c(2) [OF u] obj
  show ?thesis by (simp add: slab_fill_obj_def f)
qed

lemma malloc_pop_Cons:
  assumes rep: "slab_rep s A us av objs" and u: "u \<in> A" and os: "objs u = obj # os"
    and pop: "malloc_pop u s = (r, s')"
  shows "r = Some obj \<and> slab_rep s' A us av (objs(u := os)) \<and> slab_slots s' = slab_slots s
    \<and> s' = s\<lparr>slab_obj := slab_obj s', obj_heap := obj_heap s'\<rparr>"
proof -
  have c: "cdll (obj_heap s) (slab_obj s v) (objs v)" "set (objs v) \<subseteq> slab_slots s v" if "v \<in> A" for v
    using slab_repD(4) [OF rep that] by (simp_all add: slab_cache_ok_def)
  obtain p h where f: "cdll_pop (slab_obj s u) (obj_heap s) = (Some obj, p, h)" "cdll h p os"
    using cdll_pop_Cons c(1) [OF u] os by metis
  have "cdll h (slab_obj s v) (objs v)" if "v \<in> A" "v \<noteq> u" for v
    using cdll_pop_other [OF c(1) [OF u] f(1) c(1) [OF that(1)]] c(2) [OF u] c(2) [OF that(1)]
      slots_disjoint [OF rep that(2)] by blast
  with slab_rep_objs [OF rep u f(2)] c(2) [OF u] os pop f show ?thesis by (auto simp: malloc_pop_def)
qed

lemma malloc_pop_Nil:
  assumes "slab_rep s A us av objs" and "u \<in> A" and "objs u = []"
  shows "malloc_pop u s = (None, s)"
  using slab_repD(4) [OF assms(1,2)] assms(3)
  by (auto simp: slab_cache_ok_def malloc_pop_def fun_upd_idem)

section \<open>A slab grows\<close>

text \<open>What an operation keeps for the slabs and the objects that exist.\<close>

definition slab_ext :: "offset_t set \<Rightarrow> vmm_slab \<Rightarrow> vmm_slab \<Rightarrow> bool" where
  "slab_ext A s s' \<longleftrightarrow> (\<forall>u \<in> A. slab_sz s' u = slab_sz s u) \<and> ppg_nr s' = ppg_nr s
     \<and> (\<forall>n u. ppg_slab s n = Some u \<longrightarrow> ppg_slab s' n = Some u)"

lemma slab_ext_refl: "slab_ext A s s"
  by (simp add: slab_ext_def)

lemma slab_ext_trans: "slab_ext A s s' \<Longrightarrow> slab_ext B s' s'' \<Longrightarrow> A \<subseteq> B \<Longrightarrow> slab_ext A s s''"
  by (auto simp: slab_ext_def)

lemma slab_ext_size:
  assumes "slab_rep s A us av objs" and "slab_ext A s s'" and "obj \<in> slab_live s"
  shows "slab_obj_size s' obj = slab_obj_size s obj"
proof -
  obtain u where u: "u \<in> A" "obj \<in> slab_slots s u"
    using assms(1,3) slab_live_eq by fastforce
  note p = slot_page [OF assms(1) u(2)]
  have n: "slab_page_ok s (page_nr obj)" using slab_repD(5) [OF assms(1) p(2)] by simp
  have "slab_at obj s' = Some u" using n p assms(2)
    by (simp add: slab_at_def ppg_get_desc_def Let_def slab_ext_def slab_page_ok_def)
  with p(3) assms(2) u(1) show ?thesis by (simp add: slab_obj_size_def slab_ext_def)
qed

abbreviation page_objs :: "vmm_slab \<Rightarrow> offset_t \<Rightarrow> offset_t \<Rightarrow> offset_t list" where
  "page_objs s u addr \<equiv> map (\<lambda>k. addr + of_nat k * slab_sz s u) [0..<4096 div unat (slab_sz s u)]"

lemma slab_slots_pages:
  "slab_slots s u = (\<Union>n \<in> {n. ppg_slab s n = Some u}. set (page_objs s u (page_addr n)))"
  by (auto simp: slab_slots_def) blast

lemma pool_pop_cases:
  assumes "pool_inv s" and "pool_pop_page s = (p, s')"
  obtains "p = 0" "s' = s" "pool_avail s = {}"
  | "p \<noteq> 0" "uu_aligned p PAGE_SIZE" "p \<in> pool_avail s" "p \<notin> pool_held s" "pool_inv s'"
    "pool_avail s' = pool_avail s - {p}" "pool_held s' = insert p (pool_held s)"
proof (cases "pool_avail s = {}")
  case True
  with vmm_pool.pop_none [OF assms(1)] assms(2) that(1) show ?thesis by simp
next
  case False
  note p = vmm_pool.pop_some [OF assms(1) False assms(2)]
  with vmm_pool.page_ok [OF assms(1), of p] vmm_pool.avail_held [OF assms(1)] that(2) show ?thesis
    by blast
qed

text \<open>A page of the pool that no one holds is no page of a slab, nor of its descriptors.\<close>

lemma slab_fresh_page:
  assumes "slab_rep s A us av objs" and "p \<notin> pool_held (slab_pool s)" and "uu_aligned p PAGE_SIZE"
  shows "ppg_slab s (page_nr p) = None" "\<And>u. u \<in> A \<union> set av \<Longrightarrow> page_nr u \<noteq> page_nr p"
proof -
  note pg = page_aligned_nr [OF assms(3)]
  show "ppg_slab s (page_nr p) = None"
    using slab_repD(5) [OF assms(1), of "page_nr p"] pg assms(2)
    by (cases "ppg_slab s (page_nr p)") (auto simp: slab_page_ok_def)
  show "page_nr u \<noteq> page_nr p" if "u \<in> A \<union> set av" for u
    using slab_repD(6) [OF assms(1) that] pg assms(2) by (auto simp: slab_desc_ok_def simp flip: page_addr_align)
qed

lemma slab_req_page_step:
  assumes rep: "slab_rep s A us av objs" and u: "u \<in> A" and req: "slab_req_page u s = (addr, s')"
  obtains "addr = 0" "s' = s" "pool_avail (slab_pool s) = {}"
  | "addr \<noteq> 0" "slab_rep s' A us av objs" "slab_ext A s s'" "set (page_objs s u addr) \<inter> slab_slots s u = {}"
    "\<And>v. slab_slots s' v = (if v = u then slab_slots s u \<union> set (page_objs s u addr) else slab_slots s v)"
    "s' = s\<lparr>slab_pool := slab_pool s', ppg_slab := ppg_slab s'\<rparr>" "uu_aligned addr PAGE_SIZE"
proof -
  obtain p' where pop: "pool_pop_page (slab_pool s) = (fst (pool_pop_page (slab_pool s)), p')"
    by (metis prod.collapse)
  define p where "p = fst (pool_pop_page (slab_pool s))"
  show thesis
  proof (cases rule: pool_pop_cases [OF slab_repD(1) [OF rep] pop [folded p_def]])
    case 1
    then show thesis using req pop that(1) by (simp add: slab_req_page_def Let_def p_def split: prod.splits)
  next
    case 2
    define s1 where "s1 = s\<lparr>slab_pool := p', ppg_slab := (ppg_slab s)(page_nr p := Some u)\<rparr>"
    have nr: "page_nr p < ppg_nr s" using slab_repD(2) [OF rep] 2 by blast
    with 2(1) pop req have eq: "addr = p" "s' = s1"
      unfolding p_def [symmetric] by (auto simp: slab_req_page_def ppg_get_desc_def Let_def s1_def)
    note fresh = slab_fresh_page [OF rep 2(4) 2(2)]
    note pg = page_aligned_nr [OF 2(2)]
    have ext: "slab_ext A s s1" using fresh(1) by (auto simp: slab_ext_def s1_def)
    have sl: "slab_slots s1 v = (if v = u then slab_slots s u \<union> set (page_objs s u p) else slab_slots s v)" for v
    proof -
      have "{n. ppg_slab s1 n = Some v}
          = (if v = u then insert (page_nr p) {n. ppg_slab s n = Some v} else {n. ppg_slab s n = Some v})"
        using fresh(1) by (auto simp: s1_def)
      moreover have "slab_sz s1 = slab_sz s" by (simp add: s1_def)
      ultimately show ?thesis
        unfolding slab_slots_pages using pg by (cases "v = u") (simp_all add: Un_commute)
    qed
    have "ppg_slab s n \<noteq> Some v" if m: "page_addr n + of_nat k * slab_sz s v \<in> set (page_objs s u p)"
      and k: "k < 4096 div unat (slab_sz s v)" for n k v
    proof
      assume n: "ppg_slab s n = Some v"
      have v: "v \<in> A" "slab_page_ok s n" using slab_repD(5) [OF rep n] by auto
      have ok: "slab_size_ok (slab_sz s u)" "slab_size_ok (slab_sz s v)"
        using slab_repD(4) [OF rep] u v by (simp_all add: slab_cache_ok_def)
      obtain j where j: "page_addr n + of_nat k * slab_sz s v = page_addr (page_nr p) + of_nat j * slab_sz s u"
        "j < 4096 div unat (slab_sz s u)" using m pg by auto
      have "n = page_nr p"
        using slot_bounds(3) [OF _ ok(2) k] slot_bounds(3) [OF _ ok(1) j(2)] v(2) pg j(1)
        by (metis slab_page_ok_def)
      with n fresh(1) show False by simp
    qed
    then have disj: "set (page_objs s u p) \<inter> slab_slots s u = {}"
      unfolding slab_slots_def by blast
    have "slab_cache_ok s1 v (objs v)" if "v \<in> A" for v
      using slab_repD(4) [OF rep that] sl [of v] by (simp add: slab_cache_ok_def, auto simp: s1_def)
    moreover have "slab_desc_ok s1 v" if "v \<in> A \<union> set av" for v
      using slab_repD(6) [OF rep that] fresh(2) [OF that] 2(7) by (simp add: slab_desc_ok_def s1_def)
    moreover have "v \<in> A \<and> slab_page_ok s1 n" if "ppg_slab s1 n = Some v" for n v
      using that slab_repD(5) [OF rep, of n v] u nr pg 2(7)
      by (auto simp: s1_def slab_page_ok_def split: if_splits)
    ultimately have "slab_rep s1 A us av objs"
      using slab_repD(2,3) [OF rep] 2(5,6) unfolding slab_rep_def
      by (auto simp: s1_def slab_lists_def)
    with that(2) 2(1,2) eq ext sl disj show thesis by (simp add: s1_def)
  qed
qed

lemma page_objs_distinct:
  assumes "page_nr (page_addr n) = n" and "slab_size_ok (slab_sz s u)"
  shows "distinct (page_objs s u (page_addr n))"
proof -
  have pos: "0 < unat (slab_sz s u)" using assms(2) by (simp add: slab_size_ok_def)
  have "inj_on (\<lambda>k. page_addr n + of_nat k * slab_sz s u) {0..<4096 div unat (slab_sz s u)}"
  proof (rule inj_onI)
    fix i j
    assume "i \<in> {0..<4096 div unat (slab_sz s u)}" "j \<in> {0..<4096 div unat (slab_sz s u)}"
      and "page_addr n + of_nat i * slab_sz s u = page_addr n + of_nat j * slab_sz s u"
    then have "i * unat (slab_sz s u) = j * unat (slab_sz s u)"
      using slot_bounds(1) [OF assms, of i] slot_bounds(1) [OF assms, of j]
      by (metis add_left_cancel atLeastLessThan_iff)
    with pos show "i = j" by simp
  qed
  then show ?thesis by (simp add: distinct_map)
qed

lemma slab_fill_page_rep:
  assumes "slab_rep s A us av objs" and "u \<in> A" and "distinct os" and "set os \<inter> set (objs u) = {}"
    and "set os \<subseteq> slab_slots s u" and "os = map (\<lambda>k. addr + of_nat k * slab_sz s u) [0..<n]"
  shows "slab_rep (slab_fill_page n u addr s) A us av (objs(u := objs u @ os))
    \<and> slab_slots (slab_fill_page n u addr s) = slab_slots s
    \<and> slab_fill_page n u addr s = s\<lparr>slab_obj := slab_obj (slab_fill_page n u addr s),
        obj_heap := obj_heap (slab_fill_page n u addr s)\<rparr>"
  using assms
proof (induction n arbitrary: s addr os objs)
  case 0
  then show ?case by simp
next
  case (Suc n)
  define s1 where "s1 = slab_fill_obj u addr s"
  define os' where "os' = map (\<lambda>k. (addr + slab_sz s u) + of_nat k * slab_sz s u) [0..<n]"
  have os: "os = addr # os'"
    unfolding Suc.prems(6) os'_def
    by (simp only: upt_conv_Cons [OF zero_less_Suc] map_Suc_upt [symmetric] list.map(2))
      (simp add: algebra_simps comp_def)
  note f = slab_fill_obj_rep [OF Suc.prems(1,2), of addr, folded s1_def]
  have s1: "slab_rep s1 A us av (objs(u := objs u @ [addr]))" "slab_slots s1 = slab_slots s"
    using f Suc.prems(3-5) os by auto
  have same: "s1 = s\<lparr>slab_obj := slab_obj s1, obj_heap := obj_heap s1\<rparr>"
    by (simp add: s1_def slab_fill_obj_def Let_def split: prod.splits)
  have sz: "slab_sz s1 = slab_sz s" by (subst same) simp
  define s2 where "s2 = slab_fill_page n u (addr + slab_sz s u) s1"
  have os'2: "os' = map (\<lambda>k. (addr + slab_sz s u) + of_nat k * slab_sz s1 u) [0..<n]"
    by (simp add: os'_def sz)
  have d: "distinct os'" "set os' \<inter> set ((objs(u := objs u @ [addr])) u) = {}"
    "set os' \<subseteq> slab_slots s1 u"
    using Suc.prems(3-5) os s1(2) by auto
  note IH = Suc.IH [OF s1(1) Suc.prems(2) d os'2, folded s2_def]
  have "slab_rep s2 A us av (objs(u := objs u @ os))"
    using IH unfolding os by (simp only: fun_upd_upd fun_upd_same append_assoc append.simps)
  moreover have "s2 = s\<lparr>slab_obj := slab_obj s2, obj_heap := obj_heap s2\<rparr>"
  proof -
    have "s2 = (s\<lparr>slab_obj := slab_obj s1, obj_heap := obj_heap s1\<rparr>)
        \<lparr>slab_obj := slab_obj s2, obj_heap := obj_heap s2\<rparr>"
      using IH unfolding same [symmetric] by (elim conjE)
    then show ?thesis by simp
  qed
  moreover have "slab_fill_page (Suc n) u addr s = s2" by (simp add: s2_def s1_def)
  moreover have "slab_slots s2 = slab_slots s" using IH s1(2) by simp
  ultimately show ?case by (simp only:)
qed

text \<open>Growing a slab by one object takes one page, or finds the pool empty; no object of
  the new page is live.\<close>

lemma slab_grow_one:
  assumes rep: "slab_rep s A us av objs" and cnt: "slab_cnt s A objs" and u: "u \<in> A"
  obtains "slab_grow (Some u) 1 s = Some (0, s)" "pool_avail (slab_pool s) = {}"
  | n s' os where "slab_grow (Some u) 1 s = Some (n, s')" "n \<noteq> 0" "os \<noteq> []"
    "slab_rep s' A us av (objs(u := objs u @ os))" "slab_cnt s' A (objs(u := objs u @ os))"
    "slab_ext A s s'" "slab_live s' = slab_live s" "slab_count s' = slab_count s"
proof -
  have ok: "slab_size_ok (slab_sz s u)" using slab_repD(4) [OF rep u] by (simp add: slab_cache_ok_def)
  then have sz: "16 \<le> unat (slab_sz s u)" "unat (slab_sz s u) \<le> 2048" by (auto simp: slab_size_ok_def)
  define np where "np = PAGE_SIZE div slab_sz s u"
  have np: "unat np = 4096 div unat (slab_sz s u)" by (simp add: np_def PAGE_SIZE_def unat_div)
  have np0: "0 < unat np" "unat np \<le> 4096" unfolding np using sz by (auto simp: div_greater_zero_iff)
  have "slab_sz s u \<noteq> 0" "drop_bit PAGE_SHIFT (slab_sz s u) = 0" "slab_sz s u mod PAGE_SIZE = slab_sz s u"
  proof -
    show "slab_sz s u \<noteq> 0" using sz by auto
    have "unat (drop_bit PAGE_SHIFT (slab_sz s u)) = unat (0 :: u64)"
      using sz by (simp add: PAGE_SHIFT_def unat_drop_bit_div)
    then show "drop_bit PAGE_SHIFT (slab_sz s u) = 0" by (rule unsigned_word_eqI)
    have "unat (slab_sz s u mod PAGE_SIZE) = unat (slab_sz s u)"
      using sz by (simp add: unat_mod PAGE_SIZE_def)
    then show "slab_sz s u mod PAGE_SIZE = slab_sz s u" by (rule unsigned_word_eqI)
  qed
  then have grow: "slab_grow (Some u) 1 s = Some (slab_grow_loop 1 u np 0 s)"
    by (simp add: slab_grow_def Let_def np_def)
  obtain addr s1 where req: "slab_req_page u s = (addr, s1)" by fastforce
  show thesis
  proof (cases rule: slab_req_page_step [OF rep u req])
    case 1
    then show thesis using that(1) grow req by simp
  next
    case 2
    define os where "os = page_objs s u addr"
    define s2 where "s2 = slab_fill_page (unat np) u addr s1"
    define s' where "s' = s2\<lparr>slab_nr := (slab_nr s2)(u := slab_nr s2 u + np)\<rparr>"
    have szs: "slab_sz s1 = slab_sz s" "slab_nr s1 = slab_nr s" "slab_count s1 = slab_count s"
      by (subst 2(6); simp)+
    have d: "distinct os"
      using page_objs_distinct [of "page_nr addr" s u] page_aligned_nr [OF 2(7)] ok by (simp add: os_def)
    have sub: "set (objs u) \<subseteq> slab_slots s u" using slab_repD(4) [OF rep u] by (simp add: slab_cache_ok_def)
    note f = slab_fill_page_rep [OF 2(2) u d, of addr "unat np", folded s2_def]
    have s2: "slab_rep s2 A us av (objs(u := objs u @ os))" "slab_slots s2 = slab_slots s1"
      "s2 = s1\<lparr>slab_obj := slab_obj s2, obj_heap := obj_heap s2\<rparr>"
      using f sub 2(4,5) by (auto simp: os_def np szs)
    have keep: "slab_nr s2 = slab_nr s" "slab_sz s2 = slab_sz s" "slab_count s2 = slab_count s"
      "ppg_nr s2 = ppg_nr s1" "ppg_slab s2 = ppg_slab s1"
      by (subst s2(3); simp add: szs)+
    have rep': "slab_rep s' A us av (objs(u := objs u @ os))"
      using s2(1) by (simp add: s'_def slab_rep_def slab_lists_def slab_cache_ok_def slab_page_ok_def
          slab_desc_ok_def slab_slots_def)
    have len: "length os = unat np" by (simp add: os_def np)
    have cnt': "slab_cnt s' A (objs(u := objs u @ os))"
      using cnt len by (auto simp: slab_cnt_def s'_def keep)
    have ext: "slab_ext A s s'" using 2(3) by (simp add: slab_ext_def s'_def keep)
    have "slab_slots s' = slab_slots s2" by (simp add: s'_def slab_slots_def fun_eq_iff)
    with s2(2) have "slab_slots s' v - set ((objs(u := objs u @ os)) v) = slab_slots s v - set (objs v)" for v
      using 2(4) 2(5) [of v] unfolding os_def [symmetric] by (cases "v = u") auto
    then have "slab_live s' = slab_live s"
      unfolding slab_live_eq [OF rep'] slab_live_eq [OF rep] by simp
    moreover have "slab_grow (Some u) 1 s = Some (np, s')"
      using grow req 2(1) by (simp add: Let_def s2_def [symmetric] s'_def [symmetric])
    moreover have "np \<noteq> 0" "os \<noteq> []" using np0 len by auto
    ultimately show thesis using that(2) rep' cnt' ext by (simp add: s'_def keep)
  qed
qed

section \<open>Descriptors\<close>

definition slab_keep :: "offset_t set \<Rightarrow> vmm_slab \<Rightarrow> vmm_slab \<Rightarrow> bool" where
  "slab_keep A s s' \<longleftrightarrow> slab_ext A s s' \<and> slab_live s' = slab_live s \<and> slab_count s' = slab_count s"

lemma slab_keep_trans: "slab_keep A s s' \<Longrightarrow> slab_keep B s' s'' \<Longrightarrow> A \<subseteq> B \<Longrightarrow> slab_keep A s s''"
  using slab_ext_trans by (auto simp: slab_keep_def)

text \<open>A change that leaves the pages, sizes and objects of the slabs \<open>A\<close> alone.\<close>

definition slab_agree :: "offset_t set \<Rightarrow> vmm_slab \<Rightarrow> vmm_slab \<Rightarrow> bool" where
  "slab_agree A s s' \<longleftrightarrow> slab_pool s' = slab_pool s \<and> ppg_nr s' = ppg_nr s \<and> ppg_slab s' = ppg_slab s
     \<and> obj_heap s' = obj_heap s \<and> slab_count s' = slab_count s
     \<and> (\<forall>u \<in> A. slab_sz s' u = slab_sz s u \<and> slab_obj s' u = slab_obj s u \<and> slab_nr s' u = slab_nr s u)"

lemma slab_agree_slots: "slab_agree A s s' \<Longrightarrow> u \<in> A \<Longrightarrow> slab_slots s' u = slab_slots s u"
  by (simp add: slab_agree_def slab_slots_def)

lemma slab_agree_rep:
  assumes rep: "slab_rep s A us av objs" and ag: "slab_agree A s s'" and l: "slab_lists s' A us av'"
    and d: "\<And>u. u \<in> set av' \<Longrightarrow> slab_desc_ok s u"
  shows "slab_rep s' A us av' objs"
proof -
  have "slab_desc_ok s u" if "u \<in> A \<union> set av'" for u
    using that d slab_repD(6) [OF rep] by auto
  then have "slab_desc_ok s' u" if "u \<in> A \<union> set av'" for u
    using that ag by (simp add: slab_desc_ok_def slab_agree_def)
  moreover have "slab_cache_ok s' u (objs u)" if "u \<in> A" for u
    using slab_repD(4) [OF rep that] slab_agree_slots [OF ag that] ag that
    by (simp add: slab_cache_ok_def slab_agree_def)
  moreover have "u \<in> A \<and> slab_page_ok s' n" if "ppg_slab s' n = Some u" for n u
    using slab_repD(5) [OF rep, of n u] that ag by (simp add: slab_page_ok_def slab_agree_def)
  ultimately show ?thesis
    using slab_repD(1,2) [OF rep] l ag unfolding slab_rep_def by (simp add: slab_agree_def)
qed

lemma slab_agree_keep:
  assumes rep: "slab_rep s A us av objs" and rep': "slab_rep s' A us' av' objs" and ag: "slab_agree A s s'"
  shows "slab_keep A s s'"
proof -
  have "slab_live s' = slab_live s"
    unfolding slab_live_eq [OF rep'] slab_live_eq [OF rep] using slab_agree_slots [OF ag] by auto
  then show ?thesis using ag by (auto simp: slab_keep_def slab_ext_def slab_agree_def)
qed

lemma slab_agree_cnt: "slab_agree A s s' \<Longrightarrow> slab_cnt s A objs \<Longrightarrow> slab_cnt s' A objs"
  by (simp add: slab_agree_def slab_cnt_def)

lemma slab_agree_trans: "slab_agree A s s' \<Longrightarrow> slab_agree A s' s'' \<Longrightarrow> slab_agree A s s''"
  by (simp add: slab_agree_def)

lemma slab_lists_setup:
  "u \<notin> A \<Longrightarrow> slab_lists (slab_setup u sz s) A us av = slab_lists s A us av"
proof -
  assume u: "u \<notin> A"
  have "sorted_wrt (\<lambda>x y. slab_sz (slab_setup u sz s) x < slab_sz (slab_setup u sz s) y) us
      = sorted_wrt (\<lambda>x y. slab_sz s x < slab_sz s y) us" if "set us \<subseteq> A"
    using u that by (induction us) (auto simp: slab_setup_def)
  then show ?thesis by (auto simp: slab_lists_def) (auto simp: slab_setup_def)
qed

lemma slab_fill_avl_lists:
  assumes "slab_lists s A us av" and "u \<notin> A" and "u \<notin> set av"
  shows "slab_lists (slab_fill_avl u s) A us (av @ [u])"
proof -
  obtain p h where f: "cdll_fill (slab_avl s) u (slab_heap s) = (p, h)" by fastforce
  have "cdll h (slab_used s) us"
    using cdll_fill_other [OF _ f, of av "slab_used s" us] assms by (auto simp: slab_lists_def)
  with cdll_fill_append [OF _ assms(3) f] assms f show ?thesis
    by (auto simp: slab_lists_def slab_fill_avl_def)
qed

lemma slab_fill_avl_agree: "slab_agree A s (slab_fill_avl u s)"
  by (simp add: slab_agree_def slab_fill_avl_def split: prod.splits)

lemma slab_new_desc:
  fixes sz :: size_t
  assumes "slab_rep s A us av objs" and "u \<notin> A" and "u \<notin> set av" and "slab_desc_ok s u"
  defines "s' \<equiv> slab_fill_avl u (slab_setup u sz s)"
  shows "slab_rep s' A us (av @ [u]) objs" "slab_agree A s s'" "slab_pool s' = slab_pool s"
    "ppg_slab s' = ppg_slab s"
proof -
  have "slab_agree A s (slab_setup u sz s)" using assms(2) by (auto simp: slab_agree_def slab_setup_def)
  then show ag: "slab_agree A s s'" unfolding s'_def using slab_agree_trans slab_fill_avl_agree by blast
  then show "slab_pool s' = slab_pool s" "ppg_slab s' = ppg_slab s" by (auto simp: slab_agree_def)
  have "slab_lists s' A us (av @ [u])"
    unfolding s'_def using slab_repD(3) [OF assms(1)] assms(2,3)
    by (intro slab_fill_avl_lists) (simp_all add: slab_lists_setup)
  from slab_agree_rep [OF assms(1) ag this] show "slab_rep s' A us (av @ [u]) objs"
    using slab_repD(6) [OF assms(1)] assms(4) by auto
qed

lemma slab_list_grow_loop_rep:
  assumes "slab_rep s A us av objs" and "distinct ds" and "set ds \<inter> (A \<union> set av) = {}"
    and "\<And>d. d \<in> set ds \<Longrightarrow> slab_desc_ok s d" and "ds = map (\<lambda>k. slab + of_nat k * SLAB_T_SIZE) [0..<n]"
    and "slab_list_grow_loop n slab s = (r, s')"
  shows "slab_rep s' A us (av @ ds) objs \<and> slab_agree A s s' \<and> r = slab + of_nat n * SLAB_T_SIZE"
  using assms
proof (induction n arbitrary: slab s ds av)
  case 0
  then show ?case by (simp add: slab_agree_def)
next
  case (Suc n)
  define s1 where "s1 = slab_fill_avl slab (slab_setup slab 0 s)"
  define ds' where "ds' = map (\<lambda>k. (slab + SLAB_T_SIZE) + of_nat k * SLAB_T_SIZE) [0..<n]"
  have ds: "ds = slab # ds'"
    unfolding Suc.prems(5) ds'_def
    by (simp only: upt_conv_Cons [OF zero_less_Suc] map_Suc_upt [symmetric] list.map(2))
      (simp add: algebra_simps comp_def)
  note d = slab_new_desc [OF Suc.prems(1), of slab 0, folded s1_def]
  have s1: "slab_rep s1 A us (av @ [slab]) objs" "slab_agree A s s1" "slab_pool s1 = slab_pool s"
    "ppg_slab s1 = ppg_slab s"
    using d Suc.prems(3,4) ds by auto
  have "slab_desc_ok s1 d" if "d \<in> set ds'" for d
    using Suc.prems(4) [of d] that ds s1 by (simp add: slab_desc_ok_def)
  moreover have "set ds' \<inter> (A \<union> set (av @ [slab])) = {}" "distinct ds'"
    using Suc.prems(2,3) ds by auto
  moreover have "slab_list_grow_loop n (slab + SLAB_T_SIZE) s1 = (r, s')"
    using Suc.prems(6) by (simp add: s1_def)
  ultimately have "slab_rep s' A us ((av @ [slab]) @ ds') objs \<and> slab_agree A s1 s'
      \<and> r = slab + SLAB_T_SIZE + of_nat n * SLAB_T_SIZE"
    using Suc.IH [OF s1(1)] ds'_def by blast
  with s1(2) ds slab_agree_trans show ?case by (auto simp: algebra_simps)
qed

text \<open>A page of descriptors.\<close>

lemma slab_page_descs:
  assumes "uu_aligned p PAGE_SIZE" and "i < 102"
  shows "page_nr (p + of_nat i * SLAB_T_SIZE) = page_nr p"
    and "unat (p + of_nat i * SLAB_T_SIZE) = unat p + i * 40"
proof -
  have p: "4096 dvd unat p" using assms(1) uu_aligned_unat [of p 12] by (simp add: PAGE_SIZE_def)
  then obtain q where q: "unat p = 4096 * q" by (elim dvdE)
  have ui: "unat (of_nat i * SLAB_T_SIZE :: u64) = i * 40"
    using assms(2) by (simp add: SLAB_T_SIZE_def unat_word_ariths unat_of_nat take_bit_eq_mod)
  have "unat p + i * 40 < 2 ^ 64" using unat_u64_less [of p] q assms(2) by simp
  then show u: "unat (p + of_nat i * SLAB_T_SIZE) = unat p + i * 40"
    using ui by (subst unat_add_lem [THEN iffD1]) simp_all
  have "unat (page_nr (p + of_nat i * SLAB_T_SIZE)) = unat (page_nr p)"
    unfolding page_nr_unat u q using assms(2) by simp
  then show "page_nr (p + of_nat i * SLAB_T_SIZE) = page_nr p" by (rule unsigned_word_eqI)
qed

lemma slab_list_grow_step:
  assumes rep: "slab_rep s A us [] objs" and g: "slab_list_grow s = (r, s')"
  obtains "r = 0" "s' = s" "pool_avail (slab_pool s) = {}"
  | d ds where "r \<noteq> 0" "slab_rep s' A us (d # ds) objs" "slab_keep A s s'"
    "slab_cnt s A objs \<Longrightarrow> slab_cnt s' A objs"
proof -
  obtain p p' where pop: "pool_pop_page (slab_pool s) = (p, p')" by fastforce
  show thesis
  proof (cases rule: pool_pop_cases [OF slab_repD(1) [OF rep] pop])
    case 1
    then show thesis using that(1) g pop by (simp add: slab_list_grow_def Let_def)
  next
    case 2
    define s1 where "s1 = s\<lparr>slab_pool := p'\<rparr>"
    define ds where "ds = map (\<lambda>k. p + of_nat k * SLAB_T_SIZE) [0..<102]"
    have sl: "slab_slots s1 = slab_slots s" by (simp add: s1_def slab_slots_def fun_eq_iff)
    have rep1: "slab_rep s1 A us [] objs"
      using rep 2(5,6,7) unfolding slab_rep_def slab_cache_ok_def sl
      by (auto simp: s1_def slab_lists_def slab_page_ok_def slab_desc_ok_def)
    have keep1: "slab_keep A s s1"
      unfolding slab_keep_def slab_live_eq [OF rep1] slab_live_eq [OF rep] sl
      by (simp add: slab_ext_def s1_def)
    note fresh = slab_fresh_page [OF rep 2(4,2)]
    have pn: "page_nr d = page_nr p" if "d \<in> set ds" for d
      using that slab_page_descs(1) [OF 2(2)] by (auto simp: ds_def)
    have ok: "slab_desc_ok s1 d" if "d \<in> set ds" for d
      using pn [OF that] fresh(1) page_aligned_nr [OF 2(2)] 2(7) page_addr_align [of d]
      by (simp add: slab_desc_ok_def s1_def)
    have dj: "set ds \<inter> (A \<union> set []) = {}" using pn fresh(2) by auto
    have "inj_on (\<lambda>k. p + of_nat k * SLAB_T_SIZE) {0..<102}"
      by (rule inj_onI) (metis slab_page_descs(2) [OF 2(2)] atLeastLessThan_iff add_left_cancel
          mult_right_cancel zero_neq_numeral)
    then have dd: "distinct ds" by (simp add: ds_def distinct_map)
    have "unat (PAGE_SIZE div SLAB_T_SIZE) = 102" by (simp add: PAGE_SIZE_def SLAB_T_SIZE_def)
    then have loop: "slab_list_grow_loop 102 p s1 = (r, s')"
      using g pop 2(1) by (simp add: slab_list_grow_def Let_def s1_def)
    from slab_list_grow_loop_rep [OF rep1 dd dj ok ds_def loop]
    have l: "slab_rep s' A us ds objs" "slab_agree A s1 s'" "r = p + of_nat 102 * SLAB_T_SIZE" by auto
    have "r \<noteq> 0"
    proof -
      have "4096 dvd unat p" using 2(2) uu_aligned_unat [of p 12] by (simp add: PAGE_SIZE_def)
      then obtain q where q: "unat p = 4096 * q" by (elim dvdE)
      have "unat (p + 4080) = unat p + 4080"
        using unat_u64_less [of p] q by (subst unat_add_lem [THEN iffD1]) simp_all
      then show ?thesis using l(3) by (auto simp: SLAB_T_SIZE_def)
    qed
    moreover have "slab_keep A s s'"
      using slab_keep_trans [OF keep1 slab_agree_keep [OF rep1 l(1,2)]] by simp
    moreover have "slab_cnt s A objs \<Longrightarrow> slab_cnt s' A objs"
      using slab_agree_cnt [OF l(2)] by (simp add: slab_cnt_def s1_def)
    moreover have "ds = p # tl ds" by (simp add: ds_def upt_conv_Cons)
    ultimately show thesis using that(2) l(1) by metis
  qed
qed

section \<open>A new slab\<close>

lemma slab_keep_refl: "slab_keep A s s"
  by (simp add: slab_keep_def slab_ext_refl)

lemma slab_avl_pop:
  assumes rep: "slab_rep s A us (u # av) objs" and pop: "cdll_pop (slab_avl s) (slab_heap s) = (r, p, h)"
  defines "s' \<equiv> s\<lparr>slab_avl := p, slab_heap := h\<rparr>"
  shows "r = Some u" "slab_rep s' A us av objs" "slab_agree A s s'" "u \<notin> A" "u \<notin> set av" "slab_desc_ok s' u"
proof -
  have l: "cdll (slab_heap s) (slab_used s) us" "cdll (slab_heap s) (slab_avl s) (u # av)"
    "set us \<subseteq> A" "A \<inter> set (u # av) = {}" "sorted_wrt (\<lambda>u v. slab_sz s u < slab_sz s v) us"
    using slab_repD(3) [OF rep] unfolding slab_lists_def by blast+
  have c: "r = Some u" "cdll h p av" using cdll_pop_Cons [OF l(2)] pop by auto
  then show "r = Some u" by simp
  have "cdll h (slab_used s) us" using cdll_pop_other [OF l(2) pop l(1)] l(3,4) by blast
  with c l have ls: "slab_lists s' A us av" by (auto simp: slab_lists_def s'_def)
  show ag: "slab_agree A s s'" by (simp add: slab_agree_def s'_def)
  show "slab_rep s' A us av objs"
    using slab_agree_rep [OF rep ag ls] slab_repD(6) [OF rep] by simp
  show "u \<notin> A" "u \<notin> set av" using l(4) cdll_distinct [OF l(2)] by auto
  show "slab_desc_ok s' u" using slab_repD(6) [OF rep, of u] by (simp add: slab_desc_ok_def s'_def)
qed

lemma slab_alloc_step:
  assumes rep: "slab_rep s A us av objs" and cnt: "slab_cnt s A objs" and al: "slab_alloc s = (r, s')"
  obtains "r = None" "s' = s" "pool_avail (slab_pool s) = {}"
  | u av' where "r = Some u" "slab_rep s' A us av' objs" "slab_cnt s' A objs" "slab_keep A s s'"
    "u \<notin> A" "u \<notin> set av'" "slab_desc_ok s' u"
proof -
  note out = that
  have avl: "slab_avl s = None \<longleftrightarrow> av = []"
    using slab_repD(3) [OF rep] cdll_ptr by (fastforce simp: slab_lists_def)
  have fin: thesis if "slab_rep s1 A us (d # ds) objs" "slab_cnt s1 A objs" "slab_keep A s s1"
    "(case cdll_pop (slab_avl s1) (slab_heap s1) of (r, p, h) \<Rightarrow> (r, s1\<lparr>slab_avl := p, slab_heap := h\<rparr>)) = (r, s')"
    for s1 d ds
  proof -
    obtain q p h where pop: "cdll_pop (slab_avl s1) (slab_heap s1) = (q, p, h)" by (metis prod.collapse)
    note a = slab_avl_pop [OF that(1) pop]
    have s': "s' = s1\<lparr>slab_avl := p, slab_heap := h\<rparr>" "r = q" using that(4) pop by auto
    have "slab_keep A s s'"
      using slab_keep_trans [OF that(3) slab_agree_keep [OF that(1) a(2,3)]] s' by simp
    with a slab_agree_cnt [OF a(3) that(2)] s' out(2) show thesis by simp
  qed
  show thesis
  proof (cases "av = []")
    case True
    obtain g s1 where g: "slab_list_grow s = (g, s1)" by fastforce
    show thesis
    proof (cases rule: slab_list_grow_step [OF rep [unfolded True] g])
      case 1
      then show thesis using that(1) al g avl True by (simp add: slab_alloc_def Let_def)
    next
      case (2 d ds)
      then show thesis using fin [OF 2(2) 2(4) [OF cnt] 2(3)] al g avl True
        by (simp add: slab_alloc_def Let_def)
    qed
  next
    case False
    then obtain d ds where av: "av = d # ds" by (cases av) auto
    show thesis using fin [OF rep [unfolded av] cnt slab_keep_refl] al avl False
      by (simp add: slab_alloc_def Let_def)
  qed
qed

lemma slab_setup_own:
  assumes rep: "slab_rep s A us av objs" and cnt: "slab_cnt s A objs" and u: "u \<notin> A" "u \<notin> set av"
    and d: "slab_desc_ok s u" and sz: "slab_size_ok sz"
  defines "s' \<equiv> slab_setup u sz s"
  shows "slab_rep s' (insert u A) us av (objs(u := []))" "slab_cnt s' (insert u A) (objs(u := []))"
    "slab_keep A s s'" "slab_sz s' u = sz"
proof -
  have ag: "slab_agree A s s'" using u(1) by (auto simp: slab_agree_def s'_def slab_setup_def)
  show "slab_sz s' u = sz" by (simp add: s'_def slab_setup_def)
  show "slab_cnt s' (insert u A) (objs(u := []))"
    using slab_agree_cnt [OF ag cnt] u(1) by (auto simp: slab_cnt_def s'_def slab_setup_def)
  have l: "slab_lists s' A us av" using slab_repD(3) [OF rep] u(1) by (simp add: s'_def slab_lists_setup)
  have rep': "slab_rep s' A us av objs"
    using slab_agree_rep [OF rep ag l] slab_repD(6) [OF rep] by simp
  show "slab_keep A s s'" by (rule slab_agree_keep [OF rep rep' ag])
  have "slab_lists s' (insert u A) us av" using l u(2) by (auto simp: slab_lists_def)
  moreover have "slab_cache_ok s' v ((objs(u := [])) v)" if "v \<in> insert u A" for v
  proof (cases "v = u")
    case True
    then show ?thesis using sz by (simp add: slab_cache_ok_def s'_def slab_setup_def)
  next
    case False
    then show ?thesis using that slab_repD(4) [OF rep', of v] by simp
  qed
  moreover have "slab_desc_ok s' u" using d by (simp add: slab_desc_ok_def s'_def slab_setup_def)
  ultimately show "slab_rep s' (insert u A) us av (objs(u := []))"
    using rep' unfolding slab_rep_def by blast
qed

lemma slab_create_step:
  assumes rep: "slab_rep s A us av objs" and cnt: "slab_cnt s A objs" and sz: "slab_size_ok sz"
  obtains s' av' where "slab_create sz 1 s = Some (None, s')" "slab_rep s' A us av' objs"
    "slab_cnt s' A objs" "slab_keep A s s'" "pool_avail (slab_pool s') = {}"
  | u s' av' objs' where "slab_create sz 1 s = Some (Some u, s')" "u \<notin> A"
    "slab_rep s' (insert u A) us av' objs'" "slab_cnt s' (insert u A) objs'" "slab_keep A s s'"
    "slab_sz s' u = sz"
proof -
  obtain r s1 where al: "slab_alloc s = (r, s1)" by fastforce
  show thesis
  proof (cases rule: slab_alloc_step [OF rep cnt al])
    case 1
    then show thesis using that(1) [of s av] rep cnt al by (simp add: slab_create_def slab_keep_refl)
  next
    case (2 u av')
    note own = slab_setup_own [OF 2(2,3,5,6,7) sz]
    let ?s = "slab_setup u sz s1"
    show thesis
    proof (cases rule: slab_grow_one [OF own(1,2) insertI1])
      case 1
      note nd = slab_new_desc [OF 2(2,5,6,7), of sz]
      have "slab_keep A s (slab_fill_avl u ?s)"
        using slab_keep_trans [OF 2(4) slab_agree_keep [OF 2(2) nd(1,2)]] by simp
      with that(1) nd slab_agree_cnt [OF nd(2) 2(3)] 1 2(1) al show thesis
        by (simp add: slab_create_def slab_setup_def)
    next
      case (2 n s' os)
      have "slab_keep (insert u A) ?s s'" using 2 by (simp add: slab_keep_def)
      then have k: "slab_keep A s s'"
        using slab_keep_trans [OF slab_keep_trans [OF \<open>slab_keep A s s1\<close> own(3)]] by blast
      have "slab_sz s' u = sz" using 2(6) own(4) by (simp add: slab_ext_def)
      with that(2) 2 \<open>r = Some u\<close> \<open>u \<notin> A\<close> k al show thesis by (simp add: slab_create_def)
    qed
  qed
qed

definition slab_st ::
    "vmm_slab \<Rightarrow> offset_t list \<Rightarrow> offset_t list \<Rightarrow> (offset_t \<Rightarrow> offset_t list) \<Rightarrow> bool" where
  "slab_st s us av objs \<longleftrightarrow> slab_rep s (set us) us av objs \<and> slab_cnt s (set us) objs
     \<and> slab_count s = of_nat (length us)"

lemma slab_inv_st: "slab_inv s \<longleftrightarrow> (\<exists>us av objs. slab_st s us av objs)"
  by (simp add: slab_inv_def slab_st_def)

lemma cdll_insert_before_other:
  assumes "cdll h p (us @ ref # vs)" and "cel \<notin> set (us @ ref # vs)"
    and "cdll_insert_before p cel ref h = (p', h')" and "cdll h q ys"
    and "insert cel (set (us @ ref # vs)) \<inter> set ys = {}"
  shows "cdll h' q ys"
proof -
  obtain lst where p: "p = Some lst" using assms(1) by (cases us) auto
  have r: "cdll h (Some ref) (ref # vs @ us)" by (rule cdll_rotate_append [OF assms(1)])
  have "snd (cdll_push (Some ref) cel h) = h'"
    using cdll_insert_before_front [OF r, of cel lst] assms(2,3) p by auto
  then have "cdll_push (Some ref) cel h = (Some cel, h')" by (auto simp: cdll_push_def)
  from cdll_push_other [OF r this assms(4)] assms(5) show ?thesis by auto
qed

text \<open>Where \<^verbatim>\<open>slab_insert\<close> links the new slab: in front of the slabs \<open>ys\<close>.\<close>

lemma slab_link:
  assumes rep: "slab_rep s (insert u (set (xs @ ys))) (xs @ ys) av objs" and u: "u \<notin> set (xs @ ys)"
    and le: "\<And>x. x \<in> set xs \<Longrightarrow> slab_sz s x < slab_sz s u" "\<And>y. y \<in> set ys \<Longrightarrow> slab_sz s u < slab_sz s y"
    and l: "(case (case ys of [] \<Rightarrow> None | y # _ \<Rightarrow> Some y) of
        Some n \<Rightarrow> cdll_insert_before (slab_used s) u n (slab_heap s)
      | None \<Rightarrow> cdll_fill (slab_used s) u (slab_heap s)) = (p, h)"
  defines "s' \<equiv> s\<lparr>slab_used := p, slab_heap := h, slab_count := slab_count s + 1\<rparr>"
  shows "slab_rep s' (set (xs @ u # ys)) (xs @ u # ys) av objs" "slab_live s' = slab_live s"
proof -
  have c: "cdll (slab_heap s) (slab_used s) (xs @ ys)" "cdll (slab_heap s) (slab_avl s) av"
    "insert u (set (xs @ ys)) \<inter> set av = {}" "sorted_wrt (\<lambda>u v. slab_sz s u < slab_sz s v) (xs @ ys)"
    using slab_repD(3) [OF rep] unfolding slab_lists_def by blast+
  have "cdll h p (xs @ u # ys) \<and> cdll h (slab_avl s) av"
  proof (cases ys)
    case Nil
    with l cdll_fill_append [OF c(1) u, of p h] cdll_fill_other [OF c(1) _ c(2), of u p h] c(3)
    show ?thesis by simp
  next
    case (Cons y ys')
    with l cdll_insert_before_inserts [of _ _ xs y ys' u p h, OF c(1) [unfolded Cons]]
      cdll_insert_before_other [of _ _ xs y ys' u p h, OF c(1) [unfolded Cons] _ _ c(2)] c(3) u
    show ?thesis by simp
  qed
  moreover have "sorted_wrt (\<lambda>u v. slab_sz s u < slab_sz s v) (xs @ u # ys)"
    using c(4) le by (auto simp: sorted_wrt_append)
  ultimately have ls: "slab_lists s' (set (xs @ u # ys)) (xs @ u # ys) av"
    using c(3) by (auto simp: slab_lists_def s'_def)
  have A: "set (xs @ u # ys) = insert u (set (xs @ ys))" by simp
  have sl: "slab_slots s' = slab_slots s" by (simp add: s'_def slab_slots_def fun_eq_iff)
  show rep': "slab_rep s' (set (xs @ u # ys)) (xs @ u # ys) av objs"
    using rep ls unfolding slab_rep_def slab_cache_ok_def sl A
    by (simp add: s'_def slab_page_ok_def slab_desc_ok_def)
  show "slab_live s' = slab_live s"
    unfolding slab_live_eq [OF rep'] slab_live_eq [OF rep] sl A ..
qed

text \<open>What \<^verbatim>\<open>slab_new\<close> gives: no slab, and then the pool is empty, or a slab of the size
  asked for; the live objects are the same.\<close>

definition slab_given :: "vmm_slab \<Rightarrow> offset_t list \<Rightarrow> size_t \<Rightarrow> (offset_t option \<times> vmm_slab) option \<Rightarrow> bool" where
  "slab_given s us sz res \<longleftrightarrow> (\<exists>r s' us' av objs. res = Some (r, s') \<and> slab_st s' us' av objs
     \<and> set us \<subseteq> set us' \<and> slab_ext (set us) s s' \<and> slab_live s' = slab_live s
     \<and> (case r of None \<Rightarrow> pool_avail (slab_pool s') = {} | Some u \<Rightarrow> u \<in> set us' \<and> slab_sz s' u = sz))"

lemma slab_insert_given:
  assumes st: "slab_st s (xs @ ys) av objs" and sz: "slab_size_ok sz"
    and le: "\<And>x. x \<in> set xs \<Longrightarrow> slab_sz s x < sz" "\<And>y. y \<in> set ys \<Longrightarrow> sz < slab_sz s y"
  shows "slab_given s (xs @ ys) sz (slab_insert sz 1 (case ys of [] \<Rightarrow> None | y # _ \<Rightarrow> Some y) s)"
proof -
  let ?us = "xs @ ys"
  have rep: "slab_rep s (set ?us) ?us av objs" and cnt: "slab_cnt s (set ?us) objs"
    and n: "slab_count s = of_nat (length ?us)" using st by (auto simp only: slab_st_def)
  show ?thesis
  proof (cases rule: slab_create_step [OF rep cnt sz])
    case (1 s' av')
    then have "slab_st s' ?us av' objs" using n by (simp add: slab_st_def slab_keep_def)
    with 1 show ?thesis
      unfolding slab_given_def 
      by (intro exI [of _ None] exI [of _ s'] exI [of _ ?us] exI [of _ av'] exI [of _ objs])
        (simp add: slab_insert_def slab_keep_def)
  next
    case (2 u s1 av' objs')
    obtain p h where l: "(case (case ys of [] \<Rightarrow> None | y # _ \<Rightarrow> Some y) of
        Some n \<Rightarrow> cdll_insert_before (slab_used s1) u n (slab_heap s1)
      | None \<Rightarrow> cdll_fill (slab_used s1) u (slab_heap s1)) = (p, h)" by fastforce
    define s' where "s' = s1\<lparr>slab_used := p, slab_heap := h, slab_count := slab_count s1 + 1\<rparr>"
    have ext: "slab_ext (set ?us) s s1" using 2(5) by (simp add: slab_keep_def)
    have le': "\<And>x. x \<in> set xs \<Longrightarrow> slab_sz s1 x < slab_sz s1 u"
        "\<And>y. y \<in> set ys \<Longrightarrow> slab_sz s1 u < slab_sz s1 y"
      using le 2(6) ext by (auto simp: slab_ext_def)
    note lk = slab_link [OF 2(3,2) le' l, folded s'_def]
    have "slab_insert sz 1 (case ys of [] \<Rightarrow> None | y # _ \<Rightarrow> Some y) s = Some (Some u, s')"
      using 2(1) l by (simp add: slab_insert_def s'_def)
    moreover have "slab_st s' (xs @ u # ys) av' objs'"
      using lk(1) 2(4,5) n by (simp add: slab_st_def slab_cnt_def s'_def slab_keep_def)
    moreover have "slab_ext (set ?us) s s'" using ext by (simp add: slab_ext_def s'_def)
    moreover have "slab_live s' = slab_live s" using lk(2) 2(5) by (simp add: slab_keep_def)
    moreover have "slab_sz s' u = sz" using 2(6) by (simp add: s'_def)
    ultimately show ?thesis unfolding slab_given_def by fastforce
  qed
qed

section \<open>Sizes and the search for a slab\<close>

lemma slab_size_spec:
  assumes "asz \<le> 2048"
  shows "slab_size_ok (slab_size asz)" "unat asz \<le> unat (slab_size asz)"
proof -
  have a: "unat asz \<le> 2048" using assms by (simp add: word_le_nat_alt)
  have al: "uu_aligned asz 8 \<longleftrightarrow> 8 dvd unat asz" using uu_aligned_unat [of asz 3] by simp
  have n: "unat (uu_align_next asz 8) = (unat asz + 8) div 8 * 8"
    using unat_uu_align [of "asz + 8" 3] a
    by (simp add: uu_align_next_def unat_word_ariths)
  have lt: "asz < SLAB_OBJ_T_SIZE \<longleftrightarrow> unat asz < 16"
    by (simp add: SLAB_OBJ_T_SIZE_def word_less_nat_alt)
  have 16: "unat SLAB_OBJ_T_SIZE = 16" by (simp add: SLAB_OBJ_T_SIZE_def)
  consider "unat asz < 16" | "\<not> unat asz < 16" "8 dvd unat asz" | "\<not> unat asz < 16" "\<not> 8 dvd unat asz"
    by blast
  then have "slab_size_ok (slab_size asz) \<and> unat asz \<le> unat (slab_size asz)"
  proof cases
    case 3
    then have "(unat asz + 8) div 8 * 8 \<le> 2048" "unat asz \<le> (unat asz + 8) div 8 * 8"
      "16 \<le> (unat asz + 8) div 8 * 8" using a by presburger+
    with 3 al lt n show ?thesis by (simp add: slab_size_def uu_slab_size_long_def slab_size_ok_def)
  qed (use a al lt 16 in \<open>simp_all add: slab_size_def uu_slab_size_long_def slab_size_ok_def\<close>)
  then show "slab_size_ok (slab_size asz)" "unat asz \<le> unat (slab_size asz)" by auto
qed

text \<open>A request so large that rounding it up wraps around has the size zero, that no slab has.\<close>

lemma slab_size_ge:
  assumes "16 \<le> unat (slab_size asz)"
  shows "unat asz \<le> unat (slab_size asz)"
proof (cases "asz < SLAB_OBJ_T_SIZE \<or> uu_aligned asz 8")
  case True
  then show ?thesis by (auto simp: slab_size_def uu_slab_size_long_def word_less_nat_alt)
next
  case False
  then have e: "slab_size asz = uu_align (asz + 8) 8"
    by (simp add: slab_size_def uu_slab_size_long_def uu_align_next_def)
  have n: "unat (slab_size asz) = unat (asz + 8) div 8 * 8"
    using unat_uu_align [of "asz + 8" 3] by (simp add: e)
  show ?thesis
  proof (cases "unat asz + 8 < 2 ^ 64")
    case True
    then have "unat (asz + 8) = unat asz + 8" by (subst unat_add_lem [THEN iffD1]) simp_all
    then show ?thesis unfolding n by simp
  next
    case False
    then have "unat (asz + 8) = unat asz + 8 - 2 ^ 64"
      using unat_u64_less [of asz] by (simp add: unat_word_ariths mod_if)
    with unat_u64_less [of asz] n assms show ?thesis by simp
  qed
qed

lemma slab_scan_links:
  assumes "links h a zs used" and "used \<notin> set zs"
  shows "\<exists>xs v ys. a # zs = xs @ v # ys \<and> slab_scan (nxt h) szs used sz a = Some v
    \<and> (\<forall>x \<in> set xs. szs x < sz) \<and> (sz \<le> szs v \<or> ys = [])"
  using assms
proof (induction zs arbitrary: a)
  case Nil
  then show ?case by (subst slab_scan.simps) (auto intro: exI [of _ "[]"])
next
  case (Cons z zs)
  show ?case
  proof (cases "sz > szs a")
    case True
    obtain xs v ys where "z # zs = xs @ v # ys" "slab_scan (nxt h) szs used sz z = Some v"
      "\<forall>x \<in> set xs. szs x < sz" "sz \<le> szs v \<or> ys = []" using Cons.IH [of z] Cons.prems by (auto; blast)
    moreover have "slab_scan (nxt h) szs used sz a = slab_scan (nxt h) szs used sz z"
      using Cons.prems True by (subst slab_scan.simps) auto
    ultimately show ?thesis using True
      by (intro exI [of _ "a # xs"] exI [of _ v] exI [of _ ys]) auto
  next
    case False
    then have "slab_scan (nxt h) szs used sz a = Some a" by (subst slab_scan.simps) auto
    with False show ?thesis by (intro exI [of _ "[]"] exI [of _ a] exI [of _ "z # zs"]) auto
  qed
qed

lemma slab_scan_used:
  assumes "slab_lists s A us av" and "slab_used s = Some used"
  obtains xs v ys where "us = xs @ v # ys" "slab_scan (nxt (slab_heap s)) (slab_sz s) used sz used = Some v"
    "\<And>x. x \<in> set xs \<Longrightarrow> slab_sz s x < sz" "sz \<le> slab_sz s v \<or> ys = []"
    "\<And>y. y \<in> set ys \<Longrightarrow> slab_sz s v < slab_sz s y"
proof -
  have c: "cdll (slab_heap s) (Some used) us" and so: "sorted_wrt (\<lambda>u v. slab_sz s u < slab_sz s v) us"
    using assms by (auto simp: slab_lists_def)
  obtain zs where us: "us = used # zs" using c by (cases us) auto
  with c have l: "links (slab_heap s) used zs used" "used \<notin> set zs" by auto
  obtain xs v ys where sp: "used # zs = xs @ v # ys"
    "slab_scan (nxt (slab_heap s)) (slab_sz s) used sz used = Some v"
    "\<forall>x \<in> set xs. slab_sz s x < sz" "sz \<le> slab_sz s v \<or> ys = []"
    using slab_scan_links [OF l] by blast
  have "slab_sz s v < slab_sz s y" if "y \<in> set ys" for y
    using so that unfolding us sp(1) by (auto simp: sorted_wrt_append)
  with that sp us show thesis by metis
qed

lemma slab_find_spec:
  assumes "slab_lists s A us av"
  shows "\<exists>r. slab_find asz s = Some r \<and> (case r of None \<Rightarrow> True | Some u \<Rightarrow> u \<in> set us \<and> slab_sz s u = slab_size asz)"
proof (cases "slab_used s")
  case None
  then show ?thesis by (simp add: slab_find_def)
next
  case (Some used)
  obtain xs v ys where "us = xs @ v # ys"
    "slab_scan (nxt (slab_heap s)) (slab_sz s) used (slab_size asz) used = Some v"
    using slab_scan_used [OF assms Some] by metis
  with Some show ?thesis by (auto simp: slab_find_def Let_def)
qed

lemma slab_grow_given:
  assumes st: "slab_st s us av objs" and u: "u \<in> set us"
  shows "slab_given s us (slab_sz s u) (Option.bind (slab_grow (Some u) 1 s) (\<lambda>(n, s).
     if n = 0 then Some (None, s) else Some (Some u, s)))"
proof -
  have rep: "slab_rep s (set us) us av objs" and cnt: "slab_cnt s (set us) objs"
    and n: "slab_count s = of_nat (length us)" using st by (auto simp only: slab_st_def)
  show ?thesis
  proof (cases rule: slab_grow_one [OF rep cnt u])
    case 1
    then show ?thesis unfolding slab_given_def using st slab_ext_refl by fastforce
  next
    case (2 k s' os)
    then have "slab_st s' us av (objs(u := objs u @ os))" using n by (simp only: slab_st_def)
    moreover have "slab_sz s' u = slab_sz s u" using 2(6) u by (simp add: slab_ext_def)
    ultimately show ?thesis unfolding slab_given_def using 2 u by fastforce
  qed
qed

lemma slab_new_given:
  assumes st: "slab_st s us av objs" and a: "asz \<le> 2048"
  shows "slab_given s us (slab_size asz) (slab_new asz 1 s)"
proof -
  define sz where "sz = slab_size asz"
  have ok: "slab_size_ok sz" using slab_size_spec(1) [OF a] by (simp add: sz_def)
  have le: "\<not> asz > PAGE_SIZE div 2" using a by (simp add: PAGE_SIZE_def)
  have ls: "slab_lists s (set us) us av"
    using st slab_repD(3) by (auto simp: slab_st_def)
  show ?thesis
  proof (cases "slab_used s")
    case None
    then have us: "us = []" using ls by (cases us) (auto simp: slab_lists_def)
    with slab_insert_given [of s "[]" "[]", OF _ ok] st None le show ?thesis
      by (simp add: slab_new_def sz_def [symmetric])
  next
    case (Some used)
    obtain xs v ys where sp: "us = xs @ v # ys"
      "slab_scan (nxt (slab_heap s)) (slab_sz s) used sz used = Some v"
      "\<And>x. x \<in> set xs \<Longrightarrow> slab_sz s x < sz" "sz \<le> slab_sz s v \<or> ys = []"
      "\<And>y. y \<in> set ys \<Longrightarrow> slab_sz s v < slab_sz s y"
      using slab_scan_used [OF ls Some] by metis
    consider "sz < slab_sz s v" | "sz = slab_sz s v" | "slab_sz s v < sz" by fastforce
    then show ?thesis
    proof cases
      case 1
      have "sz < slab_sz s y" if "y \<in> set (v # ys)" for y
        using that 1 sp(5) [of y] by auto
      with slab_insert_given [of s xs "v # ys", OF _ ok sp(3)] st sp(1,2) Some le 1 show ?thesis
        by (simp add: slab_new_def sz_def [symmetric])
    next
      case 2
      with slab_grow_given [OF st, of v] sp(1,2) Some le show ?thesis
        by (simp add: slab_new_def sz_def [symmetric])
    next
      case 3
      with sp have us: "us = (xs @ [v]) @ []" by auto
      have "slab_sz s x < sz" if "x \<in> set (xs @ [v])" for x using that sp(3) 3 by auto
      moreover have "sz \<noteq> slab_sz s v" "\<not> sz < slab_sz s v" using 3 by auto
      ultimately show ?thesis using slab_insert_given [OF st [unfolded us] ok] sp(2) Some le us
        by (simp add: slab_new_def sz_def [symmetric])
    qed
  qed
qed

section \<open>Allocation and release\<close>

lemma slab_nr_rep:
  "slab_rep (s\<lparr>slab_nr := f\<rparr>) A us av objs = slab_rep s A us av objs"
  "slab_slots (s\<lparr>slab_nr := f\<rparr>) = slab_slots s"
  by (simp_all add: slab_rep_def slab_lists_def slab_cache_ok_def slab_page_ok_def slab_desc_ok_def
      slab_slots_def fun_eq_iff)

text \<open>The object at the head of the list of a slab becomes live.\<close>

lemma malloc_pop_st:
  assumes st: "slab_st s us av objs" and u: "u \<in> set us" and ne: "objs u \<noteq> []"
    and pop: "malloc_pop u s = (r, s1)"
  defines "s' \<equiv> s1\<lparr>slab_nr := (slab_nr s1)(u := slab_nr s1 u - 1)\<rparr>"
  shows "\<exists>obj objs'. r = Some obj \<and> slab_st s' us av objs' \<and> slab_ext (set us) s s'
    \<and> obj \<in> slab_slots s' u \<and> obj \<notin> slab_live s \<and> slab_live s' = insert obj (slab_live s)"
proof -
  have rep: "slab_rep s (set us) us av objs" and cnt: "slab_cnt s (set us) objs"
    and n: "slab_count s = of_nat (length us)" using st by (auto simp only: slab_st_def)
  obtain obj os where os: "objs u = obj # os" using ne by (cases "objs u") auto
  let ?objs = "objs(u := os)"
  note p = malloc_pop_Cons [OF rep u os pop]
  then have same: "s1 = s\<lparr>slab_obj := slab_obj s1, obj_heap := obj_heap s1\<rparr>" by blast
  have keep: "slab_nr s1 = slab_nr s" "slab_sz s1 = slab_sz s" "slab_count s1 = slab_count s"
    "ppg_nr s1 = ppg_nr s" "ppg_slab s1 = ppg_slab s" by (subst same; simp)+
  have rep': "slab_rep s' (set us) us av ?objs" and sl: "slab_slots s' = slab_slots s"
    using p by (simp_all only: s'_def slab_nr_rep)
  have "slab_nr s' v = of_nat (length (?objs v))" if "v \<in> set us" for v
    using cnt that os by (auto simp: slab_cnt_def s'_def keep)
  then have st': "slab_st s' us av ?objs" using rep' n by (simp add: slab_st_def slab_cnt_def s'_def keep)
  have mem: "obj \<in> slab_slots s u" "set (objs u) \<subseteq> slab_slots s u" "distinct (objs u)"
    using slab_repD(4) [OF rep u] os by (auto simp: slab_cache_ok_def dest: cdll_distinct)
  have uniq: "obj \<in> slab_slots s v \<longleftrightarrow> v = u" for v
    using mem(1) slots_disjoint [OF rep, of u v] by blast
  have "obj \<notin> slab_live s" unfolding slab_live_eq [OF rep] using uniq os by auto
  moreover have "slab_live s' = insert obj (slab_live s)"
  proof -
    have "slab_slots s v - set (?objs v)
        = (if v = u then insert obj (slab_slots s v - set (objs v)) else slab_slots s v - set (objs v))" for v
      using mem os by auto
    then show ?thesis unfolding slab_live_eq [OF rep'] slab_live_eq [OF rep] sl using u by auto
  qed
  moreover have "slab_ext (set us) s s'" by (simp add: slab_ext_def s'_def keep)
  ultimately show ?thesis using p st' mem(1) sl by auto
qed

lemma malloc_take_step:
  assumes st: "slab_st s us av objs" and u: "u \<in> set us"
  obtains "malloc_take u s = Some (None, s)" "pool_avail (slab_pool s) = {}"
  | obj s' objs' where "malloc_take u s = Some (Some obj, s')" "slab_st s' us av objs'"
    "slab_ext (set us) s s'" "obj \<in> slab_slots s' u" "obj \<notin> slab_live s"
    "slab_live s' = insert obj (slab_live s)"
proof -
  have rep: "slab_rep s (set us) us av objs" and cnt: "slab_cnt s (set us) objs"
    and n: "slab_count s = of_nat (length us)" using st by (auto simp only: slab_st_def)
  show thesis
  proof (cases "objs u = []")
    case False
    obtain r s1 where pop: "malloc_pop u s = (r, s1)" by fastforce
    from malloc_pop_st [OF st u False pop] that(2) pop show thesis
      by (auto simp: malloc_take_def Let_def)
  next
    case True
    note nil = malloc_pop_Nil [OF rep u True]
    show thesis
    proof (cases rule: slab_grow_one [OF rep cnt u])
      case 1
      with nil that(1) show thesis by (simp add: malloc_take_def Let_def)
    next
      case (2 k s1 os)
      have st1: "slab_st s1 us av (objs(u := objs u @ os))" using 2 n by (simp only: slab_st_def)
      obtain r s2 where pop: "malloc_pop u s1 = (r, s2)" by fastforce
      have "(objs(u := objs u @ os)) u \<noteq> []" using 2(3) by simp
      from malloc_pop_st [OF st1 u this pop] obtain obj objs' where
        r: "r = Some obj" and o: "slab_st (s2\<lparr>slab_nr := (slab_nr s2)(u := slab_nr s2 u - 1)\<rparr>) us av objs'"
        "slab_ext (set us) s1 (s2\<lparr>slab_nr := (slab_nr s2)(u := slab_nr s2 u - 1)\<rparr>)"
        "obj \<in> slab_slots (s2\<lparr>slab_nr := (slab_nr s2)(u := slab_nr s2 u - 1)\<rparr>) u"
        "obj \<notin> slab_live s1"
        "slab_live (s2\<lparr>slab_nr := (slab_nr s2)(u := slab_nr s2 u - 1)\<rparr>) = insert obj (slab_live s1)"
        by blast
      show thesis
        by (rule that(2) [OF _ o(1) slab_ext_trans [OF 2(6) o(2) order_refl] o(3)])
          (use nil 2 pop r o(4,5) in \<open>simp_all add: malloc_take_def Let_def\<close>)
    qed
  qed
qed

lemma slab_at_size:
  assumes "slab_st s us av objs" and "obj \<in> slab_slots s u"
  shows "slab_obj_size s obj = unat (slab_sz s u)" "8 dvd unat obj" "16 \<le> unat (slab_sz s u)"
proof -
  have rep: "slab_rep s (set us) us av objs" using assms(1) by (simp only: slab_st_def)
  note p = slot_page [OF rep assms(2)]
  show "slab_obj_size s obj = unat (slab_sz s u)" using p(3) by (simp add: slab_obj_size_def)
  have ok: "slab_size_ok (slab_sz s u)" using slab_repD(4) [OF rep p(1)] by (simp add: slab_cache_ok_def)
  then show "16 \<le> unat (slab_sz s u)" by (simp add: slab_size_ok_def)
  obtain n k where n: "obj = page_addr n + of_nat k * slab_sz s u" "ppg_slab s n = Some u"
    "k < 4096 div unat (slab_sz s u)" using assms(2) by (auto simp: slab_slots_def)
  have "page_nr (page_addr n) = n" using slab_repD(5) [OF rep n(2)] by (simp add: slab_page_ok_def)
  from slot_bounds(1) [OF this ok n(3)] n(1) ok show "8 dvd unat obj"
    by (auto simp: slab_size_ok_def intro!: dvd_add dvd_mult dvd_mult2)
qed

definition blocks_disjoint :: "vmm_slab \<Rightarrow> offset_t \<Rightarrow> offset_t \<Rightarrow> bool" where
  "blocks_disjoint s a b \<longleftrightarrow> unat a + slab_obj_size s a \<le> unat b \<or> unat b + slab_obj_size s b \<le> unat a"

lemma slab_live_disjoint:
  assumes st: "slab_st s us av objs" and "a \<in> slab_live s" and "b \<in> slab_live s" and "a \<noteq> b"
  shows "blocks_disjoint s a b"
proof -
  have rep: "slab_rep s (set us) us av objs" using st by (simp only: slab_st_def)
  obtain u v where "a \<in> slab_slots s u" "b \<in> slab_slots s v"
    using assms(2,3) unfolding slab_live_eq [OF rep] by blast
  with slot_disjoint [OF rep this assms(4)] slab_at_size(1) [OF st] show ?thesis
    by (simp add: blocks_disjoint_def)
qed

lemma malloc_step:
  assumes st: "slab_st s us av objs"
  obtains s' us' av' objs' where "malloc asz s = Some (None, s')" "slab_st s' us' av' objs'"
    "slab_ext (set us) s s'" "slab_live s' = slab_live s" "2048 < asz \<or> pool_avail (slab_pool s') = {}"
  | obj u s' us' av' objs' where "malloc asz s = Some (Some obj, s')" "slab_st s' us' av' objs'"
    "slab_ext (set us) s s'" "obj \<in> slab_slots s' u" "slab_sz s' u = slab_size asz" "obj \<notin> slab_live s"
    "slab_live s' = insert obj (slab_live s)"
proof -
  note out = that
  have take: thesis if st1: "slab_st s1 us1 av1 objs1" and e: "slab_ext (set us) s s1"
    and lv: "slab_live s1 = slab_live s" and u: "u \<in> set us1" "slab_sz s1 u = slab_size asz"
    and m: "malloc asz s = malloc_take u s1" and sub: "set us \<subseteq> set us1" for s1 us1 av1 objs1 u
  proof (cases rule: malloc_take_step [OF st1 u(1)])
    case 1
    with out(1) [OF _ st1 e lv] m show thesis by simp
  next
    case (2 obj s' objs')
    have "slab_sz s' u = slab_size asz" using 2(3) u by (simp add: slab_ext_def)
    with out(2) [OF _ 2(2) slab_ext_trans [OF e 2(3) sub] 2(4)] 2 m lv show thesis by simp
  qed
  have ls: "slab_lists s (set us) us av" using st slab_repD(3) by (auto simp: slab_st_def)
  obtain r where f: "slab_find asz s = Some r"
    and r: "\<And>u. r = Some u \<Longrightarrow> u \<in> set us \<and> slab_sz s u = slab_size asz"
    using slab_find_spec [OF ls, of asz] by (auto split: option.splits)
  show thesis
  proof (cases r)
    case (Some u)
    with take [OF st slab_ext_refl refl, of u] r [OF Some] f show thesis by (simp add: malloc_def)
  next
    case None
    show thesis
    proof (cases "asz \<le> 2048")
      case False
      then have big: "2048 < asz" by (simp add: not_le)
      then have "slab_new asz 1 s = Some (None, s)" by (simp add: slab_new_def PAGE_SIZE_def)
      with big f None out(1) [OF _ st slab_ext_refl refl] show thesis by (simp add: malloc_def)
    next
      case True
      from slab_new_given [OF st True] obtain q s1 us1 av1 objs1 where
        n: "slab_new asz 1 s = Some (q, s1)" "slab_st s1 us1 av1 objs1" "slab_ext (set us) s s1"
        "slab_live s1 = slab_live s" "set us \<subseteq> set us1" and q: "case q of None \<Rightarrow> pool_avail (slab_pool s1) = {}
          | Some u \<Rightarrow> u \<in> set us1 \<and> slab_sz s1 u = slab_size asz"
        unfolding slab_given_def by blast
      show thesis
      proof (cases q)
        case None
        with n q f \<open>r = None\<close> out(1) [OF _ n(2,3,4)] show thesis by (simp add: malloc_def)
      next
        case (Some u)
        with take [OF n(2,3,4), of u] n q f \<open>r = None\<close> show thesis
          by (simp add: malloc_def)
      qed
    qed
  qed
qed

lemma free_live:
  assumes st: "slab_st s us av objs" and obj: "obj \<in> slab_live s"
  shows "\<exists>s' objs'. free obj s = Some s' \<and> slab_st s' us av objs' \<and> slab_ext (set us) s s'
    \<and> slab_live s' = slab_live s - {obj}"
proof -
  have rep: "slab_rep s (set us) us av objs" and cnt: "slab_cnt s (set us) objs"
    and n: "slab_count s = of_nat (length us)" using st by (auto simp only: slab_st_def)
  obtain u where u: "u \<in> set us" "obj \<in> slab_slots s u" "obj \<notin> set (objs u)"
    using obj unfolding slab_live_eq [OF rep] by blast
  have "cdll_search (slab_obj s u) obj (obj_heap s) = Some False"
    using slab_repD(4) [OF rep u(1)] u(3) cdll_search_iff by (fastforce simp: slab_cache_ok_def)
  define s1 where "s1 = slab_fill_obj u obj s"
  define s' where "s' = s1\<lparr>slab_nr := (slab_nr s1)(u := slab_nr s1 u + 1)\<rparr>"
  let ?objs = "objs(u := objs u @ [obj])"
  note f = slab_fill_obj_rep [OF rep u, folded s1_def]
  have keep: "slab_nr s1 = slab_nr s" "slab_sz s1 = slab_sz s" "slab_count s1 = slab_count s"
    "ppg_nr s1 = ppg_nr s" "ppg_slab s1 = ppg_slab s"
    by (simp_all add: s1_def slab_fill_obj_def split: prod.splits)
  have rep': "slab_rep s' (set us) us av ?objs" and sl: "slab_slots s' = slab_slots s"
    using f by (simp_all only: s'_def slab_nr_rep)
  have "slab_nr s' v = of_nat (length (?objs v))" if "v \<in> set us" for v
    using cnt that by (auto simp: slab_cnt_def s'_def keep)
  then have "slab_st s' us av ?objs" using rep' n by (simp add: slab_st_def slab_cnt_def s'_def keep)
  moreover have "free obj s = Some s'"
    using \<open>cdll_search _ _ _ = _\<close> slot_page(3) [OF rep u(2)]
    by (simp add: free_def slab_add_def Let_def s1_def [symmetric] s'_def [symmetric])
  moreover have "slab_live s' = slab_live s - {obj}"
  proof -
    have "slab_slots s v - set (?objs v) = slab_slots s v - set (objs v) - {obj}" for v
      using slots_disjoint [OF rep, of u v] u(2) by auto
    then show ?thesis unfolding slab_live_eq [OF rep'] slab_live_eq [OF rep] sl by auto
  qed
  moreover have "slab_ext (set us) s s'" by (simp add: slab_ext_def s'_def keep)
  ultimately show ?thesis by blast
qed

lemma slab_boot_st:
  assumes "pool_inv (slab_pool s)" and "\<forall>p \<in> pool_avail (slab_pool s). page_nr p < ppg_nr s"
    and "slab_used s = None" and "slab_avl s = None" and "ppg_slab s = (\<lambda>n. None)" and "slab_count s = 0"
  shows "slab_st s [] [] (\<lambda>u. [])"
  using assms by (simp add: slab_st_def slab_rep_def slab_lists_def slab_cnt_def)

section \<open>Properties\<close>

text \<open>C27: \<^verbatim>\<open>malloc\<close> always returns and keeps the invariant of the allocator. An object it
  returns was not live, has room for the size asked for, is aligned on eight bytes, and
  overlaps no live object; every other live object is kept with its size. It returns no
  object only for a request above half a page, or when the page pool is empty.\<close>

theorem malloc_fresh:
  assumes "slab_inv s"
  shows "\<exists>r s'. malloc asz s = Some (r, s') \<and> slab_inv s'
    \<and> (\<forall>a \<in> slab_live s. slab_obj_size s' a = slab_obj_size s a)
    \<and> (case r of
         None \<Rightarrow> slab_live s' = slab_live s \<and> (2048 < asz \<or> pool_avail (slab_pool s') = {})
       | Some obj \<Rightarrow> obj \<notin> slab_live s \<and> slab_live s' = insert obj (slab_live s)
           \<and> unat asz \<le> slab_obj_size s' obj \<and> 8 dvd unat obj
           \<and> (\<forall>a \<in> slab_live s. blocks_disjoint s' a obj))"
proof -
  obtain us av objs where st: "slab_st s us av objs" using assms by (auto simp: slab_inv_st)
  have rep: "slab_rep s (set us) us av objs" using st by (simp only: slab_st_def)
  show ?thesis
  proof (cases rule: malloc_step [OF st, of asz])
    case (1 s' us' av' objs')
    with slab_ext_size [OF rep 1(3)] slab_inv_st show ?thesis by auto
  next
    case (2 obj u s' us' av' objs')
    note sz = slab_at_size [OF 2(2,4)]
    have "unat asz \<le> slab_obj_size s' obj" using sz 2(5) slab_size_ge [of asz] by simp
    moreover have "blocks_disjoint s' a obj" if "a \<in> slab_live s" for a
      using slab_live_disjoint [OF 2(2), of a obj] that 2(6,7) by auto
    ultimately show ?thesis
      using 2(1,6,7) sz(2) slab_ext_size [OF rep 2(3)] slab_inv_st [of s'] 2(2) by auto
  qed
qed

text \<open>C28: \<^verbatim>\<open>free\<close> of a live object ends its life and keeps the invariant and the sizes of the
  other objects; \<^verbatim>\<open>free\<close> of an object that is already free, or of an address outside the
  pages of the allocator, changes nothing.\<close>

theorem free_spec:
  assumes "slab_inv s"
  shows "if obj \<in> slab_live s
    then \<exists>s'. free obj s = Some s' \<and> slab_inv s' \<and> slab_live s' = slab_live s - {obj}
           \<and> (\<forall>a \<in> slab_live s'. slab_obj_size s' a = slab_obj_size s a)
    else (slab_at obj s = None \<or> (\<exists>u. obj \<in> slab_slots s u)) \<longrightarrow> free obj s = Some s"
proof -
  obtain us av objs where st: "slab_st s us av objs" using assms by (auto simp: slab_inv_st)
  have rep: "slab_rep s (set us) us av objs" using st by (simp only: slab_st_def)
  show ?thesis
  proof (cases "obj \<in> slab_live s")
    case True
    from free_live [OF st True] obtain s' objs' where f: "free obj s = Some s'"
      "slab_st s' us av objs'" "slab_ext (set us) s s'" "slab_live s' = slab_live s - {obj}" by blast
    with slab_ext_size [OF rep f(3)] slab_inv_st [of s'] True show ?thesis by auto
  next
    case False
    have "free obj s = Some s" if "obj \<in> slab_slots s u" for u
    proof -
      note p = slot_page [OF rep that]
      have "obj \<in> set (objs u)" using False p(1) that unfolding slab_live_eq [OF rep] by blast
      then have "cdll_search (slab_obj s u) obj (obj_heap s) = Some True"
        using slab_repD(4) [OF rep p(1)] cdll_search_iff by (fastforce simp: slab_cache_ok_def)
      with p(3) show ?thesis by (simp add: free_def slab_add_def)
    qed
    with False show ?thesis by (auto simp: free_def slab_add_def)
  qed
qed

definition slab_ex :: vmm_slab where
  "slab_ex = \<lparr>slab_pool = pool_init pool_ex, slab_count = 0, slab_used = None, slab_avl = None,
     slab_heap = \<lparr>nxt = id, prv = id\<rparr>, slab_nr = (\<lambda>u. 0), slab_sz = (\<lambda>u. 0), slab_obj = (\<lambda>u. None),
     obj_heap = \<lparr>nxt = id, prv = id\<rparr>, ppg_nr = 0x1000, ppg_slab = (\<lambda>n. None)\<rparr>"

lemma slab_ex_inv: "slab_inv slab_ex" "slab_live slab_ex = {}"
proof -
  have pg: "page_nr p < 0x1000" if "p \<in> {0x100000, 0x101000, 0x102000, 0x103000}" for p
    using that by (auto simp: page_nr_def PAGE_SHIFT_def drop_bit_eq_div)
  have st: "slab_st slab_ex [] [] (\<lambda>u. [])"
    using pg by (intro slab_boot_st) (auto simp: slab_ex_def pool_ex_avail pool_ex_avail_set)
  then show "slab_inv slab_ex" by (auto simp: slab_inv_st)
  show "slab_live slab_ex = {}" using st slab_live_eq by (fastforce simp: slab_st_def)
qed

theorem malloc_fresh_witness:
  "\<exists>r s'. malloc 100 slab_ex = Some (r, s') \<and> slab_inv s'"
  using malloc_fresh [OF slab_ex_inv(1), of 100] by blast

theorem free_spec_witness: "free 0x100000 slab_ex = Some slab_ex"
proof -
  have "slab_at 0x100000 slab_ex = None" by (simp add: slab_at_def slab_ex_def ppg_get_desc_def Let_def)
  then show ?thesis using free_spec [OF slab_ex_inv(1), of "0x100000"] slab_ex_inv(2) by simp
qed

end
