(* ===== verification/Io.thy ===== *)
theory Io
  imports Gdb_Reg
begin

text \<open>
  Port I/O of the guest: the decoding of an I/O exit, \<^verbatim>\<open>vmm/src/vmx/vmx_exit_io.c\<close>, the
  transfers of \<^verbatim>\<open>vmm/src/devices/io.c\<close> between the guest, a device of the vmm and the native
  ports, the I/O bitmap of \<^verbatim>\<open>include/vmx_vmcs.h\<close> and the external interrupts of
  \<^verbatim>\<open>vmm/src/core/intr.c\<close> and \<^verbatim>\<open>vmm/src/vmx/vmx_exit_int.c\<close>. The memory of a device that an
  operation is given is a list of bytes; an operation that stores more bytes than the device
  has returns a longer list. The native ports are the environment: what a port answers is a
  function of the port operations made so far, which the state records.
\<close>

section \<open>State\<close>

datatype pio_ev = PioIn u16 bytes | PioOut u16 bytes

datatype io_flt = FltSioIndex | FltSioCom1 | FltPciAddr | FltPciDvd | FltPciCmdSts | FltPciDvdEhci
  | FltAtaCmd | FltAtaScnt | FltAtaLba

record uart_t =
  uart_buffer :: bytes
  uart_index :: u32
  uart_base :: u16
  uart_ier :: u8
  uart_iir :: u8
  uart_fcr :: u8
  uart_lcr :: u8
  uart_mcr :: u8
  uart_lsr :: u8
  uart_msr :: u8
  uart_dla_lsb :: u8
  uart_dla_msb :: u8
  uart_scr :: u8

record ata_t =
  ata_base :: u16
  ata_last_out :: u16
  ata_cmd :: u8
  ata_dev_head :: u8
  ata_cnt :: u16
  ata_lba :: u32

record kbd_t =
  kbd_last_cmd :: u8
  kbd_output_port :: u8

text \<open>The fields of \<^verbatim>\<open>vm_dev_t\<close> that the code uses, the exit information of an I/O instruction,
  the interrupt state, and the bytes \<^verbatim>\<open>debug_write\<close> was given.\<close>

record io_vm = gdb_state +
  exit_linear :: u64
  exit_insn_info :: u32
  exit_insn_len :: u64
  pio_log :: "pio_ev list"
  io_denied :: "u16 \<Rightarrow> bool"
  io_pool :: bytes
  pic1_icw2 :: u8
  wait_icw2 :: bool
  irq_vector :: u8
  irq_pending :: u8
  proc_iwe :: bool
  dev_a20 :: u8
  dev_ps2_raw :: u8
  dev_kbd_st :: kbd_t
  dev_uart_st :: uart_t
  dev_ata_st :: ata_t
  pci_addr :: u32
  pci_filter :: "io_flt option"
  sio_filter :: "io_flt option"
  net_pci_addr :: u32
  acpi_pm1_port :: u32
  acpi_s3 :: u8
  tx_out :: bytes
  ehci_2nd :: "(u32 \<times> u32) option"

type_synonym pio = "pio_ev list \<Rightarrow> u16 \<Rightarrow> nat \<Rightarrow> u32"

record io_insn =
  ins_in :: bool
  ins_s :: bool
  ins_sz :: u16
  ins_addr :: u16
  ins_seg :: u16
  ins_back :: bool
  ins_rep :: bool
  ins_port :: u16
  ins_msk :: u64
  ins_cnt :: u64

record io_size =
  sz_available :: size_t
  sz_done :: size_t
  sz_miss :: size_t

text \<open>The interrupt and the direction flag.\<close>

definition rflags_if :: "'a gdb_state_scheme \<Rightarrow> bool" where
  "rflags_if s = bit (vm_reg_get R_RFLAGS s) 9"

definition rflags_df :: "'a gdb_state_scheme \<Rightarrow> bool" where
  "rflags_df s = bit (vm_reg_get R_RFLAGS s) 10"

definition set_rflags_if :: "bool \<Rightarrow> 'a gdb_state_scheme \<Rightarrow> 'a gdb_state_scheme" where
  "set_rflags_if b s = vm_reg_put R_RFLAGS (put_flag 9 b (vm_reg_get R_RFLAGS s)) s"

definition VMM_IO_POOL_SZ :: u64 where
  "VMM_IO_POOL_SZ = 4 * PAGE_SIZE"

definition GPR64_RDI :: nat where "GPR64_RDI = 8"
definition GPR64_RSI :: nat where "GPR64_RSI = 9"
definition GPR64_RCX :: nat where "GPR64_RCX = 14"

text \<open>Storing \<open>bs\<close> at the start of a buffer, and in the low bytes of \<^verbatim>\<open>rax\<close>.\<close>

definition put_bytes :: "bytes \<Rightarrow> bytes \<Rightarrow> bytes" where
  "put_bytes bs dev = bs @ drop (length bs) dev"

definition set_rax_low :: "bytes \<Rightarrow> 'a dbg_vm_scheme \<Rightarrow> 'a dbg_vm_scheme" where
  "set_rax_low bs s = set_gpr GPR64_RAX (set_field 0 (8 * length bs) (of_le_bytes bs) (get_gpr GPR64_RAX s)) s"

definition rax_low :: "nat \<Rightarrow> 'a dbg_vm_scheme \<Rightarrow> bytes" where
  "rax_low n s = le_bytes n (get_gpr GPR64_RAX s)"

section \<open>The I/O bitmap and the native ports\<close>

definition vmx_allow_io :: "u16 \<Rightarrow> 'a io_vm_scheme \<Rightarrow> 'a io_vm_scheme" where
  "vmx_allow_io p s = s\<lparr>io_denied := (io_denied s)(p := False)\<rparr>"

definition vmx_deny_io :: "u16 \<Rightarrow> 'a io_vm_scheme \<Rightarrow> 'a io_vm_scheme" where
  "vmx_deny_io p s = s\<lparr>io_denied := (io_denied s)(p := True)\<rparr>"

definition vmx_allow_io_range :: "nat \<Rightarrow> nat \<Rightarrow> 'a io_vm_scheme \<Rightarrow> 'a io_vm_scheme" where
  "vmx_allow_io_range a b s = fold (\<lambda>p. vmx_allow_io (of_nat p)) [a..<Suc b] s"

definition vmx_deny_io_range :: "nat \<Rightarrow> nat \<Rightarrow> 'a io_vm_scheme \<Rightarrow> 'a io_vm_scheme" where
  "vmx_deny_io_range a b s = fold (\<lambda>p. vmx_deny_io (of_nat p)) [a..<Suc b] s"

definition pio_in :: "pio \<Rightarrow> u16 \<Rightarrow> nat \<Rightarrow> 'a io_vm_scheme \<Rightarrow> bytes \<times> 'a io_vm_scheme" where
  "pio_in pio port n s =
     (let bs = le_bytes n (pio (pio_log s) port n)
      in (bs, s\<lparr>pio_log := pio_log s @ [PioIn port bs]\<rparr>))"

definition pio_out :: "u16 \<Rightarrow> bytes \<Rightarrow> 'a io_vm_scheme \<Rightarrow> 'a io_vm_scheme" where
  "pio_out port bs s = s\<lparr>pio_log := pio_log s @ [PioOut port bs]\<rparr>"

text \<open>The repeated string instructions of the processor.\<close>

fun rep_ins :: "pio \<Rightarrow> u16 \<Rightarrow> nat \<Rightarrow> nat \<Rightarrow> 'a io_vm_scheme \<Rightarrow> bytes \<times> 'a io_vm_scheme" where
  "rep_ins pio port n 0 s = ([], s)"
| "rep_ins pio port n (Suc c) s =
     (let (bs, s) = pio_in pio port n s; (rest, s) = rep_ins pio port n c s in (bs @ rest, s))"

fun rep_outs :: "u16 \<Rightarrow> nat \<Rightarrow> nat \<Rightarrow> bytes \<Rightarrow> 'a io_vm_scheme \<Rightarrow> 'a io_vm_scheme" where
  "rep_outs port n 0 dev s = s"
| "rep_outs port n (Suc c) dev s = rep_outs port n c (drop n dev) (pio_out port (take n dev) s)"

section \<open>Transfers between the guest and a device\<close>

definition uu_io_insn_string_in_fwd ::
    "offset_t \<Rightarrow> bytes \<Rightarrow> io_size \<Rightarrow> 'a io_vm_scheme \<Rightarrow> vmerr \<times> io_size \<times> 'a io_vm_scheme" where
  "uu_io_insn_string_in_fwd linear dev sz s =
     (case vm_write_mem_sz linear dev (min (sz_miss sz) (sz_available sz)) s of
        None \<Rightarrow> (VM_FAIL, sz, s)
      | Some (rc, n, s') \<Rightarrow>
          (rc, sz\<lparr>sz_done := of_nat n, sz_available := sz_available sz - of_nat n,
                 sz_miss := sz_miss sz - of_nat n\<rparr>, s'))"

definition uu_io_insn_string_out_fwd ::
    "offset_t \<Rightarrow> bytes \<Rightarrow> io_size \<Rightarrow> 'a io_vm_scheme \<Rightarrow> vmerr \<times> io_size \<times> bytes \<times> 'a io_vm_scheme" where
  "uu_io_insn_string_out_fwd linear dev sz s =
     (case vm_read_mem_sz linear dev (min (sz_miss sz) (sz_available sz)) s of
        None \<Rightarrow> (VM_FAIL, sz, dev, s)
      | Some (rc, data, n, s') \<Rightarrow>
          (rc, sz\<lparr>sz_done := of_nat n, sz_available := sz_available sz - of_nat n,
                 sz_miss := sz_miss sz - of_nat n\<rparr>, data, s'))"

text \<open>Backward transfers are not implemented; \<^verbatim>\<open>rdi\<close> and \<^verbatim>\<open>rsi\<close> advance by the bytes done.\<close>

definition io_advance :: "nat \<Rightarrow> io_insn \<Rightarrow> io_size \<Rightarrow> u64 \<Rightarrow> 'a dbg_vm_scheme \<Rightarrow> 'a dbg_vm_scheme" where
  "io_advance r io sz update s =
     (let update = (if ins_back io then update - (sz_done sz AND ins_msk io)
                    else update + (sz_done sz AND ins_msk io))
      in set_gpr r ((get_gpr r s AND NOT (ins_msk io)) OR update) s)"

definition uu_io_insn_string_in ::
    "io_insn \<Rightarrow> offset_t \<Rightarrow> bytes \<Rightarrow> io_size \<Rightarrow> 'a io_vm_scheme \<Rightarrow> vmerr \<times> io_size \<times> 'a io_vm_scheme" where
  "uu_io_insn_string_in io linear dev sz s =
     (let update = get_gpr GPR64_RDI s AND ins_msk io;
          (rc, sz, s) = (if ins_back io then (VM_FAIL, sz, s) else uu_io_insn_string_in_fwd linear dev sz s)
      in (rc, sz, io_advance GPR64_RDI io sz update s))"

definition uu_io_insn_string_out ::
    "io_insn \<Rightarrow> offset_t \<Rightarrow> bytes \<Rightarrow> io_size \<Rightarrow> 'a io_vm_scheme \<Rightarrow> vmerr \<times> io_size \<times> bytes \<times> 'a io_vm_scheme" where
  "uu_io_insn_string_out io linear dev sz s =
     (let update = get_gpr GPR64_RSI s AND ins_msk io;
          (rc, sz, dev, s) = (if ins_back io then (VM_FAIL, sz, dev, s)
                              else uu_io_insn_string_out_fwd linear dev sz s)
      in (rc, sz, dev, io_advance GPR64_RSI io sz update s))"

definition uu_io_insn_string ::
    "io_insn \<Rightarrow> bytes \<Rightarrow> io_size \<Rightarrow> 'a io_vm_scheme \<Rightarrow> vmerr \<times> io_size \<times> bytes \<times> 'a io_vm_scheme" where
  "uu_io_insn_string io dev sz s =
     (let sz = (if ins_rep io then sz\<lparr>sz_miss := sz_miss sz * (get_gpr GPR64_RCX s AND ins_msk io)\<rparr> else sz);
          (rc, sz, dev, s) =
            (if ins_in io
             then (let (rc, sz, s) = uu_io_insn_string_in io (exit_linear s) dev sz s in (rc, sz, dev, s))
             else uu_io_insn_string_out io (exit_linear s) dev sz s);
          s = (if ins_rep io
               then set_gpr GPR64_RCX ((get_gpr GPR64_RCX s AND NOT (ins_msk io))
                      OR ((sz_miss sz div ucast (ins_sz io)) AND ins_msk io)) s
               else s)
      in (rc, sz, dev, s))"

definition uu_io_insn_simple ::
    "io_insn \<Rightarrow> bytes \<Rightarrow> io_size \<Rightarrow> 'a io_vm_scheme \<Rightarrow> vmerr \<times> io_size \<times> bytes \<times> 'a io_vm_scheme" where
  "uu_io_insn_simple io dev sz s =
     (if ins_rep io then (VM_FAIL, sz, dev, s)
      else if ucast (ins_sz io) > sz_available sz then (VM_FAIL, sz, dev, s)
      else (let n = unat (ins_sz io);
                (dev', s') =
                  (if n \<notin> {1, 2, 4} then (dev, s)
                   else if ins_in io then (dev, set_rax_low (take n dev) s)
                   else (put_bytes (rax_low n s) dev, s))
            in (VM_DONE, sz\<lparr>sz_done := sz_done sz + ucast (ins_sz io),
                           sz_available := sz_available sz - ucast (ins_sz io),
                           sz_miss := sz_miss sz - ucast (ins_sz io)\<rparr>, dev', s')))"

definition dev_io_insn ::
    "io_insn \<Rightarrow> bytes \<Rightarrow> io_size \<Rightarrow> 'a io_vm_scheme \<Rightarrow> vmerr \<times> io_size \<times> bytes \<times> 'a io_vm_scheme" where
  "dev_io_insn io dev sz s =
     (let sz = sz\<lparr>sz_done := 0, sz_miss := ucast (ins_sz io)\<rparr>
      in if ins_s io then uu_io_insn_string io dev sz s else uu_io_insn_simple io dev sz s)"

section \<open>Transfers with the native ports\<close>

definition PIC1_START_PORT :: nat where "PIC1_START_PORT = 0x20"
definition PIC1_END_PORT :: nat where "PIC1_END_PORT = PIC1_START_PORT + 1"
definition PIC2_START_PORT :: nat where "PIC2_START_PORT = 0xa0"

definition is_pic_icw1 :: "u8 \<Rightarrow> bool" where
  "is_pic_icw1 d = (d AND 0x10 \<noteq> 0)"

definition uu_io_pic_detect :: "io_insn \<Rightarrow> u8 \<Rightarrow> 'a io_vm_scheme \<Rightarrow> 'a io_vm_scheme" where
  "uu_io_pic_detect io data s =
     (if \<not> (PIC1_START_PORT \<le> unat (ins_port io) \<and> unat (ins_port io) \<le> PIC1_END_PORT) \<or> ins_in io then s
      else if ins_port io AND 1 = 0 then (if is_pic_icw1 data then s\<lparr>wait_icw2 := True\<rparr> else s)
      else if wait_icw2 s
      then vmx_allow_io_range PIC1_START_PORT PIC2_START_PORT (s\<lparr>wait_icw2 := False, pic1_icw2 := data\<rparr>)
      else s)"

definition uu_io_string_native ::
    "pio \<Rightarrow> io_insn \<Rightarrow> bytes \<Rightarrow> 'a io_vm_scheme \<Rightarrow> vmerr \<times> bytes \<times> 'a io_vm_scheme" where
  "uu_io_string_native pio io dev s =
     (let n = unat (ins_sz io); c = unat (ins_cnt io)
      in if ins_back io then (VM_FAIL, dev, s)
         else if n \<notin> {1, 2, 4} then (VM_DONE, dev, s)
         else if ins_in io
         then (let (bs, s) = rep_ins pio (ins_port io) n c s in (VM_DONE, put_bytes bs dev, s))
         else (let s = (if n = 1 then uu_io_pic_detect io (dev ! 0) s else s)
               in (VM_DONE, dev, rep_outs (ins_port io) n c dev s)))"

definition uu_io_simple_native ::
    "pio \<Rightarrow> io_insn \<Rightarrow> bytes \<Rightarrow> 'a io_vm_scheme \<Rightarrow> vmerr \<times> bytes \<times> 'a io_vm_scheme" where
  "uu_io_simple_native pio io dev s =
     (let n = unat (ins_sz io)
      in if ins_rep io then (VM_FAIL, dev, s)
         else if n \<notin> {1, 2, 4} then (VM_DONE, dev, s)
         else if ins_in io
         then (let (bs, s) = pio_in pio (ins_port io) n s in (VM_DONE, put_bytes bs dev, s))
         else (let s = (if n = 1 then uu_io_pic_detect io (dev ! 0) s else s)
               in (VM_DONE, dev, pio_out (ins_port io) (take n dev) s)))"

definition dev_io_native ::
    "pio \<Rightarrow> io_insn \<Rightarrow> bytes \<Rightarrow> 'a io_vm_scheme \<Rightarrow> vmerr \<times> bytes \<times> 'a io_vm_scheme" where
  "dev_io_native pio io dev s =
     (let s = s\<lparr>emu_sts := EMU_STS_NATIVE\<rparr>
      in if ins_s io then uu_io_string_native pio io dev s else uu_io_simple_native pio io dev s)"

section \<open>Filtered pass-through\<close>

text \<open>A filter sees the bytes in the pool and may change them.\<close>

type_synonym 'a io_flt_hdl = "io_flt \<Rightarrow> bytes \<Rightarrow> 'a io_vm_scheme \<Rightarrow> vmerr \<times> bytes \<times> 'a io_vm_scheme"

definition uu_dev_io_proxy_filter_in ::
    "pio \<Rightarrow> 'a io_flt_hdl \<Rightarrow> io_insn \<Rightarrow> io_flt option \<Rightarrow> bytes \<Rightarrow> io_size \<Rightarrow> 'a io_vm_scheme
       \<Rightarrow> vmerr \<times> bytes \<times> 'a io_vm_scheme" where
  "uu_dev_io_proxy_filter_in pio hdl io flt dev sz s =
     (let (rc, dev, s) = dev_io_native pio io dev s
      in if rc \<noteq> VM_DONE then (rc, dev, s)
         else (let (frc, dev, s) = (case flt of Some f \<Rightarrow> hdl f dev s | None \<Rightarrow> (0, dev, s))
               in if frc AND (VM_FAIL OR VM_FAULT) \<noteq> 0 then (VM_FAIL, dev, s)
                  else (let (rc, sz, dev, s) = dev_io_insn io dev sz s in (rc, dev, s))))"

definition uu_dev_io_proxy_filter_out ::
    "pio \<Rightarrow> 'a io_flt_hdl \<Rightarrow> io_insn \<Rightarrow> io_flt option \<Rightarrow> bytes \<Rightarrow> io_size \<Rightarrow> 'a io_vm_scheme
       \<Rightarrow> vmerr \<times> bytes \<times> 'a io_vm_scheme" where
  "uu_dev_io_proxy_filter_out pio hdl io flt dev sz s =
     (let (rc, sz, dev, s) = dev_io_insn io dev sz s
      in if rc \<noteq> VM_DONE then (rc, dev, s)
         else (let (rc, dev, s) = (case flt of Some f \<Rightarrow> hdl f dev s | None \<Rightarrow> (rc, dev, s))
               in if flt \<noteq> None \<and> rc AND (VM_FAIL OR VM_FAULT) \<noteq> 0 then (rc, dev, s)
                  else if rc \<noteq> VM_IGNORE
                  then (let (_, dev, s) = dev_io_native pio io dev s in (VM_DONE, dev, s))
                  else (VM_DONE, dev, s)))"

definition dev_io_proxify_filter ::
    "pio \<Rightarrow> 'a io_flt_hdl \<Rightarrow> io_insn \<Rightarrow> io_flt option \<Rightarrow> 'a io_vm_scheme \<Rightarrow> vmerr \<times> 'a io_vm_scheme" where
  "dev_io_proxify_filter pio hdl io flt s =
     (let sz = \<lparr>sz_available = ucast (ins_sz io) * ins_cnt io, sz_done = 0, sz_miss = 0\<rparr>
      in if sz_available sz > VMM_IO_POOL_SZ then (VM_FAIL, s)
         else (let (rc, dev, s) = (if ins_in io
                 then uu_dev_io_proxy_filter_in pio hdl io flt (io_pool s) sz s
                 else uu_dev_io_proxy_filter_out pio hdl io flt (io_pool s) sz s)
               in (rc, s\<lparr>io_pool := dev\<rparr>)))"

definition dev_io_proxify :: "pio \<Rightarrow> 'a io_flt_hdl \<Rightarrow> io_insn \<Rightarrow> 'a io_vm_scheme \<Rightarrow> vmerr \<times> 'a io_vm_scheme" where
  "dev_io_proxify pio hdl io s = dev_io_proxify_filter pio hdl io None s"

section \<open>Decoding an I/O exit\<close>

text \<open>The qualification of the exit and the instruction information. The bit fields of
  \<^verbatim>\<open>io_insn_t\<close> hold three bits.\<close>

definition uu_vmx_io_init :: "'a io_vm_scheme \<Rightarrow> vmerr \<times> io_insn" where
  "uu_vmx_io_init s =
     (let q = exit_qual s; inf = exit_insn_info s;
          io = \<lparr>ins_in = bit q 3, ins_s = bit q 4, ins_sz = take_bit 3 (ucast (get_field 0 3 q) + 1),
                ins_addr = 0, ins_seg = 0, ins_back = False, ins_rep = bit q 5,
                ins_port = ucast (get_field 16 16 q), ins_msk = 0, ins_cnt = 0\<rparr>
      in if ins_sz io \<noteq> 1 \<and> ins_sz io \<noteq> 2 \<and> ins_sz io \<noteq> 4 then (VM_FAIL, io)
         else if \<not> ins_s io then (VM_DONE, io\<lparr>ins_cnt := 1\<rparr>)
         else (let io = io\<lparr>ins_seg := ucast (get_field 15 3 inf),
                           ins_addr := take_bit 3 (push_bit (unat (get_field 7 3 inf)) 1)\<rparr>
               in if ins_seg io > 5 then (VM_FAIL, io)
                  else (let msk = drop_bit (64 - 16 * unat (ins_addr io)) (- 1);
                            io = io\<lparr>ins_back := rflags_df s, ins_msk := msk\<rparr>
                        in (VM_DONE, io\<lparr>ins_cnt := if ins_rep io then get_gpr GPR64_RCX s AND msk else 1\<rparr>))))"

section \<open>External interrupts\<close>

definition VMCS_EVT_INFO_TYPE_HW_INT :: u8 where
  "VMCS_EVT_INFO_TYPE_HW_INT = 0"

definition uu_safe_interrupts_on :: "'a io_vm_scheme \<Rightarrow> bool" where
  "uu_safe_interrupts_on s = (rflags_if s \<and> \<not> (int_sti s \<or> int_mss s))"

definition uu_vmx_vmexit_setup_interrupt_window_exiting ::
    "bool \<Rightarrow> u8 \<Rightarrow> 'a io_vm_scheme \<Rightarrow> 'a io_vm_scheme" where
  "uu_vmx_vmexit_setup_interrupt_window_exiting enable vector s =
     (if enable \<noteq> proc_iwe s then s\<lparr>proc_iwe := enable, irq_pending := vector\<rparr> else s)"

definition uu_vmx_vmexit_inject_interrupt :: "u8 \<Rightarrow> 'a io_vm_scheme \<Rightarrow> 'a io_vm_scheme" where
  "uu_vmx_vmexit_inject_interrupt vector s =
     (let s = s\<lparr>vm_evt := uu_vmx_prepare_event_injection VMCS_EVT_INFO_TYPE_HW_INT vector\<rparr>;
          s = (if \<not> rflags_if s then set_rflags_if True s else s)
      in if int_sti s \<or> int_mss s then s\<lparr>int_sti := False, int_mss := False\<rparr> else s)"

definition vmx_vmexit_resolve_iwe :: "'a io_vm_scheme \<Rightarrow> vmerr \<times> 'a io_vm_scheme" where
  "vmx_vmexit_resolve_iwe s =
     (VM_DONE, uu_vmx_vmexit_setup_interrupt_window_exiting False 0xff
        (uu_vmx_vmexit_inject_interrupt (irq_pending s) s))"

text \<open>\<^verbatim>\<open>None\<close> is the panic on the vector of an I/O memory management fault.\<close>

definition resolve_intr :: "'a io_vm_scheme \<Rightarrow> (vmerr \<times> 'a io_vm_scheme) option" where
  "resolve_intr s =
     (if irq_vector s = 0xc0 then None
      else if \<not> uu_safe_interrupts_on s
      then Some (VM_DONE, uu_vmx_vmexit_setup_interrupt_window_exiting True (irq_vector s) s)
      else Some (VM_DONE, uu_vmx_vmexit_inject_interrupt (irq_vector s) s))"

definition vmx_vmexit_resolve_intr :: "'a io_vm_scheme \<Rightarrow> (vmerr \<times> 'a io_vm_scheme) option" where
  "vmx_vmexit_resolve_intr s = resolve_intr (s\<lparr>irq_vector := ucast (exit_vector s)\<rparr>)"


section \<open>What an access to guest memory keeps\<close>

definition vm_frame :: "'a vm_cpu_scheme \<Rightarrow> 'a vm_cpu_scheme \<Rightarrow> bool" where
  "vm_frame s s' \<longleftrightarrow> (\<exists>m e c x. s' = s\<lparr>vm_mem := m, vm_evt := e, vm_err_code := c, vm_cr2 := x\<rparr>)"

lemma vm_frame_refl: "vm_frame s s"
  unfolding vm_frame_def by (intro exI [of _ "vm_mem s"] exI [of _ "vm_evt s"] exI [of _ "vm_err_code s"]
      exI [of _ "vm_cr2 s"]) simp

lemma vm_frame_trans: "vm_frame s s' \<Longrightarrow> vm_frame s' s'' \<Longrightarrow> vm_frame s s''"
  unfolding vm_frame_def by fastforce

definition acc_ran :: "vm_access \<Rightarrow> nat \<Rightarrow> vmerr \<Rightarrow> vm_access \<Rightarrow> bool" where
  "acc_ran a len rc a' \<longleftrightarrow> (\<exists>n \<le> len. acc_done a' = acc_done a + n \<and> (rc = VM_DONE \<longrightarrow> n = len))
     \<and> length (acc_data a') = length (acc_data a) \<and> \<not> acc_remote a'"

lemma local_physical_ran:
  assumes "\<not> acc_remote a" and "acc_done a + unat (acc_len a) \<le> length (acc_data a)"
    and "uu_vm_access_physical a s = Some (rc, a', s')"
  shows "acc_ran a (unat (acc_len a)) rc a' \<and> vm_frame s s'"
proof -
  have "vm_frame s (s\<lparr>vm_mem := m\<rparr>)" for m
    unfolding vm_frame_def by (intro exI [of _ m] exI [of _ "vm_evt s"] exI [of _ "vm_err_code s"]
        exI [of _ "vm_cr2 s"]) simp
  then show ?thesis using assms vm_frame_refl [of s]
    by (auto simp: uu_vm_access_physical_def uu_vm_access_system_identity_def acc_ran_def
        uu_vm_access_local_operator_def Let_def mem_read_def vmerr_defs split: if_splits)
qed

lemma validate_frame:
  assumes "uu_vm_access_validate a v wlk s = (rc, w, s1)"
  shows "vm_frame s s1"
proof -
  have "vm_frame s (vm_access_pf a v s)"
    unfolding vm_frame_def vm_access_pf_def uu_vmx_vmexit_inject_exception_def Let_def
    by (intro exI [of _ "vm_mem s"] exI [of _ "pf_err (acc_wr a) (vm_cpl s = 3)"] exI [of _ v]
        exI [of _ "uu_vmx_prepare_event_injection VMCS_EVT_INFO_TYPE_HW_EXCP 14\<lparr>evt_dec := True\<rparr>"])
      (simp add: excp_defs)
  then show ?thesis using assms vm_frame_refl [of s]
    by (auto simp: uu_vm_access_validate_def Let_def split: prod.splits if_splits)
qed

lemma local_loop_ran:
  assumes "vm_access_loop a v len wlk s = Some (rc, a', s')" and "\<not> acc_remote a"
    and "acc_done a + unat len \<le> length (acc_data a)"
  shows "acc_ran a (unat len) rc a' \<and> vm_frame s s'"
  using assms
proof (induction "unat len" arbitrary: a v len wlk s rule: less_induct)
  case less
  show ?case
  proof (cases "len = 0")
    case True
    then show ?thesis using less.prems vm_frame_refl [of s]
      by (simp add: vm_access_loop.simps acc_ran_def)
  next
    case len: False
    from less.prems(1) len show ?thesis
    proof (cases rule: loop_cases)
      case (stop rc1 w s1)
      then show ?thesis using validate_frame [OF stop(1)] less.prems(2) by (auto simp: acc_ran_def)
    next
      case (step w n rc2 a2 s2)
      have p: "acc_ran (a\<lparr>acc_addr := wlk_addr w, acc_len := of_nat n\<rparr>) n rc2 a2 \<and> vm_frame s s2"
        using local_physical_ran [OF _ _ step(5)] less.prems step(3,6) by simp
      show ?thesis
      proof (cases "rc2 = VM_DONE")
        case False
        then show ?thesis using p step(3,8) by (auto simp: acc_ran_def intro: le_trans)
      next
        case True
        then have l: "vm_access_loop a2 (v + of_nat n) (len - of_nat n) w s2 = Some (rc, a', s')"
          using step(8) by simp
        have a2: "acc_done a2 = acc_done a + n" "length (acc_data a2) = length (acc_data a)" "\<not> acc_remote a2"
          using p True by (auto simp: acc_ran_def)
        have r: "acc_ran a2 (unat len - n) rc a'" "vm_frame s2 s'"
          using less.hyps [OF _ l a2(3)] step(2,3,7) a2 less.prems(3) by simp_all
        then obtain m where m: "m \<le> unat len - n" "acc_done a' = acc_done a2 + m"
          "rc = VM_DONE \<longrightarrow> m = unat len - n" "length (acc_data a') = length (acc_data a2)" "\<not> acc_remote a'"
          by (auto simp: acc_ran_def)
        have "acc_ran a (unat len) rc a'"
          unfolding acc_ran_def using m a2 step(3) by (auto intro!: exI [of _ "n + m"])
        with vm_frame_trans [OF _ r(2)] p show ?thesis by blast
      qed
    qed
  qed
qed

lemma local_access_ran:
  assumes "uu_vm_access_linear (uu_vm_access_setup cr3 v data len wr rq False) s = Some (rc, a', s')"
    and "unat len \<le> length data"
  shows "(\<exists>n \<le> unat len. acc_done a' = n \<and> (rc = VM_DONE \<longrightarrow> n = unat len))
    \<and> length (acc_data a') = length data \<and> vm_frame s s'"
proof -
  define a where "a = uu_vm_access_setup cr3 v data len wr rq False"
  have a: "\<not> acc_remote a" "acc_done a = 0" "acc_len a = len" "acc_data a = data"
    by (simp_all add: a_def uu_vm_access_setup_def)
  have "acc_ran a (unat len) rc a' \<and> vm_frame s s'"
    using assms local_physical_ran [of a s rc a' s'] local_loop_ran [of a _ len _ s rc a' s'] a
    by (auto simp: uu_vm_access_linear_def uu_vm_access_virtual_def a_def [symmetric] split: if_splits)
  with a show ?thesis by (auto simp: acc_ran_def)
qed

lemma local_access_some: "uu_vm_access_linear (uu_vm_access_setup cr3 v data len wr rq False) s \<noteq> None"
proof -
  have "\<not> acc_remote (uu_vm_access_setup cr3 v data len wr rq False)" by (simp add: uu_vm_access_setup_def)
  with local_physical local_loop show ?thesis
    unfolding uu_vm_access_linear_def uu_vm_access_virtual_def by (metis option.distinct(1))
qed

text \<open>The two accesses of the string transfers.\<close>

lemma vm_write_mem_sz_ran:
  assumes "unat len \<le> length data"
  obtains rc n s' where "vm_write_mem_sz v data len s = Some (rc, n, s')" "n \<le> unat len"
    "rc = VM_DONE \<Longrightarrow> n = unat len" "vm_frame s s'"
proof -
  obtain rc a' s' where l: "uu_vm_access_linear (uu_vm_access_setup (vm_cr3 s) v data len True VM_ACC_REQ_VM False) s
      = Some (rc, a', s')" using local_access_some by (metis option.exhaust prod_cases3)
  with that [of rc "acc_done a'" s'] local_access_ran [OF l assms] show thesis
    by (auto simp: vm_write_mem_sz_def)
qed

lemma vm_read_mem_sz_ran:
  assumes "unat len \<le> length data"
  obtains rc data' n s' where "vm_read_mem_sz v data len s = Some (rc, data', n, s')" "n \<le> unat len"
    "rc = VM_DONE \<Longrightarrow> n = unat len" "length data' = length data" "vm_frame s s'"
proof -
  obtain rc a' s' where l: "uu_vm_access_linear (uu_vm_access_setup (vm_cr3 s) v data len False VM_ACC_REQ_VM False) s
      = Some (rc, a', s')" using local_access_some by (metis option.exhaust prod_cases3)
  with that [of rc "acc_data a'" "acc_done a'" s'] local_access_ran [OF l assms] show thesis
    by (auto simp: vm_read_mem_sz_def)
qed


section \<open>String transfers\<close>

lemma gpr_set_get [simp]:
  "i < length (vm_gpr s) \<Longrightarrow> i \<noteq> GPR64_RSP \<Longrightarrow> get_gpr i (set_gpr i v s) = v"
  "i \<noteq> j \<Longrightarrow> get_gpr i (set_gpr j v s) = get_gpr i s"
  by (auto simp: get_gpr_def set_gpr_def)

lemma gpr_set_length [simp]: "length (vm_gpr (set_gpr j v s)) = length (vm_gpr s)"
  by (simp add: set_gpr_def)

lemma gpr_frame: "vm_frame s s' \<Longrightarrow> get_gpr i s' = get_gpr i s \<and> vm_gpr s' = vm_gpr s"
  for s :: "'a dbg_vm_scheme"
  by (auto simp: vm_frame_def get_gpr_def)

text \<open>A string transfer, in either direction, moves \<open>n\<close> bytes and stops at the first byte of the
  guest that it cannot reach.\<close>

lemma io_string_moves:
  fixes io dev sz s
  defines "sz1 \<equiv> (if ins_rep io then sz\<lparr>sz_miss := sz_miss sz * (get_gpr GPR64_RCX s AND ins_msk io)\<rparr> else sz)"
  defines "r \<equiv> (if ins_in io then GPR64_RDI else GPR64_RSI)"
  assumes "\<not> ins_back io" and "unat (sz_available sz) \<le> length dev"
    and "uu_io_insn_string io dev sz s = (rc, sz', dev', s')"
  shows "\<exists>n s1. n \<le> unat (min (sz_miss sz1) (sz_available sz1))
    \<and> (rc = VM_DONE \<longrightarrow> n = unat (min (sz_miss sz1) (sz_available sz1)))
    \<and> length dev' = length dev \<and> vm_frame s s1
    \<and> sz' = sz1\<lparr>sz_done := of_nat n, sz_available := sz_available sz1 - of_nat n, sz_miss := sz_miss sz1 - of_nat n\<rparr>
    \<and> s' = (let s2 = set_gpr r ((get_gpr r s AND NOT (ins_msk io))
                OR ((get_gpr r s AND ins_msk io) + (of_nat n AND ins_msk io))) s1
            in if ins_rep io
               then set_gpr GPR64_RCX ((get_gpr GPR64_RCX s AND NOT (ins_msk io))
                 OR (((sz_miss sz1 - of_nat n) div ucast (ins_sz io)) AND ins_msk io)) s2
               else s2)"
proof -
  define len where "len = min (sz_miss sz1) (sz_available sz1)"
  have av: "sz_available sz1 = sz_available sz" by (simp add: sz1_def)
  have l: "unat len \<le> length dev"
    using assms(4) by (auto simp: len_def av min_def word_le_nat_alt)
  have n3: "GPR64_RCX \<noteq> GPR64_RDI" "GPR64_RCX \<noteq> GPR64_RSI"
    by (simp_all add: GPR64_RCX_def GPR64_RDI_def GPR64_RSI_def)
  show ?thesis
  proof (cases "ins_in io")
    case True
    obtain rc1 n s1 where w: "vm_write_mem_sz (exit_linear s) dev len s = Some (rc1, n, s1)" "n \<le> unat len"
      "rc1 = VM_DONE \<Longrightarrow> n = unat len" "vm_frame s s1" using vm_write_mem_sz_ran [OF l] by metis
    have s': "rc = rc1 \<and> dev' = dev
      \<and> sz' = sz1\<lparr>sz_done := of_nat n, sz_available := sz_available sz1 - of_nat n, sz_miss := sz_miss sz1 - of_nat n\<rparr>
      \<and> s' = (let s2 = set_gpr r ((get_gpr r s AND NOT (ins_msk io))
                OR ((get_gpr r s AND ins_msk io) + (of_nat n AND ins_msk io))) s1
            in if ins_rep io
               then set_gpr GPR64_RCX ((get_gpr GPR64_RCX s AND NOT (ins_msk io))
                 OR (((sz_miss sz1 - of_nat n) div ucast (ins_sz io)) AND ins_msk io)) s2
               else s2)"
      using assms(3,5) True w(1) gpr_frame [OF w(4)] n3
      by (cases "ins_rep io")
        (auto simp: uu_io_insn_string_def uu_io_insn_string_in_def uu_io_insn_string_in_fwd_def
          io_advance_def sz1_def len_def r_def Let_def)
    then show ?thesis using w by (intro exI [of _ n] exI [of _ s1]) (auto simp: len_def [symmetric])
  next
    case False
    obtain rc1 d n s1 where w: "vm_read_mem_sz (exit_linear s) dev len s = Some (rc1, d, n, s1)" "n \<le> unat len"
      "rc1 = VM_DONE \<Longrightarrow> n = unat len" "length d = length dev" "vm_frame s s1" using vm_read_mem_sz_ran [OF l] by metis
    have s': "rc = rc1 \<and> dev' = d
      \<and> sz' = sz1\<lparr>sz_done := of_nat n, sz_available := sz_available sz1 - of_nat n, sz_miss := sz_miss sz1 - of_nat n\<rparr>
      \<and> s' = (let s2 = set_gpr r ((get_gpr r s AND NOT (ins_msk io))
                OR ((get_gpr r s AND ins_msk io) + (of_nat n AND ins_msk io))) s1
            in if ins_rep io
               then set_gpr GPR64_RCX ((get_gpr GPR64_RCX s AND NOT (ins_msk io))
                 OR (((sz_miss sz1 - of_nat n) div ucast (ins_sz io)) AND ins_msk io)) s2
               else s2)"
      using assms(3,5) False w(1) gpr_frame [OF w(5)] n3
      by (cases "ins_rep io")
        (auto simp: uu_io_insn_string_def uu_io_insn_string_out_def uu_io_insn_string_out_fwd_def
          io_advance_def sz1_def len_def r_def Let_def)
    then show ?thesis using w by (intro exI [of _ n] exI [of _ s1]) (auto simp: len_def [symmetric])
  qed
qed


lemma mask_parts:
  fixes x y :: u64
  assumes "take_bit w y = y"
  shows "((x AND NOT (mask w)) OR y) AND mask w = y" "((x AND NOT (mask w)) OR y) AND NOT (mask w) = x AND NOT (mask w)"
proof -
  have y: "bit y n \<Longrightarrow> n < w" for n using assms by (metis bit_take_bit_iff)
  show "((x AND NOT (mask w)) OR y) AND mask w = y" "((x AND NOT (mask w)) OR y) AND NOT (mask w) = x AND NOT (mask w)"
    using y by (auto intro!: bit_eqI simp: bit_simps)
qed

lemma and_mask_small: "unat y < 2 ^ w \<Longrightarrow> y AND mask w = y" for y :: u64
  using take_bit_small [of y w] by (simp add: take_bit_eq_mask)

lemma unat_and_mask_less: "w \<le> 64 \<Longrightarrow> unat (x AND mask w) < 2 ^ w" for x :: u64
  by (simp add: take_bit_eq_mask [symmetric] unat_take_bit_mod)

lemma mask_add:
  fixes x :: u64
  assumes "w \<le> 64" and fit: "unat (x AND mask w) + n < 2 ^ w"
  defines "y \<equiv> (x AND NOT (mask w)) OR ((x AND mask w) + (of_nat n AND mask w))"
  shows "unat (y AND mask w) = unat (x AND mask w) + n" "y AND NOT (mask w) = x AND NOT (mask w)"
proof -
  have n: "n < 2 ^ 64" using fit assms(1) power_increasing [of w 64 "2 :: nat"] by simp
  then have un: "unat (of_nat n :: u64) = n" by (simp add: unat_of_nat take_bit_eq_mod)
  have m: "of_nat n AND mask w = (of_nat n :: u64)" using fit un by (intro and_mask_small) simp
  have u: "unat ((x AND mask w) + of_nat n) = unat (x AND mask w) + n"
    using fit assms(1) un power_increasing [of w 64 "2 :: nat"]
    by (subst unat_add_lem [THEN iffD1]) simp_all
  have t: "take_bit w ((x AND mask w) + of_nat n) = (x AND mask w) + of_nat n"
    using fit u by (intro take_bit_small) simp
  show "unat (y AND mask w) = unat (x AND mask w) + n" "y AND NOT (mask w) = x AND NOT (mask w)"
    using mask_parts [OF t, of x] u by (simp_all add: y_def m)
qed

text \<open>The repeated transfers, with the count \<open>c\<close> of the instruction.\<close>

lemma io_rep_moves:
  assumes "ins_s io" and "ins_rep io" and "\<not> ins_back io" and "ins_msk io = mask w"
    and "unat (sz_available sz) \<le> length dev" and c: "c = get_gpr GPR64_RCX s AND mask w"
    and r: "r = (if ins_in io then GPR64_RDI else GPR64_RSI)"
    and run: "dev_io_insn io dev sz s = (rc, sz', dev', s')"
  obtains n s1 where "n \<le> unat (min (ucast (ins_sz io) * c) (sz_available sz))"
    "rc = VM_DONE \<longrightarrow> n = unat (min (ucast (ins_sz io) * c) (sz_available sz))"
    "length dev' = length dev" "vm_frame s s1"
    "sz_done sz' = of_nat n" "sz_miss sz' = ucast (ins_sz io) * c - of_nat n"
    "s' = set_gpr GPR64_RCX ((get_gpr GPR64_RCX s AND NOT (mask w))
             OR (((ucast (ins_sz io) * c - of_nat n) div ucast (ins_sz io)) AND mask w))
           (set_gpr r ((get_gpr r s AND NOT (mask w)) OR ((get_gpr r s AND mask w) + (of_nat n AND mask w))) s1)"
proof -
  define sz0 where "sz0 = sz\<lparr>sz_done := 0, sz_miss := ucast (ins_sz io)\<rparr>"
  have run': "uu_io_insn_string io dev sz0 s = (rc, sz', dev', s')"
    using run assms(1) by (simp add: dev_io_insn_def sz0_def)
  have av: "unat (sz_available sz0) \<le> length dev" using assms(5) by (simp add: sz0_def)
  have "\<exists>n s1. n \<le> unat (min (ucast (ins_sz io) * c) (sz_available sz))
    \<and> (rc = VM_DONE \<longrightarrow> n = unat (min (ucast (ins_sz io) * c) (sz_available sz)))
    \<and> length dev' = length dev \<and> vm_frame s s1
    \<and> sz_done sz' = of_nat n \<and> sz_miss sz' = ucast (ins_sz io) * c - of_nat n
    \<and> s' = set_gpr GPR64_RCX ((get_gpr GPR64_RCX s AND NOT (mask w))
             OR (((ucast (ins_sz io) * c - of_nat n) div ucast (ins_sz io)) AND mask w))
           (set_gpr r ((get_gpr r s AND NOT (mask w)) OR ((get_gpr r s AND mask w) + (of_nat n AND mask w))) s1)"
    using io_string_moves [OF assms(3) av run'] unfolding r [symmetric] assms(4) c [symmetric] Let_def
    by (elim exE conjE, intro exI conjI) (assumption | simp add: sz0_def assms(2) c [symmetric])+
  with that show thesis by blast
qed

section \<open>Native transfers\<close>

lemma le_bytes_length [simp]: "length (le_bytes n x) = n"
  by (simp add: le_bytes_def)

lemma put_bytes_length [simp]: "length (put_bytes bs dev) = max (length bs) (length dev)"
  by (simp add: put_bytes_def)

lemma rep_ins_ran [simp]:
  "length (fst (rep_ins pio p n c s)) = n * c" "io_pool (snd (rep_ins pio p n c s)) = io_pool s"
  by (induction c arbitrary: s) (simp_all add: pio_in_def Let_def split_beta)

lemma rep_outs_pool [simp]: "io_pool (rep_outs p n c dev s) = io_pool s"
  by (induction c arbitrary: dev s) (simp_all add: pio_out_def)

lemma vmx_allow_io_range_denied:
  "io_denied (vmx_allow_io_range a b s) p = (io_denied s p \<and> \<not> (\<exists>k. a \<le> k \<and> k \<le> b \<and> p = of_nat k))"
proof -
  have "io_denied (fold (\<lambda>p. vmx_allow_io (of_nat p)) xs t) p = (io_denied t p \<and> p \<notin> of_nat ` set xs)"
    for xs and t :: "'a io_vm_scheme"
    by (induction xs arbitrary: t) (auto simp: vmx_allow_io_def)
  moreover have "p \<in> of_nat ` set [a..<Suc b] \<longleftrightarrow> (\<exists>k. a \<le> k \<and> k \<le> b \<and> p = of_nat k)"
    unfolding set_upt image_iff Bex_def atLeastLessThan_iff less_Suc_eq_le by blast
  ultimately show ?thesis unfolding vmx_allow_io_range_def by blast
qed

lemma vmx_allow_io_range_pool [simp]: "io_pool (vmx_allow_io_range a b s) = io_pool s"
proof -
  have "io_pool (fold (\<lambda>p. vmx_allow_io (of_nat p)) xs t) = io_pool t" for xs and t :: "'a io_vm_scheme"
    by (induction xs arbitrary: t) (auto simp: vmx_allow_io_def)
  then show ?thesis by (simp add: vmx_allow_io_range_def del: upt_Suc)
qed

lemma pic_detect_pool [simp]: "io_pool (uu_io_pic_detect io d s) = io_pool s"
  by (auto simp: uu_io_pic_detect_def)

text \<open>The bytes a native transfer stores, and those it leaves of the device.\<close>

lemma dev_io_native_ran:
  assumes "dev_io_native pio io dev s = (rc, dev', s')" and "unat (ins_sz io) \<in> {1, 2, 4}"
  shows "length dev' = (if rc = VM_DONE \<and> ins_in io
      then max (unat (ins_sz io) * (if ins_s io then unat (ins_cnt io) else 1)) (length dev) else length dev)"
    and "io_pool s' = io_pool s"
  using assms unfolding dev_io_native_def uu_io_string_native_def uu_io_simple_native_def Let_def split_beta
  by (auto simp: vmerr_defs pio_in_def pio_out_def Let_def simp del: insert_iff split: if_splits)

lemma set_gpr_pool [simp]: "io_pool (set_gpr i v s) = io_pool s"
  by (simp add: set_gpr_def)

lemma unat_ucast_16_64 [simp]: "unat (ucast x :: u64) = unat x" for x :: u16
proof -
  have "unat x < 65536" using unsigned_less [of x] by simp
  then show ?thesis by (simp add: unsigned_ucast_eq take_bit_eq_mod)
qed

lemma frame_pool: "vm_frame s s' \<Longrightarrow> io_pool s' = io_pool s" for s :: "'a io_vm_scheme"
  by (auto simp: vm_frame_def)

lemma dev_io_insn_ran:
  assumes run: "dev_io_insn io dev sz s = (rc, sz', dev', s')" and av: "unat (sz_available sz) \<le> length dev"
  shows "length dev' = length dev \<and> io_pool s' = io_pool s"
proof (cases "ins_s io")
  case True
  define sz0 where "sz0 = sz\<lparr>sz_done := 0, sz_miss := ucast (ins_sz io)\<rparr>"
  have run': "uu_io_insn_string io dev sz0 s = (rc, sz', dev', s')"
    using run True by (simp add: dev_io_insn_def sz0_def)
  show ?thesis
  proof (cases "ins_back io")
    case True
    then show ?thesis using run'
      by (auto simp: uu_io_insn_string_def uu_io_insn_string_in_def uu_io_insn_string_out_def io_advance_def Let_def
          split: if_splits)
  next
    case False
    have av0: "unat (sz_available sz0) \<le> length dev" using av by (simp add: sz0_def)
    from io_string_moves [OF False av0 run'] obtain n s1 where "length dev' = length dev" "vm_frame s s1"
      "\<exists>r v c. s' = set_gpr r v s1 \<or> s' = set_gpr GPR64_RCX c (set_gpr r v s1)"
      by (auto simp: Let_def split: if_splits)
    then show ?thesis using frame_pool [of s s1] by auto
  qed
next
  case False
  then show ?thesis using run av
    by (auto simp: dev_io_insn_def uu_io_insn_simple_def Let_def rax_low_def set_rax_low_def word_le_nat_alt
        max_def not_less split: if_splits)
qed

text \<open>C29: a repeated string transfer with the direction flag clear, between the guest and a
  device, accounts for the bytes it moved, however many of them the device could take or the
  guest's page tables let it reach. The bytes wanted are the product of the operand size and the
  count register, taken modulo \<open>2 ^ 64\<close> as the code does: the count register is left with the
  repetitions that remain of those, the bits of the registers above the address size are kept,
  and the pointer advances by the bytes moved unless it runs over the address size. When it
  succeeds, all the bytes that are wanted and available were moved. The product only wraps for
  64-bit addressing and a count of \<open>2 ^ 62\<close> or more; then the count register does not say what
  remains of the guest's request (a count of \<open>2 ^ 62\<close> double words wants no byte, and is set to zero).\<close>

theorem io_string_accounts:
  assumes "ins_s io" and "ins_rep io" and "\<not> ins_back io" and "ins_msk io = mask w" and "w \<le> 64"
    and "ins_sz io \<in> {1, 2, 4}" and "unat (sz_available sz) \<le> length dev" and "length (vm_gpr s) = 16"
    and tot: "tot = unat (ins_sz io) * unat (get_gpr GPR64_RCX s AND mask w) mod 2 ^ 64"
    and r: "r = (if ins_in io then GPR64_RDI else GPR64_RSI)"
    and run: "dev_io_insn io dev sz s = (rc, sz', dev', s')"
  shows "\<exists>n \<le> min tot (unat (sz_available sz)).
      (rc = VM_DONE \<longrightarrow> n = min tot (unat (sz_available sz)))
    \<and> unat (sz_done sz') = n \<and> unat (sz_miss sz') = tot - n \<and> length dev' = length dev
    \<and> unat (get_gpr GPR64_RCX s' AND mask w) = (tot - n) div unat (ins_sz io)
    \<and> get_gpr GPR64_RCX s' AND NOT (mask w) = get_gpr GPR64_RCX s AND NOT (mask w)
    \<and> (unat (get_gpr r s AND mask w) + n < 2 ^ w \<longrightarrow>
         unat (get_gpr r s' AND mask w) = unat (get_gpr r s AND mask w) + n
         \<and> get_gpr r s' AND NOT (mask w) = get_gpr r s AND NOT (mask w))"
proof -
  define c where "c = get_gpr GPR64_RCX s AND mask w"
  define q where "q n = (ucast (ins_sz io) * c - of_nat n) div ucast (ins_sz io)" for n :: nat
  have sn: "unat (ucast (ins_sz io) :: u64) = unat (ins_sz io)" "0 < unat (ins_sz io)" using assms(6) by auto
  have miss: "unat (ucast (ins_sz io) * c) = tot"
    using tot sn by (simp add: c_def unat_word_ariths)
  obtain n s1 where n: "n \<le> unat (min (ucast (ins_sz io) * c) (sz_available sz))"
    "rc = VM_DONE \<longrightarrow> n = unat (min (ucast (ins_sz io) * c) (sz_available sz))"
    "length dev' = length dev" "vm_frame s s1"
    "sz_done sz' = of_nat n" "sz_miss sz' = ucast (ins_sz io) * c - of_nat n"
    "s' = set_gpr GPR64_RCX ((get_gpr GPR64_RCX s AND NOT (mask w)) OR (q n AND mask w))
           (set_gpr r ((get_gpr r s AND NOT (mask w)) OR ((get_gpr r s AND mask w) + (of_nat n AND mask w))) s1)"
    using io_rep_moves [OF assms(1-4,7) c_def r run] unfolding q_def by metis
  have mn: "unat (min (ucast (ins_sz io) * c) (sz_available sz)) = min tot (unat (sz_available sz))"
    by (simp add: min_def word_le_nat_alt miss)
  have nt: "n \<le> tot" using n(1) by (simp add: mn)
  have "tot < 2 ^ 64" by (simp add: tot)
  then have un: "unat (of_nat n :: u64) = n" using nt by (simp add: unat_of_nat take_bit_eq_mod)
  have rest: "unat (ucast (ins_sz io) * c - of_nat n) = tot - n"
    using nt un miss by (subst unat_sub) (simp_all add: word_le_nat_alt)
  have uq: "unat (q n) = (tot - n) div unat (ins_sz io)" by (simp add: q_def unat_div rest sn(1))
  have "(tot - n) div unat (ins_sz io) \<le> tot div unat (ins_sz io)" by (intro div_le_mono) simp
  also have "tot div unat (ins_sz io) \<le> (unat (ins_sz io) * unat c) div unat (ins_sz io)"
    unfolding tot c_def by (intro div_le_mono mod_less_eq_dividend)
  also have "\<dots> = unat c" using sn(2) by simp
  finally have qm: "q n AND mask w = q n"
    using unat_and_mask_less [OF assms(5), of "get_gpr GPR64_RCX s"] uq
    by (intro and_mask_small) (simp add: c_def)
  have reg: "GPR64_RCX < length (vm_gpr s)" "r < length (vm_gpr s)" "GPR64_RCX \<noteq> GPR64_RSP" "r \<noteq> GPR64_RSP" "r \<noteq> GPR64_RCX"
    using assms(8) r by (auto simp: GPR64_RCX_def GPR64_RDI_def GPR64_RSI_def GPR64_RSP_def)
  have g1: "vm_gpr s1 = vm_gpr s" using gpr_frame [OF n(4)] by blast
  have rcx: "get_gpr GPR64_RCX s' = (get_gpr GPR64_RCX s AND NOT (mask w)) OR q n"
    and ptr: "get_gpr r s' = (get_gpr r s AND NOT (mask w)) OR ((get_gpr r s AND mask w) + (of_nat n AND mask w))"
    using n(7) reg g1 qm by simp_all
  have "unat (get_gpr GPR64_RCX s' AND mask w) = (tot - n) div unat (ins_sz io)"
    "get_gpr GPR64_RCX s' AND NOT (mask w) = get_gpr GPR64_RCX s AND NOT (mask w)"
    using mask_parts [of w "q n" "get_gpr GPR64_RCX s"] qm uq by (simp_all add: rcx take_bit_eq_mask)
  with n(1-3,5,6) rest un mask_add [OF assms(5), of "get_gpr r s" n] show ?thesis
    unfolding mn ptr by (intro exI [of _ n]) simp
qed




definition io_ex :: io_vm where
  "io_ex = gdb_state.extend gdb_ex (io_vm.fields 0x1ff0 0 1 [] (\<lambda>p. p \<in> {0x20, 0x21, 0x60, 0x64, 0x92})
     (replicate 16384 0) 8 False 0 0 False 1 2 \<lparr>kbd_last_cmd = 0, kbd_output_port = 0\<rparr>
     \<lparr>uart_buffer = replicate 64 0, uart_index = 0, uart_base = 0x3f8, uart_ier = 0, uart_iir = 3, uart_fcr = 0,
       uart_lcr = 0, uart_mcr = 0, uart_lsr = 0x60, uart_msr = 0, uart_dla_lsb = 0, uart_dla_msb = 0, uart_scr = 0\<rparr>
     \<lparr>ata_base = 0x1f0, ata_last_out = 0, ata_cmd = 0, ata_dev_head = 0, ata_cnt = 0, ata_lba = 0\<rparr>
     0 None None 0x80001800 0x404 5 [] None)"

lemma io_ex_sel [simp]:
  "vm_gpr io_ex = replicate 16 0" "io_pool io_ex = replicate 16384 0" "io_denied io_ex = (\<lambda>p. p \<in> {0x20, 0x21, 0x60, 0x64, 0x92})"
  "wait_icw2 io_ex = False" "proc_iwe io_ex = False" "\<not> rflags_if io_ex" "pio_log io_ex = []" "tx_out io_ex = []"
  "dev_a20 io_ex = 1" "vm_rsp io_ex = 0"
  by (simp_all add: rflags_if_def put_flag_def bit_simps io_ex_def gdb_ex_def gdb_state.defs ctrl_ex_def dbg_ex_def dbg_vm.defs ctrl_vm.defs vm_cpu.defs io_vm.defs vm_ex_def)

text \<open>A repeated byte input of sixteen bytes with a sixteen bit count.\<close>

definition ins_ex :: io_insn where
  "ins_ex = \<lparr>ins_in = True, ins_s = True, ins_sz = 1, ins_addr = 1, ins_seg = 0, ins_back = False, ins_rep = True,
     ins_port = 0x1f0, ins_msk = mask 16, ins_cnt = 16\<rparr>"

theorem io_string_accounts_witness:
  "\<exists>rc sz' dev' s'. dev_io_insn ins_ex (replicate 16 0) \<lparr>sz_available = 16, sz_done = 0, sz_miss = 0\<rparr>
      (set_gpr GPR64_RCX 16 io_ex) = (rc, sz', dev', s')
     \<and> unat (sz_miss sz') + unat (sz_done sz') = 16 \<and> length dev' = 16"
proof -
  let ?s = "set_gpr GPR64_RCX 16 io_ex"
  have c: "get_gpr GPR64_RCX ?s AND mask 16 = 16"
    by (simp add: GPR64_RCX_def GPR64_RSP_def mask_eq_exp_minus_1)
  obtain rc sz' dev' s' where r: "dev_io_insn ins_ex (replicate 16 0) \<lparr>sz_available = 16, sz_done = 0, sz_miss = 0\<rparr> ?s
      = (rc, sz', dev', s')" by (metis prod.collapse)
  from io_string_accounts [OF _ _ _ _ _ _ _ _ _ refl r, of 16 16] c
  show ?thesis using r by (auto simp: ins_ex_def)
qed

lemma rflags_if_set [simp]: "rflags_if (set_rflags_if b s) = b"
  by (simp add: rflags_if_def set_rflags_if_def bit_put_flag)

lemma set_rflags_if_sel [simp]: "vm_evt (set_rflags_if b s) = vm_evt s" "int_sti (set_rflags_if b s) = int_sti s"
  "int_mss (set_rflags_if b s) = int_mss s" "proc_iwe (set_rflags_if b s) = proc_iwe s" for s :: "'a io_vm_scheme"
  by (simp_all add: set_rflags_if_def)

lemma rflags_if_cong [simp]: "rflags_if (s\<lparr>int_sti := a, int_mss := c\<rparr>) = rflags_if s"
  "rflags_if (s\<lparr>vm_evt := e\<rparr>) = rflags_if s" "rflags_if (s\<lparr>proc_iwe := a, irq_pending := v\<rparr>) = rflags_if s"
  "rflags_if (s\<lparr>irq_vector := v\<rparr>) = rflags_if s" for s :: "'a io_vm_scheme"
  by (simp_all add: rflags_if_def)

lemma inject_interrupt_sel [simp]:
  "vm_evt (uu_vmx_vmexit_inject_interrupt v s) = uu_vmx_prepare_event_injection VMCS_EVT_INFO_TYPE_HW_INT v"
  "uu_safe_interrupts_on (uu_vmx_vmexit_inject_interrupt v s)"
  "proc_iwe (uu_vmx_vmexit_inject_interrupt v s) = proc_iwe s"
  by (simp_all add: uu_vmx_vmexit_inject_interrupt_def uu_safe_interrupts_on_def Let_def)

lemma setup_window_sel [simp]:
  "vm_evt (uu_vmx_vmexit_setup_interrupt_window_exiting e v s) = vm_evt s"
  "uu_safe_interrupts_on (uu_vmx_vmexit_setup_interrupt_window_exiting e v s) = uu_safe_interrupts_on s"
  "proc_iwe (uu_vmx_vmexit_setup_interrupt_window_exiting e v s) = e"
  by (simp_all add: uu_vmx_vmexit_setup_interrupt_window_exiting_def uu_safe_interrupts_on_def)

text \<open>C31: an external interrupt that arrives while the guest can take it is injected at once;
  otherwise, when no interrupt waits already, it is injected as soon as the guest can take
  interrupts, and the request for that exit is withdrawn. An interrupt that arrives while
  another one waits is lost.\<close>

theorem intr_pending_once:
  assumes "resolve_intr s = Some (rc, s1)" and "proc_iwe s2 = proc_iwe s1" and "irq_pending s2 = irq_pending s1"
    and "vmx_vmexit_resolve_iwe s2 = (rc', s3)"
  shows "if uu_safe_interrupts_on s
    then vm_evt s1 = uu_vmx_prepare_event_injection VMCS_EVT_INFO_TYPE_HW_INT (irq_vector s)
    else if proc_iwe s then s1 = s
    else proc_iwe s1
      \<and> vm_evt s3 = uu_vmx_prepare_event_injection VMCS_EVT_INFO_TYPE_HW_INT (irq_vector s)
      \<and> uu_safe_interrupts_on s3 \<and> \<not> proc_iwe s3"
proof (cases "uu_safe_interrupts_on s")
  case True
  then have "s1 = uu_vmx_vmexit_inject_interrupt (irq_vector s) s"
    using assms(1) by (simp add: resolve_intr_def split: if_splits)
  with True show ?thesis by simp
next
  case False
  then have s1: "s1 = uu_vmx_vmexit_setup_interrupt_window_exiting True (irq_vector s) s"
    using assms(1) by (simp add: resolve_intr_def split: if_splits)
  have s3: "s3 = uu_vmx_vmexit_setup_interrupt_window_exiting False 0xff
      (uu_vmx_vmexit_inject_interrupt (irq_pending s1) s2)"
    using assms(3,4) by (simp add: vmx_vmexit_resolve_iwe_def)
  show ?thesis
  proof (cases "proc_iwe s")
    case True
    with False s1 show ?thesis by (simp add: uu_vmx_vmexit_setup_interrupt_window_exiting_def)
  next
    case w0: False
    then have "irq_pending s1 = irq_vector s"
      by (simp add: s1 uu_vmx_vmexit_setup_interrupt_window_exiting_def)
    with False w0 show ?thesis by (simp add: s3 s1)
  qed
qed

theorem intr_pending_once_witness:
  "\<exists>s1. resolve_intr (io_ex\<lparr>irq_vector := 0x30\<rparr>) = Some (VM_DONE, s1) \<and> proc_iwe s1
     \<and> evt_vector (vm_evt (snd (vmx_vmexit_resolve_iwe s1))) = 0x30"
proof -
  let ?s = "io_ex\<lparr>irq_vector := 0x30\<rparr>"
  have u: "\<not> uu_safe_interrupts_on ?s" by (simp add: uu_safe_interrupts_on_def)
  then obtain s1 where r: "resolve_intr ?s = Some (VM_DONE, s1)" by (simp add: resolve_intr_def)
  obtain rc s3 where i: "vmx_vmexit_resolve_iwe s1 = (rc, s3)" by fastforce
  with intr_pending_once [OF r refl refl i] u r show ?thesis
    by (simp add: uu_vmx_prepare_event_injection_def)
qed

lemma pic_release_denied:
  assumes "ins_port io = 0x21" and "\<not> ins_in io" and "wait_icw2 s"
  shows "io_denied (uu_io_pic_detect io d s) p = (io_denied s p \<and> \<not> (0x20 \<le> p \<and> p \<le> 0xa0))"
proof -
  have "(\<exists>k. 0x20 \<le> k \<and> k \<le> 0xa0 \<and> p = of_nat k) \<longleftrightarrow> 0x20 \<le> p \<and> p \<le> 0xa0"
  proof
    assume "\<exists>k. 0x20 \<le> k \<and> k \<le> 0xa0 \<and> p = of_nat k"
    then show "0x20 \<le> p \<and> p \<le> 0xa0"
      by (auto simp: word_le_nat_alt unat_of_nat take_bit_eq_mod)
  next
    assume "0x20 \<le> p \<and> p \<le> 0xa0"
    then show "\<exists>k. 0x20 \<le> k \<and> k \<le> 0xa0 \<and> p = of_nat k"
      by (intro exI [of _ "unat p"]) (auto simp: word_le_nat_alt)
  qed
  then show ?thesis
    using assms by (simp add: uu_io_pic_detect_def vmx_allow_io_range_denied PIC1_START_PORT_def
        PIC1_END_PORT_def PIC2_START_PORT_def)
qed

text \<open>When the guest has programmed the first interrupt controller, the code stops
  intercepting not the two ports of that controller but every port from the first of them
  to the second controller, so also the keyboard controller and the system control port,
  through which the guest drives address line 20 and the reset line. The ports outside of
  that range stay as they were.\<close>

theorem pic_release_opens_ports:
  assumes "ins_port io = 0x21" and "\<not> ins_in io" and "wait_icw2 s"
  shows "\<not> io_denied (uu_io_pic_detect io d s) (ins_port io)
    \<and> \<not> io_denied (uu_io_pic_detect io d s) 0x60 \<and> \<not> io_denied (uu_io_pic_detect io d s) 0x64
    \<and> \<not> io_denied (uu_io_pic_detect io d s) 0x92
    \<and> (p < 0x20 \<or> 0xa0 < p \<longrightarrow> io_denied (uu_io_pic_detect io d s) p = io_denied s p)"
  using pic_release_denied [OF assms] assms(1) by auto

theorem pic_release_opens_ports_witness:
  "io_denied io_ex 0x92
   \<and> \<not> io_denied (uu_io_pic_detect (ins_ex\<lparr>ins_in := False, ins_port := 0x21\<rparr>) 0x20 (io_ex\<lparr>wait_icw2 := True\<rparr>)) 0x92"
  using pic_release_opens_ports [of "ins_ex\<lparr>ins_in := False, ins_port := 0x21\<rparr>" "io_ex\<lparr>wait_icw2 := True\<rparr>" "0x20" 0]
  by simp

end
