(* ===== verification/Devices.thy ===== *)
theory Devices
  imports Io
begin

text \<open>
  The devices the vmm shows to the guest: the system control port of \<^verbatim>\<open>ps2.c\<close>, the keyboard
  controller of \<^verbatim>\<open>kbd.c\<close>, the serial port of \<^verbatim>\<open>uart.c\<close>, the disk controller of \<^verbatim>\<open>ata.c\<close>, the
  super I/O chip of \<^verbatim>\<open>sio.c\<close>, the configuration space of \<^verbatim>\<open>pci.c\<close> and the power control of
  \<^verbatim>\<open>acpi.c\<close> under \<^verbatim>\<open>vmm/src/devices\<close>, and the dispatch of \<^verbatim>\<open>vmm/src/core/device.c\<close>. A run that
  does not return is \<^verbatim>\<open>None\<close>: a panic of the vmm, or a loop that does not end. The
  uninitialised registers on the stack of the vmm and the wake up of the machine are part of
  the environment.
\<close>

section \<open>Environment\<close>

record 'a io_env =
  env_pio :: pio
  env_wake :: "'a io_vm_scheme \<Rightarrow> vmerr \<times> 'a io_vm_scheme"
  env_junk :: bytes

section \<open>Address line 20: system control port and keyboard controller\<close>

definition dev_a20_set :: "u8 \<Rightarrow> 'a io_vm_scheme \<Rightarrow> 'a io_vm_scheme" where
  "dev_a20_set on s = (if on \<noteq> dev_a20 s then s\<lparr>dev_a20 := on\<rparr> else s)"

definition io_size_of :: "size_t \<Rightarrow> io_size" where
  "io_size_of n = \<lparr>sz_available = n, sz_done = 0, sz_miss = 0\<rparr>"

definition dev_ps2 :: "io_insn \<Rightarrow> 'a io_vm_scheme \<Rightarrow> (vmerr \<times> 'a io_vm_scheme) option" where
  "dev_ps2 io s =
     (let (rc, sz, dev, s) = dev_io_insn io [dev_ps2_raw s] (io_size_of 1) s;
          s = s\<lparr>dev_ps2_raw := dev ! 0\<rparr>
      in if rc \<noteq> VM_DONE then Some (rc, s)
         else if bit (dev_ps2_raw s) 0 then None
         else Some (VM_DONE, dev_a20_set (get_field 1 1 (dev_ps2_raw s)) s))"

definition KBD_DATA_PORT :: u16 where "KBD_DATA_PORT = 0x60"
definition KBD_CTRL_PORT :: u16 where "KBD_CTRL_PORT = 0x64"
definition KBD_CMD_READ_O_PORT :: u8 where "KBD_CMD_READ_O_PORT = 0xd0"
definition KBD_CMD_WRITE_O_PORT :: u8 where "KBD_CMD_WRITE_O_PORT = 0xd1"
definition KBD_OUTPUT_PORT_A20 :: u8 where "KBD_OUTPUT_PORT_A20 = 2"

definition rax_blow :: "'a dbg_vm_scheme \<Rightarrow> u8" where
  "rax_blow s = ucast (get_gpr GPR64_RAX s)"

text \<open>The byte transfers \<^verbatim>\<open>in\<close> and \<^verbatim>\<open>out\<close> between the low byte of \<^verbatim>\<open>rax\<close> and a port.\<close>

definition rax_in :: "pio \<Rightarrow> io_insn \<Rightarrow> 'a io_vm_scheme \<Rightarrow> 'a io_vm_scheme" where
  "rax_in pio io s = (let (bs, s) = pio_in pio (ins_port io) 1 s in set_rax_low bs s)"

definition rax_out :: "io_insn \<Rightarrow> 'a io_vm_scheme \<Rightarrow> 'a io_vm_scheme" where
  "rax_out io s = pio_out (ins_port io) [rax_blow s] s"

definition kbd_upd :: "(kbd_t \<Rightarrow> kbd_t) \<Rightarrow> 'a io_vm_scheme \<Rightarrow> 'a io_vm_scheme" where
  "kbd_upd f s = s\<lparr>dev_kbd_st := f (dev_kbd_st s)\<rparr>"

definition uu_dev_kbd_ctrl :: "pio \<Rightarrow> io_insn \<Rightarrow> 'a io_vm_scheme \<Rightarrow> vmerr \<times> 'a io_vm_scheme" where
  "uu_dev_kbd_ctrl pio io s =
     (VM_DONE, if ins_in io then rax_in pio io s
               else rax_out io (kbd_upd (\<lambda>k. k\<lparr>kbd_last_cmd := rax_blow s\<rparr>) s))"

definition uu_dev_kbd_data :: "pio \<Rightarrow> io_insn \<Rightarrow> 'a io_vm_scheme \<Rightarrow> vmerr \<times> 'a io_vm_scheme" where
  "uu_dev_kbd_data pio io s =
     (VM_DONE,
      if ins_in io
      then (let s = rax_in pio io s
            in if kbd_last_cmd (dev_kbd_st s) = KBD_CMD_READ_O_PORT
               then set_rax_low [(rax_blow s AND NOT KBD_OUTPUT_PORT_A20)
                      OR (if bit (kbd_output_port (dev_kbd_st s)) 1 then KBD_OUTPUT_PORT_A20 else 0)] s
               else s)
      else (let s = (if kbd_last_cmd (dev_kbd_st s) = KBD_CMD_WRITE_O_PORT
              then (let s = kbd_upd (\<lambda>k. k\<lparr>kbd_output_port := rax_blow s\<rparr>) s;
                        s = dev_a20_set (get_field 1 1 (kbd_output_port (dev_kbd_st s))) s
                    in if \<not> bit (kbd_output_port (dev_kbd_st s)) 1
                       then set_rax_low [rax_blow s OR KBD_OUTPUT_PORT_A20] s else s)
              else s)
            in rax_out io s))"

definition dev_kbd :: "pio \<Rightarrow> io_insn \<Rightarrow> 'a io_vm_scheme \<Rightarrow> vmerr \<times> 'a io_vm_scheme" where
  "dev_kbd pio io s =
     (if ins_port io = KBD_CTRL_PORT then uu_dev_kbd_ctrl pio io s
      else if ins_port io = KBD_DATA_PORT then uu_dev_kbd_data pio io s
      else (VM_DONE, if ins_in io then rax_in pio io s else rax_out io s))"

section \<open>Serial port\<close>

definition DEV_UART_BUFF_LEN :: u32 where "DEV_UART_BUFF_LEN = 64"
definition PIC_UART1_IRQ :: u8 where "PIC_UART1_IRQ = 4"

definition uart_upd :: "(uart_t \<Rightarrow> uart_t) \<Rightarrow> 'a io_vm_scheme \<Rightarrow> 'a io_vm_scheme" where
  "uart_upd f s = s\<lparr>dev_uart_st := f (dev_uart_st s)\<rparr>"

definition uu_dev_uart_flush :: "'a io_vm_scheme \<Rightarrow> 'a io_vm_scheme" where
  "uu_dev_uart_flush s =
     (let u = dev_uart_st s
      in uart_upd (\<lambda>u. u\<lparr>uart_index := 0\<rparr>) (s\<lparr>tx_out := tx_out s @ take (unat (uart_index u)) (uart_buffer u)\<rparr>))"

text \<open>One turn of the loop of \<^verbatim>\<open>__dev_uart_xfr\<close>: its status, what is still missing, the state.\<close>

definition uart_xfr_step :: "io_insn \<Rightarrow> 'a io_vm_scheme \<Rightarrow> vmerr \<times> size_t \<times> 'a io_vm_scheme" where
  "uart_xfr_step io s =
     (let u = dev_uart_st s; i = unat (uart_index u);
          (rc, sz, dev, s) = dev_io_insn io (drop i (uart_buffer u))
             (io_size_of (ucast (DEV_UART_BUFF_LEN - uart_index u))) s;
          s = uart_upd (\<lambda>u. u\<lparr>uart_buffer := take i (uart_buffer u) @ dev\<rparr>) s
      in if rc \<noteq> VM_DONE then (rc, 0, s)
         else (let s = uart_upd (\<lambda>u. u\<lparr>uart_index := uart_index u + ucast (sz_done sz)\<rparr>) s;
                   s = (if uart_index (dev_uart_st s) \<ge> DEV_UART_BUFF_LEN
                        then (let s = uart_upd (\<lambda>u. u\<lparr>uart_index := DEV_UART_BUFF_LEN\<rparr>) s
                              in if \<not> ins_in io then uu_dev_uart_flush s else s)
                        else s)
               in (rc, sz_miss sz, s)))"

partial_function (option) uu_dev_uart_xfr ::
    "io_insn \<Rightarrow> 'a io_vm_scheme \<Rightarrow> (vmerr \<times> 'a io_vm_scheme) option" where
  "uu_dev_uart_xfr io s =
     (let (rc, miss, s) = uart_xfr_step io s
      in if rc = VM_DONE \<and> miss \<noteq> 0 then uu_dev_uart_xfr io s else Some (rc, s))"

text \<open>The registers, one byte each.\<close>

definition uart_reg ::
    "(uart_t \<Rightarrow> u8) \<Rightarrow> (u8 \<Rightarrow> uart_t \<Rightarrow> uart_t) \<Rightarrow> io_insn \<Rightarrow> 'a io_vm_scheme \<Rightarrow> vmerr \<times> 'a io_vm_scheme" where
  "uart_reg get put io s =
     (let (rc, sz, dev, s) = dev_io_insn io [get (dev_uart_st s)] (io_size_of 1) s
      in (rc, uart_upd (put (dev ! 0)) s))"

definition uu_dev_uart_dla :: "io_insn \<Rightarrow> 'a io_vm_scheme \<Rightarrow> vmerr \<times> 'a io_vm_scheme" where
  "uu_dev_uart_dla io s =
     (if ins_port io = uart_base (dev_uart_st s)
      then uart_reg uart_dla_lsb (\<lambda>v u. u\<lparr>uart_dla_lsb := v\<rparr>) io s
      else uart_reg uart_dla_msb (\<lambda>v u. u\<lparr>uart_dla_msb := v\<rparr>) io s)"

definition uu_dev_uart_lsr :: "io_insn \<Rightarrow> 'a io_vm_scheme \<Rightarrow> vmerr \<times> 'a io_vm_scheme" where
  "uu_dev_uart_lsr io s = uart_reg uart_lsr (\<lambda>v u. u\<lparr>uart_lsr := v\<rparr>) io s"

definition uu_dev_uart_ier :: "io_insn \<Rightarrow> 'a io_vm_scheme \<Rightarrow> vmerr \<times> 'a io_vm_scheme" where
  "uu_dev_uart_ier io s =
     (let (rc, s) = uart_reg uart_ier (\<lambda>v u. u\<lparr>uart_ier := v\<rparr>) io s; u = dev_uart_st s
      in (rc, if \<not> ins_in io \<and> bit (uart_ier u) 1 \<and> bit (uart_lsr u) 5 \<and> uu_safe_interrupts_on s
              then uu_vmx_vmexit_inject_interrupt (pic1_icw2 s + PIC_UART1_IRQ)
                     (uart_upd (\<lambda>u. u\<lparr>uart_iir := set_field 0 1 0 (uart_iir u)\<rparr>) s)
              else s))"

definition uu_dev_uart_iir :: "io_insn \<Rightarrow> 'a io_vm_scheme \<Rightarrow> vmerr \<times> 'a io_vm_scheme" where
  "uu_dev_uart_iir io s =
     (let (rc, s) = uart_reg uart_iir (\<lambda>v u. u\<lparr>uart_iir := v\<rparr>) io s
      in (rc, if ins_in io \<and> \<not> bit (uart_iir (dev_uart_st s)) 0
              then uart_upd (\<lambda>u. u\<lparr>uart_iir := set_field 0 1 1 (uart_iir u)\<rparr>) s else s))"

definition uu_dev_uart_fcr :: "io_insn \<Rightarrow> 'a io_vm_scheme \<Rightarrow> vmerr \<times> 'a io_vm_scheme" where
  "uu_dev_uart_fcr io s = uart_reg uart_fcr (\<lambda>v u. u\<lparr>uart_fcr := v\<rparr>) io s"

definition uu_dev_uart_lcr :: "io_insn \<Rightarrow> 'a io_vm_scheme \<Rightarrow> vmerr \<times> 'a io_vm_scheme" where
  "uu_dev_uart_lcr io s = uart_reg uart_lcr (\<lambda>v u. u\<lparr>uart_lcr := v\<rparr>) io s"

definition uu_dev_uart_mcr :: "io_insn \<Rightarrow> 'a io_vm_scheme \<Rightarrow> vmerr \<times> 'a io_vm_scheme" where
  "uu_dev_uart_mcr io s = uart_reg uart_mcr (\<lambda>v u. u\<lparr>uart_mcr := v\<rparr>) io s"

definition uu_dev_uart_msr :: "io_insn \<Rightarrow> 'a io_vm_scheme \<Rightarrow> vmerr \<times> 'a io_vm_scheme" where
  "uu_dev_uart_msr io s = uart_reg uart_msr (\<lambda>v u. u\<lparr>uart_msr := v\<rparr>) io s"

definition uu_dev_uart_scr :: "io_insn \<Rightarrow> 'a io_vm_scheme \<Rightarrow> vmerr \<times> 'a io_vm_scheme" where
  "uu_dev_uart_scr io s = uart_reg uart_scr (\<lambda>v u. u\<lparr>uart_scr := v\<rparr>) io s"

text \<open>The port numbers \<open>base + k\<close> are computed as C integers, so they do not wrap.\<close>

definition dev_uart :: "io_insn \<Rightarrow> 'a io_vm_scheme \<Rightarrow> (vmerr \<times> 'a io_vm_scheme) option" where
  "dev_uart io s =
     (let u = dev_uart_st s; base = unat (uart_base u); port = unat (ins_port io)
      in if port \<le> base + 1
         then if bit (uart_lcr u) 7 then Some (uu_dev_uart_dla io s)
              else if port = base then uu_dev_uart_xfr io s
              else Some (uu_dev_uart_ier io s)
         else if port = base + 2
         then Some (if ins_in io then uu_dev_uart_iir io s else uu_dev_uart_fcr io s)
         else if port = base + 3 then Some (uu_dev_uart_lcr io s)
         else if port = base + 4 then Some (uu_dev_uart_mcr io s)
         else if port = base + 5 \<and> ins_in io then Some (uu_dev_uart_lsr io s)
         else if port = base + 6 \<and> ins_in io then Some (uu_dev_uart_msr io s)
         else if port = base + 7 then Some (uu_dev_uart_scr io s)
         else Some (VM_FAIL, s))"

section \<open>Filters\<close>

definition ATA_READ_SECTOR_CMD :: u8 where "ATA_READ_SECTOR_CMD = 0x20"
definition ATA_WRITE_SECTOR_CMD :: u8 where "ATA_WRITE_SECTOR_CMD = 0x30"

definition ata_upd :: "(ata_t \<Rightarrow> ata_t) \<Rightarrow> 'a io_vm_scheme \<Rightarrow> 'a io_vm_scheme" where
  "ata_upd f s = s\<lparr>dev_ata_st := f (dev_ata_st s)\<rparr>"

definition uu_dev_ata_lba_filter :: "bytes \<Rightarrow> 'a io_vm_scheme \<Rightarrow> vmerr \<times> bytes \<times> 'a io_vm_scheme" where
  "uu_dev_ata_lba_filter dev s =
     (let ata = dev_ata_st s; idx = ucast (ata_last_out ata - (ata_base ata + 3)) :: u8
      in if idx > 2 then (VM_FAIL, dev, s)
         else (VM_DONE, dev, ata_upd (\<lambda>a. a\<lparr>ata_lba := set_field (8 * unat idx) 8 (ucast (dev ! 0)) (ata_lba a)\<rparr>) s))"

definition uu_dev_ata_scnt_filter :: "bytes \<Rightarrow> 'a io_vm_scheme \<Rightarrow> vmerr \<times> bytes \<times> 'a io_vm_scheme" where
  "uu_dev_ata_scnt_filter dev s =
     (VM_DONE, dev, ata_upd (\<lambda>a. a\<lparr>ata_cnt := if dev ! 0 = 0 then 256 else ucast (dev ! 0)\<rparr>) s)"

definition uu_dev_ata_cmd_filter :: "bytes \<Rightarrow> 'a io_vm_scheme \<Rightarrow> vmerr \<times> bytes \<times> 'a io_vm_scheme" where
  "uu_dev_ata_cmd_filter dev s =
     (let s = ata_upd (\<lambda>a. a\<lparr>ata_cmd := dev ! 0\<rparr>) s; cmd = ata_cmd (dev_ata_st s)
      in (VM_DONE, dev,
          if cmd = ATA_READ_SECTOR_CMD \<or> cmd = ATA_WRITE_SECTOR_CMD
          then ata_upd (\<lambda>a. a\<lparr>ata_lba := ata_lba a OR push_bit 24 (ucast (get_field 0 4 (ata_dev_head a)))\<rparr>) s
          else s))"

definition SIO_INDEX :: u16 where "SIO_INDEX = 0x2e"
definition SIO_DATA :: u16 where "SIO_DATA = 0x2f"

definition uu_dev_sio_filter_com1 :: "bytes \<Rightarrow> 'a io_vm_scheme \<Rightarrow> vmerr \<times> bytes \<times> 'a io_vm_scheme" where
  "uu_dev_sio_filter_com1 dev s =
     (VM_DONE, if dev ! 0 AND 2 = 0 then dev[0 := dev ! 0 OR 2] else dev, s)"

definition uu_dev_sio_filter_index :: "bytes \<Rightarrow> 'a io_vm_scheme \<Rightarrow> vmerr \<times> bytes \<times> 'a io_vm_scheme" where
  "uu_dev_sio_filter_index dev s =
     (VM_DONE, dev, if dev ! 0 = 0 then (vmx_deny_io SIO_DATA s)\<lparr>sio_filter := Some FltSioCom1\<rparr>
                    else vmx_allow_io SIO_DATA s)"

definition PCI_CONFIG_ADDR :: u16 where "PCI_CONFIG_ADDR = 0xcf8"
definition PCI_CONFIG_DATA :: u16 where "PCI_CONFIG_DATA = 0xcfc"
definition PCI_CFG_DEV_VDR_OFFSET :: u32 where "PCI_CFG_DEV_VDR_OFFSET = 0"
definition PCI_CFG_CMD_STS_OFFSET :: u32 where "PCI_CFG_CMD_STS_OFFSET = 4"
definition PCI_CFG_VENDOR_INTEL :: u32 where "PCI_CFG_VENDOR_INTEL = 0x8086"
definition PCI_CFG_DEVICE_INVALID :: u32 where "PCI_CFG_DEVICE_INVALID = 0xffff"
definition PCI_CFG_DEVICE_i82540EM :: u32 where "PCI_CFG_DEVICE_i82540EM = 0x100e"
definition PCI_CFG_DEVICE_i82545EM_C :: u32 where "PCI_CFG_DEVICE_i82545EM_C = 0x100f"

text \<open>A \<^verbatim>\<open>raw32_t\<close> at the start of the pool.\<close>

definition dev_u32 :: "bytes \<Rightarrow> u32" where
  "dev_u32 dev = of_le_bytes (take 4 dev)"

definition put_u32 :: "u32 \<Rightarrow> bytes \<Rightarrow> bytes" where
  "put_u32 v dev = put_bytes (le_bytes 4 v) dev"

definition uu_dev_pci_filter_dvd_e1000 :: "bytes \<Rightarrow> 'a io_vm_scheme \<Rightarrow> vmerr \<times> bytes \<times> 'a io_vm_scheme" where
  "uu_dev_pci_filter_dvd_e1000 dev s =
     (let vdr = dev_u32 dev
      in if get_field 0 16 vdr \<noteq> PCI_CFG_VENDOR_INTEL then (VM_DONE, dev, s)
         else if get_field 16 16 vdr \<noteq> PCI_CFG_DEVICE_i82540EM \<and> get_field 16 16 vdr \<noteq> PCI_CFG_DEVICE_i82545EM_C
         then (VM_DONE, dev, s)
         else (VM_DONE, put_u32 (set_field 16 16 PCI_CFG_DEVICE_INVALID vdr) dev, s))"

definition uu_dev_pci_filter_cmd_sts_e1000 :: "bytes \<Rightarrow> 'a io_vm_scheme \<Rightarrow> vmerr \<times> bytes \<times> 'a io_vm_scheme" where
  "uu_dev_pci_filter_cmd_sts_e1000 dev s =
     (let cs = dev_u32 dev
      in (VM_DONE, if \<not> bit cs 1 \<or> \<not> bit cs 2
                   then put_u32 (set_field 2 1 1 (set_field 1 1 1 cs)) dev else dev, s))"

definition uu_dev_pci_filter_e1000 :: "u32 \<Rightarrow> u32 \<Rightarrow> 'a io_vm_scheme \<Rightarrow> vmerr \<times> 'a io_vm_scheme" where
  "uu_dev_pci_filter_e1000 net addr s =
     (if get_field 16 8 addr \<noteq> get_field 16 8 net \<or> get_field 8 3 addr \<noteq> get_field 8 3 net
         \<or> get_field 11 5 addr \<noteq> get_field 11 5 net then (VM_IGNORE, s)
      else if get_field 0 8 addr = PCI_CFG_DEV_VDR_OFFSET then (VM_DONE, s\<lparr>pci_filter := Some FltPciDvd\<rparr>)
      else if get_field 0 8 addr = PCI_CFG_CMD_STS_OFFSET then (VM_DONE, s\<lparr>pci_filter := Some FltPciCmdSts\<rparr>)
      else (VM_IGNORE, s))"

text \<open>The debug controller, in a build that takes the second controller of the machine for it:
  \<open>ehci_2nd\<close> has its address and its identification (\<^verbatim>\<open>info->hrd.dev.dbgp\<close>), and is \<open>None\<close> in a build
  without that option.\<close>

definition uu_dev_pci_filter_dvd_ehci :: "bytes \<Rightarrow> 'a io_vm_scheme \<Rightarrow> vmerr \<times> bytes \<times> 'a io_vm_scheme" where
  "uu_dev_pci_filter_dvd_ehci dev s =
     (let vdr = dev_u32 dev
      in if Some vdr \<noteq> map_option snd (ehci_2nd s) then (VM_DONE, dev, s)
         else (VM_DONE, put_u32 (set_field 16 16 PCI_CFG_DEVICE_INVALID vdr) dev, s))"

definition uu_dev_pci_filter_ehci :: "u32 \<Rightarrow> u32 \<Rightarrow> 'a io_vm_scheme \<Rightarrow> vmerr \<times> 'a io_vm_scheme" where
  "uu_dev_pci_filter_ehci ehci addr s =
     (if get_field 16 8 addr = get_field 16 8 ehci \<and> get_field 8 3 addr = get_field 8 3 ehci
         \<and> get_field 11 5 addr = get_field 11 5 ehci \<and> get_field 0 8 addr = PCI_CFG_DEV_VDR_OFFSET
      then (VM_DONE, s\<lparr>pci_filter := Some FltPciDvdEhci\<rparr>) else (VM_IGNORE, s))"

definition uu_dev_pci_filter_addr :: "bytes \<Rightarrow> 'a io_vm_scheme \<Rightarrow> vmerr \<times> bytes \<times> 'a io_vm_scheme" where
  "uu_dev_pci_filter_addr dev s =
     (let s = s\<lparr>pci_addr := dev_u32 dev\<rparr>;
          (rc, s) = uu_dev_pci_filter_e1000 (net_pci_addr s) (pci_addr s) s;
          (rc, s) = (case ehci_2nd s of
                       Some (ehci, _) \<Rightarrow> if rc = VM_IGNORE then uu_dev_pci_filter_ehci ehci (pci_addr s) s else (rc, s)
                     | None \<Rightarrow> (rc, s))
      in (VM_DONE, dev, if rc = VM_IGNORE then vmx_allow_io PCI_CONFIG_DATA s else vmx_deny_io PCI_CONFIG_DATA s))"

text \<open>The function a filter pointer stands for.\<close>

fun dev_flt :: "'a io_flt_hdl" where
  "dev_flt FltSioIndex = uu_dev_sio_filter_index"
| "dev_flt FltSioCom1 = uu_dev_sio_filter_com1"
| "dev_flt FltPciAddr = uu_dev_pci_filter_addr"
| "dev_flt FltPciDvd = uu_dev_pci_filter_dvd_e1000"
| "dev_flt FltPciCmdSts = uu_dev_pci_filter_cmd_sts_e1000"
| "dev_flt FltPciDvdEhci = uu_dev_pci_filter_dvd_ehci"
| "dev_flt FltAtaCmd = uu_dev_ata_cmd_filter"
| "dev_flt FltAtaScnt = uu_dev_ata_scnt_filter"
| "dev_flt FltAtaLba = uu_dev_ata_lba_filter"

abbreviation proxify :: "'a io_env \<Rightarrow> io_insn \<Rightarrow> io_flt option \<Rightarrow> 'a io_vm_scheme \<Rightarrow> vmerr \<times> 'a io_vm_scheme" where
  "proxify env io flt s \<equiv> dev_io_proxify_filter (env_pio env) dev_flt io flt s"

section \<open>Disk controller\<close>

definition uu_dev_ata_device :: "'a io_env \<Rightarrow> io_insn \<Rightarrow> 'a io_vm_scheme \<Rightarrow> vmerr \<times> 'a io_vm_scheme" where
  "uu_dev_ata_device env io s =
     (if ins_in io then dev_io_proxify (env_pio env) dev_flt io s
      else if ucast (ins_sz io) * ins_cnt io > 1 then (VM_FAIL, s)
      else (let (rc, sz, dev, s) = dev_io_insn io (take 1 (env_junk env)) (io_size_of 1) s
            in if rc \<noteq> VM_DONE then (rc, s)
               else (let s = ata_upd (\<lambda>a. a\<lparr>ata_dev_head := dev ! 0\<rparr>) s;
                         (rc, _, s) = dev_io_native (env_pio env) io dev s
                     in (rc, s))))"

definition uu_fake_ata_status :: "'a io_vm_scheme \<Rightarrow> vmerr \<times> 'a io_vm_scheme" where
  "uu_fake_ata_status s =
     (let ata = dev_ata_st s
      in if unat (ata_last_out ata) = unat (ata_base ata) + 7 then (VM_DONE, set_rax_low [1] s)
         else if unat (ata_last_out ata) = unat (ata_base ata) + 6 then (VM_DONE, set_rax_low [0] s)
         else (VM_FAIL, s))"

definition uu_dev_ata_status :: "'a io_env \<Rightarrow> io_insn \<Rightarrow> 'a io_vm_scheme \<Rightarrow> vmerr \<times> 'a io_vm_scheme" where
  "uu_dev_ata_status env io s =
     (if \<not> uu_rmode s \<and> bit (ata_dev_head (dev_ata_st s)) 4 then uu_fake_ata_status s
      else dev_io_proxify (env_pio env) dev_flt io s)"

definition uu_dev_ata_alt_status :: "'a io_env \<Rightarrow> io_insn \<Rightarrow> 'a io_vm_scheme \<Rightarrow> vmerr \<times> 'a io_vm_scheme" where
  "uu_dev_ata_alt_status env io s =
     (if \<not> uu_rmode s \<and> bit (ata_dev_head (dev_ata_st s)) 4 then uu_fake_ata_status s
      else dev_io_proxify (env_pio env) dev_flt io s)"

definition uu_dev_ata_data :: "'a io_env \<Rightarrow> io_insn \<Rightarrow> 'a io_vm_scheme \<Rightarrow> vmerr \<times> 'a io_vm_scheme" where
  "uu_dev_ata_data env io s =
     (let cmd = ata_cmd (dev_ata_st s)
      in if cmd \<noteq> ATA_READ_SECTOR_CMD \<and> cmd \<noteq> ATA_WRITE_SECTOR_CMD
         then dev_io_proxify (env_pio env) dev_flt io s
         else (let (rc, s) = dev_io_proxify (env_pio env) dev_flt io s
               in (rc, if rc = VM_DONE
                       then ata_upd (\<lambda>a. a\<lparr>ata_lba := ata_lba a + 1, ata_cnt := ata_cnt a - 1\<rparr>) s else s)))"

definition dev_ata :: "'a io_env \<Rightarrow> io_insn \<Rightarrow> 'a io_vm_scheme \<Rightarrow> vmerr \<times> 'a io_vm_scheme" where
  "dev_ata env io s =
     (let s = (if \<not> ins_in io then ata_upd (\<lambda>a. a\<lparr>ata_last_out := ins_port io\<rparr>) s else s);
          base = unat (ata_base (dev_ata_st s)); port = unat (ins_port io)
      in if port = base + 7
         then (if ins_in io then uu_dev_ata_status env io s else proxify env io (Some FltAtaCmd) s)
         else if port = base + 0x206
         then (if ins_in io then uu_dev_ata_alt_status env io s else dev_io_proxify (env_pio env) dev_flt io s)
         else if port = base + 6 then uu_dev_ata_device env io s
         else if port = base then uu_dev_ata_data env io s
         else if port = base + 2 then proxify env io (Some FltAtaScnt) s
         else if port = base + 3 \<or> port = base + 4 \<or> port = base + 5 then proxify env io (Some FltAtaLba) s
         else dev_io_proxify (env_pio env) dev_flt io s)"

section \<open>Super I/O, configuration space and power control\<close>

definition dev_sio :: "'a io_env \<Rightarrow> io_insn \<Rightarrow> 'a io_vm_scheme \<Rightarrow> vmerr \<times> 'a io_vm_scheme" where
  "dev_sio env io s =
     (let s = (if ins_port io = SIO_INDEX then s\<lparr>sio_filter := Some FltSioIndex\<rparr>
               else if ins_port io = SIO_DATA then s else s\<lparr>sio_filter := None\<rparr>)
      in proxify env io (sio_filter s) s)"

definition dev_pci :: "'a io_env \<Rightarrow> io_insn \<Rightarrow> 'a io_vm_scheme \<Rightarrow> vmerr \<times> 'a io_vm_scheme" where
  "dev_pci env io s =
     (let s = (if ins_port io = PCI_CONFIG_ADDR then s\<lparr>pci_filter := Some FltPciAddr\<rparr>
               else if ins_port io = PCI_CONFIG_DATA then s else s\<lparr>pci_filter := None\<rparr>)
      in proxify env io (pci_filter s) s)"

text \<open>The register \<^verbatim>\<open>reg\<close> on the stack of the vmm has two bytes.\<close>

definition dev_acpi_pm1_ctl :: "'a io_env \<Rightarrow> io_insn \<Rightarrow> 'a io_vm_scheme \<Rightarrow> vmerr \<times> bytes \<times> 'a io_vm_scheme" where
  "dev_acpi_pm1_ctl env io s =
     (let reg = take 2 (env_junk env)
      in if ins_in io
         then (let (rc, reg, s) = dev_io_native (env_pio env) io reg s
               in if rc \<noteq> VM_DONE then (rc, reg, s)
                  else (let (rc, sz, reg, s) = dev_io_insn io reg (io_size_of 2) s in (rc, reg, s)))
         else (let (rc, sz, reg, s) = dev_io_insn io reg (io_size_of 2) s
               in if rc \<noteq> VM_DONE then (rc, reg, s)
                  else (let v = of_le_bytes (take 2 reg) :: u16
                        in if bit v 13 \<and> ucast (get_field 10 3 v) = acpi_s3 s
                           then (let (rc, s) = env_wake env (snd (ctrl_evt_suspend s)) in (rc, reg, s))
                           else dev_io_native (env_pio env) io reg s)))"

section \<open>Dispatch\<close>

definition io_range :: "u16 \<Rightarrow> nat \<Rightarrow> nat \<Rightarrow> bool" where
  "io_range p a b = (a \<le> unat p \<and> unat p \<le> b)"

definition dev_access :: "'a io_env \<Rightarrow> 'a io_vm_scheme \<Rightarrow> (vmerr \<times> 'a io_vm_scheme) option" where
  "dev_access env s =
     (let (rc, io) = uu_vmx_io_init s; p = ins_port io
      in if rc \<noteq> VM_DONE then Some (rc, s)
         else if p = PCI_CONFIG_ADDR \<or> p = PCI_CONFIG_DATA then Some (dev_pci env io s)
         else if p = SIO_INDEX \<or> p = SIO_DATA then Some (dev_sio env io s)
         else if ucast p = acpi_pm1_port s then Some (let (rc, reg, s) = dev_acpi_pm1_ctl env io s in (rc, s))
         else if p = 0x92 then dev_ps2 io s
         else if io_range p 0x60 0x6f then Some (dev_kbd (env_pio env) io s)
         else if io_range p 0x3f8 0x3ff then dev_uart io s
         else if io_range p 0x1f0 0x1f7 \<or> p = 0x3f6 then Some (dev_ata env io s)
         else Some (dev_io_proxify (env_pio env) dev_flt io s))"

definition vmx_vmexit_resolve_io :: "'a io_env \<Rightarrow> 'a io_vm_scheme \<Rightarrow> (vmerr \<times> 'a io_vm_scheme) option" where
  "vmx_vmexit_resolve_io env s =
     map_option (\<lambda>(rc, s). if rc \<noteq> VM_DONE then (rc, s) else emulate_done VM_DONE (exit_insn_len s) s)
       (dev_access env s)"


section \<open>The pool of the pass-through\<close>

lemma put_u32_length: "4 \<le> length dev \<Longrightarrow> length (put_u32 v dev) = length dev"
  by (simp add: put_u32_def)

lemma dev_flt_ran:
  assumes "dev_flt f dev s = (rc, dev', s')" and "4 \<le> length dev"
  shows "length dev' = length dev \<and> io_pool s' = io_pool s"
  using assms put_u32_length
  by (cases f) (auto simp: uu_dev_sio_filter_index_def uu_dev_sio_filter_com1_def uu_dev_pci_filter_addr_def
      uu_dev_pci_filter_e1000_def uu_dev_pci_filter_dvd_e1000_def uu_dev_pci_filter_cmd_sts_e1000_def
      uu_dev_pci_filter_dvd_ehci_def uu_dev_pci_filter_ehci_def
      uu_dev_ata_cmd_filter_def uu_dev_ata_scnt_filter_def uu_dev_ata_lba_filter_def ata_upd_def
      vmx_allow_io_def vmx_deny_io_def Let_def split: if_splits prod.splits option.splits)

definition io_bytes :: "io_insn \<Rightarrow> nat" where
  "io_bytes io = unat (ins_sz io) * (if ins_s io then unat (ins_cnt io) else 1)"

definition io_native_ok :: "io_insn \<Rightarrow> bool" where
  "io_native_ok io = (\<not> (if ins_s io then ins_back io else ins_rep io))"

lemma native_rc:
  "dev_io_native pio io dev s = (rc, dev', s') \<Longrightarrow> rc = (if io_native_ok io then VM_DONE else VM_FAIL)"
  by (auto simp: io_native_ok_def dev_io_native_def uu_io_string_native_def uu_io_simple_native_def Let_def split: if_splits prod.splits)

lemma proxy_in_pool:
  assumes "uu_dev_io_proxy_filter_in pio dev_flt io flt dev sz s = (rc, dev', s')"
    and "unat (ins_sz io) \<in> {1, 2, 4}" and "4 \<le> length dev" and "unat (sz_available sz) \<le> length dev" and "ins_in io"
  shows "length dev' = (if io_native_ok io then max (io_bytes io) (length dev) else length dev)"
proof -
  obtain rc1 d1 s1 where n: "dev_io_native pio io dev s = (rc1, d1, s1)" by (metis prod_cases3)
  note r = native_rc [OF n] dev_io_native_ran [OF n assms(2)]
  show ?thesis
  proof (cases "io_native_ok io")
    case False
    then have "rc1 = VM_FAIL" "length d1 = length dev" using r by (simp_all add: vmerr_defs)
    then show ?thesis using assms(1) n False by (auto simp: uu_dev_io_proxy_filter_in_def Let_def vmerr_defs)
  next
    case True
    then have d1: "rc1 = VM_DONE" "length d1 = max (io_bytes io) (length dev)"
      using r assms(5) by (simp_all add: io_bytes_def)
    obtain frc d2 s2 where f: "(case flt of Some f \<Rightarrow> dev_flt f d1 s1 | None \<Rightarrow> (0, d1, s1)) = (frc, d2, s2)"
      by (metis prod_cases3)
    have d2: "length d2 = length d1"
      using f dev_flt_ran [of _ d1 s1] d1 assms(3) by (auto split: option.splits)
    obtain rc3 sz3 d3 s3 where i: "dev_io_insn io d2 sz s2 = (rc3, sz3, d3, s3)" by (metis prod.collapse)
    have d3: "length d3 = length d2" using dev_io_insn_ran [OF i] d2 d1 assms(4) by simp
    have "dev' = d2 \<or> dev' = d3"
      using assms(1) n d1 f i by (auto simp: uu_dev_io_proxy_filter_in_def Let_def split: if_splits)
    with True d1 d2 d3 show ?thesis by auto
  qed
qed

lemma proxy_out_pool:
  assumes "uu_dev_io_proxy_filter_out pio dev_flt io flt dev sz s = (rc, dev', s')"
    and "unat (ins_sz io) \<in> {1, 2, 4}" and "4 \<le> length dev" and "unat (sz_available sz) \<le> length dev" and "\<not> ins_in io"
  shows "length dev' = length dev"
proof -
  obtain rc1 sz1 d1 s1 where i: "dev_io_insn io dev sz s = (rc1, sz1, d1, s1)" by (metis prod.collapse)
  have d1: "length d1 = length dev" using dev_io_insn_ran [OF i assms(4)] by simp
  obtain rc2 d2 s2 where f: "(case flt of Some f \<Rightarrow> dev_flt f d1 s1 | None \<Rightarrow> (rc1, d1, s1)) = (rc2, d2, s2)"
    by (metis prod_cases3)
  have d2: "length d2 = length dev"
    using f dev_flt_ran [of _ d1 s1] d1 assms(3) by (auto split: option.splits)
  obtain rc3 d3 s3 where n: "dev_io_native pio io d2 s2 = (rc3, d3, s3)" by (metis prod_cases3)
  have d3: "length d3 = length dev" using dev_io_native_ran(1) [OF n assms(2)] assms(5) d2 by simp
  have "dev' = d1 \<or> dev' = d2 \<or> dev' = d3"
    using assms(1) i f n by (auto simp: uu_dev_io_proxy_filter_out_def Let_def split: if_splits)
  with d1 d2 d3 show ?thesis by auto
qed

text \<open>The pool after a transfer through the vmm: it grows past its size exactly when the bytes
  read do not fit, while the test of the code is on their number modulo \<open>2 ^ 64\<close>.\<close>

lemma proxify_pool:
  assumes "dev_io_proxify_filter pio dev_flt io flt s = (rc, s')" and "unat (ins_sz io) \<in> {1, 2, 4}"
    and "length (io_pool s) = 16384"
  shows "length (io_pool s') = (if ucast (ins_sz io) * ins_cnt io \<le> VMM_IO_POOL_SZ \<and> ins_in io \<and> io_native_ok io
      then max (io_bytes io) 16384 else 16384)"
proof (cases "ucast (ins_sz io) * ins_cnt io \<le> VMM_IO_POOL_SZ")
  case False
  then show ?thesis using assms(1,3) by (auto simp: dev_io_proxify_filter_def Let_def not_le)
next
  case True
  define sz where "sz = \<lparr>sz_available = ucast (ins_sz io) * ins_cnt io, sz_done = 0, sz_miss = 0\<rparr>"
  have av: "unat (sz_available sz) \<le> length (io_pool s)"
    using True assms(3) by (simp add: sz_def word_le_nat_alt VMM_IO_POOL_SZ_def PAGE_SIZE_def)
  have l4: "4 \<le> length (io_pool s)" using assms(3) by simp
  show ?thesis
  proof (cases "ins_in io")
    case in': True
    obtain rc1 d t where p: "uu_dev_io_proxy_filter_in pio dev_flt io flt (io_pool s) sz s = (rc1, d, t)"
      by (metis prod_cases3)
    have "io_pool s' = d"
      using assms(1) True in' p by (auto simp: dev_io_proxify_filter_def Let_def sz_def not_le [symmetric])
    with proxy_in_pool [OF p assms(2) l4 av in'] True in' assms(3) show ?thesis by simp
  next
    case out: False
    obtain rc1 d t where p: "uu_dev_io_proxy_filter_out pio dev_flt io flt (io_pool s) sz s = (rc1, d, t)"
      by (metis prod_cases3)
    have "io_pool s' = d"
      using assms(1) True out p by (auto simp: dev_io_proxify_filter_def Let_def sz_def not_le [symmetric])
    with proxy_out_pool [OF p assms(2) l4 av out] out assms(3) show ?thesis by simp
  qed
qed


section \<open>Single bytes\<close>

definition byte_io :: "bool \<Rightarrow> io_insn \<Rightarrow> bool" where
  "byte_io dir io \<longleftrightarrow> ins_in io = dir \<and> \<not> ins_s io \<and> \<not> ins_rep io \<and> ins_sz io = 1"

lemma le_bytes_1: "le_bytes (Suc 0) x = [ucast x]"
  by (simp add: le_bytes_def)

lemma byte_out:
  assumes "byte_io False io" and "sz_available sz \<noteq> 0"
  shows "dev_io_insn io dev sz s = (VM_DONE, \<lparr>sz_available = sz_available sz - 1, sz_done = 1, sz_miss = 0\<rparr>,
     put_bytes [rax_blow s] dev, s)"
  using assms by (simp add: byte_io_def dev_io_insn_def uu_io_insn_simple_def Let_def rax_low_def rax_blow_def le_bytes_1 not_less)

lemma byte_in:
  assumes "byte_io True io" and "sz_available sz \<noteq> 0"
  shows "dev_io_insn io dev sz s = (VM_DONE, \<lparr>sz_available = sz_available sz - 1, sz_done = 1, sz_miss = 0\<rparr>,
     dev, set_rax_low (take 1 dev) s)"
  using assms by (simp add: byte_io_def dev_io_insn_def uu_io_insn_simple_def Let_def not_less)

lemma byte_full:
  assumes "byte_io dir io" and "sz_available sz = 0"
  shows "fst (dev_io_insn io dev sz s) = VM_FAIL"
  using assms by (simp add: byte_io_def dev_io_insn_def uu_io_insn_simple_def Let_def)

lemma rax_blow_set [simp]:
  "length (vm_gpr s) = 16 \<Longrightarrow> rax_blow (set_rax_low [b] s) = b"
  by (rule bit_eqI) (simp add: rax_blow_def set_rax_low_def GPR64_RAX_def GPR64_RSP_def bit_simps bit_set_field)

lemma set_rax_low_sel [simp]:
  "length (vm_gpr (set_rax_low bs s)) = length (vm_gpr s)"
  by (simp add: set_rax_low_def)

lemma set_rax_low_io [simp]:
  "pio_log (set_rax_low bs s) = pio_log s" "dev_uart_st (set_rax_low bs s) = dev_uart_st s"
  "dev_kbd_st (set_rax_low bs s) = dev_kbd_st s" "tx_out (set_rax_low bs s) = tx_out s"
  "dev_a20 (set_rax_low bs s) = dev_a20 s" "io_pool (set_rax_low bs s) = io_pool s"
  "pci_filter (set_rax_low bs s) = pci_filter s" "net_pci_addr (set_rax_low bs s) = net_pci_addr s"
  "io_denied (set_rax_low bs s) = io_denied s"
  by (simp_all add: set_rax_low_def set_gpr_def)

section \<open>The serial port\<close>

definition uart_ok :: "'a io_vm_scheme \<Rightarrow> bool" where
  "uart_ok s \<longleftrightarrow> length (uart_buffer (dev_uart_st s)) = 64 \<and> uart_index (dev_uart_st s) < 64
     \<and> \<not> bit (uart_lcr (dev_uart_st s)) 7 \<and> length (vm_gpr s) = 16"

text \<open>What the guest has sent: the bytes already written out, and those in the buffer.\<close>

definition uart_stream :: "'a io_vm_scheme \<Rightarrow> bytes" where
  "uart_stream s = tx_out s @ take (unat (uart_index (dev_uart_st s))) (uart_buffer (dev_uart_st s))"

text \<open>The guest sends bytes one after the other, and stops at a failure.\<close>

fun uart_puts :: "io_insn \<Rightarrow> bytes \<Rightarrow> 'a io_vm_scheme \<Rightarrow> 'a io_vm_scheme option" where
  "uart_puts io [] s = Some s"
| "uart_puts io (b # bs) s =
     Option.bind (dev_uart io (set_rax_low [b] s)) (\<lambda>(rc, s). if rc = VM_DONE then uart_puts io bs s else None)"

lemma uart_room: "i < 64 \<Longrightarrow> (ucast (DEV_UART_BUFF_LEN - i) :: u64) \<noteq> 0"
proof -
  assume i: "i < 64"
  then have "unat (64 - i) = 64 - unat i" by (subst unat_sub) (simp_all add: word_le_nat_alt word_less_nat_alt)
  then have "unat (ucast (64 - i) :: u64) = 64 - unat i" by (simp add: unsigned_ucast_eq take_bit_eq_mod)
  then show ?thesis using i by (auto simp: DEV_UART_BUFF_LEN_def word_less_nat_alt)
qed

lemma uart_put_step:
  assumes ok: "uart_ok s" and io: "byte_io False io" and p: "ins_port io = uart_base (dev_uart_st s)"
  obtains s' where "dev_uart io s = Some (VM_DONE, s')" "uart_ok s'" "uart_stream s' = uart_stream s @ [rax_blow s]"
    "uart_base (dev_uart_st s') = uart_base (dev_uart_st s)"
proof -
  define u where "u = dev_uart_st s"
  have u: "length (uart_buffer u) = 64" "uart_index u < 64" "\<not> bit (uart_lcr u) 7" using ok by (simp_all add: uart_ok_def u_def)
  define i where "i = unat (uart_index u)"
  have i: "i < 64" using u(2) by (simp add: i_def word_less_nat_alt)
  have av: "(ucast (DEV_UART_BUFF_LEN - uart_index u) :: u64) \<noteq> 0" using u(2) by (rule uart_room)
  define b where "b = take i (uart_buffer u) @ put_bytes [rax_blow s] (drop i (uart_buffer u))"
  have b: "length b = 64" "take (Suc i) b = take i (uart_buffer u) @ [rax_blow s]"
    using u(1) i by (simp_all add: b_def put_bytes_def)
  have inc: "unat (uart_index u + 1) = Suc i"
    using i by (simp add: i_def unat_word_ariths)
  define s1 where "s1 = s\<lparr>dev_uart_st := u\<lparr>uart_buffer := b, uart_index := uart_index u + 1\<rparr>\<rparr>"
  define s2 where "s2 = (if uart_index u + 1 \<ge> 64
     then s\<lparr>dev_uart_st := u\<lparr>uart_buffer := b, uart_index := 0\<rparr>, tx_out := tx_out s @ b\<rparr> else s1)"
  have io': "dev_io_insn io (drop i (uart_buffer u)) (io_size_of (ucast (DEV_UART_BUFF_LEN - uart_index u))) s
      = (VM_DONE, \<lparr>sz_available = ucast (DEV_UART_BUFF_LEN - uart_index u) - 1, sz_done = 1, sz_miss = 0\<rparr>,
         put_bytes [rax_blow s] (drop i (uart_buffer u)), s)"
    using byte_out [OF io, of "io_size_of (ucast (DEV_UART_BUFF_LEN - uart_index u))" "drop i (uart_buffer u)" s] av
    by (simp add: io_size_of_def)
  have st: "uart_xfr_step io s = (VM_DONE, 0, s2)"
    unfolding uart_xfr_step_def Let_def u_def [symmetric] i_def [symmetric] io'
    using io b(1) by (simp add: uart_upd_def u_def [symmetric] b_def [symmetric] s2_def s1_def DEV_UART_BUFF_LEN_def
        uu_dev_uart_flush_def Let_def byte_io_def)
  have "dev_uart io s = Some (VM_DONE, s2)"
    using u(3) p st by (simp add: dev_uart_def Let_def u_def [symmetric] uu_dev_uart_xfr.simps)
  moreover have "uart_ok s2"
    using u b(1) inc ok by (auto simp: uart_ok_def s2_def s1_def not_le)
  moreover have "uart_stream s2 = uart_stream s @ [rax_blow s]"
  proof (cases "uart_index u + 1 \<ge> 64")
    case True
    then have "i = 63" using i inc by (simp add: word_le_nat_alt)
    with b have "b = take i (uart_buffer u) @ [rax_blow s]" by simp
    with True show ?thesis by (simp add: uart_stream_def s2_def u_def i_def)
  next
    case False
    then show ?thesis using b inc by (simp add: uart_stream_def s2_def s1_def u_def [symmetric] i_def [symmetric])
  qed
  ultimately show thesis using that by (simp add: s2_def s1_def u_def)
qed

lemma uart_puts_stream:
  assumes "uart_ok s" and "byte_io False io" and "ins_port io = uart_base (dev_uart_st s)"
  shows "\<exists>s'. uart_puts io bs s = Some s' \<and> uart_ok s' \<and> uart_stream s' = uart_stream s @ bs
     \<and> uart_base (dev_uart_st s') = uart_base (dev_uart_st s)"
  using assms
proof (induction bs arbitrary: s)
  case (Cons b bs)
  let ?t = "set_rax_low [b] s"
  have t: "uart_ok ?t" "uart_stream ?t = uart_stream s" "rax_blow ?t = b" "ins_port io = uart_base (dev_uart_st ?t)"
    using Cons.prems by (simp_all add: uart_ok_def uart_stream_def)
  from uart_put_step [OF t(1) Cons.prems(2) t(4)] obtain s' where s': "dev_uart io ?t = Some (VM_DONE, s')" "uart_ok s'"
    "uart_stream s' = uart_stream s @ [b]" "uart_base (dev_uart_st s') = uart_base (dev_uart_st s)"
    using t(2,3) by auto
  with Cons.IH [OF s'(2) Cons.prems(2)] Cons.prems(3) show ?case by simp
qed simp

text \<open>C32: while the index of the serial port is in its buffer and the divisor latch is off, and the
  guest only writes to the data port, the port is a reliable stream: every byte of such a sequence of
  one-byte writes is accepted, and comes out in that order, once, either already written out or
  among the fewer than sixty-four bytes of the buffer. Reads of the data port are not part of the
  sequence: they advance the same index (\<open>uart_reads_wedge\<close>).\<close>

theorem uart_stream_refines:
  assumes "uart_ok s" and "byte_io False io" and "ins_port io = uart_base (dev_uart_st s)"
  shows "\<exists>s'. uart_puts io bs s = Some s' \<and> uart_stream s' = uart_stream s @ bs
     \<and> length (uart_stream s') < length (tx_out s') + 64"
  using uart_puts_stream [OF assms, of bs]
  by (auto simp: uart_ok_def uart_stream_def word_less_nat_alt)

lemma uart_get_step:
  assumes "uart_index (dev_uart_st s) < 64" and "length (uart_buffer (dev_uart_st s)) = 64"
    and lcr: "\<not> bit (uart_lcr (dev_uart_st s)) 7"
    and io: "byte_io True io" and p: "ins_port io = uart_base (dev_uart_st s)"
  obtains s' where "dev_uart io s = Some (VM_DONE, s')"
    "dev_uart_st s' = (dev_uart_st s)\<lparr>uart_index := uart_index (dev_uart_st s) + 1\<rparr>"
proof -
  define u where "u = dev_uart_st s"
  define i where "i = unat (uart_index u)"
  have i: "i < 64" using assms(1) by (simp add: i_def u_def word_less_nat_alt)
  have inc: "unat (uart_index u + 1) = Suc i" using i by (simp add: i_def unat_word_ariths)
  have av: "(ucast (DEV_UART_BUFF_LEN - uart_index u) :: u64) \<noteq> 0" unfolding u_def using assms(1) by (rule uart_room)
  define s1 where "s1 = (set_rax_low (take 1 (drop i (uart_buffer u))) s)\<lparr>dev_uart_st := u\<lparr>uart_index := uart_index u + 1\<rparr>\<rparr>"
  have io': "dev_io_insn io (drop i (uart_buffer u)) (io_size_of (ucast (DEV_UART_BUFF_LEN - uart_index u))) s
      = (VM_DONE, \<lparr>sz_available = ucast (DEV_UART_BUFF_LEN - uart_index u) - 1, sz_done = 1, sz_miss = 0\<rparr>,
         drop i (uart_buffer u), set_rax_low (take 1 (drop i (uart_buffer u))) s)"
    using byte_in [OF io, of "io_size_of (ucast (DEV_UART_BUFF_LEN - uart_index u))" "drop i (uart_buffer u)" s] av
    by (simp add: io_size_of_def)
  have full: "uart_index u + 1 = 64" if "64 \<le> uart_index u + 1"
    using that inc i by (simp add: word_unat_eq_iff word_le_nat_alt)
  have st: "uart_xfr_step io s = (VM_DONE, 0, s1)"
    unfolding uart_xfr_step_def Let_def u_def [symmetric] i_def [symmetric] io'
    using io full by (simp add: uart_upd_def u_def [symmetric] s1_def DEV_UART_BUFF_LEN_def Let_def byte_io_def)
  have "dev_uart io s = Some (VM_DONE, s1)"
    using lcr p st by (simp add: dev_uart_def Let_def u_def [symmetric] uu_dev_uart_xfr.simps)
  then show thesis using that by (simp add: s1_def u_def)
qed

lemma uart_full_fails:
  assumes "uart_index (dev_uart_st s) = 64" and "\<not> bit (uart_lcr (dev_uart_st s)) 7"
    and "byte_io d io" and "ins_port io = uart_base (dev_uart_st s)"
  shows "\<exists>s'. dev_uart io s = Some (VM_FAIL, s')"
proof -
  obtain rc sz dev s' where r: "dev_io_insn io (drop 64 (uart_buffer (dev_uart_st s))) (io_size_of 0) s = (rc, sz, dev, s')"
    by (metis prod.collapse)
  then have "rc = VM_FAIL"
    using byte_full [OF assms(3), of "io_size_of 0" "drop 64 (uart_buffer (dev_uart_st s))" s] by (simp add: io_size_of_def)
  then show ?thesis
    using r assms by (simp add: dev_uart_def uu_dev_uart_xfr.simps uart_xfr_step_def Let_def DEV_UART_BUFF_LEN_def vmerr_defs)
qed

text \<open>The guest reads the data port \<open>n\<close> times.\<close>

fun uart_gets :: "io_insn \<Rightarrow> nat \<Rightarrow> 'a io_vm_scheme \<Rightarrow> 'a io_vm_scheme option" where
  "uart_gets io 0 s = Some s"
| "uart_gets io (Suc n) s =
     Option.bind (dev_uart io s) (\<lambda>(rc, s). if rc = VM_DONE then uart_gets io n s else None)"

lemma uart_gets_run:
  assumes "length (uart_buffer (dev_uart_st s)) = 64" and "\<not> bit (uart_lcr (dev_uart_st s)) 7"
    and "byte_io True io" and "ins_port io = uart_base (dev_uart_st s)" and "unat (uart_index (dev_uart_st s)) + n \<le> 64"
  shows "\<exists>s'. uart_gets io n s = Some s'
     \<and> dev_uart_st s' = (dev_uart_st s)\<lparr>uart_index := uart_index (dev_uart_st s) + of_nat n\<rparr>"
  using assms
proof (induction n arbitrary: s)
  case (Suc n)
  have lt: "uart_index (dev_uart_st s) < 64" using Suc.prems(5) by (simp add: word_less_nat_alt)
  from uart_get_step [OF lt Suc.prems(1-4)] obtain s1 where s1: "dev_uart io s = Some (VM_DONE, s1)"
    "dev_uart_st s1 = (dev_uart_st s)\<lparr>uart_index := uart_index (dev_uart_st s) + 1\<rparr>" by blast
  have inc: "unat (uart_index (dev_uart_st s) + 1) = Suc (unat (uart_index (dev_uart_st s)))"
    using lt by (simp add: word_less_nat_alt unat_word_ariths)
  have "\<exists>s'. uart_gets io n s1 = Some s'
     \<and> dev_uart_st s' = (dev_uart_st s1)\<lparr>uart_index := uart_index (dev_uart_st s1) + of_nat n\<rparr>"
    using Suc.prems inc by (intro Suc.IH) (simp_all add: s1)
  with s1 show ?case by (auto simp: add.assoc)
qed simp

text \<open>Reading the data port advances the index that the written bytes share, and never takes
  it back: when the reads and the pending bytes add up to sixty-four the port is wedged, and
  every further byte the guest sends or asks for is a failure of the vmm.\<close>

theorem uart_reads_wedge:
  assumes "uart_ok s" and "byte_io True io" and "ins_port io = uart_base (dev_uart_st s)"
    and "byte_io d io'" and "ins_port io' = ins_port io"
    and "n = 64 - unat (uart_index (dev_uart_st s))"
  shows "\<exists>s'. uart_gets io n s = Some s' \<and> (\<exists>s''. dev_uart io' s' = Some (VM_FAIL, s''))"
proof -
  have le: "unat (uart_index (dev_uart_st s)) < 64" using assms(1) by (simp add: uart_ok_def word_less_nat_alt)
  obtain s' where s': "uart_gets io n s = Some s'"
    "dev_uart_st s' = (dev_uart_st s)\<lparr>uart_index := uart_index (dev_uart_st s) + of_nat n\<rparr>"
    using uart_gets_run [of s io n] assms le by (auto simp: uart_ok_def)
  have "uart_index (dev_uart_st s) + of_nat n = 64"
    using le assms(6) by (intro unsigned_word_eqI) (simp add: unat_word_ariths unat_of_nat take_bit_eq_mod)
  with s' uart_full_fails [of s' d io'] assms show ?thesis by (auto simp: uart_ok_def)
qed

section \<open>Address line 20\<close>

lemma set_rax_low_1 [simp]: "rax_blow (kbd_upd f s) = rax_blow s" "rax_blow (dev_a20_set a s) = rax_blow s"
  "rax_blow (pio_out p bs s) = rax_blow s" "vm_gpr (kbd_upd f s) = vm_gpr s" "vm_gpr (dev_a20_set a s) = vm_gpr s"
  "vm_gpr (pio_out p bs s) = vm_gpr s" "rax_blow (s\<lparr>pio_log := l\<rparr>) = rax_blow s"
  by (simp_all add: rax_blow_def kbd_upd_def dev_a20_set_def pio_out_def get_gpr_def)

lemma kbd_log [simp]: "pio_log (kbd_upd f s) = pio_log s" "pio_log (dev_a20_set a s) = pio_log s"
  "pio_log (pio_out p bs s) = pio_log s @ [PioOut p bs]" "dev_kbd_st (kbd_upd f s) = f (dev_kbd_st s)"
  "dev_kbd_st (dev_a20_set a s) = dev_kbd_st s" "dev_kbd_st (pio_out p bs s) = dev_kbd_st s"
  "dev_a20 (dev_a20_set a s) = a" "dev_a20 (pio_out p bs s) = dev_a20 s"
  by (simp_all add: kbd_upd_def dev_a20_set_def pio_out_def)

text \<open>The guest writes \<open>v\<close> to the output port of the keyboard controller, and reads that port back.\<close>

definition kbd_write_port :: "pio \<Rightarrow> io_insn \<Rightarrow> u8 \<Rightarrow> 'a io_vm_scheme \<Rightarrow> 'a io_vm_scheme" where
  "kbd_write_port pio io v s =
     (let s = snd (dev_kbd pio (io\<lparr>ins_in := False, ins_port := KBD_CTRL_PORT\<rparr>) (set_rax_low [KBD_CMD_WRITE_O_PORT] s))
      in snd (dev_kbd pio (io\<lparr>ins_in := False, ins_port := KBD_DATA_PORT\<rparr>) (set_rax_low [v] s)))"

definition kbd_read_port :: "pio \<Rightarrow> io_insn \<Rightarrow> 'a io_vm_scheme \<Rightarrow> 'a io_vm_scheme" where
  "kbd_read_port pio io s =
     (let s = snd (dev_kbd pio (io\<lparr>ins_in := False, ins_port := KBD_CTRL_PORT\<rparr>) (set_rax_low [KBD_CMD_READ_O_PORT] s))
      in snd (dev_kbd pio (io\<lparr>ins_in := True, ins_port := KBD_DATA_PORT\<rparr>) s))"

lemmas kbd_defs = dev_kbd_def uu_dev_kbd_ctrl_def uu_dev_kbd_data_def KBD_CTRL_PORT_def KBD_DATA_PORT_def
  KBD_CMD_WRITE_O_PORT_def KBD_CMD_READ_O_PORT_def KBD_OUTPUT_PORT_A20_def rax_out_def rax_in_def pio_in_def Let_def

lemma kbd_write_port_run:
  assumes "length (vm_gpr s) = 16" and "t = kbd_write_port pio io v s"
  shows "dev_a20 t = get_field 1 1 v" "pio_log t = pio_log s @ [PioOut 0x64 [0xd1], PioOut 0x60 [v OR 2]]"
    "rax_blow t = v OR 2" "kbd_output_port (dev_kbd_st t) = v" "length (vm_gpr t) = 16"
proof -
  have *: "v OR 2 = v" if "bit v (Suc 0)"
    using that by (intro bit_eqI) (auto simp: bit_simps simp flip: bit_exp_iff [of 1])
  show "dev_a20 t = get_field 1 1 v" "kbd_output_port (dev_kbd_st t) = v" "length (vm_gpr t) = 16"
    using assms by (simp_all add: kbd_write_port_def kbd_defs)
  show "pio_log t = pio_log s @ [PioOut 0x64 [0xd1], PioOut 0x60 [v OR 2]]" "rax_blow t = v OR 2"
    using assms * by (simp_all add: kbd_write_port_def kbd_defs)
qed

text \<open>The guest believes that it controls address line 20 through the keyboard controller, and
  never does. The line the controller is given stays on, whatever the guest writes to the
  output port; the value the vmm remembers for the line is the one written; and a read of the
  port answers the remembered bit, the other bits being those of the controller. The write
  itself leaves the bit set in the guest's \<^verbatim>\<open>al\<close>.\<close>

theorem kbd_a20_virtual:
  assumes "length (vm_gpr s) = 16"
  shows "pio_log (kbd_write_port pio io v s) = pio_log s @ [PioOut 0x64 [0xd1], PioOut 0x60 [v OR 2]]
    \<and> dev_a20 (kbd_write_port pio io v s) = get_field 1 1 v
    \<and> rax_blow (kbd_write_port pio io v s) = v OR 2
    \<and> (let t = kbd_write_port pio io v s;
          ans = ucast (pio (pio_log t @ [PioOut 0x64 [0xd0]]) 0x60 1) :: u8;
          got = rax_blow (kbd_read_port pio io t)
       in (bit got 1 \<longleftrightarrow> bit v 1) \<and> (\<forall>k. k \<noteq> 1 \<longrightarrow> (bit got k \<longleftrightarrow> bit ans k)))"
proof -
  define t where "t = kbd_write_port pio io v s"
  note w = kbd_write_port_run [OF assms t_def]
  define ans where "ans = (ucast (pio (pio_log t @ [PioOut 0x64 [0xd0]]) 0x60 1) :: u8)"
  have "rax_blow (kbd_read_port pio io t) = (ans AND NOT 2) OR (if bit v 1 then 2 else 0)"
    using w(4,5) by (simp add: kbd_read_port_def kbd_defs ans_def le_bytes_1)
  moreover have "bit ((ans AND NOT 2) OR (if bit v 1 then 2 else 0)) 1 \<longleftrightarrow> bit v 1"
    by (simp add: bit_simps)
  moreover have "bit ((ans AND NOT 2) OR (if bit v 1 then 2 else 0)) k \<longleftrightarrow> bit ans k" if "k \<noteq> 1" for k
    using that by (auto simp: bit_simps simp flip: bit_exp_iff [of 1] dest: bit_imp_le_length)
  ultimately show ?thesis using w unfolding t_def [symmetric] ans_def [symmetric] Let_def by simp
qed

section \<open>The network card of the debugger\<close>

definition dword_io :: "bool \<Rightarrow> u16 \<Rightarrow> io_insn \<Rightarrow> bool" where
  "dword_io dir p io \<longleftrightarrow> ins_in io = dir \<and> \<not> ins_s io \<and> \<not> ins_rep io \<and> ins_sz io = 4 \<and> ins_cnt io = 1 \<and> ins_port io = p"

definition rax_low32 :: "'a dbg_vm_scheme \<Rightarrow> u32" where
  "rax_low32 s = ucast (get_gpr GPR64_RAX s)"

lemma dword_out:
  assumes "dword_io False p io" and "sz_available sz = 4"
  shows "dev_io_insn io dev sz s = (VM_DONE, \<lparr>sz_available = 0, sz_done = 4, sz_miss = 0\<rparr>,
     put_u32 (rax_low32 s) dev, s)"
proof -
  have "le_bytes 4 (rax_low32 s) = le_bytes 4 (get_gpr GPR64_RAX s)"
    by (auto simp: le_bytes_def rax_low32_def bit_simps intro!: bit_eqI)
  then show ?thesis
    using assms by (simp add: dword_io_def dev_io_insn_def uu_io_insn_simple_def Let_def rax_low_def put_u32_def)
qed

lemma dword_in:
  assumes "dword_io True p io" and "sz_available sz = 4"
  shows "dev_io_insn io dev sz s = (VM_DONE, \<lparr>sz_available = 0, sz_done = 4, sz_miss = 0\<rparr>,
     dev, set_rax_low (take 4 dev) s)"
  using assms by (simp add: dword_io_def dev_io_insn_def uu_io_insn_simple_def Let_def)

lemma rax_low32_set:
  assumes "length (vm_gpr s) = 16" and "length bs = 4"
  shows "rax_low32 (set_rax_low bs s) = of_le_bytes bs"
proof -
  show ?thesis using assms
    by (intro bit_eqI) (simp add: rax_low32_def set_rax_low_def GPR64_RAX_def GPR64_RSP_def bit_simps bit_set_field bit_of_le_bytes)
qed

lemma put_u32_get [simp]: "dev_u32 (put_u32 v dev) = v" "take 4 (put_u32 v dev) = le_bytes 4 v"
proof -
  have "take_bit 32 v = v" by (intro bit_eqI) (auto simp: bit_simps)
  then show "dev_u32 (put_u32 v dev) = v"
    using of_le_bytes_le_bytes [of 4 v] by (simp add: dev_u32_def put_u32_def put_bytes_def)
  show "take 4 (put_u32 v dev) = le_bytes 4 v" by (simp add: put_u32_def put_bytes_def)
qed

lemma rax_low32_sel [simp]: "rax_low32 (s\<lparr>pci_filter := f\<rparr>) = rax_low32 s" for s :: "'a io_vm_scheme"
  by (simp add: rax_low32_def get_gpr_def)

text \<open>Two addresses of the same function, and the address of the identification of the debug
  controller, in a build that hides it.\<close>

definition pci_same :: "u32 \<Rightarrow> u32 \<Rightarrow> bool" where
  "pci_same a net \<longleftrightarrow> get_field 16 8 a = get_field 16 8 net \<and> get_field 8 3 a = get_field 8 3 net
     \<and> get_field 11 5 a = get_field 11 5 net"

definition ehci_id :: "u32 \<Rightarrow> 'a io_vm_scheme \<Rightarrow> bool" where
  "ehci_id a s \<longleftrightarrow> (case ehci_2nd s of Some (ehci, _) \<Rightarrow> pci_same a ehci \<and> get_field 0 8 a = 0 | None \<Rightarrow> False)"

lemma pci_filter_addr_step:
  fixes s :: "'a io_vm_scheme"
  assumes a: "a = dev_u32 dev" and f: "uu_dev_pci_filter_addr dev s = (rc, dev', s')"
  shows "rc = VM_DONE" "dev' = dev" "vm_gpr s' = vm_gpr s" "pio_log s' = pio_log s" "ehci_2nd s' = ehci_2nd s"
    "p \<noteq> PCI_CONFIG_DATA \<Longrightarrow> io_denied s' p = io_denied s p"
    "io_denied s' PCI_CONFIG_DATA \<longleftrightarrow> pci_same a (net_pci_addr s) \<and> get_field 0 8 a \<in> {0, 4} \<or> ehci_id a s"
    "pci_same a (net_pci_addr s) \<Longrightarrow> get_field 0 8 a = 0 \<Longrightarrow> pci_filter s' = Some FltPciDvd"
    "\<not> pci_same a (net_pci_addr s) \<Longrightarrow> ehci_id a s \<Longrightarrow> pci_filter s' = Some FltPciDvdEhci"
proof -
  define e where "e = uu_dev_pci_filter_e1000 (net_pci_addr s) a (s\<lparr>pci_addr := a\<rparr>)"
  define h where "h = (case ehci_2nd s of Some (ehci, _) \<Rightarrow> if fst e = VM_IGNORE then uu_dev_pci_filter_ehci ehci a (snd e) else e | None \<Rightarrow> e)"
  define card where "card \<longleftrightarrow> pci_same a (net_pci_addr s)"
  define g where "g = (if card \<and> get_field 0 8 a = 0 then Some FltPciDvd else if card \<and> get_field 0 8 a = 4 then Some FltPciCmdSts else pci_filter s)"
  define k where "k = (if ehci_id a s \<and> \<not> card then Some FltPciDvdEhci else g)"
  have v: "VM_DONE \<noteq> VM_IGNORE" by (simp add: vmerr_defs)
  have e: "e = (if card \<and> get_field 0 8 a \<in> {0, 4} then VM_DONE else VM_IGNORE, s\<lparr>pci_addr := a, pci_filter := g\<rparr>)"
    by (cases s) (simp add: e_def g_def card_def uu_dev_pci_filter_e1000_def pci_same_def PCI_CFG_DEV_VDR_OFFSET_def PCI_CFG_CMD_STS_OFFSET_def)
  have h: "h = (if card \<and> get_field 0 8 a \<in> {0, 4} \<or> ehci_id a s then VM_DONE else VM_IGNORE, s\<lparr>pci_addr := a, pci_filter := k\<rparr>)"
  proof (cases "ehci_2nd s")
    case (Some x)
    define b where "b \<longleftrightarrow> pci_same a (fst x) \<and> get_field 0 8 a = 0"
    have "ehci_id a s = b" using Some by (simp add: ehci_id_def b_def split_beta)
    moreover have "uu_dev_pci_filter_ehci (fst x) a u = (if b then (VM_DONE, u\<lparr>pci_filter := Some FltPciDvdEhci\<rparr>) else (VM_IGNORE, u))"
      for u :: "'a io_vm_scheme"
      by (simp add: uu_dev_pci_filter_ehci_def pci_same_def b_def PCI_CFG_DEV_VDR_OFFSET_def)
    moreover have "b \<longrightarrow> get_field 0 8 a = 0" by (simp add: b_def)
    ultimately show ?thesis using v Some by (cases b; cases card) (simp_all add: h_def e k_def split_beta)
  qed (simp add: h_def e k_def ehci_id_def)
  have s': "rc = VM_DONE" "dev' = dev" "s' = (if fst h = VM_IGNORE then vmx_allow_io PCI_CONFIG_DATA (snd h) else vmx_deny_io PCI_CONFIG_DATA (snd h))"
  proof -
    obtain er es where ee: "e = (er, es)" by fastforce
    have es: "ehci_2nd es = ehci_2nd s" "pci_addr es = a" using e ee by simp_all
    have e0: "uu_dev_pci_filter_e1000 (net_pci_addr (s\<lparr>pci_addr := a\<rparr>)) (pci_addr (s\<lparr>pci_addr := a\<rparr>)) (s\<lparr>pci_addr := a\<rparr>) = (er, es)"
      unfolding ee [symmetric] by (simp add: e_def)
    have hh: "h = (case ehci_2nd s of Some (ehci, _) \<Rightarrow> if er = VM_IGNORE then uu_dev_pci_filter_ehci ehci a es else (er, es) | None \<Rightarrow> (er, es))"
      unfolding h_def ee fst_conv snd_conv ..
    have "uu_dev_pci_filter_addr dev s = (VM_DONE, dev, if fst h = VM_IGNORE then vmx_allow_io PCI_CONFIG_DATA (snd h) else vmx_deny_io PCI_CONFIG_DATA (snd h))"
      unfolding uu_dev_pci_filter_addr_def Let_def a [symmetric] e0 prod.case es hh [symmetric] by (rule split_beta)
    then show "rc = VM_DONE" "dev' = dev" "s' = (if fst h = VM_IGNORE then vmx_allow_io PCI_CONFIG_DATA (snd h) else vmx_deny_io PCI_CONFIG_DATA (snd h))"
      using f by simp_all
  qed
  then show "rc = VM_DONE" "dev' = dev" by simp_all
  show "vm_gpr s' = vm_gpr s" "pio_log s' = pio_log s" "ehci_2nd s' = ehci_2nd s" "p \<noteq> PCI_CONFIG_DATA \<Longrightarrow> io_denied s' p = io_denied s p"
    "io_denied s' PCI_CONFIG_DATA \<longleftrightarrow> pci_same a (net_pci_addr s) \<and> get_field 0 8 a \<in> {0, 4} \<or> ehci_id a s"
    "pci_same a (net_pci_addr s) \<Longrightarrow> get_field 0 8 a = 0 \<Longrightarrow> pci_filter s' = Some FltPciDvd"
    "\<not> pci_same a (net_pci_addr s) \<Longrightarrow> ehci_id a s \<Longrightarrow> pci_filter s' = Some FltPciDvdEhci"
    using s'(3) v by (auto simp: h k_def g_def card_def vmx_allow_io_def vmx_deny_io_def)
qed

lemma pci_addr_step:
  fixes s :: "'a io_vm_scheme"
  assumes io: "dword_io False PCI_CONFIG_ADDR io" and a: "a = rax_low32 s"
    and run: "dev_pci env io s = (rc, s1)" and "length (io_pool s) = 16384"
  shows "rc = VM_DONE" "vm_gpr s1 = vm_gpr s" "length (io_pool s1) = 16384" "ehci_2nd s1 = ehci_2nd s"
    "p \<noteq> PCI_CONFIG_DATA \<Longrightarrow> io_denied s1 p = io_denied s p"
    "io_denied s1 PCI_CONFIG_DATA \<longleftrightarrow> pci_same a (net_pci_addr s) \<and> get_field 0 8 a \<in> {0, 4} \<or> ehci_id a s"
    "pci_same a (net_pci_addr s) \<Longrightarrow> get_field 0 8 a = 0 \<Longrightarrow> pci_filter s1 = Some FltPciDvd"
    "\<not> pci_same a (net_pci_addr s) \<Longrightarrow> ehci_id a s \<Longrightarrow> pci_filter s1 = Some FltPciDvdEhci"
proof -
  define s0 where "s0 = s\<lparr>pci_filter := Some FltPciAddr\<rparr>"
  obtain frc dev s2 where f0: "uu_dev_pci_filter_addr (put_u32 a (io_pool s)) s0 = (frc, dev, s2)" by (metis prod_cases3)
  note s2 = pci_filter_addr_step [OF _ f0, of a, simplified]
  have f: "uu_dev_pci_filter_addr (put_u32 a (io_pool s)) s0 = (VM_DONE, put_u32 a (io_pool s), s2)" using f0 s2(1,2) by simp
  have e: "ehci_id a s0 = ehci_id a s" by (simp add: ehci_id_def s0_def)
  have o: "dev_io_insn io (io_pool s) \<lparr>sz_available = 4, sz_done = 0, sz_miss = 0\<rparr> s0
      = (VM_DONE, \<lparr>sz_available = 0, sz_done = 4, sz_miss = 0\<rparr>, put_u32 a (io_pool s), s0)"
    by (simp add: dword_out [OF io] s0_def a)
  have s0: "io_pool s0 = io_pool s" "pci_filter s0 = Some FltPciAddr" by (simp_all add: s0_def)
  have "(rc, s1) = (VM_DONE, s2\<lparr>emu_sts := EMU_STS_NATIVE, pio_log := pio_log s2 @ [PioOut PCI_CONFIG_ADDR (le_bytes 4 a)],
      io_pool := put_u32 a (io_pool s)\<rparr>)"
    unfolding run [symmetric] dev_pci_def s0_def [symmetric]
    using io f o s0 by (simp add: dword_io_def Let_def s0_def [symmetric] dev_io_proxify_filter_def VMM_IO_POOL_SZ_def PAGE_SIZE_def
        uu_dev_io_proxy_filter_out_def dev_io_native_def uu_io_simple_native_def pio_out_def vmerr_defs)
  then show "rc = VM_DONE" "vm_gpr s1 = vm_gpr s" "length (io_pool s1) = 16384" "ehci_2nd s1 = ehci_2nd s"
    "p \<noteq> PCI_CONFIG_DATA \<Longrightarrow> io_denied s1 p = io_denied s p"
    "io_denied s1 PCI_CONFIG_DATA \<longleftrightarrow> pci_same a (net_pci_addr s) \<and> get_field 0 8 a \<in> {0, 4} \<or> ehci_id a s"
    "pci_same a (net_pci_addr s) \<Longrightarrow> get_field 0 8 a = 0 \<Longrightarrow> pci_filter s1 = Some FltPciDvd"
    "\<not> pci_same a (net_pci_addr s) \<Longrightarrow> ehci_id a s \<Longrightarrow> pci_filter s1 = Some FltPciDvdEhci"
    using s2(3-) assms(4) put_u32_length [of "io_pool s" a] e by (simp_all add: s0_def)
qed

text \<open>A read of the data port gives the guest what the filter makes of the answer of the hardware.\<close>

lemma pci_data_step:
  fixes s :: "'a io_vm_scheme"
  assumes io: "dword_io True PCI_CONFIG_DATA io" and flt: "pci_filter s = Some f"
    and run: "dev_pci env io s = (rc, s1)" and "length (vm_gpr s) = 16"
    and w: "w = env_pio env (pio_log s) PCI_CONFIG_DATA 4"
    and x: "\<And>t :: 'a io_vm_scheme. ehci_2nd t = ehci_2nd s \<Longrightarrow>
      \<exists>d. dev_flt f (put_u32 w (io_pool s)) t = (VM_DONE, d, t) \<and> take 4 d = le_bytes 4 x"
  shows "rc = VM_DONE \<and> rax_low32 s1 = x"
proof -
  define t where "t = s\<lparr>emu_sts := EMU_STS_NATIVE, pio_log := pio_log s @ [PioIn PCI_CONFIG_DATA (le_bytes 4 w)]\<rparr>"
  have n: "dev_io_native (env_pio env) io (io_pool s) s = (VM_DONE, put_u32 w (io_pool s), t)"
    using io w by (simp add: dword_io_def dev_io_native_def uu_io_simple_native_def pio_in_def Let_def t_def put_u32_def)
  have "ehci_2nd t = ehci_2nd s" by (simp add: t_def)
  from x [OF this] obtain d where d: "take 4 d = le_bytes 4 x" "dev_flt f (put_u32 w (io_pool s)) t = (VM_DONE, d, t)" by blast
  have i: "dev_io_insn io d \<lparr>sz_available = 4, sz_done = 0, sz_miss = 0\<rparr> t
      = (VM_DONE, \<lparr>sz_available = 0, sz_done = 4, sz_miss = 0\<rparr>, d, set_rax_low (le_bytes 4 x) t)"
    using d(1) by (simp add: dword_in [OF io])
  have "(rc, s1) = (VM_DONE, (set_rax_low (le_bytes 4 x) t)\<lparr>io_pool := d\<rparr>)"
    unfolding run [symmetric] dev_pci_def
    using io d(2) i n flt by (simp add: dword_io_def Let_def dev_io_proxify_filter_def VMM_IO_POOL_SZ_def PAGE_SIZE_def
        uu_dev_io_proxy_filter_in_def vmerr_defs PCI_CONFIG_ADDR_def PCI_CONFIG_DATA_def)
  moreover have "rax_low32 ((set_rax_low bs t)\<lparr>io_pool := d\<rparr>) = rax_low32 (set_rax_low bs t)" for bs
    by (simp add: rax_low32_def get_gpr_def)
  moreover have "take_bit 32 x = x" by (intro bit_eqI) (auto simp: bit_simps)
  ultimately show ?thesis
    using rax_low32_set [of t "le_bytes 4 x"] assms(4) of_le_bytes_le_bytes [of 4 x] by (simp add: t_def)
qed

lemma dvd_e1000_flt:
  "\<exists>d. dev_flt FltPciDvd (put_u32 w dev) t = (VM_DONE, d, t) \<and> take 4 d =
     le_bytes 4 (if get_field 0 16 w = 0x8086 \<and> get_field 16 16 w \<in> {0x100e, 0x100f} then set_field 16 16 0xffff w else w)"
  by (simp add: uu_dev_pci_filter_dvd_e1000_def Let_def PCI_CFG_VENDOR_INTEL_def PCI_CFG_DEVICE_INVALID_def
      PCI_CFG_DEVICE_i82540EM_def PCI_CFG_DEVICE_i82545EM_C_def)

lemma dvd_ehci_flt:
  "\<exists>d. dev_flt FltPciDvdEhci (put_u32 w dev) t = (VM_DONE, d, t) \<and> take 4 d =
     le_bytes 4 (if Some w = map_option snd (ehci_2nd t) then set_field 16 16 0xffff w else w)"
  by (simp add: uu_dev_pci_filter_dvd_ehci_def Let_def PCI_CFG_DEVICE_INVALID_def)

text \<open>C33: the card the debugger uses is hidden from a guest that uses the configuration space by
  double words. When the guest writes an address of four bytes to the address port, the vmm intercepts
  the data port exactly if it is the address of the identification or of the command register
  of that card, or of the identification of the debug controller in a build that hides it, and
  the interception of every other port stays as it was. When it then reads four bytes at the
  data port, the device of the identification is the invalid one if the hardware answers with
  one of the supported cards, or with the identification of that controller, and the read gives
  what the hardware answers otherwise. Since no other port is intercepted, a read that does not start
  at the data port, such as that of the device alone two bytes further, is not filtered.\<close>

theorem pci_hides_debug_card:
  assumes "dword_io False PCI_CONFIG_ADDR io" and "dword_io True PCI_CONFIG_DATA io'"
    and "length (io_pool s) = 16384" and "length (vm_gpr s) = 16"
    and "dev_pci env io s = (rc, s1)" and "dev_pci env io' s1 = (rc', s2)"
    and "w = env_pio env (pio_log s1) PCI_CONFIG_DATA 4"
  shows "rc = VM_DONE
    \<and> (\<forall>p. p \<noteq> PCI_CONFIG_DATA \<longrightarrow> io_denied s1 p = io_denied s p)
    \<and> (io_denied s1 PCI_CONFIG_DATA \<longleftrightarrow>
         pci_same (rax_low32 s) (net_pci_addr s) \<and> get_field 0 8 (rax_low32 s) \<in> {0, 4} \<or> ehci_id (rax_low32 s) s)
    \<and> (pci_same (rax_low32 s) (net_pci_addr s) \<and> get_field 0 8 (rax_low32 s) = 0 \<longrightarrow>
         rc' = VM_DONE \<and> rax_low32 s2 = (if get_field 0 16 w = 0x8086 \<and> get_field 16 16 w \<in> {0x100e, 0x100f}
              then set_field 16 16 0xffff w else w))
    \<and> (\<not> pci_same (rax_low32 s) (net_pci_addr s) \<and> ehci_id (rax_low32 s) s \<longrightarrow>
         rc' = VM_DONE \<and> rax_low32 s2 = (if Some w = map_option snd (ehci_2nd s) then set_field 16 16 0xffff w else w))"
proof -
  note a = pci_addr_step [OF assms(1) refl assms(5,3)]
  have len: "length (vm_gpr s1) = 16" using a(2) assms(4) by simp
  have "rc' = VM_DONE \<and> rax_low32 s2 = (if get_field 0 16 w = 0x8086 \<and> get_field 16 16 w \<in> {0x100e, 0x100f}
      then set_field 16 16 0xffff w else w)"
    if "pci_same (rax_low32 s) (net_pci_addr s)" "get_field 0 8 (rax_low32 s) = 0"
    by (rule pci_data_step [OF assms(2) a(7) [OF that] assms(6) len assms(7) dvd_e1000_flt])
  moreover have "rc' = VM_DONE \<and> rax_low32 s2 = (if Some w = map_option snd (ehci_2nd s) then set_field 16 16 0xffff w else w)"
    if "\<not> pci_same (rax_low32 s) (net_pci_addr s)" "ehci_id (rax_low32 s) s"
    by (rule pci_data_step [OF assms(2) a(8) [OF that] assms(6) len assms(7)])
      (use dvd_ehci_flt a(4) in metis)
  ultimately show ?thesis using a(1,5,6) by auto
qed

section \<open>Buffers of the vmm\<close>

text \<open>C30: the transfers that the vmm passes through use a pool of sixteen kilobytes. A transfer
  whose bytes number fewer than \<open>2 ^ 64\<close> never leaves the pool, whatever the guest asks for;
  but the test is on the product of size and count modulo \<open>2 ^ 64\<close>, so for a string input
  whose product wraps to a small number all the bytes are stored, past the end of the pool.\<close>

theorem io_pool_bounds:
  assumes run: "dev_io_proxify_filter pio dev_flt io flt s = (rc, s')" and "unat (ins_sz io) \<in> {1, 2, 4}"
    and "length (io_pool s) = 16384"
  shows "(io_bytes io < 2 ^ 64 \<longrightarrow> length (io_pool s') = 16384)
    \<and> (io_bytes io \<ge> 2 ^ 64 \<and> ins_in io \<and> \<not> ins_back io \<and> io_bytes io mod 2 ^ 64 \<le> 16384
        \<longrightarrow> length (io_pool s') = io_bytes io)"
proof -
  define x :: u64 where "x = ucast (ins_sz io) * ins_cnt io"
  have p: "length (io_pool s') = (if x \<le> VMM_IO_POOL_SZ \<and> ins_in io \<and> io_native_ok io then max (io_bytes io) 16384 else 16384)"
    using proxify_pool [OF assms] by (simp add: x_def)
  have pl: "x \<le> VMM_IO_POOL_SZ \<longleftrightarrow> unat x \<le> 16384" by (simp add: word_le_nat_alt VMM_IO_POOL_SZ_def PAGE_SIZE_def)
  have ux: "unat x = unat (ins_sz io) * unat (ins_cnt io) mod 2 ^ 64" by (simp add: x_def unat_word_ariths)
  have small: "io_bytes io \<le> 16384" if "\<not> ins_s io" using that assms(2) by (auto simp: io_bytes_def)
  have str: "unat x = io_bytes io mod 2 ^ 64" if "ins_s io" using that ux by (simp add: io_bytes_def)
  show ?thesis
  proof (intro conjI impI)
    assume "io_bytes io < 2 ^ 64"
    then have "unat x \<le> 16384 \<Longrightarrow> io_bytes io \<le> 16384" using small str by (cases "ins_s io") simp_all
    then show "length (io_pool s') = 16384" using p pl by (simp add: max_def)
  next
    assume big: "io_bytes io \<ge> 2 ^ 64 \<and> ins_in io \<and> \<not> ins_back io \<and> io_bytes io mod 2 ^ 64 \<le> 16384"
    then have "ins_s io" using small by (cases "ins_s io") simp_all
    with big str have "unat x \<le> 16384" "io_native_ok io" by (simp_all add: io_native_ok_def)
    moreover have "16384 \<le> io_bytes io" using big by simp
    ultimately show "length (io_pool s') = io_bytes io" using p pl big by (simp add: max_def)
  qed
qed

text \<open>The handler of the power control register reads the native port straight into a two
  byte variable on the stack of the vmm. What it stores there are as many bytes as the
  guest's instruction asks for: an input of four bytes, or a repeated one, overruns it.\<close>

theorem acpi_in_overruns:
  assumes "dev_acpi_pm1_ctl env io s = (rc, reg, s')" and "ins_in io" and "unat (ins_sz io) \<in> {1, 2, 4}"
    and "2 \<le> length (env_junk env)"
  shows "length reg = (if io_native_ok io then max (io_bytes io) 2 else 2)"
proof -
  obtain rc1 r1 s1 where n: "dev_io_native (env_pio env) io (take 2 (env_junk env)) s = (rc1, r1, s1)"
    by (metis prod_cases3)
  note r = native_rc [OF n] dev_io_native_ran(1) [OF n assms(3)]
  obtain rc2 sz r2 s2 where i: "dev_io_insn io r1 (io_size_of 2) s1 = (rc2, sz, r2, s2)" by (metis prod.collapse)
  have l2: "length r1 = (if io_native_ok io then max (io_bytes io) 2 else 2)"
    using r assms(2,4) by (auto simp: io_bytes_def vmerr_defs)
  have "length r2 = length r1" using dev_io_insn_ran [OF i] l2 by (simp add: io_size_of_def split: if_splits)
  moreover have "reg = r1 \<or> reg = r2" using assms(1,2) n i by (auto simp: dev_acpi_pm1_ctl_def Let_def split: if_splits)
  ultimately show ?thesis using l2 by auto
qed

section \<open>Concrete runs\<close>

lemma io_ex_dev [simp]: "dev_uart_st io_ex =
   \<lparr>uart_buffer = replicate 64 0, uart_index = 0, uart_base = 0x3f8, uart_ier = 0, uart_iir = 3, uart_fcr = 0,
    uart_lcr = 0, uart_mcr = 0, uart_lsr = 0x60, uart_msr = 0, uart_dla_lsb = 0, uart_dla_msb = 0, uart_scr = 0\<rparr>"
  "net_pci_addr io_ex = 0x80001800"
  by (simp_all add: io_ex_def gdb_ex_def gdb_state.defs ctrl_ex_def dbg_ex_def dbg_vm.defs ctrl_vm.defs vm_cpu.defs io_vm.defs vm_ex_def)

definition in_ex :: "u16 \<Rightarrow> u16 \<Rightarrow> io_insn" where
  "in_ex p n = ins_ex\<lparr>ins_s := False, ins_rep := False, ins_sz := n, ins_cnt := 1, ins_port := p\<rparr>"

lemma in_ex_io [simp]: "byte_io True (in_ex p 1)" "byte_io False (in_ex p 1\<lparr>ins_in := False\<rparr>)"
  "ins_port (in_ex p n) = p" "dword_io True p (in_ex p 4)" "dword_io False p (in_ex p 4\<lparr>ins_in := False\<rparr>)"
  by (simp_all add: in_ex_def ins_ex_def byte_io_def dword_io_def)

lemma uart_ok_ex [simp]: "uart_ok io_ex"
  by (simp add: uart_ok_def)

theorem uart_stream_refines_witness:
  "\<exists>s'. uart_puts (in_ex 0x3f8 1\<lparr>ins_in := False\<rparr>) [0x6f, 0x6b] io_ex = Some s' \<and> uart_stream s' = [0x6f, 0x6b]"
  using uart_stream_refines [of io_ex "in_ex 0x3f8 1\<lparr>ins_in := False\<rparr>" "[0x6f, 0x6b]"]
  by (auto simp: uart_stream_def)

theorem uart_reads_wedge_witness:
  "\<exists>s'. uart_gets (in_ex 0x3f8 1) 64 io_ex = Some s' \<and> (\<exists>s''. dev_uart (in_ex 0x3f8 1\<lparr>ins_in := False\<rparr>) s' = Some (VM_FAIL, s''))"
  using uart_reads_wedge [of io_ex "in_ex 0x3f8 1" False "in_ex 0x3f8 1\<lparr>ins_in := False\<rparr>" 64] by simp

theorem kbd_a20_virtual_witness:
  "dev_a20 (kbd_write_port (\<lambda>l p n. 0xff) (in_ex 0x60 1) 0xdd io_ex) = 0
   \<and> pio_log (kbd_write_port (\<lambda>l p n. 0xff) (in_ex 0x60 1) 0xdd io_ex) = [PioOut 0x64 [0xd1], PioOut 0x60 [0xdf]]"
  using kbd_a20_virtual [of io_ex "\<lambda>l p n. 0xff" "in_ex 0x60 1" "0xdd"]
  by (simp add: get_field_def take_bit_eq_mod)

definition env_ex :: "unit io_env" where
  "env_ex = \<lparr>env_pio = (\<lambda>l p n. 0x100e8086), env_wake = (\<lambda>s. (VM_DONE, s)), env_junk = [0, 0]\<rparr>"

theorem pci_hides_debug_card_witness:
  "rax_low32 (snd (dev_pci env_ex (in_ex PCI_CONFIG_DATA 4)
     (snd (dev_pci env_ex (in_ex PCI_CONFIG_ADDR 4\<lparr>ins_in := False\<rparr>) (set_gpr GPR64_RAX 0x80001800 io_ex))))) = 0xffff8086"
proof -
  let ?s = "set_gpr GPR64_RAX 0x80001800 io_ex"
  obtain rc s1 where r1: "dev_pci env_ex (in_ex PCI_CONFIG_ADDR 4\<lparr>ins_in := False\<rparr>) ?s = (rc, s1)" by fastforce
  obtain rc' s2 where r2: "dev_pci env_ex (in_ex PCI_CONFIG_DATA 4) s1 = (rc', s2)" by fastforce
  have [simp]: "net_pci_addr ?s = 0x80001800" by (simp add: set_gpr_def)
  have [simp]: "rax_low32 ?s = 0x80001800" by (simp add: rax_low32_def GPR64_RAX_def GPR64_RSP_def)
  have f: "get_field 0 16 (0x100e8086 :: u32) = 0x8086" "get_field 16 16 (0x100e8086 :: u32) = 0x100e"
    "set_field 16 16 0xffff (0x100e8086 :: u32) = 0xffff8086" "get_field 0 8 (0x80001800 :: u32) = 0"
    by code_simp+
  show ?thesis
    using pci_hides_debug_card [OF in_ex_io(5,4) _ _ r1 r2 refl] r1 r2 f by (simp add: env_ex_def pci_same_def)
qed

theorem io_pool_bounds_witness:
  "length (io_pool (snd (dev_io_proxify_filter (\<lambda>l p n. 0) dev_flt (ins_ex\<lparr>ins_sz := 4, ins_cnt := 2 ^ 62\<rparr>) None io_ex))) = 2 ^ 64"
proof -
  let ?io = "ins_ex\<lparr>ins_sz := 4, ins_cnt := 2 ^ 62\<rparr>"
  obtain rc s' where r: "dev_io_proxify_filter (\<lambda>l p n. 0) dev_flt ?io None io_ex = (rc, s')" by fastforce
  have b: "io_bytes ?io = 2 ^ 64" by (simp add: io_bytes_def ins_ex_def)
  show ?thesis using io_pool_bounds [OF r] r b by (simp add: ins_ex_def)
qed

theorem acpi_in_overruns_witness:
  "length (fst (snd (dev_acpi_pm1_ctl env_ex (in_ex 0x404 4) io_ex))) = 4"
proof -
  obtain rc reg s' where r: "dev_acpi_pm1_ctl env_ex (in_ex 0x404 4) io_ex = (rc, reg, s')" by (metis prod_cases3)
  show ?thesis using acpi_in_overruns [OF r] r by (simp add: in_ex_def ins_ex_def io_native_ok_def io_bytes_def env_ex_def)
qed

end
