(* ===== verification/Cr.thy ===== *)
theory Cr
  imports Devices
begin

text \<open>
  Accesses to the control registers: \<^verbatim>\<open>vmm/src/core/cr.c\<close>, the exit of
  \<^verbatim>\<open>vmm/src/vmx/vmx_exit_cr.c\<close>, the transitions between real and protected mode of
  \<^verbatim>\<open>vmm/src/core/vm.c\<close>, the reload of the page directory pointers of
  \<^verbatim>\<open>common/vmx/vmx_ept.c\<close> and the macros of \<^verbatim>\<open>include/cr.h\<close> and \<^verbatim>\<open>vmx_vm.h\<close>. The register
  \<^verbatim>\<open>__cr0\<close> of the code is the read shadow; the value the processor uses is \<^verbatim>\<open>__cr0_real\<close>, and
  likewise for \<^verbatim>\<open>__cr4\<close>. \<^verbatim>\<open>__efer\<close> is the copy of the guest's view that the vmm keeps. A flush of
  the translation buffers has no effect on this state.
\<close>

section \<open>State\<close>

text \<open>The part of the control structure and of \<^verbatim>\<open>vm_t\<close> that the control registers need.
  \<open>cr3_dirty\<close> says that the page table base is marked to be written back.\<close>

record cpu_vm = io_vm +
  cr0_real :: u64
  cr4_real :: u64
  efer_hw :: u64
  entry_ia32e :: bool
  cr3_dirty :: bool
  vm_pdpe :: "u64 list"
  max_paddr :: u64
  dt_exit :: bool
  idt_limit_saved :: u16
  idt_limit_rmode :: u16

definition CR0_PE_BIT :: nat where "CR0_PE_BIT = 0"
definition CR0_TS_BIT :: nat where "CR0_TS_BIT = 3"
definition CR0_NW_BIT :: nat where "CR0_NW_BIT = 29"
definition CR0_CD_BIT :: nat where "CR0_CD_BIT = 30"
definition CR0_PG_BIT :: nat where "CR0_PG_BIT = 31"
definition CR4_PSE_BIT :: nat where "CR4_PSE_BIT = 4"
definition CR4_PAE_BIT :: nat where "CR4_PAE_BIT = 5"
definition CR4_PGE_BIT :: nat where "CR4_PGE_BIT = 7"

definition MC_EXCP :: nat where "MC_EXCP = 18"

definition VM_RMODE_EXCP_BITMAP :: u32 where
  "VM_RMODE_EXCP_BITMAP = push_bit (unat GP_EXCP) 1 OR push_bit MC_EXCP 1"

definition VM_PMODE_EXCP_BITMAP :: u32 where
  "VM_PMODE_EXCP_BITMAP = push_bit MC_EXCP 1"

definition KBD_START_PORT :: nat where "KBD_START_PORT = 0x60"
definition KBD_END_PORT :: nat where "KBD_END_PORT = 0x6f"

definition uu_lmode64 :: "'a vm_cpu_scheme \<Rightarrow> bool" where
  "uu_lmode64 s = (efer_lma s \<and> cs_l s)"

section \<open>Transitions between real and protected mode\<close>

definition idt_limit :: "'a gdb_state_scheme \<Rightarrow> u16" where
  "idt_limit s = ucast (vm_reg_get (R_LIMIT IDTR) s)"

definition set_idt_limit :: "u16 \<Rightarrow> 'a gdb_state_scheme \<Rightarrow> 'a gdb_state_scheme" where
  "set_idt_limit v s = vm_reg_put (R_LIMIT IDTR) (set_field 0 16 (ucast v) (vm_reg_get (R_LIMIT IDTR) s)) s"

definition uu_allow_soft_int :: "'a cpu_vm_scheme \<Rightarrow> 'a cpu_vm_scheme" where
  "uu_allow_soft_int s = (let s = s\<lparr>dt_exit := False\<rparr> in set_idt_limit (idt_limit_saved s) s)"

definition uu_deny_soft_int :: "'a cpu_vm_scheme \<Rightarrow> 'a cpu_vm_scheme" where
  "uu_deny_soft_int s =
     (let s = s\<lparr>dt_exit := True\<rparr>; s = s\<lparr>idt_limit_saved := idt_limit s\<rparr>
      in set_idt_limit (idt_limit_rmode s) s)"

definition vm_enter_pmode :: "'a cpu_vm_scheme \<Rightarrow> 'a cpu_vm_scheme" where
  "vm_enter_pmode s =
     (let s = uu_update_exception_mask (s\<lparr>dflt_excp := VM_PMODE_EXCP_BITMAP\<rparr>)
      in vmx_allow_io_range KBD_START_PORT KBD_END_PORT (uu_allow_soft_int s))"

definition vm_enter_rmode :: "'a cpu_vm_scheme \<Rightarrow> 'a cpu_vm_scheme" where
  "vm_enter_rmode s =
     (let s = uu_update_exception_mask (s\<lparr>dflt_excp := VM_RMODE_EXCP_BITMAP\<rparr>)
      in vmx_deny_io_range KBD_START_PORT KBD_END_PORT (uu_deny_soft_int s))"

section \<open>Reload of the page directory pointers\<close>

definition valid_pae_pdpe :: "'a cpu_vm_scheme \<Rightarrow> u64 \<Rightarrow> bool" where
  "valid_pae_pdpe s p =
     (\<not> (bit p 0 \<and> (get_field 1 2 p \<noteq> 0 \<or> get_field 5 4 p \<noteq> 0 \<or> p > max_paddr s)))"

definition vmx_ept_pdpe_to_pae_pdpe :: "u64 \<Rightarrow> nat \<Rightarrow> 'a cpu_vm_scheme \<Rightarrow> bool \<times> 'a cpu_vm_scheme" where
  "vmx_ept_pdpe_to_pae_pdpe p i s =
     (let s = s\<lparr>vm_pdpe := (vm_pdpe s)[i := p]\<rparr> in (valid_pae_pdpe s p, s))"

fun pdpe_loop :: "offset_t \<Rightarrow> nat list \<Rightarrow> 'a cpu_vm_scheme \<Rightarrow> bool \<times> 'a cpu_vm_scheme" where
  "pdpe_loop pdp [] s = (True, s)"
| "pdpe_loop pdp (i # is) s =
     (let (ok, s) = vmx_ept_pdpe_to_pae_pdpe (rd_u64 s (pdp + 8 * of_nat i)) i s
      in if ok then pdpe_loop pdp is s else (False, s))"

definition vmx_ept_update_pdpe :: "'a cpu_vm_scheme \<Rightarrow> bool \<times> 'a cpu_vm_scheme" where
  "vmx_ept_update_pdpe s =
     (let pdp = push_bit 5 (get_field 5 27 (vm_cr3 s))
      in if vmm_area s pdp then (False, s) else pdpe_loop pdp [0, 1, 2, 3] s)"

section \<open>Long mode\<close>

definition uu_vmx_update_efer_lma :: "'a cpu_vm_scheme \<Rightarrow> 'a cpu_vm_scheme" where
  "uu_vmx_update_efer_lma s =
     s\<lparr>entry_ia32e := efer_lma s, efer_hw := put_flag 8 (efer_lma s) (put_flag 10 (efer_lma s) (efer_hw s))\<rparr>"

definition efer_lme :: "'a gdb_state_scheme \<Rightarrow> bool" where
  "efer_lme s = bit (vm_reg_get R_EFER s) 8"

definition uu_efer_update :: "bool \<Rightarrow> 'a cpu_vm_scheme \<Rightarrow> 'a cpu_vm_scheme" where
  "uu_efer_update pg s =
     (if pg \<and> cr4_pae s \<and> efer_lme s then uu_vmx_update_efer_lma (s\<lparr>efer_lma := True\<rparr>)
      else if \<not> pg \<and> efer_lma s then uu_vmx_update_efer_lma (s\<lparr>efer_lma := False\<rparr>)
      else s)"

section \<open>Writes\<close>

definition uu_cr0_update :: "u64 \<Rightarrow> 'a cpu_vm_scheme \<Rightarrow> 'a cpu_vm_scheme" where
  "uu_cr0_update guest s =
     (let s = s\<lparr>cr0_real := set_field 0 32 guest (cr0_real s)\<rparr>
      in vm_reg_put R_CR0 (set_field 0 32 guest (vm_reg_get R_CR0 s)) s)"

definition uu_cr4_update :: "u64 \<Rightarrow> 'a cpu_vm_scheme \<Rightarrow> 'a cpu_vm_scheme" where
  "uu_cr4_update guest s =
     (let s = s\<lparr>cr4_real := set_field 0 32 guest (cr4_real s)\<rparr>
      in vm_reg_put R_CR4 (set_field 0 32 guest (vm_reg_get R_CR4 s)) s)"

definition uu_invalid_cr0_setup :: "u64 \<Rightarrow> bool" where
  "uu_invalid_cr0_setup cr =
     (bit cr CR0_PG_BIT \<and> \<not> bit cr CR0_PE_BIT \<or> bit cr CR0_NW_BIT \<and> \<not> bit cr CR0_CD_BIT)"

definition uu_invalid_cr0_lmode_check :: "u64 \<Rightarrow> u32 \<Rightarrow> 'a cpu_vm_scheme \<Rightarrow> bool" where
  "uu_invalid_cr0_lmode_check cr upd s =
     (bit upd CR0_PG_BIT \<and> bit cr CR0_PG_BIT \<and> efer_lme s \<and> (\<not> cr4_pae s \<or> cs_l s))"

definition inject_gp :: "'a cpu_vm_scheme \<Rightarrow> vmerr \<times> 'a cpu_vm_scheme" where
  "inject_gp s = (VM_FAULT, uu_vmx_vmexit_inject_exception GP_EXCP 0 0 s)"

text \<open>The end of every write: the pointers are loaded again when the guest uses the extended
  tables of protected mode.\<close>

definition pdpe_check :: "bool \<Rightarrow> 'a cpu_vm_scheme \<Rightarrow> vmerr \<times> 'a cpu_vm_scheme" where
  "pdpe_check updated s =
     (if \<not> efer_lma s \<and> updated \<and> cr0_pg s \<and> cr4_pae s
      then (let (ok, s) = vmx_ept_update_pdpe s in if ok then (VM_DONE, s) else inject_gp s)
      else (VM_DONE, s))"

definition uu_resolve_cr0_wr :: "u64 \<Rightarrow> 'a cpu_vm_scheme \<Rightarrow> vmerr \<times> 'a cpu_vm_scheme" where
  "uu_resolve_cr0_wr guest s =
     (let upd = ucast (vm_reg_get R_CR0 s) XOR ucast guest :: u32
      in if uu_invalid_cr0_setup guest \<or> uu_invalid_cr0_lmode_check guest upd s then inject_gp s
         else (let updated = (bit upd CR0_NW_BIT \<or> bit upd CR0_CD_BIT \<or> bit upd CR0_PG_BIT);
                   s = (if bit upd CR0_PG_BIT then uu_efer_update (bit guest CR0_PG_BIT) s else s);
                   s = (if bit upd CR0_PE_BIT
                        then (if \<not> bit guest CR0_PE_BIT then vm_enter_rmode s else vm_enter_pmode s) else s)
               in pdpe_check updated (uu_cr0_update guest s)))"

definition uu_resolve_cr3_wr :: "u64 \<Rightarrow> 'a cpu_vm_scheme \<Rightarrow> vmerr \<times> 'a cpu_vm_scheme" where
  "uu_resolve_cr3_wr guest s =
     (let s = s\<lparr>vm_cr3 := if uu_lmode64 s then guest else set_field 0 32 guest (vm_cr3 s)\<rparr>;
          (rc, s) = pdpe_check True s
      in if rc = VM_DONE then (VM_DONE, s\<lparr>cr3_dirty := True\<rparr>) else (rc, s))"

definition uu_resolve_cr4_wr :: "u64 \<Rightarrow> 'a cpu_vm_scheme \<Rightarrow> vmerr \<times> 'a cpu_vm_scheme" where
  "uu_resolve_cr4_wr guest s =
     (let upd = ucast (vm_reg_get R_CR4 s) XOR ucast guest :: u32;
          updated = (bit upd CR4_PAE_BIT \<or> bit upd CR4_PSE_BIT \<or> bit upd CR4_PGE_BIT)
      in if efer_lma s \<and> bit upd CR4_PAE_BIT \<and> \<not> bit guest CR4_PAE_BIT then inject_gp s
         else pdpe_check updated (uu_cr4_update guest s))"

definition uu_resolve_cr_wr_with :: "u8 \<Rightarrow> u64 \<Rightarrow> 'a cpu_vm_scheme \<Rightarrow> vmerr \<times> 'a cpu_vm_scheme" where
  "uu_resolve_cr_wr_with cr val s =
     (if cr \<notin> {0, 3, 4} then (VM_FAIL, s)
      else (let (rc, s) = (if cr = 0 then uu_resolve_cr0_wr val s
                           else if cr = 3 then uu_resolve_cr3_wr val s
                           else uu_resolve_cr4_wr val s)
            in (rc, snd (ctrl_evt_cr_wr (unat cr) s))))"

definition uu_resolve_cr_wr :: "u8 \<Rightarrow> nat \<Rightarrow> 'a cpu_vm_scheme \<Rightarrow> vmerr \<times> 'a cpu_vm_scheme" where
  "uu_resolve_cr_wr cr gpr s = uu_resolve_cr_wr_with cr (get_gpr gpr s) s"

section \<open>Reads and dispatch\<close>

definition cr_get :: "u8 \<Rightarrow> 'a cpu_vm_scheme \<Rightarrow> u64" where
  "cr_get cr s = (if cr = 0 then vm_reg_get R_CR0 s else if cr = 3 then vm_cr3 s else vm_reg_get R_CR4 s)"

definition uu_resolve_cr_rd :: "u8 \<Rightarrow> nat \<Rightarrow> 'a cpu_vm_scheme \<Rightarrow> vmerr \<times> 'a cpu_vm_scheme" where
  "uu_resolve_cr_rd cr gpr s =
     (if cr \<notin> {0, 3, 4} then (VM_FAIL, s)
      else (let s = set_gpr gpr (if uu_lmode64 s then cr_get cr s
                                 else set_field 0 32 (cr_get cr s) (get_gpr gpr s)) s
            in (VM_DONE, snd (ctrl_evt_cr_rd (unat cr) s))))"

definition uu_valid_cr_access :: "'a vm_cpu_scheme \<Rightarrow> bool" where
  "uu_valid_cr_access s = (uu_rmode s \<or> vm_cpl s = 0)"

definition uu_valid_cr_regs :: "nat \<Rightarrow> u8 \<Rightarrow> bool" where
  "uu_valid_cr_regs gpr cr = (gpr \<le> GPR64_RAX \<and> cr \<le> 4 \<and> cr \<noteq> 1)"

definition uu_resolve_cr :: "bool \<Rightarrow> u8 \<Rightarrow> nat \<Rightarrow> 'a cpu_vm_scheme \<Rightarrow> vmerr \<times> 'a cpu_vm_scheme" where
  "uu_resolve_cr wr cr gpr s =
     (if \<not> uu_valid_cr_access s then inject_gp s
      else if \<not> uu_valid_cr_regs gpr cr then (VM_FAIL, s)
      else if wr then uu_resolve_cr_wr cr gpr s
      else uu_resolve_cr_rd cr gpr s)"

definition emulate_clts :: "'a cpu_vm_scheme \<Rightarrow> vmerr \<times> 'a cpu_vm_scheme" where
  "emulate_clts s =
     (if vm_cpl s \<noteq> 0 then inject_gp s
      else (VM_DONE, uu_cr0_update (unset_bit CR0_TS_BIT (vm_reg_get R_CR0 s)) s))"

definition vmx_vmexit_resolve_lmsw :: "u16 \<Rightarrow> 'a cpu_vm_scheme \<Rightarrow> vmerr \<times> 'a cpu_vm_scheme" where
  "vmx_vmexit_resolve_lmsw val s =
     uu_resolve_cr_wr_with 0 ((vm_reg_get R_CR0 s AND NOT 0xf) OR (ucast val AND 0xf)) s"

definition CR_ACCESS_MOV_T_CR :: u64 where "CR_ACCESS_MOV_T_CR = 0"
definition CR_ACCESS_MOV_F_CR :: u64 where "CR_ACCESS_MOV_F_CR = 1"
definition CR_ACCESS_CLTS :: u64 where "CR_ACCESS_CLTS = 2"
definition CR_ACCESS_LMSW :: u64 where "CR_ACCESS_LMSW = 3"

definition vmx_vmexit_resolve_cr_access :: "'a cpu_vm_scheme \<Rightarrow> vmerr \<times> 'a cpu_vm_scheme" where
  "vmx_vmexit_resolve_cr_access s =
     (let q = exit_qual s; nr = ucast (get_field 0 4 q); type = get_field 4 2 q;
          gpr = GPR64_RAX - unat (get_field 8 4 q)
      in if type = CR_ACCESS_LMSW \<and> bit q 6 then (VM_FAIL, s)
         else (let (rc, s) = (if type = CR_ACCESS_MOV_T_CR then uu_resolve_cr True nr gpr s
                              else if type = CR_ACCESS_MOV_F_CR then uu_resolve_cr False nr gpr s
                              else if type = CR_ACCESS_LMSW then vmx_vmexit_resolve_lmsw (ucast (get_gpr gpr s)) s
                              else emulate_clts s)
               in emulate_done rc (exit_insn_len s) s))"

section \<open>The mode of the guest and the exits it needs\<close>

text \<open>What the vmm relies on: the shadow and the registers of the processor agree on protected
  mode, paging and long mode; paging needs protected mode, and long mode needs paging, extended
  tables and its enable bit; and the exits are those of the mode. In real mode accesses to the
  descriptor table registers, general protection faults and accesses to the keyboard ports exit,
  and the limit of the interrupt table makes every software interrupt fault.\<close>

definition kbd_ports :: "u16 set" where
  "kbd_ports = {0x60..0x6f}"

definition mode_exits :: "'a cpu_vm_scheme \<Rightarrow> bool" where
  "mode_exits s \<longleftrightarrow>
     (if cr0_pe s then \<not> dt_exit s \<and> dflt_excp s = VM_PMODE_EXCP_BITMAP \<and> (\<forall>p\<in>kbd_ports. \<not> io_denied s p)
      else dt_exit s \<and> dflt_excp s = VM_RMODE_EXCP_BITMAP \<and> (\<forall>p\<in>kbd_ports. io_denied s p)
           \<and> idt_limit s = idt_limit_rmode s)"

definition mode_regs :: "'a cpu_vm_scheme \<Rightarrow> bool" where
  "mode_regs s \<longleftrightarrow> bit (cr0_real s) 0 = cr0_pe s \<and> bit (cr0_real s) 31 = cr0_pg s \<and> bit (cr4_real s) 5 = cr4_pae s
     \<and> (cr0_pg s \<longrightarrow> cr0_pe s) \<and> (efer_lma s \<longrightarrow> cr0_pg s \<and> cr4_pae s \<and> efer_lme s)
     \<and> entry_ia32e s = efer_lma s \<and> bit (efer_hw s) 10 = efer_lma s"

definition mode_ok :: "'a cpu_vm_scheme \<Rightarrow> bool" where
  "mode_ok s \<longleftrightarrow> mode_exits s \<and> mode_regs s"

definition mode_view ::
    "'a cpu_vm_scheme \<Rightarrow> (bool \<times> bool \<times> bool \<times> bool \<times> bool \<times> bool) \<times> (u32 \<times> (u16 \<Rightarrow> bool) \<times> u16 \<times> u16) \<times> u64 \<times> u64 \<times> u64 \<times> bool" where
  "mode_view s = ((cr0_pe s, cr0_pg s, cr4_pae s, efer_lma s, efer_lme s, dt_exit s),
     (dflt_excp s, io_denied s, idt_limit s, idt_limit_rmode s), cr0_real s, cr4_real s, efer_hw s, entry_ia32e s)"

lemma mode_ok_view: "mode_view t = mode_view s \<Longrightarrow> mode_ok t = mode_ok s"
  by (simp add: mode_view_def mode_ok_def mode_exits_def mode_regs_def)

lemmas view_defs = mode_view_def efer_lme_def idt_limit_def

lemma efer_lme_reg: "efer_lme s = bit (gs_reg s R_EFER) 8"
  by (simp add: efer_lme_def bit_put_flag)

lemma view_inject [simp]: "mode_view (snd (inject_gp s)) = mode_view s"
  by (simp add: inject_gp_def uu_vmx_vmexit_inject_exception_def Let_def mode_view_def efer_lme_reg idt_limit_def)

lemma view_cr_evt [simp]: "mode_view (snd (ctrl_evt_cr_wr n s)) = mode_view s" "mode_view (snd (ctrl_evt_cr_rd n s)) = mode_view s"
  by (simp_all add: ctrl_evt_cr_wr_def uu_ctrl_evt_cr_wr_usr_def ctrl_evt_cr_rd_def ctrl_evt_setup_def Let_def
      mode_view_def efer_lme_reg idt_limit_def)

lemma view_gpr [simp]: "mode_view (set_gpr i v s) = mode_view s"
  by (simp add: set_gpr_def mode_view_def efer_lme_reg idt_limit_def)

lemma update_rip_eq: "\<exists>x. vm_update_rip sz s = s\<lparr>vm_rip := x\<rparr>"
  by (rule exI [of _ "vm_rip (vm_update_rip sz s)"]) (simp add: vm_update_rip_def Let_def)

lemma view_done [simp]: "mode_view (snd (emulate_done rc sz s)) = mode_view s"
proof -
  obtain x where "vm_update_rip sz s = s\<lparr>vm_rip := x\<rparr>" using update_rip_eq by blast
  then show ?thesis by (simp add: emulate_done_def mode_view_def efer_lme_reg idt_limit_def)
qed

lemma view_pdpe [simp]: "mode_view (s\<lparr>vm_pdpe := l\<rparr>) = mode_view s" "mode_view (s\<lparr>vm_cr3 := c\<rparr>) = mode_view s"
  "mode_view (s\<lparr>cr3_dirty := b\<rparr>) = mode_view s"
  by (simp_all add: mode_view_def efer_lme_reg idt_limit_def)

lemma view_pdpe_loop [simp]: "mode_view (snd (pdpe_loop pdp is s)) = mode_view s"
  by (induction "is" arbitrary: s) (simp_all add: vmx_ept_pdpe_to_pae_pdpe_def Let_def)

lemma view_pdpe_check [simp]: "mode_view (snd (pdpe_check u s)) = mode_view s"
  by (simp add: pdpe_check_def vmx_ept_update_pdpe_def Let_def split_beta del: pdpe_loop.simps)

lemma denied_range:
  "io_denied (vmx_allow_io_range a b s) p = (io_denied s p \<and> \<not> (\<exists>k. a \<le> k \<and> k \<le> b \<and> p = of_nat k))"
  "io_denied (vmx_deny_io_range a b s) p = (io_denied s p \<or> (\<exists>k. a \<le> k \<and> k \<le> b \<and> p = of_nat k))"
proof -
  have "io_denied (fold (\<lambda>p. vmx_deny_io (of_nat p)) xs t) p = (io_denied t p \<or> (\<exists>k\<in>set xs. p = of_nat k))" for xs
      and t :: "'a io_vm_scheme"
    by (induction xs arbitrary: t) (auto simp: vmx_deny_io_def)
  from this [of "[a..<Suc b]" s] show "io_denied (vmx_deny_io_range a b s) p = (io_denied s p \<or> (\<exists>k. a \<le> k \<and> k \<le> b \<and> p = of_nat k))"
    by (fastforce simp: vmx_deny_io_range_def simp del: upt_Suc)
qed (rule vmx_allow_io_range_denied)

lemma kbd_ports_iff: "p \<in> kbd_ports \<longleftrightarrow> (\<exists>k. KBD_START_PORT \<le> k \<and> k \<le> KBD_END_PORT \<and> p = of_nat k)"
proof
  assume "p \<in> kbd_ports"
  then show "\<exists>k. KBD_START_PORT \<le> k \<and> k \<le> KBD_END_PORT \<and> p = of_nat k"
    by (intro exI [of _ "unat p"]) (simp add: kbd_ports_def word_le_nat_alt KBD_START_PORT_def KBD_END_PORT_def)
qed (auto simp: kbd_ports_def word_le_nat_alt unat_of_nat take_bit_eq_mod KBD_START_PORT_def KBD_END_PORT_def)

text \<open>The bitmap of ports is all that its operations change.\<close>

lemma io_range_eq:
  "vmx_allow_io_range a b s = s\<lparr>io_denied := io_denied (vmx_allow_io_range a b s)\<rparr>"
  "vmx_deny_io_range a b s = s\<lparr>io_denied := io_denied (vmx_deny_io_range a b s)\<rparr>"
proof -
  have "fold (\<lambda>p. vmx_allow_io (of_nat p)) xs t = t\<lparr>io_denied := io_denied (fold (\<lambda>p. vmx_allow_io (of_nat p)) xs t)\<rparr>" for xs and t :: "'a io_vm_scheme"
  proof (induction xs arbitrary: t)
    case (Cons x xs)
    from Cons.IH [of "vmx_allow_io (of_nat x) t"] show ?case by (simp add: vmx_allow_io_def)
  qed simp
  then show "vmx_allow_io_range a b s = s\<lparr>io_denied := io_denied (vmx_allow_io_range a b s)\<rparr>"
    unfolding vmx_allow_io_range_def by blast
  have "fold (\<lambda>p. vmx_deny_io (of_nat p)) xs t = t\<lparr>io_denied := io_denied (fold (\<lambda>p. vmx_deny_io (of_nat p)) xs t)\<rparr>" for xs and t :: "'a io_vm_scheme"
  proof (induction xs arbitrary: t)
    case (Cons x xs)
    from Cons.IH [of "vmx_deny_io (of_nat x) t"] show ?case by (simp add: vmx_deny_io_def)
  qed simp
  then show "vmx_deny_io_range a b s = s\<lparr>io_denied := io_denied (vmx_deny_io_range a b s)\<rparr>"
    unfolding vmx_deny_io_range_def by blast
qed

lemma idt_limit_set [simp]: "idt_limit (set_idt_limit v s) = v"
  by (rule bit_eqI) (simp add: idt_limit_def set_idt_limit_def bit_simps bit_set_field)

lemma range_sel [simp]:
  fixes s :: "'a cpu_vm_scheme"
  shows "cr0_pe (vmx_allow_io_range a b s) = cr0_pe s" "cr0_pg (vmx_allow_io_range a b s) = cr0_pg s"
    "cr4_pae (vmx_allow_io_range a b s) = cr4_pae s" "efer_lma (vmx_allow_io_range a b s) = efer_lma s"
    "gs_reg (vmx_allow_io_range a b s) = gs_reg s" "dt_exit (vmx_allow_io_range a b s) = dt_exit s"
    "dflt_excp (vmx_allow_io_range a b s) = dflt_excp s" "idt_limit_rmode (vmx_allow_io_range a b s) = idt_limit_rmode s"
    "cr0_real (vmx_allow_io_range a b s) = cr0_real s" "cr4_real (vmx_allow_io_range a b s) = cr4_real s"
    "efer_hw (vmx_allow_io_range a b s) = efer_hw s" "entry_ia32e (vmx_allow_io_range a b s) = entry_ia32e s"
    "cr0_pe (vmx_deny_io_range a b s) = cr0_pe s" "cr0_pg (vmx_deny_io_range a b s) = cr0_pg s"
    "cr4_pae (vmx_deny_io_range a b s) = cr4_pae s" "efer_lma (vmx_deny_io_range a b s) = efer_lma s"
    "gs_reg (vmx_deny_io_range a b s) = gs_reg s" "dt_exit (vmx_deny_io_range a b s) = dt_exit s"
    "dflt_excp (vmx_deny_io_range a b s) = dflt_excp s" "idt_limit_rmode (vmx_deny_io_range a b s) = idt_limit_rmode s"
    "cr0_real (vmx_deny_io_range a b s) = cr0_real s" "cr4_real (vmx_deny_io_range a b s) = cr4_real s"
    "efer_hw (vmx_deny_io_range a b s) = efer_hw s" "entry_ia32e (vmx_deny_io_range a b s) = entry_ia32e s"
  by (subst io_range_eq; simp)+

lemmas enter_defs = vm_enter_pmode_def vm_enter_rmode_def Let_def uu_update_exception_mask_def uu_allow_soft_int_def
  uu_deny_soft_int_def

lemma enter_pmode_sel [simp]:
  "cr0_pe (vm_enter_pmode s) = cr0_pe s" "cr0_pg (vm_enter_pmode s) = cr0_pg s" "cr4_pae (vm_enter_pmode s) = cr4_pae s"
  "efer_lma (vm_enter_pmode s) = efer_lma s" "cr0_real (vm_enter_pmode s) = cr0_real s" "cr4_real (vm_enter_pmode s) = cr4_real s"
  "efer_hw (vm_enter_pmode s) = efer_hw s" "entry_ia32e (vm_enter_pmode s) = entry_ia32e s" "idt_limit_rmode (vm_enter_pmode s) = idt_limit_rmode s"
  "gs_reg (vm_enter_pmode s) R_EFER = gs_reg s R_EFER" "gs_reg (vm_enter_pmode s) R_CR0 = gs_reg s R_CR0" "gs_reg (vm_enter_pmode s) R_CR4 = gs_reg s R_CR4"
  by (simp_all add: enter_defs set_idt_limit_def)

lemma enter_rmode_sel [simp]:
  "cr0_pe (vm_enter_rmode s) = cr0_pe s" "cr0_pg (vm_enter_rmode s) = cr0_pg s" "cr4_pae (vm_enter_rmode s) = cr4_pae s"
  "efer_lma (vm_enter_rmode s) = efer_lma s" "cr0_real (vm_enter_rmode s) = cr0_real s" "cr4_real (vm_enter_rmode s) = cr4_real s"
  "efer_hw (vm_enter_rmode s) = efer_hw s" "entry_ia32e (vm_enter_rmode s) = entry_ia32e s" "idt_limit_rmode (vm_enter_rmode s) = idt_limit_rmode s"
  "gs_reg (vm_enter_rmode s) R_EFER = gs_reg s R_EFER" "gs_reg (vm_enter_rmode s) R_CR0 = gs_reg s R_CR0" "gs_reg (vm_enter_rmode s) R_CR4 = gs_reg s R_CR4"
  by (simp_all add: enter_defs set_idt_limit_def)

lemma enter_exits:
  "\<not> dt_exit (vm_enter_pmode s)" "dflt_excp (vm_enter_pmode s) = VM_PMODE_EXCP_BITMAP"
  "p \<in> kbd_ports \<Longrightarrow> \<not> io_denied (vm_enter_pmode s) p" "idt_limit (vm_enter_pmode s) = idt_limit_saved s"
  "dt_exit (vm_enter_rmode s)" "dflt_excp (vm_enter_rmode s) = VM_RMODE_EXCP_BITMAP"
  "p \<in> kbd_ports \<Longrightarrow> io_denied (vm_enter_rmode s) p" "idt_limit (vm_enter_rmode s) = idt_limit_rmode s"
proof -
  have "idt_limit (vmx_allow_io_range a b t) = idt_limit t" "idt_limit (vmx_deny_io_range a b t) = idt_limit t"
    for a b and t :: "'a cpu_vm_scheme" by (simp_all add: idt_limit_def)
  then show "idt_limit (vm_enter_pmode s) = idt_limit_saved s" "idt_limit (vm_enter_rmode s) = idt_limit_rmode s"
    by (simp_all add: enter_defs)
qed (auto simp: enter_defs set_idt_limit_def kbd_ports_iff denied_range)

lemma cr0_update_sel [simp]:
  "cr0_pe (uu_cr0_update g s) = bit g 0" "cr0_pg (uu_cr0_update g s) = bit g 31" "cr4_pae (uu_cr0_update g s) = cr4_pae s"
  "efer_lma (uu_cr0_update g s) = efer_lma s" "efer_lme (uu_cr0_update g s) = efer_lme s" "dt_exit (uu_cr0_update g s) = dt_exit s"
  "dflt_excp (uu_cr0_update g s) = dflt_excp s" "io_denied (uu_cr0_update g s) = io_denied s"
  "idt_limit (uu_cr0_update g s) = idt_limit s" "idt_limit_rmode (uu_cr0_update g s) = idt_limit_rmode s"
  "cr0_real (uu_cr0_update g s) = set_field 0 32 g (cr0_real s)" "cr4_real (uu_cr0_update g s) = cr4_real s"
  "efer_hw (uu_cr0_update g s) = efer_hw s" "entry_ia32e (uu_cr0_update g s) = entry_ia32e s"
  by (simp_all add: uu_cr0_update_def Let_def bit_set_field efer_lme_reg idt_limit_def)

lemma cr4_update_sel [simp]:
  "cr0_pe (uu_cr4_update g s) = cr0_pe s" "cr0_pg (uu_cr4_update g s) = cr0_pg s" "cr4_pae (uu_cr4_update g s) = bit g 5"
  "efer_lma (uu_cr4_update g s) = efer_lma s" "efer_lme (uu_cr4_update g s) = efer_lme s" "dt_exit (uu_cr4_update g s) = dt_exit s"
  "dflt_excp (uu_cr4_update g s) = dflt_excp s" "io_denied (uu_cr4_update g s) = io_denied s"
  "idt_limit (uu_cr4_update g s) = idt_limit s" "idt_limit_rmode (uu_cr4_update g s) = idt_limit_rmode s"
  "cr0_real (uu_cr4_update g s) = cr0_real s" "cr4_real (uu_cr4_update g s) = set_field 0 32 g (cr4_real s)"
  "efer_hw (uu_cr4_update g s) = efer_hw s" "entry_ia32e (uu_cr4_update g s) = entry_ia32e s"
  by (simp_all add: uu_cr4_update_def Let_def bit_set_field efer_lme_reg idt_limit_def)

lemma efer_update_sel [simp]:
  "cr0_pe (uu_efer_update pg s) = cr0_pe s" "cr0_pg (uu_efer_update pg s) = cr0_pg s" "cr4_pae (uu_efer_update pg s) = cr4_pae s"
  "efer_lme (uu_efer_update pg s) = efer_lme s" "dt_exit (uu_efer_update pg s) = dt_exit s"
  "dflt_excp (uu_efer_update pg s) = dflt_excp s" "io_denied (uu_efer_update pg s) = io_denied s"
  "idt_limit (uu_efer_update pg s) = idt_limit s" "idt_limit_rmode (uu_efer_update pg s) = idt_limit_rmode s"
  "cr0_real (uu_efer_update pg s) = cr0_real s" "cr4_real (uu_efer_update pg s) = cr4_real s"
  by (simp_all add: uu_efer_update_def uu_vmx_update_efer_lma_def efer_lme_reg idt_limit_def)

lemma efer_update_lma:
  "efer_lma (uu_efer_update pg s) = (if pg then cr4_pae s \<and> efer_lme s \<or> efer_lma s else False)"
  "entry_ia32e s = efer_lma s \<Longrightarrow> entry_ia32e (uu_efer_update pg s) = efer_lma (uu_efer_update pg s)"
  "bit (efer_hw s) 10 = efer_lma s \<Longrightarrow> bit (efer_hw (uu_efer_update pg s)) 10 = efer_lma (uu_efer_update pg s)"
  by (auto simp: uu_efer_update_def uu_vmx_update_efer_lma_def bit_put_flag)

lemma bit_upd [simp]:
  "bit (ucast x XOR ucast y :: u32) n \<longleftrightarrow> n < 32 \<and> bit x n \<noteq> bit y n" for x y :: u64
  by (auto simp: bit_simps dest: bit_imp_le_length)

lemmas cr_bits = CR0_PE_BIT_def CR0_PG_BIT_def CR0_NW_BIT_def CR0_CD_BIT_def CR0_TS_BIT_def CR4_PAE_BIT_def
  CR4_PSE_BIT_def CR4_PGE_BIT_def

lemma cr0_bits [simp]: "bit (vm_reg_get R_CR0 s) 0 = cr0_pe s" "bit (vm_reg_get R_CR0 s) 31 = cr0_pg s"
  "bit (vm_reg_get R_CR4 s) 5 = cr4_pae s"
  by (simp_all add: bit_put_flag)

text \<open>The state in which the write of \<^verbatim>\<open>cr0\<close> looks at the page directory pointers.\<close>

definition cr0_written :: "u64 \<Rightarrow> 'a cpu_vm_scheme \<Rightarrow> 'a cpu_vm_scheme" where
  "cr0_written g s =
     (let s1 = (if cr0_pg s \<noteq> bit g 31 then uu_efer_update (bit g 31) s else s);
          s2 = (if cr0_pe s \<noteq> bit g 0 then (if bit g 0 then vm_enter_pmode s1 else vm_enter_rmode s1) else s1)
      in uu_cr0_update g s2)"

lemma cr0_wr_eq:
  "uu_resolve_cr0_wr g s =
     (if uu_invalid_cr0_setup g \<or> cr0_pg s \<noteq> bit g 31 \<and> bit g 31 \<and> efer_lme s \<and> (\<not> cr4_pae s \<or> cs_l s)
      then inject_gp s
      else pdpe_check (bit (vm_reg_get R_CR0 s) 29 \<noteq> bit g 29 \<or> bit (vm_reg_get R_CR0 s) 30 \<noteq> bit g 30
             \<or> cr0_pg s \<noteq> bit g 31) (cr0_written g s))"
  by (auto simp: uu_resolve_cr0_wr_def cr0_written_def uu_invalid_cr0_lmode_check_def Let_def cr_bits simp del: vm_reg_get.simps)

lemma cr0_written_ok:
  assumes "mode_ok s" and "\<not> uu_invalid_cr0_setup g"
  shows "mode_ok (cr0_written g s)"
proof -
  define s1 where "s1 = (if cr0_pg s \<noteq> bit g 31 then uu_efer_update (bit g 31) s else s)"
  define s2 where "s2 = (if cr0_pe s \<noteq> bit g 0 then (if bit g 0 then vm_enter_pmode s1 else vm_enter_rmode s1) else s1)"
  have w: "cr0_written g s = uu_cr0_update g s2" by (simp add: cr0_written_def s1_def s2_def)
  have r: "mode_regs s" and e: "mode_exits s" using assms(1) by (simp_all add: mode_ok_def)
  have s1: "efer_lma s1 \<Longrightarrow> bit g 31 \<and> cr4_pae s \<and> efer_lme s" "entry_ia32e s1 = efer_lma s1" "bit (efer_hw s1) 10 = efer_lma s1"
    "cr4_pae s1 = cr4_pae s" "efer_lme s1 = efer_lme s" "cr4_real s1 = cr4_real s" "mode_exits s1 = mode_exits s"
    using r by (auto simp: s1_def mode_regs_def mode_exits_def efer_update_lma split: if_splits)
  have l2: "efer_lme s2 = efer_lme s1" by (simp add: s2_def efer_lme_reg)
  have s2: "efer_lma s2 = efer_lma s1" "cr4_pae s2 = cr4_pae s1" "entry_ia32e s2 = entry_ia32e s1" "efer_hw s2 = efer_hw s1"
    "cr4_real s2 = cr4_real s1" by (simp_all add: s2_def)
  have "mode_regs (uu_cr0_update g s2)"
    using r s1 s2 l2 assms(2) by (auto simp: mode_regs_def bit_set_field uu_invalid_cr0_setup_def cr_bits)
  moreover have "mode_exits (uu_cr0_update g s2)"
    using e s1(7) by (auto simp: mode_exits_def s2_def enter_exits s1_def split: if_splits)
  ultimately show ?thesis by (simp add: w mode_ok_def)
qed

lemma cr_writes_ok:
  assumes "mode_ok s"
  shows "mode_ok (snd (uu_resolve_cr0_wr g s))" "mode_ok (snd (uu_resolve_cr3_wr g s))" "mode_ok (snd (uu_resolve_cr4_wr g s))"
proof -
  have "mode_ok (snd (inject_gp s))" using assms mode_ok_view [of "snd (inject_gp s)" s] by simp
  moreover have "mode_ok (snd (pdpe_check u (cr0_written g s)))" if "\<not> uu_invalid_cr0_setup g" for u
    using cr0_written_ok [OF assms that] mode_ok_view [of "snd (pdpe_check u (cr0_written g s))" "cr0_written g s"] by simp
  ultimately show "mode_ok (snd (uu_resolve_cr0_wr g s))" by (simp add: cr0_wr_eq del: vm_reg_get.simps)
  have "mode_view (snd (uu_resolve_cr3_wr g s)) = mode_view s"
  proof -
    obtain rc t where p: "pdpe_check True (s\<lparr>vm_cr3 := if uu_lmode64 s then g else set_field 0 32 g (vm_cr3 s)\<rparr>) = (rc, t)" by fastforce
    have "mode_view t = mode_view s" using view_pdpe_check [of True "s\<lparr>vm_cr3 := if uu_lmode64 s then g else set_field 0 32 g (vm_cr3 s)\<rparr>"] p by simp
    then show ?thesis by (simp add: uu_resolve_cr3_wr_def Let_def p)
  qed
  then show "mode_ok (snd (uu_resolve_cr3_wr g s))" using assms mode_ok_view by blast
  have "mode_ok (uu_cr4_update g s)" if "\<not> (efer_lma s \<and> \<not> bit g 5 \<and> cr4_pae s)"
    using assms that by (auto simp: mode_ok_def mode_regs_def mode_exits_def bit_set_field)
  then have "mode_ok (snd (pdpe_check u (uu_cr4_update g s)))" if "\<not> (efer_lma s \<and> \<not> bit g 5 \<and> cr4_pae s)" for u
    using that mode_ok_view [OF view_pdpe_check, of u "uu_cr4_update g s"] by blast
  with \<open>mode_ok (snd (inject_gp s))\<close> show "mode_ok (snd (uu_resolve_cr4_wr g s))"
    by (auto simp: uu_resolve_cr4_wr_def Let_def cr_bits simp del: vm_reg_get.simps)
qed

lemma cr_access_ok:
  assumes "mode_ok s"
  shows "mode_ok (snd (uu_resolve_cr_wr_with cr v s))" "mode_ok (snd (uu_resolve_cr wr cr gpr s))" "mode_ok (snd (emulate_clts s))"
proof -
  have evt: "mode_ok (snd (ctrl_evt_cr_wr n t)) = mode_ok t" "mode_ok (snd (ctrl_evt_cr_rd n t)) = mode_ok t" "mode_ok (snd (inject_gp t)) = mode_ok t"
    "mode_ok (set_gpr i x t) = mode_ok t" for n i x and t :: "'a cpu_vm_scheme"
    by (rule mode_ok_view; simp)+
  show w: "mode_ok (snd (uu_resolve_cr_wr_with cr v s))" for v
    using assms cr_writes_ok [OF assms, of v] by (simp add: uu_resolve_cr_wr_with_def split_beta evt)
  show "mode_ok (snd (uu_resolve_cr wr cr gpr s))"
    using assms w by (simp add: uu_resolve_cr_def uu_resolve_cr_wr_def uu_resolve_cr_rd_def Let_def evt)
  have "mode_ok (uu_cr0_update (unset_bit CR0_TS_BIT (vm_reg_get R_CR0 s)) s)"
    using assms by (auto simp: mode_ok_def mode_regs_def mode_exits_def bit_set_field bit_unset_bit_iff cr_bits simp del: vm_reg_get.simps)
  then show "mode_ok (snd (emulate_clts s))" using assms by (simp add: emulate_clts_def evt del: vm_reg_get.simps)
qed

text \<open>C34: whatever the guest does with its control registers, refused or not, the mode of the
  guest stays well formed: shadow and processor agree on protected mode, paging and long mode,
  no mode is active without what it needs, and exactly the exits of the mode are enabled.\<close>

theorem cr_access_keeps_mode:
  assumes "mode_ok s"
  shows "mode_ok (snd (vmx_vmexit_resolve_cr_access s))"
proof -
  have d: "mode_ok (snd (emulate_done rc n t)) = mode_ok t" for rc n and t :: "'a cpu_vm_scheme"
    by (rule mode_ok_view) simp
  show ?thesis
    using assms cr_access_ok [OF assms]
    by (simp add: vmx_vmexit_resolve_cr_access_def vmx_vmexit_resolve_lmsw_def Let_def split_beta d del: vm_reg_get.simps)
qed

lemma pdpe_fault:
  assumes "pdpe_check u s = (VM_FAULT, s')"
  shows "evt_vector (vm_evt s') = 13" "evt_v (vm_evt s')" "mode_view s' = mode_view s" "gs_reg s' = gs_reg s"
proof -
  obtain t where t: "s' = snd (inject_gp t)" "t = snd (vmx_ept_update_pdpe s)"
    using assms by (auto simp: pdpe_check_def inject_gp_def vmerr_defs Let_def split: if_splits prod.splits)
  have "gs_reg (snd (pdpe_loop p is r)) = gs_reg r" for p "is" and r :: "'a cpu_vm_scheme"
    by (induction "is" arbitrary: r) (auto simp: vmx_ept_pdpe_to_pae_pdpe_def Let_def)
  then have "gs_reg t = gs_reg s" by (simp add: t(2) vmx_ept_update_pdpe_def Let_def del: pdpe_loop.simps)
  then show "gs_reg s' = gs_reg s" "evt_vector (vm_evt s') = 13" "evt_v (vm_evt s')"
    by (simp_all add: t(1) inject_gp_def uu_vmx_vmexit_inject_exception_def Let_def uu_vmx_prepare_event_injection_def GP_EXCP_def)
  show "mode_view s' = mode_view s" using assms view_pdpe_check [of u s] by simp
qed

lemma cr_wr_evt_sel [simp]:
  "vm_evt (snd (ctrl_evt_cr_wr n s)) = vm_evt s" "cr3_dirty (snd (ctrl_evt_cr_wr n s)) = cr3_dirty s"
  "vm_reg_get r (snd (ctrl_evt_cr_wr n s)) = vm_reg_get r s" for s :: "'a cpu_vm_scheme"
  by (simp_all add: ctrl_evt_cr_wr_def uu_ctrl_evt_cr_wr_usr_def ctrl_evt_setup_def Let_def)
    (cases "(r, s)" rule: vm_reg_get.cases; simp)

lemma inject_gp_sel: "snd (inject_gp s) = s\<lparr>vm_evt := vm_evt (snd (inject_gp s)), vm_err_code := 0\<rparr>"
  "evt_vector (vm_evt (snd (inject_gp s))) = 13"
  by (simp_all add: inject_gp_def uu_vmx_vmexit_inject_exception_def Let_def uu_vmx_prepare_event_injection_def
      GP_EXCP_def PF_EXCP_def)

lemma cr_regs_view:
  assumes "mode_view t = mode_view s" and "gs_reg t = gs_reg s"
  shows "vm_reg_get R_CR0 t = vm_reg_get R_CR0 s"
  using assms by (simp add: mode_view_def)

lemma inject_gp_reg [simp]: "vm_reg_get r (snd (inject_gp s)) = vm_reg_get r s"
  by (subst inject_gp_sel(1)) (cases "(r, s)" rule: vm_reg_get.cases; simp)

lemma low32_written:
  "take_bit 32 (vm_reg_get R_CR0 (cr0_written g s)) = take_bit 32 g"
  "take_bit 32 (vm_reg_get R_CR4 (uu_cr4_update g s)) = take_bit 32 g"
  unfolding cr0_written_def Let_def uu_cr0_update_def uu_cr4_update_def vm_reg_get_put
  by (rule bit_eqI; auto simp: bit_simps bit_set_field)+

lemma pdpe_fault_regs:
  assumes "pdpe_check u s = (VM_FAULT, s')"
  shows "vm_reg_get R_CR0 s' = vm_reg_get R_CR0 s" "vm_reg_get R_CR4 s' = vm_reg_get R_CR4 s" "cr3_dirty s' = cr3_dirty s"
proof -
  have upd: "vm_reg_get r (t\<lparr>vm_pdpe := l\<rparr>) = vm_reg_get r t" for r l and t :: "'a cpu_vm_scheme"
    by (cases "(r, t)" rule: vm_reg_get.cases) simp_all
  have sel: "vm_reg_get r (snd (pdpe_loop p is t)) = vm_reg_get r t \<and> cr3_dirty (snd (pdpe_loop p is t)) = cr3_dirty t"
    for r p "is" and t :: "'a cpu_vm_scheme"
    by (induction "is" arbitrary: t) (simp_all add: vmx_ept_pdpe_to_pae_pdpe_def Let_def upd del: vm_reg_get.simps)
  have "s' = snd (inject_gp (snd (vmx_ept_update_pdpe s)))"
    using assms by (auto simp: pdpe_check_def inject_gp_def vmerr_defs Let_def split: if_splits prod.splits)
  moreover have "cr3_dirty (snd (inject_gp t)) = cr3_dirty t" for t :: "'a cpu_vm_scheme"
    by (subst inject_gp_sel(1)) simp
  ultimately show "vm_reg_get R_CR0 s' = vm_reg_get R_CR0 s" "vm_reg_get R_CR4 s' = vm_reg_get R_CR4 s" "cr3_dirty s' = cr3_dirty s"
    using sel by (simp_all add: vmx_ept_update_pdpe_def Let_def del: pdpe_loop.simps vm_reg_get.simps)
qed

text \<open>The writes that are refused before anything is changed.\<close>

definition cr_refused :: "u8 \<Rightarrow> u64 \<Rightarrow> 'a cpu_vm_scheme \<Rightarrow> bool" where
  "cr_refused cr g s \<longleftrightarrow>
     (if cr = 0
      then uu_invalid_cr0_setup g \<or> cr0_pg s \<noteq> bit g 31 \<and> bit g 31 \<and> efer_lme s \<and> (\<not> cr4_pae s \<or> cs_l s)
      else cr = 4 \<and> efer_lma s \<and> cr4_pae s \<and> \<not> bit g 5)"

lemma cr0_fault:
  assumes "uu_resolve_cr0_wr g s = (VM_FAULT, s')"
  shows "evt_vector (vm_evt s') = 13
    \<and> (if cr_refused 0 g s then vm_reg_get R_CR0 s' = vm_reg_get R_CR0 s
       else take_bit 32 (vm_reg_get R_CR0 s') = take_bit 32 g)"
proof (cases "cr_refused 0 g s")
  case True
  then have "s' = snd (inject_gp s)" using assms by (simp add: cr0_wr_eq cr_refused_def del: vm_reg_get.simps)
  with True show ?thesis using inject_gp_sel(2) [of s] inject_gp_reg [of R_CR0 s] by simp
next
  case False
  then obtain u where p: "pdpe_check u (cr0_written g s) = (VM_FAULT, s')"
    using assms by (metis cr0_wr_eq cr_refused_def)
  show ?thesis using False pdpe_fault(1) [OF p] pdpe_fault_regs(1) [OF p] low32_written(1) by metis
qed

lemma cr4_fault:
  assumes "uu_resolve_cr4_wr g s = (VM_FAULT, s')"
  shows "evt_vector (vm_evt s') = 13
    \<and> (if cr_refused 4 g s then vm_reg_get R_CR4 s' = vm_reg_get R_CR4 s
       else take_bit 32 (vm_reg_get R_CR4 s') = take_bit 32 g)"
proof (cases "cr_refused 4 g s")
  case True
  then have "s' = snd (inject_gp s)"
    using assms by (simp add: uu_resolve_cr4_wr_def Let_def cr_bits cr_refused_def del: vm_reg_get.simps)
  with True show ?thesis using inject_gp_sel(2) [of s] inject_gp_reg [of R_CR4 s] by simp
next
  case False
  then obtain u where p: "pdpe_check u (uu_cr4_update g s) = (VM_FAULT, s')"
    using assms by (auto simp add: uu_resolve_cr4_wr_def Let_def cr_bits cr_refused_def simp del: vm_reg_get.simps split: if_splits)
  show ?thesis using False pdpe_fault(1) [OF p] pdpe_fault_regs(2) [OF p] low32_written(2) by metis
qed

lemma cr3_fault:
  assumes "uu_resolve_cr3_wr g s = (VM_FAULT, s')"
  shows "evt_vector (vm_evt s') = 13 \<and> cr3_dirty s' = cr3_dirty s"
proof -
  define t where "t = s\<lparr>vm_cr3 := if uu_lmode64 s then g else set_field 0 32 g (vm_cr3 s)\<rparr>"
  have p: "pdpe_check True t = (VM_FAULT, s')"
    using assms by (auto simp: uu_resolve_cr3_wr_def Let_def t_def vmerr_defs split: prod.splits if_splits)
  show ?thesis using pdpe_fault(1) [OF p] pdpe_fault_regs(3) [OF p] by (simp add: t_def)
qed

text \<open>A write of a control register that the guest is refused raises a general protection
  fault, and the guest must then find the register as it was. So it is for the page table base,
  which is not written back, and for the values that are refused at once; but when the
  fault comes from the page directory pointers, the new value of \<^verbatim>\<open>cr0\<close> or \<^verbatim>\<open>cr4\<close> is kept.\<close>

theorem cr_fault_keeps_new_value:
  assumes "uu_resolve_cr_wr_with cr v s = (VM_FAULT, s')"
  shows "evt_vector (vm_evt s') = 13 \<and> (cr = 3 \<longrightarrow> cr3_dirty s' = cr3_dirty s)
    \<and> (cr \<noteq> 3 \<longrightarrow> (if cr_refused cr v s then cr_get cr s' = cr_get cr s
                   else take_bit 32 (cr_get cr s') = take_bit 32 v))"
proof -
  obtain t where t: "s' = snd (ctrl_evt_cr_wr (unat cr) t)"
    "cr = 0 \<and> uu_resolve_cr0_wr v s = (VM_FAULT, t) \<or> cr = 3 \<and> uu_resolve_cr3_wr v s = (VM_FAULT, t)
      \<or> cr = 4 \<and> uu_resolve_cr4_wr v s = (VM_FAULT, t)"
    using assms by (auto simp: uu_resolve_cr_wr_with_def vmerr_defs split: if_splits prod.splits)
  then show ?thesis
    using cr0_fault [of v s t] cr3_fault [of v s t] cr4_fault [of v s t] by (auto simp: cr_get_def simp del: vm_reg_get.simps)
qed

text \<open>The instruction \<^verbatim>\<open>lmsw\<close> cannot leave protected mode on a processor; here it does, since the
  low bits of its operand replace those of the register.\<close>

lemma lmsw_leaves_pmode:
  assumes "\<not> cr0_pg s" and "\<not> bit v 0" and "bit (vm_reg_get R_CR0 s) 29 \<longrightarrow> bit (vm_reg_get R_CR0 s) 30"
  shows "\<not> cr0_pe (snd (vmx_vmexit_resolve_lmsw v s)) \<and> fst (vmx_vmexit_resolve_lmsw v s) = VM_DONE"
proof -
  define g where "g = (vm_reg_get R_CR0 s AND NOT 0xf) OR (ucast v AND 0xf)"
  have hi: "bit g n = bit (vm_reg_get R_CR0 s) n" if "4 \<le> n" for n
  proof -
    have "\<not> bit (0xf :: u64) n" using that bit_mask_iff [of 4 n, where 'a = u64] by (simp add: mask_eq_exp_minus_1)
    then show ?thesis using that by (auto simp: g_def bit_simps dest: bit_imp_le_length)
  qed
  have lo: "\<not> bit g 0" using assms(2) by (simp add: g_def bit_simps)
  have pg: "\<not> bit g 31" using hi [of 31] assms(1) by (simp del: vm_reg_get.simps)
  have ok: "\<not> uu_invalid_cr0_setup g"
    using pg hi [of 29] hi [of 30] assms(3) by (simp add: uu_invalid_cr0_setup_def cr_bits)
  have "uu_resolve_cr0_wr g s = pdpe_check (bit (vm_reg_get R_CR0 s) 29 \<noteq> bit g 29 \<or> bit (vm_reg_get R_CR0 s) 30 \<noteq> bit g 30
             \<or> cr0_pg s \<noteq> bit g 31) (cr0_written g s)"
    using ok pg by (simp add: cr0_wr_eq del: vm_reg_get.simps)
  also have "\<dots> = (VM_DONE, cr0_written g s)" using pg by (simp add: pdpe_check_def cr0_written_def Let_def)
  finally have "uu_resolve_cr0_wr g s = (VM_DONE, cr0_written g s)" .
  moreover have "cr0_pe (snd (ctrl_evt_cr_wr n t)) = cr0_pe t" for n and t :: "'a cpu_vm_scheme"
    using view_cr_evt(1) [of n t] by (simp add: mode_view_def)
  ultimately show ?thesis
    using lo unfolding vmx_vmexit_resolve_lmsw_def g_def [symmetric]
    by (simp add: uu_resolve_cr_wr_with_def, simp add: cr0_written_def Let_def)
qed

section \<open>Concrete runs\<close>

text \<open>A guest in real mode.\<close>

definition cpu_ex :: cpu_vm where
  "cpu_ex = (io_vm.extend io_ex (cpu_vm.fields 0 0 0 False False [0, 0, 0, 0] 0xffffffff True 0x3ff 0))
     \<lparr>cr0_pe := False, cr0_pg := False, cr4_pae := False, efer_lma := False, cs_l := False,
      dflt_excp := VM_RMODE_EXCP_BITMAP, io_denied := \<lambda>p. p \<in> kbd_ports\<rparr>"

lemma cpu_ex_sel [simp]:
  "\<not> cr0_pe cpu_ex" "\<not> cr0_pg cpu_ex" "\<not> cr4_pae cpu_ex" "\<not> efer_lma cpu_ex" "\<not> cs_l cpu_ex"
  "dflt_excp cpu_ex = VM_RMODE_EXCP_BITMAP" "io_denied cpu_ex = (\<lambda>p. p \<in> kbd_ports)" "dt_exit cpu_ex"
  "cr0_real cpu_ex = 0" "cr4_real cpu_ex = 0" "efer_hw cpu_ex = 0" "\<not> entry_ia32e cpu_ex" "idt_limit_rmode cpu_ex = 0"
  "gs_reg cpu_ex = (\<lambda>_. 0)" "vm_cr3 cpu_ex = 0x1000" "vm_mem cpu_ex = ex_mem" "area_start cpu_ex = 0x10000"
  "area_end cpu_ex = 0x20000" "max_paddr cpu_ex = 0xffffffff" "vm_gpr cpu_ex = replicate 16 0" "vm_rsp cpu_ex = 0"
  "vm_cpl cpu_ex = 0" "cs_base cpu_ex = 0" "ss_base cpu_ex = 0" "idt_limit_saved cpu_ex = 0x3ff"
  by (simp_all add: cpu_ex_def cpu_vm.defs io_vm.defs io_ex_def gdb_ex_def gdb_state.defs ctrl_ex_def dbg_ex_def dbg_vm.defs
      ctrl_vm.defs vm_cpu.defs vm_ex_def)

theorem cr_access_keeps_mode_witness:
  "mode_ok cpu_ex \<and> mode_ok (snd (vmx_vmexit_resolve_cr_access cpu_ex))"
proof -
  have "mode_ok cpu_ex"
    by (simp add: mode_ok_def mode_exits_def mode_regs_def idt_limit_def)
  with cr_access_keeps_mode [of cpu_ex] show ?thesis by blast
qed

theorem cr_fault_keeps_new_value_witness:
  "\<exists>s'. uu_resolve_cr_wr_with 0 0xc0000001 (cpu_ex\<lparr>cr0_pe := True, cr0_pg := True, cr4_pae := True\<rparr>) = (VM_FAULT, s')
     \<and> take_bit 32 (cr_get 0 s') = 0xc0000001"
proof -
  let ?s = "cpu_ex\<lparr>cr0_pe := True, cr0_pg := True, cr4_pae := True\<rparr>"
  have b: "bit (0xc0000001 :: u64) 0" "bit (0xc0000001 :: u64) 31" "bit (0xc0000001 :: u64) 30" "\<not> bit (0xc0000001 :: u64) 29"
    "take_bit 32 (0xc0000001 :: u64) = 0xc0000001" by code_simp+
  have ok: "\<not> cr_refused 0 0xc0000001 ?s" using b by (simp add: cr_refused_def uu_invalid_cr0_setup_def cr_bits)
  have w: "cr0_written 0xc0000001 ?s = uu_cr0_update 0xc0000001 ?s" using b by (simp add: cr0_written_def)
  have st: "vm_mem (uu_cr0_update 0xc0000001 ?s) = ex_mem" "vm_cr3 (uu_cr0_update 0xc0000001 ?s) = 0x1000"
    "area_start (uu_cr0_update 0xc0000001 ?s) = 0x10000" "area_end (uu_cr0_update 0xc0000001 ?s) = 0x20000"
    by (simp_all add: uu_cr0_update_def)
  have rd: "rd_u64 (uu_cr0_update 0xc0000001 ?s) 0x1000 = 0x2007"
    unfolding rd_u64_def st by (simp add: ex_mem_def upt_conv_Cons)
  have pd: "push_bit 5 (get_field 5 27 (0x1000 :: u64)) = 0x1000" "get_field 1 2 (0x2007 :: u64) \<noteq> 0" "bit (0x2007 :: u64) 0"
    by code_simp+
  have "\<not> fst (vmx_ept_update_pdpe (uu_cr0_update 0xc0000001 ?s))"
    using pd rd by (simp add: vmx_ept_update_pdpe_def Let_def st vmm_area_def vmx_ept_pdpe_to_pae_pdpe_def valid_pae_pdpe_def)
  then have "fst (pdpe_check True (uu_cr0_update 0xc0000001 ?s)) = VM_FAULT"
    using b by (simp add: pdpe_check_def inject_gp_def split_beta)
  moreover have "bit (vm_reg_get R_CR0 ?s) 30 = False" by (simp add: bit_put_flag)
  ultimately have "fst (uu_resolve_cr0_wr 0xc0000001 ?s) = VM_FAULT"
    using ok b w by (simp add: cr0_wr_eq cr_refused_def del: vm_reg_get.simps)
  then have "fst (uu_resolve_cr_wr_with 0 0xc0000001 ?s) = VM_FAULT" by (simp add: uu_resolve_cr_wr_with_def split_beta)
  then obtain s' where "uu_resolve_cr_wr_with 0 0xc0000001 ?s = (VM_FAULT, s')" by (metis prod.collapse)
  with cr_fault_keeps_new_value [OF this] ok b show ?thesis by auto
qed

end
