(* ===== verification/Rmode.thy ===== *)
theory Rmode
  imports Cr
begin

text \<open>
  Emulation of instructions: the interrupts of a guest in real mode,
  \<^verbatim>\<open>vmm/src/core/emulate_rmode.c\<close>, the services of interrupt 15h that the vmm answers itself,
  \<^verbatim>\<open>emulate_int15.c\<close>, the other instructions of \<^verbatim>\<open>emulate_int.c\<close> and \<^verbatim>\<open>emulate_insn.c\<close>, and the
  fetch of an instruction, \<^verbatim>\<open>disasm.c\<close>. The disassembler library is an argument: a function
  from the mode and the bytes to the decoded instruction. In real mode the vmm reads and writes the
  stack and the interrupt table of the guest directly.
\<close>

section \<open>State\<close>

record ud_operand =
  op_type :: nat
  op_base :: nat
  op_ubyte :: u8

record ud_t =
  ud_mn :: ud_mnemonic
  ud_op0 :: ud_operand
  ud_op1 :: ud_operand
  ud_pfx_lock :: u8
  ud_pfx_rex :: u8
  ud_len :: u64

type_synonym ud_lib = "nat \<Rightarrow> bytes \<Rightarrow> ud_t option"

record smap_e =
  smap_base :: u64
  smap_len :: u64
  smap_type :: u32

record rm_vm = cpu_vm +
  vm_disasm :: ud_t
  insn_cache :: bytes
  vm_smap :: "smap_e list"
  sysenter_eip :: u64
  sysenter_esp :: u64

definition GPR64_RDX :: nat where "GPR64_RDX = 13"
definition GPR64_RBX :: nat where "GPR64_RBX = 12"

text \<open>A part of a general register, as the unions of \<^verbatim>\<open>raw64_t\<close> name it.\<close>

definition gpr_get :: "nat \<Rightarrow> nat \<Rightarrow> nat \<Rightarrow> 'a dbg_vm_scheme \<Rightarrow> u64" where
  "gpr_get r sh w s = get_field sh w (get_gpr r s)"

definition gpr_put :: "nat \<Rightarrow> nat \<Rightarrow> nat \<Rightarrow> u64 \<Rightarrow> 'a dbg_vm_scheme \<Rightarrow> 'a dbg_vm_scheme" where
  "gpr_put r sh w v s = set_gpr r (set_field sh w v (get_gpr r s)) s"

definition set_rflag :: "nat \<Rightarrow> bool \<Rightarrow> 'a gdb_state_scheme \<Rightarrow> 'a gdb_state_scheme" where
  "set_rflag k b s = vm_reg_put R_RFLAGS (put_flag k b (vm_reg_get R_RFLAGS s)) s"

definition rd_u16 :: "'a vm_state_scheme \<Rightarrow> offset_t \<Rightarrow> u16" where
  "rd_u16 s a = of_le_bytes (mem_read (vm_mem s) a 2)"

definition wr_u16 :: "offset_t \<Rightarrow> u16 \<Rightarrow> 'a vm_state_scheme \<Rightarrow> 'a vm_state_scheme" where
  "wr_u16 a v s = s\<lparr>vm_mem := mem_write (vm_mem s) a (le_bytes 2 v)\<rparr>"

section \<open>Stack and far transfers\<close>

definition rmode_stack :: "'a dbg_vm_scheme \<Rightarrow> offset_t" where
  "rmode_stack s = ucast (ucast (ss_base s) + ucast (gpr_get GPR64_RSP 0 16 s) :: u32)"

definition emulate_rmode_push :: "u16 \<Rightarrow> 'a dbg_vm_scheme \<Rightarrow> 'a dbg_vm_scheme" where
  "emulate_rmode_push v s =
     (let s = gpr_put GPR64_RSP 0 16 (gpr_get GPR64_RSP 0 16 s - 2) s in wr_u16 (rmode_stack s) v s)"

definition emulate_rmode_pop :: "'a dbg_vm_scheme \<Rightarrow> u16 \<times> 'a dbg_vm_scheme" where
  "emulate_rmode_pop s =
     (rd_u16 s (rmode_stack s), gpr_put GPR64_RSP 0 16 (gpr_get GPR64_RSP 0 16 s + 2) s)"

definition set_cs_rm :: "u16 \<Rightarrow> 'a gdb_state_scheme \<Rightarrow> 'a gdb_state_scheme" where
  "set_cs_rm sel s =
     (let s = vm_reg_put (R_SEL CS) (set_field 0 16 (ucast sel) (vm_reg_get (R_SEL CS) s)) s
      in s\<lparr>cs_base := set_field 0 32 (push_bit 4 (ucast sel)) (cs_base s)\<rparr>)"

definition cs_sel :: "'a gdb_state_scheme \<Rightarrow> u16" where
  "cs_sel s = ucast (vm_reg_get (R_SEL CS) s)"

definition emulate_rmode_far_jump :: "u16 \<Rightarrow> u32 \<Rightarrow> 'a gdb_state_scheme \<Rightarrow> 'a gdb_state_scheme" where
  "emulate_rmode_far_jump seg off s =
     (let s = set_cs_rm seg s in s\<lparr>vm_rip := set_field 0 32 (ucast off) (vm_rip s)\<rparr>)"

definition emulate_rmode_far_call :: "u16 \<Rightarrow> u32 \<Rightarrow> u16 \<Rightarrow> 'a gdb_state_scheme \<Rightarrow> 'a gdb_state_scheme" where
  "emulate_rmode_far_call seg off insn_sz s =
     (let s = emulate_rmode_push (cs_sel s) s;
          s = emulate_rmode_push (ucast (vm_rip s) + insn_sz) s
      in emulate_rmode_far_jump seg off s)"

definition emulate_rmode_far_ret :: "u16 \<Rightarrow> 'a gdb_state_scheme \<Rightarrow> 'a gdb_state_scheme" where
  "emulate_rmode_far_ret add_sp s =
     (let (ip, s) = emulate_rmode_pop s; s = s\<lparr>vm_rip := set_field 0 16 (ucast ip) (vm_rip s)\<rparr>;
          (cs, s) = emulate_rmode_pop s; s = set_cs_rm cs s
      in if add_sp \<noteq> 0 then gpr_put GPR64_RSP 0 16 (gpr_get GPR64_RSP 0 16 s + ucast add_sp) s else s)"

definition emulate_rmode_iret :: "'a gdb_state_scheme \<Rightarrow> vmerr \<times> 'a gdb_state_scheme" where
  "emulate_rmode_iret s =
     (let s = emulate_rmode_far_ret 0 s; (fl, s) = emulate_rmode_pop s
      in (VM_DONE_LET_RIP, vm_reg_put R_RFLAGS (set_field 0 16 (ucast fl) (vm_reg_get R_RFLAGS s)) s))"

section \<open>Interrupt 15h\<close>

definition BIOS_MISC_INTERRUPT :: u8 where "BIOS_MISC_INTERRUPT = 0x15"
definition BIOS_GET_SMAP :: u64 where "BIOS_GET_SMAP = 0xe820"
definition BIOS_SMAP_ID :: u64 where "BIOS_SMAP_ID = 0x534d4150"
definition BIOS_SMAP_ERROR :: u64 where "BIOS_SMAP_ERROR = 0x86"
definition BIOS_GET_EXT_MEM_32 :: u64 where "BIOS_GET_EXT_MEM_32 = 0xe881"
definition BIOS_GET_EXT_MEM :: u64 where "BIOS_GET_EXT_MEM = 0xe801"
definition BIOS_DISABLE_A20 :: u64 where "BIOS_DISABLE_A20 = 0x2400"
definition BIOS_ENABLE_A20 :: u64 where "BIOS_ENABLE_A20 = 0x2401"
definition BIOS_STATUS_A20 :: u64 where "BIOS_STATUS_A20 = 0x2402"
definition BIOS_SUPPORT_A20 :: u64 where "BIOS_SUPPORT_A20 = 0x2403"
definition BIOS_GET_BIG_MEM :: u64 where "BIOS_GET_BIG_MEM = 0x8a"
definition BIOS_OLD_GET_EXT_MEM :: u64 where "BIOS_OLD_GET_EXT_MEM = 0x88"
definition SMAP_TYPE_AVL :: u32 where "SMAP_TYPE_AVL = 1"
definition SMAP_E_SIZE :: nat where "SMAP_E_SIZE = 20"

definition emulate_int15_a20_disable :: "'a io_vm_scheme \<Rightarrow> vmerr \<times> 'a io_vm_scheme" where
  "emulate_int15_a20_disable s = (VM_DONE, dev_a20_set 0 (set_rflag 0 False (gpr_put GPR64_RAX 8 8 0 s)))"

definition emulate_int15_a20_enable :: "'a io_vm_scheme \<Rightarrow> vmerr \<times> 'a io_vm_scheme" where
  "emulate_int15_a20_enable s = (VM_DONE, dev_a20_set 1 (set_rflag 0 False (gpr_put GPR64_RAX 8 8 0 s)))"

definition emulate_int15_a20_status :: "'a io_vm_scheme \<Rightarrow> vmerr \<times> 'a io_vm_scheme" where
  "emulate_int15_a20_status s =
     (VM_DONE, set_rflag 0 False (gpr_put GPR64_RCX 0 16 0 (gpr_put GPR64_RAX 8 8 0
        (gpr_put GPR64_RAX 0 8 (ucast (dev_a20 s)) s))))"

definition emulate_int15_a20_support :: "'a io_vm_scheme \<Rightarrow> vmerr \<times> 'a io_vm_scheme" where
  "emulate_int15_a20_support s =
     (VM_DONE, set_rflag 0 False (gpr_put GPR64_RBX 0 16 2 (gpr_put GPR64_RAX 8 8 0 s)))"

text \<open>\<^verbatim>\<open>x\<close> is not initialised: when no entry starts at one megabyte it is what the stack held.\<close>

definition emulate_int15_get_ext_mem :: "u64 \<Rightarrow> 'a rm_vm_scheme \<Rightarrow> vmerr \<times> 'a rm_vm_scheme" where
  "emulate_int15_get_ext_mem junk s =
     (let x = (case find (\<lambda>e. smap_type e = SMAP_TYPE_AVL \<and> smap_base e = 0x100000) (vm_smap s) of
                 Some e \<Rightarrow> drop_bit 16 (smap_base e + smap_len e - push_bit 20 16) | None \<Rightarrow> junk)
      in if x = 0 then (VM_FAIL, s)
         else (let s = gpr_put GPR64_RAX 0 16 (push_bit 10 15) s;
                   s = gpr_put GPR64_RBX 0 16 x s;
                   s = gpr_put GPR64_RCX 0 16 (gpr_get GPR64_RAX 0 16 s) s;
                   s = gpr_put GPR64_RDX 0 16 (gpr_get GPR64_RBX 0 16 s) s
               in (VM_DONE, set_rflag 0 False s)))"

definition emulate_int15_old_get_ext_mem :: "'a rm_vm_scheme \<Rightarrow> vmerr \<times> 'a rm_vm_scheme" where
  "emulate_int15_old_get_ext_mem s = (VM_DONE, set_rflag 0 False (gpr_put GPR64_RAX 0 16 (push_bit 10 15) s))"

definition smap_bytes :: "smap_e \<Rightarrow> bytes" where
  "smap_bytes e = le_bytes 8 (smap_base e) @ le_bytes 8 (smap_len e) @ le_bytes 4 (smap_type e)"

definition emulate_int15_smap :: "'a rm_vm_scheme \<Rightarrow> vmerr \<times> 'a rm_vm_scheme" where
  "emulate_int15_smap s =
     (if gpr_get GPR64_RDX 0 32 s \<noteq> BIOS_SMAP_ID then (VM_FAULT, s)
      else if gpr_get GPR64_RCX 0 32 s < of_nat SMAP_E_SIZE then (VM_FAULT, s)
      else (let s = (if gpr_get GPR64_RCX 0 32 s > of_nat SMAP_E_SIZE
                     then gpr_put GPR64_RCX 0 32 (of_nat SMAP_E_SIZE) s else s);
                crt = gpr_get GPR64_RBX 0 32 s; top = of_nat (length (vm_smap s)) * of_nat SMAP_E_SIZE
            in if crt \<ge> top then (VM_DONE, gpr_put GPR64_RCX 0 32 0 (gpr_put GPR64_RBX 0 32 0 s))
               else (let remaining = top - crt;
                         s = (if remaining \<le> of_nat SMAP_E_SIZE
                              then gpr_put GPR64_RCX 0 32 remaining (gpr_put GPR64_RBX 0 32 0 s)
                              else gpr_put GPR64_RBX 0 32 (gpr_get GPR64_RBX 0 32 s + gpr_get GPR64_RCX 0 32 s) s);
                         dst = ucast (ucast (vm_reg_get (R_BASE ES) s) + ucast (gpr_get GPR64_RDI 0 16 s) :: u32) :: offset_t;
                         n = gpr_get GPR64_RCX 0 32 s
                     in if vmm_area_range s dst n then (VM_FAIL, s)
                        else (VM_DONE, s\<lparr>vm_mem := mem_write (vm_mem s) dst
                               (take (unat n) (drop (unat crt) (concat (map smap_bytes (vm_smap s)))))\<rparr>))))"

definition emulate_int15 :: "u64 \<Rightarrow> 'a rm_vm_scheme \<Rightarrow> vmerr \<times> 'a rm_vm_scheme" where
  "emulate_int15 junk s =
     (let ax = gpr_get GPR64_RAX 0 16 s; ah = gpr_get GPR64_RAX 8 8 s
      in if ax = BIOS_GET_SMAP
         then (let (rc, s) = emulate_int15_smap s
               in if rc = VM_DONE then (VM_DONE, gpr_put GPR64_RAX 0 32 BIOS_SMAP_ID (set_rflag 0 False s))
                  else if rc = VM_FAULT then (VM_DONE, gpr_put GPR64_RAX 8 8 BIOS_SMAP_ERROR (set_rflag 0 True s))
                  else (VM_FAIL, s))
         else if ax = BIOS_GET_EXT_MEM_32 \<or> ax = BIOS_GET_EXT_MEM then emulate_int15_get_ext_mem junk s
         else if ax = BIOS_DISABLE_A20 then emulate_int15_a20_disable s
         else if ax = BIOS_ENABLE_A20 then emulate_int15_a20_enable s
         else if ax = BIOS_STATUS_A20 then emulate_int15_a20_status s
         else if ax = BIOS_SUPPORT_A20 then emulate_int15_a20_support s
         else if ah = BIOS_OLD_GET_EXT_MEM then emulate_int15_old_get_ext_mem s
         else if ah = BIOS_GET_BIG_MEM then (VM_FAIL, s)
         else (VM_DONE_LET_RIP, s))"

section \<open>Interrupts\<close>

definition emulate_rmode_vector :: "u8 \<Rightarrow> u16 \<Rightarrow> 'a gdb_state_scheme \<Rightarrow> 'a gdb_state_scheme" where
  "emulate_rmode_vector vector insn_sz s =
     (let ip = rd_u16 s (4 * ucast vector); cs = rd_u16 s (4 * ucast vector + 2);
          s = emulate_rmode_push (ucast (vm_reg_get R_RFLAGS s)) s;
          s = set_rflag 18 False (set_rflag 9 False s);
          s = (if \<not> hstp_on s then set_rflag 8 False s else s);
          s = (if \<not> hbrk_insn s then set_rflag 16 False s else s)
      in emulate_rmode_far_call cs (ucast ip) insn_sz s)"

definition emulate_rmode_interrupt :: "u64 \<Rightarrow> u8 \<Rightarrow> u16 \<Rightarrow> 'a rm_vm_scheme \<Rightarrow> vmerr \<times> 'a rm_vm_scheme" where
  "emulate_rmode_interrupt junk vector insn_sz s =
     (let (rc, s) = (if vector = BIOS_MISC_INTERRUPT then emulate_int15 junk s else (VM_DONE_LET_RIP, s))
      in if rc \<noteq> VM_DONE_LET_RIP then (rc, s)
         else (VM_DONE_LET_RIP, emulate_rmode_vector vector insn_sz s))"

definition emulate_interrupt :: "u64 \<Rightarrow> u8 \<Rightarrow> u16 \<Rightarrow> 'a rm_vm_scheme \<Rightarrow> vmerr \<times> 'a rm_vm_scheme" where
  "emulate_interrupt junk vector insn_sz s =
     (if uu_rmode s then emulate_rmode_interrupt junk vector insn_sz s else (VM_FAIL, s))"

definition emulate_hard_interrupt :: "u64 \<Rightarrow> u8 \<Rightarrow> 'a rm_vm_scheme \<Rightarrow> vmerr \<times> 'a rm_vm_scheme" where
  "emulate_hard_interrupt junk vector s = emulate_interrupt junk vector 0 s"

definition emulate_exception :: "u64 \<Rightarrow> u8 \<Rightarrow> 'a rm_vm_scheme \<Rightarrow> vmerr \<times> 'a rm_vm_scheme" where
  "emulate_exception junk vector s = emulate_interrupt junk vector 0 s"

definition emulate_int1 :: vmerr where "emulate_int1 = VM_FAIL"
definition emulate_int3 :: vmerr where "emulate_int3 = VM_FAIL"
definition emulate_bound :: vmerr where "emulate_bound = VM_FAIL"

definition emulate_into :: "'a gdb_state_scheme \<Rightarrow> vmerr" where
  "emulate_into s = (if \<not> bit (vm_reg_get R_RFLAGS s) 11 then VM_DONE else VM_FAIL)"

definition UD_R_EAX :: nat where "UD_R_EAX = 37"
definition UD_R_RAX :: nat where "UD_R_RAX = 53"
definition UD_R_CR0 :: nat where "UD_R_CR0 = 75"
definition UD_R_CR4 :: nat where "UD_R_CR4 = 79"
definition UD_R_DR0 :: nat where "UD_R_DR0 = 91"
definition UD_R_DR7 :: nat where "UD_R_DR7 = 98"
definition UD_OP_REG :: nat where "UD_OP_REG = 140"
definition UD_OP_IMM :: nat where "UD_OP_IMM = 143"

definition emulate_intn :: "u64 \<Rightarrow> ud_t \<Rightarrow> 'a rm_vm_scheme \<Rightarrow> vmerr \<times> 'a rm_vm_scheme" where
  "emulate_intn junk d s =
     (if op_type (ud_op0 d) \<noteq> UD_OP_IMM then (VM_FAIL, s)
      else emulate_interrupt junk (op_ubyte (ud_op0 d)) (ucast (ud_len d)) s)"

section \<open>Instructions\<close>

definition uu_emulate_get_gpr :: "ud_operand \<Rightarrow> nat" where
  "uu_emulate_get_gpr op =
     (let gpr = of_nat (op_base op) - of_nat (if op_base op < UD_R_RAX then UD_R_EAX else UD_R_RAX) :: u8
      in unat (of_nat GPR64_RAX - gpr))"

definition emulate_iret :: "'a gdb_state_scheme \<Rightarrow> vmerr \<times> 'a gdb_state_scheme" where
  "emulate_iret s = (if uu_rmode s then emulate_rmode_iret s else (VM_FAIL, s))"

definition emulate_mov :: "ud_t \<Rightarrow> 'a cpu_vm_scheme \<Rightarrow> vmerr \<times> 'a cpu_vm_scheme" where
  "emulate_mov d s =
     (let op1 = ud_op0 d; op2 = ud_op1 d
      in if op_type op2 \<noteq> UD_OP_REG \<or> op_type op1 \<noteq> UD_OP_REG then (VM_FAIL, s)
         else if UD_R_CR0 \<le> op_base op2 \<and> op_base op2 \<le> UD_R_CR4
         then (if ud_pfx_lock d \<noteq> 0 \<or> ud_pfx_rex d \<noteq> 0 then (VM_FAIL, s)
               else uu_resolve_cr False (of_nat (op_base op2 - UD_R_CR0)) (uu_emulate_get_gpr op1) s)
         else if UD_R_CR0 \<le> op_base op1 \<and> op_base op1 \<le> UD_R_CR4
         then (if ud_pfx_lock d \<noteq> 0 \<or> ud_pfx_rex d \<noteq> 0 then (VM_FAIL, s)
               else uu_resolve_cr True (of_nat (op_base op1 - UD_R_CR0)) (uu_emulate_get_gpr op2) s)
         else if UD_R_DR0 \<le> op_base op2 \<and> op_base op2 \<le> UD_R_DR7
         then uu_resolve_dr False (op_base op2 - UD_R_DR0) (uu_emulate_get_gpr op1) s
         else if UD_R_DR0 \<le> op_base op1 \<and> op_base op1 \<le> UD_R_DR7
         then uu_resolve_dr True (op_base op1 - UD_R_DR0) (uu_emulate_get_gpr op2) s
         else (VM_FAIL, s))"

definition SEG_DESC_CODE_XRA :: u64 where "SEG_DESC_CODE_XRA = 0xb"
definition SEG_DESC_DATA_RWA :: u64 where "SEG_DESC_DATA_RWA = 0x3"

text \<open>A flat segment of the given selector, type and privilege level.\<close>

definition flat_seg :: "vm_seg \<Rightarrow> u16 \<Rightarrow> u64 \<Rightarrow> u64 \<Rightarrow> 'a gdb_state_scheme \<Rightarrow> 'a gdb_state_scheme" where
  "flat_seg g sel type dpl s =
     (let s = vm_reg_put (R_SEL g) (set_field 0 2 dpl (set_field 0 16 (ucast sel) (vm_reg_get (R_SEL g) s))) s;
          s = vm_reg_put (R_BASE g) 0 s;
          s = vm_reg_put (R_LIMIT g) (set_field 0 32 0xffffffff (vm_reg_get (R_LIMIT g) s)) s;
          a = vm_reg_get (R_ATTR g) s;
          a = put_flag 15 True (put_flag 4 True a);
          a = put_flag 14 True (set_field 0 4 type a);
          a = put_flag 7 True (set_field 5 2 dpl a)
      in vm_reg_put (R_ATTR g) a s)"

definition emulate_sysenter :: "'a rm_vm_scheme \<Rightarrow> vmerr \<times> 'a rm_vm_scheme" where
  "emulate_sysenter s =
     (let cs = ucast (sysenter_cs s) :: u16
      in if \<not> cr0_pe s \<or> get_field 3 13 cs = 0 then inject_gp s
         else (let s = set_rflag 16 False (set_rflag 9 False (set_rflag 17 False s));
                   s = flat_seg CS cs SEG_DESC_CODE_XRA 0 s;
                   s = flat_seg SS (cs + 8) SEG_DESC_DATA_RWA 0 s;
                   s = s\<lparr>vm_rip := set_field 0 32 (sysenter_eip s) (vm_rip s)\<rparr>
               in (VM_DONE_LET_RIP, gpr_put GPR64_RSP 0 32 (sysenter_esp s) s)))"

definition emulate_sysexit :: "'a rm_vm_scheme \<Rightarrow> vmerr \<times> 'a rm_vm_scheme" where
  "emulate_sysexit s =
     (let cs = ucast (sysenter_cs s) :: u16
      in if vm_cpl s \<noteq> 0 \<or> \<not> cr0_pe s \<or> get_field 3 13 cs = 0 then inject_gp s
         else (let s = flat_seg CS (cs + 16) SEG_DESC_CODE_XRA 3 s;
                   s = flat_seg SS (cs + 24) SEG_DESC_DATA_RWA 3 s;
                   s = gpr_put GPR64_RSP 0 32 (get_gpr GPR64_RCX s) s
               in (VM_DONE_LET_RIP, s\<lparr>vm_rip := set_field 0 32 (get_gpr GPR64_RDX s) (vm_rip s)\<rparr>)))"

definition emulate_insn_rm :: "u64 \<Rightarrow> ud_t \<Rightarrow> 'a rm_vm_scheme \<Rightarrow> vmerr \<times> 'a rm_vm_scheme" where
  "emulate_insn_rm junk d s =
     (case ud_mn d of
        UD_Iint \<Rightarrow> emulate_intn junk d s
      | UD_Imov \<Rightarrow> emulate_mov d s
      | UD_Isysenter \<Rightarrow> emulate_sysenter s
      | UD_Isysexit \<Rightarrow> emulate_sysexit s
      | UD_Iiretw \<Rightarrow> emulate_iret s
      | UD_Iiretd \<Rightarrow> emulate_iret s
      | UD_Iiretq \<Rightarrow> emulate_iret s
      | UD_Iclts \<Rightarrow> emulate_clts s
      | UD_Iint1 \<Rightarrow> (emulate_int1, s)
      | UD_Iint3 \<Rightarrow> (emulate_int3, s)
      | UD_Iinto \<Rightarrow> (emulate_into s, s)
      | UD_Ibound \<Rightarrow> (emulate_bound, s)
      | UD_Iother \<Rightarrow> (VM_IGNORE, s))"

section \<open>Fetch\<close>

definition X86_MAX_INSN_LEN :: nat where "X86_MAX_INSN_LEN = 15"

text \<open>A local access always returns, so the case of an access that does not is void.\<close>

definition uu_get_insn :: "'a rm_vm_scheme \<Rightarrow> vmerr \<times> nat \<times> 'a rm_vm_scheme" where
  "uu_get_insn s =
     (let (vaddr, mode) = vm_get_code_addr 0 s
      in case uu_vm_read_mem (vm_cr3 s) vaddr (insn_cache s) (of_nat X86_MAX_INSN_LEN) s of
           None \<Rightarrow> (VM_FAIL, mode, s)
         | Some (rc, data, s) \<Rightarrow>
             (let s = s\<lparr>insn_cache := data\<rparr>
              in if rc AND (VM_DONE OR VM_PARTIAL) = 0 then (rc, mode, s) else (VM_DONE, mode, s)))"

definition disassemble_rm :: "ud_lib \<Rightarrow> 'a rm_vm_scheme \<Rightarrow> vmerr \<times> 'a rm_vm_scheme" where
  "disassemble_rm ud s =
     (let (rc, mode, s) = uu_get_insn s
      in if rc \<noteq> VM_DONE then (rc, s)
         else (case ud mode (insn_cache s) of
                 None \<Rightarrow> (VM_FAIL, s)
               | Some d \<Rightarrow> (VM_DONE, s\<lparr>vm_disasm := d\<rparr>)))"

text \<open>The two services that the debugger and the emulation frame are given.\<close>

definition insn_ops_rm ::
    "ud_lib \<Rightarrow> u64 \<Rightarrow> ('a rm_vm_ext cpu_vm_ext io_vm_ext gdb_state_ext) insn_ops" where
  "insn_ops_rm ud junk =
     \<lparr>disassemble = (\<lambda>s. let (rc, s) = disassemble_rm ud s in (rc, ud_mn (vm_disasm s), ud_len (vm_disasm s), s)),
      emulate_insn = (\<lambda>s. emulate_insn_rm junk (vm_disasm s) s)\<rparr>"

section \<open>An interrupt and its return\<close>

text \<open>The linear address of a word of the stack: sixteen bits of the pointer, thirty-two of the sum.\<close>

definition rm_addr :: "u64 \<Rightarrow> u64 \<Rightarrow> offset_t" where
  "rm_addr base sp = ucast (ucast base + ucast (take_bit 16 sp) :: u32)"

lemma gpr_rsp [simp]:
  "gpr_get GPR64_RSP 0 16 s = take_bit 16 (vm_rsp s)" "gpr_put GPR64_RSP sh w v s = s\<lparr>vm_rsp := set_field sh w v (vm_rsp s)\<rparr>"
  by (simp_all add: gpr_get_def gpr_put_def get_gpr_def set_gpr_def get_field_def)

lemma rmode_stack_eq: "rmode_stack s = rm_addr (ss_base s) (vm_rsp s)"
  by (simp add: rmode_stack_def rm_addr_def)

lemma low16_field: "take_bit 16 (set_field 0 16 v x) = take_bit 16 v" "set_field 0 16 v (set_field 0 16 w x) = set_field 0 16 v x"
  "set_field 0 16 (take_bit 16 x) x = x" "set_field 0 16 (take_bit 16 v) x = set_field 0 16 v x" for v x :: u64
  by (rule bit_eqI; auto simp: bit_simps bit_set_field)+

lemma rm_addr_low: "rm_addr base (set_field 0 16 v x) = rm_addr base v"
  by (simp add: rm_addr_def low16_field)

lemma unat_rm_addr: "unat (rm_addr b sp) = (unat (ucast b :: u32) + unat (take_bit 16 sp)) mod 2 ^ 32"
proof -
  have "unat (take_bit 16 sp) < 2 ^ 16" by (simp add: unat_take_bit_mod)
  then have "unat (ucast (take_bit 16 sp) :: u32) = unat (take_bit 16 sp)"
    by (simp add: unsigned_ucast_eq take_bit_eq_mod unat_take_bit_mod)
  moreover have "unat (ucast x :: u64) = unat x" for x :: u32
  proof -
    have "unat x < 2 ^ 32" using unsigned_less [of x] by simp
    then show ?thesis by (simp add: unsigned_ucast_eq take_bit_eq_mod)
  qed
  ultimately show ?thesis by (simp add: rm_addr_def unat_word_ariths)
qed

lemma of_nat_u16_mod: "n mod 65536 = m mod 65536 \<Longrightarrow> (of_nat n :: u16) = of_nat m"
proof -
  assume "n mod 65536 = m mod 65536"
  then have "unat (of_nat n :: u16) = unat (of_nat m :: u16)" by (simp add: unat_of_nat take_bit_eq_mod)
  then show ?thesis by (rule unsigned_word_eqI)
qed

lemma of_nat_rm_addr: "(of_nat (unat (rm_addr b z + of_nat k)) :: u16) = of_nat (unat (ucast b :: u32)) + of_nat (unat z) + of_nat k"
proof -
  have "unat (rm_addr b z + of_nat k) = ((unat (ucast b :: u32) + unat z mod 65536) mod 4294967296 + k mod 2 ^ 64) mod 2 ^ 64"
    by (simp add: unat_word_ariths unat_rm_addr unat_of_nat take_bit_eq_mod unat_take_bit_mod)
  also have "(of_nat \<dots> :: u16) = of_nat ((unat (ucast b :: u32) + unat z mod 65536) mod 4294967296 + k mod 2 ^ 64)"
    by (rule of_nat_u16_mod) (simp add: mod_mod_cancel)
  also have "\<dots> = of_nat ((unat (ucast b :: u32) + unat z mod 65536) mod 4294967296) + of_nat (k mod 2 ^ 64)" by simp
  also have "of_nat (k mod 2 ^ 64) = (of_nat k :: u16)" by (rule of_nat_u16_mod) (simp add: mod_mod_cancel)
  also have "of_nat ((unat (ucast b :: u32) + unat z mod 65536) mod 4294967296) = (of_nat (unat (ucast b :: u32) + unat z mod 65536) :: u16)"
    by (rule of_nat_u16_mod) (simp add: mod_mod_cancel)
  also have "of_nat (unat (ucast b :: u32) + unat z mod 65536) = (of_nat (unat (ucast b :: u32)) + of_nat (unat z mod 65536) :: u16)" by simp
  also have "of_nat (unat z mod 65536) = (of_nat (unat z) :: u16)" by (rule of_nat_u16_mod) simp
  finally show ?thesis .
qed

lemma rm_disjoint:
  assumes "take_bit 16 (x - y) \<in> {2..65534}" and "i < 2" and "j < 2"
  shows "rm_addr b x + of_nat i \<noteq> rm_addr b y + of_nat j"
proof
  assume eq: "rm_addr b x + of_nat i = rm_addr b y + of_nat j"
  define d where "d = unat (take_bit 16 (x - y))"
  have "x = y + (x - y)" by simp
  then have "unat x = (unat y + unat (x - y)) mod 2 ^ 64" by (metis unat_word_ariths(1) len_u64)
  then have "(of_nat (unat x) :: u16) = of_nat (unat y + unat (x - y))" by (intro of_nat_u16_mod) (simp add: mod_mod_cancel)
  also have "\<dots> = of_nat (unat y) + of_nat (unat (x - y))" by simp
  also have "of_nat (unat (x - y)) = (of_nat d :: u16)" by (rule of_nat_u16_mod) (simp add: d_def unat_take_bit_mod)
  finally have x: "(of_nat (unat x) :: u16) = of_nat (unat y) + of_nat d" .
  have "(of_nat (unat (rm_addr b x + of_nat i)) :: u16) = of_nat (unat (rm_addr b y + of_nat j))" using eq by simp
  then have "of_nat d + of_nat i = (of_nat j :: u16)" unfolding of_nat_rm_addr x by (simp add: algebra_simps)
  then have "unat (of_nat (d + i) :: u16) = unat (of_nat j :: u16)" by simp
  then have "(d + i) mod 65536 = j mod 65536" by (simp only: unat_of_nat take_bit_eq_mod) simp
  moreover have "2 \<le> d" "d \<le> 65534" using assms(1) by (auto simp: word_le_nat_alt d_def)
  ultimately show False using assms(2,3) by simp
qed

lemma low16_add: "take_bit 16 (take_bit 16 x + c) = take_bit 16 (x + c)" for x c :: u64
proof -
  have "unat (take_bit 16 (take_bit 16 x + c)) = (unat x mod 65536 + unat c) mod 65536"
    by (simp add: unat_take_bit_mod unat_word_ariths mod_mod_cancel)
  also have "\<dots> = (unat x + unat c) mod 65536" by (simp add: mod_add_left_eq)
  also have "\<dots> = unat (take_bit 16 (x + c))" by (simp add: unat_take_bit_mod unat_word_ariths mod_mod_cancel)
  finally show ?thesis by (rule unsigned_word_eqI)
qed

lemma low16_minus: "take_bit 16 (take_bit 16 x - c) = take_bit 16 (x - c)" for x c :: u64
  using low16_add [of x "- c"] by simp

lemma rd_wr_u16 [simp]: "rd_u16 (wr_u16 a v s) a = v"
proof -
  have "mem_read (mem_write m a (le_bytes 2 v)) a 2 = le_bytes 2 v" for m
    by (simp add: mem_read_def mem_write_def le_bytes_def upt_conv_Cons)
  moreover have "take_bit 16 v = v" by (rule bit_eqI) (auto simp: bit_simps)
  ultimately show ?thesis using of_le_bytes_le_bytes [of 2 v] by (simp add: rd_u16_def wr_u16_def)
qed

lemma rd_wr_other:
  assumes "take_bit 16 (x - y) \<in> {2..65534}"
  shows "rd_u16 (wr_u16 (rm_addr b y) v s) (rm_addr b x) = rd_u16 s (rm_addr b x)"
proof -
  have "mem_write m (rm_addr b y) (le_bytes 2 v) (rm_addr b x + of_nat i) = m (rm_addr b x + of_nat i)" if "i < 2" for i m
  proof -
    have "\<not> unat (rm_addr b x + of_nat i - rm_addr b y) < 2"
    proof
      assume j: "unat (rm_addr b x + of_nat i - rm_addr b y) < 2"
      have "rm_addr b x + of_nat i = rm_addr b y + of_nat (unat (rm_addr b x + of_nat i - rm_addr b y))" by simp
      with rm_disjoint [OF assms that j] show False by blast
    qed
    then show ?thesis by (simp add: mem_write_def le_bytes_def)
  qed
  from this [of 0] this [of 1] show ?thesis by (simp add: rd_u16_def wr_u16_def mem_read_def upt_conv_Cons)
qed

lemma push_eq:
  "emulate_rmode_push v s = wr_u16 (rm_addr (ss_base s) (vm_rsp s - 2)) v (s\<lparr>vm_rsp := set_field 0 16 (vm_rsp s - 2) (vm_rsp s)\<rparr>)"
  using low16_minus [of "vm_rsp s" 2]
  by (simp add: emulate_rmode_push_def Let_def rmode_stack_eq rm_addr_def) (metis low16_field(1,4))

lemma pop_eq:
  "emulate_rmode_pop s = (rd_u16 s (rm_addr (ss_base s) (vm_rsp s)), s\<lparr>vm_rsp := set_field 0 16 (vm_rsp s + 2) (vm_rsp s)\<rparr>)"
  using low16_add [of "vm_rsp s" 2] by (simp add: emulate_rmode_pop_def rmode_stack_eq) (metis low16_field(4))

lemma rm_addr_cong: "take_bit 16 x = take_bit 16 y \<Longrightarrow> rm_addr b x = rm_addr b y"
  by (simp add: rm_addr_def)

lemma rsp_low: "set_field 0 16 (set_field 0 16 v x + c) x = set_field 0 16 (v + c) x"
  "set_field 0 16 (set_field 0 16 v x - c) x = set_field 0 16 (v - c) x"
  "rm_addr b (set_field 0 16 v x - c) = rm_addr b (v - c)" "rm_addr b (set_field 0 16 v x + c) = rm_addr b (v + c)" for v x c :: u64
proof -
  have *: "take_bit 16 (set_field 0 16 v x + c) = take_bit 16 (v + c)" for c
    using low16_add [of "set_field 0 16 v x" c] low16_add [of v c] by (simp add: low16_field)
  have "take_bit 16 (set_field 0 16 v x - c) = take_bit 16 (v - c)" using * [of "- c"] by simp
  with * show "set_field 0 16 (set_field 0 16 v x + c) x = set_field 0 16 (v + c) x"
    "set_field 0 16 (set_field 0 16 v x - c) x = set_field 0 16 (v - c) x"
    "rm_addr b (set_field 0 16 v x - c) = rm_addr b (v - c)" "rm_addr b (set_field 0 16 v x + c) = rm_addr b (v + c)"
    by (metis low16_field(4) rm_addr_cong)+
qed

lemma set_rflag_sel [simp]:
  "vm_rsp (set_rflag k b s) = vm_rsp s" "ss_base (set_rflag k b s) = ss_base s" "vm_mem (set_rflag k b s) = vm_mem s"
  "vm_rip (set_rflag k b s) = vm_rip s" "cs_base (set_rflag k b s) = cs_base s" "cs_sel (set_rflag k b s) = cs_sel s"
  "rd_u16 (set_rflag k b s) = rd_u16 s" "hstp_on (set_rflag k b s) = hstp_on s" "hbrk_insn (set_rflag k b s) = hbrk_insn s"
  by (simp_all add: set_rflag_def cs_sel_def rd_u16_def fun_eq_iff)

lemma wr_u16_sel [simp]:
  "vm_rsp (wr_u16 a v s) = vm_rsp s" "ss_base (wr_u16 a v s) = ss_base s" "vm_rip (wr_u16 a v s) = vm_rip s"
  "cs_sel (wr_u16 a v s) = cs_sel s" "vm_reg_get r (wr_u16 a v s) = vm_reg_get r s"
  by (simp_all add: wr_u16_def cs_sel_def) (cases "(r, s)" rule: vm_reg_get.cases; simp)

lemma low_ucast: "ucast (set_field 0 w (ucast v) x) = v" if "16 \<le> w" for v :: u16 and x :: u64
proof (rule bit_eqI)
  fix n assume "possible_bit TYPE(u16) n"
  then have "n < 16" by simp
  with that show "bit (ucast (set_field 0 w (ucast v) x) :: u16) n = bit v n" by (auto simp: bit_simps bit_set_field)
qed

lemma set_cs_rm_sel [simp]:
  "vm_rsp (set_cs_rm c s) = vm_rsp s" "ss_base (set_cs_rm c s) = ss_base s" "vm_mem (set_cs_rm c s) = vm_mem s"
  "vm_rip (set_cs_rm c s) = vm_rip s" "rd_u16 (set_cs_rm c s) = rd_u16 s"
  "vm_reg_get R_RFLAGS (set_cs_rm c s) = vm_reg_get R_RFLAGS s"
  by (simp_all add: set_cs_rm_def Let_def rd_u16_def fun_eq_iff)

lemma set_cs_rm_cs [simp]:
  "cs_sel (set_cs_rm c s) = c" "take_bit 32 (cs_base (set_cs_rm c s)) = push_bit 4 (ucast c)"
proof -
  have "vm_reg_get (R_SEL CS) (set_cs_rm c s)
      = vm_reg_get (R_SEL CS) (vm_reg_put (R_SEL CS) (set_field 0 16 (ucast c) (vm_reg_get (R_SEL CS) s)) s)"
    by (simp add: set_cs_rm_def Let_def)
  also have "\<dots> = set_field 0 16 (ucast c) (vm_reg_get (R_SEL CS) s)" by (simp only: vm_reg_get_put)
  finally show "cs_sel (set_cs_rm c s) = c" by (simp add: cs_sel_def low_ucast del: vm_reg_get.simps)
  show "take_bit 32 (cs_base (set_cs_rm c s)) = push_bit 4 (ucast c)"
    by (rule bit_eqI) (auto simp: set_cs_rm_def Let_def bit_simps bit_set_field dest: bit_imp_le_length)
qed

lemma rd_u16_other [simp]:
  "rd_u16 (s\<lparr>vm_rsp := a\<rparr>) = rd_u16 s" "rd_u16 (s\<lparr>vm_rip := a\<rparr>) = rd_u16 s"
  "cs_sel (s'\<lparr>vm_rsp := a\<rparr>) = cs_sel s'" "cs_sel (s'\<lparr>vm_rip := a\<rparr>) = cs_sel s'"
  by (simp_all add: rd_u16_def fun_eq_iff cs_sel_def)

lemma rflags_other [simp]:
  "vm_reg_get R_RFLAGS (s\<lparr>vm_rsp := a\<rparr>) = vm_reg_get R_RFLAGS s" "vm_reg_get R_RFLAGS (s\<lparr>vm_rip := a\<rparr>) = vm_reg_get R_RFLAGS s"
  by simp_all

text \<open>The three words an interrupt leaves on the stack, from the top.\<close>

definition rm_frame :: "'a dbg_vm_scheme \<Rightarrow> u16 list" where
  "rm_frame s = map (\<lambda>k. rd_u16 s (rm_addr (ss_base s) (vm_rsp s + k))) [0, 2, 4]"

lemma iret_eq:
  assumes "rm_frame s = [ip, cs, fl]" and "emulate_rmode_iret s = (rc, s')"
  shows "rc = VM_DONE_LET_RIP" "(ucast (vm_rip s') :: u16) = ip" "cs_sel s' = cs" "take_bit 32 (cs_base s') = push_bit 4 (ucast cs)"
    "vm_rsp s' = set_field 0 16 (vm_rsp s + 6) (vm_rsp s)" "(ucast (vm_reg_get R_RFLAGS s') :: u16) = fl"
proof -
  define s1 where "s1 = (set_cs_rm cs (s\<lparr>vm_rsp := set_field 0 16 (vm_rsp s + 2) (vm_rsp s), vm_rip := set_field 0 16 (ucast ip) (vm_rip s)\<rparr>))
       \<lparr>vm_rsp := set_field 0 16 (vm_rsp s + 6) (vm_rsp s)\<rparr>"
  have sp: "set_cs_rm c (t\<lparr>vm_rsp := a\<rparr>) = (set_cs_rm c t)\<lparr>vm_rsp := a\<rparr>" for c a and t :: "'a gdb_state_scheme"
    by (simp add: set_cs_rm_def Let_def)
  have "emulate_rmode_iret s = (VM_DONE_LET_RIP, vm_reg_put R_RFLAGS (set_field 0 16 (ucast fl) (vm_reg_get R_RFLAGS s1)) s1)"
    using assms(1) by (simp add: emulate_rmode_iret_def emulate_rmode_far_ret_def pop_eq rm_frame_def s1_def Let_def sp rsp_low rm_addr_low low16_field add.assoc
        del: vm_reg_get.simps vm_reg_put.simps)
  with assms(2) have s': "rc = VM_DONE_LET_RIP" "s' = vm_reg_put R_RFLAGS (set_field 0 16 (ucast fl) (vm_reg_get R_RFLAGS s1)) s1" by auto
  have keep: "vm_rip s' = vm_rip s1" "vm_rsp s' = vm_rsp s1" "cs_sel s' = cs_sel s1" "cs_base s' = cs_base s1"
    unfolding s' by (simp_all add: cs_sel_def)
  show "rc = VM_DONE_LET_RIP" by (rule s')
  show "(ucast (vm_rip s') :: u16) = ip" "cs_sel s' = cs" "take_bit 32 (cs_base s') = push_bit 4 (ucast cs)"
    "vm_rsp s' = set_field 0 16 (vm_rsp s + 6) (vm_rsp s)" by (simp_all add: keep s1_def low_ucast)
  show "(ucast (vm_reg_get R_RFLAGS s') :: u16) = fl" unfolding s' vm_reg_get_put by (rule low_ucast) simp
qed

lemma rmode_vector_eq:
  fixes s :: "'a gdb_state_scheme" and v :: u8 and n :: u16
  defines "s' \<equiv> emulate_rmode_vector v n s"
  shows "(ucast (vm_rip s') :: u16) = rd_u16 s (4 * ucast v)" "cs_sel s' = rd_u16 s (4 * ucast v + 2)"
    "take_bit 32 (cs_base s') = push_bit 4 (ucast (rd_u16 s (4 * ucast v + 2)))" "\<not> bit (vm_reg_get R_RFLAGS s') 9"
    "rm_frame s' = [ucast (vm_rip s) + n, cs_sel s, ucast (vm_reg_get R_RFLAGS s)]"
    "vm_rsp s' = set_field 0 16 (vm_rsp s - 6) (vm_rsp s)" "ss_base s' = ss_base s"
proof -
  define ip cs where "ip = rd_u16 s (4 * ucast v)" and "cs = rd_u16 s (4 * ucast v + 2)"
  define s1 where "s1 = emulate_rmode_push (ucast (vm_reg_get R_RFLAGS s)) s"
  define s2 where "s2 = set_rflag 18 False (set_rflag 9 False s1)"
  define s3 where "s3 = (if \<not> hstp_on s2 then set_rflag 8 False s2 else s2)"
  define s4 where "s4 = (if \<not> hbrk_insn s3 then set_rflag 16 False s3 else s3)"
  define s5 where "s5 = emulate_rmode_push (ucast (vm_rip (emulate_rmode_push (cs_sel s4) s4)) + n) (emulate_rmode_push (cs_sel s4) s4)"
  have uc: "ucast (ucast w :: u32) = (ucast w :: u64)" for w :: u16 by (rule bit_eqI) (auto simp: bit_simps dest: bit_imp_le_length)
  have s': "s' = (set_cs_rm cs s5)\<lparr>vm_rip := set_field 0 32 (ucast ip) (vm_rip (set_cs_rm cs s5))\<rparr>"
    by (simp only: s'_def emulate_rmode_vector_def emulate_rmode_far_call_def emulate_rmode_far_jump_def ip_def cs_def s1_def s2_def s3_def s4_def s5_def
        Let_def uc)
  have fl: "\<not> bit (vm_reg_get R_RFLAGS (set_rflag 9 False t)) 9"
    "\<not> bit (vm_reg_get R_RFLAGS t) 9 \<Longrightarrow> \<not> bit (vm_reg_get R_RFLAGS (set_rflag k False t)) 9" for k and t :: "'a gdb_state_scheme"
    unfolding set_rflag_def vm_reg_get_put by (simp_all add: bit_put_flag)
  have 4: "vm_rsp s4 = vm_rsp s1" "ss_base s4 = ss_base s1" "rd_u16 s4 = rd_u16 s1" "vm_rip s4 = vm_rip s1" "cs_sel s4 = cs_sel s1"
    "\<not> bit (vm_reg_get R_RFLAGS s4) 9"
    using fl by (simp_all add: s4_def s3_def s2_def del: vm_reg_get.simps)
  show "(ucast (vm_rip s') :: u16) = rd_u16 s (4 * ucast v)" "cs_sel s' = rd_u16 s (4 * ucast v + 2)"
    "take_bit 32 (cs_base s') = push_bit 4 (ucast (rd_u16 s (4 * ucast v + 2)))"
    by (simp_all add: s' low_ucast ip_def cs_def)
  show "\<not> bit (vm_reg_get R_RFLAGS s') 9" "ss_base s' = ss_base s" "vm_rsp s' = set_field 0 16 (vm_rsp s - 6) (vm_rsp s)"
    using 4 by (simp_all add: s' s5_def push_eq s1_def rsp_low low16_field diff_diff_eq del: vm_reg_get.simps)
  show "rm_frame s' = [ucast (vm_rip s) + n, cs_sel s, ucast (vm_reg_get R_RFLAGS s)]"
    using 4 by (simp add: rm_frame_def s' s5_def push_eq s1_def rsp_low low16_field diff_diff_eq rd_wr_other rm_addr_low del: vm_reg_get.simps)
qed

section \<open>Enumerating the memory map\<close>

text \<open>A guest that asks for the entries of the memory map one after the other, as the interface of
  the BIOS has it: the continuation value in \<^verbatim>\<open>ebx\<close> starts at zero and is given back until it is
  zero again.\<close>

definition e820_regs :: "u64 \<Rightarrow> 'a dbg_vm_scheme \<Rightarrow> 'a dbg_vm_scheme" where
  "e820_regs c s = gpr_put GPR64_RBX 0 32 c (gpr_put GPR64_RCX 0 32 20
     (gpr_put GPR64_RDX 0 32 BIOS_SMAP_ID (gpr_put GPR64_RAX 0 32 BIOS_GET_SMAP s)))"

definition e820_dst :: "'a gdb_state_scheme \<Rightarrow> offset_t" where
  "e820_dst s = ucast (ucast (vm_reg_get (R_BASE ES) s) + ucast (gpr_get GPR64_RDI 0 16 s) :: u32)"

fun e820_loop :: "nat \<Rightarrow> u64 \<Rightarrow> 'a rm_vm_scheme \<Rightarrow> bytes list option" where
  "e820_loop 0 c s = None"
| "e820_loop (Suc n) c s =
     (let (rc, s') = emulate_int15 0 (e820_regs c s); e = mem_read (vm_mem s') (e820_dst s') SMAP_E_SIZE;
          c' = gpr_get GPR64_RBX 0 32 s'
      in if rc \<noteq> VM_DONE then None else if c' = 0 then Some [e] else map_option ((#) e) (e820_loop n c' s'))"

lemmas gpr_nums = GPR64_RAX_def GPR64_RBX_def GPR64_RCX_def GPR64_RDX_def GPR64_RSP_def GPR64_RDI_def

lemma gpr_put_eq: "r \<noteq> GPR64_RSP \<Longrightarrow> gpr_put r sh w v s = s\<lparr>vm_gpr := (vm_gpr s)[r := set_field sh w v (vm_gpr s ! r)]\<rparr>"
  by (simp add: gpr_put_def set_gpr_def get_gpr_def)

lemma gpr_get_eq: "r \<noteq> GPR64_RSP \<Longrightarrow> gpr_get r sh w s = get_field sh w (vm_gpr s ! r)"
  by (simp add: gpr_get_def get_gpr_def)

lemma smap_bytes_length [simp]: "length (smap_bytes e) = 20"
  by (simp add: smap_bytes_def le_bytes_def)

lemma smap_entry: "k < length l \<Longrightarrow> take 20 (drop (20 * k) (concat (map smap_bytes l))) = smap_bytes (l ! k)"
proof (induction l arbitrary: k)
  case (Cons e l)
  then show ?case by (cases k) simp_all
qed simp

lemma mem_read_write_same: "length bs < 2 ^ 64 \<Longrightarrow> mem_read (mem_write m a bs) a (length bs) = bs"
  by (rule nth_equalityI) (auto simp: mem_read_def mem_write_def unat_of_nat take_bit_eq_mod)

lemma set_rflag_gpr [simp]:
  "vm_gpr (set_rflag k b s) = vm_gpr s" "vm_smap (set_rflag k b s') = vm_smap s'" "vmm_area_range (set_rflag k b s) = vmm_area_range s"
  "gs_reg (set_rflag k b s) (R_BASE ES) = gs_reg s (R_BASE ES)"
  by (simp_all add: set_rflag_def vmm_area_range_def vmm_area_def fun_eq_iff)

lemma area_range_other [simp]: "vmm_area_range (s\<lparr>vm_gpr := g\<rparr>) = vmm_area_range s" "vmm_area_range (s'\<lparr>vm_mem := m\<rparr>) = vmm_area_range s'"
  by (simp_all add: vmm_area_range_def vmm_area_def fun_eq_iff)

lemma e820_call:
  assumes len: "length (vm_gpr s) = 16" and k: "k < length (vm_smap s)" and n: "20 * length (vm_smap s) < 2 ^ 32"
    and out: "\<not> vmm_area_range s (e820_dst s) 20"
  obtains s' where "emulate_int15 j (e820_regs (20 * of_nat k) s) = (VM_DONE, s')"
    and "mem_read (vm_mem s') (e820_dst s') 20 = smap_bytes (vm_smap s ! k)"
    and "gpr_get GPR64_RBX 0 32 s' = (if Suc k = length (vm_smap s) then 0 else 20 * of_nat (Suc k))"
    and "length (vm_gpr s') = 16" "vm_smap s' = vm_smap s" "\<not> vmm_area_range s' (e820_dst s') 20"
proof -
  let ?t = "e820_regs (20 * of_nat k) s" and ?N = "length (vm_smap s)"
  have small: "take_bit 32 (20 * of_nat i) = (20 * of_nat i :: u64)" "unat (20 * of_nat i :: u64) = 20 * i" if "i \<le> ?N" for i
  proof -
    show u: "unat (20 * of_nat i :: u64) = 20 * i" using n that by (simp add: unat_word_ariths unat_of_nat take_bit_eq_mod)
    then show "take_bit 32 (20 * of_nat i) = (20 * of_nat i :: u64)" using n that by (simp add: word_unat_eq_iff unat_take_bit_mod)
  qed
  have regs: "gpr_get GPR64_RDX 0 32 ?t = BIOS_SMAP_ID" "gpr_get GPR64_RCX 0 32 ?t = 20" "gpr_get GPR64_RBX 0 32 ?t = 20 * of_nat k"
    "gpr_get GPR64_RAX 0 16 ?t = BIOS_GET_SMAP"
  proof -
    have ax: "get_field 0 16 (set_field 0 32 0xe820 x) = 0xe820" for x :: u64
    proof -
      have "get_field 0 16 (set_field 0 32 v x) = take_bit 16 v" for v :: u64
        by (rule bit_eqI) (auto simp: bit_get_field bit_set_field bit_simps)
      moreover have "take_bit 16 0xe820 = (0xe820 :: u64)" by code_simp
      ultimately show ?thesis by simp
    qed
    have id: "take_bit 32 (0x534d4150 :: u64) = 0x534d4150" "take_bit 32 (20 :: u64) = 20" by code_simp+
    show "gpr_get GPR64_RDX 0 32 ?t = BIOS_SMAP_ID" "gpr_get GPR64_RCX 0 32 ?t = 20" "gpr_get GPR64_RBX 0 32 ?t = 20 * of_nat k"
      "gpr_get GPR64_RAX 0 16 ?t = BIOS_GET_SMAP"
      using k len id by (simp_all add: e820_regs_def gpr_put_eq gpr_get_eq gpr_nums get_set_field small BIOS_SMAP_ID_def BIOS_GET_SMAP_def ax)
  qed
  have sub: "of_nat ?N * 20 - 20 * of_nat k = (20 * of_nat (?N - k) :: u64)" using k by (simp add: of_nat_diff algebra_simps)
  have last: "Suc k = ?N \<Longrightarrow> of_nat ?N * 20 - 20 * of_nat k = (20 :: u64)"
  proof -
    assume "Suc k = ?N"
    then have "?N - k = 1" by linarith
    then show "of_nat ?N * 20 - 20 * of_nat k = (20 :: u64)" unfolding sub by simp
  qed
  define s1 where "s1 = (if Suc k = ?N then gpr_put GPR64_RCX 0 32 (of_nat ?N * 20 - 20 * of_nat k) (gpr_put GPR64_RBX 0 32 0 ?t)
    else gpr_put GPR64_RBX 0 32 (20 * of_nat k + 20) ?t)"
  have id: "take_bit 32 (20 :: u64) = 20" by code_simp
  have s1: "gpr_get GPR64_RCX 0 32 s1 = 20" "gpr_get GPR64_RBX 0 32 s1 = (if Suc k = ?N then 0 else 20 * of_nat (Suc k))"
    "vm_smap s1 = vm_smap s" "length (vm_gpr s1) = 16" "vmm_area_range s1 = vmm_area_range s" "e820_dst s1 = e820_dst s"
    using k len id regs(2) small [of "Suc k"] last
    by (simp_all add: s1_def e820_regs_def gpr_put_eq gpr_get_eq gpr_nums get_set_field e820_dst_def add.commute)
  have lt: "20 * of_nat k < (of_nat ?N * 20 :: u64)" "(of_nat ?N * 20 - 20 * of_nat k \<le> (20 :: u64)) = (Suc k = ?N)"
  proof -
    show "20 * of_nat k < (of_nat ?N * 20 :: u64)" using k small(2) [of k] small(2) [of ?N] by (simp add: word_less_nat_alt mult.commute)
    show "(of_nat ?N * 20 - 20 * of_nat k \<le> (20 :: u64)) = (Suc k = ?N)"
      unfolding sub using k small(2) [of "?N - k"] by (auto simp: word_le_nat_alt)
  qed
  have eq: "emulate_int15_smap ?t = (VM_DONE, s1\<lparr>vm_mem := mem_write (vm_mem s1) (e820_dst s) (smap_bytes (vm_smap s ! k))\<rparr>)"
  proof -
    have sm: "vm_smap ?t = vm_smap s" by (simp add: e820_regs_def gpr_put_eq gpr_nums)
    have d: "ucast (ucast (vm_reg_get (R_BASE ES) s1) + ucast (gpr_get GPR64_RDI 0 16 s1) :: u32) = e820_dst s"
      using s1(6) by (simp add: e820_dst_def)
    have ge: "\<not> of_nat ?N * 20 \<le> (20 * of_nat k :: u64)" using lt(1) by simp
    have eq: "emulate_int15_smap ?t = (if vmm_area_range s1 (e820_dst s) (gpr_get GPR64_RCX 0 32 s1) then (VM_FAIL, s1)
        else (VM_DONE, s1\<lparr>vm_mem := mem_write (vm_mem s1) (e820_dst s) (take (unat (gpr_get GPR64_RCX 0 32 s1))
               (drop (unat (20 * of_nat k :: u64)) (concat (map smap_bytes (vm_smap s1)))))\<rparr>))"
      unfolding d [symmetric]
      by (simp only: emulate_int15_smap_def Let_def SMAP_E_SIZE_def of_nat_numeral sm regs less_irrefl simp_thms if_False if_True ge lt(2) s1_def)
    show ?thesis unfolding eq using out smap_entry [OF k] small(2) [of k] k by (simp add: s1)
  qed
  define s2 where "s2 = s1\<lparr>vm_mem := mem_write (vm_mem s1) (e820_dst s) (smap_bytes (vm_smap s ! k))\<rparr>"
  show thesis
  proof (rule that [of "gpr_put GPR64_RAX 0 32 BIOS_SMAP_ID (set_rflag 0 False s2)"])
    show "emulate_int15 j ?t = (VM_DONE, gpr_put GPR64_RAX 0 32 BIOS_SMAP_ID (set_rflag 0 False s2))"
      unfolding emulate_int15_def Let_def regs eq s2_def [symmetric] by simp
    have d: "e820_dst (gpr_put GPR64_RAX 0 32 BIOS_SMAP_ID (set_rflag 0 False s2)) = e820_dst s"
      using s1(6) by (simp add: s2_def e820_dst_def gpr_put_eq gpr_get_eq gpr_nums)
    show "mem_read (vm_mem (gpr_put GPR64_RAX 0 32 BIOS_SMAP_ID (set_rflag 0 False s2)))
            (e820_dst (gpr_put GPR64_RAX 0 32 BIOS_SMAP_ID (set_rflag 0 False s2))) 20 = smap_bytes (vm_smap s ! k)"
      unfolding d using mem_read_write_same [of "smap_bytes (vm_smap s ! k)" "vm_mem s1" "e820_dst s"] by (simp add: gpr_put_eq gpr_nums s2_def)
    show "\<not> vmm_area_range (gpr_put GPR64_RAX 0 32 BIOS_SMAP_ID (set_rflag 0 False s2))
            (e820_dst (gpr_put GPR64_RAX 0 32 BIOS_SMAP_ID (set_rflag 0 False s2))) 20"
      unfolding d using s1(5) out by (simp add: gpr_put_eq gpr_nums s2_def)
    show "length (vm_gpr (gpr_put GPR64_RAX 0 32 BIOS_SMAP_ID (set_rflag 0 False s2))) = 16"
      "vm_smap (gpr_put GPR64_RAX 0 32 BIOS_SMAP_ID (set_rflag 0 False s2)) = vm_smap s"
      "gpr_get GPR64_RBX 0 32 (gpr_put GPR64_RAX 0 32 BIOS_SMAP_ID (set_rflag 0 False s2)) = (if Suc k = ?N then 0 else 20 * of_nat (Suc k))"
      using s1 by (simp_all add: gpr_put_eq gpr_get_eq gpr_nums s2_def)
  qed
qed

section \<open>Properties\<close>

text \<open>C35: an interrupt that the vmm emulates for a guest in real mode, other than 15h, enters the
  handler the interrupt table of the guest names, with interrupts closed; when the handler leaves the
  three words on its stack alone and comes back with the stack pointer it was given, the emulated
  return resumes after the interrupt instruction, in the same code segment, with the same stack
  pointer and the same sixteen flags. The stack pointer wraps at sixteen bits.\<close>

theorem rmode_int_iret:
  assumes "v \<noteq> BIOS_MISC_INTERRUPT" and "emulate_rmode_interrupt j v n s = (rc, s1)"
    and "vm_rsp s2 = vm_rsp s1" and "rm_frame s2 = rm_frame s1" and "emulate_rmode_iret s2 = (rc', s3)"
  shows "ucast (vm_rip s1) = rd_u16 s (4 * ucast v) \<and> cs_sel s1 = rd_u16 s (4 * ucast v + 2) \<and> \<not> rflags_if s1
    \<and> ucast (vm_rip s3) = ucast (vm_rip s) + n \<and> cs_sel s3 = cs_sel s \<and> take_bit 32 (cs_base s3) = push_bit 4 (ucast (cs_sel s))
    \<and> vm_rsp s3 = vm_rsp s \<and> (ucast (vm_reg_get R_RFLAGS s3) :: u16) = ucast (vm_reg_get R_RFLAGS s)
    \<and> rc = VM_DONE_LET_RIP \<and> rc' = VM_DONE_LET_RIP"
proof -
  have s1: "s1 = emulate_rmode_vector v n s" "rc = VM_DONE_LET_RIP" using assms(1,2) by (auto simp: emulate_rmode_interrupt_def)
  have fr: "rm_frame s2 = [ucast (vm_rip s) + n, cs_sel s, ucast (vm_reg_get R_RFLAGS s)]" using assms(4) by (simp only: s1 rmode_vector_eq)
  have "vm_rsp s3 = vm_rsp s"
    using iret_eq(5) [OF fr assms(5)] assms(3) by (simp add: s1 rmode_vector_eq rsp_low low16_field) (metis low16_field(3,4))
  then show ?thesis
    using rmode_vector_eq [where s = s and v = v and n = n] iret_eq [OF fr assms(5)]
    by (simp add: s1 rflags_if_def del: vm_reg_get.simps)
qed

lemma e820_loop_from:
  assumes "length (vm_gpr s) = 16" and "k < length (vm_smap s)" and "20 * length (vm_smap s) < 2 ^ 32"
    and "\<not> vmm_area_range s (e820_dst s) 20" and "length (vm_smap s) - k \<le> n"
  shows "e820_loop n (20 * of_nat k) s = Some (map smap_bytes (drop k (vm_smap s)))"
  using assms
proof (induction n arbitrary: k s)
  case (Suc n)
  from Suc.prems(1-4) obtain s' where s': "emulate_int15 0 (e820_regs (20 * of_nat k) s) = (VM_DONE, s')"
    "mem_read (vm_mem s') (e820_dst s') 20 = smap_bytes (vm_smap s ! k)"
    "gpr_get GPR64_RBX 0 32 s' = (if Suc k = length (vm_smap s) then 0 else 20 * of_nat (Suc k))"
    "length (vm_gpr s') = 16" "vm_smap s' = vm_smap s" "\<not> vmm_area_range s' (e820_dst s') 20"
    by (rule e820_call)
  have drop: "drop k (vm_smap s) = vm_smap s ! k # drop (Suc k) (vm_smap s)" using Suc.prems(2) by (rule Cons_nth_drop_Suc [symmetric])
  show ?case
  proof (cases "Suc k = length (vm_smap s)")
    case True
    then show ?thesis using s' by (simp add: drop SMAP_E_SIZE_def)
  next
    case False
    have "unat (20 * of_nat (Suc k) :: u64) = 20 * Suc k"
      using Suc.prems(2,3) by (simp add: unat_word_ariths unat_of_nat take_bit_eq_mod del: of_nat_Suc)
    then have nz: "(20 * of_nat (Suc k) :: u64) \<noteq> 0" by (auto simp: word_unat_eq_iff)
    have "e820_loop n (20 * of_nat (Suc k)) s' = Some (map smap_bytes (drop (Suc k) (vm_smap s)))"
      using Suc.IH [of s' "Suc k"] Suc.prems s' False by simp
    with s' nz False show ?thesis by (simp add: drop SMAP_E_SIZE_def del: of_nat_Suc)
  qed
qed simp

text \<open>C36: a guest in real mode that asks for the memory map with interrupt 15h, from the continuation
  value zero until it is zero again, receives the entries of the map that the vmm prepared for it,
  all of them, in order and once each, and the enumeration ends; whatever the map, as long as the
  buffer is not refused as an area of the vmm and the map is shorter than four gigabytes.\<close>

theorem e820_enumerates:
  assumes "length (vm_gpr s) = 16" and "vm_smap s \<noteq> []" and "20 * length (vm_smap s) < 2 ^ 32"
    and "\<not> vmm_area_range s (e820_dst s) 20" and "length (vm_smap s) \<le> n"
  shows "e820_loop n 0 s = Some (map smap_bytes (vm_smap s))"
  using e820_loop_from [of s 0 n] assms by simp

lemma push_unchecked:
  "vm_mem (emulate_rmode_push v s) = mem_write (vm_mem s) (rm_addr (ss_base s) (vm_rsp s - 2)) (le_bytes 2 v)"
  by (simp add: push_eq wr_u16_def)

lemma get_ext_mem_junk:
  assumes "\<forall>e \<in> set (vm_smap s). smap_base e \<noteq> 0x100000"
  shows "emulate_int15_get_ext_mem 0 s = (VM_FAIL, s)"
    and "j \<noteq> 0 \<Longrightarrow> length (vm_gpr s) = 16 \<Longrightarrow> gpr_get GPR64_RBX 0 16 (snd (emulate_int15_get_ext_mem j s)) = take_bit 16 j"
proof -
  have none: "find (\<lambda>e. smap_type e = SMAP_TYPE_AVL \<and> smap_base e = 0x100000) (vm_smap s) = None"
    using assms by (auto simp: find_None_iff)
  show "emulate_int15_get_ext_mem 0 s = (VM_FAIL, s)" by (simp add: emulate_int15_get_ext_mem_def none)
  assume "j \<noteq> 0" and len: "length (vm_gpr s) = 16"
  then show "gpr_get GPR64_RBX 0 16 (snd (emulate_int15_get_ext_mem j s)) = take_bit 16 j"
    by (simp add: emulate_int15_get_ext_mem_def none Let_def gpr_put_eq gpr_get_eq gpr_nums get_set_field)
qed

section \<open>Examples\<close>

definition ud_ex :: ud_t where
  "ud_ex = \<lparr>ud_mn = UD_Iint, ud_op0 = \<lparr>op_type = UD_OP_IMM, op_base = 0, op_ubyte = 0x10\<rparr>,
     ud_op1 = \<lparr>op_type = 0, op_base = 0, op_ubyte = 0\<rparr>, ud_pfx_lock = 0, ud_pfx_rex = 0, ud_len = 2\<rparr>"

definition rm_ex :: rm_vm where
  "rm_ex = cpu_vm.extend cpu_ex (rm_vm.fields ud_ex (replicate 15 0)
     [\<lparr>smap_base = 0, smap_len = 0x9fc00, smap_type = 1\<rparr>, \<lparr>smap_base = 0x100000, smap_len = 0x7f00000, smap_type = 1\<rparr>] 0 0)"

lemma rm_ex_sel [simp]:
  "vm_gpr rm_ex = replicate 16 0" "vm_rsp rm_ex = 0" "gs_reg rm_ex = (\<lambda>_. 0)" "vm_rip rm_ex = 0"
  "length (vm_smap rm_ex) = 2" "area_start rm_ex = 0x10000" "area_end rm_ex = 0x20000" "\<not> cr0_pe rm_ex"
  by (simp_all add: rm_ex_def rm_vm.defs cpu_vm.defs cpu_ex_def io_vm.defs io_ex_def gdb_ex_def gdb_state.defs ctrl_ex_def dbg_ex_def dbg_vm.defs
      ctrl_vm.defs vm_cpu.defs vm_ex_def)

theorem rmode_int_iret_witness:
  "\<exists>s1 s3. emulate_rmode_interrupt 0 0x10 2 rm_ex = (VM_DONE_LET_RIP, s1) \<and> emulate_rmode_iret s1 = (VM_DONE_LET_RIP, s3)
     \<and> ucast (vm_rip s3) = (2 :: u16) \<and> vm_rsp s3 = 0"
proof -
  obtain rc s1 where 1: "emulate_rmode_interrupt 0 0x10 2 rm_ex = (rc, s1)" by (cases "emulate_rmode_interrupt 0 0x10 2 rm_ex")
  obtain rc' s3 where 3: "emulate_rmode_iret s1 = (rc', s3)" by (cases "emulate_rmode_iret s1")
  have "(0x10 :: u8) \<noteq> BIOS_MISC_INTERRUPT" by (simp add: BIOS_MISC_INTERRUPT_def)
  from rmode_int_iret [OF this 1 refl refl 3] 1 3 show ?thesis by auto
qed

theorem e820_enumerates_witness:
  "e820_loop 2 0 rm_ex = Some (map smap_bytes (vm_smap rm_ex)) \<and> length (vm_smap rm_ex) = 2"
proof -
  have d: "e820_dst rm_ex = 0" by (simp add: e820_dst_def gpr_get_eq gpr_nums get_field_def)
  have "\<not> vmm_area_range rm_ex (e820_dst rm_ex) 20" unfolding d by (simp add: vmm_area_range_def vmm_area_def uu_range_exc_def)
  moreover have "vm_smap rm_ex \<noteq> []" using rm_ex_sel(5) by fastforce
  ultimately show ?thesis using e820_enumerates [of rm_ex 2] by simp
qed

end
