(* ===== verification/Ept.thy ===== *)
theory Ept
  imports Npg_Range
begin

text \<open>
  The nested page tables of the guest as a whole, \<^verbatim>\<open>common/vmx/vmx_ept.c\<close>: the map of the memory of
  the machine less the area of the vmm, with the memory types of the range registers when they are
  in use. Reads of model specific registers are an argument, a function from the register to its value.
\<close>

section \<open>Operations\<close>

text \<open>What the map depends on besides the tables: \<^verbatim>\<open>info->vm.mtrr_def\<close>, \<^verbatim>\<open>mtrr_cap\<close>,
  \<^verbatim>\<open>info->hrd.mem.top\<close> and the area of the vmm.\<close>

record ept_cfg =
  mtrr_def :: u64
  mtrr_cap :: u64
  mem_top :: offset_t
  ept_area_start :: offset_t
  ept_area_end :: offset_t

type_synonym msr_rd = "u32 \<Rightarrow> u64"

definition mtrr_e :: "u64 \<Rightarrow> bool" where "mtrr_e d = bit d 11"
definition mtrr_fe :: "u64 \<Rightarrow> bool" where "mtrr_fe d = bit d 10"

definition VMX_EPT_MEM_TYPE_UC :: u64 where "VMX_EPT_MEM_TYPE_UC = 0"
definition VMX_EPT_PVL_RWX :: u64 where "VMX_EPT_PVL_RWX = 7"
definition IA32_MTRR_PHYSBASE0 :: u32 where "IA32_MTRR_PHYSBASE0 = 0x200"
definition IA32_MTRR_FIX64K_00000 :: u32 where "IA32_MTRR_FIX64K_00000 = 0x250"
definition IA32_MTRR_FIX16K_80000 :: u32 where "IA32_MTRR_FIX16K_80000 = 0x258"
definition IA32_MTRR_FIX16K_a0000 :: u32 where "IA32_MTRR_FIX16K_a0000 = 0x259"
definition IA32_MTRR_FIX4K_c0000 :: u32 where "IA32_MTRR_FIX4K_c0000 = 0x268"
definition IA32_MTRR_FIX4K_f8000 :: u32 where "IA32_MTRR_FIX4K_f8000 = 0x26f"

definition ept_dft_attr :: "ept_cfg \<Rightarrow> u64" where
  "ept_dft_attr c =
     (let type = (if mtrr_e (mtrr_def c) then mtrr_def c AND 0xff else VMX_EPT_MEM_TYPE_UC)
      in push_bit 3 type OR VMX_EPT_PVL_RWX)"

definition vmx_ept_map_mtrr :: "offset_t \<Rightarrow> size_t \<Rightarrow> u64 \<Rightarrow> npg_state \<Rightarrow> npg_state option" where
  "vmx_ept_map_mtrr addr len attr s =
     Option.bind (npg_unmap addr (addr + len) s) (\<lambda>s. npg_map addr (addr + len) attr s)"

definition mtrr_attr :: "u64 \<Rightarrow> u64" where
  "mtrr_attr type = ept_has_mtrr OR push_bit 3 type OR VMX_EPT_PVL_RWX"

definition vmx_ept_map_mtrr_fixed_unit ::
    "offset_t \<Rightarrow> size_t \<Rightarrow> u64 \<Rightarrow> npg_state \<Rightarrow> (offset_t \<times> npg_state) option" where
  "vmx_ept_map_mtrr_fixed_unit base sz msr s =
     for_opt (\<lambda>i (base, s). map_option (\<lambda>s. (base + sz, s))
                (vmx_ept_map_mtrr base sz (mtrr_attr (drop_bit (i * 8) msr AND 0xff)) s)) [0..<8] (base, s)"

definition vmx_ept_map_mtrr_fixed :: "msr_rd \<Rightarrow> npg_state \<Rightarrow> npg_state option" where
  "vmx_ept_map_mtrr_fixed rd s =
     do { (base, s) \<leftarrow> vmx_ept_map_mtrr_fixed_unit 0 (64 * 1024) (rd IA32_MTRR_FIX64K_00000) s;
          (base, s) \<leftarrow> vmx_ept_map_mtrr_fixed_unit base (16 * 1024) (rd IA32_MTRR_FIX16K_80000) s;
          (base, s) \<leftarrow> vmx_ept_map_mtrr_fixed_unit base (16 * 1024) (rd IA32_MTRR_FIX16K_a0000) s;
          (base, s) \<leftarrow> for_opt (\<lambda>n (base, s). vmx_ept_map_mtrr_fixed_unit base (4 * 1024) (rd (of_nat n)) s)
                         [unat IA32_MTRR_FIX4K_c0000 ..< unat IA32_MTRR_FIX4K_f8000 + 1] (base, s);
          Some s }"

definition vmx_ept_map_mtrr_variable :: "msr_rd \<Rightarrow> ept_cfg \<Rightarrow> npg_state \<Rightarrow> npg_state option" where
  "vmx_ept_map_mtrr_variable rd c s =
     for_opt (\<lambda>i s.
       let m_base = rd (IA32_MTRR_PHYSBASE0 + 2 * of_nat i); m_mask = rd (IA32_MTRR_PHYSBASE0 + 2 * of_nat i + 1)
       in if bit m_mask 11
          then (let base = push_bit 12 (get_field 12 52 m_base); mask = push_bit 12 (get_field 12 52 m_mask);
                    len = max_paddr s - mask + 1
                in vmx_ept_map_mtrr base len (mtrr_attr (m_base AND 0xff)) s)
          else Some s) [0..<unat (mtrr_cap c AND 0xff)] s"

definition vmx_ept_map_with_mtrr :: "msr_rd \<Rightarrow> ept_cfg \<Rightarrow> npg_state \<Rightarrow> npg_state option" where
  "vmx_ept_map_with_mtrr rd c s =
     do { s \<leftarrow> npg_map 0 (mem_top c) (ept_dft_attr c) s;
          (_, s) \<leftarrow> u_npg_remap_finest_4K 0 s;
          s \<leftarrow> vmx_ept_map_mtrr_variable rd c s;
          s \<leftarrow> (if mtrr_fe (mtrr_def c) \<and> bit (mtrr_cap c) 8 then vmx_ept_map_mtrr_fixed rd s else Some s);
          npg_unmap (ept_area_start c) (ept_area_end c) s }"

definition vmx_ept_map_no_mtrr :: "ept_cfg \<Rightarrow> npg_state \<Rightarrow> npg_state option" where
  "vmx_ept_map_no_mtrr c s =
     do { s \<leftarrow> npg_map 0 (ept_area_start c) (ept_dft_attr c) s;
          npg_map (ept_area_end c) (mem_top c) (ept_dft_attr c) s }"

definition vmx_ept_map :: "msr_rd \<Rightarrow> ept_cfg \<Rightarrow> npg_state \<Rightarrow> npg_state option" where
  "vmx_ept_map rd c s =
     (if mtrr_e (mtrr_def c) then vmx_ept_map_with_mtrr rd c s else vmx_ept_map_no_mtrr c s)"

definition vmx_ept_unmap :: "ept_cfg \<Rightarrow> npg_state \<Rightarrow> npg_state option" where
  "vmx_ept_unmap c s = npg_unmap 0 (mem_top c) s"

definition vmx_ept_remap :: "msr_rd \<Rightarrow> ept_cfg \<Rightarrow> npg_state \<Rightarrow> npg_state option" where
  "vmx_ept_remap rd c s = Option.bind (vmx_ept_unmap c s) (vmx_ept_map rd c)"

end
