(* ===== verification/Ept_Tbls.thy ===== *)
theory Ept_Tbls
  imports Npg_Range Npg_Walk
begin

text \<open>
  The tree of nested page tables as an object. A table of level \<open>j\<close> (0 for page tables, 3 for the
  pml4) has entries that cover blocks of \<open>2 ^ (12 + 9 * j)\<close> bytes; block \<open>b\<close> of level \<open>j\<close> starts at
  address \<open>b * 2 ^ (12 + 9 * j)\<close>. The invariant labels every table in use with its level and the block
  of the level above that it describes, and says of every entry what its label demands: a child
  table has the matching label, a leaf maps its own block to itself. It gives the translation of
  the walk and shows that a block can be mapped without changing anything outside of it.
\<close>

section \<open>Levels and blocks\<close>

definition lvl_shift :: "nat \<Rightarrow> nat" where
  "lvl_shift j = 12 + 9 * j"

definition blk :: "nat \<Rightarrow> offset_t \<Rightarrow> nat" where
  "blk j v = unat v div 2 ^ lvl_shift j"

definition lvl_idx :: "nat \<Rightarrow> offset_t \<Rightarrow> nat" where
  "lvl_idx j v = blk j v mod 512"

lemma lvl_shift_simps [simp]: "lvl_shift 0 = 12" "lvl_shift (Suc j) = 9 + lvl_shift j"
  by (simp_all add: lvl_shift_def)

lemma blk_Suc: "blk (Suc j) v = blk j v div 512"
  by (simp add: blk_def power_add mult.commute flip: div_mult2_eq)

lemma blk_idx: "blk (Suc j) v * 512 + lvl_idx j v = blk j v"
  by (simp add: blk_Suc lvl_idx_def)

lemma lvl_idx_less: "lvl_idx j v < 512"
  by (simp add: lvl_idx_def)

lemma blk_mono: "j \<le> k \<Longrightarrow> blk j v = blk j w \<Longrightarrow> blk k v = blk k w"
  by (induction k rule: dec_induct) (simp_all add: blk_Suc)

lemma idx_lvl:
  "pml4_idx v = lvl_idx 3 v" "pdp_idx v = lvl_idx 2 v" "pd64_idx v = lvl_idx 1 v" "pt64_idx v = lvl_idx 0 v"
  by (simp_all only: pml4_idx_def pdp_idx_def pd64_idx_def pt64_idx_def lvl_idx_def blk_def lvl_shift_def
      and_lit unat_take_bit_mod unat_drop_bit_div) simp_all

definition span :: "nat \<Rightarrow> nat \<Rightarrow> nat set" where
  "span j b = {b * 2 ^ lvl_shift j ..< (b + 1) * 2 ^ lvl_shift j}"

lemma span_blk: "unat v \<in> span j b \<longleftrightarrow> blk j v = b"
proof -
  have "unat v div 2 ^ lvl_shift j = b \<longleftrightarrow> b * 2 ^ lvl_shift j \<le> unat v \<and> unat v < (b + 1) * 2 ^ lvl_shift j"
    using less_eq_div_iff_mult_less_eq [of "2 ^ lvl_shift j" b "unat v"]
      div_less_iff_less_mult [of "2 ^ lvl_shift j" "unat v" "b + 1"] by auto
  then show ?thesis by (simp add: span_def blk_def)
qed

lemma span_sub:
  assumes "i < 512"
  shows "span j (b * 512 + i) \<subseteq> span (Suc j) b"
proof -
  have "b * 512 * 2 ^ lvl_shift j \<le> (b * 512 + i) * 2 ^ lvl_shift j" by simp
  moreover have "(b * 512 + i + 1) * 2 ^ lvl_shift j \<le> (b * 512 + 512) * 2 ^ lvl_shift j"
    using assms by (intro mult_right_mono) auto
  ultimately show ?thesis by (auto simp: span_def power_add algebra_simps)
qed

text \<open>Blocks below \<open>2 ^ 48\<close>, the addresses four levels of tables can describe.\<close>

definition in_48 :: "nat \<Rightarrow> nat \<Rightarrow> bool" where
  "in_48 j b = ((b + 1) * 2 ^ lvl_shift j \<le> 2 ^ 48)"

lemma in_48_blk: "in_48 j (blk j v) \<Longrightarrow> unat v < 2 ^ 48"
  using span_blk [of v j "blk j v"] by (simp add: span_def in_48_def)

lemma in_48_sub: "in_48 (Suc j) b \<Longrightarrow> i < 512 \<Longrightarrow> in_48 j (b * 512 + i)"
proof -
  assume "in_48 (Suc j) b" "i < 512"
  moreover have "(b * 512 + i + 1) * 2 ^ lvl_shift j \<le> (b * 512 + 512) * 2 ^ lvl_shift j"
    using \<open>i < 512\<close> by (intro mult_right_mono) auto
  moreover have "(b + 1) * 2 ^ lvl_shift (Suc j) = (b * 512 + 512) * 2 ^ lvl_shift j"
    by (simp add: power_add algebra_simps)
  ultimately show ?thesis unfolding in_48_def by linarith
qed

lemma blk_in_48:
  assumes "v < 2 ^ 48" and "j \<le> 4"
  shows "in_48 j (blk j v)"
proof -
  have j: "lvl_shift j \<le> 48" using assms(2) by (simp add: lvl_shift_def)
  then have e: "(2 :: nat) ^ 48 = 2 ^ (48 - lvl_shift j) * 2 ^ lvl_shift j" by (simp flip: power_add)
  have "unat v < 2 ^ (48 - lvl_shift j) * 2 ^ lvl_shift j" using assms(1) e by (simp add: word_less_nat_alt)
  then have "blk j v < 2 ^ (48 - lvl_shift j)" unfolding blk_def by (rule less_mult_imp_div_less)
  then have "(blk j v + 1) * 2 ^ lvl_shift j \<le> 2 ^ (48 - lvl_shift j) * 2 ^ lvl_shift j" by (intro mult_right_mono) auto
  then show ?thesis unfolding in_48_def e .
qed

definition base :: "nat \<Rightarrow> nat \<Rightarrow> offset_t" where
  "base j b = of_nat (b * 2 ^ lvl_shift j)"

lemma unat_base: "in_48 j b \<Longrightarrow> unat (base j b) = b * 2 ^ lvl_shift j"
proof -
  assume "in_48 j b"
  moreover have "b * 2 ^ lvl_shift j < (b + 1) * 2 ^ lvl_shift j" by simp
  ultimately have "b * 2 ^ lvl_shift j < 2 ^ 48" unfolding in_48_def by (rule order_less_le_trans [rotated])
  then have "b * 2 ^ lvl_shift j < 2 ^ 64" by simp
  then show ?thesis by (simp only: base_def unat_of_nat) simp
qed

lemma blk_base: "in_48 j b \<Longrightarrow> blk j (base j b) = b"
  by (simp add: blk_def unat_base)

lemma base_low: "in_48 j b \<Longrightarrow> base j b < 2 ^ 48"
  using in_48_blk [of j "base j b"] by (simp add: blk_base word_less_nat_alt)

lemma drop_blk: "drop_bit (lvl_shift j) v = of_nat (blk j v)"
proof -
  have "drop_bit (lvl_shift j) v = of_nat (unat (drop_bit (lvl_shift j) v))" by simp
  then show ?thesis by (simp only: blk_def unat_drop_bit_div)
qed

lemma drop_base: "in_48 j b \<Longrightarrow> drop_bit (lvl_shift j) (base j b) = of_nat b"
  by (simp only: drop_blk blk_base)

lemma base_sub: "base (Suc j) b + of_nat i * 2 ^ lvl_shift j = base j (b * 512 + i)"
  by (simp add: base_def power_add algebra_simps)

section \<open>Translation\<close>

definition leaf_addr :: "nat \<Rightarrow> u64 \<Rightarrow> offset_t \<Rightarrow> offset_t" where
  "leaf_addr j e v =
     push_bit (lvl_shift j) (get_field (lvl_shift j) (52 - lvl_shift j) e) + take_bit (lvl_shift j) v"

text \<open>The translation of \<open>v\<close> that starts at the table \<open>t\<close> of level \<open>j\<close>.\<close>

fun tr :: "npg_state \<Rightarrow> nat \<Rightarrow> offset_t \<Rightarrow> offset_t \<Rightarrow> offset_t option" where
  "tr s 0 t v =
     (let e = rd_ent (t, lvl_idx 0 v) s in if npg_present e then Some (leaf_addr 0 e v) else None)"
| "tr s (Suc j) t v =
     (let e = rd_ent (t, lvl_idx (Suc j) v) s
      in if \<not> npg_present e then None
         else if npg_large e then Some (leaf_addr (Suc j) e v)
         else tr s j (page_addr (npg_addr e)) v)"

abbreviation tr4 :: "npg_state \<Rightarrow> offset_t \<Rightarrow> offset_t option" where
  "tr4 s \<equiv> tr s 3 (npg_pml4 s)"

section \<open>The invariant\<close>

type_synonym labels = "offset_t \<rightharpoonup> nat \<times> nat"

definition ent_ok :: "labels \<Rightarrow> npg_state \<Rightarrow> nat \<Rightarrow> nat \<Rightarrow> u64 \<Rightarrow> bool" where
  "ent_ok own s j b e =
     ((npg_large e \<longrightarrow> npg_present e \<and> (j = 2 \<and> skillz_pg_1G s \<or> j = 1 \<and> skillz_pg_2M s))
      \<and> (\<not> npg_present e \<longrightarrow> npg_addr e = 0)
      \<and> (npg_present e \<longrightarrow> j \<noteq> 0 \<longrightarrow> \<not> npg_large e \<longrightarrow> own (page_addr (npg_addr e)) = Some (j - 1, b))
      \<and> (npg_present e \<longrightarrow> j = 0 \<or> npg_large e \<longrightarrow> get_field (lvl_shift j) (52 - lvl_shift j) e = of_nat b))"

definition wf_tbls :: "labels \<Rightarrow> npg_state \<Rightarrow> bool" where
  "wf_tbls own s =
     (pool_inv (npg_pool s) \<and> (\<forall>p \<in> avail s. p < 2 ^ 52) \<and> own (npg_pml4 s) = Some (3, 0)
      \<and> dom own \<inter> avail s = {} \<and> 0 \<notin> dom own
      \<and> (\<forall>t j m. own t = Some (j, m) \<longrightarrow> j \<le> 3 \<and> in_48 (Suc j) m)
      \<and> (\<forall>t j m i. own t = Some (j, m) \<longrightarrow> i < 512 \<longrightarrow> ent_ok own s j (m * 512 + i) (rd_ent (t, i) s)))"

lemma wf_tblsD:
  assumes "wf_tbls own s"
  shows "pool_inv (npg_pool s)" "\<forall>p \<in> avail s. p < 2 ^ 52" "own (npg_pml4 s) = Some (3, 0)"
    "dom own \<inter> avail s = {}" "own 0 = None" "own t = Some (j, m) \<Longrightarrow> j \<le> 3 \<and> in_48 (Suc j) m"
    "own t = Some (j, m) \<Longrightarrow> i < 512 \<Longrightarrow> ent_ok own s j (m * 512 + i) (rd_ent (t, i) s)"
  using assms unfolding wf_tbls_def by blast+

lemma ent_cover:
  assumes "wf_tbls own s" and "own t = Some (j, blk (Suc j) v)"
  shows "ent_ok own s j (blk j v) (rd_ent (t, lvl_idx j v) s)"
  using wf_tblsD(7) [OF assms lvl_idx_less [of j v]] by (simp only: blk_idx)

lemma ent_child:
  assumes "wf_tbls own s" and "own t = Some (Suc j, blk (Suc (Suc j)) v)"
    and "e = rd_ent (t, lvl_idx (Suc j) v) s" and "npg_present e" and "\<not> npg_large e"
  shows "own (page_addr (npg_addr e)) = Some (j, blk (Suc j) v)"
  using ent_cover [OF assms(1,2)] assms(3-5) by (simp add: ent_ok_def)

lemma top_table: "wf_tbls own s \<Longrightarrow> v < 2 ^ 48 \<Longrightarrow> own (npg_pml4 s) = Some (3, blk (Suc 3) v)"
  using wf_tblsD(3) [of own s] by (simp add: blk_def lvl_shift_def word_less_nat_alt)

lemma leaf_id: "get_field (lvl_shift j) (52 - lvl_shift j) e = of_nat (blk j v) \<Longrightarrow> leaf_addr j e v = v"
  by (simp only: leaf_addr_def flip: drop_blk) (rule bits_ident)

text \<open>A translation is the identity or a fault.\<close>

lemma tr_id:
  assumes wf: "wf_tbls own s"
  shows "own t = Some (j, blk (Suc j) v) \<Longrightarrow> tr s j t v = None \<or> tr s j t v = Some v"
proof (induction j arbitrary: t)
  case 0
  with ent_cover [OF wf 0] show ?case using leaf_id [of 0 _ v] by (simp add: ent_ok_def Let_def)
next
  case (Suc j)
  let ?e = "rd_ent (t, lvl_idx (Suc j) v) s"
  consider "\<not> npg_present ?e" | "npg_present ?e" "npg_large ?e" | "npg_present ?e" "\<not> npg_large ?e" by blast
  then show ?case
  proof cases
    case 2
    then have "leaf_addr (Suc j) ?e v = v" using ent_cover [OF wf Suc.prems] by (intro leaf_id) (simp add: ent_ok_def)
    with 2 show ?thesis by (simp add: Let_def)
  next
    case 3
    with Suc.IH [OF ent_child [OF wf Suc.prems refl 3]] show ?thesis by (simp add: Let_def)
  qed (simp add: Let_def)
qed

text \<open>The walk of the code is the translation from the pml4.\<close>

lemma walk_tr:
  assumes wf: "wf_tbls own s" and v: "v < 2 ^ 48"
  shows "fst (uu_npg_walk s v wlk) = (if tr4 s v = None then VM_FAULT else VM_DONE)
    \<and> (\<forall>a. tr4 s v = Some a \<longrightarrow> wlk_addr (snd (uu_npg_walk s v wlk)) = a)"
proof -
  have n: "3 = Suc (Suc (Suc 0))" "2 = Suc (Suc 0)" "1 = Suc 0" by simp_all
  let ?e4 = "rd_ent (npg_pml4 s, lvl_idx (Suc (Suc (Suc 0))) v) s"
  let ?e3 = "rd_ent (page_addr (npg_addr ?e4), lvl_idx (Suc (Suc 0)) v) s"
  let ?e2 = "rd_ent (page_addr (npg_addr ?e3), lvl_idx (Suc 0) v) s"
  note t4 = top_table [OF wf v, unfolded n]
  have l4: "\<not> npg_large ?e4" using ent_cover [OF wf t4] by (simp add: ent_ok_def)
  have t3: "own (page_addr (npg_addr ?e4)) = Some (Suc (Suc 0), blk (Suc (Suc (Suc 0))) v)" if "npg_present ?e4"
    using that l4 by (intro ent_child [OF wf t4]) auto
  have l3: "skillz_pg_1G s" if "npg_present ?e4" "npg_large ?e3"
    using ent_cover [OF wf t3] that by (simp add: ent_ok_def)
  have t2: "own (page_addr (npg_addr ?e3)) = Some (Suc 0, blk (Suc (Suc 0)) v)"
    if "npg_present ?e4" "npg_present ?e3" "\<not> npg_large ?e3"
    using that by (intro ent_child [OF wf t3]) auto
  have l2: "skillz_pg_2M s" if "npg_present ?e4" "npg_present ?e3" "\<not> npg_large ?e3" "npg_large ?e2"
    using ent_cover [OF wf t2] that by (simp add: ent_ok_def)
  have m: "v AND (PG_1G_SIZE - 1) = take_bit 30 v" "v AND (PG_2M_SIZE - 1) = take_bit 21 v"
    "v AND (PG_4K_SIZE - 1) = take_bit 12 v"
    using and_pow2_minus_1 [of v 30] and_pow2_minus_1 [of v 21] and_pow2_minus_1 [of v 12]
    by (simp_all add: PG_1G_SIZE_def PG_2M_SIZE_def PG_4K_SIZE_def)
  show ?thesis
    using l4 l3 l2 unfolding uu_npg_walk_def Let_def wlk_done_def wlk_fault_def m idx_lvl n(1,2,3)
    by (auto simp: Let_def leaf_addr_def npg_addr_def npg_addr_1G_def npg_addr_2M_def)
qed

section \<open>Frames\<close>

lemma tr_frame:
  assumes wf: "wf_tbls own s"
  shows "own t = Some (j, blk (Suc j) v) \<Longrightarrow>
    (\<And>t' i. i \<le> j \<Longrightarrow> own t' = Some (i, blk (Suc i) v) \<Longrightarrow> rd_ent (t', lvl_idx i v) s' = rd_ent (t', lvl_idx i v) s) \<Longrightarrow>
    tr s' j t v = tr s j t v"
proof (induction j arbitrary: t)
  case (Suc j)
  let ?e = "rd_ent (t, lvl_idx (Suc j) v) s"
  have "rd_ent (t, lvl_idx (Suc j) v) s' = ?e" using Suc.prems by blast
  moreover have "tr s' j (page_addr (npg_addr ?e)) v = tr s j (page_addr (npg_addr ?e)) v"
    if "npg_present ?e" "\<not> npg_large ?e"
    using Suc.prems ent_child [OF wf Suc.prems(1) refl that] by (intro Suc.IH) auto
  ultimately show ?case by (simp add: Let_def)
qed simp

definition same_cfg :: "npg_state \<Rightarrow> npg_state \<Rightarrow> bool" where
  "same_cfg s s' =
     (npg_pml4 s' = npg_pml4 s \<and> skillz_pg_1G s' = skillz_pg_1G s \<and> skillz_pg_2M s' = skillz_pg_2M s
      \<and> max_paddr s' = max_paddr s)"

lemma same_cfg_refl [simp]: "same_cfg s s"
  by (simp add: same_cfg_def)

lemma same_cfg_trans: "same_cfg s s' \<Longrightarrow> same_cfg s' s'' \<Longrightarrow> same_cfg s s''"
  by (simp add: same_cfg_def)

lemma same_cfg_pml4: "same_cfg s s' \<Longrightarrow> npg_pml4 s' = npg_pml4 s"
  by (simp add: same_cfg_def)

lemma ent_ok_mono: "ent_ok own s j b e \<Longrightarrow> own \<subseteq>\<^sub>m own' \<Longrightarrow> same_cfg s s' \<Longrightarrow> ent_ok own' s' j b e"
  unfolding ent_ok_def same_cfg_def map_le_def by (metis domI)

lemma ent_ok_0: "ent_ok own s j b 0"
  by (simp add: ent_ok_def npg_large_def npg_addr_def get_field_def)

lemma map_leD: "m \<subseteq>\<^sub>m m' \<Longrightarrow> m x = Some y \<Longrightarrow> m' x = Some y"
  by (metis domI map_le_def)

text \<open>A page of the pool becomes an empty table.\<close>

lemma new_pg_wf:
  assumes wf: "wf_tbls own s" and new: "uu_npg_new_pg s = Some (pg, s')" and lb: "j \<le> 3" "in_48 (Suc j) b"
  shows "pg \<notin> dom own \<and> page_addr (take_bit 40 (page_nr pg)) = pg
    \<and> wf_tbls (own(pg \<mapsto> (j, b))) s' \<and> same_cfg s s' \<and> card (avail s) = Suc (card (avail s'))
    \<and> (\<forall>i < 512. rd_ent (pg, i) s' = 0) \<and> (\<forall>t i. t \<noteq> pg \<longrightarrow> rd_ent (t, i) s' = rd_ent (t, i) s)"
proof -
  note d = wf_tblsD [OF wf]
  obtain pool where pop: "pool_pop_page (npg_pool s) = (pg, pool)" and pg0: "pg \<noteq> 0"
    and s': "s' = s\<lparr>npg_pool := pool, npg_mem := (\<lambda>(b, i). if b = pg \<and> i < 512 then 0 else npg_mem s (b, i))\<rparr>"
    using new by (auto simp: uu_npg_new_pg_def Let_def split: prod.splits if_splits)
  have av: "avail s \<noteq> {}" using vmm_pool.pop_zero_iff [OF d(1)] pop pg0 by auto
  note pp = vmm_pool.pop_some [OF d(1) av pop]
  have pg: "pg \<in> avail s" and pool: "pool_inv pool" "pool_avail pool = avail s - {pg}" using pp by auto
  have al: "uu_aligned pg PAGE_SIZE" using vmm_pool.page_ok [OF d(1), of pg] pg by auto
  have cfg: "same_cfg s s'" by (simp add: same_cfg_def s')
  have z: "\<forall>i < 512. rd_ent (pg, i) s' = 0" and o: "\<forall>t i. t \<noteq> pg \<longrightarrow> rd_ent (t, i) s' = rd_ent (t, i) s"
    by (simp_all add: rd_ent_def s')
  have fresh: "pg \<notin> dom own" using d(4) pg by blast
  then have le: "own \<subseteq>\<^sub>m own(pg \<mapsto> (j, b))" by (auto simp: map_le_def)
  have e: "ent_ok (own(pg \<mapsto> (j, b))) s' k (m * 512 + i) (rd_ent (t, i) s')"
    if "(own(pg \<mapsto> (j, b))) t = Some (k, m)" "i < 512" for t k m i
  proof (cases "t = pg")
    case True
    then have "rd_ent (t, i) s' = 0" using z that(2) by blast
    then show ?thesis by (simp only: ent_ok_0)
  next
    case False
    with that have "own t = Some (k, m)" by simp
    moreover have "rd_ent (t, i) s' = rd_ent (t, i) s" using False o by blast
    ultimately show ?thesis using ent_ok_mono [OF d(7) le cfg] that(2) by presburger
  qed
  have "npg_pml4 s \<noteq> pg" using fresh d(3) by blast
  then have "wf_tbls (own(pg \<mapsto> (j, b))) s'"
    unfolding wf_tbls_def using e d(2-6) pool pg pg0 lb by (auto simp: s')
  moreover have "card (avail s) = Suc (card (avail s'))"
    using card.remove [OF vmm_pool.finite_avail [OF d(1)] pg] pool(2) by (simp add: s')
  moreover have "page_addr (take_bit 40 (page_nr pg)) = pg" using page_addr_nr [OF al] bspec [OF d(2) pg] by simp
  ultimately show ?thesis using fresh cfg z o by blast
qed

lemma new_pg_none:
  assumes "wf_tbls own s" and "uu_npg_new_pg s = None"
  shows "card (avail s) = 0"
proof (rule ccontr)
  assume "card (avail s) \<noteq> 0"
  then have "avail s \<noteq> {}" by auto
  from uu_npg_new_pg_avail [OF wf_tblsD(1) [OF assms(1)] this] assms(2) show False by auto
qed

text \<open>One entry is written.\<close>

lemma rd_wr_ent: "rd_ent q (wr_ent p e s) = (if q = p then e else rd_ent q s)"
  by (simp add: rd_ent_def wr_ent_def)

lemma wr_ent_cfg [simp]: "same_cfg s (wr_ent p e s)" "npg_pool (wr_ent p e s) = npg_pool s" "npg_pml4 (wr_ent p e s) = npg_pml4 s"
  by (simp_all add: same_cfg_def wr_ent_def)

lemma wr_ent_wf:
  assumes wf: "wf_tbls own s" and e: "\<And>j m. own t = Some (j, m) \<Longrightarrow> i < 512 \<Longrightarrow> ent_ok own s j (m * 512 + i) e"
  shows "wf_tbls own (wr_ent (t, i) e s)"
proof -
  have "ent_ok own (wr_ent (t, i) e s) k (n * 512 + l) (rd_ent (q, l) (wr_ent (t, i) e s))"
    if "own q = Some (k, n)" "l < 512" for q k n l
    using wf_tblsD(7) [OF wf that] e that
    by (intro ent_ok_mono [OF _ map_le_refl wr_ent_cfg(1)]) (auto simp: rd_wr_ent)
  with wf show ?thesis unfolding wf_tbls_def by simp
qed

section \<open>Mapping a block\<close>

text \<open>The block \<open>b\<close> of level \<open>j\<close> is mapped through the entry \<open>p\<close>: no other entry of a table in use is
  touched, the tables added are for parts of the block, and the block translates to itself.\<close>

definition blk_mapped :: "labels \<Rightarrow> npg_state \<Rightarrow> labels \<Rightarrow> npg_state \<Rightarrow> nat \<Rightarrow> nat \<Rightarrow> entp \<Rightarrow> bool" where
  "blk_mapped own s own' s' j b p =
     (own \<subseteq>\<^sub>m own' \<and> wf_tbls own' s' \<and> same_cfg s s'
      \<and> (\<forall>t i. t \<in> dom own \<longrightarrow> (t, i) \<noteq> p \<longrightarrow> rd_ent (t, i) s' = rd_ent (t, i) s)
      \<and> (\<forall>v. blk j v = b \<longrightarrow> tr s' j (fst p) v = Some v))"

text \<open>The outcome of an operation that maps a block: a panic when the pool has less than \<open>need\<close> pages or
  the memory types may clash, the block mapped otherwise.\<close>

definition blk_op :: "npg_state option \<Rightarrow> bool \<Rightarrow> nat \<Rightarrow> labels \<Rightarrow> npg_state \<Rightarrow> nat \<Rightarrow> nat \<Rightarrow> entp \<Rightarrow> bool" where
  "blk_op r plain need own s j b p =
     (case r of None \<Rightarrow> plain \<longrightarrow> card (avail s) < need
      | Some s' \<Rightarrow> (\<exists>own'. blk_mapped own s own' s' j b p) \<and> card (avail s) \<le> need + card (avail s'))"

definition attr_ok :: "u64 \<Rightarrow> bool" where
  "attr_ok attr = (attr AND 7 \<noteq> 0 \<and> \<not> bit attr 7)"

definition no_clash :: "u64 \<Rightarrow> u64 \<Rightarrow> bool" where
  "no_clash e attr = (attr AND ept_has_mtrr = 0 \<or> e AND ept_has_mtrr = 0)"

lemma set_attr_plain: "no_clash e attr \<Longrightarrow> ept_pg_set_attr e attr = Some attr"
  by (auto simp: ept_pg_set_attr_def no_clash_def)

lemma and_7_iff: "x AND 7 \<noteq> 0 \<longleftrightarrow> (\<exists>n < 3. bit x n)" for x :: u64
  by (auto simp only: and_lit word_neq_0_bit bit_take_bit_iff)

lemma set_attr_bits:
  assumes "ept_pg_set_attr e attr = Some a"
  shows "n < 3 \<or> n = 7 \<Longrightarrow> bit a n \<longleftrightarrow> bit attr n"
proof -
  assume n: "n < 3 \<or> n = 7"
  obtain m where m: "m = push_bit 3 (7 :: u64)" by blast
  then have nm: "\<not> bit m n" using n unfolding m bit_push_bit_iff by auto
  have "a = attr \<or> (\<exists>c. a = (attr AND NOT m) OR push_bit 3 (take_bit 3 c))"
    using assms by (auto simp: ept_pg_set_attr_def uu_ept_mtrr_resolve_def Let_def and_lit(2) m
        simp flip: take_bit_and split: if_splits)
  then show "bit a n \<longleftrightarrow> bit attr n"
    using n nm by (auto simp: bit_or_iff bit_and_iff bit_not_iff bit_push_bit_iff bit_take_bit_iff dest: bit_imp_le_length)
qed

lemma bit_PG_PS: "bit (attr OR PG_PS) n \<longleftrightarrow> n < 64 \<and> (bit attr n \<or> n = 7)"
  unfolding PG_PS_def bit_or_iff bit_push_bit_iff bit_1_iff by (auto dest: bit_imp_le_length)

lemma attr_PG_PS:
  assumes "attr_ok attr"
  shows "(attr OR PG_PS) AND 7 \<noteq> 0" and "bit (attr OR PG_PS) 7" and "no_clash e (attr OR PG_PS) \<longleftrightarrow> no_clash e attr"
proof -
  obtain n where "n < 3" "bit attr n" using assms by (auto simp: attr_ok_def and_7_iff)
  then show "(attr OR PG_PS) AND 7 \<noteq> 0" unfolding and_7_iff bit_PG_PS by (intro exI [of _ n]) simp
  show "bit (attr OR PG_PS) 7" by (simp add: bit_PG_PS)
  have "PG_PS AND ept_has_mtrr = 0" by (simp add: PG_PS_def ept_has_mtrr_def)
  then have "(attr OR PG_PS) AND ept_has_mtrr = attr AND ept_has_mtrr" by (simp add: bit.conj_disj_distrib2)
  then show "no_clash e (attr OR PG_PS) \<longleftrightarrow> no_clash e attr" by (simp add: no_clash_def)
qed

lemma leaf_bits:
  assumes "j \<le> 2" and "in_48 j b" and e: "e = set_field (lvl_shift j) (52 - lvl_shift j) (of_nat b) a"
  shows "npg_large e \<longleftrightarrow> bit a 7" and "npg_present e \<longleftrightarrow> a AND 7 \<noteq> 0"
    and "get_field (lvl_shift j) (52 - lvl_shift j) e = of_nat b"
proof -
  let ?k = "lvl_shift j"
  have k: "12 \<le> ?k" "?k \<le> 30" using assms(1) by (simp_all add: lvl_shift_def)
  show "npg_large e \<longleftrightarrow> bit a 7"
    using k unfolding npg_large_def e bit_set_field by simp
  show "npg_present e \<longleftrightarrow> a AND 7 \<noteq> 0"
  proof -
    have "bit e n = bit a n" if "n < 3" for n using k that by (simp add: e bit_set_field)
    then show ?thesis unfolding and_7_iff npg_present_bits by auto
  qed
  have "b * 2 ^ ?k < (b + 1) * 2 ^ ?k" by simp
  with assms(2) have "b * 2 ^ ?k < 2 ^ 48" unfolding in_48_def by (rule order_less_le_trans [rotated])
  then have "b * 2 ^ ?k < 2 ^ (52 - ?k) * 2 ^ ?k" using k by (simp flip: power_add)
  then have b: "b < 2 ^ (52 - ?k)" by simp
  also have "(2 :: nat) ^ (52 - ?k) \<le> 2 ^ 64" by (rule power_increasing) simp_all
  finally have "unat (of_nat b :: u64) = b" by (simp add: unat_of_nat)
  then have "take_bit (52 - ?k) (of_nat b :: u64) = of_nat b" using b by (intro take_bit_small) simp
  then show "get_field ?k (52 - ?k) e = of_nat b" using k by (simp add: e get_set_field)
qed

lemma leaf_mapped:
  assumes wf: "wf_tbls own s" and t: "own t = Some (j, m)" and i: "i < 512" and b: "b = m * 512 + i"
    and low: "in_48 j b" and j: "j \<le> 2"
    and e: "e = set_field (lvl_shift j) (52 - lvl_shift j) (of_nat b) a"
    and a: "a AND 7 \<noteq> 0" "bit a 7 \<longleftrightarrow> 0 < j" and sk: "j = 2 \<Longrightarrow> skillz_pg_1G s" "j = 1 \<Longrightarrow> skillz_pg_2M s"
  shows "blk_mapped own s own (wr_ent (t, i) e s) j b (t, i)"
proof -
  note bits = leaf_bits [OF j low e]
  have "ent_ok own s j b e"
    using bits a sk j le_neq_implies_less [of j 2] by (auto simp: ent_ok_def less_2_cases_iff)
  then have wf': "wf_tbls own (wr_ent (t, i) e s)" using t b by (intro wr_ent_wf [OF wf]) simp
  have "tr (wr_ent (t, i) e s) j t v = Some v" if v: "blk j v = b" for v
  proof -
    have "leaf_addr j e v = v" using bits(3) v by (intro leaf_id) simp
    moreover have "lvl_idx j v = i" using v b i by (simp add: lvl_idx_def)
    ultimately show ?thesis using bits(1,2) a by (cases j) (simp_all add: rd_wr_ent)
  qed
  with wf' show ?thesis by (auto simp: blk_mapped_def rd_wr_ent)
qed

lemma map_4K_block:
  assumes wf: "wf_tbls own s" and t: "own t = Some (0, m)" and i: "i < 512" and b: "b = m * 512 + i"
    and low: "in_48 0 b" and attr: "attr_ok attr"
  shows "blk_op (npg_set_page_entry (t, i) attr (of_nat b) s) (no_clash (rd_ent (t, i) s) attr) 0 own s 0 b (t, i)"
proof (cases "ept_pg_set_attr (rd_ent (t, i) s) attr")
  case None
  then have "npg_set_page_entry (t, i) attr (of_nat b) s = None"
    by (simp add: npg_set_page_entry_def ept_pg_set_page_entry_def)
  moreover have "\<not> no_clash (rd_ent (t, i) s) attr" using None set_attr_plain by fastforce
  ultimately show ?thesis by (simp add: blk_op_def)
next
  case (Some a)
  have a: "a AND 7 \<noteq> 0" "\<not> bit a 7" using attr set_attr_bits [OF Some] by (auto simp: attr_ok_def and_7_iff)
  have "blk_mapped own s own (wr_ent (t, i) (set_field 12 40 (of_nat b) a) s) 0 b (t, i)"
    by (rule leaf_mapped [OF wf t i b low, of _ a]) (use a in simp_all)
  then show ?thesis using Some by (auto simp: blk_op_def npg_set_page_entry_def ept_pg_set_page_entry_def)
qed

section \<open>Filling a table\<close>

definition filled :: "nat \<Rightarrow> labels \<Rightarrow> npg_state \<Rightarrow> labels \<Rightarrow> npg_state \<Rightarrow> nat \<Rightarrow> nat \<Rightarrow> offset_t \<Rightarrow> bool" where
  "filled n own s own' s' j b t =
     (own \<subseteq>\<^sub>m own' \<and> wf_tbls own' s' \<and> same_cfg s s'
      \<and> (\<forall>q i. q \<in> dom own \<longrightarrow> q \<noteq> t \<or> n \<le> i \<longrightarrow> rd_ent (q, i) s' = rd_ent (q, i) s)
      \<and> (\<forall>v. blk (Suc j) v = b \<longrightarrow> lvl_idx j v < n \<longrightarrow> tr s' j t v = Some v))"

lemma filled_step:
  assumes f: "filled n own s own1 s1 j b t" and t: "own t = Some (j, b)" and n: "n < 512"
    and m: "blk_mapped own1 s1 own2 s2 j (b * 512 + n) (t, n)"
  shows "filled (Suc n) own s own2 s2 j b t"
proof -
  have le: "own \<subseteq>\<^sub>m own1" "own1 \<subseteq>\<^sub>m own2" and wf: "wf_tbls own1 s1" "wf_tbls own2 s2" and cfg: "same_cfg s s2"
    using m f same_cfg_trans [of s s1 s2] by (simp_all add: filled_def blk_mapped_def)
  have t1: "own1 t = Some (j, b)" by (rule map_leD [OF le(1) t])
  have dom: "dom own \<subseteq> dom own1" using le(1) by (rule map_le_implies_dom_le)
  have fr: "rd_ent (q, i) s2 = rd_ent (q, i) s1" if "q \<in> dom own1" "(q, i) \<noteq> (t, n)" for q i
    using m that unfolding blk_mapped_def by blast
  have "rd_ent (q, i) s2 = rd_ent (q, i) s" if q: "q \<in> dom own" and "q \<noteq> t \<or> Suc n \<le> i" for q i
  proof -
    have "rd_ent (q, i) s2 = rd_ent (q, i) s1" using that dom by (intro fr) auto
    also have "\<dots> = rd_ent (q, i) s" using f that unfolding filled_def by (meson Suc_leD)
    finally show ?thesis .
  qed
  moreover have "tr s2 j t v = Some v" if v: "blk (Suc j) v = b" and i: "lvl_idx j v < Suc n" for v
  proof (cases "lvl_idx j v = n")
    case True
    then have "blk j v = b * 512 + n" using blk_idx [of j v] v by simp
    then show ?thesis using m unfolding blk_mapped_def by simp
  next
    case False
    have "tr s2 j t v = tr s1 j t v"
      by (rule tr_frame [OF wf(1)]) (use t1 v False in \<open>auto intro!: fr\<close>)
    also have "\<dots> = Some v"
    proof -
      have "lvl_idx j v < n" using i False by simp
      with f v show ?thesis unfolding filled_def by blast
    qed
    finally show ?thesis .
  qed
  ultimately show ?thesis
    using map_le_trans [OF le] wf(2) cfg unfolding filled_def by simp
qed

lemma for_opt_Suc: "for_opt f [0..<Suc n] s = Option.bind (for_opt f [0..<n] s) (f n)"
proof -
  have nil: "for_opt f [] = Some" by (rule ext) simp
  have "for_opt f [n] = f n" by (rule ext) (simp only: for_opt.simps(2) nil Option.bind_runit)
  then show ?thesis by (simp add: for_opt_append)
qed

lemma fill_table:
  assumes body: "\<And>own s i. \<lbrakk>wf_tbls own s; own t = Some (j, b); i < 512; rd_ent (t, i) s = 0; same_cfg s0 s\<rbrakk>
      \<Longrightarrow> blk_op (f i s) True need own s j (b * 512 + i) (t, i)"
    and wf: "wf_tbls own0 s0" and t: "own0 t = Some (j, b)" and z: "\<forall>i < 512. rd_ent (t, i) s0 = 0"
  shows "n \<le> 512 \<Longrightarrow> (case for_opt f [0..<n] s0 of None \<Rightarrow> card (avail s0) < n * need
    | Some s' \<Rightarrow> (\<exists>own'. filled n own0 s0 own' s' j b t) \<and> card (avail s0) \<le> n * need + card (avail s'))"
proof (induction n)
  case 0
  have "filled 0 own0 s0 own0 s0 j b t" using wf by (auto simp: filled_def)
  then show ?case by auto
next
  case (Suc n)
  note ih = Suc.IH [OF Suc_leD [OF Suc.prems]]
  have st: "for_opt f [0..<Suc n] s0 = Option.bind (for_opt f [0..<n] s0) (f n)" by (rule for_opt_Suc)
  show ?case
  proof (cases "for_opt f [0..<n] s0")
    case None
    with ih show ?thesis unfolding st by simp
  next
    case (Some s1)
    with ih obtain own1 where f: "filled n own0 s0 own1 s1 j b t"
      and c: "card (avail s0) \<le> n * need + card (avail s1)" by auto
    have wf1: "wf_tbls own1 s1" "own1 t = Some (j, b)" "same_cfg s0 s1"
      using f t by (auto simp: filled_def intro: map_leD)
    have "rd_ent (t, n) s1 = rd_ent (t, n) s0" using f t unfolding filled_def by blast
    with z Suc.prems have np: "rd_ent (t, n) s1 = 0" by simp
    have bo: "blk_op (f n s1) True need own1 s1 j (b * 512 + n) (t, n)"
      using body [OF wf1(1,2) _ np wf1(3)] Suc.prems by simp
    show ?thesis
    proof (cases "f n s1")
      case None
      with bo c show ?thesis unfolding st Some by (simp add: blk_op_def)
    next
      case s2: (Some s2)
      with bo obtain own2 where m: "blk_mapped own1 s1 own2 s2 j (b * 512 + n) (t, n)"
        and c2: "card (avail s1) \<le> need + card (avail s2)" by (auto simp: blk_op_def)
      have "filled (Suc n) own0 s0 own2 s2 j b t" using filled_step [OF f t _ m] Suc.prems by simp
      with s2 c c2 show ?thesis unfolding st Some by auto
    qed
  qed
qed

text \<open>A new table is filled and then linked from the entry above it.\<close>

lemma link_ent:
  assumes "page_addr (take_bit 40 (page_nr pg)) = pg" and "\<not> bit attr 7" and "own pg = Some (j, b)"
    and "e = ept_pg_set_entry (attr OR npg_dft_pvl) (page_nr pg)"
  shows "npg_present e" and "\<not> npg_large e" and "page_addr (npg_addr e) = pg" and "ent_ok own s (Suc j) b e"
  using assms set_entry_present set_entry_large [of attr]
  by (simp_all add: npg_addr_set_entry ent_ok_def)

lemma nolarge_mapped:
  assumes body: "\<And>pg own s l. \<lbrakk>wf_tbls own s; own pg = Some (j, b); l < 512; rd_ent (pg, l) s = 0; same_cfg s0 s\<rbrakk>
      \<Longrightarrow> blk_op (f pg l s) True need own s j (b * 512 + l) (pg, l)"
    and wf: "wf_tbls own s" and cfg: "same_cfg s0 s" and t: "own t = Some (Suc j, m)" and i: "i < 512"
    and b: "b = m * 512 + i" and attr: "\<not> bit attr 7"
  shows "blk_op (Option.bind (uu_npg_new_pg s) (\<lambda>(pg, s1). Option.bind (for_opt (f pg) [0..<512] s1)
        (\<lambda>s2. Some (npg_set_entry (t, i) (attr OR npg_dft_pvl) (page_nr pg) s2))))
      True (Suc (512 * need)) own s (Suc j) b (t, i)"
proof (cases "uu_npg_new_pg s")
  case None
  with new_pg_none [OF wf None] show ?thesis by (simp add: blk_op_def)
next
  case (Some r)
  obtain pg s1 where new: "uu_npg_new_pg s = Some (pg, s1)" using Some by (cases r) auto
  have lb: "j \<le> 3" "in_48 (Suc j) b" using wf_tblsD(6) [OF wf t] in_48_sub [of "Suc j" m i] i b by auto
  note np = new_pg_wf [OF wf new lb]
  let ?own1 = "own(pg \<mapsto> (j, b))"
  have pg: "pg \<notin> dom own" "page_addr (take_bit 40 (page_nr pg)) = pg"
    and wf1: "wf_tbls ?own1 s1" and cfg1: "same_cfg s s1" and c1: "card (avail s) = Suc (card (avail s1))"
    and z: "\<forall>l < 512. rd_ent (pg, l) s1 = 0" and o: "\<And>q l. q \<noteq> pg \<Longrightarrow> rd_ent (q, l) s1 = rd_ent (q, l) s"
    using np by blast+
  have fill: "case for_opt (f pg) [0..<512] s1 of None \<Rightarrow> card (avail s1) < 512 * need
    | Some s' \<Rightarrow> (\<exists>own'. filled 512 ?own1 s1 own' s' j b pg) \<and> card (avail s1) \<le> 512 * need + card (avail s')"
    by (rule fill_table [OF _ wf1 _ z])
      (use body same_cfg_trans [OF same_cfg_trans [OF cfg cfg1]] in \<open>simp_all\<close>)
  show ?thesis
  proof (cases "for_opt (f pg) [0..<512] s1")
    case None
    with fill c1 show ?thesis by (simp add: blk_op_def new)
  next
    case s2: (Some s2)
    with fill obtain own2 where fd: "filled 512 ?own1 s1 own2 s2 j b pg"
      and c2: "card (avail s1) \<le> 512 * need + card (avail s2)" by auto
    have le: "own \<subseteq>\<^sub>m ?own1" "?own1 \<subseteq>\<^sub>m own2" and wf2: "wf_tbls own2 s2" and cfg2: "same_cfg s1 s2"
      using fd pg(1) by (simp_all add: filled_def) (auto simp: map_le_def)
    have t2: "own2 t = Some (Suc j, m)" and p2: "own2 pg = Some (j, b)"
      using map_leD [OF le(2)] map_leD [OF le(1)] t by auto
    let ?e = "ept_pg_set_entry (attr OR npg_dft_pvl) (page_nr pg)"
    let ?s' = "wr_ent (t, i) ?e s2"
    note e = link_ent [of pg attr own2 j b ?e, OF pg(2) attr p2 refl]
    have wf': "wf_tbls own2 ?s'" using e(4) b t2 by (intro wr_ent_wf [OF wf2]) simp
    have "rd_ent (q, l) ?s' = rd_ent (q, l) s" if q: "q \<in> dom own" and "(q, l) \<noteq> (t, i)" for q l
    proof -
      have n: "q \<noteq> pg" using q pg(1) by blast
      then have "rd_ent (q, l) s2 = rd_ent (q, l) s1" using fd q unfolding filled_def by auto
      with n o that(2) show ?thesis by (auto simp: rd_wr_ent)
    qed
    moreover have "tr ?s' (Suc j) t v = Some v" if v: "blk (Suc j) v = b" for v
    proof -
      have "lvl_idx (Suc j) v = i" using v b i by (simp add: lvl_idx_def)
      moreover have "tr ?s' j pg v = tr s2 j pg v"
        by (rule tr_frame [OF wf2]) (use p2 t2 v in \<open>auto simp: rd_wr_ent\<close>)
      moreover have "tr s2 j pg v = Some v" using fd v lvl_idx_less unfolding filled_def by blast
      ultimately show ?thesis using e(1-3) by (simp add: rd_wr_ent)
    qed
    ultimately have "blk_mapped own s own2 ?s' (Suc j) b (t, i)"
      using map_le_trans [OF le] wf' same_cfg_trans [OF cfg1 same_cfg_trans [OF cfg2 wr_ent_cfg(1)]]
      unfolding blk_mapped_def by simp
    then show ?thesis using c1 c2 s2 new by (auto simp: blk_op_def npg_set_entry_def)
  qed
qed

section \<open>The low level map services\<close>

text \<open>The pages of the pool that a block of 2M or 1G needs at most.\<close>

definition need_2M :: "npg_state \<Rightarrow> nat" where
  "need_2M s = (if skillz_pg_2M s then 0 else 1)"

definition need_1G :: "npg_state \<Rightarrow> nat" where
  "need_1G s = (if skillz_pg_1G s then 0 else Suc (512 * need_2M s))"

lemma need_cfg: "same_cfg s s' \<Longrightarrow> need_2M s' = need_2M s" "same_cfg s s' \<Longrightarrow> need_1G s' = need_1G s"
  by (simp_all add: need_2M_def need_1G_def same_cfg_def)

lemma no_clash_0: "no_clash 0 attr"
  by (simp add: no_clash_def)

lemma map_2M_nolarge_block:
  assumes wf: "wf_tbls own s" and t: "own t = Some (1, m)" and i: "i < 512" and b: "b = m * 512 + i"
    and low: "in_48 1 b" and attr: "attr_ok attr"
  shows "blk_op (uu_npg_map_2M_nolarge (t, i) (base 1 b) attr s) True 1 own s 1 b (t, i)"
proof -
  have d: "drop_bit 12 (base 1 b) + of_nat l = of_nat (b * 512 + l)" for l
  proof -
    have "base 1 b = base 0 (b * 512 + 0)" using base_sub [of 0 b 0] by simp
    then have "drop_bit 12 (base 1 b) = of_nat (b * 512 + 0)"
      using drop_base [OF in_48_sub [of 0 b 0]] low by simp
    then show ?thesis by simp
  qed
  have "blk_op (Option.bind (uu_npg_new_pg s) (\<lambda>(pg, s1). Option.bind
        (for_opt (\<lambda>l. npg_set_page_entry (pg, l) attr (of_nat (b * 512 + l))) [0..<512] s1)
        (\<lambda>s2. Some (npg_set_entry (t, i) (attr OR npg_dft_pvl) (page_nr pg) s2))))
      True (Suc (512 * 0)) own s (Suc 0) b (t, i)"
  proof (rule nolarge_mapped [OF _ wf same_cfg_refl])
    fix pg own1 s1 and l :: nat
    assume a: "wf_tbls own1 s1" "own1 pg = Some (0, b)" "l < 512" "rd_ent (pg, l) s1 = 0"
    have "in_48 0 (b * 512 + l)" using low a(3) by (intro in_48_sub) simp_all
    from map_4K_block [OF a(1-3) refl this attr] a(4)
    show "blk_op (npg_set_page_entry (pg, l) attr (of_nat (b * 512 + l)) s1) True 0 own1 s1 0 (b * 512 + l) (pg, l)"
      by (simp add: no_clash_0)
  qed (use t i b attr in \<open>simp_all add: attr_ok_def\<close>)
  then show ?thesis unfolding uu_npg_map_2M_nolarge_def d by simp
qed

lemma map_2M_block:
  assumes wf: "wf_tbls own s" and t: "own t = Some (1, m)" and i: "i < 512" and b: "b = m * 512 + i"
    and low: "in_48 1 b" and attr: "attr_ok attr" and np: "\<not> npg_present (rd_ent (t, i) s)"
  shows "blk_op (uu_npg_map_2M (t, i) (base 1 b) attr s) (no_clash (rd_ent (t, i) s) attr) (need_2M s) own s 1 b (t, i)"
proof (cases "skillz_pg_2M s")
  case False
  then show ?thesis
    using np map_2M_nolarge_block [OF wf t i b low attr] by (auto simp: uu_npg_map_2M_def blk_op_def need_2M_def split: option.splits)
next
  case True
  let ?old = "rd_ent (t, i) s"
  have d: "drop_bit 21 (base 1 b) = of_nat b" using drop_base [OF low] by (simp add: lvl_shift_def)
  have r: "uu_npg_map_2M (t, i) (base 1 b) attr s =
      map_option (\<lambda>a. wr_ent (t, i) (set_field 21 31 (of_nat b) a) s) (ept_pg_set_attr ?old (attr OR PG_PS))"
    using np True d by (simp add: uu_npg_map_2M_def ept_pg_set_large_page_entry_2M_def option.map_comp o_def)
  show ?thesis
  proof (cases "ept_pg_set_attr ?old (attr OR PG_PS)")
    case None
    then have "\<not> no_clash ?old attr" using set_attr_plain attr_PG_PS(3) [OF attr] by fastforce
    with None show ?thesis unfolding r by (simp add: blk_op_def)
  next
    case (Some a)
    have a: "a AND 7 \<noteq> 0" "bit a 7"
      using attr_PG_PS(1,2) [OF attr] set_attr_bits [OF Some] by (auto simp: and_7_iff)
    have "blk_mapped own s own (wr_ent (t, i) (set_field 21 31 (of_nat b) a) s) 1 b (t, i)"
      by (rule leaf_mapped [OF wf t i b low, of _ a]) (use a True in \<open>simp_all add: lvl_shift_def\<close>)
    with Some show ?thesis unfolding r by (auto simp: blk_op_def)
  qed
qed

lemma map_1G_nolarge_block:
  assumes wf: "wf_tbls own s" and t: "own t = Some (2, m)" and i: "i < 512" and b: "b = m * 512 + i"
    and low: "in_48 2 b" and attr: "attr_ok attr"
  shows "blk_op (uu_npg_map_1G_nolarge (t, i) (base 2 b) attr s) True (Suc (512 * need_2M s)) own s 2 b (t, i)"
proof -
  have n: "2 = Suc (1 :: nat)" by simp
  have d: "base 2 b + of_nat l * PG_2M_SIZE = base 1 (b * 512 + l)" for l
    using base_sub [of 1 b l] by (simp add: lvl_shift_def PG_2M_SIZE_def eval_nat_numeral)
  have "blk_op (Option.bind (uu_npg_new_pg s) (\<lambda>(pg, s1). Option.bind
        (for_opt (\<lambda>l. uu_npg_map_2M (pg, l) (base 1 (b * 512 + l)) attr) [0..<512] s1)
        (\<lambda>s2. Some (npg_set_entry (t, i) (attr OR npg_dft_pvl) (page_nr pg) s2))))
      True (Suc (512 * need_2M s)) own s (Suc 1) b (t, i)"
  proof (rule nolarge_mapped [OF _ wf same_cfg_refl])
    fix pg own1 s1 and l :: nat
    assume a: "wf_tbls own1 s1" "own1 pg = Some (1, b)" "l < 512" "rd_ent (pg, l) s1 = 0" "same_cfg s s1"
    have "in_48 1 (b * 512 + l)" using low a(3) by (intro in_48_sub) (simp_all add: n)
    from map_2M_block [OF a(1-3) refl this attr] a(4) need_cfg(1) [OF a(5)]
    show "blk_op (uu_npg_map_2M (pg, l) (base 1 (b * 512 + l)) attr s1) True (need_2M s) own1 s1 1 (b * 512 + l) (pg, l)"
      by (simp add: no_clash_0)
  qed (use t i b attr in \<open>simp_all add: attr_ok_def n\<close>)
  then show ?thesis unfolding uu_npg_map_1G_nolarge_def d by (simp add: numeral_2_eq_2)
qed

lemma map_1G_block:
  assumes wf: "wf_tbls own s" and t: "own t = Some (2, m)" and i: "i < 512" and b: "b = m * 512 + i"
    and low: "in_48 2 b" and attr: "attr_ok attr" and np: "\<not> npg_present (rd_ent (t, i) s)"
  shows "blk_op (uu_npg_map_1G (t, i) (base 2 b) attr s) (no_clash (rd_ent (t, i) s) attr) (need_1G s) own s 2 b (t, i)"
proof (cases "skillz_pg_1G s")
  case False
  then show ?thesis
    using np map_1G_nolarge_block [OF wf t i b low attr] by (auto simp: uu_npg_map_1G_def blk_op_def need_1G_def split: option.splits)
next
  case True
  let ?old = "rd_ent (t, i) s"
  have d: "drop_bit 30 (base 2 b) = of_nat b" using drop_base [OF low] by (simp add: lvl_shift_def)
  have r: "uu_npg_map_1G (t, i) (base 2 b) attr s =
      map_option (\<lambda>a. wr_ent (t, i) (set_field 30 22 (of_nat b) a) s) (ept_pg_set_attr ?old (attr OR PG_PS))"
    using np True d by (simp add: uu_npg_map_1G_def ept_pg_set_large_page_entry_1G_def option.map_comp o_def)
  show ?thesis
  proof (cases "ept_pg_set_attr ?old (attr OR PG_PS)")
    case None
    then have "\<not> no_clash ?old attr" using set_attr_plain attr_PG_PS(3) [OF attr] by fastforce
    with None show ?thesis unfolding r by (simp add: blk_op_def)
  next
    case (Some a)
    have a: "a AND 7 \<noteq> 0" "bit a 7"
      using attr_PG_PS(1,2) [OF attr] set_attr_bits [OF Some] by (auto simp: and_7_iff)
    have "blk_mapped own s own (wr_ent (t, i) (set_field 30 22 (of_nat b) a) s) 2 b (t, i)"
      by (rule leaf_mapped [OF wf t i b low, of _ a]) (use a True in \<open>simp_all add: lvl_shift_def\<close>)
    with Some show ?thesis unfolding r by (auto simp: blk_op_def)
  qed
qed

section \<open>Paths\<close>

text \<open>The walk of \<open>v\<close> from the table \<open>q\<close> of level \<open>k\<close> goes through the table \<open>t\<close> of level \<open>j\<close>.\<close>

fun path :: "npg_state \<Rightarrow> offset_t \<Rightarrow> nat \<Rightarrow> offset_t \<Rightarrow> nat \<Rightarrow> offset_t \<Rightarrow> bool" where
  "path s q 0 t j v = (j = 0 \<and> q = t)"
| "path s q (Suc k) t j v =
     (if j = Suc k then q = t
      else let e = rd_ent (q, lvl_idx (Suc k) v) s
           in npg_present e \<and> \<not> npg_large e \<and> path s (page_addr (npg_addr e)) k t j v)"

abbreviation path4 :: "npg_state \<Rightarrow> offset_t \<Rightarrow> nat \<Rightarrow> offset_t \<Rightarrow> bool" where
  "path4 s t j v \<equiv> path s (npg_pml4 s) 3 t j v"

lemma path_refl: "path s t j t j v"
  by (cases j) simp_all

lemma path_le: "path s q k t j v \<Longrightarrow> j \<le> k"
  by (induction s q k t j v rule: path.induct) (auto simp: Let_def split: if_splits)

lemma path_tr: "path s q k t j v \<Longrightarrow> tr s k q v = tr s j t v"
  by (induction s q k t j v rule: path.induct) (auto simp: Let_def split: if_splits)

lemma path_fun: "path s q k t j v \<Longrightarrow> path s q k t' j v \<Longrightarrow> t = t'"
  by (induction k arbitrary: q) (auto simp: Let_def split: if_splits)

lemma path_snoc:
  assumes "e = rd_ent (t, lvl_idx (Suc j) v) s" and "npg_present e" and "\<not> npg_large e"
  shows "path s q k t (Suc j) v \<Longrightarrow> path s q k (page_addr (npg_addr e)) j v"
proof (induction k arbitrary: q)
  case (Suc k)
  show ?case
  proof (cases "k = j")
    case True
    with Suc.prems assms show ?thesis by (cases j) (simp_all add: Let_def)
  next
    case False
    let ?e = "rd_ent (q, lvl_idx (Suc k) v) s"
    have e: "npg_present ?e" "\<not> npg_large ?e" "path s (page_addr (npg_addr ?e)) k t (Suc j) v"
      using Suc.prems False by (simp_all add: Let_def)
    from path_le [OF e(3)] have "j \<noteq> Suc k" by simp
    with e Suc.IH show ?thesis by (simp add: Let_def)
  qed
qed simp

lemma path_frame:
  assumes wf: "wf_tbls own s" and w: "blk (Suc j) v = blk (Suc j) w"
  shows "path s q k t j v \<Longrightarrow> own q = Some (k, blk (Suc k) v) \<Longrightarrow>
    (\<And>t' i. j < i \<Longrightarrow> own t' = Some (i, blk (Suc i) v) \<Longrightarrow> rd_ent (t', lvl_idx i v) s' = rd_ent (t', lvl_idx i v) s) \<Longrightarrow>
    path s' q k t j w"
proof (induction k arbitrary: q)
  case (Suc k)
  show ?case
  proof (cases "j = Suc k")
    case True
    with Suc.prems show ?thesis by simp
  next
    case False
    let ?e = "rd_ent (q, lvl_idx (Suc k) v) s"
    have e: "npg_present ?e" "\<not> npg_large ?e" "path s (page_addr (npg_addr ?e)) k t j v"
      using Suc.prems(1) False by (simp_all add: Let_def)
    have jk: "j \<le> k" by (rule path_le [OF e(3)])
    have "lvl_idx (Suc k) w = lvl_idx (Suc k) v" using blk_mono [of "Suc j" "Suc k" v w] w jk by (simp add: lvl_idx_def)
    moreover have "rd_ent (q, lvl_idx (Suc k) v) s' = ?e" using Suc.prems(2,3) jk by simp
    moreover have "path s' (page_addr (npg_addr ?e)) k t j w"
      using Suc.IH [OF e(3) ent_child [OF wf Suc.prems(2) refl e(1,2)]] Suc.prems(3) by blast
    ultimately show ?thesis using False e by (simp add: Let_def)
  qed
qed simp

lemma path_label:
  assumes wf: "wf_tbls own s"
  shows "path s q k t j v \<Longrightarrow> own q = Some (k, blk (Suc k) v) \<Longrightarrow> own t = Some (j, blk (Suc j) v)"
proof (induction k arbitrary: q)
  case (Suc k)
  show ?case
  proof (cases "j = Suc k")
    case True
    with Suc.prems show ?thesis by simp
  next
    case False
    let ?e = "rd_ent (q, lvl_idx (Suc k) v) s"
    have e: "npg_present ?e" "\<not> npg_large ?e" "path s (page_addr (npg_addr ?e)) k t j v"
      using Suc.prems(1) False by (simp_all add: Let_def)
    show ?thesis by (rule Suc.IH [OF e(3) ent_child [OF wf Suc.prems(2) refl e(1,2)]])
  qed
qed simp

lemma path4_label: "wf_tbls own s \<Longrightarrow> v < 2 ^ 48 \<Longrightarrow> path4 s t j v \<Longrightarrow> own t = Some (j, blk (Suc j) v)"
  by (rule path_label [OF _ _ top_table])

lemma path4_block: "wf_tbls own s \<Longrightarrow> v < 2 ^ 48 \<Longrightarrow> path4 s t j v \<Longrightarrow> blk (Suc j) v = blk (Suc j) w \<Longrightarrow> path4 s t j w"
  using path_frame [of own s j v w "npg_pml4 s" 3 t s] top_table [of own s v] by blast

text \<open>Changes that stay inside one block leave the translation outside of it and the path to it.\<close>

lemma tr4_outside:
  assumes wf: "wf_tbls own s" and v: "v < 2 ^ 48" "blk j v \<noteq> b" and cfg: "same_cfg s s'"
    and fr: "\<And>q k m i. own q = Some (k, m) \<Longrightarrow> i < 512 \<Longrightarrow> rd_ent (q, i) s' \<noteq> rd_ent (q, i) s \<Longrightarrow> span k (m * 512 + i) \<subseteq> span j b"
  shows "tr4 s' v = tr4 s v"
  unfolding same_cfg_pml4 [OF cfg]
proof (rule tr_frame [OF wf top_table [OF wf v(1)]])
  fix q i assume "own q = Some (i, blk (Suc i) v)"
  from fr [OF this lvl_idx_less [of i v], unfolded blk_idx] v(2)
  show "rd_ent (q, lvl_idx i v) s' = rd_ent (q, lvl_idx i v) s"
    using span_blk [of v i "blk i v"] span_blk [of v j b] by blast
qed

lemma path4_keeps:
  assumes wf: "wf_tbls own s" and v: "v < 2 ^ 48" and cfg: "same_cfg s s'" and p: "path4 s t j v"
    and fr: "\<And>q k m i. own q = Some (k, m) \<Longrightarrow> i < 512 \<Longrightarrow> rd_ent (q, i) s' \<noteq> rd_ent (q, i) s \<Longrightarrow> k \<le> j"
  shows "path4 s' t j v"
  unfolding same_cfg_pml4 [OF cfg]
proof (rule path_frame [OF wf refl p top_table [OF wf v]])
  fix q i assume "j < i" "own q = Some (i, blk (Suc i) v)"
  then show "rd_ent (q, lvl_idx i v) s' = rd_ent (q, lvl_idx i v) s"
    using fr [of q i _ "lvl_idx i v"] lvl_idx_less not_less by blast
qed

end
