(* ===== verification/Ept_Unmap.thy ===== *)
theory Ept_Unmap
  imports Ept_Tbls
begin

text \<open>
  Taking mappings away. A table is given back to the pool when the entry that links it is cleared;
  the labels show that no other entry of a live table refers to it. The effect of every service is
  stated on the translation: the block is gone and every other address translates as before.
\<close>

section \<open>Live tables\<close>

definition tbls_ok :: "npg_state \<Rightarrow> bool" where
  "tbls_ok s = (\<exists>own. wf_tbls own s)"

definition live :: "labels \<Rightarrow> npg_state \<Rightarrow> labels" where
  "live own s t =
     (case own t of None \<Rightarrow> None
      | Some (j, b) \<Rightarrow> if path4 s t j (base (Suc j) b) then Some (j, b) else None)"

lemma live_iff: "live own s t = Some (j, b) \<longleftrightarrow> own t = Some (j, b) \<and> path4 s t j (base (Suc j) b)"
  by (auto simp: live_def split: option.splits if_splits)

lemma live_inj: "live own s t = Some x \<Longrightarrow> live own s t' = Some x \<Longrightarrow> t = t'"
  by (cases x) (auto simp: live_iff intro: path_fun)

lemma live_wf:
  assumes wf: "wf_tbls own s"
  shows "wf_tbls (live own s) s"
proof -
  note d = wf_tblsD [OF wf]
  have "ent_ok (live own s) s j (m * 512 + i) (rd_ent (t, i) s)"
    if lv: "live own s t = Some (j, m)" and i: "i < 512" for t j m i
  proof -
    have t: "own t = Some (j, m)" and p: "path4 s t j (base (Suc j) m)" using lv by (auto simp: live_iff)
    have low: "in_48 (Suc j) m" using d(6) [OF t] by simp
    let ?a = "base j (m * 512 + i)"
    have la: "in_48 j (m * 512 + i)" by (rule in_48_sub [OF low i])
    have ba: "blk j ?a = m * 512 + i" by (rule blk_base [OF la])
    then have bs: "blk (Suc j) ?a = m" "lvl_idx j ?a = i" using i by (simp_all add: blk_Suc lvl_idx_def)
    have "path4 s t j ?a" using path4_block [OF wf base_low [OF low] p, of ?a] blk_base [OF low] bs by simp
    then have "path4 s (page_addr (npg_addr (rd_ent (t, i) s))) (j - 1) ?a"
      if "npg_present (rd_ent (t, i) s)" "\<not> npg_large (rd_ent (t, i) s)" "j \<noteq> 0"
      using path_snoc [of "rd_ent (t, i) s" t "j - 1" ?a s "npg_pml4 s" 3] that bs by simp
    with d(7) [OF t i] show ?thesis by (cases j) (auto simp: ent_ok_def live_iff)
  qed
  moreover have "live own s (npg_pml4 s) = Some (3, 0)" using d(3) by (simp add: live_iff path_refl)
  moreover have sub: "dom (live own s) \<subseteq> dom own" by (auto simp: live_iff)
  have "dom (live own s) \<inter> avail s = {}" "0 \<notin> dom (live own s)" using sub d(4,5) by blast+
  moreover have "j \<le> 3 \<and> in_48 (Suc j) m" if "live own s t = Some (j, m)" for t j m
    using that d(6) by (auto simp: live_iff)
  ultimately show ?thesis using d(1,2) unfolding wf_tbls_def by blast
qed

lemma live_path:
  assumes wf: "wf_tbls own s" and v: "v < 2 ^ 48" and p: "path4 s t j v"
  shows "live own s t = Some (j, blk (Suc j) v)"
proof -
  have t: "own t = Some (j, blk (Suc j) v)" by (rule path4_label [OF wf v p])
  then have "in_48 (Suc j) (blk (Suc j) v)" using wf_tblsD(6) [OF wf] by blast
  with path4_block [OF wf v p, of "base (Suc j) (blk (Suc j) v)"] t show ?thesis by (simp add: live_iff blk_base)
qed

section \<open>Steps on a block\<close>

text \<open>The entry of level \<open>j\<close> for \<open>a\<close> in the table \<open>t\<close> is worked on: the addresses of the block translate to
  \<open>r\<close>, all others as before, and the tables above \<open>t\<close> are untouched on the way to \<open>a\<close>.\<close>

definition keeps_above :: "npg_state \<Rightarrow> npg_state \<Rightarrow> nat \<Rightarrow> offset_t \<Rightarrow> bool" where
  "keeps_above s s' j a =
     (\<forall>t k. j < k \<longrightarrow> path4 s t k a \<longrightarrow> path4 s' t k a \<and> rd_ent (t, lvl_idx k a) s' = rd_ent (t, lvl_idx k a) s)"

definition blk_step :: "(offset_t \<Rightarrow> offset_t option) \<Rightarrow> npg_state \<Rightarrow> npg_state \<Rightarrow> nat \<Rightarrow> offset_t \<Rightarrow> offset_t \<Rightarrow> bool" where
  "blk_step r s s' j t a =
     (tbls_ok s' \<and> same_cfg s s' \<and> path4 s' t j a \<and> keeps_above s s' j a
      \<and> (\<forall>v < 2 ^ 48. tr4 s' v = (if blk j v = blk j a then r v else tr4 s v)))"

lemma blk_stepI:
  assumes wf: "wf_tbls own s" and a: "a < 2 ^ 48" and p: "path4 s t j a"
    and wf': "wf_tbls own' s'" and cfg: "same_cfg s s'"
    and fr: "\<And>q k m i. own q = Some (k, m) \<Longrightarrow> i < 512 \<Longrightarrow> rd_ent (q, i) s' \<noteq> rd_ent (q, i) s
      \<Longrightarrow> k \<le> j \<and> span k (m * 512 + i) \<subseteq> span j (blk j a)"
    and r: "\<And>v. blk j v = blk j a \<Longrightarrow> tr s' j t v = r v"
  shows "blk_step r s s' j t a"
proof -
  have p': "path4 s' t j a" using path4_keeps [OF wf a cfg p] fr by blast
  have "keeps_above s s' j a"
    unfolding keeps_above_def
  proof (intro allI impI)
    fix q k assume k: "j < k" "path4 s q k a"
    have "path4 s' q k a" using path4_keeps [OF wf a cfg k(2)] fr k(1) by (meson less_imp_le order_trans)
    moreover have "own q = Some (k, blk (Suc k) a)" by (rule path4_label [OF wf a k(2)])
    then have "rd_ent (q, lvl_idx k a) s' = rd_ent (q, lvl_idx k a) s"
      using fr [of q k _ "lvl_idx k a"] lvl_idx_less k(1) not_less by blast
    ultimately show "path4 s' q k a \<and> rd_ent (q, lvl_idx k a) s' = rd_ent (q, lvl_idx k a) s" ..
  qed
  moreover have "tr4 s' v = r v" if v: "v < 2 ^ 48" "blk j v = blk j a" for v
  proof -
    have "blk (Suc j) a = blk (Suc j) v" using v(2) by (simp add: blk_Suc)
    from path4_block [OF wf' a p' this] have "path4 s' t j v" .
    with path_tr [OF this] r [OF v(2)] show ?thesis by simp
  qed
  moreover have "tr4 s' v = tr4 s v" if "v < 2 ^ 48" "blk j v \<noteq> blk j a" for v
    using tr4_outside [OF wf that cfg] fr by blast
  ultimately show ?thesis using wf' cfg p' unfolding blk_step_def tbls_ok_def by auto
qed

text \<open>The table of a path has the entry where the change happens.\<close>

lemma span_self: "own t = Some (j, blk (Suc j) a) \<Longrightarrow> own t = Some (k, m) \<Longrightarrow> i = lvl_idx j a
   \<Longrightarrow> k \<le> j \<and> span k (m * 512 + i) \<subseteq> span j (blk j a)"
  using blk_idx [of j a] by simp

lemma tr_absent: "lvl_idx j v = lvl_idx j a \<Longrightarrow> \<not> npg_present (rd_ent (t, lvl_idx j a) s) \<Longrightarrow> tr s j t v = None"
  by (cases j) (simp_all add: Let_def)

lemma blk_idx_eq: "blk j v = blk j a \<Longrightarrow> lvl_idx j v = lvl_idx j a"
  by (simp add: lvl_idx_def)

section \<open>Clearing an entry\<close>

lemma ept_zero_bits: "\<not> npg_present (ept_zero e)" "\<not> npg_large (ept_zero e)" "npg_addr (ept_zero e) = 0"
proof -
  have k: "bit (ept_zero e) n \<Longrightarrow> n = 52 \<or> 3 \<le> n \<and> n < 6" for n
  proof -
    have "(7 :: u64) = mask 3" by (simp add: mask_eq_decr_exp)
    then show "bit (ept_zero e) n \<Longrightarrow> n = 52 \<or> 3 \<le> n \<and> n < 6"
      unfolding ept_zero_def VMX_EPT_KEEP_MTRR_TYPE_def ept_has_mtrr_def
      by (simp only: bit_and_iff bit_or_iff bit_push_bit_iff bit_mask_iff bit_1_iff split: if_splits) auto
  qed
  show "\<not> npg_present (ept_zero e)" using k by (fastforce simp: npg_present_bits)
  show "\<not> npg_large (ept_zero e)" using k [of 7] by (auto simp: npg_large_def)
  show "npg_addr (ept_zero e) = 0"
  proof (rule bit_eqI)
    fix n show "bit (npg_addr (ept_zero e)) n = bit 0 n"
      using k [of "12 + n"] by (auto simp: npg_addr_def bit_get_field)
  qed
qed

lemma ept_zero_ok: "ent_ok own s j b (ept_zero e)"
  using ept_zero_bits [of e] by (simp add: ent_ok_def)

text \<open>A leaf, or an entry that is not present.\<close>

lemma leaf_gone:
  assumes ok: "tbls_ok s" and a: "a < 2 ^ 48" and p: "path4 s t j a"
  shows "blk_step (\<lambda>v. None) s (npg_zero (t, lvl_idx j a) s) j t a"
proof -
  obtain own where wf: "wf_tbls own s" using ok by (auto simp: tbls_ok_def)
  have t: "own t = Some (j, blk (Suc j) a)" by (rule path4_label [OF wf a p])
  let ?s' = "npg_zero (t, lvl_idx j a) s"
  show ?thesis
  proof (rule blk_stepI [OF wf a p])
    show "wf_tbls own ?s'" unfolding npg_zero_def by (intro wr_ent_wf [OF wf] ept_zero_ok)
    show "same_cfg s ?s'" by (simp add: npg_zero_def)
    show "tr ?s' j t v = None" if "blk j v = blk j a" for v
      using ept_zero_bits(1) by (intro tr_absent [OF blk_idx_eq [OF that]]) (simp add: npg_zero_def rd_wr_ent)
    fix q k m i assume "own q = Some (k, m)" "rd_ent (q, i) ?s' \<noteq> rd_ent (q, i) s"
    then have "q = t" "i = lvl_idx j a" by (auto simp: npg_zero_def rd_wr_ent split: if_splits)
    with \<open>own q = Some (k, m)\<close> t show "k \<le> j \<and> span k (m * 512 + i) \<subseteq> span j (blk j a)" by (intro span_self) auto
  qed
qed

text \<open>A change of the memory outside of the tables in use, and of the pool.\<close>

lemma push_pool:
  assumes "pool_inv p" and "uu_aligned c PAGE_SIZE"
  shows "pool_inv (pool_push_page c p)" "pool_avail p \<subseteq> pool_avail (pool_push_page c p)"
    "pool_avail (pool_push_page c p) \<subseteq> insert c (pool_avail p)" "card (pool_avail p) \<le> card (pool_avail (pool_push_page c p))"
proof -
  have "pool_inv (pool_push_page c p) \<and> pool_avail p \<subseteq> pool_avail (pool_push_page c p)
      \<and> pool_avail (pool_push_page c p) \<subseteq> insert c (pool_avail p)"
    using vmm_pool.push_held [OF assms(1), of c] vmm_pool.push_other [OF assms] assms(1) by (cases "c \<in> pool_held p") auto
  then show "pool_inv (pool_push_page c p)" "pool_avail p \<subseteq> pool_avail (pool_push_page c p)"
    "pool_avail (pool_push_page c p) \<subseteq> insert c (pool_avail p)"
    and "card (pool_avail p) \<le> card (pool_avail (pool_push_page c p))"
    using card_mono [OF vmm_pool.finite_avail] by blast+
qed

lemma page_addr_low: "page_addr (npg_addr e) < 2 ^ 52"
proof -
  have "unat (npg_addr e) < 2 ^ 40" by (simp only: npg_addr_def get_field_def unat_take_bit_mod) simp
  then have "unat (page_addr (npg_addr e)) < 2 ^ 52"
    by (simp only: page_addr_def PAGE_SHIFT_def unsigned_push_bit_eq) (simp add: push_bit_eq_mult take_bit_eq_mod)
  then show ?thesis by (simp add: word_less_nat_alt)
qed

lemma zero_fold:
  defines "g \<equiv> \<lambda>c i s. if npg_present (rd_ent (c, i) s) then npg_zero (c, i) s else s"
  shows "same_cfg s (fold (g c) is s) \<and> npg_pool (fold (g c) is s) = npg_pool s
    \<and> (\<forall>q l. q \<noteq> c \<longrightarrow> rd_ent (q, l) (fold (g c) is s) = rd_ent (q, l) s)"
proof (induction "is" arbitrary: s)
  case (Cons i "is")
  have "same_cfg s (g c i s) \<and> npg_pool (g c i s) = npg_pool s \<and> (\<forall>q l. q \<noteq> c \<longrightarrow> rd_ent (q, l) (g c i s) = rd_ent (q, l) s)"
    by (simp add: g_def npg_zero_def rd_wr_ent)
  with Cons [of "g c i s"] same_cfg_trans show ?case by auto
qed simp

lemma zero_fold_in:
  "rd_ent (c, i) (fold (\<lambda>i s. if npg_present (rd_ent (c, i) s) then npg_zero (c, i) s else s) is s) =
     (if i \<in> set is \<and> npg_present (rd_ent (c, i) s) then ept_zero (rd_ent (c, i) s) else rd_ent (c, i) s)"
  by (induction "is" arbitrary: s) (auto simp: npg_zero_def rd_wr_ent ept_zero_bits)

lemma ent_ok_own:
  assumes "ent_ok own s k b e" and "same_cfg s s'"
    and "npg_present e \<Longrightarrow> \<not> npg_large e \<Longrightarrow> k \<noteq> 0 \<Longrightarrow> own' (page_addr (npg_addr e)) = own (page_addr (npg_addr e))"
  shows "ent_ok own' s' k b e"
  using assms by (auto simp: ent_ok_def same_cfg_def)

section \<open>Giving a table back\<close>

lemma sub_unique: "n * 512 + l = m * 512 + i \<Longrightarrow> l < 512 \<Longrightarrow> i < 512 \<Longrightarrow> n = m \<and> l = i" for n :: nat
proof -
  assume "n * 512 + l = m * 512 + i" "l < 512" "i < 512"
  then have "(n * 512 + l) div 512 = m" "(n * 512 + l) mod 512 = i" by simp_all
  with \<open>l < 512\<close> show ?thesis by simp
qed

lemma free_wf:
  assumes wf: "wf_tbls own s" and inj: "\<And>q q' x. own q = Some x \<Longrightarrow> own q' = Some x \<Longrightarrow> q = q'"
    and t: "own t = Some (Suc j, m)" and i: "i < 512" and c: "own c = Some (j, m * 512 + i)" "c = page_addr (npg_addr e)"
    and cfg: "same_cfg s s'" and pool: "npg_pool s' = pool_push_page c (npg_pool s)"
    and mem: "\<And>q l. q \<noteq> c \<Longrightarrow> rd_ent (q, l) s' = (if (q, l) = (t, i) then ept_zero z else rd_ent (q, l) s)"
  shows "wf_tbls (own(c := None)) s'"
proof -
  note d = wf_tblsD [OF wf]
  note pp = push_pool [OF d(1) page_addr_aligned [of "npg_addr e"], folded c(2), folded pool]
  have "ent_ok (own(c := None)) s' k (n * 512 + l) (rd_ent (q, l) s')"
    if q: "(own(c := None)) q = Some (k, n)" and l: "l < 512" for q k n l
  proof (cases "(q, l) = (t, i)")
    case True
    with q have "rd_ent (q, l) s' = ept_zero z" using mem [of q l] by (auto split: if_splits)
    then show ?thesis by (simp only: ept_zero_ok)
  next
    case False
    have q': "q \<noteq> c" "own q = Some (k, n)" using q by (auto split: if_splits)
    have e: "rd_ent (q, l) s' = rd_ent (q, l) s" using mem [OF q'(1), of l] False by auto
    have "page_addr (npg_addr (rd_ent (q, l) s)) \<noteq> c"
      if "npg_present (rd_ent (q, l) s)" "\<not> npg_large (rd_ent (q, l) s)" "k \<noteq> 0"
    proof
      assume "page_addr (npg_addr (rd_ent (q, l) s)) = c"
      then have "own c = Some (k - 1, n * 512 + l)" using d(7) [OF q'(2) l] that by (simp add: ent_ok_def)
      then have kj: "k - 1 = j" and nl: "n * 512 + l = m * 512 + i" using c(1) by simp_all
      have "n = m \<and> l = i" by (rule sub_unique [OF nl l i])
      moreover have "k = Suc j" using that(3) kj by simp
      ultimately show False using inj [OF q'(2)] t False by simp
    qed
    then show ?thesis unfolding e by (intro ent_ok_own [OF d(7) [OF q'(2) l] cfg]) auto
  qed
  moreover have "npg_pml4 s' \<noteq> c"
  proof -
    have "Suc j \<le> 3" using d(6) [OF t] by simp
    with c(1) d(3) show ?thesis by (auto simp: same_cfg_pml4 [OF cfg])
  qed
  then have "(own(c := None)) (npg_pml4 s') = Some (3, 0)" using d(3) by (simp add: same_cfg_pml4 [OF cfg])
  moreover have "\<forall>p \<in> avail s'. p < 2 ^ 52" using pp(3) d(2) page_addr_low [of e] c(2) by blast
  moreover have "dom (own(c := None)) \<inter> avail s' = {}" using pp(3) d(4) by auto
  moreover have "0 \<notin> dom (own(c := None))" using d(5) by auto
  moreover have "k \<le> 3 \<and> in_48 (Suc k) n" if "(own(c := None)) q = Some (k, n)" for q k n
    using that d(6) by (auto split: if_splits)
  ultimately show ?thesis using pp(1) unfolding wf_tbls_def by blast
qed

lemma free_gone:
  assumes ok: "tbls_ok s" and a: "a < 2 ^ 48" and p: "path4 s t (Suc j) a"
    and e: "e = rd_ent (t, lvl_idx (Suc j) a) s" "npg_present e" "\<not> npg_large e" and c: "c = page_addr (npg_addr e)"
    and s1: "same_cfg s s1" "npg_pool s1 = npg_pool s" "\<And>q l. q \<noteq> c \<Longrightarrow> rd_ent (q, l) s1 = rd_ent (q, l) s"
  defines "s' \<equiv> npg_zero (t, lvl_idx (Suc j) a) (s1\<lparr>npg_pool := pool_push_page c (npg_pool s1)\<rparr>)"
  shows "blk_step (\<lambda>v. None) s s' (Suc j) t a" and "card (avail s) \<le> card (avail s')"
proof -
  obtain own0 where wf0: "wf_tbls own0 s" using ok by (auto simp: tbls_ok_def)
  obtain own where own: "own = live own0 s" by blast
  have wf: "wf_tbls own s" unfolding own by (rule live_wf [OF wf0])
  have inj: "\<And>q q' x. own q = Some x \<Longrightarrow> own q' = Some x \<Longrightarrow> q = q'" unfolding own by (rule live_inj)
  have t: "own t = Some (Suc j, blk (Suc (Suc j)) a)" by (rule path4_label [OF wf a p])
  have oc: "own c = Some (j, blk (Suc (Suc j)) a * 512 + lvl_idx (Suc j) a)"
    unfolding c blk_idx by (rule ent_child [OF wf t e])
  have tc: "t \<noteq> c" using t oc by auto
  have pool: "npg_pool s' = pool_push_page c (npg_pool s)" by (simp add: s'_def npg_zero_def s1(2))
  have cfg: "same_cfg s s'"
    unfolding s'_def npg_zero_def by (rule same_cfg_trans [OF _ wr_ent_cfg(1)]) (use s1(1) in \<open>simp add: same_cfg_def\<close>)
  have mem: "rd_ent (q, l) s' = (if (q, l) = (t, lvl_idx (Suc j) a) then ept_zero e else rd_ent (q, l) s)" if "q \<noteq> c" for q l
  proof -
    have r: "rd_ent x (s1\<lparr>npg_pool := y\<rparr>) = rd_ent x s1" for x y by (simp add: rd_ent_def)
    show ?thesis unfolding s'_def npg_zero_def rd_wr_ent r using s1(3) that tc e(1) by auto
  qed
  have wf': "wf_tbls (own(c := None)) s'" by (rule free_wf [OF wf inj t lvl_idx_less oc c cfg pool mem])
  show "blk_step (\<lambda>v. None) s s' (Suc j) t a"
  proof (rule blk_stepI [OF wf a p wf' cfg])
    fix q k m i assume q: "own q = Some (k, m)" and i: "i < 512" and ch: "rd_ent (q, i) s' \<noteq> rd_ent (q, i) s"
    show "k \<le> Suc j \<and> span k (m * 512 + i) \<subseteq> span (Suc j) (blk (Suc j) a)"
    proof (cases "q = c")
      case True
      then have "k = j" "m = blk (Suc j) a" using q oc by (auto simp: blk_idx)
      then show ?thesis using span_sub [OF i] by simp
    next
      case False
      then have "q = t" "i = lvl_idx (Suc j) a" using mem [OF False, of i] ch by (auto split: if_splits)
      with q t show ?thesis by (intro span_self) auto
    qed
  next
    fix v assume v: "blk (Suc j) v = blk (Suc j) a"
    have "\<not> npg_present (rd_ent (t, lvl_idx (Suc j) a) s')" using mem [OF tc] ept_zero_bits(1) by simp
    then show "tr s' (Suc j) t v = None" by (rule tr_absent [OF blk_idx_eq [OF v]])
  qed
  show "card (avail s) \<le> card (avail s')"
    using push_pool(4) [OF wf_tblsD(1) [OF wf] page_addr_aligned [of "npg_addr e"]] by (simp add: pool c)
qed

section \<open>The low level unmap services\<close>

lemma other_mem:
  assumes wf: "wf_tbls own s" and cfg: "same_cfg s s'" and pool: "npg_pool s' = npg_pool s"
    and mem: "\<forall>q l. q \<in> dom own \<longrightarrow> rd_ent (q, l) s' = rd_ent (q, l) s"
  shows "wf_tbls own s'" "v < 2 ^ 48 \<Longrightarrow> tr4 s' v = tr4 s v" "v < 2 ^ 48 \<Longrightarrow> path4 s t j v \<Longrightarrow> path4 s' t j v"
proof -
  note d = wf_tblsD [OF wf]
  have "ent_ok own s' j (m * 512 + i) (rd_ent (q, i) s')" if "own q = Some (j, m)" "i < 512" for q j m i
  proof -
    have "rd_ent (q, i) s' = rd_ent (q, i) s" using that(1) mem by auto
    with ent_ok_mono [OF d(7) [OF that] map_le_refl cfg] show ?thesis by simp
  qed
  with wf show "wf_tbls own s'" unfolding wf_tbls_def pool same_cfg_pml4 [OF cfg] by blast
  show "tr4 s' v = tr4 s v" if "v < 2 ^ 48"
    using tr_frame [OF wf top_table [OF wf that]] mem unfolding same_cfg_pml4 [OF cfg] by blast
  show "path4 s' t j v" if "v < 2 ^ 48" "path4 s t j v"
    using path4_keeps [OF wf that(1) cfg that(2)] mem by blast
qed

text \<open>\<^verbatim>\<open>__npg_unmap_2M\<close> of an entry that is not present takes address zero for a page table: it clears
  what looks like a present entry there and gives the page to the pool, which ignores it.\<close>

lemma unmap_2M_gone:
  assumes ok: "tbls_ok s" and a: "a < 2 ^ 48" and p: "path4 s t 1 a"
  defines "s' \<equiv> uu_npg_unmap_2M (t, lvl_idx 1 a) s"
  shows "blk_step (\<lambda>v. None) s s' 1 t a" and "card (avail s) \<le> card (avail s')"
proof -
  let ?e = "rd_ent (t, lvl_idx 1 a) s"
  let ?c = "page_addr (npg_addr ?e)"
  obtain f where f_eq: "f = fold (\<lambda>i s. if npg_present (rd_ent (?c, i) s) then npg_zero (?c, i) s else s) [0..<512] s" by blast
  have f: "same_cfg s f" "npg_pool f = npg_pool s" "\<And>q l. q \<noteq> ?c \<Longrightarrow> rd_ent (q, l) f = rd_ent (q, l) s"
    using zero_fold [of s ?c "[0..<512]"] unfolding f_eq by blast+
  have s': "s' = npg_zero (t, lvl_idx 1 a)
      (if npg_large ?e then s else f\<lparr>npg_pool := pool_push_page ?c (npg_pool f)\<rparr>)"
    unfolding s'_def uu_npg_unmap_2M_def Let_def f_eq
    by (cases "npg_large ?e") (simp_all only: if_True if_False not_True_eq_False not_False_eq_True)
  have "blk_step (\<lambda>v. None) s s' 1 t a \<and> card (avail s) \<le> card (avail s')"
  proof (cases "npg_large ?e")
    case True
    then have "s' = npg_zero (t, lvl_idx 1 a) s" by (simp add: s')
    with leaf_gone [OF ok a p] show ?thesis by (simp add: npg_zero_def)
  next
    case nl: False
    show ?thesis
    proof (cases "npg_present ?e")
      case True
      from free_gone [OF ok a, of t 0 ?e ?c f] p True nl f show ?thesis by (simp add: s')
    next
      case False
      obtain own where wf: "wf_tbls own s" using ok by (auto simp: tbls_ok_def)
      have t: "own t = Some (1, blk (Suc 1) a)" by (rule path4_label [OF wf a p])
      have "npg_addr ?e = 0" using ent_cover [OF wf t] False by (simp add: ent_ok_def)
      then have c: "?c = 0" by (simp add: page_addr_def)
      have "0 \<notin> pool_held (npg_pool s)" using vmm_pool.page_ok [OF wf_tblsD(1) [OF wf], of 0] by blast
      then have push: "pool_push_page ?c (npg_pool s) = npg_pool s"
        using vmm_pool.push_other [OF wf_tblsD(1) [OF wf] page_addr_aligned [of "npg_addr ?e"]] c by simp
      then have "f\<lparr>npg_pool := pool_push_page ?c (npg_pool f)\<rparr> = f" by (simp only: f(2)) (simp flip: f(2))
      then have s1: "s' = npg_zero (t, lvl_idx 1 a) f" using nl unfolding s' by (simp only: if_False)
      have fo: "\<forall>q l. q \<in> dom own \<longrightarrow> rd_ent (q, l) f = rd_ent (q, l) s"
      proof (intro allI impI)
        fix q l assume "q \<in> dom own"
        with f(3) [of q l] c wf_tblsD(5) [OF wf] show "rd_ent (q, l) f = rd_ent (q, l) s" by (cases "q = 0") auto
      qed
      note om = other_mem [OF wf f(1,2) fo]
      have "blk_step (\<lambda>v. None) f s' 1 t a"
        unfolding s1 using leaf_gone [of f a t 1] om(1) om(3) [OF a p] a by (auto simp: tbls_ok_def)
      moreover have "keeps_above s s' 1 a"
        unfolding keeps_above_def
      proof (intro allI impI)
        fix q k assume k: "1 < k" "path4 s q k a"
        have "q \<in> dom own" using path4_label [OF wf a k(2)] by auto
        with calculation om(3) [OF a k(2)] k fo show "path4 s' q k a \<and> rd_ent (q, lvl_idx k a) s' = rd_ent (q, lvl_idx k a) s"
          unfolding blk_step_def keeps_above_def by metis
      qed
      ultimately have "blk_step (\<lambda>v. None) s s' 1 t a"
        using om(2) same_cfg_trans [OF f(1)] unfolding blk_step_def by auto
      then show ?thesis by (simp add: s1 npg_zero_def f(2))
    qed
  qed
  then show "blk_step (\<lambda>v. None) s s' 1 t a" "card (avail s) \<le> card (avail s')" by blast+
qed

section \<open>Loops over the entries of a table\<close>

definition tbl_step ::
    "(offset_t \<Rightarrow> offset_t option) \<Rightarrow> nat \<Rightarrow> npg_state \<Rightarrow> npg_state \<Rightarrow> nat \<Rightarrow> offset_t \<Rightarrow> offset_t \<Rightarrow> bool" where
  "tbl_step r n s s' j t a =
     (tbls_ok s' \<and> same_cfg s s' \<and> path4 s' t j a \<and> keeps_above s s' j a
      \<and> (\<forall>v < 2 ^ 48. tr4 s' v = (if blk (Suc j) v = blk (Suc j) a \<and> lvl_idx j v < n then r v else tr4 s v)))"

text \<open>The address of an entry of the table of \<open>a\<close>.\<close>

definition ent_base :: "nat \<Rightarrow> offset_t \<Rightarrow> nat \<Rightarrow> offset_t" where
  "ent_base j a i = base j (blk (Suc j) a * 512 + i)"

lemma ent_base:
  assumes "a < 2 ^ 48" and "j \<le> 3" and "i < 512"
  shows "ent_base j a i < 2 ^ 48" "blk j (ent_base j a i) = blk (Suc j) a * 512 + i"
    "blk (Suc j) (ent_base j a i) = blk (Suc j) a" "lvl_idx j (ent_base j a i) = i"
proof -
  have low: "in_48 j (blk (Suc j) a * 512 + i)"
    using in_48_sub [OF blk_in_48 [OF assms(1), of "Suc j"] assms(3)] assms(2) by simp
  show "ent_base j a i < 2 ^ 48" unfolding ent_base_def by (rule base_low [OF low])
  show b: "blk j (ent_base j a i) = blk (Suc j) a * 512 + i" unfolding ent_base_def by (rule blk_base [OF low])
  show "blk (Suc j) (ent_base j a i) = blk (Suc j) a" "lvl_idx j (ent_base j a i) = i"
    using assms(3) by (simp_all add: blk_Suc [of j "ent_base j a i"] lvl_idx_def b)
qed

lemma keeps_above_block:
  assumes ok: "tbls_ok s" "tbls_ok s'" and a: "a < 2 ^ 48" "a' < 2 ^ 48" and b: "blk (Suc j) a' = blk (Suc j) a"
    and k: "keeps_above s s' j a'"
  shows "keeps_above s s' j a"
  unfolding keeps_above_def
proof (intro allI impI)
  fix t k assume t: "j < k" "path4 s t k a"
  obtain own own' where wf: "wf_tbls own s" "wf_tbls own' s'" using ok by (auto simp: tbls_ok_def)
  have e: "blk k a' = blk k a" "blk (Suc k) a' = blk (Suc k) a"
    using blk_mono [of "Suc j" k a' a] blk_mono [of "Suc j" "Suc k" a' a] b t(1) by auto
  have "path4 s t k a'" using path4_block [OF wf(1) a(1) t(2)] e(2) by simp
  then have "path4 s' t k a'" "rd_ent (t, lvl_idx k a') s' = rd_ent (t, lvl_idx k a') s"
    using k t(1) unfolding keeps_above_def by blast+
  moreover have "lvl_idx k a' = lvl_idx k a" using e(1) by (simp add: lvl_idx_def)
  ultimately show "path4 s' t k a \<and> rd_ent (t, lvl_idx k a) s' = rd_ent (t, lvl_idx k a) s"
    using path4_block [OF wf(2) a(2) _ e(2)] by simp
qed

lemma keeps_above_trans: "keeps_above s s1 j a \<Longrightarrow> keeps_above s1 s2 j a \<Longrightarrow> keeps_above s s2 j a"
  unfolding keeps_above_def by metis

text \<open>An operation on an entry may panic, when \<open>plain\<close> does not hold or for want of \<open>need\<close> pages.\<close>

definition ent_op ::
    "npg_state option \<Rightarrow> bool \<Rightarrow> nat \<Rightarrow> (offset_t \<Rightarrow> offset_t option) \<Rightarrow> npg_state \<Rightarrow> nat \<Rightarrow> offset_t \<Rightarrow> offset_t \<Rightarrow> bool" where
  "ent_op x plain need r s j t a =
     (case x of None \<Rightarrow> plain \<longrightarrow> card (avail s) < need
      | Some s' \<Rightarrow> blk_step r s s' j t a \<and> card (avail s) \<le> need + card (avail s'))"

lemma tbl_step_Suc:
  assumes a: "a < 2 ^ 48" and j: "j \<le> 3" and n: "n < 512" and ok: "tbls_ok s"
    and ts: "tbl_step r n s s1 j t a" and bs: "blk_step r s1 s2 j t (ent_base j a n)"
  shows "tbl_step r (Suc n) s s2 j t a"
proof -
  note eb = ent_base [OF a j n]
  have ok12: "tbls_ok s1" "tbls_ok s2" and cfg: "same_cfg s s2" using ts bs same_cfg_trans by (auto simp: tbl_step_def blk_step_def)
  obtain own2 where wf2: "wf_tbls own2 s2" using ok12(2) by (auto simp: tbls_ok_def)
  have p2: "path4 s2 t j a" using path4_block [OF wf2 eb(1) _ eb(3)] bs by (simp add: blk_step_def)
  have ka: "keeps_above s s2 j a"
    using keeps_above_trans [OF _ keeps_above_block [OF ok12 a eb(1,3)]] ts bs by (simp add: tbl_step_def blk_step_def)
  have "tr4 s2 v = (if blk (Suc j) v = blk (Suc j) a \<and> lvl_idx j v < Suc n then r v else tr4 s v)" if v: "v < 2 ^ 48" for v
  proof -
    have "blk j v = blk j (ent_base j a n) \<longleftrightarrow> blk (Suc j) v = blk (Suc j) a \<and> lvl_idx j v = n"
      using sub_unique [of "blk (Suc j) v" "lvl_idx j v" "blk (Suc j) a" n] lvl_idx_less [of j v] n blk_idx [of j v] eb(2) by auto
    with ts bs v show ?thesis by (auto simp: tbl_step_def blk_step_def less_Suc_eq)
  qed
  with ok12(2) cfg p2 ka show ?thesis by (simp add: tbl_step_def)
qed

lemma tbl_loop:
  assumes body: "\<And>s1 i. \<lbrakk>tbls_ok s1; same_cfg s s1; path4 s1 t j (ent_base j a i); i < 512\<rbrakk>
      \<Longrightarrow> ent_op (f i s1) plain need r s1 j t (ent_base j a i)"
    and ok: "tbls_ok s" and a: "a < 2 ^ 48" and p: "path4 s t j a"
  shows "n \<le> 512 \<Longrightarrow> (case for_opt f [0..<n] s of None \<Rightarrow> plain \<longrightarrow> card (avail s) < n * need
    | Some s' \<Rightarrow> tbl_step r n s s' j t a \<and> card (avail s) \<le> n * need + card (avail s'))"
proof (induction n)
  case 0
  have "keeps_above s s j a" by (simp add: keeps_above_def)
  with ok p show ?case by (simp add: tbl_step_def)
next
  case (Suc n)
  note ih = Suc.IH [OF Suc_leD [OF Suc.prems]]
  have j: "j \<le> 3" by (rule path_le [OF p])
  have st: "for_opt f [0..<Suc n] s = Option.bind (for_opt f [0..<n] s) (f n)" by (rule for_opt_Suc)
  show ?case
  proof (cases "for_opt f [0..<n] s")
    case None
    with ih show ?thesis unfolding st by auto
  next
    case (Some s1)
    with ih have ts: "tbl_step r n s s1 j t a" and c: "card (avail s) \<le> n * need + card (avail s1)" by auto
    have n: "n < 512" using Suc.prems by simp
    have ok1: "tbls_ok s1" "same_cfg s s1" "path4 s1 t j a" using ts by (simp_all add: tbl_step_def)
    obtain own1 where wf1: "wf_tbls own1 s1" using ok1(1) by (auto simp: tbls_ok_def)
    have p1: "path4 s1 t j (ent_base j a n)" using path4_block [OF wf1 a ok1(3)] ent_base(3) [OF a j n] by simp
    note eo = body [OF ok1(1,2) p1 n]
    show ?thesis
    proof (cases "f n s1")
      case None
      with eo c show ?thesis unfolding st Some by (auto simp: ent_op_def)
    next
      case s2: (Some s2)
      with eo have bs: "blk_step r s1 s2 j t (ent_base j a n)" and c2: "card (avail s1) \<le> need + card (avail s2)"
        by (simp_all add: ent_op_def)
      show ?thesis unfolding st Some using s2 tbl_step_Suc [OF a j n ok ts bs] c c2 by simp
    qed
  qed
qed

section \<open>Unmapping 1G\<close>

lemma tbls_okE: "tbls_ok s \<Longrightarrow> (\<And>own. wf_tbls own s \<Longrightarrow> P) \<Longrightarrow> P"
  by (auto simp: tbls_ok_def)

lemma absent_tr:
  assumes "tbls_ok s" and "a < 2 ^ 48" and "path4 s t j a" and "\<not> npg_present (rd_ent (t, lvl_idx j a) s)"
    and "blk j v = blk j a"
  shows "tr4 s v = None"
proof -
  obtain own where wf: "wf_tbls own s" using assms(1) by (rule tbls_okE)
  have "blk (Suc j) a = blk (Suc j) v" using assms(5) by (simp add: blk_Suc)
  then have "path4 s t j v" by (rule path4_block [OF wf assms(2,3)])
  with path_tr [OF this] tr_absent [OF blk_idx_eq [OF assms(5)] assms(4)] show ?thesis by simp
qed

lemma leaf_tr:
  assumes "tbls_ok s" and "a < 2 ^ 48" and "path4 s t j a" and "npg_present (rd_ent (t, lvl_idx j a) s)"
    and "npg_large (rd_ent (t, lvl_idx j a) s)" and "blk j v = blk j a"
  shows "tr4 s v = Some v"
proof -
  obtain own where wf: "wf_tbls own s" using assms(1) by (rule tbls_okE)
  have b: "blk (Suc j) a = blk (Suc j) v" using assms(6) by (simp add: blk_Suc)
  then have p: "path4 s t j v" by (rule path4_block [OF wf assms(2,3)])
  have "tr s j t v \<noteq> None" using assms(4,5) blk_idx_eq [OF assms(6)] by (cases j) (simp_all add: Let_def)
  moreover have "own t = Some (j, blk (Suc j) v)" using path4_label [OF wf assms(2,3)] b by simp
  ultimately show ?thesis using tr_id [OF wf] path_tr [OF p] by metis
qed

lemma blk_step_absent:
  assumes "tbls_ok s" and "a < 2 ^ 48" and "path4 s t j a" and "\<not> npg_present (rd_ent (t, lvl_idx j a) s)"
  shows "blk_step (\<lambda>v. None) s s j t a"
  using assms absent_tr [OF assms] by (auto simp: blk_step_def keeps_above_def)

lemma blk_step_trans:
  "blk_step r s s1 j t a \<Longrightarrow> blk_step r' s1 s2 j t a \<Longrightarrow> blk_step r' s s2 j t a"
  using keeps_above_trans [of s s1 j a s2] same_cfg_trans [of s s1 s2] by (simp add: blk_step_def)

lemma fold_for_opt: "for_opt (\<lambda>i s. Some (g i s)) is s = Some (fold g is s)"
  by (induction "is" arbitrary: s) simp_all

lemma zero_absent: "\<not> npg_present (rd_ent p (npg_zero p s))"
  by (simp add: npg_zero_def rd_wr_ent ept_zero_bits)

lemma unmap_absent:
  "\<not> npg_present (rd_ent p (uu_npg_unmap_2M p s))" "\<not> npg_present (rd_ent p (uu_npg_unmap_1G p s))"
  unfolding uu_npg_unmap_2M_def uu_npg_unmap_1G_def Let_def by (rule zero_absent)+

lemma unmap_pd:
  assumes ok: "tbls_ok s" and a: "a < 2 ^ 48" and p: "path4 s c 1 a"
  defines "f \<equiv> fold (\<lambda>i s. if npg_present (rd_ent (c, i) s) then uu_npg_unmap_2M (c, i) s else s) [0..<512] s"
  shows "tbl_step (\<lambda>v. None) 512 s f 1 c a" and "card (avail s) \<le> card (avail f)"
proof -
  let ?g = "\<lambda>i s. if npg_present (rd_ent (c, i) s) then uu_npg_unmap_2M (c, i) s else s"
  have "case for_opt (\<lambda>i s. Some (?g i s)) [0..<512] s of None \<Rightarrow> True \<longrightarrow> card (avail s) < 512 * 0
    | Some s' \<Rightarrow> tbl_step (\<lambda>v. None) 512 s s' 1 c a \<and> card (avail s) \<le> 512 * 0 + card (avail s')"
  proof (rule tbl_loop [OF _ ok a p order_refl])
    fix s1 and i :: nat
    assume s1: "tbls_ok s1" "path4 s1 c 1 (ent_base 1 a i)" and i: "i < 512"
    have eb: "ent_base 1 a i < 2 ^ 48" "lvl_idx 1 (ent_base 1 a i) = i" using ent_base [OF a _ i, of 1] by simp_all
    show "ent_op (Some (?g i s1)) True 0 (\<lambda>v. None) s1 1 c (ent_base 1 a i)"
      using unmap_2M_gone [OF s1(1) eb(1) s1(2)] blk_step_absent [OF s1(1) eb(1) s1(2)] unfolding eb(2) by (simp add: ent_op_def)
  qed
  then show "tbl_step (\<lambda>v. None) 512 s f 1 c a" "card (avail s) \<le> card (avail f)"
    by (simp_all add: fold_for_opt f_def)
qed

lemma unmap_1G_gone:
  assumes ok: "tbls_ok s" and a: "a < 2 ^ 48" and p: "path4 s t 2 a" and pr: "npg_present (rd_ent (t, lvl_idx 2 a) s)"
  defines "s' \<equiv> uu_npg_unmap_1G (t, lvl_idx 2 a) s"
  shows "blk_step (\<lambda>v. None) s s' 2 t a" and "card (avail s) \<le> card (avail s')"
proof -
  let ?e = "rd_ent (t, lvl_idx 2 a) s"
  let ?c = "page_addr (npg_addr ?e)"
  obtain f where f_eq: "f = fold (\<lambda>i s. if npg_present (rd_ent (?c, i) s) then uu_npg_unmap_2M (?c, i) s else s) [0..<512] s" by blast
  have s': "s' = npg_zero (t, lvl_idx 2 a)
      (if npg_large ?e then s else f\<lparr>npg_pool := pool_push_page ?c (npg_pool f)\<rparr>)"
    unfolding s'_def uu_npg_unmap_1G_def Let_def f_eq
    by (cases "npg_large ?e") (simp_all only: if_True if_False not_True_eq_False not_False_eq_True)
  have "blk_step (\<lambda>v. None) s s' 2 t a \<and> card (avail s) \<le> card (avail s')"
  proof (cases "npg_large ?e")
    case True
    then have "s' = npg_zero (t, lvl_idx 2 a) s" by (simp add: s')
    with leaf_gone [OF ok a p] show ?thesis by (simp add: npg_zero_def)
  next
    case nl: False
    have n: "Suc 1 = 2" by simp
    have pc: "path4 s ?c 1 a" using path_snoc [of ?e t 1 a s "npg_pml4 s" 3, unfolded n] pr nl p by simp
    note pd = unmap_pd [OF ok a pc, folded f_eq]
    have okf: "tbls_ok f" "same_cfg s f" and kf: "keeps_above s f 1 a" using pd(1) by (simp_all add: tbl_step_def)
    have pf: "path4 f t 2 a" and ef: "rd_ent (t, lvl_idx 2 a) f = ?e" using kf p unfolding keeps_above_def by simp_all
    have s2: "s' = npg_zero (t, lvl_idx 2 a) (f\<lparr>npg_pool := pool_push_page ?c (npg_pool f)\<rparr>)" using nl by (simp add: s')
    have fg: "blk_step (\<lambda>v. None) f s' 2 t a" "card (avail f) \<le> card (avail s')"
      using free_gone [OF okf(1) a, of t 1 ?e ?c f] pf ef pr nl unfolding s2 n by simp_all
    have "keeps_above s s' 2 a" using kf fg(1) unfolding keeps_above_def blk_step_def by (metis One_nat_def less_2_cases_iff order.strict_trans)
    moreover have "tr4 f v = tr4 s v" if "v < 2 ^ 48" "blk 2 v \<noteq> blk 2 a" for v
      using pd(1) that unfolding tbl_step_def n by simp
    ultimately have "blk_step (\<lambda>v. None) s s' 2 t a"
      using fg(1) same_cfg_trans [OF okf(2)] unfolding blk_step_def by simp
    with pd(2) fg(2) show ?thesis by simp
  qed
  then show "blk_step (\<lambda>v. None) s s' 2 t a" "card (avail s) \<le> card (avail s')" by blast+
qed

section \<open>Mapping through an entry in use\<close>

lemma blk_op_step:
  assumes wf: "wf_tbls own s" and a: "a < 2 ^ 48" and p: "path4 s t j a"
    and op: "blk_op x plain need own s j (blk j a) (t, lvl_idx j a)"
  shows "ent_op x plain need Some s j t a"
proof (cases x)
  case None
  with op show ?thesis by (simp add: blk_op_def ent_op_def)
next
  case (Some s')
  with op obtain own' where m: "blk_mapped own s own' s' j (blk j a) (t, lvl_idx j a)"
    and c: "card (avail s) \<le> need + card (avail s')" by (auto simp: blk_op_def)
  have t: "own t = Some (j, blk (Suc j) a)" by (rule path4_label [OF wf a p])
  have "blk_step Some s s' j t a"
  proof (rule blk_stepI [OF wf a p])
    show "wf_tbls own' s'" "same_cfg s s'" using m by (simp_all add: blk_mapped_def)
    show "tr s' j t v = Some v" if "blk j v = blk j a" for v using m that by (simp add: blk_mapped_def)
    fix q k m' i assume q: "own q = Some (k, m')" and "rd_ent (q, i) s' \<noteq> rd_ent (q, i) s"
    then have "(q, i) = (t, lvl_idx j a)" using m unfolding blk_mapped_def by blast
    with q t show "k \<le> j \<and> span k (m' * 512 + i) \<subseteq> span j (blk j a)" by (intro span_self) auto
  qed
  with Some c show ?thesis by (simp add: ent_op_def)
qed

lemma remap_ent:
  assumes a: "a < 2 ^ 48" and u: "blk_step (\<lambda>v. None) s s1 j t a" "card (avail s) \<le> card (avail s1)"
    and op: "\<And>own. wf_tbls own s1 \<Longrightarrow> own t = Some (j, blk (Suc j) a) \<Longrightarrow> blk_op x plain need own s1 j (blk j a) (t, lvl_idx j a)"
  shows "ent_op x plain need Some s j t a"
proof -
  have "tbls_ok s1" and p1: "path4 s1 t j a" using u(1) by (simp_all add: blk_step_def)
  then obtain own where wf: "wf_tbls own s1" by (blast elim: tbls_okE)
  from blk_op_step [OF wf a p1 op [OF wf path4_label [OF wf a p1]]] u show ?thesis
    using blk_step_trans [OF u(1)] by (auto simp: ent_op_def split: option.splits)
qed

end
