(* ===== verification/Ept_Map.thy ===== *)
theory Ept_Map
  imports Ept Ept_Unmap
begin

text \<open>
  What the guest sees through the nested page tables: the effect of the services of
  \<^verbatim>\<open>common/libc/npt_map.c\<close> on the translation, for one block and for a range, and the isolation of
  the area of the vmm once \<^verbatim>\<open>vmx_ept_map\<close> has built the tables.
\<close>

section \<open>Entries in use\<close>

abbreviation plain_attr :: "u64 \<Rightarrow> bool" where
  "plain_attr attr \<equiv> attr AND ept_has_mtrr = 0"

lemma blk_op_weaken:
  "blk_op x p need own s j b q \<Longrightarrow> (p' \<Longrightarrow> p) \<Longrightarrow> blk_op x p' need own s j b q"
  by (auto simp: blk_op_def split: option.splits)

lemma map_2M_ent:
  assumes ok: "tbls_ok s" and a: "a < 2 ^ 48" and p: "path4 s t 1 a" and attr: "attr_ok attr"
  shows "ent_op (uu_npg_map_2M (t, lvl_idx 1 a) (base 1 (blk 1 a)) attr s) (plain_attr attr) (need_2M s) Some s 1 t a"
proof -
  let ?p = "(t, lvl_idx 1 a)"
  obtain s1 where s1: "s1 = (if npg_present (rd_ent ?p s) then uu_npg_unmap_2M ?p s else s)" by blast
  have u: "blk_step (\<lambda>v. None) s s1 1 t a" "card (avail s) \<le> card (avail s1)"
    using unmap_2M_gone [OF ok a p] blk_step_absent [OF ok a p] by (simp_all add: s1)
  have np: "\<not> npg_present (rd_ent ?p s1)" using unmap_absent(1) by (simp add: s1)
  have eq: "uu_npg_map_2M ?p (base 1 (blk 1 a)) attr s = uu_npg_map_2M ?p (base 1 (blk 1 a)) attr s1"
    using np unfolding uu_npg_map_2M_def Let_def s1 [symmetric] by (simp only: if_False)
  have cfg: "same_cfg s s1" using u(1) by (simp add: blk_step_def)
  show ?thesis
  proof (rule remap_ent [OF a u])
    fix own assume wf: "wf_tbls own s1" and t: "own t = Some (1, blk (Suc 1) a)"
    from map_2M_block [OF wf t lvl_idx_less blk_idx [symmetric] blk_in_48 [OF a] attr np]
    show "blk_op (uu_npg_map_2M ?p (base 1 (blk 1 a)) attr s) (plain_attr attr) (need_2M s) own s1 1 (blk 1 a) ?p"
      unfolding eq need_cfg(1) [OF cfg] by (rule blk_op_weaken) (simp_all add: no_clash_def)
  qed
qed

lemma map_1G_ent:
  assumes ok: "tbls_ok s" and a: "a < 2 ^ 48" and p: "path4 s t 2 a" and attr: "attr_ok attr"
  shows "ent_op (uu_npg_map_1G (t, lvl_idx 2 a) (base 2 (blk 2 a)) attr s) (plain_attr attr) (need_1G s) Some s 2 t a"
proof -
  let ?p = "(t, lvl_idx 2 a)"
  obtain s1 where s1: "s1 = (if npg_present (rd_ent ?p s) then uu_npg_unmap_1G ?p s else s)" by blast
  have u: "blk_step (\<lambda>v. None) s s1 2 t a" "card (avail s) \<le> card (avail s1)"
    using unmap_1G_gone [OF ok a p] blk_step_absent [OF ok a p] by (simp_all add: s1)
  have np: "\<not> npg_present (rd_ent ?p s1)" using unmap_absent(2) by (simp add: s1)
  have eq: "uu_npg_map_1G ?p (base 2 (blk 2 a)) attr s = uu_npg_map_1G ?p (base 2 (blk 2 a)) attr s1"
    using np unfolding uu_npg_map_1G_def Let_def s1 [symmetric] by (simp only: if_False)
  have cfg: "same_cfg s s1" using u(1) by (simp add: blk_step_def)
  show ?thesis
  proof (rule remap_ent [OF a u])
    fix own assume wf: "wf_tbls own s1" and t: "own t = Some (2, blk (Suc 2) a)"
    from map_1G_block [OF wf t lvl_idx_less blk_idx [symmetric] blk_in_48 [OF a] attr np]
    show "blk_op (uu_npg_map_1G ?p (base 2 (blk 2 a)) attr s) (plain_attr attr) (need_1G s) own s1 2 (blk 2 a) ?p"
      unfolding eq need_cfg(2) [OF cfg] by (rule blk_op_weaken) (simp_all add: no_clash_def)
  qed
qed

text \<open>A large page is split into the pages of the level below, the translation stays.\<close>

lemma align_base:
  "(if \<not> uu_aligned a PG_2M_SIZE then uu_align a PG_2M_SIZE else a) = base 1 (blk 1 a)"
  "(if \<not> uu_aligned a PG_1G_SIZE then uu_align a PG_1G_SIZE else a) = base 2 (blk 2 a)"
proof -
  have b: "uu_align a (2 ^ lvl_shift j) = base j (blk j a)" for j
  proof -
    have "uu_align a (2 ^ lvl_shift j) = of_nat (unat (uu_align a (2 ^ lvl_shift j)))" by simp
    then show ?thesis by (simp only: unat_uu_align base_def blk_def)
  qed
  have al: "uu_align a (2 ^ k) = a" if "uu_aligned a (2 ^ k)" for k
  proof -
    have "unat (uu_align a (2 ^ k)) = unat a" using that by (simp only: unat_uu_align uu_aligned_unat dvd_div_mult_self)
    then show ?thesis by (rule unsigned_word_eqI)
  qed
  have "PG_2M_SIZE = 2 ^ lvl_shift 1" "PG_1G_SIZE = 2 ^ lvl_shift 2"
    by (simp_all add: PG_2M_SIZE_def PG_1G_SIZE_def lvl_shift_def)
  with b [of 1] b [of 2] al [of "lvl_shift 1"] al [of "lvl_shift 2"]
  show "(if \<not> uu_aligned a PG_2M_SIZE then uu_align a PG_2M_SIZE else a) = base 1 (blk 1 a)"
    "(if \<not> uu_aligned a PG_1G_SIZE then uu_align a PG_1G_SIZE else a) = base 2 (blk 2 a)" by simp_all
qed

lemma get_attr_ok: "npg_present e \<Longrightarrow> attr_ok (ept_pg_get_attr e)"
proof -
  assume "npg_present e"
  then obtain n where "n < 3" "bit e n" by (auto simp: npg_present_bits)
  then show ?thesis
    by (auto simp: attr_ok_def and_7_iff ept_pg_get_attr_def and_lit(4) bit_take_bit_iff intro!: exI [of _ n])
qed

lemma remap_2M_ent:
  assumes ok: "tbls_ok s" and a: "a < 2 ^ 48" and p: "path4 s t 1 a" and pr: "npg_present (rd_ent (t, lvl_idx 1 a) s)"
  shows "ent_op (uu_npg_remap_2M_finest (t, lvl_idx 1 a) a s) True 1 Some s 1 t a"
proof (rule remap_ent [OF a unmap_2M_gone [OF ok a p]])
  fix own assume wf: "wf_tbls own (uu_npg_unmap_2M (t, lvl_idx 1 a) s)" and t: "own t = Some (1, blk (Suc 1) a)"
  from map_2M_nolarge_block [OF wf t lvl_idx_less blk_idx [symmetric] blk_in_48 [OF a] get_attr_ok [OF pr]]
  show "blk_op (uu_npg_remap_2M_finest (t, lvl_idx 1 a) a s) True 1 own (uu_npg_unmap_2M (t, lvl_idx 1 a) s) 1 (blk 1 a) (t, lvl_idx 1 a)"
    unfolding uu_npg_remap_2M_finest_def Let_def align_base by simp
qed

lemma remap_1G_ent:
  assumes ok: "tbls_ok s" and a: "a < 2 ^ 48" and p: "path4 s t 2 a" and pr: "npg_present (rd_ent (t, lvl_idx 2 a) s)"
  shows "ent_op (uu_npg_remap_1G_finest (t, lvl_idx 2 a) a s) True (Suc (512 * need_2M s)) Some s 2 t a"
proof -
  note u = unmap_1G_gone [OF ok a p pr]
  have cfg: "same_cfg s (uu_npg_unmap_1G (t, lvl_idx 2 a) s)" using u(1) by (simp add: blk_step_def)
  show ?thesis
  proof (rule remap_ent [OF a u])
    fix own assume wf: "wf_tbls own (uu_npg_unmap_1G (t, lvl_idx 2 a) s)" and t: "own t = Some (2, blk (Suc 2) a)"
    from map_1G_nolarge_block [OF wf t lvl_idx_less blk_idx [symmetric] blk_in_48 [OF a] get_attr_ok [OF pr]]
    show "blk_op (uu_npg_remap_1G_finest (t, lvl_idx 2 a) a s) True (Suc (512 * need_2M s)) own
        (uu_npg_unmap_1G (t, lvl_idx 2 a) s) 2 (blk 2 a) (t, lvl_idx 2 a)"
      unfolding uu_npg_remap_1G_finest_def Let_def align_base need_cfg(1) [OF cfg] by simp
  qed
qed

section \<open>Descending to a table\<close>

lemma link_tr:
  assumes wf: "wf_tbls own s" and t: "own t = Some (Suc j, m)" and np: "\<not> npg_present (rd_ent (t, i) s)"
    and fr: "\<And>q l. q \<in> dom own \<Longrightarrow> (q, l) \<noteq> (t, i) \<Longrightarrow> rd_ent (q, l) s' = rd_ent (q, l) s"
    and e: "page_addr (npg_addr (rd_ent (t, i) s')) = pg" "\<not> npg_large (rd_ent (t, i) s')"
    and z: "\<forall>l < 512. rd_ent (pg, l) s' = 0"
  shows "own q = Some (k, blk (Suc k) v) \<Longrightarrow> tr s' k q v = tr s k q v"
proof (induction k arbitrary: q)
  case 0
  then have "rd_ent (q, lvl_idx 0 v) s' = rd_ent (q, lvl_idx 0 v) s" using t by (intro fr) auto
  then show ?case by simp
next
  case (Suc k)
  have "tr s' k pg v = None" using z lvl_idx_less by (cases k) (simp_all add: Let_def)
  moreover have "rd_ent (q, lvl_idx (Suc k) v) s' = rd_ent (q, lvl_idx (Suc k) v) s" if "(q, lvl_idx (Suc k) v) \<noteq> (t, i)"
    using that Suc.prems by (intro fr) auto
  moreover have "tr s' k (page_addr (npg_addr (rd_ent (q, lvl_idx (Suc k) v) s))) v
      = tr s k (page_addr (npg_addr (rd_ent (q, lvl_idx (Suc k) v) s))) v"
    if "npg_present (rd_ent (q, lvl_idx (Suc k) v) s)" "\<not> npg_large (rd_ent (q, lvl_idx (Suc k) v) s)"
    using Suc.IH ent_child [OF wf Suc.prems refl that] by blast
  ultimately show ?case
    using np e by (cases "(q, lvl_idx (Suc k) v) = (t, i)") (auto simp: Let_def)
qed

text \<open>The table below an entry that is not a large page, new if there was none.\<close>

definition descended :: "npg_state \<Rightarrow> npg_state \<Rightarrow> nat \<Rightarrow> offset_t \<Rightarrow> offset_t \<Rightarrow> bool" where
  "descended s s' j t a =
     (tbls_ok s' \<and> same_cfg s s' \<and> path4 s' t j a \<and> (\<forall>v < 2 ^ 48. tr4 s' v = tr4 s v)
      \<and> card (avail s) \<le> Suc (card (avail s')))"

lemma resolve_path:
  assumes ok: "tbls_ok s" and a: "a < 2 ^ 48" and p: "path4 s t (Suc j) a"
    and nl: "\<not> npg_large (rd_ent (t, lvl_idx (Suc j) a) s)" and attr: "attr_ok attr"
  shows "case resolve_tbl (t, lvl_idx (Suc j) a) attr s of None \<Rightarrow> card (avail s) = 0
    | Some (t', s') \<Rightarrow> descended s s' j t' a \<and> \<not> npg_large (rd_ent (t, lvl_idx (Suc j) a) s')"
proof -
  let ?p = "(t, lvl_idx (Suc j) a)"
  obtain own where wf: "wf_tbls own s" using ok by (rule tbls_okE)
  have t: "own t = Some (Suc j, blk (Suc (Suc j)) a)" by (rule path4_label [OF wf a p])
  show ?thesis
  proof (cases "npg_present (rd_ent ?p s)")
    case True
    with ok nl path_snoc [OF refl True nl p] show ?thesis by (simp add: resolve_tbl_def descended_def)
  next
    case False
    show ?thesis
    proof (cases "uu_npg_new_pg s")
      case None
      with False new_pg_none [OF wf None] show ?thesis by (simp add: resolve_tbl_def)
    next
      case (Some r)
      obtain pg s1 where new: "uu_npg_new_pg s = Some (pg, s1)" using Some by (cases r) auto
      let ?b = "blk (Suc j) a"
      have lb: "j \<le> 3" "in_48 (Suc j) ?b" using wf_tblsD(6) [OF wf t] blk_in_48 [OF a, of "Suc j"] by auto
      note np = new_pg_wf [OF wf new lb]
      let ?own = "own(pg \<mapsto> (j, ?b))"
      let ?v = "ept_pg_set_entry (attr OR npg_dft_pvl) (page_nr pg)"
      let ?s' = "wr_ent ?p ?v s1"
      have pg: "pg \<notin> dom own" "page_addr (take_bit 40 (page_nr pg)) = pg" "?own pg = Some (j, ?b)"
        and wf1: "wf_tbls ?own s1" and cfg1: "same_cfg s s1" and c1: "card (avail s) = Suc (card (avail s1))"
        and z: "\<forall>l < 512. rd_ent (pg, l) s1 = 0" and o: "\<And>q l. q \<noteq> pg \<Longrightarrow> rd_ent (q, l) s1 = rd_ent (q, l) s"
        using np by auto
      have tpg: "t \<noteq> pg" using t pg(1) by blast
      have attr': "\<not> bit attr 7" using attr by (simp add: attr_ok_def)
      note lk = link_ent [of pg attr ?own j ?b ?v, OF pg(2) attr' pg(3) refl]
      have wf': "wf_tbls ?own ?s'"
      proof (rule wr_ent_wf [OF wf1])
        fix k m assume "?own t = Some (k, m)"
        with t tpg have "k = Suc j" "m = blk (Suc (Suc j)) a" by auto
        then show "ent_ok ?own s1 k (m * 512 + lvl_idx (Suc j) a) ?v" using lk(4) by (simp only: blk_idx)
      qed
      have cfg: "same_cfg s ?s'" by (rule same_cfg_trans [OF cfg1 wr_ent_cfg(1)])
      have fr: "rd_ent (q, l) ?s' = rd_ent (q, l) s" if "q \<in> dom own" "(q, l) \<noteq> ?p" for q l
      proof -
        have "q \<noteq> pg" using that(1) pg(1) by blast
        with that(2) o show ?thesis unfolding rd_wr_ent by (simp only: if_False)
      qed
      have re: "rd_ent ?p ?s' = ?v" by (simp add: rd_wr_ent)
      have z': "\<forall>l < 512. rd_ent (pg, l) ?s' = 0" using z tpg by (simp add: rd_wr_ent)
      have "path4 ?s' t (Suc j) a"
      proof (rule path4_keeps [OF wf a cfg p])
        fix q k m i assume q: "own q = Some (k, m)" "rd_ent (q, i) ?s' \<noteq> rd_ent (q, i) s"
        then have "(q, i) = ?p" using fr [of q i] by blast
        with q(1) t show "k \<le> Suc j" by simp
      qed
      from path_snoc [of ?v t j a ?s', OF _ _ _ this] lk(1-3) re have pth: "path4 ?s' pg j a" by simp
      have tr: "tr4 ?s' v = tr4 s v" if "v < 2 ^ 48" for v
        unfolding same_cfg_pml4 [OF cfg]
        by (rule link_tr [OF wf t False fr _ _ z' top_table [OF wf that]]) (use lk re in simp_all)
      have "descended s ?s' j pg a"
        using wf' cfg pth tr c1 unfolding descended_def tbls_ok_def by auto
      with new False lk(2) re show ?thesis by (simp add: resolve_tbl_def npg_set_entry_def)
    qed
  qed
qed

section \<open>Mapping one block\<close>

definition tile_done :: "(offset_t \<Rightarrow> offset_t option) \<Rightarrow> npg_state \<Rightarrow> npg_state \<Rightarrow> nat \<Rightarrow> nat \<Rightarrow> bool" where
  "tile_done r s s' j b =
     (tbls_ok s' \<and> same_cfg s s' \<and> (\<forall>v < 2 ^ 48. tr4 s' v = (if blk j v = b then r v else tr4 s v)))"

definition tile_op ::
    "npg_state option \<Rightarrow> bool \<Rightarrow> nat \<Rightarrow> (offset_t \<Rightarrow> offset_t option) \<Rightarrow> npg_state \<Rightarrow> nat \<Rightarrow> nat \<Rightarrow> bool" where
  "tile_op x plain need r s j b =
     (case x of None \<Rightarrow> plain \<longrightarrow> card (avail s) < need
      | Some s' \<Rightarrow> tile_done r s s' j b \<and> card (avail s) \<le> need + card (avail s'))"

lemma ent_tile: "ent_op x plain need r s j t a \<Longrightarrow> tile_op x plain need r s j (blk j a)"
  by (simp add: ent_op_def tile_op_def tile_done_def blk_step_def split: option.splits)

lemma tile_after:
  assumes "descended s s1 k t a" and "tile_op x plain need r s1 j b"
  shows "tile_op x plain (Suc need) r s j b"
  using assms same_cfg_trans [of s s1] by (auto simp: tile_op_def tile_done_def descended_def split: option.splits)

lemma tile_weaken: "tile_op x plain need r s j b \<Longrightarrow> need \<le> need' \<Longrightarrow> tile_op x plain need' r s j b"
  by (auto simp: tile_op_def split: option.splits)

lemma large_tile:
  assumes ok: "tbls_ok s" and a: "a < 2 ^ 48" and p: "path4 s t j a" and l: "npg_large (rd_ent (t, lvl_idx j a) s)" and i: "i \<le> j"
  shows "tile_op (Some s) plain need Some s i (blk i a)"
proof -
  obtain own where wf: "wf_tbls own s" using ok by (rule tbls_okE)
  have "npg_present (rd_ent (t, lvl_idx j a) s)"
    using ent_cover [OF wf path4_label [OF wf a p]] l by (simp add: ent_ok_def)
  then have "tr4 s v = Some v" if "blk i v = blk i a" for v
    using leaf_tr [OF ok a p _ l] blk_mono [OF i that] by simp
  with ok show ?thesis by (simp add: tile_op_def tile_done_def)
qed

lemma pml4_nl:
  assumes "tbls_ok s" and "a < 2 ^ 48"
  shows "\<not> npg_large (rd_ent (npg_pml4 s, lvl_idx 3 a) s)"
proof -
  obtain own where wf: "wf_tbls own s" using assms(1) by (rule tbls_okE)
  show ?thesis using ent_cover [OF wf top_table [OF wf assms(2)]] by (simp add: ent_ok_def)
qed

text \<open>The first step of every service.\<close>

lemma resolve_pdpe_path:
  assumes ok: "tbls_ok s" and a: "a < 2 ^ 48" and attr: "attr_ok attr"
  shows "case uu_npg_resolve_pdpe a attr s of None \<Rightarrow> card (avail s) = 0
    | Some (p, s1) \<Rightarrow> (\<exists>t. p = (t, lvl_idx 2 a) \<and> descended s s1 2 t a)"
proof -
  have n: "Suc 2 = 3" by simp
  from resolve_path [of s a "npg_pml4 s" 2 attr, unfolded n] ok a attr pml4_nl [OF ok a] path_refl
  show ?thesis by (auto simp: resolve_pdpe_tbl idx_lvl split: option.splits)
qed

lemma tile_1G:
  assumes ok: "tbls_ok s" and low: "in_48 2 b" and attr: "attr_ok attr"
  shows "tile_op (u_npg_map_1G (base 2 b) attr s) (plain_attr attr) (Suc (need_1G s)) Some s 2 b"
proof -
  let ?a = "base 2 b"
  note a = base_low [OF low] and ba = blk_base [OF low]
  note r = resolve_pdpe_path [OF ok a attr]
  show ?thesis
  proof (cases "uu_npg_resolve_pdpe ?a attr s")
    case None
    with r show ?thesis by (simp add: u_npg_map_1G_def tile_op_def)
  next
    case (Some x)
    then obtain t s1 where x: "uu_npg_resolve_pdpe ?a attr s = Some ((t, lvl_idx 2 ?a), s1)" and d: "descended s s1 2 t ?a"
      using r by (cases x) auto
    have s1: "tbls_ok s1" "path4 s1 t 2 ?a" "same_cfg s s1" using d by (simp_all add: descended_def)
    from tile_after [OF d ent_tile [OF map_1G_ent [OF s1(1) a s1(2) attr]]] show ?thesis
      by (simp add: u_npg_map_1G_def x ba need_cfg(2) [OF s1(3)])
  qed
qed

lemma tile_512G:
  assumes ok: "tbls_ok s" and low: "in_48 3 b" and attr: "attr_ok attr"
  shows "tile_op (u_npg_map_512G (base 3 b) attr s) (plain_attr attr) (Suc (512 * need_1G s)) Some s 3 b"
proof -
  let ?a = "base 3 b"
  note a = base_low [OF low] and ba = blk_base [OF low]
  have n: "Suc 2 = 3" by simp
  have al: "uu_align ?a PG_512G_SIZE = ?a"
  proof -
    have "unat (uu_align ?a (2 ^ 39)) = unat ?a" using unat_base [OF low] by (simp only: unat_uu_align) (simp add: lvl_shift_def)
    then have "uu_align ?a (2 ^ 39) = ?a" by (rule unsigned_word_eqI)
    then show ?thesis by (simp add: PG_512G_SIZE_def)
  qed
  have i0: "lvl_idx 2 ?a = 0" using unat_base [OF low] by (simp add: lvl_idx_def blk_def lvl_shift_def)
  have d: "?a + of_nat l * PG_1G_SIZE = ent_base 2 ?a l" for l
    using base_sub [of 2 b l] ba by (simp add: ent_base_def lvl_shift_def PG_1G_SIZE_def n)
  note r = resolve_pdpe_path [OF ok a attr]
  show ?thesis
  proof (cases "uu_npg_resolve_pdpe ?a attr s")
    case None
    with r show ?thesis by (simp add: u_npg_map_512G_def tile_op_def al)
  next
    case (Some x)
    then obtain t s1 where x: "uu_npg_resolve_pdpe ?a attr s = Some ((t, 0), s1)" and ds: "descended s s1 2 t ?a"
      using r i0 by (cases x) auto
    have s1: "tbls_ok s1" "path4 s1 t 2 ?a" "same_cfg s s1" using ds by (simp_all add: descended_def)
    let ?f = "\<lambda>l. uu_npg_map_1G (t, l) (ent_base 2 ?a l) attr"
    have lp: "case for_opt ?f [0..<512] s1 of None \<Rightarrow> plain_attr attr \<longrightarrow> card (avail s1) < 512 * need_1G s
      | Some s' \<Rightarrow> tbl_step Some 512 s1 s' 2 t ?a \<and> card (avail s1) \<le> 512 * need_1G s + card (avail s')"
    proof (rule tbl_loop [OF _ s1(1) a s1(2) order_refl])
      fix s2 and i :: nat
      assume s2: "tbls_ok s2" "same_cfg s1 s2" "path4 s2 t 2 (ent_base 2 ?a i)" and i: "i < 512"
      note eb = ent_base [OF a _ i, of 2]
      have "base 2 (blk 2 (ent_base 2 ?a i)) = ent_base 2 ?a i" using eb(2) by (simp add: ent_base_def)
      with map_1G_ent [OF s2(1) eb(1) s2(3) attr] eb(4) need_cfg(2) [OF same_cfg_trans [OF s1(3) s2(2)]]
      show "ent_op (?f i s2) (plain_attr attr) (need_1G s) Some s2 2 t (ent_base 2 ?a i)" by simp
    qed
    have "tile_op (for_opt ?f [0..<512] s1) (plain_attr attr) (512 * need_1G s) Some s1 3 b"
      using lp ba lvl_idx_less unfolding tile_op_def tile_done_def tbl_step_def n by (simp split: option.splits)
    from tile_after [OF ds this] show ?thesis by (simp add: u_npg_map_512G_def al x d)
  qed
qed

lemma tile_2M:
  assumes ok: "tbls_ok s" and low: "in_48 1 b" and attr: "attr_ok attr"
  shows "tile_op (u_npg_map_2M (base 1 b) attr s) (plain_attr attr) (2 + need_2M s) Some s 1 b"
proof -
  obtain a where av: "a = base 1 b" by blast
  have a: "a < 2 ^ 48" and ba: "blk 1 a = b" using base_low [OF low] blk_base [OF low] by (simp_all add: av)
  have bb: "base 1 (blk 1 a) = a" unfolding ba by (rule av [symmetric])
  note r = resolve_pdpe_path [OF ok a attr]
  have "tile_op (u_npg_map_2M a attr s) (plain_attr attr) (2 + need_2M s) Some s 1 b"
  proof (cases "uu_npg_resolve_pdpe a attr s")
    case None
    with r show ?thesis by (simp add: u_npg_map_2M_def tile_op_def)
  next
    case (Some x)
    then obtain t s1 where x: "uu_npg_resolve_pdpe a attr s = Some ((t, lvl_idx 2 a), s1)" and d: "descended s s1 2 t a"
      using r by (cases x) auto
    have s1: "tbls_ok s1" "path4 s1 t 2 a" "same_cfg s s1" using d by (simp_all add: descended_def)
    let ?q = "(t, lvl_idx 2 a)"
    have "tile_op (u_npg_map_2M a attr s) (plain_attr attr) (Suc (need_2M s)) Some s1 1 b"
    proof (cases "npg_large (rd_ent ?q s1)")
      case True
      with large_tile [OF s1(1) a s1(2) True, of 1] ba [simplified] show ?thesis by (simp add: u_npg_map_2M_def x)
    next
      case nl: False
      have n: "Suc 1 = 2" by simp
      note r2 = resolve_path [of s1 a t 1 attr, unfolded n, OF s1(1) a s1(2) nl attr]
      have eq: "u_npg_map_2M a attr s = Option.bind (resolve_tbl ?q attr s1)
          (\<lambda>(t2, s2). uu_npg_map_2M (t2, lvl_idx 1 a) a attr s2)"
        using nl by (cases "resolve_tbl ?q attr s1") (auto simp: u_npg_map_2M_def x resolve_pde_tbl idx_lvl)
      show ?thesis
      proof (cases "resolve_tbl ?q attr s1")
        case None
        with r2 show ?thesis unfolding eq by (simp add: tile_op_def)
      next
        case (Some y)
        then obtain t2 s2 where y: "resolve_tbl ?q attr s1 = Some (t2, s2)" and d2: "descended s1 s2 1 t2 a"
          using r2 by (cases y) auto
        have s2: "tbls_ok s2" "path4 s2 t2 1 a" "same_cfg s s2"
          using d2 same_cfg_trans [OF s1(3)] by (simp_all add: descended_def)
        from tile_after [OF d2 ent_tile [OF map_2M_ent [OF s2(1) a s2(2) attr, unfolded bb]]] show ?thesis
          unfolding eq y by (simp add: ba [simplified] need_cfg(1) [OF s2(3)])
      qed
    qed
    from tile_after [OF d this] show ?thesis by simp
  qed
  then show ?thesis unfolding av .
qed

text \<open>A page of 4K, from the page directory pointer on and from the page directory on.\<close>

definition pt_4K :: "entp \<Rightarrow> offset_t \<Rightarrow> u64 \<Rightarrow> npg_state \<Rightarrow> npg_state option" where
  "pt_4K pde addr attr s =
     (if npg_large (rd_ent pde s) then Some s
      else do { (pte, s) \<leftarrow> uu_npg_resolve_pte pde addr attr s;
                pte \<leftarrow> pte;
                npg_set_page_entry pte attr (drop_bit 12 addr) s })"

definition pd_4K :: "entp \<Rightarrow> offset_t \<Rightarrow> u64 \<Rightarrow> npg_state \<Rightarrow> npg_state option" where
  "pd_4K pdpe addr attr s =
     do { (pde, s) \<leftarrow> uu_npg_resolve_pde pdpe addr attr s;
          if npg_large (rd_ent pdpe s) then Some s
          else do { pde \<leftarrow> pde; pt_4K pde addr attr s } }"

lemma set_page_ent:
  assumes ok: "tbls_ok s" and a: "a < 2 ^ 48" and p: "path4 s t 0 a" and attr: "attr_ok attr"
    and b: "blk 0 a = b" "drop_bit 12 a = of_nat b"
  shows "tile_op (npg_set_page_entry (t, lvl_idx 0 a) attr (drop_bit 12 a) s) (plain_attr attr) 0 Some s 0 b"
proof -
  obtain own where wf: "wf_tbls own s" using ok by (rule tbls_okE)
  have t: "own t = Some (0, blk (Suc 0) a)" by (rule path4_label [OF wf a p])
  have "in_48 0 (blk 0 a)" by (rule blk_in_48 [OF a]) simp
  from map_4K_block [OF wf t lvl_idx_less blk_idx [symmetric] this attr]
  have "blk_op (npg_set_page_entry (t, lvl_idx 0 a) attr (of_nat (blk 0 a)) s) (plain_attr attr) 0 own s 0 (blk 0 a) (t, lvl_idx 0 a)"
    by (rule blk_op_weaken) (simp add: no_clash_def)
  from ent_tile [OF blk_op_step [OF wf a p this]] show ?thesis by (simp add: b)
qed

lemma tile_4K_pt:
  assumes ok: "tbls_ok s" and p: "path4 s t 1 a" and a: "a < 2 ^ 48" and attr: "attr_ok attr"
    and b: "blk 0 a = b" "drop_bit 12 a = of_nat b"
  shows "tile_op (pt_4K (t, lvl_idx 1 a) a attr s) (plain_attr attr) 1 Some s 0 b"
proof (cases "npg_large (rd_ent (t, lvl_idx 1 a) s)")
  case True
  from large_tile [OF ok a p True, of 0] True b(1) show ?thesis by (simp add: pt_4K_def)
next
  case nl: False
  let ?q = "(t, lvl_idx 1 a)"
  have n: "Suc 0 = 1" by simp
  note r = resolve_path [of s a t 0 attr, unfolded n, OF ok a p nl attr]
  have eq: "pt_4K ?q a attr s = Option.bind (resolve_tbl ?q attr s) (\<lambda>(t', s'). npg_set_page_entry (t', lvl_idx 0 a) attr (drop_bit 12 a) s')"
    using nl by (cases "resolve_tbl ?q attr s") (auto simp: pt_4K_def resolve_pte_tbl idx_lvl)
  show ?thesis
  proof (cases "resolve_tbl ?q attr s")
    case None
    with r show ?thesis unfolding eq by (simp add: tile_op_def)
  next
    case (Some y)
    then obtain t' s' where y: "resolve_tbl ?q attr s = Some (t', s')" and d: "descended s s' 0 t' a"
      using r by (cases y) auto
    have s': "tbls_ok s'" "path4 s' t' 0 a" using d by (simp_all add: descended_def)
    from tile_after [OF d set_page_ent [OF s'(1) a s'(2) attr b]] show ?thesis unfolding eq y by simp
  qed
qed

lemma tile_4K_pd:
  assumes ok: "tbls_ok s" and p: "path4 s t 2 a" and a: "a < 2 ^ 48" and attr: "attr_ok attr"
    and b: "blk 0 a = b" "drop_bit 12 a = of_nat b"
  shows "tile_op (pd_4K (t, lvl_idx 2 a) a attr s) (plain_attr attr) 2 Some s 0 b"
proof (cases "npg_large (rd_ent (t, lvl_idx 2 a) s)")
  case True
  obtain own where wf: "wf_tbls own s" using ok by (rule tbls_okE)
  have "npg_present (rd_ent (t, lvl_idx 2 a) s)"
    using ent_cover [OF wf path4_label [OF wf a p]] True by (simp add: ent_ok_def)
  with large_tile [OF ok a p True, of 0] True b(1) show ?thesis by (simp add: pd_4K_def uu_npg_resolve_pde_def)
next
  case nl: False
  let ?q = "(t, lvl_idx 2 a)"
  have n: "Suc 1 = 2" by simp
  note r = resolve_path [of s a t 1 attr, unfolded n, OF ok a p nl attr]
  show ?thesis
  proof (cases "resolve_tbl ?q attr s")
    case None
    with r nl show ?thesis by (simp add: tile_op_def pd_4K_def resolve_pde_tbl)
  next
    case (Some y)
    then obtain t' s' where y: "resolve_tbl ?q attr s = Some (t', s')" and d: "descended s s' 1 t' a"
      and nl': "\<not> npg_large (rd_ent ?q s')" using r by (cases y) auto
    have s': "tbls_ok s'" "path4 s' t' 1 a" using d by (simp_all add: descended_def)
    have "pd_4K ?q a attr s = pt_4K (t', lvl_idx 1 a) a attr s'"
      using nl nl' y by (simp add: pd_4K_def resolve_pde_tbl idx_lvl)
    with tile_after [OF d tile_4K_pt [OF s' a attr b]] show ?thesis by (simp add: numeral_2_eq_2)
  qed
qed

lemma tile_4K:
  assumes ok: "tbls_ok s" and low: "in_48 0 b" and attr: "attr_ok attr"
  shows "tile_op (u_npg_map_4K (base 0 b) attr s) (plain_attr attr) 3 Some s 0 b"
proof -
  obtain a where av: "a = base 0 b" by blast
  have a: "a < 2 ^ 48" and ba: "blk 0 a = b" and db: "drop_bit 12 a = of_nat b"
    using base_low [OF low] blk_base [OF low] drop_base [OF low] by (simp_all add: av)
  note r = resolve_pdpe_path [OF ok a attr]
  have "tile_op (u_npg_map_4K a attr s) (plain_attr attr) 3 Some s 0 b"
  proof (cases "uu_npg_resolve_pdpe a attr s")
    case None
    with r show ?thesis by (simp add: u_npg_map_4K_def tile_op_def)
  next
    case (Some x)
    then obtain t s1 where x: "uu_npg_resolve_pdpe a attr s = Some ((t, lvl_idx 2 a), s1)" and d: "descended s s1 2 t a"
      using r by (cases x) auto
    have s1: "tbls_ok s1" "path4 s1 t 2 a" using d by (simp_all add: descended_def)
    have "tile_op (u_npg_map_4K a attr s) (plain_attr attr) 2 Some s1 0 b"
      using tile_4K_pd [OF s1 a attr ba db] unfolding u_npg_map_4K_def pd_4K_def pt_4K_def x by simp
    from tile_after [OF d this] show ?thesis by simp
  qed
  then show ?thesis unfolding av .
qed

section \<open>Unmapping one block\<close>

abbreviation gone :: "npg_state \<Rightarrow> npg_state \<Rightarrow> nat \<Rightarrow> nat \<Rightarrow> bool" where
  "gone \<equiv> tile_done (\<lambda>v. None)"

lemma gone_absent:
  assumes "tbls_ok s" and "a < 2 ^ 48" and "path4 s t j a" and "\<not> npg_present (rd_ent (t, lvl_idx j a) s)" and "i \<le> j"
  shows "gone s s i (blk i a)"
proof -
  have "tr4 s v = None" if "blk i v = blk i a" for v
    by (rule absent_tr [OF assms(1-4) blk_mono [OF assms(5) that]])
  with assms(1) show ?thesis by (simp add: tile_done_def)
qed

lemma gone_step: "blk_step (\<lambda>v. None) s s' j t a \<Longrightarrow> gone s s' j (blk j a)"
  by (simp add: tile_done_def blk_step_def)

lemma get_pdpe_path:
  assumes ok: "tbls_ok s" and a: "a < 2 ^ 48"
  shows "case uu_npg_get_pdpe a s of None \<Rightarrow> \<not> npg_present (rd_ent (npg_pml4 s, lvl_idx 3 a) s)
    | Some p \<Rightarrow> (\<exists>t. p = (t, lvl_idx 2 a) \<and> path4 s t 2 a)"
  using path_snoc [of "rd_ent (npg_pml4 s, lvl_idx 3 a) s" "npg_pml4 s" 2 a s "npg_pml4 s" 3] pml4_nl [OF ok a]
  by (simp add: uu_npg_get_pdpe_def uu_npg_get_pdpe_nocheck_def idx_lvl Let_def path_refl)

text \<open>A split keeps the translation.\<close>

definition kept :: "npg_state \<Rightarrow> npg_state \<Rightarrow> bool" where
  "kept s s' = (tbls_ok s' \<and> same_cfg s s' \<and> (\<forall>v < 2 ^ 48. tr4 s' v = tr4 s v))"

lemma kept_trans: "kept s s1 \<Longrightarrow> kept s1 s2 \<Longrightarrow> kept s s2"
  using same_cfg_trans by (auto simp: kept_def)

lemma kept_gone: "kept s s1 \<Longrightarrow> gone s1 s2 j b \<Longrightarrow> gone s s2 j b"
  using same_cfg_trans by (auto simp: kept_def tile_done_def)

lemma split_kept:
  assumes ok: "tbls_ok s" and a: "a < 2 ^ 48" and p: "path4 s t j a"
    and pr: "npg_present (rd_ent (t, lvl_idx j a) s)" and l: "npg_large (rd_ent (t, lvl_idx j a) s)"
    and op: "ent_op (Some s') plain need Some s j t a"
  shows "kept s s' \<and> path4 s' t j a \<and> npg_present (rd_ent (t, lvl_idx j a) s')"
proof -
  have bs: "blk_step Some s s' j t a" using op by (simp add: ent_op_def)
  have "npg_present (rd_ent (t, lvl_idx j a) s')"
  proof (rule ccontr)
    assume "\<not> ?thesis"
    with bs absent_tr [of s' a t j a] a show False by (auto simp: blk_step_def)
  qed
  with bs leaf_tr [OF ok a p pr l] show ?thesis by (auto simp: kept_def blk_step_def)
qed

lemma nolarge_links:
  "uu_npg_map_1G_nolarge p a attr s = Some s' \<Longrightarrow> \<not> bit attr 7 \<Longrightarrow> \<not> npg_large (rd_ent p s')"
  "uu_npg_map_2M_nolarge p a attr s = Some s' \<Longrightarrow> \<not> bit attr 7 \<Longrightarrow> \<not> npg_large (rd_ent p s')"
  by (auto simp: uu_npg_map_1G_nolarge_def uu_npg_map_2M_nolarge_def npg_set_entry_def rd_wr_ent set_entry_large
      split: Option.bind_splits)

lemma split_1G:
  assumes ok: "tbls_ok s" and a: "a < 2 ^ 48" and p: "path4 s t 2 a" and pr: "npg_present (rd_ent (t, lvl_idx 2 a) s)"
    and s1: "(if npg_large (rd_ent (t, lvl_idx 2 a) s) then uu_npg_remap_1G_finest (t, lvl_idx 2 a) a s else Some s) = Some s1"
  shows "kept s s1 \<and> (\<exists>c. uu_npg_get_pde (t, lvl_idx 2 a) a s1 = Some (c, lvl_idx 1 a) \<and> path4 s1 c 1 a)"
proof -
  let ?q = "(t, lvl_idx 2 a)"
  have n: "Suc 1 = 2" by simp
  have "kept s s1 \<and> path4 s1 t 2 a \<and> npg_present (rd_ent ?q s1) \<and> \<not> npg_large (rd_ent ?q s1)"
  proof (cases "npg_large (rd_ent ?q s)")
    case True
    then have r: "uu_npg_remap_1G_finest ?q a s = Some s1" using s1 by simp
    have "\<not> npg_large (rd_ent ?q s1)"
      using nolarge_links(1) get_attr_ok [OF pr] r by (auto simp: uu_npg_remap_1G_finest_def Let_def attr_ok_def)
    with split_kept [OF ok a p pr True] remap_1G_ent [OF ok a p pr] r show ?thesis by simp
  qed (use s1 ok p pr in \<open>simp add: kept_def\<close>)
  with path_snoc [of "rd_ent ?q s1" t 1 a s1 "npg_pml4 s1" 3, unfolded n] show ?thesis
    by (simp add: uu_npg_get_pde_def uu_npg_get_pde_nocheck_def idx_lvl)
qed

lemma split_2M:
  assumes ok: "tbls_ok s" and a: "a < 2 ^ 48" and p: "path4 s t 1 a" and pr: "npg_present (rd_ent (t, lvl_idx 1 a) s)"
    and s1: "(if npg_large (rd_ent (t, lvl_idx 1 a) s) then uu_npg_remap_2M_finest (t, lvl_idx 1 a) a s else Some s) = Some s1"
  shows "kept s s1 \<and> (\<exists>c. uu_npg_get_pte (t, lvl_idx 1 a) a s1 = Some (c, lvl_idx 0 a) \<and> path4 s1 c 0 a)"
proof -
  let ?q = "(t, lvl_idx 1 a)"
  have n: "Suc 0 = 1" by simp
  have "kept s s1 \<and> path4 s1 t 1 a \<and> npg_present (rd_ent ?q s1) \<and> \<not> npg_large (rd_ent ?q s1)"
  proof (cases "npg_large (rd_ent ?q s)")
    case True
    then have r: "uu_npg_remap_2M_finest ?q a s = Some s1" using s1 by simp
    have "\<not> npg_large (rd_ent ?q s1)"
      using nolarge_links(2) get_attr_ok [OF pr] r by (auto simp: uu_npg_remap_2M_finest_def Let_def attr_ok_def)
    with split_kept [OF ok a p pr True] remap_2M_ent [OF ok a p pr] r show ?thesis by simp
  qed (use s1 ok p pr in \<open>simp add: kept_def\<close>)
  with path_snoc [of "rd_ent ?q s1" t 0 a s1 "npg_pml4 s1" 3, unfolded n] show ?thesis
    by (simp add: uu_npg_get_pte_def uu_npg_get_pte_nocheck_def idx_lvl)
qed

lemma unmap_1G_tile:
  assumes ok: "tbls_ok s" and a: "a < 2 ^ 48" and r: "u_npg_unmap_1G a attr s = Some s'"
  shows "gone s s' 2 (blk 2 a)"
proof (cases "uu_npg_get_pdpe a s")
  case None
  with r have "s' = s" by (simp add: u_npg_unmap_1G_def)
  with get_pdpe_path [OF ok a] None show ?thesis using gone_absent [OF ok a path_refl] by simp
next
  case (Some p)
  then obtain t where p: "p = (t, lvl_idx 2 a)" and pth: "path4 s t 2 a" using get_pdpe_path [OF ok a] by auto
  show ?thesis
  proof (cases "npg_present (rd_ent (t, lvl_idx 2 a) s)")
    case True
    with r Some p have "s' = uu_npg_unmap_1G (t, lvl_idx 2 a) s" by (simp add: u_npg_unmap_1G_def)
    with gone_step [OF unmap_1G_gone(1) [OF ok a pth True]] show ?thesis by simp
  next
    case False
    with r Some p have "s' = s" by (simp add: u_npg_unmap_1G_def)
    with gone_absent [OF ok a pth False] show ?thesis by simp
  qed
qed

lemma unmap_512G_tile:
  assumes ok: "tbls_ok s" and low: "in_48 3 b" and r: "u_npg_unmap_512G (base 3 b) attr s = Some s'"
  shows "gone s s' 3 b"
proof -
  let ?a = "base 3 b"
  note a = base_low [OF low] and ba = blk_base [OF low]
  show ?thesis
  proof (cases "uu_npg_get_pdpe ?a s")
    case None
    with r have "s' = s" by (simp add: u_npg_unmap_512G_def)
    with get_pdpe_path [OF ok a] None ba show ?thesis using gone_absent [OF ok a path_refl, of 3] by simp
  next
    case (Some p)
    have i0: "lvl_idx 2 ?a = 0" using unat_base [OF low] by (simp add: lvl_idx_def blk_def lvl_shift_def)
    obtain t where p: "p = (t, 0)" and pth: "path4 s t 2 ?a" using get_pdpe_path [OF ok a] Some i0 by auto
    let ?g = "\<lambda>i s. if npg_present (rd_ent (t, i) s) then uu_npg_unmap_1G (t, i) s else s"
    have lp: "case for_opt (\<lambda>i s. Some (?g i s)) [0..<512] s of None \<Rightarrow> True \<longrightarrow> card (avail s) < 512 * 0
      | Some s' \<Rightarrow> tbl_step (\<lambda>v. None) 512 s s' 2 t ?a \<and> card (avail s) \<le> 512 * 0 + card (avail s')"
    proof (rule tbl_loop [OF _ ok a pth order_refl])
      fix s1 and i :: nat
      assume s1: "tbls_ok s1" "path4 s1 t 2 (ent_base 2 ?a i)" and i: "i < 512"
      have "(2 :: nat) \<le> 3" by simp
      note eb = ent_base [OF a this i]
      show "ent_op (Some (?g i s1)) True 0 (\<lambda>v. None) s1 2 t (ent_base 2 ?a i)"
        using unmap_1G_gone [OF s1(1) eb(1) s1(2)] blk_step_absent [OF s1(1) eb(1) s1(2)] unfolding eb(4) by (simp add: ent_op_def)
    qed
    have n: "Suc 2 = 3" by simp
    from r Some p have "s' = fold ?g [0..<512] s" by (simp add: u_npg_unmap_512G_def cong: if_cong)
    then have "tbl_step (\<lambda>v. None) 512 s s' 2 t ?a" using lp by (simp add: fold_for_opt)
    then show ?thesis using lvl_idx_less ba unfolding tbl_step_def tile_done_def n by simp
  qed
qed

lemma unmap_2M_tile:
  assumes ok: "tbls_ok s" and a: "a < 2 ^ 48" and r: "u_npg_unmap_2M a attr s = Some s'"
  shows "gone s s' 1 (blk 1 a)"
proof (cases "uu_npg_get_pdpe a s")
  case None
  with r have "s' = s" by (simp add: u_npg_unmap_2M_def)
  with get_pdpe_path [OF ok a] None show ?thesis using gone_absent [OF ok a path_refl] by simp
next
  case (Some p)
  then obtain t where p: "p = (t, lvl_idx 2 a)" and pth: "path4 s t 2 a" using get_pdpe_path [OF ok a] by auto
  show ?thesis
  proof (cases "npg_present (rd_ent (t, lvl_idx 2 a) s)")
    case False
    with r Some p have "s' = s" by (simp add: u_npg_unmap_2M_def)
    with gone_absent [OF ok a pth False] show ?thesis by simp
  next
    case True
    with r Some p obtain s1 pde where
      s1: "(if npg_large (rd_ent (t, lvl_idx 2 a) s) then uu_npg_remap_1G_finest (t, lvl_idx 2 a) a s else Some s) = Some s1"
      and pde: "uu_npg_get_pde (t, lvl_idx 2 a) a s1 = Some pde" and s': "s' = uu_npg_unmap_2M pde s1"
      by (auto simp: u_npg_unmap_2M_def split: Option.bind_splits if_splits)
    from split_1G [OF ok a pth True s1] pde obtain c where k: "kept s s1" and c: "pde = (c, lvl_idx 1 a)" "path4 s1 c 1 a" by auto
    have "tbls_ok s1" using k by (simp add: kept_def)
    from kept_gone [OF k gone_step [OF unmap_2M_gone(1) [OF this a c(2)]]] show ?thesis by (simp add: s' c(1))
  qed
qed

lemma remap_finest_4K_kept:
  assumes ok: "tbls_ok s" and a: "a < 2 ^ 48" and r: "u_npg_remap_finest_4K a s = Some (pte, s')"
  shows "kept s s' \<and> (case pte of None \<Rightarrow> gone s' s' 0 (blk 0 a) | Some p \<Rightarrow> (\<exists>t. p = (t, lvl_idx 0 a) \<and> path4 s' t 0 a))"
proof (cases "uu_npg_get_pdpe a s")
  case None
  with r have "s' = s" "pte = None" by (auto simp: u_npg_remap_finest_4K_def)
  with get_pdpe_path [OF ok a] None ok show ?thesis using gone_absent [OF ok a path_refl] by (simp add: kept_def)
next
  case (Some p)
  then obtain t where p: "p = (t, lvl_idx 2 a)" and pth: "path4 s t 2 a" using get_pdpe_path [OF ok a] by auto
  show ?thesis
  proof (cases "npg_present (rd_ent (t, lvl_idx 2 a) s)")
    case False
    with r Some p have "s' = s" "pte = None" by (auto simp: u_npg_remap_finest_4K_def)
    with gone_absent [OF ok a pth False] ok show ?thesis by (simp add: kept_def)
  next
    case pr: True
    with r Some p obtain s1 where
      s1: "(if npg_large (rd_ent (t, lvl_idx 2 a) s) then uu_npg_remap_1G_finest (t, lvl_idx 2 a) a s else Some s) = Some s1"
      and rest: "(case uu_npg_get_pde (t, lvl_idx 2 a) a s1 of None \<Rightarrow> Some (None, s1)
        | Some pde \<Rightarrow> if \<not> npg_present (rd_ent pde s1) then Some (None, s1)
            else Option.bind (if npg_large (rd_ent pde s1) then uu_npg_remap_2M_finest pde a s1 else Some s1)
              (\<lambda>s2. Some (uu_npg_get_pte pde a s2, s2))) = Some (pte, s')"
      by (auto simp: u_npg_remap_finest_4K_def split: Option.bind_splits if_splits)
    from split_1G [OF ok a pth pr s1] obtain c where k: "kept s s1"
      and c: "uu_npg_get_pde (t, lvl_idx 2 a) a s1 = Some (c, lvl_idx 1 a)" "path4 s1 c 1 a" by auto
    have ok1: "tbls_ok s1" using k by (simp add: kept_def)
    show ?thesis
    proof (cases "npg_present (rd_ent (c, lvl_idx 1 a) s1)")
      case False
      with rest c(1) have "s' = s1" "pte = None" by auto
      with gone_absent [OF ok1 a c(2) False] k show ?thesis by simp
    next
      case True
      with rest c(1) obtain s2 where
        s2: "(if npg_large (rd_ent (c, lvl_idx 1 a) s1) then uu_npg_remap_2M_finest (c, lvl_idx 1 a) a s1 else Some s1) = Some s2"
        and fin: "pte = uu_npg_get_pte (c, lvl_idx 1 a) a s2" "s' = s2"
        by (auto split: Option.bind_splits if_splits)
      from split_2M [OF ok1 a c(2) True s2] kept_trans [OF k] fin show ?thesis by auto
    qed
  qed
qed

lemma unmap_4K_tile:
  assumes ok: "tbls_ok s" and a: "a < 2 ^ 48" and r: "u_npg_unmap_4K a attr s = Some s'"
  shows "gone s s' 0 (blk 0 a)"
proof -
  from r obtain pte s1 where s1: "u_npg_remap_finest_4K a s = Some (pte, s1)"
    and s': "s' = (case pte of None \<Rightarrow> s1 | Some p \<Rightarrow> npg_zero p s1)"
    by (auto simp: u_npg_unmap_4K_def split: Option.bind_splits)
  note k = remap_finest_4K_kept [OF ok a s1]
  have ok1: "tbls_ok s1" using k by (simp add: kept_def)
  show ?thesis
  proof (cases pte)
    case None
    with k s' kept_gone [of s s1 s1] show ?thesis by simp
  next
    case (Some p)
    with k obtain t where p: "p = (t, lvl_idx 0 a)" "path4 s1 t 0 a" by auto
    from kept_gone [OF _ gone_step [OF leaf_gone [OF ok1 a p(2)]]] k show ?thesis by (simp add: s' Some p(1))
  qed
qed

text \<open>The splits need a page for every new table and nothing else; the rest of the unmap services never panics.\<close>

lemma ent_op_some: "ent_op x True need r s j t a \<Longrightarrow> need \<le> card (avail s) \<Longrightarrow> \<exists>s'. x = Some s' \<and> card (avail s) \<le> need + card (avail s')"
  by (auto simp: ent_op_def split: option.splits)

lemma split_1G_some:
  assumes "tbls_ok s" and "a < 2 ^ 48" and "path4 s t 2 a" and "npg_present (rd_ent (t, lvl_idx 2 a) s)"
    and "Suc (512 * need_2M s) \<le> card (avail s)"
  shows "\<exists>s1. (if npg_large (rd_ent (t, lvl_idx 2 a) s) then uu_npg_remap_1G_finest (t, lvl_idx 2 a) a s else Some s) = Some s1
    \<and> card (avail s) \<le> Suc (512 * need_2M s) + card (avail s1)"
  using ent_op_some [OF remap_1G_ent [OF assms(1-4)] assms(5)] by auto

lemma unmap_2M_some:
  assumes ok: "tbls_ok s" and a: "a < 2 ^ 48" and c: "Suc (512 * need_2M s) \<le> card (avail s)"
  shows "\<exists>s'. u_npg_unmap_2M a attr s = Some s'"
proof (cases "uu_npg_get_pdpe a s")
  case None
  then show ?thesis by (simp add: u_npg_unmap_2M_def)
next
  case (Some p)
  then obtain t where p: "p = (t, lvl_idx 2 a)" and pth: "path4 s t 2 a" using get_pdpe_path [OF ok a] by auto
  show ?thesis
  proof (cases "npg_present (rd_ent (t, lvl_idx 2 a) s)")
    case False
    with Some p show ?thesis by (simp add: u_npg_unmap_2M_def)
  next
    case True
    obtain s1 where s1: "(if npg_large (rd_ent (t, lvl_idx 2 a) s) then uu_npg_remap_1G_finest (t, lvl_idx 2 a) a s else Some s) = Some s1"
      using split_1G_some [OF ok a pth True c] by blast
    from split_1G [OF ok a pth True s1] obtain d where "uu_npg_get_pde (t, lvl_idx 2 a) a s1 = Some d" by blast
    with Some p True s1 show ?thesis by (simp add: u_npg_unmap_2M_def)
  qed
qed

lemma remap_finest_4K_some:
  assumes ok: "tbls_ok s" and a: "a < 2 ^ 48" and c: "2 + 512 * need_2M s \<le> card (avail s)"
  shows "\<exists>p s'. u_npg_remap_finest_4K a s = Some (p, s') \<and> card (avail s) \<le> 2 + 512 * need_2M s + card (avail s')"
proof (cases "uu_npg_get_pdpe a s")
  case None
  then show ?thesis by (simp add: u_npg_remap_finest_4K_def)
next
  case (Some p)
  then obtain t where p: "p = (t, lvl_idx 2 a)" and pth: "path4 s t 2 a" using get_pdpe_path [OF ok a] by auto
  show ?thesis
  proof (cases "npg_present (rd_ent (t, lvl_idx 2 a) s)")
    case False
    with Some p show ?thesis by (simp add: u_npg_remap_finest_4K_def)
  next
    case True
    obtain s1 where s1: "(if npg_large (rd_ent (t, lvl_idx 2 a) s) then uu_npg_remap_1G_finest (t, lvl_idx 2 a) a s else Some s) = Some s1"
      and c1: "card (avail s) \<le> Suc (512 * need_2M s) + card (avail s1)"
      using split_1G_some [OF ok a pth True] c by auto
    from split_1G [OF ok a pth True s1] obtain d where k: "kept s s1"
      and d: "uu_npg_get_pde (t, lvl_idx 2 a) a s1 = Some (d, lvl_idx 1 a)" "path4 s1 d 1 a" by auto
    have ok1: "tbls_ok s1" using k by (simp add: kept_def)
    have eq: "u_npg_remap_finest_4K a s = (if \<not> npg_present (rd_ent (d, lvl_idx 1 a) s1) then Some (None, s1)
        else Option.bind (if npg_large (rd_ent (d, lvl_idx 1 a) s1) then uu_npg_remap_2M_finest (d, lvl_idx 1 a) a s1 else Some s1)
          (\<lambda>s2. Some (uu_npg_get_pte (d, lvl_idx 1 a) a s2, s2)))"
      using Some p True s1 d(1) by (simp add: u_npg_remap_finest_4K_def)
    have "1 \<le> card (avail s1)" using c c1 by simp
    then have "\<exists>s2. (if npg_large (rd_ent (d, lvl_idx 1 a) s1) then uu_npg_remap_2M_finest (d, lvl_idx 1 a) a s1 else Some s1) = Some s2
        \<and> card (avail s1) \<le> 1 + card (avail s2)" if "npg_present (rd_ent (d, lvl_idx 1 a) s1)"
      using ent_op_some [OF remap_2M_ent [OF ok1 a d(2) that]] by auto
    with c1 show ?thesis unfolding eq by fastforce
  qed
qed

section \<open>Ranges\<close>

definition range_done :: "(offset_t \<Rightarrow> offset_t option) \<Rightarrow> npg_state \<Rightarrow> npg_state \<Rightarrow> nat \<Rightarrow> nat \<Rightarrow> bool" where
  "range_done r s s' lo hi =
     (tbls_ok s' \<and> same_cfg s s' \<and> (\<forall>v < 2 ^ 48. tr4 s' v = (if lo \<le> unat v \<and> unat v < hi then r v else tr4 s v)))"

lemma range_trans:
  assumes "range_done r s s1 a m" and "range_done r s1 s2 m e" and "a \<le> m" and "m \<le> e"
  shows "range_done r s s2 a e"
  using assms same_cfg_trans [of s s1 s2] by (auto simp: range_done_def)

text \<open>The tables a list of calls takes from the pool at most.\<close>

definition tile_need :: "npg_state \<Rightarrow> nat \<Rightarrow> nat" where
  "tile_need s k =
     (if k = 39 then Suc (512 * need_1G s) else if k = 30 then Suc (need_1G s)
      else if k = 21 then 2 + need_2M s else 3)"

definition calls_need :: "npg_state \<Rightarrow> (nat \<times> nat) list \<Rightarrow> nat" where
  "calls_need s cs = sum_list (map (\<lambda>(k, x). tile_need s k) cs)"

lemma calls_need_cfg: "same_cfg s s' \<Longrightarrow> calls_need s' cs = calls_need s cs"
  unfolding calls_need_def tile_need_def by (simp add: need_cfg cong: if_cong)

lemma tile_split:
  assumes "k \<in> {39, 30, 21, 12}" and "2 ^ k dvd a" and "a + 2 ^ k \<le> 2 ^ 48"
  obtains j b where "k = lvl_shift j" "j \<in> {0, 1, 2, 3}" "a = b * 2 ^ lvl_shift j" "in_48 j b" "of_nat a = base j b"
proof -
  obtain j where j: "k = lvl_shift j" "j \<in> {0, 1, 2, 3}" using assms(1) by (auto simp: lvl_shift_def)
  obtain b where b: "a = b * 2 ^ lvl_shift j" using assms(2) j(1) by (auto elim!: dvdE simp: mult.commute)
  have "in_48 j b" using assms(3) b j(1) by (simp add: in_48_def algebra_simps)
  with that j b show ?thesis by (simp add: base_def)
qed

lemma tile_range: "a = b * 2 ^ lvl_shift j \<Longrightarrow> tile_done r s s' j b \<Longrightarrow> range_done r s s' a (a + 2 ^ lvl_shift j)"
proof -
  assume a: "a = b * 2 ^ lvl_shift j" and "tile_done r s s' j b"
  moreover have "a \<le> unat v \<and> unat v < a + 2 ^ lvl_shift j \<longleftrightarrow> blk j v = b" for v
    using span_blk [of v j b] by (simp add: span_def a add.commute)
  ultimately show ?thesis unfolding tile_done_def range_done_def by simp
qed

lemma map_call:
  assumes ok: "tbls_ok s" and k: "k \<in> {39, 30, 21, 12}" and a: "2 ^ k dvd a" "a + 2 ^ k \<le> 2 ^ 48" and attr: "attr_ok attr"
  shows "case map_fnc attr k (of_nat a) s of None \<Rightarrow> plain_attr attr \<longrightarrow> card (avail s) < tile_need s k
    | Some s' \<Rightarrow> range_done Some s s' a (a + 2 ^ k) \<and> card (avail s) \<le> tile_need s k + card (avail s')"
proof -
  obtain j b where j: "k = lvl_shift j" "j \<in> {0, 1, 2, 3}" and b: "a = b * 2 ^ lvl_shift j" "in_48 j b" "of_nat a = base j b"
    using tile_split [OF k a] by blast
  have "tile_op (map_fnc attr k (base j b) s) (plain_attr attr) (tile_need s k) Some s j b"
    using tile_4K [OF ok _ attr, of b] tile_2M [OF ok _ attr, of b] tile_1G [OF ok _ attr, of b] tile_512G [OF ok _ attr, of b] b(2) j
    by (auto simp: lvl_shift_def tile_need_def)
  then show ?thesis unfolding b(3) j(1) tile_op_def using tile_range [OF b(1)] by (auto split: option.splits)
qed

lemma unmap_call:
  assumes ok: "tbls_ok s" and k: "k \<in> {39, 30, 21, 12}" and a: "2 ^ k dvd a" "a + 2 ^ k \<le> 2 ^ 48"
    and r: "unmap_fnc k (of_nat a) s = Some s'"
  shows "range_done (\<lambda>v. None) s s' a (a + 2 ^ k)"
proof -
  obtain j b where j: "k = lvl_shift j" "j \<in> {0, 1, 2, 3}" and b: "a = b * 2 ^ lvl_shift j" "in_48 j b" "of_nat a = base j b"
    using tile_split [OF k a] by blast
  note lw = base_low [OF b(2)] and ba = blk_base [OF b(2)]
  have "gone s s' j b"
    using unmap_4K_tile [OF ok lw, of 0] unmap_2M_tile [OF ok lw, of 0] unmap_1G_tile [OF ok lw, of 0]
      unmap_512G_tile [OF ok, of b 0] r [unfolded b(3)] b(2) j ba
    by (auto simp: lvl_shift_def)
  from tile_range [OF b(1) this] show ?thesis by (simp add: j(1))
qed

lemma exec_map:
  assumes "tiles a cs e" and "fst ` set cs \<subseteq> {39, 30, 21, 12}" and "e \<le> 2 ^ 48" and "tbls_ok s" and "attr_ok attr"
  shows "case exec_calls (map_fnc attr) cs s of None \<Rightarrow> plain_attr attr \<longrightarrow> card (avail s) < calls_need s cs
    | Some s' \<Rightarrow> range_done Some s s' a e \<and> card (avail s) \<le> calls_need s cs + card (avail s')"
  using assms
proof (induction cs arbitrary: a s)
  case Nil
  then show ?case by (auto simp: range_done_def calls_need_def)
next
  case (Cons c cs)
  obtain k where c: "c = (k, a)" "2 ^ k dvd a" and t: "tiles (a + 2 ^ k) cs e" using Cons.prems(1) by (cases c) simp
  have ae: "a + 2 ^ k \<le> e" using tiles_size [OF t] by simp
  have nd: "calls_need s (c # cs) = tile_need s k + calls_need s cs" using c by (simp add: calls_need_def)
  have k: "k \<in> {39, 30, 21, 12}" and cs: "fst ` set cs \<subseteq> {39, 30, 21, 12}" using Cons.prems(2) c(1) by auto
  have "a + 2 ^ k \<le> 2 ^ 48" using ae Cons.prems(3) by linarith
  note mc = map_call [OF Cons.prems(4) k c(2) this Cons.prems(5)]
  have ex: "exec_calls (map_fnc attr) (c # cs) s = Option.bind (map_fnc attr k (of_nat a) s) (exec_calls (map_fnc attr) cs)"
    using c(1) by (simp del: map_fnc.simps)
  show ?case
  proof (cases "map_fnc attr k (of_nat a) s")
    case None
    with mc show ?thesis unfolding ex nd None by (auto simp del: map_fnc.simps)
  next
    case (Some s1)
    with mc have rd: "range_done Some s s1 a (a + 2 ^ k)" and c1: "card (avail s) \<le> tile_need s k + card (avail s1)"
      by (auto simp del: map_fnc.simps)
    have ok1: "tbls_ok s1" "same_cfg s s1" using rd by (simp_all add: range_done_def)
    note ih = Cons.IH [OF t cs Cons.prems(3) ok1(1) Cons.prems(5), unfolded calls_need_cfg [OF ok1(2)]]
    have b: "Option.bind (Some s1) (exec_calls (map_fnc attr) cs) = exec_calls (map_fnc attr) cs s1" by simp
    show ?thesis
      unfolding ex nd Some b using ih c1 range_trans [OF rd _ _ ae]
      by (cases "exec_calls (map_fnc attr) cs s1") (auto simp del: map_fnc.simps)
  qed
qed

lemma exec_unmap:
  assumes "tiles a cs e" and "fst ` set cs \<subseteq> {39, 30, 21, 12}" and "e \<le> 2 ^ 48" and "tbls_ok s"
    and "exec_calls unmap_fnc cs s = Some s'"
  shows "range_done (\<lambda>v. None) s s' a e"
  using assms
proof (induction cs arbitrary: a s)
  case Nil
  then show ?case by (auto simp: range_done_def)
next
  case (Cons c cs)
  obtain k where c: "c = (k, a)" "2 ^ k dvd a" and t: "tiles (a + 2 ^ k) cs e" using Cons.prems(1) by (cases c) simp
  have ae: "a + 2 ^ k \<le> e" using tiles_size [OF t] by simp
  have k: "k \<in> {39, 30, 21, 12}" and cs: "fst ` set cs \<subseteq> {39, 30, 21, 12}" using Cons.prems(2) c(1) by auto
  have lo: "a + 2 ^ k \<le> 2 ^ 48" using ae Cons.prems(3) by linarith
  obtain s1 where s1: "unmap_fnc k (of_nat a) s = Some s1" "exec_calls unmap_fnc cs s1 = Some s'"
    using Cons.prems(5) c(1) by (auto simp del: unmap_fnc.simps split: Option.bind_splits)
  have rd: "range_done (\<lambda>v. None) s s1 a (a + 2 ^ k)" by (rule unmap_call [OF Cons.prems(4) k c(2) lo s1(1)])
  then have "tbls_ok s1" by (simp add: range_done_def)
  from range_trans [OF rd Cons.IH [OF t cs Cons.prems(3) this s1(2)] _ ae] show ?case by simp
qed

text \<open>The calls of the decomposition are for the four levels.\<close>

lemma block_calls_fst: "fst ` set (block_calls k lim a) \<subseteq> {k}"
  by (auto simp: block_calls_def)

lemma bk_calls_fst: "fst ` set (snd (bk_calls ks a e u)) \<subseteq> set ks"
proof (induction ks a e u rule: bk_calls.induct)
  case (2 k ks a e u)
  have "fst ` set (block_calls k l r) \<subseteq> insert k (set ks)" for l r using block_calls_fst by blast
  with 2 show ?case by (fastforce simp: Let_def split: prod.splits if_splits)
qed simp

lemma fw_calls_fst: "fst ` set (fw_calls ks a e) \<subseteq> set ks"
proof (induction ks a e rule: fw_calls.induct)
  case (2 k ks a e)
  with block_calls_fst [of k "down k e" a] show ?case by auto
qed simp

lemma npg_calls_fst: "fst ` set (npg_calls start end s) \<subseteq> {39, 30, 21, 12}"
proof -
  obtain r cs where rc: "bk_calls [39, 30, 21, 12] (unat start) (unat end) (unat (max_paddr s)) = (r, cs)"
    by fastforce
  then have "fst ` set cs \<subseteq> {39, 30, 21, 12}" using bk_calls_fst [of "[39, 30, 21, 12]"] by (metis list.set(1,2) snd_conv)
  moreover have "fst ` set (fw_calls [39, 30, 21, 12] r (unat end)) \<subseteq> {39, 30, 21, 12}"
    using fw_calls_fst [of "[39, 30, 21, 12]"] by simp
  ultimately show ?thesis unfolding npg_calls_def range_calls_def rc by (simp add: image_Un)
qed

abbreviation page_start :: "offset_t \<Rightarrow> nat" where
  "page_start a \<equiv> down 12 (unat a)"

lemma range_pre:
  assumes "start \<le> end" and "end \<le> 2 ^ 48"
  shows "unat start + 2 ^ 39 < 2 ^ 64" "page_start end \<le> 2 ^ 48"
  using assms down_le [of 12 "unat end"] by (simp_all add: word_le_nat_alt)

lemma npg_map_range:
  assumes ok: "tbls_ok s" and r: "start \<le> end" "end \<le> 2 ^ 48" and attr: "attr_ok attr"
  shows "case npg_map start end attr s of
      None \<Rightarrow> plain_attr attr \<longrightarrow> card (avail s) < calls_need s (npg_calls start end s)
    | Some s' \<Rightarrow> range_done Some s s' (page_start start) (page_start end)
        \<and> card (avail s) \<le> calls_need s (npg_calls start end s) + card (avail s')"
  unfolding npg_map_exec(1) [OF r(1) range_pre(1) [OF r]]
  by (rule exec_map [OF npg_calls_tiles [OF r(1)] npg_calls_fst range_pre(2) [OF r] ok attr])

lemma npg_unmap_range:
  assumes ok: "tbls_ok s" and r: "start \<le> end" "end \<le> 2 ^ 48" and s': "npg_unmap start end s = Some s'"
  shows "range_done (\<lambda>v. None) s s' (page_start start) (page_start end)"
  using s' exec_unmap [OF npg_calls_tiles [OF r(1)] npg_calls_fst range_pre(2) [OF r] ok]
  unfolding npg_map_exec(2) [OF r(1) range_pre(1) [OF r]] by blast

section \<open>The memory types\<close>

text \<open>The range registers in use: types that leave the bit of large pages alone (the types the
  processor defines are at most 7), and variable ranges that do not wrap around and stay below \<open>2 ^ 48\<close>.\<close>

definition var_ok :: "msr_rd \<Rightarrow> offset_t \<Rightarrow> nat \<Rightarrow> bool" where
  "var_ok rd mx i =
     (let m_base = rd (IA32_MTRR_PHYSBASE0 + 2 * of_nat i); m_mask = rd (IA32_MTRR_PHYSBASE0 + 2 * of_nat i + 1);
          base = push_bit 12 (get_field 12 52 m_base); mask = push_bit 12 (get_field 12 52 m_mask);
          len = mx - mask + 1
      in bit m_mask 11 \<longrightarrow> \<not> bit m_base 4 \<and> base \<le> base + len \<and> base + len \<le> 2 ^ 48)"

definition fixed_msrs :: "u32 list" where
  "fixed_msrs = [IA32_MTRR_FIX64K_00000, IA32_MTRR_FIX16K_80000, IA32_MTRR_FIX16K_a0000]
     @ map of_nat [unat IA32_MTRR_FIX4K_c0000 ..< unat IA32_MTRR_FIX4K_f8000 + 1]"

definition types_ok :: "u64 \<Rightarrow> bool" where
  "types_ok msr = list_all (\<lambda>i. \<not> bit msr (8 * i + 4)) [0..<8]"

definition mtrr_ok :: "msr_rd \<Rightarrow> ept_cfg \<Rightarrow> offset_t \<Rightarrow> bool" where
  "mtrr_ok rd c mx =
     (mtrr_e (mtrr_def c) \<longrightarrow> \<not> bit (mtrr_def c) 4
        \<and> list_all (var_ok rd mx) [0..<unat (mtrr_cap c AND 0xff)]
        \<and> (mtrr_fe (mtrr_def c) \<and> bit (mtrr_cap c) 8 \<longrightarrow> list_all (\<lambda>m. types_ok (rd m)) fixed_msrs))"

text \<open>Nothing that was mapped is lost.\<close>

definition grown :: "npg_state \<Rightarrow> npg_state \<Rightarrow> bool" where
  "grown s s' = (tbls_ok s' \<and> same_cfg s s' \<and> (\<forall>v < 2 ^ 48. tr4 s v \<noteq> None \<longrightarrow> tr4 s' v \<noteq> None))"

lemma grown_trans: "grown s s1 \<Longrightarrow> grown s1 s2 \<Longrightarrow> grown s s2"
  using same_cfg_trans by (auto simp: grown_def)

lemma grown_refl: "tbls_ok s \<Longrightarrow> grown s s"
  by (simp add: grown_def)

lemma attr_type_ok: "\<not> bit t 4 \<Longrightarrow> attr_ok (mtrr_attr t)" "\<not> bit t 4 \<Longrightarrow> attr_ok (push_bit 3 t OR VMX_EPT_PVL_RWX)"
proof -
  assume t: "\<not> bit t 4"
  have p: "bit (VMX_EPT_PVL_RWX) n \<longleftrightarrow> n < 3" for n
  proof -
    have m: "VMX_EPT_PVL_RWX = mask 3" by (simp add: VMX_EPT_PVL_RWX_def mask_eq_decr_exp)
    show ?thesis unfolding m bit_mask_iff by auto
  qed
  have h: "\<not> bit ept_has_mtrr 7" by (simp only: ept_has_mtrr_def bit_push_bit_iff bit_1_iff) simp
  show "attr_ok (mtrr_attr t)" "attr_ok (push_bit 3 t OR VMX_EPT_PVL_RWX)"
    using t h unfolding attr_ok_def mtrr_attr_def and_7_iff bit_or_iff p bit_push_bit_iff by (auto intro!: exI [of _ 0])
qed

lemma map_mtrr_grown:
  assumes ok: "tbls_ok s" and r: "addr \<le> addr + len" "addr + len \<le> 2 ^ 48" and attr: "attr_ok attr"
    and s': "vmx_ept_map_mtrr addr len attr s = Some s'"
  shows "grown s s'"
proof -
  obtain s1 where s1: "npg_unmap addr (addr + len) s = Some s1" "npg_map addr (addr + len) attr s1 = Some s'"
    using s' by (auto simp: vmx_ept_map_mtrr_def split: Option.bind_splits)
  have u: "range_done (\<lambda>v. None) s s1 (page_start addr) (page_start (addr + len))"
    by (rule npg_unmap_range [OF ok r s1(1)])
  then have ok1: "tbls_ok s1" by (simp add: range_done_def)
  have "range_done Some s1 s' (page_start addr) (page_start (addr + len))"
    using npg_map_range [OF ok1 r attr] s1(2) by simp
  with u same_cfg_trans show ?thesis by (auto simp: range_done_def grown_def)
qed

lemma mtrr_variable_grown:
  assumes ok: "tbls_ok s" and v: "list_all (var_ok rd (max_paddr s)) [0..<unat (mtrr_cap c AND 0xff)]"
    and s': "vmx_ept_map_mtrr_variable rd c s = Some s'"
  shows "grown s s'"
proof -
  let ?f = "\<lambda>i s. let m_base = rd (IA32_MTRR_PHYSBASE0 + 2 * of_nat i); m_mask = rd (IA32_MTRR_PHYSBASE0 + 2 * of_nat i + 1)
       in if bit m_mask 11
          then (let base = push_bit 12 (get_field 12 52 m_base); mask = push_bit 12 (get_field 12 52 m_mask);
                    len = max_paddr s - mask + 1
                in vmx_ept_map_mtrr base len (mtrr_attr (m_base AND 0xff)) s)
          else Some s"
  have t: "\<not> bit (x AND 0xff) 4" if "\<not> bit x 4" for x :: u64 using that by (simp add: and_lit(5) bit_take_bit_iff)
  have step: "grown s1 s2" if "tbls_ok s1" "same_cfg s s1" "var_ok rd (max_paddr s) i" "?f i s1 = Some s2" for s1 s2 i
    using that map_mtrr_grown [OF that(1) _ _ attr_type_ok(1) [OF t]] grown_refl
    by (auto simp: Let_def var_ok_def same_cfg_def split: if_splits)
  have "grown s s2" if "for_opt ?f is s1 = Some s2" "list_all (var_ok rd (max_paddr s)) is" "grown s s1" for "is" s1 s2
    using that
  proof (induction "is" arbitrary: s1)
    case (Cons i "is")
    obtain s3 where s3: "?f i s1 = Some s3" "for_opt ?f is s3 = Some s2"
      using Cons.prems(1) unfolding for_opt.simps by (auto split: Option.bind_splits)
    have "grown s1 s3" using step [of s1 i s3] s3(1) Cons.prems(2,3) by (simp add: grown_def)
    from Cons.IH [OF s3(2) _ grown_trans [OF Cons.prems(3) this]] Cons.prems(2) show ?case by simp
  qed simp
  from this [OF _ v grown_refl [OF ok]] s' show ?thesis by (simp only: vmx_ept_map_mtrr_variable_def)
qed

lemma type_byte: "\<not> bit (drop_bit (i * 8) m AND 0xff) 4 \<longleftrightarrow> \<not> bit m (8 * i + 4)" for m :: u64
  by (simp add: and_lit(5) bit_take_bit_iff bit_drop_bit_eq mult.commute)

lemma word_add_bound:
  assumes "unat (x :: u64) + unat y \<le> 2 ^ 48"
  shows "unat (x + y) = unat x + unat y" "x \<le> x + y" "x + y \<le> 2 ^ 48"
proof -
  have "unat x + unat y < 2 ^ 64" using assms by simp
  moreover have "x + y = of_nat (unat x + unat y)" by simp
  ultimately show u: "unat (x + y) = unat x + unat y" by (simp only: unat_of_nat) simp
  then show "x \<le> x + y" "x + y \<le> 2 ^ 48" using assms by (simp_all add: word_le_nat_alt)
qed

lemma fixed_unit_grown:
  assumes ok: "tbls_ok s" and ty: "types_ok msr" and b: "unat bs + 8 * unat sz \<le> 2 ^ 48"
    and r: "vmx_ept_map_mtrr_fixed_unit bs sz msr s = Some (bs', s')"
  shows "grown s s' \<and> unat bs' = unat bs + 8 * unat sz"
proof -
  let ?f = "\<lambda>i (base, s). map_option (\<lambda>s. (base + sz, s))
      (vmx_ept_map_mtrr base sz (mtrr_attr (drop_bit (i * 8) msr AND 0xff)) s)"
  have "grown s s1 \<and> unat bs1 = unat bs + n * unat sz"
    if "n \<le> 8" "for_opt ?f [0..<n] (bs, s) = Some (bs1, s1)" for n bs1 s1
    using that
  proof (induction n arbitrary: bs1 s1)
    case 0
    then show ?case using grown_refl [OF ok] by simp
  next
    case (Suc n)
    obtain bs2 s2 where s2: "for_opt ?f [0..<n] (bs, s) = Some (bs2, s2)" and st: "?f n (bs2, s2) = Some (bs1, s1)"
      using Suc.prems(2) unfolding for_opt_Suc by (auto split: Option.bind_splits)
    have ih: "grown s s2" "unat bs2 = unat bs + n * unat sz" using Suc.IH [OF _ s2] Suc.prems(1) by auto
    have "unat sz + n * unat sz \<le> 8 * unat sz" using mult_le_mono1 [OF Suc.prems(1), of "unat sz"] by (simp only: mult_Suc)
    then have "unat bs2 + unat sz \<le> 2 ^ 48" using ih(2) b by linarith
    note wb = word_add_bound [OF this]
    have "\<not> bit (drop_bit (n * 8) msr AND 0xff) 4"
      unfolding type_byte using ty Suc.prems(1) by (simp add: types_ok_def list_all_iff)
    note at = attr_type_ok(1) [OF this]
    have "tbls_ok s2" using ih(1) by (simp add: grown_def)
    from map_mtrr_grown [OF this wb(2,3) at] st have "grown s2 s1" "bs1 = bs2 + sz" by auto
    with grown_trans [OF ih(1)] ih(2) wb(1) show ?case by simp
  qed
  from this [of 8 bs' s'] r show ?thesis unfolding vmx_ept_map_mtrr_fixed_unit_def by simp
qed

lemma fixed_grown:
  assumes ok: "tbls_ok s" and ty: "list_all (\<lambda>m. types_ok (rd m)) fixed_msrs"
    and r: "vmx_ept_map_mtrr_fixed rd s = Some s'"
  shows "grown s s'"
proof -
  let ?f = "\<lambda>n (base, s). vmx_ept_map_mtrr_fixed_unit base (4 * 1024) (rd (of_nat n)) s"
  let ?ms = "[unat IA32_MTRR_FIX4K_c0000 ..< unat IA32_MTRR_FIX4K_f8000 + 1]"
  obtain b1 s1 b2 s2 b3 s3 b4 where
    u1: "vmx_ept_map_mtrr_fixed_unit 0 (64 * 1024) (rd IA32_MTRR_FIX64K_00000) s = Some (b1, s1)"
    and u2: "vmx_ept_map_mtrr_fixed_unit b1 (16 * 1024) (rd IA32_MTRR_FIX16K_80000) s1 = Some (b2, s2)"
    and u3: "vmx_ept_map_mtrr_fixed_unit b2 (16 * 1024) (rd IA32_MTRR_FIX16K_a0000) s2 = Some (b3, s3)"
    and u4: "for_opt ?f ?ms (b3, s3) = Some (b4, s')"
    using r unfolding vmx_ept_map_mtrr_fixed_def by (auto split: Option.bind_splits)
  have ty': "types_ok (rd IA32_MTRR_FIX64K_00000)" "types_ok (rd IA32_MTRR_FIX16K_80000)" "types_ok (rd IA32_MTRR_FIX16K_a0000)"
    "\<forall>n \<in> set ?ms. types_ok (rd (of_nat n))"
    using ty by (simp_all add: fixed_msrs_def list_all_iff)
  have g1: "grown s s1 \<and> unat b1 = 8 * 65536" using fixed_unit_grown [OF ok ty'(1) _ u1] by simp
  then have g2: "grown s1 s2 \<and> unat b2 = 40 * 16384" using fixed_unit_grown [OF _ ty'(2) _ u2] by (simp add: grown_def)
  then have g3: "grown s2 s3 \<and> unat b3 = 48 * 16384" using fixed_unit_grown [OF _ ty'(3) _ u3] by (simp add: grown_def)
  have loop: "grown s3 s5"
    if "for_opt ?f ns (bs, s4) = Some (b5, s5)" "\<forall>n \<in> set ns. types_ok (rd (of_nat n))" "grown s3 s4"
      "unat bs + 32768 * length ns \<le> 2 ^ 48" for ns bs s4 b5 s5
    using that
  proof (induction ns arbitrary: bs s4)
    case (Cons n ns)
    obtain b6 s6 where s6: "vmx_ept_map_mtrr_fixed_unit bs (4 * 1024) (rd (of_nat n)) s4 = Some (b6, s6)"
      "for_opt ?f ns (b6, s6) = Some (b5, s5)"
      using Cons.prems(1) unfolding for_opt.simps by (auto split: Option.bind_splits)
    have "grown s4 s6 \<and> unat b6 = unat bs + 32768"
      using fixed_unit_grown [OF _ _ _ s6(1)] Cons.prems(2,3,4) by (simp add: grown_def)
    with Cons.IH [OF s6(2)] Cons.prems(2,3,4) grown_trans show ?case by auto
  qed simp
  have l: "length ?ms = 8" by (simp add: IA32_MTRR_FIX4K_c0000_def IA32_MTRR_FIX4K_f8000_def)
  have "grown s3 s'"
    using loop [OF u4 ty'(4)] g3 grown_refl [of s3] unfolding l by (simp add: grown_def)
  with g1 g2 g3 grown_trans show ?thesis by blast
qed

section \<open>Isolation\<close>

text \<open>The state in which the tables are built: an empty pml4 outside of the pool.\<close>

definition ept_fresh :: "npg_state \<Rightarrow> bool" where
  "ept_fresh s =
     (pool_inv (npg_pool s) \<and> (\<forall>p \<in> avail s. p < 2 ^ 52) \<and> npg_pml4 s \<notin> avail s \<and> npg_pml4 s \<noteq> 0
      \<and> (\<forall>i < 512. rd_ent (npg_pml4 s, i) s = 0))"

lemma ept_fresh_ok:
  assumes f: "ept_fresh s"
  shows "tbls_ok s" "tr4 s v = None"
proof -
  have "in_48 4 0" by (simp add: in_48_def lvl_shift_def)
  then have "wf_tbls [npg_pml4 s \<mapsto> (3, 0)] s"
    using f ent_ok_0 by (auto simp: wf_tbls_def ept_fresh_def split: if_splits)
  then show "tbls_ok s" by (auto simp: tbls_ok_def)
  show "tr4 s v = None" using f lvl_idx_less [of 3 v] by (simp add: ept_fresh_def numeral_3_eq_3 Let_def)
qed

text \<open>Pages of the guest and pages of the vmm.\<close>

definition vmm_page :: "ept_cfg \<Rightarrow> offset_t \<Rightarrow> bool" where
  "vmm_page c v = (page_nr (ept_area_start c) \<le> page_nr v \<and> page_nr v < page_nr (ept_area_end c))"

definition guest_page :: "ept_cfg \<Rightarrow> offset_t \<Rightarrow> bool" where
  "guest_page c v = (page_nr v < page_nr (mem_top c) \<and> \<not> vmm_page c v)"

lemma page_start_iff: "unat v < page_start a \<longleftrightarrow> page_nr v < page_nr a"
  by (simp only: down_def page_nr_def PAGE_SHIFT_def word_less_nat_alt unat_drop_bit_div div_less_iff_less_mult
      zero_less_power zero_less_numeral)

lemma page_start_le: "page_start a \<le> unat v \<longleftrightarrow> page_nr a \<le> page_nr v"
  using page_start_iff [of v a] by (auto simp: not_less [symmetric])

lemma ept_tr:
  assumes fresh: "ept_fresh s" and mt: "mtrr_ok rd c (max_paddr s)"
    and area: "ept_area_start c \<le> ept_area_end c" "ept_area_end c \<le> mem_top c" "mem_top c \<le> 2 ^ 48"
    and s': "vmx_ept_map rd c s = Some s'" and v: "v < 2 ^ 48"
  shows "tbls_ok s' \<and> (vmm_page c v \<longrightarrow> tr4 s' v = None) \<and> (guest_page c v \<longrightarrow> tr4 s' v \<noteq> None)"
proof -
  let ?at = "ept_dft_attr c"
  have lo: "ept_area_start c \<le> 2 ^ 48" "ept_area_end c \<le> 2 ^ 48" "0 \<le> ept_area_start c" "0 \<le> mem_top c" using area by simp_all
  note ok = ept_fresh_ok(1) [OF fresh] and em = ept_fresh_ok(2) [OF fresh]
  have at: "attr_ok ?at"
    unfolding ept_dft_attr_def Let_def
    using mt attr_type_ok(2) by (auto simp: mtrr_ok_def VMX_EPT_MEM_TYPE_UC_def and_lit(5) bit_take_bit_iff)
  have d0: "down 12 0 = 0" by (simp add: down_def)
  show ?thesis
  proof (cases "mtrr_e (mtrr_def c)")
    case False
    then obtain s1 where s1: "npg_map 0 (ept_area_start c) ?at s = Some s1" "npg_map (ept_area_end c) (mem_top c) ?at s1 = Some s'"
      using s' by (auto simp: vmx_ept_map_def vmx_ept_map_no_mtrr_def split: Option.bind_splits)
    have r1: "range_done Some s s1 0 (page_start (ept_area_start c))"
      using npg_map_range [OF ok lo(3,1) at] s1(1) by (simp add: d0)
    then have ok1: "tbls_ok s1" by (simp add: range_done_def)
    have r2: "range_done Some s1 s' (page_start (ept_area_end c)) (page_start (mem_top c))"
      using npg_map_range [OF ok1 area(2,3) at] s1(2) by simp
    show ?thesis
      using r1 r2 v em by (auto simp: range_done_def vmm_page_def guest_page_def page_start_iff page_start_le not_less not_le)
  next
    case True
    with s' obtain s1 x s2 s3 s4 where s1: "npg_map 0 (mem_top c) ?at s = Some s1"
      and s2: "u_npg_remap_finest_4K 0 s1 = Some (x, s2)" and s3: "vmx_ept_map_mtrr_variable rd c s2 = Some s3"
      and s4: "(if mtrr_fe (mtrr_def c) \<and> bit (mtrr_cap c) 8 then vmx_ept_map_mtrr_fixed rd s3 else Some s3) = Some s4"
      and u: "npg_unmap (ept_area_start c) (ept_area_end c) s4 = Some s'"
      by (auto simp: vmx_ept_map_def vmx_ept_map_with_mtrr_def split: Option.bind_splits)
    have mo: "list_all (var_ok rd (max_paddr s)) [0..<unat (mtrr_cap c AND 0xff)]"
      "mtrr_fe (mtrr_def c) \<and> bit (mtrr_cap c) 8 \<longrightarrow> list_all (\<lambda>m. types_ok (rd m)) fixed_msrs"
      using mt True by (simp_all add: mtrr_ok_def)
    have r1: "range_done Some s s1 0 (page_start (mem_top c))"
      using npg_map_range [OF ok lo(4) area(3) at] s1 by (simp add: d0)
    have ok1: "tbls_ok s1" using r1 by (simp add: range_done_def)
    have "kept s1 s2" using remap_finest_4K_kept [OF ok1 _ s2] by simp
    then have g2: "grown s1 s2" by (simp add: kept_def grown_def)
    have mp: "max_paddr s2 = max_paddr s" using g2 r1 by (simp add: grown_def range_done_def same_cfg_def)
    have g3: "grown s2 s3" using mtrr_variable_grown [OF _ _ s3] mo(1) mp g2 by (simp add: grown_def)
    then have "grown s3 s4"
      using s4 fixed_grown [of s3 rd s4] mo(2) grown_refl [of s3] by (auto simp: grown_def split: if_splits)
    with g2 g3 grown_trans have g: "grown s1 s4" by blast
    then have ok4: "tbls_ok s4" by (simp add: grown_def)
    have r5: "range_done (\<lambda>v. None) s4 s' (page_start (ept_area_start c)) (page_start (ept_area_end c))"
      by (rule npg_unmap_range [OF ok4 area(1) lo(2) u])
    show ?thesis
      using r1 g r5 v by (auto simp: range_done_def grown_def vmm_page_def guest_page_def page_start_iff page_start_le)
  qed
qed

text \<open>C1: once the nested page tables are built, whatever the memory type registers hold (types the
  processor defines, ranges below \<open>2 ^ 48\<close>), the area of the vmm is out of reach of the guest, every page of
  memory outside of the area is in reach, and an address that is in reach is translated to itself.\<close>

theorem ept_map_isolates:
  assumes "ept_fresh s" and "mtrr_ok rd c (max_paddr s)"
    and "ept_area_start c \<le> ept_area_end c" and "ept_area_end c \<le> mem_top c" and "mem_top c \<le> 2 ^ 48"
    and "vmx_ept_map rd c s = Some s'" and "v < 2 ^ 48" and "uu_npg_walk s' v wlk = (r, wlk')"
  shows "(vmm_page c v \<longrightarrow> r = VM_FAULT) \<and> (guest_page c v \<longrightarrow> r = VM_DONE) \<and> (r = VM_DONE \<longrightarrow> wlk_addr wlk' = v)"
proof -
  note t = ept_tr [OF assms(1-7)]
  then have "tbls_ok s'" by (rule conjunct1)
  then obtain own where wf: "wf_tbls own s'" by (rule tbls_okE)
  have "tr4 s' v = None \<or> tr4 s' v = Some v" by (rule tr_id [OF wf top_table [OF wf assms(7)]])
  moreover have "r = (if tr4 s' v = None then VM_FAULT else VM_DONE)" "tr4 s' v = Some v \<longrightarrow> wlk_addr wlk' = v"
    using walk_tr [OF wf assms(7), of wlk] assms(8) by simp_all
  moreover have "VM_FAULT \<noteq> VM_DONE" by (simp add: vmerr_defs)
  ultimately show ?thesis using t by (cases "tr4 s' v") simp_all
qed

lemma ept_map_some:
  assumes fresh: "ept_fresh s" and mt: "\<not> mtrr_e (mtrr_def c)"
    and area: "ept_area_start c \<le> ept_area_end c" "ept_area_end c \<le> mem_top c" "mem_top c \<le> 2 ^ 48"
    and mem: "calls_need s (npg_calls 0 (ept_area_start c) s) + calls_need s (npg_calls (ept_area_end c) (mem_top c) s)
      \<le> card (pool_avail (npg_pool s))"
  shows "\<exists>s'. vmx_ept_map rd c s = Some s'"
proof -
  let ?at = "ept_dft_attr c"
  have "?at = 7" using mt by (simp add: ept_dft_attr_def VMX_EPT_MEM_TYPE_UC_def VMX_EPT_PVL_RWX_def)
  then have at: "attr_ok ?at" "plain_attr ?at" by (simp_all add: attr_ok_def ept_has_mtrr_def)
  have lo: "ept_area_start c \<le> 2 ^ 48" "0 \<le> ept_area_start c" using area by simp_all
  note m1 = npg_map_range [OF ept_fresh_ok(1) [OF fresh] lo(2,1) at(1)]
  obtain s1 where s1: "npg_map 0 (ept_area_start c) ?at s = Some s1"
    using m1 mem at(2) by (cases "npg_map 0 (ept_area_start c) ?at s") auto
  have r1: "tbls_ok s1" "same_cfg s s1" and c1: "card (avail s) \<le> calls_need s (npg_calls 0 (ept_area_start c) s) + card (avail s1)"
    using m1 s1 by (simp_all add: range_done_def)
  have cs: "npg_calls (ept_area_end c) (mem_top c) s1 = npg_calls (ept_area_end c) (mem_top c) s"
    using r1(2) by (simp add: npg_calls_def same_cfg_def)
  have "npg_map (ept_area_end c) (mem_top c) ?at s1 \<noteq> None"
    using npg_map_range [OF r1(1) area(2,3) at(1)] mem c1 at(2) calls_need_cfg [OF r1(2)] cs by (auto split: option.splits)
  with s1 mt show ?thesis by (auto simp: vmx_ept_map_def vmx_ept_map_no_mtrr_def)
qed

text \<open>Two machines: one gigabyte with the memory types on and the vmm at 2M, two gigabytes without.\<close>

definition ept_ex :: ept_cfg where
  "ept_ex = \<lparr>mtrr_def = 0x806, mtrr_cap = 0, mem_top = 0x40000000, ept_area_start = 0x200000, ept_area_end = 0x400000\<rparr>"

definition ept_ex_off :: ept_cfg where
  "ept_ex_off = \<lparr>mtrr_def = 0, mtrr_cap = 0, mem_top = 0x80000000, ept_area_start = 0x1000, ept_area_end = 0x40000000\<rparr>"

lemma npg_ex_fresh: "ept_fresh npg_ex" "card (avail npg_ex) = 4" "max_paddr npg_ex = 0xfffffffff"
  "need_2M npg_ex = 0" "need_1G npg_ex = 0"
  using pool_ex_avail by (simp_all add: ept_fresh_def npg_ex_def rd_ent_def pool_ex_avail_set need_1G_def need_2M_def)

lemma ex_calls:
  assumes "max_paddr s = 0xfffffffff"
  shows "npg_calls 0 0x40000000 s = [(30, 0)]" "npg_calls 0x200000 0x400000 s = [(21, 0x200000)]"
    "npg_calls 0 0x1000 s = [(12, 0)]" "npg_calls 0x40000000 0x80000000 s = [(30, 0x40000000)]"
  unfolding npg_calls_def assms
  by (simp_all add: range_calls_def down_def block_calls_def block_end_def steps_def)

lemma ept_ex_map: "\<exists>s'. vmx_ept_map (\<lambda>m. 0) ept_ex npg_ex = Some s'"
proof -
  have at: "ept_dft_attr ept_ex = 0x37"
    by (simp add: ept_dft_attr_def ept_ex_def mtrr_e_def VMX_EPT_PVL_RWX_def)
  have ok: "attr_ok 0x37" "plain_attr 0x37" by (simp_all add: attr_ok_def ept_has_mtrr_def)
  note nf = npg_ex_fresh
  have "(0 :: u64) \<le> 0x40000000" "(0x40000000 :: u64) \<le> 2 ^ 48" by simp_all
  note m = npg_map_range [OF ept_fresh_ok(1) [OF nf(1)] this ok(1), unfolded ex_calls(1) [OF nf(3)]]
  obtain s1 where s1: "npg_map 0 0x40000000 0x37 npg_ex = Some s1"
    using m ok(2) nf by (cases "npg_map 0 0x40000000 0x37 npg_ex") (simp_all add: calls_need_def tile_need_def)
  have r1: "tbls_ok s1" "same_cfg npg_ex s1" "3 \<le> card (avail s1)"
    using m s1 nf by (simp_all add: range_done_def calls_need_def tile_need_def)
  have n1: "need_2M s1 = 0" using need_cfg(1) [OF r1(2)] nf(4) by simp
  have "(0 :: u64) < 2 ^ 48" by simp
  from remap_finest_4K_some [OF r1(1) this] n1 r1(3)
  obtain p s2 where s2: "u_npg_remap_finest_4K 0 s1 = Some (p, s2)" and c2: "1 \<le> card (avail s2)" by auto
  have k: "kept s1 s2" using remap_finest_4K_kept [OF r1(1) _ s2] by simp
  have ok2: "tbls_ok s2" and cfg: "same_cfg npg_ex s2" using k same_cfg_trans [OF r1(2)] by (auto simp: kept_def)
  have n2: "need_2M s2 = 0" and mp: "max_paddr s2 = 0xfffffffff"
    using need_cfg(1) [OF cfg] cfg nf(3,4) by (simp_all add: same_cfg_def)
  have lw: "(0x200000 :: u64) < 2 ^ 48" by simp
  obtain s3 where s3: "u_npg_unmap_2M 0x200000 0 s2 = Some s3" using unmap_2M_some [OF ok2 lw] n2 c2 by auto
  have le: "(0x200000 :: u64) \<le> 0x400000" "unat (0x200000 :: u64) + 2 ^ 39 < 2 ^ 64" by simp_all
  have "npg_unmap 0x200000 0x400000 s2 = Some s3"
    unfolding npg_map_exec(2) [OF le] ex_calls(2) [OF mp] by (simp add: s3)
  with at s1 s2 show ?thesis
    by (simp add: vmx_ept_map_def vmx_ept_map_with_mtrr_def ept_ex_def mtrr_e_def mtrr_fe_def vmx_ept_map_mtrr_variable_def)
qed

theorem ept_map_isolates_witness:
  "\<exists>s' w. vmx_ept_map (\<lambda>m. 0) ept_ex npg_ex = Some s'
    \<and> fst (uu_npg_walk s' 0x3ff000 undefined) = VM_FAULT
    \<and> uu_npg_walk s' 0x400123 undefined = (VM_DONE, w) \<and> wlk_addr w = 0x400123"
proof -
  obtain s' where s': "vmx_ept_map (\<lambda>m. 0) ept_ex npg_ex = Some s'" using ept_ex_map by blast
  obtain r1 w1 r2 w2 where w: "uu_npg_walk s' 0x3ff000 undefined = (r1, w1)" "uu_npg_walk s' 0x400123 undefined = (r2, w2)"
    by (metis surj_pair)
  have mt: "mtrr_ok (\<lambda>m. 0) ept_ex (max_paddr npg_ex)"
    by (simp add: mtrr_ok_def ept_ex_def mtrr_e_def mtrr_fe_def)
  have a: "ept_area_start ept_ex \<le> ept_area_end ept_ex" "ept_area_end ept_ex \<le> mem_top ept_ex" "mem_top ept_ex \<le> 2 ^ 48"
    by (simp_all add: ept_ex_def)
  have v: "vmm_page ept_ex 0x3ff000" "guest_page ept_ex 0x400123"
    by (simp_all add: vmm_page_def guest_page_def ept_ex_def page_nr_def PAGE_SHIFT_def)
  have lo: "(0x3ff000 :: u64) < 2 ^ 48" "(0x400123 :: u64) < 2 ^ 48" by simp_all
  from ept_map_isolates [OF npg_ex_fresh(1) mt a s' lo(1) w(1)] ept_map_isolates [OF npg_ex_fresh(1) mt a s' lo(2) w(2)] v s' w
  show ?thesis by auto
qed

text \<open>C4: when the memory type registers are not in use, the tables are built without a panic if the pool has the
  pages that the decomposition of the two ranges needs.\<close>

theorem ept_map_completes:
  assumes "ept_fresh s" and "\<not> mtrr_e (mtrr_def c)"
    and "ept_area_start c \<le> ept_area_end c" and "ept_area_end c \<le> mem_top c" and "mem_top c \<le> 2 ^ 48"
    and "calls_need s (npg_calls 0 (ept_area_start c) s) + calls_need s (npg_calls (ept_area_end c) (mem_top c) s)
      \<le> card (pool_avail (npg_pool s))"
  shows "\<exists>s'. vmx_ept_map rd c s = Some s'"
  using ept_map_some [OF assms] .

theorem ept_map_completes_witness: "\<exists>s'. vmx_ept_map (\<lambda>m. 0) ept_ex_off npg_ex = Some s'"
proof (rule ept_map_completes [OF npg_ex_fresh(1)])
  note cs = ex_calls [OF npg_ex_fresh(3)]
  show "calls_need npg_ex (npg_calls 0 (ept_area_start ept_ex_off) npg_ex)
      + calls_need npg_ex (npg_calls (ept_area_end ept_ex_off) (mem_top ept_ex_off) npg_ex) \<le> card (avail npg_ex)"
    using npg_ex_fresh(2,4,5) by (simp add: ept_ex_off_def cs calls_need_def tile_need_def)
qed (simp_all add: ept_ex_off_def mtrr_e_def)

text \<open>C5: unmapping 2M at an address whose page directory entry is not present takes the page at address zero for
  a page table: every quad word there that looks like a present entry is cleared, although nothing was
  mapped at the address. The interrupt vectors of the guest are in that page.\<close>

theorem unmap_2M_hits_page_zero:
  assumes "uu_npg_get_pdpe addr s = Some pdpe" and "npg_present (rd_ent pdpe s)" and "\<not> npg_large (rd_ent pdpe s)"
    and "uu_npg_get_pde pdpe addr s = Some pde" and "rd_ent pde s = 0" and "fst pde \<noteq> 0" and "i < 512"
  shows "\<exists>s'. u_npg_unmap_2M addr attr s = Some s'
    \<and> rd_ent (0, i) s' = (if npg_present (rd_ent (0, i) s) then ept_zero (rd_ent (0, i) s) else rd_ent (0, i) s)"
proof -
  let ?f = "fold (\<lambda>i s. if npg_present (rd_ent (0, i) s) then npg_zero (0, i) s else s) [0..<512] s"
  have z: "page_addr (npg_addr 0) = 0" by (simp add: page_addr_def npg_addr_def get_field_def)
  have "u_npg_unmap_2M addr attr s = Some (npg_zero pde (?f\<lparr>npg_pool := pool_push_page 0 (npg_pool ?f)\<rparr>))"
    using assms(1-5) z by (simp add: u_npg_unmap_2M_def uu_npg_unmap_2M_def Let_def npg_large_def)
  moreover have "rd_ent (0, i) (npg_zero pde (?f\<lparr>npg_pool := x\<rparr>)) = rd_ent (0, i) ?f" for x
    using assms(6) by (auto simp: npg_zero_def rd_wr_ent) (simp add: rd_ent_def)
  ultimately show ?thesis using zero_fold_in [of 0 i "[0..<512]" s] assms(7) by simp
qed

text \<open>Tables with an empty page directory, and an interrupt vector at the start of the memory.\<close>

definition ivt_ex :: npg_state where
  "ivt_ex = npg_ex\<lparr>npg_mem := (\<lambda>p. if p = (0x200000, 0) then 0x201007 else if p = (0x201000, 0) then 0x202007
     else if p = (0, 1) then 0xf000ff53f000e2c3 else 0)\<rparr>"

theorem unmap_2M_hits_page_zero_witness: "\<exists>s'. u_npg_unmap_2M 0x400000 0 ivt_ex = Some s' \<and> rd_ent (0, 1) s' = 0"
proof -
  have e: "rd_ent (0x200000, 0) ivt_ex = 0x201007" "rd_ent (0x201000, 0) ivt_ex = 0x202007" "rd_ent (0x202000, 2) ivt_ex = 0"
    "rd_ent (0, 1) ivt_ex = 0xf000ff53f000e2c3" "npg_pml4 ivt_ex = 0x200000"
    by (simp_all add: ivt_ex_def npg_ex_def rd_ent_def)
  have i: "pml4_idx 0x400000 = 0" "pdp_idx 0x400000 = 0" "pd64_idx 0x400000 = 2"
    by (simp_all add: pml4_idx_def pdp_idx_def pd64_idx_def)
  have b: "npg_present 0x201007" "npg_present 0x202007" "\<not> npg_large 0x202007" "npg_present 0xf000ff53f000e2c3"
    "page_addr (npg_addr 0x201007) = 0x201000" "page_addr (npg_addr 0x202007) = 0x202000" "ept_zero 0xf000ff53f000e2c3 = 0"
    by code_simp+
  have p: "uu_npg_get_pdpe 0x400000 ivt_ex = Some (0x201000, 0)"
    using e i b by (simp add: uu_npg_get_pdpe_def uu_npg_get_pdpe_nocheck_def Let_def)
  have d: "uu_npg_get_pde (0x201000, 0) 0x400000 ivt_ex = Some (0x202000, 2)"
    using e i b by (simp add: uu_npg_get_pde_def uu_npg_get_pde_nocheck_def)
  from unmap_2M_hits_page_zero [OF p _ _ d, of 1 0] e b show ?thesis by simp
qed

end
