(* ===== verification/Exits.thy ===== *)
theory Exits
  imports Rmode Ept Ctrl
begin

text \<open>
  The exits of the guest: the dispatch of \<^verbatim>\<open>vmm/src/vmx/vmx_exit.c\<close> with its table of handlers and
  the delivery of an event that the exit interrupted, the handlers that the other theories do not
  have (\<^verbatim>\<open>vmx_exit_msr.c\<close> and \<^verbatim>\<open>core/msr.c\<close>, \<^verbatim>\<open>vmx_exit_cpuid.c\<close> and \<^verbatim>\<open>core/cpuid.c\<close>,
  \<^verbatim>\<open>vmx_exit_dt.c\<close>, \<^verbatim>\<open>vmx_exit_excp.c\<close>, \<^verbatim>\<open>vmx_exit_gp.c\<close>, \<^verbatim>\<open>vmx_exit_pf.c\<close>,
  \<^verbatim>\<open>vmx_exit_dr.c\<close>, \<^verbatim>\<open>core/insn.c\<close>) and the debug exceptions left pending, \<^verbatim>\<open>vmx_exit_db.c\<close>.
  Instructions that the vmm executes on the processor for the guest are arguments (\<^verbatim>\<open>cpuid\<close>,
  \<^verbatim>\<open>rdmsr\<close>, \<^verbatim>\<open>wrmsr\<close>); \<^verbatim>\<open>xcr0\<close> and what the processor keeps for the model specific registers
  are in the state. A handler that does not come back to the guest is \<open>None\<close>.
\<close>

section \<open>State\<close>

text \<open>The exit information and the part of the control structure that the handlers use.
  \<open>idt_info\<close> is the event in delivery at the exit, \<open>vm_evt\<close> the event to inject.\<close>

record exit_vm = rm_vm +
  exit_reason :: u16
  exit_int_nmi :: bool
  int_nmi :: bool
  vm_activity :: u32
  pend_be :: bool
  pend_bs :: bool
  idt_info :: vm_evt
  idt_err :: u32
  entry_insn_len :: u32
  exit_physical :: u64
  npf_err :: u64
  npf_vaddr :: u64
  npf_paddr :: u64
  vm_npg :: npg_state
  ept_st :: ept_cfg
  hw_msr :: "u32 \<Rightarrow> u64"
  hw_xcr0 :: u64
  vm_pat :: u64
  vm_perf :: u64

datatype cpuid_qemu = CPUID_QEMU_NONE | CPUID_QEMU_USER | CPUID_QEMU_ALL

text \<open>The configuration, the processor and the services of the other components. The processor
  answers \<^verbatim>\<open>rdmsr\<close> and \<^verbatim>\<open>wrmsr\<close> from what it keeps for the model specific registers, which it may
  change as it likes; \<open>None\<close> is the general protection fault of a register that it does not have or
  of a reserved value, which it raises in the vmm, so that the exit does not come back.\<close>

record 'a exit_env =
  cfg_cpuid_qemu :: cpuid_qemu
  cfg_msr_proxy :: bool
  hw_cpuid :: "u32 \<Rightarrow> u32 \<Rightarrow> u32 \<times> u32 \<times> u32 \<times> u32"
  hw_rdmsr :: "u32 \<Rightarrow> (u32 \<Rightarrow> u64) \<Rightarrow> (u64 \<times> (u32 \<Rightarrow> u64)) option"
  hw_wrmsr :: "u32 \<Rightarrow> u64 \<Rightarrow> (u32 \<Rightarrow> u64) \<Rightarrow> (u32 \<Rightarrow> u64) option"
  env_ud :: ud_lib
  env_stack :: u64
  env_io :: "('a exit_vm_ext rm_vm_ext cpu_vm_ext) io_env"
  env_gdb :: "('a exit_vm_ext rm_vm_ext cpu_vm_ext io_vm_ext) gdb_env"
  env_own :: "('a exit_vm_ext rm_vm_ext cpu_vm_ext io_vm_ext) own_hdl"

text \<open>The low halves of the general registers.\<close>

definition gpr_low :: "nat \<Rightarrow> 'a dbg_vm_scheme \<Rightarrow> u32" where
  "gpr_low r s = ucast (gpr_get r 0 32 s)"

definition set_gpr_low :: "nat \<Rightarrow> u32 \<Rightarrow> 'a dbg_vm_scheme \<Rightarrow> 'a dbg_vm_scheme" where
  "set_gpr_low r v s = gpr_put r 0 32 (ucast v) s"

definition edx_eax :: "'a dbg_vm_scheme \<Rightarrow> u64" where
  "edx_eax s = ucast (gpr_low GPR64_RAX s) OR push_bit 32 (ucast (gpr_low GPR64_RDX s))"

definition set_edx_eax :: "u64 \<Rightarrow> 'a dbg_vm_scheme \<Rightarrow> 'a dbg_vm_scheme" where
  "set_edx_eax v s = set_gpr_low GPR64_RDX (ucast (drop_bit 32 v)) (set_gpr_low GPR64_RAX (ucast v) s)"

definition emulate_native :: "'a ctrl_vm_scheme \<Rightarrow> 'a ctrl_vm_scheme" where
  "emulate_native s = s\<lparr>emu_sts := EMU_STS_NATIVE\<rparr>"

text \<open>\<^verbatim>\<open>emulate_done(rc, max(__insn_sz(), n))\<close>.\<close>

definition insn_done :: "vmerr \<Rightarrow> u64 \<Rightarrow> 'a io_vm_scheme \<Rightarrow> vmerr \<times> 'a io_vm_scheme" where
  "insn_done rc n s = emulate_done rc (max (exit_insn_len s) n) s"

section \<open>Model specific registers\<close>

definition IA32_MTRR_DEF_TYPE :: u32 where "IA32_MTRR_DEF_TYPE = 0x2ff"
definition IA32_EFER_MSR :: u32 where "IA32_EFER_MSR = 0xc0000080"
definition IA32_SYSENTER_CS_MSR :: u32 where "IA32_SYSENTER_CS_MSR = 0x174"
definition IA32_SYSENTER_ESP_MSR :: u32 where "IA32_SYSENTER_ESP_MSR = 0x175"
definition IA32_SYSENTER_EIP_MSR :: u32 where "IA32_SYSENTER_EIP_MSR = 0x176"
definition IA32_PAT_MSR :: u32 where "IA32_PAT_MSR = 0x277"
definition IA32_DBG_CTL_MSR :: u32 where "IA32_DBG_CTL_MSR = 0x1d9"
definition IA32_PERF_GLB_CTL_MSR :: u32 where "IA32_PERF_GLB_CTL_MSR = 0x38d"
definition MSR_INSN_SZ :: u64 where "MSR_INSN_SZ = 2"
definition EFER_MASK :: u64 where "EFER_MASK = 0xd01"

definition uu_vmx_vmexit_resolve_msr_mtrr_def :: "bool \<Rightarrow> 'a exit_vm_scheme \<Rightarrow> (vmerr \<times> 'a exit_vm_scheme) option" where
  "uu_vmx_vmexit_resolve_msr_mtrr_def wr s =
     (if wr
      then (let upd = mtrr_def (ept_st s) XOR edx_eax s; s = s\<lparr>ept_st := (ept_st s)\<lparr>mtrr_def := edx_eax s\<rparr>\<rparr>
            in if mtrr_e upd
               then map_option (\<lambda>n. (VM_DONE, s\<lparr>vm_npg := n\<rparr>)) (vmx_ept_remap (hw_msr s) (ept_st s) (vm_npg s))
               else Some (VM_DONE, s))
      else Some (VM_DONE, set_edx_eax (mtrr_def (ept_st s)) s))"

definition uu_vmx_vmexit_resolve_msr_efer :: "bool \<Rightarrow> 'a cpu_vm_scheme \<Rightarrow> vmerr \<times> 'a cpu_vm_scheme" where
  "uu_vmx_vmexit_resolve_msr_efer wr s =
     (if wr
      then (let upd = vm_reg_get R_EFER s XOR edx_eax s;
                s = vm_reg_put R_EFER (edx_eax s AND EFER_MASK) s;
                s = s\<lparr>efer_hw := vm_reg_get R_EFER s\<rparr>;
                s = s\<lparr>efer_hw := put_flag 8 (entry_ia32e s) (put_flag 10 (entry_ia32e s) (efer_hw s))\<rparr>;
                s = (if efer_lma s \<and> \<not> efer_lme s then vm_reg_put R_EFER (put_flag 10 False (vm_reg_get R_EFER s)) s else s)
            in if bit upd 8 \<and> cr0_pg s then inject_gp s else (VM_DONE, s))
      else (VM_DONE, set_edx_eax (vm_reg_get R_EFER s) s))"

definition uu_vmx_vmexit_resolve_msr_sysenter_cs :: "bool \<Rightarrow> 'a rm_vm_scheme \<Rightarrow> vmerr \<times> 'a rm_vm_scheme" where
  "uu_vmx_vmexit_resolve_msr_sysenter_cs wr s =
     (VM_DONE, if wr then s\<lparr>sysenter_cs := ucast (gpr_low GPR64_RAX s)\<rparr>
               else set_gpr_low GPR64_RAX (ucast (sysenter_cs s)) s)"

definition uu_vmx_vmexit_resolve_msr_sysenter_esp :: "bool \<Rightarrow> 'a rm_vm_scheme \<Rightarrow> vmerr \<times> 'a rm_vm_scheme" where
  "uu_vmx_vmexit_resolve_msr_sysenter_esp wr s =
     (VM_DONE, if wr then s\<lparr>sysenter_esp := edx_eax s\<rparr> else set_edx_eax (sysenter_esp s) s)"

definition uu_vmx_vmexit_resolve_msr_sysenter_eip :: "bool \<Rightarrow> 'a rm_vm_scheme \<Rightarrow> vmerr \<times> 'a rm_vm_scheme" where
  "uu_vmx_vmexit_resolve_msr_sysenter_eip wr s =
     (VM_DONE, if wr then s\<lparr>sysenter_eip := edx_eax s\<rparr> else set_edx_eax (sysenter_eip s) s)"

definition uu_vmx_vmexit_resolve_msr_pat :: "bool \<Rightarrow> 'a exit_vm_scheme \<Rightarrow> vmerr \<times> 'a exit_vm_scheme" where
  "uu_vmx_vmexit_resolve_msr_pat wr s =
     (VM_DONE, if wr then s\<lparr>vm_pat := edx_eax s\<rparr> else set_edx_eax (vm_pat s) s)"

definition uu_vmx_vmexit_resolve_msr_dbgctl :: "bool \<Rightarrow> 'a exit_vm_scheme \<Rightarrow> vmerr \<times> 'a exit_vm_scheme" where
  "uu_vmx_vmexit_resolve_msr_dbgctl wr s =
     (VM_DONE, if wr then vm_reg_put R_DBGCTL (edx_eax s) s else set_edx_eax (vm_reg_get R_DBGCTL s) s)"

definition uu_vmx_vmexit_resolve_msr_perf :: "bool \<Rightarrow> 'a exit_vm_scheme \<Rightarrow> vmerr \<times> 'a exit_vm_scheme" where
  "uu_vmx_vmexit_resolve_msr_perf wr s =
     (VM_DONE, if wr then s\<lparr>vm_perf := edx_eax s\<rparr> else set_edx_eax (vm_perf s) s)"

definition uu_vmx_vmexit_resolve_msr :: "'a exit_env \<Rightarrow> bool \<Rightarrow> 'a exit_vm_scheme \<Rightarrow> (vmerr \<times> 'a exit_vm_scheme) option" where
  "uu_vmx_vmexit_resolve_msr env wr s =
     (let r = gpr_low GPR64_RCX s
      in if r = IA32_MTRR_DEF_TYPE then uu_vmx_vmexit_resolve_msr_mtrr_def wr s
         else if r = IA32_EFER_MSR then Some (uu_vmx_vmexit_resolve_msr_efer wr s)
         else if \<not> cfg_msr_proxy env then Some (VM_NATIVE, s)
         else if r = IA32_SYSENTER_CS_MSR then Some (uu_vmx_vmexit_resolve_msr_sysenter_cs wr s)
         else if r = IA32_SYSENTER_ESP_MSR then Some (uu_vmx_vmexit_resolve_msr_sysenter_esp wr s)
         else if r = IA32_SYSENTER_EIP_MSR then Some (uu_vmx_vmexit_resolve_msr_sysenter_eip wr s)
         else if r = IA32_PAT_MSR then Some (uu_vmx_vmexit_resolve_msr_pat wr s)
         else if r = IA32_DBG_CTL_MSR then Some (uu_vmx_vmexit_resolve_msr_dbgctl wr s)
         else if r = IA32_PERF_GLB_CTL_MSR then Some (uu_vmx_vmexit_resolve_msr_perf wr s)
         else Some (VM_NATIVE, s))"

definition uu_resolve_msr_rd :: "'a exit_env \<Rightarrow> 'a exit_vm_scheme \<Rightarrow> (vmerr \<times> 'a exit_vm_scheme) option" where
  "uu_resolve_msr_rd env s =
     Option.bind (uu_vmx_vmexit_resolve_msr env False s) (\<lambda>(rc, s).
       if rc = VM_NATIVE
       then (let s = emulate_native s
             in map_option (\<lambda>(v, m). (VM_DONE, set_edx_eax v (s\<lparr>hw_msr := m\<rparr>)))
                  (hw_rdmsr env (gpr_low GPR64_RCX s) (hw_msr s)))
       else Some (rc, s))"

definition uu_resolve_msr_wr :: "'a exit_env \<Rightarrow> 'a exit_vm_scheme \<Rightarrow> (vmerr \<times> 'a exit_vm_scheme) option" where
  "uu_resolve_msr_wr env s =
     Option.bind (uu_vmx_vmexit_resolve_msr env True s) (\<lambda>(rc, s).
       if rc = VM_NATIVE
       then (let s = emulate_native s
             in map_option (\<lambda>m. (VM_DONE, s\<lparr>hw_msr := m\<rparr>))
                  (hw_wrmsr env (gpr_low GPR64_RCX s) (edx_eax s) (hw_msr s)))
       else Some (rc, s))"

definition resolve_msr :: "'a exit_env \<Rightarrow> bool \<Rightarrow> 'a exit_vm_scheme \<Rightarrow> (vmerr \<times> 'a exit_vm_scheme) option" where
  "resolve_msr env wr s =
     map_option (\<lambda>(rc, s). insn_done rc MSR_INSN_SZ s) (if wr then uu_resolve_msr_wr env s else uu_resolve_msr_rd env s)"

definition vmx_vmexit_resolve_msr_rd :: "'a exit_env \<Rightarrow> 'a exit_vm_scheme \<Rightarrow> (vmerr \<times> 'a exit_vm_scheme) option" where
  "vmx_vmexit_resolve_msr_rd env s = resolve_msr env False s"

definition vmx_vmexit_resolve_msr_wr :: "'a exit_env \<Rightarrow> 'a exit_vm_scheme \<Rightarrow> (vmerr \<times> 'a exit_vm_scheme) option" where
  "vmx_vmexit_resolve_msr_wr env s = resolve_msr env True s"

section \<open>Processor identification\<close>

definition CPUID_FEATURE_INFO :: u32 where "CPUID_FEATURE_INFO = 1"
definition CPUID_MAX_EXT :: u32 where "CPUID_MAX_EXT = 0x80000000"
definition CPUID_BASIC_INFO :: u32 where "CPUID_BASIC_INFO = 0"
definition CPUID_PROC_SERIAL :: u32 where "CPUID_PROC_SERIAL = 3"
definition CPUID_BRAND_STR1 :: u32 where "CPUID_BRAND_STR1 = 0x80000002"
definition CPUID_BRAND_STR2 :: u32 where "CPUID_BRAND_STR2 = 0x80000003"
definition CPUID_BRAND_STR3 :: u32 where "CPUID_BRAND_STR3 = 0x80000004"
definition CPUID_MSHYPERV_RANGE :: u32 where "CPUID_MSHYPERV_RANGE = 0x40000000"
definition CPUID_MSHYPERV_ID :: u32 where "CPUID_MSHYPERV_ID = 0x40000001"
definition CPUID_MSHYPERV_FEAT :: u32 where "CPUID_MSHYPERV_FEAT = 0x40000003"
definition CPUID_ECX_FEAT_VMX_BIT :: nat where "CPUID_ECX_FEAT_VMX_BIT = 5"
definition CPUID_ECX_FEAT_VMX :: u32 where "CPUID_ECX_FEAT_VMX = push_bit CPUID_ECX_FEAT_VMX_BIT 1"
definition CPUID_INSN_SZ :: u64 where "CPUID_INSN_SZ = 2"

definition set_abcd :: "u32 \<Rightarrow> u32 \<Rightarrow> u32 \<Rightarrow> u32 \<Rightarrow> 'a dbg_vm_scheme \<Rightarrow> 'a dbg_vm_scheme" where
  "set_abcd a b c d s = set_gpr_low GPR64_RDX d (set_gpr_low GPR64_RCX c (set_gpr_low GPR64_RBX b (set_gpr_low GPR64_RAX a s)))"

definition uu_resolve_cpuid_native :: "'a exit_env \<Rightarrow> 'a exit_vm_scheme \<Rightarrow> 'a exit_vm_scheme" where
  "uu_resolve_cpuid_native env s =
     (let s = emulate_native s; (a, b, c, d) = hw_cpuid env (gpr_low GPR64_RAX s) (gpr_low GPR64_RCX s)
      in set_abcd a b c d s)"

definition uu_resolve_cpuid_mshyperv :: "u32 \<Rightarrow> 'a exit_vm_scheme \<Rightarrow> vmerr \<times> 'a exit_vm_scheme" where
  "uu_resolve_cpuid_mshyperv idx s =
     (if idx \<in> {CPUID_MSHYPERV_RANGE, CPUID_MSHYPERV_ID, CPUID_MSHYPERV_FEAT}
      then (VM_DONE, set_abcd 0 0 0 0 s) else (VM_IGNORE, s))"

text \<open>The seven functions of the emulated processor, as the values they store.\<close>

definition cpuid_qemu_leaf :: "u32 \<Rightarrow> (u32 \<times> u32 \<times> u32 \<times> u32) option" where
  "cpuid_qemu_leaf idx =
     (if idx = CPUID_MAX_EXT then Some (0x8000000a, 0x68747541, 0x444d4163, 0x69746e65)
      else if idx = CPUID_BASIC_INFO then Some (0x4, 0x68747541, 0x444d4163, 0x69746e65)
      else if idx = CPUID_FEATURE_INFO then Some (0x663, 0x800, 0x80802001, 0x078bfbf9)
      else if idx = CPUID_PROC_SERIAL then Some (0, 0, 0, 0)
      else if idx = CPUID_BRAND_STR1 then Some (0x554d4551, 0x72695620, 0x6c617574, 0x55504320)
      else if idx = CPUID_BRAND_STR2 then Some (0x72657620, 0x6e6f6973, 0x302e3220, 0x302e)
      else if idx = CPUID_BRAND_STR3 then Some (0, 0, 0, 0)
      else None)"

definition uu_resolve_cpuid_qemu :: "'a exit_env \<Rightarrow> u32 \<Rightarrow> 'a exit_vm_scheme \<Rightarrow> vmerr \<times> 'a exit_vm_scheme" where
  "uu_resolve_cpuid_qemu env idx s =
     (if cfg_cpuid_qemu env = CPUID_QEMU_ALL \<or> cfg_cpuid_qemu env = CPUID_QEMU_USER \<and> vm_cpl s = 3
      then (case cpuid_qemu_leaf idx of
              Some (a, b, c, d) \<Rightarrow> (VM_DONE, set_abcd a b c d s)
            | None \<Rightarrow> (VM_IGNORE, s))
      else (VM_IGNORE, s))"

definition uu_vmx_vmexit_resolve_cpuid_feature :: "'a exit_vm_scheme \<Rightarrow> 'a exit_vm_scheme" where
  "uu_vmx_vmexit_resolve_cpuid_feature s =
     set_gpr_low GPR64_RCX (gpr_low GPR64_RCX s AND NOT CPUID_ECX_FEAT_VMX) s"

definition uu_vmx_vmexit_resolve_cpuid :: "u32 \<Rightarrow> 'a exit_vm_scheme \<Rightarrow> 'a exit_vm_scheme" where
  "uu_vmx_vmexit_resolve_cpuid idx s =
     (if idx = CPUID_FEATURE_INFO then uu_vmx_vmexit_resolve_cpuid_feature s else s)"

definition uu_resolve_cpuid :: "'a exit_env \<Rightarrow> 'a exit_vm_scheme \<Rightarrow> vmerr \<times> 'a exit_vm_scheme" where
  "uu_resolve_cpuid env s =
     (let idx = gpr_low GPR64_RAX s;
          (rc, s) = (if cfg_cpuid_qemu env = CPUID_QEMU_NONE then (VM_IGNORE, s) else uu_resolve_cpuid_qemu env idx s);
          s = (if rc = VM_DONE then s
               else (let (rc, s) = uu_resolve_cpuid_mshyperv idx s
                     in if rc = VM_DONE then s
                        else uu_vmx_vmexit_resolve_cpuid idx (uu_resolve_cpuid_native env s)))
      in (VM_DONE, snd (ctrl_evt_cpuid idx s)))"

definition resolve_cpuid :: "'a exit_env \<Rightarrow> 'a exit_vm_scheme \<Rightarrow> vmerr \<times> 'a exit_vm_scheme" where
  "resolve_cpuid env s = (let (rc, s) = uu_resolve_cpuid env s in insn_done rc CPUID_INSN_SZ s)"

section \<open>Descriptor tables\<close>

record dt_reg =
  dt_limit :: u16
  dt_base :: u64

definition dt_bytes :: "dt_reg \<Rightarrow> bytes" where
  "dt_bytes d = le_bytes 2 (dt_limit d) @ le_bytes 8 (dt_base d)"

definition dt_of_bytes :: "bytes \<Rightarrow> dt_reg" where
  "dt_of_bytes bs = \<lparr>dt_limit = of_le_bytes (take 2 bs), dt_base = of_le_bytes (take 8 (drop 2 bs))\<rparr>"

definition uu_vmx_vmexit_lgdt :: "dt_reg \<Rightarrow> 'a gdb_state_scheme \<Rightarrow> vmerr \<times> 'a gdb_state_scheme" where
  "uu_vmx_vmexit_lgdt d s =
     (if vm_cpl s \<noteq> 0 then (VM_FAIL, s)
      else (let s = vm_reg_put (R_BASE GDTR) (dt_base d) s
            in (VM_DONE, vm_reg_put (R_LIMIT GDTR) (set_field 0 16 (ucast (dt_limit d)) (vm_reg_get (R_LIMIT GDTR) s)) s)))"

definition uu_vmx_vmexit_lidt :: "dt_reg \<Rightarrow> 'a cpu_vm_scheme \<Rightarrow> vmerr \<times> 'a cpu_vm_scheme" where
  "uu_vmx_vmexit_lidt d s =
     (if vm_cpl s \<noteq> 0 then (VM_FAIL, s)
      else (let s = (if idt_limit_saved s \<noteq> dt_limit d then s\<lparr>idt_limit_saved := dt_limit d\<rparr> else s)
            in (VM_DONE, vm_reg_put (R_BASE IDTR) (dt_base d) s)))"

definition uu_vmx_vmexit_sgdt :: "'a gdb_state_scheme \<Rightarrow> dt_reg" where
  "uu_vmx_vmexit_sgdt s = \<lparr>dt_limit = ucast (vm_reg_get (R_LIMIT GDTR) s), dt_base = vm_reg_get (R_BASE GDTR) s\<rparr>"

definition uu_vmx_vmexit_sidt :: "'a cpu_vm_scheme \<Rightarrow> dt_reg" where
  "uu_vmx_vmexit_sidt s = \<lparr>dt_limit = idt_limit_saved s, dt_base = vm_reg_get (R_BASE IDTR) s\<rparr>"

text \<open>The address of the operand. A shift by sixty-four, which the code would do for an address size
  of sixty-four bits, cannot occur in real mode.\<close>

definition dt_seg_base :: "u32 \<Rightarrow> 'a gdb_state_scheme \<Rightarrow> u64" where
  "dt_seg_base n s =
     (if n < 6 then vm_reg_get (R_BASE ([ES, CS, SS, DS, FS, GS] ! unat n)) s else 0)"

definition dt_operand :: "'a io_vm_scheme \<Rightarrow> offset_t" where
  "dt_operand s =
     (let i = exit_insn_info s; msk = push_bit (16 * 2 ^ unat (get_field 7 3 i)) 1 - 1 :: u64;
          a = dt_seg_base (get_field 15 3 i) s;
          a = (if \<not> bit i 27 then a + (get_gpr (GPR64_RAX - unat (get_field 23 4 i)) s AND msk) else a);
          a = (if \<not> bit i 22
               then a + (get_gpr (GPR64_RAX - unat (get_field 18 4 i)) s AND msk) * push_bit (unat (get_field 0 2 i)) 1
               else a)
      in a + (exit_qual s AND msk))"

definition TYPE_SGDT :: u32 where "TYPE_SGDT = 0"
definition TYPE_LGDT :: u32 where "TYPE_LGDT = 2"

definition vmx_vmexit_resolve_dt :: "'a exit_env \<Rightarrow> 'a exit_vm_scheme \<Rightarrow> (vmerr \<times> 'a exit_vm_scheme) option" where
  "vmx_vmexit_resolve_dt env s =
     (if \<not> uu_rmode s then Some (VM_FAIL, s)
      else (let i = exit_insn_info s; addr = dt_operand s; mode = cpu_addr_sz s;
                op_msk = (if mode = 64 then - 1 else if \<not> bit i 11 then push_bit 24 1 - 1 else push_bit 32 1 - 1) :: u64;
                sz = (if mode = 64 then 10 else 6) :: u64; type = get_field 28 2 i
            in if type < TYPE_LGDT
               then (let d = (if type = TYPE_SGDT then uu_vmx_vmexit_sgdt s else uu_vmx_vmexit_sidt s);
                         d = d\<lparr>dt_base := dt_base d AND op_msk\<rparr>
                     in map_option (\<lambda>(rc, s). if rc \<noteq> VM_DONE then (rc, s) else emulate_done rc (exit_insn_len s) s)
                          (vm_write_mem addr (dt_bytes d) sz s))
               else map_option (\<lambda>(rc, data, s).
                      if rc \<noteq> VM_DONE then (rc, s)
                      else (let d = dt_of_bytes data; d = d\<lparr>dt_base := dt_base d AND op_msk\<rparr>;
                                (rc, s) = (if type = TYPE_LGDT then uu_vmx_vmexit_lgdt d s else uu_vmx_vmexit_lidt d s)
                            in emulate_done rc (exit_insn_len s) s))
                      (vm_read_mem addr (le_bytes 10 (env_stack env)) sz s)))"

section \<open>Exceptions and faults\<close>

definition VMCS_EVT_INFO_TYPE_SW_INT :: u8 where "VMCS_EVT_INFO_TYPE_SW_INT = 4"

definition vmx_vmexit_resolve_rmode_gp :: "'a exit_env \<Rightarrow> 'a exit_vm_scheme \<Rightarrow> vmerr \<times> 'a exit_vm_scheme" where
  "vmx_vmexit_resolve_rmode_gp env s =
     (if \<not> evt_v (idt_info s) then (VM_FAIL, s)
      else if evt_type (idt_info s) = VMCS_EVT_INFO_TYPE_SW_INT then emulate (insn_ops_rm (env_ud env) (env_stack env)) s
      else if evt_type (idt_info s) = VMCS_EVT_INFO_TYPE_HW_INT
      then emulate_hard_interrupt (env_stack env) (evt_vector (idt_info s)) s
      else (VM_FAIL, s))"

text \<open>A machine check is only reported.\<close>

definition vmx_vmexit_resolve_excp :: "'a exit_env \<Rightarrow> 'a exit_vm_scheme \<Rightarrow> (vmerr \<times> 'a exit_vm_scheme) option" where
  "vmx_vmexit_resolve_excp env s =
     (if exit_vector s = GP_EXCP \<and> uu_rmode s then Some (vmx_vmexit_resolve_rmode_gp env s)
      else (let s = (if exit_vector s = of_nat DB_EXCP
                     then s\<lparr>vm_dr6 := set_field 0 16 (ucast (exit_qual s)) (vm_dr6 s)\<rparr> else s)
            in resolve_exception (insn_ops_rm (env_ud env) (env_stack env)) s))"

definition vmx_vmexit_resolve_ept_viol :: "'a exit_vm_scheme \<Rightarrow> vmerr \<times> 'a exit_vm_scheme" where
  "vmx_vmexit_resolve_ept_viol s =
     (let s = s\<lparr>npf_err := exit_qual s, npf_paddr := exit_physical s\<rparr>;
          s = s\<lparr>npf_vaddr := (if bit (npf_err s) 7 then exit_linear s else vm_rip s AND 0xffffffff)\<rparr>;
          (rc, s) = ctrl_evt_npf s
      in if rc = VM_IGNORE then (VM_FAIL, s) else (VM_DONE, s))"

definition vmx_vmexit_resolve_dr_access :: "'a io_vm_scheme \<Rightarrow> vmerr \<times> 'a io_vm_scheme" where
  "vmx_vmexit_resolve_dr_access s =
     (let q = exit_qual s; gpr = GPR64_RAX - unat (get_field 8 4 q);
          (rc, s) = uu_resolve_dr (\<not> bit q 4) (unat (get_field 0 3 q)) gpr s
      in emulate_done rc (exit_insn_len s) s)"

section \<open>Instructions\<close>

definition HYPERCALL_INSN_SZ :: u64 where "HYPERCALL_INSN_SZ = 3"
definition WBINVD_INSN_SZ :: u64 where "WBINVD_INSN_SZ = 2"
definition XSETBV_INSN_SZ :: u64 where "XSETBV_INSN_SZ = 3"

definition resolve_hypercall :: "'a io_vm_scheme \<Rightarrow> vmerr \<times> 'a io_vm_scheme" where
  "resolve_hypercall s =
     (let (rc, s) = ctrl_evt_hypercall s
      in if rc = VM_IGNORE then (VM_DONE, uu_vmx_vmexit_inject_exception UD_EXCP 0 0 s)
         else insn_done VM_DONE HYPERCALL_INSN_SZ s)"

definition resolve_wbinvd :: "'a io_vm_scheme \<Rightarrow> vmerr \<times> 'a io_vm_scheme" where
  "resolve_wbinvd s = insn_done VM_DONE WBINVD_INSN_SZ (emulate_native s)"

definition resolve_xsetbv :: "'a exit_vm_scheme \<Rightarrow> vmerr \<times> 'a exit_vm_scheme" where
  "resolve_xsetbv s =
     (let s = emulate_native s; xcr0 = edx_eax s
      in if gpr_low GPR64_RCX s \<noteq> 0 \<or> \<not> bit xcr0 0 \<or> bit xcr0 2 \<and> \<not> bit xcr0 1 then inject_gp s
         else insn_done VM_DONE XSETBV_INSN_SZ (s\<lparr>hw_xcr0 := xcr0\<rparr>))"

definition resolve_default :: "'a exit_vm_scheme \<Rightarrow> (vmerr \<times> 'a exit_vm_scheme) option" where
  "resolve_default s = Some (VM_FAIL, s)"

section \<open>Dispatch\<close>

definition vmx_vmexit_resolve_preempt :: "'a exit_vm_scheme \<Rightarrow> (vmerr \<times> 'a exit_vm_scheme) option" where
  "vmx_vmexit_resolve_preempt s = Some (VM_FAIL, s)"

definition vmx_vmexit_resolvers :: "'a exit_env \<Rightarrow> ('a exit_vm_scheme \<Rightarrow> (vmerr \<times> 'a exit_vm_scheme) option) list" where
  "vmx_vmexit_resolvers env =
     [vmx_vmexit_resolve_excp env,
      vmx_vmexit_resolve_intr,
      resolve_default, resolve_default, resolve_default, resolve_default, resolve_default,
      (\<lambda>s. Some (vmx_vmexit_resolve_iwe s)),
      resolve_default, resolve_default,
      (\<lambda>s. Some (resolve_cpuid env s)),
      resolve_default, resolve_default, resolve_default, resolve_default, resolve_default, resolve_default, resolve_default,
      (\<lambda>s. Some (resolve_hypercall s)),
      resolve_default, resolve_default, resolve_default, resolve_default, resolve_default, resolve_default, resolve_default,
      resolve_default, resolve_default,
      (\<lambda>s. Some (vmx_vmexit_resolve_cr_access s)),
      (\<lambda>s. Some (vmx_vmexit_resolve_dr_access s)),
      vmx_vmexit_resolve_io (env_io env),
      vmx_vmexit_resolve_msr_rd env,
      vmx_vmexit_resolve_msr_wr env,
      resolve_default, resolve_default, resolve_default, resolve_default, resolve_default, resolve_default, resolve_default,
      resolve_default, resolve_default, resolve_default, resolve_default, resolve_default, resolve_default,
      vmx_vmexit_resolve_dt env,
      resolve_default,
      (\<lambda>s. Some (vmx_vmexit_resolve_ept_viol s)),
      resolve_default, resolve_default, resolve_default,
      vmx_vmexit_resolve_preempt,
      resolve_default,
      (\<lambda>s. Some (resolve_wbinvd s)),
      (\<lambda>s. Some (resolve_xsetbv s))]"

definition vmx_vmexit_resolve_dispatcher :: "'a exit_env \<Rightarrow> 'a exit_vm_scheme \<Rightarrow> (vmerr \<times> 'a exit_vm_scheme) option" where
  "vmx_vmexit_resolve_dispatcher env s =
     (if unat (exit_reason s) \<le> 55 then (vmx_vmexit_resolvers env ! unat (exit_reason s)) s else Some (VM_FAIL, s))"

section \<open>The event in delivery\<close>

definition uu_vmx_vmexit_idt_deliver_rmode :: "'a exit_vm_scheme \<Rightarrow> vmerr \<times> 'a exit_vm_scheme" where
  "uu_vmx_vmexit_idt_deliver_rmode s =
     (if evt_type (idt_info s) = VMCS_EVT_INFO_TYPE_SW_INT \<or> evt_type (idt_info s) = VMCS_EVT_INFO_TYPE_HW_INT
      then (VM_DONE, s) else (VM_FAIL, s))"

definition uu_vmx_vmexit_idt_deliver_pmode :: "'a exit_vm_scheme \<Rightarrow> vmerr \<times> 'a exit_vm_scheme" where
  "uu_vmx_vmexit_idt_deliver_pmode s =
     (if \<not> evt_v (vm_evt s)
      then (let s = (if evt_type (idt_info s) = VMCS_EVT_INFO_TYPE_SW_INT then s\<lparr>entry_insn_len := 2\<rparr> else s);
                s = (if evt_dec (idt_info s) then s\<lparr>vm_err_code := idt_err s\<rparr> else s)
            in (VM_DONE, s\<lparr>vm_evt := idt_info s\<rparr>))
      else (VM_FAIL, s))"

definition vmx_vmexit_idt_deliver :: "'a exit_vm_scheme \<Rightarrow> vmerr \<times> 'a exit_vm_scheme" where
  "vmx_vmexit_idt_deliver s =
     (if \<not> evt_v (idt_info s)
      then (VM_DONE, if exit_int_nmi s \<and> exit_vector s \<noteq> DF_EXCP then s\<lparr>int_nmi := True\<rparr> else s)
      else if uu_rmode s then uu_vmx_vmexit_idt_deliver_rmode s
      else uu_vmx_vmexit_idt_deliver_pmode s)"

section \<open>Debug exceptions left pending\<close>

definition VMX_VMCS_GUEST_ACTIVITY_STATE_HALT :: u32 where "VMX_VMCS_GUEST_ACTIVITY_STATE_HALT = 1"

definition uu_vmx_vmexit_on_insn :: "'a exit_vm_scheme \<Rightarrow> bool" where
  "uu_vmx_vmexit_on_insn s =
     (let r = exit_reason s in \<not> (r = 48 \<or> r = 49) \<and> \<not> (r \<le> 8 \<or> r = 41))"

definition uu_vmexit_on_insn :: "'a exit_vm_scheme \<Rightarrow> bool" where
  "uu_vmexit_on_insn s = (uu_vmx_vmexit_on_insn s \<or> emu_sts s = EMU_STS_DONE)"

definition vmx_db_check_pending_stp :: "'a exit_vm_scheme \<Rightarrow> vmerr \<times> 'a exit_vm_scheme" where
  "vmx_db_check_pending_stp s = (if \<not> rflags_tf s then (VM_IGNORE, s) else (VM_DONE, s\<lparr>rflags_tf := False\<rparr>))"

definition vmx_db_check_pending_any :: "'a exit_vm_scheme \<Rightarrow> vmerr \<times> 'a exit_vm_scheme" where
  "vmx_db_check_pending_any s =
     (if \<not> uu_vmexit_on_insn s then (VM_IGNORE, s)
      else (let (rc, s) = vmx_db_check_pending_stp s
            in (VM_DONE, if rc = VM_DONE then s\<lparr>pend_bs := True\<rparr> else s)))"

definition vmx_db_check_pending :: "'a exit_vm_scheme \<Rightarrow> 'a exit_vm_scheme" where
  "vmx_db_check_pending s = snd (vmx_db_check_pending_any s)"

definition vmx_check_dbgctl :: "'a exit_vm_scheme \<Rightarrow> 'a exit_vm_scheme" where
  "vmx_check_dbgctl s =
     (if \<not> int_sti s \<and> \<not> int_mss s \<and> vm_activity s \<noteq> VMX_VMCS_GUEST_ACTIVITY_STATE_HALT then s
      else if rflags_tf s \<and> \<not> bit (vm_reg_get R_DBGCTL s) 1 then s\<lparr>pend_bs := True\<rparr>
      else if pend_bs s then s\<lparr>pend_bs := False\<rparr>
      else s)"

section \<open>The handler\<close>

definition sio_check_com1 :: "pio \<Rightarrow> 'a io_vm_scheme \<Rightarrow> 'a io_vm_scheme" where
  "sio_check_com1 pio s =
     (let s = s\<lparr>pio_log := pio_log s @ [PioOut SIO_INDEX [0]]\<rparr>; com = ucast (pio (pio_log s) SIO_DATA 1) :: u8;
          s = s\<lparr>pio_log := pio_log s @ [PioIn SIO_DATA [com]]\<rparr>
      in if com AND 2 = 0 then s\<lparr>pio_log := pio_log s @ [PioOut SIO_DATA [com OR 2]]\<rparr> else s)"

text \<open>The copy of the stack pointer between the control structure and the general registers has no
  effect here, where it is one field. A failure shows the state and then serves the debugger forever.\<close>

definition vmx_vmexit_pre_hdl :: "'a exit_env \<Rightarrow> 'a exit_vm_scheme \<Rightarrow> 'a exit_vm_scheme" where
  "vmx_vmexit_pre_hdl env s = sio_check_com1 (env_pio (env_io env)) s"

definition vmx_vmexit_post_hdl :: "'a exit_env \<Rightarrow> 'a exit_vm_scheme \<Rightarrow> 'a exit_vm_scheme option" where
  "vmx_vmexit_post_hdl env s =
     (case controller (env_gdb env) (env_own env) (vmx_db_check_pending s) of
        None \<Rightarrow> None
      | Some (rc, s) \<Rightarrow>
          if rc AND (VM_FAIL OR VM_FAULT) \<noteq> 0 then None
          else (let s = vmx_check_dbgctl s; s = s\<lparr>emu_sts := EMU_STS_AVL\<rparr>
                in Some (s\<lparr>vmexit_cnt := vmexit_cnt s + 1\<rparr>)))"

definition vmx_vmexit_handler :: "'a exit_env \<Rightarrow> 'a exit_vm_scheme \<Rightarrow> 'a exit_vm_scheme option" where
  "vmx_vmexit_handler env s =
     (case vmx_vmexit_resolve_dispatcher env (vmx_vmexit_pre_hdl env s) of
        None \<Rightarrow> None
      | Some (rc, s) \<Rightarrow>
          if rc = VM_FAIL then None
          else (let (rc, s) = vmx_vmexit_idt_deliver s
                in if rc = 0 then None else vmx_vmexit_post_hdl env s))"

section \<open>Helper lemmas\<close>

lemma gpr_low_set [simp]:
  assumes "length (vm_gpr s) = 16" and "r < 16" and "q < 16"
  shows "gpr_low q (set_gpr_low r v s) = (if q = r then v else gpr_low q s)"
proof -
  have low: "(ucast (get_field 0 32 (set_field 0 32 (ucast v) x)) :: u32) = v" for x :: u64
    by (rule bit_eqI) (auto simp: bit_get_field bit_set_field bit_simps)
  show ?thesis using assms by (auto simp: gpr_low_def set_gpr_low_def gpr_get_def gpr_put_def get_gpr_def set_gpr_def low)
qed

lemma set_gpr_low_length [simp]: "length (vm_gpr (set_gpr_low r v s)) = length (vm_gpr s)"
  by (simp add: set_gpr_low_def gpr_put_def set_gpr_def)

lemma gpr_low_other [simp]:
  "gpr_low r (ctrl_evt_setup t h a s) = gpr_low r s" "gpr_low r (s'\<lparr>emu_sts := e\<rparr>) = gpr_low r s'"
  "gpr_low r (u\<lparr>hw_msr := m\<rparr>) = gpr_low r u"
  by (simp_all add: gpr_low_def gpr_get_def get_gpr_def ctrl_evt_setup_def)

lemma gpr_low_evt_cpuid [simp]: "gpr_low r (snd (ctrl_evt_cpuid i s)) = gpr_low r s"
  by (simp add: ctrl_evt_cpuid_def)

lemma vm_update_rip_gpr [simp]: "vm_gpr (vm_update_rip n s) = vm_gpr s" "vm_rsp (vm_update_rip n s) = vm_rsp s"
  by (simp_all add: vm_update_rip_def Let_def)

lemma gpr_low_insn_done [simp]: "gpr_low r (snd (insn_done rc n s)) = gpr_low r s"
  by (simp add: insn_done_def emulate_done_def gpr_low_def gpr_get_def get_gpr_def)

lemma insn_done_rc [simp]: "fst (insn_done rc n s) = rc"
  by (simp add: insn_done_def emulate_done_def)

lemmas gpr_numbers = GPR64_RAX_def GPR64_RBX_def GPR64_RCX_def GPR64_RDX_def

section \<open>Model specific registers as a file of registers\<close>

lemma edx_eax_set [simp]: "length (vm_gpr s) = 16 \<Longrightarrow> edx_eax (set_edx_eax v s) = v"
proof -
  assume "length (vm_gpr s) = 16"
  moreover have "ucast (ucast v :: u32) OR push_bit 32 (ucast (ucast (drop_bit 32 v) :: u32)) = v"
    by (rule bit_eqI) (auto simp: bit_simps)
  ultimately show ?thesis by (simp add: edx_eax_def set_edx_eax_def gpr_numbers)
qed

lemma edx_eax_insn_done [simp]: "edx_eax (snd (insn_done rc n s)) = edx_eax s"
  by (simp add: edx_eax_def)

text \<open>The value of a register that the vmm keeps, as the guest sees it. For a register that it
  leaves to the machine this is what the machine keeps, which need not be what it answers.\<close>

definition msr_value :: "'a exit_env \<Rightarrow> u32 \<Rightarrow> 'a exit_vm_scheme \<Rightarrow> u64" where
  "msr_value env r s =
     (if r = IA32_MTRR_DEF_TYPE then mtrr_def (ept_st s)
      else if r = IA32_EFER_MSR then vm_reg_get R_EFER s
      else if \<not> cfg_msr_proxy env then hw_msr s r
      else if r = IA32_SYSENTER_CS_MSR then sysenter_cs s
      else if r = IA32_SYSENTER_ESP_MSR then sysenter_esp s
      else if r = IA32_SYSENTER_EIP_MSR then sysenter_eip s
      else if r = IA32_PAT_MSR then vm_pat s
      else if r = IA32_DBG_CTL_MSR then vm_reg_get R_DBGCTL s
      else if r = IA32_PERF_GLB_CTL_MSR then vm_perf s
      else hw_msr s r)"

lemmas msr_nums = IA32_MTRR_DEF_TYPE_def IA32_EFER_MSR_def IA32_SYSENTER_CS_MSR_def IA32_SYSENTER_ESP_MSR_def IA32_SYSENTER_EIP_MSR_def
  IA32_PAT_MSR_def IA32_DBG_CTL_MSR_def IA32_PERF_GLB_CTL_MSR_def

lemma vm_update_rip_eq: "vm_update_rip n s = s\<lparr>vm_rip := vm_rip (vm_update_rip n s)\<rparr>"
  by (simp add: vm_update_rip_def Let_def)

lemma insn_done_frame: "\<exists>r e a b. snd (insn_done rc n s) = s\<lparr>vm_rip := r, emu_sts := e, int_sti := a, int_mss := b\<rparr>"
proof -
  let ?u = "vm_update_rip (max (exit_insn_len s) n) s"
  have "snd (insn_done rc n s) = s\<lparr>vm_rip := (if rc = VM_DONE then vm_rip ?u else vm_rip s),
      emu_sts := (if rc = VM_DONE \<or> rc = VM_DONE_LET_RIP then EMU_STS_DONE else emu_sts s),
      int_sti := (\<not> (rc = VM_DONE \<or> rc = VM_DONE_LET_RIP) \<and> int_sti s),
      int_mss := (\<not> (rc = VM_DONE \<or> rc = VM_DONE_LET_RIP) \<and> int_mss s)\<rparr>"
    unfolding insn_done_def emulate_done_def by (subst vm_update_rip_eq) simp
  then show ?thesis by (intro exI)
qed

lemma msr_value_frame: "msr_value env q (s\<lparr>vm_rip := r, emu_sts := e, int_sti := a, int_mss := b\<rparr>) = msr_value env q s"
  by (simp add: msr_value_def)

lemma msr_value_insn_done [simp]: "msr_value env r (snd (insn_done rc n s)) = msr_value env r s"
  using insn_done_frame [of rc n s] msr_value_frame by metis

lemma msr_value_gpr [simp]: "msr_value env r (s\<lparr>vm_gpr := g\<rparr>) = msr_value env r s" "msr_value env r (s\<lparr>emu_sts := e\<rparr>) = msr_value env r s"
  by (simp_all add: msr_value_def)

definition msr_word :: "'a exit_env \<Rightarrow> u32 \<Rightarrow> bool" where
  "msr_word env r \<longleftrightarrow> cfg_msr_proxy env \<and> r = IA32_SYSENTER_CS_MSR"

text \<open>The registers that the vmm leaves to the machine.\<close>

definition msr_native :: "'a exit_env \<Rightarrow> u32 \<Rightarrow> bool" where
  "msr_native env r \<longleftrightarrow> r \<noteq> IA32_MTRR_DEF_TYPE \<and> r \<noteq> IA32_EFER_MSR \<and> (cfg_msr_proxy env \<longrightarrow>
     r \<notin> {IA32_SYSENTER_CS_MSR, IA32_SYSENTER_ESP_MSR, IA32_SYSENTER_EIP_MSR, IA32_PAT_MSR, IA32_DBG_CTL_MSR, IA32_PERF_GLB_CTL_MSR})"

lemma msr_arch_rd:
  "\<not> msr_word env r \<Longrightarrow> gpr_low GPR64_RCX s = r \<Longrightarrow> uu_vmx_vmexit_resolve_msr env False s =
     Some (if msr_native env r then (VM_NATIVE, s) else (VM_DONE, set_edx_eax (msr_value env r s) s))"
  by (auto simp: uu_vmx_vmexit_resolve_msr_def msr_value_def msr_word_def msr_native_def msr_nums
      uu_vmx_vmexit_resolve_msr_mtrr_def_def uu_vmx_vmexit_resolve_msr_efer_def uu_vmx_vmexit_resolve_msr_sysenter_esp_def
      uu_vmx_vmexit_resolve_msr_sysenter_eip_def uu_vmx_vmexit_resolve_msr_pat_def uu_vmx_vmexit_resolve_msr_dbgctl_def
      uu_vmx_vmexit_resolve_msr_perf_def simp del: vm_reg_get.simps)

lemma msr_arch_native:
  "msr_native env (gpr_low GPR64_RCX s) \<Longrightarrow> uu_vmx_vmexit_resolve_msr env wr s = Some (VM_NATIVE, s)"
  by (cases "cfg_msr_proxy env") (simp_all add: uu_vmx_vmexit_resolve_msr_def msr_native_def Let_def)

lemma msr_arch_rd_word:
  "msr_word env (gpr_low GPR64_RCX s) \<Longrightarrow> uu_vmx_vmexit_resolve_msr env False s =
     Some (VM_DONE, set_gpr_low GPR64_RAX (ucast (msr_value env (gpr_low GPR64_RCX s) s)) s)"
  by (simp add: uu_vmx_vmexit_resolve_msr_def msr_value_def msr_word_def msr_nums uu_vmx_vmexit_resolve_msr_sysenter_cs_def)

text \<open>The value that a write leaves in a register of the vmm: \<^verbatim>\<open>EFER\<close> loses its reserved bits and
  long mode is not active without being enabled; the system call segment has no upper half.\<close>

definition msr_stored :: "'a exit_env \<Rightarrow> u32 \<Rightarrow> u64 \<Rightarrow> u64" where
  "msr_stored env r v =
     (if r = IA32_EFER_MSR then (if bit v 8 then v AND EFER_MASK else put_flag 10 False (v AND EFER_MASK))
      else if msr_word env r then take_bit 32 v else v)"

lemma msr_efer_wr:
  fixes s :: "'a exit_vm_scheme"
  assumes "uu_vmx_vmexit_resolve_msr_efer True s = (rc, s')"
  shows "rc = (if bit (edx_eax s XOR vm_reg_get R_EFER s) 8 \<and> cr0_pg s then VM_FAULT else VM_DONE)"
    and "vm_reg_get R_EFER s' = msr_stored env IA32_EFER_MSR (edx_eax s)"
    and "vm_reg_get R_DBGCTL s' = vm_reg_get R_DBGCTL s" "ept_st s' = ept_st s" "hw_msr s' = hw_msr s" "sysenter_cs s' = sysenter_cs s"
      "sysenter_esp s' = sysenter_esp s" "sysenter_eip s' = sysenter_eip s" "vm_pat s' = vm_pat s" "vm_perf s' = vm_perf s"
proof -
  define v where "v = edx_eax s AND EFER_MASK"
  have b: "bit v 8 = bit (edx_eax s) 8"
  proof -
    have "bit (0xd01 :: u64) 8" by code_simp
    then show ?thesis by (simp add: v_def EFER_MASK_def bit_and_iff)
  qed
  define e where "e = put_flag 8 (entry_ia32e s) (put_flag 10 (entry_ia32e s) v)"
  define t where "t = (vm_reg_put R_EFER v s)\<lparr>efer_hw := e\<rparr>"
  define u where "u = (if bit v 10 \<and> \<not> bit v 8 then vm_reg_put R_EFER (put_flag 10 False v) t else t)"
  have get: "vm_reg_get R_EFER (vm_reg_put R_EFER w x) = w" for w and x :: "'a exit_vm_scheme" by (rule vm_reg_get_put)
  have t: "vm_reg_get R_EFER t = v" using get by (simp add: t_def)
  have u: "vm_reg_get R_EFER u = msr_stored env IA32_EFER_MSR (edx_eax s)"
  proof -
    have off: "put_flag 10 False v = v" if "\<not> bit v 10" using that by (intro bit_eqI) (auto simp: bit_put_flag)
    show ?thesis unfolding u_def msr_stored_def b [symmetric] v_def [symmetric]
      by (cases "bit v 10"; cases "bit v 8") (simp_all only: off get t simp_thms if_True if_False)
  qed
  have upd: "bit (vm_reg_get R_EFER s XOR edx_eax s) 8 = bit (edx_eax s XOR vm_reg_get R_EFER s) 8" by (simp add: xor.commute)
  have s': "(rc, s') = (if bit (edx_eax s XOR vm_reg_get R_EFER s) 8 \<and> cr0_pg s then inject_gp u else (VM_DONE, u))"
  proof -
    define t1 where "t1 = (vm_reg_put R_EFER v s)\<lparr>efer_hw := v\<rparr>"
    have t1: "entry_ia32e t1 = entry_ia32e s" "efer_hw t1 = v" "t1\<lparr>efer_hw := e\<rparr> = t" by (simp_all add: t1_def t_def)
    have t2: "efer_lma t = bit v 10" "efer_lme t = bit v 8" "cr0_pg u = cr0_pg s"
      unfolding efer_lme_def t by (simp_all add: t_def u_def)
    show ?thesis
      using assms by (simp only: uu_vmx_vmexit_resolve_msr_efer_def Let_def if_True v_def [symmetric] get t1_def [symmetric]
          t1 e_def [symmetric] t2(1,2) t u_def [symmetric] t2(3) upd)
  qed
  have c: "vm_reg_get R_EFER s' = vm_reg_get R_EFER u" "vm_reg_get R_DBGCTL s' = vm_reg_get R_DBGCTL u" "ept_st s' = ept_st u" "hw_msr s' = hw_msr u"
    "sysenter_cs s' = sysenter_cs u" "sysenter_esp s' = sysenter_esp u" "sysenter_eip s' = sysenter_eip u" "vm_pat s' = vm_pat u" "vm_perf s' = vm_perf u"
    using s' by (auto simp: inject_gp_def uu_vmx_vmexit_inject_exception_def Let_def split: if_splits)
  have d: "vm_reg_get R_DBGCTL u = vm_reg_get R_DBGCTL s" "ept_st u = ept_st s" "hw_msr u = hw_msr s"
    "sysenter_cs u = sysenter_cs s" "sysenter_esp u = sysenter_esp s" "sysenter_eip u = sysenter_eip s" "vm_pat u = vm_pat s" "vm_perf u = vm_perf s"
    by (simp_all add: u_def t_def)
  show "rc = (if bit (edx_eax s XOR vm_reg_get R_EFER s) 8 \<and> cr0_pg s then VM_FAULT else VM_DONE)"
    using s' by (auto simp: inject_gp_def split: if_splits)
  show "vm_reg_get R_EFER s' = msr_stored env IA32_EFER_MSR (edx_eax s)" unfolding c u ..
  show "vm_reg_get R_DBGCTL s' = vm_reg_get R_DBGCTL s" "ept_st s' = ept_st s" "hw_msr s' = hw_msr s" "sysenter_cs s' = sysenter_cs s"
    "sysenter_esp s' = sysenter_esp s" "sysenter_eip s' = sysenter_eip s" "vm_pat s' = vm_pat s" "vm_perf s' = vm_perf s"
    unfolding c d by (rule refl)+
qed

text \<open>What a write by the guest to a register of the vmm does, and when it does not return.\<close>

definition msr_updated :: "'a exit_env \<Rightarrow> u32 \<Rightarrow> u64 \<Rightarrow> 'a exit_vm_scheme \<Rightarrow> 'a exit_vm_scheme \<Rightarrow> bool" where
  "msr_updated env r v s s' \<longleftrightarrow> hw_msr s' = hw_msr s
     \<and> (\<forall>q. \<not> msr_native env q \<longrightarrow> msr_value env q s' = (if q = r then msr_stored env r v else msr_value env q s))"

lemma msr_mtrr_wr:
  assumes "\<not> msr_native env r" and "r = IA32_MTRR_DEF_TYPE"
  shows "case uu_vmx_vmexit_resolve_msr_mtrr_def True s of
      None \<Rightarrow> vmx_ept_remap (hw_msr s) ((ept_st s)\<lparr>mtrr_def := edx_eax s\<rparr>) (vm_npg s) = None
    | Some (rc, s') \<Rightarrow> rc = VM_DONE \<and> msr_updated env r (edx_eax s) s s'"
proof -
  let ?u = "\<lambda>n. s\<lparr>ept_st := (ept_st s)\<lparr>mtrr_def := edx_eax s\<rparr>, vm_npg := n\<rparr>"
  have v: "msr_updated env r (edx_eax s) s (?u n)" for n
    using assms by (simp add: msr_updated_def msr_value_def msr_stored_def msr_word_def msr_nums)
  from v [of "vm_npg s"] have "msr_updated env r (edx_eax s) s (s\<lparr>ept_st := (ept_st s)\<lparr>mtrr_def := edx_eax s\<rparr>\<rparr>)" by simp
  with v show ?thesis
    by (auto simp: uu_vmx_vmexit_resolve_msr_mtrr_def_def Let_def split: option.splits)
qed

lemma msr_arch_wr:
  fixes s :: "'a exit_vm_scheme"
  assumes r: "gpr_low GPR64_RCX s = r" and n: "\<not> msr_native env r"
  shows "case uu_vmx_vmexit_resolve_msr env True s of
      None \<Rightarrow> r = IA32_MTRR_DEF_TYPE \<and> vmx_ept_remap (hw_msr s) ((ept_st s)\<lparr>mtrr_def := edx_eax s\<rparr>) (vm_npg s) = None
    | Some (rc, s') \<Rightarrow> rc = (if r = IA32_EFER_MSR \<and> bit (edx_eax s XOR msr_value env r s) 8 \<and> cr0_pg s then VM_FAULT else VM_DONE)
        \<and> msr_updated env r (edx_eax s) s s'"
proof -
  consider "r = IA32_MTRR_DEF_TYPE" | "r = IA32_EFER_MSR" | "cfg_msr_proxy env" "r = IA32_DBG_CTL_MSR"
    | "cfg_msr_proxy env" "r \<in> {IA32_SYSENTER_CS_MSR, IA32_SYSENTER_ESP_MSR, IA32_SYSENTER_EIP_MSR, IA32_PAT_MSR, IA32_PERF_GLB_CTL_MSR}"
    using n unfolding msr_native_def by blast
  then show ?thesis
  proof cases
    case 1
    then show ?thesis using msr_mtrr_wr [OF n 1, of s] r
      by (auto simp: uu_vmx_vmexit_resolve_msr_def Let_def msr_nums split: option.splits)
  next
    case 2
    obtain rc s' where e: "uu_vmx_vmexit_resolve_msr_efer True s = (rc, s')" by fastforce
    have "uu_vmx_vmexit_resolve_msr env True s = Some (rc, s')" using r 2 e by (simp add: uu_vmx_vmexit_resolve_msr_def msr_nums)
    moreover have "msr_updated env r (edx_eax s) s s'"
      using msr_efer_wr(2) [OF e, of env] msr_efer_wr(3-) [OF e] 2 by (simp add: msr_updated_def msr_value_def msr_nums del: vm_reg_get.simps)
    ultimately show ?thesis using msr_efer_wr(1) [OF e] 2 by (simp add: msr_value_def msr_nums del: vm_reg_get.simps)
  next
    case 3
    have g: "vm_reg_get R_DBGCTL (vm_reg_put R_DBGCTL (edx_eax s) s) = edx_eax s" by (rule vm_reg_get_put)
    have "uu_vmx_vmexit_resolve_msr env True s = Some (VM_DONE, vm_reg_put R_DBGCTL (edx_eax s) s)"
      using r 3 by (simp add: uu_vmx_vmexit_resolve_msr_def msr_nums uu_vmx_vmexit_resolve_msr_dbgctl_def)
    then show ?thesis using 3 g by (simp add: msr_updated_def msr_value_def msr_stored_def msr_word_def msr_nums)
  next
    case 4
    have w: "ucast (gpr_low GPR64_RAX s) = take_bit 32 (edx_eax s)"
      by (rule bit_eqI) (auto simp: edx_eax_def bit_simps dest: bit_imp_le_length)
    show ?thesis using 4 r w
      by (elim insertE emptyE) (simp_all add: uu_vmx_vmexit_resolve_msr_def msr_nums uu_vmx_vmexit_resolve_msr_sysenter_cs_def
          uu_vmx_vmexit_resolve_msr_sysenter_esp_def uu_vmx_vmexit_resolve_msr_sysenter_eip_def uu_vmx_vmexit_resolve_msr_pat_def
          uu_vmx_vmexit_resolve_msr_perf_def msr_updated_def msr_value_def msr_stored_def msr_word_def)
  qed
qed

lemma hw_msr_insn_done [simp]: "hw_msr (snd (insn_done rc n s)) = hw_msr s"
  using insn_done_frame [of rc n s] by auto

lemma msr_native_frame: "\<not> msr_native env q \<Longrightarrow> msr_value env q (s\<lparr>emu_sts := e, hw_msr := m\<rparr>) = msr_value env q s"
  by (auto simp: msr_value_def msr_native_def)

lemma edx_eax_frame [simp]: "edx_eax (s\<lparr>emu_sts := e\<rparr>) = edx_eax s" "edx_eax (t\<lparr>hw_msr := m\<rparr>) = edx_eax t"
  by (simp_all add: edx_eax_def)

lemma msr_wr_spec:
  assumes r: "gpr_low GPR64_RCX s = r"
  shows "case vmx_vmexit_resolve_msr_wr env s of
      None \<Rightarrow> (if msr_native env r then hw_wrmsr env r (edx_eax s) (hw_msr s) = None
               else r = IA32_MTRR_DEF_TYPE \<and> vmx_ept_remap (hw_msr s) ((ept_st s)\<lparr>mtrr_def := edx_eax s\<rparr>) (vm_npg s) = None)
    | Some (rc, s') \<Rightarrow>
        (\<forall>q. \<not> msr_native env q \<longrightarrow> msr_value env q s' = (if q = r then msr_stored env r (edx_eax s) else msr_value env q s))
        \<and> (if msr_native env r then rc = VM_DONE \<and> hw_wrmsr env r (edx_eax s) (hw_msr s) = Some (hw_msr s')
           else hw_msr s' = hw_msr s
             \<and> rc = (if r = IA32_EFER_MSR \<and> bit (edx_eax s XOR msr_value env r s) 8 \<and> cr0_pg s then VM_FAULT else VM_DONE))"
proof (cases "msr_native env r")
  case True
  have wr: "vmx_vmexit_resolve_msr_wr env s =
      map_option (\<lambda>m. insn_done VM_DONE MSR_INSN_SZ (s\<lparr>emu_sts := EMU_STS_NATIVE, hw_msr := m\<rparr>)) (hw_wrmsr env r (edx_eax s) (hw_msr s))"
    using msr_arch_native [of env s True] True r
    by (simp add: vmx_vmexit_resolve_msr_wr_def resolve_msr_def uu_resolve_msr_wr_def emulate_native_def Let_def option.map_comp comp_def)
  show ?thesis
  proof (cases "hw_wrmsr env r (edx_eax s) (hw_msr s)")
    case (Some m)
    have "msr_value env q (snd (insn_done VM_DONE MSR_INSN_SZ (s\<lparr>emu_sts := EMU_STS_NATIVE, hw_msr := m\<rparr>))) = msr_value env q s"
      if "\<not> msr_native env q" for q using msr_native_frame [OF that] by simp
    with wr Some True show ?thesis by (auto simp: split_beta)
  qed (use wr True in simp)
next
  case False
  note w = msr_arch_wr [OF r False]
  show ?thesis
  proof (cases "uu_vmx_vmexit_resolve_msr env True s")
    case None
    with w False show ?thesis by (simp add: vmx_vmexit_resolve_msr_wr_def resolve_msr_def uu_resolve_msr_wr_def)
  next
    case (Some x)
    then obtain rc s1 where x: "uu_vmx_vmexit_resolve_msr env True s = Some (rc, s1)" by (cases x) auto
    with w have rc: "rc = (if r = IA32_EFER_MSR \<and> bit (edx_eax s XOR msr_value env r s) 8 \<and> cr0_pg s then VM_FAULT else VM_DONE)"
      and u: "msr_updated env r (edx_eax s) s s1" by auto
    have "rc \<noteq> VM_NATIVE" unfolding rc by (simp add: vmerr_defs)
    with x have "vmx_vmexit_resolve_msr_wr env s = Some (insn_done rc MSR_INSN_SZ s1)"
      by (simp add: vmx_vmexit_resolve_msr_wr_def resolve_msr_def uu_resolve_msr_wr_def)
    with u rc False show ?thesis by (auto simp: msr_updated_def split_beta)
  qed
qed

lemma msr_value_set_gpr [simp]: "msr_value env q (set_edx_eax v s) = msr_value env q s" "hw_msr (set_edx_eax v s) = hw_msr s"
  "msr_value env q (set_gpr_low GPR64_RAX w s) = msr_value env q s" "hw_msr (set_gpr_low GPR64_RAX w s) = hw_msr s"
  by (simp_all add: set_edx_eax_def set_gpr_low_def gpr_put_def set_gpr_def gpr_numbers GPR64_RSP_def)

lemma msr_rd_spec:
  assumes len: "length (vm_gpr s) = 16" and r: "gpr_low GPR64_RCX s = r"
  shows "case vmx_vmexit_resolve_msr_rd env s of
      None \<Rightarrow> msr_native env r \<and> hw_rdmsr env r (hw_msr s) = None
    | Some (rc, s') \<Rightarrow> rc = VM_DONE \<and> (\<forall>q. \<not> msr_native env q \<longrightarrow> msr_value env q s' = msr_value env q s)
        \<and> (if msr_native env r then hw_rdmsr env r (hw_msr s) = Some (edx_eax s', hw_msr s')
           else hw_msr s' = hw_msr s \<and> gpr_low GPR64_RAX s' = ucast (msr_value env r s)
             \<and> gpr_low GPR64_RDX s' = (if msr_word env r then gpr_low GPR64_RDX s else ucast (drop_bit 32 (msr_value env r s))))"
proof (cases "msr_native env r")
  case True
  have rd: "vmx_vmexit_resolve_msr_rd env s = map_option (\<lambda>(v, m). insn_done VM_DONE MSR_INSN_SZ
      (set_edx_eax v (s\<lparr>emu_sts := EMU_STS_NATIVE, hw_msr := m\<rparr>))) (hw_rdmsr env r (hw_msr s))"
    using msr_arch_native [of env s False] True r
    by (cases "hw_rdmsr env r (hw_msr s)")
      (simp_all add: vmx_vmexit_resolve_msr_rd_def resolve_msr_def uu_resolve_msr_rd_def emulate_native_def Let_def split_beta)
  show ?thesis
  proof (cases "hw_rdmsr env r (hw_msr s)")
    case (Some x)
    have "msr_value env q (snd (insn_done VM_DONE MSR_INSN_SZ (set_edx_eax v (s\<lparr>emu_sts := EMU_STS_NATIVE, hw_msr := m\<rparr>)))) = msr_value env q s"
      if "\<not> msr_native env q" for q v m using msr_native_frame [OF that] by simp
    with rd Some True len show ?thesis by (auto simp: split_beta)
  qed (use rd True in simp)
next
  case False
  define u where "u = (if msr_word env r then set_gpr_low GPR64_RAX (ucast (msr_value env r s)) s else set_edx_eax (msr_value env r s) s)"
  have "uu_vmx_vmexit_resolve_msr env False s = Some (VM_DONE, u)"
    using msr_arch_rd_word [of env s] msr_arch_rd [of env r s] False r by (auto simp: u_def)
  then have "vmx_vmexit_resolve_msr_rd env s = Some (insn_done VM_DONE MSR_INSN_SZ u)"
    by (simp add: vmx_vmexit_resolve_msr_rd_def resolve_msr_def uu_resolve_msr_rd_def vmerr_defs)
  moreover have "gpr_low GPR64_RAX u = ucast (msr_value env r s)" "gpr_low GPR64_RDX u =
      (if msr_word env r then gpr_low GPR64_RDX s else ucast (drop_bit 32 (msr_value env r s)))"
    using len by (auto simp: u_def set_edx_eax_def gpr_numbers)
  ultimately show ?thesis using False by (auto simp: split_beta u_def)
qed

section \<open>Properties\<close>

text \<open>C39: whatever the configuration, the guest and the processor, the feature leaf of \<^verbatim>\<open>cpuid\<close> that
  the guest receives does not announce the virtualisation extensions; the instruction is always
  completed, and the three leaves of the other hypervisor that the vmm knows (its range, its
  identification and its features) are zero in all four registers.\<close>

theorem cpuid_hides_vmx:
  assumes "length (vm_gpr s) = 16"
  shows "fst (resolve_cpuid env s) = VM_DONE
    \<and> (gpr_low GPR64_RAX s = CPUID_FEATURE_INFO \<longrightarrow> \<not> bit (gpr_low GPR64_RCX (snd (resolve_cpuid env s))) CPUID_ECX_FEAT_VMX_BIT)
    \<and> (gpr_low GPR64_RAX s \<in> {CPUID_MSHYPERV_RANGE, CPUID_MSHYPERV_ID, CPUID_MSHYPERV_FEAT} \<longrightarrow>
         gpr_low GPR64_RAX (snd (resolve_cpuid env s)) = 0 \<and> gpr_low GPR64_RBX (snd (resolve_cpuid env s)) = 0
         \<and> gpr_low GPR64_RCX (snd (resolve_cpuid env s)) = 0 \<and> gpr_low GPR64_RDX (snd (resolve_cpuid env s)) = 0)"
proof -
  define idx where "idx = gpr_low GPR64_RAX s"
  have abcd: "gpr_low GPR64_RCX (set_abcd a b c d t) = c" "gpr_low GPR64_RAX (set_abcd a b c d t) = a"
    "gpr_low GPR64_RBX (set_abcd a b c d t) = b" "gpr_low GPR64_RDX (set_abcd a b c d t) = d"
    "length (vm_gpr (set_abcd a b c d t)) = length (vm_gpr t)" if "length (vm_gpr t) = 16" for a b c d and t :: "'a exit_vm_scheme"
    using that by (simp_all add: set_abcd_def gpr_numbers)
  have qemu: "\<not> bit (0x80802001 :: u32) 5" by code_simp
  have nat: "length (vm_gpr (uu_resolve_cpuid_native env s)) = 16"
    using assms by (simp add: uu_resolve_cpuid_native_def emulate_native_def Let_def split_beta set_abcd_def)
  have feat: "\<not> bit (gpr_low GPR64_RCX (uu_vmx_vmexit_resolve_cpuid_feature t)) 5" if "length (vm_gpr t) = 16" for t :: "'a exit_vm_scheme"
    using that by (simp add: uu_vmx_vmexit_resolve_cpuid_feature_def gpr_numbers CPUID_ECX_FEAT_VMX_def CPUID_ECX_FEAT_VMX_BIT_def bit_simps)
  show ?thesis
    using assms nat feat qemu
    by (auto simp: resolve_cpuid_def uu_resolve_cpuid_def uu_resolve_cpuid_qemu_def uu_resolve_cpuid_mshyperv_def cpuid_qemu_leaf_def
        Let_def split_beta abcd uu_vmx_vmexit_resolve_cpuid_def vmerr_defs CPUID_FEATURE_INFO_def CPUID_MSHYPERV_RANGE_def CPUID_MSHYPERV_ID_def
        CPUID_MSHYPERV_FEAT_def CPUID_ECX_FEAT_VMX_BIT_def CPUID_MAX_EXT_def CPUID_BASIC_INFO_def CPUID_PROC_SERIAL_def CPUID_BRAND_STR1_def
        CPUID_BRAND_STR2_def CPUID_BRAND_STR3_def)
qed

text \<open>The reasons that have a handler.\<close>

definition exit_handled :: "nat set" where
  "exit_handled = {0, 1, 7, 10, 18, 28, 29, 30, 31, 32, 46, 48, 54, 55}"

text \<open>C37: an exit for a reason that the vmm does not handle, among the fifty-six of the table or
  beyond it, never resumes the guest.\<close>

theorem exit_unhandled_stops:
  assumes "unat (exit_reason s) \<notin> exit_handled"
  shows "vmx_vmexit_handler env s = None"
proof -
  let ?t = "vmx_vmexit_pre_hdl env s"
  have r: "exit_reason ?t = exit_reason s" by (simp add: vmx_vmexit_pre_hdl_def sio_check_com1_def Let_def)
  have "vmx_vmexit_resolve_dispatcher env ?t = Some (VM_FAIL, ?t)"
  proof (cases "unat (exit_reason s) \<le> 55")
    case True
    then have "unat (exit_reason s) \<in> set [0..<56]" by simp
    then show ?thesis
      using assms unfolding upt_rec [of 0 56]
      by (simp add: upt_rec) (elim disjE; simp add: vmx_vmexit_resolve_dispatcher_def r exit_handled_def vmx_vmexit_resolvers_def resolve_default_def
          vmx_vmexit_resolve_preempt_def nth_Cons')
  qed (simp add: vmx_vmexit_resolve_dispatcher_def r)
  then show ?thesis by (simp add: vmx_vmexit_handler_def)
qed

text \<open>The failure of the delivery of an interrupted event is never acted upon. Both results of
  the delivery are different from zero, which is what the handler tests for, so when the processor was
  delivering an event to a guest in protected mode and the handler has one of its own to inject, the
  guest is resumed and the first event is gone.\<close>

theorem idt_failure_unnoticed:
  assumes "vmx_vmexit_resolve_dispatcher env (vmx_vmexit_pre_hdl env s) = Some (rc, t)" and "rc \<noteq> VM_FAIL"
  shows "vmx_vmexit_handler env s = vmx_vmexit_post_hdl env (snd (vmx_vmexit_idt_deliver t))
    \<and> (evt_v (idt_info t) \<and> \<not> uu_rmode t \<and> evt_v (vm_evt t) \<longrightarrow> vmx_vmexit_idt_deliver t = (VM_FAIL, t))"
proof -
  have "fst (vmx_vmexit_idt_deliver t) \<noteq> 0"
    by (simp add: vmx_vmexit_idt_deliver_def uu_vmx_vmexit_idt_deliver_rmode_def uu_vmx_vmexit_idt_deliver_pmode_def Let_def vmerr_defs)
  then show ?thesis
    using assms by (simp add: vmx_vmexit_handler_def split_beta vmx_vmexit_idt_deliver_def uu_vmx_vmexit_idt_deliver_pmode_def)
qed

text \<open>C38: whatever the exit, a guest that is resumed satisfies the condition of the processor on
  pending debug exceptions: when interrupts are blocked by \<^verbatim>\<open>sti\<close> or \<^verbatim>\<open>mov ss\<close> or the guest is
  halted, a single step is pending exactly if the trap flag is set and the branch flag is not; and no
  instruction is left marked as emulated.\<close>

theorem handler_entry_ok:
  assumes "vmx_vmexit_handler env s = Some s'"
  shows "(int_sti s' \<or> int_mss s' \<or> vm_activity s' = VMX_VMCS_GUEST_ACTIVITY_STATE_HALT
      \<longrightarrow> pend_bs s' = (rflags_tf s' \<and> \<not> bit (vm_reg_get R_DBGCTL s') 1))
    \<and> emu_sts s' = EMU_STS_AVL"
proof -
  from assms obtain t where "vmx_vmexit_post_hdl env t = Some s'"
    by (auto simp: vmx_vmexit_handler_def split_beta split: option.splits if_splits)
  then obtain u where s': "s' = (vmx_check_dbgctl u)\<lparr>emu_sts := EMU_STS_AVL, vmexit_cnt := vmexit_cnt (vmx_check_dbgctl u) + 1\<rparr>"
    by (auto simp: vmx_vmexit_post_hdl_def Let_def split: option.splits if_splits)
  have "int_sti (vmx_check_dbgctl u) \<or> int_mss (vmx_check_dbgctl u) \<or> vm_activity (vmx_check_dbgctl u) = VMX_VMCS_GUEST_ACTIVITY_STATE_HALT
      \<longrightarrow> pend_bs (vmx_check_dbgctl u) = (rflags_tf (vmx_check_dbgctl u) \<and> \<not> bit (vm_reg_get R_DBGCTL (vmx_check_dbgctl u)) 1)"
    by (auto simp: vmx_check_dbgctl_def)
  then show ?thesis by (simp add: s')
qed

text \<open>The guest can write the long mode active bit of \<^verbatim>\<open>EFER\<close>, which the processor has read
  only: a guest in real mode that writes a value with both long mode bits is then, for the vmm, no
  longer in real mode, while the processor is neither in long mode nor paging.\<close>

theorem efer_write_leaves_rmode:
  assumes "uu_rmode s" and "\<not> cr0_pg s" and "\<not> entry_ia32e s" and "gpr_low GPR64_RCX s = IA32_EFER_MSR"
    and "bit (edx_eax s) 8" and "bit (edx_eax s) 10"
  shows "\<exists>s'. vmx_vmexit_resolve_msr_wr env s = Some (VM_DONE, s') \<and> \<not> uu_rmode s' \<and> \<not> cr0_pe s' \<and> \<not> cr0_pg s'
    \<and> \<not> entry_ia32e s' \<and> \<not> bit (efer_hw s') 10"
proof -
  define v where "v = edx_eax s AND EFER_MASK"
  have mask: "bit (0xd01 :: u64) 8" "bit (0xd01 :: u64) 10" by code_simp+
  have v: "bit v 8" "bit v 10" using assms(5,6) mask by (simp_all add: v_def EFER_MASK_def bit_and_iff)
  define t where "t = (vm_reg_put R_EFER v s)\<lparr>efer_hw := put_flag 8 False (put_flag 10 False v)\<rparr>"
  have get: "vm_reg_get R_EFER (vm_reg_put R_EFER v s) = v" by (rule vm_reg_get_put)
  have t: "efer_lma t" "efer_lme t" "\<not> cr0_pe t" "\<not> cr0_pg t" "\<not> entry_ia32e t" "\<not> bit (efer_hw t) 10"
    using v assms(1-3) by (simp_all add: t_def efer_lme_def bit_put_flag uu_rmode_def)
  define t1 where "t1 = (vm_reg_put R_EFER v s)\<lparr>efer_hw := v\<rparr>"
  have t1: "entry_ia32e t1 = False" "efer_hw t1 = v" "t1\<lparr>efer_hw := put_flag 8 False (put_flag 10 False v)\<rparr> = t"
    using assms(3) by (simp_all add: t1_def t_def)
  have "uu_vmx_vmexit_resolve_msr_efer True s = (VM_DONE, t)"
    by (simp only: uu_vmx_vmexit_resolve_msr_efer_def Let_def if_True v_def [symmetric] get t1_def [symmetric] t1 t simp_thms if_False)
  then have "vmx_vmexit_resolve_msr_wr env s = Some (insn_done VM_DONE MSR_INSN_SZ t)"
    using assms(4) by (simp add: vmx_vmexit_resolve_msr_wr_def resolve_msr_def uu_resolve_msr_wr_def uu_vmx_vmexit_resolve_msr_def
        IA32_EFER_MSR_def IA32_MTRR_DEF_TYPE_def vmerr_defs)
  moreover have "\<not> uu_rmode (snd (insn_done VM_DONE MSR_INSN_SZ t)) \<and> \<not> cr0_pe (snd (insn_done VM_DONE MSR_INSN_SZ t))
      \<and> \<not> cr0_pg (snd (insn_done VM_DONE MSR_INSN_SZ t)) \<and> \<not> entry_ia32e (snd (insn_done VM_DONE MSR_INSN_SZ t))
      \<and> \<not> bit (efer_hw (snd (insn_done VM_DONE MSR_INSN_SZ t))) 10"
    using t by (simp add: insn_done_def emulate_done_def uu_rmode_def vm_update_rip_def Let_def)
  ultimately show ?thesis by (metis insn_done_rc prod.collapse)
qed

text \<open>C40: the model specific registers that the vmm keeps are a file of registers, and the others
  are the processor's. A \<^verbatim>\<open>wrmsr\<close> to a register of the vmm leaves there the value written, changes
  no other register of the vmm and nothing of the processor's, and is completed; \<^verbatim>\<open>EFER\<close> loses its
  reserved bits (and the active bit of long mode, when not enabled), even when the write ends with
  a fault because it changes the enable bit while paging; the segment of fast system calls
  keeps the low half; the write does not return only if the nested tables cannot be rebuilt for new
  memory types. A \<^verbatim>\<open>rdmsr\<close> of such a register gives its value (of that segment, the low half) and
  changes none. Any other register is written and read by the processor with the guest's
  operands: what it answers is what the guest gets, and a fault that it raises is not caught by
  the vmm.\<close>

theorem msr_file:
  assumes "length (vm_gpr s) = 16" and "gpr_low GPR64_RCX s = r"
  shows "(case vmx_vmexit_resolve_msr_wr env s of
      None \<Rightarrow> (if msr_native env r then hw_wrmsr env r (edx_eax s) (hw_msr s) = None
               else r = IA32_MTRR_DEF_TYPE \<and> vmx_ept_remap (hw_msr s) ((ept_st s)\<lparr>mtrr_def := edx_eax s\<rparr>) (vm_npg s) = None)
    | Some (rc, s') \<Rightarrow>
        (\<forall>q. \<not> msr_native env q \<longrightarrow> msr_value env q s' = (if q = r then msr_stored env r (edx_eax s) else msr_value env q s))
        \<and> (if msr_native env r then rc = VM_DONE \<and> hw_wrmsr env r (edx_eax s) (hw_msr s) = Some (hw_msr s')
           else hw_msr s' = hw_msr s
             \<and> rc = (if r = IA32_EFER_MSR \<and> bit (edx_eax s XOR msr_value env r s) 8 \<and> cr0_pg s then VM_FAULT else VM_DONE)))
    \<and> (case vmx_vmexit_resolve_msr_rd env s of
      None \<Rightarrow> msr_native env r \<and> hw_rdmsr env r (hw_msr s) = None
    | Some (rc, s') \<Rightarrow> rc = VM_DONE \<and> (\<forall>q. \<not> msr_native env q \<longrightarrow> msr_value env q s' = msr_value env q s)
        \<and> (if msr_native env r then hw_rdmsr env r (hw_msr s) = Some (edx_eax s', hw_msr s')
           else hw_msr s' = hw_msr s \<and> gpr_low GPR64_RAX s' = ucast (msr_value env r s)
             \<and> gpr_low GPR64_RDX s' = (if msr_word env r then gpr_low GPR64_RDX s else ucast (drop_bit 32 (msr_value env r s)))))"
  using msr_wr_spec [OF assms(2), of env] msr_rd_spec [OF assms, of env] by blast

section \<open>Examples\<close>

text \<open>A processor with one model specific register, whose upper half is reserved.\<close>

definition TSC_AUX_MSR :: u32 where "TSC_AUX_MSR = 0xc0000103"

definition exit_env_ex :: "unit exit_env" where
  "exit_env_ex = \<lparr>cfg_cpuid_qemu = CPUID_QEMU_NONE, cfg_msr_proxy = False, hw_cpuid = (\<lambda>a c. (a, 0, 0xffffffff, 0)),
     hw_rdmsr = (\<lambda>r m. if r = TSC_AUX_MSR then Some (m r, m) else None),
     hw_wrmsr = (\<lambda>r v m. if r = TSC_AUX_MSR \<and> drop_bit 32 v = 0 then Some (m(r := v)) else None),
     env_ud = (\<lambda>m bs. None), env_stack = 0,
     env_io = \<lparr>env_pio = (\<lambda>l p n. 0xff), env_wake = (\<lambda>s. (VM_DONE, s)), env_junk = []\<rparr>,
     env_gdb = \<lparr>ini_store = [], ini_ack = 0, gdb_cmd_vmm = (\<lambda>b s. Some s)\<rparr>, env_own = (\<lambda>h a s. (VM_DONE, s))\<rparr>"

definition evt_none :: vm_evt where
  "evt_none = \<lparr>evt_v = False, evt_type = 0, evt_vector = 0, evt_dec = False\<rparr>"

definition exit_ex :: exit_vm where
  "exit_ex = rm_vm.extend rm_ex (exit_vm.fields 54 False False 0 False False evt_none 0 0 0 0 0 0 npg_ex
     \<lparr>mtrr_def = 0, mtrr_cap = 0, mem_top = 0x40000, ept_area_start = 0x10000, ept_area_end = 0x20000\<rparr> (\<lambda>r. 0) 1 0 0)"

lemma exit_ex_sel [simp]:
  "vm_gpr exit_ex = replicate 16 0" "vm_rsp exit_ex = 0" "\<not> cr0_pe exit_ex" "\<not> cr0_pg exit_ex" "\<not> efer_lma exit_ex" "\<not> entry_ia32e exit_ex"
  "exit_reason exit_ex = 54" "idt_info exit_ex = evt_none" "exit_int_nmi exit_ex = False"
  by (simp_all add: exit_ex_def exit_vm.defs rm_ex_def rm_vm.defs cpu_vm.defs cpu_ex_def io_vm.defs io_ex_def gdb_ex_def gdb_state.defs ctrl_ex_def
      dbg_ex_def dbg_vm.defs ctrl_vm.defs vm_cpu.defs vm_ex_def)

text \<open>An exit of \<^verbatim>\<open>wbinvd\<close> with no debugger at the other end.\<close>

definition wb_ex :: exit_vm where
  "wb_ex = exit_ex\<lparr>gs_on := False, gs_rate := 10, vmexit_cnt := 1\<rparr>"

lemma wb_ex_run:
  shows "\<exists>t. vmx_vmexit_resolve_dispatcher exit_env_ex (vmx_vmexit_pre_hdl exit_env_ex wb_ex) = Some (VM_DONE, t)
      \<and> idt_info t = evt_none \<and> exit_int_nmi t = False \<and> \<not> gs_on t \<and> gs_rate t = 10 \<and> vmexit_cnt t = 1 \<and> cev_hdl t = NoHdl"
proof -
  let ?p = "vmx_vmexit_pre_hdl exit_env_ex wb_ex"
  have h: "cev_hdl exit_ex = NoHdl"
    by (simp add: exit_ex_def exit_vm.defs rm_ex_def rm_vm.defs cpu_vm.defs cpu_ex_def io_vm.defs io_ex_def gdb_ex_def gdb_state.defs ctrl_ex_def
      dbg_ex_def dbg_vm.defs ctrl_vm.defs vm_cpu.defs vm_ex_def)
  have p: "exit_reason ?p = 54" "idt_info ?p = evt_none" "exit_int_nmi ?p = False" "\<not> gs_on ?p" "gs_rate ?p = 10" "vmexit_cnt ?p = 1" "cev_hdl ?p = NoHdl"
    by (simp_all add: wb_ex_def vmx_vmexit_pre_hdl_def sio_check_com1_def Let_def h)
  have "vmx_vmexit_resolve_dispatcher exit_env_ex ?p = Some (resolve_wbinvd ?p)"
    by (simp add: vmx_vmexit_resolve_dispatcher_def p vmx_vmexit_resolvers_def)
  moreover have "fst (resolve_wbinvd ?p) = VM_DONE" by (simp add: resolve_wbinvd_def)
  moreover have "idt_info (snd (resolve_wbinvd ?p)) = evt_none \<and> exit_int_nmi (snd (resolve_wbinvd ?p)) = False \<and> \<not> gs_on (snd (resolve_wbinvd ?p))
      \<and> gs_rate (snd (resolve_wbinvd ?p)) = 10 \<and> vmexit_cnt (snd (resolve_wbinvd ?p)) = 1 \<and> cev_hdl (snd (resolve_wbinvd ?p)) = NoHdl"
    using p by (simp add: resolve_wbinvd_def insn_done_def emulate_done_def emulate_native_def vm_update_rip_def Let_def)
  ultimately show ?thesis by (metis prod.collapse)
qed

lemma wb_ex_resumes: "\<exists>s'. vmx_vmexit_handler exit_env_ex wb_ex = Some s'"
proof -
  obtain t where t: "vmx_vmexit_resolve_dispatcher exit_env_ex (vmx_vmexit_pre_hdl exit_env_ex wb_ex) = Some (VM_DONE, t)"
    "idt_info t = evt_none" "exit_int_nmi t = False" "\<not> gs_on t" "gs_rate t = 10" "vmexit_cnt t = 1" "cev_hdl t = NoHdl"
    using wb_ex_run by blast
  define u where "u = vmx_db_check_pending t"
  have u: "\<not> gs_on u" "gs_rate u = 10" "vmexit_cnt u = 1" "cev_hdl u = NoHdl"
    using t by (simp_all add: u_def vmx_db_check_pending_def vmx_db_check_pending_any_def vmx_db_check_pending_stp_def split_beta)
  define rc where "rc = (if uu_ctrl_active_cr3_check 3 u then VM_DONE else VM_IGNORE)"
  have rc: "rc AND (VM_FAIL OR VM_FAULT) = 0" by (simp add: rc_def vmerr_defs)
  have "gdbstub (env_gdb exit_env_ex) u = Some u" using u by (simp add: gdbstub_def)
  moreover have "(if uu_ctrl_active_cr3_check 3 u then ctrl_event (env_own exit_env_ex) u else (VM_IGNORE, u)) = (rc, u)"
    using u by (simp add: rc_def ctrl_event_def)
  ultimately obtain w where c: "controller (env_gdb exit_env_ex) (env_own exit_env_ex) u = Some (rc, w)"
    using rc by (simp add: controller_def)
  have "vmx_vmexit_idt_deliver t = (VM_DONE, t)" using t by (simp add: vmx_vmexit_idt_deliver_def evt_none_def)
  then have "vmx_vmexit_handler exit_env_ex wb_ex = vmx_vmexit_post_hdl exit_env_ex t"
    using t by (simp add: vmx_vmexit_handler_def vmerr_defs)
  with c rc show ?thesis by (simp add: vmx_vmexit_post_hdl_def Let_def flip: u_def)
qed

theorem handler_entry_ok_witness:
  "\<exists>s'. vmx_vmexit_handler exit_env_ex wb_ex = Some s' \<and> emu_sts s' = EMU_STS_AVL"
  using wb_ex_resumes handler_entry_ok [of exit_env_ex wb_ex] by blast

theorem idt_failure_unnoticed_witness:
  "\<exists>t. vmx_vmexit_handler exit_env_ex wb_ex = vmx_vmexit_post_hdl exit_env_ex (snd (vmx_vmexit_idt_deliver t))"
proof -
  obtain t where "vmx_vmexit_resolve_dispatcher exit_env_ex (vmx_vmexit_pre_hdl exit_env_ex wb_ex) = Some (VM_DONE, t)"
    using wb_ex_run by blast
  with idt_failure_unnoticed [OF this] show ?thesis by (auto simp: vmerr_defs)
qed

theorem exit_unhandled_stops_witness: "vmx_vmexit_handler exit_env_ex (exit_ex\<lparr>exit_reason := 12\<rparr>) = None"
  by (rule exit_unhandled_stops) (simp add: exit_handled_def)

theorem cpuid_hides_vmx_witness:
  "\<not> bit (gpr_low GPR64_RCX (snd (resolve_cpuid exit_env_ex (set_gpr_low GPR64_RAX 1 exit_ex)))) CPUID_ECX_FEAT_VMX_BIT"
  using cpuid_hides_vmx [of "set_gpr_low GPR64_RAX 1 exit_ex" exit_env_ex] by (simp add: CPUID_FEATURE_INFO_def gpr_numbers)

definition wrmsr_ex :: "u32 \<Rightarrow> u32 \<Rightarrow> exit_vm" where
  "wrmsr_ex r v = set_gpr_low GPR64_RCX r (set_gpr_low GPR64_RAX v exit_ex)"

lemma wrmsr_ex_sel:
  "length (vm_gpr (wrmsr_ex r v)) = 16" "gpr_low GPR64_RCX (wrmsr_ex r v) = r" "edx_eax (wrmsr_ex r v) = ucast v"
  by (simp_all add: wrmsr_ex_def edx_eax_def gpr_numbers) (simp add: gpr_low_def gpr_get_def get_gpr_def GPR64_RSP_def get_field_def)

theorem efer_write_leaves_rmode_witness:
  "\<exists>s'. vmx_vmexit_resolve_msr_wr exit_env_ex (wrmsr_ex IA32_EFER_MSR 0x500) = Some (VM_DONE, s') \<and> \<not> uu_rmode s' \<and> \<not> cr0_pe s'"
proof -
  have b: "bit (ucast (0x500 :: u32) :: u64) 8" "bit (ucast (0x500 :: u32) :: u64) 10" by code_simp+
  have "uu_rmode (wrmsr_ex r v) \<and> \<not> cr0_pg (wrmsr_ex r v) \<and> \<not> entry_ia32e (wrmsr_ex r v)" for r v
    by (simp add: wrmsr_ex_def uu_rmode_def set_gpr_low_def gpr_put_def set_gpr_def)
  with efer_write_leaves_rmode [of "wrmsr_ex IA32_EFER_MSR 0x500" exit_env_ex] b wrmsr_ex_sel show ?thesis by auto
qed

theorem msr_file_witness:
  "(\<exists>s'. vmx_vmexit_resolve_msr_wr exit_env_ex (wrmsr_ex TSC_AUX_MSR 7) = Some (VM_DONE, s') \<and> hw_msr s' TSC_AUX_MSR = 7)
   \<and> vmx_vmexit_resolve_msr_wr exit_env_ex (wrmsr_ex 0x10 7) = None
   \<and> (\<exists>s'. vmx_vmexit_resolve_msr_wr exit_env_ex (wrmsr_ex IA32_EFER_MSR 0x402) = Some (VM_DONE, s')
        \<and> msr_value exit_env_ex IA32_EFER_MSR s' = 0)
   \<and> (\<exists>s'. vmx_vmexit_resolve_msr_rd exit_env_ex (wrmsr_ex IA32_EFER_MSR 7) = Some (VM_DONE, s'))"
proof -
  have nat: "msr_native exit_env_ex TSC_AUX_MSR" "msr_native exit_env_ex 0x10" "\<not> msr_native exit_env_ex IA32_EFER_MSR"
    by (simp_all add: msr_native_def msr_nums TSC_AUX_MSR_def exit_env_ex_def)
  have h: "hw_wrmsr exit_env_ex TSC_AUX_MSR 7 m = Some (m(TSC_AUX_MSR := 7))" "hw_wrmsr exit_env_ex 0x10 7 m = None" for m
    by (simp_all add: exit_env_ex_def TSC_AUX_MSR_def)
  have pg: "\<not> cr0_pg (wrmsr_ex r v)" for r v by (simp add: wrmsr_ex_def set_gpr_low_def gpr_put_def set_gpr_def)
  have st: "msr_stored exit_env_ex IA32_EFER_MSR (ucast (0x402 :: u32)) = 0"
  proof -
    have "\<not> bit (ucast (0x402 :: u32) :: u64) 8" "put_flag 10 False (ucast (0x402 :: u32) AND 0xd01) = (0 :: u64)" by code_simp+
    then show ?thesis by (simp add: msr_stored_def EFER_MASK_def)
  qed
  note f = msr_file [OF wrmsr_ex_sel(1,2), where env = exit_env_ex]
  have e: "IA32_EFER_MSR \<noteq> IA32_MTRR_DEF_TYPE" by (simp add: msr_nums)
  have "\<exists>s'. vmx_vmexit_resolve_msr_wr exit_env_ex (wrmsr_ex TSC_AUX_MSR 7) = Some (VM_DONE, s') \<and> hw_msr s' TSC_AUX_MSR = 7"
    using f [of TSC_AUX_MSR 7, THEN conjunct1] nat(1) h(1) wrmsr_ex_sel(3) [of TSC_AUX_MSR 7]
    by (auto split: option.splits dest: sym)
  moreover have "vmx_vmexit_resolve_msr_wr exit_env_ex (wrmsr_ex 0x10 7) = None"
    using f [of "0x10" 7, THEN conjunct1] nat(2) h(2) wrmsr_ex_sel(3) [of "0x10" 7]
    by (auto split: option.splits)
  moreover have "\<exists>s'. vmx_vmexit_resolve_msr_wr exit_env_ex (wrmsr_ex IA32_EFER_MSR 0x402) = Some (VM_DONE, s')
      \<and> msr_value exit_env_ex IA32_EFER_MSR s' = 0"
    using f [of IA32_EFER_MSR "0x402", THEN conjunct1] nat(3) e pg st wrmsr_ex_sel(3) [of IA32_EFER_MSR "0x402"]
    by (auto split: option.splits)
  moreover have "\<exists>s'. vmx_vmexit_resolve_msr_rd exit_env_ex (wrmsr_ex IA32_EFER_MSR 7) = Some (VM_DONE, s')"
    using f [of IA32_EFER_MSR 7, THEN conjunct2] nat(3) by (auto split: option.splits)
  ultimately show ?thesis by blast
qed

end
