(* ===== verification/Gdb_Vmm.thy ===== *)
theory Gdb_Vmm
  imports Exits Ept_Map
begin

text \<open>
  The commands that the stub adds to the protocol of gdb, \<^verbatim>\<open>vmm/src/control/gdbstub_vmm.c\<close>: a byte
  names one of thirty-seven handlers, the rest of the packet is its argument. The handlers use the
  services of most other theories, from the control registers to the nested page tables, and
  \<^verbatim>\<open>vmm_gdb_env\<close> gives them to the command layer. \<^verbatim>\<open>None\<close> is a panic, a wait that does not end,
  an access outside of a table or a fault of the processor in the vmm.
\<close>

section \<open>State\<close>

text \<open>The operating system the user named, the top of the stack of branch records read last,
  whether the mark to write the fault address back has been taken off, and the encodings of
  registers that a store over the register behind them has replaced. (An encoding tells under
  which number a register goes back to the control structure and whether it has to; what a
  replaced encoding makes of the next entry of the guest is not modelled.)\<close>

record gv_vm = exit_vm +
  ctrl_affinity :: u8
  lbr_tos :: u64
  cr2_cancel :: bool
  reg_enc :: "reg_loc \<Rightarrow> u32 option"

text \<open>What the handlers read from the processor or from the stack: the time stamp and the variables
  that are used before they are written.\<close>

record gv_env =
  gv_tsc :: u64
  gv_ack :: u8
  gv_wlk :: "offset_t pg_wlk"
  gv_nwlk :: "entp pg_wlk"

definition gdb_err_inv :: "'a gdb_state_scheme \<Rightarrow> 'a gdb_state_scheme" where
  "gdb_err_inv = gdb_io_write (bytes_of_string ''+$E16#ac'')"

text \<open>Most handlers parse one number, and refuse the packet when it is none.\<close>

definition with_number :: "bytes \<Rightarrow> (u64 \<Rightarrow> 'a gdb_state_scheme option) \<Rightarrow> 'a gdb_state_scheme \<Rightarrow> 'a gdb_state_scheme option" where
  "with_number data f s = (case gdb_get_number data False of None \<Rightarrow> Some (gdb_nak s) | Some v \<Rightarrow> f v)"

definition send_numbers :: "(u64 \<times> u64) list \<Rightarrow> bool \<Rightarrow> 'a gdb_state_scheme \<Rightarrow> 'a gdb_state_scheme" where
  "send_numbers vs endian s =
     gdb_send_packet (foldl (\<lambda>s (v, precision). gdb_add_number v precision endian s) s vs)"

section \<open>System registers\<close>

definition sysreg_vals :: "'a gdb_state_scheme \<Rightarrow> u64 list" where
  "sysreg_vals s =
     [vm_reg_get R_CR0 s, vm_cr2 s, vm_cr3 s, vm_reg_get R_CR4 s, get_dr 0 s, get_dr 1 s, get_dr 2 s, get_dr 3 s,
      vm_reg_get R_DR6 s, vm_reg_get R_DR7 s, vm_reg_get R_DBGCTL s, vm_reg_get R_EFER s]
     @ map (\<lambda>g. vm_reg_get (R_BASE g) s) [CS, SS, DS, ES, FS, GS, GDTR, IDTR, LDTR, TR]
     @ map (\<lambda>g. take_bit 32 (vm_reg_get (R_LIMIT g) s)) [CS, SS, DS, ES, FS, GS, GDTR, IDTR, LDTR, TR]
     @ map (\<lambda>g. take_bit 32 (vm_reg_get (R_ATTR g) s)) [CS, SS, DS, ES, FS, GS, LDTR, TR]"

definition gdb_vmm_rd_all_sysregs :: "bytes \<Rightarrow> 'a gdb_state_scheme \<Rightarrow> 'a gdb_state_scheme option" where
  "gdb_vmm_rd_all_sysregs data s = Some (send_numbers (map (\<lambda>v. (v, 16)) (sysreg_vals s)) True s)"

definition gdb_vmm_wr_all_sysregs :: "bytes \<Rightarrow> 'a gdb_state_scheme \<Rightarrow> 'a gdb_state_scheme option" where
  "gdb_vmm_wr_all_sysregs data s = Some (gdb_unsupported s)"

definition gdb_vmm_rd_sysreg :: "bytes \<Rightarrow> 'a gdb_state_scheme \<Rightarrow> 'a gdb_state_scheme option" where
  "gdb_vmm_rd_sysreg data s =
     (case gdb_reg_op data False True s of
        None \<Rightarrow> None
      | Some (Inl s1) \<Rightarrow> Some s1
      | Some (Inr (l, sz, value, s1)) \<Rightarrow> Some (send_numbers [(reg_get l s1, of_nat (sz * 2))] True s1))"

text \<open>The register is written as eight bytes whatever its size is: the limits and attributes are
  fields of four bytes, followed by the four bytes of their encoding, which gets the upper half of the
  value. The lookup for a write marks the register.\<close>

definition reg_store64 :: "reg_loc \<Rightarrow> nat \<Rightarrow> u64 \<Rightarrow> 'a gv_vm_scheme \<Rightarrow> 'a gv_vm_scheme" where
  "reg_store64 l sz value s =
     (if sz < 8
      then (reg_put l (take_bit 32 value) s)\<lparr>reg_enc := (reg_enc s)(l \<mapsto> ucast (drop_bit 32 value))\<rparr>
      else reg_put l value s)"

definition gdb_vmm_wr_sysreg :: "bytes \<Rightarrow> 'a gv_vm_scheme \<Rightarrow> 'a gv_vm_scheme option" where
  "gdb_vmm_wr_sysreg data s =
     (case gdb_reg_op data True True s of
        None \<Rightarrow> None
      | Some (Inl s1) \<Rightarrow> Some s1
      | Some (Inr (l, sz, value, s1)) \<Rightarrow>
          (let s1 = (if l = L_CR3 then s1\<lparr>cr3_dirty := True\<rparr> else s1);
               (rc, s2) = (if l = L_REG R_CR0 then uu_resolve_cr0_wr value s1
                           else if l = L_CR3 then uu_resolve_cr3_wr value s1
                           else if l = L_REG R_CR4 then uu_resolve_cr4_wr value s1
                           else (VM_DONE, s1))
           in if rc = VM_FAIL then Some (gdb_err_inv s2)
              else Some (gdb_ok (reg_store64 l sz value s2))))"

section \<open>Branch records\<close>

definition LBR_TOS_MSR :: u32 where "LBR_TOS_MSR = 0x1c9"
definition LBR_LER_FROM_LIP_MSR :: u32 where "LBR_LER_FROM_LIP_MSR = 0x1dd"
definition LBR_LER_TO_LIP_MSR :: u32 where "LBR_LER_TO_LIP_MSR = 0x1de"
definition LBR_FROM_IP_MSR :: u64 where "LBR_FROM_IP_MSR = 0x680"
definition LBR_TO_IP_MSR :: u64 where "LBR_TO_IP_MSR = 0x6c0"

definition gdb_vmm_set_lbr :: "bytes \<Rightarrow> 'a gdb_state_scheme \<Rightarrow> 'a gdb_state_scheme option" where
  "gdb_vmm_set_lbr data s = Some (gdb_ok (uu_enable_lbr s))"

definition gdb_vmm_del_lbr :: "bytes \<Rightarrow> 'a gdb_state_scheme \<Rightarrow> 'a gdb_state_scheme option" where
  "gdb_vmm_del_lbr data s = Some (gdb_ok (uu_disable_lbr s))"

text \<open>A read of a register of the processor by the vmm itself.\<close>

definition vmm_rdmsr :: "'a exit_env \<Rightarrow> u32 \<Rightarrow> 'a exit_vm_scheme \<Rightarrow> (u64 \<times> 'a exit_vm_scheme) option" where
  "vmm_rdmsr env r s = map_option (\<lambda>(v, m). (v, s\<lparr>hw_msr := m\<rparr>)) (hw_rdmsr env r (hw_msr s))"

definition uu_lbr_nehalem :: "'a exit_env \<Rightarrow> u64 \<Rightarrow> 'a exit_vm_scheme \<Rightarrow> (u64 \<times> 'a exit_vm_scheme) option" where
  "uu_lbr_nehalem env idx s = map_option (\<lambda>(v, s). (v AND 0xffffffffffff, s)) (vmm_rdmsr env (ucast idx) s)"

definition uu_setup_lbr :: "'a gv_vm_ext exit_env \<Rightarrow> 'a gv_vm_scheme \<Rightarrow> 'a gv_vm_scheme option" where
  "uu_setup_lbr env s = map_option (\<lambda>(v, s). s\<lparr>lbr_tos := v\<rparr>) (vmm_rdmsr env LBR_TOS_MSR s)"

definition gdb_vmm_get_lbr :: "'a gv_vm_ext exit_env \<Rightarrow> bytes \<Rightarrow> 'a gv_vm_scheme \<Rightarrow> 'a gv_vm_scheme option" where
  "gdb_vmm_get_lbr env data s =
     do { s \<leftarrow> uu_setup_lbr env s;
          (from, s) \<leftarrow> uu_lbr_nehalem env (lbr_tos s + LBR_FROM_IP_MSR) s;
          (to, s) \<leftarrow> uu_lbr_nehalem env (lbr_tos s + LBR_TO_IP_MSR) s;
          (from_excp, s) \<leftarrow> vmm_rdmsr env LBR_LER_FROM_LIP_MSR s;
          (to_excp, s) \<leftarrow> vmm_rdmsr env LBR_LER_TO_LIP_MSR s;
          Some (send_numbers (map (\<lambda>v. (v, 16)) [from, to, from_excp, to_excp]) False s) }"

section \<open>Filters and the debugged address space\<close>

definition gdb_vmm_rd_excp_mask :: "bytes \<Rightarrow> 'a gdb_state_scheme \<Rightarrow> 'a gdb_state_scheme option" where
  "gdb_vmm_rd_excp_mask data s = Some (send_numbers [(ucast (usr_excp s), 8)] False s)"

definition gdb_vmm_wr_excp_mask :: "bytes \<Rightarrow> 'a gdb_state_scheme \<Rightarrow> 'a gdb_state_scheme option" where
  "gdb_vmm_wr_excp_mask data s =
     with_number data (\<lambda>v. Some (gdb_ok (uu_update_exception_mask (s\<lparr>usr_excp := ucast v\<rparr>)))) s"

definition gdb_vmm_set_active_cr3 :: "bytes \<Rightarrow> 'a gdb_state_scheme \<Rightarrow> 'a gdb_state_scheme option" where
  "gdb_vmm_set_active_cr3 data s = with_number data (\<lambda>v. Some (gdb_ok (ctrl_active_cr3_enable v s))) s"

definition gdb_vmm_del_active_cr3 :: "bytes \<Rightarrow> 'a gdb_state_scheme \<Rightarrow> 'a gdb_state_scheme option" where
  "gdb_vmm_del_active_cr3 data s = Some (gdb_ok (ctrl_active_cr3_disable s))"

definition gdb_vmm_keep_active_cr3 :: "bytes \<Rightarrow> 'a gdb_state_scheme \<Rightarrow> 'a gdb_state_scheme option" where
  "gdb_vmm_keep_active_cr3 data s =
     Some (if ctrl_cr3_on s then gdb_ok (s\<lparr>ctrl_cr3_keep := True\<rparr>) else gdb_err_inv s)"

definition gdb_vmm_set_affinity :: "bytes \<Rightarrow> 'a gv_vm_scheme \<Rightarrow> 'a gv_vm_scheme option" where
  "gdb_vmm_set_affinity data s = with_number data (\<lambda>v. Some (gdb_ok (s\<lparr>ctrl_affinity := ucast v\<rparr>))) s"

definition gdb_vmm_rd_cr_rd_mask :: "bytes \<Rightarrow> 'a gdb_state_scheme \<Rightarrow> 'a gdb_state_scheme option" where
  "gdb_vmm_rd_cr_rd_mask data s = Some (send_numbers [(ucast (usr_cr_rd s), 4)] False s)"

definition gdb_vmm_wr_cr_rd_mask :: "bytes \<Rightarrow> 'a gdb_state_scheme \<Rightarrow> 'a gdb_state_scheme option" where
  "gdb_vmm_wr_cr_rd_mask data s =
     with_number data (\<lambda>v. Some (gdb_ok (ctrl_usr_set_cr_rd (ucast (ucast v :: u16)) s))) s"

definition gdb_vmm_rd_cr_wr_mask :: "bytes \<Rightarrow> 'a gdb_state_scheme \<Rightarrow> 'a gdb_state_scheme option" where
  "gdb_vmm_rd_cr_wr_mask data s = Some (send_numbers [(ucast (usr_cr_wr s), 4)] False s)"

definition gdb_vmm_wr_cr_wr_mask :: "bytes \<Rightarrow> 'a gdb_state_scheme \<Rightarrow> 'a gdb_state_scheme option" where
  "gdb_vmm_wr_cr_wr_mask data s =
     with_number data (\<lambda>v. Some (gdb_ok (ctrl_usr_set_cr_wr (ucast (ucast v :: u16)) s))) s"

definition gdb_vmm_rd_filter_mask :: "bytes \<Rightarrow> 'a gdb_state_scheme \<Rightarrow> 'a gdb_state_scheme option" where
  "gdb_vmm_rd_filter_mask data s = Some (send_numbers [(usr_filter s, 16)] False s)"

definition gdb_vmm_wr_filter_mask :: "bytes \<Rightarrow> 'a gdb_state_scheme \<Rightarrow> 'a gdb_state_scheme option" where
  "gdb_vmm_wr_filter_mask data s = with_number data (\<lambda>v. Some (gdb_ok (s\<lparr>usr_filter := v\<rparr>))) s"

definition gdb_vmm_filter_cpuid :: "bytes \<Rightarrow> 'a gdb_state_scheme \<Rightarrow> 'a gdb_state_scheme option" where
  "gdb_vmm_filter_cpuid data s = with_number data (\<lambda>v. Some (gdb_ok (s\<lparr>usr_cpuid := ucast v\<rparr>))) s"

section \<open>Memory\<close>

text \<open>\<open>n\<close> numbers of sixteen digits each and nothing else.\<close>

fun parse_args_loop :: "nat \<Rightarrow> bytes \<Rightarrow> u64 list option" where
  "parse_args_loop 0 data = Some []"
| "parse_args_loop (Suc n) data =
     (case gdb_get_number (take 16 data) False of
        None \<Rightarrow> None
      | Some v \<Rightarrow> map_option (Cons v) (parse_args_loop n (drop 16 data)))"

definition uu_gdb_vmm_parse_args :: "bytes \<Rightarrow> nat \<Rightarrow> u64 list option" where
  "uu_gdb_vmm_parse_args data n = (if length data \<noteq> n * 16 then None else parse_args_loop n data)"

definition with_args :: "bytes \<Rightarrow> nat \<Rightarrow> (u64 list \<Rightarrow> 'a gdb_state_scheme option) \<Rightarrow> 'a gdb_state_scheme \<Rightarrow> 'a gdb_state_scheme option" where
  "with_args data n f s =
     (case uu_gdb_vmm_parse_args data n of None \<Rightarrow> Some (gdb_nak s) | Some args \<Rightarrow> f args)"

text \<open>The four transfers differ in the service: the packet is acknowledged, the host acknowledges
  that, and then the bytes follow outside of packets.\<close>

definition uu_gdb_vmm_mem_rw_parse ::
    "gv_env \<Rightarrow> (offset_t \<Rightarrow> size_t \<Rightarrow> 'a gdb_state_scheme \<Rightarrow> (vmerr \<times> 'a gdb_state_scheme) option)
     \<Rightarrow> bytes \<Rightarrow> 'a gdb_state_scheme \<Rightarrow> 'a gdb_state_scheme option" where
  "uu_gdb_vmm_mem_rw_parse g access data s =
     with_args data 2
       (\<lambda>args. do { s \<leftarrow> gdb_wait_ack (gv_ack g) (gdb_ok s);
                     (rc, s) \<leftarrow> access (args ! 0) (args ! 1) s;
                     Some (if rc \<noteq> VM_DONE then gdb_err_mem s else s) }) s"

definition gdb_vmm_rd_pmem :: "gv_env \<Rightarrow> bytes \<Rightarrow> 'a gdb_state_scheme \<Rightarrow> 'a gdb_state_scheme option" where
  "gdb_vmm_rd_pmem g = uu_gdb_vmm_mem_rw_parse g uu_vm_send_pmem"

definition gdb_vmm_wr_pmem :: "gv_env \<Rightarrow> bytes \<Rightarrow> 'a gdb_state_scheme \<Rightarrow> 'a gdb_state_scheme option" where
  "gdb_vmm_wr_pmem g = uu_gdb_vmm_mem_rw_parse g uu_vm_recv_pmem"

definition gdb_vmm_rd_vmem :: "gv_env \<Rightarrow> bytes \<Rightarrow> 'a gdb_state_scheme \<Rightarrow> 'a gdb_state_scheme option" where
  "gdb_vmm_rd_vmem g = uu_gdb_vmm_mem_rw_parse g (\<lambda>a n s. uu_vm_send_vmem (active_cr3 s) a n s)"

definition gdb_vmm_wr_vmem :: "gv_env \<Rightarrow> bytes \<Rightarrow> 'a gdb_state_scheme \<Rightarrow> 'a gdb_state_scheme option" where
  "gdb_vmm_wr_vmem g = uu_gdb_vmm_mem_rw_parse g (\<lambda>a n s. uu_vm_recv_vmem (active_cr3 s) a n s)"

definition gdb_vmm_translate :: "gv_env \<Rightarrow> bytes \<Rightarrow> 'a gdb_state_scheme \<Rightarrow> 'a gdb_state_scheme option" where
  "gdb_vmm_translate g data s =
     with_number data
       (\<lambda>vaddr. let sz = (if cpu_addr_sz s = 64 then 16 else 8)
                 in if \<not> cr0_pg s then Some (send_numbers [(vaddr, sz)] False s)
                    else (case uu_pg_walk s (active_cr3 s) vaddr (gv_wlk g) of
                            (rc, wlk) \<Rightarrow> if rc \<noteq> VM_DONE then Some (gdb_err_mem s)
                                         else Some (send_numbers [(wlk_addr wlk, sz)] False s))) s"

section \<open>Events\<close>

definition evt_raw :: "vm_evt \<Rightarrow> u32" where
  "evt_raw e = ucast (evt_vector e) OR push_bit 8 (take_bit 3 (ucast (evt_type e)))
     OR push_bit 11 (of_bool (evt_dec e)) OR push_bit 31 (of_bool (evt_v e))"

definition uu_injected_event :: "'a vm_cpu_scheme \<Rightarrow> u64" where
  "uu_injected_event s = push_bit 32 (ucast (vm_err_code s)) OR ucast (evt_raw (vm_evt s))"

definition uu_vmx_clear_event_injection :: "'a gv_vm_scheme \<Rightarrow> 'a gv_vm_scheme" where
  "uu_vmx_clear_event_injection s =
     (let e = vm_evt s
      in if \<not> evt_v e then s
         else (if evt_type e = VMCS_EVT_INFO_TYPE_HW_EXCP \<and> ucast (evt_vector e) = PF_EXCP
               then s\<lparr>cr2_cancel := True\<rparr> else s)\<lparr>vm_evt := e\<lparr>evt_v := False\<rparr>\<rparr>)"

definition gdb_vmm_clear_idt_event :: "bytes \<Rightarrow> 'a gv_vm_scheme \<Rightarrow> 'a gv_vm_scheme option" where
  "gdb_vmm_clear_idt_event data s =
     Some (gdb_ok (if evt_v (vm_evt s) then uu_vmx_clear_event_injection s else s))"

definition gdb_vmm_get_idt_event :: "bytes \<Rightarrow> 'a gdb_state_scheme \<Rightarrow> 'a gdb_state_scheme option" where
  "gdb_vmm_get_idt_event data s = Some (send_numbers [(uu_injected_event s, 16)] False s)"

definition gdb_vmm_rdtsc :: "gv_env \<Rightarrow> bytes \<Rightarrow> 'a gdb_state_scheme \<Rightarrow> 'a gdb_state_scheme option" where
  "gdb_vmm_rdtsc g data s = Some (send_numbers [(gv_tsc g, 16)] False s)"

definition uu_interrupt_shadow :: "'a ctrl_vm_scheme \<Rightarrow> bool" where
  "uu_interrupt_shadow s = (int_sti s \<or> int_mss s)"

definition gdb_vmm_can_cli :: "bytes \<Rightarrow> 'a gdb_state_scheme \<Rightarrow> 'a gdb_state_scheme option" where
  "gdb_vmm_can_cli data s =
     (let can = \<not> (uu_interrupt_shadow s \<or> evt_v (vm_evt s) \<and> evt_type (vm_evt s) = 0)
      in Some (send_numbers [(of_bool can, 2)] False s))"

definition gdb_vmm_get_fault :: "bytes \<Rightarrow> 'a exit_vm_scheme \<Rightarrow> 'a exit_vm_scheme option" where
  "gdb_vmm_get_fault data s =
     Some (send_numbers [(ucast (fault_err s), 8), (npf_err s, 16), (npf_vaddr s, 16), (npf_paddr s, 16)] False s)"

section \<open>Nested page tables\<close>

definition gdb_vmm_npg_get_pte :: "bytes \<Rightarrow> 'a exit_vm_scheme \<Rightarrow> 'a exit_vm_scheme option" where
  "gdb_vmm_npg_get_pte data s =
     with_number data
       (\<lambda>addr. case u_npg_remap_finest_4K addr (vm_npg s) of
                  None \<Rightarrow> None
                | Some (pte, n) \<Rightarrow>
                    (let s = s\<lparr>vm_npg := n\<rparr>
                     in case pte of
                          None \<Rightarrow> Some (gdb_err_mem s)
                        | Some p \<Rightarrow> Some (send_numbers [(rd_ent p n, 16)] False s))) s"

definition gdb_vmm_npg_set_pte :: "bytes \<Rightarrow> 'a exit_vm_scheme \<Rightarrow> 'a exit_vm_scheme option" where
  "gdb_vmm_npg_set_pte data s =
     with_args data 2
       (\<lambda>args. case u_npg_get_pte (args ! 0) (vm_npg s) of
                  None \<Rightarrow> Some (gdb_err_mem s)
                | Some p \<Rightarrow> Some (gdb_ok (s\<lparr>vm_npg := wr_ent p (args ! 1) (vm_npg s)\<rparr>))) s"

definition gdb_vmm_npg_translate :: "gv_env \<Rightarrow> bytes \<Rightarrow> 'a exit_vm_scheme \<Rightarrow> 'a exit_vm_scheme option" where
  "gdb_vmm_npg_translate g data s =
     with_number data
       (\<lambda>paddr. case uu_npg_walk (vm_npg s) paddr (gv_nwlk g) of
                   (rc, wlk) \<Rightarrow> if rc \<noteq> VM_DONE then Some (gdb_err_mem s)
                                else Some (send_numbers [(wlk_addr wlk, 16)] False s)) s"

definition gdb_vmm_npg_map :: "bytes \<Rightarrow> 'a exit_vm_scheme \<Rightarrow> 'a exit_vm_scheme option" where
  "gdb_vmm_npg_map data s =
     with_args data 3
       (\<lambda>args. map_option (\<lambda>n. gdb_ok (s\<lparr>vm_npg := n\<rparr>)) (npg_map (args ! 0) (args ! 1) (args ! 2) (vm_npg s))) s"

definition gdb_vmm_npg_unmap :: "bytes \<Rightarrow> 'a exit_vm_scheme \<Rightarrow> 'a exit_vm_scheme option" where
  "gdb_vmm_npg_unmap data s =
     with_args data 2
       (\<lambda>args. map_option (\<lambda>n. gdb_ok (s\<lparr>vm_npg := n\<rparr>)) (npg_unmap (args ! 0) (args ! 1) (vm_npg s))) s"

section \<open>Mode of the processor and model specific registers\<close>

definition uu_lmode32 :: "'a vm_cpu_scheme \<Rightarrow> bool" where
  "uu_lmode32 s = (efer_lma s \<and> \<not> cs_l s \<and> cs_d s)"

definition uu_lmode16 :: "'a vm_cpu_scheme \<Rightarrow> bool" where
  "uu_lmode16 s = (efer_lma s \<and> \<not> cs_l s \<and> \<not> cs_d s)"

definition uu_v86mode :: "'a vm_cpu_scheme \<Rightarrow> bool" where
  "uu_v86mode s = (\<not> efer_lma s \<and> cr0_pe s \<and> rflags_vm s)"

definition uu_legacy32 :: "'a vm_cpu_scheme \<Rightarrow> bool" where
  "uu_legacy32 s = (\<not> efer_lma s \<and> u_xx_pmode32 s)"

definition u_xx_pmode16 :: "'a vm_cpu_scheme \<Rightarrow> bool" where
  "u_xx_pmode16 s = (cr0_pe s \<and> \<not> rflags_vm s \<and> \<not> cs_d s)"

definition uu_legacy16 :: "'a vm_cpu_scheme \<Rightarrow> bool" where
  "uu_legacy16 s = (\<not> efer_lma s \<and> u_xx_pmode16 s)"

definition uu_paged32 :: "'a vm_cpu_scheme \<Rightarrow> bool" where
  "uu_paged32 s = (cr0_pg s \<and> \<not> cr4_pae s \<and> \<not> efer_lma s)"

definition uu_paged_pae :: "'a vm_cpu_scheme \<Rightarrow> bool" where
  "uu_paged_pae s = (cr0_pg s \<and> cr4_pae s \<and> \<not> efer_lma s)"

definition cpu_mode_code :: "'a vm_cpu_scheme \<Rightarrow> u64" where
  "cpu_mode_code s =
     (if uu_legacy32 s then 4 else if uu_lmode64 s then 7 else if uu_rmode s then 1 else if uu_v86mode s then 2
      else if uu_legacy16 s then 3 else if uu_lmode16 s then 5 else if uu_lmode32 s then 6 else 0)"

definition cpu_paging_code :: "'a vm_cpu_scheme \<Rightarrow> u64" where
  "cpu_paging_code s = (if uu_paged32 s then 1 else if uu_paged_pae s then 2 else if uu_paged64 s then 3 else 0)"

definition gdb_vmm_cpu_mode :: "bytes \<Rightarrow> 'a gdb_state_scheme \<Rightarrow> 'a gdb_state_scheme option" where
  "gdb_vmm_cpu_mode data s =
     Some (send_numbers [(push_bit 16 (of_nat (cpu_addr_sz s)) OR push_bit 8 (cpu_paging_code s) OR cpu_mode_code s, 8)] False s)"

definition gdb_vmm_rd_msr :: "'a exit_env \<Rightarrow> bytes \<Rightarrow> 'a exit_vm_scheme \<Rightarrow> 'a exit_vm_scheme option" where
  "gdb_vmm_rd_msr env data s =
     with_number data
       (\<lambda>index. let srax = get_gpr GPR64_RAX s; srcx = get_gpr GPR64_RCX s; srdx = get_gpr GPR64_RDX s
                 in do { (rc, s) \<leftarrow> uu_resolve_msr_rd env (set_gpr GPR64_RCX index s);
                         let vals = [(get_gpr GPR64_RAX s, 8), (get_gpr GPR64_RDX s, 8)];
                         let s = set_gpr GPR64_RDX srdx (set_gpr GPR64_RCX srcx (set_gpr GPR64_RAX srax s));
                         Some (if rc AND (VM_FAIL OR VM_FAULT) \<noteq> 0 then gdb_nak s
                               else send_numbers vals False s) }) s"

section \<open>Dispatch\<close>

definition gdb_vmm_handlers ::
    "gv_env \<Rightarrow> 'a gv_vm_ext exit_env \<Rightarrow> (bytes \<Rightarrow> 'a gv_vm_scheme \<Rightarrow> 'a gv_vm_scheme option) list" where
  "gdb_vmm_handlers g env =
     [gdb_vmm_rd_all_sysregs, gdb_vmm_wr_all_sysregs, gdb_vmm_rd_sysreg, gdb_vmm_wr_sysreg, gdb_vmm_set_lbr,
      gdb_vmm_del_lbr, gdb_vmm_get_lbr env, gdb_vmm_rd_excp_mask, gdb_vmm_wr_excp_mask, gdb_vmm_set_active_cr3,
      gdb_vmm_del_active_cr3, gdb_vmm_rd_pmem g, gdb_vmm_wr_pmem g, gdb_vmm_rd_vmem g, gdb_vmm_wr_vmem g,
      gdb_vmm_translate g, gdb_vmm_rd_cr_rd_mask, gdb_vmm_wr_cr_rd_mask, gdb_vmm_rd_cr_wr_mask, gdb_vmm_wr_cr_wr_mask,
      gdb_vmm_keep_active_cr3, gdb_vmm_set_affinity, gdb_vmm_clear_idt_event, gdb_vmm_rdtsc g, gdb_vmm_npg_get_pte,
      gdb_vmm_npg_set_pte, gdb_vmm_get_fault, gdb_vmm_get_idt_event, gdb_vmm_can_cli, gdb_vmm_npg_translate g,
      gdb_vmm_npg_map, gdb_vmm_npg_unmap, gdb_vmm_cpu_mode, gdb_vmm_rd_filter_mask, gdb_vmm_wr_filter_mask,
      gdb_vmm_rd_msr env, gdb_vmm_filter_cpuid]"

text \<open>The test lets the index one past the end of the table through.\<close>

definition gdb_cmd_vmm_table :: "gv_env \<Rightarrow> 'a gv_vm_ext exit_env \<Rightarrow> bytes \<Rightarrow> 'a gv_vm_scheme \<Rightarrow> 'a gv_vm_scheme option" where
  "gdb_cmd_vmm_table g env data s =
     (let idx = unat (arg_byte data - 0x80); hdls = gdb_vmm_handlers g env
      in if idx \<le> length hdls then (if idx < length hdls then (hdls ! idx) (tl data) s else None)
         else Some (gdb_unsupported s))"

text \<open>The environment of the stub in which the extended commands are the ones above.\<close>

definition vmm_gdb_env ::
    "gv_env \<Rightarrow> 'a gv_vm_ext exit_env \<Rightarrow> ('a gv_vm_ext exit_vm_ext rm_vm_ext cpu_vm_ext io_vm_ext) gdb_env" where
  "vmm_gdb_env g env = (env_gdb env)\<lparr>gdb_cmd_vmm := gdb_cmd_vmm_table g env\<rparr>"

section \<open>The stub stays locked\<close>

lemma lock_send [simp]: "gs_lock (send_numbers vs e s) = gs_lock s" "gs_lock (gdb_err_inv s) = gs_lock s"
  by (simp_all add: send_numbers_def lock_foldl gdb_err_inv_def split: prod.split)

lemma lock_with_number:
  "with_number data f s = Some s' \<Longrightarrow> (\<And>v t. f v = Some t \<Longrightarrow> gs_lock t = gs_lock s) \<Longrightarrow> gs_lock s' = gs_lock s"
  by (auto simp: with_number_def split: option.splits)

lemma lock_with_args:
  "with_args data n f s = Some s' \<Longrightarrow> (\<And>v t. f v = Some t \<Longrightarrow> gs_lock t = gs_lock s) \<Longrightarrow> gs_lock s' = gs_lock s"
  by (auto simp: with_args_def split: option.splits)

lemma more_lock: "vm_cpu.more s' = vm_cpu.more s \<Longrightarrow> gs_lock s' = gs_lock s" for s :: "'a gdb_state_scheme"
  using dbg_more lock_more by blast

lemma lock_access:
  fixes s :: "'a gdb_state_scheme"
  shows "uu_vm_send_pmem a n s = Some (rc, s') \<Longrightarrow> gs_lock s' = gs_lock s"
    and "uu_vm_recv_pmem a n s = Some (rc, s') \<Longrightarrow> gs_lock s' = gs_lock s"
    and "uu_vm_send_vmem c a n s = Some (rc, s') \<Longrightarrow> gs_lock s' = gs_lock s"
    and "uu_vm_recv_vmem c a n s = Some (rc, s') \<Longrightarrow> gs_lock s' = gs_lock s"
  by (auto simp: uu_vm_send_pmem_def uu_vm_recv_pmem_def uu_vm_send_vmem_def uu_vm_recv_vmem_def acc_state_def
      dest!: more_lock [OF physical_more] more_lock [OF virtual_more])

lemma lock_mem_rw:
  assumes "uu_gdb_vmm_mem_rw_parse g access data s = Some s'"
    and "\<And>a n t rc t'. access a n t = Some (rc, t') \<Longrightarrow> gs_lock t' = gs_lock t"
  shows "gs_lock s' = gs_lock s"
proof -
  have "gs_lock u = gs_lock s"
    if "do { s \<leftarrow> gdb_wait_ack (gv_ack g) (gdb_ok s); (rc, s) \<leftarrow> access a n s;
             Some (if rc \<noteq> VM_DONE then gdb_err_mem s else s) } = Some u" for a n u
  proof -
    from that obtain t rc t' where "gdb_wait_ack (gv_ack g) (gdb_ok s) = Some t" "access a n t = Some (rc, t')"
      "u = (if rc \<noteq> VM_DONE then gdb_err_mem t' else t')"
      by (auto simp: bind_eq_Some_conv)
    moreover from this have "gs_lock t = gs_lock s" by (auto simp: gdb_wait_ack_def)
    ultimately show ?thesis using assms(2) by simp
  qed
  with assms(1) show ?thesis unfolding uu_gdb_vmm_mem_rw_parse_def by (rule lock_with_args)
qed

lemma lock_pdpe [simp]: "gs_lock (snd (pdpe_loop p is s)) = gs_lock s"
  by (induction "is" arbitrary: s) (simp_all add: vmx_ept_pdpe_to_pae_pdpe_def Let_def)

lemma lock_inject [simp]: "gs_lock (snd (inject_gp s)) = gs_lock s"
  by (simp add: inject_gp_def uu_vmx_vmexit_inject_exception_def Let_def)

lemma lock_pdpe_check [simp]: "gs_lock (snd (pdpe_check u s)) = gs_lock s"
  by (simp add: pdpe_check_def vmx_ept_update_pdpe_def Let_def split_beta del: pdpe_loop.simps)

lemma lock_reg_put [simp]: "gs_lock (vm_reg_put r v s) = gs_lock s"
  using lock_reg [of "L_REG r" v s] by simp

lemma lock_mode [simp]: "gs_lock (vm_enter_pmode s) = gs_lock s" "gs_lock (vm_enter_rmode s) = gs_lock s"
proof -
  have r: "gs_lock (vmx_allow_io_range a b t) = gs_lock t" "gs_lock (vmx_deny_io_range a b t) = gs_lock t"
    for a b and t :: "'b cpu_vm_scheme"
    by (subst io_range_eq, simp)+
  show "gs_lock (vm_enter_pmode s) = gs_lock s" "gs_lock (vm_enter_rmode s) = gs_lock s"
    by (simp_all add: vm_enter_pmode_def vm_enter_rmode_def uu_allow_soft_int_def uu_deny_soft_int_def set_idt_limit_def
        uu_update_exception_mask_def Let_def r)
qed

lemma lock_cr_wr [simp]:
  "gs_lock (snd (uu_resolve_cr0_wr v s)) = gs_lock s" "gs_lock (snd (uu_resolve_cr3_wr v s)) = gs_lock s"
  "gs_lock (snd (uu_resolve_cr4_wr v s)) = gs_lock s"
proof -
  show "gs_lock (snd (uu_resolve_cr0_wr v s)) = gs_lock s"
    by (simp add: uu_resolve_cr0_wr_def uu_cr0_update_def uu_efer_update_def uu_vmx_update_efer_lma_def Let_def del: vm_reg_put.simps)
  show "gs_lock (snd (uu_resolve_cr4_wr v s)) = gs_lock s"
    by (simp add: uu_resolve_cr4_wr_def uu_cr4_update_def Let_def del: vm_reg_put.simps)
  show "gs_lock (snd (uu_resolve_cr3_wr v s)) = gs_lock s"
    by (simp add: uu_resolve_cr3_wr_def Let_def split_beta)
qed

lemma gpr_lock [simp]: "gs_lock (set_gpr i v s) = gs_lock s" "gs_lock (set_gpr_low i w s) = gs_lock s" "gs_lock (set_edx_eax v s) = gs_lock s"
  by (simp_all add: set_gpr_def set_gpr_low_def gpr_put_def set_edx_eax_def)

lemma lock_msr_rd: "uu_resolve_msr_rd env s = Some (rc, s') \<Longrightarrow> gs_lock s' = gs_lock s"
  by (auto simp: bind_eq_Some_conv uu_resolve_msr_rd_def uu_vmx_vmexit_resolve_msr_def Let_def emulate_native_def
      uu_vmx_vmexit_resolve_msr_mtrr_def_def uu_vmx_vmexit_resolve_msr_efer_def uu_vmx_vmexit_resolve_msr_sysenter_cs_def
      uu_vmx_vmexit_resolve_msr_sysenter_esp_def uu_vmx_vmexit_resolve_msr_sysenter_eip_def uu_vmx_vmexit_resolve_msr_pat_def
      uu_vmx_vmexit_resolve_msr_dbgctl_def uu_vmx_vmexit_resolve_msr_perf_def split: if_splits)

lemma lock_lbr:
  assumes "gdb_vmm_get_lbr env data s = Some s'"
  shows "gs_lock s' = gs_lock s"
proof -
  have "gs_lock u = gs_lock t" if "vmm_rdmsr env r t = Some (v, u)" for r v t u using that by (auto simp: vmm_rdmsr_def)
  then show ?thesis using assms
    by (fastforce simp: gdb_vmm_get_lbr_def uu_setup_lbr_def uu_lbr_nehalem_def bind_eq_Some_conv)
qed

lemma lock_cr3 [simp]:
  "gs_lock (ctrl_active_cr3_disable s) = gs_lock s" "gs_lock (ctrl_active_cr3_enable v s) = gs_lock s"
proof -
  have "gs_lock (dbg_soft_reset t) = gs_lock t" for t :: "'b gdb_state_scheme"
    by (rule lock_more) (simp add: dbg_soft_reset_def dbg_soft_del_all_def dbg_soft_for_each_def dbg_soft_disable_def dbg_soft_release_def
        soft_loop_more split_def Let_def)
  then show "gs_lock (ctrl_active_cr3_disable s) = gs_lock s" by (simp add: ctrl_active_cr3_disable_def)
  then show "gs_lock (ctrl_active_cr3_enable v s) = gs_lock s" by (simp add: ctrl_active_cr3_enable_def Let_def)
qed

lemma lock_sysreg: "gdb_vmm_rd_sysreg data s = Some s' \<Longrightarrow> gs_lock s' = gs_lock s"
  by (auto simp: gdb_vmm_rd_sysreg_def dest!: lock_reg_op split: option.splits sum.splits)

lemma lock_store64 [simp]: "gs_lock (reg_store64 l sz v s) = gs_lock s"
  by (simp add: reg_store64_def)

lemma lock_wr_sysreg:
  assumes "gdb_vmm_wr_sysreg data s = Some s'"
  shows "gs_lock s' = gs_lock s"
proof (cases "gdb_reg_op data True True s")
  case (Some r)
  note l = lock_reg_op [OF this]
  show ?thesis
  proof (cases r)
    case (Inr x)
    obtain l sz v t where x: "x = (l, sz, v, t)" by (cases x)
    define w where "w = (if l = L_REG R_CR0 then uu_resolve_cr0_wr v t
      else if l = L_CR3 then uu_resolve_cr3_wr v (t\<lparr>cr3_dirty := True\<rparr>)
      else if l = L_REG R_CR4 then uu_resolve_cr4_wr v t else (VM_DONE, t))"
    have "gs_lock (snd w) = gs_lock t" by (simp add: w_def)
    moreover have "gdb_vmm_wr_sysreg data s = (if fst w = VM_FAIL then Some (gdb_err_inv (snd w))
        else Some (gdb_ok (reg_store64 l sz v (snd w))))"
      using Some Inr x by (simp add: gdb_vmm_wr_sysreg_def Let_def split_beta w_def)
    ultimately show ?thesis using assms l Inr x by (auto split: if_splits)
  qed (use assms Some l in \<open>simp add: gdb_vmm_wr_sysreg_def\<close>)
qed (use assms in \<open>simp add: gdb_vmm_wr_sysreg_def\<close>)

lemma lock_rd_msr:
  assumes "gdb_vmm_rd_msr env data s = Some s'"
  shows "gs_lock s' = gs_lock s"
  using assms unfolding gdb_vmm_rd_msr_def
  by (rule lock_with_number) (auto simp: Let_def bind_eq_Some_conv dest!: lock_msr_rd split: if_splits)

lemma lock_npg:
  "gdb_vmm_npg_get_pte data s = Some s' \<Longrightarrow> gs_lock s' = gs_lock s"
  "gdb_vmm_npg_set_pte data s = Some s' \<Longrightarrow> gs_lock s' = gs_lock s"
  "gdb_vmm_npg_translate g data s = Some s' \<Longrightarrow> gs_lock s' = gs_lock s"
  "gdb_vmm_npg_map data s = Some s' \<Longrightarrow> gs_lock s' = gs_lock s"
  "gdb_vmm_npg_unmap data s = Some s' \<Longrightarrow> gs_lock s' = gs_lock s"
  "gdb_vmm_translate g data t = Some t' \<Longrightarrow> gs_lock t' = gs_lock t"
  unfolding gdb_vmm_npg_get_pte_def gdb_vmm_npg_set_pte_def gdb_vmm_npg_translate_def gdb_vmm_npg_map_def gdb_vmm_npg_unmap_def
    gdb_vmm_translate_def
  by ((erule lock_with_number lock_with_args, auto simp: Let_def split: option.splits prod.splits if_splits)[1])+

lemma lock_filters:
  "gdb_vmm_wr_excp_mask data s = Some s' \<Longrightarrow> gs_lock s' = gs_lock s"
  "gdb_vmm_set_active_cr3 data s = Some s' \<Longrightarrow> gs_lock s' = gs_lock s"
  "gdb_vmm_wr_cr_rd_mask data s = Some s' \<Longrightarrow> gs_lock s' = gs_lock s"
  "gdb_vmm_wr_cr_wr_mask data s = Some s' \<Longrightarrow> gs_lock s' = gs_lock s"
  "gdb_vmm_wr_filter_mask data s = Some s' \<Longrightarrow> gs_lock s' = gs_lock s"
  "gdb_vmm_filter_cpuid data s = Some s' \<Longrightarrow> gs_lock s' = gs_lock s"
  "gdb_vmm_set_affinity data t = Some t' \<Longrightarrow> gs_lock t' = gs_lock t"
  unfolding gdb_vmm_wr_excp_mask_def gdb_vmm_set_active_cr3_def gdb_vmm_wr_cr_rd_mask_def gdb_vmm_wr_cr_wr_mask_def
    gdb_vmm_wr_filter_mask_def gdb_vmm_filter_cpuid_def gdb_vmm_set_affinity_def
  by ((erule lock_with_number, auto simp: uu_update_exception_mask_def ctrl_usr_set_cr_rd_def ctrl_usr_set_cr_wr_def
      uu_vmx_vmexit_cr_update_mask_def)[1])+

lemma lock_transfer:
  "gdb_vmm_rd_pmem g data s = Some s' \<Longrightarrow> gs_lock s' = gs_lock s" "gdb_vmm_wr_pmem g data s = Some s' \<Longrightarrow> gs_lock s' = gs_lock s"
  "gdb_vmm_rd_vmem g data s = Some s' \<Longrightarrow> gs_lock s' = gs_lock s" "gdb_vmm_wr_vmem g data s = Some s' \<Longrightarrow> gs_lock s' = gs_lock s"
  unfolding gdb_vmm_rd_pmem_def gdb_vmm_wr_pmem_def gdb_vmm_rd_vmem_def gdb_vmm_wr_vmem_def
  by (erule lock_mem_rw, erule lock_access)+

lemmas vmm_plain_defs = gdb_vmm_rd_all_sysregs_def gdb_vmm_wr_all_sysregs_def gdb_vmm_set_lbr_def gdb_vmm_del_lbr_def
  gdb_vmm_rd_excp_mask_def gdb_vmm_del_active_cr3_def gdb_vmm_keep_active_cr3_def gdb_vmm_rd_cr_rd_mask_def
  gdb_vmm_rd_cr_wr_mask_def gdb_vmm_rd_filter_mask_def gdb_vmm_clear_idt_event_def gdb_vmm_get_idt_event_def gdb_vmm_rdtsc_def
  gdb_vmm_can_cli_def gdb_vmm_get_fault_def gdb_vmm_cpu_mode_def

lemma lock_handlers:
  assumes "h \<in> set (gdb_vmm_handlers g env)" and "h data s = Some s'"
  shows "gs_lock s' = gs_lock s"
  using assms unfolding gdb_vmm_handlers_def list.set insert_iff empty_iff
  by (elim disjE) (auto simp: vmm_plain_defs Let_def uu_enable_lbr_def uu_disable_lbr_def
      uu_vmx_clear_event_injection_def split: if_splits
      dest: lock_lbr lock_sysreg lock_wr_sysreg lock_rd_msr lock_npg lock_filters lock_transfer)

section \<open>Reading a model specific register\<close>

text \<open>The digits of the halves of a register.\<close>

lemma nibs_low: "nibs (take_bit 32 v) 8 = nibs v 8"
proof (rule nth_equalityI)
  fix i assume "i < length (nibs (take_bit 32 v) 8)"
  then have i: "i < 8" by simp
  have "drop_bit (4 * i) (take_bit 32 v) AND 15 = drop_bit (4 * i) v AND 15"
    by (rule bit_eqI) (use i in \<open>auto simp: and_15 bit_simps\<close>)
  then show "nibs (take_bit 32 v) 8 ! i = nibs v 8 ! i" using i by (simp add: nibs_def)
qed simp

lemma add_number_low: "take_bit 32 v = take_bit 32 w \<Longrightarrow> gdb_add_number v 8 e s = gdb_add_number w 8 e s"
  using uint64_to_hex_rep_fixed [of 8 v "[]"] uint64_to_hex_rep_fixed [of 8 w "[]"] nibs_low [of v] nibs_low [of w]
  by (simp add: gdb_add_number_def uint64_to_hex_def Let_def)

lemma set_edx_eax_halves:
  assumes "length (vm_gpr s) = 16"
  shows "take_bit 32 (get_gpr GPR64_RAX (set_edx_eax v s)) = take_bit 32 v"
    "take_bit 32 (get_gpr GPR64_RDX (set_edx_eax v s)) = take_bit 32 (drop_bit 32 v)"
proof -
  have low: "take_bit 32 (set_field 0 32 (ucast (ucast x :: u32)) y) = take_bit 32 x" for x y :: u64
    by (rule bit_eqI) (auto simp: bit_set_field bit_simps)
  show "take_bit 32 (get_gpr GPR64_RAX (set_edx_eax v s)) = take_bit 32 v"
    "take_bit 32 (get_gpr GPR64_RDX (set_edx_eax v s)) = take_bit 32 (drop_bit 32 v)"
    using assms low [of v] low [of "drop_bit 32 v"]
    by (simp_all add: set_edx_eax_def set_gpr_low_def gpr_put_def set_gpr_def get_gpr_def gpr_numbers GPR64_RSP_def)
qed

text \<open>The three registers that the read uses are put back.\<close>

lemma restore_gprs:
  assumes "length (vm_gpr s) = 16"
  shows "set_gpr GPR64_RDX (get_gpr GPR64_RDX s) (set_gpr GPR64_RCX (get_gpr GPR64_RCX s)
    (set_gpr GPR64_RAX (get_gpr GPR64_RAX s) (set_edx_eax v (set_gpr GPR64_RCX r s)))) = s"
proof -
  have "xs[RC := r, RA := a, RD := d, RA := xs ! RA, RC := xs ! RC, RD := xs ! RD] = xs"
    if "RA \<noteq> RC" "RA \<noteq> RD" "RC \<noteq> RD" "RA < length xs" "RC < length xs" "RD < length xs" for xs :: "u64 list" and RA RC RD a d
    by (rule nth_equalityI) (use that in \<open>simp_all add: nth_list_update\<close>)
  from this [of GPR64_RAX GPR64_RCX GPR64_RDX "vm_gpr s"] assms show ?thesis
    by (simp add: set_edx_eax_def set_gpr_low_def gpr_put_def set_gpr_def get_gpr_def gpr_numbers GPR64_RSP_def list_update_swap)
qed

lemma set_gpr_emu: "(set_gpr GPR64_RCX r s)\<lparr>emu_sts := x, hw_msr := m\<rparr> = set_gpr GPR64_RCX r (s\<lparr>emu_sts := x, hw_msr := m\<rparr>)"
  by (cases s) (simp add: set_gpr_def)

lemma rd_msr_answer:
  assumes len: "length (vm_gpr s) = 16" and r: "gdb_get_number data False = Some r"
    and rd: "uu_resolve_msr_rd env (set_gpr GPR64_RCX r s) = Some (VM_DONE, set_edx_eax v (set_gpr GPR64_RCX r t))"
    and t: "vm_gpr t = vm_gpr s" "vm_rsp t = vm_rsp s"
  shows "gdb_vmm_rd_msr env data s = Some (send_numbers [(v, 8), (drop_bit 32 v, 8)] False t)"
proof -
  define u where "u = set_edx_eax v (set_gpr GPR64_RCX r t)"
  have gpr: "get_gpr i t = get_gpr i s" "length (vm_gpr t) = 16" for i using len t by (simp_all add: get_gpr_def)
  have h: "take_bit 32 (get_gpr GPR64_RAX u) = take_bit 32 v" "take_bit 32 (get_gpr GPR64_RDX u) = take_bit 32 (drop_bit 32 v)"
    using set_edx_eax_halves [of "set_gpr GPR64_RCX r t" v] gpr(2) by (simp_all add: u_def set_gpr_def)
  have "gdb_vmm_rd_msr env data s =
      Some (send_numbers [(get_gpr GPR64_RAX u, 8), (get_gpr GPR64_RDX u, 8)] False t)"
    using rd [folded u_def] restore_gprs [OF gpr(2), of v r, unfolded gpr(1), folded u_def]
    by (simp add: gdb_vmm_rd_msr_def with_number_def r Let_def vmerr_defs)
  also have "\<dots> = Some (send_numbers [(v, 8), (drop_bit 32 v, 8)] False t)"
    by (simp add: send_numbers_def add_number_low [OF h(1)] add_number_low [OF h(2)])
  finally show ?thesis .
qed

lemma rd_msr_eq:
  assumes len: "length (vm_gpr s) = 16" and r: "gdb_get_number data False = Some r" and w: "\<not> msr_word env (ucast r)"
  shows "gdb_vmm_rd_msr env data s =
    (if msr_native env (ucast r)
     then map_option (\<lambda>(v, m). send_numbers [(v, 8), (drop_bit 32 v, 8)] False (s\<lparr>emu_sts := EMU_STS_NATIVE, hw_msr := m\<rparr>))
            (hw_rdmsr env (ucast r) (hw_msr s))
     else Some (send_numbers [(msr_value env (ucast r) s, 8), (drop_bit 32 (msr_value env (ucast r) s), 8)] False s))"
proof -
  let ?t = "set_gpr GPR64_RCX r s"
  have low: "gpr_low GPR64_RCX ?t = ucast r" and val: "msr_value env q ?t = msr_value env q s" "hw_msr ?t = hw_msr s" for q
    using len by (simp_all add: gpr_low_def gpr_get_def set_gpr_def get_gpr_def gpr_numbers GPR64_RSP_def get_field_def)
      (rule bit_eqI, simp add: bit_simps)
  show ?thesis
  proof (cases "msr_native env (ucast r)")
    case True
    have rd: "uu_resolve_msr_rd env ?t = map_option (\<lambda>(v, m). (VM_DONE, set_edx_eax v (set_gpr GPR64_RCX r (s\<lparr>emu_sts := EMU_STS_NATIVE, hw_msr := m\<rparr>))))
        (hw_rdmsr env (ucast r) (hw_msr s))"
      using low True val(2) by (simp add: uu_resolve_msr_rd_def msr_arch_native emulate_native_def Let_def set_gpr_emu)
    show ?thesis
    proof (cases "hw_rdmsr env (ucast r) (hw_msr s)")
      case None
      then show ?thesis using rd True by (simp add: gdb_vmm_rd_msr_def with_number_def r)
    next
      case (Some x)
      then show ?thesis using rd True rd_msr_answer [OF len r, of env "fst x" "s\<lparr>emu_sts := EMU_STS_NATIVE, hw_msr := snd x\<rparr>"]
        by (simp add: split_beta)
    qed
  next
    case False
    have "uu_resolve_msr_rd env ?t = Some (VM_DONE, set_edx_eax (msr_value env (ucast r) s) ?t)"
      using False by (simp add: uu_resolve_msr_rd_def msr_arch_rd [OF w low] val vmerr_defs)
    then show ?thesis using False rd_msr_answer [OF len r] by simp
  qed
qed

section \<open>One page of the nested tables\<close>

text \<open>The walk reads four entries at most.\<close>

lemma walk_frame:
  assumes "npg_pml4 s' = npg_pml4 s" "skillz_pg_1G s' = skillz_pg_1G s" "skillz_pg_2M s' = skillz_pg_2M s"
    and "rd_ent (npg_pml4 s, pml4_idx v) s' = rd_ent (npg_pml4 s, pml4_idx v) s"
    and "e4 = rd_ent (npg_pml4 s, pml4_idx v) s" "e3 = rd_ent (page_addr (npg_addr e4), pdp_idx v) s"
      "e2 = rd_ent (page_addr (npg_addr e3), pd64_idx v) s"
    and "npg_present e4 \<Longrightarrow> rd_ent (page_addr (npg_addr e4), pdp_idx v) s' = e3"
    and "npg_present e4 \<Longrightarrow> npg_present e3 \<Longrightarrow> \<not> (skillz_pg_1G s \<and> npg_large e3) \<Longrightarrow> rd_ent (page_addr (npg_addr e3), pd64_idx v) s' = e2"
    and "npg_present e4 \<Longrightarrow> npg_present e3 \<Longrightarrow> \<not> (skillz_pg_1G s \<and> npg_large e3) \<Longrightarrow> npg_present e2
      \<Longrightarrow> \<not> (skillz_pg_2M s \<and> npg_large e2)
      \<Longrightarrow> rd_ent (page_addr (npg_addr e2), pt64_idx v) s' = rd_ent (page_addr (npg_addr e2), pt64_idx v) s"
  shows "uu_npg_walk s' v wlk = uu_npg_walk s v wlk"
proof -
  note a = assms(8-10) [unfolded assms(7), unfolded assms(6), unfolded assms(5)]
  show ?thesis unfolding uu_npg_walk_def Let_def by (simp add: assms(1-4) a cong: if_cong)
qed

text \<open>The entry the handler finds, and where the walk of another page can meet it.\<close>

lemma get_pte_path:
  assumes "u_npg_get_pte a n = Some p"
  defines "e4 \<equiv> rd_ent (npg_pml4 n, pml4_idx a) n"
  defines "e3 \<equiv> rd_ent (page_addr (npg_addr e4), pdp_idx a) n"
  defines "e2 \<equiv> rd_ent (page_addr (npg_addr e3), pd64_idx a) n"
  shows "npg_present e4" "npg_present e3" "\<not> npg_large e3" "npg_present e2" "\<not> npg_large e2"
    "p = (page_addr (npg_addr e2), pt64_idx a)"
  using assms(1)
  by (auto simp: u_npg_get_pte_def uu_npg_get_pdpe_def uu_npg_get_pde_def uu_npg_get_pte_def uu_npg_get_pdpe_nocheck_def
      uu_npg_get_pde_nocheck_def uu_npg_get_pte_nocheck_def Let_def e4_def e3_def e2_def split: option.splits if_splits)

lemma walk_labels:
  assumes wf: "wf_tbls own n" and v: "v < 2 ^ 48"
  defines "e4 \<equiv> rd_ent (npg_pml4 n, pml4_idx v) n"
  defines "e3 \<equiv> rd_ent (page_addr (npg_addr e4), pdp_idx v) n"
  defines "e2 \<equiv> rd_ent (page_addr (npg_addr e3), pd64_idx v) n"
  shows "npg_present e4 \<Longrightarrow> own (page_addr (npg_addr e4)) = Some (2, blk 3 v)"
    and "npg_present e4 \<Longrightarrow> npg_present e3 \<Longrightarrow> \<not> (skillz_pg_1G n \<and> npg_large e3) \<Longrightarrow> own (page_addr (npg_addr e3)) = Some (1, blk 2 v)"
    and "npg_present e4 \<Longrightarrow> npg_present e3 \<Longrightarrow> \<not> (skillz_pg_1G n \<and> npg_large e3) \<Longrightarrow> npg_present e2
      \<Longrightarrow> \<not> (skillz_pg_2M n \<and> npg_large e2) \<Longrightarrow> own (page_addr (npg_addr e2)) = Some (0, blk 1 v)"
proof -
  have num: "3 = Suc (Suc (Suc 0))" "2 = Suc (Suc 0)" "1 = Suc 0" by simp_all
  note e = meta_eq_to_obj_eq [OF e4_def, unfolded idx_lvl num] meta_eq_to_obj_eq [OF e3_def, unfolded idx_lvl num]
    meta_eq_to_obj_eq [OF e2_def, unfolded idx_lvl num]
  note t4 = top_table [OF wf v, unfolded num]
  have l4: "\<not> npg_large e4" using ent_cover [OF wf t4] by (simp add: ent_ok_def e)
  have t3: "own (page_addr (npg_addr e4)) = Some (Suc (Suc 0), blk (Suc (Suc (Suc 0))) v)" if "npg_present e4"
    using that l4 by (intro ent_child [OF wf t4 e(1)])
  have l3: "skillz_pg_1G n" if "npg_present e4" "npg_large e3"
    using ent_cover [OF wf t3] that by (simp add: ent_ok_def e)
  have t2: "own (page_addr (npg_addr e3)) = Some (Suc 0, blk (Suc (Suc 0)) v)"
    if "npg_present e4" "npg_present e3" "\<not> npg_large e3"
    using that by (intro ent_child [OF wf t3 e(2)])
  have l2: "skillz_pg_2M n" if "npg_present e4" "npg_present e3" "\<not> npg_large e3" "npg_large e2"
    using ent_cover [OF wf t2] that by (simp add: ent_ok_def e)
  have t1: "own (page_addr (npg_addr e2)) = Some (0, blk (Suc 0) v)"
    if "npg_present e4" "npg_present e3" "\<not> npg_large e3" "npg_present e2" "\<not> npg_large e2"
    using that by (intro ent_child [OF wf t2 e(3)])
  show "npg_present e4 \<Longrightarrow> own (page_addr (npg_addr e4)) = Some (2, blk 3 v)" using t3 by (simp only: num)
  show "own (page_addr (npg_addr e3)) = Some (1, blk 2 v)"
    if "npg_present e4" "npg_present e3" "\<not> (skillz_pg_1G n \<and> npg_large e3)"
    using t2 l3 that by (simp only: num) blast
  show "own (page_addr (npg_addr e2)) = Some (0, blk 1 v)"
    if "npg_present e4" "npg_present e3" "\<not> (skillz_pg_1G n \<and> npg_large e3)" "npg_present e2"
      "\<not> (skillz_pg_2M n \<and> npg_large e2)"
    using t1 l3 l2 that by (simp only: num) blast
qed

lemma get_pte_label:
  assumes wf: "wf_tbls own n" and a: "a < 2 ^ 48" and p: "u_npg_get_pte a n = Some p"
  shows "own (fst p) = Some (0, blk 1 a)" "snd p = lvl_idx 0 a"
  using get_pte_path [OF p] walk_labels(3) [OF wf a] by (auto simp: idx_lvl)

lemma set_pte_walk_other:
  assumes wf: "wf_tbls own n" and a: "a < 2 ^ 48" and p: "u_npg_get_pte a n = Some p"
    and v: "v < 2 ^ 48" "blk 0 v \<noteq> blk 0 a"
  shows "uu_npg_walk (wr_ent p e n) v wlk = uu_npg_walk n v wlk"
proof -
  note l = walk_labels [OF wf v(1)] and lp = get_pte_label [OF wf a p]
  have rd: "rd_ent (t, i) (wr_ent p e n) = rd_ent (t, i) n" if "own t = Some (j, m)" "j \<noteq> 0" for t i j m
    using lp(1) that by (auto simp: rd_ent_def wr_ent_def)
  have "rd_ent (t, pt64_idx v) (wr_ent p e n) = rd_ent (t, pt64_idx v) n" if "own t = Some (0, blk 1 v)" for t
  proof -
    have "\<not> (blk 1 v = blk 1 a \<and> lvl_idx 0 v = lvl_idx 0 a)" using v(2) blk_idx [of 0 v] blk_idx [of 0 a] by auto
    then have "(t, pt64_idx v) \<noteq> p" using lp that by (auto simp: idx_lvl)
    then show ?thesis by (simp add: rd_ent_def wr_ent_def)
  qed
  with l rd [OF wf_tblsD(3) [OF wf]] rd show ?thesis
    by (intro walk_frame [OF _ _ _ _ refl refl refl]) (auto simp: wr_ent_def)
qed

lemma set_pte_walk_page:
  assumes wf: "wf_tbls own n" and a: "a < 2 ^ 48" and p: "u_npg_get_pte a n = Some p" and v: "blk 0 v = blk 0 a"
  shows "fst (uu_npg_walk (wr_ent p e n) v wlk) = (if npg_present e then VM_DONE else VM_FAULT)"
    "npg_present e \<Longrightarrow> wlk_addr (snd (uu_npg_walk (wr_ent p e n) v wlk)) = page_addr (npg_addr e) + take_bit 12 v"
proof -
  note g = get_pte_path [OF p] and lp = get_pte_label [OF wf a p] and l = walk_labels [OF wf a]
  have i: "pml4_idx v = pml4_idx a" "pdp_idx v = pdp_idx a" "pd64_idx v = pd64_idx a" "pt64_idx v = pt64_idx a"
    using blk_mono [OF _ v] by (simp_all add: idx_lvl lvl_idx_def)
  have rd: "rd_ent (t, i) (wr_ent p e n) = rd_ent (t, i) n" if "own t = Some (j, m)" "j \<noteq> 0" for t i j m
    using lp(1) that by (auto simp: rd_ent_def wr_ent_def)
  have "rd_ent p (wr_ent p e n) = e" by (simp add: rd_ent_def wr_ent_def)
  moreover have "v AND (PG_4K_SIZE - 1) = take_bit 12 v"
    using and_pow2_minus_1 [of v 12] by (simp add: PG_4K_SIZE_def)
  ultimately show "fst (uu_npg_walk (wr_ent p e n) v wlk) = (if npg_present e then VM_DONE else VM_FAULT)"
    "npg_present e \<Longrightarrow> wlk_addr (snd (uu_npg_walk (wr_ent p e n) v wlk)) = page_addr (npg_addr e) + take_bit 12 v"
    using g l(1,2) rd [OF wf_tblsD(3) [OF wf]] rd
    by (simp_all add: uu_npg_walk_def Let_def i wlk_done_def wlk_fault_def wr_ent_def page_addr_def PAGE_SHIFT_def)
qed

section \<open>An example\<close>

definition gv_ex :: gv_vm where
  "gv_ex = exit_vm.extend exit_ex (gv_vm.fields 0 0 False (\<lambda>l. None))"

definition gv_env_ex :: gv_env where
  "gv_env_ex = \<lparr>gv_tsc = 0, gv_ack = 0, gv_wlk = wlk_any,
     gv_nwlk = \<lparr>wlk_entry = (0, 0), wlk_addr = 0, wlk_size = 0, wlk_u = 0, wlk_r = 0, wlk_w = 0, wlk_x = 0, wlk_type = PG_WALK_TYPE_PML4E\<rparr>\<rparr>"

definition gv_exit_env_ex :: "unit gv_vm_ext exit_env" where
  "gv_exit_env_ex = \<lparr>cfg_cpuid_qemu = CPUID_QEMU_NONE, cfg_msr_proxy = False, hw_cpuid = (\<lambda>a c. (a, 0, 0xffffffff, 0)),
     hw_rdmsr = hw_rdmsr exit_env_ex, hw_wrmsr = hw_wrmsr exit_env_ex, env_ud = (\<lambda>m bs. None), env_stack = 0,
     env_io = \<lparr>env_pio = (\<lambda>l p n. 0xff), env_wake = (\<lambda>s. (VM_DONE, s)), env_junk = []\<rparr>,
     env_gdb = env_ex, env_own = (\<lambda>h a s. (VM_DONE, s))\<rparr>"

lemma gv_ex_sel [simp]: "length (vm_gpr gv_ex) = 16" "vm_npg gv_ex = npg_ex" "\<not> cr0_pe gv_ex" "hw_msr gv_ex = (\<lambda>r. 0)" "gs_lock gv_ex"
  by (simp_all add: gv_ex_def gv_vm.defs exit_ex_def exit_vm.defs rm_ex_def rm_vm.defs cpu_vm.defs cpu_ex_def io_vm.defs io_ex_def gdb_ex_def
      gdb_state.defs ctrl_ex_def dbg_ex_def dbg_vm.defs ctrl_vm.defs vm_cpu.defs vm_ex_def)

section \<open>Properties\<close>

text \<open>C17: no packet of the host lets a stopped guest run but those that are meant to: with the commands
  of the monitor in place, after any other command than continue, step, kill and detach the stub
  is still locked.\<close>

theorem gdb_vmm_stays_locked:
  assumes "gs_lock s" and "gdb_process_packet (vmm_gdb_env g env) pkt s = Some s'"
    and "hd pkt \<notin> {GDB_CMD_CONT, GDB_CMD_STEP, GDB_CMD_KILL, GDB_CMD_DETACH}"
  shows "gs_lock s'"
proof (cases "hd pkt = GDB_CMD_VMM")
  case True
  then have "gdb_cmd_vmm_table g env (tl pkt) s = Some s'"
    using assms(2) by (simp add: gdb_process_packet_def vmm_gdb_env_def gdb_cmd_defs)
  then show ?thesis using assms(1)
    by (auto simp: gdb_cmd_vmm_table_def Let_def dest!: lock_handlers [OF nth_mem] split: if_splits)
next
  case False
  with assms show ?thesis using lock_plain [OF assms(2) _] by simp
qed

theorem gdb_vmm_stays_locked_witness:
  "\<exists>s'. gdb_process_packet (vmm_gdb_env gv_env_ex gv_exit_env_ex) [GDB_CMD_VMM, 0x84] gv_ex = Some s' \<and> gs_lock s'"
proof -
  have p: "gdb_process_packet (vmm_gdb_env gv_env_ex gv_exit_env_ex) [GDB_CMD_VMM, 0x84] gv_ex = Some (gdb_ok (uu_enable_lbr gv_ex))"
    by (simp add: gdb_process_packet_def vmm_gdb_env_def gdb_cmd_defs gdb_cmd_vmm_table_def arg_byte_def gdb_vmm_handlers_def gdb_vmm_set_lbr_def)
  have "gs_lock (gdb_ok (uu_enable_lbr gv_ex))" by (rule gdb_vmm_stays_locked [OF _ p]) (simp_all add: gdb_cmd_defs)
  with p show ?thesis by blast
qed

text \<open>C20: the byte after the command of the monitor selects the handler: the bytes from 80h on name the
  thirty-seven of them in the order of the table, and every byte out of range is answered as
  unsupported. Only the byte a5h is neither: it passes the test of the range and a function
  pointer is taken from behind the table.\<close>

theorem gdb_vmm_dispatch:
  "gdb_process_packet (vmm_gdb_env g env) (GDB_CMD_VMM # b # data) s =
     (if b < 0x80 \<or> b > 0xa5 then Some (gdb_unsupported s)
      else if b = 0xa5 then None
      else (gdb_vmm_handlers g env ! unat (b - 0x80)) data s)"
proof -
  have n: "length (gdb_vmm_handlers g env) = 37" by (simp add: gdb_vmm_handlers_def)
  have u: "unat (b - 0x80) = (if b < 0x80 then unat b + 128 else unat b - 128)"
    using unat_sub_if' [of b "0x80"] by (auto simp: word_less_nat_alt)
  have "gdb_process_packet (vmm_gdb_env g env) (GDB_CMD_VMM # b # data) s = gdb_cmd_vmm_table g env (b # data) s"
    by (simp add: gdb_process_packet_def vmm_gdb_env_def gdb_cmd_defs)
  moreover have "(b < 0x80) = (unat b < 128)" "(b > 0xa5) = (unat b > 165)" "(b = 0xa5) = (unat b = 165)"
    by (simp_all add: word_less_nat_alt word_unat_eq_iff)
  ultimately show ?thesis by (auto simp: gdb_cmd_vmm_table_def arg_byte_def n u Let_def)
qed

text \<open>The command of the monitor that writes a system register means to refuse a value of cr0 that
  the processor would refuse, but never does: it answers that all is well, the value is in the
  register and a general protection fault is pending for the guest, although the guest did nothing.
  After paging is set without protection, the mode of the guest is no longer well formed.\<close>

theorem gdb_wr_sysreg_invalid_cr0:
  assumes "uu_gdb_setup_reg_op data True = Some (0, v)" and "uu_invalid_cr0_setup v"
  shows "\<exists>s'. gdb_vmm_wr_sysreg data s = Some s' \<and> vm_reg_get R_CR0 s' = v \<and> cr0_real s' = cr0_real s
    \<and> evt_v (vm_evt s') \<and> evt_vector (vm_evt s') = 13 \<and> io_out s' = io_out s @ bytes_of_string ''+$OK#9a''
    \<and> (bit v 31 \<and> \<not> bit v 0 \<longrightarrow> \<not> mode_ok s')"
proof -
  define t where "t = snd (inject_gp s)"
  have t: "evt_v (vm_evt t)" "evt_vector (vm_evt t) = 13" "cr0_real t = cr0_real s" "io_out t = io_out s"
    by (simp_all add: t_def inject_gp_def uu_vmx_vmexit_inject_exception_def uu_vmx_prepare_event_injection_def Let_def GP_EXCP_def)
  have op: "gdb_reg_op data True True s = Some (Inr (L_REG R_CR0, 8, v, s))"
    using assms(1) by (simp add: gdb_reg_op_def uu_gdb_setup_reg_def gdb_reg_accessor_def gdb_sys_reg_acc_def Let_def)
  have "uu_resolve_cr0_wr v s = (VM_FAULT, t)"
    using assms(2) by (simp add: uu_resolve_cr0_wr_def Let_def t_def inject_gp_def)
  then have "gdb_vmm_wr_sysreg data s = Some (gdb_ok (vm_reg_put R_CR0 v t))"
    using op by (simp add: gdb_vmm_wr_sysreg_def reg_store64_def vmerr_defs del: vm_reg_put.simps)
  moreover have "vm_reg_get R_CR0 (gdb_ok (vm_reg_put R_CR0 v t)) = v"
    using vm_reg_get_put [of R_CR0 v t] by (simp add: gdb_ok_def gdb_io_write_def del: vm_reg_put.simps vm_reg_get.simps)
  moreover have "\<not> mode_ok (gdb_ok (vm_reg_put R_CR0 v t))" if "bit v 31" "\<not> bit v 0"
    using that by (simp add: mode_ok_def mode_regs_def gdb_ok_def gdb_io_write_def)
  ultimately show ?thesis using t by (simp add: gdb_ok_def gdb_io_write_def del: vm_reg_get.simps)
qed

theorem gdb_wr_sysreg_invalid_cr0_witness:
  "\<exists>s'. gdb_vmm_wr_sysreg (bytes_of_string ''0=0000008000000000'') gv_ex = Some s' \<and> \<not> mode_ok s' \<and> evt_vector (vm_evt s') = 13"
proof -
  have "uu_gdb_setup_reg_op (bytes_of_string ''0=0000008000000000'') True = Some (0, 0x80000000)" by code_simp
  moreover have "uu_invalid_cr0_setup 0x80000000" "bit (0x80000000 :: u64) 31" "\<not> bit (0x80000000 :: u64) 0" by code_simp+
  ultimately show ?thesis using gdb_wr_sysreg_invalid_cr0 [of _ "0x80000000" gv_ex] by blast
qed

text \<open>C19: reading a model specific register for the host is invisible to the guest. For a register
  that the vmm keeps, the answer is the value that the guest would read, in two halves of eight
  digits, lowest half first, and the state is the one before, with all general registers. For
  any other register it is the answer of the processor, in the same form, and besides what the
  processor did to its own registers only the mark that it was asked changes; a fault of the
  processor is not caught. The segment of fast system calls under the proxy configuration,
  which has no upper half, is not part of the statement.\<close>

theorem gdb_rd_msr_transparent:
  assumes "length (vm_gpr s) = 16" and "gdb_get_number data False = Some r" and "\<not> msr_word env (ucast r)"
  shows "gdb_vmm_rd_msr env data s =
    (if msr_native env (ucast r)
     then map_option (\<lambda>(v, m). send_numbers [(v, 8), (drop_bit 32 v, 8)] False (s\<lparr>emu_sts := EMU_STS_NATIVE, hw_msr := m\<rparr>))
            (hw_rdmsr env (ucast r) (hw_msr s))
     else Some (send_numbers [(msr_value env (ucast r) s, 8), (drop_bit 32 (msr_value env (ucast r) s), 8)] False s))"
  by (rule rd_msr_eq [OF assms])

theorem gdb_rd_msr_transparent_witness:
  "gdb_vmm_rd_msr gv_exit_env_ex (bytes_of_string ''c0000103'') (gv_ex\<lparr>hw_msr := (\<lambda>r. 0x700000002)\<rparr>) =
     Some (send_numbers [(0x700000002, 8), (7, 8)] False (gv_ex\<lparr>emu_sts := EMU_STS_NATIVE, hw_msr := (\<lambda>r. 0x700000002)\<rparr>))"
proof -
  let ?s = "gv_ex\<lparr>hw_msr := (\<lambda>r. 0x700000002)\<rparr>"
  have n: "gdb_get_number (bytes_of_string ''c0000103'') False = Some 0xc0000103" "ucast (0xc0000103 :: u64) = (0xc0000103 :: u32)"
    "drop_bit 32 (0x700000002 :: u64) = 7" by code_simp+
  have m: "\<not> msr_word gv_exit_env_ex 0xc0000103" "msr_native gv_exit_env_ex 0xc0000103"
    "hw_rdmsr gv_exit_env_ex 0xc0000103 (hw_msr ?s) = Some (0x700000002, hw_msr ?s)"
    by (simp_all add: msr_word_def msr_native_def msr_nums gv_exit_env_ex_def exit_env_ex_def TSC_AUX_MSR_def)
  have "gdb_vmm_rd_msr gv_exit_env_ex (bytes_of_string ''c0000103'') ?s =
     Some (send_numbers [(0x700000002, 8), (7, 8)] False (?s\<lparr>emu_sts := EMU_STS_NATIVE, hw_msr := hw_msr ?s\<rparr>))"
    using gdb_rd_msr_transparent [of ?s "bytes_of_string ''c0000103''" "0xc0000103" gv_exit_env_ex] n m by simp
  then show ?thesis by simp
qed

text \<open>C18: the host can remap one page of the guest and nothing else changes. When the tables of the
  nested translation are well formed and the page of the address has an entry of its own, the
  command that sets it is accepted; then every address of that page translates to the frame of the
  new entry, or faults when the entry is not present, and the walk of every other address is
  the one before.\<close>

theorem gdb_set_pte_remaps:
  assumes "tbls_ok (vm_npg s)" and "uu_gdb_vmm_parse_args data 2 = Some [a, e]" and "a < 2 ^ 48"
    and "u_npg_get_pte a (vm_npg s) = Some p"
  shows "\<exists>s'. gdb_vmm_npg_set_pte data s = Some s' \<and> io_out s' = io_out s @ bytes_of_string ''+$OK#9a''
    \<and> (\<forall>v. v < 2 ^ 48 \<and> drop_bit 12 v \<noteq> drop_bit 12 a \<longrightarrow> uu_npg_walk (vm_npg s') v wlk = uu_npg_walk (vm_npg s) v wlk)
    \<and> (\<forall>v. drop_bit 12 v = drop_bit 12 a \<longrightarrow>
         (if npg_present e
          then fst (uu_npg_walk (vm_npg s') v wlk) = VM_DONE
               \<and> wlk_addr (snd (uu_npg_walk (vm_npg s') v wlk)) = page_addr (npg_addr e) + take_bit 12 v
          else fst (uu_npg_walk (vm_npg s') v wlk) = VM_FAULT))"
proof -
  obtain own where wf: "wf_tbls own (vm_npg s)" using assms(1) by (auto simp: tbls_ok_def)
  have b: "drop_bit 12 v = drop_bit 12 a \<longleftrightarrow> blk 0 v = blk 0 a" for v
    using drop_blk [of 0 v] drop_blk [of 0 a] by (simp add: blk_def word_unat_eq_iff unat_drop_bit_div)
  let ?s = "gdb_ok (s\<lparr>vm_npg := wr_ent p e (vm_npg s)\<rparr>)"
  have npg: "vm_npg ?s = wr_ent p e (vm_npg s)" by (simp add: gdb_ok_def gdb_io_write_def)
  show ?thesis
  proof (intro exI conjI allI impI)
    show "gdb_vmm_npg_set_pte data s = Some ?s" using assms(2,4) by (simp add: gdb_vmm_npg_set_pte_def with_args_def)
    show "io_out ?s = io_out s @ bytes_of_string ''+$OK#9a''" by (simp add: gdb_ok_def gdb_io_write_def)
    show "uu_npg_walk (vm_npg ?s) v wlk = uu_npg_walk (vm_npg s) v wlk" if "v < 2 ^ 48 \<and> drop_bit 12 v \<noteq> drop_bit 12 a" for v
      unfolding npg using that b by (intro set_pte_walk_other [OF wf assms(3,4)]) auto
    show "if npg_present e then fst (uu_npg_walk (vm_npg ?s) v wlk) = VM_DONE
        \<and> wlk_addr (snd (uu_npg_walk (vm_npg ?s) v wlk)) = page_addr (npg_addr e) + take_bit 12 v
        else fst (uu_npg_walk (vm_npg ?s) v wlk) = VM_FAULT" if "drop_bit 12 v = drop_bit 12 a" for v
      unfolding npg using set_pte_walk_page [OF wf assms(3,4)] that b by simp
  qed
qed

text \<open>Tables that map one page, at 4M.\<close>

definition page_ex :: npg_state where
  "page_ex = npg_ex\<lparr>npg_mem := (\<lambda>p. if p = (0x200000, 0) then 0x201007 else if p = (0x201000, 0) then 0x202007
     else if p = (0x202000, 2) then 0x203007 else if p = (0x203000, 0) then 0x400007 else 0)\<rparr>"

lemma page_ex_bits:
  "npg_present 0x201007" "npg_present 0x202007" "npg_present 0x203007" "npg_present 0x400007"
    "\<not> npg_large 0x201007" "\<not> npg_large 0x202007" "\<not> npg_large 0x203007" "\<not> npg_large 0x400007"
    "page_addr (npg_addr 0x201007) = 0x201000" "page_addr (npg_addr 0x202007) = 0x202000" "page_addr (npg_addr 0x203007) = 0x203000"
    "get_field 12 40 (0x400007 :: u64) = 0x400"
  by code_simp+

lemma page_ex_ok: "tbls_ok page_ex"
proof -
  define own :: labels where "own = [0x200000 \<mapsto> (3, 0), 0x201000 \<mapsto> (2, 0), 0x202000 \<mapsto> (1, 0), 0x203000 \<mapsto> (0, 2)]"
  have cfg: "npg_pml4 page_ex = 0x200000" "npg_pool page_ex = pool_init pool_ex" by (simp_all add: page_ex_def npg_ex_def)
  have pool: "pool_inv (pool_init pool_ex)" "pool_avail (pool_init pool_ex) = {0x100000, 0x101000, 0x102000, 0x103000}"
    using pool_ex_avail pool_ex_avail_set by simp_all
  have e: "ent_ok own page_ex 3 0 0x201007" "ent_ok own page_ex 2 0 0x202007" "ent_ok own page_ex 1 2 0x203007" "ent_ok own page_ex 0 1024 0x400007"
    by (simp_all add: ent_ok_def page_ex_bits own_def)
  have rd: "rd_ent (t, i) page_ex = (if (t, i) = (0x200000, 0) then 0x201007 else if (t, i) = (0x201000, 0) then 0x202007
      else if (t, i) = (0x202000, 2) then 0x203007 else if (t, i) = (0x203000, 0) then 0x400007 else 0)" for t i
    by (simp add: page_ex_def rd_ent_def)
  have "ent_ok own page_ex j (m * 512 + i) (rd_ent (t, i) page_ex)" if own_t: "own t = Some (j, m)" for t j m i
  proof -
    consider "t = 0x200000" "j = 3" "m = 0" | "t = 0x201000" "j = 2" "m = 0" | "t = 0x202000" "j = 1" "m = 0"
      | "t = 0x203000" "j = 0" "m = 2"
      using own_t by (auto simp: own_def split: if_splits)
    then show ?thesis
    proof cases
      case 1 then show ?thesis using e(1) ent_ok_0 [of own page_ex 3] by (cases "i = 0") (simp_all only: rd, simp_all)
    next
      case 2 then show ?thesis using e(2) ent_ok_0 [of own page_ex 2] by (cases "i = 0") (simp_all only: rd, simp_all)
    next
      case 3
      have k: "m * 512 + 2 = 2" "rd_ent (t, 2) page_ex = 0x203007" "i \<noteq> 2 \<Longrightarrow> rd_ent (t, i) page_ex = 0" using 3 by (simp_all add: rd)
      show ?thesis
      proof (cases "i = 2")
        case True
        show ?thesis unfolding True 3(2) k using e(3) .
      qed (use k(3) ent_ok_0 in metis)
    next
      case 4 then show ?thesis using e(4) ent_ok_0 [of own page_ex 0] by (cases "i = 0") (simp_all only: rd, simp_all)
    qed
  qed
  moreover have "j \<le> 3 \<and> in_48 (Suc j) m" if "own t = Some (j, m)" for t j m
    using that by (auto simp: own_def in_48_def lvl_shift_def split: if_splits)
  ultimately have "wf_tbls own page_ex"
    unfolding wf_tbls_def cfg pool(2) using pool(1) by (auto simp: own_def split: if_splits)
  then show ?thesis by (auto simp: tbls_ok_def)
qed

theorem gdb_set_pte_remaps_witness:
  "\<exists>s'. gdb_vmm_npg_set_pte (bytes_of_string ''00000000004000000000000000500007'') (gv_ex\<lparr>vm_npg := page_ex\<rparr>) = Some s'
     \<and> wlk_addr (snd (uu_npg_walk (vm_npg s') 0x400123 undefined)) = 0x500123"
proof -
  let ?s = "gv_ex\<lparr>vm_npg := page_ex\<rparr>"
  have a: "uu_gdb_vmm_parse_args (bytes_of_string ''00000000004000000000000000500007'') 2 = Some [0x400000, 0x500007]" by code_simp
  have i: "pml4_idx 0x400000 = 0" "pdp_idx 0x400000 = 0" "pd64_idx 0x400000 = 2" "pt64_idx 0x400000 = 0"
    by (simp_all add: pml4_idx_def pdp_idx_def pd64_idx_def pt64_idx_def)
  have p: "u_npg_get_pte 0x400000 (vm_npg ?s) = Some (0x203000, 0)"
    using i by (simp add: u_npg_get_pte_def uu_npg_get_pdpe_def uu_npg_get_pde_def uu_npg_get_pte_def uu_npg_get_pdpe_nocheck_def
        uu_npg_get_pde_nocheck_def uu_npg_get_pte_nocheck_def Let_def page_ex_def npg_ex_def rd_ent_def page_ex_bits)
  have n: "npg_present 0x500007" "page_addr (npg_addr 0x500007) = 0x500000" "take_bit 12 (0x400123 :: u64) = 0x123"
    "drop_bit 12 (0x400123 :: u64) = drop_bit 12 0x400000" by code_simp+
  have "tbls_ok (vm_npg ?s)" by (simp add: page_ex_ok)
  from gdb_set_pte_remaps [OF this a _ p, of undefined] obtain s' where
    "gdb_vmm_npg_set_pte (bytes_of_string ''00000000004000000000000000500007'') ?s = Some s'"
    "wlk_addr (snd (uu_npg_walk (vm_npg s') 0x400123 undefined)) = page_addr (npg_addr 0x500007) + take_bit 12 0x400123"
    using n(1,4) by auto
  then show ?thesis using n(2,3) by auto
qed

end
