(* ===== verification/Spec2Isabelle.thy ===== *)
theory Spec2Isabelle
  imports Strings Cdll Pool Npg Npg_Range Npg_Walk Mmu_Walk Vm_Access Dbg_Soft Dbg_Hard Ctrl_Evt Gdb_Pkt Gdb_Cmd Ctrl
    Net_Pkt Net Net_Udp Net_Arp Ip_Str Slab Io Devices Cr Rmode Ept Ept_Tbls Ept_Unmap Ept_Map Exits Gdb_Vmm
begin

text \<open>
  Verification of the hypervisor Ramooflax (Intel build with the gdb stub over a remote channel).

  \<^bold>\<open>The program.\<close> Ramooflax is a type 1 hypervisor for one guest. A setup stage prepares the
  nested page tables and the control structure of the processor; after that the hypervisor runs
  whenever the guest exits. It resolves the exit (exceptions, debug registers, page faults),
  records an event for the controller when the monitor, the debugger or the user asked for it,
  and the controller then runs the handler of the event, lets a remote gdb client work on
  the stopped guest, and arms the breakpoints of the address space that is about to run.

  \<^bold>\<open>Theories, from the bottom up\<close> (paths below \<^verbatim>\<open>src/\<close>):
  \<^item> \<^verbatim>\<open>Prelude\<close>: word types, bit fields, status codes (\<^verbatim>\<open>include/types.h\<close>, \<^verbatim>\<open>vmerr.h\<close>,
    \<^verbatim>\<open>pagemem.h\<close>) and the facts on words, alignment and pages that the components share.
  \<^item> \<^verbatim>\<open>Strings\<close>: hexadecimal and decimal conversions, \<^verbatim>\<open>strchr\<close> and the formatter
    (\<^verbatim>\<open>common/libc/string.c\<close>, \<^verbatim>\<open>print.c\<close>): round trips and bounds.
  \<^item> \<^verbatim>\<open>Cdll\<close>: the circular list macros of \<^verbatim>\<open>include/cdll.h\<close> on a heap of links; they refine
    operations on lists.
  \<^item> \<^verbatim>\<open>Pool\<close>: the page pool (\<^verbatim>\<open>common/libc/pool.c\<close>) on these lists. The locale \<open>page_pool\<close> is
    the contract its clients need; it is interpreted on the code's pool.
  \<^item> \<^verbatim>\<open>Slab\<close>: the allocator of small objects (\<^verbatim>\<open>vmm/src/core/slab.c\<close>, \<^verbatim>\<open>common/libc/malloc.c\<close>) on the
    pool: what \<^verbatim>\<open>malloc\<close> gives out is disjoint from everything in use, and \<^verbatim>\<open>free\<close> makes it available.
  \<^item> \<^verbatim>\<open>Npg\<close>, \<^verbatim>\<open>Npg_Range\<close>, \<^verbatim>\<open>Npg_Walk\<close>: nested page tables (\<^verbatim>\<open>common/libc/npt_map.c\<close>,
    \<^verbatim>\<open>vmm/src/core/npt_walk.c\<close>): entries and single pages, the two passes that cut a range into
    pages of four sizes, and the walk. The calls of the two passes, observed by running them on
    operators that record their arguments, tile the range, and a page that was mapped is found by
    the walk.
  \<^item> \<^verbatim>\<open>Mmu_Walk\<close>: the walk of the guest's own tables in its three paging modes
    (\<^verbatim>\<open>vmm/src/core/mmu_walk.c\<close>). The locale \<open>page_walk\<close> is what accesses rely on: one walk
    answers for every address of its page.
  \<^item> \<^verbatim>\<open>Vm_Access\<close>: every access to guest memory (\<^verbatim>\<open>vmm/src/core/vm.c\<close>): which bytes are read,
    which page fault the guest receives, that the memory of the hypervisor is never
    written through a translated address, and a case where a physical access reaches it.
  \<^item> \<^verbatim>\<open>Dbg_Soft\<close>, \<^verbatim>\<open>Dbg_Hard\<close>: the debugger (\<^verbatim>\<open>vmm/src/control/dbg_soft.c\<close>, \<^verbatim>\<open>dbg_hard*.c\<close>,
    \<^verbatim>\<open>vmm/src/core/dr.c\<close>). The record \<open>dbg_vm\<close> extends the processor state with the state of the
    debugger. Arming and disarming, setting and deleting are inverse; a session with
    hardware breakpoints gives the registers of the guest back.
  \<^item> \<^verbatim>\<open>Ctrl_Evt\<close>: events, resume, reflection of exceptions and traps (\<^verbatim>\<open>ctrl_evt.c\<close>, \<^verbatim>\<open>dbg.c\<close>,
    \<^verbatim>\<open>dbg_evt.c\<close>, \<^verbatim>\<open>ctrl.c\<close>, \<^verbatim>\<open>vmm/src/core/excp.c\<close>): stepping over a breakpoint that stays mapped, breakpoints
    present in one address space only, exceptions of the guest given back to it.
  \<^item> \<^verbatim>\<open>Gdb_Pkt\<close>, \<^verbatim>\<open>Gdb_Reg\<close>, \<^verbatim>\<open>Gdb_Cmd\<close>: packets, registers and commands of the gdb stub
    (\<^verbatim>\<open>gdbstub_pkt.c\<close>, \<^verbatim>\<open>gdbstub_reg.c\<close>, \<^verbatim>\<open>gdbstub_cmd.c\<close>, \<^verbatim>\<open>gdbstub.c\<close>): framing, independence of
    how bytes arrive, registers that read back, which commands let the guest run, and
    one command that never ends.
  \<^item> \<^verbatim>\<open>Ctrl\<close>: the handlers of the stub and the controller (\<^verbatim>\<open>gdbstub_evt.c\<close>, \<^verbatim>\<open>ctrl.c\<close>): a whole
    visit from the event of a breakpoint to the continued guest.
  \<^item> \<^verbatim>\<open>Net_Pkt\<close>, \<^verbatim>\<open>Net\<close>, \<^verbatim>\<open>Net_Udp\<close>, \<^verbatim>\<open>Net_Arp\<close>, \<^verbatim>\<open>Ip_Str\<close>: the network stack of the remote
    channel (\<^verbatim>\<open>common/net/*.c\<close>) and the descriptor rings of the card (\<^verbatim>\<open>common/drivers/e1000.c\<close>).
    Headers are written in place into packet buffers; the memory a generator leaves is
    one block of bytes, on which checksums and dissection are computed. What is written is
    what the peer reads, checksums verify, the ARP cache is a map with replacement, and
    printed addresses read back.
  \<^item> \<^verbatim>\<open>Io\<close>, \<^verbatim>\<open>Devices\<close>: port input and output (\<^verbatim>\<open>vmm/src/devices/*.c\<close>, \<^verbatim>\<open>vmm/src/core/device.c\<close>,
    \<^verbatim>\<open>vmx_exit_io.c\<close>) and external interrupts (\<^verbatim>\<open>vmx_exit_int.c\<close>, \<^verbatim>\<open>intr.c\<close>). A string transfer
    accounts for the bytes it moved even when it stops in the middle; the serial port is a stream
    for a guest that only writes; address line 20 is virtual; the card of the debugger, and the second
    EHCI controller in a build that uses it, are hidden from reads of the configuration space by double
    words; an interrupt waits for the guest. Two overruns of buffers of the hypervisor, a range of ports that is released by
    mistake and a serial port that gets stuck are proved as the code has them.
  \<^item> \<^verbatim>\<open>Cr\<close>: accesses to the control registers and the transitions between real and protected mode
    (\<^verbatim>\<open>vmm/src/core/cr.c\<close>, \<^verbatim>\<open>vm.c\<close>, \<^verbatim>\<open>vmx_exit_cr.c\<close>). The interceptions, the shadow registers and the
    registers of the processor agree on the mode of the guest after every access.
  \<^item> \<^verbatim>\<open>Rmode\<close>: emulated instructions, interrupts of a guest in real mode and the services of interrupt
    15h (\<^verbatim>\<open>emulate_rmode.c\<close>, \<^verbatim>\<open>emulate_int*.c\<close>, \<^verbatim>\<open>emulate_insn.c\<close>, \<^verbatim>\<open>disasm.c\<close>): an interrupt and its
    return are inverse, and the memory map is enumerated completely.
  \<^item> \<^verbatim>\<open>Ept\<close>, \<^verbatim>\<open>Ept_Tbls\<close>, \<^verbatim>\<open>Ept_Unmap\<close>, \<^verbatim>\<open>Ept_Map\<close>: the nested page tables as a whole
    (\<^verbatim>\<open>common/vmx/vmx_ept.c\<close>), with the memory types. The first has the code. The others prove what it
    builds: \<^verbatim>\<open>Ept_Tbls\<close> has the invariant of the tree of tables (a label on every table, what an entry
    must be under its label) and the map of a block, \<^verbatim>\<open>Ept_Unmap\<close> the clearing of entries and the return of
    tables to the pool, \<^verbatim>\<open>Ept_Map\<close> the services on blocks and ranges and the isolation of the hypervisor:
    after \<^verbatim>\<open>vmx_ept_map\<close> the guest reaches its memory at its own addresses and nothing of the area of the
    hypervisor. A page directory entry that is unmapped twice makes the code clear the first page of memory.
  \<^item> \<^verbatim>\<open>Exits\<close>: the handler of an exit with its table (\<^verbatim>\<open>vmx_exit.c\<close>) and the exits that the other
    theories do not have (\<^verbatim>\<open>vmx_exit_msr.c\<close>, \<^verbatim>\<open>_cpuid.c\<close>, \<^verbatim>\<open>_dt.c\<close>, \<^verbatim>\<open>_excp.c\<close>, \<^verbatim>\<open>_gp.c\<close>, \<^verbatim>\<open>_pf.c\<close>, \<^verbatim>\<open>_dr.c\<close>,
    \<^verbatim>\<open>_db.c\<close>): the model specific registers that the vmm keeps are a file of registers and the others are
    the processor's, which is an argument and may fault; the virtualisation extensions are hidden, an exit without a handler stops, and an interrupted event whose delivery fails is lost.
  \<^item> \<^verbatim>\<open>Gdb_Vmm\<close>: the commands that the stub adds to the protocol (\<^verbatim>\<open>gdbstub_vmm.c\<close>), on top of all of the
    above, and the environment that gives them to the command layer. None of them lets a stopped guest
    run; setting an entry of the nested tables remaps one page and nothing else; reading a model
    specific register leaves the guest as it was. One command byte reaches behind the table of
    handlers, and an invalid control register is written although the command means to refuse it. The
    store of eight bytes over a limit or an attribute is kept with the encoding it replaces.

  \<^bold>\<open>State.\<close> The records \<open>vm_state\<close>, \<open>vm_cpu\<close>, \<open>dbg_vm\<close>, \<open>ctrl_vm\<close>, \<open>gdb_state\<close>, \<open>io_vm\<close>, \<open>cpu_vm\<close>, \<open>rm_vm\<close>,
  \<open>exit_vm\<close> and \<open>gv_vm\<close> extend one another, one level per layer, so an operation of a lower layer is polymorphic in the
  fields above it. They hold the parts of \<^verbatim>\<open>info_data_t\<close> and of the control structure
  that the code reads or writes. The lazy reads and writes of the control structure (\<^verbatim>\<open>__pre_access\<close>,
  \<^verbatim>\<open>__post_access\<close>, \<^verbatim>\<open>vmcs_read\<close>, \<^verbatim>\<open>vmcs_dirty\<close>) are taken as transparent, and \<^verbatim>\<open>debug\<close> prints
  nothing. Guest memory is a function from physical addresses to bytes. The page pool and the
  nested tables have states of their own, and so has the network (\<open>net_info\<close>): its memory holds the
  packet buffers and is not the memory of the guest.

  \<^bold>\<open>Loops.\<close> Loops over tables are structural recursion; loops bounded by a length are functions
  with a measure on the bytes left, and progress is part of their termination proofs. Loops
  that can run forever (the forward pass over addresses, the receive loop, the register loop of
  the stub) are partial functions into \<^verbatim>\<open>option\<close>; that they end, or do not, is stated and
  proved. There is no fuel.

  \<^bold>\<open>Arguments.\<close> The disassembler, instructions executed on the processor for the guest, handlers passed as
  function pointers, the time stamp and the contents of uninitialised local variables are arguments
  of the definitions that use them; \<^verbatim>\<open>rdmsr\<close> and \<^verbatim>\<open>wrmsr\<close> answer from what the processor
  keeps, and can refuse. The extended commands of the monitor are an argument of the
  command layer, which \<^verbatim>\<open>Gdb_Vmm\<close> supplies. The remote channel is a list
  of the chunks that the host will send and the bytes sent so far. This is how the serial line
  behaves; over the network a chunk is a datagram, and the part that does not fit in the room
  of the reader is lost (\<^verbatim>\<open>Net_Udp\<close>). The card is the environment of its driver: it completes
  receive descriptors between calls. The native ports are a function from the port operations
  made so far to the answer of the next input; the wake up after a suspend is an argument.

  \<^bold>\<open>Not modelled\<close>: the boot stages, which run before the guest and read hardware; the drivers
  and the diagnostics of failed entries, which only program or print hardware registers; the
  vendored disassembler; the variant for AMD processors; files that no build contains
  (\<^verbatim>\<open>common/libc/paging.c\<close>, \<^verbatim>\<open>vmm/src/devices/pic.c\<close>, \<^verbatim>\<open>vmm/src/core/pf.c\<close>, \<^verbatim>\<open>smi.c\<close>).
\<close>

end
